(* ===== verification/Prelude.thy ===== *)
theory Prelude
  imports Main "HOL-Library.Word"
begin

text \<open>
  Shared vocabulary of the Aokie verification library: machine integers as the Rust sources
  have them (\<open>u8\<close>, \<open>u16\<close>, \<open>u32\<close>), byte strings, the sequencing of fallible steps, the bit
  arithmetic that the wire formats use, and the generic list facts behind the event queues.

  A Rust \<open>Result<T, E>\<close> is the sum \<open>E + T\<close>: \<open>Inl\<close> is \<open>Err\<close>, \<open>Inr\<close> is \<open>Ok\<close>.  A
  \<open>&[u8]\<close> or \<open>Vec<u8>\<close> is a list of bytes.  A \<open>std::time::Instant\<close> is a natural number of
  time units since an arbitrary origin and a \<open>Duration\<close> a number of the same units, so that
  \<open>saturating_duration_since\<close> is the truncating subtraction of \<open>nat\<close>.
\<close>

unbundle bit_operations_syntax

named_theorems wire_simps \<open>rewrite rules for encoders and decoders of wire formats\<close>
named_theorems step_simps \<open>rewrite rules for the effect of one state-machine step\<close>

type_synonym u8 = "8 word"
type_synonym u16 = "16 word"
type_synonym u32 = "32 word"
type_synonym bytes = "u8 list"
type_synonym instant = nat
type_synonym duration = nat

section \<open>Fallible steps\<close>

abbreviation is_ok :: "'e + 'a \<Rightarrow> bool" where
  "is_ok r \<equiv> \<not> isl r"

text \<open>The question-mark operator: stop at the first error.\<close>

definition and_then :: "'e + 'a \<Rightarrow> ('a \<Rightarrow> 'e + 'b) \<Rightarrow> 'e + 'b" where
  "and_then r f = (case r of Inl e \<Rightarrow> Inl e | Inr x \<Rightarrow> f x)"

lemma and_then_simps [simp]:
  "and_then (Inl e) f = Inl e"
  "and_then (Inr x) f = f x"
  by (simp_all add: and_then_def)

lemma and_then_InrE:
  assumes "and_then r f = Inr y"
  obtains x where "r = Inr x" and "f x = Inr y"
  using assms by (cases r) auto

section \<open>Machine integers\<close>

text \<open>Equality of bytes, bit by bit: with \<open>bit_simps\<close> it decides equations between fixed
  masks and shifts.\<close>

lemma less_8_cases:
  "(n::nat) < 8 \<longleftrightarrow> n = 0 \<or> n = 1 \<or> n = 2 \<or> n = 3 \<or> n = 4 \<or> n = 5 \<or> n = 6 \<or> n = 7"
  by auto

lemma u8_eq_iff_bits:
  "(x::u8) = y \<longleftrightarrow>
     bit x 0 = bit y 0 \<and> bit x 1 = bit y 1 \<and> bit x 2 = bit y 2 \<and> bit x 3 = bit y 3 \<and>
     bit x 4 = bit y 4 \<and> bit x 5 = bit y 5 \<and> bit x 6 = bit y 6 \<and> bit x 7 = bit y 7"
proof
  assume b: "bit x 0 = bit y 0 \<and> bit x 1 = bit y 1 \<and> bit x 2 = bit y 2 \<and> bit x 3 = bit y 3 \<and>
     bit x 4 = bit y 4 \<and> bit x 5 = bit y 5 \<and> bit x 6 = bit y 6 \<and> bit x 7 = bit y 7"
  show "x = y"
  proof (rule bit_word_eqI)
    fix n assume "n < LENGTH(8)"
    with b show "bit x n = bit y n" by (auto simp: less_8_cases)
  qed
qed simp

lemma bit_mult_2: "bit (w * 2 :: u8) n \<longleftrightarrow> 0 < n \<and> n < 8 \<and> bit w (n - 1)"
  using bit_double_iff [of w n] by (auto simp: mult.commute)

lemma bit_u8_8: "\<not> bit (w :: u8) 8"
  by (rule notI, drule bit_imp_le_length) simp

lemmas byte_bits = bit_u8_8 u8_eq_iff_bits bit_simps bit_mult_2 numeral_2_eq_2 [symmetric]

lemma u8_less_256 [simp]: "unat (x :: u8) < 256"
  using unsigned_less [of x] by simp

lemma u16_less_65536 [simp]: "unat (x :: u16) < 65536"
  using unsigned_less [of x] by simp

lemma and_mask6_id: "(d::u8) < 64 \<Longrightarrow> d AND 0x3f = d"
proof -
  assume "d < 64"
  then have "take_bit 6 d = d"
    by (simp add: word_less_nat_alt unsigned_take_bit_eq take_bit_nat_eq_self word_unat_eq_iff)
  then show ?thesis by (simp add: take_bit_eq_mask mask_numeral)
qed

text \<open>Joining disjoint bit fields is addition.\<close>

lemma or_push_bit_eq_add:
  fixes a b :: nat
  assumes "a < 2 ^ n"
  shows "a OR push_bit n b = a + 2 ^ n * b"
proof -
  have "a + push_bit n b = a OR push_bit n b"
  proof (rule disjunctive_add)
    fix k
    show "\<not> bit a k \<or> \<not> bit (push_bit n b) k"
    proof (cases "k < n")
      case True
      then show ?thesis by (simp add: bit_push_bit_iff)
    next
      case False
      with assms have "take_bit n a = a" by (simp add: take_bit_nat_eq_self)
      with False have "\<not> bit a k" by (metis bit_take_bit_iff)
      then show ?thesis by simp
    qed
  qed
  then show ?thesis by (simp add: push_bit_eq_mult mult.commute)
qed

text \<open>\<open>saturating_add\<close> and \<open>saturating_sub\<close> of \<open>u16\<close>, and \<open>Ord::clamp\<close>.\<close>

definition sat_add16 :: "u16 \<Rightarrow> u16 \<Rightarrow> u16" where
  "sat_add16 a b = (if unat a + unat b < 65536 then a + b else 65535)"

definition sat_sub16 :: "u16 \<Rightarrow> u16 \<Rightarrow> u16" where
  "sat_sub16 a b = (if a < b then 0 else a - b)"

definition clamp16 :: "u16 \<Rightarrow> u16 \<Rightarrow> u16 \<Rightarrow> u16" where
  "clamp16 x lo hi = (if x < lo then lo else if hi < x then hi else x)"

lemma unat_sat_add16: "unat (sat_add16 a b) = min 65535 (unat a + unat b)"
  by (auto simp: sat_add16_def unat_word_ariths)

lemma unat_sat_sub16: "unat (sat_sub16 a b) = unat a - unat b"
  by (auto simp: sat_sub16_def word_less_nat_alt unat_sub_if_size word_size)

lemma clamp16_bounds: "lo \<le> hi \<Longrightarrow> lo \<le> clamp16 x lo hi \<and> clamp16 x lo hi \<le> hi"
  by (auto simp: clamp16_def)

text \<open>Widening \<open>u8\<close> to \<open>u16\<close> and the two halves of a little-endian \<open>u16\<close>.\<close>

abbreviation u16_of_u8 :: "u8 \<Rightarrow> u16" where
  "u16_of_u8 b \<equiv> ucast b"

definition u16_from_le_bytes :: "u8 \<Rightarrow> u8 \<Rightarrow> u16" where
  "u16_from_le_bytes lo hi = ucast lo OR push_bit 8 (ucast hi)"

definition u16_lo :: "u16 \<Rightarrow> u8" where "u16_lo w = ucast w"

definition u16_hi :: "u16 \<Rightarrow> u8" where "u16_hi w = ucast (drop_bit 8 w)"

lemma u16_le_bytes_roundtrip [wire_simps, simp]: "u16_from_le_bytes (u16_lo w) (u16_hi w) = w"
proof (rule bit_word_eqI)
  fix n assume "n < LENGTH(16)"
  then show "bit (u16_from_le_bytes (u16_lo w) (u16_hi w)) n = bit w n"
    by (auto simp: u16_from_le_bytes_def u16_lo_def u16_hi_def bit_simps)
qed

lemma u16_le_bytes_split [simp]:
  "u16_lo (u16_from_le_bytes lo hi) = lo" "u16_hi (u16_from_le_bytes lo hi) = hi"
proof -
  show "u16_lo (u16_from_le_bytes lo hi) = lo"
    by (rule bit_word_eqI) (auto simp: u16_from_le_bytes_def u16_lo_def bit_simps)
  show "u16_hi (u16_from_le_bytes lo hi) = hi"
    by (rule bit_word_eqI) (auto simp: u16_from_le_bytes_def u16_hi_def bit_simps dest: bit_imp_le_length)
qed

text \<open>\<open>to_be_bytes\<close> and \<open>from_be_bytes\<close>.\<close>

definition u16_be :: "u16 \<Rightarrow> bytes" where
  "u16_be w = [u16_hi w, u16_lo w]"

abbreviation u16_from_be_bytes :: "u8 \<Rightarrow> u8 \<Rightarrow> u16" where
  "u16_from_be_bytes hi lo \<equiv> u16_from_le_bytes lo hi"

definition u32_be :: "u32 \<Rightarrow> bytes" where
  "u32_be w = [ucast (drop_bit 24 w), ucast (drop_bit 16 w), ucast (drop_bit 8 w), ucast w]"

definition u32_from_be_bytes :: "u8 \<Rightarrow> u8 \<Rightarrow> u8 \<Rightarrow> u8 \<Rightarrow> u32" where
  "u32_from_be_bytes a b c d =
     push_bit 24 (ucast a) OR push_bit 16 (ucast b) OR push_bit 8 (ucast c) OR ucast d"

lemma u32_be_roundtrip [wire_simps, simp]:
  "u32_from_be_bytes (ucast (drop_bit 24 w)) (ucast (drop_bit 16 w)) (ucast (drop_bit 8 w)) (ucast w) = w"
proof (rule bit_word_eqI)
  fix n assume "n < LENGTH(32)"
  then consider "n < 8" | "8 \<le> n" "n < 16" | "16 \<le> n" "n < 24" | "24 \<le> n" "n < 32" by fastforce
  then show "bit (u32_from_be_bytes (ucast (drop_bit 24 w)) (ucast (drop_bit 16 w))
      (ucast (drop_bit 8 w)) (ucast w)) n = bit w n"
    by cases (auto simp: u32_from_be_bytes_def bit_simps)
qed

lemma length_u16_be [simp]: "length (u16_be w) = 2"
  by (simp add: u16_be_def)

lemma length_u32_be [simp]: "length (u32_be w) = 4"
  by (simp add: u32_be_def)

lemma unat_u16_small [simp]: "n < 65536 \<Longrightarrow> unat (word_of_nat n :: u16) = n"
  by (simp add: unat_of_nat)

section \<open>First matches\<close>

lemma find_upt_Some:
  "find P [a..<b] = Some k \<longleftrightarrow> a \<le> k \<and> k < b \<and> P k \<and> (\<forall>j. a \<le> j \<and> j < k \<longrightarrow> \<not> P j)"
proof
  assume "find P [a..<b] = Some k"
  then obtain i where i: "i < b - a" "P (a + i)" "k = a + i" "\<forall>j<i. \<not> P (a + j)" by (auto simp: find_Some_iff)
  have "\<not> P j" if "a \<le> j" "j < k" for j using i(3,4) that by (metis add_diff_inverse_nat less_diff_conv2 not_less add.commute)
  with i show "a \<le> k \<and> k < b \<and> P k \<and> (\<forall>j. a \<le> j \<and> j < k \<longrightarrow> \<not> P j)" by auto
next
  assume "a \<le> k \<and> k < b \<and> P k \<and> (\<forall>j. a \<le> j \<and> j < k \<longrightarrow> \<not> P j)"
  then show "find P [a..<b] = Some k" by (auto simp: find_Some_iff intro!: exI [of _ "k - a"])
qed

end
