(* ===== verification/Rfcomm_Frame.thy ===== *)
theory Rfcomm_Frame
  imports Prelude
begin

text \<open>
  The RFCOMM frame codec of \<open>aokie_radio/rfcomm.rs\<close>: TS 07.10 frames (\<open>parse_frame\<close>,
  \<open>build_frame\<close> and the builders over it), the multiplexer commands carried on DLCI 0
  (\<open>parse_multiplexer_command\<close> and its builders), the two length encodings and the frame
  check sequence.  The error strings of the source are the constructors of
  \<open>rfcomm_error\<close>, with the values the messages print.
\<close>

section \<open>Constants\<close>

abbreviation (input) RFCOMM_DLCI_MULTIPLEXER :: u8 where "RFCOMM_DLCI_MULTIPLEXER \<equiv> 0"
abbreviation (input) RFCOMM_CONTROL_SABM :: u8 where "RFCOMM_CONTROL_SABM \<equiv> 0x3f"
abbreviation (input) RFCOMM_CONTROL_UA :: u8 where "RFCOMM_CONTROL_UA \<equiv> 0x73"
abbreviation (input) RFCOMM_CONTROL_DM :: u8 where "RFCOMM_CONTROL_DM \<equiv> 0x0f"
abbreviation (input) RFCOMM_CONTROL_DM_PF :: u8 where "RFCOMM_CONTROL_DM_PF \<equiv> 0x1f"
abbreviation (input) RFCOMM_CONTROL_DISC :: u8 where "RFCOMM_CONTROL_DISC \<equiv> 0x53"
abbreviation (input) RFCOMM_CONTROL_UIH :: u8 where "RFCOMM_CONTROL_UIH \<equiv> 0xef"
abbreviation (input) RFCOMM_CONTROL_UIH_PF :: u8 where "RFCOMM_CONTROL_UIH_PF \<equiv> 0xff"
abbreviation (input) RFCOMM_MUX_FCON_CMD :: u8 where "RFCOMM_MUX_FCON_CMD \<equiv> 0xa3"
abbreviation (input) RFCOMM_MUX_FCON_RSP :: u8 where "RFCOMM_MUX_FCON_RSP \<equiv> 0xa1"
abbreviation (input) RFCOMM_MUX_FCOFF_CMD :: u8 where "RFCOMM_MUX_FCOFF_CMD \<equiv> 0x63"
abbreviation (input) RFCOMM_MUX_FCOFF_RSP :: u8 where "RFCOMM_MUX_FCOFF_RSP \<equiv> 0x61"
abbreviation (input) RFCOMM_MUX_MSC_CMD :: u8 where "RFCOMM_MUX_MSC_CMD \<equiv> 0xe3"
abbreviation (input) RFCOMM_MUX_MSC_RSP :: u8 where "RFCOMM_MUX_MSC_RSP \<equiv> 0xe1"
abbreviation (input) RFCOMM_LOCAL_MODEM_STATUS :: u8 where "RFCOMM_LOCAL_MODEM_STATUS \<equiv> 0x8d"
abbreviation (input) RFCOMM_MUX_NSC_RSP :: u8 where "RFCOMM_MUX_NSC_RSP \<equiv> 0x11"
abbreviation (input) RFCOMM_MUX_PN_CMD :: u8 where "RFCOMM_MUX_PN_CMD \<equiv> 0x83"
abbreviation (input) RFCOMM_MUX_PN_RSP :: u8 where "RFCOMM_MUX_PN_RSP \<equiv> 0x81"
abbreviation (input) RFCOMM_PN_BLUETOOTH_FRAME_TYPE :: u8 where "RFCOMM_PN_BLUETOOTH_FRAME_TYPE \<equiv> 0xf0"
abbreviation (input) RFCOMM_PN_BLUETOOTH_FRAME_TYPE_CFC :: u8 where
  "RFCOMM_PN_BLUETOOTH_FRAME_TYPE_CFC \<equiv> 0xe0"
abbreviation (input) RFCOMM_DEFAULT_MAX_FRAME_SIZE :: u16 where "RFCOMM_DEFAULT_MAX_FRAME_SIZE \<equiv> 127"
abbreviation (input) RFCOMM_MIN_MAX_FRAME_SIZE :: u16 where "RFCOMM_MIN_MAX_FRAME_SIZE \<equiv> 23"
abbreviation (input) RFCOMM_CONTROL_POLL_FINAL :: u8 where "RFCOMM_CONTROL_POLL_FINAL \<equiv> 0x10"
abbreviation (input) RFCOMM_CRC8_INIT :: u8 where "RFCOMM_CRC8_INIT \<equiv> 0xff"
abbreviation (input) RFCOMM_CRC8_POLY_REVERSED :: u8 where "RFCOMM_CRC8_POLY_REVERSED \<equiv> 0xe0"

section \<open>Frames and commands\<close>

datatype RfcommFrameKind = Sabm | Ua | Dm | Disc | Uih | Unknown u8

record rfcomm_frame =
  fr_dlci :: u8
  fr_command_response :: bool
  fr_kind :: RfcommFrameKind
  fr_poll_final :: bool
  fr_credits :: "u8 option"
  fr_payload :: bytes

datatype RfcommMuxCommand =
    ParameterNegotiation (pn_is_response: bool) (pn_dlci: u8) (pn_frame_type: u8)
      (pn_priority: u8) (pn_max_frame_size: u16) (pn_credits: u8)
  | ModemStatus (msc_is_response: bool) (msc_dlci: u8) (msc_signals: u8)
  | FlowControlOn
  | FlowControlOff
  | UnknownMux (mux_command_type: u8) (mux_payload: bytes)

datatype rfcomm_error =
    TooShort string nat nat
  | AddressEaNotSet
  | TrailingBytes nat
  | FcsMismatch u8 u8

definition require_len :: "bytes \<Rightarrow> nat \<Rightarrow> string \<Rightarrow> rfcomm_error + unit" where
  "require_len p min_len name =
     (if length p < min_len then Inl (TooShort name min_len (length p)) else Inr ())"

section \<open>Addresses, lengths and the check sequence\<close>

definition server_channel_dlci :: "u8 \<Rightarrow> bool \<Rightarrow> u8" where
  "server_channel_dlci server_channel initiator_direction =
     push_bit 1 (server_channel AND 0x1f) OR of_bool initiator_direction"

definition address_byte :: "u8 \<Rightarrow> bool \<Rightarrow> u8" where
  "address_byte d cr = 0x01 OR push_bit 1 (of_bool cr) OR push_bit 2 (d AND 0x3f)"

definition frame_kind :: "u8 \<Rightarrow> RfcommFrameKind" where
  "frame_kind control =
     (let c = control AND NOT RFCOMM_CONTROL_POLL_FINAL in
      if c = 0x2f then Sabm
      else if c = 0x63 then Ua
      else if c = RFCOMM_CONTROL_DM then Dm
      else if c = 0x43 then Disc
      else if c = RFCOMM_CONTROL_UIH then Uih
      else Unknown control)"

definition encode_length :: "nat \<Rightarrow> bytes" where
  "encode_length len =
     (if len < 128 then [push_bit 1 (word_of_nat len) OR 1]
      else [push_bit 1 (word_of_nat len AND 0x7f), word_of_nat (drop_bit 7 len)])"

definition decode_multiplexer_length :: "bytes \<Rightarrow> rfcomm_error + nat \<times> nat" where
  "decode_multiplexer_length p =
     and_then (require_len p 1 ''RFCOMM length'') (\<lambda>_.
       if (p ! 0) AND 0x01 \<noteq> 0 then Inr (unat (drop_bit 1 (p ! 0)), 1)
       else and_then (require_len p 2 ''RFCOMM extended length'') (\<lambda>_.
         Inr (unat (drop_bit 1 (p ! 0)) OR push_bit 7 (unat (p ! 1)), 2)))"

definition decode_length :: "bytes \<Rightarrow> rfcomm_error + nat \<times> nat" where
  "decode_length packet =
     and_then (require_len packet 3 ''RFCOMM length'') (\<lambda>_.
       decode_multiplexer_length (drop 2 packet))"

definition crc_bit :: "u8 \<Rightarrow> u8" where
  "crc_bit crc =
     (if crc AND 0x01 \<noteq> 0 then drop_bit 1 crc XOR RFCOMM_CRC8_POLY_REVERSED
      else drop_bit 1 crc)"

fun crc_bits :: "nat \<Rightarrow> u8 \<Rightarrow> u8" where
  "crc_bits 0 crc = crc"
| "crc_bits (Suc n) crc = crc_bits n (crc_bit crc)"

fun crc_bytes :: "u8 \<Rightarrow> bytes \<Rightarrow> u8" where
  "crc_bytes crc [] = crc"
| "crc_bytes crc (byte # data) = crc_bytes (crc_bits 8 (crc XOR byte)) data"

definition rfcomm_fcs :: "bytes \<Rightarrow> u8" where
  "rfcomm_fcs data = NOT (crc_bytes RFCOMM_CRC8_INIT data)"

section \<open>Parsing and building frames\<close>

definition parse_frame :: "bytes \<Rightarrow> rfcomm_error + rfcomm_frame" where
  "parse_frame packet =
     and_then (require_len packet 4 ''RFCOMM frame'') (\<lambda>_.
     let address = packet ! 0 in
     if address AND 0x01 = 0 then Inl AddressEaNotSet else
     let control = packet ! 1;
         k = frame_kind control;
         pf = (control AND RFCOMM_CONTROL_POLL_FINAL \<noteq> 0) in
     and_then (decode_length packet) (\<lambda>(payload_len, length_octets).
     let credits_offset = (k = Uih \<and> pf);
         payload_offset = 2 + length_octets + of_bool credits_offset;
         fcs_offset = payload_offset + payload_len in
     and_then (require_len packet (fcs_offset + 1) ''RFCOMM frame payload'') (\<lambda>_.
     if length packet \<noteq> fcs_offset + 1
     then Inl (TrailingBytes (length packet - (fcs_offset + 1))) else
     let fcs_input_len = (if k = Uih then 2 else 2 + length_octets);
         expected_fcs = rfcomm_fcs (take fcs_input_len packet) in
     if packet ! fcs_offset \<noteq> expected_fcs
     then Inl (FcsMismatch expected_fcs (packet ! fcs_offset))
     else Inr \<lparr>fr_dlci = drop_bit 2 address,
               fr_command_response = (address AND 0x02 \<noteq> 0),
               fr_kind = k,
               fr_poll_final = pf,
               fr_credits = (if credits_offset then Some (packet ! (2 + length_octets)) else None),
               fr_payload = take (fcs_offset - payload_offset) (drop payload_offset packet)\<rparr>)))"

definition build_frame :: "u8 \<Rightarrow> bool \<Rightarrow> u8 \<Rightarrow> u8 option \<Rightarrow> bytes \<Rightarrow> bytes" where
  "build_frame d cr control creds p =
     (let header = [address_byte d cr, control] @ encode_length (length p);
          fcs_input_len = (if frame_kind control = Uih then 2 else length header);
          out = header @ (case creds of None \<Rightarrow> [] | Some c \<Rightarrow> [c]) @ p
      in out @ [rfcomm_fcs (take fcs_input_len out)])"

definition build_sabm :: "u8 \<Rightarrow> bool \<Rightarrow> bytes" where
  "build_sabm d cr = build_frame d cr RFCOMM_CONTROL_SABM None []"

definition build_ua :: "u8 \<Rightarrow> bool \<Rightarrow> bytes" where
  "build_ua d cr = build_frame d cr RFCOMM_CONTROL_UA None []"

definition build_dm :: "u8 \<Rightarrow> bool \<Rightarrow> bytes" where
  "build_dm d cr = build_frame d cr RFCOMM_CONTROL_DM_PF None []"

definition build_disc :: "u8 \<Rightarrow> bool \<Rightarrow> bytes" where
  "build_disc d cr = build_frame d cr RFCOMM_CONTROL_DISC None []"

definition build_uih :: "u8 \<Rightarrow> bool \<Rightarrow> u8 option \<Rightarrow> bytes \<Rightarrow> bytes" where
  "build_uih d cr creds p =
     build_frame d cr (if creds \<noteq> None then RFCOMM_CONTROL_UIH_PF else RFCOMM_CONTROL_UIH) creds p"

section \<open>Multiplexer commands\<close>

definition parse_multiplexer_command :: "bytes \<Rightarrow> rfcomm_error + RfcommMuxCommand" where
  "parse_multiplexer_command p =
     and_then (require_len p 2 ''RFCOMM multiplexer command'') (\<lambda>_.
     let command_type = p ! 0 in
     and_then (decode_multiplexer_length (drop 1 p)) (\<lambda>(len, length_octets).
     let off = 1 + length_octets in
     and_then (require_len p (off + len) ''RFCOMM multiplexer command payload'') (\<lambda>_.
     let cp = take len (drop off p) in
     if command_type = RFCOMM_MUX_PN_CMD \<or> command_type = RFCOMM_MUX_PN_RSP then
       and_then (require_len cp 8 ''RFCOMM PN command'') (\<lambda>_.
         Inr (ParameterNegotiation (command_type = RFCOMM_MUX_PN_RSP) (cp ! 0) (cp ! 1) (cp ! 2)
                (u16_from_le_bytes (cp ! 4) (cp ! 5)) (cp ! 7)))
     else if command_type = RFCOMM_MUX_MSC_CMD \<or> command_type = RFCOMM_MUX_MSC_RSP then
       and_then (require_len cp 2 ''RFCOMM MSC frame'') (\<lambda>_.
         Inr (ModemStatus (command_type = RFCOMM_MUX_MSC_RSP) (drop_bit 2 (cp ! 0)) (cp ! 1)))
     else if command_type = RFCOMM_MUX_FCON_CMD then Inr FlowControlOn
     else if command_type = RFCOMM_MUX_FCOFF_CMD then Inr FlowControlOff
     else Inr (UnknownMux command_type cp))))"

definition build_multiplexer_command :: "u8 \<Rightarrow> bytes \<Rightarrow> bytes" where
  "build_multiplexer_command command_type p = [command_type] @ encode_length (length p) @ p"

definition build_parameter_negotiation ::
    "u8 \<Rightarrow> u8 \<Rightarrow> u8 \<Rightarrow> u8 \<Rightarrow> u16 \<Rightarrow> u8 \<Rightarrow> bytes" where
  "build_parameter_negotiation command_type d frame_type priority max_frame_size creds =
     build_multiplexer_command command_type
       [d, frame_type, priority, 0x00, u16_lo max_frame_size, u16_hi max_frame_size, 0x00, creds]"

definition build_parameter_negotiation_command :: "u8 \<Rightarrow> u8 \<Rightarrow> u16 \<Rightarrow> u8 \<Rightarrow> bytes" where
  "build_parameter_negotiation_command d =
     build_parameter_negotiation RFCOMM_MUX_PN_CMD d RFCOMM_PN_BLUETOOTH_FRAME_TYPE"

definition build_parameter_negotiation_command_cfc :: "u8 \<Rightarrow> u8 \<Rightarrow> u16 \<Rightarrow> u8 \<Rightarrow> bytes" where
  "build_parameter_negotiation_command_cfc d =
     build_parameter_negotiation RFCOMM_MUX_PN_CMD d RFCOMM_PN_BLUETOOTH_FRAME_TYPE_CFC"

definition build_parameter_negotiation_response :: "u8 \<Rightarrow> u8 \<Rightarrow> u16 \<Rightarrow> u8 \<Rightarrow> bytes" where
  "build_parameter_negotiation_response d =
     build_parameter_negotiation RFCOMM_MUX_PN_RSP d RFCOMM_PN_BLUETOOTH_FRAME_TYPE"

definition build_parameter_negotiation_response_cfc :: "u8 \<Rightarrow> u8 \<Rightarrow> u16 \<Rightarrow> u8 \<Rightarrow> bytes" where
  "build_parameter_negotiation_response_cfc d =
     build_parameter_negotiation RFCOMM_MUX_PN_RSP d RFCOMM_PN_BLUETOOTH_FRAME_TYPE_CFC"

definition build_modem_status :: "u8 \<Rightarrow> u8 \<Rightarrow> u8 \<Rightarrow> bytes" where
  "build_modem_status command_type d signals =
     build_multiplexer_command command_type [address_byte d True, signals]"

definition build_modem_status_command :: "u8 \<Rightarrow> u8 \<Rightarrow> bytes" where
  "build_modem_status_command = build_modem_status RFCOMM_MUX_MSC_CMD"

definition build_modem_status_response :: "u8 \<Rightarrow> u8 \<Rightarrow> bytes" where
  "build_modem_status_response = build_modem_status RFCOMM_MUX_MSC_RSP"

definition build_nsc_response :: "u8 \<Rightarrow> bytes" where
  "build_nsc_response command_type = build_multiplexer_command RFCOMM_MUX_NSC_RSP [command_type]"

definition build_empty_multiplexer_response :: "u8 \<Rightarrow> bytes" where
  "build_empty_multiplexer_response command_type = build_multiplexer_command command_type []"

section \<open>Bit-level facts\<close>

lemma address_byte_ea: "address_byte d cr AND 1 \<noteq> 0"
  by (simp add: address_byte_def byte_bits)

lemma address_byte_cr: "address_byte d cr AND 2 \<noteq> 0 \<longleftrightarrow> cr"
  by (simp add: address_byte_def byte_bits)

lemma address_byte_dlci: "drop_bit 2 (address_byte d cr) = d AND 0x3f"
  by (simp add: address_byte_def byte_bits)

lemmas address_byte_simps [wire_simps] = address_byte_ea address_byte_cr address_byte_dlci

lemma drop_bit_2_less_64: "drop_bit 2 (a::u8) < 64"
proof -
  have "unat a div 4 < 64" using u8_less_256 [of a] by linarith
  then show ?thesis by (simp add: word_less_nat_alt unat_drop_bit_eq drop_bit_eq_div unat_div)
qed

lemma server_channel_dlci_less_64: "server_channel_dlci ch dir < 64"
proof -
  have "drop_bit 2 (push_bit 2 (server_channel_dlci ch dir)) = server_channel_dlci ch dir"
    by (simp add: server_channel_dlci_def byte_bits)
  then show ?thesis by (metis drop_bit_2_less_64)
qed

lemma server_channel_dlci_parity: "server_channel_dlci ch dir AND 1 = of_bool dir"
  by (simp add: server_channel_dlci_def byte_bits)

lemma frame_kind_control [wire_simps]:
  "frame_kind 0x3f = Sabm" "frame_kind 0x73 = Ua" "frame_kind 0x1f = Dm" "frame_kind 0x0f = Dm"
  "frame_kind 0x53 = Disc" "frame_kind 0xef = Uih" "frame_kind 0xff = Uih"
  by (simp_all add: frame_kind_def)

section \<open>Lengths\<close>

lemma decode_short_length_byte:
  assumes "len < 128"
  shows "unat (drop_bit 1 (push_bit 1 (word_of_nat len :: u8) OR 1)) = len"
    and "(push_bit 1 (word_of_nat len :: u8) OR 1) AND 1 \<noteq> 0"
proof -
  have t: "take_bit 7 (word_of_nat len :: u8) = word_of_nat len"
    using assms by (simp add: word_unat_eq_iff unsigned_take_bit_eq unat_of_nat take_bit_nat_eq_self)
  have "drop_bit 1 (push_bit 1 w OR 1) = take_bit 7 w" for w :: u8
    by (simp add: byte_bits)
  with t show "unat (drop_bit 1 (push_bit 1 (word_of_nat len :: u8) OR 1)) = len"
    using assms by (simp add: unat_of_nat)
  show "(push_bit 1 (word_of_nat len :: u8) OR 1) AND 1 \<noteq> 0"
    by (simp add: byte_bits)
qed

lemma decode_long_length_bytes:
  assumes "len < 2 ^ 15"
  shows "unat (drop_bit 1 (push_bit 1 (word_of_nat len AND 0x7f :: u8)))
           OR push_bit 7 (unat (word_of_nat (drop_bit 7 len) :: u8)) = len"
    and "push_bit 1 (word_of_nat len AND 0x7f :: u8) AND 1 = 0"
proof -
  have m: "drop_bit 1 (push_bit 1 (w AND 0x7f)) = take_bit 7 w" for w :: u8
    by (simp add: byte_bits)
  have lo: "unat (drop_bit 1 (push_bit 1 (word_of_nat len AND 0x7f :: u8))) = len mod 128"
    unfolding m by (simp add: unsigned_take_bit_eq unat_of_nat take_bit_eq_mod unat_mod mod_mod_cancel)
  have "len div 128 < 256" using assms by simp
  then have hi: "unat (word_of_nat (drop_bit 7 len) :: u8) = len div 128"
    by (simp add: unat_of_nat drop_bit_eq_div)
  have "len mod 128 OR push_bit 7 (len div 128) = len mod 128 + 2 ^ 7 * (len div 128)"
    by (rule or_push_bit_eq_add) simp
  then show "unat (drop_bit 1 (push_bit 1 (word_of_nat len AND 0x7f :: u8)))
           OR push_bit 7 (unat (word_of_nat (drop_bit 7 len) :: u8)) = len"
    by (simp only: lo hi) simp
  show "push_bit 1 (word_of_nat len AND 0x7f :: u8) AND 1 = 0"
    by (simp add: byte_bits)
qed

lemma length_encode_length: "length (encode_length n) = (if n < 128 then 1 else 2)"
  by (simp add: encode_length_def)

lemma encode_length_not_Nil [simp]: "encode_length n \<noteq> []"
  by (simp add: encode_length_def)

lemma decode_encode_length [wire_simps]:
  assumes "n < 2 ^ 15"
  shows "decode_multiplexer_length (encode_length n @ rest)
           = Inr (n, length (encode_length n))"
proof (cases "n < 128")
  case True
  then show ?thesis
    using decode_short_length_byte [OF True]
    by (simp add: encode_length_def decode_multiplexer_length_def require_len_def)
next
  case False
  then show ?thesis
    using decode_long_length_bytes [OF assms]
    by (simp add: encode_length_def decode_multiplexer_length_def require_len_def)
qed


section \<open>Frames\<close>

text \<open>Which control byte goes with which credits: only a UIH with the poll bit carries a
  credit octet.\<close>

definition credits_fit :: "u8 \<Rightarrow> u8 option \<Rightarrow> bool" where
  "credits_fit control creds \<longleftrightarrow>
     (creds \<noteq> None \<longleftrightarrow> frame_kind control = Uih \<and> control AND RFCOMM_CONTROL_POLL_FINAL \<noteq> 0)"

lemma decode_length_frame [wire_simps]:
  "n < 2 ^ 15 \<Longrightarrow> decode_length (a # c # encode_length n @ rest) = Inr (n, length (encode_length n))"
  by (simp add: decode_length_def require_len_def decode_encode_length length_encode_length)

lemma parse_build_frame:
  assumes "length p < 2 ^ 15" and "credits_fit control creds"
  shows "parse_frame (build_frame d cr control creds p) =
           Inr \<lparr>fr_dlci = d AND 0x3f, fr_command_response = cr, fr_kind = frame_kind control,
                fr_poll_final = (control AND RFCOMM_CONTROL_POLL_FINAL \<noteq> 0),
                fr_credits = creds, fr_payload = p\<rparr>"
proof -
  define L where "L = encode_length (length p)"
  define cs where "cs = (case creds of None \<Rightarrow> [] | Some c \<Rightarrow> [c])"
  define off where "off = (frame_kind control = Uih \<and> control AND RFCOMM_CONTROL_POLL_FINAL \<noteq> 0)"
  define h where "h = address_byte d cr # control # L"
  define n where "n = (if frame_kind control = Uih then 2 else length h)"
  define f where "f = rfcomm_fcs (take n h)"
  have n: "n \<le> length h" by (simp add: n_def h_def)
  have bf: "build_frame d cr control creds p = h @ cs @ p @ [f]"
    using n by (simp add: build_frame_def h_def cs_def L_def n_def f_def Let_def)
  have cs: "length cs = of_bool off"
    using assms(2) by (auto simp: cs_def off_def credits_fit_def split: option.splits)
  have len: "decode_length (h @ cs @ p @ [f]) = Inr (length p, length L)"
    using assms(1) unfolding h_def L_def by (simp add: decode_length_frame)
  have creds: "(if off then Some ((h @ cs @ p @ [f]) ! (2 + length L)) else None) = creds"
    using assms(2) cs
    by (cases creds) (auto simp: cs_def off_def credits_fit_def h_def nth_append)
  have L: "0 < length L" by (simp add: L_def)
  have fcs: "(h @ cs @ p @ [f]) ! (2 + length L + of_bool off + length p) = f"
    using cs by (simp add: h_def nth_append)
  have pay: "drop (2 + length L + of_bool off) (h @ cs @ p @ [f]) = p @ [f]"
    using cs by (simp add: h_def)
  have nn: "(if frame_kind control = Uih then 2 else 2 + length L) = n"
    by (simp add: n_def h_def)
  have tk: "rfcomm_fcs (take n (h @ rest)) = f" for rest
    using n by (simp add: f_def)
  show ?thesis
    unfolding bf parse_frame_def len
    using L cs creds fcs pay nn tk [of "cs @ p @ [f]"]
    by (simp add: require_len_def Let_def h_def address_byte_simps off_def [symmetric])
qed

lemma parse_build_control:
  "parse_frame (build_sabm d cr) = Inr \<lparr>fr_dlci = d AND 0x3f, fr_command_response = cr,
     fr_kind = Sabm, fr_poll_final = True, fr_credits = None, fr_payload = []\<rparr>"
  "parse_frame (build_ua d cr) = Inr \<lparr>fr_dlci = d AND 0x3f, fr_command_response = cr,
     fr_kind = Ua, fr_poll_final = True, fr_credits = None, fr_payload = []\<rparr>"
  "parse_frame (build_dm d cr) = Inr \<lparr>fr_dlci = d AND 0x3f, fr_command_response = cr,
     fr_kind = Dm, fr_poll_final = True, fr_credits = None, fr_payload = []\<rparr>"
  "parse_frame (build_disc d cr) = Inr \<lparr>fr_dlci = d AND 0x3f, fr_command_response = cr,
     fr_kind = Disc, fr_poll_final = True, fr_credits = None, fr_payload = []\<rparr>"
  by (simp_all add: build_sabm_def build_ua_def build_dm_def build_disc_def
        parse_build_frame credits_fit_def frame_kind_control)

lemma parse_build_uih:
  assumes "length p < 2 ^ 15"
  shows "parse_frame (build_uih d cr creds p) = Inr \<lparr>fr_dlci = d AND 0x3f,
     fr_command_response = cr, fr_kind = Uih, fr_poll_final = (creds \<noteq> None),
     fr_credits = creds, fr_payload = p\<rparr>"
proof -
  let ?c = "if creds \<noteq> None then RFCOMM_CONTROL_UIH_PF else RFCOMM_CONTROL_UIH"
  have "credits_fit ?c creds"
    by (simp add: credits_fit_def frame_kind_control)
  with assms show ?thesis
    by (simp add: build_uih_def parse_build_frame frame_kind_control)
qed

lemmas parse_build [wire_simps] = parse_build_control parse_build_uih

text \<open>What an accepted packet looks like.\<close>

lemma parse_frame_InrD:
  assumes "parse_frame packet = Inr f"
  obtains n k where
    "decode_length packet = Inr (n, k)"
    "4 \<le> length packet" "packet ! 0 AND 1 \<noteq> 0" "fr_kind f = frame_kind (packet ! 1)"
    "fr_dlci f = drop_bit 2 (packet ! 0)"
    "length packet = 2 + k + of_bool (fr_credits f \<noteq> None) + n + 1"
    "length (fr_payload f) = n"
    "packet ! (length packet - 1) =
       rfcomm_fcs (take (if fr_kind f = Uih then 2 else 2 + k) packet)"
    "fr_credits f \<noteq> None \<longleftrightarrow> fr_kind f = Uih \<and> fr_poll_final f"
proof -
  obtain n k where d: "decode_length packet = Inr (n, k)"
    using assms by (auto simp: parse_frame_def require_len_def Let_def and_then_def
        split: if_splits sum.splits)
  show thesis
    by (rule that [OF d])
      (use assms d in \<open>auto simp: parse_frame_def require_len_def Let_def split: if_splits\<close>)
qed

section \<open>The frame check sequence\<close>

lemma crc_bit_inj: "crc_bit x = crc_bit y \<Longrightarrow> x = y"
  by (simp add: crc_bit_def byte_bits split: if_splits)

lemma crc_bits_inj: "crc_bits n x = crc_bits n y \<Longrightarrow> x = y"
  by (induction n arbitrary: x y) (auto dest: crc_bit_inj)

lemma xor_left_cancel: "(c::u8) XOR a = c XOR b \<longleftrightarrow> a = b"
  by (metis bit.xor_left_self)

lemma crc_bytes_inj: "crc_bytes c data = crc_bytes c' data \<Longrightarrow> c = c'"
proof (induction data arbitrary: c c')
  case (Cons b data)
  then have "crc_bits 8 (c XOR b) = crc_bits 8 (c' XOR b)" by simp
  then have "c XOR b = c' XOR b" by (rule crc_bits_inj)
  then show ?case by (metis xor.commute xor_left_cancel)
qed simp

lemma crc_bytes_one_octet:
  "i < length data \<Longrightarrow> crc_bytes c (data[i := b]) = crc_bytes c data \<Longrightarrow> b = data ! i"
proof (induction data arbitrary: c i)
  case (Cons a data)
  show ?case
  proof (cases i)
    case 0
    with Cons.prems have "crc_bits 8 (c XOR b) = crc_bits 8 (c XOR a)"
      by (auto dest: crc_bytes_inj)
    then have "c XOR b = c XOR a" by (rule crc_bits_inj)
    with 0 show ?thesis by (simp add: xor_left_cancel)
  next
    case (Suc j)
    with Cons show ?thesis by auto
  qed
qed simp

lemma rfcomm_fcs_one_octet:
  "i < length data \<Longrightarrow> rfcomm_fcs (data[i := b]) = rfcomm_fcs data \<longleftrightarrow> b = data ! i"
  by (auto simp: rfcomm_fcs_def dest: crc_bytes_one_octet)

lemma decode_length_update_address:
  "decode_length (packet[0 := b]) = decode_length packet"
  by (cases packet) (simp_all add: decode_length_def require_len_def)

lemma decode_length_update_tail:
  assumes "decode_length packet = Inr (n, k)" and "2 + k \<le> i"
  shows "decode_length (packet[i := b]) = Inr (n, k)"
  using assms
  by (auto simp: decode_length_def decode_multiplexer_length_def require_len_def split: if_splits)

section \<open>Multiplexer commands\<close>

lemma parse_mux_command:
  assumes "length p < 2 ^ 15"
  shows "parse_multiplexer_command (build_multiplexer_command t p) =
     (if t = RFCOMM_MUX_PN_CMD \<or> t = RFCOMM_MUX_PN_RSP then
       and_then (require_len p 8 ''RFCOMM PN command'') (\<lambda>_.
         Inr (ParameterNegotiation (t = RFCOMM_MUX_PN_RSP) (p ! 0) (p ! 1) (p ! 2)
                (u16_from_le_bytes (p ! 4) (p ! 5)) (p ! 7)))
     else if t = RFCOMM_MUX_MSC_CMD \<or> t = RFCOMM_MUX_MSC_RSP then
       and_then (require_len p 2 ''RFCOMM MSC frame'') (\<lambda>_.
         Inr (ModemStatus (t = RFCOMM_MUX_MSC_RSP) (drop_bit 2 (p ! 0)) (p ! 1)))
     else if t = RFCOMM_MUX_FCON_CMD then Inr FlowControlOn
     else if t = RFCOMM_MUX_FCOFF_CMD then Inr FlowControlOff
     else Inr (UnknownMux t p))"
  using assms
  by (simp add: parse_multiplexer_command_def build_multiplexer_command_def require_len_def [of _ 2]
      require_len_def [of _ "Suc _"] decode_encode_length length_encode_length)

lemma parse_parameter_negotiation [wire_simps]:
  "parse_multiplexer_command (build_parameter_negotiation_command d prio sz creds) =
     Inr (ParameterNegotiation False d RFCOMM_PN_BLUETOOTH_FRAME_TYPE prio sz creds)"
  "parse_multiplexer_command (build_parameter_negotiation_command_cfc d prio sz creds) =
     Inr (ParameterNegotiation False d RFCOMM_PN_BLUETOOTH_FRAME_TYPE_CFC prio sz creds)"
  "parse_multiplexer_command (build_parameter_negotiation_response d prio sz creds) =
     Inr (ParameterNegotiation True d RFCOMM_PN_BLUETOOTH_FRAME_TYPE prio sz creds)"
  "parse_multiplexer_command (build_parameter_negotiation_response_cfc d prio sz creds) =
     Inr (ParameterNegotiation True d RFCOMM_PN_BLUETOOTH_FRAME_TYPE_CFC prio sz creds)"
  by (simp_all add: build_parameter_negotiation_command_def
      build_parameter_negotiation_command_cfc_def build_parameter_negotiation_response_def
      build_parameter_negotiation_response_cfc_def build_parameter_negotiation_def
      parse_mux_command require_len_def)

lemma parse_modem_status [wire_simps]:
  "parse_multiplexer_command (build_modem_status_command d sig) =
     Inr (ModemStatus False (d AND 0x3f) sig)"
  "parse_multiplexer_command (build_modem_status_response d sig) =
     Inr (ModemStatus True (d AND 0x3f) sig)"
  by (simp_all add: build_modem_status_command_def build_modem_status_response_def
      build_modem_status_def parse_mux_command require_len_def address_byte_dlci)

section \<open>A packet damaged in its address or check octet\<close>

lemma parse_update_FCS_ne:
  assumes ok: "parse_frame packet = Inr f" and ok': "parse_frame (packet[i := b]) = Inr f'"
    and i: "i = 0 \<or> i = length packet - 1"
  shows "b = packet ! i"
proof -
  obtain n k where p: "decode_length packet = Inr (n, k)" "4 \<le> length packet"
      "fr_kind f = frame_kind (packet ! 1)"
      "length packet = 2 + k + of_bool (fr_credits f \<noteq> None) + n + 1"
      "packet ! (length packet - 1) = rfcomm_fcs (take (if fr_kind f = Uih then 2 else 2 + k) packet)"
    by (rule parse_frame_InrD [OF ok]) blast
  obtain n' k' where p': "decode_length (packet[i := b]) = Inr (n', k')"
      "fr_kind f' = frame_kind (packet[i := b] ! 1)"
      "packet[i := b] ! (length packet - 1) =
         rfcomm_fcs (take (if fr_kind f' = Uih then 2 else 2 + k') (packet[i := b]))"
    by (rule parse_frame_InrD [OF ok']) (use that in auto)
  define m where "m = (if fr_kind f = Uih then 2 else 2 + k)"
  have m: "0 < m" "m \<le> length packet - 1" using p(2,4) by (auto simp: m_def)
  have kind: "fr_kind f' = fr_kind f" using p(2,3) p'(2) i by auto
  show ?thesis
  proof (cases "i = 0")
    case True
    with p(1) p'(1) have "k' = k" by (simp add: decode_length_update_address)
    with p'(3) kind True p(2)
    have "packet ! (length packet - 1) = rfcomm_fcs ((take m packet)[0 := b])"
      by (simp add: m_def take_update_swap)
    with p(5) have "rfcomm_fcs ((take m packet)[0 := b]) = rfcomm_fcs (take m packet)"
      by (simp add: m_def)
    then show ?thesis using m p(2) True by (simp add: rfcomm_fcs_one_octet)
  next
    case False
    with i have i': "i = length packet - 1" by simp
    have "decode_length (packet[i := b]) = decode_length packet"
      using p(1,4) i' by (intro trans [OF decode_length_update_tail [OF p(1)]]) auto
    then have "k' = k" using p(1) p'(1) by simp
    with kind have "(if fr_kind f' = Uih then 2 else 2 + k') = m" by (simp add: m_def)
    with p'(3) i' p(2) have "b = rfcomm_fcs (take m (packet[i := b]))" by simp
    then have "b = rfcomm_fcs (take m packet)" using m(2) i' by simp
    with p(5) i' show ?thesis by (simp add: m_def)
  qed
qed

section \<open>Properties\<close>

text \<open>
  every frame the builders emit is read back unchanged by \<open>parse_frame\<close>: DLCI, C/R bit,
  kind, poll bit, credit octet and payload, for a DLCI of six bits and a payload of at most
  32767 octets (the range of the two-octet length field), whatever the control octet.
\<close>

theorem frame_roundtrip:
  assumes "d < 64" and "length p < 2 ^ 15" and "credits_fit control creds"
  shows "parse_frame (build_frame d cr control creds p) =
           Inr \<lparr>fr_dlci = d, fr_command_response = cr, fr_kind = frame_kind control,
                fr_poll_final = (control AND RFCOMM_CONTROL_POLL_FINAL \<noteq> 0),
                fr_credits = creds, fr_payload = p\<rparr>"
  using parse_build_frame [OF assms(2,3)] and_mask6_id [OF assms(1)] by simp

theorem frame_roundtrip_witness:
  "parse_frame (build_frame 11 True RFCOMM_CONTROL_UIH_PF (Some 4) [1, 2, 3]) =
     Inr \<lparr>fr_dlci = 11, fr_command_response = True, fr_kind = Uih, fr_poll_final = True,
          fr_credits = Some 4, fr_payload = [1, 2, 3]\<rparr>"
  using frame_roundtrip [of 11 "[1, 2, 3]" RFCOMM_CONTROL_UIH_PF "Some 4" True]
  by (simp add: credits_fit_def frame_kind_def)

text \<open>
  C29: the frame check sequence is enforced.  Whatever packet \<open>parse_frame\<close> accepts, the same
  packet with its address octet or its check octet replaced by any different octet is refused,
  so damage to the DLCI, the C/R bit or the check sequence never delivers a frame.
\<close>

theorem damaged_packet_refused:
  assumes "parse_frame packet = Inr f" and "i = 0 \<or> i = length packet - 1"
    and "b \<noteq> packet ! i"
  shows "\<exists>e. parse_frame (packet[i := b]) = Inl e"
  using parse_update_FCS_ne [OF assms(1) _ assms(2), of b] assms(3)
  by (cases "parse_frame (packet[i := b])") auto

theorem damaged_packet_refused_witness:
  "\<exists>e. parse_frame ((build_sabm 2 True)[0 := 0x13]) = Inl e"
  by (rule damaged_packet_refused [OF parse_build_control(1)])
    (simp_all add: build_sabm_def build_frame_def address_byte_def Let_def)

text \<open>
  The multiplexer commands survive the wire: every parameter negotiation (command or
  response, legacy or credit-based) and every modem status for a six-bit DLCI is parsed back
  to exactly the values it was built from.
\<close>

theorem mux_command_roundtrip:
  assumes "d < 64"
  shows "parse_multiplexer_command (build_parameter_negotiation_command d prio sz creds) =
           Inr (ParameterNegotiation False d RFCOMM_PN_BLUETOOTH_FRAME_TYPE prio sz creds) \<and>
         parse_multiplexer_command (build_parameter_negotiation_command_cfc d prio sz creds) =
           Inr (ParameterNegotiation False d RFCOMM_PN_BLUETOOTH_FRAME_TYPE_CFC prio sz creds) \<and>
         parse_multiplexer_command (build_parameter_negotiation_response d prio sz creds) =
           Inr (ParameterNegotiation True d RFCOMM_PN_BLUETOOTH_FRAME_TYPE prio sz creds) \<and>
         parse_multiplexer_command (build_modem_status_command d sig) =
           Inr (ModemStatus False d sig) \<and>
         parse_multiplexer_command (build_modem_status_response d sig) =
           Inr (ModemStatus True d sig)"
  using assms by (simp add: parse_parameter_negotiation parse_modem_status and_mask6_id)

theorem mux_command_roundtrip_witness:
  "parse_multiplexer_command (build_modem_status_command 11 0x8d) = Inr (ModemStatus False 11 0x8d)"
  using mux_command_roundtrip [of 11 0 0 0 "0x8d"] by simp

end
