(* ===== verification/Rfcomm_Dlci.thy ===== *)
theory Rfcomm_Dlci
  imports Rfcomm_Frame
begin

text \<open>
  What the two RFCOMM multiplexer roles of \<open>aokie_radio/rfcomm.rs\<close> share: the phases of an
  outbound DLCI (\<open>ClientDlciPhase\<close>), the events they raise (\<open>ClientDlciEvent\<close>) and the drain
  that hands each sharing runtime only its own events.  The locale \<open>dlci_mux\<close> is the contract
  the message-access and phone-book runtimes rely on; it is interpreted on both roles, in
  \<open>Rfcomm_Client\<close> (we opened the multiplexer) and \<open>Rfcomm_Server\<close> (the phone did).
\<close>

datatype dlci_reason = PeerSentDm u8 | PeerSentDisc u8

datatype ClientDlciPhase =
    AwaitingPnRsp
  | AwaitingTargetUa
  | AwaitingMscExchange
  | DlciOpen
  | DlciFailed dlci_reason

datatype ClientDlciEvent =
    DlciOpened u8
  | DlciFailedEvent u8 dlci_reason
  | DlciPayload u8 bytes

datatype mux_error =
    MuxNotOpen
  | DlciInUse u8
  | DlciNotTracked u8
  | DlciNotOpen u8 ClientDlciPhase

fun event_dlci :: "ClientDlciEvent \<Rightarrow> u8" where
  "event_dlci (DlciOpened d) = d"
| "event_dlci (DlciFailedEvent d _) = d"
| "event_dlci (DlciPayload d _) = d"

text \<open>The loop of \<open>take_client_events_for_dlci\<close>: \<open>taken\<close> and \<open>remaining\<close> grow by pushes.\<close>

fun split_events ::
    "u8 \<Rightarrow> ClientDlciEvent list \<Rightarrow> ClientDlciEvent list \<Rightarrow> ClientDlciEvent list \<Rightarrow>
     ClientDlciEvent list \<times> ClientDlciEvent list" where
  "split_events d [] taken remaining = (taken, remaining)"
| "split_events d (ev # all) taken remaining =
     (if event_dlci ev = d then split_events d all (taken @ [ev]) remaining
      else split_events d all taken (remaining @ [ev]))"

lemma split_events_filter:
  "split_events d all taken remaining =
     (taken @ filter (\<lambda>e. event_dlci e = d) all, remaining @ filter (\<lambda>e. event_dlci e \<noteq> d) all)"
  by (induction all arbitrary: taken remaining) auto

section \<open>The life of one outbound DLCI\<close>

text \<open>The abstract machine: an untracked DLCI is attached, its parameters are negotiated, the
  channel is opened, the modem status is exchanged, and only then is it open.  Dropping the
  tracking (a refusal, a disconnect, stall recovery) is possible at any time.\<close>

inductive dlci_step :: "ClientDlciPhase option \<Rightarrow> ClientDlciPhase option \<Rightarrow> bool" where
  attach: "dlci_step None (Some AwaitingPnRsp)"
| pn_acked: "dlci_step (Some AwaitingPnRsp) (Some AwaitingTargetUa)"
| ua_received: "dlci_step (Some AwaitingTargetUa) (Some AwaitingMscExchange)"
| msc_settled: "dlci_step (Some AwaitingMscExchange) (Some DlciOpen)"
| refused: "dlci_step (Some p) (Some (DlciFailed r))"
| dropped: "dlci_step (Some p) None"

inductive_cases dlci_step_openE: "dlci_step p (Some DlciOpen)"
inductive_simps dlci_step_simps: "dlci_step p q"

abbreviation dlci_steps :: "ClientDlciPhase option \<Rightarrow> ClientDlciPhase option \<Rightarrow> bool" where
  "dlci_steps \<equiv> dlci_step\<^sup>=\<^sup>="

section \<open>The contract of a shared multiplexer\<close>

locale dlci_mux =
  fixes phase_of :: "'s \<Rightarrow> u8 \<Rightarrow> ClientDlciPhase option"
    and queued :: "'s \<Rightarrow> ClientDlciEvent list"
    and mux_ready :: "'s \<Rightarrow> bool"
    and reserved :: "'s \<Rightarrow> u8 \<Rightarrow> bool"
    and attach_dlci :: "'s \<Rightarrow> u8 \<Rightarrow> 'e + (u8 \<times> bytes) \<times> 's"
    and take_for :: "'s \<Rightarrow> u8 \<Rightarrow> ClientDlciEvent list \<times> 's"
    and uih_on :: "'s \<Rightarrow> u8 \<Rightarrow> bytes \<Rightarrow> 'f + bytes \<times> 's"
    and force_disc :: "'s \<Rightarrow> u8 \<Rightarrow> bytes \<times> 's"
  assumes attach_iff:
      "is_ok (attach_dlci s ch) \<longleftrightarrow>
         mux_ready s \<and> \<not> reserved s (server_channel_dlci ch True) \<and>
         phase_of s (server_channel_dlci ch True) = None"
    and attach_effect:
      "attach_dlci s ch = Inr ((d, fr), s') \<Longrightarrow>
         d = server_channel_dlci ch True \<and>
         phase_of s' = (phase_of s)(d \<mapsto> AwaitingPnRsp) \<and> queued s' = queued s"
    and take_effect:
      "take_for s d = (evs, s') \<Longrightarrow>
         evs = filter (\<lambda>e. event_dlci e = d) (queued s) \<and>
         queued s' = filter (\<lambda>e. event_dlci e \<noteq> d) (queued s) \<and>
         phase_of s' = phase_of s"
    and uih_iff: "is_ok (uih_on s d p) \<longleftrightarrow> phase_of s d = Some DlciOpen"
    and uih_effect:
      "uih_on s d p = Inr (fr, s') \<Longrightarrow> phase_of s' = phase_of s \<and> queued s' = queued s"
    and force_disc_effect:
      "force_disc s d = (fr, s') \<Longrightarrow>
         phase_of s' = (phase_of s)(d := None) \<and> queued s' = queued s \<and>
         mux_ready s' = mux_ready s \<and> reserved s' = reserved s"
begin

text \<open>Two runtimes that share the multiplexer drain their events in either order and see the
  same; what neither owns stays queued.\<close>

lemma drain_commute:
  assumes "d \<noteq> e" and "take_for s d = (ds, s1)" and "take_for s1 e = (es, s2)"
    and "take_for s e = (es', t1)" and "take_for t1 d = (ds', t2)"
  shows "ds = ds' \<and> es = es' \<and> queued s2 = queued t2"
  using assms(1) take_effect [OF assms(2)] take_effect [OF assms(3)]
    take_effect [OF assms(4)] take_effect [OF assms(5)]
  by (auto simp: conj_commute intro!: filter_cong)

lemma drain_twice_empty:
  assumes "take_for s d = (ds, s1)" and "take_for s1 d = (ds', s2)"
  shows "ds' = [] \<and> queued s2 = queued s1"
  using take_effect [OF assms(1)] take_effect [OF assms(2)] by (auto simp: filter_id_conv)

text \<open>Attaching follows the abstract machine, and stall recovery always leaves a channel that
  can be attached again.\<close>

lemma attach_is_step:
  assumes "attach_dlci s ch = Inr ((d, fr), s')"
  shows "dlci_step (phase_of s d) (phase_of s' d)"
proof -
  have "phase_of s d = None"
    using assms attach_iff [of s ch] attach_effect [OF assms] by auto
  then show ?thesis using attach_effect [OF assms] by (simp add: dlci_step.attach)
qed

lemma reattach_after_force_disc:
  assumes "mux_ready s" and "\<not> reserved s (server_channel_dlci ch True)"
    and "force_disc s (server_channel_dlci ch True) = (fr, s')"
  shows "is_ok (attach_dlci s' ch)"
  using assms force_disc_effect [OF assms(3)] by (simp add: attach_iff)

lemma attach_twice_refused:
  assumes "attach_dlci s ch = Inr ((d, fr), s')"
  shows "\<not> is_ok (attach_dlci s' ch)"
  using attach_effect [OF assms] attach_iff [of s' ch] by simp

end

end
