(* ===== verification/Rfcomm_Client.thy ===== *)
theory Rfcomm_Client
  imports Rfcomm_Dlci
begin

text \<open>
  \<open>RfcommClientState\<close> of \<open>aokie_radio/rfcomm.rs\<close>: the RFCOMM session Aokie opens itself.  It
  walks the multiplexer and the primary (hands-free) DLCI through SABM, parameter negotiation,
  SABM and the modem-status exchange, meters both directions by credits, and carries further
  outbound DLCIs (message access, phone book) on the same multiplexer.

  \<open>handle_packet\<close> takes the raw frame.  A parse error leaves the state as it was (the source
  parses before it touches \<open>self\<close>), so the step is a partial function
  \<open>rfcomm_error + bytes list \<times> state\<close>: the frames to send back and the next state.  Log output
  is not modelled.
\<close>

section \<open>State\<close>

datatype client_reason = PeerDmOn u8

datatype RfcommClientPhase =
    CIdle
  | CAwaitingMultiplexerUa
  | CAwaitingPnResponse
  | CAwaitingTargetUa
  | COpen
  | CClosed
  | CFailed client_reason

datatype RfcommClientEvent =
    COpenedEvent
  | CPayloadEvent bytes
  | CClosedEvent
  | CFailedEvent client_reason

record SecondaryDlci =
  sd_phase :: ClientDlciPhase
  sd_msc_local_pending :: bool
  sd_msc_remote_received :: bool
  sd_credit_flow :: bool
  sd_tx_credits :: u16
  sd_rx_credits_outstanding :: u16

record RfcommClientState =
  cl_server_channel :: u8
  cl_target_dlci :: u8
  cl_max_frame_size :: u16
  cl_phase :: RfcommClientPhase
  cl_msc_local_pending :: bool
  cl_msc_remote_received :: bool
  cl_pending_events :: "RfcommClientEvent list"
  cl_credit_flow :: bool
  cl_tx_credits :: u16
  cl_rx_credits_outstanding :: u16
  cl_secondary_dlcis :: "u8 \<rightharpoonup> SecondaryDlci"
  cl_client_events :: "ClientDlciEvent list"

datatype client_error =
    KickoffNotIdle RfcommClientPhase
  | UihNotOpen RfcommClientPhase

abbreviation (input) CLIENT_INITIAL_CREDITS :: u8 where "CLIENT_INITIAL_CREDITS \<equiv> 7"
abbreviation (input) CLIENT_CREDIT_REFILL_THRESHOLD :: u16 where
  "CLIENT_CREDIT_REFILL_THRESHOLD \<equiv> 3"

type_synonym client_step = "rfcomm_error + bytes list \<times> RfcommClientState"

definition client_new :: "u8 \<Rightarrow> RfcommClientState" where
  "client_new server_channel =
     \<lparr>cl_server_channel = server_channel,
      cl_target_dlci = server_channel_dlci server_channel True,
      cl_max_frame_size = RFCOMM_DEFAULT_MAX_FRAME_SIZE,
      cl_phase = CIdle,
      cl_msc_local_pending = False,
      cl_msc_remote_received = False,
      cl_pending_events = [],
      cl_credit_flow = False,
      cl_tx_credits = 0,
      cl_rx_credits_outstanding = 0,
      cl_secondary_dlcis = Map.empty,
      cl_client_events = []\<rparr>"

section \<open>Queries and outbound operations\<close>

definition mux_is_open :: "RfcommClientState \<Rightarrow> bool" where
  "mux_is_open s = (case cl_phase s of
      CIdle \<Rightarrow> False
    | CAwaitingMultiplexerUa \<Rightarrow> False
    | CClosed \<Rightarrow> False
    | CFailed _ \<Rightarrow> False
    | _ \<Rightarrow> True)"

definition can_send_data :: "RfcommClientState \<Rightarrow> bool" where
  "can_send_data s = (\<not> cl_credit_flow s \<or> cl_tx_credits s > 0)"

definition client_is_open :: "RfcommClientState \<Rightarrow> bool" where
  "client_is_open s = (cl_phase s = COpen)"

definition client_take_events ::
    "RfcommClientState \<Rightarrow> RfcommClientEvent list \<times> RfcommClientState" where
  "client_take_events s = (cl_pending_events s, s\<lparr>cl_pending_events := []\<rparr>)"

definition client_attach_client_dlci ::
    "RfcommClientState \<Rightarrow> u8 \<Rightarrow> mux_error + (u8 \<times> bytes) \<times> RfcommClientState" where
  "client_attach_client_dlci s server_channel =
     (if \<not> mux_is_open s then Inl MuxNotOpen else
      let target = server_channel_dlci server_channel True in
      if target = cl_target_dlci s \<or> cl_secondary_dlcis s target \<noteq> None
      then Inl (DlciInUse target) else
      let s' = s\<lparr>cl_secondary_dlcis := (cl_secondary_dlcis s)(target \<mapsto>
                  \<lparr>sd_phase = AwaitingPnRsp,
                   sd_msc_local_pending = False,
                   sd_msc_remote_received = False,
                   sd_credit_flow = False,
                   sd_tx_credits = 0,
                   sd_rx_credits_outstanding = u16_of_u8 CLIENT_INITIAL_CREDITS\<rparr>)\<rparr>;
          pn = build_parameter_negotiation_command_cfc target 7 (cl_max_frame_size s)
                 CLIENT_INITIAL_CREDITS
      in Inr ((target, build_uih RFCOMM_DLCI_MULTIPLEXER True None pn), s'))"

definition client_take_client_events_for_dlci ::
    "RfcommClientState \<Rightarrow> u8 \<Rightarrow> ClientDlciEvent list \<times> RfcommClientState" where
  "client_take_client_events_for_dlci s d =
     (let (taken, remaining) = split_events d (cl_client_events s) [] []
      in (taken, s\<lparr>cl_client_events := remaining\<rparr>))"

definition client_build_uih_on_client_dlci ::
    "RfcommClientState \<Rightarrow> u8 \<Rightarrow> bytes \<Rightarrow> mux_error + bytes \<times> RfcommClientState" where
  "client_build_uih_on_client_dlci s d p =
     (case cl_secondary_dlcis s d of
        None \<Rightarrow> Inl (DlciNotTracked d)
      | Some c \<Rightarrow>
          if sd_phase c \<noteq> DlciOpen then Inl (DlciNotOpen d (sd_phase c)) else
          let c' = (if sd_credit_flow c then c\<lparr>sd_tx_credits := sat_sub16 (sd_tx_credits c) 1\<rparr>
                    else c)
          in Inr (build_uih d True None p,
                  s\<lparr>cl_secondary_dlcis := (cl_secondary_dlcis s)(d \<mapsto> c')\<rparr>))"

definition client_build_force_disc_secondary_dlci ::
    "RfcommClientState \<Rightarrow> u8 \<Rightarrow> bytes \<times> RfcommClientState" where
  "client_build_force_disc_secondary_dlci s d =
     (build_disc d True, s\<lparr>cl_secondary_dlcis := (cl_secondary_dlcis s)(d := None)\<rparr>)"

definition kickoff :: "RfcommClientState \<Rightarrow> client_error + bytes \<times> RfcommClientState" where
  "kickoff s =
     (if cl_phase s \<noteq> CIdle then Inl (KickoffNotIdle (cl_phase s))
      else Inr (build_sabm RFCOMM_DLCI_MULTIPLEXER True, s\<lparr>cl_phase := CAwaitingMultiplexerUa\<rparr>))"

definition build_outbound_uih ::
    "RfcommClientState \<Rightarrow> bytes \<Rightarrow> client_error + bytes \<times> RfcommClientState" where
  "build_outbound_uih s p =
     (if \<not> client_is_open s then Inl (UihNotOpen (cl_phase s)) else
      let s' = (if cl_credit_flow s then s\<lparr>cl_tx_credits := sat_sub16 (cl_tx_credits s) 1\<rparr> else s)
      in Inr (build_uih (cl_target_dlci s) True None p, s'))"

definition build_target_disc :: "RfcommClientState \<Rightarrow> bytes" where
  "build_target_disc s = build_disc (cl_target_dlci s) True"

section \<open>Inbound frames\<close>

definition client_fail :: "RfcommClientState \<Rightarrow> client_reason \<Rightarrow> RfcommClientState" where
  "client_fail s reason =
     s\<lparr>cl_phase := CFailed reason,
       cl_pending_events := cl_pending_events s @ [CFailedEvent reason]\<rparr>"

definition fail_secondary ::
    "RfcommClientState \<Rightarrow> u8 \<Rightarrow> dlci_reason \<Rightarrow> RfcommClientState" where
  "fail_secondary s d reason =
     s\<lparr>cl_secondary_dlcis := (cl_secondary_dlcis s)(d := None),
       cl_client_events := cl_client_events s @ [DlciFailedEvent d reason]\<rparr>"

definition maybe_open_secondary :: "RfcommClientState \<Rightarrow> u8 \<Rightarrow> RfcommClientState" where
  "maybe_open_secondary s d =
     (case cl_secondary_dlcis s d of
        None \<Rightarrow> s
      | Some c \<Rightarrow>
          if sd_phase c = AwaitingMscExchange \<and> \<not> sd_msc_local_pending c \<and>
             sd_msc_remote_received c
          then s\<lparr>cl_secondary_dlcis := (cl_secondary_dlcis s)(d \<mapsto> c\<lparr>sd_phase := DlciOpen\<rparr>),
                 cl_client_events := cl_client_events s @ [DlciOpened d]\<rparr>
          else s)"

definition maybe_emit_opened :: "RfcommClientState \<Rightarrow> RfcommClientState" where
  "maybe_emit_opened s =
     (if \<not> cl_msc_local_pending s \<and> cl_msc_remote_received s \<and> cl_phase s \<noteq> COpen
      then s\<lparr>cl_phase := COpen, cl_pending_events := cl_pending_events s @ [COpenedEvent]\<rparr>
      else s)"

definition on_ua_multiplexer :: "RfcommClientState \<Rightarrow> client_step" where
  "on_ua_multiplexer s =
     (if cl_phase s \<noteq> CAwaitingMultiplexerUa then Inr ([], s) else
      let s' = s\<lparr>cl_phase := CAwaitingPnResponse,
                 cl_rx_credits_outstanding := u16_of_u8 CLIENT_INITIAL_CREDITS\<rparr>;
          pn = build_parameter_negotiation_command (cl_target_dlci s) 7 (cl_max_frame_size s)
                 CLIENT_INITIAL_CREDITS
      in Inr ([build_uih RFCOMM_DLCI_MULTIPLEXER True None pn], s'))"

definition on_ua_target :: "RfcommClientState \<Rightarrow> client_step" where
  "on_ua_target s =
     (if cl_phase s \<noteq> CAwaitingTargetUa then Inr ([], s) else
      let s' = s\<lparr>cl_msc_local_pending := True, cl_msc_remote_received := False\<rparr>;
          msc = build_modem_status_command (cl_target_dlci s) RFCOMM_LOCAL_MODEM_STATUS
      in Inr ([build_uih RFCOMM_DLCI_MULTIPLEXER True None msc], s'))"

definition on_ua_secondary :: "RfcommClientState \<Rightarrow> u8 \<Rightarrow> client_step" where
  "on_ua_secondary s d =
     (case cl_secondary_dlcis s d of
        None \<Rightarrow> Inr ([], s)
      | Some c \<Rightarrow>
          if sd_phase c \<noteq> AwaitingTargetUa then Inr ([], s) else
          let c' = c\<lparr>sd_phase := AwaitingMscExchange, sd_msc_local_pending := True\<rparr>;
              msc = build_modem_status_command d RFCOMM_LOCAL_MODEM_STATUS
          in Inr ([build_uih RFCOMM_DLCI_MULTIPLEXER True None msc],
                  s\<lparr>cl_secondary_dlcis := (cl_secondary_dlcis s)(d \<mapsto> c')\<rparr>))"

text \<open>Both credit budgets are topped up the same way: one credit is spent by the data frame,
  and at the low-water mark the missing ones are granted in an empty frame.\<close>

definition refill_credits :: "u8 \<Rightarrow> u16 \<Rightarrow> bytes list \<times> u16" where
  "refill_credits d rx =
     (let rx1 = sat_sub16 rx 1 in
      if rx1 \<le> CLIENT_CREDIT_REFILL_THRESHOLD then
        let refill = u16_of_u8 CLIENT_INITIAL_CREDITS - rx1
        in ([build_uih d True (Some (ucast refill)) []], rx1 + refill)
      else ([], rx1))"

definition grant_credits :: "u8 option \<Rightarrow> u16 \<Rightarrow> u16" where
  "grant_credits creds tx =
     (case creds of None \<Rightarrow> tx
      | Some granted \<Rightarrow> if granted > 0 then sat_add16 tx (u16_of_u8 granted) else tx)"

definition on_uih_target :: "RfcommClientState \<Rightarrow> u8 option \<Rightarrow> bytes \<Rightarrow> client_step" where
  "on_uih_target s creds p =
     (let s1 = s\<lparr>cl_tx_credits := grant_credits creds (cl_tx_credits s)\<rparr> in
      if p = [] then Inr ([], s1) else
      let s2 = (if client_is_open s1
                then s1\<lparr>cl_pending_events := cl_pending_events s1 @ [CPayloadEvent p]\<rparr> else s1) in
      if cl_credit_flow s2 then
        let (out, rx) = refill_credits (cl_target_dlci s2) (cl_rx_credits_outstanding s2)
        in Inr (out, s2\<lparr>cl_rx_credits_outstanding := rx\<rparr>)
      else Inr ([], s2))"

definition on_uih_secondary :: "RfcommClientState \<Rightarrow> u8 \<Rightarrow> u8 option \<Rightarrow> bytes \<Rightarrow> client_step" where
  "on_uih_secondary s d creds p =
     (case cl_secondary_dlcis s d of
        None \<Rightarrow> Inr ([], s)
      | Some c \<Rightarrow>
          let c1 = c\<lparr>sd_tx_credits := grant_credits creds (sd_tx_credits c)\<rparr>;
              s1 = s\<lparr>cl_secondary_dlcis := (cl_secondary_dlcis s)(d \<mapsto> c1)\<rparr> in
          if p = [] then Inr ([], s1) else
          let s2 = s1\<lparr>cl_client_events := cl_client_events s1 @ [DlciPayload d p]\<rparr> in
          if sd_credit_flow c1 then
            let (out, rx) = refill_credits d (sd_rx_credits_outstanding c1)
            in Inr (out, s2\<lparr>cl_secondary_dlcis :=
                 (cl_secondary_dlcis s2)(d \<mapsto> c1\<lparr>sd_rx_credits_outstanding := rx\<rparr>)\<rparr>)
          else Inr ([], s2))"

definition clamp_frame_size :: "u16 \<Rightarrow> u16" where
  "clamp_frame_size sz = clamp16 sz RFCOMM_MIN_MAX_FRAME_SIZE RFCOMM_DEFAULT_MAX_FRAME_SIZE"

text \<open>\<open>on_mux_uih\<close> on a parsed command, in the order of the source's match arms.\<close>

definition on_mux_command :: "RfcommClientState \<Rightarrow> RfcommMuxCommand \<Rightarrow> client_step" where
  "on_mux_command s command = (case command of
     ParameterNegotiation is_response d frame_type priority max_frame_size creds \<Rightarrow>
       if is_response \<and> d = cl_target_dlci s \<and> cl_phase s = CAwaitingPnResponse then
         Inr ([build_sabm (cl_target_dlci s) True],
              s\<lparr>cl_max_frame_size := clamp_frame_size max_frame_size,
                cl_credit_flow := (frame_type = RFCOMM_PN_BLUETOOTH_FRAME_TYPE_CFC),
                cl_tx_credits := u16_of_u8 creds,
                cl_phase := CAwaitingTargetUa\<rparr>)
       else if is_response then
         (case cl_secondary_dlcis s d of
            None \<Rightarrow> Inr ([], s)
          | Some c \<Rightarrow>
              if sd_phase c = AwaitingPnRsp then
                Inr ([build_sabm d True],
                     s\<lparr>cl_secondary_dlcis := (cl_secondary_dlcis s)(d \<mapsto>
                        c\<lparr>sd_credit_flow := (frame_type = RFCOMM_PN_BLUETOOTH_FRAME_TYPE_CFC),
                          sd_tx_credits := u16_of_u8 creds,
                          sd_phase := AwaitingTargetUa\<rparr>)\<rparr>)
              else Inr ([], s))
       else Inr ([], s)
   | ModemStatus is_response d signals \<Rightarrow>
       if is_response \<and> d = cl_target_dlci s then
         Inr ([], maybe_emit_opened (s\<lparr>cl_msc_local_pending := False\<rparr>))
       else if \<not> is_response \<and> d = cl_target_dlci s then
         Inr ([build_uih RFCOMM_DLCI_MULTIPLEXER False None (build_modem_status_response d signals)],
              maybe_emit_opened (s\<lparr>cl_msc_remote_received := True\<rparr>))
       else (case cl_secondary_dlcis s d of
            None \<Rightarrow> Inr ([], s)
          | Some c \<Rightarrow>
              if is_response then
                Inr ([], maybe_open_secondary (s\<lparr>cl_secondary_dlcis :=
                   (cl_secondary_dlcis s)(d \<mapsto> c\<lparr>sd_msc_local_pending := False\<rparr>)\<rparr>) d)
              else
                Inr ([build_uih RFCOMM_DLCI_MULTIPLEXER False None
                        (build_modem_status_response d signals)],
                     maybe_open_secondary (s\<lparr>cl_secondary_dlcis :=
                       (cl_secondary_dlcis s)(d \<mapsto> c\<lparr>sd_msc_remote_received := True\<rparr>)\<rparr>) d))
   | _ \<Rightarrow> Inr ([], s))"

definition on_mux_uih :: "RfcommClientState \<Rightarrow> bytes \<Rightarrow> client_step" where
  "on_mux_uih s p = and_then (parse_multiplexer_command p) (on_mux_command s)"

text \<open>\<open>handle_packet\<close> on a parsed frame.\<close>

definition client_handle_frame :: "RfcommClientState \<Rightarrow> rfcomm_frame \<Rightarrow> client_step" where
  "client_handle_frame s f =
     (let d = fr_dlci f; secondary = (cl_secondary_dlcis s d \<noteq> None);
          session = (d = RFCOMM_DLCI_MULTIPLEXER \<or> d = cl_target_dlci s) in
      case fr_kind f of
        Ua \<Rightarrow>
          if d = RFCOMM_DLCI_MULTIPLEXER then on_ua_multiplexer s
          else if d = cl_target_dlci s then on_ua_target s
          else if secondary then on_ua_secondary s d
          else Inr ([], s)
      | Dm \<Rightarrow>
          if secondary then Inr ([], fail_secondary s d (PeerSentDm d))
          else if session then Inr ([], client_fail s (PeerDmOn d))
          else Inr ([], s)
      | Disc \<Rightarrow>
          if secondary then Inr ([build_ua d False], fail_secondary s d (PeerSentDisc d))
          else if session then
            Inr ([build_ua d False],
                 s\<lparr>cl_phase := CClosed, cl_pending_events := cl_pending_events s @ [CClosedEvent]\<rparr>)
          else Inr ([build_dm d False], s)
      | Uih \<Rightarrow>
          if d = RFCOMM_DLCI_MULTIPLEXER then on_mux_uih s (fr_payload f)
          else if d = cl_target_dlci s then on_uih_target s (fr_credits f) (fr_payload f)
          else if secondary then on_uih_secondary s d (fr_credits f) (fr_payload f)
          else Inr ([], s)
      | _ \<Rightarrow> Inr ([], s))"

definition client_handle_packet :: "RfcommClientState \<Rightarrow> bytes \<Rightarrow> client_step" where
  "client_handle_packet s packet = and_then (parse_frame packet) (client_handle_frame s)"

section \<open>Credits\<close>

text \<open>A live budget of the peer stays above the refill threshold and never exceeds the initial
  grant.\<close>

definition budget_ok :: "u16 \<Rightarrow> bool" where
  "budget_ok rx \<longleftrightarrow> CLIENT_CREDIT_REFILL_THRESHOLD < rx \<and> rx \<le> u16_of_u8 CLIENT_INITIAL_CREDITS"

lemma budget_ok_7 [simp]: "budget_ok 7"
  by (simp add: budget_ok_def)

lemma budget_ok_unat: "budget_ok rx \<longleftrightarrow> 3 < unat rx \<and> unat rx \<le> 7"
  by (simp add: budget_ok_def word_less_nat_alt word_le_nat_alt)

lemma refill_credits_cases:
  assumes "budget_ok rx"
  obtains (spend) "refill_credits d rx = ([], rx - 1)" "budget_ok (rx - 1)"
      "unat (rx - 1) = unat rx - 1"
  | (refill) "refill_credits d rx = ([build_uih d True (Some 4) []], 7)" "unat rx = 4"
proof -
  have u: "3 < unat rx" "unat rx \<le> 7" using assms by (simp_all add: budget_ok_unat)
  have one: "unat (rx - 1) = unat rx - 1" using u by (simp add: unat_sub word_le_nat_alt)
  have sub: "sat_sub16 rx 1 = rx - 1"
    using u by (simp add: sat_sub16_def word_less_nat_alt)
  show thesis
  proof (cases "unat rx = 4")
    case True
    with one have "unat (rx - 1) = unat (3 :: u16)" by simp
    then have "rx - 1 = 3" by (simp only: word_unat_eq_iff)
    with True sub show ?thesis by (intro refill) (simp_all add: refill_credits_def)
  next
    case False
    with u one have "3 < unat (rx - 1)" "unat (rx - 1) \<le> 7" by linarith+
    then have "3 < rx - 1" "budget_ok (rx - 1)" by (simp_all add: word_less_nat_alt budget_ok_unat)
    with sub one show ?thesis by (intro spend) (auto simp: refill_credits_def Let_def)
  qed
qed

lemma refill_credits_ok: "budget_ok rx \<Longrightarrow> budget_ok (snd (refill_credits d rx))"
  by (erule refill_credits_cases [where d = d]) simp_all

section \<open>Phases of the secondary DLCIs\<close>

definition secondary_phase :: "RfcommClientState \<Rightarrow> u8 \<Rightarrow> ClientDlciPhase option" where
  "secondary_phase s d = map_option sd_phase (cl_secondary_dlcis s d)"

definition client_reserved :: "RfcommClientState \<Rightarrow> u8 \<Rightarrow> bool" where
  "client_reserved s d = (d = cl_target_dlci s)"

interpretation client_mux: dlci_mux secondary_phase cl_client_events mux_is_open client_reserved
  client_attach_client_dlci client_take_client_events_for_dlci client_build_uih_on_client_dlci
  client_build_force_disc_secondary_dlci
proof (unfold_locales, goal_cases)
  case (1 s ch)
  then show ?case
    by (auto simp: client_attach_client_dlci_def secondary_phase_def client_reserved_def Let_def)
next
  case (2 s ch d fr s')
  then show ?case
    by (auto simp: client_attach_client_dlci_def secondary_phase_def Let_def fun_eq_iff
        split: if_splits)
next
  case (3 s d evs s')
  then show ?case
    by (auto simp: client_take_client_events_for_dlci_def split_events_filter secondary_phase_def
        fun_eq_iff)
next
  case (4 s d p)
  then show ?case
    by (auto simp: client_build_uih_on_client_dlci_def secondary_phase_def Let_def
        split: option.splits)
next
  case (5 s d p fr s')
  then show ?case
    by (auto simp: client_build_uih_on_client_dlci_def secondary_phase_def Let_def fun_eq_iff
        split: option.splits if_splits)
next
  case (6 s d fr s')
  then show ?case
    by (auto simp: client_build_force_disc_secondary_dlci_def secondary_phase_def fun_eq_iff
        mux_is_open_def client_reserved_def)
qed

section \<open>Reachable sessions\<close>

inductive client_reach :: "RfcommClientState \<Rightarrow> bool" where
  new: "client_reach (client_new ch)"
| kicked: "client_reach s \<Longrightarrow> kickoff s = Inr (fr, s') \<Longrightarrow> client_reach s'"
| packet: "client_reach s \<Longrightarrow> client_handle_packet s p = Inr (out, s') \<Longrightarrow> client_reach s'"
| sent: "client_reach s \<Longrightarrow> build_outbound_uih s p = Inr (fr, s') \<Longrightarrow> client_reach s'"
| drained: "client_reach s \<Longrightarrow> client_take_events s = (evs, s') \<Longrightarrow> client_reach s'"
| attached: "client_reach s \<Longrightarrow> client_attach_client_dlci s ch = Inr (r, s') \<Longrightarrow> client_reach s'"
| sent_on: "client_reach s \<Longrightarrow> client_build_uih_on_client_dlci s d p = Inr (fr, s') \<Longrightarrow>
    client_reach s'"
| drained_for: "client_reach s \<Longrightarrow> client_take_client_events_for_dlci s d = (evs, s') \<Longrightarrow>
    client_reach s'"
| forced: "client_reach s \<Longrightarrow> client_build_force_disc_secondary_dlci s d = (fr, s') \<Longrightarrow>
    client_reach s'"

definition early_phase :: "RfcommClientPhase \<Rightarrow> bool" where
  "early_phase p \<longleftrightarrow> p = CIdle \<or> p = CAwaitingMultiplexerUa \<or> p = CAwaitingPnResponse"

definition primary_inv :: "RfcommClientPhase \<Rightarrow> bool \<Rightarrow> u16 \<Rightarrow> u16 \<Rightarrow> bool" where
  "primary_inv p flow rx sz \<longleftrightarrow>
     RFCOMM_MIN_MAX_FRAME_SIZE \<le> sz \<and> sz \<le> RFCOMM_DEFAULT_MAX_FRAME_SIZE \<and>
     (early_phase p \<longrightarrow> \<not> flow) \<and>
     (p = CAwaitingPnResponse \<longrightarrow> rx = 7) \<and>
     (flow \<longrightarrow> budget_ok rx)"

definition secondary_inv :: "u8 \<Rightarrow> (u8 \<rightharpoonup> SecondaryDlci) \<Rightarrow> bool" where
  "secondary_inv target m \<longleftrightarrow>
     m target = None \<and> m RFCOMM_DLCI_MULTIPLEXER = None \<and>
     (\<forall>d c. m d = Some c \<longrightarrow> budget_ok (sd_rx_credits_outstanding c))"

definition client_inv :: "RfcommClientState \<Rightarrow> bool" where
  "client_inv s \<longleftrightarrow>
     server_channel_dlci (cl_server_channel s) True = cl_target_dlci s \<and>
     primary_inv (cl_phase s) (cl_credit_flow s) (cl_rx_credits_outstanding s)
       (cl_max_frame_size s) \<and>
     secondary_inv (cl_target_dlci s) (cl_secondary_dlcis s)"

lemma server_channel_dlci_odd_ne_0: "server_channel_dlci ch True \<noteq> 0"
  using server_channel_dlci_parity [of ch True] by auto

lemma clamp_frame_size_bounds:
  "RFCOMM_MIN_MAX_FRAME_SIZE \<le> clamp_frame_size sz \<and>
   clamp_frame_size sz \<le> RFCOMM_DEFAULT_MAX_FRAME_SIZE"
  unfolding clamp_frame_size_def by (rule clamp16_bounds) simp

lemma primary_inv_late [simp]:
  "\<not> early_phase p' \<Longrightarrow> primary_inv p flow rx sz \<Longrightarrow> primary_inv p' flow rx sz"
  by (auto simp: primary_inv_def early_phase_def)

lemma early_phase_simps [simp]:
  "early_phase CIdle" "early_phase CAwaitingMultiplexerUa" "early_phase CAwaitingPnResponse"
  "\<not> early_phase CAwaitingTargetUa" "\<not> early_phase COpen" "\<not> early_phase CClosed"
  "\<not> early_phase (CFailed r)"
  by (simp_all add: early_phase_def)

lemma secondary_inv_update:
  "secondary_inv t m \<Longrightarrow> m d = Some c \<Longrightarrow> budget_ok (sd_rx_credits_outstanding c') \<Longrightarrow>
     secondary_inv t (m(d \<mapsto> c'))"
  by (auto simp: secondary_inv_def)

lemma secondary_inv_remove: "secondary_inv t m \<Longrightarrow> secondary_inv t (m(d := None))"
  by (auto simp: secondary_inv_def)

lemma secondary_inv_budget:
  "secondary_inv t m \<Longrightarrow> m d = Some c \<Longrightarrow> budget_ok (sd_rx_credits_outstanding c)"
  by (simp add: secondary_inv_def)

lemmas secondary_inv_intros = secondary_inv_update secondary_inv_remove secondary_inv_budget

lemma client_inv_new: "client_inv (client_new ch)"
  by (simp add: client_inv_def client_new_def primary_inv_def secondary_inv_def)

lemma maybe_emit_opened_inv: "client_inv s \<Longrightarrow> client_inv (maybe_emit_opened s)"
  by (auto simp: client_inv_def maybe_emit_opened_def)

lemma set_secondary_inv:
  assumes "client_inv s" and "cl_secondary_dlcis s d = Some c"
    and "budget_ok (sd_rx_credits_outstanding c')"
  shows "client_inv (s\<lparr>cl_secondary_dlcis := (cl_secondary_dlcis s)(d \<mapsto> c')\<rparr>)"
  using assms by (simp add: client_inv_def secondary_inv_update)

lemma client_budget:
  "client_inv s \<Longrightarrow> cl_secondary_dlcis s d = Some c \<Longrightarrow> budget_ok (sd_rx_credits_outstanding c)"
  by (auto simp: client_inv_def intro: secondary_inv_budget)

lemma client_inv_frame:
  "client_inv (s\<lparr>cl_msc_local_pending := a\<rparr>) = client_inv s"
  "client_inv (s\<lparr>cl_msc_remote_received := a\<rparr>) = client_inv s"
  "client_inv (s\<lparr>cl_client_events := evs\<rparr>) = client_inv s"
  "client_inv (s\<lparr>cl_pending_events := evs'\<rparr>) = client_inv s"
  "client_inv (s\<lparr>cl_tx_credits := tx\<rparr>) = client_inv s"
  by (simp_all add: client_inv_def)

lemma maybe_open_secondary_inv:
  assumes "client_inv s"
  shows "client_inv (maybe_open_secondary s d)"
proof (cases "cl_secondary_dlcis s d")
  case (Some c)
  then have "client_inv (s\<lparr>cl_secondary_dlcis := (cl_secondary_dlcis s)(d \<mapsto> c\<lparr>sd_phase := DlciOpen\<rparr>)\<rparr>)"
    using assms client_budget [OF assms Some] by (intro set_secondary_inv) simp_all
  with Some assms show ?thesis
    by (simp add: maybe_open_secondary_def client_inv_def)
qed (use assms in \<open>simp add: maybe_open_secondary_def\<close>)

lemma on_pn_inv:
  assumes "client_inv s" and "on_mux_command s (ParameterNegotiation r d ft prio sz cr) = Inr (out, s')"
  shows "client_inv s'"
proof (cases "r \<and> d = cl_target_dlci s \<and> cl_phase s = CAwaitingPnResponse")
  case True
  with assms clamp_frame_size_bounds [of sz] show ?thesis
    by (auto simp: on_mux_command_def client_inv_def primary_inv_def)
next
  case False
  with assms show ?thesis
    by (auto simp: on_mux_command_def intro!: set_secondary_inv dest: client_budget
        split: if_splits option.splits)
qed

lemma on_msc_inv:
  assumes "client_inv s" and "on_mux_command s (ModemStatus r d sig) = Inr (out, s')"
  shows "client_inv s'"
proof (cases "d = cl_target_dlci s")
  case True
  with assms show ?thesis
    by (cases r) (auto simp: on_mux_command_def client_inv_frame intro!: maybe_emit_opened_inv)
next
  case False
  with assms show ?thesis
    by (cases r) (auto simp: on_mux_command_def intro!: maybe_open_secondary_inv set_secondary_inv
        dest: client_budget split: option.splits)
qed

lemma on_mux_command_inv:
  assumes "client_inv s" and "on_mux_command s command = Inr (out, s')"
  shows "client_inv s'"
  using assms
  by (cases command) (auto intro: on_pn_inv on_msc_inv, auto simp: on_mux_command_def)

lemma on_uih_target_inv:
  assumes "client_inv s" and "on_uih_target s creds p = Inr (out, s')"
  shows "client_inv s'"
proof -
  define rx where "rx = snd (refill_credits (cl_target_dlci s) (cl_rx_credits_outstanding s))"
  have "primary_inv (cl_phase s) True rx (cl_max_frame_size s)" if "cl_credit_flow s"
    using assms(1) that refill_credits_ok [of "cl_rx_credits_outstanding s" "cl_target_dlci s"]
    by (auto simp: client_inv_def primary_inv_def rx_def early_phase_def)
  with assms show ?thesis
    by (auto simp: on_uih_target_def Let_def client_inv_def rx_def split: if_splits prod.splits)
qed

lemma on_uih_secondary_inv:
  assumes "client_inv s" and "on_uih_secondary s d creds p = Inr (out, s')"
  shows "client_inv s'"
proof (cases "cl_secondary_dlcis s d")
  case (Some c)
  have b: "budget_ok (sd_rx_credits_outstanding c)" using assms(1) Some by (rule client_budget)
  then have "budget_ok (snd (refill_credits d (sd_rx_credits_outstanding c)))"
    by (rule refill_credits_ok)
  with assms Some b show ?thesis
    by (auto simp: on_uih_secondary_def Let_def client_inv_def intro!: secondary_inv_update
        split: if_splits prod.splits)
qed (use assms in \<open>auto simp: on_uih_secondary_def\<close>)

lemma on_ua_inv:
  "client_inv s \<Longrightarrow> on_ua_multiplexer s = Inr (out, s') \<Longrightarrow> client_inv s'"
  "client_inv s \<Longrightarrow> on_ua_target s = Inr (out, s') \<Longrightarrow> client_inv s'"
  "client_inv s \<Longrightarrow> on_ua_secondary s d = Inr (out, s') \<Longrightarrow> client_inv s'"
proof -
  assume i: "client_inv s"
  show "on_ua_multiplexer s = Inr (out, s') \<Longrightarrow> client_inv s'"
    using i by (auto simp: on_ua_multiplexer_def client_inv_def primary_inv_def Let_def
        split: if_splits)
  show "on_ua_target s = Inr (out, s') \<Longrightarrow> client_inv s'"
    using i by (auto simp: on_ua_target_def client_inv_frame Let_def split: if_splits)
  show "on_ua_secondary s d = Inr (out, s') \<Longrightarrow> client_inv s'"
    using i by (auto simp: on_ua_secondary_def Let_def intro!: set_secondary_inv
        dest: client_budget split: if_splits option.splits)
qed

lemma client_fail_inv: "client_inv s \<Longrightarrow> client_inv (client_fail s r)"
  by (auto simp: client_fail_def client_inv_def)

lemma fail_secondary_inv: "client_inv s \<Longrightarrow> client_inv (fail_secondary s d r)"
  by (auto simp: fail_secondary_def client_inv_def secondary_inv_remove)

lemma client_handle_frame_inv:
  assumes inv: "client_inv s" and st: "client_handle_frame s f = Inr (out, s')"
  shows "client_inv s'"
proof (cases "fr_kind f")
  case Uih
  then show ?thesis
    using st inv
    by (auto simp: client_handle_frame_def Let_def on_mux_uih_def
        elim!: and_then_InrE intro: on_mux_command_inv on_uih_target_inv on_uih_secondary_inv
        split: if_splits)
next
  case Disc
  have "client_inv (s\<lparr>cl_phase := CClosed, cl_pending_events := evs\<rparr>)" for evs
    using inv by (auto simp: client_inv_def)
  with Disc show ?thesis
    using st inv
    by (auto simp: client_handle_frame_def Let_def intro: fail_secondary_inv split: if_splits)
qed (use st inv in \<open>auto simp: client_handle_frame_def Let_def
       intro: fail_secondary_inv client_fail_inv on_ua_inv split: if_splits\<close>)

lemma client_handle_packet_inv:
  "client_inv s \<Longrightarrow> client_handle_packet s p = Inr (out, s') \<Longrightarrow> client_inv s'"
  by (auto simp: client_handle_packet_def elim!: and_then_InrE intro: client_handle_frame_inv)

lemma client_attach_inv:
  assumes "client_inv s" and "client_attach_client_dlci s ch = Inr (r, s')"
  shows "client_inv s'"
proof -
  have "secondary_inv t (m(server_channel_dlci ch True \<mapsto> c))"
    if "secondary_inv t m" "server_channel_dlci ch True \<noteq> t" "budget_ok (sd_rx_credits_outstanding c)"
    for t m c
    using that server_channel_dlci_odd_ne_0 [of ch] by (auto simp: secondary_inv_def)
  with assms show ?thesis
    by (auto simp: client_attach_client_dlci_def Let_def client_inv_def split: if_splits)
qed

lemma client_build_uih_inv:
  assumes "client_inv s" and "client_build_uih_on_client_dlci s d p = Inr (fr, s')"
  shows "client_inv s'"
  using assms
  by (auto simp: client_build_uih_on_client_dlci_def Let_def intro!: set_secondary_inv
      dest: client_budget split: option.splits if_splits)

lemma kickoff_inv: "client_inv s \<Longrightarrow> kickoff s = Inr (fr, s') \<Longrightarrow> client_inv s'"
  by (auto simp: kickoff_def client_inv_def primary_inv_def split: if_splits)

lemma build_outbound_uih_inv: "client_inv s \<Longrightarrow> build_outbound_uih s p = Inr (fr, s') \<Longrightarrow> client_inv s'"
  by (auto simp: build_outbound_uih_def Let_def client_inv_frame split: if_splits)

lemma client_forced_inv:
  "client_inv s \<Longrightarrow> client_build_force_disc_secondary_dlci s d = (fr, s') \<Longrightarrow> client_inv s'"
  by (auto simp: client_build_force_disc_secondary_dlci_def client_inv_def secondary_inv_remove)

lemma client_reach_inv: "client_reach s \<Longrightarrow> client_inv s"
  by (induction rule: client_reach.induct)
    (auto simp: client_take_events_def client_take_client_events_for_dlci_def client_inv_frame
     intro: client_inv_new kickoff_inv client_handle_packet_inv build_outbound_uih_inv
       client_attach_inv client_build_uih_inv client_forced_inv split: prod.splits)


section \<open>What one frame can touch\<close>

text \<open>The primary session: everything but the secondary DLCIs and their events.\<close>

definition primary_view where
  "primary_view s = (cl_server_channel s, cl_target_dlci s, cl_max_frame_size s, cl_phase s,
     cl_msc_local_pending s, cl_msc_remote_received s, cl_pending_events s, cl_credit_flow s,
     cl_tx_credits s, cl_rx_credits_outstanding s)"

lemma fail_secondary_frame:
  "primary_view (fail_secondary s d r) = primary_view s"
  "e \<noteq> d \<Longrightarrow> cl_secondary_dlcis (fail_secondary s d r) e = cl_secondary_dlcis s e"
  by (simp_all add: primary_view_def fail_secondary_def)

lemma on_ua_secondary_frame:
  assumes "on_ua_secondary s d = Inr (out, s')"
  shows "primary_view s' = primary_view s"
    "e \<noteq> d \<Longrightarrow> cl_secondary_dlcis s' e = cl_secondary_dlcis s e"
  using assms by (auto simp: primary_view_def on_ua_secondary_def Let_def split: option.splits if_splits)

lemma on_uih_secondary_frame:
  assumes "on_uih_secondary s d creds p = Inr (out, s')"
  shows "primary_view s' = primary_view s"
    "e \<noteq> d \<Longrightarrow> cl_secondary_dlcis s' e = cl_secondary_dlcis s e"
  using assms by (auto simp: primary_view_def on_uih_secondary_def Let_def
      split: option.splits if_splits prod.splits)

lemma foreign_frame:
  assumes "fr_dlci f \<noteq> RFCOMM_DLCI_MULTIPLEXER" and "fr_dlci f \<noteq> cl_target_dlci s"
    and "client_handle_frame s f = Inr (out, s')"
  shows "primary_view s' = primary_view s"
    and "e \<noteq> fr_dlci f \<Longrightarrow> cl_secondary_dlcis s' e = cl_secondary_dlcis s e"
proof -
  show "primary_view s' = primary_view s"
    using assms
    by (cases "fr_kind f")
      (auto simp: client_handle_frame_def Let_def fail_secondary_frame
        dest: on_ua_secondary_frame(1) on_uih_secondary_frame(1) split: if_splits)
  show "cl_secondary_dlcis s' e = cl_secondary_dlcis s e" if "e \<noteq> fr_dlci f"
    using assms that
    by (cases "fr_kind f")
      (auto simp: client_handle_frame_def Let_def fail_secondary_frame
        dest: on_ua_secondary_frame(2) [of _ _ _ _ e] on_uih_secondary_frame(2) [of _ _ _ _ _ _ e]
        split: if_splits)
qed

section \<open>Every frame follows the life cycle\<close>

definition new_events :: "RfcommClientState \<Rightarrow> RfcommClientState \<Rightarrow> ClientDlciEvent list" where
  "new_events s s' = drop (length (cl_client_events s)) (cl_client_events s')"

text \<open>One step as seen by one DLCI: the phase moves along the abstract machine, and an
  \<open>DlciOpened\<close> is queued exactly when it becomes open.\<close>

definition dlci_view_ok :: "RfcommClientState \<Rightarrow> RfcommClientState \<Rightarrow> u8 \<Rightarrow> bool" where
  "dlci_view_ok s s' e \<longleftrightarrow>
     dlci_steps (secondary_phase s e) (secondary_phase s' e) \<and>
     (DlciOpened e \<in> set (new_events s s') \<longleftrightarrow>
        secondary_phase s e \<noteq> Some DlciOpen \<and> secondary_phase s' e = Some DlciOpen)"

lemma dlci_view_stay:
  "secondary_phase s' e = secondary_phase s e \<Longrightarrow> DlciOpened e \<notin> set (new_events s s') \<Longrightarrow>
     dlci_view_ok s s' e"
  by (auto simp: dlci_view_ok_def)

lemma dlci_view_move:
  "dlci_step (secondary_phase s e) (secondary_phase s' e) \<Longrightarrow>
     secondary_phase s' e \<noteq> Some DlciOpen \<Longrightarrow> DlciOpened e \<notin> set (new_events s s') \<Longrightarrow>
     dlci_view_ok s s' e"
  by (auto simp: dlci_view_ok_def)

lemma dlci_view_open:
  "secondary_phase s e = Some AwaitingMscExchange \<Longrightarrow> secondary_phase s' e = Some DlciOpen \<Longrightarrow>
     DlciOpened e \<in> set (new_events s s') \<Longrightarrow> dlci_view_ok s s' e"
  by (auto simp: dlci_view_ok_def intro: dlci_step.msc_settled)

lemma new_events_simps:
  "cl_client_events s' = cl_client_events s \<Longrightarrow> new_events s s' = []"
  "cl_client_events s' = cl_client_events s @ evs \<Longrightarrow> new_events s s' = evs"
  by (simp_all add: new_events_def)

lemma dlci_view_same:
  "cl_secondary_dlcis s' = cl_secondary_dlcis s \<Longrightarrow> cl_client_events s' = cl_client_events s \<Longrightarrow>
     dlci_view_ok s s' e"
  by (rule dlci_view_stay) (simp_all add: secondary_phase_def new_events_simps)

lemma maybe_open_secondary_view:
  assumes ev: "cl_client_events s1 = cl_client_events s"
    and ph: "secondary_phase s1 = secondary_phase s"
  shows "dlci_view_ok s (maybe_open_secondary s1 d) e"
proof (cases "\<exists>c. cl_secondary_dlcis s1 d = Some c \<and> sd_phase c = AwaitingMscExchange \<and>
    \<not> sd_msc_local_pending c \<and> sd_msc_remote_received c")
  case True
  then obtain c where c: "cl_secondary_dlcis s1 d = Some c" "sd_phase c = AwaitingMscExchange"
    and m: "maybe_open_secondary s1 d = s1\<lparr>cl_secondary_dlcis := (cl_secondary_dlcis s1)(d \<mapsto>
      c\<lparr>sd_phase := DlciOpen\<rparr>), cl_client_events := cl_client_events s @ [DlciOpened d]\<rparr>"
    by (auto simp: maybe_open_secondary_def ev)
  have new: "new_events s (maybe_open_secondary s1 d) = [DlciOpened d]"
    by (simp add: m new_events_simps)
  have "secondary_phase s d = Some AwaitingMscExchange"
    using c by (simp add: ph [symmetric] secondary_phase_def)
  then show ?thesis
  proof (cases "e = d")
    case True
    with \<open>secondary_phase s d = _\<close> show ?thesis
      by (intro dlci_view_open) (simp_all add: new, simp add: m secondary_phase_def)
  next
    case False
    with fun_cong [OF ph, of e] show ?thesis
      by (intro dlci_view_stay) (simp_all add: new, simp add: m secondary_phase_def)
  qed
next
  case False
  then have "maybe_open_secondary s1 d = s1"
    by (auto simp: maybe_open_secondary_def split: option.splits)
  with ev ph show ?thesis by (auto intro!: dlci_view_stay simp: new_events_simps)
qed

lemma secondary_phase_set_flag:
  "cl_secondary_dlcis s d = Some c \<Longrightarrow> sd_phase c' = sd_phase c \<Longrightarrow>
     secondary_phase (s\<lparr>cl_secondary_dlcis := (cl_secondary_dlcis s)(d \<mapsto> c')\<rparr>) = secondary_phase s"
  by (auto simp: secondary_phase_def fun_eq_iff)

lemma secondary_advance_view:
  assumes "cl_secondary_dlcis s d = Some c" and "dlci_step (Some (sd_phase c)) (Some (sd_phase c'))"
    and "sd_phase c' \<noteq> DlciOpen"
  shows "dlci_view_ok s (s\<lparr>cl_secondary_dlcis := (cl_secondary_dlcis s)(d \<mapsto> c')\<rparr>) e"
proof (cases "e = d")
  case True
  with assms show ?thesis
    by (intro dlci_view_move) (simp_all add: secondary_phase_def new_events_simps)
next
  case False
  with assms show ?thesis
    by (intro dlci_view_stay) (simp_all add: secondary_phase_def new_events_simps)
qed

lemma on_mux_command_view:
  assumes "on_mux_command s command = Inr (out, s')"
  shows "dlci_view_ok s s' e"
proof (cases command)
  case (ParameterNegotiation r d ft prio sz cr)
  with assms show ?thesis
    by (auto simp: on_mux_command_def dlci_step_simps intro: dlci_view_same
        intro!: secondary_advance_view split: if_splits option.splits)
next
  case (ModemStatus r d sig)
  with assms show ?thesis
    by (auto simp: on_mux_command_def maybe_emit_opened_def secondary_phase_set_flag
        intro: maybe_open_secondary_view dlci_view_same split: if_splits option.splits)
qed (use assms in \<open>auto simp: on_mux_command_def intro: dlci_view_same\<close>)

lemma on_ua_view:
  assumes "on_ua_multiplexer s = Inr (out, s') \<or> on_ua_target s = Inr (out, s') \<or>
    on_ua_secondary s d = Inr (out, s')"
  shows "dlci_view_ok s s' e"
  using assms
  by (auto simp: on_ua_multiplexer_def on_ua_target_def on_ua_secondary_def Let_def dlci_step_simps
      intro: dlci_view_same secondary_advance_view split: if_splits option.splits)

lemma on_uih_view:
  assumes "on_uih_target s creds p = Inr (out, s') \<or> on_uih_secondary s d creds p = Inr (out, s')"
  shows "dlci_view_ok s s' e"
  using assms
proof
  assume "on_uih_target s creds p = Inr (out, s')"
  then show ?thesis
    by (auto simp: on_uih_target_def Let_def intro!: dlci_view_same split: if_splits prod.splits)
next
  assume *: "on_uih_secondary s d creds p = Inr (out, s')"
  then have "secondary_phase s' = secondary_phase s"
    by (auto simp: on_uih_secondary_def Let_def secondary_phase_def fun_eq_iff
        split: option.splits if_splits prod.splits)
  moreover have "cl_client_events s' = cl_client_events s \<or>
      cl_client_events s' = cl_client_events s @ [DlciPayload d p]"
    using * by (auto simp: on_uih_secondary_def Let_def split: option.splits if_splits prod.splits)
  ultimately show ?thesis
    by (auto intro!: dlci_view_stay simp: new_events_simps)
qed

lemma fail_secondary_view:
  assumes "cl_secondary_dlcis s d \<noteq> None"
  shows "dlci_view_ok s (fail_secondary s d r) e"
proof (cases "e = d")
  case True
  with assms show ?thesis
    by (intro dlci_view_move)
      (auto simp: fail_secondary_def secondary_phase_def new_events_simps intro: dlci_step.dropped)
next
  case False
  with assms show ?thesis
    by (intro dlci_view_stay) (simp_all add: fail_secondary_def secondary_phase_def new_events_simps)
qed

lemma client_handle_packet_view:
  assumes "client_handle_packet s p = Inr (out, s')"
  shows "dlci_view_ok s s' e"
proof -
  obtain f where f: "client_handle_frame s f = Inr (out, s')"
    using assms by (auto simp: client_handle_packet_def elim: and_then_InrE)
  then show ?thesis
    by (cases "fr_kind f")
      (auto simp: client_handle_frame_def Let_def client_fail_def on_mux_uih_def
        elim!: and_then_InrE intro!: fail_secondary_view
        intro: on_ua_view on_uih_view on_mux_command_view dlci_view_same split: if_splits)
qed

section \<open>Runs\<close>

text \<open>The session fed a list of packets, collecting what it sends.\<close>

fun client_run :: "RfcommClientState \<Rightarrow> bytes list \<Rightarrow> client_step" where
  "client_run s [] = Inr ([], s)"
| "client_run s (p # ps) =
     and_then (client_handle_packet s p) (\<lambda>(out, s').
       and_then (client_run s' ps) (\<lambda>(out', s''). Inr (out @ out', s'')))"

lemma target_dlci_mask [simp]:
  "server_channel_dlci ch dir AND 0x3f = server_channel_dlci ch dir"
  by (rule and_mask6_id) (rule server_channel_dlci_less_64)

lemma mux_command_length [simp]:
  "length (build_parameter_negotiation_command_cfc d prio sz n) = 10"
  "length (build_parameter_negotiation_command d prio sz n) = 10"
  "length (build_parameter_negotiation_response_cfc d prio sz n) = 10"
  "length (build_parameter_negotiation_response d prio sz n) = 10"
  "length (build_modem_status_command d sig) = 4"
  "length (build_modem_status_response d sig) = 4"
  by (simp_all add: build_parameter_negotiation_command_cfc_def
      build_parameter_negotiation_command_def build_parameter_negotiation_response_cfc_def
      build_parameter_negotiation_response_def build_parameter_negotiation_def
      build_modem_status_command_def build_modem_status_response_def build_modem_status_def
      build_multiplexer_command_def length_encode_length)

lemma handle_ua_multiplexer [step_simps]:
  "client_handle_packet s (build_ua 0 cr) = on_ua_multiplexer s"
  by (simp add: client_handle_packet_def parse_build client_handle_frame_def)

lemma handle_ua_target [step_simps]:
  "cl_target_dlci s = server_channel_dlci ch True \<Longrightarrow>
     client_handle_packet s (build_ua (server_channel_dlci ch True) cr) = on_ua_target s"
  by (simp add: client_handle_packet_def parse_build client_handle_frame_def
      server_channel_dlci_odd_ne_0)

lemma handle_mux_uih [step_simps]:
  "length p < 2 ^ 15 \<Longrightarrow> client_handle_packet s (build_uih 0 cr creds p) = on_mux_uih s p"
  by (simp add: client_handle_packet_def parse_build client_handle_frame_def)

lemma client_run_reach: "client_reach s \<Longrightarrow> client_run s ps = Inr (out, s') \<Longrightarrow> client_reach s'"
  by (induction ps arbitrary: s out)
    (auto elim!: and_then_InrE intro: client_reach.packet split: prod.splits)

text \<open>A session on server channel 2 in mid-handshake, used to instantiate the properties: flow
  control agreed, the target's UA still to come.\<close>

definition demo_session :: RfcommClientState where
  "demo_session = (client_new 2)\<lparr>cl_phase := CAwaitingTargetUa, cl_credit_flow := True,
     cl_rx_credits_outstanding := 7\<rparr>"

lemma demo_session_reach: "client_reach demo_session"
proof -
  have k: "client_reach ((client_new 2)\<lparr>cl_phase := CAwaitingMultiplexerUa\<rparr>)"
    by (rule client_reach.kicked [OF client_reach.new])
      (simp add: kickoff_def client_new_def)
  have "client_run ((client_new 2)\<lparr>cl_phase := CAwaitingMultiplexerUa\<rparr>) [build_ua 0 True,
      build_uih 0 True None (build_parameter_negotiation_response_cfc 5 7 127 0)] =
    Inr ([build_uih 0 True None (build_parameter_negotiation_command 5 7 127 7),
      build_sabm 5 True], demo_session)"
    by (simp add: client_new_def step_simps on_ua_multiplexer_def on_mux_uih_def demo_session_def
        parse_parameter_negotiation on_mux_command_def server_channel_dlci_def clamp_frame_size_def
        clamp16_def)
  with k show ?thesis by (rule client_run_reach)
qed

section \<open>Properties\<close>



text \<open>
  Credit accounting.  In a reachable session with flow control, a data
  frame on the primary DLCI either spends exactly one of the phone's credits and sends nothing,
  or spends the credit that reaches the threshold and grants back exactly the four missing ones,
  in one empty frame on that DLCI; the payload is delivered once if the session is open and is
  dropped otherwise.
\<close>

theorem data_frame_accounting:
  assumes "client_reach s" and "cl_credit_flow s" and "p \<noteq> []"
  shows "\<exists>out s'. on_uih_target s creds p = Inr (out, s') \<and>
     (out = [] \<and> unat (cl_rx_credits_outstanding s') = unat (cl_rx_credits_outstanding s) - 1 \<or>
      out = [build_uih (cl_target_dlci s) True (Some 4) []] \<and>
        unat (cl_rx_credits_outstanding s') = unat (cl_rx_credits_outstanding s) - 1 + 4) \<and>
     cl_pending_events s' =
       cl_pending_events s @ (if cl_phase s = COpen then [CPayloadEvent p] else [])"
proof -
  have "budget_ok (cl_rx_credits_outstanding s)"
    using client_reach_inv [OF assms(1)] assms(2) by (simp add: client_inv_def primary_inv_def)
  then show ?thesis
    by (rule refill_credits_cases [where d = "cl_target_dlci s"])
      (use assms in \<open>auto simp: on_uih_target_def Let_def client_is_open_def\<close>)
qed

theorem data_frame_accounting_witness:
  "\<exists>out s'. on_uih_target demo_session None [1] = Inr (out, s') \<and> cl_pending_events s' = []"
proof -
  have "cl_credit_flow demo_session" "cl_phase demo_session \<noteq> COpen"
    "cl_pending_events demo_session = []"
    by (simp_all add: demo_session_def client_new_def)
  then show ?thesis
    using data_frame_accounting [OF demo_session_reach, of "[1]" None] by auto
qed

text \<open>
  C2: a refused or closed secondary channel never costs the phone link.  A
  frame for any DLCI other than the multiplexer's and the primary one (a DM or DISC from the
  phone included) leaves the whole primary session as it was, and every other secondary DLCI.
\<close>

theorem foreign_dlci_isolated:
  assumes "parse_frame packet = Inr f" and "fr_dlci f \<noteq> RFCOMM_DLCI_MULTIPLEXER"
    and "fr_dlci f \<noteq> cl_target_dlci s" and "client_handle_packet s packet = Inr (out, s')"
  shows "primary_view s' = primary_view s \<and>
         (\<forall>e. e \<noteq> fr_dlci f \<longrightarrow> cl_secondary_dlcis s' e = cl_secondary_dlcis s e)"
  using foreign_frame [OF assms(2,3)] assms(1,4) by (auto simp: client_handle_packet_def)

theorem foreign_dlci_isolated_witness:
  "primary_view (fail_secondary demo_session 11 (PeerSentDm 11)) = primary_view demo_session"
proof -
  let ?s = "demo_session\<lparr>cl_secondary_dlcis := [11 \<mapsto> \<lparr>sd_phase = DlciOpen,
      sd_msc_local_pending = False, sd_msc_remote_received = True, sd_credit_flow = True,
      sd_tx_credits = 0, sd_rx_credits_outstanding = 7\<rparr>]\<rparr>"
  have "client_handle_packet ?s (build_dm 11 True) = Inr ([], fail_secondary ?s 11 (PeerSentDm 11))"
    by (simp add: client_handle_packet_def parse_build client_handle_frame_def)
  then have "primary_view (fail_secondary ?s 11 (PeerSentDm 11)) = primary_view ?s"
    by (intro conjunct1 [OF foreign_dlci_isolated [OF parse_build_control(3)]])
      (simp_all add: demo_session_def client_new_def server_channel_dlci_def)
  then show ?thesis by (simp add: primary_view_def fail_secondary_def)
qed



text \<open>
  the handshake completes.  From a fresh session, after the kick-off, the
  phone's UA, its parameter-negotiation response (credit-based, any frame size, any grant), its
  UA on the target and the two modem-status messages in either order bring the session to
  \<open>COpen\<close> with exactly one \<open>Opened\<close> event; the session sends the PN command, the SABM, its own
  modem status and the modem-status response, in that order.
\<close>

theorem handshake_opens:
  fixes ch :: u8
  defines "t \<equiv> server_channel_dlci ch True"
  shows "\<exists>s0 s. kickoff (client_new ch) = Inr (build_sabm 0 True, s0) \<and>
      client_run s0 ([build_ua 0 cr1,
             build_uih 0 cr2 None (build_parameter_negotiation_response_cfc t prio sz n),
             build_ua t cr3] @ map (build_uih 0 cr4 None)
               (if response_first
                then [build_modem_status_response t a, build_modem_status_command t sig]
                else [build_modem_status_command t sig, build_modem_status_response t a])) =
          Inr ([build_uih 0 True None (build_parameter_negotiation_command t 7 127 7),
                build_sabm t True,
                build_uih 0 True None (build_modem_status_command t 0x8d),
                build_uih 0 False None (build_modem_status_response t sig)], s) \<and>
        cl_phase s = COpen \<and> cl_pending_events s = [COpenedEvent] \<and> cl_credit_flow s \<and>
        cl_tx_credits s = u16_of_u8 n \<and> cl_max_frame_size s = clamp_frame_size sz"
  unfolding t_def
  by (simp add: kickoff_def client_new_def step_simps on_ua_multiplexer_def on_mux_uih_def
      parse_parameter_negotiation parse_modem_status on_mux_command_def on_ua_target_def
      maybe_emit_opened_def)

text \<open>
  The session can be declared open too early.
  \<open>maybe_emit_opened\<close> does not look at the phase, so in any phase but \<open>COpen\<close> in which no modem
  status of ours is pending (idle, waiting for the phone's UA, closed, failed), one modem-status
  command from the phone for the target DLCI moves the session to \<open>COpen\<close> and queues \<open>Opened\<close>.
\<close>

theorem modem_status_opens_any_phase:
  assumes "cl_target_dlci s = server_channel_dlci ch True" and "cl_phase s \<noteq> COpen"
    and "\<not> cl_msc_local_pending s"
  shows "\<exists>s'. client_handle_packet s
            (build_uih 0 cr None (build_modem_status_command (cl_target_dlci s) sig)) =
          Inr ([build_uih 0 False None (build_modem_status_response (cl_target_dlci s) sig)], s') \<and>
        cl_phase s' = COpen \<and> cl_pending_events s' = cl_pending_events s @ [COpenedEvent]"
  using assms
  by (simp add: step_simps on_mux_uih_def parse_modem_status on_mux_command_def
      maybe_emit_opened_def)

theorem modem_status_opens_any_phase_witness:
  "\<exists>s'. client_handle_packet ((client_new 2)\<lparr>cl_phase := CClosed\<rparr>)
          (build_uih 0 True None (build_modem_status_command 5 0x8d)) =
        Inr ([build_uih 0 False None (build_modem_status_response 5 0x8d)], s') \<and>
      cl_phase s' = COpen"
  using modem_status_opens_any_phase
    [of "(client_new 2)\<lparr>cl_phase := CClosed\<rparr>" 2 True "0x8d"]
  by (auto simp: client_new_def server_channel_dlci_def)

text \<open>
  The message and phone-book runtimes can share this session.
  Draining the events of two different DLCIs gives each runtime the same events in either
  order, leaves the same queue, and a second drain finds nothing.
\<close>

theorem client_drain_independent:
  assumes "d \<noteq> e"
  shows "let (ds, s1) = client_take_client_events_for_dlci s d;
             (es, s2) = client_take_client_events_for_dlci s1 e;
             (es', t1) = client_take_client_events_for_dlci s e;
             (ds', t2) = client_take_client_events_for_dlci t1 d
         in ds = ds' \<and> es = es' \<and> cl_client_events s2 = cl_client_events t2 \<and>
            fst (client_take_client_events_for_dlci s2 d) = []"
proof -
  obtain ds s1 es s2 es' t1 ds' t2 xs s3 where
    runs: "client_take_client_events_for_dlci s d = (ds, s1)"
      "client_take_client_events_for_dlci s1 e = (es, s2)"
      "client_take_client_events_for_dlci s e = (es', t1)"
      "client_take_client_events_for_dlci t1 d = (ds', t2)"
      "client_take_client_events_for_dlci s2 d = (xs, s3)"
    by (metis surj_pair)
  moreover have "xs = []"
    using client_mux.take_effect [OF runs(1)] client_mux.take_effect [OF runs(2)]
      client_mux.take_effect [OF runs(5)] by (auto simp: filter_empty_conv)
  ultimately show ?thesis
    using client_mux.drain_commute [OF assms runs(1-4)] by simp
qed

theorem client_drain_independent_witness:
  "fst (client_take_client_events_for_dlci
     (demo_session\<lparr>cl_client_events := [DlciOpened 11, DlciPayload 13 [1]]\<rparr>) 13) =
   [DlciPayload 13 [1]]"
  using client_drain_independent
    [of 13 11 "demo_session\<lparr>cl_client_events := [DlciOpened 11, DlciPayload 13 [1]]\<rparr>"]
  by (simp add: client_take_client_events_for_dlci_def)

text \<open>
  Stall recovery never locks a channel out.  On a session whose
  multiplexer is up, after the forced disconnect of the DLCI of a server channel other than the
  primary one, attaching that server channel succeeds and starts from parameter negotiation.
\<close>

theorem client_recovery_reattaches:
  assumes "mux_is_open s" and "server_channel_dlci ch True \<noteq> cl_target_dlci s"
  shows "\<exists>fr s'. client_attach_client_dlci
            (snd (client_build_force_disc_secondary_dlci s (server_channel_dlci ch True))) ch =
           Inr ((server_channel_dlci ch True, fr), s') \<and>
         secondary_phase s' (server_channel_dlci ch True) = Some AwaitingPnRsp"
proof -
  obtain fr0 s1 where f: "client_build_force_disc_secondary_dlci s (server_channel_dlci ch True) = (fr0, s1)"
    by fastforce
  with assms have "is_ok (client_attach_client_dlci s1 ch)"
    by (intro client_mux.reattach_after_force_disc [of s ch fr0]) (simp_all add: client_reserved_def)
  then obtain d fr s' where a: "client_attach_client_dlci s1 ch = Inr ((d, fr), s')"
    by (cases "client_attach_client_dlci s1 ch") auto
  show ?thesis using client_mux.attach_effect [OF a] a f by auto
qed

theorem client_recovery_reattaches_witness:
  "\<exists>fr s'. client_attach_client_dlci (snd (client_build_force_disc_secondary_dlci demo_session 11)) 5
     = Inr ((11, fr), s') \<and> secondary_phase s' 11 = Some AwaitingPnRsp"
  using client_recovery_reattaches [of demo_session 5]
  by (simp add: demo_session_def client_new_def mux_is_open_def server_channel_dlci_def)

end
