(* ===== verification/Rust_Str.thy ===== *)
theory Rust_Str
  imports Prelude
begin

text \<open>
  The part of Rust's text handling that the Aokie sources use.  A \<open>String\<close> is the list of its
  Unicode scalar values (\<open>rstr\<close>), so that \<open>chars\<close>, \<open>trim\<close>, \<open>split\<close> and \<open>find\<close> are list
  functions; \<open>utf8_decode\<close> is \<open>std::str::from_utf8\<close> (it refuses overlong forms, surrogates and
  values past U+10FFFF) and \<open>str_len\<close> is \<open>str::len\<close>, which counts UTF-8 octets.
\<close>

type_synonym rstr = "nat list"

definition lit :: "string \<Rightarrow> rstr" where
  "lit s = map of_char s"

definition ascii :: "string \<Rightarrow> bytes" where
  "ascii s = map of_char s"

lemma lit_simps [simp]:
  "lit [] = []" "lit (c # s) = of_char c # lit s" "lit (s @ t) = lit s @ lit t"
  by (simp_all add: lit_def)

section \<open>UTF-8\<close>

definition utf8_cont :: "u8 \<Rightarrow> bool" where
  "utf8_cont b = (0x80 \<le> b \<and> b \<le> 0xBF)"

definition cont_bits :: "u8 \<Rightarrow> nat" where
  "cont_bits b = unat b - 0x80"

text \<open>The second octet has a narrower range after four of the lead octets.\<close>

definition utf8_second :: "u8 \<Rightarrow> u8 \<Rightarrow> bool" where
  "utf8_second b0 b1 =
     (if b0 = 0xE0 then 0xA0 \<le> b1 \<and> b1 \<le> 0xBF
      else if b0 = 0xED then 0x80 \<le> b1 \<and> b1 \<le> 0x9F
      else if b0 = 0xF0 then 0x90 \<le> b1 \<and> b1 \<le> 0xBF
      else if b0 = 0xF4 then 0x80 \<le> b1 \<and> b1 \<le> 0x8F
      else utf8_cont b1)"

text \<open>The first character and what follows it.\<close>

fun utf8_step :: "bytes \<Rightarrow> (nat \<times> bytes) option" where
  "utf8_step [] = None"
| "utf8_step (b0 # bs) =
     (if b0 < 0x80 then Some (unat b0, bs)
      else if 0xC2 \<le> b0 \<and> b0 \<le> 0xDF then
        (case bs of
           b1 # r \<Rightarrow> if utf8_cont b1 then Some ((unat b0 - 0xC0) * 64 + cont_bits b1, r) else None
         | _ \<Rightarrow> None)
      else if 0xE0 \<le> b0 \<and> b0 \<le> 0xEF then
        (case bs of
           b1 # b2 # r \<Rightarrow>
             if utf8_second b0 b1 \<and> utf8_cont b2
             then Some ((unat b0 - 0xE0) * 4096 + cont_bits b1 * 64 + cont_bits b2, r) else None
         | _ \<Rightarrow> None)
      else if 0xF0 \<le> b0 \<and> b0 \<le> 0xF4 then
        (case bs of
           b1 # b2 # b3 # r \<Rightarrow>
             if utf8_second b0 b1 \<and> utf8_cont b2 \<and> utf8_cont b3
             then Some ((unat b0 - 0xF0) * 262144 + cont_bits b1 * 4096 + cont_bits b2 * 64 +
                        cont_bits b3, r)
             else None
         | _ \<Rightarrow> None)
      else None)"

lemma utf8_step_shorter: "utf8_step bs = Some (c, r) \<Longrightarrow> length r < length bs"
  by (cases bs) (auto split: if_splits list.splits)

function utf8_decode :: "bytes \<Rightarrow> rstr option" where
  "utf8_decode bs =
     (if bs = [] then Some []
      else case utf8_step bs of None \<Rightarrow> None
           | Some (c, r) \<Rightarrow> map_option (Cons c) (utf8_decode r))"
  by pat_completeness auto
termination
  by (relation "measure length") (auto dest: utf8_step_shorter)

declare utf8_decode.simps [simp del]

lemma utf8_decode_Nil [simp]: "utf8_decode [] = Some []"
  by (simp add: utf8_decode.simps)

lemma utf8_decode_step:
  "utf8_step bs = Some (c, r) \<Longrightarrow> utf8_decode bs = map_option (Cons c) (utf8_decode r)"
  by (subst utf8_decode.simps) auto

lemma utf8_step_append: "utf8_step bs = Some (c, r) \<Longrightarrow> utf8_step (bs @ t) = Some (c, r @ t)"
  by (cases bs) (auto split: if_splits list.splits)

lemma utf8_decode_append:
  "utf8_decode a = Some x \<Longrightarrow> utf8_decode b = Some y \<Longrightarrow> utf8_decode (a @ b) = Some (x @ y)"
proof (induction a arbitrary: x rule: utf8_decode.induct)
  case (1 a)
  show ?case
  proof (cases "a = []")
    case False
    with 1 obtain c r x' where s: "utf8_step a = Some (c, r)" and x: "utf8_decode r = Some x'"
      and xx: "x = c # x'"
      by (subst (asm) (2) utf8_decode.simps) (auto split: option.splits)
    with 1 False have "utf8_decode (r @ b) = Some (x' @ y)" by blast
    with utf8_decode_step [OF utf8_step_append [OF s, of b]] xx show ?thesis by simp
  qed (use 1 in simp)
qed

definition utf8_len :: "nat \<Rightarrow> nat" where
  "utf8_len c = (if c < 0x80 then 1 else if c < 0x800 then 2 else if c < 0x10000 then 3 else 4)"

definition str_len :: "rstr \<Rightarrow> nat" where
  "str_len s = sum_list (map utf8_len s)"

section \<open>Characters\<close>

abbreviation (input) CR :: nat where "CR \<equiv> 13"
abbreviation (input) LF :: nat where "LF \<equiv> 10"

definition is_whitespace :: "nat \<Rightarrow> bool" where
  "is_whitespace c =
     (9 \<le> c \<and> c \<le> 13 \<or> c = 0x20 \<or> c = 0x85 \<or> c = 0xA0 \<or> c = 0x1680 \<or>
      0x2000 \<le> c \<and> c \<le> 0x200A \<or> c = 0x2028 \<or> c = 0x2029 \<or> c = 0x202F \<or> c = 0x205F \<or> c = 0x3000)"

definition is_ascii_digit :: "nat \<Rightarrow> bool" where
  "is_ascii_digit c = (48 \<le> c \<and> c \<le> 57)"

definition to_ascii_lowercase :: "nat \<Rightarrow> nat" where
  "to_ascii_lowercase c = (if 65 \<le> c \<and> c \<le> 90 then c + 32 else c)"

definition eq_ignore_ascii_case :: "rstr \<Rightarrow> rstr \<Rightarrow> bool" where
  "eq_ignore_ascii_case a b = (map to_ascii_lowercase a = map to_ascii_lowercase b)"

section \<open>Slices\<close>

definition trim_start_matches :: "(nat \<Rightarrow> bool) \<Rightarrow> rstr \<Rightarrow> rstr" where
  "trim_start_matches P s = dropWhile P s"

definition trim_end_matches :: "(nat \<Rightarrow> bool) \<Rightarrow> rstr \<Rightarrow> rstr" where
  "trim_end_matches P s = rev (dropWhile P (rev s))"

definition trim :: "rstr \<Rightarrow> rstr" where
  "trim s = trim_end_matches is_whitespace (trim_start_matches is_whitespace s)"

lemma trim_tight:
  assumes "s \<noteq> []" "\<not> is_whitespace (hd s)" "\<not> is_whitespace (last s)"
  shows "trim s = s"
proof -
  from assms have "trim_start_matches is_whitespace s = s"
    by (cases s) (simp_all add: trim_start_matches_def)
  moreover from assms have "trim_end_matches is_whitespace s = s"
    by (cases s rule: rev_cases) (simp_all add: trim_end_matches_def)
  ultimately show ?thesis by (simp add: trim_def)
qed

lemma trim_space: "trim (32 # s) = trim s"
  by (simp add: trim_def trim_start_matches_def is_whitespace_def)

fun strip_prefix :: "rstr \<Rightarrow> rstr \<Rightarrow> rstr option" where
  "strip_prefix [] s = Some s"
| "strip_prefix (p # ps) [] = None"
| "strip_prefix (p # ps) (c # s) = (if p = c then strip_prefix ps s else None)"

definition starts_with :: "rstr \<Rightarrow> rstr \<Rightarrow> bool" where
  "starts_with p s = (strip_prefix p s \<noteq> None)"

text \<open>\<open>str::split\<close> on one character: one piece more than there are separators.\<close>

fun split_on :: "nat \<Rightarrow> rstr \<Rightarrow> rstr list" where
  "split_on sep [] = [[]]"
| "split_on sep (c # s) =
     (if c = sep then [] # split_on sep s
      else case split_on sep s of [] \<Rightarrow> [[c]] | p # ps \<Rightarrow> (c # p) # ps)"

lemma split_on_not_Nil [simp]: "split_on sep s \<noteq> []"
  by (induction s) (auto split: list.splits)

text \<open>\<open>str::find\<close> of a character, as the text before it and the text after it.\<close>

fun split_once :: "nat \<Rightarrow> rstr \<Rightarrow> (rstr \<times> rstr) option" where
  "split_once sep [] = None"
| "split_once sep (c # s) =
     (if c = sep then Some ([], s)
      else map_option (\<lambda>(a, b). (c # a, b)) (split_once sep s))"

lemma split_once_Some: "split_once sep s = Some (a, b) \<Longrightarrow> s = a @ sep # b \<and> sep \<notin> set a"
  by (induction s arbitrary: a) (auto split: if_splits)

lemma split_once_shorter: "split_once sep s = Some (a, b) \<Longrightarrow> length b < length s"
  by (drule split_once_Some) auto

section \<open>Numbers\<close>

fun digits_value :: "nat \<Rightarrow> rstr \<Rightarrow> nat option" where
  "digits_value acc [] = Some acc"
| "digits_value acc (c # s) =
     (if is_ascii_digit c then digits_value (acc * 10 + (c - 48)) s else None)"

text \<open>\<open>i32::from_str\<close>: an optional sign, at least one digit, no overflow.\<close>

definition parse_i32_strict :: "rstr \<Rightarrow> int option" where
  "parse_i32_strict s =
     (let neg = (s \<noteq> [] \<and> hd s = 45);
          body = (if s \<noteq> [] \<and> (hd s = 45 \<or> hd s = 43) then tl s else s) in
      if body = [] then None else
      case digits_value 0 body of
        None \<Rightarrow> None
      | Some n \<Rightarrow>
          let v = (if neg then - int n else int n) in
          if - (2 ^ 31) \<le> v \<and> v < 2 ^ 31 then Some v else None)"

definition u8_try_from :: "int \<Rightarrow> u8 option" where
  "u8_try_from i = (if 0 \<le> i \<and> i \<le> 255 then Some (word_of_int i) else None)"

text \<open>\<open>format!("{}")\<close> of an unsigned number.\<close>

fun dec_digits :: "nat \<Rightarrow> rstr" where
  "dec_digits n = (if n < 10 then [48 + n] else dec_digits (n div 10) @ [48 + n mod 10])"

declare dec_digits.simps [simp del]

lemma dec_digits_small: "n < 10 \<Longrightarrow> dec_digits n = [48 + n]"
  by (simp add: dec_digits.simps)

lemma dec_digits_digits: "\<forall>c \<in> set (dec_digits n). is_ascii_digit c"
proof (induction n rule: dec_digits.induct)
  case (1 n)
  show ?case
  proof (cases "n < 10")
    case True
    then show ?thesis by (simp add: dec_digits_small is_ascii_digit_def)
  next
    case False
    with 1 show ?thesis by (subst dec_digits.simps) (auto simp: is_ascii_digit_def)
  qed
qed

lemma digits_value_append:
  "\<forall>c \<in> set a. is_ascii_digit c \<Longrightarrow>
     digits_value acc (a @ b) = digits_value (the (digits_value acc a)) b"
  by (induction a arbitrary: acc) auto

lemma digits_value_dec_digits: "digits_value 0 (dec_digits n) = Some n"
proof (induction n rule: dec_digits.induct)
  case (1 n)
  show ?case
  proof (cases "n < 10")
    case True
    then show ?thesis by (simp add: dec_digits_small is_ascii_digit_def)
  next
    case False
    with 1 have "digits_value 0 (dec_digits (n div 10)) = Some (n div 10)" by simp
    with False show ?thesis
      by (subst dec_digits.simps)
        (simp add: digits_value_append [OF dec_digits_digits] is_ascii_digit_def)
  qed
qed

section \<open>UTF-16\<close>

definition scalar_value :: "nat \<Rightarrow> bool" where
  "scalar_value c = (c < 0xD800 \<or> 0xE000 \<le> c \<and> c < 0x110000)"

text \<open>\<open>str::encode_utf16\<close>: one unit, or a surrogate pair.\<close>

definition utf16_units :: "nat \<Rightarrow> u16 list" where
  "utf16_units c =
     (if c < 0x10000 then [word_of_nat c]
      else [word_of_nat (0xD800 + (c - 0x10000) div 1024), word_of_nat (0xDC00 + (c - 0x10000) mod 1024)])"

definition utf16_encode :: "rstr \<Rightarrow> u16 list" where
  "utf16_encode s = concat (map utf16_units s)"

text \<open>\<open>String::from_utf16\<close>: an unpaired surrogate is an error.\<close>

fun utf16_decode :: "u16 list \<Rightarrow> rstr option" where
  "utf16_decode [] = Some []"
| "utf16_decode (u # us) =
     (if unat u < 0xD800 \<or> 0xE000 \<le> unat u then map_option (Cons (unat u)) (utf16_decode us)
      else if 0xDC00 \<le> unat u then None
      else case us of
        [] \<Rightarrow> None
      | v # vs \<Rightarrow>
          if 0xDC00 \<le> unat v \<and> unat v < 0xE000
          then map_option (Cons (0x10000 + (unat u - 0xD800) * 1024 + (unat v - 0xDC00))) (utf16_decode vs)
          else None)"

lemma utf16_decode_units:
  assumes "scalar_value c"
  shows "utf16_decode (utf16_units c @ us) = map_option (Cons c) (utf16_decode us)"
proof (cases "c < 0x10000")
  case True
  with assms show ?thesis by (auto simp: utf16_units_def scalar_value_def unat_of_nat)
next
  case False
  with assms have c: "c - 0x10000 < 1024 * 1024" by (auto simp: scalar_value_def)
  let ?h = "(c - 0x10000) div 1024" and ?l = "(c - 0x10000) mod 1024"
  have "?h < 1024" using c by (simp add: less_mult_imp_div_less)
  moreover have "?l < 1024" by simp
  moreover have "0x10000 + ?h * 1024 + ?l = c" using False by simp
  moreover define u v where "u = (word_of_nat (0xD800 + ?h) :: u16)"
    and "v = (word_of_nat (0xDC00 + ?l) :: u16)"
  moreover have "unat u = 0xD800 + ?h" "unat v = 0xDC00 + ?l"
    unfolding u_def v_def using calculation(1,2) by (intro unat_u16_small; linarith)+
  moreover have "utf16_units c = [u, v]" using False by (simp add: utf16_units_def u_def v_def)
  ultimately show ?thesis by simp
qed

lemma utf16_roundtrip: "list_all scalar_value s \<Longrightarrow> utf16_decode (utf16_encode s) = Some s"
  by (induction s) (simp_all add: utf16_encode_def utf16_decode_units)

end
