(* ===== verification/Hfp.thy ===== *)
theory Hfp
  imports Rust_Str
begin

text \<open>
  The hands-free call machine of \<open>aokie_radio/hfp.rs\<close>: the state \<open>HfpHandsFreeState\<close>, what each
  result of the phone does to it (\<open>apply_result\<close> and the indicator functions it calls), what
  sending a command records (\<open>mark_command_sent\<close>), what follows a refusal (\<open>after_refusal\<close>),
  and the queue of unanswered commands (\<open>OutstandingCommands\<close>).  A method of the source that
  takes \<open>&mut self\<close> and returns events is a function to the pair of the events and the new
  state.  An \<open>i32\<close> indicator value is an \<open>int\<close>; \<open>call_changes\<close> is a wrapping \<open>u32\<close>.  Log
  lines are not modelled.
\<close>

section \<open>Commands, results, events\<close>

datatype ChldAction =
    ReleaseAllHeld
  | ReleaseActiveAcceptOther
  | ReleaseSpecific u8
  | HoldActiveAcceptOther
  | PrivateConsult u8
  | Merge

datatype HfpAtCommand =
    SupportedFeatures bool
  | AvailableCodecs bool
  | RetrieveIndicators
  | RetrieveIndicatorStatus
  | RetrieveCallHoldSupport
  | EnableCallWaitingNotifications
  | CallHold ChldAction
  | ActivateClip bool
  | EnableIndicatorUpdates bool
  | EnableAllIndicatorStatusUpdates bool
  | DisableNoiseReduction
  | Answer
  | RejectOrHangup
  | Dial rstr
  | ConfirmCodec u8
  | ListCurrentCalls
  | CodecConnection

record ClccEntry =
  clcc_index :: u8
  clcc_direction :: u8
  clcc_status :: u8
  clcc_mode :: u8
  clcc_multiparty :: bool
  clcc_number :: "rstr option"

datatype HfpAgResult =
    AgOk
  | AgError
  | AgRing
  | AgSupportedFeatures u32
  | AgIndicators "rstr list"
  | AgIndicatorStatus "int list"
  | AgIndicatorUpdate u8 int
  | AgCallerId rstr
  | AgCallHoldModes "rstr list"
  | AgCallWaitingNotification rstr
  | AgCallListEntry ClccEntry
  | AgSelectedCodec u8
  | AgUnknown rstr

datatype HfpEvent =
    ServiceLevelConnectionReady
  | ServiceLevelConnectionFailed string "duration option"
  | CommandRejected string bool
  | CallStateCheck
  | CallActiveAtConnect
  | IncomingCall
  | Ringing
  | OutgoingDialing
  | CallAnswered
  | CallTerminated
  | CallerId rstr
  | CallWaiting "rstr option"
  | CallWaitingEnded
  | CallHeld int
  | CallListEntry ClccEntry
  | CodecSelected string nat

text \<open>A failure names the command; one that timed out also carries the time allowed.\<close>

abbreviation (input) HFP_CODEC_CVSD :: u8 where "HFP_CODEC_CVSD \<equiv> 1"
abbreviation (input) HFP_CODEC_MSBC :: u8 where "HFP_CODEC_MSBC \<equiv> 2"

definition HF_FEATURE_EC_NR :: u32 where "HF_FEATURE_EC_NR = push_bit 0 1"
definition HF_FEATURE_CALL_WAITING_3WAY :: u32 where "HF_FEATURE_CALL_WAITING_3WAY = push_bit 1 1"
definition HF_FEATURE_CLI_PRESENTATION :: u32 where "HF_FEATURE_CLI_PRESENTATION = push_bit 2 1"
definition HF_FEATURE_REMOTE_VOLUME :: u32 where "HF_FEATURE_REMOTE_VOLUME = push_bit 4 1"
definition HF_FEATURE_ENHANCED_CALL_STATUS :: u32 where
  "HF_FEATURE_ENHANCED_CALL_STATUS = push_bit 5 1"
definition HF_FEATURE_CODEC_NEGOTIATION :: u32 where "HF_FEATURE_CODEC_NEGOTIATION = push_bit 7 1"
definition HF_FEATURE_ESCO_S4 :: u32 where "HF_FEATURE_ESCO_S4 = push_bit 9 1"
definition AG_FEATURE_THREE_WAY_CALLING :: u32 where "AG_FEATURE_THREE_WAY_CALLING = push_bit 0 1"
definition AG_FEATURE_EC_NR :: u32 where "AG_FEATURE_EC_NR = push_bit 1 1"
definition AG_FEATURE_CODEC_NEGOTIATION :: u32 where "AG_FEATURE_CODEC_NEGOTIATION = push_bit 9 1"

definition AOKIE_HF_SUPPORTED_FEATURES :: u32 where
  "AOKIE_HF_SUPPORTED_FEATURES =
     HF_FEATURE_EC_NR OR HF_FEATURE_CLI_PRESENTATION OR HF_FEATURE_REMOTE_VOLUME OR
     HF_FEATURE_ENHANCED_CALL_STATUS OR HF_FEATURE_CODEC_NEGOTIATION OR HF_FEATURE_ESCO_S4"

section \<open>State\<close>

record HfpHandsFreeState =
  hf_service_level_ready :: bool
  hf_supported_features_exchanged :: bool
  hf_clip_enabled :: bool
  hf_indicator_updates_enabled :: bool
  hf_call_indicator_index :: u8
  hf_callsetup_indicator_index :: u8
  hf_call_active :: bool
  hf_incoming_call :: bool
  hf_outgoing_setup :: bool
  hf_indicator_definitions_seen :: bool
  hf_indicator_definitions_retry_used :: bool
  hf_call_waiting_enabled :: bool
  hf_ag_features :: "u32 option"
  hf_chld_modes :: "rstr list option"
  hf_ccwa_accepted :: bool
  hf_probe_refused :: "string option"
  hf_callheld_indicator_index :: "u8 option"
  hf_call_held :: int
  hf_call_waiting :: bool
  hf_waiting_number_known :: bool
  hf_terminate_pending :: bool
  hf_second_setup_unverified :: bool
  hf_setup_refused :: bool
  hf_answer_retried :: bool
  hf_hangup_retried :: bool
  hf_call_changes :: u32
  hf_hangup_sent_live :: "u32 option"
  hf_wbs_supported :: bool
  hf_selected_codec :: "u8 option"

type_synonym hfp_step = "HfpEvent list \<times> HfpHandsFreeState"

definition hfp_new :: HfpHandsFreeState where
  "hfp_new =
     \<lparr>hf_service_level_ready = False, hf_supported_features_exchanged = False,
      hf_clip_enabled = False, hf_indicator_updates_enabled = False,
      hf_call_indicator_index = 2, hf_callsetup_indicator_index = 3,
      hf_call_active = False, hf_incoming_call = False, hf_outgoing_setup = False,
      hf_indicator_definitions_seen = False, hf_indicator_definitions_retry_used = False,
      hf_call_waiting_enabled = False, hf_ag_features = None, hf_chld_modes = None,
      hf_ccwa_accepted = False, hf_probe_refused = None, hf_callheld_indicator_index = None,
      hf_call_held = 0, hf_call_waiting = False, hf_waiting_number_known = False,
      hf_terminate_pending = False, hf_second_setup_unverified = False,
      hf_setup_refused = False, hf_answer_retried = False, hf_hangup_retried = False,
      hf_call_changes = 0, hf_hangup_sent_live = None, hf_wbs_supported = False,
      hf_selected_codec = None\<rparr>"

section \<open>Capabilities and the connection set-up\<close>

definition initial_service_level_commands :: "bool \<Rightarrow> bool \<Rightarrow> HfpAtCommand list" where
  "initial_service_level_commands wbs_supported call_waiting =
     [SupportedFeatures call_waiting,
      AvailableCodecs wbs_supported,
      RetrieveIndicators,
      RetrieveIndicatorStatus,
      RetrieveCallHoldSupport,
      EnableCallWaitingNotifications,
      ActivateClip True,
      EnableIndicatorUpdates True,
      EnableAllIndicatorStatusUpdates True,
      DisableNoiseReduction]"

definition set_call_waiting_enabled :: "bool \<Rightarrow> HfpHandsFreeState \<Rightarrow> HfpHandsFreeState" where
  "set_call_waiting_enabled enabled s = s\<lparr>hf_call_waiting_enabled := enabled\<rparr>"

definition set_wbs_supported :: "bool \<Rightarrow> HfpHandsFreeState \<Rightarrow> HfpHandsFreeState" where
  "set_wbs_supported supported s = s\<lparr>hf_wbs_supported := supported\<rparr>"

definition codec_offered :: "HfpHandsFreeState \<Rightarrow> u8 \<Rightarrow> bool" where
  "codec_offered s codec =
     (codec = HFP_CODEC_CVSD \<or> (codec = HFP_CODEC_MSBC \<and> hf_wbs_supported s))"

definition ag_lacks :: "HfpHandsFreeState \<Rightarrow> u32 \<Rightarrow> bool" where
  "ag_lacks s feature = (case hf_ag_features s of None \<Rightarrow> False | Some f \<Rightarrow> f AND feature = 0)"

definition ag_supports_three_way :: "HfpHandsFreeState \<Rightarrow> bool" where
  "ag_supports_three_way s =
     (case hf_ag_features s of None \<Rightarrow> False
      | Some f \<Rightarrow> f AND AG_FEATURE_THREE_WAY_CALLING \<noteq> 0)"

definition should_skip_slc_command :: "HfpHandsFreeState \<Rightarrow> HfpAtCommand \<Rightarrow> bool" where
  "should_skip_slc_command s command = (case command of
      RetrieveCallHoldSupport \<Rightarrow> \<not> (hf_call_waiting_enabled s \<and> ag_supports_three_way s)
    | EnableCallWaitingNotifications \<Rightarrow> \<not> (hf_call_waiting_enabled s \<and> ag_supports_three_way s)
    | AvailableCodecs _ \<Rightarrow> ag_lacks s AG_FEATURE_CODEC_NEGOTIATION
    | DisableNoiseReduction \<Rightarrow> ag_lacks s AG_FEATURE_EC_NR
    | _ \<Rightarrow> False)"

definition note_slc_probe_error ::
    "HfpHandsFreeState \<Rightarrow> HfpAtCommand \<Rightarrow> bool \<times> HfpHandsFreeState" where
  "note_slc_probe_error s command = (case command of
      AvailableCodecs _ \<Rightarrow> (True, s\<lparr>hf_wbs_supported := False\<rparr>)
    | ActivateClip _ \<Rightarrow> (True, s)
    | EnableAllIndicatorStatusUpdates _ \<Rightarrow> (True, s)
    | DisableNoiseReduction \<Rightarrow> (True, s)
    | RetrieveCallHoldSupport \<Rightarrow>
        (True, s\<lparr>hf_chld_modes := None, hf_probe_refused := Some ''AT+CHLD=?''\<rparr>)
    | EnableCallWaitingNotifications \<Rightarrow>
        (True, s\<lparr>hf_ccwa_accepted := False, hf_probe_refused := Some ''AT+CCWA=1''\<rparr>)
    | _ \<Rightarrow> (False, s))"

definition note_ccwa_accepted :: "HfpHandsFreeState \<Rightarrow> HfpHandsFreeState" where
  "note_ccwa_accepted s = s\<lparr>hf_ccwa_accepted := True\<rparr>"

definition chld_mode_supported :: "HfpHandsFreeState \<Rightarrow> rstr \<Rightarrow> bool" where
  "chld_mode_supported s mode = (case hf_chld_modes s of None \<Rightarrow> False | Some m \<Rightarrow> mode \<in> set m)"

definition three_way_negotiated :: "HfpHandsFreeState \<Rightarrow> bool" where
  "three_way_negotiated s =
     (hf_call_waiting_enabled s \<and> ag_supports_three_way s \<and>
      chld_mode_supported s (lit ''1'') \<and> chld_mode_supported s (lit ''2'') \<and>
      hf_ccwa_accepted s)"

definition mark_service_level_ready ::
    "HfpHandsFreeState \<Rightarrow> HfpEvent option \<times> HfpHandsFreeState" where
  "mark_service_level_ready s =
     (if hf_service_level_ready s then (None, s)
      else (Some ServiceLevelConnectionReady, s\<lparr>hf_service_level_ready := True\<rparr>))"

definition needs_indicator_definitions_retry ::
    "HfpHandsFreeState \<Rightarrow> bool \<times> HfpHandsFreeState" where
  "needs_indicator_definitions_retry s =
     (if hf_indicator_definitions_seen s \<or> hf_indicator_definitions_retry_used s then (False, s)
      else (True, s\<lparr>hf_indicator_definitions_retry_used := True\<rparr>))"

section \<open>Indicators\<close>

text \<open>The loop over the defined names; \<open>(index + 1) as u8\<close> truncates.\<close>

fun apply_definitions_from ::
    "nat \<Rightarrow> rstr list \<Rightarrow> bool \<Rightarrow> bool \<Rightarrow> HfpHandsFreeState \<Rightarrow> bool \<times> bool \<times> HfpHandsFreeState" where
  "apply_definitions_from index [] saw_call saw_callsetup s = (saw_call, saw_callsetup, s)"
| "apply_definitions_from index (name # names) saw_call saw_callsetup s =
     (let hfp_index = word_of_nat (index + 1) in
      if eq_ignore_ascii_case name (lit ''call'') then
        apply_definitions_from (index + 1) names True saw_callsetup
          (s\<lparr>hf_call_indicator_index := hfp_index\<rparr>)
      else if eq_ignore_ascii_case name (lit ''callsetup'') then
        apply_definitions_from (index + 1) names saw_call True
          (s\<lparr>hf_callsetup_indicator_index := hfp_index\<rparr>)
      else if eq_ignore_ascii_case name (lit ''callheld'') then
        apply_definitions_from (index + 1) names saw_call saw_callsetup
          (s\<lparr>hf_callheld_indicator_index := Some hfp_index\<rparr>)
      else apply_definitions_from (index + 1) names saw_call saw_callsetup s)"

definition apply_indicator_definitions ::
    "HfpHandsFreeState \<Rightarrow> rstr list \<Rightarrow> HfpHandsFreeState" where
  "apply_indicator_definitions s indicators =
     (let (saw_call, saw_callsetup, s') = apply_definitions_from 0 indicators False False s
      in if saw_call \<and> saw_callsetup then s'\<lparr>hf_indicator_definitions_seen := True\<rparr> else s')"

definition indicator_status_value :: "int list \<Rightarrow> u8 \<Rightarrow> int option" where
  "indicator_status_value values indicator_index =
     (if indicator_index = 0 then None
      else let i = unat indicator_index - 1 in
           if i < length values then Some (values ! i) else None)"

definition second_setup_while_active :: "HfpHandsFreeState \<Rightarrow> hfp_step" where
  "second_setup_while_active s =
     (if three_way_negotiated s \<or> hf_call_waiting s \<or> hf_second_setup_unverified s then ([], s)
      else ([CallStateCheck], s\<lparr>hf_second_setup_unverified := True\<rparr>))"

definition update_callheld :: "HfpHandsFreeState \<Rightarrow> int \<Rightarrow> hfp_step" where
  "update_callheld s v =
     (if v = hf_call_held s then ([], s) else ([CallHeld v], s\<lparr>hf_call_held := v\<rparr>))"

definition callsetup_ended :: "HfpHandsFreeState \<Rightarrow> hfp_step" where
  "callsetup_ended s =
     (if hf_call_waiting s then
        ([CallWaitingEnded], s\<lparr>hf_call_waiting := False, hf_waiting_number_known := False\<rparr>)
      else if hf_second_setup_unverified s then ([], s\<lparr>hf_second_setup_unverified := False\<rparr>)
      else
        let setting_up = ((hf_incoming_call s \<or> hf_outgoing_setup s) \<and> \<not> hf_call_active s) in
        if setting_up \<and> hf_setup_refused s then
          ([CallTerminated],
           s\<lparr>hf_setup_refused := False, hf_incoming_call := False, hf_outgoing_setup := False\<rparr>)
        else if setting_up then
          ([], s\<lparr>hf_incoming_call := False, hf_outgoing_setup := False,
                 hf_terminate_pending := True\<rparr>)
        else ([], s))"

definition callsetup_incoming :: "HfpHandsFreeState \<Rightarrow> hfp_step" where
  "callsetup_incoming s =
     (if hf_call_active s \<and> three_way_negotiated s then
        (if \<not> hf_call_waiting s then
           ([CallWaiting None], s\<lparr>hf_call_waiting := True, hf_waiting_number_known := False\<rparr>)
         else ([], s))
      else if hf_call_active s then second_setup_while_active s
      else
        ((if hf_terminate_pending s then [CallTerminated] else []) @ [IncomingCall],
         s\<lparr>hf_terminate_pending := False, hf_incoming_call := True, hf_outgoing_setup := False,
           hf_setup_refused := False, hf_answer_retried := False\<rparr>))"

definition callsetup_outgoing :: "HfpHandsFreeState \<Rightarrow> hfp_step" where
  "callsetup_outgoing s =
     (let (events, s1) =
        (if hf_terminate_pending s then ([CallTerminated], s\<lparr>hf_terminate_pending := False\<rparr>)
         else if hf_call_active s then ([CallTerminated], s\<lparr>hf_call_active := False\<rparr>)
         else ([], s))
      in (events @ [OutgoingDialing], s1\<lparr>hf_incoming_call := False, hf_outgoing_setup := True\<rparr>))"

definition callsetup_alerting :: "HfpHandsFreeState \<Rightarrow> hfp_step" where
  "callsetup_alerting s =
     ([Ringing], if \<not> hf_call_active s then s\<lparr>hf_outgoing_setup := True\<rparr> else s)"

definition update_callsetup :: "HfpHandsFreeState \<Rightarrow> int \<Rightarrow> hfp_step" where
  "update_callsetup s v =
     (if v = 0 then callsetup_ended s
      else if v = 1 then callsetup_incoming s
      else if v = 2 then callsetup_outgoing s
      else if v = 3 then callsetup_alerting s
      else ([], s))"

definition call_ended :: "HfpHandsFreeState \<Rightarrow> hfp_step" where
  "call_ended s =
     (if hf_call_waiting s then
        (if hf_call_held s \<noteq> 0 then ([CallTerminated], s)
         else ([CallWaitingEnded, CallTerminated, IncomingCall],
               s\<lparr>hf_call_waiting := False, hf_waiting_number_known := False,
                 hf_incoming_call := True\<rparr>))
      else if hf_second_setup_unverified s then
        ([CallTerminated, IncomingCall],
         s\<lparr>hf_second_setup_unverified := False, hf_incoming_call := True\<rparr>)
      else ([CallTerminated], s))"

definition update_call_state :: "HfpHandsFreeState \<Rightarrow> bool \<Rightarrow> hfp_step" where
  "update_call_state s active =
     (let s1 = s\<lparr>hf_setup_refused := False\<rparr>;
          s2 = (if active \<noteq> hf_call_active s1
                then s1\<lparr>hf_answer_retried := False, hf_hangup_retried := False\<rparr> else s1);
          s3 = (if active then s2\<lparr>hf_terminate_pending := False\<rparr> else s2) in
      if active = hf_call_active s3 then
        (if \<not> active \<and> hf_terminate_pending s3
         then ([CallTerminated], s3\<lparr>hf_terminate_pending := False\<rparr>) else ([], s3))
      else
        let s4 = s3\<lparr>hf_call_active := active, hf_incoming_call := False,
                    hf_outgoing_setup := False\<rparr> in
        if active then ([CallAnswered], s4) else call_ended s4)"

definition apply_indicator :: "HfpHandsFreeState \<Rightarrow> u8 \<Rightarrow> int \<Rightarrow> hfp_step" where
  "apply_indicator s index v =
     (if index = hf_call_indicator_index s then update_call_state s (v \<noteq> 0)
      else if index = hf_callsetup_indicator_index s then update_callsetup s v
      else if Some index = hf_callheld_indicator_index s then update_callheld s v
      else ([], s))"

text \<open>\<open>apply_indicator_status\<close>, one definition per indicator it reads.\<close>

definition snapshot_call :: "HfpHandsFreeState \<Rightarrow> bool \<Rightarrow> bool \<Rightarrow> hfp_step" where
  "snapshot_call s ringing_now active =
     (let (events, s1) =
        (if hf_terminate_pending s then
           (if active \<and> \<not> hf_call_active s then [CallAnswered]
            else if \<not> active then [CallTerminated] else [],
            s\<lparr>hf_terminate_pending := False\<rparr>)
         else if \<not> active \<and> hf_call_active s then
           (let s1 = s\<lparr>hf_call_active := False\<rparr>;
                unverified = (if hf_call_waiting s1 then ringing_now
                              else hf_second_setup_unverified s1);
                s2 = (if hf_call_waiting s1
                      then s1\<lparr>hf_call_waiting := False, hf_waiting_number_known := False\<rparr> else s1);
                announce = (unverified \<and> ringing_now)
            in ((if hf_call_waiting s1 then [CallWaitingEnded] else []) @ [CallTerminated] @
                (if announce then [IncomingCall] else []),
                s2\<lparr>hf_incoming_call := (if announce then True else hf_incoming_call s2),
                   hf_second_setup_unverified := False\<rparr>))
         else if active \<and> hf_second_setup_unverified s then
           (let s1 = s\<lparr>hf_second_setup_unverified := False\<rparr>
            in if ringing_now \<and> \<not> hf_call_waiting s1
               then ([CallWaiting None],
                     s1\<lparr>hf_call_waiting := True, hf_waiting_number_known := False\<rparr>)
               else ([], s1))
         else if active \<and> \<not> hf_call_active s \<and> \<not> hf_service_level_ready s then
           ([CallActiveAtConnect], s)
         else ([], s));
       s2 = s1\<lparr>hf_call_active := active\<rparr>
      in (events, if active then s2\<lparr>hf_incoming_call := False\<rparr> else s2))"

definition snapshot_callsetup :: "HfpHandsFreeState \<Rightarrow> int \<Rightarrow> HfpHandsFreeState" where
  "snapshot_callsetup s callsetup =
     (let s1 = s\<lparr>hf_incoming_call := (callsetup = 1 \<and> \<not> hf_call_active s),
                 hf_outgoing_setup := ((callsetup = 2 \<or> callsetup = 3) \<and> \<not> hf_call_active s)\<rparr>
      in if callsetup = 0 \<and> hf_call_waiting s1
         then s1\<lparr>hf_call_waiting := False, hf_waiting_number_known := False\<rparr> else s1)"

definition status_call :: "HfpHandsFreeState \<Rightarrow> int list \<Rightarrow> hfp_step" where
  "status_call s values =
     (let ringing_now = (indicator_status_value values (hf_callsetup_indicator_index s) = Some 1) in
      case indicator_status_value values (hf_call_indicator_index s) of
        None \<Rightarrow> ([], s)
      | Some call \<Rightarrow> snapshot_call s ringing_now (call \<noteq> 0))"

definition status_callsetup :: "HfpHandsFreeState \<Rightarrow> int list \<Rightarrow> HfpHandsFreeState" where
  "status_callsetup s values =
     (case indicator_status_value values (hf_callsetup_indicator_index s) of
        None \<Rightarrow> s
      | Some callsetup \<Rightarrow> snapshot_callsetup s callsetup)"

definition status_callheld :: "HfpHandsFreeState \<Rightarrow> int list \<Rightarrow> HfpHandsFreeState" where
  "status_callheld s values =
     (case hf_callheld_indicator_index s of
        None \<Rightarrow> s
      | Some index \<Rightarrow>
          (case indicator_status_value values index of
             None \<Rightarrow> s
           | Some held \<Rightarrow> s\<lparr>hf_call_held := held\<rparr>))"

definition apply_indicator_status :: "HfpHandsFreeState \<Rightarrow> int list \<Rightarrow> hfp_step" where
  "apply_indicator_status s values =
     (let (events, s1) = status_call s values
      in (events, status_callheld (status_callsetup s1 values) values))"

section \<open>Results of the phone\<close>

definition codec_event :: "u8 \<Rightarrow> HfpEvent" where
  "codec_event codec =
     (if codec = HFP_CODEC_MSBC then CodecSelected ''mSBC'' 16000 else CodecSelected ''CVSD'' 8000)"

fun apply_result_to_state :: "HfpHandsFreeState \<Rightarrow> HfpAgResult \<Rightarrow> hfp_step" where
  "apply_result_to_state s AgOk = ([], s\<lparr>hf_supported_features_exchanged := True\<rparr>)"
| "apply_result_to_state s AgRing =
     (let s1 = s\<lparr>hf_terminate_pending := False\<rparr> in
      if hf_call_waiting s1 \<and> hf_call_held s1 \<noteq> 0 then ([], s1)
      else if hf_call_active s1 then second_setup_while_active s1
      else ([IncomingCall, Ringing], s1\<lparr>hf_incoming_call := True\<rparr>))"
| "apply_result_to_state s (AgIndicators indicators) =
     ([], apply_indicator_definitions s indicators)"
| "apply_result_to_state s (AgIndicatorUpdate index v) = apply_indicator s index v"
| "apply_result_to_state s (AgIndicatorStatus values) = apply_indicator_status s values"
| "apply_result_to_state s (AgCallerId number) =
     (if hf_call_active s \<and> (hf_call_waiting s \<or> hf_second_setup_unverified s) then ([], s)
      else ([CallerId number], s))"
| "apply_result_to_state s (AgSupportedFeatures features) = ([], s\<lparr>hf_ag_features := Some features\<rparr>)"
| "apply_result_to_state s (AgCallHoldModes modes) = ([], s\<lparr>hf_chld_modes := Some modes\<rparr>)"
| "apply_result_to_state s (AgCallWaitingNotification number) =
     (if \<not> hf_call_active s then ([], s)
      else if \<not> hf_call_waiting s then
        ([CallWaiting (Some number)], s\<lparr>hf_call_waiting := True, hf_waiting_number_known := True\<rparr>)
      else if \<not> hf_waiting_number_known s then
        ([CallWaiting (Some number)], s\<lparr>hf_waiting_number_known := True\<rparr>)
      else ([], s))"
| "apply_result_to_state s (AgCallListEntry entry) =
     ((case (if clcc_status entry = 0 \<or> clcc_status entry = 4 then clcc_number entry else None) of
         None \<Rightarrow> [] | Some number \<Rightarrow> [CallerId number]) @
      [CallListEntry entry], s)"
| "apply_result_to_state s (AgSelectedCodec codec) =
     (if \<not> codec_offered s codec then ([], s)
      else ([codec_event codec], s\<lparr>hf_selected_codec := Some codec\<rparr>))"
| "apply_result_to_state s AgError = ([], s)"
| "apply_result_to_state s (AgUnknown _) = ([], s)"

definition call_shape where
  "call_shape s = (hf_call_active s, hf_incoming_call s, hf_outgoing_setup s, hf_call_waiting s,
     hf_call_held s, hf_terminate_pending s, hf_second_setup_unverified s)"

definition apply_result :: "HfpHandsFreeState \<Rightarrow> HfpAgResult \<Rightarrow> hfp_step" where
  "apply_result s result =
     (let before = call_shape s;
          (events, s') = apply_result_to_state s result
      in (events, if call_shape s' \<noteq> before
                  then s'\<lparr>hf_call_changes := hf_call_changes s' + 1\<rparr> else s'))"

section \<open>Sending commands\<close>

definition mark_command_sent :: "HfpHandsFreeState \<Rightarrow> HfpAtCommand \<Rightarrow> HfpHandsFreeState" where
  "mark_command_sent s command = (case command of
      ActivateClip active \<Rightarrow> s\<lparr>hf_clip_enabled := active\<rparr>
    | EnableIndicatorUpdates active \<Rightarrow> s\<lparr>hf_indicator_updates_enabled := active\<rparr>
    | Dial _ \<Rightarrow> s\<lparr>hf_terminate_pending := False, hf_incoming_call := False,
                  hf_call_active := False, hf_outgoing_setup := True, hf_setup_refused := False\<rparr>
    | RejectOrHangup \<Rightarrow>
        (let s1 = (if (hf_incoming_call s \<or> hf_outgoing_setup s) \<and> \<not> hf_call_active s
                   then s\<lparr>hf_setup_refused := True\<rparr> else s)
         in s1\<lparr>hf_hangup_sent_live :=
                 (if hf_call_active s1 then Some (hf_call_changes s1) else None)\<rparr>)
    | _ \<Rightarrow> s)"

fun at_command_name :: "HfpAtCommand \<Rightarrow> string" where
  "at_command_name (SupportedFeatures _) = ''AT+BRSF''"
| "at_command_name (AvailableCodecs _) = ''AT+BAC''"
| "at_command_name RetrieveIndicators = ''AT+CIND=?''"
| "at_command_name RetrieveIndicatorStatus = ''AT+CIND?''"
| "at_command_name RetrieveCallHoldSupport = ''AT+CHLD=?''"
| "at_command_name EnableCallWaitingNotifications = ''AT+CCWA''"
| "at_command_name (CallHold _) = ''AT+CHLD''"
| "at_command_name (ActivateClip _) = ''AT+CLIP''"
| "at_command_name (EnableIndicatorUpdates _) = ''AT+CMER''"
| "at_command_name (EnableAllIndicatorStatusUpdates _) = ''AT+BIA''"
| "at_command_name DisableNoiseReduction = ''AT+NREC''"
| "at_command_name Answer = ''ATA''"
| "at_command_name RejectOrHangup = ''AT+CHUP''"
| "at_command_name (Dial _) = ''ATD''"
| "at_command_name (ConfirmCodec _) = ''AT+BCS''"
| "at_command_name ListCurrentCalls = ''AT+CLCC''"
| "at_command_name CodecConnection = ''AT+BCC''"

definition after_refusal ::
    "HfpHandsFreeState \<Rightarrow> string \<Rightarrow> HfpAtCommand option \<times> HfpHandsFreeState" where
  "after_refusal s command =
     (if command = ''AT+CHUP'' then
        (let sent_live = hf_hangup_sent_live s;
             s1 = s\<lparr>hf_setup_refused := False, hf_hangup_sent_live := None\<rparr>
         in if hf_call_active s1 \<and> \<not> hf_hangup_retried s1 \<and> sent_live = Some (hf_call_changes s1)
            then (Some RejectOrHangup, s1\<lparr>hf_hangup_retried := True\<rparr>) else (None, s1))
      else if command = ''ATA'' then
        (if hf_incoming_call s \<and> \<not> hf_call_active s \<and> \<not> hf_setup_refused s \<and>
            \<not> hf_answer_retried s
         then (Some Answer, s\<lparr>hf_answer_retried := True\<rparr>) else (None, s))
      else (None, s))"

definition call_in_progress :: "HfpHandsFreeState \<Rightarrow> bool" where
  "call_in_progress s =
     (hf_call_active s \<or> hf_incoming_call s \<or> hf_outgoing_setup s \<or> hf_terminate_pending s)"

section \<open>Unanswered commands\<close>

type_synonym outstanding = "(string \<times> instant) list"

abbreviation (input) OUTSTANDING_MAX :: nat where "OUTSTANDING_MAX \<equiv> 8"

definition outstanding_sent :: "outstanding \<Rightarrow> HfpAtCommand \<Rightarrow> instant \<Rightarrow> outstanding" where
  "outstanding_sent q command now =
     (if length q \<ge> OUTSTANDING_MAX then tl q else q) @ [(at_command_name command, now)]"

definition outstanding_answered :: "outstanding \<Rightarrow> string option \<times> outstanding" where
  "outstanding_answered q = (case q of [] \<Rightarrow> (None, []) | (name, _) # r \<Rightarrow> (Some name, r))"

definition outstanding_timed_out ::
    "outstanding \<Rightarrow> instant \<Rightarrow> duration \<Rightarrow> string option \<times> outstanding" where
  "outstanding_timed_out q now timeout =
     (case q of [] \<Rightarrow> (None, q)
      | (name, sent_at) # r \<Rightarrow> if now - sent_at < timeout then (None, q) else (Some name, r))"

end
