(* ===== verification/Hfp_Calls.thy ===== *)
theory Hfp_Calls
  imports Hfp
begin

text \<open>
  What the hands-free machine of theory \<open>Hfp\<close> promises its consumer: the step relation of all
  operations of \<open>HfpHandsFreeState\<close> with its reachable states, the invariant on which calls can be
  on at once, the alternation of answers and ends, the treatment of a second caller, the held
  verdict on a ring that ended, and the retry of a refused hang-up.
\<close>

section \<open>Runs of the machine\<close>

text \<open>Everything the two pumps of the radio do to the machine, as one step relation: the results
  of the phone, the commands sent and refused, and the settings and notes of the connection
  set-up.\<close>

inductive hfp_trans :: "HfpHandsFreeState \<Rightarrow> HfpHandsFreeState \<Rightarrow> bool" where
  trans_result: "apply_result s r = (events, s') \<Longrightarrow> hfp_trans s s'"
| trans_sent: "hfp_trans s (mark_command_sent s command)"
| trans_refused: "after_refusal s name = (again, s') \<Longrightarrow> hfp_trans s s'"
| trans_probe: "note_slc_probe_error s command = (fine, s') \<Longrightarrow> hfp_trans s s'"
| trans_ccwa: "hfp_trans s (note_ccwa_accepted s)"
| trans_ready: "mark_service_level_ready s = (ev, s') \<Longrightarrow> hfp_trans s s'"
| trans_retry: "needs_indicator_definitions_retry s = (again, s') \<Longrightarrow> hfp_trans s s'"
| trans_cw: "hfp_trans s (set_call_waiting_enabled b s)"
| trans_wbs: "hfp_trans s (set_wbs_supported b s)"

inductive hfp_reach :: "HfpHandsFreeState \<Rightarrow> bool" where
  reach_new: "hfp_reach hfp_new"
| reach_step: "hfp_reach s \<Longrightarrow> hfp_trans s s' \<Longrightarrow> hfp_reach s'"

inductive_cases hfp_transE: "hfp_trans s s'"

fun apply_results :: "HfpHandsFreeState \<Rightarrow> HfpAgResult list \<Rightarrow> hfp_step" where
  "apply_results s [] = ([], s)"
| "apply_results s (r # rs) =
     (let (events, s1) = apply_result s r; (more, s2) = apply_results s1 rs in (events @ more, s2))"

lemma apply_results_Cons [simp]:
  "fst (apply_results s (r # rs)) =
     fst (apply_result s r) @ fst (apply_results (snd (apply_result s r)) rs)"
  "snd (apply_results s (r # rs)) = snd (apply_results (snd (apply_result s r)) rs)"
  by (simp_all add: Let_def case_prod_beta)

declare apply_results.simps(2) [simp del]

lemma apply_results_append:
  "apply_results s (a @ b) =
     (let (e1, s1) = apply_results s a; (e2, s2) = apply_results s1 b in (e1 @ e2, s2))"
  by (induction a arbitrary: s) (simp_all add: Let_def case_prod_beta apply_results.simps(2))

lemmas hfp_op_defs =
  update_call_state_def call_ended_def update_callsetup_def callsetup_ended_def
  callsetup_incoming_def callsetup_outgoing_def callsetup_alerting_def
  second_setup_while_active_def update_callheld_def

section \<open>Which calls can be on at once\<close>

text \<open>A held verdict excludes a live call, and so does a ringing one.\<close>

definition calls_ok :: "HfpHandsFreeState \<Rightarrow> bool" where
  "calls_ok s = (\<not> (hf_call_active s \<and> (hf_terminate_pending s \<or> hf_incoming_call s)))"

lemma calls_ok_new: "calls_ok hfp_new"
  by (simp add: calls_ok_def hfp_new_def)

lemma call_shape_indices [simp]:
  "call_shape (s\<lparr>hf_call_indicator_index := i\<rparr>) = call_shape s"
  "call_shape (s\<lparr>hf_callsetup_indicator_index := i\<rparr>) = call_shape s"
  "call_shape (s\<lparr>hf_callheld_indicator_index := j\<rparr>) = call_shape s"
  "call_shape (s\<lparr>hf_indicator_definitions_seen := b\<rparr>) = call_shape s"
  by (simp_all add: call_shape_def)

lemma apply_definitions_frame:
  "call_shape (snd (snd (apply_definitions_from i names a b s))) = call_shape s \<and>
   hf_call_changes (snd (snd (apply_definitions_from i names a b s))) = hf_call_changes s"
  by (induction names arbitrary: i a b s) (simp_all add: Let_def)

lemma apply_indicator_definitions_frame [simp]:
  "call_shape (apply_indicator_definitions s names) = call_shape s"
  "hf_call_changes (apply_indicator_definitions s names) = hf_call_changes s"
  using apply_definitions_frame [of 0 names False False s]
  by (auto simp: apply_indicator_definitions_def split: prod.splits)

lemma calls_ok_shape: "call_shape s' = call_shape s \<Longrightarrow> calls_ok s' = calls_ok s"
  by (simp add: calls_ok_def call_shape_def)

lemma call_active_shape: "call_shape s' = call_shape s \<Longrightarrow> hf_call_active s' = hf_call_active s"
  by (simp add: call_shape_def)

lemma update_call_state_ok: "calls_ok s \<Longrightarrow> calls_ok (snd (update_call_state s active))"
  by (auto simp: calls_ok_def update_call_state_def call_ended_def Let_def)

lemma update_callsetup_ok: "calls_ok s \<Longrightarrow> calls_ok (snd (update_callsetup s v))"
  by (auto simp: calls_ok_def update_callsetup_def callsetup_ended_def callsetup_incoming_def
      callsetup_outgoing_def callsetup_alerting_def second_setup_while_active_def Let_def)

lemma update_callheld_ok: "calls_ok s \<Longrightarrow> calls_ok (snd (update_callheld s v))"
  by (auto simp: calls_ok_def update_callheld_def)

lemma snapshot_call_ok: "calls_ok s \<Longrightarrow> calls_ok (snd (snapshot_call s ringing active))"
  by (auto simp: calls_ok_def snapshot_call_def Let_def)

lemma snapshot_callsetup_ok: "calls_ok s \<Longrightarrow> calls_ok (snapshot_callsetup s v)"
  by (auto simp: calls_ok_def snapshot_callsetup_def Let_def)

lemma status_callheld_frame [simp]:
  "calls_ok (status_callheld s values) = calls_ok s"
  "hf_call_active (status_callheld s values) = hf_call_active s"
  by (simp_all add: status_callheld_def calls_ok_def split: option.split)

lemma status_callsetup_active [simp]:
  "hf_call_active (status_callsetup s values) = hf_call_active s"
  by (simp add: status_callsetup_def snapshot_callsetup_def Let_def split: option.split)

lemma apply_indicator_status_ok: "calls_ok s \<Longrightarrow> calls_ok (snd (apply_indicator_status s values))"
  using snapshot_call_ok [of s] snapshot_callsetup_ok
  by (auto simp: apply_indicator_status_def status_call_def status_callsetup_def Let_def
      split: option.splits prod.splits dest: sndI)

lemma apply_indicator_ok: "calls_ok s \<Longrightarrow> calls_ok (snd (apply_indicator s i v))"
  by (simp add: apply_indicator_def update_call_state_ok update_callsetup_ok update_callheld_ok)

lemma ring_ok: "calls_ok s \<Longrightarrow> calls_ok (snd (apply_result_to_state s AgRing))"
  by (auto simp: calls_ok_def second_setup_while_active_def Let_def)

lemma ccwa_ok: "calls_ok s \<Longrightarrow> calls_ok (snd (apply_result_to_state s (AgCallWaitingNotification n)))"
  by (auto simp: calls_ok_def)

text \<open>The results that say nothing about calls leave the shape of the calls alone.\<close>

fun quiet_result :: "HfpAgResult \<Rightarrow> bool" where
  "quiet_result AgRing = False"
| "quiet_result (AgIndicatorUpdate _ _) = False"
| "quiet_result (AgIndicatorStatus _) = False"
| "quiet_result (AgCallWaitingNotification _) = False"
| "quiet_result _ = True"

lemma quiet_result_shape:
  "quiet_result r \<Longrightarrow> call_shape (snd (apply_result_to_state s r)) = call_shape s"
proof (cases "\<exists>names. r = AgIndicators names")
  case False
  then show "quiet_result r \<Longrightarrow> ?thesis" by (cases r) (auto simp: call_shape_def)
qed auto

lemma apply_result_to_state_ok: "calls_ok s \<Longrightarrow> calls_ok (snd (apply_result_to_state s r))"
proof (cases "quiet_result r")
  case True
  then show "calls_ok s \<Longrightarrow> ?thesis" by (simp add: calls_ok_shape [OF quiet_result_shape])
next
  case False
  then show "calls_ok s \<Longrightarrow> ?thesis"
    by (cases r) (simp_all add: ring_ok ccwa_ok apply_indicator_ok apply_indicator_status_ok
        del: apply_result_to_state.simps(2) apply_result_to_state.simps(9))
qed

text \<open>\<open>apply_result\<close> is \<open>apply_result_to_state\<close> but for the change counter.\<close>

lemma apply_result_events: "fst (apply_result s r) = fst (apply_result_to_state s r)"
  by (simp add: apply_result_def split: prod.splits)

lemma apply_result_shape: "call_shape (snd (apply_result s r)) = call_shape (snd (apply_result_to_state s r))"
  by (simp add: apply_result_def call_shape_def split: prod.splits)

lemma apply_result_ok: "calls_ok s \<Longrightarrow> calls_ok (snd (apply_result s r))"
  by (simp add: calls_ok_shape [OF apply_result_shape] apply_result_to_state_ok)

lemma apply_results_ok: "calls_ok s \<Longrightarrow> calls_ok (snd (apply_results s rs))"
  by (induction rs arbitrary: s) (simp_all add: apply_result_ok)

lemma hfp_trans_ok: "hfp_trans s s' \<Longrightarrow> calls_ok s \<Longrightarrow> calls_ok s'"
proof (induction rule: hfp_trans.induct)
  case (trans_result s r events s')
  with apply_result_ok [of s r] show ?case by simp
next
  case (trans_sent s command)
  then show ?case by (cases command) (auto simp: calls_ok_def mark_command_sent_def Let_def)
next
  case (trans_probe s command fine s')
  then show ?case by (cases command) (auto simp: calls_ok_def note_slc_probe_error_def)
qed (auto simp: calls_ok_def after_refusal_def note_ccwa_accepted_def mark_service_level_ready_def
    needs_indicator_definitions_retry_def set_call_waiting_enabled_def set_wbs_supported_def Let_def
    split: if_splits)

lemma hfp_reach_ok: "hfp_reach s \<Longrightarrow> calls_ok s"
  by (induction rule: hfp_reach.induct) (auto intro: calls_ok_new hfp_trans_ok)

section \<open>What the consumer is told about one call\<close>

text \<open>Walking over the events, with \<open>live\<close> telling that an answered call has not ended: a second
  answer inside one call is the failure.\<close>

fun answers_alternate :: "bool \<Rightarrow> HfpEvent list \<Rightarrow> bool" where
  "answers_alternate live [] = True"
| "answers_alternate live (CallAnswered # es) = (\<not> live \<and> answers_alternate True es)"
| "answers_alternate live (CallTerminated # es) = answers_alternate False es"
| "answers_alternate live (e # es) = answers_alternate live es"

lemma answers_alternate_mono: "answers_alternate True es \<Longrightarrow> answers_alternate live es"
  by (induction "True" es rule: answers_alternate.induct) auto

text \<open>One result: an answer is announced only on the rise of the call, the fall of a call is
  always announced, and the answer is never announced with other events.\<close>

definition edge_announced :: "HfpHandsFreeState \<Rightarrow> hfp_step \<Rightarrow> bool" where
  "edge_announced s st =
     ((CallAnswered \<in> set (fst st) \<longrightarrow>
         \<not> hf_call_active s \<and> hf_call_active (snd st) \<and> fst st = [CallAnswered]) \<and>
      (hf_call_active s \<and> \<not> hf_call_active (snd st) \<longrightarrow> CallTerminated \<in> set (fst st)))"

lemma update_call_state_edge: "edge_announced s (update_call_state s active)"
  by (auto simp: edge_announced_def update_call_state_def call_ended_def Let_def)

lemma update_callsetup_edge: "calls_ok s \<Longrightarrow> edge_announced s (update_callsetup s v)"
  by (auto simp: calls_ok_def edge_announced_def update_callsetup_def callsetup_ended_def callsetup_incoming_def
      callsetup_outgoing_def callsetup_alerting_def second_setup_while_active_def Let_def)

lemma snapshot_call_edge: "calls_ok s \<Longrightarrow> edge_announced s (snapshot_call s ringing active)"
  by (auto simp: calls_ok_def edge_announced_def snapshot_call_def Let_def)

lemma status_call_edge: "calls_ok s \<Longrightarrow> edge_announced s (status_call s values)"
  using snapshot_call_edge [of s]
  by (simp add: status_call_def Let_def edge_announced_def split: option.split)

lemma apply_indicator_status_edge:
  "calls_ok s \<Longrightarrow> edge_announced s (apply_indicator_status s values)"
  using status_call_edge [of s "values"]
  by (simp add: apply_indicator_status_def edge_announced_def case_prod_beta)

lemma apply_indicator_edge: "calls_ok s \<Longrightarrow> edge_announced s (apply_indicator s i v)"
  by (simp add: apply_indicator_def update_call_state_edge update_callsetup_edge)
    (simp add: edge_announced_def update_callheld_def)

lemma apply_result_edge:
  assumes "calls_ok s"
  shows "edge_announced s (apply_result s r)"
proof -
  have "edge_announced s (apply_result_to_state s r)"
    using assms call_active_shape [OF quiet_result_shape [of r s]]
    by (cases r) (simp_all add: apply_indicator_edge apply_indicator_status_edge,
        auto simp: edge_announced_def second_setup_while_active_def codec_event_def Let_def
          split: option.splits)
  then show ?thesis
    by (simp add: edge_announced_def apply_result_events call_active_shape [OF apply_result_shape])
qed

text \<open>The walk over one result, then over a run.\<close>

lemma alternate_no_answer:
  "CallAnswered \<notin> set es \<Longrightarrow>
     answers_alternate live (es @ fs) =
       answers_alternate (live \<and> CallTerminated \<notin> set es) fs"
  by (induction live es rule: answers_alternate.induct) auto

lemma alternate_step:
  assumes "edge_announced s st" and "answers_alternate (hf_call_active (snd st)) fs"
  shows "answers_alternate (hf_call_active s) (fst st @ fs)"
proof (cases "CallAnswered \<in> set (fst st)")
  case True
  with assms show ?thesis by (simp add: edge_announced_def)
next
  case False
  have "answers_alternate (hf_call_active s \<and> CallTerminated \<notin> set (fst st)) fs"
    using assms False answers_alternate_mono [of fs]
    by (cases "hf_call_active (snd st)") (auto simp: edge_announced_def)
  with False show ?thesis by (simp add: alternate_no_answer)
qed

lemma alternate_run:
  "calls_ok s \<Longrightarrow> answers_alternate (hf_call_active s) (fst (apply_results s rs))"
proof (induction rs arbitrary: s)
  case (Cons r rs)
  show ?case
    using alternate_step [OF apply_result_edge [OF Cons.prems]]
      Cons.IH [OF apply_result_ok [OF Cons.prems]]
    by simp
qed simp

section \<open>A second caller against a live call\<close>

text \<open>What a phone reports of a second caller while a call is up: RING, \<open>callsetup,1\<close>, +CCWA and
  +CLIP.\<close>

definition knock :: "HfpHandsFreeState \<Rightarrow> HfpAgResult \<Rightarrow> bool" where
  "knock s r = (case r of
      AgRing \<Rightarrow> True
    | AgIndicatorUpdate i v \<Rightarrow> i = hf_callsetup_indicator_index s \<and> v = 1
    | AgCallWaitingNotification _ \<Rightarrow> True
    | AgCallerId _ \<Rightarrow> True
    | _ \<Rightarrow> False)"

fun knock_event :: "HfpEvent \<Rightarrow> bool" where
  "knock_event CallStateCheck = True"
| "knock_event (CallWaiting _) = True"
| "knock_event (CallerId _) = True"
| "knock_event _ = False"

text \<open>The part of the state a knock keeps.\<close>

definition same_setup :: "HfpHandsFreeState \<Rightarrow> HfpHandsFreeState \<Rightarrow> bool" where
  "same_setup s s' =
     (hf_call_indicator_index s' = hf_call_indicator_index s \<and>
      hf_callsetup_indicator_index s' = hf_callsetup_indicator_index s \<and>
      hf_call_active s' = hf_call_active s \<and> hf_incoming_call s' = hf_incoming_call s \<and>
      hf_outgoing_setup s' = hf_outgoing_setup s \<and>
      three_way_negotiated s' = three_way_negotiated s)"

definition asked :: "HfpHandsFreeState \<Rightarrow> bool" where
  "asked s = (three_way_negotiated s \<or> hf_call_waiting s \<or> hf_second_setup_unverified s)"

lemma three_way_frame [simp]:
  "three_way_negotiated (s\<lparr>hf_terminate_pending := a\<rparr>) = three_way_negotiated s"
  "three_way_negotiated (s\<lparr>hf_call_waiting := a\<rparr>) = three_way_negotiated s"
  "three_way_negotiated (s\<lparr>hf_waiting_number_known := a\<rparr>) = three_way_negotiated s"
  "three_way_negotiated (s\<lparr>hf_second_setup_unverified := a\<rparr>) = three_way_negotiated s"
  "three_way_negotiated (s\<lparr>hf_call_changes := n\<rparr>) = three_way_negotiated s"
  by (simp_all add: three_way_negotiated_def ag_supports_three_way_def chld_mode_supported_def)

text \<open>One knock: the live call is untouched, and the phone is asked at most once.\<close>

definition knock_ok :: "HfpHandsFreeState \<Rightarrow> hfp_step \<Rightarrow> bool" where
  "knock_ok s st =
     (same_setup s (snd st) \<and> list_all knock_event (fst st) \<and>
      (asked s \<longrightarrow> asked (snd st) \<and> CallStateCheck \<notin> set (fst st)) \<and>
      (CallStateCheck \<in> set (fst st) \<longrightarrow> fst st = [CallStateCheck] \<and> asked (snd st)))"

lemma knock_ok_changes: "knock_ok s (ev, s'\<lparr>hf_call_changes := n\<rparr>) = knock_ok s (ev, s')"
  by (simp add: knock_ok_def same_setup_def asked_def)

lemma second_setup_knock: "knock_ok s (second_setup_while_active s)"
  by (simp add: knock_ok_def second_setup_while_active_def same_setup_def asked_def)

lemma knock_step:
  assumes live: "hf_call_active s" and "knock s r"
    and ix: "hf_call_indicator_index s \<noteq> hf_callsetup_indicator_index s"
  shows "knock_ok s (apply_result s r)"
proof -
  have "knock_ok s (apply_result_to_state s r)"
  proof (cases r)
    case AgRing
    then show ?thesis
      using live by (auto simp: knock_ok_def second_setup_while_active_def same_setup_def asked_def Let_def)
  next
    case (AgIndicatorUpdate i v)
    with assms show ?thesis
      using second_setup_knock [of s]
      by (auto simp: knock_def apply_indicator_def update_callsetup_def callsetup_incoming_def)
        (auto simp: knock_ok_def same_setup_def asked_def)
  next
    case (AgCallWaitingNotification number)
    with live show ?thesis by (simp add: knock_ok_def same_setup_def asked_def)
  next
    case (AgCallerId number)
    with live show ?thesis by (simp add: knock_ok_def same_setup_def asked_def)
  qed (use \<open>knock s r\<close> in \<open>simp_all add: knock_def\<close>)
  then show ?thesis
    by (auto simp: apply_result_def knock_ok_changes split: prod.splits)
qed

lemma knock_same_setup: "same_setup s s' \<Longrightarrow> knock s' = knock s"
  by (rule ext) (simp add: knock_def same_setup_def split: HfpAgResult.split)

lemma knocks_run:
  assumes "hf_call_active s" "list_all (knock s) rs"
    and "hf_call_indicator_index s \<noteq> hf_callsetup_indicator_index s"
  shows "same_setup s (snd (apply_results s rs)) \<and>
    list_all knock_event (fst (apply_results s rs)) \<and>
    count_list (fst (apply_results s rs)) CallStateCheck \<le> (if asked s then 0 else 1)"
  using assms
proof (induction rs arbitrary: s)
  case (Cons r rs)
  let ?st = "apply_result s r"
  from Cons.prems have k: "knock_ok s ?st" by (simp add: knock_step)
  then have ss: "same_setup s (snd ?st)" by (simp add: knock_ok_def)
  with Cons.prems have "hf_call_active (snd ?st)" "list_all (knock (snd ?st)) rs"
    "hf_call_indicator_index (snd ?st) \<noteq> hf_callsetup_indicator_index (snd ?st)"
    by (simp_all add: knock_same_setup) (simp_all add: same_setup_def)
  note ih = Cons.IH [OF this]
  have "CallStateCheck \<in> set (fst ?st) \<Longrightarrow> \<not> asked s \<and> asked (snd ?st) \<and> fst ?st = [CallStateCheck]"
    and "asked s \<Longrightarrow> asked (snd ?st)"
    using k by (auto simp: knock_ok_def)
  with ih k ss show ?case
    by (cases "CallStateCheck \<in> set (fst ?st)")
      (auto simp: knock_ok_def same_setup_def count_list_0_iff split: if_splits)
qed (simp add: same_setup_def)

lemma knock_event_announces_nothing:
  "list_all knock_event es \<Longrightarrow>
     IncomingCall \<notin> set es \<and> CallTerminated \<notin> set es \<and> CallAnswered \<notin> set es"
  by (induction es) auto

section \<open>The change counter\<close>

fun shape_changes :: "HfpHandsFreeState \<Rightarrow> HfpAgResult list \<Rightarrow> nat" where
  "shape_changes s [] = 0"
| "shape_changes s (r # rs) =
     (let s1 = snd (apply_result s r)
      in (if call_shape s1 = call_shape s then 0 else 1) + shape_changes s1 rs)"

lemma shape_changes_le: "shape_changes s rs \<le> length rs"
  by (induction rs arbitrary: s) (simp_all add: Let_def le_SucI)

lemma shape_changes_0: "shape_changes s rs = 0 \<Longrightarrow> call_shape (snd (apply_results s rs)) = call_shape s"
  by (induction rs arbitrary: s) (auto simp: Let_def split: if_splits)

lemma update_ops_changes [simp]:
  "hf_call_changes (snd (update_call_state s active)) = hf_call_changes s"
  "hf_call_changes (snd (update_callsetup s v)) = hf_call_changes s"
  "hf_call_changes (snd (update_callheld s v)) = hf_call_changes s"
  "hf_call_changes (snd (second_setup_while_active s)) = hf_call_changes s"
  "hf_call_changes (snd (snapshot_call s ringing active)) = hf_call_changes s"
  "hf_call_changes (snapshot_callsetup s v) = hf_call_changes s"
  by (simp_all add: hfp_op_defs snapshot_call_def snapshot_callsetup_def Let_def)

lemma apply_indicator_status_changes [simp]:
  "hf_call_changes (snd (apply_indicator_status s values)) = hf_call_changes s"
  by (simp add: apply_indicator_status_def status_call_def status_callsetup_def status_callheld_def
      case_prod_beta Let_def split: option.split)

lemma apply_result_to_state_changes [simp]:
  "hf_call_changes (snd (apply_result_to_state s r)) = hf_call_changes s"
  by (cases r) (simp_all add: apply_indicator_def Let_def)

lemma apply_result_changes:
  "hf_call_changes (snd (apply_result s r)) =
     hf_call_changes s + (if call_shape (snd (apply_result s r)) = call_shape s then 0 else 1)"
  using apply_result_to_state_changes [of s r]
  by (simp add: apply_result_def case_prod_beta) (simp add: call_shape_def)

lemma apply_results_changes:
  "hf_call_changes (snd (apply_results s rs)) = hf_call_changes s + word_of_nat (shape_changes s rs)"
  by (induction rs arbitrary: s) (simp_all add: apply_result_changes Let_def)

section \<open>Reading the indicators back\<close>

lemma apply_result_status_settles:
  assumes "calls_ok s" "hf_call_active s" "hf_second_setup_unverified s" "\<not> hf_call_waiting s"
    and "indicator_status_value values (hf_call_indicator_index s) = Some call"
    and "indicator_status_value values (hf_callsetup_indicator_index s) = Some callsetup"
  shows "fst (apply_result s (AgIndicatorStatus values)) =
      (if call \<noteq> 0 then (if callsetup = 1 then [CallWaiting None] else [])
       else CallTerminated # (if callsetup = 1 then [IncomingCall] else [])) \<and>
    hf_call_active (snd (apply_result s (AgIndicatorStatus values))) = (call \<noteq> 0) \<and>
    hf_incoming_call (snd (apply_result s (AgIndicatorStatus values))) = (call = 0 \<and> callsetup = 1) \<and>
    \<not> hf_second_setup_unverified (snd (apply_result s (AgIndicatorStatus values)))"
proof -
  have "\<not> hf_terminate_pending s" "\<not> hf_incoming_call s" using assms by (auto simp: calls_ok_def)
  with assms show ?thesis
    by (auto simp: apply_result_def apply_indicator_status_def status_call_def status_callsetup_def
        status_callheld_def snapshot_call_def snapshot_callsetup_def Let_def case_prod_beta
        split: option.splits)
qed

section \<open>The verdict on a ring that ended\<close>

definition call_verdict :: "HfpEvent \<Rightarrow> bool" where
  "call_verdict e = (e = CallAnswered \<or> e = CallTerminated \<or> e = IncomingCall)"

definition no_call_news :: "HfpAgResult \<Rightarrow> bool" where
  "no_call_news r = (quiet_result r \<and> (case r of AgIndicators _ \<Rightarrow> False | _ \<Rightarrow> True))"

text \<open>The state with a held verdict, and that results without call news keep it.\<close>

definition verdict_held :: "u8 \<Rightarrow> u8 \<Rightarrow> HfpHandsFreeState \<Rightarrow> bool" where
  "verdict_held ci si s =
     (hf_call_indicator_index s = ci \<and> hf_callsetup_indicator_index s = si \<and>
      \<not> hf_call_active s \<and> hf_terminate_pending s \<and>
      \<not> hf_call_waiting s \<and> \<not> hf_second_setup_unverified s)"

lemma no_call_news_step:
  assumes "no_call_news r" "verdict_held ci si s"
  shows "verdict_held ci si (snd (apply_result s r)) \<and> filter call_verdict (fst (apply_result s r)) = []"
proof -
  have "verdict_held ci si (snd (apply_result_to_state s r)) \<and>
      filter call_verdict (fst (apply_result_to_state s r)) = []"
  proof (cases r)
    case (AgCallListEntry entry)
    with assms show ?thesis by (simp add: call_verdict_def split: option.split)
  next
    case (AgSelectedCodec codec)
    with assms show ?thesis by (simp add: call_verdict_def verdict_held_def codec_event_def)
  next
    case (AgCallerId number)
    with assms show ?thesis by (simp add: call_verdict_def verdict_held_def)
  next
    case AgOk
    with assms show ?thesis by (simp add: verdict_held_def)
  next
    case (AgSupportedFeatures f)
    with assms show ?thesis by (simp add: verdict_held_def)
  next
    case (AgCallHoldModes ms)
    with assms show ?thesis by (simp add: verdict_held_def)
  next
    case AgError
    with assms show ?thesis by simp
  next
    case (AgUnknown line)
    with assms show ?thesis by simp
  qed (use assms(1) in \<open>simp_all add: no_call_news_def\<close>)
  then show ?thesis by (simp add: apply_result_def case_prod_beta) (simp add: verdict_held_def)
qed

lemma no_call_news_run:
  "list_all no_call_news rs \<Longrightarrow> verdict_held ci si s \<Longrightarrow>
     verdict_held ci si (snd (apply_results s rs)) \<and> filter call_verdict (fst (apply_results s rs)) = []"
  by (induction rs arbitrary: s) (auto dest: no_call_news_step)

lemma ring_end_holds:
  assumes "\<not> hf_call_active s" "hf_incoming_call s \<or> hf_outgoing_setup s" "\<not> hf_setup_refused s"
    "\<not> hf_call_waiting s" "\<not> hf_second_setup_unverified s"
    "hf_call_indicator_index s \<noteq> hf_callsetup_indicator_index s"
  shows "verdict_held (hf_call_indicator_index s) (hf_callsetup_indicator_index s)
      (snd (apply_result s (AgIndicatorUpdate (hf_callsetup_indicator_index s) 0))) \<and>
    fst (apply_result s (AgIndicatorUpdate (hf_callsetup_indicator_index s) 0)) = []"
  using assms
  by (auto simp: apply_result_def apply_indicator_def update_callsetup_def callsetup_ended_def
      verdict_held_def Let_def)

lemma call_update_settles:
  assumes "verdict_held ci si s"
  shows "fst (apply_result s (AgIndicatorUpdate ci v)) =
      [if v \<noteq> 0 then CallAnswered else CallTerminated] \<and>
    hf_call_active (snd (apply_result s (AgIndicatorUpdate ci v))) = (v \<noteq> 0) \<and>
    hf_call_indicator_index (snd (apply_result s (AgIndicatorUpdate ci v))) = ci \<and>
    \<not> hf_terminate_pending (snd (apply_result s (AgIndicatorUpdate ci v)))"
  using assms
  by (auto simp: verdict_held_def apply_result_def apply_indicator_def update_call_state_def
      call_ended_def Let_def)

lemma call_update_repeats:
  assumes "hf_call_active s = (v \<noteq> 0)" "hf_call_indicator_index s = ci" "\<not> hf_terminate_pending s"
  shows "fst (apply_results s (replicate n (AgIndicatorUpdate ci v))) = []"
  using assms
proof (induction n arbitrary: s)
  case (Suc n)
  let ?st = "apply_result s (AgIndicatorUpdate ci v)"
  have "fst ?st = [] \<and> hf_call_active (snd ?st) = (v \<noteq> 0) \<and> hf_call_indicator_index (snd ?st) = ci \<and>
      \<not> hf_terminate_pending (snd ?st)"
    using Suc.prems by (auto simp: apply_result_def apply_indicator_def update_call_state_def Let_def)
  with Suc.IH [of "snd ?st"] show ?case by simp
qed simp

section \<open>Sending a refused hang-up again\<close>

lemma update_ops_hangup [simp]:
  "hf_hangup_sent_live (snd (update_call_state s active)) = hf_hangup_sent_live s"
  "hf_hangup_sent_live (snd (update_callsetup s v)) = hf_hangup_sent_live s"
  "hf_hangup_sent_live (snd (update_callheld s v)) = hf_hangup_sent_live s"
  "hf_hangup_sent_live (snd (second_setup_while_active s)) = hf_hangup_sent_live s"
  "hf_hangup_retried (snd (update_callsetup s v)) = hf_hangup_retried s"
  "hf_hangup_retried (snd (update_callheld s v)) = hf_hangup_retried s"
  "hf_hangup_retried (snd (second_setup_while_active s)) = hf_hangup_retried s"
  by (simp_all add: hfp_op_defs Let_def)

lemma snapshot_call_hangup [simp]:
  "hf_hangup_sent_live (snd (snapshot_call s ringing active)) = hf_hangup_sent_live s"
  "hf_hangup_retried (snd (snapshot_call s ringing active)) = hf_hangup_retried s"
  by (simp_all add: snapshot_call_def Let_def)

lemma apply_indicator_status_hangup [simp]:
  "hf_hangup_sent_live (snd (apply_indicator_status s values)) = hf_hangup_sent_live s"
  "hf_hangup_retried (snd (apply_indicator_status s values)) = hf_hangup_retried s"
  by (simp_all add: apply_indicator_status_def status_call_def status_callsetup_def
      status_callheld_def snapshot_callsetup_def case_prod_beta Let_def split: option.split)

lemma definitions_hangup [simp]:
  "hf_hangup_sent_live (apply_indicator_definitions s names) = hf_hangup_sent_live s"
  "hf_hangup_retried (apply_indicator_definitions s names) = hf_hangup_retried s"
proof -
  have "hf_hangup_sent_live (snd (snd (apply_definitions_from i names a b s))) = hf_hangup_sent_live s \<and>
      hf_hangup_retried (snd (snd (apply_definitions_from i names a b s))) = hf_hangup_retried s" for i a b
    by (induction names arbitrary: i a b s) (simp_all add: Let_def)
  from this [of 0 False False]
  show "hf_hangup_sent_live (apply_indicator_definitions s names) = hf_hangup_sent_live s"
    "hf_hangup_retried (apply_indicator_definitions s names) = hf_hangup_retried s"
    by (simp_all add: apply_indicator_definitions_def case_prod_beta)
qed

lemma apply_result_hangup_sent [simp]:
  "hf_hangup_sent_live (snd (apply_result s r)) = hf_hangup_sent_live s"
proof -
  have "hf_hangup_sent_live (snd (apply_result_to_state s r)) = hf_hangup_sent_live s"
    by (cases r) (simp_all add: apply_indicator_def Let_def)
  then show ?thesis by (simp add: apply_result_def case_prod_beta)
qed

lemma update_call_state_retried:
  "hf_call_active (snd (update_call_state s active)) = hf_call_active s \<Longrightarrow>
     hf_hangup_retried (snd (update_call_state s active)) = hf_hangup_retried s"
  by (auto simp: update_call_state_def call_ended_def Let_def split: if_splits)

lemma apply_result_retried:
  assumes "hf_hangup_retried s" "call_shape (snd (apply_result s r)) = call_shape s"
  shows "hf_hangup_retried (snd (apply_result s r))"
proof -
  have "hf_call_active (snd (apply_result_to_state s r)) = hf_call_active s"
    using assms(2) by (intro call_active_shape) (simp add: apply_result_shape)
  then have "hf_hangup_retried (snd (apply_result_to_state s r)) = hf_hangup_retried s"
  proof (cases r)
    case (AgIndicatorUpdate i v)
    assume "hf_call_active (snd (apply_result_to_state s r)) = hf_call_active s"
    with AgIndicatorUpdate show ?thesis
      by (cases "i = hf_call_indicator_index s")
        (simp_all add: apply_indicator_def update_call_state_retried)
  qed (simp_all add: Let_def)
  with assms(1) show ?thesis by (simp add: apply_result_def case_prod_beta)
qed

lemma apply_results_retried:
  "hf_hangup_retried s \<Longrightarrow> shape_changes s rs = 0 \<Longrightarrow> hf_hangup_retried (snd (apply_results s rs))"
proof (induction rs arbitrary: s)
  case (Cons r rs)
  then have e: "call_shape (snd (apply_result s r)) = call_shape s"
    and "shape_changes (snd (apply_result s r)) rs = 0"
    by (simp_all add: Let_def split: if_split_asm)
  from Cons.IH [OF apply_result_retried [OF Cons.prems(1) e] this(2)] show ?case by simp
qed simp

lemma apply_results_hangup_sent [simp]:
  "hf_hangup_sent_live (snd (apply_results s rs)) = hf_hangup_sent_live s"
  by (induction rs arbitrary: s) simp_all

lemma few_changes_none:
  assumes "length rs < 2 ^ 32" "hf_call_changes (snd (apply_results s rs)) = hf_call_changes s"
  shows "shape_changes s rs = 0"
proof -
  from assms(2) have "(word_of_nat (shape_changes s rs) :: u32) = 0"
    by (simp add: apply_results_changes)
  then have "2 ^ 32 dvd shape_changes s rs" by (simp add: word_of_nat_eq_0_iff)
  with shape_changes_le [of s rs] assms(1) show ?thesis by (auto dest: dvd_imp_le)
qed

section \<open>Properties\<close>

text \<open>C30: in every reachable state and for every sequence of results of the
  phone, the consumer is never told \<open>CallAnswered\<close> a second time before a \<open>CallTerminated\<close>: a call
  that is live at the start, or was announced as answered, is announced as ended before the next
  one is announced as answered.\<close>

theorem answered_once_per_call:
  assumes "hfp_reach s"
  shows "answers_alternate (hf_call_active s) (fst (apply_results s results))"
  using assms by (intro alternate_run hfp_reach_ok)

text \<open>Two calls, the end of the first one lost and recovered by an indicator snapshot.\<close>

theorem answered_once_per_call_witness:
  "hfp_reach hfp_new \<and>
   fst (apply_results hfp_new [AgIndicatorUpdate 3 1, AgIndicatorUpdate 2 1, AgIndicatorUpdate 3 0,
      AgIndicatorStatus [0, 0, 0], AgIndicatorUpdate 3 1, AgIndicatorUpdate 2 1]) =
     [IncomingCall, CallAnswered, CallTerminated, IncomingCall, CallAnswered] \<and>
   answers_alternate False
     (fst (apply_results hfp_new [AgIndicatorUpdate 3 1, AgIndicatorUpdate 2 1, AgIndicatorUpdate 3 0,
      AgIndicatorStatus [0, 0, 0], AgIndicatorUpdate 3 1, AgIndicatorUpdate 2 1]))"
proof (intro conjI)
  show "hfp_reach hfp_new" by (rule reach_new)
  from answered_once_per_call [OF this]
  show "answers_alternate False
     (fst (apply_results hfp_new [AgIndicatorUpdate 3 1, AgIndicatorUpdate 2 1, AgIndicatorUpdate 3 0,
      AgIndicatorStatus [0, 0, 0], AgIndicatorUpdate 3 1, AgIndicatorUpdate 2 1]))"
    by (metis hfp_new_def HfpHandsFreeState.select_convs(7))
qed code_simp

text \<open>C31: while a call is up, a second caller's RING, \<open>callsetup,1\<close>,
  +CCWA and +CLIP, in any number and order, never end the live call, never announce an incoming
  call or an answer, leave the ringing and dialing flags alone, and make the machine ask the phone
  for its indicators at most once.\<close>

theorem second_caller_keeps_live_call:
  assumes "hf_call_active s" and "list_all (knock s) results"
    and "hf_call_indicator_index s \<noteq> hf_callsetup_indicator_index s"
  shows "hf_call_active (snd (apply_results s results)) \<and>
    hf_incoming_call (snd (apply_results s results)) = hf_incoming_call s \<and>
    IncomingCall \<notin> set (fst (apply_results s results)) \<and>
    CallTerminated \<notin> set (fst (apply_results s results)) \<and>
    CallAnswered \<notin> set (fst (apply_results s results)) \<and>
    count_list (fst (apply_results s results)) CallStateCheck \<le> 1"
  using knocks_run [OF assms] knock_event_announces_nothing assms(1)
  by (auto simp: same_setup_def split: if_splits)

theorem second_caller_keeps_live_call_witness:
  "let s = hfp_new\<lparr>hf_call_active := True\<rparr>;
       knocks = [AgRing, AgIndicatorUpdate 3 1, AgRing, AgCallerId [53], AgCallWaitingNotification [53]]
   in hf_call_active (snd (apply_results s knocks)) \<and>
      IncomingCall \<notin> set (fst (apply_results s knocks)) \<and>
      fst (apply_results s knocks) = [CallStateCheck, CallWaiting (Some [53])]"
proof -
  let ?s = "hfp_new\<lparr>hf_call_active := True\<rparr>"
  let ?k = "[AgRing, AgIndicatorUpdate 3 1, AgRing, AgCallerId [53], AgCallWaitingNotification [53]]"
  have "hf_call_active ?s" "list_all (knock ?s) ?k"
    "hf_call_indicator_index ?s \<noteq> hf_callsetup_indicator_index ?s"
    by (simp_all add: knock_def hfp_new_def)
  from second_caller_keeps_live_call [OF this]
  have "hf_call_active (snd (apply_results ?s ?k))"
    "IncomingCall \<notin> set (fst (apply_results ?s ?k))"
    by blast+
  moreover have "fst (apply_results ?s ?k) = [CallStateCheck, CallWaiting (Some [53])]"
    by code_simp
  ultimately show ?thesis by (simp add: Let_def)
qed

text \<open>When a second set-up awaits the phone's indicators, the
  snapshot decides it in every case: the first call still up and a set-up ringing is a waiting
  caller, a call that is gone is ended and the ringing one announced as a normal ring, and a
  set-up that is gone announces nothing new.\<close>

theorem snapshot_settles_second_caller:
  assumes "hfp_reach s" "hf_call_active s" "hf_second_setup_unverified s" "\<not> hf_call_waiting s"
    and "indicator_status_value values (hf_call_indicator_index s) = Some call"
    and "indicator_status_value values (hf_callsetup_indicator_index s) = Some callsetup"
  shows "fst (apply_result s (AgIndicatorStatus values)) =
      (if call \<noteq> 0 then (if callsetup = 1 then [CallWaiting None] else [])
       else CallTerminated # (if callsetup = 1 then [IncomingCall] else [])) \<and>
    hf_call_active (snd (apply_result s (AgIndicatorStatus values))) = (call \<noteq> 0) \<and>
    hf_incoming_call (snd (apply_result s (AgIndicatorStatus values))) = (call = 0 \<and> callsetup = 1) \<and>
    \<not> hf_second_setup_unverified (snd (apply_result s (AgIndicatorStatus values)))"
  using assms by (intro apply_result_status_settles hfp_reach_ok)

lemma reach_results: "hfp_reach s \<Longrightarrow> hfp_reach (snd (apply_results s rs))"
proof (induction rs arbitrary: s)
  case (Cons r rs)
  have "hfp_reach (snd (apply_result s r))"
    by (rule reach_step [OF Cons.prems]) (rule trans_result, rule surjective_pairing)
  with Cons.IH show ?case by simp
qed simp

text \<open>An answered call, a RING on top of it, and the snapshot that shows the first call gone.\<close>

theorem snapshot_settles_second_caller_witness:
  "\<exists>s. hfp_reach s \<and> hf_call_active s \<and>
     fst (apply_result s (AgIndicatorStatus [1, 0, 1])) = [CallTerminated, IncomingCall]"
proof -
  let ?s = "snd (apply_results hfp_new [AgIndicatorUpdate 3 1, AgIndicatorUpdate 2 1, AgRing])"
  have r: "hfp_reach ?s" by (rule reach_results [OF reach_new])
  have a: "hf_call_active ?s" by code_simp
  have b: "hf_second_setup_unverified ?s" by code_simp
  have c: "\<not> hf_call_waiting ?s" by code_simp
  have d: "indicator_status_value [1, 0, 1] (hf_call_indicator_index ?s) = Some 0" by code_simp
  have e: "indicator_status_value [1, 0, 1] (hf_callsetup_indicator_index ?s) = Some 1" by code_simp
  from snapshot_settles_second_caller [OF r a b c d e] r a show ?thesis by (intro exI [of _ ?s]) simp
qed

text \<open>\<open>callsetup,0\<close> on a ringing or dialing call that we did not refuse
  announces nothing by itself, whatever results without call news follow; the next \<open>call\<close> indicator
  gives the one verdict, answered or terminated, and its repetitions give none.\<close>

theorem ring_end_verdict_once:
  assumes "\<not> hf_call_active s" "hf_incoming_call s \<or> hf_outgoing_setup s" "\<not> hf_setup_refused s"
    "\<not> hf_call_waiting s" "\<not> hf_second_setup_unverified s"
    "hf_call_indicator_index s \<noteq> hf_callsetup_indicator_index s"
    and "list_all no_call_news between"
  shows "filter call_verdict (fst (apply_results s
      (AgIndicatorUpdate (hf_callsetup_indicator_index s) 0 # between))) = [] \<and>
    filter call_verdict (fst (apply_results s
      (AgIndicatorUpdate (hf_callsetup_indicator_index s) 0 # between @
       replicate (Suc n) (AgIndicatorUpdate (hf_call_indicator_index s) v)))) =
      [if v \<noteq> 0 then CallAnswered else CallTerminated]"
proof -
  let ?ci = "hf_call_indicator_index s" and ?si = "hf_callsetup_indicator_index s"
  let ?s1 = "snd (apply_result s (AgIndicatorUpdate ?si 0))"
  let ?s2 = "snd (apply_results ?s1 between)"
  from ring_end_holds [OF assms(1-6)]
  have h1: "verdict_held ?ci ?si ?s1" and e1: "fst (apply_result s (AgIndicatorUpdate ?si 0)) = []"
    by blast+
  from no_call_news_run [OF assms(7) h1] have h2: "verdict_held ?ci ?si ?s2"
    and e2: "filter call_verdict (fst (apply_results ?s1 between)) = []" by blast+
  from call_update_settles [OF h2, of v] call_update_repeats
  have e3: "fst (apply_results ?s2 (replicate (Suc n) (AgIndicatorUpdate ?ci v))) =
      [if v \<noteq> 0 then CallAnswered else CallTerminated]"
    by simp
  show ?thesis
    using e1 e2 e3
    by (simp add: apply_results_append Let_def case_prod_beta call_verdict_def
        del: replicate.simps filter.simps(2))
qed

theorem ring_end_verdict_once_witness:
  "let s = hfp_new\<lparr>hf_incoming_call := True\<rparr> in
     \<not> hf_call_active s \<and>
     filter call_verdict (fst (apply_results s
       (AgIndicatorUpdate 3 0 # [AgOk, AgCallerId [49]] @ replicate 2 (AgIndicatorUpdate 2 1)))) =
     [CallAnswered]"
proof -
  let ?s = "hfp_new\<lparr>hf_incoming_call := True\<rparr>"
  have "\<not> hf_call_active ?s" "hf_incoming_call ?s \<or> hf_outgoing_setup ?s" "\<not> hf_setup_refused ?s"
    "\<not> hf_call_waiting ?s" "\<not> hf_second_setup_unverified ?s"
    "hf_call_indicator_index ?s \<noteq> hf_callsetup_indicator_index ?s"
    by (simp_all add: hfp_new_def)
  note h = this
  have "list_all no_call_news [AgOk, AgCallerId [49]]" by (simp add: no_call_news_def)
  from ring_end_verdict_once [OF h this, of 1 1] h(1)
  have "\<not> hf_call_active ?s \<and> filter call_verdict (fst (apply_results ?s
      (AgIndicatorUpdate (hf_callsetup_indicator_index ?s) 0 # [AgOk, AgCallerId [49]] @
       replicate 2 (AgIndicatorUpdate (hf_call_indicator_index ?s) 1)))) = [CallAnswered]"
    by (simp only: numeral_2_eq_2 One_nat_def) simp
  moreover have "hf_callsetup_indicator_index ?s = 3" "hf_call_indicator_index ?s = 2"
    by (simp_all add: hfp_new_def)
  ultimately show ?thesis by (simp only: Let_def) simp
qed

section \<open>Hang-up and its retry\<close>

text \<open>C32: a refused AT+CHUP is sent again only if it went out on a live
  call and no call of the phone changed in any way since (fewer than 2 to the 32 results having
  come, the width of the counter), and a second refusal never sends it a third time, whatever came
  in between.\<close>

theorem hangup_retry_once_unchanged:
  assumes "after_refusal (snd (apply_results (mark_command_sent s RejectOrHangup) results)) ''AT+CHUP'' =
      (Some command, s2)"
    and "length results < 2 ^ 32" and "length results2 < 2 ^ 32"
  shows "command = RejectOrHangup \<and> hf_call_active s \<and>
    shape_changes (mark_command_sent s RejectOrHangup) results = 0 \<and>
    call_shape s2 = call_shape s \<and>
    fst (after_refusal (snd (apply_results (mark_command_sent s2 RejectOrHangup) results2)) ''AT+CHUP'') =
      None"
proof -
  let ?s0 = "mark_command_sent s RejectOrHangup"
  let ?s1 = "snd (apply_results ?s0 results)"
  let ?t0 = "mark_command_sent s2 RejectOrHangup"
  let ?t1 = "snd (apply_results ?t0 results2)"
  have frame: "call_shape (mark_command_sent u RejectOrHangup) = call_shape u"
    "hf_call_changes (mark_command_sent u RejectOrHangup) = hf_call_changes u"
    "hf_hangup_retried (mark_command_sent u RejectOrHangup) = hf_hangup_retried u"
    "hf_hangup_sent_live (mark_command_sent u RejectOrHangup) =
       (if hf_call_active u then Some (hf_call_changes u) else None)" for u
    by (simp_all add: mark_command_sent_def call_shape_def Let_def)
  from assms(1) have c: "command = RejectOrHangup" and live: "hf_call_active ?s1"
    and sent: "hf_hangup_sent_live ?s0 = Some (hf_call_changes ?s1)"
    and s2: "call_shape s2 = call_shape ?s1" "hf_hangup_retried s2"
    by (auto simp: after_refusal_def Let_def call_shape_def split: if_splits)
  have "hf_call_active s" "hf_call_changes ?s1 = hf_call_changes ?s0"
    using sent by (auto simp: frame split: if_splits)
  moreover from this have z: "shape_changes ?s0 results = 0" by (intro few_changes_none assms)
  moreover have "call_shape s2 = call_shape s"
    using s2 shape_changes_0 [OF z] by (simp add: frame)
  moreover have "fst (after_refusal ?t1 ''AT+CHUP'') = None"
  proof (cases "hf_call_changes ?t1 = hf_call_changes ?t0")
    case True
    then have "shape_changes ?t0 results2 = 0" by (intro few_changes_none assms)
    with s2 have "hf_hangup_retried ?t1" by (intro apply_results_retried) (simp add: frame)
    then show ?thesis by (simp add: after_refusal_def Let_def)
  next
    case False
    then show ?thesis by (auto simp: after_refusal_def Let_def frame)
  qed
  ultimately show ?thesis using c by blast
qed

theorem hangup_retry_once_unchanged_witness:
  "let s = hfp_new\<lparr>hf_call_active := True\<rparr>;
       s1 = snd (apply_results (mark_command_sent s RejectOrHangup) [AgError]);
       s2 = snd (after_refusal s1 ''AT+CHUP'')
   in fst (after_refusal s1 ''AT+CHUP'') = Some RejectOrHangup \<and> call_shape s2 = call_shape s \<and>
      fst (after_refusal (snd (apply_results (mark_command_sent s2 RejectOrHangup) [AgError]))
        ''AT+CHUP'') = None"
proof -
  let ?s = "hfp_new\<lparr>hf_call_active := True\<rparr>"
  let ?s1 = "snd (apply_results (mark_command_sent ?s RejectOrHangup) [AgError])"
  have f: "fst (after_refusal ?s1 ''AT+CHUP'') = Some RejectOrHangup" by code_simp
  then have "after_refusal ?s1 ''AT+CHUP'' =
      (Some RejectOrHangup, snd (after_refusal ?s1 ''AT+CHUP''))"
    by (metis prod.collapse)
  from hangup_retry_once_unchanged [OF this, of "[AgError]"] f show ?thesis
    by (simp only: Let_def) simp
qed

text \<open>With a caller waiting on a live call, an outgoing set-up
  (\<open>callsetup,2\<close>) that is then given up (\<open>callsetup,0\<close>, \<open>call,0\<close>) is announced as dialing and
  never as terminated: its end is taken for the end of the waiting episode, and the machine still
  reports a call in progress.\<close>

theorem waiting_flag_hides_ended_dial:
  assumes "hfp_reach s" "hf_call_active s" "hf_call_waiting s"
    and "hf_call_indicator_index s \<noteq> hf_callsetup_indicator_index s"
  shows "fst (apply_results s [AgIndicatorUpdate (hf_callsetup_indicator_index s) 2,
        AgIndicatorUpdate (hf_callsetup_indicator_index s) 0,
        AgIndicatorUpdate (hf_call_indicator_index s) 0]) =
      [CallTerminated, OutgoingDialing, CallWaitingEnded] \<and>
    call_in_progress (snd (apply_results s [AgIndicatorUpdate (hf_callsetup_indicator_index s) 2,
        AgIndicatorUpdate (hf_callsetup_indicator_index s) 0,
        AgIndicatorUpdate (hf_call_indicator_index s) 0]))"
proof -
  have "\<not> hf_terminate_pending s" using hfp_reach_ok [OF assms(1)] assms(2) by (simp add: calls_ok_def)
  with assms show ?thesis
    by (simp add: apply_result_def apply_indicator_def update_callsetup_def callsetup_outgoing_def
        callsetup_ended_def update_call_state_def call_in_progress_def Let_def)
qed

theorem waiting_flag_hides_ended_dial_witness:
  "let s = snd (apply_results hfp_new [AgIndicatorUpdate 3 1, AgIndicatorUpdate 2 1,
              AgCallWaitingNotification [49]])
   in hfp_reach s \<and>
      fst (apply_results s [AgIndicatorUpdate 3 2, AgIndicatorUpdate 3 0, AgIndicatorUpdate 2 0]) =
        [CallTerminated, OutgoingDialing, CallWaitingEnded]"
proof -
  let ?s = "snd (apply_results hfp_new [AgIndicatorUpdate 3 1, AgIndicatorUpdate 2 1,
              AgCallWaitingNotification [49]])"
  have r: "hfp_reach ?s" by (rule reach_results [OF reach_new])
  have a: "hf_call_active ?s" by code_simp
  have b: "hf_call_waiting ?s" by code_simp
  have i: "hf_call_indicator_index ?s = 2" by code_simp
  have j: "hf_callsetup_indicator_index ?s = 3" by code_simp
  from i j have "hf_call_indicator_index ?s \<noteq> hf_callsetup_indicator_index ?s" by simp
  from waiting_flag_hides_ended_dial [OF r a b this] r show ?thesis
    unfolding i j by (simp only: Let_def)
qed

end
