(* ===== verification/Hfp_At.thy ===== *)
theory Hfp_At
  imports Hfp
begin

text \<open>
  The AT codec of \<open>aokie_radio/hfp.rs\<close>: \<open>build_at_command\<close>, and the parser of the phone's
  result lines with the carry of an unfinished line between two RFCOMM frames.
\<close>

section \<open>Building commands\<close>

definition dial_keep :: "nat \<times> nat \<Rightarrow> bool" where
  "dial_keep = (\<lambda>(i, c). is_ascii_digit c \<or> (i = 0 \<and> c = 43))"

definition sanitize_number :: "rstr \<Rightarrow> rstr" where
  "sanitize_number number = map snd (filter dial_keep (enumerate 0 number))"

definition bool_digit :: "bool \<Rightarrow> rstr" where
  "bool_digit b = dec_digits (if b then 1 else 0)"

fun chld_line :: "ChldAction \<Rightarrow> rstr" where
  "chld_line ReleaseAllHeld = lit ''AT+CHLD=0''"
| "chld_line ReleaseActiveAcceptOther = lit ''AT+CHLD=1''"
| "chld_line (ReleaseSpecific index) = lit ''AT+CHLD=1'' @ dec_digits (unat index)"
| "chld_line HoldActiveAcceptOther = lit ''AT+CHLD=2''"
| "chld_line (PrivateConsult index) = lit ''AT+CHLD=2'' @ dec_digits (unat index)"
| "chld_line Merge = lit ''AT+CHLD=3''"

text \<open>The line without its carriage return.\<close>

fun at_line :: "HfpAtCommand \<Rightarrow> rstr" where
  "at_line (SupportedFeatures call_waiting) =
     lit ''AT+BRSF='' @
     dec_digits (unat (if call_waiting
                       then AOKIE_HF_SUPPORTED_FEATURES OR HF_FEATURE_CALL_WAITING_3WAY
                       else AOKIE_HF_SUPPORTED_FEATURES))"
| "at_line (AvailableCodecs wbs_supported) =
     (if wbs_supported
      then lit ''AT+BAC='' @ dec_digits (unat HFP_CODEC_CVSD) @ lit '','' @
           dec_digits (unat HFP_CODEC_MSBC)
      else lit ''AT+BAC='' @ dec_digits (unat HFP_CODEC_CVSD))"
| "at_line RetrieveIndicators = lit ''AT+CIND=?''"
| "at_line RetrieveIndicatorStatus = lit ''AT+CIND?''"
| "at_line RetrieveCallHoldSupport = lit ''AT+CHLD=?''"
| "at_line EnableCallWaitingNotifications = lit ''AT+CCWA=1''"
| "at_line (CallHold action) = chld_line action"
| "at_line (ActivateClip active) = lit ''AT+CLIP='' @ bool_digit active"
| "at_line (EnableIndicatorUpdates active) = lit ''AT+CMER=3,0,0,'' @ bool_digit active"
| "at_line (EnableAllIndicatorStatusUpdates active) =
     (if active then lit ''AT+BIA=1,1,1,1,1,1,1'' else lit ''AT+BIA=0,0,0,0,0,0,0'')"
| "at_line DisableNoiseReduction = lit ''AT+NREC=0''"
| "at_line Answer = lit ''ATA''"
| "at_line RejectOrHangup = lit ''AT+CHUP''"
| "at_line (Dial number) = lit ''ATD'' @ sanitize_number number @ lit '';''"
| "at_line (ConfirmCodec codec) = lit ''AT+BCS='' @ dec_digits (unat codec)"
| "at_line ListCurrentCalls = lit ''AT+CLCC''"
| "at_line CodecConnection = lit ''AT+BCC''"

text \<open>Every character of a line is ASCII (\<open>at_line_ascii\<close> below), so its UTF-8 octets are its
  scalar values.\<close>

definition build_at_command :: "HfpAtCommand \<Rightarrow> bytes" where
  "build_at_command command = map word_of_nat (at_line command @ [CR])"

section \<open>Parsing results\<close>

definition parse_i32 :: "rstr \<Rightarrow> int option" where
  "parse_i32 v = parse_i32_strict (trim v)"

definition parse_number_list :: "rstr \<Rightarrow> int list" where
  "parse_number_list v = List.map_filter parse_i32 (split_on 44 v)"

abbreviation (input) QUOTE :: nat where "QUOTE \<equiv> 34"

function extract_quoted_values :: "rstr \<Rightarrow> rstr list" where
  "extract_quoted_values rest =
     (case split_once QUOTE rest of
        None \<Rightarrow> []
      | Some (_, after_start) \<Rightarrow>
          (case split_once QUOTE after_start of
             None \<Rightarrow> []
           | Some (value, rest') \<Rightarrow> value # extract_quoted_values rest'))"
  by pat_completeness auto
termination
  by (relation "measure length") (auto dest!: split_once_shorter)

declare extract_quoted_values.simps [simp del]

definition extract_first_quoted :: "rstr \<Rightarrow> rstr option" where
  "extract_first_quoted v = (case extract_quoted_values v of [] \<Rightarrow> None | x # _ \<Rightarrow> Some x)"

definition parse_cind :: "rstr \<Rightarrow> HfpAgResult" where
  "parse_cind v =
     (if QUOTE \<in> set v then AgIndicators (extract_quoted_values v)
      else AgIndicatorStatus (parse_number_list v))"

definition parse_clcc_entry :: "rstr \<Rightarrow> ClccEntry option" where
  "parse_clcc_entry v =
     (let unquoted = hd (split_on QUOTE v);
          fields = parse_number_list unquoted in
      if length fields < 5 then None
      else
        (case (u8_try_from (fields ! 0), u8_try_from (fields ! 1), u8_try_from (fields ! 2),
               u8_try_from (fields ! 3)) of
           (Some i, Some d, Some st, Some md) \<Rightarrow>
             Some \<lparr>clcc_index = i, clcc_direction = d, clcc_status = st, clcc_mode = md,
                   clcc_multiparty = (fields ! 4 \<noteq> 0), clcc_number = extract_first_quoted v\<rparr>
         | _ \<Rightarrow> None))"

definition parse_chld_modes :: "rstr \<Rightarrow> rstr list" where
  "parse_chld_modes v =
     filter (\<lambda>m. m \<noteq> [])
       (map trim (split_on 44
         (trim_end_matches (\<lambda>c. c = 41) (trim_start_matches (\<lambda>c. c = 40) (trim v)))))"

definition parse_ciev :: "rstr \<Rightarrow> HfpAgResult option" where
  "parse_ciev v =
     (case parse_number_list v of
        index # v # _ \<Rightarrow> map_option (\<lambda>i. AgIndicatorUpdate i v) (u8_try_from index)
      | _ \<Rightarrow> None)"

text \<open>The prefixes in the order of the source; a +CIEV line that names no indicator falls through
  to \<open>Unknown\<close>, since it has none of the later prefixes.\<close>

definition parse_ag_result_line :: "rstr \<Rightarrow> HfpAgResult option" where
  "parse_ag_result_line line0 =
     (let line = trim line0 in
      if line = [] then None
      else if line = lit ''OK'' then Some AgOk
      else if line = lit ''ERROR'' \<or> starts_with (lit ''+CME ERROR'') line then Some AgError
      else if line = lit ''RING'' then Some AgRing
      else case strip_prefix (lit ''+BRSF:'') line of
        Some v \<Rightarrow> map_option (\<lambda>features. AgSupportedFeatures (word_of_int features)) (parse_i32 v)
      | None \<Rightarrow>
      case strip_prefix (lit ''+CIND:'') line of Some v \<Rightarrow> Some (parse_cind v)
      | None \<Rightarrow>
      case strip_prefix (lit ''+CIEV:'') line of
        Some v \<Rightarrow> (case parse_ciev v of None \<Rightarrow> Some (AgUnknown line) | Some r \<Rightarrow> Some r)
      | None \<Rightarrow>
      case strip_prefix (lit ''+CLIP:'') line of
        Some v \<Rightarrow> map_option AgCallerId (extract_first_quoted v)
      | None \<Rightarrow>
      case strip_prefix (lit ''+CLCC:'') line of
        Some v \<Rightarrow> map_option AgCallListEntry (parse_clcc_entry v)
      | None \<Rightarrow>
      case strip_prefix (lit ''+CCWA:'') line of
        Some v \<Rightarrow> map_option AgCallWaitingNotification (extract_first_quoted v)
      | None \<Rightarrow>
      case strip_prefix (lit ''+CHLD:'') line of Some v \<Rightarrow> Some (AgCallHoldModes (parse_chld_modes v))
      | None \<Rightarrow>
      case strip_prefix (lit ''+BCS:'') line of
        Some v \<Rightarrow> map_option (\<lambda>codec. AgSelectedCodec (case u8_try_from codec of None \<Rightarrow> 0 | Some c \<Rightarrow> c))
                    (parse_i32 v)
      | None \<Rightarrow> Some (AgUnknown line))"

definition line_end :: "nat \<Rightarrow> bool" where
  "line_end c = (c = CR \<or> c = LF)"

text \<open>\<open>rfind\<close> of a line end and \<open>split_off\<close> behind it: the finished lines, and the tail.\<close>

definition cut_lines :: "rstr \<Rightarrow> rstr \<times> rstr" where
  "cut_lines whole =
     (rev (dropWhile (\<lambda>c. \<not> line_end c) (rev whole)),
      rev (takeWhile (\<lambda>c. \<not> line_end c) (rev whole)))"

definition parse_lines :: "rstr \<Rightarrow> HfpAgResult list" where
  "parse_lines whole =
     List.map_filter parse_ag_result_line (concat (map (split_on LF) (split_on CR whole)))"

text \<open>A payload that is not UTF-8 is refused before the carry is taken; a tail of more than 1024
  octets is dropped.\<close>

definition parse_ag_results_buffered :: "rstr \<Rightarrow> bytes \<Rightarrow> HfpAgResult list option \<times> rstr" where
  "parse_ag_results_buffered carry payload =
     (case utf8_decode payload of
        None \<Rightarrow> (None, carry)
      | Some text \<Rightarrow>
          let (whole, tail) = cut_lines (carry @ text)
          in (Some (parse_lines whole), if str_len tail \<le> 1024 then tail else []))"

definition parse_ag_results :: "bytes \<Rightarrow> HfpAgResult list option" where
  "parse_ag_results payload = fst (parse_ag_results_buffered [] payload)"

section \<open>Lines and fragments\<close>

text \<open>Splitting at carriage returns and then at line feeds is splitting at every line end.\<close>

fun split_ends :: "rstr \<Rightarrow> rstr list" where
  "split_ends [] = [[]]"
| "split_ends (c # s) =
     (if line_end c then [] # split_ends s
      else case split_ends s of [] \<Rightarrow> [[c]] | p # ps \<Rightarrow> (c # p) # ps)"

lemma split_ends_not_Nil [simp]: "split_ends s \<noteq> []"
  by (induction s) (auto split: list.splits)

lemma split_cr_lf: "concat (map (split_on LF) (split_on CR s)) = split_ends s"
proof (induction s)
  case (Cons c s)
  obtain p ps where s: "split_on CR s = p # ps" by (cases "split_on CR s") auto
  obtain q qs where q: "split_on LF p = q # qs" by (cases "split_on LF p") auto
  from Cons.IH s q have "split_ends s = q # qs @ concat (map (split_on LF) ps)" by simp
  with s q show ?case by (auto simp: line_end_def)
qed simp

lemma split_ends_append:
  assumes "line_end c"
  shows "split_ends (x @ c # y) = split_ends x @ split_ends y"
  using assms by (induction x) (auto split: list.splits)

lemma parse_ag_result_line_Nil [simp]: "parse_ag_result_line [] = None"
  by (simp add: parse_ag_result_line_def trim_def trim_start_matches_def trim_end_matches_def)

lemma parse_lines_ends: "parse_lines s = List.map_filter parse_ag_result_line (split_ends s)"
  by (simp add: parse_lines_def split_cr_lf)

lemma map_filter_append: "List.map_filter f (xs @ ys) = List.map_filter f xs @ List.map_filter f ys"
  by (simp add: List.map_filter_def)

lemma parse_lines_Nil [simp]: "parse_lines [] = []"
  by (simp add: parse_lines_ends List.map_filter_def)

lemma parse_lines_append:
  "line_end c \<Longrightarrow> parse_lines (x @ c # y) = parse_lines x @ parse_lines y"
  by (simp add: parse_lines_ends split_ends_append map_filter_append)

text \<open>The shape of finished lines: nothing, or a text that ends in a line end.\<close>

definition finished :: "rstr \<Rightarrow> bool" where
  "finished s = (s = [] \<or> line_end (last s))"

lemma parse_lines_finished:
  assumes "finished a"
  shows "parse_lines (a @ b) = parse_lines a @ parse_lines b"
proof (cases a rule: rev_cases)
  case (snoc x c)
  with assms have "line_end c" by (simp add: finished_def)
  with snoc parse_lines_append [of c x b] parse_lines_append [of c x "[]"] show ?thesis by simp
qed simp

lemma cut_lines_spec:
  "cut_lines s = (a, b) \<longleftrightarrow> s = a @ b \<and> finished a \<and> (\<forall>c \<in> set b. \<not> line_end c)"
proof
  let ?P = "\<lambda>c. \<not> line_end c"
  assume c: "cut_lines s = (a, b)"
  then have a: "a = rev (dropWhile ?P (rev s))" and b: "b = rev (takeWhile ?P (rev s))"
    by (auto simp: cut_lines_def)
  have "rev s = takeWhile ?P (rev s) @ dropWhile ?P (rev s)" by simp
  then have "s = a @ b" unfolding a b by (metis rev_append rev_rev_ident)
  moreover have "finished a"
    using hd_dropWhile [of ?P "rev s"] by (auto simp: finished_def a last_rev)
  moreover have "\<forall>c \<in> set b. \<not> line_end c" by (auto simp: b dest: set_takeWhileD)
  ultimately show "s = a @ b \<and> finished a \<and> (\<forall>c \<in> set b. \<not> line_end c)" by blast
next
  let ?P = "\<lambda>c. \<not> line_end c"
  assume r: "s = a @ b \<and> finished a \<and> (\<forall>c \<in> set b. \<not> line_end c)"
  then have "takeWhile ?P (rev s) = rev b \<and> dropWhile ?P (rev s) = rev a"
    by (cases a rule: rev_cases) (auto simp: finished_def takeWhile_append dropWhile_append)
  then show "cut_lines s = (a, b)" by (simp add: cut_lines_def)
qed

lemma finished_append: "finished a \<Longrightarrow> finished b \<Longrightarrow> finished (a @ b)"
  by (cases b rule: rev_cases) (auto simp: finished_def)

text \<open>Cutting a text in two steps, the first tail carried, is cutting it in one.\<close>

lemma cut_lines_two:
  assumes "cut_lines s = (a, b)" "cut_lines (b @ t) = (a', b')"
  shows "cut_lines (s @ t) = (a @ a', b')"
proof -
  from assms(1) have s: "s = a @ b" "finished a" by (simp_all add: cut_lines_spec)
  from assms(2) have t: "b @ t = a' @ b'" "finished a'" "\<forall>c \<in> set b'. \<not> line_end c"
    by (simp_all add: cut_lines_spec)
  from s(1) t(1) have "s @ t = (a @ a') @ b'" by simp
  with finished_append [OF s(2) t(2)] t(3) show ?thesis unfolding cut_lines_spec by blast
qed

text \<open>The frames of one connection in order, from a carry.\<close>

fun parse_frames :: "rstr \<Rightarrow> bytes list \<Rightarrow> HfpAgResult list option \<times> rstr" where
  "parse_frames carry [] = (Some [], carry)"
| "parse_frames carry (f # fs) =
     (case parse_ag_results_buffered carry f of
        (None, carry1) \<Rightarrow> (None, carry1)
      | (Some rs, carry1) \<Rightarrow>
          (case parse_frames carry1 fs of
             (None, carry2) \<Rightarrow> (None, carry2)
           | (Some rs', carry2) \<Rightarrow> (Some (rs @ rs'), carry2)))"

text \<open>The unfinished line after some text, and that no frame but the last leaves one longer than
  1024 octets.\<close>

definition tail_of :: "rstr \<Rightarrow> rstr" where
  "tail_of s = snd (cut_lines s)"

fun tails_fit :: "rstr \<Rightarrow> rstr list \<Rightarrow> bool" where
  "tails_fit s [] = True"
| "tails_fit s [t] = True"
| "tails_fit s (t # ts) = (str_len (tail_of (s @ t)) \<le> 1024 \<and> tails_fit (s @ t) ts)"

definition keep_tail :: "rstr \<Rightarrow> rstr" where
  "keep_tail s = (if str_len (tail_of s) \<le> 1024 then tail_of s else [])"

lemma parse_text:
  "utf8_decode f = Some t \<Longrightarrow>
     parse_ag_results_buffered carry f =
       (Some (parse_lines (fst (cut_lines (carry @ t)))), keep_tail (carry @ t))"
  by (simp add: parse_ag_results_buffered_def keep_tail_def tail_of_def case_prod_beta Let_def)

lemma tail_of_tail: "tail_of (tail_of s @ t) = tail_of (s @ t)"
proof -
  obtain a b where s: "cut_lines s = (a, b)" by fastforce
  obtain a' b' where t: "cut_lines (b @ t) = (a', b')" by fastforce
  from cut_lines_two [OF s t] s t show ?thesis by (simp add: tail_of_def)
qed

lemma tails_fit_tail: "tails_fit (tail_of s) ts = tails_fit s ts"
proof (induction ts arbitrary: s rule: induct_list012)
  case (3 t t' ts)
  have "tails_fit (tail_of s @ t) (t' # ts) = tails_fit (tail_of (tail_of s @ t)) (t' # ts)"
    using 3(2) [of "tail_of s @ t"] by simp
  also have "\<dots> = tails_fit (s @ t) (t' # ts)" using 3(2) [of "s @ t"] by (simp add: tail_of_tail)
  finally show ?case by (simp add: tail_of_tail)
qed simp_all

lemma parse_frames_whole:
  assumes "list_all2 (\<lambda>f t. utf8_decode f = Some t) (f # fs) (t # ts)" "tails_fit carry (t # ts)"
  shows "parse_frames carry (f # fs) =
    (Some (parse_lines (fst (cut_lines (carry @ concat (t # ts))))), keep_tail (carry @ concat (t # ts)))"
  using assms
proof (induction fs arbitrary: carry f t ts)
  case Nil
  then show ?case by (simp add: parse_text)
next
  case (Cons f' fs)
  then obtain t' ts' where ts: "ts = t' # ts'" by (auto simp: list_all2_Cons1)
  let ?s = "carry @ t"
  from Cons.prems ts have d: "utf8_decode f = Some t" and fit: "str_len (tail_of ?s) \<le> 1024"
    and rest: "list_all2 (\<lambda>f t. utf8_decode f = Some t) (f' # fs) (t' # ts')"
    and more: "tails_fit (tail_of ?s) (t' # ts')"
    by (simp_all add: tails_fit_tail)
  obtain a b where ab: "cut_lines ?s = (a, b)" by fastforce
  then have b: "tail_of ?s = b" by (simp add: tail_of_def)
  obtain a' b' where ab': "cut_lines (b @ concat ts) = (a', b')" by fastforce
  have c: "cut_lines (carry @ concat (t # ts)) = (a @ a', b')"
    using cut_lines_two [OF ab ab'] by simp
  have "finished a" using ab by (simp add: cut_lines_spec)
  moreover have "parse_frames b (f' # fs) = (Some (parse_lines a'), keep_tail (b @ concat ts))"
    using Cons.IH [OF rest more] by (simp add: b ts [symmetric] ab' del: parse_frames.simps)
  moreover have "keep_tail (b @ concat ts) = keep_tail (carry @ concat (t # ts))"
    using c ab' by (simp add: keep_tail_def tail_of_def)
  ultimately show ?case
    using c d fit b ab
    by (simp add: parse_text keep_tail_def parse_lines_finished del: concat.simps parse_frames.simps(2))
       (simp add: parse_text keep_tail_def parse_lines_finished)
qed

section \<open>Command lines\<close>

text \<open>Printable ASCII, the only characters a line is made of.\<close>

definition at_char :: "nat \<Rightarrow> bool" where
  "at_char c = (33 \<le> c \<and> c \<le> 90)"

lemma digits_at_chars: "list_all at_char (dec_digits n)"
  using dec_digits_digits [of n] by (auto simp: list_all_iff at_char_def is_ascii_digit_def)

lemma sanitize_chars:
  "list_all (\<lambda>c. is_ascii_digit c \<or> c = 43) (sanitize_number number)"
  by (auto simp: list_all_iff sanitize_number_def dial_keep_def)

lemma sanitize_tail_digits:
  "list_all is_ascii_digit (map snd (filter dial_keep (enumerate (Suc n) number)))"
  by (auto simp: list_all_iff dial_keep_def in_set_enumerate_eq)

lemma sanitize_plus_leads: "list_all is_ascii_digit (tl (sanitize_number number))"
proof (cases number)
  case (Cons c r)
  then have "sanitize_number number =
      (if dial_keep (0, c) then [c] else []) @ map snd (filter dial_keep (enumerate (Suc 0) r))"
    by (simp add: sanitize_number_def)
  moreover have "list_all is_ascii_digit xs \<Longrightarrow> list_all is_ascii_digit (tl xs)" for xs
    by (cases xs) auto
  ultimately show ?thesis using sanitize_tail_digits [of 0 r] by simp
qed (simp add: sanitize_number_def)

lemma at_line_chars: "list_all at_char (at_line command)"
proof (cases command)
  case (Dial number)
  with sanitize_chars [of number] show ?thesis
    by (auto simp: list_all_iff at_char_def is_ascii_digit_def)
next
  case (CallHold action)
  then show ?thesis
    by (cases action) (simp_all add: digits_at_chars, simp_all add: at_char_def)
qed (simp_all add: digits_at_chars bool_digit_def, simp_all add: at_char_def digits_at_chars [unfolded list_all_iff])

lemma at_line_name: "starts_with (lit (at_command_name command)) (at_line command)"
proof (cases command)
  case (CallHold action)
  then show ?thesis by (cases action) (simp_all add: starts_with_def)
qed (simp_all add: starts_with_def)

lemma filter_dial_keep_clean:
  "list_all is_ascii_digit r \<Longrightarrow> map snd (filter dial_keep (enumerate n r)) = r"
  by (induction r arbitrary: n) (simp_all add: dial_keep_def)

lemma sanitize_clean:
  assumes "list_all (\<lambda>c. is_ascii_digit c \<or> c = 43) n" "list_all is_ascii_digit (tl n)"
  shows "sanitize_number n = n"
  using assms by (cases n) (auto simp: sanitize_number_def filter_dial_keep_clean, auto simp: dial_keep_def)

section \<open>Numbers in lines\<close>

lemma digit_not_space: "is_ascii_digit c \<Longrightarrow> \<not> is_whitespace c"
  by (auto simp: is_ascii_digit_def is_whitespace_def)

lemma dec_digits_not_Nil [simp]: "dec_digits n \<noteq> []"
  by (subst dec_digits.simps) simp

lemma trim_dec_digits [simp]: "trim (dec_digits n) = dec_digits n"
  using dec_digits_digits [of n] by (intro trim_tight) (auto intro!: digit_not_space)

lemma parse_i32_dec_digits:
  assumes "n < 2 ^ 31"
  shows "parse_i32 (dec_digits n) = Some (int n)"
proof -
  have "hd (dec_digits n) \<noteq> 45" "hd (dec_digits n) \<noteq> 43"
    using dec_digits_digits [of n] by (auto simp: is_ascii_digit_def dest!: bspec [OF _ hd_in_set, of "dec_digits n"])
  with assms show ?thesis
    by (simp add: parse_i32_def parse_i32_strict_def digits_value_dec_digits)
qed

lemma split_on_none: "sep \<notin> set a \<Longrightarrow> split_on sep a = [a]"
  by (induction a) auto

lemma split_on_append: "sep \<notin> set a \<Longrightarrow> split_on sep (a @ sep # b) = a # split_on sep b"
  by (induction a) auto

lemma comma_not_digit: "44 \<notin> set (dec_digits n)"
  using dec_digits_digits [of n] by (auto simp: is_ascii_digit_def)

lemma parse_number_pair:
  assumes "i < 2 ^ 31" "v < 2 ^ 31"
  shows "parse_number_list (32 # dec_digits i @ 44 # dec_digits v) = [int i, int v]"
proof -
  have "split_on 44 (32 # dec_digits i @ 44 # dec_digits v) = [32 # dec_digits i, dec_digits v]"
    using split_on_append [of 44 "32 # dec_digits i"] comma_not_digit [of i]
    by (simp add: split_on_none [OF comma_not_digit])
  moreover have "parse_i32 (32 # s) = parse_i32 s" for s by (simp add: parse_i32_def trim_space)
  ultimately show ?thesis
    using assms by (simp add: parse_number_list_def List.map_filter_def parse_i32_dec_digits)
qed

definition ciev_line :: "nat \<Rightarrow> nat \<Rightarrow> rstr" where
  "ciev_line i v = lit ''+CIEV: '' @ dec_digits i @ 44 # dec_digits v"

lemma trim_ciev_line: "trim (ciev_line i v) = ciev_line i v"
  using dec_digits_digits [of v]
  by (intro trim_tight) (auto simp: ciev_line_def is_whitespace_def is_ascii_digit_def
      dest!: bspec [OF _ last_in_set, of "dec_digits v"])

section \<open>Properties\<close>

text \<open>C33: however a stream of results is cut into RFCOMM frames at
  character boundaries, with no unfinished line of more than 1024 octets at a cut, the results
  parsed frame by frame and the line left over are those of the whole stream in one frame.\<close>

theorem at_fragmentation_invariant:
  assumes "list_all2 (\<lambda>f t. utf8_decode f = Some t) frames texts" and "tails_fit carry texts"
    and "frames \<noteq> []"
  shows "parse_frames carry frames = parse_frames carry [concat frames]"
proof -
  obtain f fs where f: "frames = f # fs" using assms(3) by (cases frames) auto
  with assms(1) obtain t ts where t: "texts = t # ts" by (auto simp: list_all2_Cons1)
  have "utf8_decode (concat frames) = Some (concat texts)"
    using assms(1) by (induction rule: list_all2_induct) (auto intro: utf8_decode_append)
  with parse_frames_whole [of f fs t ts carry] assms f t show ?thesis
    by (simp add: parse_text)
qed

text \<open>A RING cut in two, and a line feed alone in a third frame.\<close>

theorem at_fragmentation_invariant_witness:
  "parse_frames [] [[13, 10, 82, 73], [78, 71, 13], [10]] =
     parse_frames [] [concat [[13, 10, 82, 73], [78, 71, 13], [10]]] \<and>
   fst (parse_frames [] [[13, 10, 82, 73], [78, 71, 13], [10]]) = Some [AgRing]"
proof -
  let ?f = "[[13, 10, 82, 73], [78, 71, 13], [10]] :: bytes list"
  let ?t = "[[13, 10, 82, 73], [78, 71, 13], [10]] :: rstr list"
  have "list_all2 (\<lambda>f t. utf8_decode f = Some t) ?f ?t" by code_simp
  moreover have "tails_fit [] ?t" by code_simp
  ultimately have "parse_frames [] ?f = parse_frames [] [concat ?f]"
    by (rule at_fragmentation_invariant) simp
  moreover have "fst (parse_frames [] ?f) = Some [AgRing]" by code_simp
  ultimately show ?thesis by blast
qed

text \<open>Every command is one line: its octets are printable ASCII between
  the exclamation mark and Z followed by the one carriage return, and they begin with the name the
  command has in events.\<close>

theorem at_command_single_line:
  "\<exists>line. build_at_command command = line @ [0x0D] \<and>
     list_all (\<lambda>b. 33 \<le> b \<and> b \<le> 90) line \<and>
     take (length (at_command_name command)) line = ascii (at_command_name command)"
proof -
  let ?w = "map word_of_nat (at_line command) :: bytes"
  have "33 \<le> (word_of_nat c :: u8) \<and> (word_of_nat c :: u8) \<le> 90" if "at_char c" for c
    using that by (simp add: at_char_def word_le_nat_alt unat_of_nat)
  then have "list_all (\<lambda>b. 33 \<le> b \<and> b \<le> 90) ?w"
    using at_line_chars [of command] by (auto simp: list_all_iff)
  moreover obtain r where r: "at_line command = lit (at_command_name command) @ r"
  proof -
    have "strip_prefix p s = Some r \<Longrightarrow> s = p @ r" for p s r
      by (induction p s rule: strip_prefix.induct) (auto split: if_splits)
    with at_line_name [of command] that show thesis by (auto simp: starts_with_def)
  qed
  have "take (length (at_command_name command)) ?w = ascii (at_command_name command)"
    by (simp add: r lit_def ascii_def of_nat_of_char)
  ultimately show ?thesis by (intro exI [of _ ?w]) (simp add: build_at_command_def)
qed

text \<open>C34: whatever text is dialed, the wire carries ATD, then only digits
  with at most a leading plus sign, then one semicolon and the carriage return; cleaning is
  idempotent.\<close>

theorem dial_carries_no_at_syntax:
  "\<exists>digits. build_at_command (Dial number) =
       ascii ''ATD'' @ map word_of_nat digits @ ascii '';'' @ [0x0D] \<and>
     list_all (\<lambda>c. is_ascii_digit c \<or> c = 43) digits \<and> list_all is_ascii_digit (tl digits) \<and>
     build_at_command (Dial digits) = build_at_command (Dial number)"
  using sanitize_chars [of number] sanitize_plus_leads [of number]
    sanitize_clean [OF sanitize_chars sanitize_plus_leads, of number]
  by (intro exI [of _ "sanitize_number number"]) (simp add: build_at_command_def ascii_def)

text \<open>A well-formed +CIEV line is read back as the index and value
  printed in it when the index fits in one octet, and never as an update of another indicator when
  it does not.\<close>

theorem indicator_update_index_bounds:
  assumes "i < 2 ^ 31" and "v < 2 ^ 31"
  shows "parse_ag_result_line (ciev_line i v) =
    Some (if i \<le> 255 then AgIndicatorUpdate (word_of_nat i) (int v) else AgUnknown (ciev_line i v))"
proof -
  have "strip_prefix (lit ''+CIEV:'') (ciev_line i v) = Some (32 # dec_digits i @ 44 # dec_digits v)"
    by (simp add: ciev_line_def)
  moreover have "ciev_line i v \<noteq> []" "ciev_line i v \<noteq> lit ''OK''" "ciev_line i v \<noteq> lit ''ERROR''"
    "ciev_line i v \<noteq> lit ''RING''" "\<not> starts_with (lit ''+CME ERROR'') (ciev_line i v)"
    "strip_prefix (lit ''+BRSF:'') (ciev_line i v) = None"
    "strip_prefix (lit ''+CIND:'') (ciev_line i v) = None"
    by (simp_all add: ciev_line_def starts_with_def)
  moreover have "parse_ciev (32 # dec_digits i @ 44 # dec_digits v) =
      (if i \<le> 255 then Some (AgIndicatorUpdate (word_of_nat i) (int v)) else None)"
    using assms by (simp add: parse_ciev_def parse_number_pair u8_try_from_def)
  ultimately show ?thesis
    by (simp add: parse_ag_result_line_def trim_ciev_line Let_def)
qed

theorem indicator_update_index_bounds_witness:
  "parse_ag_result_line (ciev_line 2 1) = Some (AgIndicatorUpdate 2 1) \<and>
   parse_ag_result_line (ciev_line 258 1) = Some (AgUnknown (ciev_line 258 1))"
  using indicator_update_index_bounds [of 2 1] indicator_update_index_bounds [of 258 1] by simp

end
