(* ===== verification/Hfp_Setup.thy ===== *)
theory Hfp_Setup
  imports Hfp_Calls Hfp_At
begin

text \<open>
  What the two drivers of the service-level connection share: \<open>RfcommState\<close> when the phone opened
  the channel, \<open>HfpClientState\<close> when Aokie did.  Both keep a queue of set-up commands, at most one of
  them in flight, and feed each result first to the call state and then to the queue.  The locale
  \<open>slc_machine\<close> is the contract of such a driver; that a set-up with a co-operative phone
  completes is proved in it once.
\<close>

section \<open>Skipping and refusing set-up commands\<close>

text \<open>The loop of \<open>next_hfp_command_frame\<close>: the first queued command that is not skipped.\<close>

fun pop_slc_command ::
    "HfpHandsFreeState \<Rightarrow> HfpAtCommand list \<Rightarrow> HfpAtCommand option \<times> HfpAtCommand list" where
  "pop_slc_command h [] = (None, [])"
| "pop_slc_command h (command # rest) =
     (if should_skip_slc_command h command then pop_slc_command h rest else (Some command, rest))"

lemma pop_slc_shorter:
  "pop_slc_command h q = (c, rest) \<Longrightarrow>
     (case c of None \<Rightarrow> rest = [] | Some _ \<Rightarrow> length rest < length q)"
  by (induction q arbitrary: c rest) (fastforce split: if_splits option.splits)+

section \<open>What results keep\<close>

lemma mark_command_sent_frame [simp]:
  "hf_service_level_ready (mark_command_sent h c) = hf_service_level_ready h"
  "hf_indicator_definitions_seen (mark_command_sent h c) = hf_indicator_definitions_seen h"
  "hf_indicator_definitions_retry_used (mark_command_sent h c) = hf_indicator_definitions_retry_used h"
  by (cases c; simp add: mark_command_sent_def Let_def)+

lemma set_indicator_definitions_mono:
  "hf_service_level_ready (apply_indicator_definitions h names) = hf_service_level_ready h"
  "hf_indicator_definitions_retry_used (apply_indicator_definitions h names) =
     hf_indicator_definitions_retry_used h"
  "hf_indicator_definitions_seen h \<Longrightarrow> hf_indicator_definitions_seen (apply_indicator_definitions h names)"
proof -
  have "hf_service_level_ready (snd (snd (apply_definitions_from i names a b h))) = hf_service_level_ready h \<and>
      hf_indicator_definitions_retry_used (snd (snd (apply_definitions_from i names a b h))) =
        hf_indicator_definitions_retry_used h \<and>
      hf_indicator_definitions_seen (snd (snd (apply_definitions_from i names a b h))) =
        hf_indicator_definitions_seen h" for i a b
    by (induction names arbitrary: i a b h) (simp_all add: Let_def)
  from this [of 0 False False]
  show "hf_service_level_ready (apply_indicator_definitions h names) = hf_service_level_ready h"
    "hf_indicator_definitions_retry_used (apply_indicator_definitions h names) =
       hf_indicator_definitions_retry_used h"
    "hf_indicator_definitions_seen h \<Longrightarrow> hf_indicator_definitions_seen (apply_indicator_definitions h names)"
    by (simp_all add: apply_indicator_definitions_def case_prod_beta)
qed

text \<open>A result never changes readiness or the one-shot retry, and never forgets the definitions.\<close>

definition slc_frame :: "HfpHandsFreeState \<Rightarrow> HfpHandsFreeState \<Rightarrow> bool" where
  "slc_frame h h' =
     (hf_service_level_ready h' = hf_service_level_ready h \<and>
      hf_indicator_definitions_retry_used h' = hf_indicator_definitions_retry_used h \<and>
      (hf_indicator_definitions_seen h \<longrightarrow> hf_indicator_definitions_seen h'))"

lemma slc_frame_ops:
  "slc_frame h (snd (update_call_state h active))"
  "slc_frame h (snd (update_callsetup h v))"
  "slc_frame h (snd (update_callheld h v))"
  "slc_frame h (snd (second_setup_while_active h))"
  "slc_frame h (snd (snapshot_call h ringing active))"
  by (simp_all add: slc_frame_def hfp_op_defs snapshot_call_def Let_def)

lemma slc_frame_status: "slc_frame h (snd (apply_indicator_status h values))"
proof -
  have "slc_frame h (snd (status_call h values))"
    by (simp add: status_call_def Let_def slc_frame_ops split: option.split) (simp add: slc_frame_def)
  then show ?thesis
    by (simp add: apply_indicator_status_def case_prod_beta status_callsetup_def status_callheld_def
        snapshot_callsetup_def slc_frame_def Let_def split: option.split)
qed

lemma slc_frame_result: "slc_frame h (snd (apply_result h r))"
proof -
  have "slc_frame h (snd (apply_result_to_state h r))"
  proof (cases r)
    case (AgIndicatorUpdate i v)
    then show ?thesis by (simp add: apply_indicator_def slc_frame_ops) (simp add: slc_frame_def)
  next
    case (AgIndicatorStatus vs)
    then show ?thesis by (simp add: slc_frame_status)
  next
    case (AgIndicators names)
    then show ?thesis by (simp add: slc_frame_def set_indicator_definitions_mono)
  next
    case AgRing
    then show ?thesis
      using slc_frame_ops(4) [of "h\<lparr>hf_terminate_pending := False\<rparr>"] by (simp add: slc_frame_def Let_def)
  qed (simp_all add: slc_frame_def)
  then show ?thesis by (simp add: apply_result_def case_prod_beta slc_frame_def)
qed

text \<open>The commands whose refusal the set-up survives.\<close>

definition optional_slc :: "HfpAtCommand \<Rightarrow> bool" where
  "optional_slc c = (case c of
      AvailableCodecs _ \<Rightarrow> True
    | ActivateClip _ \<Rightarrow> True
    | EnableAllIndicatorStatusUpdates _ \<Rightarrow> True
    | DisableNoiseReduction \<Rightarrow> True
    | RetrieveCallHoldSupport \<Rightarrow> True
    | EnableCallWaitingNotifications \<Rightarrow> True
    | _ \<Rightarrow> False)"

lemma note_slc_probe_error_frame:
  "fst (note_slc_probe_error h c) = optional_slc c"
  "slc_frame h (snd (note_slc_probe_error h c))"
  "hf_indicator_definitions_seen (snd (note_slc_probe_error h c)) = hf_indicator_definitions_seen h"
  by (cases c; simp add: note_slc_probe_error_def optional_slc_def slc_frame_def)+

text \<open>Events of the connection itself, as opposed to call events.\<close>

fun slc_event :: "HfpEvent \<Rightarrow> bool" where
  "slc_event ServiceLevelConnectionReady = True"
| "slc_event (ServiceLevelConnectionFailed _ _) = True"
| "slc_event _ = False"

lemma snapshot_call_slc_silent: "filter slc_event (fst (snapshot_call h ringing active)) = []"
  by (simp add: snapshot_call_def Let_def)

lemma update_ops_slc_silent:
  "filter slc_event (fst (update_call_state h active)) = []"
  "filter slc_event (fst (callsetup_ended h)) = []"
  "filter slc_event (fst (callsetup_incoming h)) = []"
  "filter slc_event (fst (callsetup_outgoing h)) = []"
  "filter slc_event (fst (callsetup_alerting h)) = []"
  "filter slc_event (fst (update_callheld h v)) = []"
  by (simp_all add: hfp_op_defs Let_def)

lemma apply_result_slc_silent: "filter slc_event (fst (apply_result h r)) = []"
proof -
  have "filter slc_event (fst (apply_result_to_state h r)) = []"
  proof (cases r)
    case (AgIndicatorUpdate i v)
    then show ?thesis by (simp add: apply_indicator_def update_callsetup_def update_ops_slc_silent)
  next
    case (AgIndicatorStatus vs)
    then show ?thesis
      by (simp add: apply_indicator_status_def status_call_def case_prod_beta
          snapshot_call_slc_silent Let_def split: option.split)
  next
    case (AgSelectedCodec c)
    then show ?thesis by (simp add: codec_event_def)
  next
    case AgRing
    then show ?thesis by (simp add: second_setup_while_active_def Let_def)
  next
    case (AgCallListEntry e)
    then show ?thesis by (simp split: option.split)
  qed simp_all
  then show ?thesis by (simp add: apply_result_events)
qed

section \<open>The contract of a driver\<close>

text \<open>The phone during the set-up: to each command it answers with some information lines and a
  final OK or ERROR.\<close>

fun info_result :: "HfpAgResult \<Rightarrow> bool" where
  "info_result AgOk = False"
| "info_result AgError = False"
| "info_result (AgSelectedCodec _) = False"
| "info_result _ = True"

fun slc_run ::
    "('s \<Rightarrow> HfpAtCommand option) \<Rightarrow> ('s \<Rightarrow> HfpAgResult \<Rightarrow> 's) \<Rightarrow>
     (HfpAtCommand \<Rightarrow> HfpAgResult list \<times> bool) \<Rightarrow> nat \<Rightarrow> 's \<Rightarrow> 's" where
  "slc_run in_flight result phone 0 s = s"
| "slc_run in_flight result phone (Suc n) s =
     (case in_flight s of
        None \<Rightarrow> s
      | Some c \<Rightarrow>
          slc_run in_flight result phone n
            (result (foldl result s (fst (phone c))) (if snd (phone c) then AgOk else AgError)))"

locale slc_machine =
  fixes in_flight :: "'s \<Rightarrow> HfpAtCommand option"
    and busy :: "'s \<Rightarrow> bool"
    and ready :: "'s \<Rightarrow> bool"
    and left :: "'s \<Rightarrow> nat"
    and slc_log :: "'s \<Rightarrow> HfpEvent list"
    and result :: "'s \<Rightarrow> HfpAgResult \<Rightarrow> 's"
  assumes busy_in_flight: "busy s \<Longrightarrow> \<exists>c. in_flight s = Some c"
    and info_keeps:
      "info_result r \<Longrightarrow> busy s \<Longrightarrow>
         busy (result s r) \<and> left (result s r) \<le> left s \<and> in_flight (result s r) = in_flight s \<and>
         slc_log (result s r) = slc_log s"
    and final_advances:
      "busy s \<Longrightarrow> in_flight s = Some c \<Longrightarrow> ok \<or> optional_slc c \<Longrightarrow>
         (let s' = result s (if ok then AgOk else AgError) in
          busy s' \<and> left s' < left s \<and> slc_log s' = slc_log s \<or>
          ready s' \<and> in_flight s' = None \<and> slc_log s' = slc_log s @ [ServiceLevelConnectionReady])"
begin

lemma info_steps:
  assumes "list_all info_result rs" "busy s"
  shows "busy (foldl result s rs) \<and> left (foldl result s rs) \<le> left s \<and>
    in_flight (foldl result s rs) = in_flight s \<and> slc_log (foldl result s rs) = slc_log s"
  using assms
proof (induction rs arbitrary: s)
  case (Cons r rs)
  then have r: "info_result r" "list_all info_result rs" by simp_all
  from Cons.IH [OF r(2), of "result s r"] info_keeps [OF r(1) Cons.prems(2)] show ?case by fastforce
qed simp

text \<open>A phone that answers every command and refuses at most the optional ones.\<close>

lemma run_completes:
  assumes "busy s" "left s < n" "\<And>c. list_all info_result (fst (phone c))"
    "\<And>c. snd (phone c) \<or> optional_slc c"
  shows "ready (slc_run in_flight result phone n s) \<and>
    slc_log (slc_run in_flight result phone n s) = slc_log s @ [ServiceLevelConnectionReady]"
  using assms(1,2)
proof (induction n arbitrary: s)
  case (Suc n)
  from busy_in_flight [OF Suc.prems(1)] obtain c where c: "in_flight s = Some c" by blast
  define t where "t = foldl result s (fst (phone c))"
  define u where "u = result t (if snd (phone c) then AgOk else AgError)"
  note t = info_steps [OF assms(3) [of c] Suc.prems(1), folded t_def]
  have run: "slc_run in_flight result phone (Suc n) s = slc_run in_flight result phone n u"
    by (simp add: c t_def u_def)
  from final_advances [of t c "snd (phone c)"] t c assms(4)
  consider (busy) "busy u" "left u < left t" "slc_log u = slc_log t"
    | (ready) "ready u" "in_flight u = None" "slc_log u = slc_log t @ [ServiceLevelConnectionReady]"
    by (auto simp: u_def Let_def)
  then show ?case
  proof cases
    case busy
    then have "left u < n" using t Suc.prems(2) by linarith
    from Suc.IH [OF busy(1) this] busy t show ?thesis unfolding run by simp
  next
    case ready
    then have "slc_run in_flight result phone n u = u" by (cases n) simp_all
    with ready t show ?thesis unfolding run by simp
  qed
qed simp

end

end
