(* ===== verification/Rfcomm_Server.thy ===== *)
theory Rfcomm_Server
  imports Rfcomm_Client Hfp_Setup
begin

text \<open>
  \<open>RfcommState\<close> of \<open>aokie_radio/rfcomm.rs\<close>: the RFCOMM session the phone opens.  It answers the
  multiplexer, runs the hands-free service-level connection (the queue of set-up commands, the
  command in flight, its stall timer and the refusals after it), routes further server channels
  to registered handlers and carries outbound DLCIs on the phone's multiplexer.

  A registered handler is a closure over state of its own: it is a function of an abstract
  world \<open>'w\<close> that is threaded through the steps.  \<open>Instant::now()\<close> is the argument \<open>now\<close>, read
  once per packet.  A step returns the frames or an error, and the state: the packet is parsed
  before anything is touched, so a parse error leaves the state as it was.
\<close>

section \<open>State\<close>

datatype server_error =
    BadFrame rfcomm_error
  | BadUtf8
  | HandlerRefused string

record 'w ServerChannelHandlers =
  on_sabm :: "'w \<Rightarrow> bytes list \<times> 'w"
  on_disc :: "'w \<Rightarrow> bytes \<times> 'w"
  on_uih :: "bytes \<Rightarrow> 'w \<Rightarrow> (server_error + bytes list) \<times> 'w"

datatype RfcommChannelState = ChannelClosed | ChannelOpen

record ClientDlci =
  cd_phase :: ClientDlciPhase
  cd_msc_local_pending :: bool
  cd_msc_remote_received :: bool

record 'w RfcommState =
  sv_multiplexer_open :: bool
  sv_hfp_channel_state :: RfcommChannelState
  sv_hfp_dlci :: u8
  sv_max_frame_size :: u16
  sv_hfp_state :: HfpHandsFreeState
  sv_hfp_line_carry :: rstr
  sv_hfp_pending_commands :: "HfpAtCommand list"
  sv_hfp_in_flight_command :: "HfpAtCommand option"
  sv_hfp_in_flight_command_sent_at :: "instant option"
  sv_hfp_slc_failed :: bool
  sv_hfp_outstanding :: outstanding
  sv_hfp_events :: "HfpEvent list"
  sv_msc_local_pending :: bool
  sv_msc_remote_received :: bool
  sv_msc_at_kicked :: bool
  sv_extra_channel_handlers :: "u8 \<rightharpoonup> 'w ServerChannelHandlers"
  sv_client_dlcis :: "u8 \<rightharpoonup> ClientDlci"
  sv_client_events :: "ClientDlciEvent list"
  sv_wbs_supported :: bool

abbreviation (input) AOKIE_RFCOMM_CHANNEL :: u8 where "AOKIE_RFCOMM_CHANNEL \<equiv> 1"

definition aokie_hfp_dlci :: u8 where
  "aokie_hfp_dlci = server_channel_dlci AOKIE_RFCOMM_CHANNEL False"

definition server_new :: "'w RfcommState" where
  "server_new =
     \<lparr>sv_multiplexer_open = False, sv_hfp_channel_state = ChannelClosed,
      sv_hfp_dlci = aokie_hfp_dlci, sv_max_frame_size = RFCOMM_DEFAULT_MAX_FRAME_SIZE,
      sv_hfp_state = hfp_new, sv_hfp_line_carry = [], sv_hfp_pending_commands = [],
      sv_hfp_in_flight_command = None, sv_hfp_in_flight_command_sent_at = None,
      sv_hfp_slc_failed = False, sv_hfp_outstanding = [], sv_hfp_events = [],
      sv_msc_local_pending = False, sv_msc_remote_received = False, sv_msc_at_kicked = False,
      sv_extra_channel_handlers = Map.empty, sv_client_dlcis = Map.empty,
      sv_client_events = [], sv_wbs_supported = False\<rparr>"

section \<open>Settings, queries and outbound operations\<close>

definition server_set_wbs_supported :: "bool \<Rightarrow> 'w RfcommState \<Rightarrow> 'w RfcommState" where
  "server_set_wbs_supported b s =
     s\<lparr>sv_wbs_supported := b, sv_hfp_state := set_wbs_supported b (sv_hfp_state s)\<rparr>"

definition server_set_call_waiting_enabled :: "bool \<Rightarrow> 'w RfcommState \<Rightarrow> 'w RfcommState" where
  "server_set_call_waiting_enabled b s =
     s\<lparr>sv_hfp_state := set_call_waiting_enabled b (sv_hfp_state s)\<rparr>"

definition server_attach_client_dlci ::
    "'w RfcommState \<Rightarrow> u8 \<Rightarrow> mux_error + (u8 \<times> bytes) \<times> 'w RfcommState" where
  "server_attach_client_dlci s server_channel =
     (if \<not> sv_multiplexer_open s then Inl MuxNotOpen else
      let target = server_channel_dlci server_channel True in
      if sv_client_dlcis s target \<noteq> None \<or> target = sv_hfp_dlci s \<or>
         sv_extra_channel_handlers s target \<noteq> None
      then Inl (DlciInUse target) else
      let s' = s\<lparr>sv_client_dlcis := (sv_client_dlcis s)(target \<mapsto>
                   \<lparr>cd_phase = AwaitingPnRsp, cd_msc_local_pending = False,
                    cd_msc_remote_received = False\<rparr>)\<rparr>;
          pn = build_parameter_negotiation_command_cfc target 7 (sv_max_frame_size s) 7
      in Inr ((target, build_uih RFCOMM_DLCI_MULTIPLEXER False None pn), s'))"

definition server_take_client_events :: "'w RfcommState \<Rightarrow> ClientDlciEvent list \<times> 'w RfcommState" where
  "server_take_client_events s = (sv_client_events s, s\<lparr>sv_client_events := []\<rparr>)"

definition server_take_client_events_for_dlci ::
    "'w RfcommState \<Rightarrow> u8 \<Rightarrow> ClientDlciEvent list \<times> 'w RfcommState" where
  "server_take_client_events_for_dlci s d =
     (let (taken, remaining) = split_events d (sv_client_events s) [] []
      in (taken, s\<lparr>sv_client_events := remaining\<rparr>))"

text \<open>The any over the values of the map: the DLCIs are octets, so the search is finite.\<close>

definition all_dlcis :: "u8 list" where
  "all_dlcis = map word_of_nat [0..<256]"

definition has_active_client_dlci :: "'w RfcommState \<Rightarrow> bool" where
  "has_active_client_dlci s =
     list_ex (\<lambda>d. case sv_client_dlcis s d of
                    None \<Rightarrow> False
                  | Some c \<Rightarrow> (case cd_phase c of DlciFailed _ \<Rightarrow> False | _ \<Rightarrow> True)) all_dlcis"

definition server_build_uih_on_client_dlci ::
    "'w RfcommState \<Rightarrow> u8 \<Rightarrow> bytes \<Rightarrow> mux_error + bytes" where
  "server_build_uih_on_client_dlci s d p =
     (case sv_client_dlcis s d of
        None \<Rightarrow> Inl (DlciNotTracked d)
      | Some c \<Rightarrow>
          if cd_phase c \<noteq> DlciOpen then Inl (DlciNotOpen d (cd_phase c))
          else Inr (build_uih d False None p))"

definition build_disc_for_client_dlci ::
    "'w RfcommState \<Rightarrow> u8 \<Rightarrow> (mux_error + bytes) \<times> 'w RfcommState" where
  "build_disc_for_client_dlci s d =
     (if sv_client_dlcis s d = None then (Inl (DlciNotTracked d), s)
      else (Inr (build_disc d False), s\<lparr>sv_client_dlcis := (sv_client_dlcis s)(d := None)\<rparr>))"

definition build_force_disc_dlci :: "'w RfcommState \<Rightarrow> u8 \<Rightarrow> bytes \<times> 'w RfcommState" where
  "build_force_disc_dlci s d =
     (build_disc d False, s\<lparr>sv_client_dlcis := (sv_client_dlcis s)(d := None)\<rparr>)"

definition register_server_channel ::
    "'w RfcommState \<Rightarrow> u8 \<Rightarrow> 'w ServerChannelHandlers \<Rightarrow> 'w RfcommState" where
  "register_server_channel s server_channel handlers =
     s\<lparr>sv_extra_channel_handlers := (sv_extra_channel_handlers s)
         (server_channel_dlci server_channel False \<mapsto> handlers)\<rparr>"

definition take_hfp_events :: "'w RfcommState \<Rightarrow> HfpEvent list \<times> 'w RfcommState" where
  "take_hfp_events s = (sv_hfp_events s, s\<lparr>sv_hfp_events := []\<rparr>)"

section \<open>The service-level connection\<close>

definition build_hfp_command_frame ::
    "instant \<Rightarrow> 'w RfcommState \<Rightarrow> HfpAtCommand \<Rightarrow> bytes \<times> 'w RfcommState" where
  "build_hfp_command_frame now s command =
     (let s1 = s\<lparr>sv_hfp_state := mark_command_sent (sv_hfp_state s) command\<rparr>;
          s2 = (if hf_service_level_ready (sv_hfp_state s1)
                then s1\<lparr>sv_hfp_outstanding := outstanding_sent (sv_hfp_outstanding s1) command now\<rparr>
                else s1)
      in (build_uih (sv_hfp_dlci s2) True None (build_at_command command), s2))"

definition build_call_control_command ::
    "instant \<Rightarrow> 'w RfcommState \<Rightarrow> HfpAtCommand \<Rightarrow> bytes option \<times> 'w RfcommState" where
  "build_call_control_command now s command =
     (if sv_hfp_channel_state s \<noteq> ChannelOpen then (None, s)
      else let (frame, s') = build_hfp_command_frame now s command in (Some frame, s'))"

definition next_hfp_command_frame ::
    "instant \<Rightarrow> 'w RfcommState \<Rightarrow> bytes option \<times> 'w RfcommState" where
  "next_hfp_command_frame now s =
     (let (c, rest) = pop_slc_command (sv_hfp_state s) (sv_hfp_pending_commands s);
          s1 = s\<lparr>sv_hfp_pending_commands := rest\<rparr> in
      case c of
        None \<Rightarrow> (None, s1)
      | Some command \<Rightarrow>
          let (frame, s2) = build_hfp_command_frame now s1 command
          in (Some frame, s2\<lparr>sv_hfp_in_flight_command := Some command,
                             sv_hfp_in_flight_command_sent_at := Some now\<rparr>))"

definition mark_hfp_service_ready :: "'w RfcommState \<Rightarrow> 'w RfcommState" where
  "mark_hfp_service_ready s =
     (let (ev, h) = mark_service_level_ready (sv_hfp_state s);
          s1 = s\<lparr>sv_hfp_state := h\<rparr>
      in case ev of None \<Rightarrow> s1 | Some e \<Rightarrow> s1\<lparr>sv_hfp_events := sv_hfp_events s1 @ [e]\<rparr>)"

definition advance_hfp_slc_queue :: "instant \<Rightarrow> 'w RfcommState \<Rightarrow> bytes list \<times> 'w RfcommState" where
  "advance_hfp_slc_queue now s =
     (case next_hfp_command_frame now s of
        (Some frame, s1) \<Rightarrow> ([frame], s1)
      | (None, s1) \<Rightarrow>
          let (again, h) = (if sv_hfp_pending_commands s1 = []
                            then needs_indicator_definitions_retry (sv_hfp_state s1)
                            else (False, sv_hfp_state s1));
              s2 = s1\<lparr>sv_hfp_state := h\<rparr> in
          if again then
            (case next_hfp_command_frame now
                    (s2\<lparr>sv_hfp_pending_commands :=
                        sv_hfp_pending_commands s2 @ [RetrieveIndicators, RetrieveIndicatorStatus]\<rparr>) of
               (Some frame, s3) \<Rightarrow> ([frame], s3)
             | (None, s3) \<Rightarrow> ([], s3))
          else ([], mark_hfp_service_ready s2))"

text \<open>The arms of the result loop.  A final result once the connection is up answers the oldest
  outstanding command; before that it drives the queue.\<close>

definition on_ready_error :: "instant \<Rightarrow> 'w RfcommState \<Rightarrow> bytes list \<times> 'w RfcommState" where
  "on_ready_error now s =
     (let (name, q) =
        (case sv_hfp_in_flight_command s of
           Some c \<Rightarrow> (at_command_name c, sv_hfp_outstanding s)
         | None \<Rightarrow>
             (case outstanding_answered (sv_hfp_outstanding s) of
                (Some n, q) \<Rightarrow> (n, q)
              | (None, q) \<Rightarrow> (''unsolicited'', q)));
          s1 = s\<lparr>sv_hfp_in_flight_command := None, sv_hfp_outstanding := q,
                 sv_hfp_in_flight_command_sent_at := None\<rparr>;
          (again, h) = after_refusal (sv_hfp_state s1) name;
          s2 = s1\<lparr>sv_hfp_state := h\<rparr> in
      case again of
        Some command \<Rightarrow>
          (let (frame, s3) = build_hfp_command_frame now s2 command in ([frame], s3))
      | None \<Rightarrow> ([], s2\<lparr>sv_hfp_events := sv_hfp_events s2 @ [CommandRejected name False]\<rparr>))"

definition on_slc_ok :: "instant \<Rightarrow> 'w RfcommState \<Rightarrow> bytes list \<times> 'w RfcommState" where
  "on_slc_ok now s =
     (let s1 = (if sv_hfp_in_flight_command s = Some EnableCallWaitingNotifications
                then s\<lparr>sv_hfp_state := note_ccwa_accepted (sv_hfp_state s)\<rparr> else s);
          s2 = s1\<lparr>sv_hfp_in_flight_command := None, sv_hfp_in_flight_command_sent_at := None\<rparr>
      in if \<not> sv_hfp_slc_failed s2 then advance_hfp_slc_queue now s2 else ([], s2))"

definition on_slc_error :: "instant \<Rightarrow> 'w RfcommState \<Rightarrow> bytes list \<times> 'w RfcommState" where
  "on_slc_error now s =
     (let failed_command = sv_hfp_in_flight_command s;
          s1 = s\<lparr>sv_hfp_in_flight_command := None, sv_hfp_in_flight_command_sent_at := None\<rparr>;
          (capability_probe, h) =
            (case failed_command of
               None \<Rightarrow> (False, sv_hfp_state s1)
             | Some c \<Rightarrow> note_slc_probe_error (sv_hfp_state s1) c);
          s2 = s1\<lparr>sv_hfp_state := h\<rparr> in
      if capability_probe then
        (if \<not> sv_hfp_slc_failed s2 then advance_hfp_slc_queue now s2 else ([], s2))
      else
        let s3 = (if \<not> hf_service_level_ready (sv_hfp_state s2)
                  then s2\<lparr>sv_hfp_pending_commands := [], sv_hfp_slc_failed := True\<rparr> else s2);
            label = (case failed_command of None \<Rightarrow> ''unsolicited'' | Some c \<Rightarrow> at_command_name c)
        in ([], s3\<lparr>sv_hfp_events := sv_hfp_events s3 @ [ServiceLevelConnectionFailed label None]\<rparr>))"

definition on_selected_codec ::
    "instant \<Rightarrow> 'w RfcommState \<Rightarrow> u8 \<Rightarrow> bytes list \<times> 'w RfcommState" where
  "on_selected_codec now s codec =
     (let reply = (if codec_offered (sv_hfp_state s) codec then ConfirmCodec codec
                   else AvailableCodecs (sv_wbs_supported s));
          (frame, s') = build_hfp_command_frame now s reply
      in ([frame], s'))"

definition hfp_result_step ::
    "instant \<Rightarrow> 'w RfcommState \<Rightarrow> HfpAgResult \<Rightarrow> bytes list \<times> 'w RfcommState" where
  "hfp_result_step now s0 result =
     (let (events, h) = apply_result (sv_hfp_state s0) result;
          s = s0\<lparr>sv_hfp_state := h, sv_hfp_events := sv_hfp_events s0 @ events\<rparr>;
          ready = hf_service_level_ready (sv_hfp_state s) in
      case result of
        AgOk \<Rightarrow>
          if sv_hfp_in_flight_command s = None \<and> ready
          then ([], s\<lparr>sv_hfp_outstanding := snd (outstanding_answered (sv_hfp_outstanding s))\<rparr>)
          else on_slc_ok now s
      | AgError \<Rightarrow> if ready then on_ready_error now s else on_slc_error now s
      | AgSelectedCodec codec \<Rightarrow> on_selected_codec now s codec
      | _ \<Rightarrow> ([], s))"

fun hfp_result_steps ::
    "instant \<Rightarrow> 'w RfcommState \<Rightarrow> HfpAgResult list \<Rightarrow> bytes list \<times> 'w RfcommState" where
  "hfp_result_steps now s [] = ([], s)"
| "hfp_result_steps now s (r # rs) =
     (let (out, s1) = hfp_result_step now s r; (out', s2) = hfp_result_steps now s1 rs
      in (out @ out', s2))"

definition handle_hfp_payload ::
    "instant \<Rightarrow> 'w RfcommState \<Rightarrow> bytes \<Rightarrow> (server_error + bytes list) \<times> 'w RfcommState" where
  "handle_hfp_payload now s payload =
     (if sv_hfp_channel_state s \<noteq> ChannelOpen then (Inr [], s)
      else case parse_ag_results_buffered (sv_hfp_line_carry s) payload of
        (None, carry) \<Rightarrow> (Inl BadUtf8, s\<lparr>sv_hfp_line_carry := carry\<rparr>)
      | (Some results, carry) \<Rightarrow>
          let (out, s') = hfp_result_steps now (s\<lparr>sv_hfp_line_carry := carry\<rparr>) results
          in (Inr out, s'))"

definition tick_hfp_stall :: "instant \<Rightarrow> duration \<Rightarrow> 'w RfcommState \<Rightarrow> bool \<times> 'w RfcommState" where
  "tick_hfp_stall now timeout s =
     (if hf_service_level_ready (sv_hfp_state s) \<and> sv_hfp_in_flight_command_sent_at s = None then
        (case outstanding_timed_out (sv_hfp_outstanding s) now timeout of
           (None, q) \<Rightarrow> (False, s)
         | (Some name, q) \<Rightarrow>
             (True, s\<lparr>sv_hfp_outstanding := q,
                      sv_hfp_events := sv_hfp_events s @ [CommandRejected name True]\<rparr>))
      else case sv_hfp_in_flight_command_sent_at s of
        None \<Rightarrow> (False, s)
      | Some sent_at \<Rightarrow>
          if now - sent_at < timeout then (False, s)
          else
            let stalled = (case sv_hfp_in_flight_command s of
                             None \<Rightarrow> ''(unknown)'' | Some c \<Rightarrow> at_command_name c);
                s1 = s\<lparr>sv_hfp_in_flight_command := None,
                       sv_hfp_in_flight_command_sent_at := None\<rparr>;
                s2 = (if \<not> hf_service_level_ready (sv_hfp_state s1)
                      then s1\<lparr>sv_hfp_pending_commands := [], sv_hfp_slc_failed := True\<rparr> else s1)
            in (True, s2\<lparr>sv_hfp_events := sv_hfp_events s2 @
                           [ServiceLevelConnectionFailed stalled (Some timeout)]\<rparr>))"

section \<open>Inbound frames\<close>

definition on_client_target_ua :: "'w RfcommState \<Rightarrow> u8 \<Rightarrow> bytes list \<times> 'w RfcommState" where
  "on_client_target_ua s d =
     (case sv_client_dlcis s d of
        None \<Rightarrow> ([], s)
      | Some c \<Rightarrow>
          if cd_phase c \<noteq> AwaitingTargetUa then ([], s) else
          ([build_uih RFCOMM_DLCI_MULTIPLEXER False None
              (build_modem_status_command d RFCOMM_LOCAL_MODEM_STATUS)],
           s\<lparr>sv_client_dlcis := (sv_client_dlcis s)(d \<mapsto>
               c\<lparr>cd_phase := AwaitingMscExchange, cd_msc_local_pending := True,
                 cd_msc_remote_received := False\<rparr>)\<rparr>))"

definition fail_client_dlci :: "'w RfcommState \<Rightarrow> u8 \<Rightarrow> dlci_reason \<Rightarrow> 'w RfcommState" where
  "fail_client_dlci s d reason =
     (let s1 = (case sv_client_dlcis s d of
                  None \<Rightarrow> s
                | Some c \<Rightarrow> s\<lparr>sv_client_dlcis := (sv_client_dlcis s)(d \<mapsto>
                              c\<lparr>cd_phase := DlciFailed reason\<rparr>)\<rparr>)
      in s1\<lparr>sv_client_events := sv_client_events s1 @ [DlciFailedEvent d reason]\<rparr>)"

definition maybe_open_client_dlci :: "'w RfcommState \<Rightarrow> u8 \<Rightarrow> 'w RfcommState" where
  "maybe_open_client_dlci s d =
     (case sv_client_dlcis s d of
        None \<Rightarrow> s
      | Some c \<Rightarrow>
          if cd_phase c = AwaitingMscExchange \<and> \<not> cd_msc_local_pending c \<and> cd_msc_remote_received c
          then s\<lparr>sv_client_dlcis := (sv_client_dlcis s)(d \<mapsto> c\<lparr>cd_phase := DlciOpen\<rparr>),
                 sv_client_events := sv_client_events s @ [DlciOpened d]\<rparr>
          else s)"

definition handle_sabm :: "'w RfcommState \<Rightarrow> u8 \<Rightarrow> 'w \<Rightarrow> bytes list \<times> 'w RfcommState \<times> 'w" where
  "handle_sabm s d w =
     (if d = RFCOMM_DLCI_MULTIPLEXER then ([build_ua d True], s\<lparr>sv_multiplexer_open := True\<rparr>, w)
      else case (if sv_multiplexer_open s then sv_extra_channel_handlers s d else None) of
        Some handlers \<Rightarrow> (let (out, w') = on_sabm handlers w in (out, s, w'))
      | None \<Rightarrow>
          if sv_multiplexer_open s \<and> d = sv_hfp_dlci s then
            ([build_ua d True,
              build_uih RFCOMM_DLCI_MULTIPLEXER False None
                (build_modem_status_command d RFCOMM_LOCAL_MODEM_STATUS)],
             s\<lparr>sv_hfp_channel_state := ChannelOpen, sv_hfp_slc_failed := False,
               sv_hfp_in_flight_command := None, sv_msc_local_pending := True,
               sv_msc_remote_received := False, sv_msc_at_kicked := False,
               sv_hfp_pending_commands := initial_service_level_commands (sv_wbs_supported s)
                 (hf_call_waiting_enabled (sv_hfp_state s))\<rparr>, w)
          else ([build_dm d True], s, w))"

definition maybe_kick_at_sequence :: "instant \<Rightarrow> 'w RfcommState \<Rightarrow> bytes list \<times> 'w RfcommState" where
  "maybe_kick_at_sequence now s =
     (if sv_msc_at_kicked s \<or> sv_msc_local_pending s \<or> \<not> sv_msc_remote_received s \<or>
         sv_hfp_channel_state s \<noteq> ChannelOpen
      then ([], s)
      else case next_hfp_command_frame now (s\<lparr>sv_msc_at_kicked := True\<rparr>) of
             (Some command, s') \<Rightarrow> ([command], s')
           | (None, s') \<Rightarrow> ([], s'))"

definition handle_disc :: "'w RfcommState \<Rightarrow> u8 \<Rightarrow> 'w \<Rightarrow> bytes \<times> 'w RfcommState \<times> 'w" where
  "handle_disc s d w =
     (if d = RFCOMM_DLCI_MULTIPLEXER then
        (build_ua d True, s\<lparr>sv_multiplexer_open := False, sv_hfp_channel_state := ChannelClosed\<rparr>, w)
      else if d = sv_hfp_dlci s then (build_ua d True, s\<lparr>sv_hfp_channel_state := ChannelClosed\<rparr>, w)
      else case sv_extra_channel_handlers s d of
        Some handlers \<Rightarrow> (let (out, w') = on_disc handlers w in (out, s, w'))
      | None \<Rightarrow> (build_ua d True, s, w))"

text \<open>The match of \<open>handle_multiplexer_payload\<close>: the frames pushed before the response, the
  response payload, and the state.\<close>

definition mux_parameter_negotiation ::
    "'w RfcommState \<Rightarrow> bool \<Rightarrow> u8 \<Rightarrow> u8 \<Rightarrow> u16 \<Rightarrow> u8 \<Rightarrow> bytes list \<times> bytes option \<times> 'w RfcommState" where
  "mux_parameter_negotiation s is_response d priority max_frame_size creds =
     (if is_response then
        (case sv_client_dlcis s d of
           None \<Rightarrow> ([], None, s)
         | Some c \<Rightarrow>
             if cd_phase c = AwaitingPnRsp then
               ([build_sabm d False], None,
                s\<lparr>sv_max_frame_size := clamp_frame_size max_frame_size,
                  sv_client_dlcis := (sv_client_dlcis s)(d \<mapsto> c\<lparr>cd_phase := AwaitingTargetUa\<rparr>)\<rparr>)
             else ([], None, s))
      else if d \<noteq> sv_hfp_dlci s \<and> sv_extra_channel_handlers s d = None then
        ([], Some (build_nsc_response RFCOMM_MUX_PN_CMD), s)
      else
        ([], Some (build_parameter_negotiation_response d priority
                     (clamp_frame_size max_frame_size) creds),
         s\<lparr>sv_max_frame_size := clamp_frame_size max_frame_size\<rparr>))"

definition mux_modem_status ::
    "'w RfcommState \<Rightarrow> bool \<Rightarrow> u8 \<Rightarrow> u8 \<Rightarrow> bytes option \<times> 'w RfcommState" where
  "mux_modem_status s is_response d signals =
     (if is_response then
        (if d = sv_hfp_dlci s then (None, s\<lparr>sv_msc_local_pending := False\<rparr>)
         else (case sv_client_dlcis s d of
                 None \<Rightarrow> (None, s)
               | Some c \<Rightarrow>
                   (None, maybe_open_client_dlci
                      (s\<lparr>sv_client_dlcis := (sv_client_dlcis s)(d \<mapsto>
                          c\<lparr>cd_msc_local_pending := False\<rparr>)\<rparr>) d)))
      else if d = sv_hfp_dlci s then
        (Some (build_modem_status_response d signals), s\<lparr>sv_msc_remote_received := True\<rparr>)
      else case sv_client_dlcis s d of
        Some c \<Rightarrow>
          (Some (build_modem_status_response d signals),
           maybe_open_client_dlci
             (s\<lparr>sv_client_dlcis := (sv_client_dlcis s)(d \<mapsto> c\<lparr>cd_msc_remote_received := True\<rparr>)\<rparr>) d)
      | None \<Rightarrow>
          if sv_extra_channel_handlers s d \<noteq> None
          then (Some (build_modem_status_response d signals), s)
          else (Some (build_nsc_response RFCOMM_MUX_MSC_CMD), s))"

definition mux_command ::
    "'w RfcommState \<Rightarrow> RfcommMuxCommand \<Rightarrow> bytes list \<times> bytes option \<times> 'w RfcommState" where
  "mux_command s command = (case command of
     ParameterNegotiation is_response d frame_type priority max_frame_size creds \<Rightarrow>
       mux_parameter_negotiation s is_response d priority max_frame_size creds
   | ModemStatus is_response d signals \<Rightarrow>
       (let (response, s') = mux_modem_status s is_response d signals in ([], response, s'))
   | FlowControlOn \<Rightarrow> ([], Some (build_empty_multiplexer_response RFCOMM_MUX_FCON_RSP), s)
   | FlowControlOff \<Rightarrow> ([], Some (build_empty_multiplexer_response RFCOMM_MUX_FCOFF_RSP), s)
   | UnknownMux command_type _ \<Rightarrow> ([], Some (build_nsc_response command_type), s))"

definition handle_multiplexer_payload ::
    "instant \<Rightarrow> 'w RfcommState \<Rightarrow> bytes \<Rightarrow> (server_error + bytes list) \<times> 'w RfcommState" where
  "handle_multiplexer_payload now s payload =
     (if \<not> sv_multiplexer_open s then (Inr [], s)
      else case parse_multiplexer_command payload of
        Inl e \<Rightarrow> (Inl (BadFrame e), s)
      | Inr command \<Rightarrow>
          let (out, response, s1) = mux_command s command;
              reply = (case response of None \<Rightarrow> []
                       | Some p \<Rightarrow> [build_uih RFCOMM_DLCI_MULTIPLEXER False None p]);
              (kick, s2) = maybe_kick_at_sequence now s1
          in (Inr (out @ reply @ kick), s2))"

definition server_handle_frame ::
    "instant \<Rightarrow> 'w RfcommState \<Rightarrow> rfcomm_frame \<Rightarrow> 'w \<Rightarrow>
     (server_error + bytes list) \<times> 'w RfcommState \<times> 'w" where
  "server_handle_frame now s f w =
     (let d = fr_dlci f; tracked = (sv_client_dlcis s d \<noteq> None) in
      case fr_kind f of
        Sabm \<Rightarrow> (let (out, s', w') = handle_sabm s d w in (Inr out, s', w'))
      | Ua \<Rightarrow>
          if tracked then (let (out, s') = on_client_target_ua s d in (Inr out, s', w))
          else (Inr [], s, w)
      | Dm \<Rightarrow> if tracked then (Inr [], fail_client_dlci s d (PeerSentDm d), w) else (Inr [], s, w)
      | Disc \<Rightarrow> (let (out, s', w') = handle_disc s d w in (Inr [out], s', w'))
      | Uih \<Rightarrow>
          if d = RFCOMM_DLCI_MULTIPLEXER then
            (let (r, s') = handle_multiplexer_payload now s (fr_payload f) in (r, s', w))
          else if d = sv_hfp_dlci s then
            (let (r, s') = handle_hfp_payload now s (fr_payload f) in (r, s', w))
          else if tracked then
            (Inr [], s\<lparr>sv_client_events := sv_client_events s @ [DlciPayload d (fr_payload f)]\<rparr>, w)
          else (case sv_extra_channel_handlers s d of
                  Some handlers \<Rightarrow>
                    (let (r, w') = on_uih handlers (fr_payload f) w in (r, s, w'))
                | None \<Rightarrow> (Inr [], s, w))
      | Unknown _ \<Rightarrow> (Inr [], s, w))"

definition server_handle_packet ::
    "instant \<Rightarrow> 'w RfcommState \<Rightarrow> bytes \<Rightarrow> 'w \<Rightarrow>
     (server_error + bytes list) \<times> 'w RfcommState \<times> 'w" where
  "server_handle_packet now s packet w =
     (case parse_frame packet of
        Inl e \<Rightarrow> (Inl (BadFrame e), s, w)
      | Inr f \<Rightarrow> server_handle_frame now s f w)"

end
