(* ===== verification/Rfcomm_Slc.thy ===== *)
theory Rfcomm_Slc
  imports Rfcomm_Server
begin

text \<open>
  What the phone-opened RFCOMM session of theory \<open>Rfcomm_Server\<close> guarantees: the shared
  multiplexer contract, the start of the service-level connection after the modem-status
  exchange, its completion whatever optional commands the phone refuses, and that nothing after
  it fails the connection; and three ways a reopened or disconnected channel is left behind.
\<close>

section \<open>The shared multiplexer contract\<close>

definition server_dlci_phase :: "'w RfcommState \<Rightarrow> u8 \<Rightarrow> ClientDlciPhase option" where
  "server_dlci_phase s d = map_option cd_phase (sv_client_dlcis s d)"

definition server_reserved :: "'w RfcommState \<Rightarrow> u8 \<Rightarrow> bool" where
  "server_reserved s d = (d = sv_hfp_dlci s \<or> sv_extra_channel_handlers s d \<noteq> None)"

definition server_uih_on :: "'w RfcommState \<Rightarrow> u8 \<Rightarrow> bytes \<Rightarrow> mux_error + bytes \<times> 'w RfcommState" where
  "server_uih_on s d p = map_sum id (\<lambda>f. (f, s)) (server_build_uih_on_client_dlci s d p)"

interpretation server_mux: dlci_mux server_dlci_phase sv_client_events sv_multiplexer_open
  server_reserved server_attach_client_dlci server_take_client_events_for_dlci server_uih_on
  build_force_disc_dlci
proof (unfold_locales, goal_cases)
  case (1 s ch)
  then show ?case
    by (auto simp: server_attach_client_dlci_def server_dlci_phase_def server_reserved_def Let_def)
next
  case (2 s ch d fr s')
  then show ?case
    by (auto simp: server_attach_client_dlci_def server_dlci_phase_def Let_def fun_eq_iff
        split: if_splits)
next
  case (3 s d evs s')
  then show ?case
    by (auto simp: server_take_client_events_for_dlci_def split_events_filter server_dlci_phase_def
        fun_eq_iff)
next
  case (4 s d p)
  then show ?case
    by (auto simp: server_uih_on_def server_build_uih_on_client_dlci_def server_dlci_phase_def
        split: option.splits)
next
  case (5 s d p fr s')
  then show ?case
    by (auto simp: server_uih_on_def server_build_uih_on_client_dlci_def split: option.splits if_splits)
next
  case (6 s d fr s')
  then show ?case
    by (auto simp: build_force_disc_dlci_def server_dlci_phase_def server_reserved_def fun_eq_iff)
qed

section \<open>Frames of the service-level operations\<close>

text \<open>What the operations of the connection keep.\<close>

lemma build_hfp_command_frame_keeps [simp]:
  "hf_service_level_ready (sv_hfp_state (snd (build_hfp_command_frame now s c))) =
     hf_service_level_ready (sv_hfp_state s)"
  "hf_indicator_definitions_seen (sv_hfp_state (snd (build_hfp_command_frame now s c))) =
     hf_indicator_definitions_seen (sv_hfp_state s)"
  "hf_indicator_definitions_retry_used (sv_hfp_state (snd (build_hfp_command_frame now s c))) =
     hf_indicator_definitions_retry_used (sv_hfp_state s)"
  "sv_hfp_pending_commands (snd (build_hfp_command_frame now s c)) = sv_hfp_pending_commands s"
  "sv_hfp_in_flight_command (snd (build_hfp_command_frame now s c)) = sv_hfp_in_flight_command s"
  "sv_hfp_in_flight_command_sent_at (snd (build_hfp_command_frame now s c)) =
     sv_hfp_in_flight_command_sent_at s"
  "sv_hfp_slc_failed (snd (build_hfp_command_frame now s c)) = sv_hfp_slc_failed s"
  "sv_hfp_events (snd (build_hfp_command_frame now s c)) = sv_hfp_events s"
  "sv_hfp_channel_state (snd (build_hfp_command_frame now s c)) = sv_hfp_channel_state s"
  by (simp_all add: build_hfp_command_frame_def Let_def)

section \<open>Draining the set-up queue\<close>

definition slc_left :: "'w RfcommState \<Rightarrow> nat" where
  "slc_left s = length (sv_hfp_pending_commands s) +
     (if hf_indicator_definitions_seen (sv_hfp_state s) \<or>
         hf_indicator_definitions_retry_used (sv_hfp_state s) then 0 else 2)"

text \<open>A set-up under way: a command is in flight, the connection neither ready nor failed.\<close>

definition slc_busy :: "'w RfcommState \<Rightarrow> bool" where
  "slc_busy s =
     (sv_hfp_in_flight_command s \<noteq> None \<and> \<not> hf_service_level_ready (sv_hfp_state s) \<and>
      \<not> sv_hfp_slc_failed s)"

text \<open>What a step of the set-up may do: send the next command with less left to do, or declare
  the connection ready with exactly one event.\<close>

definition slc_progress :: "'w RfcommState \<Rightarrow> 'w RfcommState \<Rightarrow> bool" where
  "slc_progress s s' =
     ((slc_busy s' \<and> slc_left s' < slc_left s \<and> sv_hfp_events s' = sv_hfp_events s) \<or>
      (hf_service_level_ready (sv_hfp_state s') \<and> sv_hfp_in_flight_command s' = None \<and>
       \<not> sv_hfp_slc_failed s' \<and>
       sv_hfp_events s' = sv_hfp_events s @ [ServiceLevelConnectionReady]))"

lemma next_hfp_command_frame_cases:
  obtains (none) s' where "next_hfp_command_frame now s = (None, s')"
      "s' = s\<lparr>sv_hfp_pending_commands := []\<rparr>"
  | (some) f s' c where "next_hfp_command_frame now s = (Some f, s')"
      "sv_hfp_in_flight_command s' = Some c"
      "length (sv_hfp_pending_commands s') < length (sv_hfp_pending_commands s)"
      "hf_service_level_ready (sv_hfp_state s') = hf_service_level_ready (sv_hfp_state s)"
      "hf_indicator_definitions_seen (sv_hfp_state s') = hf_indicator_definitions_seen (sv_hfp_state s)"
      "hf_indicator_definitions_retry_used (sv_hfp_state s') =
         hf_indicator_definitions_retry_used (sv_hfp_state s)"
      "sv_hfp_slc_failed s' = sv_hfp_slc_failed s" "sv_hfp_events s' = sv_hfp_events s"
proof -
  obtain c rest where p: "pop_slc_command (sv_hfp_state s) (sv_hfp_pending_commands s) = (c, rest)"
    by fastforce
  show thesis
  proof (cases c)
    case None
    with pop_slc_shorter [OF p] p show ?thesis
      by (intro none) (auto simp: next_hfp_command_frame_def Let_def)
  next
    case (Some command)
    let ?s1 = "s\<lparr>sv_hfp_pending_commands := rest\<rparr>"
    let ?b = "build_hfp_command_frame now ?s1 command"
    from Some p have "next_hfp_command_frame now s =
        (Some (fst ?b), (snd ?b)\<lparr>sv_hfp_in_flight_command := Some command,
            sv_hfp_in_flight_command_sent_at := Some now\<rparr>)"
      by (simp add: next_hfp_command_frame_def Let_def case_prod_beta)
    from some [OF this] pop_slc_shorter [OF p] Some show ?thesis by simp
  qed
qed

lemma advance_progress:
  assumes "sv_hfp_in_flight_command s = None" "\<not> hf_service_level_ready (sv_hfp_state s)"
    "\<not> sv_hfp_slc_failed s"
  shows "slc_progress s (snd (advance_hfp_slc_queue now s))"
proof (cases rule: next_hfp_command_frame_cases [of now s])
  case (some f s' c)
  with assms show ?thesis
    by (simp add: advance_hfp_slc_queue_def slc_progress_def slc_busy_def slc_left_def)
next
  case (none s')
  let ?h = "sv_hfp_state s"
  show ?thesis
  proof (cases "hf_indicator_definitions_seen ?h \<or> hf_indicator_definitions_retry_used ?h")
    case True
    with none assms show ?thesis
      by (auto simp: advance_hfp_slc_queue_def slc_progress_def needs_indicator_definitions_retry_def
          mark_hfp_service_ready_def mark_service_level_ready_def Let_def)
  next
    case False
    let ?h' = "?h\<lparr>hf_indicator_definitions_retry_used := True\<rparr>"
    let ?t = "s\<lparr>sv_hfp_state := ?h',
               sv_hfp_pending_commands := [RetrieveIndicators, RetrieveIndicatorStatus]\<rparr>"
    have a: "advance_hfp_slc_queue now s =
        (case next_hfp_command_frame now ?t of
           (Some frame, s3) \<Rightarrow> ([frame], s3) | (None, s3) \<Rightarrow> ([], s3))"
      using none False
      by (simp add: advance_hfp_slc_queue_def needs_indicator_definitions_retry_def Let_def)
    have "\<exists>f s3. next_hfp_command_frame now ?t = (Some f, s3)"
      by (simp add: next_hfp_command_frame_def should_skip_slc_command_def case_prod_beta Let_def)
    then show ?thesis
      using assms a False
      by (cases rule: next_hfp_command_frame_cases [of now ?t])
        (simp_all add: slc_progress_def slc_busy_def slc_left_def)
  qed
qed

lemma slc_progress_left:
  assumes "slc_progress t s'" "slc_left t = slc_left s" "sv_hfp_events t = sv_hfp_events s"
  shows "slc_progress s s'"
  using assms by (simp add: slc_progress_def)

lemma on_slc_ok_progress:
  assumes "slc_busy s"
  shows "slc_progress s (snd (on_slc_ok now s))"
proof -
  let ?s2 = "(if sv_hfp_in_flight_command s = Some EnableCallWaitingNotifications
      then s\<lparr>sv_hfp_state := note_ccwa_accepted (sv_hfp_state s)\<rparr> else s)
      \<lparr>sv_hfp_in_flight_command := None, sv_hfp_in_flight_command_sent_at := None\<rparr>"
  have "slc_progress ?s2 (snd (advance_hfp_slc_queue now ?s2))"
    using assms by (intro advance_progress) (auto simp: slc_busy_def note_ccwa_accepted_def)
  then have "slc_progress s (snd (advance_hfp_slc_queue now ?s2))"
    by (rule slc_progress_left) (auto simp: slc_left_def note_ccwa_accepted_def)
  moreover have "\<not> sv_hfp_slc_failed ?s2" using assms by (simp add: slc_busy_def)
  ultimately show ?thesis by (simp add: on_slc_ok_def Let_def)
qed

lemma on_slc_error_progress:
  assumes "slc_busy s" "sv_hfp_in_flight_command s = Some c" "optional_slc c"
  shows "slc_progress s (snd (on_slc_error now s))"
proof -
  let ?s2 = "s\<lparr>sv_hfp_in_flight_command := None, sv_hfp_in_flight_command_sent_at := None,
      sv_hfp_state := snd (note_slc_probe_error (sv_hfp_state s) c)\<rparr>"
  note frame = note_slc_probe_error_frame [of "sv_hfp_state s" c]
  have "slc_progress ?s2 (snd (advance_hfp_slc_queue now ?s2))"
    using assms frame by (intro advance_progress) (auto simp: slc_busy_def slc_frame_def)
  then have "slc_progress s (snd (advance_hfp_slc_queue now ?s2))"
    by (rule slc_progress_left) (use frame in \<open>simp_all add: slc_left_def slc_frame_def\<close>)
  moreover have "\<not> sv_hfp_slc_failed ?s2" using assms by (simp add: slc_busy_def)
  ultimately show ?thesis
    using assms(2,3) frame(1) by (simp add: on_slc_error_def Let_def case_prod_beta)
qed

lemma hfp_result_steps_Cons [simp]:
  "fst (hfp_result_steps now s (r # rs)) =
     fst (hfp_result_step now s r) @ fst (hfp_result_steps now (snd (hfp_result_step now s r)) rs)"
  "snd (hfp_result_steps now s (r # rs)) =
     snd (hfp_result_steps now (snd (hfp_result_step now s r)) rs)"
  by (simp_all add: Let_def case_prod_beta)

declare hfp_result_steps.simps(2) [simp del]

lemma hfp_result_steps_append:
  "snd (hfp_result_steps now s (a @ b)) = snd (hfp_result_steps now (snd (hfp_result_steps now s a)) b)"
  by (induction a arbitrary: s) simp_all

definition slc_events :: "'w RfcommState \<Rightarrow> HfpEvent list" where
  "slc_events s = filter slc_event (sv_hfp_events s)"

definition slc_progress_ev :: "'w RfcommState \<Rightarrow> 'w RfcommState \<Rightarrow> bool" where
  "slc_progress_ev s s' =
     ((slc_busy s' \<and> slc_left s' < slc_left s \<and> slc_events s' = slc_events s) \<or>
      (hf_service_level_ready (sv_hfp_state s') \<and> sv_hfp_in_flight_command s' = None \<and>
       \<not> sv_hfp_slc_failed s' \<and> slc_events s' = slc_events s @ [ServiceLevelConnectionReady]))"

lemma slc_progress_events: "slc_progress s s' \<Longrightarrow> slc_progress_ev s s'"
  by (auto simp: slc_progress_def slc_progress_ev_def slc_events_def)

lemma info_step:
  assumes "info_result r" "slc_busy s"
  shows "slc_busy (snd (hfp_result_step now s r)) \<and>
    slc_left (snd (hfp_result_step now s r)) \<le> slc_left s \<and>
    sv_hfp_in_flight_command (snd (hfp_result_step now s r)) = sv_hfp_in_flight_command s \<and>
    slc_events (snd (hfp_result_step now s r)) = slc_events s"
proof -
  let ?st = "apply_result (sv_hfp_state s) r"
  have "snd (hfp_result_step now s r) =
      s\<lparr>sv_hfp_state := snd ?st, sv_hfp_events := sv_hfp_events s @ fst ?st\<rparr>"
    using assms(1) by (cases r) (simp_all add: hfp_result_step_def case_prod_beta Let_def)
  with slc_frame_result [of "sv_hfp_state s" r] apply_result_slc_silent [of "sv_hfp_state s" r] assms(2)
  show ?thesis by (auto simp: slc_busy_def slc_left_def slc_frame_def slc_events_def)
qed

lemma final_step:
  assumes "slc_busy s" "sv_hfp_in_flight_command s = Some c" "ok \<or> optional_slc c"
  shows "slc_progress_ev s (snd (hfp_result_step now s (if ok then AgOk else AgError)))"
proof -
  let ?r = "if ok then AgOk else AgError"
  let ?st = "apply_result (sv_hfp_state s) ?r"
  let ?t = "s\<lparr>sv_hfp_state := snd ?st, sv_hfp_events := sv_hfp_events s @ fst ?st\<rparr>"
  have k: "hf_indicator_definitions_seen (snd ?st) = hf_indicator_definitions_seen (sv_hfp_state s)"
    "fst ?st = []"
    by (simp_all add: apply_result_def call_shape_def)
  with slc_frame_result [of "sv_hfp_state s" ?r] assms(1)
  have t: "slc_busy ?t" "slc_left ?t = slc_left s" "slc_events ?t = slc_events s"
    by (simp_all add: slc_busy_def slc_left_def slc_frame_def slc_events_def)
  have "slc_progress ?t (snd (hfp_result_step now s ?r))"
    using t(1) assms(2,3) on_slc_ok_progress [OF t(1)] on_slc_error_progress [OF t(1), of c]
    by (cases ok) (simp_all add: hfp_result_step_def case_prod_beta Let_def slc_busy_def)
  from slc_progress_events [OF this] t show ?thesis by (simp add: slc_progress_ev_def)
qed

text \<open>The phone-opened session is a driver of the set-up.\<close>

definition server_result :: "instant \<Rightarrow> 'w RfcommState \<Rightarrow> HfpAgResult \<Rightarrow> 'w RfcommState" where
  "server_result now s r = snd (hfp_result_step now s r)"

definition server_slc_ready :: "'w RfcommState \<Rightarrow> bool" where
  "server_slc_ready s = hf_service_level_ready (sv_hfp_state s)"

interpretation server_setup: slc_machine sv_hfp_in_flight_command slc_busy server_slc_ready slc_left slc_events
    "server_result now" for now
proof (unfold_locales, goal_cases)
  case (1 s)
  then show ?case by (auto simp: slc_busy_def)
next
  case (2 r s)
  then show ?case using info_step [of r s now] by (simp add: server_result_def)
next
  case (3 s c ok)
  then show ?case
    using final_step [of s c ok now]
    by (auto simp: server_result_def server_slc_ready_def slc_progress_ev_def Let_def)
qed

text \<open>The results of one payload are these steps in turn.\<close>

lemma hfp_result_steps_foldl: "snd (hfp_result_steps now s rs) = foldl (server_result now) s rs"
  by (induction rs arbitrary: s) (simp_all add: server_result_def)

section \<open>After the set-up\<close>

text \<open>The state between commands of a connection that is up.\<close>

definition slc_idle :: "'w RfcommState \<Rightarrow> bool" where
  "slc_idle s = (hf_service_level_ready (sv_hfp_state s) \<and> sv_hfp_in_flight_command s = None)"

text \<open>What a step of such a connection keeps, and that it raises no connection event.\<close>

definition slc_keeps :: "'w RfcommState \<Rightarrow> 'w RfcommState \<Rightarrow> bool" where
  "slc_keeps s s' =
     (slc_idle s' \<and> slc_events s' = slc_events s \<and> sv_hfp_slc_failed s' = sv_hfp_slc_failed s \<and>
      sv_hfp_channel_state s' = sv_hfp_channel_state s \<and>
      sv_hfp_pending_commands s' = sv_hfp_pending_commands s \<and>
      (sv_hfp_in_flight_command_sent_at s = None \<longrightarrow> sv_hfp_in_flight_command_sent_at s' = None))"

lemma slc_keeps_refl: "slc_idle s \<Longrightarrow> slc_keeps s s"
  by (simp add: slc_keeps_def)

lemma slc_keeps_trans: "slc_keeps s t \<Longrightarrow> slc_keeps t u \<Longrightarrow> slc_keeps s u"
  by (simp add: slc_keeps_def)

lemma slc_keeps_apply:
  assumes "slc_idle s"
  shows "slc_keeps s (s\<lparr>sv_hfp_state := snd (apply_result (sv_hfp_state s) r),
    sv_hfp_events := sv_hfp_events s @ fst (apply_result (sv_hfp_state s) r)\<rparr>)"
  using assms slc_frame_result [of "sv_hfp_state s" r] apply_result_slc_silent [of "sv_hfp_state s" r]
  by (simp add: slc_keeps_def slc_idle_def slc_frame_def slc_events_def)

lemma slc_keeps_build: "slc_idle s \<Longrightarrow> slc_keeps s (snd (build_hfp_command_frame now s c))"
  by (simp add: slc_keeps_def slc_idle_def slc_events_def)

lemma after_refusal_ready [simp]:
  "hf_service_level_ready (snd (after_refusal h name)) = hf_service_level_ready h"
  by (simp add: after_refusal_def Let_def)

lemma slc_keeps_ready_error:
  assumes "hf_service_level_ready (sv_hfp_state s)"
  shows "slc_keeps (s\<lparr>sv_hfp_in_flight_command := None, sv_hfp_in_flight_command_sent_at := None\<rparr>)
    (snd (on_ready_error now s))"
  using assms
  by (simp add: on_ready_error_def slc_keeps_def slc_idle_def slc_events_def case_prod_beta Let_def
      split: option.split)

lemma slc_keeps_result:
  assumes "slc_idle s"
  shows "slc_keeps s (snd (hfp_result_step now s r))"
proof -
  let ?t = "s\<lparr>sv_hfp_state := snd (apply_result (sv_hfp_state s) r),
    sv_hfp_events := sv_hfp_events s @ fst (apply_result (sv_hfp_state s) r)\<rparr>"
  note a = slc_keeps_apply [OF assms, of r]
  then have i: "slc_idle ?t" by (simp add: slc_keeps_def)
  have "slc_keeps ?t (snd (hfp_result_step now s r))"
  proof (cases r)
    case AgOk
    with i show ?thesis
      by (simp add: hfp_result_step_def slc_keeps_def slc_idle_def slc_events_def case_prod_beta Let_def)
  next
    case AgError
    with i have "snd (hfp_result_step now s r) = snd (on_ready_error now ?t)"
      by (simp add: hfp_result_step_def slc_idle_def case_prod_beta Let_def)
    with i slc_keeps_ready_error [of ?t now] show ?thesis
      by (simp add: slc_keeps_def slc_idle_def slc_events_def)
  next
    case (AgSelectedCodec c)
    with slc_keeps_build [OF i] show ?thesis
      by (simp add: hfp_result_step_def on_selected_codec_def case_prod_beta Let_def)
  qed (use slc_keeps_refl [OF i] in \<open>simp_all add: hfp_result_step_def case_prod_beta Let_def\<close>)
  with a show ?thesis by (rule slc_keeps_trans)
qed

lemma slc_keeps_results: "slc_idle s \<Longrightarrow> slc_keeps s (snd (hfp_result_steps now s rs))"
proof (induction rs arbitrary: s)
  case (Cons r rs)
  note k = slc_keeps_result [OF Cons.prems, of now r]
  then have "slc_idle (snd (hfp_result_step now s r))" by (simp add: slc_keeps_def)
  from slc_keeps_trans [OF k Cons.IH [OF this]] show ?case by simp
qed (simp add: slc_keeps_refl)

lemma slc_keeps_payload: "slc_idle s \<Longrightarrow> slc_keeps s (snd (handle_hfp_payload now s p))"
proof -
  assume i: "slc_idle s"
  then have c: "slc_idle (s\<lparr>sv_hfp_line_carry := c\<rparr>)"
    and k: "slc_keeps s (s\<lparr>sv_hfp_line_carry := c\<rparr>)" for c
    by (simp_all add: slc_keeps_def slc_idle_def slc_events_def)
  show ?thesis
    using slc_keeps_refl [OF i] k slc_keeps_trans [OF k slc_keeps_results [OF c]]
    by (simp add: handle_hfp_payload_def case_prod_beta Let_def split: option.split prod.split)
qed

lemma slc_keeps_tick:
  assumes "slc_idle s" "sv_hfp_in_flight_command_sent_at s = None"
  shows "slc_keeps s (snd (tick_hfp_stall now timeout s))"
  using assms
  by (simp add: tick_hfp_stall_def slc_keeps_def slc_idle_def slc_events_def split: option.split prod.split)

section \<open>The modem-status exchange\<close>

fun mux_payloads :: "instant \<Rightarrow> 'w RfcommState \<Rightarrow> bytes list \<Rightarrow> 'w RfcommState" where
  "mux_payloads now s [] = s"
| "mux_payloads now s (p # ps) = mux_payloads now (snd (handle_multiplexer_payload now s p)) ps"

definition is_msc :: "bool \<Rightarrow> u8 \<Rightarrow> bytes \<Rightarrow> bool" where
  "is_msc is_response d p =
     (case parse_multiplexer_command p of
        Inr (ModemStatus r d' _) \<Rightarrow> r = is_response \<and> d' = d
      | _ \<Rightarrow> False)"

text \<open>The set-up before and after its start, as a function of which halves of the exchange with
  the hands-free channel have been seen.\<close>

definition awaiting_msc :: "bool \<Rightarrow> bool \<Rightarrow> bool \<Rightarrow> bool \<Rightarrow> 'w RfcommState \<Rightarrow> bool" where
  "awaiting_msc wbs cw rsp cmd s =
     (sv_multiplexer_open s \<and> sv_hfp_channel_state s = ChannelOpen \<and>
      sv_msc_local_pending s = (\<not> rsp) \<and> sv_msc_remote_received s = cmd \<and>
      sv_msc_at_kicked s = (rsp \<and> cmd) \<and>
      sv_hfp_in_flight_command s = (if rsp \<and> cmd then Some (SupportedFeatures cw) else None) \<and>
      sv_hfp_pending_commands s =
        (if rsp \<and> cmd then tl (initial_service_level_commands wbs cw)
         else initial_service_level_commands wbs cw))"

lemma sabm_awaits_msc:
  assumes "sv_multiplexer_open s" "sv_hfp_dlci s \<noteq> 0" "sv_extra_channel_handlers s (sv_hfp_dlci s) = None"
  shows "awaiting_msc (sv_wbs_supported s) (hf_call_waiting_enabled (sv_hfp_state s)) False False
    (fst (snd (handle_sabm s (sv_hfp_dlci s) w)))"
  using assms by (simp add: handle_sabm_def awaiting_msc_def)

text \<open>A multiplexer command moves only its own half of the exchange.\<close>

lemma maybe_open_client_frame [simp]:
  "sv_multiplexer_open (maybe_open_client_dlci s d) = sv_multiplexer_open s"
  "sv_hfp_channel_state (maybe_open_client_dlci s d) = sv_hfp_channel_state s"
  "sv_hfp_dlci (maybe_open_client_dlci s d) = sv_hfp_dlci s"
  "sv_msc_local_pending (maybe_open_client_dlci s d) = sv_msc_local_pending s"
  "sv_msc_remote_received (maybe_open_client_dlci s d) = sv_msc_remote_received s"
  "sv_msc_at_kicked (maybe_open_client_dlci s d) = sv_msc_at_kicked s"
  "sv_hfp_in_flight_command (maybe_open_client_dlci s d) = sv_hfp_in_flight_command s"
  "sv_hfp_pending_commands (maybe_open_client_dlci s d) = sv_hfp_pending_commands s"
  by (simp_all add: maybe_open_client_dlci_def split: option.split)

definition mux_frame :: "bool \<Rightarrow> bool \<Rightarrow> 'w RfcommState \<Rightarrow> 'w RfcommState \<Rightarrow> bool" where
  "mux_frame rsp cmd s s' =
     (sv_multiplexer_open s' = sv_multiplexer_open s \<and>
      sv_hfp_channel_state s' = sv_hfp_channel_state s \<and> sv_hfp_dlci s' = sv_hfp_dlci s \<and>
      sv_msc_local_pending s' = (sv_msc_local_pending s \<and> \<not> rsp) \<and>
      sv_msc_remote_received s' = (sv_msc_remote_received s \<or> cmd) \<and>
      sv_msc_at_kicked s' = sv_msc_at_kicked s \<and>
      sv_hfp_in_flight_command s' = sv_hfp_in_flight_command s \<and>
      sv_hfp_pending_commands s' = sv_hfp_pending_commands s)"

lemma mux_modem_status_frame:
  "mux_frame (is_response \<and> d = sv_hfp_dlci s) (\<not> is_response \<and> d = sv_hfp_dlci s) s
     (snd (mux_modem_status s is_response d signals))"
  by (simp add: mux_modem_status_def mux_frame_def split: option.split)

lemma mux_command_frame:
  "mux_frame (case c of ModemStatus r d _ \<Rightarrow> r \<and> d = sv_hfp_dlci s | _ \<Rightarrow> False)
     (case c of ModemStatus r d _ \<Rightarrow> \<not> r \<and> d = sv_hfp_dlci s | _ \<Rightarrow> False) s
     (snd (snd (mux_command s c)))"
proof (cases c)
  case (ModemStatus r d sig)
  then show ?thesis
    using mux_modem_status_frame [of r d s sig] by (simp add: mux_command_def case_prod_beta)
next
  case (ParameterNegotiation r d ft pr mf cr)
  then show ?thesis
    by (simp add: mux_command_def mux_parameter_negotiation_def mux_frame_def split: option.split)
qed (simp_all add: mux_command_def mux_frame_def)

lemma build_hfp_command_frame_msc [simp]:
  "sv_multiplexer_open (snd (build_hfp_command_frame now s c)) = sv_multiplexer_open s"
  "sv_hfp_dlci (snd (build_hfp_command_frame now s c)) = sv_hfp_dlci s"
  "sv_msc_local_pending (snd (build_hfp_command_frame now s c)) = sv_msc_local_pending s"
  "sv_msc_remote_received (snd (build_hfp_command_frame now s c)) = sv_msc_remote_received s"
  "sv_msc_at_kicked (snd (build_hfp_command_frame now s c)) = sv_msc_at_kicked s"
  by (simp_all add: build_hfp_command_frame_def Let_def)

lemma kick_first_command:
  assumes "sv_hfp_pending_commands s = initial_service_level_commands wbs cw"
    "\<not> sv_msc_at_kicked s" "\<not> sv_msc_local_pending s" "sv_msc_remote_received s"
    "sv_hfp_channel_state s = ChannelOpen" "sv_multiplexer_open s"
  shows "awaiting_msc wbs cw True True (snd (maybe_kick_at_sequence now s)) \<and>
    sv_hfp_dlci (snd (maybe_kick_at_sequence now s)) = sv_hfp_dlci s \<and>
    fst (maybe_kick_at_sequence now s) =
      [build_uih (sv_hfp_dlci s) True None (build_at_command (SupportedFeatures cw))]"
  using assms
  by (simp add: maybe_kick_at_sequence_def next_hfp_command_frame_def case_prod_beta Let_def
      initial_service_level_commands_def should_skip_slc_command_def awaiting_msc_def)
    (simp add: build_hfp_command_frame_def mark_command_sent_def Let_def)

lemma mux_payload_awaits:
  assumes "awaiting_msc wbs cw rsp cmd s"
  shows "awaiting_msc wbs cw (rsp \<or> is_msc True (sv_hfp_dlci s) p) (cmd \<or> is_msc False (sv_hfp_dlci s) p)
      (snd (handle_multiplexer_payload now s p)) \<and>
    sv_hfp_dlci (snd (handle_multiplexer_payload now s p)) = sv_hfp_dlci s"
proof (cases "parse_multiplexer_command p")
  case (Inl e)
  with assms show ?thesis by (simp add: handle_multiplexer_payload_def is_msc_def)
next
  case (Inr c)
  let ?r = "is_msc True (sv_hfp_dlci s) p" and ?c = "is_msc False (sv_hfp_dlci s) p"
  define s1 where "s1 = snd (snd (mux_command s c))"
  have rc: "(case c of ModemStatus r d _ \<Rightarrow> r \<and> d = sv_hfp_dlci s | _ \<Rightarrow> False) = ?r"
    "(case c of ModemStatus r d _ \<Rightarrow> \<not> r \<and> d = sv_hfp_dlci s | _ \<Rightarrow> False) = ?c"
    using Inr by (auto simp: is_msc_def split: RfcommMuxCommand.split)
  note f = mux_command_frame [where c = c and s = s, unfolded rc, folded s1_def]
  have h: "snd (handle_multiplexer_payload now s p) = snd (maybe_kick_at_sequence now s1)"
    using assms Inr by (simp add: handle_multiplexer_payload_def awaiting_msc_def case_prod_beta s1_def Let_def)
  show ?thesis
  proof (cases "(rsp \<or> ?r) \<and> (cmd \<or> ?c) \<and> \<not> (rsp \<and> cmd)")
    case True
    with f assms have "sv_hfp_pending_commands s1 = initial_service_level_commands wbs cw"
      "\<not> sv_msc_at_kicked s1" "\<not> sv_msc_local_pending s1" "sv_msc_remote_received s1"
      "sv_hfp_channel_state s1 = ChannelOpen" "sv_multiplexer_open s1" "sv_hfp_dlci s1 = sv_hfp_dlci s"
      by (auto simp: mux_frame_def awaiting_msc_def)
    with kick_first_command [OF this(1-6)] True h show ?thesis by simp
  next
    case False
    with f assms have "sv_msc_at_kicked s1 \<or> sv_msc_local_pending s1 \<or> \<not> sv_msc_remote_received s1"
      by (auto simp: mux_frame_def awaiting_msc_def)
    then have "snd (maybe_kick_at_sequence now s1) = s1" by (auto simp: maybe_kick_at_sequence_def)
    with False f assms h show ?thesis by (auto simp: mux_frame_def awaiting_msc_def)
  qed
qed

lemma mux_payloads_await:
  "awaiting_msc wbs cw rsp cmd s \<Longrightarrow>
     awaiting_msc wbs cw (rsp \<or> list_ex (is_msc True (sv_hfp_dlci s)) ps)
       (cmd \<or> list_ex (is_msc False (sv_hfp_dlci s)) ps) (mux_payloads now s ps)"
proof (induction ps arbitrary: s rsp cmd)
  case (Cons p ps)
  note m = mux_payload_awaits [OF Cons.prems, of p now]
  from Cons.IH [OF conjunct1 [OF m]] m show ?case by (simp add: disj_assoc)
qed simp

section \<open>Properties\<close>

text \<open>Once the phone opens the hands-free channel, no multiplexer
  traffic, well-formed or not, starts the AT commands before the phone has both sent its modem
  status and acknowledged ours; when both have happened, in either order and however often, the
  feature exchange has been sent, once, and the rest of the queue waits behind it.\<close>

theorem at_starts_after_msc_exchange:
  assumes "sv_multiplexer_open s" "sv_hfp_dlci s \<noteq> 0" "sv_extra_channel_handlers s (sv_hfp_dlci s) = None"
  shows "let s0 = fst (snd (handle_sabm s (sv_hfp_dlci s) w));
             s' = mux_payloads now s0 payloads;
             commands = initial_service_level_commands (sv_wbs_supported s)
                          (hf_call_waiting_enabled (sv_hfp_state s)) in
    if list_ex (is_msc True (sv_hfp_dlci s)) payloads \<and> list_ex (is_msc False (sv_hfp_dlci s)) payloads
    then sv_hfp_in_flight_command s' = Some (hd commands) \<and> sv_hfp_pending_commands s' = tl commands
    else sv_hfp_in_flight_command s' = None \<and> sv_hfp_pending_commands s' = commands"
proof -
  have "sv_hfp_dlci (fst (snd (handle_sabm s (sv_hfp_dlci s) w))) = sv_hfp_dlci s"
    using assms by (simp add: handle_sabm_def)
  with mux_payloads_await [where now = now and ps = payloads, OF sabm_awaits_msc [OF assms, of w]] show ?thesis
    by (auto simp: awaiting_msc_def Let_def initial_service_level_commands_def)
qed

theorem at_starts_after_msc_exchange_witness:
  "let s = (server_new :: unit RfcommState)\<lparr>sv_multiplexer_open := True\<rparr>;
       s' = mux_payloads 0 (fst (snd (handle_sabm s 2 ())))
              [build_modem_status_command 2 0x8d, build_modem_status_response 2 0x8d]
   in sv_hfp_in_flight_command s' = Some (SupportedFeatures False)"
proof -
  let ?s = "(server_new :: unit RfcommState)\<lparr>sv_multiplexer_open := True\<rparr>"
  let ?p = "[build_modem_status_command 2 0x8d, build_modem_status_response 2 0x8d]"
  have d: "sv_hfp_dlci ?s = 2" by (simp add: server_new_def aokie_hfp_dlci_def server_channel_dlci_def)
  have h: "sv_multiplexer_open ?s" "sv_hfp_dlci ?s \<noteq> 0"
    "sv_extra_channel_handlers ?s (sv_hfp_dlci ?s) = None"
    unfolding d by (simp_all add: server_new_def)
  have "list_ex (is_msc True 2) ?p" "list_ex (is_msc False 2) ?p" by code_simp+
  with at_starts_after_msc_exchange [OF h, of "()" 0 ?p] show ?thesis
    by (simp add: d Let_def initial_service_level_commands_def) (simp add: server_new_def hfp_new_def)
qed

text \<open>C35: with a command in flight and the connection neither ready nor failed, a phone
  that answers every command, with any information lines first, and refuses at most the optional
  ones, brings the connection up after at most one answer more than there are commands left
  (counting the single repeat of the indicator definitions); it is announced once and no failure
  is announced.\<close>

theorem slc_completes:
  assumes "slc_busy s" and "\<And>c. list_all info_result (fst (phone c))"
    and "\<And>c. snd (phone c) \<or> optional_slc c"
  shows "server_slc_ready (slc_run sv_hfp_in_flight_command (server_result now) phone (Suc (slc_left s)) s) \<and>
    slc_events (slc_run sv_hfp_in_flight_command (server_result now) phone (Suc (slc_left s)) s) =
      slc_events s @ [ServiceLevelConnectionReady]"
  using assms by (intro server_setup.run_completes) simp_all

text \<open>A phone that gives no indicator definitions and refuses everything it may refuse.\<close>

theorem slc_completes_witness:
  "let s = (server_new :: unit RfcommState)\<lparr>sv_hfp_in_flight_command := Some (SupportedFeatures False),
             sv_hfp_pending_commands := tl (initial_service_level_commands True False)\<rparr>;
       phone = (\<lambda>c. ([AgUnknown []], \<not> optional_slc c))
   in slc_busy s \<and> slc_left s = 11 \<and>
      slc_events (slc_run sv_hfp_in_flight_command (server_result 0) phone 12 s) = [ServiceLevelConnectionReady]"
proof -
  let ?s = "(server_new :: unit RfcommState)\<lparr>sv_hfp_in_flight_command := Some (SupportedFeatures False),
             sv_hfp_pending_commands := tl (initial_service_level_commands True False)\<rparr>"
  let ?phone = "\<lambda>c. ([AgUnknown []], \<not> optional_slc c)"
  have b: "slc_busy ?s" by (simp add: slc_busy_def server_new_def hfp_new_def)
  have l: "slc_left ?s = 11"
    by (simp add: slc_left_def initial_service_level_commands_def server_new_def hfp_new_def)
  have "slc_events (slc_run sv_hfp_in_flight_command (server_result 0) ?phone (Suc (slc_left ?s)) ?s) = slc_events ?s @ [ServiceLevelConnectionReady]"
    using slc_completes [OF b, of ?phone 0] by simp
  with b l show ?thesis
    by (simp only: Let_def) (simp add: slc_events_def server_new_def)
qed

text \<open>C36: on a connection that is up with no set-up command in flight, whatever
  the phone sends on the hands-free channel, and however long it leaves commands unanswered, the
  connection is never declared failed or torn down: no connection event is raised, the failure
  latch and the channel state do not move.\<close>

theorem post_slc_never_fails:
  assumes "slc_idle s" and "sv_hfp_in_flight_command_sent_at s = None"
  shows "slc_keeps s (snd (handle_hfp_payload now s payload)) \<and>
    slc_keeps s (snd (tick_hfp_stall now timeout s)) \<and>
    slc_keeps s (snd (build_hfp_command_frame now s command))"
  using assms by (simp add: slc_keeps_payload slc_keeps_tick slc_keeps_build)

theorem post_slc_never_fails_witness:
  "let s = (server_new :: unit RfcommState)\<lparr>sv_hfp_state := hfp_new\<lparr>hf_service_level_ready := True\<rparr>,
             sv_hfp_channel_state := ChannelOpen\<rparr>
   in sv_hfp_events (snd (handle_hfp_payload 0 s [69, 82, 82, 79, 82, 13])) =
        [CommandRejected ''unsolicited'' False] \<and>
      slc_keeps s (snd (handle_hfp_payload 0 s [69, 82, 82, 79, 82, 13]))"
proof -
  let ?s = "(server_new :: unit RfcommState)\<lparr>sv_hfp_state := hfp_new\<lparr>hf_service_level_ready := True\<rparr>,
             sv_hfp_channel_state := ChannelOpen\<rparr>"
  have "slc_idle ?s" "sv_hfp_in_flight_command_sent_at ?s = None"
    by (simp_all add: slc_idle_def server_new_def)
  from post_slc_never_fails [OF this, of 0 "[69, 82, 82, 79, 82, 13]"]
  have "slc_keeps ?s (snd (handle_hfp_payload 0 ?s [69, 82, 82, 79, 82, 13]))" by blast
  moreover have "sv_hfp_events (snd (handle_hfp_payload 0 ?s [69, 82, 82, 79, 82, 13])) =
      [CommandRejected ''unsolicited'' False]"
    by code_simp
  ultimately show ?thesis by (simp add: Let_def)
qed

text \<open>When the phone reopens the channel of a connection that was
  already up, the refusal of any set-up command, an optional one included, stops the set-up for
  good: nothing is announced as failed, no stall timer runs, and no later result ever sends the
  commands that were still queued.\<close>

theorem reopened_refusal_stalls_setup:
  assumes "hf_service_level_ready (sv_hfp_state s)"
  shows "let s' = snd (hfp_result_steps now s (AgError # results)) in
    sv_hfp_in_flight_command s' = None \<and> sv_hfp_in_flight_command_sent_at s' = None \<and>
    sv_hfp_pending_commands s' = sv_hfp_pending_commands s \<and> slc_events s' = slc_events s"
proof -
  let ?t = "s\<lparr>sv_hfp_state := snd (apply_result (sv_hfp_state s) AgError),
    sv_hfp_events := sv_hfp_events s @ fst (apply_result (sv_hfp_state s) AgError)\<rparr>"
  have r: "hf_service_level_ready (sv_hfp_state ?t)"
    using assms slc_frame_result [of "sv_hfp_state s" AgError] by (simp add: slc_frame_def)
  then have e: "snd (hfp_result_step now s AgError) = snd (on_ready_error now ?t)"
    by (simp add: hfp_result_step_def case_prod_beta Let_def)
  note k = slc_keeps_ready_error [OF r, of now, folded e]
  then have "slc_idle (snd (hfp_result_step now s AgError))" by (simp add: slc_keeps_def)
  from slc_keeps_trans [OF k slc_keeps_results [OF this, of now results]]
  show ?thesis
    using apply_result_slc_silent [of "sv_hfp_state s" AgError]
    by (simp add: slc_keeps_def slc_idle_def slc_events_def Let_def)
qed

theorem reopened_refusal_stalls_setup_witness:
  "let s = (server_new :: unit RfcommState)\<lparr>sv_hfp_state := hfp_new\<lparr>hf_service_level_ready := True\<rparr>,
             sv_hfp_in_flight_command := Some (AvailableCodecs True),
             sv_hfp_pending_commands := [RetrieveIndicators, EnableIndicatorUpdates True]\<rparr>;
       s' = snd (hfp_result_steps 0 s [AgError, AgOk, AgOk, AgOk])
   in sv_hfp_pending_commands s' = [RetrieveIndicators, EnableIndicatorUpdates True] \<and>
      sv_hfp_in_flight_command s' = None"
proof -
  let ?s = "(server_new :: unit RfcommState)\<lparr>sv_hfp_state := hfp_new\<lparr>hf_service_level_ready := True\<rparr>,
             sv_hfp_in_flight_command := Some (AvailableCodecs True),
             sv_hfp_pending_commands := [RetrieveIndicators, EnableIndicatorUpdates True]\<rparr>"
  have "hf_service_level_ready (sv_hfp_state ?s)" by simp
  from reopened_refusal_stalls_setup [OF this, of 0 "[AgOk, AgOk, AgOk]"] show ?thesis
    unfolding Let_def by simp
qed

text \<open>when the phone disconnects and reopens the hands-free
  channel while a set-up command is in flight, the timer of the old command stays armed: its
  expiry fails the new set-up before it has sent anything, under the name of no command.\<close>

theorem stale_timer_fails_reopened_channel:
  assumes "sv_multiplexer_open s" "sv_hfp_dlci s \<noteq> 0" "sv_extra_channel_handlers s (sv_hfp_dlci s) = None"
    and "sv_hfp_in_flight_command_sent_at s = Some t" "\<not> hf_service_level_ready (sv_hfp_state s)"
    and "t + timeout \<le> now"
  shows "let s1 = fst (snd (handle_disc s (sv_hfp_dlci s) w));
             s2 = fst (snd (handle_sabm s1 (sv_hfp_dlci s1) w));
             s3 = snd (tick_hfp_stall now timeout s2) in
    sv_hfp_pending_commands s2 \<noteq> [] \<and> sv_hfp_in_flight_command s2 = None \<and>
    fst (tick_hfp_stall now timeout s2) \<and> sv_hfp_slc_failed s3 \<and> sv_hfp_pending_commands s3 = [] \<and>
    last (sv_hfp_events s3) = ServiceLevelConnectionFailed ''(unknown)'' (Some timeout)"
  using assms
  by (simp add: handle_disc_def handle_sabm_def tick_hfp_stall_def initial_service_level_commands_def
      Let_def)

theorem stale_timer_fails_reopened_channel_witness:
  "let s = (server_new :: unit RfcommState)\<lparr>sv_multiplexer_open := True, sv_hfp_dlci := 2,
             sv_hfp_in_flight_command := Some RetrieveIndicators,
             sv_hfp_in_flight_command_sent_at := Some 0\<rparr>;
       s1 = fst (snd (handle_disc s 2 ())); s2 = fst (snd (handle_sabm s1 2 ()))
   in sv_hfp_slc_failed (snd (tick_hfp_stall 10 10 s2))"
  using stale_timer_fails_reopened_channel [of "(server_new :: unit RfcommState)\<lparr>sv_multiplexer_open := True,
             sv_hfp_dlci := 2, sv_hfp_in_flight_command := Some RetrieveIndicators,
             sv_hfp_in_flight_command_sent_at := Some 0\<rparr>" 0 10 10 "()"]
  by (simp add: server_new_def hfp_new_def Let_def handle_disc_def)

text \<open>a peer's DISC on an outbound DLCI of the shared multiplexer is
  acknowledged and nothing else: the DLCI stays open to the runtime that owns it, which is told
  nothing and can go on sending.\<close>

theorem server_disc_leaves_dlci_open:
  assumes "server_dlci_phase s d = Some DlciOpen" "d \<noteq> 0" "d \<noteq> sv_hfp_dlci s"
    "sv_extra_channel_handlers s d = None"
  shows "server_handle_frame now s
      \<lparr>fr_dlci = d, fr_command_response = True, fr_kind = Disc, fr_poll_final = True,
       fr_credits = None, fr_payload = []\<rparr> w = (Inr [build_ua d True], s, w) \<and>
    is_ok (server_build_uih_on_client_dlci s d payload)"
  using assms
  by (auto simp: server_handle_frame_def handle_disc_def server_build_uih_on_client_dlci_def
      server_dlci_phase_def)

theorem server_disc_leaves_dlci_open_witness:
  "let s = (server_new :: unit RfcommState)\<lparr>sv_client_dlcis := [11 \<mapsto>
             \<lparr>cd_phase = DlciOpen, cd_msc_local_pending = False, cd_msc_remote_received = True\<rparr>],
             sv_hfp_dlci := 2\<rparr>
   in is_ok (server_build_uih_on_client_dlci s 11 [0])"
  using server_disc_leaves_dlci_open [of "(server_new :: unit RfcommState)\<lparr>sv_client_dlcis := [11 \<mapsto>
             \<lparr>cd_phase = DlciOpen, cd_msc_local_pending = False, cd_msc_remote_received = True\<rparr>],
             sv_hfp_dlci := 2\<rparr>" 11 0 "()" "[0]"]
  by (simp add: server_dlci_phase_def server_new_def Let_def)

text \<open>A peer's refusal (DM) of an outbound DLCI is reported
  once and leaves a failed entry that blocks the channel from being attached again; the forced
  disconnect of the recovery path clears it, after which attaching succeeds and starts over.\<close>

theorem refused_dlci_reattaches_only_after_disc:
  assumes "server_attach_client_dlci s0 channel = Inr ((d, frame), s)"
  shows "let s1 = fail_client_dlci s d (PeerSentDm d);
             s2 = snd (build_force_disc_dlci s1 d) in
    filter (\<lambda>e. event_dlci e = d) (sv_client_events s1) =
      filter (\<lambda>e. event_dlci e = d) (sv_client_events s) @ [DlciFailedEvent d (PeerSentDm d)] \<and>
    server_attach_client_dlci s1 channel = Inl (DlciInUse d) \<and>
    is_ok (server_attach_client_dlci s2 channel)"
proof -
  let ?s1 = "fail_client_dlci s d (PeerSentDm d)"
  from server_mux.attach_effect [OF assms]
  have d: "d = server_channel_dlci channel True"
    and p: "server_dlci_phase s d = Some AwaitingPnRsp" by simp_all
  from assms have open_: "sv_multiplexer_open s" and res: "\<not> server_reserved s d"
    by (auto simp: server_attach_client_dlci_def server_reserved_def Let_def split: if_splits)
  from p obtain c where c: "sv_client_dlcis s d = Some c" by (auto simp: server_dlci_phase_def)
  have one: "sv_multiplexer_open ?s1" "\<not> server_reserved ?s1 d" "server_dlci_phase ?s1 d \<noteq> None"
    "sv_client_events ?s1 = sv_client_events s @ [DlciFailedEvent d (PeerSentDm d)]"
    using open_ res c
    by (simp_all add: fail_client_dlci_def server_reserved_def server_dlci_phase_def)
  have "is_ok (server_attach_client_dlci (snd (build_force_disc_dlci ?s1 d)) channel)"
    using server_mux.reattach_after_force_disc [of ?s1 channel] one d by (metis prod.collapse)
  moreover have "server_attach_client_dlci ?s1 channel = Inl (DlciInUse d)"
    using one d by (auto simp: server_attach_client_dlci_def server_dlci_phase_def Let_def)
  ultimately show ?thesis using one(4) by (simp add: Let_def)
qed

theorem refused_dlci_reattaches_only_after_disc_witness:
  "\<exists>s d frame. server_attach_client_dlci ((server_new :: unit RfcommState)\<lparr>sv_multiplexer_open := True\<rparr>) 5 =
       Inr ((d, frame), s) \<and>
     server_attach_client_dlci (fail_client_dlci s d (PeerSentDm d)) 5 = Inl (DlciInUse d)"
proof -
  let ?s0 = "(server_new :: unit RfcommState)\<lparr>sv_multiplexer_open := True\<rparr>"
  have "is_ok (server_attach_client_dlci ?s0 5)"
    by (simp add: server_mux.attach_iff server_new_def server_reserved_def server_dlci_phase_def
        aokie_hfp_dlci_def server_channel_dlci_def)
  then obtain d frame s where a: "server_attach_client_dlci ?s0 5 = Inr ((d, frame), s)"
    by (cases "server_attach_client_dlci ?s0 5") auto
  from refused_dlci_reattaches_only_after_disc [OF a] a show ?thesis by (auto simp: Let_def)
qed

end
