(* ===== verification/Hfp_Client.thy ===== *)
theory Hfp_Client
  imports Rfcomm_Slc
begin

text \<open>
  \<open>HfpClientState\<close> of \<open>aokie_radio/hfp_client.rs\<close>: the hands-free connection Aokie opens itself when it
  pages a known phone.  It owns an RFCOMM initiator (\<open>Rfcomm_Client\<close>), reacts to its events, and
  runs the same queue of set-up commands as the phone-opened session, but under the credit flow
  control of the initiator: a command waits in the queue until the phone has granted a credit.

  \<open>Instant::now()\<close> is the argument \<open>now\<close>.  An error of a step leaves the state as far as the source had
  changed it, so a fallible step returns a result and the state.
\<close>

section \<open>State\<close>

datatype hfp_client_error =
    ClientFrame rfcomm_error
  | ClientRefused client_error
  | ClientMux mux_error
  | ClientUtf8
  | SessionClosed

record HfpClientState =
  hc_client :: RfcommClientState
  hc_hfp_state :: HfpHandsFreeState
  hc_line_carry :: rstr
  hc_pending_commands :: "HfpAtCommand list"
  hc_in_flight_command :: "HfpAtCommand option"
  hc_in_flight_sent_at :: "instant option"
  hc_slc_failed :: bool
  hc_outstanding :: outstanding
  hc_events :: "HfpEvent list"
  hc_wbs_supported :: bool
  hc_closed :: bool

definition hfp_client_new :: "u8 \<Rightarrow> bool \<Rightarrow> bool \<Rightarrow> HfpClientState" where
  "hfp_client_new server_channel wbs call_waiting =
     \<lparr>hc_client = client_new server_channel,
      hc_hfp_state = set_wbs_supported wbs (set_call_waiting_enabled call_waiting hfp_new),
      hc_line_carry = [], hc_pending_commands = [], hc_in_flight_command = None,
      hc_in_flight_sent_at = None, hc_slc_failed = False, hc_outstanding = [], hc_events = [],
      hc_wbs_supported = wbs, hc_closed = False\<rparr>"

section \<open>Queries and delegated operations\<close>

definition hfp_client_kickoff ::
    "instant \<Rightarrow> HfpClientState \<Rightarrow> (hfp_client_error + bytes) \<times> HfpClientState" where
  "hfp_client_kickoff now s =
     (let s1 = s\<lparr>hc_in_flight_sent_at := Some now\<rparr> in
      case kickoff (hc_client s1) of
        Inl e \<Rightarrow> (Inl (ClientRefused e), s1)
      | Inr (frame, c) \<Rightarrow> (Inr frame, s1\<lparr>hc_client := c\<rparr>))"

definition hfp_client_is_open :: "HfpClientState \<Rightarrow> bool" where
  "hfp_client_is_open s = (client_is_open (hc_client s) \<and> \<not> hc_closed s)"

definition hfp_client_mux_is_open :: "HfpClientState \<Rightarrow> bool" where
  "hfp_client_mux_is_open s = (mux_is_open (hc_client s) \<and> \<not> hc_closed s)"

definition hfp_client_attach_client_dlci ::
    "HfpClientState \<Rightarrow> u8 \<Rightarrow> hfp_client_error + (u8 \<times> bytes) \<times> HfpClientState" where
  "hfp_client_attach_client_dlci s server_channel =
     (if hc_closed s then Inl SessionClosed
      else case client_attach_client_dlci (hc_client s) server_channel of
        Inl e \<Rightarrow> Inl (ClientMux e)
      | Inr (r, c) \<Rightarrow> Inr (r, s\<lparr>hc_client := c\<rparr>))"

definition hfp_client_take_client_events_for_dlci ::
    "HfpClientState \<Rightarrow> u8 \<Rightarrow> ClientDlciEvent list \<times> HfpClientState" where
  "hfp_client_take_client_events_for_dlci s d =
     (let (evs, c) = client_take_client_events_for_dlci (hc_client s) d in (evs, s\<lparr>hc_client := c\<rparr>))"

definition hfp_client_build_uih_on_client_dlci ::
    "HfpClientState \<Rightarrow> u8 \<Rightarrow> bytes \<Rightarrow> mux_error + bytes \<times> HfpClientState" where
  "hfp_client_build_uih_on_client_dlci s d p =
     (case client_build_uih_on_client_dlci (hc_client s) d p of
        Inl e \<Rightarrow> Inl e
      | Inr (frame, c) \<Rightarrow> Inr (frame, s\<lparr>hc_client := c\<rparr>))"

definition hfp_client_build_force_disc_secondary_dlci ::
    "HfpClientState \<Rightarrow> u8 \<Rightarrow> bytes \<times> HfpClientState" where
  "hfp_client_build_force_disc_secondary_dlci s d =
     (let (frame, c) = client_build_force_disc_secondary_dlci (hc_client s) d in (frame, s\<lparr>hc_client := c\<rparr>))"

definition hfp_client_take_hfp_events :: "HfpClientState \<Rightarrow> HfpEvent list \<times> HfpClientState" where
  "hfp_client_take_hfp_events s = (hc_events s, s\<lparr>hc_events := []\<rparr>)"

section \<open>Set-up commands\<close>

definition build_at_frame ::
    "instant \<Rightarrow> HfpClientState \<Rightarrow> HfpAtCommand \<Rightarrow> (hfp_client_error + bytes) \<times> HfpClientState" where
  "build_at_frame now s command =
     (let s1 = s\<lparr>hc_hfp_state := mark_command_sent (hc_hfp_state s) command\<rparr>;
          s2 = (if hf_service_level_ready (hc_hfp_state s1)
                then s1\<lparr>hc_outstanding := outstanding_sent (hc_outstanding s1) command now\<rparr> else s1) in
      case build_outbound_uih (hc_client s2) (build_at_command command) of
        Inl e \<Rightarrow> (Inl (ClientRefused e), s2)
      | Inr (frame, c) \<Rightarrow> (Inr frame, s2\<lparr>hc_client := c\<rparr>))"

definition next_command_frame ::
    "instant \<Rightarrow> HfpClientState \<Rightarrow> (hfp_client_error + bytes option) \<times> HfpClientState" where
  "next_command_frame now s =
     (if \<not> can_send_data (hc_client s) then (Inr None, s) else
      let (c, rest) = pop_slc_command (hc_hfp_state s) (hc_pending_commands s);
          s1 = s\<lparr>hc_pending_commands := rest\<rparr> in
      case c of
        None \<Rightarrow> (Inr None, s1)
      | Some command \<Rightarrow>
          (case build_at_frame now s1 command of
             (Inl e, s2) \<Rightarrow> (Inl e, s2)
           | (Inr frame, s2) \<Rightarrow>
               (Inr (Some frame),
                s2\<lparr>hc_in_flight_command := Some command, hc_in_flight_sent_at := Some now\<rparr>)))"

definition advance_slc_queue ::
    "instant \<Rightarrow> HfpClientState \<Rightarrow> (hfp_client_error + bytes list) \<times> HfpClientState" where
  "advance_slc_queue now s =
     (case next_command_frame now s of
        (Inl e, s1) \<Rightarrow> (Inl e, s1)
      | (Inr (Some frame), s1) \<Rightarrow> (Inr [frame], s1)
      | (Inr None, s1) \<Rightarrow>
          if hc_pending_commands s1 \<noteq> [] then (Inr [], s1) else
          let (again, h) = needs_indicator_definitions_retry (hc_hfp_state s1);
              s2 = s1\<lparr>hc_hfp_state := h\<rparr> in
          if again then
            (case next_command_frame now
                    (s2\<lparr>hc_pending_commands := [RetrieveIndicators, RetrieveIndicatorStatus]\<rparr>) of
               (Inl e, s3) \<Rightarrow> (Inl e, s3)
             | (Inr (Some frame), s3) \<Rightarrow> (Inr [frame], s3)
             | (Inr None, s3) \<Rightarrow> (Inr [], s3))
          else
            let (ev, h') = mark_service_level_ready (hc_hfp_state s2);
                s3 = s2\<lparr>hc_hfp_state := h'\<rparr>
            in (Inr [], case ev of None \<Rightarrow> s3 | Some e \<Rightarrow> s3\<lparr>hc_events := hc_events s3 @ [e]\<rparr>))"

definition client_ready_error :: "HfpClientState \<Rightarrow> HfpClientState" where
  "client_ready_error s =
     (let (name, q) =
        (case hc_in_flight_command s of
           Some c \<Rightarrow> (at_command_name c, hc_outstanding s)
         | None \<Rightarrow>
             (case outstanding_answered (hc_outstanding s) of
                (Some n, q) \<Rightarrow> (n, q)
              | (None, q) \<Rightarrow> (''unsolicited'', q)))
      in s\<lparr>hc_in_flight_command := None, hc_in_flight_sent_at := None, hc_outstanding := q,
           hc_events := hc_events s @ [CommandRejected name False]\<rparr>)"

definition client_slc_ok ::
    "instant \<Rightarrow> HfpClientState \<Rightarrow> (hfp_client_error + bytes list) \<times> HfpClientState" where
  "client_slc_ok now s =
     (let s1 = (if hc_in_flight_command s = Some EnableCallWaitingNotifications
                then s\<lparr>hc_hfp_state := note_ccwa_accepted (hc_hfp_state s)\<rparr> else s);
          s2 = s1\<lparr>hc_in_flight_command := None, hc_in_flight_sent_at := None\<rparr>
      in if \<not> hc_slc_failed s2 then advance_slc_queue now s2 else (Inr [], s2))"

definition client_slc_error ::
    "instant \<Rightarrow> HfpClientState \<Rightarrow> (hfp_client_error + bytes list) \<times> HfpClientState" where
  "client_slc_error now s =
     (let failed_command = hc_in_flight_command s;
          s1 = s\<lparr>hc_in_flight_command := None, hc_in_flight_sent_at := None\<rparr>;
          (capability_probe, h) =
            (case failed_command of
               None \<Rightarrow> (False, hc_hfp_state s1)
             | Some c \<Rightarrow> note_slc_probe_error (hc_hfp_state s1) c);
          s2 = s1\<lparr>hc_hfp_state := h\<rparr> in
      if capability_probe then
        (if \<not> hc_slc_failed s2 then advance_slc_queue now s2 else (Inr [], s2))
      else
        let s3 = (if \<not> hf_service_level_ready (hc_hfp_state s2)
                  then s2\<lparr>hc_pending_commands := [], hc_slc_failed := True\<rparr> else s2);
            label = (case failed_command of None \<Rightarrow> ''unsolicited'' | Some c \<Rightarrow> at_command_name c)
        in (Inr [], s3\<lparr>hc_events := hc_events s3 @ [ServiceLevelConnectionFailed label None]\<rparr>))"

definition client_result_step ::
    "instant \<Rightarrow> HfpClientState \<Rightarrow> HfpAgResult \<Rightarrow> (hfp_client_error + bytes list) \<times> HfpClientState" where
  "client_result_step now s0 result =
     (let (events, h) = apply_result (hc_hfp_state s0) result;
          s = s0\<lparr>hc_hfp_state := h, hc_events := hc_events s0 @ events\<rparr>;
          ready = hf_service_level_ready (hc_hfp_state s) in
      case result of
        AgOk \<Rightarrow>
          if hc_in_flight_command s = None \<and> ready
          then (Inr [], s\<lparr>hc_outstanding := snd (outstanding_answered (hc_outstanding s))\<rparr>)
          else client_slc_ok now s
      | AgError \<Rightarrow> if ready then (Inr [], client_ready_error s) else client_slc_error now s
      | AgSelectedCodec codec \<Rightarrow>
          (case build_at_frame now s
                  (if codec_offered (hc_hfp_state s) codec then ConfirmCodec codec
                   else AvailableCodecs (hc_wbs_supported s)) of
             (Inl e, s') \<Rightarrow> (Inl e, s')
           | (Inr frame, s') \<Rightarrow> (Inr [frame], s'))
      | _ \<Rightarrow> (Inr [], s))"

fun client_result_steps ::
    "instant \<Rightarrow> HfpClientState \<Rightarrow> HfpAgResult list \<Rightarrow> (hfp_client_error + bytes list) \<times> HfpClientState" where
  "client_result_steps now s [] = (Inr [], s)"
| "client_result_steps now s (r # rs) =
     (case client_result_step now s r of
        (Inl e, s1) \<Rightarrow> (Inl e, s1)
      | (Inr out, s1) \<Rightarrow>
          (case client_result_steps now s1 rs of
             (Inl e, s2) \<Rightarrow> (Inl e, s2)
           | (Inr out', s2) \<Rightarrow> (Inr (out @ out'), s2)))"

definition handle_ag_payload ::
    "instant \<Rightarrow> HfpClientState \<Rightarrow> bytes \<Rightarrow> (hfp_client_error + bytes list) \<times> HfpClientState" where
  "handle_ag_payload now s payload =
     (case parse_ag_results_buffered (hc_line_carry s) payload of
        (None, carry) \<Rightarrow> (Inl ClientUtf8, s\<lparr>hc_line_carry := carry\<rparr>)
      | (Some results, carry) \<Rightarrow> client_result_steps now (s\<lparr>hc_line_carry := carry\<rparr>) results)"

section \<open>Inbound packets\<close>

definition client_opened ::
    "instant \<Rightarrow> HfpClientState \<Rightarrow> (hfp_client_error + bytes list) \<times> HfpClientState" where
  "client_opened now s =
     (case next_command_frame now
             (s\<lparr>hc_pending_commands := initial_service_level_commands (hc_wbs_supported s)
                  (hf_call_waiting_enabled (hc_hfp_state s))\<rparr>) of
        (Inl e, s') \<Rightarrow> (Inl e, s')
      | (Inr None, s') \<Rightarrow> (Inr [], s')
      | (Inr (Some frame), s') \<Rightarrow> (Inr [frame], s'))"

definition client_peer_closed :: "HfpClientState \<Rightarrow> HfpClientState" where
  "client_peer_closed s =
     (let s1 = s\<lparr>hc_in_flight_command := None, hc_in_flight_sent_at := None, hc_closed := True\<rparr> in
      if \<not> hf_service_level_ready (hc_hfp_state s1)
      then s1\<lparr>hc_slc_failed := True,
              hc_events := hc_events s1 @
                [ServiceLevelConnectionFailed ''peer closed the RFCOMM channel during outbound SLC'' None]\<rparr>
      else s1)"

fun client_reason_text :: "client_reason \<Rightarrow> string" where
  "client_reason_text (PeerDmOn d) =
     ''RFCOMM peer sent DM on dlci '' @ map char_of (dec_digits (unat d))"

definition client_handshake_failed :: "HfpClientState \<Rightarrow> client_reason \<Rightarrow> HfpClientState" where
  "client_handshake_failed s reason =
     s\<lparr>hc_in_flight_command := None, hc_in_flight_sent_at := None, hc_slc_failed := True,
       hc_events := hc_events s @ 
         [ServiceLevelConnectionFailed (''outbound RFCOMM handshake failed: '' @ client_reason_text reason) None],
       hc_closed := True\<rparr>"

definition client_event ::
    "instant \<Rightarrow> HfpClientState \<Rightarrow> RfcommClientEvent \<Rightarrow> (hfp_client_error + bytes list) \<times> HfpClientState" where
  "client_event now s e = (case e of
     COpenedEvent \<Rightarrow> client_opened now s
   | CPayloadEvent payload \<Rightarrow> handle_ag_payload now s payload
   | CClosedEvent \<Rightarrow> (Inr [], client_peer_closed s)
   | CFailedEvent reason \<Rightarrow> (Inr [], client_handshake_failed s reason))"

fun client_events ::
    "instant \<Rightarrow> HfpClientState \<Rightarrow> RfcommClientEvent list \<Rightarrow> (hfp_client_error + bytes list) \<times> HfpClientState" where
  "client_events now s [] = (Inr [], s)"
| "client_events now s (e # es) =
     (case client_event now s e of
        (Inl err, s1) \<Rightarrow> (Inl err, s1)
      | (Inr out, s1) \<Rightarrow>
          (case client_events now s1 es of
             (Inl err, s2) \<Rightarrow> (Inl err, s2)
           | (Inr out', s2) \<Rightarrow> (Inr (out @ out'), s2)))"

definition credit_pump ::
    "instant \<Rightarrow> HfpClientState \<Rightarrow> (hfp_client_error + bytes list) \<times> HfpClientState" where
  "credit_pump now s =
     (if hfp_client_is_open s \<and> \<not> hc_slc_failed s \<and> hc_in_flight_command s = None then
        (case next_command_frame now s of
           (Inl e, s') \<Rightarrow> (Inl e, s')
         | (Inr None, s') \<Rightarrow> (Inr [], s')
         | (Inr (Some frame), s') \<Rightarrow> (Inr [frame], s'))
      else (Inr [], s))"

definition hfp_client_handle_packet ::
    "instant \<Rightarrow> HfpClientState \<Rightarrow> bytes \<Rightarrow> (hfp_client_error + bytes list) \<times> HfpClientState" where
  "hfp_client_handle_packet now s packet =
     (case client_handle_packet (hc_client s) packet of
        Inl e \<Rightarrow> (Inl (ClientFrame e), s)
      | Inr (out, c) \<Rightarrow>
          let (evs, c') = client_take_events c in
          (case client_events now (s\<lparr>hc_client := c'\<rparr>) evs of
             (Inl e, s1) \<Rightarrow> (Inl e, s1)
           | (Inr out1, s1) \<Rightarrow>
               (case credit_pump now s1 of
                  (Inl e, s2) \<Rightarrow> (Inl e, s2)
                | (Inr out2, s2) \<Rightarrow> (Inr (out @ out1 @ out2), s2))))"

section \<open>Call control and the stall timer\<close>

definition hfp_client_build_call_control_command ::
    "instant \<Rightarrow> HfpClientState \<Rightarrow> HfpAtCommand \<Rightarrow> bytes option \<times> HfpClientState" where
  "hfp_client_build_call_control_command now s command =
     (if \<not> hfp_client_is_open s then (None, s)
      else case build_at_frame now s command of
        (Inl e, s') \<Rightarrow> (None, s')
      | (Inr frame, s') \<Rightarrow> (Some frame, s'))"

definition hfp_client_tick_hfp_stall ::
    "instant \<Rightarrow> duration \<Rightarrow> HfpClientState \<Rightarrow> bool \<times> HfpClientState" where
  "hfp_client_tick_hfp_stall now timeout s =
     (if hf_service_level_ready (hc_hfp_state s) \<and> hc_in_flight_sent_at s = None then
        (case outstanding_timed_out (hc_outstanding s) now timeout of
           (None, q) \<Rightarrow> (False, s)
         | (Some name, q) \<Rightarrow>
             (True, s\<lparr>hc_outstanding := q, hc_events := hc_events s @ [CommandRejected name True]\<rparr>))
      else case hc_in_flight_sent_at s of
        None \<Rightarrow> (False, s)
      | Some sent_at \<Rightarrow>
          if now - sent_at < timeout then (False, s)
          else
            let stalled = (case hc_in_flight_command s of
                             None \<Rightarrow> ''RFCOMM handshake'' | Some c \<Rightarrow> at_command_name c);
                s1 = s\<lparr>hc_in_flight_command := None, hc_in_flight_sent_at := None\<rparr>;
                s2 = (if \<not> hf_service_level_ready (hc_hfp_state s1)
                      then s1\<lparr>hc_pending_commands := [], hc_slc_failed := True\<rparr> else s1)
            in (True, s2\<lparr>hc_events := hc_events s2 @
                           [ServiceLevelConnectionFailed (''outbound '' @ stalled) (Some timeout)]\<rparr>))"

section \<open>The shared multiplexer\<close>

text \<open>The session carries outbound DLCIs through its RFCOMM initiator, and refuses new ones once
  the phone has closed it: it meets the same contract as the initiator itself.\<close>

definition hfp_client_dlci_phase :: "HfpClientState \<Rightarrow> u8 \<Rightarrow> ClientDlciPhase option" where
  "hfp_client_dlci_phase s = secondary_phase (hc_client s)"

definition hfp_client_reserved :: "HfpClientState \<Rightarrow> u8 \<Rightarrow> bool" where
  "hfp_client_reserved s = client_reserved (hc_client s)"

definition hfp_client_queued :: "HfpClientState \<Rightarrow> ClientDlciEvent list" where
  "hfp_client_queued s = cl_client_events (hc_client s)"

lemmas hfp_client_mux_defs =
  hfp_client_dlci_phase_def hfp_client_reserved_def hfp_client_queued_def hfp_client_mux_is_open_def
  hfp_client_attach_client_dlci_def hfp_client_take_client_events_for_dlci_def
  hfp_client_build_uih_on_client_dlci_def hfp_client_build_force_disc_secondary_dlci_def

interpretation hfp_client_mux: dlci_mux hfp_client_dlci_phase hfp_client_queued hfp_client_mux_is_open
    hfp_client_reserved hfp_client_attach_client_dlci hfp_client_take_client_events_for_dlci
    hfp_client_build_uih_on_client_dlci hfp_client_build_force_disc_secondary_dlci
proof (unfold_locales, goal_cases)
  case (1 s ch)
  then show ?case
    using client_mux.attach_iff [of "hc_client s" ch]
    by (auto simp: hfp_client_mux_defs split: sum.splits)
next
  case (2 s ch d fr s')
  then show ?case
    using client_mux.attach_effect [of "hc_client s" ch d fr]
    by (auto simp: hfp_client_mux_defs split: if_splits sum.splits)
next
  case (3 s d evs s')
  then show ?case
    using client_mux.take_effect [of "hc_client s" d evs]
    by (auto simp: hfp_client_mux_defs split: prod.splits)
next
  case (4 s d p)
  then show ?case
    using client_mux.uih_iff [of "hc_client s" d p]
    by (auto simp: hfp_client_mux_defs split: sum.splits)
next
  case (5 s d p fr s')
  then show ?case
    using client_mux.uih_effect [of "hc_client s" d p fr]
    by (auto simp: hfp_client_mux_defs split: sum.splits)
next
  case (6 s d fr s')
  then show ?case
    using client_mux.force_disc_effect [of "hc_client s" d fr]
    by (auto simp: hfp_client_mux_defs split: prod.splits)
qed

section \<open>A driver of the set-up\<close>

definition client_left :: "HfpClientState \<Rightarrow> nat" where
  "client_left s = length (hc_pending_commands s) +
     (if hf_indicator_definitions_seen (hc_hfp_state s) \<or>
         hf_indicator_definitions_retry_used (hc_hfp_state s) then 0 else 2)"

text \<open>A set-up under way on an open channel, with a credit for every command that may be left.\<close>

definition client_funded :: "HfpClientState \<Rightarrow> bool" where
  "client_funded s =
     (client_is_open (hc_client s) \<and>
      (cl_credit_flow (hc_client s) \<longrightarrow> client_left s \<le> unat (cl_tx_credits (hc_client s))))"

definition client_setting_up :: "HfpClientState \<Rightarrow> bool" where
  "client_setting_up s =
     (\<not> hf_service_level_ready (hc_hfp_state s) \<and> \<not> hc_slc_failed s \<and> client_funded s)"

definition client_busy :: "HfpClientState \<Rightarrow> bool" where
  "client_busy s = (hc_in_flight_command s \<noteq> None \<and> client_setting_up s)"

definition client_slc_ready :: "HfpClientState \<Rightarrow> bool" where
  "client_slc_ready s = hf_service_level_ready (hc_hfp_state s)"

definition client_slc_log :: "HfpClientState \<Rightarrow> HfpEvent list" where
  "client_slc_log s = filter slc_event (hc_events s)"

definition client_result :: "instant \<Rightarrow> HfpClientState \<Rightarrow> HfpAgResult \<Rightarrow> HfpClientState" where
  "client_result now s r = snd (client_result_step now s r)"

definition client_progress :: "HfpClientState \<Rightarrow> HfpClientState \<Rightarrow> bool" where
  "client_progress s s' =
     (client_busy s' \<and> client_left s' < client_left s \<and> hc_events s' = hc_events s \<or>
      client_slc_ready s' \<and> hc_in_flight_command s' = None \<and>
        hc_events s' = hc_events s @ [ServiceLevelConnectionReady])"

text \<open>What sending a command on an open channel does.\<close>

definition spend_credit :: "RfcommClientState \<Rightarrow> RfcommClientState" where
  "spend_credit c = (if cl_credit_flow c then c\<lparr>cl_tx_credits := sat_sub16 (cl_tx_credits c) 1\<rparr> else c)"

definition at_frame :: "HfpClientState \<Rightarrow> HfpAtCommand \<Rightarrow> bytes" where
  "at_frame s command = build_uih (cl_target_dlci (hc_client s)) True None (build_at_command command)"

definition after_send :: "instant \<Rightarrow> HfpClientState \<Rightarrow> HfpAtCommand \<Rightarrow> HfpClientState" where
  "after_send now s command =
     s\<lparr>hc_client := spend_credit (hc_client s),
       hc_hfp_state := mark_command_sent (hc_hfp_state s) command,
       hc_outstanding := (if hf_service_level_ready (hc_hfp_state s)
         then outstanding_sent (hc_outstanding s) command now else hc_outstanding s)\<rparr>"

lemma after_send_frame [simp]:
  "hc_client (after_send now s c) = spend_credit (hc_client s)"
  "hc_hfp_state (after_send now s c) = mark_command_sent (hc_hfp_state s) c"
  "hc_pending_commands (after_send now s c) = hc_pending_commands s"
  "hc_in_flight_command (after_send now s c) = hc_in_flight_command s"
  "hc_in_flight_sent_at (after_send now s c) = hc_in_flight_sent_at s"
  "hc_slc_failed (after_send now s c) = hc_slc_failed s"
  "hc_events (after_send now s c) = hc_events s"
  "hc_closed (after_send now s c) = hc_closed s"
  by (simp_all add: after_send_def)

lemma spend_credit_frame [simp]:
  "cl_phase (spend_credit c) = cl_phase c"
  "cl_credit_flow (spend_credit c) = cl_credit_flow c"
  "client_is_open (spend_credit c) = client_is_open c"
  "cl_credit_flow c \<Longrightarrow> unat (cl_tx_credits (spend_credit c)) = unat (cl_tx_credits c) - 1"
  by (simp_all add: spend_credit_def client_is_open_def unat_sat_sub16)

lemma build_at_frame_open:
  assumes "client_is_open (hc_client s)"
  shows "build_at_frame now s c = (Inr (at_frame s c), after_send now s c)"
  using assms
  by (simp add: build_at_frame_def build_outbound_uih_def after_send_def spend_credit_def at_frame_def Let_def)

lemma next_command_frame_send:
  assumes "client_is_open (hc_client s)" "can_send_data (hc_client s)"
    "pop_slc_command (hc_hfp_state s) (hc_pending_commands s) = (Some c, rest)"
  shows "next_command_frame now s =
    (Inr (Some (at_frame s c)),
     (after_send now (s\<lparr>hc_pending_commands := rest\<rparr>) c)
       \<lparr>hc_in_flight_command := Some c, hc_in_flight_sent_at := Some now\<rparr>)"
  using assms by (simp add: next_command_frame_def build_at_frame_open at_frame_def)

lemma next_command_frame_cases:
  assumes "client_funded s"
  obtains (none) s' where "next_command_frame now s = (Inr None, s')"
      "s' = s\<lparr>hc_pending_commands := []\<rparr>"
  | (some) f s' c where "next_command_frame now s = (Inr (Some f), s')"
      "hc_in_flight_command s' = Some c" "client_funded s'"
      "length (hc_pending_commands s') < length (hc_pending_commands s)"
      "hf_service_level_ready (hc_hfp_state s') = hf_service_level_ready (hc_hfp_state s)"
      "hf_indicator_definitions_seen (hc_hfp_state s') = hf_indicator_definitions_seen (hc_hfp_state s)"
      "hf_indicator_definitions_retry_used (hc_hfp_state s') =
         hf_indicator_definitions_retry_used (hc_hfp_state s)"
      "hc_slc_failed s' = hc_slc_failed s" "hc_events s' = hc_events s"
proof -
  obtain c rest where p: "pop_slc_command (hc_hfp_state s) (hc_pending_commands s) = (c, rest)"
    by fastforce
  show thesis
  proof (cases "can_send_data (hc_client s)")
    case False
    with assms have "hc_pending_commands s = []"
      by (auto simp: can_send_data_def client_funded_def client_left_def word_gt_0 unat_eq_0)
    with False show ?thesis by (intro none) (auto simp: next_command_frame_def)
  next
    case send: True
    show ?thesis
    proof (cases c)
      case None
      with pop_slc_shorter [OF p] p send show ?thesis
        by (intro none) (auto simp: next_command_frame_def Let_def)
    next
      case (Some command)
      have l: "length rest < length (hc_pending_commands s)" using pop_slc_shorter [OF p] Some by simp
      have o: "client_is_open (hc_client s)" using assms by (simp add: client_funded_def)
      from l o assms show ?thesis
        by (intro some [OF next_command_frame_send [OF o send p [unfolded Some]]])
          (auto simp: client_funded_def client_left_def)
    qed
  qed
qed

lemma client_advance_progress:
  assumes "hc_in_flight_command s = None" "client_setting_up s"
  shows "client_progress s (snd (advance_slc_queue now s))"
proof -
  from assms(2) have f: "client_funded s" "\<not> hf_service_level_ready (hc_hfp_state s)" "\<not> hc_slc_failed s"
    by (simp_all add: client_setting_up_def)
  from f(1) show ?thesis
  proof (cases rule: next_command_frame_cases [where now = now])
    case (some fr s' c)
    with f show ?thesis
      by (simp add: advance_slc_queue_def client_progress_def client_busy_def client_setting_up_def client_left_def)
  next
    case (none s')
    let ?h = "hc_hfp_state s"
    show ?thesis
    proof (cases "hf_indicator_definitions_seen ?h \<or> hf_indicator_definitions_retry_used ?h")
      case True
      with none assms f show ?thesis
        by (auto simp: advance_slc_queue_def client_progress_def needs_indicator_definitions_retry_def
            client_slc_ready_def mark_service_level_ready_def Let_def)
    next
      case False
      let ?h' = "?h\<lparr>hf_indicator_definitions_retry_used := True\<rparr>"
      let ?t = "s\<lparr>hc_hfp_state := ?h',
                 hc_pending_commands := [RetrieveIndicators, RetrieveIndicatorStatus]\<rparr>"
      have a: "snd (advance_slc_queue now s) = snd (next_command_frame now ?t)"
        using none False
        by (simp add: advance_slc_queue_def needs_indicator_definitions_retry_def Let_def
            split: prod.split sum.split option.split)
      have ft: "client_funded ?t" using f False by (auto simp: client_funded_def client_left_def)
      have send: "can_send_data (hc_client ?t)"
        using f False by (auto simp: client_funded_def client_left_def can_send_data_def word_gt_0)
      have pop: "pop_slc_command (hc_hfp_state ?t) (hc_pending_commands ?t) =
          (Some RetrieveIndicators, [RetrieveIndicatorStatus])"
        by (simp add: should_skip_slc_command_def)
      have o: "client_is_open (hc_client ?t)" using f by (simp add: client_funded_def)
      from ft show ?thesis
      proof (cases rule: next_command_frame_cases [where now = now])
        case (none s'')
        then show ?thesis using next_command_frame_send [OF o send pop, of now] by simp
      next
        case (some fr s'' c)
        with a f False show ?thesis
          by (simp add: client_progress_def client_busy_def client_setting_up_def client_left_def)
      qed
    qed
  qed
qed

lemma client_progress_left:
  assumes "client_progress t s'" "client_left t = client_left s" "hc_events t = hc_events s"
  shows "client_progress s s'"
  using assms by (simp add: client_progress_def)

lemma client_ok_progress:
  assumes "client_busy s"
  shows "client_progress s (snd (client_slc_ok now s))"
proof -
  let ?s2 = "(if hc_in_flight_command s = Some EnableCallWaitingNotifications
      then s\<lparr>hc_hfp_state := note_ccwa_accepted (hc_hfp_state s)\<rparr> else s)
      \<lparr>hc_in_flight_command := None, hc_in_flight_sent_at := None\<rparr>"
  have "client_setting_up ?s2" "client_left ?s2 = client_left s"
    using assms
    by (auto simp: client_busy_def client_setting_up_def client_funded_def client_left_def note_ccwa_accepted_def)
  moreover from this have "client_progress ?s2 (snd (advance_slc_queue now ?s2))"
    by (intro client_advance_progress) simp_all
  ultimately have "client_progress s (snd (advance_slc_queue now ?s2))"
    by (elim client_progress_left) simp_all
  moreover have "\<not> hc_slc_failed ?s2" using assms by (simp add: client_busy_def client_setting_up_def)
  ultimately show ?thesis by (simp add: client_slc_ok_def Let_def)
qed

lemma client_error_progress:
  assumes "client_busy s" "hc_in_flight_command s = Some c" "optional_slc c"
  shows "client_progress s (snd (client_slc_error now s))"
proof -
  let ?s2 = "s\<lparr>hc_in_flight_command := None, hc_in_flight_sent_at := None,
      hc_hfp_state := snd (note_slc_probe_error (hc_hfp_state s) c)\<rparr>"
  note frame = note_slc_probe_error_frame [of "hc_hfp_state s" c]
  have up: "client_setting_up ?s2" "client_left ?s2 = client_left s"
    using assms(1) frame
    by (auto simp: client_busy_def client_setting_up_def client_funded_def client_left_def slc_frame_def)
  then have "client_progress ?s2 (snd (advance_slc_queue now ?s2))"
    by (intro client_advance_progress) simp_all
  then have "client_progress s (snd (advance_slc_queue now ?s2))"
    by (rule client_progress_left) (use up in simp_all)
  moreover have "\<not> hc_slc_failed ?s2" using assms(1) by (simp add: client_busy_def client_setting_up_def)
  ultimately show ?thesis
    using assms(2,3) frame(1) by (simp add: client_slc_error_def Let_def case_prod_beta)
qed

lemma client_info_step:
  assumes "info_result r" "client_busy s"
  shows "client_busy (client_result now s r) \<and> client_left (client_result now s r) \<le> client_left s \<and>
    hc_in_flight_command (client_result now s r) = hc_in_flight_command s \<and>
    client_slc_log (client_result now s r) = client_slc_log s"
proof -
  let ?st = "apply_result (hc_hfp_state s) r"
  have "client_result now s r = s\<lparr>hc_hfp_state := snd ?st, hc_events := hc_events s @ fst ?st\<rparr>"
    using assms(1) by (cases r) (simp_all add: client_result_def client_result_step_def case_prod_beta Let_def)
  with slc_frame_result [of "hc_hfp_state s" r] apply_result_slc_silent [of "hc_hfp_state s" r] assms(2)
  show ?thesis
    by (auto simp: client_busy_def client_setting_up_def client_funded_def client_left_def slc_frame_def
        client_slc_log_def)
qed

lemma client_final_step:
  assumes "client_busy s" "hc_in_flight_command s = Some c" "ok \<or> optional_slc c"
  shows "let s' = client_result now s (if ok then AgOk else AgError) in
    client_busy s' \<and> client_left s' < client_left s \<and> client_slc_log s' = client_slc_log s \<or>
    client_slc_ready s' \<and> hc_in_flight_command s' = None \<and>
      client_slc_log s' = client_slc_log s @ [ServiceLevelConnectionReady]"
proof -
  let ?r = "if ok then AgOk else AgError"
  let ?st = "apply_result (hc_hfp_state s) ?r"
  let ?t = "s\<lparr>hc_hfp_state := snd ?st, hc_events := hc_events s @ fst ?st\<rparr>"
  have k: "hf_indicator_definitions_seen (snd ?st) = hf_indicator_definitions_seen (hc_hfp_state s)"
    "fst ?st = []"
    by (simp_all add: apply_result_def call_shape_def)
  with slc_frame_result [of "hc_hfp_state s" ?r] assms(1)
  have t: "client_busy ?t" "client_left ?t = client_left s" "hc_events ?t = hc_events s"
    by (simp_all add: client_busy_def client_setting_up_def client_funded_def client_left_def slc_frame_def)
  have "client_progress ?t (client_result now s ?r)"
    using t(1) assms(2,3) client_ok_progress [OF t(1)] client_error_progress [OF t(1), of c]
    by (cases ok)
      (simp_all add: client_result_def client_result_step_def case_prod_beta Let_def client_busy_def
        client_setting_up_def)
  with t show ?thesis
    unfolding Let_def client_progress_def client_slc_log_def by auto
qed

interpretation client_setup: slc_machine hc_in_flight_command client_busy client_slc_ready client_left
    client_slc_log "client_result now" for now
proof (unfold_locales, goal_cases)
  case (1 s)
  then show ?case by (auto simp: client_busy_def)
next
  case (2 r s)
  then show ?case by (rule client_info_step)
next
  case (3 s c ok)
  then show ?case by (rule client_final_step)
qed

lemma first_command:
  assumes "can_send_data (hc_client s)" "client_is_open (hc_client s)"
    and "hc_pending_commands s = initial_service_level_commands wbs cw"
  obtains s' where "next_command_frame now s = (Inr (Some (at_frame s (SupportedFeatures cw))), s')"
    "hc_in_flight_command s' = Some (SupportedFeatures cw)"
proof -
  have "pop_slc_command (hc_hfp_state s) (hc_pending_commands s) =
      (Some (SupportedFeatures cw), tl (initial_service_level_commands wbs cw))"
    by (simp add: assms(3) initial_service_level_commands_def should_skip_slc_command_def)
  from next_command_frame_send [OF assms(2,1) this] that show thesis by simp
qed

section \<open>Properties\<close>

text \<open>C10: the connection Aokie opens itself comes up.  With a command in flight
  on an open channel and a credit for every command that may be left, a phone that answers every
  command and refuses at most the optional ones brings the connection up within the number of
  commands left plus one; readiness is announced once and no failure is.\<close>

theorem outbound_slc_completes:
  assumes "client_busy s" and "\<And>c. list_all info_result (fst (phone c))"
    and "\<And>c. snd (phone c) \<or> optional_slc c"
  shows "client_slc_ready (slc_run hc_in_flight_command (client_result now) phone (Suc (client_left s)) s) \<and>
    client_slc_log (slc_run hc_in_flight_command (client_result now) phone (Suc (client_left s)) s) =
      client_slc_log s @ [ServiceLevelConnectionReady]"
  using assms by (intro client_setup.run_completes) simp_all

theorem outbound_slc_completes_witness:
  "let s = (hfp_client_new 3 True False)
            \<lparr>hc_client := (client_new 3)\<lparr>cl_phase := COpen, cl_credit_flow := True, cl_tx_credits := 11\<rparr>,
             hc_pending_commands := tl (initial_service_level_commands True False),
             hc_in_flight_command := Some (SupportedFeatures False)\<rparr>
   in client_busy s \<and> client_left s = 11 \<and>
      client_slc_log (slc_run hc_in_flight_command (client_result 0)
        (\<lambda>c. ([AgUnknown []], \<not> optional_slc c)) 12 s) = [ServiceLevelConnectionReady]"
proof -
  let ?s = "(hfp_client_new 3 True False)
            \<lparr>hc_client := (client_new 3)\<lparr>cl_phase := COpen, cl_credit_flow := True, cl_tx_credits := 11\<rparr>,
             hc_pending_commands := tl (initial_service_level_commands True False),
             hc_in_flight_command := Some (SupportedFeatures False)\<rparr>"
  let ?phone = "\<lambda>c. ([AgUnknown []], \<not> optional_slc c)"
  have l: "client_left ?s = 11"
    by (simp add: client_left_def initial_service_level_commands_def hfp_client_new_def hfp_new_def
        set_wbs_supported_def set_call_waiting_enabled_def)
  then have b: "client_busy ?s"
    by (simp add: client_busy_def client_setting_up_def client_funded_def client_is_open_def hfp_client_new_def
        hfp_new_def set_wbs_supported_def set_call_waiting_enabled_def)
  have "client_slc_log (slc_run hc_in_flight_command (client_result 0) ?phone (Suc (client_left ?s)) ?s) =
      client_slc_log ?s @ [ServiceLevelConnectionReady]"
    using outbound_slc_completes [OF b, of ?phone 0] by simp
  with b l show ?thesis
    by (simp only: Let_def) (simp add: client_slc_log_def hfp_client_new_def)
qed

text \<open>When the packet that completes the RFCOMM handshake arrives, the
  first AT command goes out with it if the phone has granted a credit.  If not, nothing is sent and
  the command goes out, once, with the first later packet that brings one.\<close>

theorem outbound_first_command_once:
  assumes "client_handle_packet (hc_client s) packet = Inr (out, c)"
    and "cl_pending_events c = [COpenedEvent]" and "cl_phase c = COpen"
    and "\<not> hc_closed s" and "\<not> hc_slc_failed s" and "hc_in_flight_command s = None"
    and "client_handle_packet (c\<lparr>cl_pending_events := []\<rparr>) grant = Inr (out', c')"
    and "cl_pending_events c' = []" and "cl_phase c' = COpen" and "can_send_data c'"
  shows "let brsf = SupportedFeatures (hf_call_waiting_enabled (hc_hfp_state s));
             (r, s1) = hfp_client_handle_packet now s packet;
             (r', s2) = hfp_client_handle_packet later s1 grant in
    if can_send_data c
    then r = Inr (out @ [build_uih (cl_target_dlci c) True None (build_at_command brsf)]) \<and>
      hc_in_flight_command s1 = Some brsf
    else r = Inr out \<and> hc_in_flight_command s1 = None \<and>
      r' = Inr (out' @ [build_uih (cl_target_dlci c') True None (build_at_command brsf)]) \<and>
      hc_in_flight_command s2 = Some brsf"
proof -
  let ?cw = "hf_call_waiting_enabled (hc_hfp_state s)"
  let ?t = "s\<lparr>hc_client := c\<lparr>cl_pending_events := []\<rparr>,
              hc_pending_commands := initial_service_level_commands (hc_wbs_supported s) ?cw\<rparr>"
  have opened: "client_events now (s\<lparr>hc_client := c\<lparr>cl_pending_events := []\<rparr>\<rparr>) [COpenedEvent] =
      client_opened now (s\<lparr>hc_client := c\<lparr>cl_pending_events := []\<rparr>\<rparr>)"
    by (simp add: client_event_def split: prod.split sum.split)
  show ?thesis
  proof (cases "can_send_data c")
    case True
    then have "can_send_data (hc_client ?t)" "client_is_open (hc_client ?t)"
      using assms(3) by (simp_all add: can_send_data_def client_is_open_def)
    then obtain s' where "next_command_frame now ?t = (Inr (Some (at_frame ?t (SupportedFeatures ?cw))), s')"
      "hc_in_flight_command s' = Some (SupportedFeatures ?cw)"
      by (rule first_command [where s = ?t]) simp_all
    with assms opened True show ?thesis
      by (simp add: hfp_client_handle_packet_def client_take_events_def client_opened_def credit_pump_def
          at_frame_def case_prod_beta)
  next
    case False
    then have "\<not> can_send_data (hc_client ?t)" by (simp add: can_send_data_def)
    then have "client_opened now (s\<lparr>hc_client := c\<lparr>cl_pending_events := []\<rparr>\<rparr>) = (Inr [], ?t)"
      "credit_pump now ?t = (Inr [], ?t)"
      by (simp_all add: client_opened_def credit_pump_def next_command_frame_def)
    with assms opened have first: "hfp_client_handle_packet now s packet = (Inr out, ?t)"
      by (simp add: hfp_client_handle_packet_def client_take_events_def)
    let ?u = "?t\<lparr>hc_client := c'\<lparr>cl_pending_events := []\<rparr>\<rparr>"
    have "can_send_data (hc_client ?u)" "client_is_open (hc_client ?u)"
      using assms(9,10) by (simp_all add: can_send_data_def client_is_open_def)
    then obtain s' where u: "next_command_frame later ?u = (Inr (Some (at_frame ?u (SupportedFeatures ?cw))), s')"
      "hc_in_flight_command s' = Some (SupportedFeatures ?cw)"
      by (rule first_command [where s = ?u]) simp_all
    have "hfp_client_is_open ?u" using assms by (simp add: hfp_client_is_open_def client_is_open_def)
    with u have "credit_pump later ?u = (Inr [at_frame ?u (SupportedFeatures ?cw)], s')"
      using assms(5,6) by (simp add: credit_pump_def)
    with assms first False u(2) show ?thesis
      by (simp add: hfp_client_handle_packet_def client_take_events_def at_frame_def)
  qed
qed

theorem outbound_first_command_once_witness:
  "let c = (client_new 3)\<lparr>cl_phase := CAwaitingTargetUa, cl_credit_flow := True\<rparr>;
       s = (hfp_client_new 3 False False)\<lparr>hc_client := c\<rparr>;
       msc = build_uih 0 True None (build_modem_status_command 7 0x8d);
       grant = build_uih 7 False (Some 5) [] in
   fst (hfp_client_handle_packet 9 (snd (hfp_client_handle_packet 5 s msc)) grant) =
     Inr [build_uih 7 True None (build_at_command (SupportedFeatures False))]"
proof -
  let ?c = "(client_new 3)\<lparr>cl_phase := CAwaitingTargetUa, cl_credit_flow := True\<rparr>"
  let ?s = "(hfp_client_new 3 False False)\<lparr>hc_client := ?c\<rparr>"
  let ?msc = "build_uih 0 True None (build_modem_status_command 7 0x8d)"
  let ?grant = "build_uih 7 False (Some 5) []"
  let ?d = "?c\<lparr>cl_phase := COpen, cl_msc_remote_received := True, cl_pending_events := [COpenedEvent]\<rparr>"
  have t: "cl_target_dlci ?c = 7" by (simp add: client_new_def server_channel_dlci_def)
  have p: "client_handle_packet (hc_client ?s) ?msc =
      Inr ([build_uih 0 False None (build_modem_status_response 7 0x8d)], ?d)"
    using t by (simp add: step_simps on_mux_uih_def parse_modem_status on_mux_command_def
        maybe_emit_opened_def) (simp add: client_new_def)
  have g: "client_handle_packet (?d\<lparr>cl_pending_events := []\<rparr>) ?grant =
      Inr ([], ?d\<lparr>cl_pending_events := [], cl_tx_credits := 5\<rparr>)"
    using t
    by (simp add: client_handle_packet_def parse_build client_handle_frame_def on_uih_target_def
        grant_credits_def) (simp add: client_new_def sat_add16_def)
  have n: "cl_pending_events ?d = [COpenedEvent]" "\<not> hc_closed ?s" "\<not> hc_slc_failed ?s"
    "hc_in_flight_command ?s = None" "\<not> can_send_data ?d"
    "can_send_data (?d\<lparr>cl_pending_events := [], cl_tx_credits := 5\<rparr>)"
    "\<not> hf_call_waiting_enabled (hc_hfp_state ?s)"
    by (simp_all add: hfp_client_new_def client_new_def can_send_data_def set_wbs_supported_def
        set_call_waiting_enabled_def)
  from outbound_first_command_once [where s = ?s and packet = ?msc and grant = ?grant and now = 5 and later = 9,
      OF p _ _ _ _ _ g] n t
  show ?thesis by (simp add: Let_def case_prod_beta)
qed

text \<open>A set-up that waits for a credit is watched by no timer.  When
  the phone answers a command with OK while commands are left and no credit is, the session keeps
  the queue and waits, and the stall watchdog never fires however late it is called: a phone that
  grants no further credit leaves the set-up hanging with nothing reported.\<close>

theorem credit_starved_setup_unreported:
  assumes "hc_in_flight_command s = Some c" and "hc_pending_commands s \<noteq> []"
    and "\<not> hf_service_level_ready (hc_hfp_state s)" and "\<not> hc_slc_failed s"
    and "cl_credit_flow (hc_client s)" and "cl_tx_credits (hc_client s) = 0"
  shows "let (r, s') = client_result_step now s AgOk in
    r = Inr [] \<and> hc_pending_commands s' = hc_pending_commands s \<and> hc_in_flight_command s' = None \<and>
    hc_events s' = hc_events s \<and>
    (\<forall>later timeout. hfp_client_tick_hfp_stall later timeout s' = (False, s'))"
proof -
  have k: "fst (apply_result (hc_hfp_state s) AgOk) = []"
    "\<not> hf_service_level_ready (snd (apply_result (hc_hfp_state s) AgOk))"
    using assms(3) by (simp_all add: apply_result_def call_shape_def)
  have "\<not> can_send_data (hc_client s)" using assms(5,6) by (simp add: can_send_data_def)
  with assms k show ?thesis
    by (simp add: client_result_step_def client_slc_ok_def advance_slc_queue_def next_command_frame_def
        hfp_client_tick_hfp_stall_def note_ccwa_accepted_def case_prod_beta Let_def)
qed

theorem credit_starved_setup_unreported_witness:
  "let s = (hfp_client_new 3 False False)
            \<lparr>hc_client := (client_new 3)\<lparr>cl_phase := COpen, cl_credit_flow := True\<rparr>,
             hc_pending_commands := [RetrieveIndicators],
             hc_in_flight_command := Some (SupportedFeatures False), hc_in_flight_sent_at := Some 0\<rparr>
   in hfp_client_tick_hfp_stall 1000000 5 (snd (client_result_step 1 s AgOk)) =
        (False, snd (client_result_step 1 s AgOk))"
  using credit_starved_setup_unreported [of "(hfp_client_new 3 False False)
            \<lparr>hc_client := (client_new 3)\<lparr>cl_phase := COpen, cl_credit_flow := True\<rparr>,
             hc_pending_commands := [RetrieveIndicators],
             hc_in_flight_command := Some (SupportedFeatures False), hc_in_flight_sent_at := Some 0\<rparr>"
      "SupportedFeatures False" 1]
  by (simp add: hfp_client_new_def client_new_def hfp_new_def set_wbs_supported_def
      set_call_waiting_enabled_def case_prod_beta Let_def)

text \<open>the one retry of a refused hang-up exists on the phone-opened
  session only.  With the same call state (a live call, unchanged since AT+CHUP went out) and the
  same unanswered commands, a refusal makes the phone-opened session send AT+CHUP again, while the
  session Aokie opened sends nothing, reports the refusal and leaves the call state as it was.\<close>

theorem outbound_refusal_not_retried:
  assumes "hc_hfp_state s = sv_hfp_state t" and "hf_service_level_ready (sv_hfp_state t)"
    and "hf_call_active (sv_hfp_state t)" and "\<not> hf_hangup_retried (sv_hfp_state t)"
    and "hf_hangup_sent_live (sv_hfp_state t) = Some (hf_call_changes (sv_hfp_state t))"
    and "hc_in_flight_command s = None" and "sv_hfp_in_flight_command t = None"
    and "hc_outstanding s = (''AT+CHUP'', sent) # q" and "sv_hfp_outstanding t = hc_outstanding s"
  shows "fst (hfp_result_step now t AgError) =
      [build_uih (sv_hfp_dlci t) True None (build_at_command RejectOrHangup)] \<and>
    fst (client_result_step now s AgError) = Inr [] \<and>
    hc_events (snd (client_result_step now s AgError)) = hc_events s @ [CommandRejected ''AT+CHUP'' False] \<and>
    hc_hfp_state (snd (client_result_step now s AgError)) = hc_hfp_state s"
proof -
  have k: "apply_result h AgError = ([], h)" for h
    by (simp add: apply_result_def call_shape_def)
  show ?thesis
    using assms
    by (simp add: hfp_result_step_def client_result_step_def k on_ready_error_def client_ready_error_def
        outstanding_answered_def after_refusal_def build_hfp_command_frame_def case_prod_beta Let_def)
qed

theorem outbound_refusal_not_retried_witness:
  "let h = hfp_new\<lparr>hf_service_level_ready := True, hf_call_active := True, hf_hangup_sent_live := Some 0\<rparr>;
       s = (hfp_client_new 3 False False)\<lparr>hc_hfp_state := h, hc_outstanding := [(''AT+CHUP'', 0)]\<rparr>;
       t = (server_new :: unit RfcommState)\<lparr>sv_hfp_state := h, sv_hfp_outstanding := [(''AT+CHUP'', 0)]\<rparr>
   in length (fst (hfp_result_step 1 t AgError)) = 1 \<and>
      hc_events (snd (client_result_step 1 s AgError)) = [CommandRejected ''AT+CHUP'' False]"
  using outbound_refusal_not_retried [of
      "(hfp_client_new 3 False False)\<lparr>hc_hfp_state :=
         hfp_new\<lparr>hf_service_level_ready := True, hf_call_active := True, hf_hangup_sent_live := Some 0\<rparr>,
         hc_outstanding := [(''AT+CHUP'', 0)]\<rparr>"
      "(server_new :: unit RfcommState)\<lparr>sv_hfp_state :=
         hfp_new\<lparr>hf_service_level_ready := True, hf_call_active := True, hf_hangup_sent_live := Some 0\<rparr>,
         sv_hfp_outstanding := [(''AT+CHUP'', 0)]\<rparr>" 0 "[]" 1]
  by (simp add: hfp_client_new_def server_new_def hfp_new_def Let_def)

end
