(* ===== verification/Wire_Codec.thy ===== *)
theory Wire_Codec
  imports Prelude
begin

text \<open>
  The contract of the self-delimiting encodings on the wire (OBEX headers, SDP data elements,
  L2CAP frames and signalling commands): a decoder that reads one item off the front of a buffer
  and says how many octets it took, and the loop that reads a buffer full of them.
\<close>

text \<open>\<open>view\<close> is what the decoder reports of an encoded item, \<open>fits\<close> the items whose length the
  encoding can carry.\<close>

locale prefix_codec =
  fixes enc :: "'a \<Rightarrow> bytes"
    and dec :: "bytes \<Rightarrow> 'e + 'b \<times> nat"
    and view :: "'a \<Rightarrow> 'b"
    and fits :: "'a \<Rightarrow> bool"
  assumes dec_enc: "fits x \<Longrightarrow> dec (enc x @ rest) = Inr (view x, length (enc x))"
    and enc_nonempty: "fits x \<Longrightarrow> enc x \<noteq> []"
begin

text \<open>No encoding is a proper prefix of another, so a stream has one reading.\<close>

lemma enc_prefix_free:
  assumes "fits x" "fits y" "enc x @ r = enc y @ s"
  shows "view x = view y \<and> enc x = enc y \<and> r = s"
proof -
  from dec_enc [OF assms(1), of r] dec_enc [OF assms(2), of s] assms(3)
  have "view x = view y" "length (enc x) = length (enc y)" by simp_all
  with assms(3) show ?thesis by simp
qed

end

locale stream_codec = prefix_codec +
  fixes dec_all :: "bytes \<Rightarrow> 'e + 'b list"
  assumes dec_all_empty: "dec_all [] = Inr []"
    and dec_all_step:
      "buf \<noteq> [] \<Longrightarrow> dec buf = Inr (b, n) \<Longrightarrow>
         dec_all buf = and_then (dec_all (drop n buf)) (\<lambda>bs. Inr (b # bs))"
    and dec_all_stop: "buf \<noteq> [] \<Longrightarrow> dec buf = Inl e \<Longrightarrow> dec_all buf = Inl e"
begin

lemma dec_all_enc:
  assumes "fits x"
  shows "dec_all (enc x @ rest) = and_then (dec_all rest) (\<lambda>bs. Inr (view x # bs))"
  using dec_all_step [OF _ dec_enc [OF assms], of rest] enc_nonempty [OF assms] by simp

lemma dec_all_concat: "list_all fits xs \<Longrightarrow> dec_all (concat (map enc xs)) = Inr (map view xs)"
  by (induction xs) (simp_all add: dec_all_empty dec_all_enc)

text \<open>An unreadable item fails the whole buffer, whatever was read before it.\<close>

lemma dec_all_concat_error:
  assumes "list_all fits xs" "buf \<noteq> []" "dec buf = Inl e"
  shows "dec_all (concat (map enc xs) @ buf) = Inl e"
  using assms(1) by (induction xs) (simp_all add: dec_all_enc dec_all_stop [OF assms(2,3)])

end

end
