(* ===== verification/Sdp.thy ===== *)
theory Sdp
  imports Rust_Str Wire_Codec
begin

text \<open>
  Service discovery: \<open>aokie_radio/sdp.rs\<close> (data elements, the records Aokie publishes, the server that
  answers a search) and \<open>aokie_radio/sdp_client.rs\<close> (the query for a phone's service and the reading
  of its answer down to the RFCOMM channel).  Slices of the packet are lists; an error message is a
  constructor with what it reports.
\<close>

section \<open>Data elements\<close>

datatype sdp_error =
    SdpTooShort string nat nat
  | SdpEmpty
  | SdpUnsupported u8
  | SdpWrongPdu u8
  | SdpNotSequence string
  | SdpTrailing string nat
  | SdpNonUuidPattern
  | SdpListsOverrun nat nat
  | SdpContinuationMissing
  | SdpContinuationOverrun nat nat
  | SdpBadAttributeId
  | SdpChannelMissing
  | SdpChannelType
  | SdpNoMasChannel

definition sdp_require_len :: "bytes \<Rightarrow> nat \<Rightarrow> string \<Rightarrow> sdp_error + unit" where
  "sdp_require_len input min_len name =
     (if length input < min_len then Inl (SdpTooShort name min_len (length input)) else Inr ())"

datatype DataElement =
    DUint8 u8
  | DUint16 u16
  | DUint32 u32
  | DUuid16 u16
  | DBool bool
  | DText bytes
  | DSequence bytes

datatype ParsedDataElement =
    PNil
  | PUint8 u8
  | PUint16 u16
  | PUint32 u32
  | PUint64 "64 word"
  | PUint128 bytes
  | PInt8 u8
  | PInt16 u16
  | PInt32 u32
  | PInt64 "64 word"
  | PInt128 bytes
  | PUuid16 u16
  | PUuid32 u32
  | PUuid128 bytes
  | PBool bool
  | PText bytes
  | PSequence bytes
  | PAlternative bytes
  | PUrl bytes

definition BASE_UUID_TAIL :: bytes where
  "BASE_UUID_TAIL = [0x00, 0x00, 0x10, 0x00, 0x80, 0x00, 0x00, 0x80, 0x5f, 0x9b, 0x34, 0xfb]"

fun as_uuid16 :: "ParsedDataElement \<Rightarrow> u16 option" where
  "as_uuid16 (PUuid16 u) = Some u"
| "as_uuid16 (PUuid32 u) = (if unat u < 65536 then Some (ucast u) else None)"
| "as_uuid16 (PUuid128 bs) =
     (if take 2 bs = [0, 0] \<and> drop 4 bs = BASE_UUID_TAIL
      then Some (u16_from_be_bytes (bs ! 2) (bs ! 3)) else None)"
| "as_uuid16 _ = None"

fun is_uuid :: "ParsedDataElement \<Rightarrow> bool" where
  "is_uuid (PUuid16 _) = True"
| "is_uuid (PUuid32 _) = True"
| "is_uuid (PUuid128 _) = True"
| "is_uuid _ = False"

definition encode_variable_element :: "u8 \<Rightarrow> bytes \<Rightarrow> bytes" where
  "encode_variable_element base_descriptor payload =
     (let len = length payload in
      (if len \<le> 255 then [base_descriptor, word_of_nat len]
       else if len \<le> 65535 then (base_descriptor + 1) # u16_be (word_of_nat len)
       else (base_descriptor + 2) # u32_be (word_of_nat len)) @ payload)"

fun encode_data_element :: "DataElement \<Rightarrow> bytes" where
  "encode_data_element (DUint8 v) = [0x08, v]"
| "encode_data_element (DUint16 v) = 0x09 # u16_be v"
| "encode_data_element (DUint32 v) = 0x0a # u32_be v"
| "encode_data_element (DUuid16 v) = 0x19 # u16_be v"
| "encode_data_element (DBool v) = [0x28, if v then 1 else 0]"
| "encode_data_element (DText v) = encode_variable_element 0x25 v"
| "encode_data_element (DSequence v) = encode_variable_element 0x35 v"

definition word_from_be :: "bytes \<Rightarrow> 'a :: len word" where
  "word_from_be bs = foldl (\<lambda>w b. push_bit 8 w OR ucast b) 0 bs"

text \<open>The closure \<open>fixed\<close>: the \<open>len\<close> octets behind the descriptor.\<close>

definition sdp_fixed :: "bytes \<Rightarrow> nat \<Rightarrow> string \<Rightarrow> sdp_error + bytes" where
  "sdp_fixed input len name =
     and_then (sdp_require_len input (1 + len) name) (\<lambda>_. Inr (take len (drop 1 input)))"

definition parse_variable :: "bytes \<Rightarrow> u8 \<Rightarrow> sdp_error + ParsedDataElement \<times> nat" where
  "parse_variable input descriptor =
     (let header_len = (if descriptor AND 0x07 = 0x05 then 2
                        else if descriptor AND 0x07 = 0x06 then 3 else 5) in
      and_then (sdp_require_len input header_len ''SDP variable element'') (\<lambda>_.
        let len = (if header_len = 2 then unat (input ! 1)
                   else if header_len = 3 then unat (u16_from_be_bytes (input ! 1) (input ! 2))
                   else unat (u32_from_be_bytes (input ! 1) (input ! 2) (input ! 3) (input ! 4))) in
        and_then (sdp_require_len input (header_len + len) ''SDP variable element payload'') (\<lambda>_.
          let payload = take len (drop header_len input); kind = drop_bit 3 descriptor in
          Inr (if kind = 4 then PText payload
               else if kind = 6 then PSequence payload
               else if kind = 7 then PAlternative payload
               else PUrl payload, header_len + len))))"

definition parse_data_element :: "bytes \<Rightarrow> sdp_error + ParsedDataElement \<times> nat" where
  "parse_data_element input =
     (if input = [] then Inl SdpEmpty else
      let d = input ! 0 in
      if d = 0x00 then Inr (PNil, 1)
      else if d = 0x0b then and_then (sdp_fixed input 8 ''SDP uint64'') (\<lambda>b. Inr (PUint64 (word_from_be b), 9))
      else if d = 0x0c then and_then (sdp_fixed input 16 ''SDP uint128'') (\<lambda>b. Inr (PUint128 b, 17))
      else if d = 0x10 then and_then (sdp_fixed input 1 ''SDP int8'') (\<lambda>b. Inr (PInt8 (b ! 0), 2))
      else if d = 0x11 then
        and_then (sdp_fixed input 2 ''SDP int16'') (\<lambda>b. Inr (PInt16 (u16_from_be_bytes (b ! 0) (b ! 1)), 3))
      else if d = 0x12 then
        and_then (sdp_fixed input 4 ''SDP int32'')
          (\<lambda>b. Inr (PInt32 (u32_from_be_bytes (b ! 0) (b ! 1) (b ! 2) (b ! 3)), 5))
      else if d = 0x13 then and_then (sdp_fixed input 8 ''SDP int64'') (\<lambda>b. Inr (PInt64 (word_from_be b), 9))
      else if d = 0x14 then and_then (sdp_fixed input 16 ''SDP int128'') (\<lambda>b. Inr (PInt128 b, 17))
      else if d = 0x1a then
        and_then (sdp_fixed input 4 ''SDP uuid32'')
          (\<lambda>b. Inr (PUuid32 (u32_from_be_bytes (b ! 0) (b ! 1) (b ! 2) (b ! 3)), 5))
      else if d = 0x1c then and_then (sdp_fixed input 16 ''SDP uuid128'') (\<lambda>b. Inr (PUuid128 b, 17))
      else if d = 0x08 then
        and_then (sdp_require_len input 2 ''SDP uint8'') (\<lambda>_. Inr (PUint8 (input ! 1), 2))
      else if d = 0x09 then
        and_then (sdp_require_len input 3 ''SDP uint16'')
          (\<lambda>_. Inr (PUint16 (u16_from_be_bytes (input ! 1) (input ! 2)), 3))
      else if d = 0x0a then
        and_then (sdp_require_len input 5 ''SDP uint32'')
          (\<lambda>_. Inr (PUint32 (u32_from_be_bytes (input ! 1) (input ! 2) (input ! 3) (input ! 4)), 5))
      else if d = 0x19 then
        and_then (sdp_require_len input 3 ''SDP uuid16'')
          (\<lambda>_. Inr (PUuid16 (u16_from_be_bytes (input ! 1) (input ! 2)), 3))
      else if d = 0x28 then
        and_then (sdp_require_len input 2 ''SDP boolean'') (\<lambda>_. Inr (PBool (input ! 1 \<noteq> 0), 2))
      else if d \<in> set [0x25, 0x26, 0x27, 0x35, 0x36, 0x37, 0x3d, 0x3e, 0x3f, 0x45, 0x46, 0x47] then
        parse_variable input d
      else Inl (SdpUnsupported d))"

text \<open>Every element takes at least its descriptor and stays inside the buffer; the payload of a
  nested element is shorter than the element.\<close>

lemma parse_variable_used:
  "parse_variable input d = Inr (el, used) \<Longrightarrow> 2 \<le> used \<and> used \<le> length input"
  by (auto simp: parse_variable_def sdp_require_len_def Let_def split: if_splits)

lemma parse_data_element_used:
  "parse_data_element input = Inr (el, used) \<Longrightarrow> 1 \<le> used \<and> used \<le> length input"
  by (auto simp: parse_data_element_def sdp_fixed_def sdp_require_len_def Let_def Suc_le_eq
      dest!: parse_variable_used split: if_splits)

lemma parse_variable_inner:
  "parse_variable input d = Inr (el, used) \<Longrightarrow> el = PSequence inner \<or> el = PAlternative inner \<Longrightarrow>
     length inner < length input"
  by (auto simp: parse_variable_def sdp_require_len_def Let_def split: if_splits)

lemma parse_data_element_inner:
  "parse_data_element input = Inr (el, used) \<Longrightarrow> el = PSequence inner \<or> el = PAlternative inner \<Longrightarrow>
     length inner < length input"
  by (auto simp: parse_data_element_def sdp_fixed_def sdp_require_len_def Let_def
      dest!: parse_variable_inner [where inner = inner] split: if_splits)

section \<open>Records and the server\<close>

abbreviation (input) PDU_SERVICE_SEARCH_ATTRIBUTE_REQUEST :: u8 where
  "PDU_SERVICE_SEARCH_ATTRIBUTE_REQUEST \<equiv> 0x06"
abbreviation (input) PDU_SERVICE_SEARCH_ATTRIBUTE_RESPONSE :: u8 where
  "PDU_SERVICE_SEARCH_ATTRIBUTE_RESPONSE \<equiv> 0x07"
abbreviation (input) ATTR_SERVICE_RECORD_HANDLE :: u16 where "ATTR_SERVICE_RECORD_HANDLE \<equiv> 0x0000"
abbreviation (input) ATTR_SERVICE_CLASS_ID_LIST :: u16 where "ATTR_SERVICE_CLASS_ID_LIST \<equiv> 0x0001"
abbreviation (input) ATTR_PROTOCOL_DESCRIPTOR_LIST :: u16 where "ATTR_PROTOCOL_DESCRIPTOR_LIST \<equiv> 0x0004"
abbreviation (input) ATTR_BROWSE_GROUP_LIST :: u16 where "ATTR_BROWSE_GROUP_LIST \<equiv> 0x0005"
abbreviation (input) ATTR_BLUETOOTH_PROFILE_DESCRIPTOR_LIST :: u16 where
  "ATTR_BLUETOOTH_PROFILE_DESCRIPTOR_LIST \<equiv> 0x0009"
abbreviation (input) ATTR_SERVICE_NAME :: u16 where "ATTR_SERVICE_NAME \<equiv> 0x0100"
abbreviation (input) ATTR_SUPPORTED_FEATURES :: u16 where "ATTR_SUPPORTED_FEATURES \<equiv> 0x0311"
abbreviation (input) UUID_PUBLIC_BROWSE_ROOT :: u16 where "UUID_PUBLIC_BROWSE_ROOT \<equiv> 0x1002"
abbreviation (input) UUID_L2CAP :: u16 where "UUID_L2CAP \<equiv> 0x0100"
abbreviation (input) UUID_RFCOMM :: u16 where "UUID_RFCOMM \<equiv> 0x0003"
abbreviation (input) UUID_GENERIC_AUDIO :: u16 where "UUID_GENERIC_AUDIO \<equiv> 0x1203"
abbreviation (input) UUID_HANDSFREE :: u16 where "UUID_HANDSFREE \<equiv> 0x111e"
abbreviation (input) UUID_MAP_PROFILE :: u16 where "UUID_MAP_PROFILE \<equiv> 0x1134"
abbreviation (input) UUID_MAP_MNS_SERVER :: u16 where "UUID_MAP_MNS_SERVER \<equiv> 0x1133"
abbreviation (input) UUID_PNP_INFORMATION :: u16 where "UUID_PNP_INFORMATION \<equiv> 0x1200"
abbreviation (input) AOKIE_HFP_SERVICE_RECORD_HANDLE :: u32 where "AOKIE_HFP_SERVICE_RECORD_HANDLE \<equiv> 0x00010001"
abbreviation (input) AOKIE_HFP_CHANNEL :: u8 where "AOKIE_HFP_CHANNEL \<equiv> 1"
abbreviation (input) AOKIE_HFP_PROFILE_VERSION :: u16 where "AOKIE_HFP_PROFILE_VERSION \<equiv> 0x0109"
abbreviation (input) AOKIE_HFP_SUPPORTED_FEATURES :: u16 where "AOKIE_HFP_SUPPORTED_FEATURES \<equiv> 0x003f"
abbreviation (input) AOKIE_MNS_SERVICE_RECORD_HANDLE :: u32 where "AOKIE_MNS_SERVICE_RECORD_HANDLE \<equiv> 0x00010002"
abbreviation (input) AOKIE_MNS_RFCOMM_CHANNEL :: u8 where "AOKIE_MNS_RFCOMM_CHANNEL \<equiv> 2"
abbreviation (input) AOKIE_MNS_PROFILE_VERSION :: u16 where "AOKIE_MNS_PROFILE_VERSION \<equiv> 0x0104"
abbreviation (input) AOKIE_MNS_SUPPORTED_FEATURES :: u32 where "AOKIE_MNS_SUPPORTED_FEATURES \<equiv> 0x00000007"
abbreviation (input) AOKIE_PNP_SERVICE_RECORD_HANDLE :: u32 where "AOKIE_PNP_SERVICE_RECORD_HANDLE \<equiv> 0x00010003"
abbreviation (input) AOKIE_PNP_SPEC_ID :: u16 where "AOKIE_PNP_SPEC_ID \<equiv> 0x0103"
abbreviation (input) AOKIE_PNP_VENDOR_ID_SOURCE :: u16 where "AOKIE_PNP_VENDOR_ID_SOURCE \<equiv> 0x0002"
abbreviation (input) AOKIE_PNP_VENDOR_ID :: u16 where "AOKIE_PNP_VENDOR_ID \<equiv> 0x1D6B"
abbreviation (input) AOKIE_PNP_PRODUCT_ID :: u16 where "AOKIE_PNP_PRODUCT_ID \<equiv> 0xA0E1"
abbreviation (input) AOKIE_PNP_PRODUCT_VERSION :: u16 where "AOKIE_PNP_PRODUCT_VERSION \<equiv> 0x0202"

text \<open>The recursive walk: the UUIDs found up to the first error, and that error.\<close>

function collect_uuid16s :: "bytes \<Rightarrow> u16 list \<times> sdp_error option" where
  "collect_uuid16s input =
     (if input = [] then ([], None)
      else case parse_data_element input of
        Inl e \<Rightarrow> ([], Some e)
      | Inr (element, used) \<Rightarrow>
          (case (case element of
                   PSequence inner \<Rightarrow> collect_uuid16s inner
                 | PAlternative inner \<Rightarrow> collect_uuid16s inner
                 | other \<Rightarrow> (case as_uuid16 other of None \<Rightarrow> ([], None) | Some u \<Rightarrow> ([u], None))) of
             (us, Some e) \<Rightarrow> (us, Some e)
           | (us, None) \<Rightarrow> (let (vs, e) = collect_uuid16s (drop used input) in (us @ vs, e))))"
  by pat_completeness auto
termination
  by (relation "measure length")
    (auto dest: parse_data_element_inner [OF _ disjI1 [OF refl]] parse_data_element_inner [OF _ disjI2 [OF refl]]
      parse_data_element_used)

declare collect_uuid16s.simps [simp del]

record ServiceRecord =
  sr_handle :: u32
  sr_searchable_uuids :: "u16 list"
  sr_encoded_record :: bytes

definition service_record_new :: "u32 \<Rightarrow> bytes \<Rightarrow> ServiceRecord" where
  "service_record_new handle encoded_record =
     \<lparr>sr_handle = handle, sr_searchable_uuids = remdups_adj (sort (fst (collect_uuid16s encoded_record))),
      sr_encoded_record = encoded_record\<rparr>"

type_synonym SdpServer = "ServiceRecord list"

definition add_attribute :: "u16 \<Rightarrow> bytes \<Rightarrow> bytes" where
  "add_attribute attribute_id v = encode_data_element (DUint16 attribute_id) @ v"

definition sdp_seq :: "bytes list \<Rightarrow> bytes" where
  "sdp_seq els = encode_data_element (DSequence (concat els))"

definition build_hfp_attribute_sequence :: bytes where
  "build_hfp_attribute_sequence = concat [
     add_attribute ATTR_SERVICE_RECORD_HANDLE (encode_data_element (DUint32 AOKIE_HFP_SERVICE_RECORD_HANDLE)),
     add_attribute ATTR_SERVICE_CLASS_ID_LIST
       (sdp_seq [encode_data_element (DUuid16 UUID_HANDSFREE), encode_data_element (DUuid16 UUID_GENERIC_AUDIO)]),
     add_attribute ATTR_PROTOCOL_DESCRIPTOR_LIST
       (sdp_seq [sdp_seq [encode_data_element (DUuid16 UUID_L2CAP)],
                 sdp_seq [encode_data_element (DUuid16 UUID_RFCOMM), encode_data_element (DUint8 AOKIE_HFP_CHANNEL)]]),
     add_attribute ATTR_BROWSE_GROUP_LIST (sdp_seq [encode_data_element (DUuid16 UUID_PUBLIC_BROWSE_ROOT)]),
     add_attribute ATTR_BLUETOOTH_PROFILE_DESCRIPTOR_LIST
       (sdp_seq [sdp_seq [encode_data_element (DUuid16 UUID_HANDSFREE),
                          encode_data_element (DUint16 AOKIE_HFP_PROFILE_VERSION)]]),
     add_attribute ATTR_SERVICE_NAME (encode_data_element (DText (ascii ''Aokie AI Assistant''))),
     add_attribute ATTR_SUPPORTED_FEATURES (encode_data_element (DUint16 AOKIE_HFP_SUPPORTED_FEATURES))]"

definition build_mns_attribute_sequence :: bytes where
  "build_mns_attribute_sequence = concat [
     add_attribute ATTR_SERVICE_RECORD_HANDLE (encode_data_element (DUint32 AOKIE_MNS_SERVICE_RECORD_HANDLE)),
     add_attribute ATTR_SERVICE_CLASS_ID_LIST (sdp_seq [encode_data_element (DUuid16 UUID_MAP_MNS_SERVER)]),
     add_attribute ATTR_PROTOCOL_DESCRIPTOR_LIST
       (sdp_seq [sdp_seq [encode_data_element (DUuid16 UUID_L2CAP)],
                 sdp_seq [encode_data_element (DUuid16 UUID_RFCOMM),
                          encode_data_element (DUint8 AOKIE_MNS_RFCOMM_CHANNEL)],
                 sdp_seq [encode_data_element (DUuid16 0x0008)]]),
     add_attribute ATTR_BROWSE_GROUP_LIST (sdp_seq [encode_data_element (DUuid16 UUID_PUBLIC_BROWSE_ROOT)]),
     add_attribute ATTR_BLUETOOTH_PROFILE_DESCRIPTOR_LIST
       (sdp_seq [sdp_seq [encode_data_element (DUuid16 UUID_MAP_PROFILE),
                          encode_data_element (DUint16 AOKIE_MNS_PROFILE_VERSION)]]),
     add_attribute ATTR_SERVICE_NAME (encode_data_element (DText (ascii ''Aokie MNS''))),
     add_attribute ATTR_SUPPORTED_FEATURES (encode_data_element (DUint32 AOKIE_MNS_SUPPORTED_FEATURES))]"

definition build_pnp_attribute_sequence :: bytes where
  "build_pnp_attribute_sequence = concat [
     add_attribute ATTR_SERVICE_RECORD_HANDLE (encode_data_element (DUint32 AOKIE_PNP_SERVICE_RECORD_HANDLE)),
     add_attribute ATTR_SERVICE_CLASS_ID_LIST (sdp_seq [encode_data_element (DUuid16 UUID_PNP_INFORMATION)]),
     add_attribute ATTR_BROWSE_GROUP_LIST (sdp_seq [encode_data_element (DUuid16 UUID_PUBLIC_BROWSE_ROOT)]),
     add_attribute ATTR_BLUETOOTH_PROFILE_DESCRIPTOR_LIST
       (sdp_seq [sdp_seq [encode_data_element (DUuid16 UUID_PNP_INFORMATION),
                          encode_data_element (DUint16 AOKIE_PNP_SPEC_ID)]]),
     add_attribute 0x0200 (encode_data_element (DUint16 AOKIE_PNP_SPEC_ID)),
     add_attribute 0x0201 (encode_data_element (DUint16 AOKIE_PNP_VENDOR_ID)),
     add_attribute 0x0202 (encode_data_element (DUint16 AOKIE_PNP_PRODUCT_ID)),
     add_attribute 0x0203 (encode_data_element (DUint16 AOKIE_PNP_PRODUCT_VERSION)),
     add_attribute 0x0204 (encode_data_element (DBool True)),
     add_attribute 0x0205 (encode_data_element (DUint16 AOKIE_PNP_VENDOR_ID_SOURCE))]"

definition hfp_service_record :: ServiceRecord where
  "hfp_service_record = service_record_new AOKIE_HFP_SERVICE_RECORD_HANDLE build_hfp_attribute_sequence"

definition mns_service_record :: ServiceRecord where
  "mns_service_record = service_record_new AOKIE_MNS_SERVICE_RECORD_HANDLE build_mns_attribute_sequence"

definition pnp_device_id_service_record :: ServiceRecord where
  "pnp_device_id_service_record = service_record_new AOKIE_PNP_SERVICE_RECORD_HANDLE build_pnp_attribute_sequence"

definition sdp_register :: "ServiceRecord \<Rightarrow> SdpServer \<Rightarrow> SdpServer" where
  "sdp_register r records = records @ [r]"

definition new_with_hfp :: SdpServer where
  "new_with_hfp = sdp_register hfp_service_record []"

definition match_records :: "SdpServer \<Rightarrow> u16 list \<Rightarrow> ServiceRecord list" where
  "match_records records pattern_uuids =
     filter (\<lambda>r. list_all (\<lambda>u. List.member (sr_searchable_uuids r) u) pattern_uuids) records"

record ServiceSearchAttributeRequest =
  rq_transaction_id :: u16
  rq_service_search_pattern :: bytes
  rq_maximum_attribute_byte_count :: u16
  rq_attribute_id_list :: bytes
  rq_continuation_state :: bytes

definition parse_service_search_attribute_request :: "bytes \<Rightarrow> sdp_error + ServiceSearchAttributeRequest" where
  "parse_service_search_attribute_request packet =
     and_then (sdp_require_len packet 5 ''SDP PDU header'') (\<lambda>_.
     if packet ! 0 \<noteq> PDU_SERVICE_SEARCH_ATTRIBUTE_REQUEST then Inl (SdpWrongPdu (packet ! 0)) else
     let transaction_id = u16_from_be_bytes (packet ! 1) (packet ! 2);
         param_len = unat (u16_from_be_bytes (packet ! 3) (packet ! 4)) in
     and_then (sdp_require_len packet (5 + param_len) ''SDP PDU parameters'') (\<lambda>_.
     let params = take param_len (drop 5 packet) in
     and_then (parse_data_element params) (\<lambda>(el, used).
     case el of PSequence pattern \<Rightarrow>
       let rest1 = drop used params in
       and_then (sdp_require_len rest1 2 ''SDP MaximumAttributeByteCount'') (\<lambda>_.
       let maximum = u16_from_be_bytes (rest1 ! 0) (rest1 ! 1); rest2 = drop 2 rest1 in
       and_then (parse_data_element rest2) (\<lambda>(el2, used2).
       case el2 of PSequence attribute_id_list \<Rightarrow>
         let rest3 = drop used2 rest2 in
         and_then (sdp_require_len rest3 1 ''SDP continuation state length'') (\<lambda>_.
         let continuation_len = unat (rest3 ! 0); rest4 = drop 1 rest3 in
         and_then (sdp_require_len rest4 continuation_len ''SDP continuation state'') (\<lambda>_.
         Inr \<lparr>rq_transaction_id = transaction_id, rq_service_search_pattern = pattern,
              rq_maximum_attribute_byte_count = maximum, rq_attribute_id_list = attribute_id_list,
              rq_continuation_state = take continuation_len rest4\<rparr>))
       | _ \<Rightarrow> Inl (SdpNotSequence ''SDP attribute ID list'')))
     | _ \<Rightarrow> Inl (SdpNotSequence ''SDP service search pattern''))))"

text \<open>The loop of \<open>parse_uuid_search_pattern\<close>: the 16-bit UUIDs, and whether all could be reduced.\<close>

function pattern_loop :: "bytes \<Rightarrow> sdp_error + u16 list \<times> bool" where
  "pattern_loop pattern =
     (if pattern = [] then Inr ([], True)
      else case parse_data_element pattern of
        Inl e \<Rightarrow> Inl e
      | Inr (element, used) \<Rightarrow>
          (case as_uuid16 element of
             Some u \<Rightarrow> and_then (pattern_loop (drop used pattern)) (\<lambda>(us, m). Inr (u # us, m))
           | None \<Rightarrow>
               if is_uuid element then and_then (pattern_loop (drop used pattern)) (\<lambda>(us, m). Inr (us, False))
               else Inl SdpNonUuidPattern))"
  by pat_completeness auto
termination
  by (relation "measure length") (auto dest: parse_data_element_used)

declare pattern_loop.simps [simp del]

definition parse_uuid_search_pattern :: "bytes \<Rightarrow> sdp_error + u16 list option" where
  "parse_uuid_search_pattern pattern =
     and_then (pattern_loop pattern) (\<lambda>(us, matchable). Inr (if matchable then Some us else None))"

definition service_search_attribute_response :: "u16 \<Rightarrow> bytes \<Rightarrow> bytes" where
  "service_search_attribute_response transaction_id attribute_list =
     (let params = u16_be (word_of_nat (length attribute_list)) @ attribute_list @ [0]
      in PDU_SERVICE_SEARCH_ATTRIBUTE_RESPONSE # u16_be transaction_id @
         u16_be (word_of_nat (length params)) @ params)"

definition sdp_handle_request :: "SdpServer \<Rightarrow> bytes \<Rightarrow> sdp_error + bytes" where
  "sdp_handle_request records packet =
     and_then (parse_service_search_attribute_request packet) (\<lambda>request.
     and_then (parse_uuid_search_pattern (rq_service_search_pattern request)) (\<lambda>pattern_uuids.
     let matched = (case pattern_uuids of Some us \<Rightarrow> match_records records us | None \<Rightarrow> []);
         inner_sequences = concat (map (\<lambda>r. encode_data_element (DSequence (sr_encoded_record r))) matched);
         attribute_lists = encode_data_element (DSequence inner_sequences)
     in Inr (service_search_attribute_response (rq_transaction_id request) attribute_lists)))"

definition aokie_sdp_server :: SdpServer where
  "aokie_sdp_server =
     sdp_register pnp_device_id_service_record (sdp_register mns_service_record new_with_hfp)"

definition handle_service_search_attribute_request :: "bytes \<Rightarrow> sdp_error + bytes" where
  "handle_service_search_attribute_request packet = sdp_handle_request aokie_sdp_server packet"

section \<open>Round trip of data elements\<close>

fun element_view :: "DataElement \<Rightarrow> ParsedDataElement" where
  "element_view (DUint8 v) = PUint8 v"
| "element_view (DUint16 v) = PUint16 v"
| "element_view (DUint32 v) = PUint32 v"
| "element_view (DUuid16 v) = PUuid16 v"
| "element_view (DBool v) = PBool v"
| "element_view (DText v) = PText v"
| "element_view (DSequence v) = PSequence v"

fun element_fits :: "DataElement \<Rightarrow> bool" where
  "element_fits (DText v) = (length v < 2 ^ 32)"
| "element_fits (DSequence v) = (length v < 2 ^ 32)"
| "element_fits _ = True"

lemma unat_u32_small: "n < 2 ^ 32 \<Longrightarrow> unat (word_of_nat n :: u32) = n"
  by (simp add: unat_of_nat)

lemma unat_u8_small: "n < 256 \<Longrightarrow> unat (word_of_nat n :: u8) = n"
  by (simp add: unat_of_nat)

text \<open>The three length tiers of a variable element.\<close>

lemma parse_encode_variable:
  assumes "length v < 2 ^ 32" "base = 0x25 \<or> base = 0x35"
  shows "parse_data_element (encode_variable_element base v @ rest) =
    Inr (if base = 0x25 then PText v else PSequence v, length (encode_variable_element base v))"
proof -
  consider "length v \<le> 255" | "255 < length v" "length v \<le> 65535" | "65535 < length v" by linarith
  then show ?thesis
  proof cases
    case 1
    with assms(2) show ?thesis
      by (auto simp: encode_variable_element_def parse_data_element_def parse_variable_def sdp_require_len_def
          unat_u8_small Let_def)
  next
    case 2
    with assms(2) show ?thesis
      by (auto simp: encode_variable_element_def parse_data_element_def parse_variable_def sdp_require_len_def
          u16_be_def Let_def numeral_3_eq_3)
  next
    case 3
    let ?n = "word_of_nat (length v) :: u32"
    have e: "encode_variable_element base v @ rest = (base + 2) # ucast (drop_bit 24 ?n) # ucast (drop_bit 16 ?n) #
        ucast (drop_bit 8 ?n) # ucast ?n # v @ rest"
      using 3 by (simp add: encode_variable_element_def u32_be_def Let_def)
    have l: "length (encode_variable_element base v) = 5 + length v"
      using 3 by (simp add: encode_variable_element_def Let_def)
    have "parse_variable (encode_variable_element base v @ rest) (base + 2) =
        Inr (if base = 0x25 then PText v else PSequence v, 5 + length v)"
      unfolding e using assms by (elim disjE) (simp_all add: parse_variable_def sdp_require_len_def unat_u32_small)
    then show ?thesis
      unfolding l e using assms(2) by (elim disjE) (simp_all add: parse_data_element_def)
  qed
qed

interpretation sdp_elements: prefix_codec encode_data_element parse_data_element element_view element_fits
proof (unfold_locales, goal_cases)
  case (1 el rest)
  show ?case
  proof (cases el)
    case (DText v)
    then show ?thesis using 1 parse_encode_variable [of v "0x25" rest] by simp
  next
    case (DSequence v)
    then show ?thesis using 1 parse_encode_variable [of v "0x35" rest] by simp
  qed (simp_all add: parse_data_element_def sdp_require_len_def u16_be_def u32_be_def)
next
  case (2 el)
  show ?case by (cases el) (simp_all add: encode_variable_element_def Let_def)
qed

lemma parse_sequence:
  "length v < 2 ^ 32 \<Longrightarrow>
     parse_data_element (encode_data_element (DSequence v) @ rest) =
       Inr (PSequence v, length (encode_data_element (DSequence v)))"
  using sdp_elements.dec_enc [of "DSequence v" rest] by simp

lemma encode_sequence_nonempty [simp]: "encode_data_element (DSequence v) \<noteq> []"
  by (simp add: encode_variable_element_def Let_def)

lemma length_encode_sequence: "length (encode_data_element (DSequence v)) \<le> length v + 5"
  by (simp add: encode_variable_element_def Let_def)

text \<open>Every data element Aokie writes, in all three length tiers, is read back
  with its value and its length, whatever follows it.\<close>

theorem sdp_element_roundtrip:
  assumes "element_fits el"
  shows "parse_data_element (encode_data_element el @ rest) = Inr (element_view el, length (encode_data_element el))"
  using assms by (rule sdp_elements.dec_enc)

theorem sdp_element_roundtrip_witness:
  "parse_data_element (encode_data_element (DText (replicate 300 65)) @ [7, 7]) =
     Inr (PText (replicate 300 65), 303)"
  using sdp_element_roundtrip [of "DText (replicate 300 65)" "[7, 7]"]
  by (simp add: encode_variable_element_def Let_def)

end
