(* ===== verification/Btree_Map.thy ===== *)
theory Btree_Map
  imports Prelude
begin

text \<open>
  \<open>std::collections::BTreeMap\<close> as far as the sources use it: a list of entries in ascending order of
  their keys.  Lookups are \<open>map_of\<close>; iteration visits the entries in list order.  The locale
  \<open>keyed_table\<close> is the contract the clients rely on.
\<close>

type_synonym ('k, 'v) btree_map = "('k \<times> 'v) list"

fun bt_insert :: "'k :: linorder \<Rightarrow> 'v \<Rightarrow> ('k, 'v) btree_map \<Rightarrow> ('k, 'v) btree_map" where
  "bt_insert k v [] = [(k, v)]"
| "bt_insert k v ((a, b) # m) =
     (if k < a then (k, v) # (a, b) # m
      else if k = a then (k, v) # m
      else (a, b) # bt_insert k v m)"

definition bt_remove :: "'k \<Rightarrow> ('k, 'v) btree_map \<Rightarrow> ('k, 'v) btree_map" where
  "bt_remove k m = filter (\<lambda>e. fst e \<noteq> k) m"

text \<open>\<open>get_mut\<close> followed by a change of the value.\<close>

definition bt_update :: "'k \<Rightarrow> ('v \<Rightarrow> 'v) \<Rightarrow> ('k, 'v) btree_map \<Rightarrow> ('k, 'v) btree_map" where
  "bt_update k f m = map (\<lambda>(a, b). (a, if a = k then f b else b)) m"

definition bt_wf :: "('k :: linorder, 'v) btree_map \<Rightarrow> bool" where
  "bt_wf m = sorted_wrt (<) (map fst m)"

locale keyed_table =
  fixes lookup :: "'m \<Rightarrow> 'k \<Rightarrow> 'v option"
    and ins :: "'k \<Rightarrow> 'v \<Rightarrow> 'm \<Rightarrow> 'm"
    and del :: "'k \<Rightarrow> 'm \<Rightarrow> 'm"
    and upd :: "'k \<Rightarrow> ('v \<Rightarrow> 'v) \<Rightarrow> 'm \<Rightarrow> 'm"
    and wf :: "'m \<Rightarrow> bool"
  assumes lookup_ins: "lookup (ins k v m) = (lookup m)(k \<mapsto> v)"
    and lookup_del: "lookup (del k m) = (lookup m)(k := None)"
    and lookup_upd: "lookup (upd k f m) = (lookup m)(k := map_option f (lookup m k))"
    and wf_ins: "wf m \<Longrightarrow> wf (ins k v m)"
    and wf_del: "wf m \<Longrightarrow> wf (del k m)"
    and wf_upd: "wf m \<Longrightarrow> wf (upd k f m)"
begin

lemma upd_absent: "lookup m k = None \<Longrightarrow> lookup (upd k f m) = lookup m"
  by (auto simp: lookup_upd)

lemma upd_as_ins: "lookup m k = Some v \<Longrightarrow> lookup (upd k f m) = lookup (ins k (f v) m)"
  by (auto simp: lookup_upd lookup_ins)

lemma ins_other: "j \<noteq> k \<Longrightarrow> lookup (ins k v m) j = lookup m j"
  by (simp add: lookup_ins)

text \<open>A property of all stored values survives every operation that respects it.\<close>

definition all_values :: "('k \<Rightarrow> 'v \<Rightarrow> bool) \<Rightarrow> 'm \<Rightarrow> bool" where
  "all_values P m = (\<forall>k v. lookup m k = Some v \<longrightarrow> P k v)"

lemma all_values_ins: "all_values P m \<Longrightarrow> P k v \<Longrightarrow> all_values P (ins k v m)"
  by (simp add: all_values_def lookup_ins)

lemma all_values_del: "all_values P m \<Longrightarrow> all_values P (del k m)"
  by (simp add: all_values_def lookup_del)

lemma all_values_upd:
  "all_values P m \<Longrightarrow> (\<And>v. lookup m k = Some v \<Longrightarrow> P k (f v)) \<Longrightarrow> all_values P (upd k f m)"
  by (auto simp: all_values_def lookup_upd split: if_splits)

lemma all_values_lookup: "all_values P m \<Longrightarrow> lookup m k = Some v \<Longrightarrow> P k v"
  by (simp add: all_values_def)

end

lemma map_of_bt_insert: "map_of (bt_insert k v m) = (map_of m)(k \<mapsto> v)"
  by (induction k v m rule: bt_insert.induct) auto

lemma map_of_bt_remove: "map_of (bt_remove k m) = (map_of m)(k := None)"
  by (induction m) (auto simp: bt_remove_def)

lemma map_of_bt_update: "map_of (bt_update k f m) = (map_of m)(k := map_option f (map_of m k))"
  by (induction m) (auto simp: bt_update_def)

lemma fst_set_bt_insert: "fst ` set (bt_insert k v m) = insert k (fst ` set m)"
  by (induction k v m rule: bt_insert.induct) auto

lemma fst_bt_update [simp]: "map fst (bt_update k f m) = map fst m"
  by (simp add: bt_update_def case_prod_beta comp_def)

interpretation bt: keyed_table map_of bt_insert bt_remove bt_update bt_wf
proof (unfold_locales, goal_cases)
  case (4 m k v)
  then show ?case
  proof (induction k v m rule: bt_insert.induct)
    case (2 k v a b m)
    have "\<forall>x\<in>set (bt_insert k v m). a < fst x" if "a < k"
      using 2(2) that fst_set_bt_insert [of k v m] unfolding bt_wf_def by fastforce
    with 2 show ?case by (auto simp: bt_wf_def)
  qed (simp add: bt_wf_def)
next
  case (5 m k)
  then show ?case by (induction m) (auto simp: bt_wf_def bt_remove_def)
next
  case (6 m k f)
  then show ?case by (simp add: bt_wf_def)
qed (simp_all add: map_of_bt_insert map_of_bt_remove map_of_bt_update)

lemma bt_wf_map_of: "bt_wf m \<Longrightarrow> (k, v) \<in> set m \<longleftrightarrow> map_of m k = Some v"
proof -
  assume "bt_wf m"
  then have "distinct (map fst m)" by (auto simp: bt_wf_def intro: strict_sorted_iff [THEN iffD1, THEN conjunct2])
  then show ?thesis by simp
qed

text \<open>A search in iteration order finds what the lookup gives.\<close>

lemma bt_find:
  "bt_wf m \<Longrightarrow> find (\<lambda>(a, b). P a b) m = Some (k, v) \<Longrightarrow> map_of m k = Some v \<and> P k v"
  using bt_wf_map_of [of m k v] by (auto simp: find_Some_iff dest!: nth_mem)

end
