(* ===== verification/L2cap_Wire.thy ===== *)
theory L2cap_Wire
  imports Wire_Codec
begin

text \<open>
  The packets of \<open>aokie_radio/l2cap.rs\<close>: HCI ACL packets, L2CAP basic frames, and the signalling commands
  with their builders.
\<close>

section \<open>ACL packets and basic frames\<close>

datatype l2cap_wire_error =
    AclTooShort
  | AclTruncated nat nat
  | BasicTooShort
  | BasicTruncated nat nat
  | SignalTooShort
  | SignalTruncated nat nat
  | SignalPayloadShort string nat nat

definition u16_le :: "u16 \<Rightarrow> bytes" where
  "u16_le w = [u16_lo w, u16_hi w]"

lemma length_u16_le [simp]: "length (u16_le w) = 2"
  by (simp add: u16_le_def)

record AclFrame =
  acl_connection_handle :: u16
  acl_packet_boundary_flag :: u8
  acl_broadcast_flag :: u8
  acl_payload :: bytes

record BasicFrame =
  bf_cid :: u16
  bf_payload :: bytes

definition parse_acl_frame :: "bytes \<Rightarrow> l2cap_wire_error + AclFrame" where
  "parse_acl_frame packet =
     (if length packet < 4 then Inl AclTooShort else
      let handle_pb_bc = u16_from_le_bytes (packet ! 0) (packet ! 1);
          payload_len = unat (u16_from_le_bytes (packet ! 2) (packet ! 3)) in
      if length packet < 4 + payload_len then Inl (AclTruncated payload_len (length packet - 4))
      else Inr \<lparr>acl_connection_handle = handle_pb_bc AND 0x0fff,
                acl_packet_boundary_flag = ucast (drop_bit 12 handle_pb_bc AND 0x03),
                acl_broadcast_flag = ucast (drop_bit 14 handle_pb_bc AND 0x03),
                acl_payload = take payload_len (drop 4 packet)\<rparr>)"

definition build_acl_packet :: "u16 \<Rightarrow> u8 \<Rightarrow> u8 \<Rightarrow> bytes \<Rightarrow> bytes" where
  "build_acl_packet connection_handle packet_boundary_flag broadcast_flag payload =
     (let handle_pb_bc = (connection_handle AND 0x0fff) OR
            push_bit 12 (ucast packet_boundary_flag AND 0x03) OR push_bit 14 (ucast broadcast_flag AND 0x03)
      in u16_le handle_pb_bc @ u16_le (word_of_nat (length payload)) @ payload)"

definition parse_basic_frame :: "bytes \<Rightarrow> l2cap_wire_error + BasicFrame" where
  "parse_basic_frame payload =
     (if length payload < 4 then Inl BasicTooShort else
      let len = unat (u16_from_le_bytes (payload ! 0) (payload ! 1));
          cid = u16_from_le_bytes (payload ! 2) (payload ! 3) in
      if length payload < 4 + len then Inl (BasicTruncated len (length payload - 4))
      else Inr \<lparr>bf_cid = cid, bf_payload = take len (drop 4 payload)\<rparr>)"

definition build_basic_frame :: "u16 \<Rightarrow> bytes \<Rightarrow> bytes" where
  "build_basic_frame cid payload = u16_le (word_of_nat (length payload)) @ u16_le cid @ payload"

section \<open>Signalling commands\<close>

abbreviation (input) CID_SIGNALING :: u16 where "CID_SIGNALING \<equiv> 0x0001"
abbreviation (input) SIGNAL_COMMAND_REJECT :: u8 where "SIGNAL_COMMAND_REJECT \<equiv> 0x01"
abbreviation (input) SIGNAL_CONNECTION_REQUEST :: u8 where "SIGNAL_CONNECTION_REQUEST \<equiv> 0x02"
abbreviation (input) SIGNAL_CONNECTION_RESPONSE :: u8 where "SIGNAL_CONNECTION_RESPONSE \<equiv> 0x03"
abbreviation (input) SIGNAL_CONFIGURE_REQUEST :: u8 where "SIGNAL_CONFIGURE_REQUEST \<equiv> 0x04"
abbreviation (input) SIGNAL_CONFIGURE_RESPONSE :: u8 where "SIGNAL_CONFIGURE_RESPONSE \<equiv> 0x05"
abbreviation (input) SIGNAL_DISCONNECTION_REQUEST :: u8 where "SIGNAL_DISCONNECTION_REQUEST \<equiv> 0x06"
abbreviation (input) SIGNAL_DISCONNECTION_RESPONSE :: u8 where "SIGNAL_DISCONNECTION_RESPONSE \<equiv> 0x07"
abbreviation (input) SIGNAL_INFORMATION_REQUEST :: u8 where "SIGNAL_INFORMATION_REQUEST \<equiv> 0x0a"
abbreviation (input) SIGNAL_INFORMATION_RESPONSE :: u8 where "SIGNAL_INFORMATION_RESPONSE \<equiv> 0x0b"
abbreviation (input) INFO_TYPE_CONNECTIONLESS_MTU :: u16 where "INFO_TYPE_CONNECTIONLESS_MTU \<equiv> 0x0001"
abbreviation (input) INFO_TYPE_EXTENDED_FEATURES :: u16 where "INFO_TYPE_EXTENDED_FEATURES \<equiv> 0x0002"
abbreviation (input) INFO_TYPE_FIXED_CHANNELS :: u16 where "INFO_TYPE_FIXED_CHANNELS \<equiv> 0x0003"
abbreviation (input) INFO_RESULT_SUCCESS :: u16 where "INFO_RESULT_SUCCESS \<equiv> 0x0000"
abbreviation (input) INFO_RESULT_NOT_SUPPORTED :: u16 where "INFO_RESULT_NOT_SUPPORTED \<equiv> 0x0001"
abbreviation (input) AOKIE_CONNECTIONLESS_MTU :: u16 where "AOKIE_CONNECTIONLESS_MTU \<equiv> 672"

record SignalingHeader =
  sh_code :: u8
  sh_identifier :: u8
  sh_payload :: bytes

datatype SignalingCommand =
    ConnectionRequest u8 u16 u16
  | ConnectionResponse u8 u16 u16 u16 u16
  | ConfigureRequest u8 u16 u16 bytes
  | ConfigureResponse u8 u16 u16 u16 bytes
  | DisconnectionRequest u8 u16 u16
  | DisconnectionResponse u8 u16 u16
  | InformationRequest u8 u16
  | InformationResponse u8 u16 u16 bytes
  | UnknownSignal u8 u8 bytes

definition signaling_code_is_request :: "u8 \<Rightarrow> bool" where
  "signaling_code_is_request code =
     (code \<in> set [0x02, 0x04, 0x06, 0x08, 0x0a, 0x0c, 0x0e, 0x10, 0x12, 0x14, 0x17, 0x19])"

definition parse_signaling_header :: "bytes \<Rightarrow> l2cap_wire_error + SignalingHeader" where
  "parse_signaling_header payload =
     (if length payload < 4 then Inl SignalTooShort else
      let len = unat (u16_from_le_bytes (payload ! 2) (payload ! 3)) in
      if length payload < 4 + len then Inl (SignalTruncated len (length payload - 4))
      else Inr \<lparr>sh_code = payload ! 0, sh_identifier = payload ! 1, sh_payload = take len (drop 4 payload)\<rparr>)"

definition l2cap_require_len :: "bytes \<Rightarrow> nat \<Rightarrow> string \<Rightarrow> l2cap_wire_error + unit" where
  "l2cap_require_len payload min_len name =
     (if length payload < min_len then Inl (SignalPayloadShort name min_len (length payload)) else Inr ())"

definition le16_at :: "bytes \<Rightarrow> nat \<Rightarrow> u16" where
  "le16_at p i = u16_from_le_bytes (p ! i) (p ! (i + 1))"

definition parse_signaling_command :: "SignalingHeader \<Rightarrow> l2cap_wire_error + SignalingCommand" where
  "parse_signaling_command header =
     (let code = sh_code header; ident = sh_identifier header; p = sh_payload header in
      if code = SIGNAL_CONNECTION_REQUEST then
        and_then (l2cap_require_len p 4 ''L2CAP Connection Request'')
          (\<lambda>_. Inr (ConnectionRequest ident (le16_at p 0) (le16_at p 2)))
      else if code = SIGNAL_CONNECTION_RESPONSE then
        and_then (l2cap_require_len p 8 ''L2CAP Connection Response'')
          (\<lambda>_. Inr (ConnectionResponse ident (le16_at p 0) (le16_at p 2) (le16_at p 4) (le16_at p 6)))
      else if code = SIGNAL_CONFIGURE_REQUEST then
        and_then (l2cap_require_len p 4 ''L2CAP Configure Request'')
          (\<lambda>_. Inr (ConfigureRequest ident (le16_at p 0) (le16_at p 2) (drop 4 p)))
      else if code = SIGNAL_CONFIGURE_RESPONSE then
        and_then (l2cap_require_len p 6 ''L2CAP Configure Response'')
          (\<lambda>_. Inr (ConfigureResponse ident (le16_at p 0) (le16_at p 2) (le16_at p 4) (drop 6 p)))
      else if code = SIGNAL_DISCONNECTION_REQUEST then
        and_then (l2cap_require_len p 4 ''L2CAP Disconnection Request'')
          (\<lambda>_. Inr (DisconnectionRequest ident (le16_at p 0) (le16_at p 2)))
      else if code = SIGNAL_DISCONNECTION_RESPONSE then
        and_then (l2cap_require_len p 4 ''L2CAP Disconnection Response'')
          (\<lambda>_. Inr (DisconnectionResponse ident (le16_at p 0) (le16_at p 2)))
      else if code = SIGNAL_INFORMATION_REQUEST then
        and_then (l2cap_require_len p 2 ''L2CAP Information Request'')
          (\<lambda>_. Inr (InformationRequest ident (le16_at p 0)))
      else if code = SIGNAL_INFORMATION_RESPONSE then
        and_then (l2cap_require_len p 4 ''L2CAP Information Response'')
          (\<lambda>_. Inr (InformationResponse ident (le16_at p 0) (le16_at p 2) (drop 4 p)))
      else Inr (UnknownSignal code ident p))"

lemma parse_signaling_header_payload:
  "parse_signaling_header p = Inr h \<Longrightarrow> 4 + length (sh_payload h) \<le> length p"
  by (auto simp: parse_signaling_header_def Let_def split: if_splits)

function parse_signaling_commands :: "bytes \<Rightarrow> l2cap_wire_error + SignalingCommand list" where
  "parse_signaling_commands payload =
     (if payload = [] then Inr []
      else case parse_signaling_header payload of
        Inl e \<Rightarrow> Inl e
      | Inr header \<Rightarrow>
          and_then (parse_signaling_command header) (\<lambda>c.
          and_then (parse_signaling_commands (drop (4 + length (sh_payload header)) payload)) (\<lambda>cs.
          Inr (c # cs))))"
  by pat_completeness auto
termination
  by (relation "measure length") (auto dest: parse_signaling_header_payload)

declare parse_signaling_commands.simps [simp del]

definition build_signaling :: "u8 \<Rightarrow> u8 \<Rightarrow> bytes \<Rightarrow> bytes" where
  "build_signaling code identifier payload =
     [code, identifier] @ u16_le (word_of_nat (length payload)) @ payload"

definition build_basic_signaling_packet :: "u8 \<Rightarrow> u8 \<Rightarrow> bytes \<Rightarrow> bytes" where
  "build_basic_signaling_packet code identifier payload =
     build_basic_frame CID_SIGNALING (build_signaling code identifier payload)"

definition build_connection_request :: "u8 \<Rightarrow> u16 \<Rightarrow> u16 \<Rightarrow> bytes" where
  "build_connection_request identifier psm source_cid =
     build_basic_signaling_packet SIGNAL_CONNECTION_REQUEST identifier (u16_le psm @ u16_le source_cid)"

definition build_connection_response :: "u8 \<Rightarrow> u16 \<Rightarrow> u16 \<Rightarrow> u16 \<Rightarrow> u16 \<Rightarrow> bytes" where
  "build_connection_response identifier destination_cid source_cid result status =
     build_basic_signaling_packet SIGNAL_CONNECTION_RESPONSE identifier
       (u16_le destination_cid @ u16_le source_cid @ u16_le result @ u16_le status)"

definition build_configure_response :: "u8 \<Rightarrow> u16 \<Rightarrow> u16 \<Rightarrow> u16 \<Rightarrow> bytes \<Rightarrow> bytes" where
  "build_configure_response identifier source_cid flags result options =
     build_basic_signaling_packet SIGNAL_CONFIGURE_RESPONSE identifier
       (u16_le source_cid @ u16_le flags @ u16_le result @ options)"

definition build_configure_request :: "u8 \<Rightarrow> u16 \<Rightarrow> u16 \<Rightarrow> bytes \<Rightarrow> bytes" where
  "build_configure_request identifier destination_cid flags options =
     build_basic_signaling_packet SIGNAL_CONFIGURE_REQUEST identifier
       (u16_le destination_cid @ u16_le flags @ options)"

definition build_disconnection_response :: "u8 \<Rightarrow> u16 \<Rightarrow> u16 \<Rightarrow> bytes" where
  "build_disconnection_response identifier destination_cid source_cid =
     build_basic_signaling_packet SIGNAL_DISCONNECTION_RESPONSE identifier
       (u16_le destination_cid @ u16_le source_cid)"

definition build_disconnection_request :: "u8 \<Rightarrow> u16 \<Rightarrow> u16 \<Rightarrow> bytes" where
  "build_disconnection_request identifier destination_cid source_cid =
     build_basic_signaling_packet SIGNAL_DISCONNECTION_REQUEST identifier
       (u16_le destination_cid @ u16_le source_cid)"

definition build_command_reject :: "u8 \<Rightarrow> u16 \<Rightarrow> bytes" where
  "build_command_reject identifier reason =
     build_basic_signaling_packet SIGNAL_COMMAND_REJECT identifier (u16_le reason)"

definition build_information_response :: "u8 \<Rightarrow> u16 \<Rightarrow> u16 \<Rightarrow> bytes \<Rightarrow> bytes" where
  "build_information_response identifier info_type result data =
     build_basic_signaling_packet SIGNAL_INFORMATION_RESPONSE identifier
       (u16_le info_type @ u16_le result @ data)"

text \<open>The feature mask is zero; the fixed-channel mask is the 64-bit value 2, low octet first.\<close>

definition build_information_response_for_type :: "u8 \<Rightarrow> u16 \<Rightarrow> bytes" where
  "build_information_response_for_type identifier info_type =
     (if info_type = INFO_TYPE_CONNECTIONLESS_MTU then
        build_information_response identifier info_type INFO_RESULT_SUCCESS (u16_le AOKIE_CONNECTIONLESS_MTU)
      else if info_type = INFO_TYPE_EXTENDED_FEATURES then
        build_information_response identifier info_type INFO_RESULT_SUCCESS [0, 0, 0, 0]
      else if info_type = INFO_TYPE_FIXED_CHANNELS then
        build_information_response identifier info_type INFO_RESULT_SUCCESS [0x02, 0, 0, 0, 0, 0, 0, 0]
      else build_information_response identifier info_type INFO_RESULT_NOT_SUPPORTED [])"

end
