(* ===== verification/L2cap.thy ===== *)
theory L2cap
  imports Hfp_Client Sdp Btree_Map L2cap_Wire
begin

text \<open>
  The channel layer of \<open>aokie_radio/l2cap.rs\<close>: the table of channels, the signalling state machine, the
  reassembly of ACL fragments, the dispatch of payloads to the protocol above, and the watchdog.

  A \<open>PsmHandler\<close> is a closure in the source.  The repository installs four kinds, and \<open>psm_handler\<close> has
  one constructor for each: the SDP server, a server-mode RFCOMM session created with a given initial
  state, the hands-free client of \<open>hfp_connect.rs\<close>, and the byte capture of the tick-driven profile
  runtimes, which appends to one of the buffers they share.  \<open>'w\<close> is the state behind the server-channel
  handlers of RFCOMM.  \<open>Instant::now()\<close> is the argument \<open>now\<close>.
\<close>

section \<open>State\<close>

abbreviation (input) PSM_SDP :: u16 where "PSM_SDP \<equiv> 0x0001"
abbreviation (input) PSM_RFCOMM :: u16 where "PSM_RFCOMM \<equiv> 0x0003"
abbreviation (input) CONNECTION_RESULT_SUCCESS :: u16 where "CONNECTION_RESULT_SUCCESS \<equiv> 0x0000"
abbreviation (input) CONNECTION_RESULT_PENDING :: u16 where "CONNECTION_RESULT_PENDING \<equiv> 0x0001"
abbreviation (input) CONNECTION_RESULT_PSM_NOT_SUPPORTED :: u16 where
  "CONNECTION_RESULT_PSM_NOT_SUPPORTED \<equiv> 0x0002"
abbreviation (input) CONNECTION_STATUS_NO_FURTHER_INFORMATION :: u16 where
  "CONNECTION_STATUS_NO_FURTHER_INFORMATION \<equiv> 0x0000"
abbreviation (input) CONFIG_RESULT_SUCCESS :: u16 where "CONFIG_RESULT_SUCCESS \<equiv> 0x0000"
abbreviation (input) COMMAND_REJECT_REASON_COMMAND_NOT_UNDERSTOOD :: u16 where
  "COMMAND_REJECT_REASON_COMMAND_NOT_UNDERSTOOD \<equiv> 0x0000"
abbreviation (input) ACL_PACKET_BOUNDARY_FIRST_NON_FLUSHABLE :: u8 where
  "ACL_PACKET_BOUNDARY_FIRST_NON_FLUSHABLE \<equiv> 0x02"
abbreviation (input) ACL_PACKET_BOUNDARY_CONTINUING_FRAGMENT :: u8 where
  "ACL_PACKET_BOUNDARY_CONTINUING_FRAGMENT \<equiv> 0x01"
abbreviation (input) ACL_BROADCAST_POINT_TO_POINT :: u8 where "ACL_BROADCAST_POINT_TO_POINT \<equiv> 0x00"
abbreviation (input) FIRST_DYNAMIC_CID :: u16 where "FIRST_DYNAMIC_CID \<equiv> 0x0040"
abbreviation (input) FIRST_LOCAL_SIGNALING_ID :: u8 where "FIRST_LOCAL_SIGNALING_ID \<equiv> 0x80"

datatype ChannelState = Configuring | Open

datatype l2cap_error =
    L2Wire l2cap_wire_error
  | ChannelNotFound u16
  | ChannelNotOpen u16 ChannelState
  | NoMuxState u16
  | HasHfpClient u16
  | SendUnknownCid u16
  | SendNotOpen u16 ChannelState
  | L2Sdp sdp_error
  | L2Server server_error
  | L2HfpClient hfp_client_error
  | L2Mux mux_error

datatype 'w psm_handler =
    SdpHandler
  | RfcommHandler "'w RfcommState"
  | HfpRoutingHandler
  | BufferHandler nat

record 'w L2capChannel =
  ch_connection_handle :: u16
  ch_psm :: u16
  ch_local_cid :: u16
  ch_remote_cid :: u16
  ch_state :: ChannelState
  ch_local_configured :: bool
  ch_remote_configured :: bool
  ch_local_config_identifier :: "u8 option"
  ch_local_config_sent_at :: "instant option"
  ch_outbound_connect_identifier :: "u8 option"
  ch_rfcomm_state :: "'w RfcommState option"
  ch_hfp_client :: "HfpClientState option"
  ch_upper_handler :: "'w psm_handler option"

record 'w L2capState =
  l2_next_local_cid :: u16
  l2_next_local_signaling_id :: u8
  l2_channels :: "(u16, 'w L2capChannel) btree_map"
  l2_acl_reassembly :: "u16 \<rightharpoonup> bytes"
  l2_orphan_hfp_events :: "HfpEvent list"
  l2_psm_handlers :: "u16 \<rightharpoonup> 'w psm_handler"

text \<open>What the closures share with the rest of the radio: the state behind the RFCOMM server channels
  and the capture buffers, each a list of payloads with the channel they arrived on.\<close>

record 'w Shared =
  sh_world :: 'w
  sh_buffers :: "nat \<Rightarrow> (u16 \<times> bytes) list"

definition register_psm :: "u16 \<Rightarrow> 'w psm_handler \<Rightarrow> 'w L2capState \<Rightarrow> 'w L2capState" where
  "register_psm psm handler s = s\<lparr>l2_psm_handlers := (l2_psm_handlers s)(psm \<mapsto> handler)\<rparr>"

definition l2cap_new :: "'w L2capState" where
  "l2cap_new =
     register_psm PSM_RFCOMM (RfcommHandler server_new)
       (register_psm PSM_SDP SdpHandler
         \<lparr>l2_next_local_cid = FIRST_DYNAMIC_CID, l2_next_local_signaling_id = FIRST_LOCAL_SIGNALING_ID,
          l2_channels = [], l2_acl_reassembly = Map.empty, l2_orphan_hfp_events = [],
          l2_psm_handlers = Map.empty\<rparr>)"

abbreviation l2_channel :: "'w L2capState \<Rightarrow> u16 \<Rightarrow> 'w L2capChannel option" where
  "l2_channel s cid \<equiv> map_of (l2_channels s) cid"

definition update_channel ::
    "u16 \<Rightarrow> ('w L2capChannel \<Rightarrow> 'w L2capChannel) \<Rightarrow> 'w L2capState \<Rightarrow> 'w L2capState" where
  "update_channel cid f s = s\<lparr>l2_channels := bt_update cid f (l2_channels s)\<rparr>"

definition put_channel :: "u16 \<Rightarrow> 'w L2capChannel \<Rightarrow> 'w L2capState \<Rightarrow> 'w L2capState" where
  "put_channel cid ch s = s\<lparr>l2_channels := bt_insert cid ch (l2_channels s)\<rparr>"

definition remove_channel :: "u16 \<Rightarrow> 'w L2capState \<Rightarrow> 'w L2capState" where
  "remove_channel cid s = s\<lparr>l2_channels := bt_remove cid (l2_channels s)\<rparr>"

section \<open>Identifiers\<close>

definition allocate_local_signaling_id :: "'w L2capState \<Rightarrow> u8 \<times> 'w L2capState" where
  "allocate_local_signaling_id s =
     (let ident = l2_next_local_signaling_id s in
      (ident, s\<lparr>l2_next_local_signaling_id :=
                  (if ident = 255 then FIRST_LOCAL_SIGNALING_ID else ident + 1)\<rparr>))"

fun cid_search :: "nat \<Rightarrow> (u16 \<Rightarrow> bool) \<Rightarrow> u16 \<Rightarrow> u16 \<times> u16" where
  "cid_search n available next =
     (if n = 0 then (FIRST_DYNAMIC_CID, next)
      else let next' = (if next = 65535 then FIRST_DYNAMIC_CID else next + 1) in
        if FIRST_DYNAMIC_CID \<le> next \<and> available next then (next, next')
        else cid_search (n - 1) available next')"

declare cid_search.simps [simp del]

definition allocate_local_cid :: "u16 \<Rightarrow> 'w L2capState \<Rightarrow> u16 \<times> 'w L2capState" where
  "allocate_local_cid remote_cid s =
     (let dynamic_range = unat (65535 - FIRST_DYNAMIC_CID + 1 :: u16);
          (cid, next) = cid_search dynamic_range
             (\<lambda>c. c \<noteq> remote_cid \<and> l2_channel s c = None) (l2_next_local_cid s)
      in (cid, s\<lparr>l2_next_local_cid := next\<rparr>))"

section \<open>Packets\<close>

definition to_acl :: "u16 \<Rightarrow> bytes \<Rightarrow> bytes" where
  "to_acl connection_handle payload =
     build_acl_packet connection_handle ACL_PACKET_BOUNDARY_FIRST_NON_FLUSHABLE ACL_BROADCAST_POINT_TO_POINT payload"

definition on_channel :: "'w L2capChannel \<Rightarrow> bytes \<Rightarrow> bytes" where
  "on_channel ch payload = to_acl (ch_connection_handle ch) (build_basic_frame (ch_remote_cid ch) payload)"

section \<open>The shared RFCOMM multiplexer\<close>

definition find_open_rfcomm_channel :: "u16 \<Rightarrow> 'w L2capState \<Rightarrow> u16 option" where
  "find_open_rfcomm_channel connection_handle s =
     map_option fst (find (\<lambda>(_, ch).
        ch_connection_handle ch = connection_handle \<and> ch_psm ch = PSM_RFCOMM \<and> ch_state ch = Open \<and>
        ((case ch_rfcomm_state ch of None \<Rightarrow> False | Some r \<Rightarrow> sv_multiplexer_open r) \<or>
         (case ch_hfp_client ch of None \<Rightarrow> False | Some c \<Rightarrow> hfp_client_mux_is_open c))) (l2_channels s))"

definition find_open_rfcomm_cid :: "'w L2capState \<Rightarrow> u16 option" where
  "find_open_rfcomm_cid s =
     map_option fst (find (\<lambda>(_, ch). ch_psm ch = PSM_RFCOMM \<and> ch_state ch = Open) (l2_channels s))"

definition rfcomm_attach_client_dlci ::
    "u16 \<Rightarrow> u8 \<Rightarrow> 'w L2capState \<Rightarrow> l2cap_error + (u8 \<times> bytes) \<times> 'w L2capState" where
  "rfcomm_attach_client_dlci local_cid server_channel s =
     (case l2_channel s local_cid of
        None \<Rightarrow> Inl (ChannelNotFound local_cid)
      | Some ch \<Rightarrow>
          if ch_state ch \<noteq> Open then Inl (ChannelNotOpen local_cid (ch_state ch))
          else case ch_rfcomm_state ch of
            Some r \<Rightarrow>
              (case server_attach_client_dlci r server_channel of
                 Inl e \<Rightarrow> Inl (L2Mux e)
               | Inr ((d, frame), r') \<Rightarrow>
                   Inr ((d, on_channel ch frame),
                        update_channel local_cid (\<lambda>c. c\<lparr>ch_rfcomm_state := Some r'\<rparr>) s))
          | None \<Rightarrow>
              (case ch_hfp_client ch of
                 Some h \<Rightarrow>
                   (case hfp_client_attach_client_dlci h server_channel of
                      Inl e \<Rightarrow> Inl (L2HfpClient e)
                    | Inr ((d, frame), h') \<Rightarrow>
                        Inr ((d, on_channel ch frame),
                             update_channel local_cid (\<lambda>c. c\<lparr>ch_hfp_client := Some h'\<rparr>) s))
               | None \<Rightarrow> Inl (NoMuxState local_cid)))"

definition take_rfcomm_client_events :: "u16 \<Rightarrow> 'w L2capState \<Rightarrow> ClientDlciEvent list \<times> 'w L2capState" where
  "take_rfcomm_client_events local_cid s =
     (case l2_channel s local_cid of
        None \<Rightarrow> ([], s)
      | Some ch \<Rightarrow>
          (case ch_rfcomm_state ch of
             Some r \<Rightarrow> (let (evs, r') = server_take_client_events r
                       in (evs, update_channel local_cid (\<lambda>c. c\<lparr>ch_rfcomm_state := Some r'\<rparr>) s))
           | None \<Rightarrow> ([], s)))"

definition take_rfcomm_client_events_for_dlci ::
    "u16 \<Rightarrow> u8 \<Rightarrow> 'w L2capState \<Rightarrow> ClientDlciEvent list \<times> 'w L2capState" where
  "take_rfcomm_client_events_for_dlci local_cid d s =
     (case l2_channel s local_cid of
        None \<Rightarrow> ([], s)
      | Some ch \<Rightarrow>
          (case ch_rfcomm_state ch of
             Some r \<Rightarrow> (let (evs, r') = server_take_client_events_for_dlci r d
                       in (evs, update_channel local_cid (\<lambda>c. c\<lparr>ch_rfcomm_state := Some r'\<rparr>) s))
           | None \<Rightarrow>
               (case ch_hfp_client ch of
                  Some h \<Rightarrow> (let (evs, h') = hfp_client_take_client_events_for_dlci h d
                            in (evs, update_channel local_cid (\<lambda>c. c\<lparr>ch_hfp_client := Some h'\<rparr>) s))
                | None \<Rightarrow> ([], s))))"

definition rfcomm_send_uih_on_client_dlci ::
    "u16 \<Rightarrow> u8 \<Rightarrow> bytes \<Rightarrow> 'w L2capState \<Rightarrow> l2cap_error + bytes \<times> 'w L2capState" where
  "rfcomm_send_uih_on_client_dlci local_cid d payload s =
     (case l2_channel s local_cid of
        None \<Rightarrow> Inl (ChannelNotFound local_cid)
      | Some ch \<Rightarrow>
          (case ch_rfcomm_state ch of
             Some r \<Rightarrow>
               (case server_build_uih_on_client_dlci r d payload of
                  Inl e \<Rightarrow> Inl (L2Mux e)
                | Inr frame \<Rightarrow> Inr (on_channel ch frame, s))
           | None \<Rightarrow>
               (case ch_hfp_client ch of
                  Some h \<Rightarrow>
                    (case hfp_client_build_uih_on_client_dlci h d payload of
                       Inl e \<Rightarrow> Inl (L2Mux e)
                     | Inr (frame, h') \<Rightarrow>
                         Inr (on_channel ch frame,
                              update_channel local_cid (\<lambda>c. c\<lparr>ch_hfp_client := Some h'\<rparr>) s))
                | None \<Rightarrow> Inl (NoMuxState local_cid))))"

definition rfcomm_disc_client_dlci ::
    "u16 \<Rightarrow> u8 \<Rightarrow> 'w L2capState \<Rightarrow> l2cap_error + bytes \<times> 'w L2capState" where
  "rfcomm_disc_client_dlci local_cid d s =
     (case l2_channel s local_cid of
        None \<Rightarrow> Inl (ChannelNotFound local_cid)
      | Some ch \<Rightarrow>
          (case ch_rfcomm_state ch of
             Some r \<Rightarrow>
               (case build_disc_for_client_dlci r d of
                  (Inl e, _) \<Rightarrow> Inl (L2Mux e)
                | (Inr frame, r') \<Rightarrow>
                    Inr (on_channel ch frame,
                         update_channel local_cid (\<lambda>c. c\<lparr>ch_rfcomm_state := Some r'\<rparr>) s))
           | None \<Rightarrow>
               (case ch_hfp_client ch of
                  Some h \<Rightarrow>
                    (let (frame, h') = hfp_client_build_force_disc_secondary_dlci h d
                     in Inr (on_channel ch frame,
                             update_channel local_cid (\<lambda>c. c\<lparr>ch_hfp_client := Some h'\<rparr>) s))
                | None \<Rightarrow> Inl (NoMuxState local_cid))))"

definition rfcomm_force_disc_dlci ::
    "u16 \<Rightarrow> u8 \<Rightarrow> 'w L2capState \<Rightarrow> l2cap_error + bytes \<times> 'w L2capState" where
  "rfcomm_force_disc_dlci local_cid d s =
     (case l2_channel s local_cid of
        None \<Rightarrow> Inl (ChannelNotFound local_cid)
      | Some ch \<Rightarrow>
          (case ch_rfcomm_state ch of
             Some r \<Rightarrow>
               (let (frame, r') = build_force_disc_dlci r d
                in Inr (on_channel ch frame,
                        update_channel local_cid (\<lambda>c. c\<lparr>ch_rfcomm_state := Some r'\<rparr>) s))
           | None \<Rightarrow>
               (case ch_hfp_client ch of
                  Some h \<Rightarrow>
                    (let (frame, h') = hfp_client_build_force_disc_secondary_dlci h d
                     in Inr (on_channel ch frame,
                             update_channel local_cid (\<lambda>c. c\<lparr>ch_hfp_client := Some h'\<rparr>) s))
                | None \<Rightarrow> Inl (NoMuxState local_cid))))"

section \<open>Connections and the hands-free side\<close>

definition remove_connection :: "u16 \<Rightarrow> 'w L2capState \<Rightarrow> 'w L2capState" where
  "remove_connection connection_handle s =
     s\<lparr>l2_channels := filter (\<lambda>(_, ch). ch_connection_handle ch \<noteq> connection_handle) (l2_channels s),
       l2_acl_reassembly := (l2_acl_reassembly s)(connection_handle := None)\<rparr>"

definition channel_hfp_state :: "'w L2capChannel \<Rightarrow> HfpHandsFreeState option" where
  "channel_hfp_state ch =
     (case (case ch_rfcomm_state ch of
              Some r \<Rightarrow> Some (sv_hfp_state r)
            | None \<Rightarrow> map_option hc_hfp_state (ch_hfp_client ch)) of
        None \<Rightarrow> None
      | Some h \<Rightarrow> if hf_service_level_ready h then Some h else None)"

fun first_some :: "('a \<Rightarrow> 'b option) \<Rightarrow> 'a list \<Rightarrow> 'b option" where
  "first_some f [] = None"
| "first_some f (x # xs) = (case f x of Some y \<Rightarrow> Some y | None \<Rightarrow> first_some f xs)"

definition l2_hfp_state :: "'w L2capState \<Rightarrow> HfpHandsFreeState option" where
  "l2_hfp_state s = first_some channel_hfp_state (map snd (l2_channels s))"

definition channel_take_hfp_events :: "'w L2capChannel \<Rightarrow> HfpEvent list \<times> 'w L2capChannel" where
  "channel_take_hfp_events ch =
     (let (ev1, ch1) = (case ch_rfcomm_state ch of
            None \<Rightarrow> ([], ch)
          | Some r \<Rightarrow> (let (evs, r') = take_hfp_events r in (evs, ch\<lparr>ch_rfcomm_state := Some r'\<rparr>)));
          (ev2, ch2) = (case ch_hfp_client ch1 of
            None \<Rightarrow> ([], ch1)
          | Some h \<Rightarrow> (let (evs, h') = hfp_client_take_hfp_events h in (evs, ch1\<lparr>ch_hfp_client := Some h'\<rparr>)))
      in (ev1 @ ev2, ch2))"

definition l2_take_hfp_events :: "'w L2capState \<Rightarrow> HfpEvent list \<times> 'w L2capState" where
  "l2_take_hfp_events s =
     (l2_orphan_hfp_events s @ concat (map (\<lambda>(_, ch). fst (channel_take_hfp_events ch)) (l2_channels s)),
      s\<lparr>l2_orphan_hfp_events := [],
        l2_channels := map (\<lambda>(cid, ch). (cid, snd (channel_take_hfp_events ch))) (l2_channels s)\<rparr>)"

definition channel_tick_hfp_stall :: "instant \<Rightarrow> duration \<Rightarrow> 'w L2capChannel \<Rightarrow> 'w L2capChannel" where
  "channel_tick_hfp_stall now timeout ch =
     (let ch1 = (case ch_rfcomm_state ch of
            None \<Rightarrow> ch
          | Some r \<Rightarrow> ch\<lparr>ch_rfcomm_state := Some (snd (tick_hfp_stall now timeout r))\<rparr>)
      in case ch_hfp_client ch1 of
            None \<Rightarrow> ch1
          | Some h \<Rightarrow> ch1\<lparr>ch_hfp_client := Some (snd (hfp_client_tick_hfp_stall now timeout h))\<rparr>)"

definition tick_hfp_stalls :: "instant \<Rightarrow> duration \<Rightarrow> 'w L2capState \<Rightarrow> 'w L2capState" where
  "tick_hfp_stalls now timeout s =
     s\<lparr>l2_channels := map (\<lambda>(cid, ch). (cid, channel_tick_hfp_stall now timeout ch)) (l2_channels s)\<rparr>"

section \<open>The configuration watchdog\<close>

definition config_stalled :: "instant \<Rightarrow> duration \<Rightarrow> 'w L2capChannel \<Rightarrow> bool" where
  "config_stalled now timeout ch =
     (ch_state ch = Configuring \<and>
      (case ch_local_config_sent_at ch of None \<Rightarrow> False | Some sent_at \<Rightarrow> \<not> now - sent_at < timeout))"

definition hex_digit :: "nat \<Rightarrow> char" where
  "hex_digit n = ''0123456789abcdef'' ! (n mod 16)"

definition hex4 :: "u16 \<Rightarrow> string" where
  "hex4 w = [hex_digit (unat w div 4096), hex_digit (unat w div 256), hex_digit (unat w div 16), hex_digit (unat w)]"

definition stall_label :: "u16 \<Rightarrow> u16 \<Rightarrow> string" where
  "stall_label local_cid psm =
     ''L2CAP ConfigureRequest on cid 0x'' @ hex4 local_cid @ '' (PSM 0x'' @ hex4 psm @ '')''"

definition teardown_stalled ::
    "duration \<Rightarrow> u16 \<Rightarrow> 'w L2capState \<Rightarrow> bytes list \<times> 'w L2capState" where
  "teardown_stalled timeout local_cid s =
     (case l2_channel s local_cid of
        None \<Rightarrow> ([], s)
      | Some ch \<Rightarrow>
          let s1 = remove_channel local_cid s;
              s2 = s1\<lparr>l2_orphan_hfp_events := l2_orphan_hfp_events s1 @ fst (channel_take_hfp_events ch) @
                        [ServiceLevelConnectionFailed (stall_label local_cid (ch_psm ch)) (Some timeout)]\<rparr>;
              (identifier, s3) = allocate_local_signaling_id s2
          in ([to_acl (ch_connection_handle ch)
                 (build_disconnection_request identifier (ch_remote_cid ch) (ch_local_cid ch))], s3))"

fun teardown_all :: "duration \<Rightarrow> u16 list \<Rightarrow> 'w L2capState \<Rightarrow> bytes list \<times> 'w L2capState" where
  "teardown_all timeout [] s = ([], s)"
| "teardown_all timeout (cid # cids) s =
     (let (p, s1) = teardown_stalled timeout cid s; (ps, s2) = teardown_all timeout cids s1 in (p @ ps, s2))"

definition tick_l2cap_stalls :: "instant \<Rightarrow> duration \<Rightarrow> 'w L2capState \<Rightarrow> bytes list \<times> 'w L2capState" where
  "tick_l2cap_stalls now timeout s =
     teardown_all timeout
       (map (\<lambda>(_, ch). ch_local_cid ch) (filter (\<lambda>(_, ch). config_stalled now timeout ch) (l2_channels s))) s"

section \<open>Call control\<close>

definition channel_call_control ::
    "instant \<Rightarrow> HfpAtCommand \<Rightarrow> 'w L2capChannel \<Rightarrow> bytes option \<times> 'w L2capChannel" where
  "channel_call_control now command ch =
     (if ch_psm ch = PSM_RFCOMM \<and> ch_state ch = Open then
        (case ch_rfcomm_state ch of
           Some r \<Rightarrow> (let (frame, r') = build_call_control_command now r command
                     in (frame, ch\<lparr>ch_rfcomm_state := Some r'\<rparr>))
         | None \<Rightarrow>
             (case ch_hfp_client ch of
                Some h \<Rightarrow> (let (frame, h') = hfp_client_build_call_control_command now h command
                          in (frame, ch\<lparr>ch_hfp_client := Some h'\<rparr>))
              | None \<Rightarrow> (None, ch)))
      else (None, ch))"

fun call_control_search ::
    "instant \<Rightarrow> HfpAtCommand \<Rightarrow> (u16, 'w L2capChannel) btree_map \<Rightarrow> bytes list \<times> (u16, 'w L2capChannel) btree_map" where
  "call_control_search now command [] = ([], [])"
| "call_control_search now command ((cid, ch) # rest) =
     (case channel_call_control now command ch of
        (Some frame, ch') \<Rightarrow> ([on_channel ch' frame], (cid, ch') # rest)
      | (None, ch') \<Rightarrow>
          (let (out, rest') = call_control_search now command rest in (out, (cid, ch') # rest')))"

definition build_hfp_call_control_packets ::
    "instant \<Rightarrow> HfpAtCommand \<Rightarrow> 'w L2capState \<Rightarrow> bytes list \<times> 'w L2capState" where
  "build_hfp_call_control_packets now command s =
     (let (out, chs) = call_control_search now command (l2_channels s) in (out, s\<lparr>l2_channels := chs\<rparr>))"

section \<open>Outgoing channels\<close>

definition open_outbound_channel_with_handler ::
    "instant \<Rightarrow> u16 \<Rightarrow> u16 \<Rightarrow> 'w psm_handler option \<Rightarrow> 'w L2capState \<Rightarrow> (u16 \<times> bytes) \<times> 'w L2capState" where
  "open_outbound_channel_with_handler now connection_handle psm upper_handler s =
     (let (local_cid, s1) = allocate_local_cid 0 s;
          (identifier, s2) = allocate_local_signaling_id s1;
          s3 = put_channel local_cid
            \<lparr>ch_connection_handle = connection_handle, ch_psm = psm, ch_local_cid = local_cid,
             ch_remote_cid = 0, ch_state = Configuring, ch_local_configured = False,
             ch_remote_configured = False, ch_local_config_identifier = None,
             ch_local_config_sent_at = Some now, ch_outbound_connect_identifier = Some identifier,
             ch_rfcomm_state = None, ch_hfp_client = None, ch_upper_handler = upper_handler\<rparr> s2
      in ((local_cid, to_acl connection_handle (build_connection_request identifier psm local_cid)), s3))"

definition open_outbound_channel ::
    "instant \<Rightarrow> u16 \<Rightarrow> u16 \<Rightarrow> 'w L2capState \<Rightarrow> bytes \<times> 'w L2capState" where
  "open_outbound_channel now connection_handle psm s =
     (let ((_, packet), s') = open_outbound_channel_with_handler now connection_handle psm None s in (packet, s'))"

definition start_hfp_client ::
    "instant \<Rightarrow> u16 \<Rightarrow> u8 \<Rightarrow> bool \<Rightarrow> bool \<Rightarrow> 'w L2capState \<Rightarrow> l2cap_error + bytes \<times> 'w L2capState" where
  "start_hfp_client now local_cid server_channel wbs_supported call_waiting_enabled s =
     (case l2_channel s local_cid of
        None \<Rightarrow> Inl (ChannelNotFound local_cid)
      | Some ch \<Rightarrow>
          if ch_state ch \<noteq> Open then Inl (ChannelNotOpen local_cid (ch_state ch))
          else if ch_hfp_client ch \<noteq> None then Inl (HasHfpClient local_cid)
          else case hfp_client_kickoff now (hfp_client_new server_channel wbs_supported call_waiting_enabled) of
            (Inl e, _) \<Rightarrow> Inl (L2HfpClient e)
          | (Inr sabm, client) \<Rightarrow>
              Inr (on_channel ch sabm, update_channel local_cid (\<lambda>c. c\<lparr>ch_hfp_client := Some client\<rparr>) s))"

definition send_on_channel :: "u16 \<Rightarrow> bytes \<Rightarrow> 'w L2capState \<Rightarrow> l2cap_error + bytes" where
  "send_on_channel local_cid payload s =
     (case l2_channel s local_cid of
        None \<Rightarrow> Inl (SendUnknownCid local_cid)
      | Some ch \<Rightarrow>
          if ch_state ch \<noteq> Open then Inl (SendNotOpen local_cid (ch_state ch))
          else Inr (on_channel ch payload))"

definition disconnect_channel :: "u16 \<Rightarrow> 'w L2capState \<Rightarrow> bytes option \<times> 'w L2capState" where
  "disconnect_channel local_cid s =
     (case l2_channel s local_cid of
        None \<Rightarrow> (None, s)
      | Some ch \<Rightarrow>
          let (identifier, s1) = allocate_local_signaling_id (remove_channel local_cid s)
          in (Some (to_acl (ch_connection_handle ch)
                (build_disconnection_request identifier (ch_remote_cid ch) (ch_local_cid ch))), s1))"

section \<open>Signalling\<close>

definition handle_connection_request ::
    "instant \<Rightarrow> u16 \<Rightarrow> u8 \<Rightarrow> u16 \<Rightarrow> u16 \<Rightarrow> 'w L2capState \<Rightarrow> bytes list \<times> 'w L2capState" where
  "handle_connection_request now connection_handle identifier psm source_cid s =
     (if l2_psm_handlers s psm = None then
        ([build_connection_response identifier 0 source_cid CONNECTION_RESULT_PSM_NOT_SUPPORTED
            CONNECTION_STATUS_NO_FURTHER_INFORMATION], s)
      else
        let (local_cid, s1) = allocate_local_cid source_cid s;
            (local_config_id, s2) = allocate_local_signaling_id s1;
            s3 = put_channel local_cid
              \<lparr>ch_connection_handle = connection_handle, ch_psm = psm, ch_local_cid = local_cid,
               ch_remote_cid = source_cid, ch_state = Configuring, ch_local_configured = False,
               ch_remote_configured = False, ch_local_config_identifier = Some local_config_id,
               ch_local_config_sent_at = Some now, ch_outbound_connect_identifier = None,
               ch_rfcomm_state = None, ch_hfp_client = None, ch_upper_handler = None\<rparr> s2
        in ([build_connection_response identifier local_cid source_cid CONNECTION_RESULT_SUCCESS
               CONNECTION_STATUS_NO_FURTHER_INFORMATION,
             build_configure_request local_config_id source_cid 0 []], s3))"

definition handle_configure_request ::
    "u8 \<Rightarrow> u16 \<Rightarrow> u16 \<Rightarrow> 'w L2capState \<Rightarrow> bytes \<times> 'w L2capState" where
  "handle_configure_request identifier destination_cid flags s =
     (case l2_channel s destination_cid of
        None \<Rightarrow> (build_command_reject identifier COMMAND_REJECT_REASON_COMMAND_NOT_UNDERSTOOD, s)
      | Some ch \<Rightarrow>
          (build_configure_response identifier (ch_remote_cid ch) flags CONFIG_RESULT_SUCCESS [],
           update_channel destination_cid
             (\<lambda>c. (if ch_local_configured c then c\<lparr>ch_remote_configured := True, ch_state := Open\<rparr>
                   else c\<lparr>ch_remote_configured := True\<rparr>)) s))"

definition config_acked :: "'w L2capChannel \<Rightarrow> 'w L2capChannel" where
  "config_acked c =
     (let c1 = c\<lparr>ch_local_config_identifier := None, ch_local_config_sent_at := None, ch_local_configured := True\<rparr>
      in if ch_remote_configured c1 then c1\<lparr>ch_state := Open\<rparr> else c1)"

definition handle_configure_response :: "u8 \<Rightarrow> u16 \<Rightarrow> u16 \<Rightarrow> 'w L2capState \<Rightarrow> 'w L2capState" where
  "handle_configure_response identifier source_cid result s =
     (case find (\<lambda>(_, ch). ch_local_cid ch = source_cid \<and> ch_local_config_identifier ch = Some identifier)
             (l2_channels s) of
        None \<Rightarrow> s
      | Some (cid, _) \<Rightarrow>
          if result \<noteq> CONFIG_RESULT_SUCCESS then s
          else update_channel cid config_acked s)"

definition handle_connection_response ::
    "instant \<Rightarrow> u8 \<Rightarrow> u16 \<Rightarrow> u16 \<Rightarrow> u16 \<Rightarrow> 'w L2capState \<Rightarrow> bytes list \<times> 'w L2capState" where
  "handle_connection_response now identifier destination_cid source_cid result s =
     (case find (\<lambda>(_, ch). ch_local_cid ch = source_cid \<and> ch_outbound_connect_identifier ch = Some identifier)
             (l2_channels s) of
        None \<Rightarrow> ([], s)
      | Some (cid, ch) \<Rightarrow>
          if result = CONNECTION_RESULT_PENDING then ([], s)
          else if result = CONNECTION_RESULT_SUCCESS then
            let s1 = update_channel cid (\<lambda>c. c\<lparr>ch_remote_cid := destination_cid,
                                              ch_outbound_connect_identifier := None\<rparr>) s;
                (config_id, s2) = allocate_local_signaling_id s1;
                s3 = update_channel (ch_local_cid ch)
                       (\<lambda>c. c\<lparr>ch_local_config_identifier := Some config_id, ch_local_config_sent_at := Some now\<rparr>) s2
            in ([build_configure_request config_id destination_cid 0 []], s3)
          else
            let label = ''L2CAP outbound ConnectionRequest on PSM 0x'' @ hex4 (ch_psm ch) @
                        '' refused (result 0x'' @ hex4 result @ '')'';
                s1 = s\<lparr>l2_orphan_hfp_events := l2_orphan_hfp_events s @ [ServiceLevelConnectionFailed label None]\<rparr>
            in ([], remove_channel (ch_local_cid ch) s1))"

fun handle_signaling_command ::
    "instant \<Rightarrow> u16 \<Rightarrow> SignalingCommand \<Rightarrow> 'w L2capState \<Rightarrow> bytes list \<times> 'w L2capState" where
  "handle_signaling_command now h (ConnectionRequest identifier psm source_cid) s =
     handle_connection_request now h identifier psm source_cid s"
| "handle_signaling_command now h (ConnectionResponse identifier destination_cid source_cid result _) s =
     handle_connection_response now identifier destination_cid source_cid result s"
| "handle_signaling_command now h (ConfigureRequest identifier destination_cid flags _) s =
     (let (r, s') = handle_configure_request identifier destination_cid flags s in ([r], s'))"
| "handle_signaling_command now h (ConfigureResponse identifier source_cid _ result _) s =
     ([], handle_configure_response identifier source_cid result s)"
| "handle_signaling_command now h (DisconnectionRequest identifier destination_cid source_cid) s =
     ([build_disconnection_response identifier destination_cid source_cid], remove_channel destination_cid s)"
| "handle_signaling_command now h (DisconnectionResponse _ _ _) s = ([], s)"
| "handle_signaling_command now h (InformationRequest identifier info_type) s =
     ([build_information_response_for_type identifier info_type], s)"
| "handle_signaling_command now h (InformationResponse _ _ _ _) s = ([], s)"
| "handle_signaling_command now h (UnknownSignal _ identifier _) s =
     ([build_command_reject identifier COMMAND_REJECT_REASON_COMMAND_NOT_UNDERSTOOD], s)"

definition reject_unreadable :: "bytes \<Rightarrow> bytes list" where
  "reject_unreadable rest =
     (case rest of
        code # identifier # _ \<Rightarrow>
          if signaling_code_is_request code \<and> identifier \<noteq> 0
          then [build_command_reject identifier COMMAND_REJECT_REASON_COMMAND_NOT_UNDERSTOOD] else []
      | _ \<Rightarrow> [])"

definition signaling_step ::
    "instant \<Rightarrow> u16 \<Rightarrow> SignalingHeader \<Rightarrow> 'w L2capState \<Rightarrow> bytes list \<times> 'w L2capState" where
  "signaling_step now h header s =
     (case parse_signaling_command header of
        Inr command \<Rightarrow> handle_signaling_command now h command s
      | Inl _ \<Rightarrow>
          (if signaling_code_is_request (sh_code header)
           then [build_command_reject (sh_identifier header) COMMAND_REJECT_REASON_COMMAND_NOT_UNDERSTOOD]
           else [], s))"

function handle_signaling_frame ::
    "instant \<Rightarrow> u16 \<Rightarrow> bytes \<Rightarrow> 'w L2capState \<Rightarrow> bytes list \<times> 'w L2capState" where
  "handle_signaling_frame now h payload s =
     (if payload = [] then ([], s)
      else case parse_signaling_header payload of
        Inl _ \<Rightarrow> (reject_unreadable payload, s)
      | Inr header \<Rightarrow>
          let (replies, s1) = signaling_step now h header s;
              (replies', s2) = handle_signaling_frame now h (drop (4 + length (sh_payload header)) payload) s1
          in (replies @ replies', s2))"
  by pat_completeness auto
termination
  by (relation "measure (\<lambda>(_, _, p, _). length p)") (auto dest: parse_signaling_header_payload)

declare handle_signaling_frame.simps [simp del]

section \<open>Payloads and ACL packets\<close>

text \<open>What the closures of the handlers do with the channel and the payload.\<close>

definition run_handler ::
    "instant \<Rightarrow> 'w psm_handler \<Rightarrow> 'w L2capChannel \<Rightarrow> bytes \<Rightarrow> 'w Shared \<Rightarrow>
     (l2cap_error + bytes list) \<times> 'w L2capChannel \<times> 'w Shared" where
  "run_handler now handler ch payload sh = (case handler of
     SdpHandler \<Rightarrow>
       (case handle_service_search_attribute_request payload of
          Inl e \<Rightarrow> (Inl (L2Sdp e), ch, sh)
        | Inr r \<Rightarrow> (Inr [r], ch, sh))
   | RfcommHandler initial \<Rightarrow>
       (let r = (case ch_rfcomm_state ch of Some r \<Rightarrow> r | None \<Rightarrow> initial);
            (res, r', w') = server_handle_packet now r payload (sh_world sh);
            ch' = ch\<lparr>ch_rfcomm_state := Some r'\<rparr>; sh' = sh\<lparr>sh_world := w'\<rparr>
        in case res of Inl e \<Rightarrow> (Inl (L2Server e), ch', sh') | Inr out \<Rightarrow> (Inr out, ch', sh'))
   | HfpRoutingHandler \<Rightarrow>
       (case ch_hfp_client ch of
          None \<Rightarrow> (Inr [], ch, sh)
        | Some client \<Rightarrow>
            (let (res, client') = hfp_client_handle_packet now client payload;
                 ch' = ch\<lparr>ch_hfp_client := Some client'\<rparr>
             in case res of Inl e \<Rightarrow> (Inl (L2HfpClient e), ch', sh) | Inr out \<Rightarrow> (Inr out, ch', sh)))
   | BufferHandler b \<Rightarrow>
       (Inr [], ch,
        sh\<lparr>sh_buffers := (sh_buffers sh)(b := sh_buffers sh b @ [(ch_local_cid ch, payload)])\<rparr>))"

definition handle_channel_payload ::
    "instant \<Rightarrow> u16 \<Rightarrow> BasicFrame \<Rightarrow> 'w L2capState \<Rightarrow> 'w Shared \<Rightarrow>
     (l2cap_error + bytes list) \<times> 'w L2capState \<times> 'w Shared" where
  "handle_channel_payload now h frame s sh =
     (case l2_channel s (bf_cid frame) of
        None \<Rightarrow> (Inr [], s, sh)
      | Some ch \<Rightarrow>
          if ch_connection_handle ch \<noteq> h \<or> ch_state ch \<noteq> Open then (Inr [], s, sh)
          else
            let handler = (case ch_upper_handler ch of Some u \<Rightarrow> Some u | None \<Rightarrow> l2_psm_handlers s (ch_psm ch)) in
            case handler of
              None \<Rightarrow> (Inr [], s, sh)
            | Some u \<Rightarrow>
                let (res, ch', sh') = run_handler now u ch (bf_payload frame) sh;
                    s' = update_channel (bf_cid frame) (\<lambda>_. ch') s
                in case res of
                     Inl e \<Rightarrow> (Inl e, s', sh')
                   | Inr responses \<Rightarrow>
                       (Inr (map (\<lambda>r. to_acl h (build_basic_frame (ch_remote_cid ch') r)) responses), s', sh'))"

function drain_basic_frames :: "bytes \<Rightarrow> bytes list \<times> bytes" where
  "drain_basic_frames buffer =
     (if length buffer < 4 then ([], buffer)
      else let len = unat (u16_from_le_bytes (buffer ! 0) (buffer ! 1)) in
        if length buffer < 4 + len then ([], buffer)
        else let (frames, rest) = drain_basic_frames (drop (4 + len) buffer)
             in (take (4 + len) buffer # frames, rest))"
  by pat_completeness auto
termination
  by (relation "measure length") auto

declare drain_basic_frames.simps [simp del]

definition handle_frame_bytes ::
    "instant \<Rightarrow> u16 \<Rightarrow> bytes \<Rightarrow> 'w L2capState \<Rightarrow> 'w Shared \<Rightarrow> bytes list \<times> 'w L2capState \<times> 'w Shared" where
  "handle_frame_bytes now h frame_bytes s sh =
     (case parse_basic_frame frame_bytes of
        Inl _ \<Rightarrow> ([], s, sh)
      | Inr frame \<Rightarrow>
          if bf_cid frame = CID_SIGNALING then
            (let (replies, s') = handle_signaling_frame now h (bf_payload frame) s
             in (map (to_acl h) replies, s', sh))
          else
            (case handle_channel_payload now h frame s sh of
               (Inr responses, s', sh') \<Rightarrow> (responses, s', sh')
             | (Inl _, s', sh') \<Rightarrow> ([], s', sh')))"

fun handle_frames ::
    "instant \<Rightarrow> u16 \<Rightarrow> bytes list \<Rightarrow> 'w L2capState \<Rightarrow> 'w Shared \<Rightarrow> bytes list \<times> 'w L2capState \<times> 'w Shared" where
  "handle_frames now h [] s sh = ([], s, sh)"
| "handle_frames now h (f # fs) s sh =
     (let (out, s1, sh1) = handle_frame_bytes now h f s sh;
          (out', s2, sh2) = handle_frames now h fs s1 sh1
      in (out @ out', s2, sh2))"

definition handle_acl_packet ::
    "instant \<Rightarrow> bytes \<Rightarrow> 'w L2capState \<Rightarrow> 'w Shared \<Rightarrow> (l2cap_error + bytes list) \<times> 'w L2capState \<times> 'w Shared" where
  "handle_acl_packet now packet s sh =
     (case parse_acl_frame packet of
        Inl e \<Rightarrow> (Inl (L2Wire e), s, sh)
      | Inr acl \<Rightarrow>
          let h = acl_connection_handle acl;
              held = (case l2_acl_reassembly s h of None \<Rightarrow> [] | Some b \<Rightarrow> b);
              buffer = (if acl_packet_boundary_flag acl = ACL_PACKET_BOUNDARY_CONTINUING_FRAGMENT
                        then held @ acl_payload acl else acl_payload acl);
              (frames, rest) = drain_basic_frames buffer;
              (out, s', sh') = handle_frames now h frames
                 (s\<lparr>l2_acl_reassembly := (l2_acl_reassembly s)(h \<mapsto> rest)\<rparr>) sh
          in (Inr out, s', sh'))"

end
