(* ===== verification/L2cap_Inv.thy ===== *)
theory L2cap_Inv
  imports L2cap
begin

text \<open>
  What the L2CAP table keeps through every public operation of \<open>l2cap.rs\<close>: a channel is stored under its
  own identifier, is open exactly when both directions are configured, and is watched by the stall timer
  exactly while the peer owes an answer to a request of ours.
\<close>

section \<open>The invariant\<close>

definition channel_wf :: "u16 \<Rightarrow> 'w L2capChannel \<Rightarrow> bool" where
  "channel_wf cid ch =
     (ch_local_cid ch = cid \<and> FIRST_DYNAMIC_CID \<le> cid \<and>
      (ch_state ch = Open \<longleftrightarrow> ch_local_configured ch \<and> ch_remote_configured ch) \<and>
      (ch_local_configured ch \<longleftrightarrow> ch_local_config_sent_at ch = None) \<and>
      (ch_local_configured ch \<longleftrightarrow>
         ch_local_config_identifier ch = None \<and> ch_outbound_connect_identifier ch = None) \<and>
      (ch_local_config_identifier ch = None \<or> ch_outbound_connect_identifier ch = None) \<and>
      pred_option (\<lambda>i. FIRST_LOCAL_SIGNALING_ID \<le> i) (ch_local_config_identifier ch) \<and>
      pred_option (\<lambda>i. FIRST_LOCAL_SIGNALING_ID \<le> i) (ch_outbound_connect_identifier ch))"

definition l2_wf :: "'w L2capState \<Rightarrow> bool" where
  "l2_wf s =
     (bt_wf (l2_channels s) \<and> list_all (\<lambda>(cid, ch). channel_wf cid ch) (l2_channels s) \<and>
      FIRST_DYNAMIC_CID \<le> l2_next_local_cid s \<and> FIRST_LOCAL_SIGNALING_ID \<le> l2_next_local_signaling_id s)"

text \<open>Operations of the protocols above leave the fields of the channel layer alone.\<close>

definition same_link :: "'w L2capChannel \<Rightarrow> 'w L2capChannel \<Rightarrow> bool" where
  "same_link ch ch' =
     (ch_connection_handle ch' = ch_connection_handle ch \<and> ch_psm ch' = ch_psm ch \<and>
      ch_local_cid ch' = ch_local_cid ch \<and> ch_remote_cid ch' = ch_remote_cid ch \<and> ch_state ch' = ch_state ch \<and>
      ch_local_configured ch' = ch_local_configured ch \<and> ch_remote_configured ch' = ch_remote_configured ch \<and>
      ch_local_config_identifier ch' = ch_local_config_identifier ch \<and>
      ch_local_config_sent_at ch' = ch_local_config_sent_at ch \<and>
      ch_outbound_connect_identifier ch' = ch_outbound_connect_identifier ch \<and>
      ch_upper_handler ch' = ch_upper_handler ch)"

lemma same_link_wf: "same_link ch ch' \<Longrightarrow> channel_wf cid ch \<Longrightarrow> channel_wf cid ch'"
proof -
  assume "same_link ch ch'"
  then have "channel_wf cid ch' = channel_wf cid ch" by (simp add: same_link_def channel_wf_def)
  then show "channel_wf cid ch \<Longrightarrow> channel_wf cid ch'" by simp
qed

lemma same_link_upd [simp]:
  "same_link ch (ch\<lparr>ch_rfcomm_state := r\<rparr>)"
  "same_link ch (ch\<lparr>ch_hfp_client := c\<rparr>)"
  "same_link ch (ch\<lparr>ch_rfcomm_state := r, ch_hfp_client := c\<rparr>)"
  "same_link ch ch"
  by (simp_all add: same_link_def)

section \<open>The table\<close>

lemma list_all_all_values:
  "bt_wf m \<Longrightarrow> list_all (\<lambda>(k, v). P k v) m \<longleftrightarrow> bt.all_values P m"
  by (auto simp: list_all_iff bt.all_values_def bt_wf_map_of)

lemma l2_wf_iff:
  "l2_wf s \<longleftrightarrow>
     bt_wf (l2_channels s) \<and> bt.all_values channel_wf (l2_channels s) \<and>
     FIRST_DYNAMIC_CID \<le> l2_next_local_cid s \<and> FIRST_LOCAL_SIGNALING_ID \<le> l2_next_local_signaling_id s"
  using list_all_all_values by (auto simp: l2_wf_def)

lemma l2_wf_channel: "l2_wf s \<Longrightarrow> l2_channel s cid = Some ch \<Longrightarrow> channel_wf cid ch"
  unfolding l2_wf_iff by (blast dest: bt.all_values_lookup)

lemma l2_wf_cong:
  "l2_channels s' = l2_channels s \<Longrightarrow> l2_next_local_cid s' = l2_next_local_cid s \<Longrightarrow>
   l2_next_local_signaling_id s' = l2_next_local_signaling_id s \<Longrightarrow> l2_wf s' = l2_wf s"
  by (simp add: l2_wf_def)

lemma l2_wf_put: "l2_wf s \<Longrightarrow> channel_wf cid ch \<Longrightarrow> l2_wf (put_channel cid ch s)"
  by (simp add: l2_wf_iff put_channel_def bt.wf_ins bt.all_values_ins)

lemma l2_wf_remove: "l2_wf s \<Longrightarrow> l2_wf (remove_channel cid s)"
  by (simp add: l2_wf_iff remove_channel_def bt.wf_del bt.all_values_del)

lemma l2_wf_update:
  "l2_wf s \<Longrightarrow> (\<And>ch. l2_channel s cid = Some ch \<Longrightarrow> channel_wf cid ch \<Longrightarrow> channel_wf cid (f ch)) \<Longrightarrow>
   l2_wf (update_channel cid f s)"
  unfolding l2_wf_iff update_channel_def
  by (auto simp: bt.wf_upd intro!: bt.all_values_upd dest: bt.all_values_lookup)

lemma l2_wf_update_same:
  "l2_wf s \<Longrightarrow> (\<And>ch. same_link ch (f ch)) \<Longrightarrow> l2_wf (update_channel cid f s)"
  by (rule l2_wf_update) (auto intro: same_link_wf)

lemma l2_wf_map:
  assumes "l2_wf s" and "\<And>ch. same_link ch (f ch)"
  shows "l2_wf (s\<lparr>l2_channels := map (\<lambda>(cid, ch). (cid, f ch)) (l2_channels s)\<rparr>)"
proof -
  have "map fst (map (\<lambda>(cid, ch). (cid, f ch)) (l2_channels s)) = map fst (l2_channels s)" by auto
  then have "bt_wf (map (\<lambda>(cid, ch). (cid, f ch)) (l2_channels s)) = bt_wf (l2_channels s)"
    by (simp only: bt_wf_def)
  with assms show ?thesis
    by (fastforce simp: l2_wf_def list_all_iff intro: same_link_wf)
qed

lemma l2_wf_filter:
  assumes "l2_wf s"
  shows "l2_wf (s\<lparr>l2_channels := filter P (l2_channels s)\<rparr>)"
proof -
  have "bt_wf (filter P (l2_channels s))"
    using assms sorted_wrt_filter [of "\<lambda>x y. fst x < fst y" "l2_channels s" P]
    by (simp add: l2_wf_def bt_wf_def sorted_wrt_map)
  with assms show ?thesis by (auto simp: l2_wf_def list_all_iff)
qed

section \<open>Identifiers\<close>

lemma u16_succ: "(x :: u16) \<noteq> 65535 \<Longrightarrow> unat (x + 1) = unat x + 1"
proof -
  assume "x \<noteq> 65535"
  then have "unat x \<noteq> 65535" by (simp add: word_unat_eq_iff)
  with u16_less_65536 [of x] have "unat x + 1 < 65536" by linarith
  then show ?thesis by (simp add: unat_word_ariths)
qed

lemma u8_succ: "(x :: u8) \<noteq> 255 \<Longrightarrow> unat (x + 1) = unat x + 1"
proof -
  assume "x \<noteq> 255"
  then have "unat x \<noteq> 255" by (simp add: word_unat_eq_iff)
  with u8_less_256 [of x] have "unat x + 1 < 256" by linarith
  then show ?thesis by (simp add: unat_word_ariths)
qed

lemma l2_wf_signaling_id:
  "l2_wf s \<Longrightarrow> allocate_local_signaling_id s = (i, s') \<Longrightarrow>
   l2_wf s' \<and> FIRST_LOCAL_SIGNALING_ID \<le> i \<and> l2_channels s' = l2_channels s"
  using u8_succ [of i]
  by (auto simp: allocate_local_signaling_id_def Let_def l2_wf_def word_le_nat_alt)

lemma cid_search_found:
  assumes "FIRST_DYNAMIC_CID \<le> next" and "FIRST_DYNAMIC_CID \<le> c" and "available c"
    and "(if next \<le> c then unat c - unat next else unat c + 65472 - unat next) < n"
  shows "\<exists>cid next'. cid_search n available next = (cid, next') \<and> FIRST_DYNAMIC_CID \<le> cid \<and> available cid \<and>
           FIRST_DYNAMIC_CID \<le> next'"
  using assms
proof (induction n available "next" rule: cid_search.induct)
  case (1 n available "next")
  define next' where "next' = (if next = 65535 then FIRST_DYNAMIC_CID else next + 1 :: u16)"
  have n: "n \<noteq> 0" using 1(5) by auto
  have up: "next \<noteq> 65535 \<Longrightarrow> unat (next + 1) = unat next + 1"
    by (rule u16_succ)
  have lo: "64 \<le> unat next" "64 \<le> unat c" using 1(2,3) by (simp_all add: word_le_nat_alt)
  have top: "unat c \<le> 65535" "unat next \<le> 65535" using u16_less_65536 [of c] u16_less_65536 [of "next"] by linarith+
  have next_lo: "FIRST_DYNAMIC_CID \<le> next'"
    using 1(2) up by (auto simp: next'_def word_le_nat_alt)
  show ?case
  proof (cases "available next")
    case True
    with n 1(2) next_lo show ?thesis
      by (simp add: cid_search.simps [of n] next'_def Let_def)
  next
    case False
    with 1(4) have ne: "c \<noteq> next" by auto
    have d: "(if next' \<le> c then unat c - unat next' else unat c + 65472 - unat next') < n - 1"
    proof (cases "next = 65535")
      case True
      moreover from True ne top have "\<not> next \<le> c" by (simp add: word_le_nat_alt word_unat_eq_iff)
      moreover have "next' \<le> c" using lo True by (simp add: next'_def word_le_nat_alt)
      ultimately show ?thesis using 1(5) lo by (simp add: next'_def)
    next
      case False
      from ne have "unat c \<noteq> unat next" by (simp add: word_unat_eq_iff)
      with 1(5) up [OF False] False lo top show ?thesis
        by (simp add: next'_def word_le_nat_alt split: if_splits)
    qed
    from False n have "cid_search n available next = cid_search (n - 1) available next'"
      by (simp add: cid_search.simps [of n] next'_def Let_def)
    with 1(1) [OF n _ _ next_lo 1(3,4) d] False show ?thesis by (simp add: next'_def)
  qed
qed

lemma cid_search_range:
  "FIRST_DYNAMIC_CID \<le> next \<Longrightarrow> cid_search n available next = (cid, next') \<Longrightarrow>
   FIRST_DYNAMIC_CID \<le> cid \<and> FIRST_DYNAMIC_CID \<le> next'"
proof (induction n available "next" rule: cid_search.induct)
  case (1 n available "next")
  have "FIRST_DYNAMIC_CID \<le> (if next = 65535 then FIRST_DYNAMIC_CID else next + 1)"
    using 1(2) u16_succ [of "next"] by (auto simp: word_le_nat_alt)
  with 1 show ?case by (auto simp: cid_search.simps [of n] Let_def split: if_splits)
qed

lemma l2_wf_local_cid:
  "l2_wf s \<Longrightarrow> allocate_local_cid remote s = (cid, s') \<Longrightarrow>
   l2_wf s' \<and> FIRST_DYNAMIC_CID \<le> cid \<and> l2_channels s' = l2_channels s"
proof -
  assume wf: "l2_wf s" and a: "allocate_local_cid remote s = (cid, s')"
  define n where "n = unat (65535 - FIRST_DYNAMIC_CID + 1 :: u16)"
  obtain c next' where c: "cid_search n (\<lambda>c. c \<noteq> remote \<and> l2_channel s c = None) (l2_next_local_cid s) = (c, next')"
    by force
  from a c have "cid = c" "s' = s\<lparr>l2_next_local_cid := next'\<rparr>"
    unfolding allocate_local_cid_def n_def [symmetric] by simp_all
  moreover have "FIRST_DYNAMIC_CID \<le> c \<and> FIRST_DYNAMIC_CID \<le> next'"
    using cid_search_range [OF _ c] wf by (simp add: l2_wf_def)
  ultimately show ?thesis using wf by (simp add: l2_wf_def)
qed

section \<open>Operations\<close>

lemma channel_take_hfp_events_link [simp]: "same_link ch (snd (channel_take_hfp_events ch))"
  by (simp add: channel_take_hfp_events_def take_hfp_events_def hfp_client_take_hfp_events_def
      split: option.split)

lemma channel_tick_hfp_stall_link [simp]: "same_link ch (channel_tick_hfp_stall now timeout ch)"
  by (simp add: channel_tick_hfp_stall_def Let_def split: option.split)

lemma channel_call_control_link [simp]: "same_link ch (snd (channel_call_control now command ch))"
  by (simp add: channel_call_control_def Let_def case_prod_beta split: option.split)

lemma run_handler_link: "run_handler now u ch p sh = (res, ch', sh') \<Longrightarrow> same_link ch ch'"
  by (auto simp: run_handler_def Let_def split: psm_handler.splits sum.splits option.splits prod.splits)

lemma call_control_search_link:
  "call_control_search now command m = (out, m') \<Longrightarrow>
   map fst m' = map fst m \<and> list_all2 (\<lambda>e e'. same_link (snd e) (snd e')) m m'"
proof (induction now command m arbitrary: out m' rule: call_control_search.induct)
  case (2 now command cid ch rest)
  obtain r ch' where cc: "channel_call_control now command ch = (r, ch')" by force
  with channel_call_control_link [of ch now command] have "same_link ch ch'" by simp
  with 2 cc show ?case
    by (auto split: option.splits prod.splits simp: list_all2_same)
qed simp

lemma l2_wf_take_hfp_events: "l2_wf s \<Longrightarrow> l2_wf (snd (l2_take_hfp_events s))"
  using l2_wf_map [of "s\<lparr>l2_orphan_hfp_events := []\<rparr>" "\<lambda>ch. snd (channel_take_hfp_events ch)"]
  by (simp add: l2_take_hfp_events_def l2_wf_def)

lemma l2_wf_tick_hfp_stalls: "l2_wf s \<Longrightarrow> l2_wf (tick_hfp_stalls now timeout s)"
  unfolding tick_hfp_stalls_def by (rule l2_wf_map) simp_all

lemma l2_wf_call_control: "l2_wf s \<Longrightarrow> l2_wf (snd (build_hfp_call_control_packets now command s))"
proof -
  assume wf: "l2_wf s"
  obtain out m' where m': "call_control_search now command (l2_channels s) = (out, m')" by force
  from call_control_search_link [OF m'] have k: "map fst m' = map fst (l2_channels s)"
    and l: "list_all2 (\<lambda>e e'. same_link (snd e) (snd e')) (l2_channels s) m'" by auto
  have "list_all (\<lambda>(cid, ch). channel_wf cid ch) m'"
    unfolding list_all_length
  proof (intro allI impI)
    fix i assume i: "i < length m'"
    with l have i': "i < length (l2_channels s)" by (simp add: list_all2_lengthD)
    from k i i' have "fst (m' ! i) = fst (l2_channels s ! i)" by (metis nth_map)
    moreover have "same_link (snd (l2_channels s ! i)) (snd (m' ! i))" 
      using list_all2_nthD [OF l i'] .
    moreover have "channel_wf (fst (l2_channels s ! i)) (snd (l2_channels s ! i))"
      using wf i' by (simp add: l2_wf_def list_all_length case_prod_beta)
    ultimately show "case m' ! i of (cid, ch) \<Rightarrow> channel_wf cid ch"
      by (simp add: case_prod_beta same_link_wf)
  qed
  with wf k m' show ?thesis
    by (simp add: build_hfp_call_control_packets_def l2_wf_def bt_wf_def)
qed

lemma l2_wf_remove_connection: "l2_wf s \<Longrightarrow> l2_wf (remove_connection h s)"
  using l2_wf_filter [of s "\<lambda>(_, ch). ch_connection_handle ch \<noteq> h"]
  by (simp add: remove_connection_def l2_wf_def)

lemma l2_wf_teardown: "l2_wf s \<Longrightarrow> l2_wf (snd (teardown_stalled timeout cid s))"
proof (cases "l2_channel s cid")
  case (Some ch)
  assume "l2_wf s"
  then have "l2_wf (remove_channel cid s)" by (rule l2_wf_remove)
  then have "l2_wf ((remove_channel cid s)\<lparr>l2_orphan_hfp_events := x\<rparr>)" for x by (simp add: l2_wf_def)
  from l2_wf_signaling_id [OF this] Some show ?thesis
    by (auto simp: teardown_stalled_def Let_def split: prod.split)
qed (simp add: teardown_stalled_def)

lemma l2_wf_teardown_all: "l2_wf s \<Longrightarrow> l2_wf (snd (teardown_all timeout cids s))"
proof (induction timeout cids s rule: teardown_all.induct)
  case (2 timeout cid cids s)
  then show ?case using l2_wf_teardown [of s timeout cid] by (auto split: prod.split)
qed simp

lemma l2_wf_tick_l2cap_stalls: "l2_wf s \<Longrightarrow> l2_wf (snd (tick_l2cap_stalls now timeout s))"
  by (simp add: tick_l2cap_stalls_def l2_wf_teardown_all)

lemma l2_wf_open_outbound:
  "l2_wf s \<Longrightarrow> l2_wf (snd (open_outbound_channel_with_handler now h psm u s))"
proof -
  assume wf: "l2_wf s"
  obtain cid s1 where c: "allocate_local_cid 0 s = (cid, s1)" by force
  obtain i s2 where i: "allocate_local_signaling_id s1 = (i, s2)" by force
  from l2_wf_local_cid [OF wf c] l2_wf_signaling_id [OF _ i]
  have "l2_wf s2" "FIRST_DYNAMIC_CID \<le> cid" "FIRST_LOCAL_SIGNALING_ID \<le> i" by simp_all
  then show ?thesis
    by (simp add: open_outbound_channel_with_handler_def c i l2_wf_put channel_wf_def)
qed

lemma l2_wf_start_hfp_client:
  "l2_wf s \<Longrightarrow> start_hfp_client now cid server_channel wbs cw s = Inr (p, s') \<Longrightarrow> l2_wf s'"
  by (auto simp: start_hfp_client_def intro!: l2_wf_update_same split: option.splits if_splits sum.splits prod.splits)

lemma l2_wf_disconnect: "l2_wf s \<Longrightarrow> l2_wf (snd (disconnect_channel cid s))"
  using l2_wf_signaling_id [OF l2_wf_remove [of s cid]]
  by (auto simp: disconnect_channel_def Let_def split: option.split prod.split)

lemma l2_wf_mux_ops:
  assumes "l2_wf s"
  shows "rfcomm_attach_client_dlci cid ch s = Inr (r, s') \<Longrightarrow> l2_wf s'"
    and "l2_wf (snd (take_rfcomm_client_events cid s))"
    and "l2_wf (snd (take_rfcomm_client_events_for_dlci cid d s))"
    and "rfcomm_send_uih_on_client_dlci cid d p s = Inr (q, s') \<Longrightarrow> l2_wf s'"
    and "rfcomm_disc_client_dlci cid d s = Inr (q, s') \<Longrightarrow> l2_wf s'"
    and "rfcomm_force_disc_dlci cid d s = Inr (q, s') \<Longrightarrow> l2_wf s'"
proof -
  note sp = option.splits if_splits sum.splits prod.splits
  show "rfcomm_attach_client_dlci cid ch s = Inr (r, s') \<Longrightarrow> l2_wf s'"
    using assms by (auto simp: rfcomm_attach_client_dlci_def intro!: l2_wf_update_same split: sp)
  show "l2_wf (snd (take_rfcomm_client_events cid s))"
    using assms by (auto simp: take_rfcomm_client_events_def intro!: l2_wf_update_same split: option.split prod.split)
  show "l2_wf (snd (take_rfcomm_client_events_for_dlci cid d s))"
    using assms
    by (auto simp: take_rfcomm_client_events_for_dlci_def intro!: l2_wf_update_same split: option.split prod.split)
  show "rfcomm_send_uih_on_client_dlci cid d p s = Inr (q, s') \<Longrightarrow> l2_wf s'"
    using assms by (auto simp: rfcomm_send_uih_on_client_dlci_def intro!: l2_wf_update_same split: sp)
  show "rfcomm_disc_client_dlci cid d s = Inr (q, s') \<Longrightarrow> l2_wf s'"
    using assms by (auto simp: rfcomm_disc_client_dlci_def intro!: l2_wf_update_same split: sp)
  show "rfcomm_force_disc_dlci cid d s = Inr (q, s') \<Longrightarrow> l2_wf s'"
    using assms by (auto simp: rfcomm_force_disc_dlci_def Let_def intro!: l2_wf_update_same split: sp)
qed

section \<open>Signalling and packets\<close>

lemma l2_wf_connection_request:
  "l2_wf s \<Longrightarrow> l2_wf (snd (handle_connection_request now h ident psm source_cid s))"
proof -
  assume wf: "l2_wf s"
  obtain cid s1 where c: "allocate_local_cid source_cid s = (cid, s1)" by force
  obtain i s2 where i: "allocate_local_signaling_id s1 = (i, s2)" by force
  from l2_wf_local_cid [OF wf c] l2_wf_signaling_id [OF _ i]
  have "l2_wf s2" "FIRST_DYNAMIC_CID \<le> cid" "FIRST_LOCAL_SIGNALING_ID \<le> i" by simp_all
  with wf show ?thesis
    by (simp add: handle_connection_request_def c i l2_wf_put channel_wf_def)
qed

lemma l2_wf_configure_request: "l2_wf s \<Longrightarrow> l2_wf (snd (handle_configure_request ident cid flags s))"
  by (auto simp: handle_configure_request_def channel_wf_def intro!: l2_wf_update split: option.split)

lemma find_channel:
  "l2_wf s \<Longrightarrow> find (\<lambda>(_, ch). P ch) (l2_channels s) = Some (cid, ch) \<Longrightarrow>
   l2_channel s cid = Some ch \<and> P ch \<and> ch_local_cid ch = cid \<and> channel_wf cid ch"
  using bt_find [of "l2_channels s" "\<lambda>_. P" cid ch] l2_wf_channel [of s cid ch]
  by (auto simp: l2_wf_def channel_wf_def)

lemma channel_wf_acked:
  assumes "channel_wf cid c" and "ch_local_config_identifier c = Some i"
  shows "channel_wf cid (config_acked c)"
proof -
  from assms have "ch_outbound_connect_identifier c = None" "\<not> ch_local_configured c" "ch_state c \<noteq> Open"
    by (auto simp: channel_wf_def)
  with assms(1) show ?thesis by (simp add: config_acked_def channel_wf_def Let_def)
qed

lemma l2_wf_configure_response: "l2_wf s \<Longrightarrow> l2_wf (handle_configure_response ident source_cid result s)"
proof (cases "find (\<lambda>(_, ch). ch_local_cid ch = source_cid \<and> ch_local_config_identifier ch = Some ident) (l2_channels s)")
  case (Some e)
  obtain cid ch where e: "e = (cid, ch)" by force
  assume wf: "l2_wf s"
  from find_channel [OF wf Some [unfolded e]]
  have l: "l2_channel s cid = Some ch" "ch_local_config_identifier ch = Some ident" by simp_all
  then have "l2_wf (update_channel cid config_acked s)"
    by (intro l2_wf_update [OF wf]) (simp add: channel_wf_acked)
  with wf show ?thesis by (simp add: handle_configure_response_def Some e)
qed (simp add: handle_configure_response_def)

lemma update_channel_twice [simp]:
  "update_channel cid g (update_channel cid f s) = update_channel cid (\<lambda>c. g (f c)) s"
  by (simp add: update_channel_def bt_update_def case_prod_beta if_distrib cong: if_cong)

lemma update_channel_signaling_id [simp]:
  "allocate_local_signaling_id (update_channel cid f s) =
     (let (i, s') = allocate_local_signaling_id s in (i, update_channel cid f s'))"
  by (simp add: allocate_local_signaling_id_def update_channel_def Let_def)

lemma l2_wf_connection_response:
  "l2_wf s \<Longrightarrow> l2_wf (snd (handle_connection_response now ident destination_cid source_cid result s))"
proof (cases "find (\<lambda>(_, ch). ch_local_cid ch = source_cid \<and> ch_outbound_connect_identifier ch = Some ident) (l2_channels s)")
  case (Some e)
  obtain cid ch where e: "e = (cid, ch)" by force
  assume wf: "l2_wf s"
  from find_channel [OF wf Some [unfolded e]]
  have l: "l2_channel s cid = Some ch" "ch_outbound_connect_identifier ch = Some ident" "ch_local_cid ch = cid" by blast+
  obtain i s1 where i: "allocate_local_signaling_id s = (i, s1)" by force
  from l2_wf_signaling_id [OF wf i] have s1: "l2_wf s1" "FIRST_LOCAL_SIGNALING_ID \<le> i" "l2_channels s1 = l2_channels s" by simp_all
  have "l2_wf (update_channel cid (\<lambda>c. c\<lparr>ch_remote_cid := destination_cid, ch_outbound_connect_identifier := None,
          ch_local_config_identifier := Some i, ch_local_config_sent_at := Some now\<rparr>) s1)"
    using l s1 by (intro l2_wf_update [OF s1(1)]) (auto simp: channel_wf_def)
  moreover have "l2_wf (remove_channel cid (s\<lparr>l2_orphan_hfp_events := x\<rparr>))" for x
    using wf by (intro l2_wf_remove) (simp add: l2_wf_def)
  ultimately show ?thesis using wf by (simp add: handle_connection_response_def Some e l i)
qed (simp add: handle_connection_response_def)

lemma l2_wf_signaling_command: "l2_wf s \<Longrightarrow> l2_wf (snd (handle_signaling_command now h c s))"
  by (cases c) (simp_all add: l2_wf_connection_request l2_wf_connection_response l2_wf_configure_request
      l2_wf_configure_response l2_wf_remove case_prod_beta)

lemma l2_wf_signaling_step: "l2_wf s \<Longrightarrow> l2_wf (snd (signaling_step now h header s))"
  by (simp add: signaling_step_def l2_wf_signaling_command split: sum.split)

lemma l2_wf_signaling_frame: "l2_wf s \<Longrightarrow> l2_wf (snd (handle_signaling_frame now h p s))"
proof (induction now h p s rule: handle_signaling_frame.induct)
  case (1 now h p s)
  show ?case
  proof (cases "parse_signaling_header p")
    case (Inr header)
    obtain r s1 where st: "signaling_step now h header s = (r, s1)" by force
    with l2_wf_signaling_step [OF 1(2), of now h header] have "l2_wf s1" by simp
    with 1(1) [OF _ Inr st [symmetric] _] st Inr 1(2) show ?thesis
      by (cases "p = []")
        (simp_all add: handle_signaling_frame.simps [of now h "[]"] handle_signaling_frame.simps [of now h p] case_prod_beta)
  qed (use 1(2) in \<open>simp add: handle_signaling_frame.simps [of now h p]\<close>)
qed

lemma l2_wf_channel_payload:
  "l2_wf s \<Longrightarrow> handle_channel_payload now h f s sh = (r, s', sh') \<Longrightarrow> l2_wf s'"
proof -
  assume wf: "l2_wf s" and p: "handle_channel_payload now h f s sh = (r, s', sh')"
  show ?thesis
  proof (cases "s' = s")
    case False
    then obtain ch u res ch' sh2 where l: "l2_channel s (bf_cid f) = Some ch"
      and rh: "run_handler now u ch (bf_payload f) sh = (res, ch', sh2)"
      and s': "s' = update_channel (bf_cid f) (\<lambda>_. ch') s"
      using p by (auto simp: handle_channel_payload_def Let_def split: option.splits if_splits prod.splits sum.splits)
    show ?thesis unfolding s' using wf
      by (rule l2_wf_update) (use l rh in \<open>auto dest: run_handler_link intro: same_link_wf\<close>)
  qed (use wf in simp)
qed

lemma l2_wf_frame_bytes: "l2_wf s \<Longrightarrow> handle_frame_bytes now h f s sh = (out, s', sh') \<Longrightarrow> l2_wf s'"
  using l2_wf_signaling_frame [of s now h] l2_wf_channel_payload [of s now h]
  by (auto simp: handle_frame_bytes_def split: sum.splits if_splits prod.splits) (metis snd_conv)

lemma l2_wf_frames: "l2_wf s \<Longrightarrow> handle_frames now h fs s sh = (out, s', sh') \<Longrightarrow> l2_wf s'"
proof (induction now h fs s sh arbitrary: out s' sh' rule: handle_frames.induct)
  case (2 now h f fs s sh)
  obtain o1 s1 sh1 where f: "handle_frame_bytes now h f s sh = (o1, s1, sh1)" by (metis prod_cases3)
  obtain o2 s2 sh2 where fs: "handle_frames now h fs s1 sh1 = (o2, s2, sh2)" by (metis prod_cases3)
  from 2(2) f have "l2_wf s1" by (rule l2_wf_frame_bytes)
  with 2(1) [OF f [symmetric] refl refl] fs f 2(3) show ?case by auto
qed simp

lemma l2_wf_acl_packet: "l2_wf s \<Longrightarrow> l2_wf (fst (snd (handle_acl_packet now packet s sh)))"
proof (cases "parse_acl_frame packet")
  case (Inr acl)
  assume "l2_wf s"
  then have "l2_wf (s\<lparr>l2_acl_reassembly := m\<rparr>)" for m by (simp add: l2_wf_def)
  from l2_wf_frames [OF this] Inr show ?thesis
    by (simp add: handle_acl_packet_def Let_def split: prod.split)
qed (simp add: handle_acl_packet_def)

section \<open>Every reachable state\<close>

datatype 'w l2cap_call =
    HandleAclPacket bytes
  | RegisterPsm u16 "'w psm_handler"
  | AttachClientDlci u16 u8
  | TakeClientEvents u16
  | TakeClientEventsForDlci u16 u8
  | SendUihOnClientDlci u16 u8 bytes
  | DiscClientDlci u16 u8
  | ForceDiscDlci u16 u8
  | RemoveConnection u16
  | TakeHfpEvents
  | TickHfpStalls duration
  | TickL2capStalls duration
  | CallControl HfpAtCommand
  | OpenOutbound u16 u16 "'w psm_handler option"
  | StartHfpClient u16 u8 bool bool
  | DisconnectChannel u16

abbreviation state_or :: "'w L2capState \<Rightarrow> 'e + 'a \<times> 'w L2capState \<Rightarrow> 'w L2capState" where
  "state_or s r \<equiv> (case r of Inl _ \<Rightarrow> s | Inr (_, s') \<Rightarrow> s')"

text \<open>The state after a call of the public interface at time \<open>now\<close>; a call that fails leaves the state.\<close>

fun l2cap_do :: "instant \<Rightarrow> 'w l2cap_call \<Rightarrow> 'w L2capState \<Rightarrow> 'w Shared \<Rightarrow> 'w L2capState \<times> 'w Shared" where
  "l2cap_do now (HandleAclPacket p) s sh = snd (handle_acl_packet now p s sh)"
| "l2cap_do now (RegisterPsm psm u) s sh = (register_psm psm u s, sh)"
| "l2cap_do now (AttachClientDlci cid c) s sh = (state_or s (rfcomm_attach_client_dlci cid c s), sh)"
| "l2cap_do now (TakeClientEvents cid) s sh = (snd (take_rfcomm_client_events cid s), sh)"
| "l2cap_do now (TakeClientEventsForDlci cid d) s sh = (snd (take_rfcomm_client_events_for_dlci cid d s), sh)"
| "l2cap_do now (SendUihOnClientDlci cid d p) s sh = (state_or s (rfcomm_send_uih_on_client_dlci cid d p s), sh)"
| "l2cap_do now (DiscClientDlci cid d) s sh = (state_or s (rfcomm_disc_client_dlci cid d s), sh)"
| "l2cap_do now (ForceDiscDlci cid d) s sh = (state_or s (rfcomm_force_disc_dlci cid d s), sh)"
| "l2cap_do now (RemoveConnection h) s sh = (remove_connection h s, sh)"
| "l2cap_do now TakeHfpEvents s sh = (snd (l2_take_hfp_events s), sh)"
| "l2cap_do now (TickHfpStalls timeout) s sh = (tick_hfp_stalls now timeout s, sh)"
| "l2cap_do now (TickL2capStalls timeout) s sh = (snd (tick_l2cap_stalls now timeout s), sh)"
| "l2cap_do now (CallControl command) s sh = (snd (build_hfp_call_control_packets now command s), sh)"
| "l2cap_do now (OpenOutbound h psm u) s sh = (snd (open_outbound_channel_with_handler now h psm u s), sh)"
| "l2cap_do now (StartHfpClient cid c wbs cw) s sh = (state_or s (start_hfp_client now cid c wbs cw s), sh)"
| "l2cap_do now (DisconnectChannel cid) s sh = (snd (disconnect_channel cid s), sh)"

inductive l2cap_reachable :: "'w L2capState \<Rightarrow> 'w Shared \<Rightarrow> bool" where
  fresh: "l2cap_reachable l2cap_new sh"
| outside: "l2cap_reachable s sh \<Longrightarrow> l2cap_reachable s sh'"
| call: "l2cap_reachable s sh \<Longrightarrow> l2cap_do now c s sh = (s', sh') \<Longrightarrow> l2cap_reachable s' sh'"

lemma l2_wf_state_or: "l2_wf s \<Longrightarrow> (\<And>x s'. r = Inr (x, s') \<Longrightarrow> l2_wf s') \<Longrightarrow> l2_wf (state_or s r)"
  by (simp split: sum.split prod.split)

lemma l2_wf_call: assumes "l2_wf s" shows "l2_wf (fst (l2cap_do now c s sh))"
proof (cases c)
  case (RegisterPsm psm u)
  with assms show ?thesis by (simp add: register_psm_def l2_wf_def)
next
  case (AttachClientDlci cid n)
  then show ?thesis by (simp only: l2cap_do.simps fst_conv) (rule l2_wf_state_or [OF assms l2_wf_mux_ops(1) [OF assms]])
next
  case (SendUihOnClientDlci cid d p)
  then show ?thesis by (simp only: l2cap_do.simps fst_conv) (rule l2_wf_state_or [OF assms l2_wf_mux_ops(4) [OF assms]])
next
  case (DiscClientDlci cid d)
  then show ?thesis by (simp only: l2cap_do.simps fst_conv) (rule l2_wf_state_or [OF assms l2_wf_mux_ops(5) [OF assms]])
next
  case (ForceDiscDlci cid d)
  then show ?thesis by (simp only: l2cap_do.simps fst_conv) (rule l2_wf_state_or [OF assms l2_wf_mux_ops(6) [OF assms]])
next
  case (StartHfpClient cid n wbs cw)
  then show ?thesis
    by (simp only: l2cap_do.simps fst_conv) (rule l2_wf_state_or [OF assms l2_wf_start_hfp_client [OF assms]])
qed (simp_all add: assms l2_wf_acl_packet l2_wf_mux_ops(2,3) l2_wf_remove_connection l2_wf_take_hfp_events
      l2_wf_tick_hfp_stalls l2_wf_tick_l2cap_stalls l2_wf_call_control l2_wf_open_outbound l2_wf_disconnect)

lemma l2_wf_new: "l2_wf l2cap_new"
  by (simp add: l2cap_new_def register_psm_def l2_wf_def bt_wf_def)

text \<open>C5 In every state the public interface can reach, in whatever order it is called
  and whatever the peer sends, the channel table is well-formed: it is sorted without duplicates, each
  channel is stored under its own identifier in the dynamic range, is open exactly when both sides are
  configured, has a running stall timer exactly while its local side is unconfigured, waits for at most
  one of our requests, and uses identifiers from the local half of the identifier space only.\<close>

theorem reachable_l2cap_wf: "l2cap_reachable s sh \<Longrightarrow> l2_wf s"
proof (induction rule: l2cap_reachable.induct)
  case (call s sh now c s' sh')
  then show ?case using l2_wf_call [of s now c sh] by simp
qed (simp_all add: l2_wf_new)

text \<open>Witness: the state after two outgoing channels were opened and one request was answered.\<close>

theorem reachable_l2cap_wf_witness:
  "\<exists>sh. l2cap_reachable (snd (open_outbound_channel_with_handler 5 7 PSM_SDP None (l2cap_new :: unit L2capState))) sh \<and>
        l2_wf (snd (open_outbound_channel_with_handler 5 7 PSM_SDP None (l2cap_new :: unit L2capState)))"
proof -
  have r: "l2cap_reachable (snd (open_outbound_channel_with_handler 5 7 PSM_SDP None (l2cap_new :: unit L2capState)))
          \<lparr>sh_world = (), sh_buffers = (\<lambda>_. [])\<rparr>"
    by (rule l2cap_reachable.call [OF l2cap_reachable.fresh, of 5 "OpenOutbound 7 PSM_SDP None"]) simp
  from reachable_l2cap_wf [OF r] r show ?thesis by blast
qed

section \<open>Allocation of channel identifiers\<close>

lemma card_dynamic_cids: "card {c :: u16. FIRST_DYNAMIC_CID \<le> c} = 65472"
proof -
  have "{c :: u16. FIRST_DYNAMIC_CID \<le> c} = word_of_nat ` {64..<65536}" (is "_ = ?f ` _")
  proof (intro set_eqI iffI)
    fix c :: u16 assume "c \<in> {c. FIRST_DYNAMIC_CID \<le> c}"
    then have "unat c \<in> {64..<65536}" by (simp add: word_le_nat_alt)
    moreover have "c = ?f (unat c)" by simp
    ultimately show "c \<in> ?f ` {64..<65536}" by blast
  qed (auto simp: word_le_nat_alt)
  moreover have "inj_on (word_of_nat :: nat \<Rightarrow> u16) {64..<65536}"
    by (rule inj_on_inverseI [where g = unat]) simp
  ultimately show ?thesis by (simp add: card_image)
qed

lemma free_cid_exists:
  assumes "length (l2_channels s) < 65471"
  shows "\<exists>c. FIRST_DYNAMIC_CID \<le> c \<and> c \<noteq> remote \<and> l2_channel s c = None"
proof (rule ccontr)
  assume "\<not> ?thesis"
  then have "{c. FIRST_DYNAMIC_CID \<le> c} \<subseteq> insert remote (fst ` set (l2_channels s))"
    by (auto simp: map_of_eq_None_iff)
  then have "65472 \<le> card (insert remote (fst ` set (l2_channels s)))"
    using card_mono [of "insert remote (fst ` set (l2_channels s))" "{c. FIRST_DYNAMIC_CID \<le> c}"] card_dynamic_cids
    by simp
  also have "\<dots> \<le> Suc (length (l2_channels s))"
    using card_insert_le_m1 [of "Suc (length (l2_channels s))" "fst ` set (l2_channels s)" remote]
      card_image_le [of "set (l2_channels s)" fst] card_length [of "l2_channels s"] by simp
  finally show False using assms by simp
qed

text \<open>C7 The search for a channel identifier ends within one turn of the dynamic
  range, and while fewer than 65471 channels exist it ends with an identifier of the dynamic range that
  no channel uses and that differs from the peer's.\<close>

theorem allocated_cid_is_free:
  assumes "l2_wf s" and "length (l2_channels s) < 65471" and "allocate_local_cid remote s = (cid, s')"
  shows "FIRST_DYNAMIC_CID \<le> cid \<and> cid \<noteq> remote \<and> l2_channel s cid = None \<and> l2_wf s'"
proof -
  define n where "n = unat (65535 - FIRST_DYNAMIC_CID + 1 :: u16)"
  obtain c where c: "FIRST_DYNAMIC_CID \<le> c" "c \<noteq> remote \<and> l2_channel s c = None"
    using free_cid_exists [OF assms(2)] by blast
  have next_lo: "FIRST_DYNAMIC_CID \<le> l2_next_local_cid s" using assms(1) by (simp add: l2_wf_def)
  have "(if l2_next_local_cid s \<le> c then unat c - unat (l2_next_local_cid s)
         else unat c + 65472 - unat (l2_next_local_cid s)) < n"
    using c(1) next_lo u16_less_65536 [of c] by (auto simp: n_def word_le_nat_alt simp del: u16_less_65536)
  from cid_search_found [where available = "\<lambda>c. c \<noteq> remote \<and> l2_channel s c = None", OF next_lo c this]
  obtain cid' next' where f: "cid_search n (\<lambda>c. c \<noteq> remote \<and> l2_channel s c = None) (l2_next_local_cid s) = (cid', next')"
    "FIRST_DYNAMIC_CID \<le> cid'" "cid' \<noteq> remote \<and> l2_channel s cid' = None" by blast
  from assms(3) f(1) have "cid = cid'" unfolding allocate_local_cid_def n_def [symmetric] by simp
  with f l2_wf_local_cid [OF assms(1,3)] show ?thesis by simp
qed

theorem allocated_cid_is_free_witness:
  "allocate_local_cid 0x40 (l2cap_new :: unit L2capState) = (0x41, l2cap_new\<lparr>l2_next_local_cid := 0x42\<rparr>) \<and>
   l2_channel (l2cap_new :: unit L2capState) 0x41 = None"
proof -
  have e: "allocate_local_cid 0x40 (l2cap_new :: unit L2capState) = (0x41, l2cap_new\<lparr>l2_next_local_cid := 0x42\<rparr>)"
    by (simp add: allocate_local_cid_def cid_search.simps l2cap_new_def register_psm_def)
  from allocated_cid_is_free [OF l2_wf_new _ e] show ?thesis
    using e by (simp add: l2cap_new_def register_psm_def)
qed

section \<open>The configuration watchdog\<close>

definition stalled_channels :: "instant \<Rightarrow> duration \<Rightarrow> 'w L2capState \<Rightarrow> (u16 \<times> 'w L2capChannel) list" where
  "stalled_channels now timeout s = filter (\<lambda>(_, ch). config_stalled now timeout ch) (l2_channels s)"

text \<open>What the manager learns of a channel that is torn down.\<close>

fun stall_events :: "duration \<Rightarrow> u16 \<times> 'w L2capChannel \<Rightarrow> HfpEvent list" where
  "stall_events timeout (cid, ch) =
     fst (channel_take_hfp_events ch) @ [ServiceLevelConnectionFailed (stall_label cid (ch_psm ch)) (Some timeout)]"

lemma teardown_all_known:
  assumes "l2_wf s" and "\<forall>e\<in>set es. l2_channel s (fst e) = Some (snd e)" and "distinct (map fst es)"
    and "teardown_all timeout (map fst es) s = (packets, s')"
  shows "l2_channels s' = filter (\<lambda>e. fst e \<notin> fst ` set es) (l2_channels s) \<and> length packets = length es \<and>
    l2_orphan_hfp_events s' = l2_orphan_hfp_events s @
      concat (map (stall_events timeout) es)"
  using assms
proof (induction es arbitrary: s packets s')
  case (Cons e es)
  obtain cid ch where e: "e = (cid, ch)" by force
  obtain p s1 where p: "teardown_stalled timeout cid s = (p, s1)" by force
  obtain ps s2 where ps: "teardown_all timeout (map fst es) s1 = (ps, s2)" by force
  have l: "l2_channel s cid = Some ch" using Cons(3) e by simp
  have s1: "l2_channels s1 = filter (\<lambda>e. fst e \<noteq> cid) (l2_channels s)" "length p = 1"
    "l2_orphan_hfp_events s1 = l2_orphan_hfp_events s @ stall_events timeout (cid, ch)"
    using p by (auto simp: teardown_stalled_def l Let_def allocate_local_signaling_id_def remove_channel_def bt_remove_def)
  have wf1: "l2_wf s1" using l2_wf_teardown [OF Cons(2), of timeout cid] p by simp
  have "map_of (l2_channels s1) = (map_of (l2_channels s))(cid := None)"
    unfolding s1(1) using bt.lookup_del [of cid "l2_channels s"] by (simp add: bt_remove_def)
  with Cons(3,4) e have known: "\<forall>e\<in>set es. l2_channel s1 (fst e) = Some (snd e)" by force
  from Cons(1) [OF wf1 known _ ps] Cons(4)
  have r: "l2_channels s2 = filter (\<lambda>e. fst e \<notin> fst ` set es) (l2_channels s1)" "length ps = length es"
    "l2_orphan_hfp_events s2 = l2_orphan_hfp_events s1 @
      concat (map (stall_events timeout) es)" by simp_all
  from Cons(5) p ps have res: "packets = p @ ps" "s' = s2" by (simp_all add: e)
  have "l2_channels s2 = filter (\<lambda>x. fst x \<notin> fst ` set (e # es)) (l2_channels s)"
    unfolding r(1) s1(1) by (simp add: e conj_commute)
  moreover have "length packets = length (e # es)" using res s1(2) r(2) by simp
  ultimately show ?case using r(3) s1(3) unfolding res by (simp add: e)
qed simp

lemma tick_stalls_result:
  assumes "l2_wf s" and "tick_l2cap_stalls now timeout s = (packets, s')"
  shows "l2_channels s' = filter (\<lambda>(_, ch). \<not> config_stalled now timeout ch) (l2_channels s) \<and>
    length packets = length (stalled_channels now timeout s) \<and>
    l2_orphan_hfp_events s' = l2_orphan_hfp_events s @
      concat (map (stall_events timeout) (stalled_channels now timeout s))"
proof -
  let ?es = "stalled_channels now timeout s"
  have bt: "bt_wf (l2_channels s)" and wfc: "list_all (\<lambda>(cid, ch). channel_wf cid ch) (l2_channels s)"
    using assms(1) by (simp_all add: l2_wf_def)
  have cids: "map (\<lambda>(_, ch). ch_local_cid ch) ?es = map fst ?es"
  proof (rule map_cong [OF refl])
    fix e assume "e \<in> set ?es"
    with wfc have "channel_wf (fst e) (snd e)" by (auto simp: stalled_channels_def list_all_iff)
    then show "(case e of (_, ch) \<Rightarrow> ch_local_cid ch) = fst e" by (simp add: channel_wf_def case_prod_beta)
  qed
  have d: "distinct (map fst (l2_channels s))"
    using bt by (auto simp: bt_wf_def intro: strict_sorted_iff [THEN iffD1, THEN conjunct2])
  then have "distinct (map fst ?es)" by (auto simp: stalled_channels_def distinct_map intro: inj_on_subset)
  moreover have "\<forall>e\<in>set ?es. l2_channel s (fst e) = Some (snd e)"
    using bt by (auto simp: stalled_channels_def bt_wf_map_of)
  moreover have "teardown_all timeout (map fst ?es) s = (packets, s')"
  proof -
    have "tick_l2cap_stalls now timeout s = teardown_all timeout (map (\<lambda>(_, ch). ch_local_cid ch) ?es) s"
      by (simp only: tick_l2cap_stalls_def stalled_channels_def)
    with assms(2) cids show ?thesis by simp
  qed
  ultimately have r: "l2_channels s' = filter (\<lambda>e. fst e \<notin> fst ` set ?es) (l2_channels s)"
    and rest: "length packets = length ?es" "l2_orphan_hfp_events s' = l2_orphan_hfp_events s @
      concat (map (stall_events timeout) ?es)"
    using teardown_all_known [OF assms(1), of ?es timeout packets s'] by simp_all
  have "filter (\<lambda>e. fst e \<notin> fst ` set ?es) (l2_channels s) =
        filter (\<lambda>(_, ch). \<not> config_stalled now timeout ch) (l2_channels s)"
  proof (rule filter_cong [OF refl])
    fix e assume "e \<in> set (l2_channels s)"
    then show "(fst e \<notin> fst ` set ?es) = (case e of (_, ch) \<Rightarrow> \<not> config_stalled now timeout ch)"
      using d by (auto simp: stalled_channels_def dest: eq_key_imp_eq_value)
  qed
  with r rest show ?thesis by simp
qed

text \<open>A pass of the watchdog removes exactly the channels whose outstanding request has
  waited for the timeout, asks the peer to disconnect each of them with one packet, and keeps the
  hands-free events of the removed channels, each followed by a failure report, for the manager.\<close>

theorem stall_watchdog:
  assumes "l2_wf s" and "tick_l2cap_stalls now timeout s = (packets, s')"
  shows "l2_channels s' = filter (\<lambda>(_, ch). \<not> config_stalled now timeout ch) (l2_channels s) \<and>
    length packets = length (stalled_channels now timeout s) \<and>
    l2_orphan_hfp_events s' = l2_orphan_hfp_events s @
      concat (map (stall_events timeout) (stalled_channels now timeout s))"
  using assms by (rule tick_stalls_result)

theorem stall_watchdog_witness:
  "\<exists>packets s'. tick_l2cap_stalls 9 4 (snd (open_outbound_channel_with_handler 5 7 PSM_SDP None
        (l2cap_new :: unit L2capState))) = (packets, s') \<and> l2_channels s' = [] \<and> length packets = 1"
proof -
  let ?s = "snd (open_outbound_channel_with_handler 5 7 PSM_SDP None (l2cap_new :: unit L2capState))"
  have chs: "\<exists>ch. l2_channels ?s = [(0x40, ch)] \<and> config_stalled 9 4 ch"
    by (simp add: open_outbound_channel_with_handler_def allocate_local_cid_def cid_search.simps
        allocate_local_signaling_id_def put_channel_def l2cap_new_def register_psm_def config_stalled_def)
  obtain packets s' where t: "tick_l2cap_stalls 9 4 ?s = (packets, s')" by force
  from stall_watchdog [OF l2_wf_open_outbound [OF l2_wf_new] t] chs
  have "l2_channels s' = [] \<and> length packets = 1" by (auto simp: stalled_channels_def)
  with t show ?thesis by blast
qed

text \<open>A channel whose peer acknowledged our configuration but never sends
  its own stays in the table: no pass of the watchdog, however late, removes it, because the
  acknowledgement stopped the only timer.\<close>

theorem half_configured_never_times_out:
  assumes "l2_wf s" and "l2_channel s cid = Some ch" and "ch_state ch = Configuring" and "ch_local_configured ch"
  shows "l2_channel (snd (tick_l2cap_stalls now timeout s)) cid = Some ch"
proof -
  obtain packets s' where t: "tick_l2cap_stalls now timeout s = (packets, s')" by force
  from tick_stalls_result [OF assms(1) t]
  have "l2_channels s' = filter (\<lambda>(_, ch). \<not> config_stalled now timeout ch) (l2_channels s)" by simp
  moreover have "bt_wf (l2_channels s')"
    using l2_wf_tick_l2cap_stalls [OF assms(1), of now timeout] t by (simp add: l2_wf_def)
  moreover have "ch_local_config_sent_at ch = None"
    using l2_wf_channel [OF assms(1,2)] assms(4) by (simp add: channel_wf_def)
  moreover have "(cid, ch) \<in> set (l2_channels s)"
    using assms(1,2) by (simp add: l2_wf_def bt_wf_map_of)
  ultimately have "(cid, ch) \<in> set (l2_channels s')" by (simp add: config_stalled_def)
  with \<open>bt_wf (l2_channels s')\<close> t show ?thesis by (simp add: bt_wf_map_of)
qed

text \<open>Witness: an outgoing channel whose peer accepted it and acknowledged our configuration.\<close>

definition half_configured_example :: "unit L2capState" where
  "half_configured_example =
     handle_configure_response 0x81 0x40 CONFIG_RESULT_SUCCESS
       (snd (handle_connection_response 6 0x80 0x50 0x40 CONNECTION_RESULT_SUCCESS
         (snd (open_outbound_channel_with_handler 5 7 PSM_SDP None l2cap_new))))"

theorem half_configured_never_times_out_witness:
  "\<exists>ch. l2_channel half_configured_example 0x40 = Some ch \<and> ch_state ch = Configuring \<and>
        l2_channel (snd (tick_l2cap_stalls 1000000 5 half_configured_example)) 0x40 = Some ch"
proof -
  have wf: "l2_wf half_configured_example"
    by (simp add: half_configured_example_def l2_wf_configure_response l2_wf_connection_response l2_wf_open_outbound l2_wf_new)
  have "\<exists>ch. l2_channel half_configured_example 0x40 = Some ch \<and> ch_state ch = Configuring \<and> ch_local_configured ch"
    by (simp add: half_configured_example_def open_outbound_channel_with_handler_def allocate_local_cid_def
        cid_search.simps allocate_local_signaling_id_def put_channel_def l2cap_new_def register_psm_def
        handle_connection_response_def handle_configure_response_def update_channel_def bt_update_def config_acked_def)
  then show ?thesis using half_configured_never_times_out [OF wf] by blast
qed

end
