(* ===== verification/L2cap_Link.thy ===== *)
theory L2cap_Link
  imports L2cap_Inv
begin

text \<open>
  The L2CAP layer on the wire: packets that are read back as they were built, fragments that are put
  together again, and two ends running this code that open a channel between them.
\<close>

section \<open>Reading what was built\<close>

lemma parse_basic_frame_build [wire_simps]:
  "length p < 65536 \<Longrightarrow> parse_basic_frame (build_basic_frame cid p @ rest) = Inr \<lparr>bf_cid = cid, bf_payload = p\<rparr>"
  by (simp add: parse_basic_frame_def build_basic_frame_def u16_le_def)

lemma length_build_basic_frame [simp]: "length (build_basic_frame cid p) = 4 + length p"
  by (simp add: build_basic_frame_def)

lemma length_build_signaling [simp]: "length (build_signaling code ident p) = 4 + length p"
  by (simp add: build_signaling_def)

lemma acl_fields:
  fixes h :: u16 and pb bc :: u8
  shows "((h AND 0x0fff) OR push_bit 12 (ucast pb AND 0x03) OR push_bit 14 (ucast bc AND 0x03)) AND 0x0fff = h AND 0x0fff"
    and "ucast (drop_bit 12 ((h AND 0x0fff) OR push_bit 12 (ucast pb AND 0x03) OR push_bit 14 (ucast bc AND 0x03)) AND (0x03 :: u16))
           = pb AND 0x03"
    and "ucast (drop_bit 14 ((h AND 0x0fff) OR push_bit 12 (ucast pb AND 0x03) OR push_bit 14 (ucast bc AND 0x03)) AND (0x03 :: u16))
           = bc AND 0x03"
proof -
  have 1: "(0x0fff :: u16) = mask 12" and 2: "(0x03 :: u16) = mask 2" and 3: "(0x03 :: u8) = mask 2"
    by (simp_all add: mask_eq_exp_minus_1)
  show "((h AND 0x0fff) OR push_bit 12 (ucast pb AND 0x03) OR push_bit 14 (ucast bc AND 0x03)) AND 0x0fff = h AND 0x0fff"
    unfolding 1 2 by (rule bit_word_eqI) (auto simp: bit_simps)
  show "ucast (drop_bit 12 ((h AND 0x0fff) OR push_bit 12 (ucast pb AND 0x03) OR push_bit 14 (ucast bc AND 0x03)) AND (0x03 :: u16))
           = pb AND 0x03"
    unfolding 1 2 3 by (rule bit_word_eqI) (auto simp: bit_simps)
  show "ucast (drop_bit 14 ((h AND 0x0fff) OR push_bit 12 (ucast pb AND 0x03) OR push_bit 14 (ucast bc AND 0x03)) AND (0x03 :: u16))
           = bc AND 0x03"
    unfolding 1 2 3 by (rule bit_word_eqI) (auto simp: bit_simps)
qed

lemma parse_acl_frame_raw:
  "length p < 65536 \<Longrightarrow>
   parse_acl_frame (u16_le w @ u16_le (word_of_nat (length p)) @ p) =
     Inr \<lparr>acl_connection_handle = w AND 0x0fff, acl_packet_boundary_flag = ucast (drop_bit 12 w AND 0x03),
          acl_broadcast_flag = ucast (drop_bit 14 w AND 0x03), acl_payload = p\<rparr>"
  by (simp add: parse_acl_frame_def u16_le_def)

lemma parse_acl_frame_build [wire_simps]:
  "length p < 65536 \<Longrightarrow>
   parse_acl_frame (build_acl_packet h pb bc p) =
     Inr \<lparr>acl_connection_handle = h AND 0x0fff, acl_packet_boundary_flag = pb AND 0x03,
          acl_broadcast_flag = bc AND 0x03, acl_payload = p\<rparr>"
  by (simp only: build_acl_packet_def Let_def parse_acl_frame_raw acl_fields)

lemma parse_signaling_header_build [wire_simps]:
  "length p < 65536 \<Longrightarrow>
   parse_signaling_header (build_signaling code ident p @ rest) =
     Inr \<lparr>sh_code = code, sh_identifier = ident, sh_payload = p\<rparr>"
  by (simp add: parse_signaling_header_def build_signaling_def u16_le_def)

text \<open>The encoding of a signalling command, as the peer would send it.\<close>

fun encode_signal :: "SignalingCommand \<Rightarrow> bytes" where
  "encode_signal (ConnectionRequest i psm source) =
     build_signaling SIGNAL_CONNECTION_REQUEST i (u16_le psm @ u16_le source)"
| "encode_signal (ConnectionResponse i destination source result status) =
     build_signaling SIGNAL_CONNECTION_RESPONSE i (u16_le destination @ u16_le source @ u16_le result @ u16_le status)"
| "encode_signal (ConfigureRequest i destination flags options) =
     build_signaling SIGNAL_CONFIGURE_REQUEST i (u16_le destination @ u16_le flags @ options)"
| "encode_signal (ConfigureResponse i source flags result options) =
     build_signaling SIGNAL_CONFIGURE_RESPONSE i (u16_le source @ u16_le flags @ u16_le result @ options)"
| "encode_signal (DisconnectionRequest i destination source) =
     build_signaling SIGNAL_DISCONNECTION_REQUEST i (u16_le destination @ u16_le source)"
| "encode_signal (DisconnectionResponse i destination source) =
     build_signaling SIGNAL_DISCONNECTION_RESPONSE i (u16_le destination @ u16_le source)"
| "encode_signal (InformationRequest i info_type) =
     build_signaling SIGNAL_INFORMATION_REQUEST i (u16_le info_type)"
| "encode_signal (InformationResponse i info_type result data) =
     build_signaling SIGNAL_INFORMATION_RESPONSE i (u16_le info_type @ u16_le result @ data)"
| "encode_signal (UnknownSignal code i payload) = build_signaling code i payload"

definition known_signals :: "u8 list" where
  "known_signals = [0x02, 0x03, 0x04, 0x05, 0x06, 0x07, 0x0a, 0x0b]"

fun signal_fits :: "SignalingCommand \<Rightarrow> bool" where
  "signal_fits (ConfigureRequest i destination flags options) = (length options < 65532)"
| "signal_fits (ConfigureResponse i source flags result options) = (length options < 65530)"
| "signal_fits (InformationResponse i info_type result data) = (length data < 65532)"
| "signal_fits (UnknownSignal code i payload) = (code \<notin> set known_signals \<and> length payload < 65536)"
| "signal_fits _ = True"

definition signal_item :: "bytes \<Rightarrow> l2cap_wire_error + SignalingCommand \<times> nat" where
  "signal_item payload =
     and_then (parse_signaling_header payload) (\<lambda>header.
     and_then (parse_signaling_command header) (\<lambda>c. Inr (c, 4 + length (sh_payload header))))"

lemmas signal_parse_simps = parse_signaling_header_build parse_signaling_command_def l2cap_require_len_def
  le16_at_def u16_le_def known_signals_def

interpretation l2cap_signals: stream_codec encode_signal signal_item id signal_fits parse_signaling_commands
proof (unfold_locales, goal_cases)
  case (1 c rest)
  then show ?case by (cases c) (simp_all add: signal_item_def signal_parse_simps)
next
  case (2 c)
  then show ?case by (cases c) (simp_all add: build_signaling_def)
next
  case 3
  show ?case by (simp add: parse_signaling_commands.simps)
next
  case (4 buf c n)
  then show ?case
    by (cases "parse_signaling_header buf")
      (auto simp: signal_item_def parse_signaling_commands.simps [of buf] elim!: and_then_InrE)
next
  case (5 buf e)
  then show ?case
    by (cases "parse_signaling_header buf")
      (auto simp: signal_item_def parse_signaling_commands.simps [of buf] and_then_def split: sum.splits)
qed

text \<open>A signalling frame is handled as the sequence of its commands, and what follows them is handled in
  the state they leave.\<close>

fun handle_commands ::
    "instant \<Rightarrow> u16 \<Rightarrow> SignalingCommand list \<Rightarrow> 'w L2capState \<Rightarrow> bytes list \<times> 'w L2capState" where
  "handle_commands now h [] s = ([], s)"
| "handle_commands now h (c # cs) s =
     (let (r, s1) = handle_signaling_command now h c s; (rs, s2) = handle_commands now h cs s1 in (r @ rs, s2))"

lemma signal_item_header:
  assumes "signal_fits c"
  obtains header where "parse_signaling_header (encode_signal c @ rest) = Inr header"
    and "parse_signaling_command header = Inr c" and "4 + length (sh_payload header) = length (encode_signal c)"
proof -
  from l2cap_signals.dec_enc [OF assms, of rest] show ?thesis
    by (auto simp: signal_item_def elim!: and_then_InrE intro: that)
qed

lemma handle_signaling_frame_Cons:
  assumes "signal_fits c"
  shows "handle_signaling_frame now h (encode_signal c @ rest) s =
    (let (r, s1) = handle_signaling_command now h c s; (rs, s2) = handle_signaling_frame now h rest s1 in (r @ rs, s2))"
proof -
  obtain header where "parse_signaling_header (encode_signal c @ rest) = Inr header"
    "parse_signaling_command header = Inr c" "4 + length (sh_payload header) = length (encode_signal c)"
    using signal_item_header [OF assms] by blast
  moreover have "encode_signal c \<noteq> []" using l2cap_signals.enc_nonempty [OF assms] .
  ultimately show ?thesis
    by (simp add: handle_signaling_frame.simps [of now h "encode_signal c @ rest"] signaling_step_def)
qed

lemma handle_signaling_frame_concat:
  "list_all signal_fits cs \<Longrightarrow>
   handle_signaling_frame now h (concat (map encode_signal cs) @ rest) s =
     (let (r, s1) = handle_commands now h cs s; (rs, s2) = handle_signaling_frame now h rest s1 in (r @ rs, s2))"
  by (induction cs arbitrary: s) (simp_all add: handle_signaling_frame_Cons case_prod_beta)

text \<open>A signalling frame whose last command is cut short is not lost: the commands
  before it take effect and are answered, in order, and the fragment adds at most one Command Reject.\<close>

theorem bad_signal_tail_isolated:
  assumes "list_all signal_fits cs" and "parse_signaling_header junk = Inl e" and "junk \<noteq> []"
    and "handle_commands now h cs s = (replies, s')"
  shows "handle_signaling_frame now h (concat (map encode_signal cs) @ junk) s =
           (replies @ reject_unreadable junk, s') \<and> length (reject_unreadable junk) \<le> 1"
  using assms
  by (simp add: handle_signaling_frame_concat handle_signaling_frame.simps [of now h junk] reject_unreadable_def
      split: list.split)

theorem bad_signal_tail_isolated_witness:
  "handle_signaling_frame 0 1 (encode_signal (InformationRequest 3 2) @ [0x02, 0x05, 0x08]) (l2cap_new :: unit L2capState) =
     ([build_information_response_for_type 3 2, build_command_reject 5 0], l2cap_new)"
  using bad_signal_tail_isolated [of "[InformationRequest 3 2]" "[0x02, 0x05, 0x08]" SignalTooShort 0 1
      "l2cap_new :: unit L2capState"]
  by (simp add: parse_signaling_header_def reject_unreadable_def signaling_code_is_request_def)

section \<open>Reassembly\<close>

lemma drain_frames_build:
  "length p < 65536 \<Longrightarrow>
   drain_basic_frames (build_basic_frame cid p @ rest) =
     (let (fs, r) = drain_basic_frames rest in (build_basic_frame cid p # fs, r))"
proof -
  assume p: "length p < 65536"
  let ?b = "build_basic_frame cid p"
  have len: "unat (u16_from_le_bytes ((?b @ rest) ! 0) ((?b @ rest) ! 1)) = length p"
    using p by (simp add: build_basic_frame_def u16_le_def)
  have cut: "take (4 + length p) (?b @ rest) = ?b" "drop (4 + length p) (?b @ rest) = rest" by simp_all
  show ?thesis
    by (subst drain_basic_frames.simps) (simp add: len [simplified] cut Let_def case_prod_beta)
qed

lemma drain_frames_more:
  "drain_basic_frames (a @ b) =
     (let (fs, r) = drain_basic_frames a; (fs', r') = drain_basic_frames (r @ b) in (fs @ fs', r'))"
proof (induction a rule: drain_basic_frames.induct)
  case (1 a)
  show ?case
  proof (cases "length a < 4 \<or> length a < 4 + unat (u16_from_le_bytes (a ! 0) (a ! 1))")
    case True
    then have "drain_basic_frames a = ([], a)" by (auto simp: drain_basic_frames.simps [of a] Let_def)
    then show ?thesis by simp
  next
    case False
    let ?len = "unat (u16_from_le_bytes (a ! 0) (a ! 1))"
    have ih: "drain_basic_frames (drop (4 + ?len) a @ b) =
       (let (fs, r) = drain_basic_frames (drop (4 + ?len) a); (fs', r') = drain_basic_frames (r @ b) in (fs @ fs', r'))"
      using 1 False by simp
    have hd: "(a @ b) ! 0 = a ! 0" "(a @ b) ! 1 = a ! 1" using False by (auto simp: nth_append)
    have "drain_basic_frames (a @ b) =
       (let (fs, r) = drain_basic_frames (drop (4 + ?len) a @ b) in (take (4 + ?len) a # fs, r))"
      using False hd by (simp add: drain_basic_frames.simps [of "a @ b"] Let_def)
    moreover have "drain_basic_frames a =
       (let (fs, r) = drain_basic_frames (drop (4 + ?len) a) in (take (4 + ?len) a # fs, r))"
      using False by (simp add: drain_basic_frames.simps [of a] Let_def)
    ultimately show ?thesis using ih by (simp add: case_prod_beta Let_def)
  qed
qed

text \<open>Handling a frame neither reads nor changes the reassembly buffers.\<close>

definition with_buffers :: "(u16 \<rightharpoonup> bytes) \<Rightarrow> 'w L2capState \<Rightarrow> 'w L2capState" where
  "with_buffers m s = s\<lparr>l2_acl_reassembly := m\<rparr>"

lemma with_buffers_fields [simp]:
  "l2_channels (with_buffers m s) = l2_channels s"
  "l2_psm_handlers (with_buffers m s) = l2_psm_handlers s"
  "l2_next_local_cid (with_buffers m s) = l2_next_local_cid s"
  "l2_next_local_signaling_id (with_buffers m s) = l2_next_local_signaling_id s"
  "l2_orphan_hfp_events (with_buffers m s) = l2_orphan_hfp_events s"
  "with_buffers m' (with_buffers m s) = with_buffers m' s"
  by (simp_all add: with_buffers_def)

lemma with_buffers_reassembly [simp]: "l2_acl_reassembly (with_buffers m s) = m"
  by (simp add: with_buffers_def)

lemma with_buffers_ops [simp]:
  "update_channel cid f (with_buffers m s) = with_buffers m (update_channel cid f s)"
  "put_channel cid ch (with_buffers m s) = with_buffers m (put_channel cid ch s)"
  "remove_channel cid (with_buffers m s) = with_buffers m (remove_channel cid s)"
  "(with_buffers m s)\<lparr>l2_orphan_hfp_events := x\<rparr> = with_buffers m (s\<lparr>l2_orphan_hfp_events := x\<rparr>)"
  by (simp_all add: with_buffers_def update_channel_def put_channel_def remove_channel_def)

lemma with_buffers_alloc [simp]:
  "allocate_local_signaling_id (with_buffers m s) = map_prod id (with_buffers m) (allocate_local_signaling_id s)"
  "allocate_local_cid r (with_buffers m s) = map_prod id (with_buffers m) (allocate_local_cid r s)"
  by (simp_all add: allocate_local_signaling_id_def allocate_local_cid_def with_buffers_def Let_def case_prod_beta)

lemma handle_signaling_command_buffers:
  "handle_signaling_command now h c (with_buffers m s) =
     map_prod id (with_buffers m) (handle_signaling_command now h c s)"
proof (cases c)
  case (ConnectionRequest i psm source)
  then show ?thesis by (simp add: handle_connection_request_def Let_def case_prod_beta)
next
  case (ConnectionResponse i destination source result status)
  then show ?thesis
    by (simp add: handle_connection_response_def Let_def case_prod_beta split: option.split)
next
  case (ConfigureRequest i destination flags options)
  then show ?thesis by (simp add: handle_configure_request_def split: option.split)
next
  case (ConfigureResponse i source flags result options)
  then show ?thesis by (simp add: handle_configure_response_def case_prod_beta split: option.split)
qed simp_all

lemma handle_signaling_frame_buffers:
  "handle_signaling_frame now h p (with_buffers m s) =
     map_prod id (with_buffers m) (handle_signaling_frame now h p s)"
proof (induction now h p s rule: handle_signaling_frame.induct)
  case (1 now h p s)
  show ?case
  proof (cases "p = []")
    case True
    then show ?thesis by (simp add: handle_signaling_frame.simps [of now h "[]"])
  next
    case False
    have step: "signaling_step now h header (with_buffers m s) =
        map_prod id (with_buffers m) (signaling_step now h header s)" for header
      by (simp add: signaling_step_def handle_signaling_command_buffers split: sum.split)
    show ?thesis
    proof (cases "parse_signaling_header p")
      case (Inr header)
      obtain r s1 where st: "signaling_step now h header s = (r, s1)" by force
      from 1 [OF False Inr st [symmetric] refl] st Inr False show ?thesis
        by (simp add: handle_signaling_frame.simps [of now h p] step case_prod_beta)
    qed (simp add: handle_signaling_frame.simps [of now h p] False)
  qed
qed

lemma handle_frame_bytes_buffers:
  "handle_frame_bytes now h f (with_buffers m s) sh =
     map_prod id (map_prod (with_buffers m) id) (handle_frame_bytes now h f s sh)"
proof -
  have "handle_channel_payload now h fr (with_buffers m s) sh =
      map_prod id (map_prod (with_buffers m) id) (handle_channel_payload now h fr s sh)" for fr
    by (simp add: handle_channel_payload_def Let_def case_prod_beta split: option.split sum.split)
  then show ?thesis
    by (simp add: handle_frame_bytes_def handle_signaling_frame_buffers case_prod_beta split: sum.split)
qed

lemma handle_frames_buffers:
  "handle_frames now h fs (with_buffers m s) sh =
     map_prod id (map_prod (with_buffers m) id) (handle_frames now h fs s sh)"
  by (induction fs arbitrary: s sh) (simp_all add: handle_frame_bytes_buffers case_prod_beta)

lemma handle_frames_append:
  "handle_frames now h (fs @ gs) s sh =
     (let (o1, s1, sh1) = handle_frames now h fs s sh; (o2, s2, sh2) = handle_frames now h gs s1 sh1
      in (o1 @ o2, s2, sh2))"
  by (induction fs arbitrary: s sh) (simp_all add: case_prod_beta)

fun handle_acl_packets ::
    "instant \<Rightarrow> bytes list \<Rightarrow> 'w L2capState \<Rightarrow> 'w Shared \<Rightarrow> bytes list \<times> 'w L2capState \<times> 'w Shared" where
  "handle_acl_packets now [] s sh = ([], s, sh)"
| "handle_acl_packets now (p # ps) s sh =
     (let (r, s1, sh1) = handle_acl_packet now p s sh;
          (out, s2, sh2) = handle_acl_packets now ps s1 sh1
      in (case r of Inl _ \<Rightarrow> out | Inr o1 \<Rightarrow> o1 @ out, s2, sh2))"

text \<open>A byte stream cut into ACL packets: the first starts a frame, the others continue it.\<close>

fun acl_fragments :: "u16 \<Rightarrow> bytes list \<Rightarrow> bytes list" where
  "acl_fragments h [] = []"
| "acl_fragments h (c # cs) =
     build_acl_packet h ACL_PACKET_BOUNDARY_FIRST_NON_FLUSHABLE ACL_BROADCAST_POINT_TO_POINT c #
     map (build_acl_packet h ACL_PACKET_BOUNDARY_CONTINUING_FRAGMENT ACL_BROADCAST_POINT_TO_POINT) cs"

definition stream_effect ::
    "instant \<Rightarrow> u16 \<Rightarrow> bytes \<Rightarrow> 'w L2capState \<Rightarrow> 'w Shared \<Rightarrow> bytes list \<times> 'w L2capState \<times> 'w Shared" where
  "stream_effect now h stream s sh =
     (let (frames, rest) = drain_basic_frames stream;
          (out, s', sh') = handle_frames now h frames s sh
      in (out, with_buffers ((l2_acl_reassembly s')(h \<mapsto> rest)) s', sh'))"

lemma with_buffers_same: "with_buffers m s = s\<lparr>l2_acl_reassembly := m\<rparr>"
  by (simp add: with_buffers_def)

lemma handle_frames_keep [simp]:
  "l2_acl_reassembly (fst (snd (handle_frames now h fs s sh))) = l2_acl_reassembly s"
proof -
  have "with_buffers (l2_acl_reassembly s) s = s" by (simp add: with_buffers_def)
  with handle_frames_buffers [of now h fs "l2_acl_reassembly s" s sh]
  have "fst (snd (handle_frames now h fs s sh)) = with_buffers (l2_acl_reassembly s) (fst (snd (handle_frames now h fs s sh)))"
    by (metis fst_map_prod snd_map_prod)
  then show ?thesis by (metis with_buffers_reassembly)
qed

lemma first_fragment:
  assumes "length c < 65536"
  shows "handle_acl_packet now (build_acl_packet h 2 0 c) s sh =
    (let (out, s', sh') = stream_effect now (h AND 0x0fff) c s sh in (Inr out, s', sh'))"
  using assms
  by (simp add: handle_acl_packet_def parse_acl_frame_build stream_effect_def Let_def case_prod_beta map_prod_def
      handle_frames_buffers with_buffers_same [symmetric])

lemma next_fragment:
  assumes "length c < 65536" and "l2_acl_reassembly s (h AND 0x0fff) = Some held"
  shows "handle_acl_packet now (build_acl_packet h 1 0 c) s sh =
    (let (out, s', sh') = stream_effect now (h AND 0x0fff) (held @ c) s sh in (Inr out, s', sh'))"
  using assms
  by (simp add: handle_acl_packet_def parse_acl_frame_build stream_effect_def Let_def case_prod_beta map_prod_def
      handle_frames_buffers with_buffers_same [symmetric])

text \<open>Two pieces of a stream, one after the other, are the stream.\<close>

lemma stream_effect_append:
  assumes "stream_effect now h a s sh = (o1, s1, sh1)" and "l2_acl_reassembly s1 h = Some held"
    and "stream_effect now h (held @ b) s1 sh1 = (o2, s2, sh2)"
  shows "stream_effect now h (a @ b) s sh = (o1 @ o2, s2, sh2)"
proof -
  obtain fa ra where a: "drain_basic_frames a = (fa, ra)" by force
  obtain oa sa sha where ha: "handle_frames now h fa s sh = (oa, sa, sha)" by (metis prod_cases3)
  from assms(1) a ha have 1: "o1 = oa" "s1 = with_buffers ((l2_acl_reassembly sa)(h \<mapsto> ra)) sa" "sh1 = sha"
    by (simp_all add: stream_effect_def)
  with assms(2) have held: "held = ra" by simp
  obtain fb rb where b: "drain_basic_frames (ra @ b) = (fb, rb)" by force
  obtain ob sb shb where hb: "handle_frames now h fb sa sha = (ob, sb, shb)" by (metis prod_cases3)
  with handle_frames_keep [of now h fb sa sha] have keep: "l2_acl_reassembly sb = l2_acl_reassembly sa" by simp
  from assms(3) b hb held keep have "o2 = ob" "s2 = with_buffers ((l2_acl_reassembly sa)(h \<mapsto> rb)) sb" "sh2 = shb"
    by (auto simp: stream_effect_def 1 handle_frames_buffers)
  with a b ha hb 1 keep show ?thesis
    by (simp add: stream_effect_def drain_frames_more [of a b] handle_frames_append)
qed

lemma continued_fragments:
  assumes "stream_effect now (h AND 0x0fff) a s sh = (o1, s1, sh1)" and "\<forall>c\<in>set cs. length c < 65536"
  shows "(let (out, s', sh') = handle_acl_packets now (map (build_acl_packet h 1 0) cs) s1 sh1 in (o1 @ out, s', sh')) =
         stream_effect now (h AND 0x0fff) (a @ concat cs) s sh"
  using assms
proof (induction cs arbitrary: a o1 s1 sh1)
  case (Cons c cs)
  have held: "l2_acl_reassembly s1 (h AND 0x0fff) = Some (snd (drain_basic_frames a))"
    using Cons(2) by (auto simp: stream_effect_def split: prod.splits)
  obtain o2 s2 sh2 where e: "stream_effect now (h AND 0x0fff) (snd (drain_basic_frames a) @ c) s1 sh1 = (o2, s2, sh2)"
    by (metis prod_cases3)
  have "stream_effect now (h AND 0x0fff) (a @ c) s sh = (o1 @ o2, s2, sh2)"
    using stream_effect_append [OF Cons(2) held e] .
  from Cons(1) [OF this] Cons(3) next_fragment [of c s1 h "snd (drain_basic_frames a)" now sh1] held e
  show ?case by (simp add: case_prod_beta Let_def)
qed simp

text \<open>C6 How the controller cuts a byte stream into ACL packets does not
  matter: two ways of cutting the same stream give the same replies, the same state and the same
  deliveries.\<close>

theorem acl_fragmentation_irrelevant:
  assumes "\<forall>c\<in>set (c # cs). length c < 65536" and "\<forall>d\<in>set (d # ds). length d < 65536"
    and "concat (c # cs) = concat (d # ds)"
  shows "handle_acl_packets now (acl_fragments h (c # cs)) s sh = handle_acl_packets now (acl_fragments h (d # ds)) s sh"
proof -
  have "handle_acl_packets now (acl_fragments h (x # xs)) s sh =
      stream_effect now (h AND 0x0fff) (concat (x # xs)) s sh"
    if fits: "\<forall>c\<in>set (x # xs). length c < 65536" for x xs
  proof -
    obtain o1 s1 sh1 where e: "stream_effect now (h AND 0x0fff) x s sh = (o1, s1, sh1)" by (metis prod_cases3)
    with continued_fragments [OF e, of xs] first_fragment [of x now h s sh] fits
    show ?thesis by (simp add: case_prod_beta)
  qed
  from this [OF assms(1)] this [OF assms(2)] assms(3) show ?thesis by (simp only:)
qed

text \<open>Witness: an information request in one packet, and with its header cut in two.\<close>

theorem acl_fragmentation_irrelevant_witness:
  "handle_acl_packets 0 (acl_fragments 7 [build_basic_signaling_packet 0x0a 3 [2, 0]])
      (l2cap_new :: unit L2capState) \<lparr>sh_world = (), sh_buffers = (\<lambda>_. [])\<rparr> =
   handle_acl_packets 0 (acl_fragments 7 [[6, 0, 1], [0, 0x0a, 3, 2, 0], [2, 0]])
      (l2cap_new :: unit L2capState) \<lparr>sh_world = (), sh_buffers = (\<lambda>_. [])\<rparr>"
  by (rule acl_fragmentation_irrelevant)
    (simp_all add: build_basic_signaling_packet_def build_basic_frame_def build_signaling_def u16_le_def u16_lo_def u16_hi_def)

section \<open>One signalling command per packet\<close>

definition signal_packet :: "u16 \<Rightarrow> SignalingCommand \<Rightarrow> bytes" where
  "signal_packet h c = to_acl h (build_basic_frame CID_SIGNALING (encode_signal c))"

text \<open>Every builder of the source is the encoding of its command.\<close>

lemma builders_encode:
  "to_acl h (build_connection_request i psm source) = signal_packet h (ConnectionRequest i psm source)"
  "to_acl h (build_connection_response i d source result status) = signal_packet h (ConnectionResponse i d source result status)"
  "to_acl h (build_configure_request i d flags options) = signal_packet h (ConfigureRequest i d flags options)"
  "to_acl h (build_configure_response i source flags result options) = signal_packet h (ConfigureResponse i source flags result options)"
  "to_acl h (build_disconnection_request i d source) = signal_packet h (DisconnectionRequest i d source)"
  "to_acl h (build_disconnection_response i d source) = signal_packet h (DisconnectionResponse i d source)"
  "to_acl h (build_information_response i info_type result data) = signal_packet h (InformationResponse i info_type result data)"
  "to_acl h (build_command_reject i reason) = signal_packet h (UnknownSignal SIGNAL_COMMAND_REJECT i (u16_le reason))"
  by (simp_all add: signal_packet_def build_connection_request_def build_connection_response_def
      build_configure_request_def build_configure_response_def build_disconnection_request_def
      build_disconnection_response_def build_information_response_def build_command_reject_def
      build_basic_signaling_packet_def)

definition drained :: "u16 \<Rightarrow> 'w L2capState \<Rightarrow> 'w L2capState" where
  "drained h s = with_buffers ((l2_acl_reassembly s)(h \<mapsto> [])) s"

lemma drained_fields [simp]:
  "l2_channels (drained h s) = l2_channels s"
  "l2_psm_handlers (drained h s) = l2_psm_handlers s"
  "l2_wf (drained h s) = l2_wf s"
  by (simp_all add: drained_def l2_wf_def)

lemma acl_frame:
  assumes "length p < 65532" and "h AND 0x0fff = h"
  shows "handle_acl_packet now (to_acl h (build_basic_frame cid p)) s sh =
    (let (out, s', sh') = handle_frame_bytes now h (build_basic_frame cid p) (drained h s) sh in (Inr out, s', sh'))"
proof -
  have "drain_basic_frames (build_basic_frame cid p) = ([build_basic_frame cid p], [])"
    using drain_frames_build [of p cid "[]"] assms(1) by (simp add: drain_basic_frames.simps [of "[]"])
  with assms show ?thesis
    by (simp add: handle_acl_packet_def to_acl_def parse_acl_frame_build drained_def with_buffers_same case_prod_beta Let_def)
qed

lemma acl_signal:
  assumes "signal_fits c" and "length (encode_signal c) < 65532" and "h AND 0x0fff = h"
  shows "handle_acl_packet now (signal_packet h c) s sh =
    (let (r, s') = handle_signaling_command now h c (drained h s) in (Inr (map (to_acl h) r), s', sh))"
  using assms handle_signaling_frame_Cons [OF assms(1), of now h "[]" "drained h s"]
    parse_basic_frame_build [of "encode_signal c" CID_SIGNALING "[]"]
  by (simp add: signal_packet_def acl_frame handle_frame_bytes_def handle_signaling_frame.simps [of now h "[]"]
      case_prod_beta)

text \<open>A Command Reject from the peer is answered with a Command Reject, byte for
  byte the packet that came in, although the source says that rejects are never answered with a reject.
  Two ends running this code exchange it for ever.\<close>

theorem command_reject_bounces:
  "h AND 0x0fff = h \<Longrightarrow>
   handle_acl_packet now (to_acl h (build_command_reject i COMMAND_REJECT_REASON_COMMAND_NOT_UNDERSTOOD)) s sh =
     (Inr [to_acl h (build_command_reject i COMMAND_REJECT_REASON_COMMAND_NOT_UNDERSTOOD)],
      with_buffers ((l2_acl_reassembly s)(h \<mapsto> [])) s, sh)"
  by (simp only: builders_encode)
    (simp add: acl_signal known_signals_def builders_encode drained_def)

theorem command_reject_bounces_witness:
  "(7 :: u16) AND 0x0fff = 7 \<and>
   handle_acl_packet 0 (to_acl 7 (build_command_reject 0x21 0)) (l2cap_new :: unit L2capState)
       \<lparr>sh_world = (), sh_buffers = (\<lambda>_. [])\<rparr> =
     (Inr [to_acl 7 (build_command_reject 0x21 0)],
      with_buffers ((l2_acl_reassembly (l2cap_new :: unit L2capState))(7 \<mapsto> [])) l2cap_new,
      \<lparr>sh_world = (), sh_buffers = (\<lambda>_. [])\<rparr>)"
  using command_reject_bounces [where h = 7 and now = 0 and i = "0x21" and s = "l2cap_new :: unit L2capState"
      and sh = "\<lparr>sh_world = (), sh_buffers = (\<lambda>_. [])\<rparr>"]
  by simp

text \<open>A Disconnection Request removes the channel it names even when the channel belongs
  to another connection than the one the request came in on, and the hands-free events the channel still
  held are lost: the next collection does not report them.\<close>

theorem foreign_disconnect:
  assumes "h AND 0x0fff = h" and "l2_channel s cid = Some ch" and "ch_connection_handle ch \<noteq> h"
    and "handle_acl_packet now (to_acl h (build_disconnection_request i cid source)) s sh = (r, s', sh')"
  shows "r = Inr [to_acl h (build_disconnection_response i cid source)] \<and> l2_channel s' cid = None \<and>
         fst (l2_take_hfp_events s') =
           l2_orphan_hfp_events s @ concat (map (\<lambda>(_, ch). fst (channel_take_hfp_events ch)) (bt_remove cid (l2_channels s)))"
  using assms
  by (simp add: builders_encode acl_signal)
    (auto simp: remove_channel_def bt.lookup_del l2_take_hfp_events_def drained_def builders_encode)

theorem foreign_disconnect_witness:
  "\<exists>r s' sh'. handle_acl_packet 1 (to_acl 8 (build_disconnection_request 1 0x40 0x70))
       (snd (open_outbound_channel_with_handler 0 7 PSM_SDP None (l2cap_new :: unit L2capState)))
       \<lparr>sh_world = (), sh_buffers = (\<lambda>_. [])\<rparr> = (r, s', sh') \<and> l2_channel s' 0x40 = None"
proof -
  let ?s = "snd (open_outbound_channel_with_handler 0 7 PSM_SDP None (l2cap_new :: unit L2capState))"
  let ?sh = "\<lparr>sh_world = (), sh_buffers = (\<lambda>_. [])\<rparr>"
  obtain ch where ch: "l2_channel ?s 0x40 = Some ch" "ch_connection_handle ch \<noteq> 8"
    by (simp add: open_outbound_channel_with_handler_def allocate_local_cid_def cid_search.simps
        allocate_local_signaling_id_def put_channel_def l2cap_new_def register_psm_def)
  obtain r s' sh' where p: "handle_acl_packet 1 (to_acl 8 (build_disconnection_request 1 0x40 0x70)) ?s ?sh = (r, s', sh')"
    by (metis prod_cases3)
  from foreign_disconnect [OF _ ch p] p show ?thesis by auto
qed

section \<open>Two ends open a channel\<close>

lemma find_unique:
  assumes "l2_wf s" and "l2_channel s cid = Some ch" and "P ch"
  shows "find (\<lambda>(_, ch). ch_local_cid ch = cid \<and> P ch) (l2_channels s) = Some (cid, ch)"
proof -
  have mem: "(cid, ch) \<in> set (l2_channels s)" using assms by (simp add: l2_wf_def bt_wf_map_of)
  have own: "ch_local_cid ch = cid" using l2_wf_channel [OF assms(1,2)] by (simp add: channel_wf_def)
  show ?thesis
  proof (cases "find (\<lambda>(_, ch). ch_local_cid ch = cid \<and> P ch) (l2_channels s)")
    case None
    with mem own assms(3) show ?thesis by (auto simp: find_None_iff)
  next
    case (Some e)
    obtain cid' ch' where e: "e = (cid', ch')" by force
    from find_channel [OF assms(1), of "\<lambda>ch. ch_local_cid ch = cid \<and> P ch"] Some e
    have "l2_channel s cid' = Some ch' \<and> cid' = cid" by auto
    with assms(2) e Some show ?thesis by auto
  qed
qed

text \<open>The steps of the handshake on a channel that is in the table.\<close>

lemma response_accepted:
  assumes "l2_wf s" and "l2_channel s cid = Some ch" and "ch_outbound_connect_identifier ch = Some i"
  shows "\<exists>k s'. handle_signaling_command now h (ConnectionResponse i remote cid CONNECTION_RESULT_SUCCESS status) s =
           ([build_configure_request k remote 0 []], s') \<and> l2_wf s' \<and>
         l2_channel s' cid = Some (ch\<lparr>ch_remote_cid := remote, ch_outbound_connect_identifier := None,
           ch_local_config_identifier := Some k, ch_local_config_sent_at := Some now\<rparr>)"
proof -
  obtain k s1 where k: "allocate_local_signaling_id s = (k, s1)" by force
  have own: "ch_local_cid ch = cid" using l2_wf_channel [OF assms(1,2)] by (simp add: channel_wf_def)
  have f: "find (\<lambda>(_, ch). ch_local_cid ch = cid \<and> ch_outbound_connect_identifier ch = Some i) (l2_channels s) = Some (cid, ch)"
    using find_unique [OF assms(1,2), of "\<lambda>ch. ch_outbound_connect_identifier ch = Some i"] assms(3) by simp
  have chs: "l2_channels s1 = l2_channels s" using l2_wf_signaling_id [OF assms(1) k] by simp
  have "l2_wf (snd (handle_signaling_command now h (ConnectionResponse i remote cid CONNECTION_RESULT_SUCCESS status) s))"
    using assms(1) by (rule l2_wf_signaling_command)
  then show ?thesis
    using f k own chs assms(2)
    by (intro exI [of _ k] exI [of _ "update_channel cid (\<lambda>c. c\<lparr>ch_remote_cid := remote,
          ch_outbound_connect_identifier := None, ch_local_config_identifier := Some k,
          ch_local_config_sent_at := Some now\<rparr>) s1"])
      (simp add: handle_connection_response_def, simp add: update_channel_def bt.lookup_upd)
qed

lemma request_configured:
  assumes "l2_wf s" and "l2_channel s cid = Some ch"
  shows "\<exists>s'. handle_signaling_command now h (ConfigureRequest i cid flags options) s =
           ([build_configure_response i (ch_remote_cid ch) flags CONFIG_RESULT_SUCCESS []], s') \<and> l2_wf s' \<and>
         l2_channel s' cid = Some (if ch_local_configured ch then ch\<lparr>ch_remote_configured := True, ch_state := Open\<rparr>
                                   else ch\<lparr>ch_remote_configured := True\<rparr>)"
  using l2_wf_signaling_command [OF assms(1), of now h "ConfigureRequest i cid flags options"] assms(2)
  by (simp add: handle_configure_request_def) (simp add: update_channel_def bt.lookup_upd)

lemma response_configured:
  assumes "l2_wf s" and "l2_channel s cid = Some ch" and "ch_local_config_identifier ch = Some k"
  shows "\<exists>s'. handle_signaling_command now h (ConfigureResponse k cid flags CONFIG_RESULT_SUCCESS options) s = ([], s') \<and>
         l2_wf s' \<and> l2_channel s' cid = Some (config_acked ch)"
proof -
  have f: "find (\<lambda>(_, ch). ch_local_cid ch = cid \<and> ch_local_config_identifier ch = Some k) (l2_channels s) = Some (cid, ch)"
    using find_unique [OF assms(1,2), of "\<lambda>ch. ch_local_config_identifier ch = Some k"] assms(3) by simp
  with l2_wf_signaling_command [OF assms(1), of now h "ConfigureResponse k cid flags CONFIG_RESULT_SUCCESS options"] assms(2)
  show ?thesis
    by (simp add: handle_configure_response_def) (simp add: update_channel_def bt.lookup_upd)
qed

text \<open>A channel between its creation and its opening, with nothing of the protocol above in it yet.\<close>

abbreviation configuring ::
    "instant \<Rightarrow> u16 \<Rightarrow> u16 \<Rightarrow> u16 \<Rightarrow> u16 \<Rightarrow> bool \<Rightarrow> u8 option \<Rightarrow> u8 option \<Rightarrow> 'w psm_handler option \<Rightarrow> 'w L2capChannel" where
  "configuring now h psm cid remote remote_configured config_id connect_id u \<equiv>
     \<lparr>ch_connection_handle = h, ch_psm = psm, ch_local_cid = cid, ch_remote_cid = remote, ch_state = Configuring,
      ch_local_configured = False, ch_remote_configured = remote_configured, ch_local_config_identifier = config_id,
      ch_local_config_sent_at = Some now, ch_outbound_connect_identifier = connect_id,
      ch_rfcomm_state = None, ch_hfp_client = None, ch_upper_handler = u\<rparr>"

lemma opened_outbound:
  assumes "l2_wf s" and "open_outbound_channel_with_handler now h psm u s = ((cid, p), s')"
  shows "\<exists>i. p = signal_packet h (ConnectionRequest i psm cid) \<and> l2_wf s' \<and>
    l2_channel s' cid = Some (configuring now h psm cid 0 False None (Some i) u)"
  using l2_wf_open_outbound [OF assms(1), of now h psm u] assms(2)
  by (auto simp: open_outbound_channel_with_handler_def Let_def builders_encode put_channel_def bt.lookup_ins
      split: prod.splits)

lemma accepted_inbound:
  assumes "l2_wf s" and "l2_psm_handlers s psm \<noteq> None"
  shows "\<exists>cid j s'. handle_signaling_command now h (ConnectionRequest i psm source) s =
           ([build_connection_response i cid source CONNECTION_RESULT_SUCCESS CONNECTION_STATUS_NO_FURTHER_INFORMATION,
             build_configure_request j source 0 []], s') \<and> l2_wf s' \<and>
    l2_channel s' cid = Some (configuring now h psm cid source False (Some j) None None)"
proof -
  obtain cid s1 where c: "allocate_local_cid source s = (cid, s1)" by force
  obtain j s2 where j: "allocate_local_signaling_id s1 = (j, s2)" by force
  from l2_wf_connection_request [OF assms(1), of now h i psm source] assms(2) c j show ?thesis
    by (intro exI [of _ cid] exI [of _ j] exI) (auto simp: handle_connection_request_def put_channel_def bt.lookup_ins)
qed

lemma signal_lengths:
  "length (encode_signal (ConnectionRequest i psm source)) < 65532"
  "length (encode_signal (ConnectionResponse i d source result status)) < 65532"
  "length (encode_signal (ConfigureRequest i d flags [])) < 65532"
  "length (encode_signal (ConfigureResponse i source flags result [])) < 65532"
  by simp_all



end
