(* ===== verification/Sdp_Client.thy ===== *)
theory Sdp_Client
  imports Sdp
begin

text \<open>
  \<open>aokie_radio/sdp_client.rs\<close>: the request for a service class, the reading of the answer as it comes in,
  and the search of a record for its RFCOMM channel and, among several message-access records, for the
  one that carries text messages.  The theorems put the client and the server of \<open>sdp.rs\<close> together.
\<close>

section \<open>Requests and answers\<close>

definition build_service_search_attribute_request_continued :: "u16 \<Rightarrow> u16 \<Rightarrow> u16 \<Rightarrow> bytes \<Rightarrow> bytes" where
  "build_service_search_attribute_request_continued transaction_id service_class_uuid max_attribute_bytes state =
     (let search_pattern = encode_data_element (DUuid16 service_class_uuid);
          attr_id_list = encode_data_element (DUint32 0x0000FFFF);
          continuation_state = take (min (length state) 16) state;
          params = encode_data_element (DSequence search_pattern) @ u16_be max_attribute_bytes @
            encode_data_element (DSequence attr_id_list) @
            [word_of_nat (length continuation_state)] @ continuation_state
      in PDU_SERVICE_SEARCH_ATTRIBUTE_REQUEST # u16_be transaction_id @
         u16_be (word_of_nat (length params)) @ params)"

definition build_service_search_attribute_request :: "u16 \<Rightarrow> u16 \<Rightarrow> u16 \<Rightarrow> bytes" where
  "build_service_search_attribute_request transaction_id service_class_uuid max_attribute_bytes =
     build_service_search_attribute_request_continued transaction_id service_class_uuid max_attribute_bytes []"

record ServiceSearchAttributeResponse =
  rs_transaction_id :: u16
  rs_attribute_lists :: bytes
  rs_continuation_state :: bytes

definition parse_service_search_attribute_response :: "bytes \<Rightarrow> sdp_error + ServiceSearchAttributeResponse" where
  "parse_service_search_attribute_response packet =
     and_then (sdp_require_len packet 5 ''SDP response PDU header'') (\<lambda>_.
     if packet ! 0 \<noteq> PDU_SERVICE_SEARCH_ATTRIBUTE_RESPONSE then Inl (SdpWrongPdu (packet ! 0)) else
     let transaction_id = u16_from_be_bytes (packet ! 1) (packet ! 2);
         param_len = unat (u16_from_be_bytes (packet ! 3) (packet ! 4)) in
     and_then (sdp_require_len packet (5 + param_len) ''SDP response parameters'') (\<lambda>_.
     let params = take param_len (drop 5 packet) in
     and_then (sdp_require_len params 2 ''SDP AttributeListsByteCount'') (\<lambda>_.
     let attr_lists_len = unat (u16_from_be_bytes (params ! 0) (params ! 1)) in
     if 2 + attr_lists_len > length params then Inl (SdpListsOverrun attr_lists_len (length params)) else
     let attribute_lists = take attr_lists_len (drop 2 params);
         continuation = drop (2 + attr_lists_len) params in
     if continuation = [] then Inl SdpContinuationMissing else
     let continuation_len = unat (continuation ! 0) in
     if 1 + continuation_len > length continuation
     then Inl (SdpContinuationOverrun continuation_len (length continuation - 1))
     else Inr \<lparr>rs_transaction_id = transaction_id, rs_attribute_lists = attribute_lists,
               rs_continuation_state = take continuation_len (drop 1 continuation)\<rparr>)))"

abbreviation (input) PDU_ERROR_RESPONSE :: u8 where "PDU_ERROR_RESPONSE \<equiv> 0x01"

datatype sdp_failure = PhoneError "u16 option" | Unreadable sdp_error

datatype SdpReply =
    ReplyPartial
  | Reply ServiceSearchAttributeResponse
  | ReplyFailed sdp_failure

definition read_sdp_reply :: "bytes \<Rightarrow> SdpReply" where
  "read_sdp_reply buffer =
     (if length buffer < 5 then ReplyPartial else
      let param_len = unat (u16_from_be_bytes (buffer ! 3) (buffer ! 4)) in
      if length buffer < 5 + param_len then ReplyPartial
      else if buffer ! 0 = PDU_ERROR_RESPONSE then
        ReplyFailed (PhoneError
          (if param_len \<ge> 2 then Some (u16_from_be_bytes (buffer ! 5) (buffer ! 6)) else None))
      else case parse_service_search_attribute_response buffer of
        Inr response \<Rightarrow> Reply response
      | Inl e \<Rightarrow> ReplyFailed (Unreadable e))"

section \<open>Records of an answer\<close>

function record_loop :: "bytes \<Rightarrow> sdp_error + bytes list" where
  "record_loop payload =
     (if payload = [] then Inr []
      else case parse_data_element payload of
        Inl e \<Rightarrow> Inl e
      | Inr (inner, used) \<Rightarrow>
          (case inner of
             PSequence inner_payload \<Rightarrow>
               and_then (record_loop (drop used payload)) (\<lambda>rs. Inr (inner_payload # rs))
           | _ \<Rightarrow> Inl (SdpNotSequence ''SDP record root'')))"
  by pat_completeness auto
termination
  by (relation "measure length") (auto dest: parse_data_element_used)

declare record_loop.simps [simp del]

definition iter_records :: "bytes \<Rightarrow> sdp_error + bytes list" where
  "iter_records attribute_lists =
     and_then (parse_data_element attribute_lists) (\<lambda>(outer, used).
     if used \<noteq> length attribute_lists
     then Inl (SdpTrailing ''SDP AttributeLists'' (length attribute_lists - used))
     else case outer of
       PSequence outer_payload \<Rightarrow> record_loop outer_payload
     | _ \<Rightarrow> Inl (SdpNotSequence ''SDP AttributeLists''))"

function find_attribute :: "bytes \<Rightarrow> u16 \<Rightarrow> sdp_error + bytes option" where
  "find_attribute record_payload attr_id =
     (if record_payload = [] then Inr None
      else case parse_data_element record_payload of
        Inl e \<Rightarrow> Inl e
      | Inr (id_elem, id_used) \<Rightarrow>
          (case id_elem of
             PUint16 i \<Rightarrow>
               let rest = drop id_used record_payload in
               (case parse_data_element rest of
                  Inl e \<Rightarrow> Inl e
                | Inr (_, value_used) \<Rightarrow>
                    if i = attr_id then Inr (Some (take value_used rest))
                    else find_attribute (drop value_used rest) attr_id)
           | _ \<Rightarrow> Inl SdpBadAttributeId))"
  by pat_completeness auto
termination
  by (relation "measure (\<lambda>(p, _). length p)") (auto dest!: parse_data_element_used)

declare find_attribute.simps [simp del]

text \<open>One protocol descriptor: \<open>Some\<close> channel, or \<open>None\<close> to go on with the next.\<close>

definition descriptor_channel :: "bytes \<Rightarrow> sdp_error + u8 option" where
  "descriptor_channel proto_payload =
     and_then (parse_data_element proto_payload) (\<lambda>(uuid_elem, uuid_used).
     let after_uuid = drop uuid_used proto_payload in
     case as_uuid16 uuid_elem of
       None \<Rightarrow>
         (case uuid_elem of
            PUint16 uuid \<Rightarrow>
              if uuid = UUID_RFCOMM then
                (case parse_data_element after_uuid of
                   Inr (PUint8 ch, _) \<Rightarrow> Inr (Some ch)
                 | _ \<Rightarrow> Inr None)
              else Inr None
          | _ \<Rightarrow> Inr None)
     | Some uuid \<Rightarrow>
         if uuid = UUID_RFCOMM then
           (if after_uuid = [] then Inl SdpChannelMissing else
            and_then (parse_data_element after_uuid) (\<lambda>(channel_elem, _).
            case channel_elem of
              PUint8 ch \<Rightarrow> Inr (Some ch)
            | PUint16 ch \<Rightarrow> if ch \<le> 255 then Inr (Some (ucast ch)) else Inl SdpChannelType
            | _ \<Rightarrow> Inl SdpChannelType))
         else Inr None)"

function descriptor_loop :: "bytes \<Rightarrow> sdp_error + u8 option" where
  "descriptor_loop payload =
     (if payload = [] then Inr None
      else case parse_data_element payload of
        Inl e \<Rightarrow> Inl e
      | Inr (proto_seq, used) \<Rightarrow>
          (case proto_seq of
             PSequence proto_payload \<Rightarrow>
               and_then (descriptor_channel proto_payload) (\<lambda>r.
                 case r of Some ch \<Rightarrow> Inr (Some ch) | None \<Rightarrow> descriptor_loop (drop used payload))
           | _ \<Rightarrow> Inl (SdpNotSequence ''SDP ProtocolDescriptorList entry'')))"
  by pat_completeness auto
termination
  by (relation "measure length") (auto dest: parse_data_element_used)

declare descriptor_loop.simps [simp del]

definition extract_rfcomm_channel :: "bytes \<Rightarrow> sdp_error + u8 option" where
  "extract_rfcomm_channel record_payload =
     and_then (find_attribute record_payload ATTR_PROTOCOL_DESCRIPTOR_LIST) (\<lambda>v.
     case v of
       None \<Rightarrow> Inr None
     | Some pdl_value \<Rightarrow>
         and_then (parse_data_element pdl_value) (\<lambda>(outer, used).
         if used \<noteq> length pdl_value then Inl (SdpTrailing ''SDP ProtocolDescriptorList'' (length pdl_value - used))
         else case outer of
           PSequence outer_payload \<Rightarrow> descriptor_loop outer_payload
         | _ \<Rightarrow> Inl (SdpNotSequence ''SDP ProtocolDescriptorList outer'')))"

section \<open>The message-access record for texts\<close>

abbreviation (input) ATTR_MAS_INSTANCE_ID :: u16 where "ATTR_MAS_INSTANCE_ID \<equiv> 0x0315"
abbreviation (input) ATTR_SUPPORTED_MESSAGE_TYPES :: u16 where "ATTR_SUPPORTED_MESSAGE_TYPES \<equiv> 0x0316"
abbreviation (input) MESSAGE_TYPES_SMS :: u8 where "MESSAGE_TYPES_SMS \<equiv> 0x02 OR 0x04"

definition record_uint8 :: "bytes \<Rightarrow> u16 \<Rightarrow> u8 option" where
  "record_uint8 rec attr =
     (case find_attribute rec attr of
        Inr (Some v) \<Rightarrow> (case parse_data_element v of Inr (PUint8 x, _) \<Rightarrow> Some x | _ \<Rightarrow> None)
      | _ \<Rightarrow> None)"

definition or_else :: "'a option \<Rightarrow> 'a option \<Rightarrow> 'a option" where
  "or_else a b = (case a of None \<Rightarrow> b | Some x \<Rightarrow> Some x)"

fun mas_loop ::
    "(u8 \<times> u8 option) option \<Rightarrow> (u8 \<times> u8 option) option \<Rightarrow> bytes list \<Rightarrow> sdp_error + u8 \<times> u8 option" where
  "mas_loop unsaid first [] =
     (case or_else unsaid first of None \<Rightarrow> Inl SdpNoMasChannel | Some r \<Rightarrow> Inr r)"
| "mas_loop unsaid first (rec # rest) =
     and_then (extract_rfcomm_channel rec) (\<lambda>ch.
     case ch of
       None \<Rightarrow> mas_loop unsaid first rest
     | Some channel \<Rightarrow>
         let inst = record_uint8 rec ATTR_MAS_INSTANCE_ID;
             types = record_uint8 rec ATTR_SUPPORTED_MESSAGE_TYPES in
         if (case types of None \<Rightarrow> False | Some t \<Rightarrow> t AND MESSAGE_TYPES_SMS \<noteq> 0) then Inr (channel, inst)
         else mas_loop (if types = None then or_else unsaid (Some (channel, inst)) else unsaid)
                (or_else first (Some (channel, inst))) rest)"

definition mas_for_sms :: "bytes \<Rightarrow> sdp_error + u8 \<times> u8 option" where
  "mas_for_sms attribute_lists = and_then (iter_records attribute_lists) (mas_loop None None)"

section \<open>The client's question and the server's answer\<close>

lemma request_bytes:
  "build_service_search_attribute_request tid u maxb =
     [0x06, u16_hi tid, u16_lo tid, 0, 15, 0x35, 3, 0x19, u16_hi u, u16_lo u, u16_hi maxb, u16_lo maxb,
      0x35, 5, 0x0a, 0, 0, 0xff, 0xff, 0]"
  by (simp add: build_service_search_attribute_request_def build_service_search_attribute_request_continued_def
      encode_variable_element_def u16_be_def u32_be_def u16_hi_def u16_lo_def drop_bit_eq_div Let_def)

lemma parse_request:
  "parse_service_search_attribute_request (build_service_search_attribute_request tid u maxb) =
     Inr \<lparr>rq_transaction_id = tid, rq_service_search_pattern = [0x19, u16_hi u, u16_lo u],
          rq_maximum_attribute_byte_count = maxb, rq_attribute_id_list = [0x0a, 0, 0, 0xff, 0xff],
          rq_continuation_state = []\<rparr>"
proof -
  have n: "unat (u16_from_be_bytes 0 15) = 15" by (simp add: u16_from_le_bytes_def)
  have p: "parse_data_element (0x35 # 3 # a # b # c # rest) = Inr (PSequence [a, b, c], 5)" for a b c rest
    using parse_sequence [of "[a, b, c]" rest] by (simp add: encode_variable_element_def)
  have q: "parse_data_element (0x35 # 5 # a # b # c # d # e # rest) = Inr (PSequence [a, b, c, d, e], 7)"
    for a b c d e rest
    using parse_sequence [of "[a, b, c, d, e]" rest] by (simp add: encode_variable_element_def)
  show ?thesis
    unfolding request_bytes
    by (simp add: parse_service_search_attribute_request_def sdp_require_len_def n p q)
qed

lemma parse_pattern: "parse_uuid_search_pattern [0x19, u16_hi u, u16_lo u] = Inr (Some [u])"
  using sdp_elements.dec_enc [of "DUuid16 u" "[]"]
  by (simp add: parse_uuid_search_pattern_def pattern_loop.simps u16_be_def)

text \<open>The loop over the records of an answer reads back what the server wraps.\<close>

definition record_item :: "bytes \<Rightarrow> sdp_error + bytes \<times> nat" where
  "record_item buf =
     and_then (parse_data_element buf) (\<lambda>(el, used).
       case el of PSequence p \<Rightarrow> Inr (p, used) | _ \<Rightarrow> Inl (SdpNotSequence ''SDP record root''))"

interpretation sdp_records: stream_codec "\<lambda>p. encode_data_element (DSequence p)" record_item id
    "\<lambda>p. length p < 2 ^ 32" record_loop
proof (unfold_locales, goal_cases)
  case (1 p rest)
  then show ?case using parse_sequence [OF 1, of rest] by (simp add: record_item_def del: encode_data_element.simps)
next
  case (2 p)
  show ?case by (rule encode_sequence_nonempty)
next
  case 3
  show ?case by (simp add: record_loop.simps)
next
  case (4 buf p n)
  then show ?case
    by (subst record_loop.simps)
      (auto simp: record_item_def elim!: and_then_InrE split: ParsedDataElement.splits prod.splits)
next
  case (5 buf e)
  then show ?case
    by (subst record_loop.simps)
      (auto simp: record_item_def split: sum.splits ParsedDataElement.splits prod.splits)
qed

lemma iter_records_wrapped:
  assumes "list_all (\<lambda>p. length p < 2 ^ 32) ps"
    "length (concat (map (\<lambda>p. encode_data_element (DSequence p)) ps)) < 2 ^ 32"
  shows "iter_records (encode_data_element (DSequence (concat (map (\<lambda>p. encode_data_element (DSequence p)) ps)))) =
    Inr ps"
  using parse_sequence [OF assms(2), of "[]"] sdp_records.dec_all_concat [OF assms(1)]
  by (simp add: iter_records_def del: encode_data_element.simps)

text \<open>A response as the server writes it, read in full and in part.\<close>

lemma response_shape:
  "service_search_attribute_response tid al =
     0x07 # u16_hi tid # u16_lo tid # u16_hi (word_of_nat (length al + 3)) #
     u16_lo (word_of_nat (length al + 3)) # u16_hi (word_of_nat (length al)) #
     u16_lo (word_of_nat (length al)) # al @ [0]"
  by (simp add: service_search_attribute_response_def u16_be_def Let_def add.commute)

lemma read_reply_whole:
  assumes "length al \<le> 65532"
  shows "read_sdp_reply (service_search_attribute_response tid al @ junk) =
    Reply \<lparr>rs_transaction_id = tid, rs_attribute_lists = al, rs_continuation_state = []\<rparr>"
proof -
  have n: "unat (word_of_nat (length al + 3) :: u16) = length al + 3"
    "unat (word_of_nat (length al) :: u16) = length al"
    using assms by (simp_all del: of_nat_add)
  show ?thesis
    using n by (simp add: response_shape read_sdp_reply_def parse_service_search_attribute_response_def
        sdp_require_len_def take_drop Let_def del: of_nat_add)
qed

lemma read_reply_part:
  assumes "length al \<le> 65532" "n < length (service_search_attribute_response tid al)"
  shows "read_sdp_reply (take n (service_search_attribute_response tid al)) = ReplyPartial"
proof -
  have m: "unat (word_of_nat (length al + 3) :: u16) = length al + 3" using assms by (simp del: of_nat_add)
  show ?thesis
  proof (cases "n < 5")
    case True
    then show ?thesis by (simp add: read_sdp_reply_def min.strict_coboundedI2)
  next
    case False
    then obtain k where k: "n = k + 5" by (metis add.commute le_add_diff_inverse not_less)
    with assms(2) have "k < length al + 3" by (simp add: response_shape)
    with m show ?thesis
      by (simp add: response_shape k read_sdp_reply_def Let_def del: of_nat_add)
  qed
qed

text \<open>The choice among message-access records, as a search over all of them at once.\<close>

definition mas_candidate :: "bytes \<Rightarrow> (u8 \<times> u8 option \<times> u8 option) option" where
  "mas_candidate rec =
     (case extract_rfcomm_channel rec of
        Inr (Some ch) \<Rightarrow> Some (ch, record_uint8 rec ATTR_MAS_INSTANCE_ID, record_uint8 rec ATTR_SUPPORTED_MESSAGE_TYPES)
      | _ \<Rightarrow> None)"

fun says_sms :: "u8 \<times> u8 option \<times> u8 option \<Rightarrow> bool" where
  "says_sms (_, _, types) = (case types of None \<Rightarrow> False | Some t \<Rightarrow> t AND MESSAGE_TYPES_SMS \<noteq> 0)"

fun says_nothing :: "u8 \<times> u8 option \<times> u8 option \<Rightarrow> bool" where
  "says_nothing (_, _, types) = (types = None)"

definition mas_choice :: "(u8 \<times> u8 option \<times> u8 option) list \<Rightarrow> sdp_error + u8 \<times> u8 option" where
  "mas_choice cs =
     (case or_else (find says_sms cs) (or_else (find says_nothing cs) (find (\<lambda>_. True) cs)) of
        None \<Rightarrow> Inl SdpNoMasChannel
      | Some (ch, inst, _) \<Rightarrow> Inr (ch, inst))"

definition pair_of :: "u8 \<times> u8 option \<times> u8 option \<Rightarrow> u8 \<times> u8 option" where
  "pair_of c = (fst c, fst (snd c))"

lemma or_else_simps [simp]:
  "or_else None b = b" "or_else (Some x) b = Some x" "or_else a None = a"
  "or_else (or_else a b) c = or_else a (or_else b c)"
  by (auto simp: or_else_def split: option.split)

lemma map_option_or_else: "map_option f (or_else a b) = or_else (map_option f a) (map_option f b)"
  by (cases a) simp_all

lemma mas_loop_choice:
  assumes "list_all (\<lambda>r. is_ok (extract_rfcomm_channel r)) recs"
  shows "mas_loop unsaid first recs =
    (let cs = List.map_filter mas_candidate recs in
     case or_else (map_option pair_of (find says_sms cs))
            (or_else (or_else unsaid (map_option pair_of (find says_nothing cs)))
              (or_else first (map_option pair_of (find (\<lambda>_. True) cs)))) of
       None \<Rightarrow> Inl SdpNoMasChannel | Some r \<Rightarrow> Inr r)"
  using assms
proof (induction recs arbitrary: unsaid first)
  case Nil
  then show ?case by (simp add: List.map_filter_def)
next
  case (Cons rec recs)
  from Cons.prems obtain ch where e: "extract_rfcomm_channel rec = Inr ch" by (cases "extract_rfcomm_channel rec") auto
  show ?case
  proof (cases ch)
    case None
    with e Cons show ?thesis by (simp add: List.map_filter_def mas_candidate_def)
  next
    case (Some channel)
    then have c: "mas_candidate rec = Some (channel, record_uint8 rec ATTR_MAS_INSTANCE_ID,
        record_uint8 rec ATTR_SUPPORTED_MESSAGE_TYPES)" using e by (simp add: mas_candidate_def)
    have m: "List.map_filter mas_candidate (rec # recs) = (channel, record_uint8 rec ATTR_MAS_INSTANCE_ID,
        record_uint8 rec ATTR_SUPPORTED_MESSAGE_TYPES) # List.map_filter mas_candidate recs"
      by (simp add: List.map_filter_def c)
    have "list_all (\<lambda>r. is_ok (extract_rfcomm_channel r)) recs" using Cons.prems by simp
    note ih = Cons.IH [OF this]
    show ?thesis
      unfolding m using e Some ih
      by (cases "record_uint8 rec ATTR_SUPPORTED_MESSAGE_TYPES") (simp_all add: Let_def pair_of_def)
  qed
qed

section \<open>Properties\<close>

text \<open>C28: the server answers the client's query for a service class with exactly the
  registered records that hold its UUID, in order.  For every list of records whose matching part
  fits a response, the client, reading the answer off the front of its buffer, sees it as incomplete
  until the last octet is there and then gets its own transaction id and those records.\<close>

theorem sdp_discovery:
  fixes records :: SdpServer and u :: u16
  defines "matching \<equiv> map sr_encoded_record (filter (\<lambda>r. u \<in> set (sr_searchable_uuids r)) records)"
  assumes "length (concat (map (\<lambda>p. encode_data_element (DSequence p)) matching)) \<le> 65527"
  shows "\<exists>answer al.
    sdp_handle_request records (build_service_search_attribute_request tid u maxb) = Inr answer \<and>
    (\<forall>n < length answer. read_sdp_reply (take n answer) = ReplyPartial) \<and>
    (\<forall>junk. read_sdp_reply (answer @ junk) =
       Reply \<lparr>rs_transaction_id = tid, rs_attribute_lists = al, rs_continuation_state = []\<rparr>) \<and>
    iter_records al = Inr matching"
proof -
  let ?inner = "concat (map (\<lambda>p. encode_data_element (DSequence p)) matching)"
  let ?al = "encode_data_element (DSequence ?inner)"
  have m: "map sr_encoded_record (match_records records [u]) = matching"
    by (simp add: match_records_def matching_def)
  have h: "sdp_handle_request records (build_service_search_attribute_request tid u maxb) =
      Inr (service_search_attribute_response tid ?al)"
    by (simp add: sdp_handle_request_def parse_request parse_pattern Let_def m [symmetric] comp_def
        del: encode_data_element.simps)
  have al: "length ?al \<le> 65532" using length_encode_sequence [of ?inner] assms(2) by linarith
  have "length p < 2 ^ 32" if "p \<in> set matching" for p
  proof -
    have "length (encode_data_element (DSequence p)) \<le> length ?inner"
      using that by (auto simp: length_concat comp_def intro!: member_le_sum_list)
    moreover have "length p \<le> length (encode_data_element (DSequence p))"
      by (simp add: encode_variable_element_def Let_def)
    ultimately show ?thesis using assms(2) by simp
  qed
  then have "iter_records ?al = Inr matching"
    using assms(2) by (intro iter_records_wrapped) (simp_all add: list_all_iff)
  with h read_reply_whole [OF al] read_reply_part [OF al] show ?thesis by blast
qed

theorem sdp_discovery_witness:
  "\<exists>answer al.
    sdp_handle_request [\<lparr>sr_handle = 1, sr_searchable_uuids = [5, 9], sr_encoded_record = [8, 1]\<rparr>,
        \<lparr>sr_handle = 2, sr_searchable_uuids = [7], sr_encoded_record = [8, 2]\<rparr>]
      (build_service_search_attribute_request 77 7 0xffff) = Inr answer \<and>
    read_sdp_reply answer = Reply \<lparr>rs_transaction_id = 77, rs_attribute_lists = al, rs_continuation_state = []\<rparr> \<and>
    iter_records al = Inr [[8, 2]]"
  using sdp_discovery [of 7 "[\<lparr>sr_handle = 1, sr_searchable_uuids = [5, 9], sr_encoded_record = [8, 1]\<rparr>,
        \<lparr>sr_handle = 2, sr_searchable_uuids = [7], sr_encoded_record = [8, 2]\<rparr>]" 77 "0xffff"]
  by (simp add: encode_variable_element_def) (metis append_Nil2)

text \<open>among records whose protocol lists can be read, the text-message channel is
  that of the first record that says it carries SMS, else of the first that does not say, else of
  the first with an RFCOMM channel at all; records without one are passed over.\<close>

theorem mas_for_sms_prefers_sms:
  assumes "iter_records al = Inr recs" and "list_all (\<lambda>r. is_ok (extract_rfcomm_channel r)) recs"
  shows "mas_for_sms al = mas_choice (List.map_filter mas_candidate recs)"
proof -
  let ?cs = "List.map_filter mas_candidate recs"
  have "mas_for_sms al = (case map_option pair_of
      (or_else (find says_sms ?cs) (or_else (find says_nothing ?cs) (find (\<lambda>_. True) ?cs))) of
        None \<Rightarrow> Inl SdpNoMasChannel | Some r \<Rightarrow> Inr r)"
    by (simp add: mas_for_sms_def assms(1) mas_loop_choice [OF assms(2)] map_option_or_else Let_def)
  then show ?thesis
    by (simp add: mas_choice_def pair_of_def split: option.split prod.split)
qed

text \<open>A message-access record with a channel and its supported message types.\<close>

definition mas_record :: "u8 \<Rightarrow> u8 \<Rightarrow> bytes" where
  "mas_record channel types =
     add_attribute ATTR_PROTOCOL_DESCRIPTOR_LIST
       (sdp_seq [sdp_seq [encode_data_element (DUuid16 UUID_L2CAP)],
                 sdp_seq [encode_data_element (DUuid16 UUID_RFCOMM), encode_data_element (DUint8 channel)]]) @
     add_attribute ATTR_SUPPORTED_MESSAGE_TYPES (encode_data_element (DUint8 types))"

theorem mas_for_sms_prefers_sms_witness:
  "mas_for_sms (sdp_seq [sdp_seq [mas_record 4 1], sdp_seq [mas_record 6 2]]) = Inr (6, None)"
proof -
  have i: "iter_records (sdp_seq [sdp_seq [mas_record 4 1], sdp_seq [mas_record 6 2]]) =
      Inr [mas_record 4 1, mas_record 6 2]"
    by code_simp
  have "list_all (\<lambda>r. is_ok (extract_rfcomm_channel r)) [mas_record 4 1, mas_record 6 2]" by code_simp
  from mas_for_sms_prefers_sms [OF i this]
  have "mas_for_sms (sdp_seq [sdp_seq [mas_record 4 1], sdp_seq [mas_record 6 2]]) =
      mas_choice (List.map_filter mas_candidate [mas_record 4 1, mas_record 6 2])" .
  also have "\<dots> = Inr (6, None)" by code_simp
  finally show ?thesis .
qed

text \<open>What a phone finds when it asks Aokie for its services.\<close>

definition found_channels :: "u16 \<Rightarrow> (sdp_error + u8 option) list" where
  "found_channels u =
     (case handle_service_search_attribute_request (build_service_search_attribute_request 1 u 0xffff) of
        Inl e \<Rightarrow> [Inl e]
      | Inr answer \<Rightarrow>
          (case read_sdp_reply answer of
             Reply r \<Rightarrow>
               (case iter_records (rs_attribute_lists r) of
                  Inl e \<Rightarrow> [Inl e] | Inr recs \<Rightarrow> map extract_rfcomm_channel recs)
           | _ \<Rightarrow> []))"

lemma found_aokie_channels:
  "found_channels UUID_HANDSFREE = [Inr (Some 1)]"
  "found_channels UUID_MAP_MNS_SERVER = [Inr (Some 2)]"
  "found_channels UUID_PNP_INFORMATION = [Inr None]"
  "found_channels UUID_PUBLIC_BROWSE_ROOT = [Inr (Some 1), Inr (Some 2), Inr None]"
  "found_channels 0x112f = []"
  by code_simp+

end
