(* ===== verification/Hfp_Connect.thy ===== *)
theory Hfp_Connect
  imports L2cap_Link Sdp_Client
begin

text \<open>
  \<open>aokie_radio/hfp_connect.rs\<close>: the reconnect of a bonded phone.  After the page succeeded it looks up the
  phone's hands-free gateway by SDP, opens an RFCOMM channel to it and starts the hands-free client on it.
  The runtime is driven by ticks; what arrives on its SDP channel is in the capture buffer \<open>hr_buffer\<close>.
  The unit of time is the millisecond.
\<close>

section \<open>State\<close>

abbreviation (input) HFP_CONNECT_INACTIVITY_TIMEOUT :: duration where "HFP_CONNECT_INACTIVITY_TIMEOUT \<equiv> 10000"
abbreviation (input) UUID_HANDSFREE_AG :: u16 where "UUID_HANDSFREE_AG \<equiv> 0x111f"

datatype connect_reason =
    ConnectStalled
  | ConnectContinuation
  | ConnectNoChannel
  | ConnectSdp sdp_error
  | ConnectReply sdp_failure

datatype HfpConnectEvent = SlcKicked | ConnectFailed connect_reason

datatype connect_phase =
    ConnectIdle
  | AwaitingSdpOpen u16
  | AwaitingSdpResponse u16 bytes
  | AwaitingRfcommOpen u8 u16
  | ConnectDone
  | ConnectFailedPhase connect_reason

record HfpConnectRuntime =
  hr_connection_handle :: u16
  hr_wbs_supported :: bool
  hr_call_waiting_enabled :: bool
  hr_phase :: connect_phase
  hr_pending_events :: "HfpConnectEvent list"
  hr_buffer :: nat
  hr_sdp_transaction_id :: u16
  hr_last_progress_at :: instant

definition connect_new :: "instant \<Rightarrow> nat \<Rightarrow> u16 \<Rightarrow> bool \<Rightarrow> bool \<Rightarrow> HfpConnectRuntime" where
  "connect_new now buffer connection_handle wbs_supported call_waiting_enabled =
     \<lparr>hr_connection_handle = connection_handle, hr_wbs_supported = wbs_supported,
      hr_call_waiting_enabled = call_waiting_enabled, hr_phase = ConnectIdle, hr_pending_events = [],
      hr_buffer = buffer, hr_sdp_transaction_id = 0x0001, hr_last_progress_at = now\<rparr>"

definition connect_is_done :: "HfpConnectRuntime \<Rightarrow> bool" where
  "connect_is_done rt = (hr_phase rt = ConnectDone)"

definition failure_reason :: "HfpConnectRuntime \<Rightarrow> connect_reason option" where
  "failure_reason rt = (case hr_phase rt of ConnectFailedPhase r \<Rightarrow> Some r | _ \<Rightarrow> None)"

definition connect_take_events :: "HfpConnectRuntime \<Rightarrow> HfpConnectEvent list \<times> HfpConnectRuntime" where
  "connect_take_events rt = (hr_pending_events rt, rt\<lparr>hr_pending_events := []\<rparr>)"

section \<open>Steps\<close>

definition connect_start ::
    "instant \<Rightarrow> HfpConnectRuntime \<Rightarrow> 'w L2capState \<Rightarrow> (connect_phase + bytes list) \<times> HfpConnectRuntime \<times> 'w L2capState" where
  "connect_start now rt s =
     (if hr_phase rt \<noteq> ConnectIdle then (Inl (hr_phase rt), rt, s) else
      let ((local_cid, packet), s') = open_outbound_channel_with_handler now (hr_connection_handle rt) PSM_SDP
             (Some (BufferHandler (hr_buffer rt))) s
      in (Inr [packet], rt\<lparr>hr_phase := AwaitingSdpOpen local_cid, hr_last_progress_at := now\<rparr>, s'))"

fun first_channel :: "bytes list \<Rightarrow> connect_reason + u8" where
  "first_channel [] = Inl ConnectNoChannel"
| "first_channel (rec # rest) =
     (case extract_rfcomm_channel rec of
        Inl e \<Rightarrow> Inl (ConnectSdp e)
      | Inr (Some channel) \<Rightarrow> Inr channel
      | Inr None \<Rightarrow> first_channel rest)"

definition extract_ag_channel :: "bytes \<Rightarrow> connect_reason + u8" where
  "extract_ag_channel attribute_lists =
     (case iter_records attribute_lists of Inl e \<Rightarrow> Inl (ConnectSdp e) | Inr records \<Rightarrow> first_channel records)"

definition option_list :: "'a option \<Rightarrow> 'a list" where
  "option_list x = (case x of None \<Rightarrow> [] | Some y \<Rightarrow> [y])"

definition connect_fail ::
    "connect_reason \<Rightarrow> u16 option \<Rightarrow> HfpConnectRuntime \<Rightarrow> 'w L2capState \<Rightarrow>
     bytes list \<times> HfpConnectRuntime \<times> 'w L2capState" where
  "connect_fail reason active_cid rt s =
     (let (disc, s') = (case active_cid of None \<Rightarrow> (None, s) | Some cid \<Rightarrow> disconnect_channel cid s)
      in (option_list disc,
          rt\<lparr>hr_pending_events := hr_pending_events rt @ [ConnectFailed reason],
             hr_phase := ConnectFailedPhase reason\<rparr>, s'))"

definition sdp_done ::
    "instant \<Rightarrow> u16 \<Rightarrow> u8 \<Rightarrow> HfpConnectRuntime \<Rightarrow> 'w L2capState \<Rightarrow> bytes list \<times> HfpConnectRuntime \<times> 'w L2capState" where
  "sdp_done now local_cid server_channel rt s =
     (let (disc, s1) = disconnect_channel local_cid s;
          ((rfcomm_cid, conn_req), s2) = open_outbound_channel_with_handler now (hr_connection_handle rt) PSM_RFCOMM
             (Some HfpRoutingHandler) s1
      in (option_list disc @ [conn_req], rt\<lparr>hr_phase := AwaitingRfcommOpen server_channel rfcomm_cid\<rparr>, s2))"

definition consume_inbound ::
    "instant \<Rightarrow> u16 \<Rightarrow> bytes \<Rightarrow> HfpConnectRuntime \<Rightarrow> 'w L2capState \<Rightarrow> bytes list \<times> HfpConnectRuntime \<times> 'w L2capState" where
  "consume_inbound now cid data rt s =
     (case hr_phase rt of
        AwaitingSdpResponse local_cid held \<Rightarrow>
          if local_cid \<noteq> cid then ([], rt, s)
          else
            let buffer = held @ data in
            (case parse_service_search_attribute_response buffer of
               Inr resp \<Rightarrow>
                 if rs_continuation_state resp = [] then
                   (case extract_ag_channel (rs_attribute_lists resp) of
                      Inl e \<Rightarrow> connect_fail e (Some local_cid) rt s
                    | Inr server_channel \<Rightarrow> sdp_done now local_cid server_channel rt s)
                 else connect_fail ConnectContinuation (Some local_cid) rt s
             | Inl e \<Rightarrow>
                 (case read_sdp_reply buffer of
                    ReplyPartial \<Rightarrow> ([], rt\<lparr>hr_phase := AwaitingSdpResponse local_cid buffer\<rparr>, s)
                  | ReplyFailed reason \<Rightarrow> connect_fail (ConnectReply reason) (Some local_cid) rt s
                  | Reply _ \<Rightarrow> connect_fail (ConnectSdp e) (Some local_cid) rt s))
      | _ \<Rightarrow> ([], rt, s))"

fun consume_all ::
    "instant \<Rightarrow> (u16 \<times> bytes) list \<Rightarrow> HfpConnectRuntime \<Rightarrow> 'w L2capState \<Rightarrow>
     bytes list \<times> HfpConnectRuntime \<times> 'w L2capState" where
  "consume_all now [] rt s = ([], rt, s)"
| "consume_all now ((cid, data) # rest) rt s =
     (let (o1, rt1, s1) = consume_inbound now cid data rt s;
          (o2, rt2, s2) = consume_all now rest rt1 s1
      in (o1 @ o2, rt2, s2))"

definition drive_outbound ::
    "instant \<Rightarrow> HfpConnectRuntime \<Rightarrow> 'w L2capState \<Rightarrow> l2cap_error + bytes list \<times> HfpConnectRuntime \<times> 'w L2capState" where
  "drive_outbound now rt s =
     (case hr_phase rt of
        AwaitingSdpOpen cid \<Rightarrow>
          (case l2_channel s cid of
             None \<Rightarrow> Inr ([], rt, s)
           | Some ch \<Rightarrow>
               if ch_state ch = Open then
                 (case send_on_channel cid
                    (build_service_search_attribute_request (hr_sdp_transaction_id rt) UUID_HANDSFREE_AG 0xffff) s of
                    Inl e \<Rightarrow> Inl e
                  | Inr acl \<Rightarrow>
                      Inr ([acl], rt\<lparr>hr_phase := AwaitingSdpResponse cid [], hr_last_progress_at := now\<rparr>, s))
               else Inr ([], rt, s))
      | AwaitingRfcommOpen channel_num cid \<Rightarrow>
          (case l2_channel s cid of
             None \<Rightarrow> Inr ([], rt, s)
           | Some ch \<Rightarrow>
               if ch_state ch = Open then
                 (case start_hfp_client now cid channel_num (hr_wbs_supported rt) (hr_call_waiting_enabled rt) s of
                    Inl e \<Rightarrow> Inl e
                  | Inr (sabm, s') \<Rightarrow>
                      Inr ([sabm], rt\<lparr>hr_pending_events := hr_pending_events rt @ [SlcKicked], hr_phase := ConnectDone\<rparr>, s'))
               else Inr ([], rt, s))
      | _ \<Rightarrow> Inr ([], rt, s))"

fun active_cid :: "connect_phase \<Rightarrow> u16 option" where
  "active_cid (AwaitingSdpOpen cid) = Some cid"
| "active_cid (AwaitingSdpResponse cid _) = Some cid"
| "active_cid (AwaitingRfcommOpen _ cid) = Some cid"
| "active_cid _ = None"

definition connect_tick ::
    "instant \<Rightarrow> HfpConnectRuntime \<Rightarrow> 'w L2capState \<Rightarrow> 'w Shared \<Rightarrow>
     (l2cap_error + bytes list) \<times> HfpConnectRuntime \<times> 'w L2capState \<times> 'w Shared" where
  "connect_tick now rt s sh =
     (let inbound = sh_buffers sh (hr_buffer rt);
          sh' = sh\<lparr>sh_buffers := (sh_buffers sh)(hr_buffer rt := [])\<rparr>;
          (o1, rt1, s1) = consume_all now inbound rt s;
          rt2 = (if inbound \<noteq> [] then rt1\<lparr>hr_last_progress_at := now\<rparr> else rt1) in
      case drive_outbound now rt2 s1 of
        Inl e \<Rightarrow> (Inl e, rt2, s1, sh')
      | Inr (o2, rt3, s2) \<Rightarrow>
          if active_cid (hr_phase rt3) \<noteq> None \<and> \<not> now - hr_last_progress_at rt3 < HFP_CONNECT_INACTIVITY_TIMEOUT then
            (let (o3, rt4, s3) = connect_fail ConnectStalled (active_cid (hr_phase rt3)) rt3 s2
             in (Inr (o1 @ o2 @ o3), rt4, s3, sh'))
          else (Inr (o1 @ o2), rt3, s2, sh'))"

section \<open>One outcome\<close>

text \<open>The events reported so far, as the phase determines them.\<close>

fun phase_events :: "connect_phase \<Rightarrow> HfpConnectEvent list" where
  "phase_events ConnectDone = [SlcKicked]"
| "phase_events (ConnectFailedPhase r) = [ConnectFailed r]"
| "phase_events _ = []"

lemma connect_fail_phase:
  "connect_fail r c rt s = (out, rt', s') \<Longrightarrow>
   hr_phase rt' = ConnectFailedPhase r \<and> hr_pending_events rt' = hr_pending_events rt @ [ConnectFailed r] \<and>
   hr_last_progress_at rt' = hr_last_progress_at rt"
  by (auto simp: connect_fail_def split: prod.splits)

text \<open>A step either stays among the phases that report nothing or ends with the report of its outcome.\<close>

definition reports :: "HfpConnectRuntime \<Rightarrow> HfpConnectRuntime \<Rightarrow> bool" where
  "reports rt rt' =
     (if active_cid (hr_phase rt) = None then hr_phase rt' = hr_phase rt \<and> hr_pending_events rt' = hr_pending_events rt
      else hr_phase rt' \<noteq> ConnectIdle \<and>
           hr_pending_events rt' = hr_pending_events rt @ phase_events (hr_phase rt'))"

lemma phase_events_active [simp]: "active_cid p = Some c \<Longrightarrow> phase_events p = []"
  by (cases p) simp_all

lemma reports_refl [simp]: "reports rt rt"
  by (cases "hr_phase rt") (simp_all add: reports_def)

lemma reports_trans: "reports a b \<Longrightarrow> reports b c \<Longrightarrow> reports a c"
  by (cases "hr_phase b") (auto simp: reports_def split: if_splits)

lemma reports_progress [simp]: "reports a (b\<lparr>hr_last_progress_at := t\<rparr>) = reports a b"
  by (simp add: reports_def)

lemma connect_fail_reports:
  "active_cid (hr_phase rt) \<noteq> None \<Longrightarrow> connect_fail r c rt s = (out, rt', s') \<Longrightarrow> reports rt rt'"
  by (auto simp: reports_def dest!: connect_fail_phase)

lemma sdp_done_reports:
  "active_cid (hr_phase rt) \<noteq> None \<Longrightarrow> sdp_done now cid c rt s = (out, rt', s') \<Longrightarrow> reports rt rt'"
  by (auto simp: reports_def sdp_done_def split: prod.splits)

lemma consume_inbound_reports:
  assumes "consume_inbound now cid d rt s = (out, rt', s')"
  shows "reports rt rt'"
proof (cases "\<exists>held. hr_phase rt = AwaitingSdpResponse cid held")
  case True
  then obtain held where p: "hr_phase rt = AwaitingSdpResponse cid held" by blast
  then have a: "active_cid (hr_phase rt) \<noteq> None" by simp
  have keep: "reports rt (rt\<lparr>hr_phase := AwaitingSdpResponse cid b\<rparr>)" for b by (simp add: reports_def p)
  show ?thesis
    using assms keep
    by (auto simp: consume_inbound_def p Let_def dest!: connect_fail_reports [OF a] sdp_done_reports [OF a]
        split: if_splits sum.splits SdpReply.splits)
next
  case False
  with assms show ?thesis by (auto simp: consume_inbound_def split: connect_phase.splits if_splits)
qed

lemma consume_all_reports: "consume_all now ds rt s = (out, rt', s') \<Longrightarrow> reports rt rt'"
proof (induction ds arbitrary: rt s out)
  case (Cons e ds)
  obtain cid d where e: "e = (cid, d)" by force
  obtain o1 rt1 s1 where 1: "consume_inbound now cid d rt s = (o1, rt1, s1)" by (metis prod_cases3)
  obtain o2 rt2 s2 where 2: "consume_all now ds rt1 s1 = (o2, rt2, s2)" by (metis prod_cases3)
  from Cons(2) 1 2 e have "rt' = rt2" "s' = s2" by simp_all
  with reports_trans [OF consume_inbound_reports [OF 1] Cons(1)] 2 show ?case by simp
qed simp

lemma drive_outbound_reports: "drive_outbound now rt s = Inr (out, rt', s') \<Longrightarrow> reports rt rt'"
  by (auto simp: drive_outbound_def reports_def
      split: connect_phase.splits if_splits sum.splits option.splits prod.splits)

lemma connect_tick_reports: "connect_tick now rt s sh = (r, rt', s', sh') \<Longrightarrow> reports rt rt'"
proof -
  assume t: "connect_tick now rt s sh = (r, rt', s', sh')"
  let ?in = "sh_buffers sh (hr_buffer rt)"
  obtain o1 rt1 s1 where 1: "consume_all now ?in rt s = (o1, rt1, s1)" by (metis prod_cases3)
  define rt2 where "rt2 = (if ?in \<noteq> [] then rt1\<lparr>hr_last_progress_at := now\<rparr> else rt1)"
  have r2: "reports rt rt2" using consume_all_reports [OF 1] by (simp add: rt2_def)
  show ?thesis
  proof (cases "drive_outbound now rt2 s1")
    case (Inl e)
    with t 1 r2 show ?thesis by (simp add: connect_tick_def rt2_def)
  next
    case (Inr x)
    obtain o2 rt3 s2 where x: "x = (o2, rt3, s2)" by (metis prod_cases3)
    have r3: "reports rt rt3" using reports_trans [OF r2 drive_outbound_reports] Inr x by simp
    show ?thesis
    proof (cases "rt' = rt3")
      case False
      with t 1 Inr x have a: "active_cid (hr_phase rt3) \<noteq> None"
        and f: "\<exists>o3. connect_fail ConnectStalled (active_cid (hr_phase rt3)) rt3 s2 = (o3, rt', s')"
        by (auto simp: connect_tick_def rt2_def Let_def split: if_splits prod.splits)
      from f have "reports rt3 rt'" using a by (auto simp: reports_def dest!: connect_fail_phase)
      with r3 show ?thesis by (rule reports_trans)
    qed (use r3 in simp)
  qed
qed

text \<open>Ticks against whatever the L2CAP layer and the buffers hold at each of them.\<close>

fun connect_run ::
    "(instant \<times> 'w L2capState \<times> 'w Shared) list \<Rightarrow> HfpConnectRuntime \<Rightarrow> HfpConnectRuntime" where
  "connect_run [] rt = rt"
| "connect_run ((now, s, sh) # rest) rt = connect_run rest (fst (snd (connect_tick now rt s sh)))"

lemma connect_run_reports: "reports rt (connect_run envs rt)"
proof (induction envs rt rule: connect_run.induct)
  case (2 now s sh rest rt)
  obtain r rt' s' sh' where t: "connect_tick now rt s sh = (r, rt', s', sh')" by (metis prod_cases4)
  from reports_trans [OF connect_tick_reports [OF t]] 2 t show ?case by simp
qed simp

text \<open>C8 A reconnect reports exactly one outcome: whatever the L2CAP layer does between
  the ticks, the events it has produced are none while it is in progress, the start of the service-level
  connection once it is done, and the failure, once, when it has failed.\<close>

theorem connect_reports_once:
  fixes s0 :: "'w L2capState" and envs :: "(instant \<times> 'w L2capState \<times> 'w Shared) list"
    and now t0 :: instant and buffer :: nat and h :: u16 and wbs cw :: bool
  defines "rt \<equiv> connect_run envs (fst (snd (connect_start now (connect_new t0 buffer h wbs cw) s0)))"
  shows "hr_pending_events rt = phase_events (hr_phase rt)"
proof -
  define rt0 where "rt0 = fst (snd (connect_start now (connect_new t0 buffer h wbs cw) s0))"
  have "active_cid (hr_phase rt0) \<noteq> None" "hr_pending_events rt0 = []"
    by (simp_all add: rt0_def connect_start_def connect_new_def case_prod_beta)
  with connect_run_reports [of rt0 envs] show ?thesis
    by (simp add: rt_def rt0_def [symmetric] reports_def)
qed

section \<open>Finding the gateway\<close>

lemma partial_unparsed: "read_sdp_reply b = ReplyPartial \<Longrightarrow> \<exists>e. parse_service_search_attribute_response b = Inl e"
  by (auto simp: read_sdp_reply_def parse_service_search_attribute_response_def sdp_require_len_def Let_def
      split: if_splits sum.splits)

lemma reply_parsed:
  "read_sdp_reply b = Reply r \<Longrightarrow> parse_service_search_attribute_response b = Inr r"
  by (auto simp: read_sdp_reply_def Let_def split: if_splits sum.splits)

lemma consume_other_phase:
  "hr_phase rt = AwaitingRfcommOpen c d \<Longrightarrow> consume_all now ds rt s = ([], rt, s)"
  by (induction ds) (auto simp: consume_inbound_def)

lemma consume_answer:
  assumes "length al \<le> 65532" and "extract_ag_channel al = Inr channel"
    and "held @ concat chunks = service_search_attribute_response tid al"
    and "length held < length (service_search_attribute_response tid al)"
    and "hr_phase rt = AwaitingSdpResponse cid held"
  shows "consume_all now (map (Pair cid) chunks) rt s = sdp_done now cid channel rt s"
  using assms(3-)
proof (induction chunks arbitrary: held rt)
  case (Cons c chunks)
  let ?answer = "service_search_attribute_response tid al"
  show ?case
  proof (cases "length (held @ c) < length ?answer")
    case True
    have "held @ c = take (length (held @ c)) ?answer" using Cons(2) by (metis append.assoc append_eq_conv_conj concat.simps(2))
    with read_reply_part [OF assms(1) True] have p: "read_sdp_reply (held @ c) = ReplyPartial" by metis
    from partial_unparsed [OF p] p Cons(4)
    have "consume_inbound now cid c rt s = ([], rt\<lparr>hr_phase := AwaitingSdpResponse cid (held @ c)\<rparr>, s)"
      by (auto simp: consume_inbound_def)
    moreover have "consume_all now (map (Pair cid) chunks) (rt\<lparr>hr_phase := AwaitingSdpResponse cid (held @ c)\<rparr>) s =
        sdp_done now cid channel (rt\<lparr>hr_phase := AwaitingSdpResponse cid (held @ c)\<rparr>) s"
      using Cons(2) True by (intro Cons(1) [where held = "held @ c"]) simp_all
    ultimately show ?thesis by (simp add: sdp_done_def case_prod_beta)
  next
    case False
    with Cons(2) have whole: "held @ c = ?answer"
      by (metis append.assoc append_Nil2 concat.simps(2) length_append length_0_conv less_add_same_cancel1 not_gr_zero)
    from read_reply_whole [OF assms(1), of tid "[]"]
    have "parse_service_search_attribute_response ?answer =
        Inr \<lparr>rs_transaction_id = tid, rs_attribute_lists = al, rs_continuation_state = []\<rparr>"
      by (intro reply_parsed) simp
    then have consumed: "consume_inbound now cid c rt s = sdp_done now cid channel rt s"
      using Cons(4) whole assms(2) by (simp add: consume_inbound_def)
    have "hr_phase (fst (snd (sdp_done now cid channel rt s))) =
        AwaitingRfcommOpen channel (fst (fst (open_outbound_channel_with_handler now (hr_connection_handle rt) PSM_RFCOMM
          (Some HfpRoutingHandler) (snd (disconnect_channel cid s)))))"
      by (simp add: sdp_done_def case_prod_beta)
    from consume_other_phase [OF this, of now "map (Pair cid) chunks" "snd (snd (sdp_done now cid channel rt s))"]
      consumed show ?thesis by (simp add: case_prod_beta)
  qed
qed simp


text \<open>Witness: the answer of a phone whose gateway is on channel 3, in two pieces.\<close>

definition gateway_lists :: bytes where
  "gateway_lists = sdp_seq [sdp_seq [add_attribute ATTR_PROTOCOL_DESCRIPTOR_LIST
     (sdp_seq [sdp_seq [encode_data_element (DUuid16 UUID_L2CAP)],
               sdp_seq [encode_data_element (DUuid16 UUID_RFCOMM), encode_data_element (DUint8 3)]])]]"


section \<open>Starting the client\<close>

text \<open>When the RFCOMM channel is open, the tick starts the hands-free client on the
  advertised channel and reports it, and from then on every frame on the channel is handled by that
  client.\<close>

theorem connect_kicks_client:
  assumes "hr_phase rt = AwaitingRfcommOpen channel cid" and "sh_buffers sh (hr_buffer rt) = []"
    and "l2_channel s cid = Some ch" and "ch_state ch = Open" and "ch_hfp_client ch = None"
    and "ch_upper_handler ch = Some HfpRoutingHandler" and "ch_connection_handle ch = hr_connection_handle rt"
    and "connect_tick now rt s sh = (r, rt', s', sh')"
  shows "\<exists>sabm client.
    hfp_client_kickoff now (hfp_client_new channel (hr_wbs_supported rt) (hr_call_waiting_enabled rt)) = (Inr sabm, client) \<and>
    r = Inr [on_channel ch sabm] \<and> hr_phase rt' = ConnectDone \<and>
    hr_pending_events rt' = hr_pending_events rt @ [SlcKicked] \<and>
    (\<forall>t payload. handle_channel_payload t (ch_connection_handle ch) \<lparr>bf_cid = cid, bf_payload = payload\<rparr> s' sh' =
       (let (res, client') = hfp_client_handle_packet t client payload;
            s'' = update_channel cid (\<lambda>_. ch\<lparr>ch_hfp_client := Some client'\<rparr>) s'
        in (case res of Inl e \<Rightarrow> Inl (L2HfpClient e)
            | Inr out \<Rightarrow> Inr (map (on_channel ch) out), s'', sh')))"
proof -
  obtain sabm client where k: "hfp_client_kickoff now (hfp_client_new channel (hr_wbs_supported rt)
      (hr_call_waiting_enabled rt)) = (Inr sabm, client)"
    by (auto simp: hfp_client_kickoff_def hfp_client_new_def kickoff_def client_new_def Let_def)
  let ?s' = "update_channel cid (\<lambda>c. c\<lparr>ch_hfp_client := Some client\<rparr>) s"
  have res: "r = Inr [on_channel ch sabm]" "rt' = rt\<lparr>hr_pending_events := hr_pending_events rt @ [SlcKicked], hr_phase := ConnectDone\<rparr>"
    "s' = ?s'"
    using assms k
    by (auto simp: connect_tick_def drive_outbound_def start_hfp_client_def)
  have l: "l2_channel ?s' cid = Some (ch\<lparr>ch_hfp_client := Some client\<rparr>)"
    using assms(3) by (simp add: update_channel_def bt.lookup_upd)
  have "handle_channel_payload t (ch_connection_handle ch) \<lparr>bf_cid = cid, bf_payload = payload\<rparr> ?s' sh' =
       (let (res, client') = hfp_client_handle_packet t client payload;
            s'' = update_channel cid (\<lambda>_. ch\<lparr>ch_hfp_client := Some client'\<rparr>) ?s'
        in (case res of Inl e \<Rightarrow> Inl (L2HfpClient e)
            | Inr out \<Rightarrow> Inr (map (on_channel ch) out), s'', sh'))" for t payload
    unfolding handle_channel_payload_def
    by (simp add: l assms(4,6) run_handler_def on_channel_def case_prod_beta Let_def split: sum.split)
  with k res show ?thesis by simp
qed

theorem connect_kicks_client_witness:
  "\<exists>r rt' s' sh'.
     connect_tick 5 ((connect_new 0 9 7 True True)\<lparr>hr_phase := AwaitingRfcommOpen 3 0x40\<rparr>)
       (put_channel 0x40 ((configuring 4 7 PSM_RFCOMM 0x40 0x51 True None None (Some HfpRoutingHandler))
          \<lparr>ch_state := Open, ch_local_configured := True\<rparr>) (l2cap_new :: unit L2capState))
       \<lparr>sh_world = (), sh_buffers = (\<lambda>_. [])\<rparr> = (r, rt', s', sh') \<and>
     hr_phase rt' = ConnectDone \<and> hr_pending_events rt' = [SlcKicked]"
proof -
  let ?rt = "(connect_new 0 9 7 True True)\<lparr>hr_phase := AwaitingRfcommOpen 3 0x40\<rparr>"
  let ?ch = "(configuring 4 7 PSM_RFCOMM 0x40 0x51 True None None (Some HfpRoutingHandler))
          \<lparr>ch_state := Open, ch_local_configured := True\<rparr> :: unit L2capChannel"
  let ?s = "put_channel 0x40 ?ch l2cap_new"
  let ?sh = "\<lparr>sh_world = (), sh_buffers = (\<lambda>_. [])\<rparr> :: unit Shared"
  obtain r rt' s' sh' where t: "connect_tick 5 ?rt ?s ?sh = (r, rt', s', sh')" by (metis prod_cases4)
  have l: "l2_channel ?s 0x40 = Some ?ch" by (simp add: put_channel_def bt.lookup_ins)
  from connect_kicks_client [where rt = ?rt and s = ?s and sh = ?sh and ch = ?ch, OF _ _ l _ _ _ _ t]
  show ?thesis using t by (auto simp: connect_new_def)
qed

end
