(* ===== verification/Obex.thy ===== *)
theory Obex
  imports Rust_Str Wire_Codec
begin

text \<open>
  The OBEX codec of \<open>aokie_radio/obex.rs\<close> that the phone-book and message-access profiles share:
  headers and packets with their encoders and parsers, the request builders, and the
  \<open>BodyAssembler\<close> that glues the body of a multi-packet answer under a size limit.  A length
  field is a \<open>u16\<close>, so the \<open>as u16\<close> of the encoders wraps.  The text of an error message is not
  modelled, its cause is.
\<close>

section \<open>Codes\<close>

abbreviation (input) OP_CONNECT :: u8 where "OP_CONNECT \<equiv> 0x80"
abbreviation (input) OP_DISCONNECT :: u8 where "OP_DISCONNECT \<equiv> 0x81"
abbreviation (input) OP_PUT :: u8 where "OP_PUT \<equiv> 0x02"
abbreviation (input) OP_PUT_FINAL :: u8 where "OP_PUT_FINAL \<equiv> 0x82"
abbreviation (input) OP_GET_FINAL :: u8 where "OP_GET_FINAL \<equiv> 0x83"
abbreviation (input) OP_SETPATH :: u8 where "OP_SETPATH \<equiv> 0x85"
abbreviation (input) OP_ABORT :: u8 where "OP_ABORT \<equiv> 0xFF"
abbreviation (input) RSP_CONTINUE :: u8 where "RSP_CONTINUE \<equiv> 0x90"
abbreviation (input) RSP_OK :: u8 where "RSP_OK \<equiv> 0xA0"
abbreviation (input) RSP_BAD_REQUEST :: u8 where "RSP_BAD_REQUEST \<equiv> 0xC0"
abbreviation (input) RSP_NOT_FOUND :: u8 where "RSP_NOT_FOUND \<equiv> 0xC4"
abbreviation (input) RSP_NOT_IMPLEMENTED :: u8 where "RSP_NOT_IMPLEMENTED \<equiv> 0xD1"
abbreviation (input) RSP_SERVICE_UNAVAILABLE :: u8 where "RSP_SERVICE_UNAVAILABLE \<equiv> 0xD3"
abbreviation (input) HDR_NAME :: u8 where "HDR_NAME \<equiv> 0x01"
abbreviation (input) HDR_TYPE :: u8 where "HDR_TYPE \<equiv> 0x42"
abbreviation (input) HDR_TARGET :: u8 where "HDR_TARGET \<equiv> 0x46"
abbreviation (input) HDR_BODY :: u8 where "HDR_BODY \<equiv> 0x48"
abbreviation (input) HDR_END_OF_BODY :: u8 where "HDR_END_OF_BODY \<equiv> 0x49"
abbreviation (input) HDR_WHO :: u8 where "HDR_WHO \<equiv> 0x4A"
abbreviation (input) HDR_APP_PARAMETERS :: u8 where "HDR_APP_PARAMETERS \<equiv> 0x4C"
abbreviation (input) HDR_CONNECTION_ID :: u8 where "HDR_CONNECTION_ID \<equiv> 0xCB"
abbreviation (input) HDR_SRM :: u8 where "HDR_SRM \<equiv> 0x97"
abbreviation (input) SETPATH_FLAG_BACKUP :: u8 where "SETPATH_FLAG_BACKUP \<equiv> 0x01"
abbreviation (input) SETPATH_FLAG_NOCREATE :: u8 where "SETPATH_FLAG_NOCREATE \<equiv> 0x02"
abbreviation (input) NOTIFICATION_BODY_LIMIT :: nat where "NOTIFICATION_BODY_LIMIT \<equiv> 65536"
abbreviation (input) MESSAGE_BODY_LIMIT :: nat where "MESSAGE_BODY_LIMIT \<equiv> 4194304"

datatype HeaderKind = KUnicode | KByteSeq | KByte | KQuad

definition header_kind :: "u8 \<Rightarrow> HeaderKind" where
  "header_kind i =
     (if i AND 0xC0 = 0x00 then KUnicode
      else if i AND 0xC0 = 0x40 then KByteSeq
      else if i AND 0xC0 = 0x80 then KByte
      else KQuad)"

section \<open>Headers\<close>

datatype Header =
    HUnicode u8 rstr
  | HByteSeq u8 bytes
  | HByte u8 u8
  | HQuad u8 u32

fun header_id :: "Header \<Rightarrow> u8" where
  "header_id (HUnicode i _) = i"
| "header_id (HByteSeq i _) = i"
| "header_id (HByte i _) = i"
| "header_id (HQuad i _) = i"

fun encoded_len :: "Header \<Rightarrow> nat" where
  "encoded_len (HUnicode _ v) = 1 + 2 + length (utf16_encode v) * 2 + 2"
| "encoded_len (HByteSeq _ v) = 1 + 2 + length v"
| "encoded_len (HByte _ _) = 1 + 1"
| "encoded_len (HQuad _ _) = 1 + 4"

fun header_encode :: "Header \<Rightarrow> bytes" where
  "header_encode (HUnicode i v) =
     i # u16_be (word_of_nat (1 + 2 + length (utf16_encode v) * 2 + 2)) @
     concat (map u16_be (utf16_encode v)) @ [0, 0]"
| "header_encode (HByteSeq i v) = i # u16_be (word_of_nat (1 + 2 + length v)) @ v"
| "header_encode (HByte i v) = [i, v]"
| "header_encode (HQuad i v) = i # u32_be v"

datatype obex_error =
    ObexTooShort string nat nat
  | ObexHeaderEmpty
  | ObexHeaderLength nat nat
  | ObexUnicodeOdd
  | ObexUnicodeInvalid
  | ObexPacketTooSmall nat
  | ObexPacketTruncated nat nat
  | BodyAfterEnd
  | BodyOverLimit nat nat nat

definition obex_require_len :: "bytes \<Rightarrow> nat \<Rightarrow> string \<Rightarrow> obex_error + unit" where
  "obex_require_len input min_len name =
     (if length input < min_len then Inl (ObexTooShort name min_len (length input)) else Inr ())"

text \<open>\<open>chunks_exact(2)\<close>, each chunk read big-endian.\<close>

fun be_units :: "bytes \<Rightarrow> u16 list" where
  "be_units (a # b # r) = u16_from_be_bytes a b # be_units r"
| "be_units _ = []"

definition strip_nul_unit :: "bytes \<Rightarrow> bytes" where
  "strip_nul_unit body =
     (if length body \<ge> 2 \<and> drop (length body - 2) body = [0, 0] then take (length body - 2) body
      else body)"

definition parse_unicode :: "u8 \<Rightarrow> bytes \<Rightarrow> nat \<Rightarrow> obex_error + Header \<times> nat" where
  "parse_unicode i body total_len =
     (if odd (length body) then Inl ObexUnicodeOdd
      else case utf16_decode (be_units (strip_nul_unit body)) of
        None \<Rightarrow> Inl ObexUnicodeInvalid
      | Some v \<Rightarrow> Inr (HUnicode i v, total_len))"

definition header_parse :: "bytes \<Rightarrow> obex_error + Header \<times> nat" where
  "header_parse input =
     (if input = [] then Inl ObexHeaderEmpty else
      let i = input ! 0;
          total_len = unat (u16_from_be_bytes (input ! 1) (input ! 2)) in
      case header_kind i of
        KUnicode \<Rightarrow>
          and_then (obex_require_len input 3 ''OBEX Unicode header length'') (\<lambda>_.
            if total_len < 3 \<or> total_len > length input
            then Inl (ObexHeaderLength total_len (length input))
            else parse_unicode i (drop 3 (take total_len input)) total_len)
      | KByteSeq \<Rightarrow>
          and_then (obex_require_len input 3 ''OBEX ByteSeq header length'') (\<lambda>_.
            if total_len < 3 \<or> total_len > length input
            then Inl (ObexHeaderLength total_len (length input))
            else Inr (HByteSeq i (drop 3 (take total_len input)), total_len))
      | KByte \<Rightarrow>
          and_then (obex_require_len input 2 ''OBEX Byte header'') (\<lambda>_. Inr (HByte i (input ! 1), 2))
      | KQuad \<Rightarrow>
          and_then (obex_require_len input 5 ''OBEX Quad header'') (\<lambda>_.
            Inr (HQuad i (u32_from_be_bytes (input ! 1) (input ! 2) (input ! 3) (input ! 4)), 5)))"

definition header_name :: "rstr \<Rightarrow> Header" where "header_name v = HUnicode HDR_NAME v"

definition header_obex_type :: "bytes \<Rightarrow> Header" where
  "header_obex_type v = HByteSeq HDR_TYPE (if v \<noteq> [] \<and> last v = 0 then v else v @ [0])"

definition header_target :: "bytes \<Rightarrow> Header" where "header_target uuid = HByteSeq HDR_TARGET uuid"
definition header_who :: "bytes \<Rightarrow> Header" where "header_who uuid = HByteSeq HDR_WHO uuid"
definition header_connection_id :: "u32 \<Rightarrow> Header" where
  "header_connection_id i = HQuad HDR_CONNECTION_ID i"
definition header_app_parameters :: "bytes \<Rightarrow> Header" where
  "header_app_parameters b = HByteSeq HDR_APP_PARAMETERS b"
definition header_body :: "bytes \<Rightarrow> Header" where "header_body b = HByteSeq HDR_BODY b"
definition header_end_of_body :: "bytes \<Rightarrow> Header" where
  "header_end_of_body b = HByteSeq HDR_END_OF_BODY b"

section \<open>Packets\<close>

datatype FixedPayload = FixedNone | FixedConnect | FixedSetPath

fun fixed_len :: "FixedPayload \<Rightarrow> nat" where
  "fixed_len FixedNone = 0"
| "fixed_len FixedConnect = 4"
| "fixed_len FixedSetPath = 2"

record Packet =
  pk_opcode :: u8
  pk_fixed_payload :: bytes
  pk_headers :: "Header list"

definition packet_encode :: "Packet \<Rightarrow> bytes" where
  "packet_encode p =
     (let headers_bytes = concat (map header_encode (pk_headers p));
          total = 3 + length (pk_fixed_payload p) + length headers_bytes
      in pk_opcode p # u16_be (word_of_nat total) @ pk_fixed_payload p @ headers_bytes)"

lemma header_parse_used: "header_parse input = Inr (h, used) \<Longrightarrow> 2 \<le> used \<and> used \<le> length input"
  by (auto simp: header_parse_def obex_require_len_def parse_unicode_def Let_def
      split: HeaderKind.splits if_splits option.splits)

text \<open>The header loop over \<open>input[offset..total]\<close>: each header consumes at least two octets.\<close>

function parse_headers :: "bytes \<Rightarrow> obex_error + Header list" where
  "parse_headers input =
     (if input = [] then Inr []
      else case header_parse input of
        Inl e \<Rightarrow> Inl e
      | Inr (h, used) \<Rightarrow> and_then (parse_headers (drop used input)) (\<lambda>hs. Inr (h # hs)))"
  by pat_completeness auto
termination
  by (relation "measure length") (auto dest!: header_parse_used)

declare parse_headers.simps [simp del]

definition packet_parse :: "bytes \<Rightarrow> FixedPayload \<Rightarrow> obex_error + Packet" where
  "packet_parse input fixed =
     and_then (obex_require_len input 3 ''OBEX packet header'') (\<lambda>_.
       let opcode = input ! 0; total = unat (u16_from_be_bytes (input ! 1) (input ! 2)) in
       if total < 3 + fixed_len fixed then Inl (ObexPacketTooSmall total)
       else if total > length input then Inl (ObexPacketTruncated total (length input))
       else
         let fixed_end = 3 + fixed_len fixed in
         and_then (parse_headers (drop fixed_end (take total input))) (\<lambda>hs.
           Inr \<lparr>pk_opcode = opcode, pk_fixed_payload = drop 3 (take fixed_end input),
                pk_headers = hs\<rparr>))"

definition packet_header :: "Packet \<Rightarrow> u8 \<Rightarrow> Header option" where
  "packet_header p i = find (\<lambda>h. header_id h = i) (pk_headers p)"

section \<open>Requests\<close>

definition build_connect_fixed :: "u8 \<Rightarrow> u8 \<Rightarrow> u16 \<Rightarrow> bytes" where
  "build_connect_fixed version flags max_packet_length = version # flags # u16_be max_packet_length"

definition build_connect_request :: "bytes option \<Rightarrow> u16 \<Rightarrow> bytes" where
  "build_connect_request target_uuid max_packet_length =
     packet_encode \<lparr>pk_opcode = OP_CONNECT,
       pk_fixed_payload = build_connect_fixed 0x10 0x00 max_packet_length,
       pk_headers = (case target_uuid of None \<Rightarrow> [] | Some uuid \<Rightarrow> [header_target uuid])\<rparr>"

definition build_connect_response :: "u8 \<Rightarrow> u16 \<Rightarrow> u32 option \<Rightarrow> bytes option \<Rightarrow> bytes" where
  "build_connect_response rsp max_packet_length connection_id who =
     packet_encode \<lparr>pk_opcode = rsp,
       pk_fixed_payload = build_connect_fixed 0x10 0x00 max_packet_length,
       pk_headers = (case connection_id of None \<Rightarrow> [] | Some i \<Rightarrow> [header_connection_id i]) @
                    (case who of None \<Rightarrow> [] | Some w \<Rightarrow> [header_who w])\<rparr>"

definition build_disconnect :: "u32 option \<Rightarrow> bytes" where
  "build_disconnect connection_id =
     packet_encode \<lparr>pk_opcode = OP_DISCONNECT, pk_fixed_payload = [],
       pk_headers = (case connection_id of None \<Rightarrow> [] | Some i \<Rightarrow> [header_connection_id i])\<rparr>"

definition build_get_request :: "u32 \<Rightarrow> Header list \<Rightarrow> bytes" where
  "build_get_request connection_id additional =
     packet_encode \<lparr>pk_opcode = OP_GET_FINAL, pk_fixed_payload = [],
       pk_headers = header_connection_id connection_id # additional\<rparr>"

definition build_get_continuation :: "u32 \<Rightarrow> bytes" where
  "build_get_continuation connection_id =
     packet_encode \<lparr>pk_opcode = OP_GET_FINAL, pk_fixed_payload = [],
       pk_headers = [header_connection_id connection_id]\<rparr>"

definition build_setpath :: "u32 \<Rightarrow> rstr option \<Rightarrow> u8 \<Rightarrow> bytes" where
  "build_setpath connection_id name flags =
     packet_encode \<lparr>pk_opcode = OP_SETPATH, pk_fixed_payload = [flags, 0],
       pk_headers = header_connection_id connection_id #
                    (case name of None \<Rightarrow> [] | Some n \<Rightarrow> [header_name n])\<rparr>"

definition build_put_request :: "u32 \<Rightarrow> Header list \<Rightarrow> bytes \<Rightarrow> bytes" where
  "build_put_request connection_id additional_headers body =
     packet_encode \<lparr>pk_opcode = OP_PUT_FINAL, pk_fixed_payload = [],
       pk_headers = header_connection_id connection_id # additional_headers @ [header_end_of_body body]\<rparr>"

definition build_abort :: "u32 \<Rightarrow> bytes" where
  "build_abort connection_id =
     packet_encode \<lparr>pk_opcode = OP_ABORT, pk_fixed_payload = [],
       pk_headers = [header_connection_id connection_id]\<rparr>"

section \<open>Assembling a body\<close>

record BodyAssembler =
  ba_bytes :: bytes
  ba_complete :: bool
  ba_limit :: "nat option"

definition assembler_new :: BodyAssembler where
  "assembler_new = \<lparr>ba_bytes = [], ba_complete = False, ba_limit = None\<rparr>"

definition assembler_with_limit :: "nat \<Rightarrow> BodyAssembler" where
  "assembler_with_limit limit = \<lparr>ba_bytes = [], ba_complete = False, ba_limit = Some limit\<rparr>"

definition over_limit :: "BodyAssembler \<Rightarrow> bytes \<Rightarrow> bool" where
  "over_limit a v = (case ba_limit a of None \<Rightarrow> False | Some l \<Rightarrow> length (ba_bytes a) + length v > l)"

fun assembler_push_headers ::
    "BodyAssembler \<Rightarrow> Header list \<Rightarrow> (obex_error + bool) \<times> BodyAssembler" where
  "assembler_push_headers a [] = (Inr (ba_complete a), a)"
| "assembler_push_headers a (h # hs) =
     (case h of
        HByteSeq i v \<Rightarrow>
          if i = HDR_BODY \<or> i = HDR_END_OF_BODY then
            (if over_limit a v then
               (Inl (BodyOverLimit (the (ba_limit a)) (length (ba_bytes a)) (length v)),
                a\<lparr>ba_bytes := []\<rparr>)
             else assembler_push_headers
               (a\<lparr>ba_bytes := ba_bytes a @ v,
                  ba_complete := (ba_complete a \<or> i = HDR_END_OF_BODY)\<rparr>) hs)
          else assembler_push_headers a hs
      | _ \<Rightarrow> assembler_push_headers a hs)"

definition assembler_push :: "BodyAssembler \<Rightarrow> Packet \<Rightarrow> (obex_error + bool) \<times> BodyAssembler" where
  "assembler_push a p =
     (if ba_complete a then (Inl BodyAfterEnd, a) else assembler_push_headers a (pk_headers p))"

section \<open>Round trips\<close>

fun header_ok :: "Header \<Rightarrow> bool" where
  "header_ok (HUnicode i v) = (header_kind i = KUnicode \<and> list_all scalar_value v)"
| "header_ok (HByteSeq i v) = (header_kind i = KByteSeq)"
| "header_ok (HByte i v) = (header_kind i = KByte)"
| "header_ok (HQuad i v) = (header_kind i = KQuad)"

lemma be_units_u16_be: "be_units (concat (map u16_be us)) = us"
  by (induction us) (simp_all add: u16_be_def)

lemma length_be: "length (concat (map u16_be us)) = 2 * length us"
  by (induction us) simp_all

lemma header_encode_length [simp]: "length (header_encode h) = encoded_len h"
  by (cases h) (simp_all add: length_be)

lemma strip_nul_unit_append [simp]: "strip_nul_unit (b @ [0, 0]) = b"
  by (simp add: strip_nul_unit_def)

lemma drop3_take: "drop 3 (take (3 + k) (a # b # c # xs)) = take k xs"
  by (simp add: numeral_3_eq_3)

lemma drop3k_take: "drop (3 + k) (take (3 + k + m) (a # b # c # xs)) = take m (drop k xs)"
  by (simp add: numeral_3_eq_3 drop_take)

text \<open>A header with a length field, its body and what follows.\<close>

lemma header_parse_sized:
  assumes "unat (u16_from_be_bytes hi lo) = 3 + length b"
  shows "header_kind i = KUnicode \<Longrightarrow>
      header_parse (i # hi # lo # b @ rest) = parse_unicode i b (3 + length b)"
    and "header_kind i = KByteSeq \<Longrightarrow>
      header_parse (i # hi # lo # b @ rest) = Inr (HByteSeq i b, 3 + length b)"
  using assms by (simp_all add: header_parse_def obex_require_len_def Let_def drop3_take)

lemma be_field:
  "n < 65536 \<Longrightarrow> unat (u16_from_be_bytes (u16_hi (word_of_nat n)) (u16_lo (word_of_nat n))) = n"
  by simp

lemma header_roundtrip:
  assumes "header_ok h" "encoded_len h < 65536"
  shows "header_parse (header_encode h @ rest) = Inr (h, encoded_len h)"
proof (cases h)
  case (HUnicode i v)
  define b where "b = concat (map u16_be (utf16_encode v)) @ [0, 0 :: u8]"
  have len: "1 + 2 + length (utf16_encode v) * 2 + 2 = 3 + length b" by (simp add: b_def length_be)
  have e: "header_encode h @ rest =
      i # u16_hi (word_of_nat (3 + length b)) # u16_lo (word_of_nat (3 + length b)) # b @ rest"
    unfolding HUnicode header_encode.simps len by (simp add: u16_be_def b_def)
  have n: "encoded_len h = 3 + length b" using len by (simp add: HUnicode)
  have "parse_unicode i b (3 + length b) = Inr (h, 3 + length b)"
    using assms(1) by (simp add: HUnicode b_def parse_unicode_def be_units_u16_be utf16_roundtrip length_be)
  then show ?thesis
    unfolding e n using header_parse_sized(1) [OF be_field] assms HUnicode n by simp
next
  case (HByteSeq i v)
  have e: "header_encode h @ rest =
      i # u16_hi (word_of_nat (3 + length v)) # u16_lo (word_of_nat (3 + length v)) # v @ rest"
    by (simp add: HByteSeq u16_be_def)
  have n: "encoded_len h = 3 + length v" by (simp add: HByteSeq)
  show ?thesis
    unfolding e n using header_parse_sized(2) [OF be_field] assms HByteSeq n by simp
next
  case (HByte i v)
  then show ?thesis using assms by (simp add: header_parse_def obex_require_len_def)
next
  case (HQuad i v)
  then show ?thesis using assms by (simp add: header_parse_def obex_require_len_def u32_be_def)
qed

lemma encoded_len_pos: "2 \<le> encoded_len h"
  by (cases h) auto

interpretation obex_headers: stream_codec header_encode header_parse id
    "\<lambda>h. header_ok h \<and> encoded_len h < 65536" parse_headers
proof (unfold_locales, goal_cases)
  case (1 h rest)
  then show ?case by (simp add: header_roundtrip)
next
  case (2 h)
  then show ?case using encoded_len_pos [of h] header_encode_length [of h] by fastforce
next
  case 3
  show ?case by (simp add: parse_headers.simps)
next
  case (4 buf h n)
  then show ?case by (subst parse_headers.simps) simp
next
  case (5 buf e)
  then show ?case by (subst parse_headers.simps) simp
qed

lemma parse_headers_roundtrip:
  assumes "list_all header_ok hs" "sum_list (map encoded_len hs) < 65536"
  shows "parse_headers (concat (map header_encode hs)) = Inr hs"
proof -
  have "list_all (\<lambda>h. header_ok h \<and> encoded_len h < 65536) hs"
    using assms by (induction hs) simp_all
  from obex_headers.dec_all_concat [OF this] show ?thesis by simp
qed

lemma length_headers: "length (concat (map header_encode hs)) = sum_list (map encoded_len hs)"
  by (induction hs) simp_all

definition packet_total :: "Packet \<Rightarrow> nat" where
  "packet_total p = 3 + length (pk_fixed_payload p) + sum_list (map encoded_len (pk_headers p))"

lemma packet_roundtrip:
  assumes "length (pk_fixed_payload p) = fixed_len fixed" "list_all header_ok (pk_headers p)"
    "packet_total p < 65536"
  shows "packet_parse (packet_encode p @ rest) fixed = Inr p"
proof -
  define hb where "hb = concat (map header_encode (pk_headers p))"
  define n where "n = packet_total p"
  let ?f = "pk_fixed_payload p"
  have n: "n = 3 + length ?f + length hb" by (simp add: n_def packet_total_def hb_def length_headers)
  have e: "packet_encode p @ rest = pk_opcode p # u16_hi (word_of_nat n) # u16_lo (word_of_nat n) #
      ?f @ hb @ rest"
    by (simp add: packet_encode_def hb_def [symmetric] n u16_be_def Let_def)
  have u: "unat (u16_from_be_bytes (u16_hi (word_of_nat n)) (u16_lo (word_of_nat n))) = n"
    using assms(3) by (intro be_field) (simp add: n_def)
  have hs: "parse_headers hb = Inr (pk_headers p)"
    using assms by (simp add: hb_def parse_headers_roundtrip packet_total_def)
  have "drop (3 + fixed_len fixed) (take n (packet_encode p @ rest)) = hb"
    "drop 3 (take (3 + fixed_len fixed) (packet_encode p @ rest)) = ?f"
    unfolding e assms(1) [symmetric] by (simp_all only: drop3_take) (simp_all add: n drop3k_take)
  then show ?thesis
    unfolding packet_parse_def using hs u n assms(1)
    by (simp add: e obex_require_len_def Let_def)
qed

section \<open>The assembler\<close>

text \<open>Feeding raw answers: each is parsed and pushed, the first error stops.\<close>

fun receive_all :: "BodyAssembler \<Rightarrow> bytes list \<Rightarrow> (obex_error + bool) \<times> BodyAssembler" where
  "receive_all a [] = (Inr (ba_complete a), a)"
| "receive_all a (raw # raws) =
     (case packet_parse raw FixedNone of
        Inl e \<Rightarrow> (Inl e, a)
      | Inr p \<Rightarrow>
          (case assembler_push a p of
             (Inl e, a') \<Rightarrow> (Inl e, a')
           | (Inr _, a') \<Rightarrow> receive_all a' raws))"

text \<open>How a server sends a body: every chunk but the last under CONTINUE.\<close>

definition continue_answer :: "bytes \<Rightarrow> bytes" where
  "continue_answer chunk =
     packet_encode \<lparr>pk_opcode = RSP_CONTINUE, pk_fixed_payload = [], pk_headers = [header_body chunk]\<rparr>"

definition final_answer :: "bytes \<Rightarrow> bytes" where
  "final_answer chunk =
     packet_encode \<lparr>pk_opcode = RSP_OK, pk_fixed_payload = [], pk_headers = [header_end_of_body chunk]\<rparr>"

lemma parse_answers:
  assumes "length chunk \<le> 65529"
  shows "packet_parse (continue_answer chunk) FixedNone =
      Inr \<lparr>pk_opcode = RSP_CONTINUE, pk_fixed_payload = [], pk_headers = [header_body chunk]\<rparr>"
    and "packet_parse (final_answer chunk) FixedNone =
      Inr \<lparr>pk_opcode = RSP_OK, pk_fixed_payload = [], pk_headers = [header_end_of_body chunk]\<rparr>"
  using assms
    packet_roundtrip [of "\<lparr>pk_opcode = RSP_CONTINUE, pk_fixed_payload = [], pk_headers = [header_body chunk]\<rparr>" FixedNone "[]"]
    packet_roundtrip [of "\<lparr>pk_opcode = RSP_OK, pk_fixed_payload = [], pk_headers = [header_end_of_body chunk]\<rparr>" FixedNone "[]"]
  by (simp_all add: continue_answer_def final_answer_def packet_total_def header_body_def
      header_end_of_body_def header_kind_def)

definition fits_limit :: "nat option \<Rightarrow> nat \<Rightarrow> bool" where
  "fits_limit l n = (case l of None \<Rightarrow> True | Some m \<Rightarrow> n \<le> m)"

lemma over_limit_fits: "over_limit a v = (\<not> fits_limit (ba_limit a) (length (ba_bytes a) + length v))"
  by (simp add: over_limit_def fits_limit_def not_le split: option.split)

lemma fits_limit_mono: "fits_limit l n \<Longrightarrow> m \<le> n \<Longrightarrow> fits_limit l m"
  by (auto simp: fits_limit_def split: option.splits)

lemma receive_chunks:
  assumes "\<not> ba_complete a" "list_all (\<lambda>c. length c \<le> 65529) (chunks @ [end_chunk])"
    "fits_limit (ba_limit a) (length (ba_bytes a) + length (concat chunks @ end_chunk))"
  shows "receive_all a (map continue_answer chunks @ [final_answer end_chunk]) =
    (Inr True, a\<lparr>ba_bytes := ba_bytes a @ concat chunks @ end_chunk, ba_complete := True\<rparr>)"
  using assms
proof (induction chunks arbitrary: a)
  case Nil
  then show ?case
    by (simp add: parse_answers assembler_push_def header_end_of_body_def over_limit_fits)
next
  case (Cons c chunks)
  let ?a = "a\<lparr>ba_bytes := ba_bytes a @ c\<rparr>"
  have "\<not> over_limit a c"
    using Cons.prems(3) fits_limit_mono by (auto simp: over_limit_fits)
  then have "assembler_push a \<lparr>pk_opcode = RSP_CONTINUE, pk_fixed_payload = [], pk_headers = [header_body c]\<rparr> =
      (Inr False, ?a)"
    using Cons.prems(1) by (simp add: assembler_push_def header_body_def)
  moreover have "receive_all ?a (map continue_answer chunks @ [final_answer end_chunk]) =
      (Inr True, ?a\<lparr>ba_bytes := ba_bytes ?a @ concat chunks @ end_chunk, ba_complete := True\<rparr>)"
    by (rule Cons.IH) (use Cons.prems in \<open>simp_all add: add.assoc\<close>)
  ultimately show ?case using Cons.prems(2) by (simp add: parse_answers)
qed

definition within_limit :: "BodyAssembler \<Rightarrow> bool" where
  "within_limit a = fits_limit (ba_limit a) (length (ba_bytes a))"

lemma push_headers_bounded:
  "within_limit a \<Longrightarrow>
     within_limit (snd (assembler_push_headers a hs)) \<and>
     ba_limit (snd (assembler_push_headers a hs)) = ba_limit a"
proof (induction a hs rule: assembler_push_headers.induct)
  case (2 a h hs)
  then show ?case
    by (cases h) (auto simp: within_limit_def over_limit_fits elim: fits_limit_mono)
qed simp

lemma receive_all_bounded:
  "within_limit a \<Longrightarrow>
     within_limit (snd (receive_all a raws)) \<and> ba_limit (snd (receive_all a raws)) = ba_limit a"
proof (induction raws arbitrary: a)
  case (Cons raw raws)
  show ?case
  proof (cases "packet_parse raw FixedNone")
    case (Inr p)
    obtain r a' where r: "assembler_push a p = (r, a')" by fastforce
    have "within_limit a' \<and> ba_limit a' = ba_limit a"
      using push_headers_bounded [OF Cons.prems, of "pk_headers p"] r Cons.prems
      by (auto simp: assembler_push_def split: if_splits)
    with Cons.IH [of a'] Inr r show ?thesis by (cases r) auto
  qed (use Cons.prems in simp)
qed simp

section \<open>Properties\<close>

text \<open>every packet whose headers have the kind their id says, valid text and
  a total length that fits the length field is read back unchanged from its encoding, whatever
  follows it in the buffer.\<close>

theorem obex_packet_roundtrip:
  assumes "length (pk_fixed_payload p) = fixed_len fixed" and "list_all header_ok (pk_headers p)"
    and "packet_total p < 65536"
  shows "packet_parse (packet_encode p @ rest) fixed = Inr p"
  using assms by (rule packet_roundtrip)

theorem obex_packet_roundtrip_witness:
  "packet_parse (build_setpath 7 (Some [0x1F4DE, 65]) 2 @ [1, 2]) FixedSetPath =
     Inr \<lparr>pk_opcode = 0x85, pk_fixed_payload = [2, 0],
          pk_headers = [HQuad 0xCB 7, HUnicode 0x01 [0x1F4DE, 65]]\<rparr>"
  using obex_packet_roundtrip [of "\<lparr>pk_opcode = 0x85, pk_fixed_payload = [2, 0],
          pk_headers = [HQuad 0xCB 7, HUnicode 0x01 [0x1F4DE, 65]]\<rparr>" FixedSetPath "[1, 2]"]
  by (simp add: build_setpath_def header_connection_id_def header_name_def header_kind_def
      scalar_value_def packet_total_def utf16_encode_def utf16_units_def)

text \<open>a body sent in any chunks that fit a packet, all but the last under
  CONTINUE, is assembled to exactly the concatenation of its chunks and reported complete, when
  it stays within the limit of the assembler.\<close>

theorem obex_body_transfer:
  assumes "list_all (\<lambda>c. length c \<le> 65529) (chunks @ [end_chunk])"
    and "length (concat chunks @ end_chunk) \<le> limit"
  shows "receive_all (assembler_with_limit limit) (map continue_answer chunks @ [final_answer end_chunk]) =
    (Inr True, \<lparr>ba_bytes = concat chunks @ end_chunk, ba_complete = True, ba_limit = Some limit\<rparr>)"
  using receive_chunks [of "assembler_with_limit limit" chunks end_chunk] assms
  by (simp add: assembler_with_limit_def fits_limit_def)

theorem obex_body_transfer_witness:
  "ba_bytes (snd (receive_all (assembler_with_limit 10)
     (map continue_answer [[1, 2], [3]] @ [final_answer [4]]))) = [1, 2, 3, 4]"
  using obex_body_transfer [of "[[1, 2], [3]]" "[4]" 10] by simp

text \<open>whatever a phone sends, well-formed or not, an assembler with a limit never
  holds more octets than it.\<close>

theorem obex_body_bounded:
  "length (ba_bytes (snd (receive_all (assembler_with_limit limit) raws))) \<le> limit"
  using receive_all_bounded [of "assembler_with_limit limit" raws]
  by (auto simp: within_limit_def fits_limit_def assembler_with_limit_def)

end
