(* ===== verification/Msbc_Frame.thy ===== *)
theory Msbc_Frame
  imports Prelude
begin

text \<open>
  The bit-exact part of the wide-band speech codec, \<open>msbc/crc.rs\<close>, \<open>msbc/frame.rs\<close> and the frame
  assembly and frame reading of \<open>msbc/encoder.rs\<close> and \<open>msbc/decoder.rs\<close>: the CRC-8 of the frame
  header, the LOUDNESS bit allocation, the packing of scale factors and quantized samples.  The
  analysis and synthesis filters around it work on \<open>f32\<close> and are not modelled: the quantized
  samples are the input of the assembly and the output of the reader.  Bit counts are at most 16,
  so they are \<open>nat\<close>; \<open>i32\<close> values of the allocation stay small and are \<open>int\<close>.
\<close>

section \<open>The check octet\<close>

definition crc8_shift :: "u8 \<Rightarrow> u8" where
  "crc8_shift crc =
     (if crc AND 0x80 \<noteq> 0 then push_bit 1 crc XOR 0x1D else push_bit 1 crc)"

fun crc8_shifts :: "nat \<Rightarrow> u8 \<Rightarrow> u8" where
  "crc8_shifts 0 crc = crc"
| "crc8_shifts (Suc n) crc = crc8_shifts n (crc8_shift crc)"

definition build_crc8_table :: "u8 list" where
  "build_crc8_table = map (\<lambda>byte. crc8_shifts 8 (word_of_nat byte)) [0..<256]"

fun crc8_bytes :: "u8 \<Rightarrow> bytes \<Rightarrow> u8" where
  "crc8_bytes crc [] = crc"
| "crc8_bytes crc (b # bs) = crc8_bytes (build_crc8_table ! unat (crc XOR b)) bs"

fun crc8_trailing :: "nat \<Rightarrow> u8 \<Rightarrow> u8 \<Rightarrow> u8" where
  "crc8_trailing 0 t crc = crc"
| "crc8_trailing (Suc bits_left) t crc =
     (let bit_set = (t AND 0x80 \<noteq> 0); high = (crc AND 0x80 \<noteq> 0);
          crc' = push_bit 1 crc; t' = push_bit 1 t
      in crc8_trailing bits_left t' (if high \<noteq> bit_set then crc' XOR 0x1D else crc'))"

text \<open>\<open>(trailing << (8 - trailing_bits)) as u8\<close>; fewer than eight trailing bits.\<close>

definition crc8_with_trailing_bits :: "bytes \<Rightarrow> u32 \<Rightarrow> nat \<Rightarrow> u8" where
  "crc8_with_trailing_bits bs trailing trailing_bits =
     (let crc = crc8_bytes 0x0F bs in
      if trailing_bits > 0
      then crc8_trailing trailing_bits (ucast (push_bit (8 - trailing_bits) trailing)) crc
      else crc)"

definition crc8 :: "bytes \<Rightarrow> u8" where
  "crc8 bs = crc8_with_trailing_bits bs 0 0"

section \<open>Bit allocation\<close>

abbreviation (input) MSBC_BITPOOL :: int where "MSBC_BITPOOL \<equiv> 26"
abbreviation (input) MSBC_SYNC_BYTE :: u8 where "MSBC_SYNC_BYTE \<equiv> 0xAD"
abbreviation (input) MSBC_HEADER_BYTE_1 :: u8 where "MSBC_HEADER_BYTE_1 \<equiv> 0x00"
abbreviation (input) MSBC_WIRE_BYTE_2 :: u8 where "MSBC_WIRE_BYTE_2 \<equiv> 0x00"

definition loudness_offsets :: "int list" where
  "loudness_offsets = [-2, 0, 0, 0, 0, 0, 0, 1]"

definition bitneed_of :: "int \<Rightarrow> int \<Rightarrow> int" where
  "bitneed_of sf off =
     (if sf \<noteq> 0 then (let bn = sf - off in (if bn > 0 then bn div 2 else bn) + 5) else sf)"

definition clamp_bn :: "int \<Rightarrow> int" where
  "clamp_bn n = (if n < 2 then 0 else if n > 16 then 16 else n)"

definition clamped_total :: "int list \<Rightarrow> int \<Rightarrow> int" where
  "clamped_total bitneed bitadjust = sum_list (map (\<lambda>bn. clamp_bn (bn + bitadjust)) bitneed)"

function adjust_loop :: "int \<Rightarrow> int list \<Rightarrow> nat \<Rightarrow> int \<Rightarrow> int \<Rightarrow> int \<Rightarrow> int" where
  "adjust_loop bitpool bitneed chop max_bitadjust bitadjust bitcount =
     (if bitcount \<noteq> bitpool \<and> chop \<noteq> 0 then
        (let total = clamped_total bitneed bitadjust; chop' = chop div 2 in
         if total > bitpool
         then adjust_loop bitpool bitneed chop' max_bitadjust (bitadjust - int chop') bitcount
         else adjust_loop bitpool bitneed chop' bitadjust (bitadjust + int chop') total)
      else max_bitadjust)"
  by pat_completeness auto
termination
  by (relation "measure (\<lambda>(_, _, chop, _). chop)") auto

declare adjust_loop.simps [simp del]

definition adjust_to_fit_bitpool :: "int \<Rightarrow> int list \<Rightarrow> int \<Rightarrow> int" where
  "adjust_to_fit_bitpool bitpool bitneed bitcount_seed =
     adjust_loop bitpool bitneed 8 0 (if bitcount_seed > bitpool then -8 else 8) bitcount_seed"

definition alloc_adjusted_bits :: "int \<Rightarrow> int \<Rightarrow> nat \<times> int" where
  "alloc_adjusted_bits bits excess =
     (if bits < 16 then
        (if bits > 1 then (if excess > 0 then (nat (bits + 1), excess - 1) else (nat bits, excess))
         else if bits = 1 \<and> excess > 1 then (2, excess - 2)
         else (0, excess))
      else (16, excess))"

fun alloc_first_pass :: "int list \<Rightarrow> int \<Rightarrow> int \<Rightarrow> nat list \<times> int" where
  "alloc_first_pass [] bitadjust excess = ([], excess)"
| "alloc_first_pass (bn # bns) bitadjust excess =
     (let (b, excess1) = alloc_adjusted_bits (bn + bitadjust) excess;
          (bs, excess2) = alloc_first_pass bns bitadjust excess1
      in (b # bs, excess2))"

fun alloc_excess :: "nat list \<Rightarrow> int \<Rightarrow> nat list" where
  "alloc_excess [] excess = []"
| "alloc_excess (b # bs) excess =
     (if excess > 0 then (if b < 16 then (b + 1) # alloc_excess bs (excess - 1)
                          else b # alloc_excess bs excess)
      else b # bs)"

definition loudness_bit_allocation :: "nat list \<Rightarrow> nat list" where
  "loudness_bit_allocation scale_factors =
     (let bitneed = map2 (\<lambda>sf off. bitneed_of (int sf) off) scale_factors loudness_offsets;
          bitcount = sum_list (map (\<lambda>bn. if bn > 1 then bn else 0) bitneed);
          bitadjust = adjust_to_fit_bitpool MSBC_BITPOOL bitneed bitcount;
          excess = MSBC_BITPOOL - clamped_total bitneed bitadjust;
          (bits, excess1) = alloc_first_pass bitneed bitadjust excess
      in alloc_excess bits excess1)"

section \<open>Scale factors\<close>

definition nibble_pair :: "nat \<Rightarrow> nat \<Rightarrow> u8" where
  "nibble_pair a b = push_bit 4 (word_of_nat a AND 0x0F) OR (word_of_nat b AND 0x0F)"

fun pack_nibbles :: "nat list \<Rightarrow> bytes" where
  "pack_nibbles (a # b # r) = nibble_pair a b # pack_nibbles r"
| "pack_nibbles _ = []"

definition pack_scale_factors :: "nat list \<Rightarrow> bytes" where
  "pack_scale_factors scale_factors = pack_nibbles scale_factors"

definition unpack_scale_factors :: "bytes \<Rightarrow> nat list" where
  "unpack_scale_factors bs =
     concat (map (\<lambda>b. [unat (drop_bit 4 b AND 0x0F), unat (b AND 0x0F)]) bs)"

section \<open>Sample bits\<close>

text \<open>One bit at position \<open>bit_pos\<close>, counted from the top bit of the first octet; a position past
  the buffer is dropped by the writer and read as zero.\<close>

definition write_bit :: "bytes \<Rightarrow> nat \<Rightarrow> bool \<Rightarrow> bytes" where
  "write_bit buf bit_pos b =
     (let byte = bit_pos div 8; shift = 7 - bit_pos mod 8 in
      if byte < length buf then buf[byte := buf ! byte OR push_bit shift (of_bool b)] else buf)"

definition read_bit :: "bytes \<Rightarrow> nat \<Rightarrow> bool" where
  "read_bit buf bit_pos =
     (let byte = bit_pos div 8; shift = 7 - bit_pos mod 8 in
      if byte < length buf then drop_bit shift (buf ! byte) AND 1 \<noteq> 0 else False)"

text \<open>The loop \<open>for i in (0..nbits).rev()\<close> of \<open>BitWriter::write\<close>.\<close>

fun writer_write :: "bytes \<times> nat \<Rightarrow> u32 \<Rightarrow> nat \<Rightarrow> bytes \<times> nat" where
  "writer_write (buf, pos) v 0 = (buf, pos)"
| "writer_write (buf, pos) v (Suc i) =
     writer_write (write_bit buf pos (drop_bit i v AND 1 \<noteq> 0), pos + 1) v i"

fun reader_read :: "bytes \<Rightarrow> nat \<Rightarrow> nat \<Rightarrow> u32 \<Rightarrow> u32 \<times> nat" where
  "reader_read buf pos 0 v = (v, pos)"
| "reader_read buf pos (Suc n) v =
     reader_read buf (pos + 1) n (push_bit 1 v OR of_bool (read_bit buf pos))"

text \<open>All samples in the order of the frame, each with the width of its subband; a subband
  without bits is skipped.\<close>

fun write_samples :: "bytes \<times> nat \<Rightarrow> (u32 \<times> nat) list \<Rightarrow> bytes \<times> nat" where
  "write_samples w [] = w"
| "write_samples w ((q, nbits) # r) =
     write_samples (if nbits = 0 then w else writer_write w q nbits) r"

fun read_samples :: "bytes \<Rightarrow> nat \<Rightarrow> nat list \<Rightarrow> u32 list" where
  "read_samples buf pos [] = []"
| "read_samples buf pos (nbits # r) =
     (if nbits = 0 then 0 # read_samples buf pos r
      else let (q, pos') = reader_read buf pos nbits 0 in q # read_samples buf pos' r)"

abbreviation (input) MSBC_NUM_BLOCKS :: nat where "MSBC_NUM_BLOCKS \<equiv> 15"
abbreviation (input) MSBC_FRAME_SIZE :: nat where "MSBC_FRAME_SIZE \<equiv> 57"

definition frame_widths :: "nat list \<Rightarrow> nat list" where
  "frame_widths scale_factors = concat (replicate MSBC_NUM_BLOCKS (loudness_bit_allocation scale_factors))"

text \<open>Step 5 of \<open>MsbcEncoder::encode\<close>: header, check octet, scale factors, samples.\<close>

definition assemble_frame :: "nat list \<Rightarrow> u32 list \<Rightarrow> bytes" where
  "assemble_frame scale_factors quantized =
     (let sf_bytes = pack_scale_factors scale_factors;
          crc = crc8 ([MSBC_HEADER_BYTE_1, MSBC_WIRE_BYTE_2] @ sf_bytes);
          samples = fst (write_samples (replicate (MSBC_FRAME_SIZE - 8) 0, 0)
                          (zip quantized (frame_widths scale_factors)))
      in [MSBC_SYNC_BYTE, MSBC_HEADER_BYTE_1, MSBC_WIRE_BYTE_2, crc] @ sf_bytes @ samples)"

datatype DecodeError = BadHeader string | BadCrc

definition parse_header :: "bytes \<Rightarrow> string + unit" where
  "parse_header frame =
     (if length frame < 4 then Inl ''frame shorter than mSBC header''
      else if frame ! 0 \<noteq> MSBC_SYNC_BYTE then Inl ''not an mSBC sync byte'' else Inr ())"

text \<open>The head of \<open>MsbcDecoder::decode\<close>: header, check octet, scale factors, samples.\<close>

definition read_frame :: "bytes \<Rightarrow> DecodeError + nat list \<times> u32 list" where
  "read_frame frame =
     (case parse_header frame of
        Inl e \<Rightarrow> Inl (BadHeader e)
      | Inr _ \<Rightarrow>
          let sf_bytes = take 4 (drop 4 frame) in
          if crc8 ([frame ! 1, frame ! 2] @ sf_bytes) \<noteq> frame ! 3 then Inl BadCrc
          else
            let sf = unpack_scale_factors sf_bytes
            in Inr (sf, read_samples (drop 8 frame) 0 (frame_widths sf)))"

section \<open>The check octet, bit by bit\<close>

text \<open>The reference: the shift register of the polynomial fed with one data bit at a time, the
  bits of an octet from the top.\<close>

fun crc8_serial :: "u8 \<Rightarrow> bool list \<Rightarrow> u8" where
  "crc8_serial crc [] = crc"
| "crc8_serial crc (b # bs) =
     crc8_serial (if bit crc 7 \<noteq> b then push_bit 1 crc XOR 0x1D else push_bit 1 crc) bs"

definition bits_msb :: "nat \<Rightarrow> 'a :: semiring_bit_operations \<Rightarrow> bool list" where
  "bits_msb n w = map (bit w) (rev [0..<n])"

lemma bits_msb_Suc: "bits_msb (Suc n) w = bit w n # bits_msb n w"
  by (simp add: bits_msb_def)

lemma bits_msb_0 [simp]: "bits_msb 0 w = []"
  by (simp add: bits_msb_def)

lemma length_bits_msb [simp]: "length (bits_msb n w) = n"
  by (simp add: bits_msb_def)

lemma high_bit: "(x :: u8) AND 0x80 \<noteq> 0 \<longleftrightarrow> bit x 7"
  by (simp add: byte_bits)

lemma crc8_shift_xor: "crc8_shift (x XOR y) = crc8_shift x XOR crc8_shift y"
  by (auto simp: crc8_shift_def byte_bits)

lemma crc8_shift_low: "\<not> bit x 7 \<Longrightarrow> crc8_shift x = push_bit 1 x"
  by (simp add: crc8_shift_def high_bit)

text \<open>One serial step is a shift of the register with the data bit on its top.\<close>

lemma serial_step:
  "(if bit (crc :: u8) 7 \<noteq> b then push_bit 1 crc XOR 0x1D else push_bit 1 crc) =
     crc8_shift (crc XOR push_bit 7 (of_bool b))"
  by (cases b) (simp_all add: crc8_shift_def byte_bits)

lemma crc8_shifts_snoc: "crc8_shifts (Suc n) x = crc8_shift (crc8_shifts n x)"
  by (induction n arbitrary: x) simp_all

lemma serial_octet_aux:
  assumes "j + k = 8"
  shows "crc8_serial (crc8_shifts j (c XOR b) XOR push_bit j b) (bits_msb k (b :: u8)) =
    crc8_shifts 8 (c XOR b)"
  using assms
proof (induction k arbitrary: j)
  case 0
  then show ?case by (simp add: byte_bits)
next
  case (Suc k)
  let ?r = "crc8_shifts j (c XOR b)"
  have j: "j < 8" "k = 7 - j" using Suc.prems by simp_all
  let ?y = "push_bit j b XOR push_bit 7 (of_bool (bit b k)) :: u8"
  have low: "\<not> bit ?y 7" using j by (simp add: bit_simps)
  have "push_bit 1 ?y = push_bit (Suc j) b"
    by (rule bit_word_eqI) (use j in \<open>auto simp: bit_simps\<close>)
  with low have y: "crc8_shift ?y = push_bit (Suc j) b" by (simp add: crc8_shift_low)
  have "crc8_shift ((?r XOR push_bit j b) XOR push_bit 7 (of_bool (bit b k))) =
      crc8_shifts (Suc j) (c XOR b) XOR push_bit (Suc j) b"
    by (simp add: xor.assoc crc8_shift_xor [of ?r ?y] y crc8_shifts_snoc del: crc8_shifts.simps)
  moreover have "crc8_serial (crc8_shifts (Suc j) (c XOR b) XOR push_bit (Suc j) b) (bits_msb k b) =
      crc8_shifts 8 (c XOR b)"
    by (rule Suc.IH) (use Suc.prems in simp)
  ultimately show ?case unfolding bits_msb_Suc crc8_serial.simps serial_step by simp
qed

lemma serial_octet: "crc8_serial c (bits_msb 8 b) = crc8_shifts 8 (c XOR b)"
  using serial_octet_aux [of 0 8 c b] by (simp add: xor.assoc)

lemma crc8_table_nth: "build_crc8_table ! unat x = crc8_shifts 8 x"
  by (simp add: build_crc8_table_def)

lemma crc8_serial_append: "crc8_serial c (a @ b) = crc8_serial (crc8_serial c a) b"
  by (induction a arbitrary: c) simp_all

lemma crc8_bytes_serial: "crc8_bytes c bs = crc8_serial c (concat (map (bits_msb 8) bs))"
  by (induction bs arbitrary: c) (simp_all add: crc8_table_nth serial_octet crc8_serial_append)

text \<open>The trailing bits are taken from the top of the aligned octet.\<close>

fun top_bits :: "nat \<Rightarrow> u8 \<Rightarrow> bool list" where
  "top_bits 0 t = []"
| "top_bits (Suc n) t = bit t 7 # top_bits n (push_bit 1 t)"

lemma crc8_trailing_serial: "crc8_trailing n t c = crc8_serial c (top_bits n t)"
  by (induction n arbitrary: t c) (simp_all add: high_bit Let_def)

lemma top_bits_aligned:
  assumes "n \<le> 8"
  shows "top_bits n (ucast (push_bit (8 - n) (w :: u32))) = bits_msb n w"
  using assms
proof (induction n)
  case (Suc n)
  let ?t = "ucast (push_bit (8 - Suc n) w) :: u8"
  have "bit ?t 7 = bit w n" using Suc.prems by (simp add: bit_simps)
  moreover have "push_bit 1 ?t = ucast (push_bit (8 - n) w)"
    by (rule bit_word_eqI) (use Suc.prems in \<open>auto simp: bit_simps bit_mult_2\<close>)
  ultimately show ?case using Suc by (simp add: bits_msb_Suc)
qed simp

lemma crc8_with_trailing_bits_serial:
  assumes "n < 8"
  shows "crc8_with_trailing_bits bs trailing n =
    crc8_serial 0x0F (concat (map (bits_msb 8) bs) @ bits_msb n trailing)"
  using assms
  by (simp add: crc8_with_trailing_bits_def crc8_bytes_serial crc8_trailing_serial top_bits_aligned
      crc8_serial_append Let_def)

section \<open>The allocation fits\<close>

lemma clamp_bn_bounds: "0 \<le> clamp_bn n" "clamp_bn n \<le> 16"
  by (simp_all add: clamp_bn_def)

lemma adjust_loop_keeps:
  "clamped_total bitneed mx \<le> bitpool \<Longrightarrow>
     clamped_total bitneed (adjust_loop bitpool bitneed chop mx adj bc) \<le> bitpool"
proof (induction bitpool bitneed chop mx adj bc rule: adjust_loop.induct)
  case (1 bitpool bitneed chop mx adj bc)
  then show ?case by (subst adjust_loop.simps) (auto simp: Let_def not_less)
qed

text \<open>One round of the search with a bit count that is not the pool.\<close>

lemma adjust_loop_round:
  assumes "bc \<noteq> bitpool" "chop \<noteq> 0"
    and "clamped_total bitneed adj > bitpool \<Longrightarrow>
      clamped_total bitneed
        (adjust_loop bitpool bitneed (chop div 2) mx (adj - int (chop div 2)) bc) \<le> bitpool"
  shows "clamped_total bitneed (adjust_loop bitpool bitneed chop mx adj bc) \<le> bitpool"
proof (cases "clamped_total bitneed adj > bitpool")
  case True
  with assms show ?thesis by (subst adjust_loop.simps) (simp add: Let_def)
next
  case False
  with assms(1,2) adjust_loop_keeps show ?thesis by (subst adjust_loop.simps) (simp add: Let_def)
qed

lemma adjust_to_fit:
  assumes "0 \<le> bitpool" "list_all (\<lambda>bn. bn \<le> 16) bitneed"
    and "clamped_total bitneed 0 \<le> bitcount"
  shows "clamped_total bitneed (adjust_to_fit_bitpool bitpool bitneed bitcount) \<le> bitpool"
proof (cases "bitcount > bitpool")
  case False
  then have "clamped_total bitneed 0 \<le> bitpool" using assms(3) by simp
  with False adjust_loop_keeps show ?thesis by (simp add: adjust_to_fit_bitpool_def)
next
  case True
  have z: "clamped_total bitneed (-15) = 0"
    using assms(2) by (induction bitneed) (simp_all add: clamped_total_def clamp_bn_def)
  have ne: "bitcount \<noteq> bitpool" using True by simp
  have "clamped_total bitneed (adjust_loop bitpool bitneed 8 0 (-8) bitcount) \<le> bitpool"
    by (rule adjust_loop_round [OF ne], simp, simp, rule adjust_loop_round [OF ne], simp, simp,
        rule adjust_loop_round [OF ne], simp, simp, rule adjust_loop_round [OF ne], simp)
      (use z assms(1) in simp)
  with True show ?thesis by (simp add: adjust_to_fit_bitpool_def)
qed

lemma first_pass_conserves:
  assumes "alloc_first_pass bns adj ex = (bs, ex')" "0 \<le> ex"
  shows "0 \<le> ex' \<and> int (sum_list bs) + ex' = clamped_total bns adj + ex \<and>
    list_all (\<lambda>b. b \<le> 16) bs \<and> length bs = length bns"
  using assms
proof (induction bns arbitrary: ex bs)
  case (Cons bn bns)
  obtain b ex1 where b: "alloc_adjusted_bits (bn + adj) ex = (b, ex1)" by fastforce
  obtain bs' where r: "alloc_first_pass bns adj ex1 = (bs', ex')" and bs: "bs = b # bs'"
    using Cons.prems(1) b by (auto simp: Let_def split: prod.splits)
  have "0 \<le> ex1 \<and> int b + ex1 = clamp_bn (bn + adj) + ex \<and> b \<le> 16"
    using b Cons.prems(2) by (auto simp: alloc_adjusted_bits_def clamp_bn_def split: if_splits)
  with Cons.IH [OF r] show ?case by (simp add: bs clamped_total_def)
qed (simp add: clamped_total_def)

lemma alloc_excess_bounds:
  "0 \<le> ex \<Longrightarrow> list_all (\<lambda>b. b \<le> 16) bs \<Longrightarrow>
     int (sum_list (alloc_excess bs ex)) \<le> int (sum_list bs) + ex \<and>
     list_all (\<lambda>b. b \<le> 16) (alloc_excess bs ex) \<and> length (alloc_excess bs ex) = length bs"
proof (induction bs arbitrary: ex)
  case (Cons b bs)
  from Cons.prems have r: "list_all (\<lambda>b. b \<le> 16) bs" "b \<le> 16" by simp_all
  show ?case
  proof (cases "0 < ex \<and> b < 16")
    case True
    with Cons.IH [of "ex - 1"] r show ?thesis by simp
  next
    case False
    with Cons.IH [OF Cons.prems(1)] Cons.prems(1) r show ?thesis by auto
  qed
qed simp

lemma allocation_bounds:
  assumes "length sf = 8" "list_all (\<lambda>s. s < 16) sf"
  shows "sum_list (loudness_bit_allocation sf) \<le> 26 \<and>
    list_all (\<lambda>b. b \<le> 16) (loudness_bit_allocation sf) \<and> length (loudness_bit_allocation sf) = 8"
proof -
  define bn where "bn = map2 (\<lambda>sf off. bitneed_of (int sf) off) sf loudness_offsets"
  define bc where "bc = sum_list (map (\<lambda>bn. if bn > 1 then bn else 0) bn)"
  define adj where "adj = adjust_to_fit_bitpool 26 bn bc"
  obtain bs ex where p: "alloc_first_pass bn adj (26 - clamped_total bn adj) = (bs, ex)" by fastforce
  have "list_all2 (\<lambda>s off. s < 16 \<and> -2 \<le> off) sf loudness_offsets"
    using assms by (auto simp: loudness_offsets_def list_all2_conv_all_nth list_all_length less_8_cases
        nth_Cons')
  then have le: "list_all (\<lambda>b. b \<le> 16) bn"
    unfolding bn_def
    by (induction rule: list_all2_induct) (auto simp: bitneed_of_def Let_def)
  have len: "length bn = 8" using assms(1) by (simp add: bn_def loudness_offsets_def)
  have "clamped_total bn 0 \<le> bc"
    using le unfolding bc_def by (induction bn) (auto simp: clamped_total_def clamp_bn_def)
  with adjust_to_fit [OF _ le, of 26 bc] have "clamped_total bn adj \<le> 26" by (simp add: adj_def)
  with first_pass_conserves [OF p] have bs: "0 \<le> ex" "int (sum_list bs) + ex = 26"
    "list_all (\<lambda>b. b \<le> 16) bs" "length bs = 8" using len by simp_all
  have "loudness_bit_allocation sf = alloc_excess bs ex"
    by (simp add: loudness_bit_allocation_def Let_def bn_def [symmetric] bc_def [symmetric]
        adj_def [symmetric] p)
  with alloc_excess_bounds [OF bs(1,3)] bs show ?thesis by simp
qed

section \<open>Sample bits\<close>

lemma read_bit_iff: "read_bit buf p = (p div 8 < length buf \<and> bit (buf ! (p div 8)) (7 - p mod 8))"
  by (simp add: read_bit_def Let_def and_one_eq bit_iff_odd_drop_bit odd_iff_mod_2_eq_one)

lemma same_bit_position:
  fixes p q :: nat
  assumes "p div 8 = q div 8" "7 - p mod 8 = 7 - q mod 8"
  shows "p = q"
proof -
  have "p mod 8 = q mod 8"
    using assms(2) mod_less_divisor [of 8 p] mod_less_divisor [of 8 q] by linarith
  with assms(1) show ?thesis by (metis div_mult_mod_eq)
qed

lemma bit_push_of_bool: "bit (push_bit a (of_bool b) :: u8) c = (a = c \<and> b \<and> c < 8)"
  by (cases b) (auto simp: bit_simps)

lemma read_write_bit:
  assumes "p div 8 < length buf"
  shows "read_bit (write_bit buf p b) q = (read_bit buf q \<or> (q = p \<and> b))"
proof (cases "q div 8 = p div 8")
  case True
  have "7 - q mod 8 < 8" by simp
  moreover have "(7 - p mod 8 = 7 - q mod 8) = (q = p)" using same_bit_position True by metis
  ultimately show ?thesis
    using assms True by (auto simp: read_bit_iff write_bit_def Let_def bit_or_iff bit_push_of_bool)
next
  case False
  then show ?thesis using assms by (auto simp: read_bit_iff write_bit_def Let_def)
qed

lemma length_write_bit [simp]: "length (write_bit buf p b) = length buf"
  by (simp add: write_bit_def Let_def)

fun write_bits :: "bytes \<Rightarrow> nat \<Rightarrow> bool list \<Rightarrow> bytes" where
  "write_bits buf p [] = buf"
| "write_bits buf p (b # bs) = write_bits (write_bit buf p b) (p + 1) bs"

lemma write_bits_append: "write_bits buf p (a @ b) = write_bits (write_bits buf p a) (p + length a) b"
  by (induction a arbitrary: buf p) simp_all

lemma length_write_bits [simp]: "length (write_bits buf p bs) = length buf"
  by (induction bs arbitrary: buf p) simp_all

lemma read_write_bits:
  assumes "p + length bs \<le> 8 * length buf"
  shows "read_bit (write_bits buf p bs) q =
    (read_bit buf q \<or> (p \<le> q \<and> q < p + length bs \<and> bs ! (q - p)))"
  using assms
proof (induction bs arbitrary: buf p)
  case (Cons b bs)
  then have "p div 8 < length buf" by simp
  with Cons.IH [of "p + 1" "write_bit buf p b"] Cons.prems show ?case
    by (auto simp: read_write_bit nth_Cons' less_Suc_eq_le Suc_le_eq)
qed auto

lemma writer_write_bits: "writer_write (buf, pos) v n = (write_bits buf pos (bits_msb n v), pos + n)"
proof (induction n arbitrary: buf pos)
  case (Suc n)
  have "(drop_bit n v AND 1 \<noteq> 0) = bit v n"
    by (simp add: and_one_eq bit_iff_odd_drop_bit odd_iff_mod_2_eq_one)
  with Suc show ?case by (simp add: bits_msb_Suc)
qed simp

definition sample_bits :: "(u32 \<times> nat) list \<Rightarrow> bool list" where
  "sample_bits qs = concat (map (\<lambda>(q, n). bits_msb n q) qs)"

lemma write_samples_bits:
  "write_samples (buf, pos) qs = (write_bits buf pos (sample_bits qs), pos + length (sample_bits qs))"
  by (induction qs arbitrary: buf pos)
    (auto simp: sample_bits_def writer_write_bits write_bits_append)

lemma reader_read_value:
  assumes "\<And>i. i < n \<Longrightarrow> read_bit buf (pos + i) = bits_msb n q ! i"
  shows "reader_read buf pos n v = (push_bit n v OR take_bit n q, pos + n)"
  using assms
proof (induction n arbitrary: pos v)
  case (Suc n)
  have "read_bit buf pos = bit q n" using Suc.prems [of 0] by (simp add: bits_msb_Suc)
  moreover have "read_bit buf (Suc pos + i) = bits_msb n q ! i" if "i < n" for i
    using Suc.prems [of "Suc i"] that by (simp add: bits_msb_Suc)
  moreover have "push_bit n (push_bit 1 v OR of_bool (bit q n)) OR take_bit n q =
      push_bit (Suc n) v OR take_bit (Suc n) q"
    by (rule bit_word_eqI) (auto simp: bit_simps less_Suc_eq)
  ultimately show ?case using Suc.IH [of "Suc pos"] by simp
qed simp

lemma read_samples_value:
  assumes "\<And>i. i < length (sample_bits qs) \<Longrightarrow> read_bit buf (pos + i) = sample_bits qs ! i"
  shows "read_samples buf pos (map snd qs) = map (\<lambda>(q, n). take_bit n q) qs"
  using assms
proof (induction qs arbitrary: pos)
  case (Cons qn qs)
  obtain q n where qn: "qn = (q, n)" by fastforce
  have s: "sample_bits (qn # qs) = bits_msb n q @ sample_bits qs" by (simp add: sample_bits_def qn)
  have "read_bit buf (pos + i) = bits_msb n q ! i" if "i < n" for i
    using Cons.prems [of i] that by (simp add: s nth_append)
  then have "reader_read buf pos n 0 = (take_bit n q, pos + n)" by (simp add: reader_read_value)
  moreover have "read_bit buf (pos + n + i) = sample_bits qs ! i" if "i < length (sample_bits qs)" for i
    using Cons.prems [of "n + i"] that by (simp add: s nth_append add.assoc)
  ultimately show ?case using Cons.IH [of "pos + n"] by (cases "n = 0") (simp_all add: qn)
qed simp

lemma length_sample_bits: "length (sample_bits qs) = sum_list (map snd qs)"
  by (induction qs) (auto simp: sample_bits_def)

lemma samples_roundtrip:
  assumes "sum_list (map snd qs) \<le> 8 * m" "list_all (\<lambda>(q, n). n \<le> 16 \<and> unat q < 2 ^ n) qs"
  shows "read_samples (fst (write_samples (replicate m 0, 0) qs)) 0 (map snd qs) = map fst qs"
proof -
  have z: "\<not> read_bit (replicate m 0) q" for q by (simp add: read_bit_iff)
  have "read_samples (fst (write_samples (replicate m 0, 0) qs)) 0 (map snd qs) =
      map (\<lambda>(q, n). take_bit n q) qs"
    using assms(1)
    by (intro read_samples_value) (simp add: write_samples_bits read_write_bits z length_sample_bits)
  also have "\<dots> = map fst qs"
    using assms(2)
    by (auto simp: list_all_iff word_unat_eq_iff unsigned_take_bit_eq take_bit_nat_eq_self)
  finally show ?thesis .
qed

section \<open>Scale factors\<close>

lemma nibbles_roundtrip:
  assumes "a < 16" "b < 16"
  shows "unat (drop_bit 4 (nibble_pair a b) AND 0x0F) = a" "unat (nibble_pair a b AND 0x0F) = b"
proof -
  have d: "drop_bit 4 (push_bit 4 (x AND 0x0F) OR (y AND 0x0F)) AND 0x0F = x AND 0x0F"
    "(push_bit 4 (x AND 0x0F) OR (y AND 0x0F)) AND 0x0F = y AND 0x0F" for x y :: u8
    by (simp_all add: byte_bits)
  have m: "unat (word_of_nat n AND 0x0F :: u8) = n" if "n < 16" for n
  proof -
    have "word_of_nat n AND 0x0F = take_bit 4 (word_of_nat n :: u8)"
      by (simp add: take_bit_eq_mask mask_numeral)
    with that show ?thesis
      by (simp add: unsigned_take_bit_eq unat_of_nat take_bit_nat_eq_self)
  qed
  show "unat (drop_bit 4 (nibble_pair a b) AND 0x0F) = a" "unat (nibble_pair a b AND 0x0F) = b"
    unfolding nibble_pair_def d using m assms(1,2) by simp_all
qed

lemma scale_factors_roundtrip:
  assumes "even (length sf)" "list_all (\<lambda>s. s < 16) sf"
  shows "unpack_scale_factors (pack_scale_factors sf) = sf \<and>
    length (pack_scale_factors sf) = length sf div 2"
  using assms unfolding unpack_scale_factors_def pack_scale_factors_def
  by (induction sf rule: pack_nibbles.induct) (simp_all add: nibbles_roundtrip)

section \<open>Properties\<close>

text \<open>The table-driven check octet, with fewer than eight trailing bits,
  is the shift register of the polynomial run over all the data bits one by one.\<close>

theorem crc8_is_polynomial_division:
  assumes "n < 8"
  shows "crc8_with_trailing_bits bs trailing n =
    crc8_serial 0x0F (concat (map (bits_msb 8) bs) @ bits_msb n trailing)"
  using assms by (rule crc8_with_trailing_bits_serial)

theorem crc8_is_polynomial_division_witness:
  "crc8_with_trailing_bits [0xAB, 0xCD] 10 4 =
     crc8_serial 0x0F (concat (map (bits_msb 8) [0xAB, 0xCD :: u8]) @ bits_msb 4 (10 :: u32))"
  using crc8_is_polynomial_division [of 4 "[0xAB, 0xCD]" 10] by simp

text \<open>for all scale factors the allocation gives each of the eight
  subbands at most 16 bits and at most 26 bits together, so that the samples of the fifteen blocks
  fit the 49 octets left for them.\<close>

theorem loudness_allocation_fits:
  assumes "length sf = 8" and "list_all (\<lambda>s. s < 16) sf"
  shows "length (loudness_bit_allocation sf) = 8 \<and>
    list_all (\<lambda>b. b \<le> 16) (loudness_bit_allocation sf) \<and>
    sum_list (loudness_bit_allocation sf) \<le> 26 \<and>
    sum_list (frame_widths sf) \<le> 8 * (57 - 8)"
proof -
  have "sum_list (concat (replicate n xs)) = n * sum_list xs" for n and xs :: "nat list"
    by (induction n) simp_all
  with allocation_bounds [OF assms] show ?thesis by (simp add: frame_widths_def)
qed

theorem loudness_allocation_fits_witness:
  "sum_list (frame_widths [12, 11, 10, 9, 8, 7, 6, 5]) \<le> 392 \<and>
   loudness_bit_allocation [12, 11, 10, 9, 8, 7, 6, 5] = [7, 5, 4, 3, 3, 2, 2, 0]"
proof -
  have "loudness_bit_allocation [12, 11, 10, 9, 8, 7, 6, 5] = [7, 5, 4, 3, 3, 2, 2, 0]" by code_simp
  then show ?thesis using loudness_allocation_fits [of "[12, 11, 10, 9, 8, 7, 6, 5]"] by simp
qed

text \<open>The final distribution of leftover bits can give a subband
  that had none exactly one bit.\<close>

lemma loudness_allocation_single_bit:
  "loudness_bit_allocation [0, 14, 0, 6, 7, 4, 1, 2] = [1, 9, 0, 5, 5, 4, 2, 0]"
  by code_simp

text \<open>The frame the encoder assembles from scale factors and quantized samples
  that fit their widths is accepted by the decoder and read back to the same scale factors and the
  same samples, in 57 octets.\<close>

theorem msbc_frame_roundtrip:
  assumes "length sf = 8" and "list_all (\<lambda>s. s < 16) sf" and "length quantized = 120"
    and "list_all2 (\<lambda>q n. unat q < 2 ^ n) quantized (frame_widths sf)"
  shows "read_frame (assemble_frame sf quantized) = Inr (sf, quantized) \<and>
    length (assemble_frame sf quantized) = 57"
proof -
  let ?w = "frame_widths sf" and ?sfb = "pack_scale_factors sf"
  let ?body = "fst (write_samples (replicate 49 0, 0) (zip quantized ?w))"
  note b = allocation_bounds [OF assms(1,2)]
  have len: "length ?w = length quantized" using assms(4) by (simp add: list_all2_lengthD)
  have "sum_list (concat (replicate n xs)) = n * sum_list xs" for n and xs :: "nat list"
    by (induction n) simp_all
  then have w: "sum_list ?w \<le> 8 * 49" using b by (simp add: frame_widths_def)
  have le: "list_all (\<lambda>n. n \<le> 16) ?w" using b by (auto simp: frame_widths_def list_all_iff)
  have q: "list_all (\<lambda>(q, n). n \<le> 16 \<and> unat q < 2 ^ n) (zip quantized ?w)"
    using assms(4) le by (auto simp: list_all_iff list_all2_iff dest: set_zip_rightD)
  have r: "read_samples ?body 0 ?w = quantized"
    using samples_roundtrip [OF _ q, of 49] w len by simp
  have sf: "unpack_scale_factors ?sfb = sf" "length ?sfb = 4"
    using scale_factors_roundtrip [OF _ assms(2)] assms(1) by simp_all
  have body: "length ?body = 49" by (simp add: write_samples_bits)
  have a: "assemble_frame sf quantized = [0xAD, 0, 0, crc8 ([0, 0] @ ?sfb)] @ ?sfb @ ?body"
    by (simp add: assemble_frame_def Let_def)
  show ?thesis
    unfolding a read_frame_def using sf r body by (simp add: parse_header_def Let_def)
qed

text \<open>A frame of eight different scale factors, all samples zero.\<close>

theorem msbc_frame_roundtrip_witness:
  "read_frame (assemble_frame [12, 11, 10, 9, 8, 7, 6, 5] (replicate 120 0)) =
     Inr ([12, 11, 10, 9, 8, 7, 6, 5], replicate 120 0)"
proof -
  have w: "length (frame_widths [12, 11, 10, 9, 8, 7, 6, 5]) = 120"
    using allocation_bounds [of "[12, 11, 10, 9, 8, 7, 6, 5]"]
    by (simp add: frame_widths_def length_concat sum_list_replicate)
  have "list_all2 (\<lambda>q n. unat q < 2 ^ n) (replicate 120 (0 :: u32)) (frame_widths [12, 11, 10, 9, 8, 7, 6, 5])"
    using w by (simp add: list_all2_conv_all_nth)
  from msbc_frame_roundtrip [OF _ _ _ this] show ?thesis by simp
qed

end
