(* ===== verification/Msbc_H2.thy ===== *)
theory Msbc_H2
  imports Msbc_Frame
begin

text \<open>
  \<open>msbc/h2.rs\<close>: the H2 framing of wide-band speech over SCO.  The encoder puts a rotating header
  before each frame and a padding octet behind it; the decoder tracks the rotation to count lost
  packets and conceals them; \<open>MsbcStreamFramer\<close> recovers packets from a stream cut anywhere;
  \<open>MsbcStreamPackager\<close> cuts the encoded stream into SCO payloads.

  The filter banks of the codec work on \<open>f32\<close> and are arguments of the model: \<open>analyse\<close> stands
  for steps 1 to 4 of \<open>MsbcEncoder::encode\<close> (scale factors and quantized samples), \<open>synth\<close> for
  the synthesis filter of \<open>MsbcDecoder::decode\<close>.  A PCM sample is an \<open>int\<close> in the range of
  \<open>i16\<close>; the fade factors 1, 1/2 and 1/4 of the concealment are exact in \<open>f32\<close>, so the faded
  sample is the quarter multiple rounded half away from zero.
\<close>

section \<open>Codec around the filter banks\<close>

type_synonym pcm = "int list"
type_synonym 'e analysis = "'e \<Rightarrow> pcm \<Rightarrow> nat list \<times> u32 list \<times> 'e"
type_synonym 'd synthesis = "'d \<Rightarrow> nat list \<Rightarrow> u32 list \<Rightarrow> pcm \<times> 'd"

definition msbc_encode :: "'e analysis \<Rightarrow> 'e \<Rightarrow> pcm \<Rightarrow> bytes \<times> 'e" where
  "msbc_encode analyse e pcm =
     (let (sf, quantized, e') = analyse e pcm in (assemble_frame sf quantized, e'))"

definition msbc_decode :: "'d synthesis \<Rightarrow> 'd \<Rightarrow> bytes \<Rightarrow> (DecodeError + pcm) \<times> 'd" where
  "msbc_decode synth d frame =
     (case read_frame frame of
        Inl e \<Rightarrow> (Inl e, d)
      | Inr (sf, q) \<Rightarrow> (let (pcm, d') = synth d sf q in (Inr pcm, d')))"

section \<open>Packets\<close>

abbreviation (input) H2_SYNC_BYTE_0 :: u8 where "H2_SYNC_BYTE_0 \<equiv> 0x01"
abbreviation (input) H2_PADDING_BYTE :: u8 where "H2_PADDING_BYTE \<equiv> 0x00"
abbreviation (input) MSBC_H2_PACKET_SIZE :: nat where "MSBC_H2_PACKET_SIZE \<equiv> 60"
abbreviation (input) MSBC_SAMPLES_PER_FRAME :: nat where "MSBC_SAMPLES_PER_FRAME \<equiv> 120"

definition H2_SYNC_BYTE_1 :: "u8 list" where
  "H2_SYNC_BYTE_1 = [0x08, 0x38, 0xC8, 0xF8]"

record 'e H2Encoder =
  he_inner :: 'e
  he_seq :: u8

definition h2_encoder_new :: "'e \<Rightarrow> 'e H2Encoder" where
  "h2_encoder_new inner0 = \<lparr>he_inner = inner0, he_seq = 0\<rparr>"

definition encode_packet :: "'e analysis \<Rightarrow> 'e H2Encoder \<Rightarrow> pcm \<Rightarrow> bytes \<times> 'e H2Encoder" where
  "encode_packet analyse enc pcm =
     (let (frame, inner) = msbc_encode analyse (he_inner enc) pcm
      in ([H2_SYNC_BYTE_0, H2_SYNC_BYTE_1 ! unat (he_seq enc)] @ frame @ [H2_PADDING_BYTE],
          enc\<lparr>he_inner := inner, he_seq := (he_seq enc + 1) AND 0x03\<rparr>))"

record 'd H2Decoder =
  hd_inner :: 'd
  hd_expected_seq :: "u8 option"
  hd_last_gap :: u8
  hd_last_pcm :: "pcm option"

definition h2_decoder_new :: "'d \<Rightarrow> 'd H2Decoder" where
  "h2_decoder_new inner0 =
     \<lparr>hd_inner = inner0, hd_expected_seq = None, hd_last_gap = 0, hd_last_pcm = None\<rparr>"

datatype H2DecodeError = BadSync0 | BadSync1 | Truncated | Codec DecodeError

record DecodedH2 =
  h2_samples :: pcm
  h2_lost :: bool
  h2_gap :: u8
  h2_conceal :: "pcm list"

definition fade_sample :: "nat \<Rightarrow> int \<Rightarrow> int" where
  "fade_sample quarters x =
     sgn x * ((\<bar>x\<bar> * int quarters + 2) div 4)"

definition fade_quarters :: "nat \<Rightarrow> nat" where
  "fade_quarters i = (if i < 4 then [4, 2, 1, 0] ! i else 0)"

definition silence :: pcm where
  "silence = replicate MSBC_SAMPLES_PER_FRAME 0"

definition conceal_lost :: "'d H2Decoder \<Rightarrow> u8 \<Rightarrow> pcm list" where
  "conceal_lost dec n =
     (case hd_last_pcm dec of
        None \<Rightarrow> replicate (unat n) silence
      | Some last_ \<Rightarrow>
          map (\<lambda>i. if fade_quarters i = 0 then silence
                   else map (fade_sample (fade_quarters i)) last_) [0..<unat n])"

fun position :: "u8 list \<Rightarrow> u8 \<Rightarrow> nat option" where
  "position [] b = None"
| "position (x # xs) b = (if x = b then Some 0 else map_option Suc (position xs b))"

definition decode_packet ::
    "'d synthesis \<Rightarrow> 'd H2Decoder \<Rightarrow> bytes \<Rightarrow> (H2DecodeError + DecodedH2) \<times> 'd H2Decoder" where
  "decode_packet synth dec packet =
     (if packet ! 0 \<noteq> H2_SYNC_BYTE_0 then (Inl BadSync0, dec)
      else case position H2_SYNC_BYTE_1 (packet ! 1) of
        None \<Rightarrow> (Inl BadSync1, dec)
      | Some p \<Rightarrow>
          let seq = word_of_nat p;
              gap = (case hd_expected_seq dec of None \<Rightarrow> 0 | Some e \<Rightarrow> (seq + 4 - e) AND 3);
              dec1 = dec\<lparr>hd_expected_seq := Some ((seq + 1) AND 0x03), hd_last_gap := gap\<rparr>;
              conceal = (if gap > 0 then conceal_lost dec1 gap else []);
              frame = take MSBC_FRAME_SIZE (drop 2 packet);
              (r, inner) = msbc_decode synth (hd_inner dec1) frame;
              dec2 = dec1\<lparr>hd_inner := inner\<rparr> in
          case r of
            Inl e \<Rightarrow> (Inl (Codec e), dec2)
          | Inr samples \<Rightarrow>
              (Inr \<lparr>h2_samples = samples, h2_lost = (gap > 0), h2_gap = gap, h2_conceal = conceal\<rparr>,
               dec2\<lparr>hd_last_pcm := Some samples\<rparr>))"

section \<open>The stream framer\<close>

definition is_valid_h2_sequence_byte :: "u8 \<Rightarrow> bool" where
  "is_valid_h2_sequence_byte b =
     (b AND 0x0F = 0x08 \<and> (let hn = drop_bit 4 b in drop_bit 1 hn AND 0x05 = hn AND 0x05))"

definition MAX_BUFFERED :: nat where
  "MAX_BUFFERED = 10 * MSBC_H2_PACKET_SIZE"

definition framer_push :: "bytes \<Rightarrow> bytes \<Rightarrow> bytes" where
  "framer_push buffer bs =
     (let b = buffer @ bs in
      if length b > MAX_BUFFERED then drop (length b - MAX_BUFFERED) b else b)"

definition framer_reset :: "bytes \<Rightarrow> bytes" where
  "framer_reset buffer = []"

text \<open>The search \<open>for i in 2..len\<close>: the first three octets that are a header and the frame sync.\<close>

fun find_sync :: "bytes \<Rightarrow> nat option" where
  "find_sync (a # b # c # r) =
     (if c = MSBC_SYNC_BYTE \<and> a = H2_SYNC_BYTE_0 \<and> is_valid_h2_sequence_byte b then Some 0
      else map_option Suc (find_sync (b # c # r)))"
| "find_sync _ = None"

definition next_frame :: "bytes \<Rightarrow> bytes option \<times> bytes" where
  "next_frame buffer =
     (if length buffer < 3 then (None, buffer)
      else case find_sync buffer of
        None \<Rightarrow> (None, drop (length buffer - 2) buffer)
      | Some start \<Rightarrow>
          let b = drop start buffer in
          if length b < MSBC_H2_PACKET_SIZE then (None, b)
          else (Some (take MSBC_H2_PACKET_SIZE b), drop MSBC_H2_PACKET_SIZE b))"

lemma next_frame_shorter: "next_frame b = (Some f, b') \<Longrightarrow> length b' < length b"
  by (auto simp: next_frame_def Let_def split: if_splits option.splits)

text \<open>The caller's loop, \<open>while let Some(frame) = framer.next_frame()\<close>.\<close>

function drain_frames :: "bytes \<Rightarrow> bytes list \<times> bytes" where
  "drain_frames buffer =
     (case next_frame buffer of
        (None, b) \<Rightarrow> ([], b)
      | (Some f, b) \<Rightarrow> (let (fs, r) = drain_frames b in (f # fs, r)))"
  by pat_completeness auto
termination
  by (relation "measure length") (auto dest: next_frame_shorter [OF sym])

declare drain_frames.simps [simp del]

fun receive_chunks :: "bytes \<Rightarrow> bytes list \<Rightarrow> bytes list \<times> bytes" where
  "receive_chunks buffer [] = ([], buffer)"
| "receive_chunks buffer (c # cs) =
     (let (fs, b) = drain_frames (framer_push buffer c);
          (fs', b') = receive_chunks b cs
      in (fs @ fs', b'))"

section \<open>The stream packager\<close>

record ('e, 'q) packager =
  sp_encoder :: "'e H2Encoder"
  sp_pending :: bytes
  sp_source :: 'q

text \<open>The source is the closure \<open>next_frame\<close> the caller passes in, with its queue of samples.\<close>

function pop_fill ::
    "'e analysis \<Rightarrow> ('q \<Rightarrow> pcm \<times> 'q) \<Rightarrow> nat \<Rightarrow> ('e, 'q) packager \<Rightarrow> ('e, 'q) packager" where
  "pop_fill analyse source n p =
     (if length (sp_pending p) < n then
        (let (pcm, q) = source (sp_source p);
             (h2, enc) = encode_packet analyse (sp_encoder p) pcm
         in pop_fill analyse source n
              (p\<lparr>sp_encoder := enc, sp_pending := sp_pending p @ h2, sp_source := q\<rparr>))
      else p)"
  by pat_completeness auto
termination
  by (relation "measure (\<lambda>(_, _, n, p). n - length (sp_pending p))")
    (auto simp: encode_packet_def split: prod.splits)

declare pop_fill.simps [simp del]

definition pop_bytes ::
    "'e analysis \<Rightarrow> ('q \<Rightarrow> pcm \<times> 'q) \<Rightarrow> nat \<Rightarrow> ('e, 'q) packager \<Rightarrow> bytes \<times> ('e, 'q) packager" where
  "pop_bytes analyse source n p =
     (let p' = pop_fill analyse source n p
      in (take n (sp_pending p'), p'\<lparr>sp_pending := drop n (sp_pending p')\<rparr>))"

definition packager_new :: "'e \<Rightarrow> 'q \<Rightarrow> ('e, 'q) packager" where
  "packager_new inner0 q = \<lparr>sp_encoder = h2_encoder_new inner0, sp_pending = [], sp_source = q\<rparr>"

definition packager_reset :: "'e \<Rightarrow> ('e, 'q) packager \<Rightarrow> ('e, 'q) packager" where
  "packager_reset inner0 p = p\<lparr>sp_encoder := h2_encoder_new inner0, sp_pending := []\<rparr>"

section \<open>Recovering frames\<close>

lemma sequence_byte_table: "is_valid_h2_sequence_byte b = (b \<in> set H2_SYNC_BYTE_1)"
  by (auto simp: is_valid_h2_sequence_byte_def H2_SYNC_BYTE_1_def Let_def byte_bits)

lemma find_sync_less: "find_sync b = Some i \<Longrightarrow> i + 2 < length b"
  by (induction b arbitrary: i rule: find_sync.induct) (auto split: if_splits)

lemma find_sync_append: "find_sync a = Some i \<Longrightarrow> find_sync (a @ b) = Some i"
  by (induction a arbitrary: i rule: find_sync.induct) (auto split: if_splits)

lemma find_sync_drop: "find_sync a = Some i \<Longrightarrow> find_sync (drop i a @ b) = Some 0"
  by (induction a arbitrary: i rule: find_sync.induct) (auto split: if_splits)

text \<open>Where no header is in view, only the last two octets can begin one.\<close>

lemma plus_fun_0: "map_option ((+) (0 :: nat)) x = x"
  by (cases x) simp_all

lemma find_sync_none_append:
  assumes "find_sync a = None" "2 \<le> length a"
  shows "find_sync (a @ b) = map_option ((+) (length a - 2)) (find_sync (drop (length a - 2) a @ b))"
  using assms
proof (induction a rule: find_sync.induct)
  case (1 x y z r)
  then have ih: "find_sync ((y # z # r) @ b) =
      map_option ((+) (length r)) (find_sync (drop (length r) (y # z # r) @ b))"
    by (auto split: if_splits)
  from 1(2) have "\<not> (z = 0xAD \<and> x = 0x01 \<and> is_valid_h2_sequence_byte y)" by (auto split: if_splits)
  with ih show ?case by (auto simp: option.map_comp comp_def)
qed (simp_all add: plus_fun_0)

lemma next_frame_none_rest: "next_frame b = (None, b') \<Longrightarrow> length b' < 60"
  by (auto simp: next_frame_def Let_def split: if_splits option.splits)

lemma drain_none: "next_frame b = (None, b') \<Longrightarrow> drain_frames b = ([], b')"
  by (subst drain_frames.simps) simp

lemma drain_some:
  "next_frame b = (Some f, b') \<Longrightarrow> drain_frames b = (f # fst (drain_frames b'), snd (drain_frames b'))"
  by (subst drain_frames.simps) (simp add: case_prod_beta Let_def)

text \<open>Induction over the caller's loop.\<close>

lemma drain_induct [case_names none some]:
  assumes "\<And>b b'. next_frame b = (None, b') \<Longrightarrow> P b"
    and "\<And>b f b'. next_frame b = (Some f, b') \<Longrightarrow> P b' \<Longrightarrow> P b"
  shows "P b"
proof (induction b rule: measure_induct_rule [where f = length])
  case (less b)
  obtain f b' where n: "next_frame b = (f, b')" by fastforce
  then show ?case
    using assms less next_frame_shorter by (cases f) auto
qed

lemma drain_rest: "length (snd (drain_frames b)) < 60"
  by (induction b rule: drain_induct) (simp_all add: drain_none drain_some next_frame_none_rest)

lemma next_frame_some_append:
  assumes "next_frame a = (Some f, a')"
  shows "next_frame (a @ b) = (Some f, a' @ b)"
proof -
  from assms obtain i where i: "find_sync a = Some i" and l: "\<not> length a - i < 60"
    and f: "f = take 60 (drop i a)" "a' = drop 60 (drop i a)"
    by (auto simp: next_frame_def Let_def split: if_splits option.splits)
  from find_sync_less [OF i] l f find_sync_append [OF i, of b] show ?thesis
    by (simp add: next_frame_def Let_def)
qed

text \<open>What is dropped when no whole frame is there does not matter to what comes later.\<close>

lemma next_frame_none_append:
  assumes "next_frame a = (None, a')"
  shows "next_frame (a @ b) = next_frame (a' @ b)"
proof (cases "length a < 3")
  case True
  with assms show ?thesis by (simp add: next_frame_def)
next
  case False
  show ?thesis
  proof (cases "find_sync a")
    case None
    with assms False have a': "a' = drop (length a - 2) a" by (simp add: next_frame_def)
    note f = find_sync_none_append [OF None, of b, folded a']
    have len: "length a' = 2" using False a' by simp
    have e: "drop (length a - 2 + i) (a @ b) = drop i (drop (length a - 2) (a @ b))" for i
      by (simp add: add.commute)
    have s: "drop (length a - 2) (a @ b) = a' @ b" using a' by simp
    show ?thesis
    proof (cases "b = []")
      case True
      with None False a' show ?thesis by (simp add: next_frame_def)
    next
      case bne: False
      show ?thesis
      proof (cases "find_sync (a' @ b)")
        case None
        have l: "length (a @ b) - 2 = length a - 2 + length b" using False by simp
        have "drop (length (a @ b) - 2) (a @ b) = drop (length (a' @ b) - 2) (a' @ b)"
          unfolding l e s using len by simp
        with None f False len bne show ?thesis by (auto simp: next_frame_def Suc_le_eq)
      next
        case (Some i)
        with f False len bne show ?thesis
          using e [of i] s by (cases b) (auto simp: next_frame_def Let_def)
      qed
    qed
  next
    case (Some i)
    with assms False have a': "a' = drop i a" by (auto simp: next_frame_def Let_def split: if_splits)
    have "3 \<le> length a'" "i \<le> length a" using find_sync_less [OF Some] a' by auto
    with a' False find_sync_append [OF Some, of b] find_sync_drop [OF Some, of b] show ?thesis
      by (simp add: next_frame_def Let_def)
  qed
qed

lemma drain_append:
  "drain_frames (a @ b) =
     (fst (drain_frames a) @ fst (drain_frames (snd (drain_frames a) @ b)),
      snd (drain_frames (snd (drain_frames a) @ b)))"
proof (induction a rule: drain_induct)
  case (none a a')
  have "drain_frames (a @ b) = drain_frames (a' @ b)"
    using next_frame_none_append [OF none, of b] by (subst (1 2) drain_frames.simps) simp
  with none show ?case by (simp add: drain_none)
next
  case (some a f a')
  with next_frame_some_append [OF some(1), of b] show ?case by (simp add: drain_some)
qed

lemma drain_idle: "next_frame (snd (drain_frames b)) = (None, snd (drain_frames b))"
proof (induction b rule: drain_induct)
  case (none b b')
  have "next_frame b' = (None, b')" using next_frame_none_append [OF none, of "[]"] none by simp
  then show ?case by (simp add: drain_none [OF none])
qed (simp add: drain_some)

text \<open>Chunks of up to 540 octets never meet the bound of the buffer.\<close>

lemma receive_chunks_drain:
  assumes "length buffer < 60" "list_all (\<lambda>c. length c \<le> 540) cs" "next_frame buffer = (None, buffer)"
  shows "receive_chunks buffer cs = drain_frames (buffer @ concat cs)"
  using assms
proof (induction cs arbitrary: buffer)
  case Nil
  then show ?case by (simp add: drain_none)
next
  case (Cons c cs)
  let ?d = "drain_frames (buffer @ c)"
  have push: "framer_push buffer c = buffer @ c" using Cons.prems by (simp add: framer_push_def MAX_BUFFERED_def)
  have rest: "length (snd ?d) < 60" by (rule drain_rest)
  have "receive_chunks (snd ?d) cs = drain_frames (snd ?d @ concat cs)"
    using Cons rest drain_idle by simp
  then show ?case
    using drain_append [of "buffer @ c" "concat cs"] by (simp add: push case_prod_beta Let_def)
qed

section \<open>The encoded stream\<close>

fun stream_packets ::
    "'e analysis \<Rightarrow> ('q \<Rightarrow> pcm \<times> 'q) \<Rightarrow> nat \<Rightarrow> 'e H2Encoder \<times> 'q \<Rightarrow>
     bytes list \<times> 'e H2Encoder \<times> 'q" where
  "stream_packets analyse source 0 st = ([], st)"
| "stream_packets analyse source (Suc k) (enc, q) =
     (let (pcm, q') = source q;
          (h2, enc') = encode_packet analyse enc pcm;
          (ps, st') = stream_packets analyse source k (enc', q')
      in (h2 # ps, st'))"

definition is_packet :: "bytes \<Rightarrow> bool" where
  "is_packet p = (length p = 60 \<and> find_sync p = Some 0)"

lemma length_pack_nibbles: "length (pack_nibbles sf) = length sf div 2"
  by (induction sf rule: pack_nibbles.induct) simp_all

lemma assemble_frame_shape:
  assumes "length sf = 8"
  shows "\<exists>r. assemble_frame sf q = 0xAD # r \<and> length r = 56"
  using assms
  by (simp add: assemble_frame_def pack_scale_factors_def length_pack_nibbles write_samples_bits Let_def)

lemma table_valid: "n < 4 \<Longrightarrow> is_valid_h2_sequence_byte (H2_SYNC_BYTE_1 ! n)"
  using nth_mem [of n H2_SYNC_BYTE_1] unfolding sequence_byte_table by (auto simp: H2_SYNC_BYTE_1_def)

lemma and_3_mod: "unat ((x :: u8) AND 0x03) = unat x mod 4"
proof -
  have "x AND 0x03 = take_bit 2 x" by (simp add: take_bit_eq_mask mask_numeral)
  then show ?thesis by (simp add: unsigned_take_bit_eq take_bit_eq_mod unat_mod)
qed

lemma and_3_less: "unat ((x :: u8) AND 0x03) < 4"
  by (simp add: and_3_mod)

lemma encode_packet_packet:
  assumes "\<And>e pcm. length (fst (analyse e pcm)) = 8" "unat (he_seq enc) < 4"
  shows "is_packet (fst (encode_packet analyse enc pcm)) \<and>
    unat (he_seq (snd (encode_packet analyse enc pcm))) < 4"
proof -
  obtain sf q e' where a: "analyse (he_inner enc) pcm = (sf, q, e')" by (metis prod_cases3)
  with assms(1) [of "he_inner enc" pcm] obtain r where "assemble_frame sf q = 0xAD # r" "length r = 56"
    using assemble_frame_shape [of sf q] by auto
  then show ?thesis
    using table_valid [OF assms(2)] and_3_less
    by (simp add: encode_packet_def msbc_encode_def a is_packet_def Let_def)
qed

lemma stream_packets_packets:
  assumes "\<And>e pcm. length (fst (analyse e pcm)) = 8" "unat (he_seq (fst st)) < 4"
  shows "list_all is_packet (fst (stream_packets analyse source k st)) \<and>
    length (fst (stream_packets analyse source k st)) = k"
  using assms(2)
proof (induction k arbitrary: st)
  case (Suc k)
  obtain enc q where st: "st = (enc, q)" by fastforce
  let ?e = "encode_packet analyse enc (fst (source q))"
  note p = encode_packet_packet [where pcm = "fst (source q)", OF assms(1), of enc]
  with Suc.IH [of "(snd ?e, snd (source q))"] Suc.prems st show ?case
    by (simp add: case_prod_beta Let_def)
qed simp

lemma stream_packets_add:
  "stream_packets analyse source (m + k) st =
     (fst (stream_packets analyse source m st) @
        fst (stream_packets analyse source k (snd (stream_packets analyse source m st))),
      snd (stream_packets analyse source k (snd (stream_packets analyse source m st))))"
proof (induction m arbitrary: st)
  case (Suc m)
  then show ?case by (cases st) (simp add: case_prod_beta Let_def)
qed simp

lemma stream_packets_take:
  "m \<le> k \<Longrightarrow> length (fst (stream_packets analyse source m st)) = m \<Longrightarrow>
     take m (fst (stream_packets analyse source k st)) = fst (stream_packets analyse source m st)"
  using stream_packets_add [of analyse source m "k - m" st] by simp

lemma drain_packets:
  "list_all is_packet ps \<Longrightarrow>
     drain_frames (concat ps @ r) = (ps @ fst (drain_frames r), snd (drain_frames r))"
proof (induction ps)
  case (Cons p ps)
  then have "length p = 60" "find_sync (p @ concat ps @ r) = Some 0"
    by (simp_all add: is_packet_def find_sync_append)
  then have "next_frame (p @ concat ps @ r) = (Some p, concat ps @ r)"
    by (simp add: next_frame_def Let_def)
  with Cons show ?case by (simp add: drain_some)
qed simp

lemma drain_short: "length r < 60 \<Longrightarrow> fst (drain_frames r) = []"
proof (induction r rule: drain_induct)
  case (some b f b')
  then show ?case by (auto simp: next_frame_def Let_def split: if_splits option.splits)
qed (simp add: drain_none)

lemma length_concat_packets: "list_all is_packet qs \<Longrightarrow> length (concat qs) = 60 * length qs"
  by (induction qs) (simp_all add: is_packet_def)

text \<open>A prefix of the stream yields its whole packets.\<close>

lemma take_concat_packets:
  assumes "list_all is_packet ps" "n \<le> 60 * length ps"
  shows "fst (drain_frames (take n (concat ps))) = take (n div 60) ps"
proof -
  let ?m = "n div 60" and ?r = "n mod 60"
  have m: "?m \<le> length ps" using assms(2) by linarith
  have pk: "list_all is_packet (take ?m ps)"
    using assms(1) by (auto simp: list_all_iff dest: in_set_takeD)
  have n: "n = 60 * ?m + ?r" by simp
  have l: "length (concat (take ?m ps)) = 60 * ?m" using length_concat_packets [OF pk] m by simp
  have c: "concat ps = concat (take ?m ps) @ concat (drop ?m ps)"
    by (metis append_take_drop_id concat_append)
  have "take n (concat ps) = concat (take ?m ps) @ take ?r (concat (drop ?m ps))"
  proof -
    have "n - 60 * ?m = ?r" "60 * ?m \<le> n" using n by linarith+
    with l show ?thesis by (subst c) (simp add: take_append)
  qed
  moreover have "length (take ?r (concat (drop ?m ps))) < 60"
    using mod_less_divisor [of 60 n] by (simp add: min.strict_coboundedI2)
  ultimately show ?thesis using drain_packets [OF pk] drain_short by simp
qed

section \<open>The packager\<close>

lemma pop_fill_stream:
  "\<exists>k. pop_fill analyse source n p =
       p\<lparr>sp_encoder := fst (snd (stream_packets analyse source k (sp_encoder p, sp_source p))),
         sp_pending := sp_pending p @ concat (fst (stream_packets analyse source k (sp_encoder p, sp_source p))),
         sp_source := snd (snd (stream_packets analyse source k (sp_encoder p, sp_source p)))\<rparr> \<and>
     n \<le> length (sp_pending (pop_fill analyse source n p))"
proof (induction analyse source n p rule: pop_fill.induct)
  case (1 analyse source n p)
  show ?case
  proof (cases "length (sp_pending p) < n")
    case False
    then show ?thesis by (intro exI [of _ 0]) (simp add: pop_fill.simps)
  next
    case True
    obtain pcm q where s: "source (sp_source p) = (pcm, q)" by fastforce
    obtain h2 enc where e: "encode_packet analyse (sp_encoder p) pcm = (h2, enc)" by fastforce
    let ?p = "p\<lparr>sp_encoder := enc, sp_pending := sp_pending p @ h2, sp_source := q\<rparr>"
    have f: "pop_fill analyse source n p = pop_fill analyse source n ?p"
      using True s e by (subst pop_fill.simps) simp
    from 1 [OF True s [symmetric] refl e [symmetric] refl] obtain k where
      k: "pop_fill analyse source n ?p =
        ?p\<lparr>sp_encoder := fst (snd (stream_packets analyse source k (enc, q))),
          sp_pending := sp_pending ?p @ concat (fst (stream_packets analyse source k (enc, q))),
          sp_source := snd (snd (stream_packets analyse source k (enc, q)))\<rparr>"
        "n \<le> length (sp_pending (pop_fill analyse source n ?p))" by auto
    show ?thesis
      unfolding f using k s e
      by (intro exI [of _ "Suc k"]) (simp add: case_prod_beta Let_def)
  qed
qed

fun pop_all ::
    "'e analysis \<Rightarrow> ('q \<Rightarrow> pcm \<times> 'q) \<Rightarrow> nat list \<Rightarrow> ('e, 'q) packager \<Rightarrow> bytes list \<times> ('e, 'q) packager" where
  "pop_all analyse source [] p = ([], p)"
| "pop_all analyse source (n # ns) p =
     (let (out, p1) = pop_bytes analyse source n p; (outs, p2) = pop_all analyse source ns p1
      in (out # outs, p2))"

lemma pop_all_stream:
  "\<exists>k. concat (fst (pop_all analyse source ns p)) @ sp_pending (snd (pop_all analyse source ns p)) =
       sp_pending p @ concat (fst (stream_packets analyse source k (sp_encoder p, sp_source p))) \<and>
     map length (fst (pop_all analyse source ns p)) = ns \<and>
     (sp_encoder (snd (pop_all analyse source ns p)), sp_source (snd (pop_all analyse source ns p))) =
       snd (stream_packets analyse source k (sp_encoder p, sp_source p))"
proof (induction ns arbitrary: p)
  case Nil
  show ?case by (intro exI [of _ 0]) simp
next
  case (Cons n ns)
  obtain k where f: "pop_fill analyse source n p =
       p\<lparr>sp_encoder := fst (snd (stream_packets analyse source k (sp_encoder p, sp_source p))),
         sp_pending := sp_pending p @ concat (fst (stream_packets analyse source k (sp_encoder p, sp_source p))),
         sp_source := snd (snd (stream_packets analyse source k (sp_encoder p, sp_source p)))\<rparr>"
    "n \<le> length (sp_pending (pop_fill analyse source n p))"
    using pop_fill_stream by blast
  define pend where "pend = sp_pending p @ concat (fst (stream_packets analyse source k (sp_encoder p, sp_source p)))"
  define p1 where "p1 = snd (pop_bytes analyse source n p)"
  have out: "fst (pop_bytes analyse source n p) = take n pend" "n \<le> length pend"
    and p1: "sp_pending p1 = drop n pend"
      "(sp_encoder p1, sp_source p1) = snd (stream_packets analyse source k (sp_encoder p, sp_source p))"
    using f by (simp_all add: pop_bytes_def Let_def p1_def pend_def)
  obtain j where j: "concat (fst (pop_all analyse source ns p1)) @ sp_pending (snd (pop_all analyse source ns p1)) =
       sp_pending p1 @ concat (fst (stream_packets analyse source j (sp_encoder p1, sp_source p1)))"
     "map length (fst (pop_all analyse source ns p1)) = ns"
     "(sp_encoder (snd (pop_all analyse source ns p1)), sp_source (snd (pop_all analyse source ns p1))) =
       snd (stream_packets analyse source j (sp_encoder p1, sp_source p1))"
    using Cons.IH by blast
  have "take n pend @ sp_pending p1 = pend" by (simp add: p1)
  with j out p1 show ?case
    by (intro exI [of _ "k + j"])
      (simp add: case_prod_beta Let_def p1_def [symmetric] stream_packets_add pend_def)
qed


section \<open>Header rotation and loss count\<close>

lemma encode_packet_header:
  assumes "unat (he_seq enc) < 4"
  shows "fst (encode_packet analyse enc pcm) ! 0 = 0x01 \<and>
    fst (encode_packet analyse enc pcm) ! 1 = H2_SYNC_BYTE_1 ! unat (he_seq enc) \<and>
    unat (he_seq (snd (encode_packet analyse enc pcm))) = (unat (he_seq enc) + 1) mod 4"
proof -
  have "unat (he_seq enc + 1) = unat (he_seq enc) + 1" using assms by (simp add: unat_word_ariths)
  then show ?thesis by (simp add: encode_packet_def case_prod_beta Let_def and_3_mod)
qed

lemma stream_header:
  assumes "unat (he_seq (fst st)) < 4" "i < k"
  shows "fst (stream_packets analyse source k st) ! i ! 0 = 0x01 \<and>
    fst (stream_packets analyse source k st) ! i ! 1 = H2_SYNC_BYTE_1 ! ((unat (he_seq (fst st)) + i) mod 4)"
  using assms
proof (induction k arbitrary: st i)
  case (Suc k)
  obtain enc q where st: "st = (enc, q)" by fastforce
  let ?e = "encode_packet analyse enc (fst (source q))"
  have h: "fst ?e ! 0 = 0x01 \<and> fst ?e ! 1 = H2_SYNC_BYTE_1 ! unat (he_seq enc) \<and>
      unat (he_seq (snd ?e)) = (unat (he_seq enc) + 1) mod 4"
    using Suc.prems st encode_packet_header [of enc analyse "fst (source q)"] by simp
  show ?case
  proof (cases i)
    case 0
    with h st Suc.prems show ?thesis by (simp add: case_prod_beta Let_def)
  next
    case (Suc j)
    have "((unat (he_seq enc) + 1) mod 4 + j) mod 4 = (unat (he_seq enc) + Suc j) mod 4"
      by (simp add: mod_simps)
    with Suc h st Suc.prems Suc.IH [of "(snd ?e, snd (source q))" j] show ?thesis
      by (simp add: case_prod_beta Let_def)
  qed
qed simp

lemma position_table: "n < 4 \<Longrightarrow> position H2_SYNC_BYTE_1 (H2_SYNC_BYTE_1 ! n) = Some n"
proof -
  assume "n < 4"
  then consider "n = 0" | "n = 1" | "n = 2" | "n = 3" by linarith
  then show ?thesis by cases (simp_all add: H2_SYNC_BYTE_1_def)
qed

lemma decode_packet_tracks:
  assumes "p ! 0 = 0x01" "p ! 1 = H2_SYNC_BYTE_1 ! n" "n < 4"
  shows "hd_expected_seq (snd (decode_packet synth dec p)) = Some ((word_of_nat n + 1) AND 0x03) \<and>
    hd_last_gap (snd (decode_packet synth dec p)) =
      (case hd_expected_seq dec of None \<Rightarrow> 0 | Some e \<Rightarrow> (word_of_nat n + 4 - e) AND 3)"
  using assms position_table [OF assms(3)]
  by (simp add: decode_packet_def Let_def case_prod_beta split: sum.split)

lemma conceal_lost_length [simp]: "length (conceal_lost dec n) = unat n"
  by (simp add: conceal_lost_def split: option.split)

lemma decode_packet_report:
  assumes "p ! 0 = 0x01" "p ! 1 = H2_SYNC_BYTE_1 ! n" "n < 4"
  shows "case fst (decode_packet synth dec p) of
      Inl e \<Rightarrow> e \<in> range Codec
    | Inr d \<Rightarrow> h2_gap d = hd_last_gap (snd (decode_packet synth dec p)) \<and>
        length (h2_conceal d) = unat (h2_gap d) \<and> h2_lost d = (h2_gap d > 0)"
  using assms position_table [OF assms(3)]
  by (auto simp add: decode_packet_def Let_def case_prod_beta word_gt_0 split: sum.split)

lemma gap_word:
  fixes a b :: nat
  assumes "a < 4" "b < 4"
  shows "unat ((word_of_nat b + 4 - ((word_of_nat a + 1) AND 0x03) :: u8) AND 3) = (b + 3 - a) mod 4"
proof -
  have "a = 0 \<or> a = 1 \<or> a = 2 \<or> a = 3" "b = 0 \<or> b = 1 \<or> b = 2 \<or> b = 3" using assms by linarith+
  then show ?thesis by (elim disjE) simp_all
qed

lemma gap_mod:
  fixes a n :: nat
  shows "((a + n + 1) mod 4 + 3 - a mod 4) mod 4 = n mod 4"
proof -
  have m: "(a + n + 1) mod 4 = (a mod 4 + n mod 4 + 1) mod 4"
    by (metis mod_add_eq mod_add_left_eq)
  have "a mod 4 = 0 \<or> a mod 4 = 1 \<or> a mod 4 = 2 \<or> a mod 4 = 3"
    "n mod 4 = 0 \<or> n mod 4 = 1 \<or> n mod 4 = 2 \<or> n mod 4 = 3" by linarith+
  then show ?thesis unfolding m by (elim disjE) (simp_all only:, simp_all)
qed

section \<open>Properties\<close>

text \<open>The nibble test of \<open>is_valid_h2_sequence_byte\<close> accepts exactly
  the four octets the encoder rotates through, and the encoder's counter never leaves them.\<close>

theorem h2_sequence_byte_exact:
  "(is_valid_h2_sequence_byte b = (b \<in> set H2_SYNC_BYTE_1)) \<and>
   unat (he_seq (snd (encode_packet analyse enc pcm))) < 4"
  using and_3_less by (simp add: sequence_byte_table encode_packet_def case_prod_beta Let_def)

text \<open>C40: whatever sizes (up to 540 octets) the SCO payloads have, cutting the
  encoded stream with \<open>pop_bytes\<close> and feeding the pieces to \<open>MsbcStreamFramer\<close> one by one gives
  back exactly the packets the encoder produced, in order, as many as were transferred whole.\<close>

theorem h2_stream_recovered:
  assumes "\<And>e pcm. length (fst (analyse e pcm)) = 8" "unat (he_seq (sp_encoder p)) < 4"
    and "sp_pending p = []" "list_all (\<lambda>n. n \<le> 540) ns"
  shows "fst (receive_chunks [] (fst (pop_all analyse source ns p))) =
    fst (stream_packets analyse source (sum_list ns div 60) (sp_encoder p, sp_source p))"
proof -
  let ?out = "fst (pop_all analyse source ns p)"
  let ?ps = "\<lambda>k. fst (stream_packets analyse source k (sp_encoder p, sp_source p))"
  obtain k where k: "concat ?out @ sp_pending (snd (pop_all analyse source ns p)) = concat (?ps k)"
    and len: "map length ?out = ns"
    using pop_all_stream [of analyse source ns p] assms(3) by auto
  have ps: "list_all is_packet (?ps j)" "length (?ps j) = j" for j
    using stream_packets_packets [where st = "(sp_encoder p, sp_source p)", OF assms(1)] assms(2) by auto
  have n: "length (concat ?out) = sum_list ns" by (simp add: length_concat len)
  have c: "concat ?out = take (sum_list ns) (concat (?ps k))"
    by (metis k n append_eq_conv_conj)
  have "length (concat (?ps k)) = 60 * k"
    using length_concat_packets [OF ps(1)] ps(2) by simp
  with k n have le: "sum_list ns \<le> 60 * k" by (metis length_append le_add1)
  have small: "list_all (\<lambda>c. length c \<le> 540) ?out"
    using assms(4) len by (metis (mono_tags, lifting) list.pred_map list_all_cong comp_apply)
  have "receive_chunks [] ?out = drain_frames (concat ?out)"
    using receive_chunks_drain [OF _ small] by (simp add: next_frame_def)
  with take_concat_packets [OF ps(1), of "sum_list ns" k] le ps(2)
  have "fst (receive_chunks [] ?out) = take (sum_list ns div 60) (?ps k)" by (simp add: c)
  also have "\<dots> = ?ps (sum_list ns div 60)"
    using le ps(2) by (intro stream_packets_take) auto
  finally show ?thesis .
qed

theorem h2_stream_recovered_witness:
  "fst (receive_chunks [] (fst (pop_all (\<lambda>e pcm. (replicate 8 5, replicate 120 3, e)) (\<lambda>q. (replicate 120 q, q + 1))
      [48, 48, 48, 10] \<lparr>sp_encoder = \<lparr>he_inner = (), he_seq = 3\<rparr>, sp_pending = [], sp_source = 7\<rparr>))) =
   fst (stream_packets (\<lambda>e pcm. (replicate 8 5, replicate 120 3, e)) (\<lambda>q. (replicate 120 q, q + 1)) 2
      (\<lparr>he_inner = (), he_seq = 3\<rparr>, 7))"
  using h2_stream_recovered [of "\<lambda>e pcm. (replicate 8 5, replicate 120 3, e)"
    "\<lparr>sp_encoder = \<lparr>he_inner = (), he_seq = 3\<rparr>, sp_pending = [], sp_source = 7\<rparr>" "[48, 48, 48, 10]"
    "\<lambda>q. (replicate 120 q, q + 1)"]
  by simp

text \<open>The report on packet \<open>i + n + 1\<close> of a stream by a decoder whose last packet was packet \<open>i\<close>.\<close>

definition decode_after_loss ::
    "'d synthesis \<Rightarrow> bytes list \<Rightarrow> nat \<Rightarrow> nat \<Rightarrow> 'd H2Decoder \<Rightarrow> (H2DecodeError + DecodedH2) \<times> 'd H2Decoder" where
  "decode_after_loss synth ps i n dec =
     decode_packet synth (snd (decode_packet synth dec (ps ! i))) (ps ! (i + n + 1))"

text \<open>When \<open>n\<close> packets of an encoded stream are lost, the decoder that saw
  the packet before the loss reports a gap of \<open>n mod 4\<close> on the packet behind it, whatever state it
  was in and whether or not the codec accepts the frame; a decoded packet carries that many
  concealment frames, and the only possible error is the codec's own.\<close>

theorem h2_gap_counts_losses:
  assumes "unat (he_seq enc) < 4" "i + n + 1 < k"
  shows "unat (hd_last_gap (snd (decode_after_loss synth (fst (stream_packets analyse source k (enc, q))) i n dec))) = n mod 4 \<and>
    (case fst (decode_after_loss synth (fst (stream_packets analyse source k (enc, q))) i n dec) of
       Inl e \<Rightarrow> e \<in> range Codec
     | Inr d \<Rightarrow> unat (h2_gap d) = n mod 4 \<and> length (h2_conceal d) = n mod 4 \<and> h2_lost d = (n mod 4 \<noteq> 0))"
proof -
  let ?s = "unat (he_seq enc)" and ?p = "fst (stream_packets analyse source k (enc, q))"
  let ?d = "snd (decode_packet synth dec (?p ! i))"
  have i: "?p ! i ! 0 = 0x01" "?p ! i ! 1 = H2_SYNC_BYTE_1 ! ((?s + i) mod 4)"
    using stream_header [of "(enc, q)" i k] assms by simp_all
  have j: "?p ! (i + n + 1) ! 0 = 0x01" "?p ! (i + n + 1) ! 1 = H2_SYNC_BYTE_1 ! ((?s + (i + n + 1)) mod 4)"
    using stream_header [of "(enc, q)" "i + n + 1" k] assms by simp_all
  have e: "hd_expected_seq ?d = Some ((word_of_nat ((?s + i) mod 4) + 1) AND 0x03)"
    using decode_packet_tracks [OF i, of synth dec] by simp
  have "((?s + (i + n + 1)) mod 4 + 3 - (?s + i) mod 4) mod 4 = n mod 4"
    using gap_mod [of "?s + i" n] by (simp add: add.assoc)
  then have g: "unat (hd_last_gap (snd (decode_after_loss synth ?p i n dec))) = n mod 4"
    using decode_packet_tracks [OF j, of synth ?d] e gap_word [of "(?s + i) mod 4" "(?s + (i + n + 1)) mod 4"]
    by (simp add: decode_after_loss_def)
  have "h > 0 \<longleftrightarrow> unat h \<noteq> 0" for h :: u8 by (simp add: word_gt_0 unat_eq_0)
  with g decode_packet_report [OF j, of synth ?d] show ?thesis
    by (auto simp: decode_after_loss_def split: sum.splits)
qed

theorem h2_gap_counts_losses_witness:
  "unat (hd_last_gap (snd (decode_after_loss (\<lambda>d sf q. (replicate 120 1, d))
     (fst (stream_packets (\<lambda>e pcm. (replicate 8 5, replicate 120 3, e)) (\<lambda>q. (replicate 120 q, q + 1)) 5
        (\<lparr>he_inner = (), he_seq = 2\<rparr>, 7))) 1 2
     \<lparr>hd_inner = (), hd_expected_seq = None, hd_last_gap = 0, hd_last_pcm = None\<rparr>))) = 2"
  using h2_gap_counts_losses [of "\<lparr>he_inner = (), he_seq = 2\<rparr>" 1 2 5 "\<lambda>d sf q. (replicate 120 1, d)"
     "\<lambda>e pcm. (replicate 8 5, replicate 120 3, e)" "\<lambda>q. (replicate 120 q, q + 1)"
     7 "\<lparr>hd_inner = (), hd_expected_seq = None, hd_last_gap = 0, hd_last_pcm = None\<rparr>"]
  by simp

end
