(* ===== verification/Rust_Text.thy ===== *)
theory Rust_Text
  imports Rust_Str
begin

text \<open>
  More of Rust's text handling: the UTF-8 encoding of a \<open>String\<close> (\<open>as_bytes\<close>), \<open>String::from_utf8_lossy\<close>,
  hexadecimal formatting and \<open>from_str_radix\<close>, and the searches on text that the profile formats use.
\<close>

section \<open>UTF-8\<close>

definition octet :: "nat \<Rightarrow> u8" where "octet n = word_of_nat n"

lemma unat_octet [simp]: "n < 256 \<Longrightarrow> unat (octet n) = n"
  by (simp add: octet_def unat_of_nat)

lemma octet_cmp:
  "n < 256 \<Longrightarrow> k < 256 \<Longrightarrow> octet n \<le> octet k \<longleftrightarrow> n \<le> k"
  "n < 256 \<Longrightarrow> k < 256 \<Longrightarrow> octet n < octet k \<longleftrightarrow> n < k"
  "n < 256 \<Longrightarrow> k < 256 \<Longrightarrow> octet n = octet k \<longleftrightarrow> n = k"
  by (simp_all add: word_le_nat_alt word_less_nat_alt word_unat_eq_iff)

definition utf8_char :: "nat \<Rightarrow> bytes" where
  "utf8_char c =
     (if c < 0x80 then [octet c]
      else if c < 0x800 then [octet (0xC0 + c div 64), octet (0x80 + c mod 64)]
      else if c < 0x10000 then
        [octet (0xE0 + c div 4096), octet (0x80 + c div 64 mod 64), octet (0x80 + c mod 64)]
      else [octet (0xF0 + c div 262144), octet (0x80 + c div 4096 mod 64), octet (0x80 + c div 64 mod 64),
            octet (0x80 + c mod 64)])"

definition utf8_encode :: "rstr \<Rightarrow> bytes" where
  "utf8_encode s = concat (map utf8_char s)"

lemma utf8_encode_simps [simp]:
  "utf8_encode [] = []" "utf8_encode (c # s) = utf8_char c @ utf8_encode s"
  "utf8_encode (s @ t) = utf8_encode s @ utf8_encode t"
  by (simp_all add: utf8_encode_def)

lemma length_utf8_char: "length (utf8_char c) = utf8_len c"
  by (simp add: utf8_char_def utf8_len_def)

lemma length_utf8_encode: "length (utf8_encode s) = str_len s"
  by (induction s) (simp_all add: str_len_def length_utf8_char)

lemma utf8_cont_octet: "n < 64 \<Longrightarrow> utf8_cont (octet (128 + n)) \<and> cont_bits (octet (128 + n)) = n"
  by (simp add: utf8_cont_def cont_bits_def word_le_nat_alt)

lemma utf8_step_2:
  assumes "2 \<le> a" "a < 32" "b < 64"
  shows "utf8_step (octet (192 + a) # octet (128 + b) # r) = Some (a * 64 + b, r)"
  using assms utf8_cont_octet [of b] by (simp add: word_le_nat_alt word_less_nat_alt)

lemma utf8_step_3:
  assumes "a < 16" "b < 64" "c < 64" "a = 0 \<Longrightarrow> 32 \<le> b" "a = 13 \<Longrightarrow> b < 32"
  shows "utf8_step (octet (224 + a) # octet (128 + b) # octet (128 + c) # r) = Some (a * 4096 + b * 64 + c, r)"
proof -
  have "utf8_second (octet (224 + a)) (octet (128 + b))"
    using assms utf8_cont_octet [of b]
    by (auto simp: utf8_second_def word_le_nat_alt word_unat_eq_iff)
  with assms utf8_cont_octet [of b] utf8_cont_octet [of c] show ?thesis
    by (simp add: word_le_nat_alt word_less_nat_alt)
qed

lemma utf8_step_4:
  assumes "a < 5" "b < 64" "c < 64" "d < 64" "a = 0 \<Longrightarrow> 16 \<le> b" "a = 4 \<Longrightarrow> b < 16"
  shows "utf8_step (octet (240 + a) # octet (128 + b) # octet (128 + c) # octet (128 + d) # r) =
     Some (a * 262144 + b * 4096 + c * 64 + d, r)"
proof -
  have "utf8_second (octet (240 + a)) (octet (128 + b))"
    using assms utf8_cont_octet [of b]
    by (auto simp: utf8_second_def word_le_nat_alt word_unat_eq_iff)
  with assms utf8_cont_octet [of b] utf8_cont_octet [of c] utf8_cont_octet [of d] show ?thesis
    by (simp add: word_le_nat_alt word_less_nat_alt)
qed

lemma base64_split:
  "(c :: nat) = c div 64 * 64 + c mod 64"
  "c = c div 4096 * 4096 + c div 64 mod 64 * 64 + c mod 64"
  "c = c div 262144 * 262144 + c div 4096 mod 64 * 4096 + c div 64 mod 64 * 64 + c mod 64"
proof -
  show 1: "c = c div 64 * 64 + c mod 64" by simp
  have d: "c div 64 div 64 = c div 4096" "c div 4096 div 64 = c div 262144" by (simp_all add: div_mult2_eq [symmetric])
  have 2: "c div 64 = c div 4096 * 64 + c div 64 mod 64" using d by (metis div_mult_mod_eq)
  with 1 show "c = c div 4096 * 4096 + c div 64 mod 64 * 64 + c mod 64" by linarith
  moreover have "c div 4096 = c div 262144 * 64 + c div 4096 mod 64" using d by (metis div_mult_mod_eq)
  ultimately show "c = c div 262144 * 262144 + c div 4096 mod 64 * 4096 + c div 64 mod 64 * 64 + c mod 64"
    by linarith
qed

lemma utf8_step_char:
  assumes "scalar_value c"
  shows "utf8_step (utf8_char c @ r) = Some (c, r)"
proof -
  consider "c < 0x80" | "0x80 \<le> c" "c < 0x800" | "0x800 \<le> c" "c < 0x10000" | "0x10000 \<le> c" by linarith
  then show ?thesis
  proof cases
    case 1
    then show ?thesis by (simp add: utf8_char_def word_less_nat_alt)
  next
    case 2
    then have "2 \<le> c div 64" "c div 64 < 32" by (simp_all add: div_less_iff_less_mult less_eq_div_iff_mult_less_eq)
    with 2 utf8_step_2 [of "c div 64" "c mod 64" r] show ?thesis by (simp add: utf8_char_def)
  next
    case 3
    have a: "c div 4096 < 16" using 3 by (simp add: div_less_iff_less_mult)
    have low: "32 \<le> c div 64 mod 64" if "c div 4096 = 0"
      using 3 base64_split(2) [of c] that by (simp add: less_eq_div_iff_mult_less_eq)
    have high: "c div 64 mod 64 < 32" if "c div 4096 = 13"
    proof (rule ccontr)
      assume "\<not> ?thesis"
      with base64_split(2) [of c] that have "55296 \<le> c" by linarith
      moreover have "c < 57344"
        using base64_split(2) [of c] that mod_less_divisor [of 64 "c div 64"] mod_less_divisor [of 64 c] by linarith
      ultimately show False using assms by (simp add: scalar_value_def)
    qed
    from utf8_step_3 [OF a _ _ low high, of "c mod 64" r] 3 base64_split(2) [of c] show ?thesis
      by (simp add: utf8_char_def)
  next
    case 4
    have c: "c < 0x110000" using assms 4 by (auto simp: scalar_value_def)
    then have a: "c div 262144 < 5" by (simp add: div_less_iff_less_mult)
    have low: "16 \<le> c div 4096 mod 64" if "c div 262144 = 0"
      using 4 base64_split(3) [of c] that by linarith
    have high: "c div 4096 mod 64 < 16" if "c div 262144 = 4"
      using c base64_split(3) [of c] that by linarith
    from utf8_step_4 [OF a _ _ _ low high, of "c div 64 mod 64" "c mod 64" r] 4 base64_split(3) [of c] show ?thesis
      by (simp add: utf8_char_def)
  qed
qed

lemma utf8_char_not_Nil [simp]: "utf8_char c \<noteq> []"
  by (simp add: utf8_char_def)

lemma utf8_roundtrip: "list_all scalar_value s \<Longrightarrow> utf8_decode (utf8_encode s) = Some s"
  by (induction s) (simp_all add: utf8_decode_step [OF utf8_step_char])

text \<open>How many octets of an unreadable beginning are replaced by one replacement character: as many as begin
  a character, and at least one.\<close>

definition utf8_bad_len :: "bytes \<Rightarrow> nat" where
  "utf8_bad_len bs =
     (case bs of
        b0 # b1 # rest \<Rightarrow>
          if 0xE0 \<le> b0 \<and> b0 \<le> 0xEF then (if utf8_second b0 b1 then 2 else 1)
          else if 0xF0 \<le> b0 \<and> b0 \<le> 0xF4 then
            (if utf8_second b0 b1
             then (case rest of b2 # _ \<Rightarrow> if utf8_cont b2 then 3 else 2 | [] \<Rightarrow> 2) else 1)
          else 1
      | _ \<Rightarrow> 1)"

lemma utf8_bad_len_pos [simp]: "0 < utf8_bad_len bs"
  by (auto simp: utf8_bad_len_def split: list.split)

function utf8_lossy :: "bytes \<Rightarrow> rstr" where
  "utf8_lossy bs =
     (if bs = [] then []
      else case utf8_step bs of
        Some (c, r) \<Rightarrow> c # utf8_lossy r
      | None \<Rightarrow> 0xFFFD # utf8_lossy (drop (utf8_bad_len bs) bs))"
  by pat_completeness auto
termination
  by (relation "measure length") (auto dest: utf8_step_shorter)

declare utf8_lossy.simps [simp del]

lemma utf8_lossy_decode: "utf8_decode bs = Some s \<Longrightarrow> utf8_lossy bs = s"
proof (induction bs arbitrary: s rule: utf8_decode.induct)
  case (1 bs)
  then show ?case
    by (cases "bs = []")
      (auto simp: utf8_lossy.simps [of bs] utf8_lossy.simps [of "[]"] utf8_decode.simps [of bs] split: option.splits)
qed

section \<open>Hexadecimal\<close>

definition hex_char :: "bool \<Rightarrow> nat \<Rightarrow> nat" where
  "hex_char upper n = (if n < 10 then 48 + n else if upper then 55 + n else 87 + n)"

text \<open>\<open>{:02X}\<close> and \<open>{:02x}\<close> of an octet.\<close>

definition hex2 :: "bool \<Rightarrow> u8 \<Rightarrow> rstr" where
  "hex2 upper b = [hex_char upper (unat b div 16), hex_char upper (unat b mod 16)]"

definition hex_value :: "nat \<Rightarrow> nat option" where
  "hex_value c =
     (if 48 \<le> c \<and> c \<le> 57 then Some (c - 48)
      else if 65 \<le> c \<and> c \<le> 70 then Some (c - 55)
      else if 97 \<le> c \<and> c \<le> 102 then Some (c - 87)
      else None)"

fun hex_digits_value :: "nat \<Rightarrow> rstr \<Rightarrow> nat option" where
  "hex_digits_value acc [] = Some acc"
| "hex_digits_value acc (c # s) = (case hex_value c of None \<Rightarrow> None | Some v \<Rightarrow> hex_digits_value (acc * 16 + v) s)"

text \<open>\<open>u8::from_str_radix(s, 16)\<close>: an optional plus sign, at least one digit, no overflow.\<close>

definition u8_from_hex :: "rstr \<Rightarrow> u8 option" where
  "u8_from_hex s =
     (let body = (if s \<noteq> [] \<and> hd s = 43 then tl s else s) in
      if body = [] then None else
      case hex_digits_value 0 body of
        None \<Rightarrow> None
      | Some n \<Rightarrow> if n < 256 then Some (word_of_nat n) else None)"

lemma hex_value_char [simp]: "n < 16 \<Longrightarrow> hex_value (hex_char u n) = Some n"
  by (auto simp: hex_value_def hex_char_def)

lemma u8_from_hex_hex2 [simp]: "u8_from_hex (hex2 u b) = Some b"
proof -
  have "unat b div 16 < 16" using u8_less_256 [of b] by (simp add: div_less_iff_less_mult del: u8_less_256)
  moreover have "hex_char u (unat b div 16) \<noteq> 43" by (auto simp: hex_char_def)
  moreover have "unat b div 16 * 16 + unat b mod 16 = unat b" by simp
  ultimately show ?thesis by (simp add: u8_from_hex_def hex2_def)
qed

lemma hex2_no_colon: "58 \<notin> set (hex2 u b)"
  by (auto simp: hex2_def hex_char_def)

section \<open>Splitting\<close>

lemma split_on_first: "sep \<notin> set a \<Longrightarrow> split_on sep (a @ sep # b) = a # split_on sep b"
  by (induction a) (auto split: list.splits)

lemma split_on_single: "sep \<notin> set a \<Longrightarrow> split_on sep a = [a]"
  by (induction a) (auto split: list.splits)

text \<open>\<open>str::split_once\<close> and \<open>str::contains\<close> with a pattern of several characters, the piece between the first
  two occurrences (\<open>split(sep).nth(1)\<close>), and \<open>u32::from_str\<close> on digits.\<close>

fun split_once_str :: "rstr \<Rightarrow> rstr \<Rightarrow> (rstr \<times> rstr) option" where
  "split_once_str sep s =
     (case strip_prefix sep s of
        Some rest \<Rightarrow> Some ([], rest)
      | None \<Rightarrow> (case s of [] \<Rightarrow> None | c # s' \<Rightarrow> map_option (apfst (Cons c)) (split_once_str sep s')))"

declare split_once_str.simps [simp del]

definition contains_str :: "rstr \<Rightarrow> rstr \<Rightarrow> bool" where
  "contains_str needle s = (split_once_str needle s \<noteq> None)"

definition split_str_nth1 :: "rstr \<Rightarrow> rstr \<Rightarrow> rstr option" where
  "split_str_nth1 sep s =
     (case split_once_str sep s of
        None \<Rightarrow> None
      | Some (_, rest) \<Rightarrow> Some (case split_once_str sep rest of Some (piece, _) \<Rightarrow> piece | None \<Rightarrow> rest))"

definition parse_u32_digits :: "rstr \<Rightarrow> nat option" where
  "parse_u32_digits s =
     (if s = [] then None
      else case digits_value 0 s of Some n \<Rightarrow> if n < 4294967296 then Some n else None | None \<Rightarrow> None)"

lemma strip_prefix_Some: "strip_prefix p s = Some r \<longleftrightarrow> s = p @ r"
  by (induction p s rule: strip_prefix.induct) auto

lemma strip_prefix_append [simp]: "strip_prefix p (p @ r) = Some r"
  by (simp add: strip_prefix_Some)

lemma split_once_str_Some: "split_once_str sep s = Some (a, b) \<Longrightarrow> s = a @ sep @ b"
proof (induction s arbitrary: a)
  case Nil
  then show ?case
    by (subst (asm) split_once_str.simps) (auto simp: strip_prefix_Some split: option.splits)
next
  case (Cons c s)
  then show ?case
    by (subst (asm) split_once_str.simps) (auto simp: strip_prefix_Some split: option.splits)
qed

lemma contains_str_iff: "contains_str needle s \<longleftrightarrow> (\<exists>a b. s = a @ needle @ b)"
proof
  assume "contains_str needle s"
  then show "\<exists>a b. s = a @ needle @ b" by (auto simp: contains_str_def dest: split_once_str_Some)
next
  assume "\<exists>a b. s = a @ needle @ b"
  then obtain a b where "s = a @ needle @ b" by blast
  moreover have "split_once_str needle (a @ needle @ b) \<noteq> None"
  proof (induction a)
    case Nil
    show ?case by (subst split_once_str.simps) simp
  next
    case (Cons c a)
    then show ?case by (subst split_once_str.simps) (auto split: option.split)
  qed
  ultimately show "contains_str needle s" by (simp add: contains_str_def)
qed

section \<open>Lines and characters\<close>

definition to_ascii_uppercase :: "nat \<Rightarrow> nat" where
  "to_ascii_uppercase c = (if 97 \<le> c \<and> c \<le> 122 then c - 32 else c)"

definition is_ascii_whitespace :: "nat \<Rightarrow> bool" where
  "is_ascii_whitespace c = (c = 32 \<or> c = 9 \<or> c = 10 \<or> c = 12 \<or> c = 13)"

definition is_control :: "nat \<Rightarrow> bool" where
  "is_control c = (c < 32 \<or> 127 \<le> c \<and> c \<le> 159)"

definition trim_start :: "rstr \<Rightarrow> rstr" where
  "trim_start s = trim_start_matches is_whitespace s"

definition trim_end :: "rstr \<Rightarrow> rstr" where
  "trim_end s = trim_end_matches is_whitespace s"

definition crlf :: rstr where "crlf = [13, 10]"

abbreviation strip_cr :: "rstr \<Rightarrow> rstr" where
  "strip_cr \<equiv> trim_end_matches (\<lambda>c. c = 13)"

text \<open>Text without line breaks.\<close>

definition one_line :: "rstr \<Rightarrow> bool" where
  "one_line s = list_all (\<lambda>c. c \<noteq> 10 \<and> c \<noteq> 13) s"

lemma one_line_simps [simp]:
  "one_line []" "one_line (c # s) \<longleftrightarrow> c \<noteq> 10 \<and> c \<noteq> 13 \<and> one_line s"
  "one_line (s @ t) \<longleftrightarrow> one_line s \<and> one_line t"
  by (auto simp: one_line_def)

lemma split_on_app: "split_on sep (a @ sep # b) = split_on sep a @ split_on sep b"
  by (induction a) (auto split: list.splits)

lemma strip_cr_one_line [simp]: "one_line s \<Longrightarrow> strip_cr (s @ [13]) = s" "one_line s \<Longrightarrow> strip_cr s = s"
proof -
  assume o: "one_line s"
  then have "dropWhile (\<lambda>c. c = 13) (rev s) = rev s"
    by (cases s rule: rev_cases) (auto simp: one_line_def)
  then show "strip_cr (s @ [13]) = s" "strip_cr s = s" by (simp_all add: trim_end_matches_def)
qed

text \<open>A line written with its line break is one line for the readers, whatever follows.\<close>

lemma split_line: "one_line s \<Longrightarrow> map strip_cr (split_on 10 (s @ crlf @ r)) = s # map strip_cr (split_on 10 r)"
proof -
  assume o: "one_line s"
  then have "10 \<notin> set (s @ [13])" by (auto simp: one_line_def list_all_iff)
  from split_on_first [OF this, of r] o show ?thesis by (simp add: crlf_def)
qed

lemma split_lines:
  "list_all one_line ls \<Longrightarrow>
   map strip_cr (split_on 10 (concat (map (\<lambda>l. l @ crlf) ls) @ r)) = ls @ map strip_cr (split_on 10 r)"
  by (induction ls) (simp_all add: split_line)

lemma eq_ignore_ascii_case_refl [simp]: "eq_ignore_ascii_case s s"
  by (simp add: eq_ignore_ascii_case_def)

end
