(* ===== verification/Hci.thy ===== *)
theory Hci
  imports Rust_Text L2cap_Wire
begin

text \<open>
  \<open>aokie_radio/hci.rs\<close>: the commands Aokie sends to its controller and the events and data packets it reads.
  An address is the text the sources pass around; on the wire it is six octets, last one first.
\<close>

section \<open>Constants and types\<close>

abbreviation (input) OPCODE_RESET :: u16 where "OPCODE_RESET \<equiv> 0x0c03"
abbreviation (input) OPCODE_CREATE_CONNECTION :: u16 where "OPCODE_CREATE_CONNECTION \<equiv> 0x0405"
abbreviation (input) OPCODE_DISCONNECT :: u16 where "OPCODE_DISCONNECT \<equiv> 0x0406"
abbreviation (input) OPCODE_REMOTE_NAME_REQUEST :: u16 where "OPCODE_REMOTE_NAME_REQUEST \<equiv> 0x0419"
abbreviation (input) OPCODE_ACCEPT_CONNECTION_REQUEST :: u16 where "OPCODE_ACCEPT_CONNECTION_REQUEST \<equiv> 0x0409"
abbreviation (input) OPCODE_REJECT_CONNECTION_REQUEST :: u16 where "OPCODE_REJECT_CONNECTION_REQUEST \<equiv> 0x040a"
abbreviation (input) OPCODE_ACCEPT_SYNCHRONOUS_CONNECTION_REQUEST :: u16 where "OPCODE_ACCEPT_SYNCHRONOUS_CONNECTION_REQUEST \<equiv> 0x0429"
abbreviation (input) OPCODE_LINK_KEY_REQUEST_REPLY :: u16 where "OPCODE_LINK_KEY_REQUEST_REPLY \<equiv> 0x040b"
abbreviation (input) OPCODE_AUTHENTICATION_REQUESTED :: u16 where "OPCODE_AUTHENTICATION_REQUESTED \<equiv> 0x0411"
abbreviation (input) OPCODE_SET_CONNECTION_ENCRYPTION :: u16 where "OPCODE_SET_CONNECTION_ENCRYPTION \<equiv> 0x0413"
abbreviation (input) OPCODE_LINK_KEY_REQUEST_NEGATIVE_REPLY :: u16 where "OPCODE_LINK_KEY_REQUEST_NEGATIVE_REPLY \<equiv> 0x040c"
abbreviation (input) OPCODE_PIN_CODE_REQUEST_REPLY :: u16 where "OPCODE_PIN_CODE_REQUEST_REPLY \<equiv> 0x040d"
abbreviation (input) OPCODE_PIN_CODE_REQUEST_NEGATIVE_REPLY :: u16 where "OPCODE_PIN_CODE_REQUEST_NEGATIVE_REPLY \<equiv> 0x040e"
abbreviation (input) OPCODE_IO_CAPABILITY_REQUEST_REPLY :: u16 where "OPCODE_IO_CAPABILITY_REQUEST_REPLY \<equiv> 0x042b"
abbreviation (input) OPCODE_USER_CONFIRMATION_REQUEST_REPLY :: u16 where "OPCODE_USER_CONFIRMATION_REQUEST_REPLY \<equiv> 0x042c"
abbreviation (input) OPCODE_USER_CONFIRMATION_REQUEST_NEGATIVE_REPLY :: u16 where "OPCODE_USER_CONFIRMATION_REQUEST_NEGATIVE_REPLY \<equiv> 0x042d"
abbreviation (input) OPCODE_IO_CAPABILITY_REQUEST_NEGATIVE_REPLY :: u16 where "OPCODE_IO_CAPABILITY_REQUEST_NEGATIVE_REPLY \<equiv> 0x0434"
abbreviation (input) OPCODE_SWITCH_ROLE :: u16 where "OPCODE_SWITCH_ROLE \<equiv> 0x080b"
abbreviation (input) OPCODE_WRITE_DEFAULT_LINK_POLICY_SETTINGS :: u16 where "OPCODE_WRITE_DEFAULT_LINK_POLICY_SETTINGS \<equiv> 0x080f"
abbreviation (input) OPCODE_SET_EVENT_MASK :: u16 where "OPCODE_SET_EVENT_MASK \<equiv> 0x0c01"
abbreviation (input) OPCODE_WRITE_LOCAL_NAME :: u16 where "OPCODE_WRITE_LOCAL_NAME \<equiv> 0x0c13"
abbreviation (input) OPCODE_WRITE_PAGE_TIMEOUT :: u16 where "OPCODE_WRITE_PAGE_TIMEOUT \<equiv> 0x0c18"
abbreviation (input) OPCODE_WRITE_SCAN_ENABLE :: u16 where "OPCODE_WRITE_SCAN_ENABLE \<equiv> 0x0c1a"
abbreviation (input) OPCODE_READ_SCAN_ENABLE :: u16 where "OPCODE_READ_SCAN_ENABLE \<equiv> 0x0c19"
abbreviation (input) OPCODE_WRITE_CLASS_OF_DEVICE :: u16 where "OPCODE_WRITE_CLASS_OF_DEVICE \<equiv> 0x0c24"
abbreviation (input) OPCODE_WRITE_VOICE_SETTING :: u16 where "OPCODE_WRITE_VOICE_SETTING \<equiv> 0x0c26"
abbreviation (input) OPCODE_WRITE_EXTENDED_INQUIRY_RESPONSE :: u16 where "OPCODE_WRITE_EXTENDED_INQUIRY_RESPONSE \<equiv> 0x0c52"
abbreviation (input) OPCODE_WRITE_SIMPLE_PAIRING_MODE :: u16 where "OPCODE_WRITE_SIMPLE_PAIRING_MODE \<equiv> 0x0c56"
abbreviation (input) OPCODE_READ_LOCAL_VERSION_INFORMATION :: u16 where "OPCODE_READ_LOCAL_VERSION_INFORMATION \<equiv> 0x1001"
abbreviation (input) OPCODE_READ_LOCAL_SUPPORTED_FEATURES :: u16 where "OPCODE_READ_LOCAL_SUPPORTED_FEATURES \<equiv> 0x1003"
abbreviation (input) OPCODE_READ_BUFFER_SIZE :: u16 where "OPCODE_READ_BUFFER_SIZE \<equiv> 0x1005"
abbreviation (input) OPCODE_READ_BD_ADDR :: u16 where "OPCODE_READ_BD_ADDR \<equiv> 0x1009"
abbreviation (input) OPCODE_BCM_WRITE_SCO_PCM_INT :: u16 where "OPCODE_BCM_WRITE_SCO_PCM_INT \<equiv> 0xfc1c"
abbreviation (input) BLUETOOTH_COMPANY_ID_BROADCOM :: u16 where "BLUETOOTH_COMPANY_ID_BROADCOM \<equiv> 0x000f"
abbreviation (input) LOCAL_NAME_PARAM_LEN :: nat where "LOCAL_NAME_PARAM_LEN \<equiv> 248"
abbreviation (input) LINK_KEY_LEN :: nat where "LINK_KEY_LEN \<equiv> 16"
abbreviation (input) PIN_CODE_PARAM_LEN :: nat where "PIN_CODE_PARAM_LEN \<equiv> 16"
abbreviation (input) SSP_IO_CAPABILITY_DISPLAY_YES_NO :: u8 where "SSP_IO_CAPABILITY_DISPLAY_YES_NO \<equiv> 0x01"
abbreviation (input) SSP_IO_CAPABILITY_NO_INPUT_NO_OUTPUT :: u8 where "SSP_IO_CAPABILITY_NO_INPUT_NO_OUTPUT \<equiv> 0x03"
abbreviation (input) SSP_OOB_DATA_NOT_PRESENT :: u8 where "SSP_OOB_DATA_NOT_PRESENT \<equiv> 0x00"
abbreviation (input) SSP_AUTHREQ_MITM_NOT_REQUIRED_GENERAL_BONDING :: u8 where "SSP_AUTHREQ_MITM_NOT_REQUIRED_GENERAL_BONDING \<equiv> 0x04"
abbreviation (input) SSP_AUTHREQ_MITM_REQUIRED_GENERAL_BONDING :: u8 where "SSP_AUTHREQ_MITM_REQUIRED_GENERAL_BONDING \<equiv> 0x05"
abbreviation (input) ACCEPT_ROLE_REMAIN_SLAVE :: u8 where "ACCEPT_ROLE_REMAIN_SLAVE \<equiv> 0x01"
abbreviation (input) LINK_TYPE_SCO :: u8 where "LINK_TYPE_SCO \<equiv> 0x00"
abbreviation (input) LINK_TYPE_ACL :: u8 where "LINK_TYPE_ACL \<equiv> 0x01"
abbreviation (input) LINK_TYPE_ESCO :: u8 where "LINK_TYPE_ESCO \<equiv> 0x02"
abbreviation (input) SCO_RETRANSMISSION_EFFORT_POWER_OPTIMIZED :: u8 where "SCO_RETRANSMISSION_EFFORT_POWER_OPTIMIZED \<equiv> 0x00"
abbreviation (input) SCO_RETRANSMISSION_EFFORT_DONT_CARE :: u8 where "SCO_RETRANSMISSION_EFFORT_DONT_CARE \<equiv> 0xff"
abbreviation (input) SCO_PACKET_TYPE_HV1 :: u16 where "SCO_PACKET_TYPE_HV1 \<equiv> 0x0001"
abbreviation (input) SCO_PACKET_TYPE_HV3 :: u16 where "SCO_PACKET_TYPE_HV3 \<equiv> 0x0004"
abbreviation (input) SCO_PACKET_TYPE_EV3 :: u16 where "SCO_PACKET_TYPE_EV3 \<equiv> 0x0008"
abbreviation (input) SCO_PACKET_TYPE_2EV3 :: u16 where "SCO_PACKET_TYPE_2EV3 \<equiv> 0x0040"
abbreviation (input) SCO_PACKET_TYPES_COMMAND_FLIP_MASK :: u16 where "SCO_PACKET_TYPES_COMMAND_FLIP_MASK \<equiv> 0x03c0"
abbreviation (input) EVENT_CONNECTION_COMPLETE :: u8 where "EVENT_CONNECTION_COMPLETE \<equiv> 0x03"
abbreviation (input) EVENT_CONNECTION_REQUEST :: u8 where "EVENT_CONNECTION_REQUEST \<equiv> 0x04"
abbreviation (input) EVENT_DISCONNECTION_COMPLETE :: u8 where "EVENT_DISCONNECTION_COMPLETE \<equiv> 0x05"
abbreviation (input) EVENT_AUTHENTICATION_COMPLETE :: u8 where "EVENT_AUTHENTICATION_COMPLETE \<equiv> 0x06"
abbreviation (input) EVENT_ENCRYPTION_CHANGE :: u8 where "EVENT_ENCRYPTION_CHANGE \<equiv> 0x08"
abbreviation (input) EVENT_REMOTE_NAME_REQUEST_COMPLETE :: u8 where "EVENT_REMOTE_NAME_REQUEST_COMPLETE \<equiv> 0x07"
abbreviation (input) EVENT_COMMAND_COMPLETE :: u8 where "EVENT_COMMAND_COMPLETE \<equiv> 0x0e"
abbreviation (input) EVENT_COMMAND_STATUS :: u8 where "EVENT_COMMAND_STATUS \<equiv> 0x0f"
abbreviation (input) EVENT_HARDWARE_ERROR :: u8 where "EVENT_HARDWARE_ERROR \<equiv> 0x10"
abbreviation (input) EVENT_PIN_CODE_REQUEST :: u8 where "EVENT_PIN_CODE_REQUEST \<equiv> 0x16"
abbreviation (input) EVENT_LINK_KEY_REQUEST :: u8 where "EVENT_LINK_KEY_REQUEST \<equiv> 0x17"
abbreviation (input) EVENT_LINK_KEY_NOTIFICATION :: u8 where "EVENT_LINK_KEY_NOTIFICATION \<equiv> 0x18"
abbreviation (input) EVENT_SYNCHRONOUS_CONNECTION_COMPLETE :: u8 where "EVENT_SYNCHRONOUS_CONNECTION_COMPLETE \<equiv> 0x2c"
abbreviation (input) EVENT_IO_CAPABILITY_REQUEST :: u8 where "EVENT_IO_CAPABILITY_REQUEST \<equiv> 0x31"
abbreviation (input) EVENT_USER_CONFIRMATION_REQUEST :: u8 where "EVENT_USER_CONFIRMATION_REQUEST \<equiv> 0x33"
abbreviation (input) EVENT_SIMPLE_PAIRING_COMPLETE :: u8 where "EVENT_SIMPLE_PAIRING_COMPLETE \<equiv> 0x36"
abbreviation (input) LINK_POLICY_ROLE_SWITCH :: u16 where "LINK_POLICY_ROLE_SWITCH \<equiv> 0x0001"
abbreviation (input) REJECT_LIMITED_RESOURCES :: u8 where "REJECT_LIMITED_RESOURCES \<equiv> 0x0d"
abbreviation (input) EIR_DATA_BYTES :: nat where "EIR_DATA_BYTES \<equiv> 240"
abbreviation (input) AD_TYPE_COMPLETE_LIST_16BIT_UUIDS :: u8 where "AD_TYPE_COMPLETE_LIST_16BIT_UUIDS \<equiv> 0x03"
abbreviation (input) AD_TYPE_SHORTENED_LOCAL_NAME :: u8 where "AD_TYPE_SHORTENED_LOCAL_NAME \<equiv> 0x08"
abbreviation (input) AD_TYPE_COMPLETE_LOCAL_NAME :: u8 where "AD_TYPE_COMPLETE_LOCAL_NAME \<equiv> 0x09"

definition SCO_PACKET_TYPES_HFP_CVSD_SCO_COMMAND :: u16 where
  "SCO_PACKET_TYPES_HFP_CVSD_SCO_COMMAND =
     (SCO_PACKET_TYPE_HV1 OR SCO_PACKET_TYPE_HV3) XOR SCO_PACKET_TYPES_COMMAND_FLIP_MASK"

definition SCO_PACKET_TYPES_HFP_CVSD_ESCO_COMMAND :: u16 where
  "SCO_PACKET_TYPES_HFP_CVSD_ESCO_COMMAND =
     (SCO_PACKET_TYPE_EV3 OR SCO_PACKET_TYPE_2EV3) XOR SCO_PACKET_TYPES_COMMAND_FLIP_MASK"

type_synonym u64 = "64 word"

datatype PacketType = PtCommand | PtAclData | PtScoData | PtEvent

definition packet_type_from_u8 :: "u8 \<Rightarrow> PacketType option" where
  "packet_type_from_u8 v =
     (if v = 0x01 then Some PtCommand else if v = 0x02 then Some PtAclData
      else if v = 0x03 then Some PtScoData else if v = 0x04 then Some PtEvent else None)"

datatype hci_error =
    HciEventShort
  | HciEventTruncated nat nat
  | HciAclShort
  | HciAclTruncated nat nat
  | HciScoShort
  | HciScoTruncated nat nat
  | HciNotCommandComplete u8
  | HciCommandCompleteShort
  | HciWrongOpcode u16 u16
  | HciParamsShort string nat nat
  | HciReturnShort string
  | HciNoStatus string
  | HciFailed string u8
  | AddressTooManyParts rstr
  | AddressPartLength rstr
  | AddressPartHex rstr
  | AddressParts nat
  | PinTooLong nat

datatype HciPacket =
    PacketCommand u16 bytes
  | PacketAcl u16 bytes
  | PacketSco u16 bytes
  | PacketEvent u8 bytes

record LocalVersion =
  lv_hci_version :: u8
  lv_hci_revision :: u16
  lv_lmp_pal_version :: u8
  lv_manufacturer_name :: u16
  lv_lmp_pal_subversion :: u16

record BufferSize =
  bs_acl_data_packet_length :: u16
  bs_sco_data_packet_length :: u8
  bs_total_num_acl_data_packets :: u16
  bs_total_num_sco_data_packets :: u16

text \<open>The fields in the order of the source.\<close>

datatype HciEvent =
    EvCommandComplete u8 u16 bytes
  | EvCommandStatus u8 u8 u16
  | EvConnectionComplete u8 u16 rstr u8 u8
  | EvConnectionRequest rstr u32 u8
  | EvDisconnectionComplete u8 u16 u8
  | EvAuthenticationComplete u8 u16
  | EvEncryptionChange u8 u16 u8
  | EvRemoteNameRequestComplete u8 rstr rstr
  | EvPinCodeRequest rstr
  | EvLinkKeyRequest rstr
  | EvLinkKeyNotification rstr bytes u8
  | EvSynchronousConnectionComplete u8 u16 rstr u8 u8 u8 u16 u16 u8
  | EvIoCapabilityRequest rstr
  | EvUserConfirmationRequest rstr u32
  | EvSimplePairingComplete u8 rstr
  | EvUnknown u8 bytes

fun event_code :: "HciEvent \<Rightarrow> u8" where
  "event_code (EvCommandComplete _ _ _) = EVENT_COMMAND_COMPLETE"
| "event_code (EvCommandStatus _ _ _) = EVENT_COMMAND_STATUS"
| "event_code (EvConnectionComplete _ _ _ _ _) = EVENT_CONNECTION_COMPLETE"
| "event_code (EvConnectionRequest _ _ _) = EVENT_CONNECTION_REQUEST"
| "event_code (EvDisconnectionComplete _ _ _) = EVENT_DISCONNECTION_COMPLETE"
| "event_code (EvAuthenticationComplete _ _) = EVENT_AUTHENTICATION_COMPLETE"
| "event_code (EvEncryptionChange _ _ _) = EVENT_ENCRYPTION_CHANGE"
| "event_code (EvRemoteNameRequestComplete _ _ _) = EVENT_REMOTE_NAME_REQUEST_COMPLETE"
| "event_code (EvPinCodeRequest _) = EVENT_PIN_CODE_REQUEST"
| "event_code (EvLinkKeyRequest _) = EVENT_LINK_KEY_REQUEST"
| "event_code (EvLinkKeyNotification _ _ _) = EVENT_LINK_KEY_NOTIFICATION"
| "event_code (EvSynchronousConnectionComplete _ _ _ _ _ _ _ _ _) = EVENT_SYNCHRONOUS_CONNECTION_COMPLETE"
| "event_code (EvIoCapabilityRequest _) = EVENT_IO_CAPABILITY_REQUEST"
| "event_code (EvUserConfirmationRequest _ _) = EVENT_USER_CONFIRMATION_REQUEST"
| "event_code (EvSimplePairingComplete _ _) = EVENT_SIMPLE_PAIRING_COMPLETE"
| "event_code (EvUnknown c _) = c"

fun event_name :: "HciEvent \<Rightarrow> string" where
  "event_name (EvCommandComplete _ _ _) = ''Command Complete''"
| "event_name (EvCommandStatus _ _ _) = ''Command Status''"
| "event_name (EvConnectionComplete _ _ _ _ _) = ''Connection Complete''"
| "event_name (EvConnectionRequest _ _ _) = ''Connection Request''"
| "event_name (EvDisconnectionComplete _ _ _) = ''Disconnection Complete''"
| "event_name (EvAuthenticationComplete _ _) = ''Authentication Complete''"
| "event_name (EvEncryptionChange _ _ _) = ''Encryption Change''"
| "event_name (EvRemoteNameRequestComplete _ _ _) = ''Remote Name Request Complete''"
| "event_name (EvPinCodeRequest _) = ''PIN Code Request''"
| "event_name (EvLinkKeyRequest _) = ''Link Key Request''"
| "event_name (EvLinkKeyNotification _ _ _) = ''Link Key Notification''"
| "event_name (EvSynchronousConnectionComplete _ _ _ _ _ _ _ _ _) = ''Synchronous Connection Complete''"
| "event_name (EvIoCapabilityRequest _) = ''IO Capability Request''"
| "event_name (EvUserConfirmationRequest _ _) = ''User Confirmation Request''"
| "event_name (EvSimplePairingComplete _ _) = ''Simple Pairing Complete''"
| "event_name (EvUnknown _ _) = ''Unknown''"

section \<open>Addresses\<close>

text \<open>The loop over the parts: the octet of the first part is the last of the result.\<close>

fun bd_addr_parts :: "rstr \<Rightarrow> nat \<Rightarrow> rstr list \<Rightarrow> bytes \<Rightarrow> hci_error + bytes" where
  "bd_addr_parts address index [] out = (if index \<noteq> 6 then Inl (AddressParts index) else Inr out)"
| "bd_addr_parts address index (part # parts) out =
     (if index \<ge> 6 then Inl (AddressTooManyParts address)
      else if str_len part \<noteq> 2 then Inl (AddressPartLength part)
      else case u8_from_hex part of
        None \<Rightarrow> Inl (AddressPartHex part)
      | Some b \<Rightarrow> bd_addr_parts address (index + 1) parts (b # out))"

definition parse_bd_addr :: "rstr \<Rightarrow> hci_error + bytes" where
  "parse_bd_addr address = bd_addr_parts address 0 (split_on 58 address) []"

definition format_bd_addr :: "bytes \<Rightarrow> rstr" where
  "format_bd_addr b =
     hex2 True (b ! 5) @ 58 # hex2 True (b ! 4) @ 58 # hex2 True (b ! 3) @ 58 #
     hex2 True (b ! 2) @ 58 # hex2 True (b ! 1) @ 58 # hex2 True (b ! 0)"

section \<open>Commands\<close>

definition le_bytes :: "nat \<Rightarrow> 'a :: len word \<Rightarrow> bytes" where
  "le_bytes n w = map (\<lambda>i. ucast (drop_bit (8 * i) w)) [0..<n]"

definition command_no_params :: "u16 \<Rightarrow> bytes" where
  "command_no_params opcode = u16_le opcode @ [0]"

text \<open>A command with parameters: opcode, their number, the parameters.\<close>

definition hci_command :: "u16 \<Rightarrow> bytes \<Rightarrow> bytes" where
  "hci_command opcode params = u16_le opcode @ [word_of_nat (length params)] @ params"

definition address_params :: "rstr \<Rightarrow> (bytes \<Rightarrow> bytes) \<Rightarrow> hci_error + bytes" where
  "address_params address f = and_then (parse_bd_addr address) (\<lambda>b. Inr (f b))"

definition address_command :: "u16 \<Rightarrow> rstr \<Rightarrow> hci_error + bytes" where
  "address_command opcode address = address_params address (\<lambda>b. hci_command opcode b)"

definition reset_command :: bytes where "reset_command = command_no_params OPCODE_RESET"
definition read_bd_addr_command :: bytes where "read_bd_addr_command = command_no_params OPCODE_READ_BD_ADDR"
definition read_local_version_information_command :: bytes where
  "read_local_version_information_command = command_no_params OPCODE_READ_LOCAL_VERSION_INFORMATION"
definition read_local_supported_features_command :: bytes where
  "read_local_supported_features_command = command_no_params OPCODE_READ_LOCAL_SUPPORTED_FEATURES"
definition read_buffer_size_command :: bytes where
  "read_buffer_size_command = command_no_params OPCODE_READ_BUFFER_SIZE"
definition read_scan_enable_command :: bytes where
  "read_scan_enable_command = command_no_params OPCODE_READ_SCAN_ENABLE"

definition set_event_mask_command :: "u64 \<Rightarrow> bytes" where
  "set_event_mask_command event_mask = hci_command OPCODE_SET_EVENT_MASK (le_bytes 8 event_mask)"

definition link_key_request_reply_command :: "rstr \<Rightarrow> bytes \<Rightarrow> hci_error + bytes" where
  "link_key_request_reply_command address link_key =
     address_params address (\<lambda>b. hci_command OPCODE_LINK_KEY_REQUEST_REPLY (b @ link_key))"

definition create_connection_command :: "rstr \<Rightarrow> u16 \<Rightarrow> u8 \<Rightarrow> u16 \<Rightarrow> u8 \<Rightarrow> hci_error + bytes" where
  "create_connection_command address packet_type page_scan_repetition_mode clock_offset allow_role_switch =
     address_params address (\<lambda>b. hci_command OPCODE_CREATE_CONNECTION
       (b @ u16_le packet_type @ [page_scan_repetition_mode, 0] @ u16_le clock_offset @ [allow_role_switch]))"

definition remote_name_request_command :: "rstr \<Rightarrow> hci_error + bytes" where
  "remote_name_request_command address =
     address_params address (\<lambda>b. hci_command OPCODE_REMOTE_NAME_REQUEST (b @ [0x01, 0x00] @ u16_le 0))"

definition create_connection_command_for :: "rstr \<Rightarrow> bool \<Rightarrow> hci_error + bytes" where
  "create_connection_command_for address allow_role_switch =
     create_connection_command address 0xCC18 0x01 0x0000 (if allow_role_switch then 1 else 0)"

definition create_connection_command_default :: "rstr \<Rightarrow> hci_error + bytes" where
  "create_connection_command_default address = create_connection_command_for address True"

definition accept_connection_request_command :: "rstr \<Rightarrow> u8 \<Rightarrow> hci_error + bytes" where
  "accept_connection_request_command address role =
     address_params address (\<lambda>b. hci_command OPCODE_ACCEPT_CONNECTION_REQUEST (b @ [role]))"

definition reject_connection_request_command_with_reason :: "rstr \<Rightarrow> u8 \<Rightarrow> hci_error + bytes" where
  "reject_connection_request_command_with_reason address reason =
     address_params address (\<lambda>b. hci_command OPCODE_REJECT_CONNECTION_REQUEST (b @ [reason]))"

definition reject_connection_request_command :: "rstr \<Rightarrow> hci_error + bytes" where
  "reject_connection_request_command address = reject_connection_request_command_with_reason address 0x0F"

definition disconnect_command :: "u16 \<Rightarrow> u8 \<Rightarrow> bytes" where
  "disconnect_command connection_handle reason = hci_command OPCODE_DISCONNECT (u16_le connection_handle @ [reason])"

definition authentication_requested_command :: "u16 \<Rightarrow> bytes" where
  "authentication_requested_command connection_handle =
     hci_command OPCODE_AUTHENTICATION_REQUESTED (u16_le connection_handle)"

definition set_connection_encryption_command :: "u16 \<Rightarrow> bool \<Rightarrow> bytes" where
  "set_connection_encryption_command connection_handle enable =
     hci_command OPCODE_SET_CONNECTION_ENCRYPTION (u16_le connection_handle @ [if enable then 0x01 else 0x00])"

definition switch_role_command :: "rstr \<Rightarrow> u8 \<Rightarrow> hci_error + bytes" where
  "switch_role_command address role = address_params address (\<lambda>b. hci_command OPCODE_SWITCH_ROLE (b @ [role]))"

definition accept_synchronous_connection_request_command ::
    "rstr \<Rightarrow> u32 \<Rightarrow> u32 \<Rightarrow> u16 \<Rightarrow> u16 \<Rightarrow> u8 \<Rightarrow> u16 \<Rightarrow> hci_error + bytes" where
  "accept_synchronous_connection_request_command address transmit_bandwidth receive_bandwidth max_latency
      voice_setting retransmission_effort packet_types =
     address_params address (\<lambda>b. hci_command OPCODE_ACCEPT_SYNCHRONOUS_CONNECTION_REQUEST
       (b @ le_bytes 4 transmit_bandwidth @ le_bytes 4 receive_bandwidth @ u16_le max_latency @
        u16_le voice_setting @ [retransmission_effort] @ u16_le packet_types))"

definition link_key_request_negative_reply_command :: "rstr \<Rightarrow> hci_error + bytes" where
  "link_key_request_negative_reply_command = address_command OPCODE_LINK_KEY_REQUEST_NEGATIVE_REPLY"

text \<open>The PIN fills a field of sixteen octets from the left.\<close>

definition pad_to :: "nat \<Rightarrow> bytes \<Rightarrow> bytes" where
  "pad_to n b = b @ replicate (n - length b) 0"

definition pin_code_request_reply_command :: "rstr \<Rightarrow> rstr \<Rightarrow> hci_error + bytes" where
  "pin_code_request_reply_command address pin =
     (let pin_bytes = utf8_encode pin in
      if length pin_bytes > PIN_CODE_PARAM_LEN then Inl (PinTooLong (length pin_bytes))
      else address_params address (\<lambda>b. hci_command OPCODE_PIN_CODE_REQUEST_REPLY
             (b @ [word_of_nat (length pin_bytes)] @ pad_to PIN_CODE_PARAM_LEN pin_bytes)))"

definition pin_code_request_negative_reply_command :: "rstr \<Rightarrow> hci_error + bytes" where
  "pin_code_request_negative_reply_command = address_command OPCODE_PIN_CODE_REQUEST_NEGATIVE_REPLY"

definition io_capability_request_reply_command :: "rstr \<Rightarrow> u8 \<Rightarrow> u8 \<Rightarrow> u8 \<Rightarrow> hci_error + bytes" where
  "io_capability_request_reply_command address io_capability oob_data_present authentication_requirements =
     address_params address (\<lambda>b. hci_command OPCODE_IO_CAPABILITY_REQUEST_REPLY
       (b @ [io_capability, oob_data_present, authentication_requirements]))"

definition io_capability_request_negative_reply_command :: "rstr \<Rightarrow> u8 \<Rightarrow> hci_error + bytes" where
  "io_capability_request_negative_reply_command address reason =
     address_params address (\<lambda>b. hci_command OPCODE_IO_CAPABILITY_REQUEST_NEGATIVE_REPLY (b @ [reason]))"

definition user_confirmation_request_reply_command :: "rstr \<Rightarrow> hci_error + bytes" where
  "user_confirmation_request_reply_command = address_command OPCODE_USER_CONFIRMATION_REQUEST_REPLY"

definition user_confirmation_request_negative_reply_command :: "rstr \<Rightarrow> hci_error + bytes" where
  "user_confirmation_request_negative_reply_command = address_command OPCODE_USER_CONFIRMATION_REQUEST_NEGATIVE_REPLY"

definition write_default_link_policy_settings_command :: "u16 \<Rightarrow> bytes" where
  "write_default_link_policy_settings_command settings =
     hci_command OPCODE_WRITE_DEFAULT_LINK_POLICY_SETTINGS (u16_le settings)"

definition write_local_name_command :: "rstr \<Rightarrow> bytes" where
  "write_local_name_command name =
     hci_command OPCODE_WRITE_LOCAL_NAME (pad_to LOCAL_NAME_PARAM_LEN (take LOCAL_NAME_PARAM_LEN (utf8_encode name)))"

definition write_page_timeout_command :: "u16 \<Rightarrow> bytes" where
  "write_page_timeout_command timeout_slots = hci_command OPCODE_WRITE_PAGE_TIMEOUT (u16_le timeout_slots)"

definition write_scan_enable_command :: "u8 \<Rightarrow> bytes" where
  "write_scan_enable_command scan_enable = hci_command OPCODE_WRITE_SCAN_ENABLE [scan_enable]"

definition write_class_of_device_command :: "u32 \<Rightarrow> bytes" where
  "write_class_of_device_command class_of_device =
     hci_command OPCODE_WRITE_CLASS_OF_DEVICE (le_bytes 3 class_of_device)"

definition write_voice_setting_command :: "u16 \<Rightarrow> bytes" where
  "write_voice_setting_command voice_setting = hci_command OPCODE_WRITE_VOICE_SETTING (u16_le voice_setting)"

definition write_bcm_sco_pcm_int_command :: "u8 \<Rightarrow> u8 \<Rightarrow> u8 \<Rightarrow> u8 \<Rightarrow> u8 \<Rightarrow> bytes" where
  "write_bcm_sco_pcm_int_command routing pcm_interface_rate frame_type sync_mode clock_mode =
     hci_command OPCODE_BCM_WRITE_SCO_PCM_INT [routing, pcm_interface_rate, frame_type, sync_mode, clock_mode]"

definition write_simple_pairing_mode_command :: "bool \<Rightarrow> bytes" where
  "write_simple_pairing_mode_command enabled =
     hci_command OPCODE_WRITE_SIMPLE_PAIRING_MODE [if enabled then 1 else 0]"

text \<open>The inquiry response: the list of services when it fits, then as much of the name as fits.\<close>

definition eir_services :: "u16 list \<Rightarrow> bytes" where
  "eir_services uuids =
     (let value_len = length uuids * 2 in
      if uuids \<noteq> [] \<and> 2 + value_len \<le> EIR_DATA_BYTES
      then [word_of_nat (1 + value_len), AD_TYPE_COMPLETE_LIST_16BIT_UUIDS] @ concat (map u16_le uuids) else [])"

definition eir_name :: "nat \<Rightarrow> bytes \<Rightarrow> bytes" where
  "eir_name cursor name_bytes =
     (let name_room = EIR_DATA_BYTES - (cursor + 2);
          name_len = min (length name_bytes) name_room in
      if name_len > 0 then
        [word_of_nat (1 + name_len),
         if name_len < length name_bytes then AD_TYPE_SHORTENED_LOCAL_NAME else AD_TYPE_COMPLETE_LOCAL_NAME] @
        take name_len name_bytes
      else [])"

definition write_extended_inquiry_response_command :: "bool \<Rightarrow> rstr \<Rightarrow> u16 list \<Rightarrow> bytes" where
  "write_extended_inquiry_response_command fec_required name uuids_16 =
     (let services = eir_services uuids_16;
          eir = services @ eir_name (length services) (utf8_encode name)
      in u16_le OPCODE_WRITE_EXTENDED_INQUIRY_RESPONSE @ [1 + word_of_nat EIR_DATA_BYTES] @
         [if fec_required then 1 else 0] @ pad_to EIR_DATA_BYTES eir)"

definition status_name :: "u8 \<Rightarrow> string" where
  "status_name status =
     (case map_of [(0x00, ''success''), (0x02, ''unknown connection''), (0x04, ''page timeout''),
        (0x05, ''authentication failure''), (0x06, ''PIN or key missing''), (0x08, ''connection timeout''),
        (0x0a, ''too many synchronous connections''), (0x0b, ''connection already exists''), (0x0c, ''command disallowed''),
        (0x0d, ''rejected: limited resources''), (0x0e, ''rejected: security reasons''), (0x0f, ''rejected: unacceptable address''),
        (0x10, ''connection accept timeout exceeded''), (0x11, ''unsupported feature or parameter''), (0x12, ''invalid HCI command parameters''),
        (0x13, ''remote user ended the connection''), (0x16, ''ended by the local host''), (0x18, ''pairing not allowed''),
        (0x1a, ''unsupported remote feature''), (0x1f, ''unspecified error''), (0x22, ''LMP response timeout''),
        (0x23, ''LMP error transaction collision''), (0x24, ''LMP PDU not allowed''), (0x25, ''encryption mode not acceptable''),
        (0x28, ''instant passed''), (0x29, ''pairing with unit key not supported''), (0x2a, ''different transaction collision''),
        (0x2f, ''insufficient security''), (0x30, ''parameter out of mandatory range''), (0x35, ''role switch failed''),
        (0x3d, ''connection terminated: MIC failure''), (0x3e, ''connection failed to be established'')] status of
        Some n \<Rightarrow> n | None \<Rightarrow> ''an error'')"

section \<open>Packets and events\<close>

definition parse_event :: "bytes \<Rightarrow> hci_error + u8 \<times> bytes" where
  "parse_event packet =
     (if length packet < 2 then Inl HciEventShort else
      let len = unat (packet ! 1) in
      if length packet < 2 + len then Inl (HciEventTruncated len (length packet - 2))
      else Inr (packet ! 0, take len (drop 2 packet)))"

definition parse_acl :: "bytes \<Rightarrow> hci_error + HciPacket" where
  "parse_acl packet =
     (if length packet < 4 then Inl HciAclShort else
      let len = unat (u16_from_le_bytes (packet ! 2) (packet ! 3)) in
      if length packet < 4 + len then Inl (HciAclTruncated len (length packet - 4))
      else Inr (PacketAcl (u16_from_le_bytes (packet ! 0) (packet ! 1)) (take len (drop 4 packet))))"

definition parse_sco :: "bytes \<Rightarrow> hci_error + HciPacket" where
  "parse_sco packet =
     (if length packet < 3 then Inl HciScoShort else
      let len = unat (packet ! 2) in
      if length packet < 3 + len then Inl (HciScoTruncated len (length packet - 3))
      else Inr (PacketSco (u16_from_le_bytes (packet ! 0) (packet ! 1)) (take len (drop 3 packet))))"

definition parse_command_complete :: "bytes \<Rightarrow> u16 \<Rightarrow> hci_error + bytes" where
  "parse_command_complete packet expected_opcode =
     and_then (parse_event packet) (\<lambda>(code, params).
     if code \<noteq> EVENT_COMMAND_COMPLETE then Inl (HciNotCommandComplete code)
     else if length params < 3 then Inl HciCommandCompleteShort
     else if le16_at params 1 \<noteq> expected_opcode then Inl (HciWrongOpcode expected_opcode (le16_at params 1))
     else Inr (drop 3 params))"

definition hci_require_len :: "bytes \<Rightarrow> nat \<Rightarrow> string \<Rightarrow> hci_error + unit" where
  "hci_require_len params min_len name =
     (if length params < min_len then Inl (HciParamsShort name min_len (length params)) else Inr ())"

definition parse_null_terminated_name :: "bytes \<Rightarrow> rstr" where
  "parse_null_terminated_name b = utf8_lossy (takeWhile (\<lambda>x. x \<noteq> 0) b)"

definition le_word :: "bytes \<Rightarrow> 'a :: len word" where
  "le_word bs = foldr (\<lambda>b w. ucast b OR push_bit 8 w) bs 0"

definition require_then :: "bytes \<Rightarrow> nat \<Rightarrow> string \<Rightarrow> HciEvent \<Rightarrow> hci_error + HciEvent" where
  "require_then params n name ev = and_then (hci_require_len params n name) (\<lambda>_. Inr ev)"

definition parse_event_params :: "u8 \<Rightarrow> bytes \<Rightarrow> hci_error + HciEvent" where
  "parse_event_params code p =
     (if code = EVENT_COMMAND_COMPLETE then
        require_then p 3 ''Command Complete'' (EvCommandComplete (p ! 0) (le16_at p 1) (drop 3 p))
      else if code = EVENT_COMMAND_STATUS then
        require_then p 4 ''Command Status'' (EvCommandStatus (p ! 0) (p ! 1) (le16_at p 2))
      else if code = EVENT_CONNECTION_COMPLETE then
        require_then p 11 ''Connection Complete''
          (EvConnectionComplete (p ! 0) (le16_at p 1) (format_bd_addr (take 6 (drop 3 p))) (p ! 9) (p ! 10))
      else if code = EVENT_CONNECTION_REQUEST then
        require_then p 10 ''Connection Request''
          (EvConnectionRequest (format_bd_addr (take 6 p))
             (ucast (p ! 6) OR push_bit 8 (ucast (p ! 7)) OR push_bit 16 (ucast (p ! 8))) (p ! 9))
      else if code = EVENT_DISCONNECTION_COMPLETE then
        require_then p 4 ''Disconnection Complete'' (EvDisconnectionComplete (p ! 0) (le16_at p 1) (p ! 3))
      else if code = EVENT_AUTHENTICATION_COMPLETE then
        require_then p 3 ''Authentication Complete'' (EvAuthenticationComplete (p ! 0) (le16_at p 1))
      else if code = EVENT_ENCRYPTION_CHANGE then
        require_then p 4 ''Encryption Change'' (EvEncryptionChange (p ! 0) (le16_at p 1) (p ! 3))
      else if code = EVENT_REMOTE_NAME_REQUEST_COMPLETE then
        require_then p 7 ''Remote Name Request Complete''
          (EvRemoteNameRequestComplete (p ! 0) (format_bd_addr (take 6 (drop 1 p))) (parse_null_terminated_name (drop 7 p)))
      else if code = EVENT_PIN_CODE_REQUEST then
        require_then p 6 ''PIN Code Request'' (EvPinCodeRequest (format_bd_addr (take 6 p)))
      else if code = EVENT_LINK_KEY_REQUEST then
        require_then p 6 ''Link Key Request'' (EvLinkKeyRequest (format_bd_addr (take 6 p)))
      else if code = EVENT_LINK_KEY_NOTIFICATION then
        require_then p 23 ''Link Key Notification''
          (EvLinkKeyNotification (format_bd_addr (take 6 p)) (take 16 (drop 6 p)) (p ! 22))
      else if code = EVENT_SYNCHRONOUS_CONNECTION_COMPLETE then
        require_then p 17 ''Synchronous Connection Complete''
          (EvSynchronousConnectionComplete (p ! 0) (le16_at p 1) (format_bd_addr (take 6 (drop 3 p))) (p ! 9)
             (p ! 10) (p ! 11) (le16_at p 12) (le16_at p 14) (p ! 16))
      else if code = EVENT_IO_CAPABILITY_REQUEST then
        require_then p 6 ''IO Capability Request'' (EvIoCapabilityRequest (format_bd_addr (take 6 p)))
      else if code = EVENT_USER_CONFIRMATION_REQUEST then
        require_then p 10 ''User Confirmation Request''
          (EvUserConfirmationRequest (format_bd_addr (take 6 p)) (le_word (take 4 (drop 6 p))))
      else if code = EVENT_SIMPLE_PAIRING_COMPLETE then
        require_then p 7 ''Simple Pairing Complete'' (EvSimplePairingComplete (p ! 0) (format_bd_addr (take 6 (drop 1 p))))
      else Inr (EvUnknown code p))"

definition parse_typed_event :: "bytes \<Rightarrow> hci_error + HciEvent" where
  "parse_typed_event packet = and_then (parse_event packet) (\<lambda>(code, params). parse_event_params code params)"

section \<open>Return parameters\<close>

definition expect_status_ok :: "bytes \<Rightarrow> string \<Rightarrow> hci_error + unit" where
  "expect_status_ok params operation =
     (case params of
        [] \<Rightarrow> Inl (HciNoStatus operation)
      | status # _ \<Rightarrow> if status \<noteq> 0 then Inl (HciFailed operation status) else Inr ())"

definition parse_read_bd_addr_return :: "bytes \<Rightarrow> hci_error + rstr" where
  "parse_read_bd_addr_return params =
     (if length params < 7 then Inl (HciReturnShort ''Read BD_ADDR'')
      else if params ! 0 \<noteq> 0 then Inl (HciFailed ''Read BD_ADDR'' (params ! 0))
      else Inr (format_bd_addr (take 6 (drop 1 params))))"

definition parse_local_version_return :: "bytes \<Rightarrow> hci_error + LocalVersion" where
  "parse_local_version_return p =
     (if length p < 9 then Inl (HciReturnShort ''Read Local Version'')
      else and_then (expect_status_ok p ''Read Local Version'') (\<lambda>_.
        Inr \<lparr>lv_hci_version = p ! 1, lv_hci_revision = le16_at p 2, lv_lmp_pal_version = p ! 4,
             lv_manufacturer_name = le16_at p 5, lv_lmp_pal_subversion = le16_at p 7\<rparr>))"

definition parse_local_supported_features_return :: "bytes \<Rightarrow> hci_error + bytes" where
  "parse_local_supported_features_return p =
     (if length p < 9 then Inl (HciReturnShort ''Read Local Supported Features'')
      else and_then (expect_status_ok p ''Read Local Supported Features'') (\<lambda>_. Inr (take 8 (drop 1 p))))"

definition parse_buffer_size_return :: "bytes \<Rightarrow> hci_error + BufferSize" where
  "parse_buffer_size_return p =
     (if length p < 8 then Inl (HciReturnShort ''Read Buffer Size'')
      else and_then (expect_status_ok p ''Read Buffer Size'') (\<lambda>_.
        Inr \<lparr>bs_acl_data_packet_length = le16_at p 1, bs_sco_data_packet_length = p ! 3,
             bs_total_num_acl_data_packets = le16_at p 4, bs_total_num_sco_data_packets = le16_at p 6\<rparr>))"

section \<open>Addresses in text and on the wire\<close>

lemma length_six: "length (b :: 'a list) = 6 \<longleftrightarrow> (\<exists>b0 b1 b2 b3 b4 b5. b = [b0, b1, b2, b3, b4, b5])"
proof
  assume "length b = 6"
  then have "b = map ((!) b) [0..<6]" by (metis map_nth)
  then show "\<exists>b0 b1 b2 b3 b4 b5. b = [b0, b1, b2, b3, b4, b5]" by (simp add: upt_rec) blast
qed auto

lemma bd_addr_parts_length: "bd_addr_parts a (length out) parts out = Inr b \<Longrightarrow> length b = 6"
proof (induction parts arbitrary: out)
  case (Cons part parts)
  obtain v where "u8_from_hex part = Some v" "bd_addr_parts a (length (v # out)) parts (v # out) = Inr b"
    using Cons(2) by (auto split: if_splits option.splits)
  with Cons(1) [of "v # out"] show ?case by simp
qed (simp split: if_splits)

lemma parse_bd_addr_length: "parse_bd_addr a = Inr b \<Longrightarrow> length b = 6"
  using bd_addr_parts_length [of a "[]"] by (simp add: parse_bd_addr_def)

lemma hex_char_ascii: "n < 16 \<Longrightarrow> hex_char u n < 128"
  by (simp add: hex_char_def)

lemma str_len_hex2 [simp]: "str_len (hex2 u b) = 2"
  using hex_char_ascii [of "unat b div 16" u] hex_char_ascii [of "unat b mod 16" u] u8_less_256 [of b]
  by (simp add: str_len_def hex2_def utf8_len_def div_less_iff_less_mult del: u8_less_256)

lemma split_address:
  "split_on 58 (format_bd_addr [b0, b1, b2, b3, b4, b5]) =
     [hex2 True b5, hex2 True b4, hex2 True b3, hex2 True b2, hex2 True b1, hex2 True b0]"
  by (simp add: format_bd_addr_def split_on_first split_on_single hex2_no_colon)

lemma parse_format_bd_addr: "length b = 6 \<Longrightarrow> parse_bd_addr (format_bd_addr b) = Inr b"
  by (auto simp: length_six parse_bd_addr_def split_address)

text \<open>The address text of an event names the same six octets in every command that answers it.\<close>

lemma address_command_octets:
  "length b = 6 \<Longrightarrow> address_command opcode (format_bd_addr b) = Inr (u16_le opcode @ [6] @ b)"
  by (simp add: address_command_def address_params_def parse_format_bd_addr hci_command_def)

text \<open>\<open>from_str_radix\<close> takes a leading plus sign, so the reader of addresses takes a part like \<open>+1\<close>.\<close>

lemma bd_addr_accepts_plus: "parse_bd_addr (lit ''+1:02:03:04:05:06'') = Inr [6, 5, 4, 3, 2, 1]"
  by code_simp

section \<open>Events are read as they were sent\<close>

definition addr_octets :: "rstr \<Rightarrow> bytes" where
  "addr_octets a = (case parse_bd_addr a of Inr b \<Rightarrow> b | Inl _ \<Rightarrow> [])"

definition canonical_address :: "rstr \<Rightarrow> bool" where
  "canonical_address a = (is_ok (parse_bd_addr a) \<and> format_bd_addr (addr_octets a) = a)"

lemma canonicalE:
  assumes "canonical_address a"
  obtains b0 b1 b2 b3 b4 b5 where "addr_octets a = [b0, b1, b2, b3, b4, b5]"
    and "format_bd_addr [b0, b1, b2, b3, b4, b5] = a"
proof -
  obtain b where "parse_bd_addr a = Inr b" using assms by (cases "parse_bd_addr a") (auto simp: canonical_address_def)
  moreover from this have "length b = 6" by (rule parse_bd_addr_length)
  ultimately show ?thesis using assms that by (auto simp: canonical_address_def addr_octets_def length_six)
qed

fun encode_event_params :: "HciEvent \<Rightarrow> bytes" where
  "encode_event_params (EvCommandComplete n opcode ps) = [n] @ u16_le opcode @ ps"
| "encode_event_params (EvCommandStatus st n opcode) = [st, n] @ u16_le opcode"
| "encode_event_params (EvConnectionComplete st h a lt enc) = [st] @ u16_le h @ addr_octets a @ [lt, enc]"
| "encode_event_params (EvConnectionRequest a cod lt) = addr_octets a @ le_bytes 3 cod @ [lt]"
| "encode_event_params (EvDisconnectionComplete st h reason) = [st] @ u16_le h @ [reason]"
| "encode_event_params (EvAuthenticationComplete st h) = [st] @ u16_le h"
| "encode_event_params (EvEncryptionChange st h enc) = [st] @ u16_le h @ [enc]"
| "encode_event_params (EvRemoteNameRequestComplete st a name) = [st] @ addr_octets a @ pad_to 248 (utf8_encode name)"
| "encode_event_params (EvPinCodeRequest a) = addr_octets a"
| "encode_event_params (EvLinkKeyRequest a) = addr_octets a"
| "encode_event_params (EvLinkKeyNotification a key kt) = addr_octets a @ key @ [kt]"
| "encode_event_params (EvSynchronousConnectionComplete st h a lt ti rw rx tx am) =
     [st] @ u16_le h @ addr_octets a @ [lt, ti, rw] @ u16_le rx @ u16_le tx @ [am]"
| "encode_event_params (EvIoCapabilityRequest a) = addr_octets a"
| "encode_event_params (EvUserConfirmationRequest a v) = addr_octets a @ le_bytes 4 v"
| "encode_event_params (EvSimplePairingComplete st a) = [st] @ addr_octets a"
| "encode_event_params (EvUnknown code ps) = ps"

definition known_events :: "u8 list" where
  "known_events = [0x03, 0x04, 0x05, 0x06, 0x07, 0x08, 0x0e, 0x0f, 0x16, 0x17, 0x18, 0x2c, 0x31, 0x33, 0x36]"

definition name_fits :: "rstr \<Rightarrow> bool" where
  "name_fits name = (list_all (\<lambda>c. scalar_value c \<and> c \<noteq> 0) name \<and> str_len name \<le> 248)"

fun event_fits :: "HciEvent \<Rightarrow> bool" where
  "event_fits (EvCommandComplete n opcode ps) = (length ps \<le> 252)"
| "event_fits (EvConnectionComplete st h a lt enc) = canonical_address a"
| "event_fits (EvConnectionRequest a cod lt) = (canonical_address a \<and> cod < 0x1000000)"
| "event_fits (EvRemoteNameRequestComplete st a name) = (canonical_address a \<and> name_fits name)"
| "event_fits (EvPinCodeRequest a) = canonical_address a"
| "event_fits (EvLinkKeyRequest a) = canonical_address a"
| "event_fits (EvLinkKeyNotification a key kt) = (canonical_address a \<and> length key = 16)"
| "event_fits (EvSynchronousConnectionComplete st h a lt ti rw rx tx am) = canonical_address a"
| "event_fits (EvIoCapabilityRequest a) = canonical_address a"
| "event_fits (EvUserConfirmationRequest a v) = canonical_address a"
| "event_fits (EvSimplePairingComplete st a) = canonical_address a"
| "event_fits (EvUnknown code ps) = (code \<notin> set known_events \<and> length ps \<le> 255)"
| "event_fits _ = True"

definition encode_event :: "HciEvent \<Rightarrow> bytes" where
  "encode_event ev = [event_code ev, word_of_nat (length (encode_event_params ev))] @ encode_event_params ev"

lemma le_word_le_bytes4: "le_word (le_bytes 4 (v :: u32)) = v"
proof (rule bit_word_eqI)
  fix n assume "n < LENGTH(32)"
  then consider "n < 8" | "8 \<le> n" "n < 16" | "16 \<le> n" "n < 24" | "24 \<le> n" "n < 32" by fastforce
  then show "bit (le_word (le_bytes 4 v) :: u32) n = bit v n"
    by cases (auto simp: le_word_def le_bytes_def upt_rec bit_simps)
qed

lemma class_of_device_bytes:
  assumes "(cod :: u32) < 0x1000000"
  shows "ucast (ucast cod :: u8) OR push_bit 8 (ucast (ucast (drop_bit 8 cod) :: u8)) OR
         push_bit 16 (ucast (ucast (drop_bit 16 cod) :: u8)) = cod"
proof (rule bit_word_eqI)
  fix n assume n: "n < LENGTH(32)"
  have "take_bit 24 cod = cod"
    using assms by (simp add: word_less_nat_alt unsigned_take_bit_eq take_bit_nat_eq_self word_unat_eq_iff)
  then have high: "24 \<le> n \<Longrightarrow> \<not> bit cod n" by (metis bit_take_bit_iff not_le)
  from n consider "n < 8" | "8 \<le> n" "n < 16" | "16 \<le> n" "n < 24" | "24 \<le> n" "n < 32" by fastforce
  then show "bit (ucast (ucast cod :: u8) OR push_bit 8 (ucast (ucast (drop_bit 8 cod) :: u8)) OR
         push_bit 16 (ucast (ucast (drop_bit 16 cod) :: u8)) :: u32) n = bit cod n"
    using high by cases (auto simp: bit_simps)
qed

lemma utf8_char_nonzero: "scalar_value c \<Longrightarrow> c \<noteq> 0 \<Longrightarrow> 0 \<notin> set (utf8_char c)"
proof -
  assume c: "scalar_value c" "c \<noteq> 0"
  have nz: "octet n \<noteq> 0" if "0 < n" "n < 256" for n
    using that octet_cmp(3) [of n 0] by (simp add: octet_def)
  have "c div 262144 < 5" using c(1) by (auto simp: scalar_value_def div_less_iff_less_mult)
  moreover have "c mod 64 < 64" "c div 64 mod 64 < 64" "c div 4096 mod 64 < 64" by simp_all
  moreover have "c < 2048 \<Longrightarrow> c div 64 < 32" "c < 65536 \<Longrightarrow> c div 4096 < 16"
    by (simp_all add: div_less_iff_less_mult)
  ultimately show ?thesis
    using c(2) by (auto simp: utf8_char_def eq_commute [of "0 :: u8"] nz)
qed

lemma takeWhile_then_zeros: "0 \<notin> set b \<Longrightarrow> takeWhile (\<lambda>x. x \<noteq> 0) (b @ replicate k 0) = (b :: bytes)"
  by (induction b) (auto simp: takeWhile_eq_Nil_iff)

lemma name_read_back: "name_fits name \<Longrightarrow> parse_null_terminated_name (pad_to 248 (utf8_encode name)) = name"
proof -
  assume f: "name_fits name"
  then have nz: "0 \<notin> set (utf8_encode name)"
    by (induction name) (auto simp: name_fits_def str_len_def utf8_char_nonzero)
  then have "takeWhile (\<lambda>x. x \<noteq> 0) (pad_to 248 (utf8_encode name)) = utf8_encode name"
    by (simp add: pad_to_def takeWhile_then_zeros)
  moreover have "utf8_lossy (utf8_encode name) = name"
    using f by (intro utf8_lossy_decode utf8_roundtrip) (auto simp: name_fits_def list_all_iff)
  ultimately show ?thesis by (simp add: parse_null_terminated_name_def)
qed

lemma length_pad_to: "length b \<le> n \<Longrightarrow> length (pad_to n b) = n"
  by (simp add: pad_to_def)

lemma encode_event_params_length: "event_fits ev \<Longrightarrow> length (encode_event_params ev) \<le> 255"
  by (cases ev)
    (auto simp: le_bytes_def length_pad_to length_utf8_encode name_fits_def elim!: canonicalE)

lemma parse_event_encoded:
  "event_fits ev \<Longrightarrow> parse_event (encode_event ev @ rest) = Inr (event_code ev, encode_event_params ev)"
  using encode_event_params_length [of ev]
  by (simp add: parse_event_def encode_event_def unat_of_nat)

lemmas event_parse_simps = parse_event_params_def require_then_def hci_require_len_def le16_at_def u16_le_def

lemma parse_encoded_params: "event_fits ev \<Longrightarrow> parse_event_params (event_code ev) (encode_event_params ev) = Inr ev"
proof (cases ev)
  case (EvConnectionRequest a cod lt)
  assume "event_fits ev"
  with EvConnectionRequest class_of_device_bytes [of cod] show ?thesis
    by (auto simp: event_parse_simps le_bytes_def upt_rec elim!: canonicalE)
next
  case (EvRemoteNameRequestComplete st a name)
  assume "event_fits ev"
  with EvRemoteNameRequestComplete name_read_back [of name] show ?thesis
    by (auto simp: event_parse_simps elim!: canonicalE)
next
  case (EvUserConfirmationRequest a v)
  assume "event_fits ev"
  with EvUserConfirmationRequest le_word_le_bytes4 [of v] show ?thesis
    by (auto simp: event_parse_simps le_bytes_def elim!: canonicalE)
next
  case (EvLinkKeyNotification a key kt)
  assume "event_fits ev"
  with EvLinkKeyNotification show ?thesis by (auto simp: event_parse_simps nth_append elim!: canonicalE)
next
  case (EvUnknown code ps)
  assume "event_fits ev"
  with EvUnknown show ?thesis by (simp add: event_parse_simps known_events_def)
qed (auto simp: event_parse_simps elim!: canonicalE)

text \<open>Every event the radio understands is read back from its encoding with all its
  fields, its address as text included, whatever follows it in the buffer; other event codes are kept
  with their parameters.\<close>

theorem hci_event_roundtrip:
  "event_fits ev \<Longrightarrow> parse_typed_event (encode_event ev @ rest) = Inr ev"
  by (simp add: parse_typed_event_def parse_event_encoded parse_encoded_params)

theorem hci_event_roundtrip_witness:
  "parse_typed_event (encode_event (EvConnectionRequest (lit ''A0:B1:C2:03:04:05'') 0x5a020c 1) @ [7]) =
     Inr (EvConnectionRequest (lit ''A0:B1:C2:03:04:05'') 0x5a020c 1)"
proof (rule hci_event_roundtrip)
  have "canonical_address (lit ''A0:B1:C2:03:04:05'')" by code_simp
  then show "event_fits (EvConnectionRequest (lit ''A0:B1:C2:03:04:05'') 0x5a020c 1)" by simp
qed

section \<open>The inquiry response\<close>

function ad_structures :: "bytes \<Rightarrow> (u8 \<times> bytes) list" where
  "ad_structures b =
     (case b of
        l # t # d \<Rightarrow> if l = 0 then [] else (t, take (unat l - 1) d) # ad_structures (drop (unat l - 1) d)
      | _ \<Rightarrow> [])"
  by pat_completeness auto
termination
  by (relation "measure length") auto

declare ad_structures.simps [simp del]

lemma ad_structure_first:
  "length d < 255 \<Longrightarrow> ad_structures ([word_of_nat (1 + length d), t] @ d @ r) = (t, d) # ad_structures r"
proof -
  assume "length d < 255"
  then have "unat (word_of_nat (1 + length d) :: u8) = 1 + length d"
    unfolding unat_of_nat by simp
  moreover from this have "(word_of_nat (1 + length d) :: u8) \<noteq> 0" by (metis add_is_0 one_neq_zero unat_0)
  ultimately show ?thesis by (simp add: ad_structures.simps [of "_ # _"])
qed

lemma ad_structures_zeros: "ad_structures (replicate k 0) = []"
  by (cases k rule: nat.exhaust [case_names 0 Suc]) (auto simp: ad_structures.simps split: list.split)

lemma length_u16_les [simp]: "length (concat (map u16_le us)) = 2 * length us"
  by (induction us) simp_all

definition eir_name_shown :: "nat \<Rightarrow> bytes \<Rightarrow> (u8 \<times> bytes) list" where
  "eir_name_shown used name =
     (if name = [] \<or> 238 \<le> used then []
      else if length name \<le> 238 - used then [(AD_TYPE_COMPLETE_LOCAL_NAME, name)]
      else [(AD_TYPE_SHORTENED_LOCAL_NAME, take (238 - used) name)])"

lemma eir_name_structure:
  "ad_structures (eir_name used name @ replicate k 0) = eir_name_shown used name"
proof (cases "name = [] \<or> 238 \<le> used")
  case False
  let ?d = "take (min (length name) (240 - (used + 2))) name"
  have "length ?d < 255" by simp
  from ad_structure_first [OF this, of _ "replicate k 0"] False show ?thesis
    by (auto simp: eir_name_def eir_name_shown_def Let_def ad_structures_zeros)
qed (auto simp: eir_name_def eir_name_shown_def ad_structures_zeros)

text \<open>The inquiry response is a well-formed list of structures: the services, then the name, marked as
  shortened exactly when it was cut.\<close>

lemma eir_structures:
  assumes "uuids \<noteq> []" "length uuids \<le> 119"
  shows "ad_structures (drop 4 (write_extended_inquiry_response_command fec name uuids)) =
     (AD_TYPE_COMPLETE_LIST_16BIT_UUIDS, concat (map u16_le uuids)) #
     eir_name_shown (2 + 2 * length uuids) (utf8_encode name)"
proof -
  let ?d = "concat (map u16_le uuids)"
  have s: "eir_services uuids = [word_of_nat (1 + length ?d), AD_TYPE_COMPLETE_LIST_16BIT_UUIDS] @ ?d"
    using assms by (simp add: eir_services_def mult.commute)
  have "length ?d < 255" using assms by simp
  from ad_structure_first [OF this] show ?thesis
    by (simp add: write_extended_inquiry_response_command_def Let_def pad_to_def s eir_name_structure u16_le_def)
qed

lemma eir_command_length: "length (write_extended_inquiry_response_command fec name uuids) = 244"
proof -
  have "length (eir_services uuids) \<le> 240" by (simp add: eir_services_def Let_def)
  moreover have "length (eir_name n b) \<le> 240 - n" if "n \<le> 240" for n b
    using that by (auto simp: eir_name_def Let_def)
  ultimately have "length (eir_services uuids @ eir_name (length (eir_services uuids)) (utf8_encode name)) \<le> 240"
    by (metis le_add_diff_inverse length_append nat_add_left_cancel_le)
  then show ?thesis
    by (simp add: write_extended_inquiry_response_command_def Let_def pad_to_def)
qed

end
