(* ===== verification/Chunked_Stream.thy ===== *)
theory Chunked_Stream
  imports Prelude
begin

text \<open>
  Byte streams that arrive in pieces: events off an interrupt pipe, voice packets off isochronous
  frames.  A step looks at the front of what has arrived and either takes octets off it, giving an
  item or passing over them, or waits; the loop repeats the step until it waits.
\<close>

definition emit :: "'f option \<Rightarrow> 'f list \<Rightarrow> 'f list" where
  "emit out fs = (case out of None \<Rightarrow> fs | Some f \<Rightarrow> f # fs)"

lemma emit_simps [simp]: "emit None fs = fs" "emit (Some f) fs = f # fs"
  by (simp_all add: emit_def)

lemma emit_append: "emit out (fs @ gs) = emit out fs @ gs"
  by (cases out) simp_all

fun feed_all :: "('s \<Rightarrow> 'c \<Rightarrow> 's \<times> 'f list) \<Rightarrow> 's \<Rightarrow> 'c list \<Rightarrow> 's \<times> 'f list" where
  "feed_all f s [] = (s, [])"
| "feed_all f s (c # cs) =
     (fst (feed_all f (fst (f s c)) cs), snd (f s c) @ snd (feed_all f (fst (f s c)) cs))"

text \<open>A step that more octets do not change is one whose answers do not depend on how the stream was cut.\<close>

locale chunked_stream =
  fixes cut :: "bytes \<Rightarrow> ('f option \<times> bytes) option"
    and drain :: "bytes \<Rightarrow> 'f list \<times> bytes"
  assumes cut_shorter: "cut b = Some (out, r) \<Longrightarrow> length r < length b"
    and cut_extend: "cut b = Some (out, r) \<Longrightarrow> cut (b @ x) = Some (out, r @ x)"
    and drain_wait: "cut b = None \<Longrightarrow> drain b = ([], b)"
    and drain_cut: "cut b = Some (out, r) \<Longrightarrow> drain b = (emit out (fst (drain r)), snd (drain r))"
begin

lemma drain_rest_waits: "cut (snd (drain b)) = None"
proof (induction b rule: length_induct)
  case (1 b)
  then show ?case
    by (cases "cut b") (auto simp: drain_wait drain_cut dest: cut_shorter)
qed

lemma pieces_append:
  "drain (b @ x) = (fst (drain b) @ fst (drain (snd (drain b) @ x)), snd (drain (snd (drain b) @ x)))"
proof (induction b rule: length_induct)
  case (1 b)
  show ?case
  proof (cases "cut b")
    case None
    then show ?thesis by (simp add: drain_wait)
  next
    case (Some p)
    obtain out r where p: "cut b = Some (out, r)" using Some by (cases p) auto
    with 1 cut_shorter have "drain (r @ x) =
        (fst (drain r) @ fst (drain (snd (drain r) @ x)), snd (drain (snd (drain r) @ x)))" by blast
    with p show ?thesis by (simp add: drain_cut [OF p] drain_cut [OF cut_extend [OF p]] emit_append)
  qed
qed

text \<open>The items of a stream, and what is left over, are the same however it was cut into pieces.\<close>

lemma drain_chunks:
  assumes buf: "\<And>s c. I s \<Longrightarrow> buf (fst (f s c)) = snd (drain (buf s @ c))"
    and out: "\<And>s c. I s \<Longrightarrow> snd (f s c) = fst (drain (buf s @ c))"
    and inv: "\<And>s c. I s \<Longrightarrow> I (fst (f s c))"
    and "I s" "cut (buf s) = None"
  shows "buf (fst (feed_all f s cs)) = snd (drain (buf s @ concat cs)) \<and>
         snd (feed_all f s cs) = fst (drain (buf s @ concat cs))"
  using assms(4,5)
proof (induction cs arbitrary: s)
  case Nil
  then show ?case by (simp add: drain_wait)
next
  case (Cons c cs)
  have "cut (buf (fst (f s c))) = None" using Cons by (simp add: buf drain_rest_waits)
  from Cons.IH [OF inv [OF Cons.prems(1)] this] pieces_append [of "buf s @ c" "concat cs"] Cons.prems show ?case
    by (simp add: buf out)
qed

end

end
