(* ===== verification/Usb_Hci.thy ===== *)
theory Usb_Hci
  imports Hci Chunked_Stream
begin

text \<open>
  \<open>aokie_radio/usb_hci.rs\<close>: events put together from the packets of the interrupt pipe, the alternate
  setting for a voice link, and the frames of a voice packet.
\<close>

section \<open>The event stream\<close>

record EventStream =
  es_bytes :: bytes
  es_last_bytes_at :: "instant option"

definition event_stream_new :: EventStream where
  "event_stream_new = \<lparr>es_bytes = [], es_last_bytes_at = None\<rparr>"

abbreviation (input) STALE_EVENT_MS :: duration where "STALE_EVENT_MS \<equiv> 2000"

definition event_push_at :: "EventStream \<Rightarrow> bytes \<Rightarrow> instant \<Rightarrow> EventStream" where
  "event_push_at s bs now =
     (if bs \<noteq> [] then s\<lparr>es_bytes := es_bytes s @ bs, es_last_bytes_at := Some now\<rparr> else s)"

definition event_drop_stale :: "EventStream \<Rightarrow> instant \<Rightarrow> duration \<Rightarrow> EventStream \<times> nat" where
  "event_drop_stale s now max_age =
     (case es_last_bytes_at s of
        Some at \<Rightarrow>
          if es_bytes s \<noteq> [] \<and> now - at > max_age
          then (s\<lparr>es_bytes := [], es_last_bytes_at := None\<rparr>, length (es_bytes s)) else (s, 0)
      | None \<Rightarrow> (s, 0))"

definition event_pop :: "EventStream \<Rightarrow> EventStream \<times> bytes option" where
  "event_pop s =
     (if length (es_bytes s) < 2 then (s, None) else
      let total = 2 + unat (es_bytes s ! 1) in
      if length (es_bytes s) < total then (s, None)
      else (s\<lparr>es_bytes := drop total (es_bytes s)\<rparr>, Some (take total (es_bytes s))))"

definition event_pending :: "EventStream \<Rightarrow> nat" where
  "event_pending s = length (es_bytes s)"

definition event_clear :: "EventStream \<Rightarrow> EventStream" where
  "event_clear s = s\<lparr>es_bytes := [], es_last_bytes_at := None\<rparr>"

text \<open>The reader: it takes whole events off the stream before it reads the next packet.\<close>

function event_pop_all :: "EventStream \<Rightarrow> EventStream \<times> bytes list" where
  "event_pop_all s =
     (case event_pop s of
        (s', None) \<Rightarrow> (s', [])
      | (s', Some ev) \<Rightarrow> (fst (event_pop_all s'), ev # snd (event_pop_all s')))"
  by pat_completeness auto
termination
  by (relation "measure (\<lambda>s. length (es_bytes s))") (auto simp: event_pop_def Let_def split: if_splits)

declare event_pop_all.simps [simp del]

definition event_receive :: "EventStream \<Rightarrow> bytes \<times> instant \<Rightarrow> EventStream \<times> bytes list" where
  "event_receive s packet = event_pop_all (event_push_at s (fst packet) (snd packet))"

section \<open>Alternate settings\<close>

abbreviation (input) SCO_ALT_SETTINGS_8_BIT :: "u8 list" where "SCO_ALT_SETTINGS_8_BIT \<equiv> [1, 2, 3]"
abbreviation (input) SCO_ALT_SETTINGS_16_BIT :: "u8 list" where "SCO_ALT_SETTINGS_16_BIT \<equiv> [2, 4, 5]"

definition table_get :: "'a list \<Rightarrow> nat \<Rightarrow> 'a option" where
  "table_get xs i = (if i < length xs then Some (xs ! i) else None)"

definition sco_alt_setting_for_voice :: "u16 \<Rightarrow> nat \<Rightarrow> u8 option" where
  "sco_alt_setting_for_voice voice_setting connection_count =
     (if connection_count = 0 then None
      else if voice_setting AND 0x0020 \<noteq> 0 then table_get SCO_ALT_SETTINGS_16_BIT (connection_count - 1)
      else table_get SCO_ALT_SETTINGS_8_BIT (connection_count - 1))"

datatype ScoAltChoice = AltAsked u8 | AltInstead u8 u8 | AltNothing u8

definition choose_sco_alt :: "u8 \<Rightarrow> u8 list \<Rightarrow> ScoAltChoice" where
  "choose_sco_alt asked available =
     (if available = [] \<or> asked \<in> set available then AltAsked asked
      else case find (\<lambda>alt. alt \<in> set available) SCO_ALT_SETTINGS_16_BIT of
        Some alt \<Rightarrow> AltInstead asked alt
      | None \<Rightarrow> AltNothing asked)"

definition msbc_alt_available :: "u8 list \<Rightarrow> bool" where
  "msbc_alt_available available = list_ex (\<lambda>alt. alt \<in> set available) SCO_ALT_SETTINGS_8_BIT"

section \<open>Isochronous frames\<close>

definition div_ceil :: "nat \<Rightarrow> nat \<Rightarrow> nat" where
  "div_ceil a b = (if a mod b = 0 then a div b else a div b + 1)"

fun iso_fill :: "nat \<Rightarrow> nat \<Rightarrow> u32 list \<Rightarrow> u32 list" where
  "iso_fill left max_packet_size [] = []"
| "iso_fill left max_packet_size (frame # frames) =
     (let n = min left max_packet_size in word_of_nat n # iso_fill (left - n) max_packet_size frames)"

definition iso_frame_lengths :: "nat \<Rightarrow> nat \<Rightarrow> u32 list \<Rightarrow> u32 list \<times> nat option" where
  "iso_frame_lengths packet_len max_packet_size frames =
     (if packet_len = 0 \<or> max_packet_size = 0 then (frames, None) else
      let count = div_ceil packet_len max_packet_size in
      if count > length frames then (frames, None)
      else (iso_fill packet_len max_packet_size (take count frames) @ drop count frames, Some count))"

section \<open>Events do not depend on how the pipe cut them\<close>

definition event_cut :: "bytes \<Rightarrow> (bytes option \<times> bytes) option" where
  "event_cut b =
     (if length b < 2 \<or> length b < 2 + unat (b ! 1) then None
      else Some (Some (take (2 + unat (b ! 1)) b), drop (2 + unat (b ! 1)) b))"

definition event_drain :: "bytes \<Rightarrow> bytes list \<times> bytes" where
  "event_drain b =
     (let r = event_pop_all \<lparr>es_bytes = b, es_last_bytes_at = None\<rparr> in (snd r, es_bytes (fst r)))"

lemma event_pop_cut:
  "event_pop s = (case event_cut (es_bytes s) of
     None \<Rightarrow> (s, None) | Some (out, r) \<Rightarrow> (s\<lparr>es_bytes := r\<rparr>, out))"
  by (simp add: event_pop_def event_cut_def Let_def)

lemma event_cut_emits: "event_cut b = Some (out, r) \<Longrightarrow> out \<noteq> None"
  by (auto simp: event_cut_def split: if_splits)

lemma event_pop_all_wait: "event_cut (es_bytes s) = None \<Longrightarrow> event_pop_all s = (s, [])"
  by (subst event_pop_all.simps) (simp add: event_pop_cut)

lemma event_pop_all_cut:
  "event_cut (es_bytes s) = Some (Some ev, r) \<Longrightarrow>
   event_pop_all s = (fst (event_pop_all (s\<lparr>es_bytes := r\<rparr>)), ev # snd (event_pop_all (s\<lparr>es_bytes := r\<rparr>)))"
  by (subst event_pop_all.simps) (simp add: event_pop_cut)

lemma event_pop_all_bytes:
  "snd (event_pop_all s) = fst (event_drain (es_bytes s))"
  "es_bytes (fst (event_pop_all s)) = snd (event_drain (es_bytes s))"
proof -
  have "snd (event_pop_all s) = snd (event_pop_all t) \<and>
        es_bytes (fst (event_pop_all s)) = es_bytes (fst (event_pop_all t))"
    if "es_bytes s = es_bytes t" for t
    using that
  proof (induction s arbitrary: t rule: event_pop_all.induct)
    case (1 s)
    show ?case
    proof (cases "event_cut (es_bytes s)")
      case None
      with 1 show ?thesis by (simp add: event_pop_all_wait)
    next
      case (Some p)
      obtain ev r where p: "event_cut (es_bytes s) = Some (Some ev, r)"
        using Some event_cut_emits by (cases p) fastforce
      have "event_pop s = (s\<lparr>es_bytes := r\<rparr>, Some ev)" using p by (simp add: event_pop_cut)
      from 1(1) [OF this [symmetric], of ev "t\<lparr>es_bytes := r\<rparr>"]
      show ?thesis using event_pop_all_cut [OF p] event_pop_all_cut [of t ev r] p 1(3) by simp
    qed
  qed
  from this [of "\<lparr>es_bytes = es_bytes s, es_last_bytes_at = None\<rparr>"]
  show "snd (event_pop_all s) = fst (event_drain (es_bytes s))"
    and "es_bytes (fst (event_pop_all s)) = snd (event_drain (es_bytes s))"
    by (simp_all add: event_drain_def Let_def)
qed

interpretation usb_events: chunked_stream event_cut event_drain
proof
  fix b out r x
  assume c: "event_cut b = Some (out, r)"
  then show "length r < length b" by (auto simp: event_cut_def split: if_splits)
  from c show "event_cut (b @ x) = Some (out, r @ x)" by (auto simp: event_cut_def nth_append split: if_splits)
  obtain ev where out: "out = Some ev" using event_cut_emits [OF c] by auto
  show "event_drain b = (emit out (fst (event_drain r)), snd (event_drain r))"
    using c out
    by (simp add: event_drain_def Let_def event_pop_all_cut)
next
  fix b assume "event_cut b = None"
  then show "event_drain b = ([], b)"
    by (simp add: event_drain_def event_pop_all_wait)
qed

lemma event_receive_bytes:
  "es_bytes (fst (event_receive s p)) = snd (event_drain (es_bytes s @ fst p))"
  "snd (event_receive s p) = fst (event_drain (es_bytes s @ fst p))"
  by (simp_all add: event_receive_def event_pop_all_bytes event_push_at_def)

lemma event_cut_encoded: "event_fits ev \<Longrightarrow> event_cut (encode_event ev @ rest) = Some (Some (encode_event ev), rest)"
  using encode_event_params_length [of ev] by (simp add: event_cut_def encode_event_def unat_of_nat)

lemma event_drain_encoded:
  "list_all event_fits evs \<Longrightarrow> event_drain (concat (map encode_event evs)) = (map encode_event evs, [])"
proof (induction evs)
  case Nil
  show ?case using usb_events.drain_wait [of "[]"] by (simp add: event_cut_def)
next
  case (Cons ev evs)
  then show ?case using usb_events.drain_cut [OF event_cut_encoded [of ev "concat (map encode_event evs)"]] by simp
qed

lemma event_receive_chunks:
  "event_cut (es_bytes s) = None \<Longrightarrow>
   es_bytes (fst (feed_all (\<lambda>s c. event_receive s (c, t)) s cs)) = snd (event_drain (es_bytes s @ concat cs)) \<and>
   snd (feed_all (\<lambda>s c. event_receive s (c, t)) s cs) = fst (event_drain (es_bytes s @ concat cs))"
  using usb_events.drain_chunks [of "\<lambda>_. True" es_bytes "\<lambda>s c. event_receive s (c, t)" s cs]
  by (simp add: event_receive_bytes)

text \<open>C37 Events sent by the controller are read in order, with every field, and nothing is
  left over, however the interrupt pipe cuts them into packets.\<close>

theorem usb_events_read_as_sent:
  assumes "list_all event_fits evs" "concat packets = concat (map encode_event evs)"
  shows "map parse_typed_event (snd (feed_all (\<lambda>s c. event_receive s (c, t)) event_stream_new packets)) = map Inr evs \<and>
         event_pending (fst (feed_all (\<lambda>s c. event_receive s (c, t)) event_stream_new packets)) = 0"
proof -
  have "event_cut (es_bytes event_stream_new) = None" by (simp add: event_cut_def event_stream_new_def)
  from event_receive_chunks [OF this, of t packets] assms event_drain_encoded [OF assms(1)]
  show ?thesis
    by (auto simp: event_stream_new_def event_pending_def list_all_iff hci_event_roundtrip [of _ "[]", simplified])
qed

theorem usb_events_read_as_sent_witness:
  "map parse_typed_event (snd (feed_all (\<lambda>s c. event_receive s (c, 5)) event_stream_new
     [[0x0e], [4, 1, 3], [], [12, 0, 0x0f, 4, 0], [1, 5, 4]])) =
     map Inr [EvCommandComplete 1 0x0c03 [0], EvCommandStatus 0 1 0x0405] \<and>
   event_pending (fst (feed_all (\<lambda>s c. event_receive s (c, 5)) event_stream_new
     [[0x0e], [4, 1, 3], [], [12, 0, 0x0f, 4, 0], [1, 5, 4]])) = 0"
proof (rule usb_events_read_as_sent)
  show "list_all event_fits [EvCommandComplete 1 0x0c03 [0], EvCommandStatus 0 1 0x0405]" by simp
  show "concat [[0x0e], [4, 1, 3], [], [12, 0, 0x0f, 4, 0], [1, 5, 4]] =
    concat (map encode_event [EvCommandComplete 1 0x0c03 [0], EvCommandStatus 0 1 0x0405])" by code_simp
qed

text \<open>A half event that waited too long is let go, and the next event is read.\<close>

lemma stale_half_event_dropped:
  assumes "es_bytes s \<noteq> []" "es_last_bytes_at s = Some at" "now - at > max_age" "event_fits ev"
  shows "snd (event_receive (fst (event_drop_stale s now max_age)) (encode_event ev, t)) = [encode_event ev]"
  using assms event_drain_encoded [of "[ev]"]
  by (simp add: event_receive_bytes event_drop_stale_def)

lemma fresh_half_event_kept: "now - at \<le> max_age \<Longrightarrow> es_last_bytes_at s = Some at \<Longrightarrow> event_drop_stale s now max_age = (s, 0)"
  by (simp add: event_drop_stale_def)

section \<open>Alternate settings and frames\<close>

lemma choose_sco_alt_available:
  assumes "available \<noteq> []"
  shows "case choose_sco_alt asked available of
      AltAsked a \<Rightarrow> a = asked \<and> a \<in> set available
    | AltInstead a alt \<Rightarrow> a = asked \<and> asked \<notin> set available \<and> alt \<in> set available
    | AltNothing a \<Rightarrow> a = asked \<and> set available \<inter> {asked, 2, 4, 5} = {}"
  using assms by (auto simp: choose_sco_alt_def split: if_splits)

text \<open>A dongle that has only the third 8-bit setting is said to carry wide-band speech, and then nothing is
  found for the one link that wide-band speech is.\<close>

lemma msbc_said_available_but_not_found:
  "msbc_alt_available [3] \<and> sco_alt_setting_for_voice 0x0043 1 = Some 1 \<and> choose_sco_alt 1 [3] = AltNothing 1"
  by code_simp

lemma iso_fill_length [simp]: "length (iso_fill left mps fs) = length fs"
  by (induction left mps fs rule: iso_fill.induct) (simp_all add: Let_def)

lemma iso_fill_nth:
  "i < length fs \<Longrightarrow> iso_fill left mps fs ! i = word_of_nat (min (left - i * mps) mps)"
proof (induction left mps fs arbitrary: i rule: iso_fill.induct)
  case (2 left mps f fs)
  show ?case
  proof (cases i)
    case (Suc j)
    with 2(2) 2(1) [OF refl, of j] show ?thesis by (cases "left \<le> mps") (simp_all add: Let_def min_def)
  qed (simp add: Let_def)
qed simp

lemma iso_fill_sum:
  "left < 2 ^ 32 \<Longrightarrow> left \<le> length fs * mps \<Longrightarrow> sum_list (map unat (iso_fill left mps fs)) = left"
proof (induction left mps fs rule: iso_fill.induct)
  case (2 left mps f fs)
  have "unat (word_of_nat (min left mps) :: u32) = min left mps"
    using 2(2) by (simp add: unat_of_nat)
  with 2 show ?case by (cases "left \<le> mps") (auto simp: Let_def min_def)
qed simp

lemma div_ceil_bounds:
  assumes "0 < a" "0 < (b :: nat)"
  shows "a \<le> div_ceil a b * b" "(div_ceil a b - 1) * b < a" "0 < div_ceil a b"
proof -
  define q r where "q = a div b" and "r = a mod b"
  then have a: "a = q * b + r" and r: "r < b" using assms by simp_all
  have c: "div_ceil a b = (if r = 0 then q else q + 1)" by (simp add: div_ceil_def q_def r_def)
  have q: "r = 0 \<Longrightarrow> 0 < q" using a assms by (cases q) simp_all
  then obtain p where p: "r = 0 \<Longrightarrow> q = Suc p" by (cases q) auto
  show "a \<le> div_ceil a b * b" "(div_ceil a b - 1) * b < a" "0 < div_ceil a b"
    unfolding c using a r p assms by (auto split: if_splits)
qed

text \<open>A voice packet lies over the frames whole: the lengths add up to the packet, every
  frame but the last is full, the last is neither empty nor too long, no more frames are used than needed and the
  others are not touched.\<close>

theorem iso_frames_carry_packet:
  assumes "packet_len < 2 ^ 32" "iso_frame_lengths packet_len mps frames = (frames', Some count)"
  shows "length frames' = length frames \<and> count \<le> length frames \<and> drop count frames' = drop count frames \<and>
    sum_list (map unat (take count frames')) = packet_len \<and>
    (\<forall>i < count - 1. unat (frames' ! i) = mps) \<and>
    0 < unat (frames' ! (count - 1)) \<and> unat (frames' ! (count - 1)) \<le> mps"
proof -
  have pos: "0 < packet_len" "0 < mps" and c: "count = div_ceil packet_len mps" "count \<le> length frames"
    and f: "frames' = iso_fill packet_len mps (take count frames) @ drop count frames"
    using assms(2) by (auto simp: iso_frame_lengths_def Let_def split: if_splits)
  have b: "packet_len \<le> count * mps" "(count - 1) * mps < packet_len" "0 < count"
    using div_ceil_bounds [OF pos] c by simp_all
  have nth: "unat (frames' ! i) = min (packet_len - i * mps) mps" if "i < count" for i
  proof -
    have "frames' ! i = word_of_nat (min (packet_len - i * mps) mps)"
      using that c f iso_fill_nth [of i "take count frames" packet_len mps] by (simp add: nth_append)
    moreover have "min (packet_len - i * mps) mps < 4294967296" using assms(1) by simp
    ultimately show ?thesis by (simp only: unat_of_nat) simp
  qed
  have full: "unat (frames' ! i) = mps" if "i < count - 1" for i
  proof -
    have "(i + 1) * mps \<le> (count - 1) * mps" using that by (intro mult_le_mono1) simp
    with b(2) have "mps \<le> packet_len - i * mps" by simp
    with nth [of i] that show ?thesis by simp
  qed
  have "0 < packet_len - (count - 1) * mps" using b(2) by simp
  with nth [of "count - 1"] b pos have last: "0 < unat (frames' ! (count - 1))" "unat (frames' ! (count - 1)) \<le> mps"
    by simp_all
  have "sum_list (map unat (take count frames')) = packet_len"
    using f c b(1) iso_fill_sum [of packet_len "take count frames" mps] assms(1) by (simp add: mult.commute min_absorb2)
  with full last f c show ?thesis by simp
qed

theorem iso_frames_carry_packet_witness:
  "sum_list (map unat (take 3 [9, 9, 6, 0 :: u32])) = 24 \<and>
   iso_frame_lengths 24 9 [0, 0, 0, 0] = ([9, 9, 6, 0], Some 3)"
proof -
  have e: "iso_frame_lengths 24 9 [0, 0, 0, 0] = ([9, 9, 6, 0], Some 3)" by code_simp
  with iso_frames_carry_packet [OF _ e] show ?thesis by simp
qed

end
