(* ===== verification/Sco.thy ===== *)
theory Sco
  imports Chunked_Stream L2cap_Wire "HOL-Library.Signed_Division"
begin

text \<open>
  \<open>aokie_radio/sco.rs\<close>: voice packets, the assembler that puts them together from isochronous frames and
  finds them again after a loss, and the queue of samples on their way out.  An \<open>i16\<close> is a 16-bit word read
  with \<open>sint\<close>; arithmetic on \<open>i32\<close> is on integers (the products here stay far inside 32 bits).
\<close>

type_synonym i16 = "16 word"

datatype sco_error =
    ScoTooShort
  | ScoTruncated nat nat
  | ScoTooLarge nat
  | ScoOddLength nat
  | ScoWrongSampleCount nat nat
  | ScoOddPayload nat
  | ScoLostSynchronization

record ScoPacket =
  sp_connection_handle :: u16
  sp_packet_status_flag :: u8
  sp_payload :: bytes

section \<open>Packets\<close>

definition parse_sco_packet :: "bytes \<Rightarrow> sco_error + ScoPacket" where
  "parse_sco_packet packet =
     (if length packet < 3 then Inl ScoTooShort else
      let handle_status = u16_from_le_bytes (packet ! 0) (packet ! 1);
          len = unat (packet ! 2) in
      if length packet < 3 + len then Inl (ScoTruncated len (length packet - 3))
      else Inr \<lparr>sp_connection_handle = handle_status AND 0x0fff,
                sp_packet_status_flag = ucast (drop_bit 12 handle_status AND 0x03),
                sp_payload = take len (drop 3 packet)\<rparr>)"

definition build_sco_packet :: "u16 \<Rightarrow> u8 \<Rightarrow> bytes \<Rightarrow> sco_error + bytes" where
  "build_sco_packet connection_handle packet_status_flag payload =
     (if length payload > 255 then Inl (ScoTooLarge (length payload))
      else
        let handle_status = (connection_handle AND 0x0fff) OR push_bit 12 (ucast packet_status_flag AND 0x03)
        in Inr ([u16_lo handle_status, u16_hi handle_status, word_of_nat (length payload)] @ payload))"

definition build_cvsd_silence_packet :: "u16 \<Rightarrow> nat \<Rightarrow> sco_error + bytes" where
  "build_cvsd_silence_packet connection_handle payload_len =
     build_sco_packet connection_handle 0 (replicate payload_len 0)"

definition i16_le :: "i16 \<Rightarrow> bytes" where
  "i16_le s = [u16_lo s, u16_hi s]"

text \<open>The sample source is called with the number of samples and keeps a state of its own.\<close>

definition build_linear_pcm_sco_packet ::
    "u16 \<Rightarrow> nat \<Rightarrow> (nat \<Rightarrow> 's \<Rightarrow> 's \<times> i16 list) \<Rightarrow> 's \<Rightarrow> 's \<times> (sco_error + bytes)" where
  "build_linear_pcm_sco_packet connection_handle payload_len source s =
     (if payload_len mod 2 \<noteq> 0 then (s, Inl (ScoOddLength payload_len)) else
      let sample_count = payload_len div 2; (s', samples) = source sample_count s in
      if length samples \<noteq> sample_count then (s', Inl (ScoWrongSampleCount (length samples) sample_count))
      else (s', build_sco_packet connection_handle 0 (concat (map i16_le samples))))"

fun chunks_exact_i16 :: "bytes \<Rightarrow> i16 list" where
  "chunks_exact_i16 (a # b # r) = u16_from_le_bytes a b # chunks_exact_i16 r"
| "chunks_exact_i16 _ = []"

definition linear_pcm_samples_from_payload :: "bytes \<Rightarrow> sco_error + i16 list" where
  "linear_pcm_samples_from_payload payload =
     (if length payload mod 2 \<noteq> 0 then Inl (ScoOddPayload (length payload)) else Inr (chunks_exact_i16 payload))"

definition linear_pcm_samples_from_sco_packet :: "bytes \<Rightarrow> sco_error + i16 list" where
  "linear_pcm_samples_from_sco_packet packet =
     and_then (parse_sco_packet packet) (\<lambda>parsed. linear_pcm_samples_from_payload (sp_payload parsed))"

section \<open>Statistics\<close>

record ScoStats =
  ss_packets :: nat
  ss_payload_bytes :: nat
  ss_bad_packets :: nat
  ss_last_connection_handle :: "u16 option"
  ss_last_packet_status_flag :: "u8 option"

definition sco_record_packet :: "ScoStats \<Rightarrow> bytes \<Rightarrow> ScoStats \<times> (sco_error + unit)" where
  "sco_record_packet s packet =
     (case parse_sco_packet packet of
        Inr parsed \<Rightarrow>
          (s\<lparr>ss_packets := ss_packets s + 1,
             ss_payload_bytes := ss_payload_bytes s + length (sp_payload parsed),
             ss_last_connection_handle := Some (sp_connection_handle parsed),
             ss_last_packet_status_flag := Some (sp_packet_status_flag parsed)\<rparr>, Inr ())
      | Inl err \<Rightarrow> (s\<lparr>ss_bad_packets := ss_bad_packets s + 1\<rparr>, Inl err))"

record LinearPcmStats =
  lp_frames :: nat
  lp_samples :: nat
  lp_bad_frames :: nat
  lp_min_sample :: "i16 option"
  lp_max_sample :: "i16 option"
  lp_last_frame_samples :: "nat option"

definition i16_min :: "i16 \<Rightarrow> i16 \<Rightarrow> i16" where "i16_min a b = (if sint a \<le> sint b then a else b)"
definition i16_max :: "i16 \<Rightarrow> i16 \<Rightarrow> i16" where "i16_max a b = (if sint b \<le> sint a then a else b)"

definition pcm_note_sample :: "i16 \<Rightarrow> LinearPcmStats \<Rightarrow> LinearPcmStats" where
  "pcm_note_sample x s =
     s\<lparr>lp_min_sample := Some (case lp_min_sample s of None \<Rightarrow> x | Some m \<Rightarrow> i16_min m x),
       lp_max_sample := Some (case lp_max_sample s of None \<Rightarrow> x | Some m \<Rightarrow> i16_max m x)\<rparr>"

definition record_sco_packet :: "LinearPcmStats \<Rightarrow> bytes \<Rightarrow> LinearPcmStats \<times> (sco_error + unit)" where
  "record_sco_packet s packet =
     (case linear_pcm_samples_from_sco_packet packet of
        Inr samples \<Rightarrow>
          (fold pcm_note_sample samples
             (s\<lparr>lp_frames := lp_frames s + 1, lp_samples := lp_samples s + length samples,
                lp_last_frame_samples := Some (length samples)\<rparr>), Inr ())
      | Inl err \<Rightarrow> (s\<lparr>lp_bad_frames := lp_bad_frames s + 1\<rparr>, Inl err))"

section \<open>The assembler\<close>

record ScoPacketAssembler =
  sa_buffer :: bytes
  sa_handle :: "u16 option"
  sa_resynced_bytes :: nat

definition sco_assembler_new :: ScoPacketAssembler where
  "sco_assembler_new = \<lparr>sa_buffer = [], sa_handle = None, sa_resynced_bytes = 0\<rparr>"

definition sco_set_handle :: "ScoPacketAssembler \<Rightarrow> u16 option \<Rightarrow> ScoPacketAssembler" where
  "sco_set_handle a handle = a\<lparr>sa_handle := map_option (\<lambda>h. h AND 0x0fff) handle\<rparr>"

definition sco_header_other :: "u16 option \<Rightarrow> bytes \<Rightarrow> bool" where
  "sco_header_other handle b =
     (case handle of Some h \<Rightarrow> u16_from_le_bytes (b ! 0) (b ! 1) AND 0x0fff \<noteq> h | None \<Rightarrow> False)"

text \<open>The loop of \<open>push_bytes\<close>; a packet that cannot be parsed ends it with the octets already taken.\<close>

function sco_push_loop ::
    "ScoPacketAssembler \<Rightarrow> bytes list \<Rightarrow> ScoPacketAssembler \<times> (sco_error + bytes list)" where
  "sco_push_loop a packets =
     (let b = sa_buffer a in
      if length b < 3 then (a, Inr packets)
      else if sco_header_other (sa_handle a) b
      then sco_push_loop (a\<lparr>sa_buffer := tl b, sa_resynced_bytes := sa_resynced_bytes a + 1\<rparr>) packets
      else
        let packet_len = 3 + unat (b ! 2) in
        if length b < packet_len then (a, Inr packets)
        else
          (case parse_sco_packet (take packet_len b) of
             Inl e \<Rightarrow> (a\<lparr>sa_buffer := drop packet_len b\<rparr>, Inl e)
           | Inr _ \<Rightarrow> sco_push_loop (a\<lparr>sa_buffer := drop packet_len b\<rparr>) (packets @ [take packet_len b])))"
  by pat_completeness auto
termination
  by (relation "measure (\<lambda>(a, packets). length (sa_buffer a))") auto

declare sco_push_loop.simps [simp del]

definition sco_push_bytes :: "ScoPacketAssembler \<Rightarrow> bytes \<Rightarrow> ScoPacketAssembler \<times> (sco_error + bytes list)" where
  "sco_push_bytes a bs =
     (case sco_push_loop (a\<lparr>sa_buffer := sa_buffer a @ bs\<rparr>) [] of
        (a', Inl e) \<Rightarrow> (a', Inl e)
      | (a', Inr packets) \<Rightarrow>
          if length (sa_buffer a') > 512 then (a'\<lparr>sa_buffer := []\<rparr>, Inl ScoLostSynchronization)
          else (a', Inr packets))"

definition sco_reset :: "ScoPacketAssembler \<Rightarrow> ScoPacketAssembler" where
  "sco_reset a = a\<lparr>sa_buffer := []\<rparr>"

section \<open>The queue of outgoing samples\<close>

record LinearPcmTxQueue =
  tq_samples :: "i16 list"
  tq_capacity_samples :: nat
  tq_dropped_samples :: nat
  tq_last_emitted :: i16
  tq_fade_in :: nat
  tq_underruns :: nat

abbreviation (input) FADE_IN_SAMPLES :: nat where "FADE_IN_SAMPLES \<equiv> 24"

definition tx_queue_new :: "nat \<Rightarrow> LinearPcmTxQueue" where
  "tx_queue_new capacity =
     \<lparr>tq_samples = [], tq_capacity_samples = capacity, tq_dropped_samples = 0, tq_last_emitted = 0,
      tq_fade_in = 0, tq_underruns = 0\<rparr>"

definition next_sample :: "LinearPcmTxQueue \<Rightarrow> LinearPcmTxQueue \<times> i16" where
  "next_sample q =
     (case tq_samples q of
        s # rest \<Rightarrow>
          let gain = int (FADE_IN_SAMPLES - tq_fade_in q + 1);
              (fade_in, s') = (if tq_fade_in q > 0
                 then (tq_fade_in q - 1, word_of_int (sint s * gain sdiv int FADE_IN_SAMPLES)) else (tq_fade_in q, s))
          in (q\<lparr>tq_samples := rest, tq_fade_in := fade_in, tq_last_emitted := s'\<rparr>, s')
      | [] \<Rightarrow>
          let underruns = (if tq_last_emitted q \<noteq> 0 \<and> tq_fade_in q = 0 then tq_underruns q + 1 else tq_underruns q);
              n = (sint (tq_last_emitted q) * 7) sdiv 8;
              last = (if \<bar>n\<bar> < 4 then 0 else word_of_int n)
          in (q\<lparr>tq_underruns := underruns, tq_last_emitted := last, tq_fade_in := FADE_IN_SAMPLES\<rparr>, last))"

definition push_samples :: "LinearPcmTxQueue \<Rightarrow> i16 list \<Rightarrow> LinearPcmTxQueue \<times> nat" where
  "push_samples q samples =
     (let accepted = min (tq_capacity_samples q - length (tq_samples q)) (length samples)
      in (q\<lparr>tq_samples := tq_samples q @ take accepted samples,
            tq_dropped_samples := tq_dropped_samples q + (length samples - accepted)\<rparr>, accepted))"

text \<open>\<open>fill_frame\<close>, and the sample source of \<open>pop_sco_packet\<close>: so many samples, one after the other.\<close>

fun next_samples :: "nat \<Rightarrow> LinearPcmTxQueue \<Rightarrow> LinearPcmTxQueue \<times> i16 list" where
  "next_samples 0 q = (q, [])"
| "next_samples (Suc n) q =
     (let (q1, s) = next_sample q; (q2, ss) = next_samples n q1 in (q2, s # ss))"

definition fill_frame :: "LinearPcmTxQueue \<Rightarrow> i16 list \<Rightarrow> LinearPcmTxQueue \<times> i16 list" where
  "fill_frame q frame = next_samples (length frame) q"

definition pop_sco_packet :: "LinearPcmTxQueue \<Rightarrow> u16 \<Rightarrow> nat \<Rightarrow> LinearPcmTxQueue \<times> (sco_error + bytes)" where
  "pop_sco_packet q connection_handle payload_len =
     build_linear_pcm_sco_packet connection_handle payload_len next_samples q"

definition tx_queue_clear :: "LinearPcmTxQueue \<Rightarrow> LinearPcmTxQueue" where
  "tx_queue_clear q = q\<lparr>tq_samples := []\<rparr>"

section \<open>Packets are read as they were built\<close>

lemma and_fields:
  "(x :: u16) AND 0x0fff = take_bit 12 x" "(x :: u16) AND 0x03 = take_bit 2 x" "(y :: u8) AND 0x03 = take_bit 2 y"
  by (simp_all add: take_bit_eq_mask mask_numeral)

lemma sco_header_fields:
  fixes f :: u8 and h hs :: u16
  defines "hs \<equiv> (h AND 0x0fff) OR push_bit 12 (ucast f AND 0x03)"
  shows "hs AND 0x0fff = h AND 0x0fff" "ucast (drop_bit 12 hs AND 0x03) = f AND 0x03"
  unfolding hs_def and_fields by (rule bit_word_eqI; auto simp: bit_simps)+

lemma parse_build_sco_packet:
  assumes "build_sco_packet h f payload = Inr packet"
  shows "parse_sco_packet (packet @ rest) =
    Inr \<lparr>sp_connection_handle = h AND 0x0fff, sp_packet_status_flag = f AND 0x03, sp_payload = payload\<rparr>"
proof -
  define hs :: u16 where "hs = (h AND 0x0fff) OR push_bit 12 (ucast f AND 0x03)"
  have hs: "hs AND 0x0fff = h AND 0x0fff" "ucast (drop_bit 12 hs AND 0x03) = f AND 0x03"
    unfolding hs_def by (rule sco_header_fields)+
  have l: "length payload \<le> 255" and p: "packet = [u16_lo hs, u16_hi hs, word_of_nat (length payload)] @ payload"
    using assms by (simp_all add: build_sco_packet_def Let_def hs_def split: if_splits)
  then have "unat (word_of_nat (length payload) :: u8) = length payload" by (simp add: unat_of_nat)
  with l p hs show ?thesis by (simp add: parse_sco_packet_def Let_def)
qed

lemma length_i16_les: "length (concat (map i16_le ss)) = 2 * length ss"
  by (induction ss) (simp_all add: i16_le_def)

lemma chunks_exact_i16_les: "chunks_exact_i16 (concat (map i16_le ss)) = ss"
  by (induction ss) (simp_all add: i16_le_def)

lemma length_next_samples [simp]: "length (snd (next_samples n q)) = n"
  by (induction n arbitrary: q) (simp_all add: split_beta Let_def)

text \<open>Samples leave the queue in packets that read back as the samples; an odd length takes nothing from the queue.\<close>

lemma pop_sco_packet_samples:
  assumes "even payload_len" "payload_len \<le> 254"
  obtains packet where "pop_sco_packet q h payload_len = (fst (next_samples (payload_len div 2) q), Inr packet)"
    and "linear_pcm_samples_from_sco_packet packet = Inr (snd (next_samples (payload_len div 2) q))"
    and "length packet = 3 + payload_len"
proof -
  let ?ss = "snd (next_samples (payload_len div 2) q)"
  let ?p = "concat (map i16_le ?ss)"
  have l: "length ?p = payload_len" using assms by (simp add: length_i16_les)
  obtain packet where b: "build_sco_packet h 0 ?p = Inr packet"
    using assms l by (simp add: build_sco_packet_def Let_def)
  show thesis
  proof (rule that [of packet])
    show "pop_sco_packet q h payload_len = (fst (next_samples (payload_len div 2) q), Inr packet)"
      using assms b by (simp add: pop_sco_packet_def build_linear_pcm_sco_packet_def Let_def split_beta)
    show "linear_pcm_samples_from_sco_packet packet = Inr ?ss"
      using parse_build_sco_packet [OF b, of "[]"] assms l
      by (simp add: linear_pcm_samples_from_sco_packet_def linear_pcm_samples_from_payload_def chunks_exact_i16_les)
    show "length packet = 3 + payload_len"
      using b l by (auto simp: build_sco_packet_def Let_def split: if_splits)
  qed
qed

lemma pop_sco_packet_odd: "odd payload_len \<Longrightarrow> pop_sco_packet q h payload_len = (q, Inl (ScoOddLength payload_len))"
  by (simp add: pop_sco_packet_def build_linear_pcm_sco_packet_def odd_iff_mod_2_eq_one)

section \<open>The assembler never fails and does not depend on the frames\<close>

definition sco_cut :: "u16 option \<Rightarrow> bytes \<Rightarrow> (bytes option \<times> bytes) option" where
  "sco_cut h b =
     (if length b < 3 then None
      else if sco_header_other h b then Some (None, tl b)
      else if length b < 3 + unat (b ! 2) then None
      else Some (Some (take (3 + unat (b ! 2)) b), drop (3 + unat (b ! 2)) b))"

fun sco_skipped :: "bytes option \<Rightarrow> nat" where
  "sco_skipped None = 1"
| "sco_skipped (Some _) = 0"

lemma parse_whole_packet: "3 + unat (b ! 2) \<le> length b \<Longrightarrow> \<exists>p. parse_sco_packet (take (3 + unat (b ! 2)) b) = Inr p"
  by (simp add: parse_sco_packet_def Let_def)

lemma sco_push_loop_wait: "sco_cut (sa_handle a) (sa_buffer a) = None \<Longrightarrow> sco_push_loop a ps = (a, Inr ps)"
  by (subst sco_push_loop.simps) (auto simp: sco_cut_def Let_def split: if_splits)

lemma sco_push_loop_cut:
  "sco_cut (sa_handle a) (sa_buffer a) = Some (out, r) \<Longrightarrow>
   sco_push_loop a ps =
     sco_push_loop (a\<lparr>sa_buffer := r, sa_resynced_bytes := sa_resynced_bytes a + sco_skipped out\<rparr>) (ps @ emit out [])"
  by (subst sco_push_loop.simps)
    (use parse_whole_packet [of "sa_buffer a"] in \<open>auto simp: sco_cut_def Let_def split: if_splits\<close>)

function sco_drain :: "u16 option \<Rightarrow> bytes \<Rightarrow> bytes list \<times> bytes" where
  "sco_drain h b =
     (case sco_cut h b of
        None \<Rightarrow> ([], b)
      | Some (out, r) \<Rightarrow> (emit out (fst (sco_drain h r)), snd (sco_drain h r)))"
  by pat_completeness auto
termination
  by (relation "measure (\<lambda>(h, b). length b)") (auto simp: sco_cut_def split: if_splits)

declare sco_drain.simps [simp del]

lemma sco_drain_wait: "sco_cut h b = None \<Longrightarrow> sco_drain h b = ([], b)"
  by (subst sco_drain.simps) simp

lemma sco_drain_cut: "sco_cut h b = Some (out, r) \<Longrightarrow> sco_drain h b = (emit out (fst (sco_drain h r)), snd (sco_drain h r))"
  by (subst sco_drain.simps) simp

lemma sco_header_other_append: "3 \<le> length b \<Longrightarrow> sco_header_other h (b @ x) = sco_header_other h b"
  by (auto simp: sco_header_other_def nth_append split: option.split)

interpretation sco_stream: chunked_stream "sco_cut h" "sco_drain h" for h
proof
  fix b out r x
  assume c: "sco_cut h b = Some (out, r)"
  then show "length r < length b" by (auto simp: sco_cut_def split: if_splits)
  from c show "sco_cut h (b @ x) = Some (out, r @ x)"
    by (auto simp: sco_cut_def sco_header_other_append nth_append tl_append split: if_splits list.split)
  from c show "sco_drain h b = (emit out (fst (sco_drain h r)), snd (sco_drain h r))" by (rule sco_drain_cut)
qed (rule sco_drain_wait)

lemma sco_push_loop_drain:
  "\<exists>n. sco_push_loop a ps =
     (a\<lparr>sa_buffer := snd (sco_drain (sa_handle a) (sa_buffer a)), sa_resynced_bytes := sa_resynced_bytes a + n\<rparr>,
      Inr (ps @ fst (sco_drain (sa_handle a) (sa_buffer a)))) \<and>
     length (sa_buffer a) = n + length (snd (sco_drain (sa_handle a) (sa_buffer a))) +
       length (concat (fst (sco_drain (sa_handle a) (sa_buffer a))))"
proof (induction "length (sa_buffer a)" arbitrary: a ps rule: less_induct)
  case less
  show ?case
  proof (cases "sco_cut (sa_handle a) (sa_buffer a)")
    case None
    then show ?thesis by (simp add: sco_push_loop_wait sco_drain_wait)
  next
    case (Some p)
    obtain out r where c: "sco_cut (sa_handle a) (sa_buffer a) = Some (out, r)" using Some by (cases p) auto
    let ?a = "a\<lparr>sa_buffer := r, sa_resynced_bytes := sa_resynced_bytes a + sco_skipped out\<rparr>"
    have len: "length (sa_buffer a) = length r + sco_skipped out + length (concat (emit out []))"
      using c by (auto simp: sco_cut_def split: if_splits)
    obtain n where "sco_push_loop ?a (ps @ emit out []) =
        (?a\<lparr>sa_buffer := snd (sco_drain (sa_handle a) r),
            sa_resynced_bytes := sa_resynced_bytes a + sco_skipped out + n\<rparr>,
         Inr (ps @ emit out [] @ fst (sco_drain (sa_handle a) r)))"
      and "length r = n + length (snd (sco_drain (sa_handle a) r)) + length (concat (fst (sco_drain (sa_handle a) r)))"
      using less [of ?a "ps @ emit out []"] sco_stream.cut_shorter [OF c] by auto
    then show ?thesis
      using len sco_push_loop_cut [OF c, of ps] sco_drain_cut [OF c]
      by (intro exI [of _ "sco_skipped out + n"]) (cases out; simp add: add.assoc)
  qed
qed

lemma sco_waiting_short: "sco_cut h b = None \<Longrightarrow> length b \<le> 257"
proof -
  assume "sco_cut h b = None"
  then have "length b < 3 \<or> length b < 3 + unat (b ! 2)" by (auto simp: sco_cut_def split: if_splits)
  moreover have "unat (b ! 2) \<le> 255" using u8_less_256 [of "b ! 2"] by linarith
  ultimately show ?thesis by auto
qed

lemma sco_push_bytes_drain:
  obtains n where "sco_push_bytes a bs =
      (a\<lparr>sa_buffer := snd (sco_drain (sa_handle a) (sa_buffer a @ bs)), sa_resynced_bytes := sa_resynced_bytes a + n\<rparr>,
       Inr (fst (sco_drain (sa_handle a) (sa_buffer a @ bs))))"
    and "length (sa_buffer a) + length bs = n + length (snd (sco_drain (sa_handle a) (sa_buffer a @ bs))) +
       length (concat (fst (sco_drain (sa_handle a) (sa_buffer a @ bs))))"
proof -
  have "length (snd (sco_drain (sa_handle a) (sa_buffer a @ bs))) \<le> 257"
    by (rule sco_waiting_short) (rule sco_stream.drain_rest_waits)
  then show thesis
    using sco_push_loop_drain [of "a\<lparr>sa_buffer := sa_buffer a @ bs\<rparr>" "[]"] that
    by (auto simp: sco_push_bytes_def)
qed

text \<open>Whatever octets arrive, the assembler does not fail, keeps at most 257 of them for the
  next frame, and every octet is kept, handed on in a packet or counted as slid past.\<close>

theorem sco_assembler_total:
  "\<exists>a' packets. sco_push_bytes a bs = (a', Inr packets) \<and> length (sa_buffer a') \<le> 257 \<and> sa_handle a' = sa_handle a \<and>
     list_all (\<lambda>p. is_ok (parse_sco_packet p)) packets \<and>
     length (sa_buffer a) + length bs + sa_resynced_bytes a =
       length (sa_buffer a') + length (concat packets) + sa_resynced_bytes a'"
proof -
  have ok: "list_all (\<lambda>p. is_ok (parse_sco_packet p)) (fst (sco_drain h b))" for h b
  proof (induction h b rule: sco_drain.induct)
    case (1 h b)
    show ?case
    proof (cases "sco_cut h b")
      case (Some p)
      obtain out r where c: "sco_cut h b = Some (out, r)" using Some by (cases p) auto
      have "list_all (\<lambda>p. is_ok (parse_sco_packet p)) (emit out [])"
        using c by (auto simp: sco_cut_def parse_sco_packet_def Let_def split: if_splits)
      with 1 [OF c refl] show ?thesis by (cases out) (simp_all add: sco_drain_cut [OF c])
    qed (simp add: sco_drain_wait)
  qed
  have "length (snd (sco_drain (sa_handle a) (sa_buffer a @ bs))) \<le> 257"
    by (rule sco_waiting_short) (rule sco_stream.drain_rest_waits)
  with ok show ?thesis by (rule_tac a = a and bs = bs in sco_push_bytes_drain) auto
qed

section \<open>Finding the packets again\<close>

definition sco_receive :: "ScoPacketAssembler \<Rightarrow> bytes \<Rightarrow> ScoPacketAssembler \<times> bytes list" where
  "sco_receive a bs =
     (fst (sco_push_bytes a bs), case snd (sco_push_bytes a bs) of Inr packets \<Rightarrow> packets | Inl _ \<Rightarrow> [])"

definition sco_packet_for :: "u16 \<Rightarrow> bytes \<Rightarrow> bool" where
  "sco_packet_for h p = (3 \<le> length p \<and> \<not> sco_header_other (Some h) p \<and> length p = 3 + unat (p ! 2))"

lemma sco_receive_drain:
  "sa_buffer (fst (sco_receive a bs)) = snd (sco_drain (sa_handle a) (sa_buffer a @ bs))"
  "snd (sco_receive a bs) = fst (sco_drain (sa_handle a) (sa_buffer a @ bs))"
  "sa_handle (fst (sco_receive a bs)) = sa_handle a"
  "sa_resynced_bytes (fst (sco_receive a bs)) + length (sa_buffer (fst (sco_receive a bs))) +
     length (concat (snd (sco_receive a bs))) = sa_resynced_bytes a + length (sa_buffer a) + length bs"
  by (rule sco_push_bytes_drain [of a bs]; simp add: sco_receive_def)+

lemma sco_drain_packets:
  "list_all (sco_packet_for h) ps \<Longrightarrow> sco_drain (Some h) (concat ps) = (ps, [])"
proof (induction ps)
  case Nil
  show ?case by (simp add: sco_drain_wait sco_cut_def)
next
  case (Cons p ps)
  then have "sco_cut (Some h) (p @ concat ps) = Some (Some p, concat ps)"
    by (simp add: sco_packet_for_def sco_cut_def sco_header_other_append nth_append)
  with Cons show ?case by (simp add: sco_drain_cut)
qed

lemma sco_drain_junk:
  assumes "\<forall>i < length junk. sco_header_other (Some h) (drop i (junk @ s))" "3 \<le> length s"
  shows "sco_drain (Some h) (junk @ s) = sco_drain (Some h) s"
  using assms(1)
proof (induction junk)
  case (Cons b junk)
  have "sco_cut (Some h) ((b # junk) @ s) = Some (None, junk @ s)"
    using Cons.prems [rule_format, of 0] assms(2) by (simp add: sco_cut_def)
  moreover have "\<forall>i < length junk. sco_header_other (Some h) (drop i (junk @ s))"
    using Cons.prems by (metis Suc_less_eq append_Cons drop_Suc_Cons length_Cons)
  ultimately show ?case using Cons.IH by (simp add: sco_drain_cut)
qed simp

lemma sco_feed_conserves:
  "sa_resynced_bytes (fst (feed_all sco_receive a cs)) + length (sa_buffer (fst (feed_all sco_receive a cs))) +
     length (concat (snd (feed_all sco_receive a cs))) = sa_resynced_bytes a + length (sa_buffer a) + length (concat cs)"
proof (induction cs arbitrary: a)
  case (Cons c cs)
  from Cons [of "fst (sco_receive a c)"] sco_receive_drain(4) [of a c] show ?case by simp
qed simp

text \<open>C38 When octets were lost and the rest of a packet arrives in front of whole packets, the
  assembler slides past exactly the octets in front, as long as none of them looks like the header of the link, and
  hands on every packet after them, however the frames cut the stream.\<close>

theorem sco_stream_recovers:
  assumes "sa_handle a = Some h" "sa_buffer a = []"
    and "packets \<noteq> []" "list_all (sco_packet_for h) packets"
    and "\<forall>i < length junk. sco_header_other (Some h) (drop i (junk @ concat packets))"
    and "concat frames = junk @ concat packets"
  shows "snd (feed_all sco_receive a frames) = packets \<and> sa_buffer (fst (feed_all sco_receive a frames)) = [] \<and>
     sa_resynced_bytes (fst (feed_all sco_receive a frames)) = sa_resynced_bytes a + length junk"
proof -
  have "3 \<le> length (concat packets)" using assms(3,4) by (cases packets) (auto simp: sco_packet_for_def)
  from sco_drain_junk [OF assms(5) this] sco_drain_packets [OF assms(4)]
  have d: "sco_drain (Some h) (concat frames) = (packets, [])" by (simp add: assms(6))
  have "sa_buffer (fst (feed_all sco_receive a frames)) = snd (sco_drain (Some h) (sa_buffer a @ concat frames)) \<and>
      snd (feed_all sco_receive a frames) = fst (sco_drain (Some h) (sa_buffer a @ concat frames))"
    by (rule sco_stream.drain_chunks [where I = "\<lambda>a. sa_handle a = Some h"])
      (simp_all add: sco_receive_drain assms(1,2) sco_cut_def)
  with d assms(2,6) sco_feed_conserves [of a frames] show ?thesis by simp
qed

theorem sco_stream_recovers_witness:
  "snd (feed_all sco_receive (sco_set_handle sco_assembler_new (Some 0x0b)) [[7, 7, 0x0b], [0, 2, 1], [2, 0x0b, 0, 1, 9]]) =
     [[0x0b, 0, 2, 1, 2], [0x0b, 0, 1, 9]]"
proof -
  let ?a = "sco_set_handle sco_assembler_new (Some 0x0b)"
  have "list_all (sco_packet_for 0x0b) [[0x0b, 0, 2, 1, 2], [0x0b, 0, 1, 9]]" by code_simp
  moreover have "\<forall>i < length [7, 7]. sco_header_other (Some 0x0b) (drop i ([7, 7] @ concat [[0x0b, 0, 2, 1, 2], [0x0b, 0, 1, 9]]))"
    by code_simp
  ultimately show ?thesis
    using sco_stream_recovers [of ?a "0x0b" "[[0x0b, 0, 2, 1, 2], [0x0b, 0, 1, 9]]" "[7, 7]"
        "[[7, 7, 0x0b], [0, 2, 1], [2, 0x0b, 0, 1, 9]]"]
    by (simp add: sco_set_handle_def sco_assembler_new_def)
qed

section \<open>The outgoing queue\<close>

definition tx_queue_wf :: "LinearPcmTxQueue \<Rightarrow> bool" where
  "tx_queue_wf q = (length (tq_samples q) \<le> tq_capacity_samples q \<and> tq_fade_in q \<le> FADE_IN_SAMPLES)"

lemma next_sample_wf: "tx_queue_wf q \<Longrightarrow> tx_queue_wf (fst (next_sample q))"
  by (auto simp: tx_queue_wf_def next_sample_def Let_def split: list.splits)

lemma next_samples_wf: "tx_queue_wf q \<Longrightarrow> tx_queue_wf (fst (next_samples n q))"
  by (induction n arbitrary: q) (simp_all add: split_beta Let_def next_sample_wf)

text \<open>The queue never holds more than its capacity: what does not fit is refused from the end
  and counted, and the samples before it are kept in order behind those already waiting.\<close>

theorem tx_queue_accounting:
  assumes "tx_queue_wf q"
  shows "tx_queue_wf (fst (push_samples q ss)) \<and>
    tq_samples (fst (push_samples q ss)) = tq_samples q @ take (snd (push_samples q ss)) ss \<and>
    tq_dropped_samples (fst (push_samples q ss)) + snd (push_samples q ss) = tq_dropped_samples q + length ss \<and>
    (snd (push_samples q ss) < length ss \<longrightarrow> length (tq_samples (fst (push_samples q ss))) = tq_capacity_samples q)"
  using assms by (auto simp: push_samples_def tx_queue_wf_def Let_def)

theorem tx_queue_accounting_witness:
  "tq_samples (fst (push_samples (fst (push_samples (tx_queue_new 3) [1, 2])) [3, 4])) = [1, 2, 3]"
proof -
  have "tx_queue_wf (fst (push_samples (tx_queue_new 3) [1, 2]))" by code_simp
  from tx_queue_accounting [OF this, of "[3, 4]"] show ?thesis by (simp add: push_samples_def tx_queue_new_def)
qed

text \<open>With no fade-in pending, samples come out as they went in.\<close>

lemma next_samples_fifo:
  "tq_fade_in q = 0 \<Longrightarrow> n \<le> length (tq_samples q) \<Longrightarrow> snd (next_samples n q) = take n (tq_samples q)"
proof (induction n arbitrary: q)
  case (Suc n)
  then obtain s ss where "tq_samples q = s # ss" by (cases "tq_samples q") auto
  with Suc show ?case by (simp add: next_sample_def split_beta Let_def)
qed simp

definition decay :: "int \<Rightarrow> int" where
  "decay x = (let n = (x * 7) sdiv 8 in if \<bar>n\<bar> < 4 then 0 else n)"

lemma decay_abs: "\<bar>decay x\<bar> = decay \<bar>x\<bar>"
  by (auto simp: decay_def signed_divide_int_def Let_def abs_mult sgn_mult abs_if sgn_if)

lemma decay_mono: "0 \<le> x \<Longrightarrow> x \<le> y \<Longrightarrow> decay x \<le> decay y"
proof -
  assume a: "0 \<le> x" "x \<le> y"
  then have e: "(x * 7) sdiv 8 = x * 7 div 8" "(y * 7) sdiv 8 = y * 7 div 8"
    by (auto simp: signed_divide_int_def sgn_if)
  have "x * 7 div 8 \<le> y * 7 div 8" using a by (intro zdiv_mono1) simp_all
  moreover have "0 \<le> x * 7 div 8" using a by simp
  ultimately show ?thesis by (auto simp: decay_def e Let_def)
qed

lemma decay_le: "0 \<le> x \<Longrightarrow> 0 \<le> decay x \<and> decay x \<le> x"
  by (auto simp: decay_def signed_divide_int_def Let_def sgn_if)

lemma decay_abs_le: "\<bar>decay x\<bar> \<le> \<bar>x\<bar>"
  using decay_le [of "\<bar>x\<bar>"] by (simp add: decay_abs)

lemma i16_range: "- 32768 \<le> sint (w :: i16)" "sint (w :: i16) < 32768"
  using sint_ge [of w] sint_lt [of w] by simp_all

lemma sint_of_int_i16: "- 32768 \<le> x \<Longrightarrow> x < 32768 \<Longrightarrow> sint (word_of_int x :: i16) = x"
  by (simp add: sint_sbintrunc' signed_take_bit_int_eq_self)

lemma sint_decayed: "sint (word_of_int (decay (sint (w :: i16))) :: i16) = decay (sint w)"
proof -
  have "decay (sint w) \<noteq> 32768"
    using decay_abs_le [of "sint w"] i16_range [of w]
    by (cases "sint w = - 32768") (auto simp: decay_def signed_divide_int_def)
  with decay_abs_le [of "sint w"] i16_range [of w] show ?thesis by (intro sint_of_int_i16) linarith+
qed

lemma next_sample_dry:
  "tq_samples q = [] \<Longrightarrow>
   snd (next_sample q) = word_of_int (decay (sint (tq_last_emitted q))) \<and>
   tq_last_emitted (fst (next_sample q)) = snd (next_sample q) \<and> tq_samples (fst (next_sample q)) = []"
  by (simp add: next_sample_def decay_def Let_def)

lemma next_samples_dry:
  "tq_samples q = [] \<Longrightarrow> i < n \<Longrightarrow>
   sint (snd (next_samples n q) ! i) = (decay ^^ Suc i) (sint (tq_last_emitted q))"
proof (induction n arbitrary: q i)
  case (Suc n)
  note d = next_sample_dry [OF Suc.prems(1)]
  show ?case
  proof (cases i)
    case 0
    with d show ?thesis by (simp add: split_beta Let_def sint_decayed)
  next
    case (Suc j)
    with Suc.IH [of "fst (next_sample q)" j] Suc.prems d show ?thesis
      by (simp add: split_beta Let_def sint_decayed funpow_swap1)
  qed
qed simp

lemma decay_iterates: "\<bar>(decay ^^ n) x\<bar> = (decay ^^ n) \<bar>x\<bar>"
  by (induction n) (simp_all add: decay_abs)

lemma decay_iterates_mono: "0 \<le> x \<Longrightarrow> x \<le> y \<Longrightarrow> 0 \<le> (decay ^^ n) x \<and> (decay ^^ n) x \<le> (decay ^^ n) y"
  by (induction n) (auto simp: decay_le decay_mono)

lemma decay_steps: "0 \<le> x \<Longrightarrow> (decay ^^ Suc n) x = (decay ^^ n) (if x * 7 div 8 < 4 then 0 else x * 7 div 8)"
  by (simp add: funpow_swap1 decay_def signed_divide_int_def Let_def sgn_if)

lemma decay_full_scale: "(decay ^^ 64) 32768 = 0"
  by (simp add: eval_nat_numeral decay_steps del: funpow.simps(2))

lemma decay_silent: "64 \<le> n \<Longrightarrow> \<bar>x\<bar> \<le> 32768 \<Longrightarrow> (decay ^^ n) x = 0"
proof -
  assume a: "64 \<le> n" "\<bar>x\<bar> \<le> 32768"
  have "(decay ^^ 64) \<bar>x\<bar> = 0" using decay_iterates_mono [of "\<bar>x\<bar>" 32768 64] a(2) by (simp add: decay_full_scale)
  then have "(decay ^^ 64) x = 0" using decay_iterates [of 64 x] by simp
  moreover have "(decay ^^ k) 0 = 0" for k by (induction k) (simp_all add: decay_def)
  moreover have "n = (n - 64) + 64" using a by simp
  ultimately show ?thesis by (metis comp_apply funpow_add)
qed

text \<open>When the queue runs dry the samples sent never grow and are silence from the
  sixty-fourth on, at whatever level the audio stopped.\<close>

theorem dry_queue_falls_silent:
  assumes "tq_samples q = []" "i < n"
  shows "\<bar>sint (snd (next_samples n q) ! i)\<bar> \<le> \<bar>sint (tq_last_emitted q)\<bar> \<and>
    (i + 1 < n \<longrightarrow> \<bar>sint (snd (next_samples n q) ! (i + 1))\<bar> \<le> \<bar>sint (snd (next_samples n q) ! i)\<bar>) \<and>
    (63 \<le> i \<longrightarrow> snd (next_samples n q) ! i = 0)"
proof -
  let ?x = "sint (tq_last_emitted q)"
  have "\<bar>(decay ^^ k) ?x\<bar> \<le> \<bar>?x\<bar>" for k
    by (induction k) (auto intro: order_trans [OF decay_abs_le])
  moreover have "\<bar>?x\<bar> \<le> 32768" using i16_range [of "tq_last_emitted q"] by linarith
  ultimately have "\<bar>(decay ^^ Suc i) ?x\<bar> \<le> \<bar>?x\<bar>" "63 \<le> i \<Longrightarrow> (decay ^^ Suc i) ?x = 0"
    using decay_silent [of "Suc i" ?x] by (blast, simp)
  moreover have "\<bar>(decay ^^ Suc (i + 1)) ?x\<bar> \<le> \<bar>(decay ^^ Suc i) ?x\<bar>" by (simp add: decay_abs_le)
  ultimately show ?thesis
    using next_samples_dry [OF assms(1), of i n] next_samples_dry [OF assms(1), of "i + 1" n] assms(2)
    by (metis signed_eq_0_iff)
qed

theorem dry_queue_falls_silent_witness:
  "snd (next_samples 70 ((tx_queue_new 8)\<lparr>tq_last_emitted := 32767\<rparr>)) ! 69 = 0"
  using dry_queue_falls_silent [of "(tx_queue_new 8)\<lparr>tq_last_emitted := 32767\<rparr>" 69 70]
  by (simp add: tx_queue_new_def)

text \<open>Audio that comes back is never louder than the sample it fades in.\<close>

lemma faded_sample_bounded:
  assumes "tq_samples q = s # r" "tx_queue_wf q"
  shows "\<bar>sint (snd (next_sample q))\<bar> \<le> \<bar>sint s\<bar>"
proof (cases "tq_fade_in q > 0")
  case True
  define g where "g = int (FADE_IN_SAMPLES - tq_fade_in q + 1)"
  have g: "0 < g" "g \<le> 24" using True assms(2) by (auto simp: g_def tx_queue_wf_def)
  define n where "n = sint s * g sdiv 24"
  have sgn: "n = sgn (sint s) * (\<bar>sint s\<bar> * g div 24)"
    using g by (simp add: n_def signed_divide_int_def abs_mult sgn_mult)
  have "\<bar>sint s\<bar> * g div 24 \<le> \<bar>sint s\<bar> * 24 div 24" using g by (intro zdiv_mono1 mult_left_mono) simp_all
  moreover have nn: "0 \<le> \<bar>sint s\<bar> * g div 24" using g by (simp add: pos_imp_zdiv_nonneg_iff)
  ultimately have "\<bar>n\<bar> \<le> \<bar>sint s\<bar>" by (simp add: sgn abs_mult abs_sgn_eq)
  moreover have "sint s \<ge> 0 \<Longrightarrow> n \<ge> 0" "sint s < 0 \<Longrightarrow> n \<le> 0"
    using nn by (auto simp: sgn sgn_if)
  ultimately have "sint (word_of_int n :: i16) = n" using i16_range [of s] by (intro sint_of_int_i16) linarith+
  with \<open>\<bar>n\<bar> \<le> \<bar>sint s\<bar>\<close> True assms(1) show ?thesis by (simp add: next_sample_def n_def g_def Let_def)
qed (simp add: next_sample_def assms(1))

text \<open>One packet of 24 samples, the longest the radio builds for narrow-band speech, still ends loud.\<close>

lemma decay_after_one_packet: "(decay ^^ 24) 32767 = 1326"
  by (simp add: eval_nat_numeral decay_steps del: funpow.simps(2))

text \<open>Clearing the queue between calls keeps the last sample sent: the next call begins with its decay.\<close>

lemma clear_keeps_tail:
  "sint (snd (next_sample (tx_queue_clear q))) = decay (sint (tq_last_emitted q))"
  using next_sample_dry [of "tx_queue_clear q"] by (simp add: tx_queue_clear_def sint_decayed)

text \<open>A queue that runs dry again during the fade-in does not count another underrun.\<close>

lemma underrun_during_fade_in_uncounted:
  "tq_fade_in q > 0 \<Longrightarrow> tq_samples q = [] \<Longrightarrow> tq_underruns (fst (next_sample q)) = tq_underruns q"
  by (simp add: next_sample_def Let_def)

end
