(* ===== verification/Transport_Recovery.thy ===== *)
theory Transport_Recovery
  imports Rust_Text Chunked_Stream
begin

text \<open>
  \<open>aokie_radio/transport_recovery.rs\<close>: what the runtime does about a dongle whose USB stream went bad, and which
  USB errors it rides out during a call.  Times are in milliseconds.
\<close>

section \<open>Sliding windows\<close>

text \<open>Both ledgers keep the times of what happened in a queue and forget the front of it when it is too old.
  The interface: \<open>old now at\<close> says that \<open>at\<close> is outside the window that ends \<open>now\<close>.\<close>

locale sliding_window =
  fixes old :: "instant \<Rightarrow> instant \<Rightarrow> bool"
  assumes older: "old now at \<Longrightarrow> at' \<le> at \<Longrightarrow> old now at'"
    and later: "old now at \<Longrightarrow> now \<le> now' \<Longrightarrow> old now' at"
begin

lemma dropWhile_filter:
  "sorted_wrt (\<le>) (map f xs) \<Longrightarrow> dropWhile (\<lambda>x. old now (f x)) xs = filter (\<lambda>x. \<not> old now (f x)) xs"
proof (induction xs)
  case (Cons x xs)
  show ?case
  proof (cases "old now (f x)")
    case False
    with Cons.prems have "\<forall>y \<in> set xs. \<not> old now (f y)" using older by auto
    with False show ?thesis by simp
  qed (use Cons in simp)
qed simp

text \<open>Forgetting now and again later is forgetting later.\<close>

lemma filter_later:
  "now \<le> now' \<Longrightarrow> filter (\<lambda>x. \<not> old now' (f x)) (filter (\<lambda>x. \<not> old now (f x)) xs) = filter (\<lambda>x. \<not> old now' (f x)) xs"
  using later by (auto intro!: filter_cong)

text \<open>When at most \<open>k\<close> of the recent ones are left each time another is added, the one \<open>k\<close> places back is outside
  the window.\<close>

lemma spaced:
  assumes "sorted ts" "\<And>j. j < length ts \<Longrightarrow> length (filter (\<lambda>t. \<not> old (ts ! j) t) (take j ts)) < k"
    and "i + k < length ts"
  shows "old (ts ! (i + k)) (ts ! i)"
proof (rule ccontr)
  assume recent: "\<not> old (ts ! (i + k)) (ts ! i)"
  let ?P = "\<lambda>t. \<not> old (ts ! (i + k)) t"
  have "\<forall>t \<in> set (drop i (take (i + k) ts)). ?P t"
  proof
    fix t assume "t \<in> set (drop i (take (i + k) ts))"
    then obtain n where "n < length (drop i (take (i + k) ts))" "t = drop i (take (i + k) ts) ! n"
      by (metis in_set_conv_nth)
    with assms(3) have "t = ts ! (i + n)" "i + n < length ts" by simp_all
    then have "ts ! i \<le> t" using assms(1) by (simp add: sorted_nth_mono)
    then show "?P t" using recent older by blast
  qed
  then have "filter ?P (drop i (take (i + k) ts)) = drop i (take (i + k) ts)" by (simp add: filter_id_conv)
  then have "length (filter ?P (take (i + k) ts)) \<ge> k"
    using assms(3) append_take_drop_id [of i "take (i + k) ts"]
    by (metis (no_types, lifting) filter_append le_add2 length_append length_drop length_take
        add_diff_cancel_left' min.absorb2 nat_less_le)
  with assms(2) [OF assms(3)] show False by simp
qed

end

section \<open>The recovery ladder\<close>

abbreviation (input) RECOVERY_WINDOW :: duration where "RECOVERY_WINDOW \<equiv> 1800000"
abbreviation (input) REOPEN_BACKOFF :: "duration list" where "REOPEN_BACKOFF \<equiv> [1000, 10000, 60000]"
abbreviation (input) REOPEN_RETRY_AFTER_GIVE_UP :: duration where "REOPEN_RETRY_AFTER_GIVE_UP \<equiv> 30000"
abbreviation (input) CAUSE_CORRUPTED_STREAM :: string where
  "CAUSE_CORRUPTED_STREAM \<equiv> ''Bluetooth dongle USB stream corrupted (continuous garbage in reads)''"

datatype Attempt = AttemptFlush | AttemptReopen

datatype RecoveryAction = FlushAclPipe | FlushAndReopenAfterCall | ReopenTransport duration | GiveUp

record TransportRecovery =
  tr_attempts :: "(instant \<times> Attempt) list"
  tr_reopen_in_progress :: bool
  tr_give_up_reported :: bool
  tr_initialized_since_check :: bool

definition recovery_new :: TransportRecovery where
  "recovery_new = \<lparr>tr_attempts = [], tr_reopen_in_progress = False, tr_give_up_reported = False,
     tr_initialized_since_check = False\<rparr>"

definition attempt_old :: "instant \<Rightarrow> instant \<Rightarrow> bool" where
  "attempt_old now at \<longleftrightarrow> now - at > RECOVERY_WINDOW"

definition recovery_prune :: "instant \<Rightarrow> TransportRecovery \<Rightarrow> TransportRecovery" where
  "recovery_prune now r =
     (let attempts = dropWhile (\<lambda>x. attempt_old now (fst x)) (tr_attempts r)
      in r\<lparr>tr_attempts := attempts, tr_give_up_reported := (if attempts = [] then False else tr_give_up_reported r)\<rparr>)"

definition attempt_count :: "TransportRecovery \<Rightarrow> Attempt \<Rightarrow> nat" where
  "attempt_count r kind = length (filter (\<lambda>x. snd x = kind) (tr_attempts r))"

definition reopen_or_give_up :: "instant \<Rightarrow> TransportRecovery \<Rightarrow> TransportRecovery \<times> RecoveryAction" where
  "reopen_or_give_up now r =
     (let reopens = attempt_count r AttemptReopen in
      if reopens < length REOPEN_BACKOFF
      then (r\<lparr>tr_attempts := tr_attempts r @ [(now, AttemptReopen)], tr_reopen_in_progress := True\<rparr>,
            ReopenTransport (REOPEN_BACKOFF ! reopens))
      else (r, GiveUp))"

definition on_dense_corruption :: "instant \<Rightarrow> bool \<Rightarrow> TransportRecovery \<Rightarrow> TransportRecovery \<times> RecoveryAction" where
  "on_dense_corruption now call_active r0 =
     (let r = recovery_prune now r0 in
      if attempt_count r AttemptFlush = 0
      then (r\<lparr>tr_attempts := tr_attempts r @ [(now, AttemptFlush)]\<rparr>, FlushAclPipe)
      else if call_active then (r, FlushAndReopenAfterCall)
      else reopen_or_give_up now r)"

definition after_call_ended :: "instant \<Rightarrow> TransportRecovery \<Rightarrow> TransportRecovery \<times> RecoveryAction" where
  "after_call_ended now r = reopen_or_give_up now (recovery_prune now r)"

definition next_reopen_after_failed_open :: "instant \<Rightarrow> TransportRecovery \<Rightarrow> TransportRecovery \<times> duration option" where
  "next_reopen_after_failed_open now r =
     (case reopen_or_give_up now (recovery_prune now r) of
        (r', ReopenTransport delay) \<Rightarrow> (r', Some delay)
      | (r', _) \<Rightarrow> (r', None))"

definition force_reopen :: "instant \<Rightarrow> TransportRecovery \<Rightarrow> TransportRecovery \<times> duration" where
  "force_reopen now r0 =
     (let r = recovery_prune now r0
      in (r\<lparr>tr_attempts := tr_attempts r @ [(now, AttemptReopen)], tr_reopen_in_progress := True\<rparr>, REOPEN_BACKOFF ! 0))"

definition mark_initialized :: "TransportRecovery \<Rightarrow> TransportRecovery" where
  "mark_initialized r = r\<lparr>tr_reopen_in_progress := False, tr_initialized_since_check := True\<rparr>"

definition take_initialized :: "TransportRecovery \<Rightarrow> TransportRecovery \<times> bool" where
  "take_initialized r = (r\<lparr>tr_initialized_since_check := False\<rparr>, tr_initialized_since_check r)"

definition take_give_up_report :: "TransportRecovery \<Rightarrow> TransportRecovery \<times> bool" where
  "take_give_up_report r =
     (if tr_give_up_reported r then (r, False) else (r\<lparr>tr_give_up_reported := True\<rparr>, True))"

definition attempt_counts :: "TransportRecovery \<Rightarrow> nat \<times> nat" where
  "attempt_counts r = (attempt_count r AttemptFlush, attempt_count r AttemptReopen)"

definition plural :: "nat \<Rightarrow> string \<Rightarrow> string \<Rightarrow> rstr" where
  "plural n one many = dec_digits n @ lit '' '' @ lit (if n = 1 then one else many)"

definition describe_attempts :: "nat \<Rightarrow> nat \<Rightarrow> rstr" where
  "describe_attempts flushes reopens =
     lit ''tried '' @ plural flushes ''USB pipe flush'' ''USB pipe flushes'' @ lit '' and '' @
     plural reopens ''dongle reset'' ''dongle resets''"

definition give_up_message :: "TransportRecovery \<Rightarrow> rstr \<Rightarrow> rstr option \<Rightarrow> rstr" where
  "give_up_message r cause detail =
     cause @ lit '' and software recovery did not clear it ('' @
     describe_attempts (attempt_count r AttemptFlush) (attempt_count r AttemptReopen) @ lit '' in the last '' @
     dec_digits (RECOVERY_WINDOW div 1000 div 60) @
     lit '' minutes) - connections cannot succeed until the dongle is power-cycled: unplug it, wait 5 seconds, plug it back in'' @
     (case detail of Some d \<Rightarrow> lit '' (last reopen failed: '' @ d @ lit '')'' | None \<Rightarrow> [])"

section \<open>Errors ridden out during a call\<close>

abbreviation (input) HICCUP_WINDOW :: duration where "HICCUP_WINDOW \<equiv> 10000"
abbreviation (input) HICCUP_LIMIT :: nat where "HICCUP_LIMIT \<equiv> 5"

record UsbHiccups =
  uh_recent :: "instant list"

definition dongle_gone :: "rstr \<Rightarrow> bool" where
  "dongle_gone error =
     (let lower = map to_ascii_lowercase error;
          win32_code = Option.bind (split_str_nth1 (lit ''win32 error '') lower)
            (\<lambda>rest. parse_u32_digits (takeWhile is_ascii_digit rest))
      in contains_str (lit ''no such device'') lower \<or> contains_str (lit ''dongle is gone'') lower \<or>
         win32_code \<in> {Some 1167, Some 22, Some 433})"

definition hiccup_old :: "instant \<Rightarrow> instant \<Rightarrow> bool" where
  "hiccup_old now at \<longleftrightarrow> now - at \<ge> HICCUP_WINDOW"

definition ride_out :: "rstr \<Rightarrow> bool \<Rightarrow> instant \<Rightarrow> UsbHiccups \<Rightarrow> UsbHiccups \<times> bool" where
  "ride_out error call_up now h =
     (if \<not> call_up \<or> dongle_gone error then (h, False)
      else
        let recent = dropWhile (hiccup_old now) (uh_recent h) @ [now]
        in (h\<lparr>uh_recent := recent\<rparr>, length recent < HICCUP_LIMIT))"

section \<open>How often the dongle is reopened\<close>

interpretation recovery_window: sliding_window attempt_old
  by unfold_locales (auto simp: attempt_old_def)

interpretation hiccup_window: sliding_window hiccup_old
  by unfold_locales (auto simp: hiccup_old_def)

text \<open>What the runtime tells the ladder, and the reopens (when, after which wait) that come out of it.\<close>

datatype RecoveryEvent =
    DenseCorruption bool
  | CallEnded
  | OpenFailed
  | ResetRequested
  | ControllerInitialized
  | InitializedAsked
  | ReportAsked

definition reopens_of :: "instant \<Rightarrow> TransportRecovery \<times> RecoveryAction \<Rightarrow> TransportRecovery \<times> (instant \<times> duration) list" where
  "reopens_of now res = (fst res, case snd res of ReopenTransport delay \<Rightarrow> [(now, delay)] | _ \<Rightarrow> [])"

fun recovery_step :: "TransportRecovery \<Rightarrow> instant \<times> RecoveryEvent \<Rightarrow> TransportRecovery \<times> (instant \<times> duration) list" where
  "recovery_step r (now, DenseCorruption call_active) = reopens_of now (on_dense_corruption now call_active r)"
| "recovery_step r (now, CallEnded) = reopens_of now (after_call_ended now r)"
| "recovery_step r (now, OpenFailed) =
     (case next_reopen_after_failed_open now r of
        (r', Some delay) \<Rightarrow> (r', [(now, delay)]) | (r', None) \<Rightarrow> (r', []))"
| "recovery_step r (now, ResetRequested) = (fst (force_reopen now r), [(now, snd (force_reopen now r))])"
| "recovery_step r (now, ControllerInitialized) = (mark_initialized r, [])"
| "recovery_step r (now, InitializedAsked) = (fst (take_initialized r), [])"
| "recovery_step r (now, ReportAsked) = (fst (take_give_up_report r), [])"

definition reopen_times :: "TransportRecovery \<Rightarrow> instant list" where
  "reopen_times r = map fst (filter (\<lambda>x. snd x = AttemptReopen) (tr_attempts r))"

text \<open>The ledger holds the reopens of the window, all that happened being the list \<open>hist\<close>.\<close>

definition ledger_inv :: "instant \<Rightarrow> instant list \<Rightarrow> TransportRecovery \<Rightarrow> bool" where
  "ledger_inv now hist r \<longleftrightarrow>
     sorted (map fst (tr_attempts r)) \<and> (\<forall>x \<in> set (tr_attempts r). fst x \<le> now) \<and>
     (\<forall>later \<ge> now. filter (\<lambda>t. \<not> attempt_old later t) (reopen_times r) = filter (\<lambda>t. \<not> attempt_old later t) hist)"

lemma attempt_count_reopen: "attempt_count r AttemptReopen = length (reopen_times r)"
  by (simp add: attempt_count_def reopen_times_def)

lemma recovery_prune_inv:
  assumes "ledger_inv t hist r" "t \<le> now"
  shows "ledger_inv now hist (recovery_prune now r)"
    and "reopen_times (recovery_prune now r) = filter (\<lambda>t. \<not> attempt_old now t) hist"
proof -
  have s: "sorted (map fst (tr_attempts r))" "\<forall>x \<in> set (tr_attempts r). fst x \<le> t"
    and h: "\<And>later. t \<le> later \<Longrightarrow> filter (\<lambda>t. \<not> attempt_old later t) (reopen_times r) = filter (\<lambda>t. \<not> attempt_old later t) hist"
    using assms(1) by (auto simp: ledger_inv_def)
  let ?P = "\<lambda>x. \<not> attempt_old now (fst x)"
  have a: "tr_attempts (recovery_prune now r) = filter ?P (tr_attempts r)"
    using recovery_window.dropWhile_filter [of fst "tr_attempts r" now] s(1)
    by (simp add: recovery_prune_def Let_def)
  have "filter (\<lambda>x. snd x = AttemptReopen) (filter ?P (tr_attempts r)) = filter ?P (filter (\<lambda>x. snd x = AttemptReopen) (tr_attempts r))"
    by (simp add: conj_commute)
  then have "reopen_times (recovery_prune now r) = filter (\<lambda>t. \<not> attempt_old now t) (reopen_times r)"
    unfolding reopen_times_def a by (simp add: filter_map comp_def)
  with h [OF assms(2)] show rt: "reopen_times (recovery_prune now r) = filter (\<lambda>t. \<not> attempt_old now t) hist" by simp
  show "ledger_inv now hist (recovery_prune now r)"
    unfolding ledger_inv_def rt a
    using s assms(2) recovery_window.filter_later [of now _ id hist]
    by (auto simp: sorted_filter intro: order_trans)
qed

lemma ledger_add_reopen:
  assumes "ledger_inv now hist r"
  shows "ledger_inv now (hist @ [now]) (r\<lparr>tr_attempts := tr_attempts r @ [(now, AttemptReopen)], tr_reopen_in_progress := b\<rparr>)"
  using assms by (auto simp: ledger_inv_def reopen_times_def sorted_append)

lemma ledger_add_flush:
  assumes "ledger_inv now hist r"
  shows "ledger_inv now hist (r\<lparr>tr_attempts := tr_attempts r @ [(now, AttemptFlush)]\<rparr>)"
  using assms by (auto simp: ledger_inv_def reopen_times_def sorted_append)

lemma ledger_same_attempts: "ledger_inv t hist r \<Longrightarrow> t \<le> now \<Longrightarrow> tr_attempts r' = tr_attempts r \<Longrightarrow> ledger_inv now hist r'"
  by (auto simp: ledger_inv_def reopen_times_def intro: order_trans)

text \<open>A step keeps the ledger, and a reopen it chooses on its own comes after fewer than three in the window.\<close>

lemma reopen_or_give_up_step:
  assumes "ledger_inv now hist r" "reopen_times r = filter (\<lambda>t. \<not> attempt_old now t) hist"
  shows "ledger_inv now (hist @ map fst (snd (reopens_of now (reopen_or_give_up now r)))) (fst (reopen_or_give_up now r))"
    and "snd (reopens_of now (reopen_or_give_up now r)) = [(now', delay)] \<Longrightarrow>
       length (filter (\<lambda>t. \<not> attempt_old now t) hist) < 3 \<and>
       delay = REOPEN_BACKOFF ! length (filter (\<lambda>t. \<not> attempt_old now t) hist)"
  using assms ledger_add_reopen [OF assms(1)]
  by (auto simp: reopen_or_give_up_def reopens_of_def Let_def attempt_count_reopen numeral_3_eq_3 split: if_splits)

lemma recovery_step_ledger:
  assumes "ledger_inv t hist r" "t \<le> now"
  shows "ledger_inv now (hist @ map fst (snd (recovery_step r (now, ev)))) (fst (recovery_step r (now, ev)))"
    and "ev \<noteq> ResetRequested \<Longrightarrow> snd (recovery_step r (now, ev)) = [(now', delay)] \<Longrightarrow>
       length (filter (\<lambda>t. \<not> attempt_old now t) hist) < 3 \<and>
       delay = REOPEN_BACKOFF ! length (filter (\<lambda>t. \<not> attempt_old now t) hist) \<and> ev \<noteq> DenseCorruption True"
proof -
  note p = recovery_prune_inv [OF assms]
  note s = reopen_or_give_up_step [OF p]
  have failed: "recovery_step r (now, OpenFailed) = recovery_step r (now, CallEnded)"
    by (auto simp: next_reopen_after_failed_open_def after_call_ended_def reopens_of_def split: prod.split RecoveryAction.split)
  show "ledger_inv now (hist @ map fst (snd (recovery_step r (now, ev)))) (fst (recovery_step r (now, ev)))"
  proof (cases ev)
    case (DenseCorruption call_active)
    then show ?thesis
      using s(1) p(1) ledger_add_flush [OF p(1)]
      by (simp add: on_dense_corruption_def Let_def) (simp add: reopens_of_def)
  next
    case CallEnded
    then show ?thesis using s(1) by (simp add: after_call_ended_def) (simp add: reopens_of_def)
  next
    case OpenFailed
    then show ?thesis unfolding OpenFailed failed using s(1) by (simp add: after_call_ended_def) (simp add: reopens_of_def)
  next
    case ResetRequested
    then show ?thesis using ledger_add_reopen [OF p(1)] by (simp add: force_reopen_def Let_def)
  qed (use ledger_same_attempts [OF assms] in
      \<open>simp_all add: mark_initialized_def take_initialized_def take_give_up_report_def\<close>)
  assume ev: "ev \<noteq> ResetRequested" "snd (recovery_step r (now, ev)) = [(now', delay)]"
  then show "length (filter (\<lambda>t. \<not> attempt_old now t) hist) < 3 \<and>
       delay = REOPEN_BACKOFF ! length (filter (\<lambda>t. \<not> attempt_old now t) hist) \<and> ev \<noteq> DenseCorruption True"
  proof (cases ev)
    case (DenseCorruption call_active)
    with ev s(2) show ?thesis
      by (cases "attempt_count (recovery_prune now r) AttemptFlush = 0"; cases call_active)
        (auto simp: on_dense_corruption_def Let_def reopens_of_def)
  next
    case CallEnded
    with ev s(2) show ?thesis by (simp add: after_call_ended_def)
  next
    case OpenFailed
    with ev s(2) failed show ?thesis by (simp add: after_call_ended_def)
  qed simp_all
qed

lemma recovery_run_ledger:
  "ledger_inv t hist r \<Longrightarrow> sorted (map fst evs) \<Longrightarrow> \<forall>e \<in> set evs. t \<le> fst e \<Longrightarrow> \<forall>e \<in> set evs. fst e \<le> now \<Longrightarrow> t \<le> now \<Longrightarrow>
   ledger_inv now (hist @ map fst (snd (feed_all recovery_step r evs))) (fst (feed_all recovery_step r evs))"
proof (induction evs arbitrary: t hist r)
  case Nil
  then show ?case using ledger_same_attempts [of t hist r now r] by simp
next
  case (Cons e evs)
  obtain now' ev where e: "e = (now', ev)" by (cases e)
  have "ledger_inv now' (hist @ map fst (snd (recovery_step r e))) (fst (recovery_step r e))"
    using recovery_step_ledger(1) [OF Cons.prems(1), of now' ev] Cons.prems(3) e by simp
  from Cons.IH [OF this] Cons.prems e show ?case by (simp add: append_assoc)
qed



text \<open>The report that recovery gave up is made again only after a time without any attempt in the window: when the
  ladder gives up again in the meantime, the second time is not reported.\<close>

lemma second_give_up_not_reported:
  "let r = \<lparr>tr_attempts = [(0, AttemptFlush), (0, AttemptReopen), (600000, AttemptReopen), (1200000, AttemptReopen), (1200000, AttemptFlush)],
            tr_reopen_in_progress = False, tr_give_up_reported = False, tr_initialized_since_check = False\<rparr>;
       (r1, a1) = after_call_ended 1700000 r;
       (r2, told1) = take_give_up_report r1;
       (r3, a3) = after_call_ended 1860000 r2;
       (r4, a4) = after_call_ended 1900000 r3;
       (r5, told2) = take_give_up_report r4
   in a1 = GiveUp \<and> told1 \<and> a3 = ReopenTransport 60000 \<and> a4 = GiveUp \<and> \<not> told2"
  by (simp add: after_call_ended_def recovery_prune_def attempt_count_def reopen_or_give_up_def attempt_old_def
      take_give_up_report_def)

section \<open>How many errors a call rides out\<close>

definition ride_errors :: "UsbHiccups \<Rightarrow> (rstr \<times> instant) list \<Rightarrow> UsbHiccups \<times> bool list" where
  "ride_errors h errs = feed_all (\<lambda>h e. (fst (ride_out (fst e) True (snd e) h), [snd (ride_out (fst e) True (snd e) h)])) h errs"

definition hiccups_inv :: "instant \<Rightarrow> instant list \<Rightarrow> UsbHiccups \<Rightarrow> bool" where
  "hiccups_inv now hist h \<longleftrightarrow>
     sorted (uh_recent h) \<and> (\<forall>t \<in> set (uh_recent h). t \<le> now) \<and>
     (\<forall>later \<ge> now. filter (\<lambda>t. \<not> hiccup_old later t) (uh_recent h) = filter (\<lambda>t. \<not> hiccup_old later t) hist)"

lemma ride_out_step:
  assumes "hiccups_inv t hist h" "t \<le> now" "snd (ride_out error True now h)"
  shows "hiccups_inv now (hist @ [now]) (fst (ride_out error True now h))"
    and "length (filter (\<lambda>t. \<not> hiccup_old now t) hist) < 4"
proof -
  have s: "sorted (uh_recent h)" "\<forall>t' \<in> set (uh_recent h). t' \<le> t"
    and f: "\<And>later. t \<le> later \<Longrightarrow> filter (\<lambda>t. \<not> hiccup_old later t) (uh_recent h) = filter (\<lambda>t. \<not> hiccup_old later t) hist"
    using assms(1) by (auto simp: hiccups_inv_def)
  have d: "dropWhile (hiccup_old now) (uh_recent h) = filter (\<lambda>t. \<not> hiccup_old now t) (uh_recent h)"
    using hiccup_window.dropWhile_filter [of id "uh_recent h" now] s(1) by (simp add: id_def)
  have r: "fst (ride_out error True now h) = h\<lparr>uh_recent := filter (\<lambda>t. \<not> hiccup_old now t) (uh_recent h) @ [now]\<rparr>"
    and l: "length (filter (\<lambda>t. \<not> hiccup_old now t) (uh_recent h)) < 4"
    using assms(3) by (auto simp: ride_out_def d Let_def split: if_splits)
  from l f [OF assms(2)] show "length (filter (\<lambda>t. \<not> hiccup_old now t) hist) < 4" by simp
  have s': "sorted (filter (\<lambda>t. \<not> hiccup_old now t) (uh_recent h))"
    using sorted_filter [of id "uh_recent h"] s(1) by simp
  have le: "\<forall>t' \<in> set (filter (\<lambda>t. \<not> hiccup_old now t) (uh_recent h)). t' \<le> now"
    using s(2) assms(2) by (auto intro: order_trans)
  show "hiccups_inv now (hist @ [now]) (fst (ride_out error True now h))"
    unfolding hiccups_inv_def r
    using s s' le assms(2) f hiccup_window.filter_later [of now _ id "uh_recent h"]
    by (auto simp: sorted_append intro: order_trans)
qed

lemma ride_errors_counts:
  assumes "hiccups_inv t hist h" "sorted (t # map snd errs)" "list_all (\<lambda>b. b) (snd (ride_errors h errs))"
    and "j < length errs"
  shows "length (filter (\<lambda>t. \<not> hiccup_old (snd (errs ! j)) t) (hist @ map snd (take j errs))) < 4"
  using assms
proof (induction errs arbitrary: t hist h j)
  case (Cons e errs)
  let ?h = "fst (ride_out (fst e) True (snd e) h)"
  have ok: "snd (ride_out (fst e) True (snd e) h)" "list_all (\<lambda>b. b) (snd (ride_errors ?h errs))"
    using Cons.prems(3) by (simp_all add: ride_errors_def)
  have t: "t \<le> snd e" using Cons.prems(2) by simp
  note step = ride_out_step [OF Cons.prems(1) t ok(1)]
  show ?case
  proof (cases j)
    case 0
    with step(2) show ?thesis by simp
  next
    case (Suc i)
    have "sorted (snd e # map snd errs)" using Cons.prems(2) by simp
    from Cons.IH [OF step(1) this ok(2), of i] Cons.prems(4) Suc show ?thesis by simp
  qed
qed simp

text \<open>As long as a call rides out every error, five of them never fall within ten seconds.\<close>

theorem hiccups_rate_limited:
  assumes "sorted (map snd errs)" "list_all (\<lambda>b. b) (snd (ride_errors \<lparr>uh_recent = []\<rparr> errs))" "i + 4 < length errs"
  shows "snd (errs ! (i + 4)) - snd (errs ! i) \<ge> HICCUP_WINDOW"
proof -
  have "hiccups_inv 0 [] \<lparr>uh_recent = []\<rparr>" by (simp add: hiccups_inv_def)
  from ride_errors_counts [OF this _ assms(2)] assms(1)
  have "length (filter (\<lambda>t. \<not> hiccup_old (map snd errs ! j) t) (take j (map snd errs))) < 4" if "j < length errs" for j
    using that by (simp add: take_map)
  from hiccup_window.spaced [OF assms(1), of 4 i] this assms(3) show ?thesis by (simp add: hiccup_old_def)
qed

theorem hiccups_rate_limited_witness:
  "snd ([([] :: rstr, 0), ([], 3000), ([], 6000), ([], 9000), ([], 12000)] ! (0 + 4)) -
     snd ([([] :: rstr, 0), ([], 3000), ([], 6000), ([], 9000), ([], 12000)] ! 0) \<ge> HICCUP_WINDOW"
proof (rule hiccups_rate_limited)
  have "\<not> dongle_gone []" by code_simp
  then show "list_all (\<lambda>b. b) (snd (ride_errors \<lparr>uh_recent = []\<rparr> [([], 0), ([], 3000), ([], 6000), ([], 9000), ([], 12000)]))"
    by (simp add: ride_errors_def ride_out_def hiccup_old_def)
qed simp_all

text \<open>An error that says the dongle is gone is never ridden out.\<close>

lemma gone_not_ridden_out: "dongle_gone error \<Longrightarrow> ride_out error call_up now h = (h, False)"
  by (simp add: ride_out_def)

lemma dongle_gone_example: "dongle_gone (lit ''libusb: No Such Device'')"
  by code_simp

end
