(* ===== verification/Obex_Get.thy ===== *)
theory Obex_Get
  imports Obex Rust_Text
begin

text \<open>
  What the phone-book and the message sessions share: the texts of a refused answer and of an assembler's error,
  the connection id and the Single Response Mode flag of an answer, and the contract of a session that fetches a
  body over several answers.  Both sessions are instances of the contract, so the body they end with is proved once.
\<close>

section \<open>Answers\<close>

text \<open>Rust's \<open>{:?}\<close> of a slice of octets.\<close>

fun comma_digits :: "bytes \<Rightarrow> rstr" where
  "comma_digits [] = []"
| "comma_digits [b] = dec_digits (unat b)"
| "comma_digits (b # bs) = dec_digits (unat b) @ lit '', '' @ comma_digits bs"

definition debug_bytes :: "bytes \<Rightarrow> rstr" where
  "debug_bytes bs = lit ''['' @ comma_digits bs @ lit '']''"

definition refusal_text :: "rstr \<Rightarrow> u8 \<Rightarrow> bytes \<Rightarrow> rstr" where
  "refusal_text who opcode expected =
     who @ lit '': server returned 0x'' @ hex2 False opcode @ lit '' (expected one of '' @ debug_bytes expected @ lit '')''"

text \<open>The text of what \<open>BodyAssembler::push\<close> refuses: an over-long body, or anything after its end.\<close>

definition push_error_text :: "obex_error \<Rightarrow> rstr" where
  "push_error_text e =
     (case e of
        BodyOverLimit limit had len \<Rightarrow>
          lit ''BodyAssembler: body over its '' @ dec_digits limit @ lit ''-byte limit ('' @ dec_digits had @
          lit '' bytes held, '' @ dec_digits len @ lit '' more came)''
      | _ \<Rightarrow> lit ''BodyAssembler: response after EndOfBody'')"

definition answer_connection_id :: "Packet \<Rightarrow> u32 option" where
  "answer_connection_id p =
     (case packet_header p HDR_CONNECTION_ID of Some (HQuad _ v) \<Rightarrow> Some v | _ \<Rightarrow> None)"

definition answer_srm :: "Packet \<Rightarrow> bool" where
  "answer_srm p = (case packet_header p HDR_SRM of Some (HByte _ v) \<Rightarrow> v = 1 | _ \<Rightarrow> False)"

lemma push_errors:
  "assembler_push a p = (Inl e, a') \<Longrightarrow> e = BodyAfterEnd \<or> (\<exists>l h m. e = BodyOverLimit l h m)"
proof -
  have "fst (assembler_push_headers a hs) = Inl e \<Longrightarrow> \<exists>l h m. e = BodyOverLimit l h m" for a hs
    by (induction a hs rule: assembler_push_headers.induct) (auto split: Header.splits if_splits)
  then show "assembler_push a p = (Inl e, a') \<Longrightarrow> ?thesis"
    by (metis assembler_push_def fst_conv sum.inject(1))
qed

lemma push_complete: "assembler_push a p = (Inr c, a') \<Longrightarrow> ba_complete a' = c"
proof -
  have "fst (assembler_push_headers b hs) = Inr c \<Longrightarrow> ba_complete (snd (assembler_push_headers b hs)) = c" for b hs
    by (induction b hs rule: assembler_push_headers.induct) (auto split: Header.splits if_splits)
  from this [of a "pk_headers p"] show "assembler_push a p = (Inr c, a') \<Longrightarrow> ba_complete a' = c"
    by (auto simp: assembler_push_def split: if_splits)
qed

section \<open>What an answer adds to the body\<close>

fun body_part :: "Header \<Rightarrow> bytes" where
  "body_part (HByteSeq i v) = (if i = HDR_BODY \<or> i = HDR_END_OF_BODY then v else [])"
| "body_part _ = []"

fun ends_body :: "Header \<Rightarrow> bool" where
  "ends_body (HByteSeq i v) = (i = HDR_END_OF_BODY)"
| "ends_body _ = False"

definition packet_body :: "Packet \<Rightarrow> bytes" where
  "packet_body p = concat (map body_part (pk_headers p))"

definition packet_ends :: "Packet \<Rightarrow> bool" where
  "packet_ends p = list_ex ends_body (pk_headers p)"

lemma push_headers_takes:
  "fits_limit (ba_limit a) (length (ba_bytes a) + length (concat (map body_part hs))) \<Longrightarrow>
   assembler_push_headers a hs =
     (Inr (ba_complete a \<or> list_ex ends_body hs),
      a\<lparr>ba_bytes := ba_bytes a @ concat (map body_part hs), ba_complete := ba_complete a \<or> list_ex ends_body hs\<rparr>)"
proof (induction a hs rule: assembler_push_headers.induct)
  case (2 a h hs)
  show ?case
  proof (cases h)
    case (HByteSeq i v)
    show ?thesis
    proof (cases "i = HDR_BODY \<or> i = HDR_END_OF_BODY")
      case True
      have "fits_limit (ba_limit a) (length (ba_bytes a) + length v)"
        using "2.prems" by (rule fits_limit_mono) (use True HByteSeq in auto)
      then have "\<not> over_limit a v" by (simp add: over_limit_fits)
      with True HByteSeq 2 show ?thesis by (auto simp: add.assoc)
    qed (use HByteSeq 2 in auto)
  qed (use 2 in auto)
qed simp

lemma push_takes:
  "\<not> ba_complete a \<Longrightarrow> fits_limit (ba_limit a) (length (ba_bytes a) + length (packet_body p)) \<Longrightarrow>
   assembler_push a p =
     (Inr (packet_ends p), a\<lparr>ba_bytes := ba_bytes a @ packet_body p, ba_complete := packet_ends p\<rparr>)"
  by (simp add: assembler_push_def push_headers_takes packet_body_def packet_ends_def)

section \<open>A session that fetches a body\<close>

definition answer_ok :: "nat \<Rightarrow> Packet \<Rightarrow> bool" where
  "answer_ok n p = (length (pk_fixed_payload p) = n \<and> list_all header_ok (pk_headers p) \<and> packet_total p < 65536)"

text \<open>Answers that the session takes one after the other: each has the fields that its state expects, none but the
  last ends it, and what it asks for is what is sent.\<close>

fun answers_fit :: "('s \<Rightarrow> FixedPayload) \<Rightarrow> ('s \<Rightarrow> Packet \<Rightarrow> bytes option \<times> 's) \<Rightarrow> ('s \<Rightarrow> bool) \<Rightarrow> 's \<Rightarrow> Packet list \<Rightarrow> bool" where
  "answers_fit fixed step stop s [] = True"
| "answers_fit fixed step stop s (p # ps) =
     (length (pk_fixed_payload p) = fixed_len (fixed s) \<and> list_all header_ok (pk_headers p) \<and> packet_total p < 65536 \<and>
      (ps = [] \<or> \<not> stop (snd (step s p))) \<and> answers_fit fixed step stop (snd (step s p)) ps)"

lemma fits_append:
  assumes "answers_fit fixed step stop s ps" "answers_fit fixed step stop (foldl (\<lambda>s p. snd (step s p)) s ps) qs"
    and "\<not> stop (foldl (\<lambda>s p. snd (step s p)) s ps)"
  shows "answers_fit fixed step stop s (ps @ qs)"
  using assms by (induction ps arbitrary: s) auto

text \<open>
  \<open>step\<close> takes an answer, \<open>getting\<close> says that a body is being fetched, \<open>body\<close> is its assembler, \<open>kept\<close> is what the
  fetch does not touch, and \<open>finish\<close> is what the session does, and becomes, with the whole body.
\<close>

locale get_session =
  fixes step :: "'s \<Rightarrow> Packet \<Rightarrow> bytes option \<times> 's"
    and getting :: "'s \<Rightarrow> bool" and body :: "'s \<Rightarrow> BodyAssembler" and kept :: "'s \<Rightarrow> 'k" and view :: "'s \<Rightarrow> 'v"
    and finish :: "'k \<Rightarrow> bytes \<Rightarrow> bytes option \<times> 'v"
  assumes cont: "getting s \<Longrightarrow> pk_opcode p = RSP_CONTINUE \<Longrightarrow> assembler_push (body s) p = (Inr c, a) \<Longrightarrow>
      getting (snd (step s p)) \<and> body (snd (step s p)) = a \<and> kept (snd (step s p)) = kept s"
    and final: "getting s \<Longrightarrow> pk_opcode p = RSP_OK \<Longrightarrow> assembler_push (body s) p = (Inr True, a) \<Longrightarrow>
      (fst (step s p), view (snd (step s p))) = finish (kept s) (ba_bytes a)"
begin

lemma fetch_more:
  assumes "getting s" "\<not> ba_complete (body s)" "\<forall>p \<in> set ps. pk_opcode p = RSP_CONTINUE \<and> \<not> packet_ends p"
    and "fits_limit (ba_limit (body s)) (length (ba_bytes (body s)) + length (concat (map packet_body ps)))"
  shows "getting (foldl (\<lambda>s p. snd (step s p)) s ps) \<and> kept (foldl (\<lambda>s p. snd (step s p)) s ps) = kept s \<and>
    body (foldl (\<lambda>s p. snd (step s p)) s ps) = (body s)\<lparr>ba_bytes := ba_bytes (body s) @ concat (map packet_body ps)\<rparr>"
  using assms
proof (induction ps arbitrary: s)
  case (Cons p ps)
  let ?a = "(body s)\<lparr>ba_bytes := ba_bytes (body s) @ packet_body p\<rparr>"
  have "fits_limit (ba_limit (body s)) (length (ba_bytes (body s)) + length (packet_body p))"
    using Cons.prems(4) by (rule fits_limit_mono) simp
  then have push: "assembler_push (body s) p = (Inr False, ?a)"
    using push_takes [of "body s" p] Cons.prems by (simp add: fun_eq_iff)
  have s: "getting (snd (step s p))" "body (snd (step s p)) = ?a" "kept (snd (step s p)) = kept s"
    using cont [OF Cons.prems(1) _ push] Cons.prems(3) by simp_all
  have "getting (foldl (\<lambda>s p. snd (step s p)) (snd (step s p)) ps) \<and>
      kept (foldl (\<lambda>s p. snd (step s p)) (snd (step s p)) ps) = kept (snd (step s p)) \<and>
      body (foldl (\<lambda>s p. snd (step s p)) (snd (step s p)) ps) =
        (body (snd (step s p)))\<lparr>ba_bytes := ba_bytes (body (snd (step s p))) @ concat (map packet_body ps)\<rparr>"
    by (rule Cons.IH) (use s Cons.prems in \<open>simp_all add: add.assoc\<close>)
  with s show ?case by simp
qed simp

lemma fetched:
  assumes "getting s" "\<not> ba_complete (body s)" "\<forall>p \<in> set ps. pk_opcode p = RSP_CONTINUE \<and> \<not> packet_ends p"
    and "pk_opcode q = RSP_OK" "packet_ends q"
    and "fits_limit (ba_limit (body s)) (length (ba_bytes (body s)) + length (concat (map packet_body (ps @ [q]))))"
  shows "let s' = foldl (\<lambda>s p. snd (step s p)) s ps in
    (fst (step s' q), view (snd (step s' q))) =
      finish (kept s) (ba_bytes (body s) @ concat (map packet_body (ps @ [q])))"
proof -
  define s' where "s' = foldl (\<lambda>s p. snd (step s p)) s ps"
  have s': "getting s'" "kept s' = kept s"
      "body s' = (body s)\<lparr>ba_bytes := ba_bytes (body s) @ concat (map packet_body ps)\<rparr>"
    using fetch_more [OF assms(1-3)] assms(6) fits_limit_mono by (auto simp: s'_def)
  then have "assembler_push (body s') q =
      (Inr True, (body s)\<lparr>ba_bytes := ba_bytes (body s) @ concat (map packet_body (ps @ [q])), ba_complete := True\<rparr>)"
    using push_takes [of "body s'" q] assms by (simp add: add.assoc)
  from final [OF s'(1) assms(4) this] show ?thesis unfolding Let_def s'_def [symmetric] s'(2) by simp
qed

text \<open>The answers of a download fit a session that waits for no fields while it downloads.\<close>

lemma fetch_fits:
  assumes wait: "\<And>s. getting s \<Longrightarrow> fixed s = FixedNone \<and> \<not> stop s"
    and "getting s" "\<not> ba_complete (body s)" "\<forall>p \<in> set ps. pk_opcode p = RSP_CONTINUE \<and> \<not> packet_ends p"
    and "fits_limit (ba_limit (body s)) (length (ba_bytes (body s)) + length (concat (map packet_body ps)))"
    and "list_all (answer_ok 0) ps"
  shows "answers_fit fixed step stop s ps"
  using assms(2-)
proof (induction ps arbitrary: s)
  case (Cons p ps)
  have "fits_limit (ba_limit (body s)) (length (ba_bytes (body s)) + length (concat (map packet_body [p])))"
    using Cons.prems(4) by (rule fits_limit_mono) simp
  then have s: "getting (snd (step s p))" "body (snd (step s p)) = (body s)\<lparr>ba_bytes := ba_bytes (body s) @ packet_body p\<rparr>"
    using fetch_more [OF Cons.prems(1,2), of "[p]"] Cons.prems(3) by simp_all
  have "answers_fit fixed step stop (snd (step s p)) ps"
    by (rule Cons.IH) (use s Cons.prems in \<open>simp_all add: add.assoc\<close>)
  with wait [OF Cons.prems(1)] wait [OF s(1)] Cons.prems(5) show ?case by (simp add: answer_ok_def)
qed simp

end

end
