(* ===== verification/Obex_Drive.thy ===== *)
theory Obex_Drive
  imports Obex_Get L2cap Sdp_Client
begin

text \<open>
  What \<open>pbap_runtime.rs\<close> and \<open>map_runtime.rs\<close> share.  Both look up a service, reach it over the multiplexer that is
  already up or over a channel of their own, and then drive an OBEX session: what arrives is cut into packets, each
  is given to the session, and what the session asks for is sent.  The four copies of that loop in the sources are
  one function here, with the session and the way to send as its arguments.
\<close>

section \<open>Reasons and errors\<close>

text \<open>Why a runtime gave up (the sources give each a text), and what makes a tick return an error.\<close>

datatype profile_reason =
    ProfileStalled
  | ProfileContinuation
  | ProfileRecordsTooLong
  | ProfileNoChannel
  | ProfileSdp sdp_error
  | ProfileReply sdp_failure
  | ProfileAttach l2cap_error
  | ProfileNoRequest
  | ProfileClosedEarly
  | ProfileClosed
  | ProfileClient client_reason
  | ProfileDlci dlci_reason
  | ProfileHeader nat
  | ProfileParse obex_error
  | ProfileSession rstr

datatype profile_error =
    ProfileL2 l2cap_error
  | ProfileFrame rfcomm_error
  | ProfileUih client_error

section \<open>Cutting packets\<close>

definition obex_try_take :: "bytes \<Rightarrow> nat + nat option" where
  "obex_try_take buffer =
     (if length buffer < 3 then Inr None
      else
        let len = unat (u16_from_be_bytes (buffer ! 1) (buffer ! 2)) in
        if len < 3 then Inl len
        else if length buffer < len then Inr None
        else Inr (Some len))"

lemma obex_take_bounds: "obex_try_take b = Inr (Some n) \<Longrightarrow> 3 \<le> n \<and> n \<le> length b"
  by (auto simp: obex_try_take_def Let_def split: if_splits)

section \<open>The loop\<close>

datatype ('s, 'e) driven =
    DriveOn 's bytes
  | DriveStop 's bytes
  | DriveHeader nat
  | DriveParse obex_error
  | DriveError 'e

definition drive_send ::
    "(bytes \<Rightarrow> 'x \<Rightarrow> 'e + bytes \<times> 'x) \<Rightarrow> bytes option \<Rightarrow> 'x \<Rightarrow> 'e + bytes list \<times> 'x" where
  "drive_send send next_req x =
     (case next_req of
        None \<Rightarrow> Inr ([], x)
      | Some req \<Rightarrow> (case send req x of Inl e \<Rightarrow> Inl e | Inr (acl, x') \<Rightarrow> Inr ([acl], x')))"

function obex_drive ::
    "('s \<Rightarrow> FixedPayload) \<Rightarrow> ('s \<Rightarrow> Packet \<Rightarrow> bytes option \<times> 's) \<Rightarrow> ('s \<Rightarrow> bool) \<Rightarrow> (bytes \<Rightarrow> 'x \<Rightarrow> 'e + bytes \<times> 'x) \<Rightarrow>
     's \<Rightarrow> bytes \<Rightarrow> 'x \<Rightarrow> bytes list \<times> 'x \<times> ('s, 'e) driven" where
  "obex_drive fixed step stop send s buffer x =
     (case obex_try_take buffer of
        Inl len \<Rightarrow> ([], x, DriveHeader len)
      | Inr None \<Rightarrow> ([], x, DriveOn s buffer)
      | Inr (Some n) \<Rightarrow>
          (case packet_parse (take n buffer) (fixed s) of
             Inl e \<Rightarrow> ([], x, DriveParse e)
           | Inr p \<Rightarrow>
               (case drive_send send (fst (step s p)) x of
                  Inl e \<Rightarrow> ([], x, DriveError e)
                | Inr (out, x') \<Rightarrow>
                    if stop (snd (step s p)) then (out, x', DriveStop (snd (step s p)) (drop n buffer))
                    else
                      (let (out', x'', d) = obex_drive fixed step stop send (snd (step s p)) (drop n buffer) x'
                       in (out @ out', x'', d)))))"
  by pat_completeness auto
termination
proof (relation "measure (\<lambda>(fixed, step, stop, send, s, buffer, x). length buffer)", goal_cases)
  case (2 fixed step stop send s buffer x c n p r out x')
  then have "3 \<le> n \<and> n \<le> length buffer" using obex_take_bounds by metis
  then show ?case by (simp, linarith)
qed simp

declare obex_drive.simps [simp del]

text \<open>Sending the answers of the RFCOMM client on a channel.\<close>

fun send_frames :: "u16 \<Rightarrow> bytes list \<Rightarrow> 'w L2capState \<Rightarrow> l2cap_error + bytes list" where
  "send_frames cid [] s = Inr []"
| "send_frames cid (f # fs) s =
     (case send_on_channel cid f s of
        Inl e \<Rightarrow> Inl e
      | Inr acl \<Rightarrow> (case send_frames cid fs s of Inl e \<Rightarrow> Inl e | Inr acls \<Rightarrow> Inr (acl # acls)))"

definition send_own :: "u16 \<Rightarrow> bytes \<Rightarrow> RfcommClientState \<times> 'w L2capState \<Rightarrow> profile_error + bytes \<times> RfcommClientState \<times> 'w L2capState" where
  "send_own cid req x =
     (case x of (client, s) \<Rightarrow>
        (case build_outbound_uih client req of
           Inl e \<Rightarrow> Inl (ProfileUih e)
         | Inr (uih, client') \<Rightarrow>
             (case send_on_channel cid uih s of Inl e \<Rightarrow> Inl (ProfileL2 e) | Inr acl \<Rightarrow> Inr (acl, client', s))))"

definition send_shared :: "u16 \<Rightarrow> u8 \<Rightarrow> bytes \<Rightarrow> 'w L2capState \<Rightarrow> profile_error + bytes \<times> 'w L2capState" where
  "send_shared cid dlci req s =
     (case rfcomm_send_uih_on_client_dlci cid dlci req s of Inl e \<Rightarrow> Inl (ProfileL2 e) | Inr r \<Rightarrow> Inr r)"

fun first_service_channel :: "bytes list \<Rightarrow> profile_reason + u8" where
  "first_service_channel [] = Inl ProfileNoChannel"
| "first_service_channel (rec # rest) =
     (case extract_rfcomm_channel rec of
        Inl e \<Rightarrow> Inl (ProfileSdp e)
      | Inr (Some channel) \<Rightarrow> Inr channel
      | Inr None \<Rightarrow> first_service_channel rest)"

definition profile_disconnect :: "u16 option \<Rightarrow> 'w L2capState \<Rightarrow> bytes list \<times> 'w L2capState" where
  "profile_disconnect active_cid s =
     (case active_cid of
        None \<Rightarrow> ([], s)
      | Some cid \<Rightarrow> (case disconnect_channel cid s of (Some packet, s') \<Rightarrow> ([packet], s') | (None, s') \<Rightarrow> ([], s')))"

text \<open>Closing the channel after a session: a channel of the runtime's own whole, on the shared multiplexer only the DLCI.\<close>

definition close_own :: "u16 \<Rightarrow> RfcommClientState \<Rightarrow> 'w L2capState \<Rightarrow> bytes list \<times> 'w L2capState" where
  "close_own cid client s =
     (let uih = (case send_on_channel cid (build_target_disc client) s of Inr acl \<Rightarrow> [acl] | Inl _ \<Rightarrow> []);
          (disc, s') = profile_disconnect (Some cid) s
      in (uih @ disc, s'))"

definition close_shared :: "u16 \<Rightarrow> u8 \<Rightarrow> 'w L2capState \<Rightarrow> bytes list \<times> 'w L2capState" where
  "close_shared cid dlci s =
     (case rfcomm_disc_client_dlci cid dlci s of Inr (disc, s') \<Rightarrow> ([disc], s') | Inl _ \<Rightarrow> ([], s))"

text \<open>A channel of the multiplexer that is up, with the DLCI of the service open on it, and what is sent there.\<close>

definition shared_open :: "u16 \<Rightarrow> u8 \<Rightarrow> 'w L2capState \<Rightarrow> bool" where
  "shared_open cid d s =
     (case l2_channel s cid of
        None \<Rightarrow> False
      | Some ch \<Rightarrow>
          (case ch_rfcomm_state ch of
             None \<Rightarrow> False
           | Some r \<Rightarrow> (case sv_client_dlcis r d of None \<Rightarrow> False | Some c \<Rightarrow> cd_phase c = DlciOpen)))"

definition shared_frame :: "u16 \<Rightarrow> bytes \<Rightarrow> 'w L2capState \<Rightarrow> bytes" where
  "shared_frame cid frame s = on_channel (the (l2_channel s cid)) frame"

lemma shared_send:
  "shared_open cid d s \<Longrightarrow> send_shared cid d q s = Inr (shared_frame cid (build_uih d False None q) s, s)"
  by (auto simp: shared_open_def shared_frame_def send_shared_def rfcomm_send_uih_on_client_dlci_def
      server_build_uih_on_client_dlci_def split: option.splits)

lemma shared_close:
  "shared_open cid d s \<Longrightarrow> fst (close_shared cid d s) = [shared_frame cid (build_disc d False) s]"
  by (auto simp: shared_open_def shared_frame_def close_shared_def rfcomm_disc_client_dlci_def
      build_disc_for_client_dlci_def split: option.splits)

section \<open>However the answers are cut\<close>

lemma obex_take_packet:
  assumes "packet_total p < 65536" "length (packet_encode p) = packet_total p"
  shows "obex_try_take (packet_encode p @ rest) = Inr (Some (packet_total p))"
    and "k < packet_total p \<Longrightarrow> obex_try_take (take k (packet_encode p)) = Inr None"
proof -
  let ?w = "word_of_nat (packet_total p) :: u16"
  have e: "packet_encode p = pk_opcode p # u16_hi ?w # u16_lo ?w # pk_fixed_payload p @ concat (map header_encode (pk_headers p))"
    by (simp add: packet_encode_def packet_total_def length_headers u16_be_def Let_def)
  have u: "unat (u16_from_be_bytes (u16_hi ?w) (u16_lo ?w)) = packet_total p" using be_field [OF assms(1)] .
  have t: "3 \<le> packet_total p" by (simp add: packet_total_def)
  show "obex_try_take (packet_encode p @ rest) = Inr (Some (packet_total p))"
    using assms t u by (simp add: obex_try_take_def e)
  show "obex_try_take (take k (packet_encode p)) = Inr None" if k: "k < packet_total p"
  proof (cases "k < 3")
    case False
    then have "k = Suc (Suc (Suc (k - 3)))" by simp
    then obtain m where "k = Suc (Suc (Suc m))" by blast
    with t u k assms(2) show ?thesis by (auto simp: obex_try_take_def e min_def)
  qed (auto simp: obex_try_take_def min_def)
qed

lemma obex_take_more:
  "obex_try_take b = Inl n \<Longrightarrow> obex_try_take (b @ c) = Inl n"
  "obex_try_take b = Inr (Some n) \<Longrightarrow> obex_try_take (b @ c) = Inr (Some n)"
  by (auto simp: obex_try_take_def Let_def nth_append split: if_splits)

text \<open>The loop over a stream is the loop over its front and then, unless the front ended the session, over the rest.\<close>

fun drive_on :: "bytes list \<Rightarrow> ('s \<Rightarrow> bytes \<Rightarrow> 'x \<Rightarrow> bytes list \<times> 'x \<times> ('s, 'e) driven) \<Rightarrow> bytes \<Rightarrow> 'x \<Rightarrow> ('s, 'e) driven \<Rightarrow>
    bytes list \<times> 'x \<times> ('s, 'e) driven" where
  "drive_on out go c x (DriveOn s b) = (let (out', x', d) = go s (b @ c) x in (out @ out', x', d))"
| "drive_on out go c x (DriveStop s b) = (out, x, DriveStop s (b @ c))"
| "drive_on out go c x d = (out, x, d)"

lemma drive_append:
  "obex_drive fixed step stop send s (b @ c) x =
     (let (out, x', d) = obex_drive fixed step stop send s b x
      in drive_on out (obex_drive fixed step stop send) c x' d)"
proof (induction fixed step stop send s b x rule: obex_drive.induct)
  case (1 fixed step stop send s b x)
  show ?case
  proof (cases "obex_try_take b")
    case (Inl n)
    then show ?thesis by (simp add: obex_drive.simps [of _ _ _ _ _ _ x] obex_take_more)
  next
    case (Inr t)
    show ?thesis
    proof (cases t)
      case None
      then have "obex_drive fixed step stop send s b x = ([], x, DriveOn s b)" using Inr by (subst obex_drive.simps) simp
      then show ?thesis by simp
    next
      case (Some n)
      then have n: "obex_try_take b = Inr (Some n)" "obex_try_take (b @ c) = Inr (Some n)"
        using Inr obex_take_more by auto
      have tk: "take n (b @ c) = take n b" "drop n (b @ c) = drop n b @ c" using obex_take_bounds [OF n(1)] by simp_all
      show ?thesis
      proof (cases "packet_parse (take n b) (fixed s)")
        case (Inl e)
        then show ?thesis by (simp add: obex_drive.simps [of _ _ _ _ s] n tk del: take_append drop_append)
      next
        case p: (Inr p)
        show ?thesis
        proof (cases "drive_send send (fst (step s p)) x")
          case (Inl e)
          then show ?thesis by (simp add: obex_drive.simps [of _ _ _ _ s] n tk p del: take_append drop_append)
        next
          case (Inr r)
          obtain out x' where r: "r = (out, x')" by (cases r)
          show ?thesis
          proof (cases "stop (snd (step s p))")
            case True
            with Inr r show ?thesis by (simp add: obex_drive.simps [of _ _ _ _ s] n tk p del: take_append drop_append)
          next
            case False
            obtain o2 x2 d where d: "obex_drive fixed step stop send (snd (step s p)) (drop n b) x' = (o2, x2, d)"
              by (metis prod_cases3)
            from 1 [OF n(1) refl p Inr [unfolded r] refl False] d
            have "obex_drive fixed step stop send (snd (step s p)) (drop n b @ c) x' =
                drive_on o2 (obex_drive fixed step stop send) c x2 d" by simp
            with d Inr r False show ?thesis
              by (cases d) (simp_all add: obex_drive.simps [of _ _ _ _ s _ x] n tk p split_beta Let_def del: take_append drop_append)
          qed
        qed
      qed
    qed
  qed
qed

lemma drive_rest_waits:
  "obex_drive fixed step stop send s b x = (out, x', DriveOn s' b') \<Longrightarrow> obex_try_take b' = Inr None"
proof (induction fixed step stop send s b x arbitrary: out rule: obex_drive.induct)
  case (1 fixed step stop send s b x)
  from 1(2) show ?case
    by (subst (asm) obex_drive.simps) (auto split: sum.splits option.splits if_splits prod.splits intro: 1(1))
qed

fun requests_made :: "('s \<Rightarrow> Packet \<Rightarrow> bytes option \<times> 's) \<Rightarrow> 's \<Rightarrow> Packet list \<Rightarrow> bytes list" where
  "requests_made step s [] = []"
| "requests_made step s (p # ps) =
     (case fst (step s p) of None \<Rightarrow> [] | Some q \<Rightarrow> [q]) @ requests_made step (snd (step s p)) ps"

lemma drive_answers:
  assumes "answers_fit fixed step stop s ps" "ps \<noteq> []" "\<And>q. send q x = Inr (frame q, x)"
  defines "s' \<equiv> foldl (\<lambda>s p. snd (step s p)) s ps"
  shows "obex_drive fixed step stop send s (concat (map packet_encode ps)) x =
    (map frame (requests_made step s ps), x, if stop s' then DriveStop s' [] else DriveOn s' [])"
  using assms(1,2) unfolding s'_def
proof (induction ps arbitrary: s)
  case (Cons p ps)
  let ?rest = "concat (map packet_encode ps)"
  from Cons.prems have ok: "length (pk_fixed_payload p) = fixed_len (fixed s)" "list_all header_ok (pk_headers p)" "packet_total p < 65536"
    by simp_all
  have len: "length (packet_encode p) = packet_total p"
    by (simp add: packet_encode_def packet_total_def length_headers Let_def u16_be_def)
  have tk: "obex_try_take (packet_encode p @ ?rest) = Inr (Some (packet_total p))"
    using obex_take_packet(1) [OF ok(3) len] .
  have pp: "packet_parse (packet_encode p) (fixed s) = Inr p" using packet_roundtrip [OF ok, of "[]"] by simp
  have snd: "drive_send send q x = Inr (map frame (case q of None \<Rightarrow> [] | Some r \<Rightarrow> [r]), x)" for q
    by (cases q) (simp_all add: drive_send_def assms(3))
  show ?case
  proof (cases ps)
    case Nil
    have "obex_drive fixed step stop send t [] x = ([], x, DriveOn t [])" for t
      by (subst obex_drive.simps) (simp add: obex_try_take_def)
    with Nil show ?thesis using tk pp snd len by (subst obex_drive.simps) simp
  next
    case (Cons p' ps')
    with Cons.prems Cons.IH [of "snd (step s p)"] show ?thesis
      using tk pp snd len by (subst obex_drive.simps) simp
  qed
qed simp

text \<open>The loop run over the payloads of a channel as they come, until it ends.\<close>

fun drive_pieces ::
    "('s \<Rightarrow> bytes \<Rightarrow> 'x \<Rightarrow> bytes list \<times> 'x \<times> ('s, 'e) driven) \<Rightarrow> 's \<Rightarrow> bytes \<Rightarrow> bytes list \<Rightarrow> 'x \<Rightarrow>
     bytes list \<times> 'x \<times> ('s, 'e) driven" where
  "drive_pieces go s b [] x = ([], x, DriveOn s b)"
| "drive_pieces go s b (c # cs) x =
     (case go s (b @ c) x of
        (out, x', DriveOn s' b') \<Rightarrow> (let (out', x'', d) = drive_pieces go s' b' cs x' in (out @ out', x'', d))
      | r \<Rightarrow> r)"

lemma drive_pieces_stream:
  assumes "obex_drive fixed step stop send s (b @ concat cs) x = (out, x', d)" "obex_try_take b = Inr None"
    and "\<And>t l. d = DriveStop t l \<Longrightarrow> l = []"
  shows "drive_pieces (obex_drive fixed step stop send) s b cs x = (out, x', d)"
  using assms(1,2)
proof (induction cs arbitrary: s b x out)
  case Nil
  then show ?case by (simp add: obex_drive.simps [of _ _ _ _ s b])
next
  case (Cons c cs)
  obtain o1 x1 d1 where d1: "obex_drive fixed step stop send s (b @ c) x = (o1, x1, d1)" by (metis prod_cases3)
  with Cons.prems(1) have whole: "drive_on o1 (obex_drive fixed step stop send) (concat cs) x1 d1 = (out, x', d)"
    using drive_append [of fixed step stop send s "b @ c" "concat cs" x] by simp
  show ?case
  proof (cases d1)
    case (DriveOn s' b')
    have w: "obex_try_take b' = Inr None" by (rule drive_rest_waits [OF d1 [unfolded DriveOn]])
    obtain o2 where "obex_drive fixed step stop send s' (b' @ concat cs) x1 = (o2, x', d)" "out = o1 @ o2"
      using whole DriveOn by (auto split: prod.splits)
    with Cons.IH [OF _ w] d1 DriveOn show ?thesis by simp
  next
    case (DriveStop t l)
    with whole assms(3) have "l = []" "concat cs = []" by auto
    with whole DriveStop d1 show ?thesis by auto
  qed (use whole d1 in auto)
qed

section \<open>Streams taken in pieces\<close>

text \<open>A consumer of a stream: \<open>take_in\<close> gives what to send, or an error that ends the tick, and the state after it.  The
  promise is that a stream is taken as its front and then its rest, as long as the state is one in which it is taken
  at all; then no way to cut the stream makes a difference.\<close>

fun chain :: "('r \<Rightarrow> ('e + 'a list) \<times> 'r) \<Rightarrow> ('e + 'a list) \<times> 'r \<Rightarrow> ('e + 'a list) \<times> 'r" where
  "chain f (Inl e, r) = (Inl e, r)"
| "chain f (Inr out, r) = (case f r of (Inl e, r') \<Rightarrow> (Inl e, r') | (Inr out', r') \<Rightarrow> (Inr (out @ out'), r'))"

fun take_pieces :: "('c \<Rightarrow> 'r \<Rightarrow> ('e + 'a list) \<times> 'r) \<Rightarrow> 'c list \<Rightarrow> 'r \<Rightarrow> ('e + 'a list) \<times> 'r" where
  "take_pieces f [] r = (Inr [], r)"
| "take_pieces f (c # cs) r = chain (take_pieces f cs) (f c r)"

locale stream_consumer =
  fixes take_in :: "bytes \<Rightarrow> 'r \<Rightarrow> ('e + 'a list) \<times> 'r"
    and takes :: "'r \<Rightarrow> bool"
  assumes empty: "takes r \<Longrightarrow> take_in [] r = (Inr [], r)"
    and split: "takes r \<Longrightarrow> take_in (a @ b) r = chain (take_in b) (take_in a r)"
    and stays: "takes r \<Longrightarrow> takes (snd (take_in a r))"
begin

lemma pieces_are_stream: "takes r \<Longrightarrow> take_pieces take_in cs r = take_in (concat cs) r"
proof (induction cs arbitrary: r)
  case (Cons c cs)
  from Cons.IH [OF stays [OF Cons.prems, of c]] split [OF Cons.prems, of c "concat cs"] show ?case
    by (cases "take_in c r"; cases "fst (take_in c r)") auto
qed (simp add: empty)

lemma same_stream_same_outcome: "takes r \<Longrightarrow> concat cs = concat ds \<Longrightarrow> take_pieces take_in cs r = take_pieces take_in ds r"
  by (simp add: pieces_are_stream)

end

end
