(* ===== verification/Vcard.thy ===== *)
theory Vcard
  imports Rust_Text
begin

text \<open>\<open>aokie_radio/vcard.rs\<close>: the contacts of a phone book in vCard form.\<close>

record Contact =
  ct_display_name :: rstr
  ct_phone_numbers :: "rstr list"

record NField =
  nf_family :: rstr
  nf_given :: rstr

record CardBuilder =
  cb_name_n :: "NField option"
  cb_name_fn :: "rstr option"
  cb_phones :: "rstr list"

definition card_builder_new :: CardBuilder where
  "card_builder_new = \<lparr>cb_name_n = None, cb_name_fn = None, cb_phones = []\<rparr>"

definition qp_hex_digit :: "u8 \<Rightarrow> u8 option" where
  "qp_hex_digit b =
     (if 0x30 \<le> b \<and> b \<le> 0x39 then Some (b - 0x30)
      else if 0x61 \<le> b \<and> b \<le> 0x66 then Some (b - 0x61 + 10)
      else if 0x41 \<le> b \<and> b \<le> 0x46 then Some (b - 0x41 + 10)
      else None)"

fun qp_bytes :: "bytes \<Rightarrow> bytes" where
  "qp_bytes [] = []"
| "qp_bytes (b # rest) =
     (if b = 0x3d then
        (case rest of
           x # y # rest' \<Rightarrow>
             (case (qp_hex_digit x, qp_hex_digit y) of
                (Some h1, Some h2) \<Rightarrow> (push_bit 4 h1 OR h2) # qp_bytes rest'
              | _ \<Rightarrow> 0x3d # qp_bytes rest)
         | _ \<Rightarrow> 0x3d # qp_bytes rest)
      else b # qp_bytes rest)"

definition decode_quoted_printable :: "rstr \<Rightarrow> rstr" where
  "decode_quoted_printable input = utf8_lossy (qp_bytes (utf8_encode input))"

definition decode_value :: "rstr \<Rightarrow> rstr list \<Rightarrow> rstr" where
  "decode_value value params =
     (if list_ex (\<lambda>p. eq_ignore_ascii_case (trim p) (lit ''ENCODING=QUOTED-PRINTABLE'')) params
      then decode_quoted_printable value else value)"

definition normalise_phone :: "rstr \<Rightarrow> rstr" where
  "normalise_phone input =
     (case input of
        [] \<Rightarrow> []
      | c # cs \<Rightarrow> (if c = 43 then [43] else if is_ascii_digit c then [c] else []) @ filter is_ascii_digit cs)"

definition nth_or_empty :: "rstr list \<Rightarrow> nat \<Rightarrow> rstr" where
  "nth_or_empty parts i = (if i < length parts then parts ! i else [])"

definition absorb_line :: "CardBuilder \<Rightarrow> rstr \<Rightarrow> CardBuilder" where
  "absorb_line b line =
     (case split_once 58 line of
        None \<Rightarrow> b
      | Some (head0, value) \<Rightarrow>
          let head = (case split_once 46 head0 of Some (_, rest) \<Rightarrow> rest | None \<Rightarrow> head0);
              parts = split_on 59 head;
              prop = map to_ascii_uppercase (trim (hd parts));
              decoded = decode_value value (tl parts)
          in if prop = lit ''N'' then
               let fields = split_on 59 decoded
               in b\<lparr>cb_name_n := Some \<lparr>nf_family = trim (nth_or_empty fields 0), nf_given = trim (nth_or_empty fields 1)\<rparr>\<rparr>
             else if prop = lit ''FN'' then b\<lparr>cb_name_fn := Some (trim decoded)\<rparr>
             else if prop = lit ''TEL'' then
               let normalised = normalise_phone decoded
               in if normalised \<noteq> [] then b\<lparr>cb_phones := cb_phones b @ [normalised]\<rparr> else b
             else b)"

definition joined_name :: "NField \<Rightarrow> rstr" where
  "joined_name n =
     nf_given n @ (if nf_family n = [] then [] else (if nf_given n = [] then [] else [32]) @ nf_family n)"

definition card_build :: "CardBuilder \<Rightarrow> Contact option" where
  "card_build b =
     (let display_name =
        (case cb_name_fn b of
           Some v \<Rightarrow> if v \<noteq> [] then v else (case cb_name_n b of Some n \<Rightarrow> joined_name n | None \<Rightarrow> [])
         | None \<Rightarrow> (case cb_name_n b of Some n \<Rightarrow> joined_name n | None \<Rightarrow> []))
      in if display_name = [] \<and> cb_phones b = [] then None
         else Some \<lparr>ct_display_name = display_name, ct_phone_numbers = cb_phones b\<rparr>)"

definition unfold_line :: "rstr list \<Rightarrow> rstr \<Rightarrow> rstr list" where
  "unfold_line out line =
     (if line \<noteq> [] \<and> (hd line = 32 \<or> hd line = 9) \<and> out \<noteq> []
      then butlast out @ [last out @ tl line] else out @ [line])"

definition unfold_lines :: "rstr \<Rightarrow> rstr list" where
  "unfold_lines input = foldl unfold_line [] (map strip_cr (split_on 10 input))"

definition vcard_line :: "Contact list \<times> CardBuilder option \<Rightarrow> rstr \<Rightarrow> Contact list \<times> CardBuilder option" where
  "vcard_line s raw =
     (let line = trim raw in
      case s of (contacts, current) \<Rightarrow>
        if eq_ignore_ascii_case line (lit ''BEGIN:VCARD'') then (contacts, Some card_builder_new)
        else if eq_ignore_ascii_case line (lit ''END:VCARD'') then
          (case current of
             Some b \<Rightarrow> (case card_build b of Some c \<Rightarrow> (contacts @ [c], None) | None \<Rightarrow> (contacts, None))
           | None \<Rightarrow> (contacts, None))
        else (contacts, map_option (\<lambda>b. absorb_line b line) current))"

definition parse_vcards :: "rstr \<Rightarrow> Contact list" where
  "parse_vcards input = fst (foldl vcard_line ([], None) (unfold_lines input))"

section \<open>A phone book is read as it was written\<close>

definition vcard_lines :: "Contact \<Rightarrow> rstr list" where
  "vcard_lines c =
     [lit ''BEGIN:VCARD'', lit ''VERSION:2.1'', lit ''FN:'' @ ct_display_name c] @
     map (\<lambda>p. lit ''TEL:'' @ p) (ct_phone_numbers c) @ [lit ''END:VCARD'']"

definition vcard_text :: "Contact list \<Rightarrow> rstr" where
  "vcard_text cs = concat (map (\<lambda>l. l @ crlf) (concat (map vcard_lines cs)))"

text \<open>A name is one line with no space around it; a number is digits, perhaps after a plus sign.\<close>

definition number_ok :: "rstr \<Rightarrow> bool" where
  "number_ok p = (p \<noteq> [] \<and> normalise_phone p = p)"

definition contact_ok :: "Contact \<Rightarrow> bool" where
  "contact_ok c =
     (one_line (ct_display_name c) \<and> trim (ct_display_name c) = ct_display_name c \<and>
      list_all number_ok (ct_phone_numbers c) \<and> (ct_display_name c \<noteq> [] \<or> ct_phone_numbers c \<noteq> []))"

lemma last_trim: "trim s \<noteq> [] \<Longrightarrow> \<not> is_whitespace (last (trim s))"
  unfolding trim_def trim_end_matches_def by (simp only: last_rev rev_is_Nil_conv) (rule hd_dropWhile)

lemma trim_after: "trim v = v \<Longrightarrow> k \<noteq> [] \<Longrightarrow> \<not> is_whitespace (hd k) \<Longrightarrow> \<not> is_whitespace (last k) \<Longrightarrow> trim (k @ v) = k @ v"
  using last_trim [of v] by (cases "v = []") (simp_all add: trim_tight)

lemma number_chars: "number_ok p \<Longrightarrow> \<forall>c \<in> set p. is_ascii_digit c \<or> c = 43"
proof -
  assume "number_ok p"
  then have "normalise_phone p = p" by (simp add: number_ok_def)
  moreover have "\<forall>c \<in> set (normalise_phone q). is_ascii_digit c \<or> c = 43" for q
    by (auto simp: normalise_phone_def split: list.splits)
  ultimately show ?thesis by metis
qed

lemma number_trim: "number_ok p \<Longrightarrow> trim p = p" and number_one_line: "number_ok p \<Longrightarrow> one_line p"
proof -
  assume p: "number_ok p"
  then have ne: "p \<noteq> []" by (simp add: number_ok_def)
  have c: "\<forall>c \<in> set p. \<not> is_whitespace c \<and> c \<noteq> 10 \<and> c \<noteq> 13"
    using number_chars [OF p] by (fastforce simp: is_ascii_digit_def is_whitespace_def)
  with ne show "trim p = p" by (intro trim_tight) simp_all
  from c show "one_line p" by (simp add: one_line_def list_all_iff)
qed

text \<open>Normalising twice changes nothing.\<close>

lemma normalise_phone_idem: "normalise_phone (normalise_phone p) = normalise_phone p"
proof (cases p)
  case (Cons c cs)
  have "normalise_phone (filter is_ascii_digit cs) = filter is_ascii_digit cs"
  proof (cases "filter is_ascii_digit cs")
    case (Cons d ds)
    then have "\<forall>x \<in> set (d # ds). is_ascii_digit x" using set_filter [of is_ascii_digit cs] by auto
    then show ?thesis by (auto simp: Cons normalise_phone_def is_ascii_digit_def filter_id_conv)
  qed (simp add: normalise_phone_def)
  moreover have "\<not> is_ascii_digit 43" by (simp add: is_ascii_digit_def)
  ultimately show ?thesis by (simp add: Cons normalise_phone_def)
qed (simp add: normalise_phone_def)

lemma unfold_plain_lines:
  "list_all (\<lambda>l. l = [] \<or> hd l \<noteq> 32 \<and> hd l \<noteq> 9) ls \<Longrightarrow> foldl unfold_line out ls = out @ ls"
  by (induction ls arbitrary: out) (auto simp: unfold_line_def)

lemmas line_simps = eq_ignore_ascii_case_def to_ascii_lowercase_def absorb_line_def Let_def to_ascii_uppercase_def
  decode_value_def is_whitespace_def

lemma absorb_fn:
  assumes "trim name = name"
  shows "vcard_line (cs, Some b) (lit ''FN:'' @ name) = (cs, Some (b\<lparr>cb_name_fn := Some name\<rparr>))"
proof -
  have "trim (lit ''FN:'' @ name) = lit ''FN:'' @ name" by (rule trim_after [OF assms]) (simp_all add: is_whitespace_def)
  moreover have "trim [70, 78] = [70, 78]" by (rule trim_tight) (simp_all add: is_whitespace_def)
  ultimately show ?thesis using assms by (simp add: vcard_line_def line_simps)
qed

lemma absorb_tel:
  assumes "number_ok p"
  shows "vcard_line (cs, Some b) (lit ''TEL:'' @ p) = (cs, Some (b\<lparr>cb_phones := cb_phones b @ [p]\<rparr>))"
proof -
  have "trim (lit ''TEL:'' @ p) = lit ''TEL:'' @ p"
    by (rule trim_after [OF number_trim [OF assms]]) (simp_all add: is_whitespace_def)
  moreover have "trim [84, 69, 76] = [84, 69, 76]" by (rule trim_tight) (simp_all add: is_whitespace_def)
  ultimately show ?thesis using assms by (simp add: vcard_line_def line_simps number_ok_def)
qed

lemma absorb_tels:
  "list_all number_ok ps \<Longrightarrow>
   foldl vcard_line (cs, Some b) (map (\<lambda>p. lit ''TEL:'' @ p) ps) = (cs, Some (b\<lparr>cb_phones := cb_phones b @ ps\<rparr>))"
proof (induction ps arbitrary: b)
  case (Cons p ps)
  then show ?case using absorb_tel [of p cs b] by simp
qed simp

lemma fixed_lines:
  "vcard_line (cs, cur) (lit ''BEGIN:VCARD'') = (cs, Some card_builder_new)"
  "vcard_line (cs, Some b) (lit ''VERSION:2.1'') = (cs, Some b)"
  "vcard_line (cs, Some b) (lit ''END:VCARD'') = (cs @ (case card_build b of Some c \<Rightarrow> [c] | None \<Rightarrow> []), None)"
proof -
  have t: "trim (lit ''BEGIN:VCARD'') = lit ''BEGIN:VCARD''" "trim (lit ''VERSION:2.1'') = lit ''VERSION:2.1''"
    "trim (lit ''END:VCARD'') = lit ''END:VCARD''"
    by (rule trim_tight; simp add: is_whitespace_def)+
  show "vcard_line (cs, cur) (lit ''BEGIN:VCARD'') = (cs, Some card_builder_new)"
    unfolding vcard_line_def t by simp
  show "vcard_line (cs, Some b) (lit ''VERSION:2.1'') = (cs, Some b)"
    unfolding vcard_line_def t
    by (simp add: eq_ignore_ascii_case_def to_ascii_lowercase_def absorb_line_def Let_def trim_def trim_start_matches_def
        trim_end_matches_def is_whitespace_def to_ascii_uppercase_def)
  show "vcard_line (cs, Some b) (lit ''END:VCARD'') = (cs @ (case card_build b of Some c \<Rightarrow> [c] | None \<Rightarrow> []), None)"
    unfolding vcard_line_def t
    by (simp add: eq_ignore_ascii_case_def to_ascii_lowercase_def split: option.split)
qed

lemma read_card: "contact_ok c \<Longrightarrow> foldl vcard_line (cs, cur) (vcard_lines c) = (cs @ [c], None)"
  by (simp add: vcard_lines_def fixed_lines absorb_fn absorb_tels contact_ok_def card_builder_new_def card_build_def
      del: lit_simps)

lemma read_cards:
  "list_all contact_ok cs \<Longrightarrow> cs \<noteq> [] \<Longrightarrow>
   foldl vcard_line (acc, cur) (concat (map vcard_lines cs)) = (acc @ cs, None)"
proof (induction cs arbitrary: acc cur)
  case (Cons c cs)
  then show ?case using Cons.IH [of "acc @ [c]" None] by (cases "cs = []") (simp_all add: read_card)
qed simp

lemma blank_line: "vcard_line s [] = s"
  by (cases s; cases "snd s")
    (simp_all add: vcard_line_def trim_def trim_start_matches_def trim_end_matches_def eq_ignore_ascii_case_def absorb_line_def)

lemma card_lines_plain:
  "contact_ok c \<Longrightarrow> list_all one_line (vcard_lines c) \<and> list_all (\<lambda>l. l = [] \<or> hd l \<noteq> 32 \<and> hd l \<noteq> 9) (vcard_lines c)"
  by (auto simp: vcard_lines_def contact_ok_def list_all_iff number_one_line)

text \<open>Whatever text precedes it, a phone book written as cards is read back contact for contact:
  damaged cards before it give no more than their own contacts and cost none of the others.\<close>

lemma phonebook_read:
  assumes "list_all contact_ok cs"
  shows "parse_vcards (junk @ [10] @ vcard_text cs) = parse_vcards junk @ cs"
proof -
  let ?ls = "concat (map vcard_lines cs)"
  have plain: "list_all one_line ?ls" "list_all (\<lambda>l. l = [] \<or> hd l \<noteq> 32 \<and> hd l \<noteq> 9) (?ls @ [[]])"
    using assms card_lines_plain by (auto simp: list_all_iff)
  have "map strip_cr (split_on 10 (vcard_text cs)) = ?ls @ [[]]"
    using split_lines [OF plain(1), of "[]"] by (simp add: vcard_text_def trim_end_matches_def)
  then have u: "unfold_lines (junk @ [10] @ vcard_text cs) = unfold_lines junk @ ?ls @ [[]]"
    using unfold_plain_lines [OF plain(2)] by (simp add: unfold_lines_def split_on_app)
  obtain acc cur where s: "foldl vcard_line ([], None) (unfold_lines junk) = (acc, cur)" by fastforce
  show ?thesis
    unfolding parse_vcards_def u foldl_append s
    using read_cards [OF assms, of acc cur] by (cases "cs = []") (simp_all add: s blank_line)
qed

section \<open>Quoted-printable names\<close>

definition qp_encode :: "rstr \<Rightarrow> rstr" where
  "qp_encode s = concat (map (\<lambda>b. 61 # hex2 True b) (utf8_encode s))"

lemma qp_hex_digit_char: "n < 16 \<Longrightarrow> qp_hex_digit (octet (hex_char u n)) = Some (octet n)"
proof -
  have "\<forall>k \<in> set [0..<16]. qp_hex_digit (octet (hex_char u k)) = Some (octet k)"
    by (simp add: upt_rec qp_hex_digit_def hex_char_def octet_def)
  then show "n < 16 \<Longrightarrow> qp_hex_digit (octet (hex_char u n)) = Some (octet n)" by simp
qed

lemma nibbles_join: "push_bit 4 (octet (unat b div 16)) OR octet (unat b mod 16) = (b :: u8)"
proof -
  have "unat b div 16 < 256" using u8_less_256 [of b] by (simp add: div_less_iff_less_mult del: u8_less_256)
  then have h: "octet (unat b div 16) = drop_bit 4 b"
    by (simp add: word_unat_eq_iff unsigned_drop_bit_eq drop_bit_eq_div unat_div)
  have "unat b mod 16 < 256" using mod_less_divisor [of 16 "unat b"] by linarith
  then have l: "octet (unat b mod 16) = take_bit 4 b"
    by (simp add: word_unat_eq_iff unsigned_take_bit_eq take_bit_eq_mod unat_mod)
  show ?thesis unfolding h l by (rule bit_word_eqI) (auto simp: bit_simps)
qed

lemma qp_bytes_octet: "qp_bytes (utf8_encode (61 # hex2 True b) @ r) = b # qp_bytes r"
proof -
  have d: "unat b div 16 < 16" "unat b mod 16 < 16"
    using u8_less_256 [of b] by (simp_all add: div_less_iff_less_mult del: u8_less_256)
  have a: "utf8_char c = [octet c]" if "c < 128" for c using that by (simp add: utf8_char_def)
  have x: "hex_char True n < 128" if "n < 16" for n using that by (simp add: hex_char_def)
  have "utf8_encode (61 # hex2 True b) = [0x3d, octet (hex_char True (unat b div 16)), octet (hex_char True (unat b mod 16))]"
    using a [of 61] a [OF x [OF d(1)]] a [OF x [OF d(2)]] by (simp add: hex2_def octet_def)
  with d show ?thesis by (simp add: qp_hex_digit_char nibbles_join)
qed

text \<open>A name in any script, sent in quoted-printable form, is read as it is.\<close>

lemma qp_read_back: "list_all scalar_value s \<Longrightarrow> decode_quoted_printable (qp_encode s) = s"
proof -
  assume s: "list_all scalar_value s"
  have "qp_bytes (utf8_encode (concat (map (\<lambda>b. 61 # hex2 True b) bs))) = bs" for bs
    by (induction bs) (simp_all only: list.map concat.simps utf8_encode_simps append_Cons qp_bytes_octet
        append.assoc [symmetric] qp_bytes.simps(1), simp_all add: qp_bytes_octet [simplified])
  then show ?thesis
    using utf8_lossy_decode [OF utf8_roundtrip [OF s]] by (simp add: decode_quoted_printable_def qp_encode_def)
qed

section \<open>Where cards are misread\<close>

text \<open>A dot in a parameter is taken for the end of a group name, and the number is lost; a space in front of a
  number costs its plus sign; a soft line break of quoted-printable text is not joined.\<close>

lemmas card_eval = vcard_line_def line_simps trim_def trim_start_matches_def trim_end_matches_def

lemma dot_in_parameter_loses_number: "absorb_line b (lit ''TEL;X=1.0:123'') = b"
  by (simp add: card_eval)

lemma space_costs_plus: "cb_phones (absorb_line b (lit ''TEL: +12'')) = cb_phones b @ [lit ''12'']"
  by (simp add: card_eval normalise_phone_def is_ascii_digit_def)

lemma soft_line_break_not_joined:
  "unfold_lines (lit ''FN;ENCODING=QUOTED-PRINTABLE:=41='' @ [10] @ lit ''=42'') =
     [lit ''FN;ENCODING=QUOTED-PRINTABLE:=41='', lit ''=42'']"
  by (simp add: unfold_lines_def unfold_line_def trim_end_matches_def)

end
