(* ===== verification/Pbap.thy ===== *)
theory Pbap
  imports Obex_Get Vcard
begin

text \<open>
  \<open>aokie_radio/pbap.rs\<close>: the session that downloads the phone's contacts.  It sends one request at a time and is
  driven by the answers: CONNECT, two folder changes, the download in as many answers as the phone makes of it, and
  DISCONNECT.  A step gives the request to send, if any, and the session after it; the reason of a failure is its text.
\<close>

section \<open>State\<close>

datatype PbapState =
    PbIdle | PbAwaitingConnect | PbAwaitingSetPathTelecom | PbAwaitingSetPathPb | PbAwaitingFirstGet
  | PbAwaitingContinuation | PbAwaitingDisconnect | PbDone | PbFailed rstr

record PbapPceSession =
  pb_state :: PbapState
  pb_connection_id :: "u32 option"
  pb_body :: BodyAssembler
  pb_contacts :: "Contact list"
  pb_rooted :: bool
  pb_srm_active :: bool

definition pbap_new :: PbapPceSession where
  "pbap_new = \<lparr>pb_state = PbIdle, pb_connection_id = None, pb_body = assembler_new, pb_contacts = [],
     pb_rooted = False, pb_srm_active = False\<rparr>"

definition PBAP_TARGET_UUID :: bytes where
  "PBAP_TARGET_UUID =
     [0x79, 0x61, 0x35, 0xf0, 0xf0, 0xc5, 0x11, 0xd8, 0x09, 0x66, 0x08, 0x00, 0x20, 0x0c, 0x9a, 0x66]"

definition PBAP_MAX_PACKET_LENGTH :: u16 where
  "PBAP_MAX_PACKET_LENGTH = 0x4000"

definition TYPE_PHONEBOOK :: bytes where
  "TYPE_PHONEBOOK = utf8_encode (lit ''x-bt/phonebook'')"

section \<open>Operations\<close>

definition pbap_next_request :: "PbapPceSession \<Rightarrow> bytes option \<times> PbapPceSession" where
  "pbap_next_request s =
     (case pb_state s of
        PbIdle \<Rightarrow>
          (Some (build_connect_request (Some PBAP_TARGET_UUID) PBAP_MAX_PACKET_LENGTH), s\<lparr>pb_state := PbAwaitingConnect\<rparr>)
      | _ \<Rightarrow> (None, s))"

definition pbap_require :: "Packet \<Rightarrow> bytes \<Rightarrow> rstr \<Rightarrow> rstr + unit" where
  "pbap_require p expected context =
     (if pk_opcode p \<in> set expected then Inr ()
      else Inl (refusal_text (lit ''PBAP '' @ context) (pk_opcode p) expected))"

definition pbap_connection :: "PbapPceSession \<Rightarrow> rstr + u32" where
  "pbap_connection s =
     (case pb_connection_id s of Some c \<Rightarrow> Inr c | None \<Rightarrow> Inl (lit ''PBAP session has no Connection-Id''))"

definition pbap_observe_srm :: "PbapPceSession \<Rightarrow> Packet \<Rightarrow> PbapPceSession" where
  "pbap_observe_srm s p = (if \<not> pb_srm_active s \<and> answer_srm p then s\<lparr>pb_srm_active := True\<rparr> else s)"

text \<open>The download's answers.  \<open>advance\<close> may have changed the session when it refuses, so it gives the session on
  both of its ways out.\<close>

definition pbap_get_headers :: "Header list" where
  "pbap_get_headers = [header_name (lit ''telecom/pb.vcf''), header_obex_type TYPE_PHONEBOOK, HByte HDR_SRM 1]"

definition pbap_take_answer :: "PbapPceSession \<Rightarrow> Packet \<Rightarrow> (rstr + bytes option) \<times> PbapPceSession" where
  "pbap_take_answer s0 p =
     (let s = pbap_observe_srm s0 p in
      if pk_opcode p = RSP_CONTINUE then
        (case assembler_push (pb_body s) p of
           (Inl e, a) \<Rightarrow> (Inl (push_error_text e), s\<lparr>pb_body := a\<rparr>)
         | (Inr _, a) \<Rightarrow>
             (let s1 = s\<lparr>pb_body := a\<rparr> in
              case pbap_connection s1 of
                Inl e \<Rightarrow> (Inl e, s1)
              | Inr conn \<Rightarrow>
                  (Inr (if pb_srm_active s1 then None else Some (build_get_continuation conn)),
                   s1\<lparr>pb_state := PbAwaitingContinuation\<rparr>)))
      else if pk_opcode p = RSP_OK then
        (case assembler_push (pb_body s) p of
           (Inl e, a) \<Rightarrow> (Inl (push_error_text e), s\<lparr>pb_body := a\<rparr>)
         | (Inr _, a) \<Rightarrow>
             if \<not> ba_complete a then (Inl (lit ''PBAP server sent OK without EndOfBody''), s\<lparr>pb_body := a\<rparr>)
             else
               (let s1 = s\<lparr>pb_body := a, pb_contacts := parse_vcards (utf8_lossy (ba_bytes a))\<rparr> in
                case pbap_connection s1 of
                  Inl e \<Rightarrow> (Inl e, s1)
                | Inr conn \<Rightarrow> (Inr (Some (build_disconnect (Some conn))), s1\<lparr>pb_state := PbAwaitingDisconnect\<rparr>)))
      else (Inl (lit ''PBAP GET phonebook: unexpected response 0x'' @ hex2 False (pk_opcode p)), s))"

definition pbap_advance :: "PbapPceSession \<Rightarrow> Packet \<Rightarrow> (rstr + bytes option) \<times> PbapPceSession" where
  "pbap_advance s p =
     (case pb_state s of
        PbAwaitingConnect \<Rightarrow>
          (case pbap_require p [RSP_OK] (lit ''CONNECT'') of
             Inl e \<Rightarrow> (Inl e, s)
           | Inr _ \<Rightarrow>
               (case answer_connection_id p of
                  None \<Rightarrow> (Inl (lit ''PBAP PSE accepted CONNECT but omitted Connection-Id''), s)
                | Some conn \<Rightarrow>
                    (Inr (Some (build_setpath conn (Some (lit ''telecom'')) 0)),
                     s\<lparr>pb_connection_id := Some conn, pb_rooted := True, pb_state := PbAwaitingSetPathTelecom\<rparr>)))
      | PbAwaitingSetPathTelecom \<Rightarrow>
          (case and_then (pbap_require p [RSP_OK] (lit ''SETPATH telecom'')) (\<lambda>_. pbap_connection s) of
             Inl e \<Rightarrow> (Inl e, s)
           | Inr conn \<Rightarrow> (Inr (Some (build_setpath conn (Some (lit ''pb'')) 0)), s\<lparr>pb_state := PbAwaitingSetPathPb\<rparr>))
      | PbAwaitingSetPathPb \<Rightarrow>
          (case and_then (pbap_require p [RSP_OK] (lit ''SETPATH pb'')) (\<lambda>_. pbap_connection s) of
             Inl e \<Rightarrow> (Inl e, s)
           | Inr conn \<Rightarrow> (Inr (Some (build_get_request conn pbap_get_headers)), s\<lparr>pb_state := PbAwaitingFirstGet\<rparr>))
      | PbAwaitingFirstGet \<Rightarrow> pbap_take_answer s p
      | PbAwaitingContinuation \<Rightarrow> pbap_take_answer s p
      | PbAwaitingDisconnect \<Rightarrow> (Inr None, s\<lparr>pb_state := PbDone\<rparr>)
      | PbIdle \<Rightarrow> (Inl (lit ''PBAP response received while Idle''), s)
      | PbDone \<Rightarrow> (Inl (lit ''PBAP response received after session terminated''), s)
      | PbFailed _ \<Rightarrow> (Inl (lit ''PBAP response received after session terminated''), s))"

definition pbap_handle_response :: "PbapPceSession \<Rightarrow> Packet \<Rightarrow> bytes option \<times> PbapPceSession" where
  "pbap_handle_response s p =
     (case pbap_advance s p of
        (Inr next, s') \<Rightarrow> (next, s')
      | (Inl reason, s') \<Rightarrow> (None, s'\<lparr>pb_state := PbFailed reason\<rparr>))"

section \<open>The download\<close>

definition pbap_getting :: "PbapPceSession \<Rightarrow> bool" where
  "pbap_getting s =
     ((pb_state s = PbAwaitingFirstGet \<or> pb_state s = PbAwaitingContinuation) \<and> pb_connection_id s \<noteq> None)"

lemma observe_srm_keeps [simp]:
  "pb_state (pbap_observe_srm s p) = pb_state s" "pb_body (pbap_observe_srm s p) = pb_body s"
  "pb_connection_id (pbap_observe_srm s p) = pb_connection_id s" "pb_contacts (pbap_observe_srm s p) = pb_contacts s"
  "pb_srm_active (pbap_observe_srm s p) = (pb_srm_active s \<or> answer_srm p)"
  by (auto simp: pbap_observe_srm_def)

text \<open>A step of the download: it asks for more exactly when the phone has not taken over with Single Response Mode.\<close>

lemma pbap_continues:
  assumes "pbap_getting s" "pk_opcode p = RSP_CONTINUE" "assembler_push (pb_body s) p = (Inr c, a)"
  shows "pbap_handle_response s p =
    (if pb_srm_active s \<or> answer_srm p then None else Some (build_get_continuation (the (pb_connection_id s))),
     (pbap_observe_srm s p)\<lparr>pb_body := a, pb_state := PbAwaitingContinuation\<rparr>)"
  using assms
  by (auto simp: pbap_getting_def pbap_handle_response_def pbap_advance_def pbap_take_answer_def pbap_connection_def Let_def)

lemma pbap_completes:
  assumes "pbap_getting s" "pk_opcode p = RSP_OK" "assembler_push (pb_body s) p = (Inr True, a)"
  shows "pbap_handle_response s p =
    (Some (build_disconnect (pb_connection_id s)),
     (pbap_observe_srm s p)\<lparr>pb_body := a, pb_contacts := parse_vcards (utf8_lossy (ba_bytes a)),
        pb_state := PbAwaitingDisconnect\<rparr>)"
  using assms push_complete [OF assms(3)]
  by (auto simp: pbap_getting_def pbap_handle_response_def pbap_advance_def pbap_take_answer_def pbap_connection_def Let_def)

interpretation pbap_get: get_session pbap_handle_response pbap_getting pb_body pb_connection_id
  "\<lambda>s. (pb_state s, pb_contacts s)"
  "\<lambda>conn b. (Some (build_disconnect conn), PbAwaitingDisconnect, parse_vcards (utf8_lossy b))"
proof (unfold_locales, goal_cases)
  case (1 s p c a)
  then show ?case by (subst (1 2 3) pbap_continues) (auto simp: pbap_getting_def)
next
  case (2 s p a)
  then show ?case by (simp add: pbap_completes)
qed

text \<open>The requests a session sends while it takes a list of answers, and the session after them.\<close>

fun pbap_run :: "PbapPceSession \<Rightarrow> Packet list \<Rightarrow> bytes option list \<times> PbapPceSession" where
  "pbap_run s [] = ([], s)"
| "pbap_run s (p # ps) =
     (case pbap_handle_response s p of (out, s') \<Rightarrow> case pbap_run s' ps of (outs, s'') \<Rightarrow> (out # outs, s''))"

lemma pbap_run_append:
  "pbap_run s (ps @ qs) =
     (fst (pbap_run s ps) @ fst (pbap_run (snd (pbap_run s ps)) qs), snd (pbap_run (snd (pbap_run s ps)) qs))"
  by (induction ps arbitrary: s) (simp_all add: split_beta)

lemma pbap_run_state: "snd (pbap_run s ps) = foldl (\<lambda>s p. snd (pbap_handle_response s p)) s ps"
  by (induction ps arbitrary: s) (simp_all add: split_beta)

text \<open>What the session should send for each answer of a download but the last.\<close>

fun continuations :: "u32 \<Rightarrow> bool \<Rightarrow> Packet list \<Rightarrow> bytes option list" where
  "continuations conn srm [] = []"
| "continuations conn srm (p # ps) =
     (if srm \<or> answer_srm p then None else Some (build_get_continuation conn)) # continuations conn (srm \<or> answer_srm p) ps"

lemma download_requests:
  assumes "pbap_getting s" "pb_connection_id s = Some conn" "\<not> ba_complete (pb_body s)" "ba_limit (pb_body s) = None"
    and "\<forall>p \<in> set ps. pk_opcode p = RSP_CONTINUE \<and> \<not> packet_ends p"
  shows "fst (pbap_run s ps) = continuations conn (pb_srm_active s) ps"
  using assms
proof (induction ps arbitrary: s)
  case (Cons p ps)
  let ?a = "(pb_body s)\<lparr>ba_bytes := ba_bytes (pb_body s) @ packet_body p, ba_complete := packet_ends p\<rparr>"
  have "assembler_push (pb_body s) p = (Inr (packet_ends p), ?a)"
    using Cons.prems by (intro push_takes) (simp_all add: fits_limit_def)
  with Cons.prems have step: "pbap_handle_response s p =
      (if pb_srm_active s \<or> answer_srm p then None else Some (build_get_continuation conn),
       (pbap_observe_srm s p)\<lparr>pb_body := ?a, pb_state := PbAwaitingContinuation\<rparr>)"
    by (subst pbap_continues) auto
  have "fst (pbap_run ((pbap_observe_srm s p)\<lparr>pb_body := ?a, pb_state := PbAwaitingContinuation\<rparr>) ps) =
      continuations conn (pb_srm_active s \<or> answer_srm p) ps"
    using Cons.prems by (subst Cons.IH) (auto simp: pbap_getting_def)
  with step show ?case by (simp add: split_beta)
qed simp

lemma pbap_opening:
  assumes "pk_opcode c = RSP_OK" "answer_connection_id c = Some conn" "pk_opcode a = RSP_OK" "pk_opcode b = RSP_OK"
  shows "pbap_run (snd (pbap_next_request pbap_new)) [c, a, b] =
    ([Some (build_setpath conn (Some (lit ''telecom'')) 0), Some (build_setpath conn (Some (lit ''pb'')) 0),
      Some (build_get_request conn pbap_get_headers)],
     pbap_new\<lparr>pb_connection_id := Some conn, pb_rooted := True, pb_state := PbAwaitingFirstGet\<rparr>)"
  using assms
  by (simp add: pbap_next_request_def pbap_new_def pbap_handle_response_def pbap_advance_def pbap_require_def
      pbap_connection_def del: lit_simps)

text \<open>A phone that accepts the connection and both folder changes, and sends a phone book in any
  number of answers, with any headers among them, is asked for exactly the requests of the profile: a continuation
  for each answer until it takes over with Single Response Mode and none after that.  The session ends done, with
  exactly the contacts that were written, after those of whatever damaged text came before them, and whatever the
  phone says to the farewell.\<close>

theorem phonebook_download:
  assumes "pk_opcode c = RSP_OK" "answer_connection_id c = Some conn" "pk_opcode a = RSP_OK" "pk_opcode b = RSP_OK"
    and "\<forall>p \<in> set ps. pk_opcode p = RSP_CONTINUE \<and> \<not> packet_ends p" "pk_opcode q = RSP_OK" "packet_ends q"
    and "concat (map packet_body (ps @ [q])) = utf8_encode (junk @ [10] @ vcard_text cs)"
    and "list_all scalar_value (junk @ vcard_text cs)" "list_all contact_ok cs"
  shows "let r = pbap_run (snd (pbap_next_request pbap_new)) ([c, a, b] @ ps @ [q, d]) in
    fst r = [Some (build_setpath conn (Some (lit ''telecom'')) 0), Some (build_setpath conn (Some (lit ''pb'')) 0),
      Some (build_get_request conn pbap_get_headers)] @ continuations conn False ps @
      [Some (build_disconnect (Some conn)), None] \<and>
    pb_state (snd r) = PbDone \<and> pb_contacts (snd r) = parse_vcards junk @ cs"
proof -
  define s where "s = pbap_new\<lparr>pb_connection_id := Some conn, pb_rooted := True, pb_state := PbAwaitingFirstGet\<rparr>"
  define s' where "s' = foldl (\<lambda>s p. snd (pbap_handle_response s p)) s ps"
  have s: "pbap_getting s" "pb_connection_id s = Some conn" "pb_body s = assembler_new" "\<not> pb_srm_active s"
    by (simp_all add: s_def pbap_getting_def pbap_new_def)
  have outs: "fst (pbap_run s ps) = continuations conn False ps"
    using download_requests [OF s(1,2) _ _ assms(5)] s by (simp add: assembler_new_def)
  have "list_all scalar_value (junk @ [10] @ vcard_text cs)" using assms(9) by (simp add: scalar_value_def)
  then have cards: "parse_vcards (utf8_lossy (concat (map packet_body (ps @ [q])))) = parse_vcards junk @ cs"
    unfolding assms(8) using utf8_lossy_decode [OF utf8_roundtrip] phonebook_read [OF assms(10)] by metis
  have "(fst (pbap_handle_response s' q), pb_state (snd (pbap_handle_response s' q)), pb_contacts (snd (pbap_handle_response s' q))) =
      (Some (build_disconnect (Some conn)), PbAwaitingDisconnect, parse_vcards junk @ cs)"
    using pbap_get.fetched [OF s(1) _ assms(5-7)] s cards
    by (simp add: s'_def Let_def assembler_new_def fits_limit_def)
  moreover have "pbap_run s (ps @ [q, d]) =
      (fst (pbap_run s ps) @ fst (pbap_run s' [q, d]), snd (pbap_run s' [q, d]))"
    unfolding pbap_run_append by (simp add: pbap_run_state s'_def)
  moreover have "pbap_handle_response t d = (None, t\<lparr>pb_state := PbDone\<rparr>)" if "pb_state t = PbAwaitingDisconnect" for t
    using that by (simp add: pbap_handle_response_def pbap_advance_def)
  ultimately show ?thesis
    unfolding pbap_run_append [of _ "[c, a, b]"] pbap_opening [OF assms(1-4)] s_def [symmetric]
    using outs by (simp add: split_beta Let_def del: lit_simps)
qed

theorem phonebook_download_witness:
  "\<exists>c a b p q d cs. pb_contacts (snd (pbap_run (snd (pbap_next_request pbap_new)) ([c, a, b] @ [p] @ [q, d]))) =
     parse_vcards [] @ cs \<and> cs \<noteq> []"
proof -
  define ans where "ans op hs = \<lparr>pk_opcode = op, pk_fixed_payload = [], pk_headers = hs\<rparr>" for op :: u8 and hs
  define cs where "cs = [\<lparr>ct_display_name = lit ''Jo'', ct_phone_numbers = [lit ''+61400'']\<rparr>]"
  define w where "w = utf8_encode ([] @ [10] @ vcard_text cs)"
  have ok: "list_all contact_ok cs" unfolding cs_def by code_simp
  have sc: "list_all scalar_value ([] @ vcard_text cs)"
    by (simp add: cs_def vcard_text_def vcard_lines_def scalar_value_def crlf_def)
  have body: "concat (map packet_body ([ans 0x90 [HByte 0x97 1, HByteSeq 0x48 (take 5 w)]] @ [ans 0xA0 [HByteSeq 0x49 (drop 5 w)]])) =
      utf8_encode ([] @ [10] @ vcard_text cs)"
    unfolding w_def [symmetric] by (simp add: packet_body_def ans_def)
  show ?thesis
    using phonebook_download [of "ans 0xA0 [HQuad 0xCB 7]" 7 "ans 0xA0 []" "ans 0xA0 []"
        "[ans 0x90 [HByte 0x97 1, HByteSeq 0x48 (take 5 w)]]" "ans 0xA0 [HByteSeq 0x49 (drop 5 w)]", OF _ _ _ _ _ _ _ body sc ok]
    by (force simp: ans_def packet_ends_def answer_connection_id_def packet_header_def cs_def Let_def)
qed

text \<open>A stray answer after a finished download turns the session into a failed one, though the contacts are there.\<close>

lemma stray_answer_fails_finished:
  "pb_state s = PbDone \<Longrightarrow>
     pb_state (snd (pbap_handle_response s p)) = PbFailed (lit ''PBAP response received after session terminated'') \<and>
     pb_contacts (snd (pbap_handle_response s p)) = pb_contacts s"
  by (simp add: pbap_handle_response_def pbap_advance_def)

end
