(* ===== verification/Pbap_Runtime.thy ===== *)
theory Pbap_Runtime
  imports Obex_Drive Pbap
begin

text \<open>
  \<open>aokie_radio/pbap_runtime.rs\<close>: the tick-driven runtime that fetches the phone book, over SDP, L2CAP, RFCOMM and
  the session.  As for the reconnect, the payloads of its own channels are in a capture buffer, the clock is an
  argument in milliseconds, and a poisoned lock is not modelled.  A step gives the packets to send, or the error that
  the tick returns, next to the runtime and the L2CAP state after it: as in the sources the phase is \<open>PrDone\<close> while an
  error leaves a step that had taken the phase out.
\<close>

section \<open>State\<close>

abbreviation (input) PBAP_INACTIVITY_TIMEOUT :: duration where "PBAP_INACTIVITY_TIMEOUT \<equiv> 15000"
abbreviation (input) UUID_PBAP_PSE :: u16 where "UUID_PBAP_PSE \<equiv> 0x112F"

datatype PbapRuntimeEvent = ContactsFetched "Contact list" | PbapFetchFailed profile_reason

datatype PbapRuntimePhase =
    PrIdle
  | PrAwaitingSdpOpen u16
  | PrAwaitingSdpResponse u16 bytes
  | PrAwaitingRfcommOpen u8 u16
  | PrDrivingRfcomm u16 RfcommClientState
  | PrDrivingPbap u16 RfcommClientState PbapPceSession bytes
  | PrAwaitingSharedDlciOpen u16 u8
  | PrDrivingPbapShared u16 u8 PbapPceSession bytes
  | PrDone
  | PrFailed profile_reason

record PbapRuntime =
  pr_connection_handle :: u16
  pr_phase :: PbapRuntimePhase
  pr_pending_events :: "PbapRuntimeEvent list"
  pr_buffer :: nat
  pr_sdp_transaction_id :: u16
  pr_last_progress_at :: instant

definition pbap_runtime_new :: "instant \<Rightarrow> nat \<Rightarrow> u16 \<Rightarrow> PbapRuntime" where
  "pbap_runtime_new now buffer connection_handle =
     \<lparr>pr_connection_handle = connection_handle, pr_phase = PrIdle, pr_pending_events = [], pr_buffer = buffer,
      pr_sdp_transaction_id = 1, pr_last_progress_at = now\<rparr>"

definition pbap_is_done :: "PbapRuntime \<Rightarrow> bool" where
  "pbap_is_done rt = (pr_phase rt = PrDone)"

definition pbap_is_failed :: "PbapRuntime \<Rightarrow> bool" where
  "pbap_is_failed rt = (case pr_phase rt of PrFailed _ \<Rightarrow> True | _ \<Rightarrow> False)"

definition pbap_take_events :: "PbapRuntime \<Rightarrow> PbapRuntimeEvent list \<times> PbapRuntime" where
  "pbap_take_events rt = (pr_pending_events rt, rt\<lparr>pr_pending_events := []\<rparr>)"

section \<open>Steps\<close>

definition pbap_start ::
    "instant \<Rightarrow> PbapRuntime \<Rightarrow> 'w L2capState \<Rightarrow> (PbapRuntimePhase + bytes list) \<times> PbapRuntime \<times> 'w L2capState" where
  "pbap_start now rt s =
     (if pr_phase rt \<noteq> PrIdle then (Inl (pr_phase rt), rt, s) else
      let ((local_cid, packet), s') = open_outbound_channel_with_handler now (pr_connection_handle rt) PSM_SDP
             (Some (BufferHandler (pr_buffer rt))) s
      in (Inr [packet], rt\<lparr>pr_phase := PrAwaitingSdpOpen local_cid, pr_last_progress_at := now\<rparr>, s'))"

type_synonym 'w pbap_step = "(profile_error + bytes list) \<times> PbapRuntime \<times> 'w L2capState"

definition pbap_fail :: "profile_reason \<Rightarrow> u16 option \<Rightarrow> bytes list \<Rightarrow> PbapRuntime \<Rightarrow> 'w L2capState \<Rightarrow> 'w pbap_step" where
  "pbap_fail reason active_cid out rt s =
     (let (disc, s') = profile_disconnect active_cid s
      in (Inr (out @ disc),
          rt\<lparr>pr_pending_events := pr_pending_events rt @ [PbapFetchFailed reason], pr_phase := PrFailed reason\<rparr>, s'))"

definition extract_pbap_channel :: "bytes \<Rightarrow> profile_reason + u8" where
  "extract_pbap_channel attribute_lists =
     (case iter_records attribute_lists of Inl e \<Rightarrow> Inl (ProfileSdp e) | Inr records \<Rightarrow> first_service_channel records)"

text \<open>The records are in: the SDP channel is closed and the service is reached over the multiplexer that is up on
  this connection or, when there is none, over a channel of its own.\<close>

definition pbap_sdp_done :: "instant \<Rightarrow> u16 \<Rightarrow> u8 \<Rightarrow> PbapRuntime \<Rightarrow> 'w L2capState \<Rightarrow> 'w pbap_step" where
  "pbap_sdp_done now local_cid server_channel rt s =
     (let (disc, s1) = profile_disconnect (Some local_cid) s in
      case find_open_rfcomm_channel (pr_connection_handle rt) s1 of
        Some shared_cid \<Rightarrow>
          (case rfcomm_attach_client_dlci shared_cid server_channel s1 of
             Inr ((target_dlci, pn_acl), s2) \<Rightarrow>
               (Inr (disc @ [pn_acl]), rt\<lparr>pr_phase := PrAwaitingSharedDlciOpen shared_cid target_dlci\<rparr>, s2)
           | Inl e \<Rightarrow> pbap_fail (ProfileAttach e) None disc rt s1)
      | None \<Rightarrow>
          (let ((rfcomm_cid, conn_req), s2) = open_outbound_channel_with_handler now (pr_connection_handle rt) PSM_RFCOMM
                 (Some (BufferHandler (pr_buffer rt))) s1
           in (Inr (disc @ [conn_req]), rt\<lparr>pr_phase := PrAwaitingRfcommOpen server_channel rfcomm_cid\<rparr>, s2)))"

definition pbap_sdp_inbound :: "instant \<Rightarrow> u16 \<Rightarrow> bytes \<Rightarrow> PbapRuntime \<Rightarrow> 'w L2capState \<Rightarrow> 'w pbap_step" where
  "pbap_sdp_inbound now local_cid buffer rt s =
     (case parse_service_search_attribute_response buffer of
        Inr resp \<Rightarrow>
          if rs_continuation_state resp = [] then
            (case extract_pbap_channel (rs_attribute_lists resp) of
               Inl e \<Rightarrow> pbap_fail e (Some local_cid) [] rt s
             | Inr server_channel \<Rightarrow> pbap_sdp_done now local_cid server_channel rt s)
          else pbap_fail ProfileContinuation (Some local_cid) [] rt s
      | Inl e \<Rightarrow>
          (case read_sdp_reply buffer of
             ReplyPartial \<Rightarrow> (Inr [], rt\<lparr>pr_phase := PrAwaitingSdpResponse local_cid buffer\<rparr>, s)
           | ReplyFailed reason \<Rightarrow> pbap_fail (ProfileReply reason) (Some local_cid) [] rt s
           | Reply _ \<Rightarrow> pbap_fail (ProfileSdp e) (Some local_cid) [] rt s))"

text \<open>The events of the RFCOMM client while it sets the channel up.\<close>

fun pbap_rfcomm_events ::
    "u16 \<Rightarrow> RfcommClientEvent list \<Rightarrow> RfcommClientState \<Rightarrow> bytes list \<Rightarrow> PbapRuntime \<Rightarrow> 'w L2capState \<Rightarrow> 'w pbap_step" where
  "pbap_rfcomm_events cid [] client out rt s = (Inr out, rt\<lparr>pr_phase := PrDrivingRfcomm cid client\<rparr>, s)"
| "pbap_rfcomm_events cid (ev # evs) client out rt s =
     (case ev of
        COpenedEvent \<Rightarrow>
          (case pbap_next_request pbap_new of
             (Some connect_req, session) \<Rightarrow>
               (case send_own cid connect_req (client, s) of
                  Inl e \<Rightarrow> (Inl e, rt, s)
                | Inr (acl, client', s') \<Rightarrow>
                    (Inr (out @ [acl]), rt\<lparr>pr_phase := PrDrivingPbap cid client' session []\<rparr>, s'))
           | (None, _) \<Rightarrow> pbap_fail ProfileNoRequest (Some cid) out rt s)
      | CClosedEvent \<Rightarrow> pbap_fail ProfileClosedEarly (Some cid) out rt s
      | CFailedEvent reason \<Rightarrow> pbap_fail (ProfileClient reason) (Some cid) out rt s
      | CPayloadEvent _ \<Rightarrow> pbap_rfcomm_events cid evs client out rt s)"

definition pbap_fixed_payload :: "PbapPceSession \<Rightarrow> FixedPayload" where
  "pbap_fixed_payload session = (case pb_state session of PbAwaitingConnect \<Rightarrow> FixedConnect | _ \<Rightarrow> FixedNone)"

definition pbap_stops :: "PbapPceSession \<Rightarrow> bool" where
  "pbap_stops session = (case pb_state session of PbDone \<Rightarrow> True | PbFailed _ \<Rightarrow> True | _ \<Rightarrow> False)"

text \<open>What follows the loop over the packets: on a channel of its own the RFCOMM channel and the L2CAP channel are
  closed after a finished session, on the shared multiplexer only the DLCI is.\<close>

definition pbap_after ::
    "u16 option \<Rightarrow> ('w L2capState \<Rightarrow> bytes list \<times> 'w L2capState) \<Rightarrow> (PbapPceSession \<Rightarrow> bytes \<Rightarrow> PbapRuntimePhase) \<Rightarrow>
     bytes list \<Rightarrow> (PbapPceSession, profile_error) driven \<Rightarrow> PbapRuntime \<Rightarrow> 'w L2capState \<Rightarrow> 'w pbap_step" where
  "pbap_after fail_cid close phase out d rt s =
     (case d of
        DriveHeader len \<Rightarrow> pbap_fail (ProfileHeader len) fail_cid out rt s
      | DriveParse e \<Rightarrow> pbap_fail (ProfileParse e) fail_cid out rt s
      | DriveError e \<Rightarrow> (Inl e, rt, s)
      | DriveOn session buffer \<Rightarrow> (Inr out, rt\<lparr>pr_phase := phase session buffer\<rparr>, s)
      | DriveStop session buffer \<Rightarrow>
          (case pb_state session of
             PbFailed reason \<Rightarrow> pbap_fail (ProfileSession reason) fail_cid out rt s
           | _ \<Rightarrow>
               (let (closing, s') = close s
                in (Inr (out @ closing),
                    rt\<lparr>pr_pending_events := pr_pending_events rt @ [ContactsFetched (pb_contacts session)],
                       pr_phase := PrDone\<rparr>, s'))))"

fun pbap_session_events ::
    "u16 \<Rightarrow> RfcommClientEvent list \<Rightarrow> RfcommClientState \<Rightarrow> PbapPceSession \<Rightarrow> bytes \<Rightarrow> bytes list \<Rightarrow> PbapRuntime \<Rightarrow>
     'w L2capState \<Rightarrow> 'w pbap_step" where
  "pbap_session_events cid [] client session buffer out rt s =
     (Inr out, rt\<lparr>pr_phase := PrDrivingPbap cid client session buffer\<rparr>, s)"
| "pbap_session_events cid (ev # evs) client session buffer out rt s =
     (case ev of
        CPayloadEvent bytes \<Rightarrow>
          (case obex_drive pbap_fixed_payload pbap_handle_response pbap_stops (send_own cid) session (buffer @ bytes) (client, s) of
             (out', (client', s'), DriveOn session' buffer') \<Rightarrow>
               pbap_session_events cid evs client' session' buffer' (out @ out') rt s'
           | (out', (client', s'), d) \<Rightarrow>
               pbap_after (Some cid) (close_own cid client') (PrDrivingPbap cid client') (out @ out') d rt s')
      | CClosedEvent \<Rightarrow> pbap_fail ProfileClosed (Some cid) out rt s
      | CFailedEvent reason \<Rightarrow> pbap_fail (ProfileClient reason) (Some cid) out rt s
      | COpenedEvent \<Rightarrow> pbap_session_events cid evs client session buffer out rt s)"

definition pbap_consume_inbound :: "instant \<Rightarrow> u16 \<Rightarrow> bytes \<Rightarrow> PbapRuntime \<Rightarrow> 'w L2capState \<Rightarrow> 'w pbap_step" where
  "pbap_consume_inbound now cid bytes rt0 s =
     (let rt = rt0\<lparr>pr_phase := PrDone\<rparr> in
      case pr_phase rt0 of
        PrAwaitingSdpResponse local_cid buffer \<Rightarrow>
          if local_cid = cid then pbap_sdp_inbound now local_cid (buffer @ bytes) rt s else (Inr [], rt0, s)
      | PrDrivingRfcomm local_cid client \<Rightarrow>
          if local_cid = cid then
            (case client_handle_packet client bytes of
               Inl e \<Rightarrow> (Inl (ProfileFrame e), rt, s)
             | Inr (responses, client1) \<Rightarrow>
                 (case send_frames local_cid responses s of
                    Inl e \<Rightarrow> (Inl (ProfileL2 e), rt, s)
                  | Inr acls \<Rightarrow>
                      pbap_rfcomm_events local_cid (fst (client_take_events client1)) (snd (client_take_events client1)) acls rt s))
          else (Inr [], rt0, s)
      | PrDrivingPbap local_cid client session buffer \<Rightarrow>
          if local_cid = cid then
            (case client_handle_packet client bytes of
               Inl e \<Rightarrow> (Inl (ProfileFrame e), rt, s)
             | Inr (responses, client1) \<Rightarrow>
                 (case send_frames local_cid responses s of
                    Inl e \<Rightarrow> (Inl (ProfileL2 e), rt, s)
                  | Inr acls \<Rightarrow>
                      pbap_session_events local_cid (fst (client_take_events client1)) (snd (client_take_events client1))
                        session buffer acls rt s))
          else (Inr [], rt0, s)
      | _ \<Rightarrow> (Inr [], rt0, s))"

definition pbap_consume_shared_event :: "ClientDlciEvent \<Rightarrow> PbapRuntime \<Rightarrow> 'w L2capState \<Rightarrow> 'w pbap_step" where
  "pbap_consume_shared_event ev rt0 s =
     (let rt = rt0\<lparr>pr_phase := PrDone\<rparr> in
      case ev of
        DlciOpened dlci \<Rightarrow>
          (case pr_phase rt0 of
             PrAwaitingSharedDlciOpen local_cid target_dlci \<Rightarrow>
               if dlci \<noteq> target_dlci then (Inr [], rt0, s)
               else
                 (case pbap_next_request pbap_new of
                    (None, _) \<Rightarrow> pbap_fail ProfileNoRequest None [] rt s
                  | (Some connect_req, session) \<Rightarrow>
                      (case send_shared local_cid target_dlci connect_req s of
                         Inl e \<Rightarrow> (Inl e, rt, s)
                       | Inr (acl, s') \<Rightarrow>
                           (Inr [acl], rt\<lparr>pr_phase := PrDrivingPbapShared local_cid target_dlci session []\<rparr>, s')))
           | _ \<Rightarrow> (Inr [], rt0, s))
      | DlciFailedEvent _ reason \<Rightarrow> pbap_fail (ProfileDlci reason) None [] rt0 s
      | DlciPayload dlci payload \<Rightarrow>
          (case pr_phase rt0 of
             PrDrivingPbapShared local_cid target_dlci session buffer \<Rightarrow>
               if dlci \<noteq> target_dlci then (Inr [], rt0, s)
               else
                 (case obex_drive pbap_fixed_payload pbap_handle_response pbap_stops (send_shared local_cid target_dlci)
                    session (buffer @ payload) s of
                    (out, s', d) \<Rightarrow>
                      pbap_after None (close_shared local_cid target_dlci) (PrDrivingPbapShared local_cid target_dlci) out d rt s')
           | _ \<Rightarrow> (Inr [], rt0, s)))"

section \<open>Ticks\<close>

fun pbap_consume_all ::
    "instant \<Rightarrow> (u16 \<times> bytes) list \<Rightarrow> PbapRuntime \<Rightarrow> 'w L2capState \<Rightarrow> 'w pbap_step" where
  "pbap_consume_all now [] rt s = (Inr [], rt, s)"
| "pbap_consume_all now ((cid, data) # rest) rt s =
     (case pbap_consume_inbound now cid data rt s of
        (Inl e, rt1, s1) \<Rightarrow> (Inl e, rt1, s1)
      | (Inr o1, rt1, s1) \<Rightarrow>
          (case pbap_consume_all now rest rt1 s1 of
             (Inl e, rt2, s2) \<Rightarrow> (Inl e, rt2, s2)
           | (Inr o2, rt2, s2) \<Rightarrow> (Inr (o1 @ o2), rt2, s2)))"

fun pbap_consume_events :: "ClientDlciEvent list \<Rightarrow> PbapRuntime \<Rightarrow> 'w L2capState \<Rightarrow> 'w pbap_step" where
  "pbap_consume_events [] rt s = (Inr [], rt, s)"
| "pbap_consume_events (ev # evs) rt s =
     (case pbap_consume_shared_event ev rt s of
        (Inl e, rt1, s1) \<Rightarrow> (Inl e, rt1, s1)
      | (Inr o1, rt1, s1) \<Rightarrow>
          (case pbap_consume_events evs rt1 s1 of
             (Inl e, rt2, s2) \<Rightarrow> (Inl e, rt2, s2)
           | (Inr o2, rt2, s2) \<Rightarrow> (Inr (o1 @ o2), rt2, s2)))"

fun pbap_shared :: "PbapRuntimePhase \<Rightarrow> (u16 \<times> u8) option" where
  "pbap_shared (PrAwaitingSharedDlciOpen cid dlci) = Some (cid, dlci)"
| "pbap_shared (PrDrivingPbapShared cid dlci _ _) = Some (cid, dlci)"
| "pbap_shared _ = None"

definition pbap_drive_outbound :: "PbapRuntime \<Rightarrow> 'w L2capState \<Rightarrow> 'w pbap_step" where
  "pbap_drive_outbound rt s =
     (case pr_phase rt of
        PrAwaitingSdpOpen cid \<Rightarrow>
          (case l2_channel s cid of
             None \<Rightarrow> (Inr [], rt, s)
           | Some ch \<Rightarrow>
               if ch_state ch = Open then
                 (case send_on_channel cid
                    (build_service_search_attribute_request (pr_sdp_transaction_id rt) UUID_PBAP_PSE 0xffff) s of
                    Inl e \<Rightarrow> (Inl (ProfileL2 e), rt, s)
                  | Inr acl \<Rightarrow> (Inr [acl], rt\<lparr>pr_phase := PrAwaitingSdpResponse cid []\<rparr>, s))
               else (Inr [], rt, s))
      | PrAwaitingRfcommOpen channel_num cid \<Rightarrow>
          (case l2_channel s cid of
             None \<Rightarrow> (Inr [], rt, s)
           | Some ch \<Rightarrow>
               if ch_state ch = Open then
                 (case kickoff (client_new channel_num) of
                    Inl e \<Rightarrow> (Inl (ProfileUih e), rt, s)
                  | Inr (sabm, client) \<Rightarrow>
                      (case send_on_channel cid sabm s of
                         Inl e \<Rightarrow> (Inl (ProfileL2 e), rt, s)
                       | Inr acl \<Rightarrow> (Inr [acl], rt\<lparr>pr_phase := PrDrivingRfcomm cid client\<rparr>, s)))
               else (Inr [], rt, s))
      | _ \<Rightarrow> (Inr [], rt, s))"

fun pbap_obex_phase :: "PbapRuntimePhase \<Rightarrow> bool" where
  "pbap_obex_phase (PrDrivingPbap _ _ _ _) = True"
| "pbap_obex_phase (PrDrivingPbapShared _ _ _ _) = True"
| "pbap_obex_phase (PrAwaitingSharedDlciOpen _ _) = True"
| "pbap_obex_phase (PrAwaitingRfcommOpen _ _) = True"
| "pbap_obex_phase (PrDrivingRfcomm _ _) = True"
| "pbap_obex_phase _ = False"

definition pbap_watchdog :: "instant \<Rightarrow> bytes list \<Rightarrow> PbapRuntime \<Rightarrow> 'w L2capState \<Rightarrow> 'w pbap_step" where
  "pbap_watchdog now out rt s =
     (if pbap_obex_phase (pr_phase rt) \<and> now - pr_last_progress_at rt \<ge> PBAP_INACTIVITY_TIMEOUT then
        (let (closing, s') = (case pbap_shared (pr_phase rt) of Some (cid, dlci) \<Rightarrow> close_shared cid dlci s | None \<Rightarrow> ([], s))
         in pbap_fail ProfileStalled None (out @ closing) rt s')
      else (Inr out, rt, s))"

definition pbap_tick ::
    "instant \<Rightarrow> PbapRuntime \<Rightarrow> 'w L2capState \<Rightarrow> 'w Shared \<Rightarrow>
     (profile_error + bytes list) \<times> PbapRuntime \<times> 'w L2capState \<times> 'w Shared" where
  "pbap_tick now rt s sh =
     (let inbound = sh_buffers sh (pr_buffer rt);
          sh' = sh\<lparr>sh_buffers := (sh_buffers sh)(pr_buffer rt := [])\<rparr> in
      case pbap_consume_all now inbound rt s of
        (Inl e, rt1, s1) \<Rightarrow> (Inl e, rt1, s1, sh')
      | (Inr o1, rt1, s1) \<Rightarrow>
          (let (evs, s2) = (case pbap_shared (pr_phase rt1) of
                 None \<Rightarrow> ([], s1) | Some (cid, dlci) \<Rightarrow> take_rfcomm_client_events_for_dlci cid dlci s1) in
           case pbap_consume_events evs rt1 s2 of
             (Inl e, rt2, s3) \<Rightarrow> (Inl e, rt2, s3, sh')
           | (Inr o2, rt2, s3) \<Rightarrow>
               (let rt3 = (if inbound \<noteq> [] \<or> evs \<noteq> [] then rt2\<lparr>pr_last_progress_at := now\<rparr> else rt2) in
                case pbap_drive_outbound rt3 s3 of
                  (Inl e, rt4, s4) \<Rightarrow> (Inl e, rt4, s4, sh')
                | (Inr o3, rt4, s4) \<Rightarrow>
                    (case pbap_watchdog now (o1 @ o2 @ o3) rt4 s4 of (r, rt5, s5) \<Rightarrow> (r, rt5, s5, sh')))))"

section \<open>However the phone's answers are cut\<close>

abbreviation pbap_take_in :: "u8 \<Rightarrow> bytes \<Rightarrow> PbapRuntime \<times> 'w L2capState \<Rightarrow> 'w pbap_step" where
  "pbap_take_in d c x \<equiv> pbap_consume_shared_event (DlciPayload d c) (fst x) (snd x)"

definition pbap_takes :: "PbapRuntime \<times> 'w L2capState \<Rightarrow> bool" where
  "pbap_takes x = (case pr_phase (fst x) of PrDrivingPbapShared _ _ _ b \<Rightarrow> obex_try_take b = Inr None | _ \<Rightarrow> True)"

lemma pbap_ignores:
  assumes "\<not> (\<exists>cid session b. pr_phase rt = PrDrivingPbapShared cid d session b)"
  shows "pbap_consume_shared_event (DlciPayload d c) rt s = (Inr [], rt, s)"
  using assms by (auto simp: pbap_consume_shared_event_def Let_def split: PbapRuntimePhase.splits)

lemma pbap_takes_in:
  "pr_phase rt = PrDrivingPbapShared cid d session b \<Longrightarrow> pbap_consume_shared_event (DlciPayload d c) rt s =
     (let (out, s', v) = obex_drive pbap_fixed_payload pbap_handle_response pbap_stops (send_shared cid d) session (b @ c) s
      in pbap_after None (close_shared cid d) (PrDrivingPbapShared cid d) out v (rt\<lparr>pr_phase := PrDone\<rparr>) s')"
  by (simp add: pbap_consume_shared_event_def Let_def split_beta)

text \<open>Once the loop has ended, whatever ended it, no later payload is looked at.\<close>

lemma pbap_after_over:
  assumes "\<And>session b. v \<noteq> DriveOn session b" "pr_phase rt = PrDone"
  shows "\<not> (\<exists>cid session b. pr_phase (fst (snd (pbap_after None close phase out v rt s))) = PrDrivingPbapShared cid d session b)"
  using assms
  by (auto simp: pbap_after_def pbap_fail_def Let_def split_beta split: driven.splits PbapState.splits)

lemma pbap_after_on: "pbap_after None close phase out (DriveOn t u) rt s = (Inr out, rt\<lparr>pr_phase := phase t u\<rparr>, s)"
  by (simp add: pbap_after_def)

lemma pbap_after_rest:
  "pbap_after None close phase out (DriveStop t u) rt s = pbap_after None close phase out (DriveStop t u') rt s"
  by (simp add: pbap_after_def)

lemma pbap_after_more:
  assumes "\<And>session b. v \<noteq> DriveOn session b" "pr_phase rt = PrDone" "f = pbap_take_in d c"
  shows "chain f (pbap_after None close phase out v rt s) = pbap_after None close phase out v rt s"
proof -
  obtain r rt' s' where a: "pbap_after None close phase out v rt s = (r, rt', s')" by (metis prod_cases3)
  with pbap_after_over [OF assms(1,2), of close phase out s d] pbap_ignores [of rt' d c s'] show ?thesis
    by (cases r) (simp_all add: assms(3))
qed

lemma pbap_after_out:
  "pbap_after None close phase (out @ out') v rt s = chain (\<lambda>(rt, s). pbap_after None close phase out' v rt s) (Inr out, rt, s)"
  by (auto simp: pbap_after_def pbap_fail_def Let_def split_beta split: driven.splits PbapState.splits)

interpretation pbap_stream: stream_consumer "pbap_take_in d" "pbap_takes :: PbapRuntime \<times> 'w L2capState \<Rightarrow> bool"
proof (unfold_locales, goal_cases)
  case (1 r)
  then show ?case
    by (cases r; cases "\<exists>cid session b. pr_phase (fst r) = PrDrivingPbapShared cid d session b")
      (auto simp: pbap_takes_in pbap_ignores pbap_takes_def obex_drive.simps pbap_after_def)
next
  case (2 r a b)
  obtain rt s where r: "r = (rt, s)" by (cases r)
  show ?case
  proof (cases "\<exists>cid session buf. pr_phase rt = PrDrivingPbapShared cid d session buf")
    case True
    then obtain cid session buf where ph: "pr_phase rt = PrDrivingPbapShared cid d session buf" by blast
    let ?go = "obex_drive pbap_fixed_payload pbap_handle_response pbap_stops (send_shared cid d)"
    obtain out s' v where v: "?go session (buf @ a) s = (out, s', v)" by (metis prod_cases3)
    show ?thesis
    proof (cases "\<exists>session' buf'. v = DriveOn session' buf'")
      case True
      then obtain session' buf' where on: "v = DriveOn session' buf'" by blast
      obtain o2 s2 v2 where v2: "?go session' (buf' @ b) s' = (o2, s2, v2)" by (metis prod_cases3)
      have "?go session (buf @ a @ b) s = (out @ o2, s2, v2)"
        using drive_append [of pbap_fixed_payload pbap_handle_response pbap_stops "send_shared cid d" session "buf @ a" b s] v on v2 by simp
      with v on v2 show ?thesis
        by (simp add: r pbap_takes_in [OF ph] pbap_after_out pbap_after_on) (simp add: pbap_takes_in)
    next
      case False
      have w: "?go session (buf @ a @ b) s = drive_on out ?go b s' v"
        using drive_append [of pbap_fixed_payload pbap_handle_response pbap_stops "send_shared cid d" session "buf @ a" b s] v by simp
      have "drive_on out ?go b s' v = (out, s', v) \<or> (\<exists>t u. v = DriveStop t u \<and> drive_on out ?go b s' v = (out, s', DriveStop t (u @ b)))"
        using False by (cases v) auto
      then have "pbap_take_in d (a @ b) r = pbap_after None (close_shared cid d) (PrDrivingPbapShared cid d) out v (rt\<lparr>pr_phase := PrDone\<rparr>) s'"
        by (auto simp: r pbap_takes_in [OF ph] w intro: pbap_after_rest)
      with False v show ?thesis
        by (simp add: r pbap_takes_in [OF ph]) (subst pbap_after_more; simp)
    qed
  qed (simp add: r pbap_ignores)
next
  case (3 r a)
  obtain rt s where r: "r = (rt, s)" by (cases r)
  show ?case
  proof (cases "\<exists>cid session buf. pr_phase rt = PrDrivingPbapShared cid d session buf")
    case True
    then obtain cid session buf where ph: "pr_phase rt = PrDrivingPbapShared cid d session buf" by blast
    then show ?thesis
      by (auto simp: r pbap_takes_in pbap_takes_def pbap_after_def pbap_fail_def Let_def split_beta
          split: driven.splits PbapState.splits prod.splits)
        (metis drive_rest_waits prod.collapse)
  qed (use 3 in \<open>simp add: r pbap_ignores\<close>)
qed

lemma pbap_payload_events:
  "pbap_consume_events (map (DlciPayload d) cs) rt s = take_pieces (pbap_take_in d) cs (rt, s)"
proof (induction cs arbitrary: rt s)
  case (Cons c cs)
  obtain r rt' s' where "pbap_consume_shared_event (DlciPayload d c) rt s = (r, rt', s')" by (metis prod_cases3)
  with Cons show ?case by (cases r) (simp_all split: prod.splits sum.splits)
qed simp

section \<open>The fetch over the shared multiplexer\<close>

text \<open>The requests of a run and the answers it fits, from what the session does.\<close>

lemma requests_of_run:
  "requests_made pbap_handle_response s ps = List.map_filter id (fst (pbap_run s ps))"
  by (induction ps arbitrary: s) (simp_all add: split_beta map_filter_simps split: option.splits)

abbreviation pbap_fits :: "PbapPceSession \<Rightarrow> Packet list \<Rightarrow> bool" where
  "pbap_fits \<equiv> answers_fit pbap_fixed_payload pbap_handle_response pbap_stops"

lemma pbap_fixed_by_state:
  "pb_state s \<noteq> PbAwaitingConnect \<Longrightarrow> pbap_fixed_payload s = FixedNone"
  "pb_state s = PbAwaitingConnect \<Longrightarrow> pbap_fixed_payload s = FixedConnect"
  by (auto simp: pbap_fixed_payload_def split: PbapState.splits)

lemma pbap_stops_by_state:
  "pb_state s \<noteq> PbDone \<Longrightarrow> (\<And>e. pb_state s \<noteq> PbFailed e) \<Longrightarrow> \<not> pbap_stops s"
  "pb_state s = PbDone \<Longrightarrow> pbap_stops s"
  by (auto simp: pbap_stops_def split: PbapState.splits)

lemma pbap_getting_waits: "pbap_getting s \<Longrightarrow> pbap_fixed_payload s = FixedNone \<and> \<not> pbap_stops s"
  by (auto simp: pbap_getting_def pbap_fixed_by_state pbap_stops_by_state)

lemma farewell_fits:
  assumes "pbap_getting s" "\<not> ba_complete (pb_body s)" "ba_limit (pb_body s) = None"
    and "pk_opcode q = RSP_OK" "packet_ends q" "answer_ok 0 q" "answer_ok 0 e"
  shows "pbap_fits s [q, e]"
proof -
  let ?a = "(pb_body s)\<lparr>ba_bytes := ba_bytes (pb_body s) @ packet_body q, ba_complete := packet_ends q\<rparr>"
  have "assembler_push (pb_body s) q = (Inr True, ?a)"
    using push_takes [of "pb_body s" q] assms by (simp add: fits_limit_def)
  then have "pb_state (snd (pbap_handle_response s q)) = PbAwaitingDisconnect"
    using assms by (subst pbap_completes) simp_all
  with assms show ?thesis
    by (auto simp: answer_ok_def pbap_getting_def pbap_fixed_by_state pbap_stops_by_state)
qed

lemma opening_fits:
  assumes "pk_opcode c = RSP_OK" "answer_connection_id c = Some conn" "pk_opcode a = RSP_OK" "pk_opcode b = RSP_OK"
    and "answer_ok 4 c" "answer_ok 0 a" "answer_ok 0 b"
    and "pbap_fits (pbap_new\<lparr>pb_connection_id := Some conn, pb_rooted := True, pb_state := PbAwaitingFirstGet\<rparr>) ps"
  shows "pbap_fits (snd (pbap_next_request pbap_new)) ([c, a, b] @ ps)"
  using assms
  by (simp add: pbap_next_request_def pbap_new_def pbap_handle_response_def pbap_advance_def pbap_require_def
      pbap_connection_def pbap_fixed_by_state pbap_stops_by_state answer_ok_def del: lit_simps)

lemma shared_dlci_opened:
  assumes "pr_phase rt = PrAwaitingSharedDlciOpen cid d" "shared_open cid d s"
  shows "pbap_consume_shared_event (DlciOpened d) rt s =
    (Inr [shared_frame cid (build_uih d False None (build_connect_request (Some PBAP_TARGET_UUID) PBAP_MAX_PACKET_LENGTH)) s],
     rt\<lparr>pr_phase := PrDrivingPbapShared cid d (snd (pbap_next_request pbap_new)) []\<rparr>, s)"
  using assms by (simp add: pbap_consume_shared_event_def pbap_next_request_def pbap_new_def shared_send Let_def)

text \<open>A finished session over the shared multiplexer, for any answers that end it.\<close>

lemma shared_session_ends:
  assumes "pr_phase rt = PrDrivingPbapShared cid d session []" "shared_open cid d s"
    and "pbap_fits session ans" "ans \<noteq> []" "pb_state (snd (pbap_run session ans)) = PbDone"
    and "concat pieces = concat (map packet_encode ans)"
  shows "pbap_consume_events (map (DlciPayload d) pieces) rt s =
    (Inr (map (\<lambda>q. shared_frame cid (build_uih d False None q) s) (List.map_filter id (fst (pbap_run session ans))) @
       [shared_frame cid (build_disc d False) s]),
     rt\<lparr>pr_pending_events := pr_pending_events rt @ [ContactsFetched (pb_contacts (snd (pbap_run session ans)))],
        pr_phase := PrDone\<rparr>, snd (close_shared cid d s))"
proof -
  let ?t = "snd (pbap_run session ans)"
  have "pbap_takes (rt, s)" using assms(1) by (simp add: pbap_takes_def obex_try_take_def)
  then have "pbap_consume_events (map (DlciPayload d) pieces) rt s =
      pbap_consume_shared_event (DlciPayload d (concat (map packet_encode ans))) rt s"
    using pbap_stream.pieces_are_stream [of "(rt, s)" d pieces] assms(6) by (simp add: pbap_payload_events)
  moreover have "obex_drive pbap_fixed_payload pbap_handle_response pbap_stops (send_shared cid d) session
      (concat (map packet_encode ans)) s =
      (map (\<lambda>q. shared_frame cid (build_uih d False None q) s) (List.map_filter id (fst (pbap_run session ans))), s, DriveStop ?t [])"
    using drive_answers [OF assms(3,4), of "send_shared cid d" s] shared_send [OF assms(2)] assms(5)
    by (simp add: pbap_run_state [symmetric] requests_of_run pbap_stops_by_state)
  ultimately show ?thesis
    using assms(5) shared_close [OF assms(2)]
    by (cases "close_shared cid d s") (simp add: pbap_takes_in [OF assms(1)] pbap_after_def)
qed

text \<open>C11 Once the phone has opened the channel of the service on the multiplexer that is
  up, the runtime connects; the phone's answers to the connection, the two folder changes, the download and the
  farewell then reach it in payloads that may cut them anywhere and hold several of them.  Exactly the requests of
  the profile are sent, in order and on that channel, then the channel is closed, and the application is told, once,
  exactly the contacts that were written.\<close>

theorem phonebook_fetched_in_any_pieces:
  assumes "pr_phase rt = PrAwaitingSharedDlciOpen cid d" "shared_open cid d s"
    and "pk_opcode c = RSP_OK" "answer_connection_id c = Some conn" "pk_opcode a = RSP_OK" "pk_opcode b = RSP_OK"
    and "\<forall>p \<in> set ps. pk_opcode p = RSP_CONTINUE \<and> \<not> packet_ends p" "pk_opcode q = RSP_OK" "packet_ends q"
    and "answer_ok 4 c" "list_all (answer_ok 0) ([a, b] @ ps @ [q, e])"
    and "concat (map packet_body (ps @ [q])) = utf8_encode (junk @ [10] @ vcard_text cs)"
    and "list_all scalar_value (junk @ vcard_text cs)" "list_all contact_ok cs"
    and "concat pieces = concat (map packet_encode ([c, a, b] @ ps @ [q, e]))"
  shows "pbap_consume_events (DlciOpened d # map (DlciPayload d) pieces) rt s =
    (Inr (map (\<lambda>q. shared_frame cid (build_uih d False None q) s)
        ([build_connect_request (Some PBAP_TARGET_UUID) PBAP_MAX_PACKET_LENGTH,
          build_setpath conn (Some (lit ''telecom'')) 0, build_setpath conn (Some (lit ''pb'')) 0,
          build_get_request conn pbap_get_headers] @
         List.map_filter id (continuations conn False ps) @ [build_disconnect (Some conn)]) @
        [shared_frame cid (build_disc d False) s]),
     rt\<lparr>pr_pending_events := pr_pending_events rt @ [ContactsFetched (parse_vcards junk @ cs)], pr_phase := PrDone\<rparr>,
     snd (close_shared cid d s))"
proof -
  let ?ans = "[c, a, b] @ ps @ [q, e]"
  let ?s0 = "snd (pbap_next_request pbap_new)"
  have ok: "answer_ok 0 a" "answer_ok 0 b" "list_all (answer_ok 0) ps" "answer_ok 0 q" "answer_ok 0 e"
    using assms(11) by simp_all
  let ?got = "pbap_new\<lparr>pb_connection_id := Some conn, pb_rooted := True, pb_state := PbAwaitingFirstGet\<rparr>"
  have s: "pbap_getting ?got" "pb_body ?got = assembler_new"
    by (simp_all add: pbap_getting_def pbap_new_def)
  have "pbap_fits ?got (ps @ [q, e])"
    using pbap_get.fetch_more [OF s(1) _ assms(7)] s
    by (intro fits_append farewell_fits pbap_get.fetch_fits [OF pbap_getting_waits s(1) _ assms(7)])
      (simp_all add: assms(8,9) ok fits_limit_def assembler_new_def pbap_getting_waits)
  then have fits: "pbap_fits ?s0 ?ans" by (rule opening_fits [OF assms(3-6) assms(10) ok(1,2)])
  note run = phonebook_download [OF assms(3-9) assms(12-14), of e, unfolded Let_def]
  let ?rt = "rt\<lparr>pr_phase := PrDrivingPbapShared cid d ?s0 []\<rparr>"
  have "pbap_consume_events (map (DlciPayload d) pieces) ?rt s =
    (Inr (map (\<lambda>q. shared_frame cid (build_uih d False None q) s) (List.map_filter id (fst (pbap_run ?s0 ?ans))) @
       [shared_frame cid (build_disc d False) s]),
     ?rt\<lparr>pr_pending_events := pr_pending_events ?rt @ [ContactsFetched (pb_contacts (snd (pbap_run ?s0 ?ans)))],
        pr_phase := PrDone\<rparr>, snd (close_shared cid d s))"
    by (rule shared_session_ends [OF _ assms(2) fits]) (use run assms(15) in simp_all)
  with run show ?thesis
    by (simp add: shared_dlci_opened [OF assms(1,2)] map_filter_simps map_filter_def del: lit_simps)
qed

theorem phonebook_fetched_in_any_pieces_witness:
  "\<exists>rt (s :: unit L2capState) pieces cs.
     pr_pending_events (fst (snd (pbap_consume_events (DlciOpened 2 # map (DlciPayload 2) pieces) rt s))) =
       [ContactsFetched (parse_vcards [] @ cs)] \<and> cs \<noteq> []"
proof -
  define ans where "ans op fp hs = \<lparr>pk_opcode = op, pk_fixed_payload = fp, pk_headers = hs\<rparr>" for op :: u8 and fp hs
  define cs where "cs = [\<lparr>ct_display_name = lit ''Jo'', ct_phone_numbers = [lit ''+61400'']\<rparr>]"
  define w where "w = utf8_encode ([] @ [10] @ vcard_text cs)"
  define c a p q where "c = ans 0xA0 [16, 0, 1, 0] [HQuad 0xCB 7]" "a = ans 0xA0 [] []"
    "p = ans 0x90 [] [HByte 0x97 1, HByteSeq 0x48 (take 5 w)]" "q = ans 0xA0 [] [HByteSeq 0x49 (drop 5 w)]"
  define r where "r = (server_new :: unit RfcommState)\<lparr>sv_client_dlcis :=
    [2 \<mapsto> \<lparr>cd_phase = DlciOpen, cd_msc_local_pending = False, cd_msc_remote_received = True\<rparr>]\<rparr>"
  define ch where "ch = \<lparr>ch_connection_handle = 1, ch_psm = PSM_RFCOMM, ch_local_cid = 0x40, ch_remote_cid = 0x41, ch_state = Open,
    ch_local_configured = True, ch_remote_configured = True, ch_local_config_identifier = None, ch_local_config_sent_at = None,
    ch_outbound_connect_identifier = None, ch_rfcomm_state = Some r, ch_hfp_client = None, ch_upper_handler = None\<rparr>"
  define s where "s = (l2cap_new :: unit L2capState)\<lparr>l2_channels := [(0x40, ch)]\<rparr>"
  define rt where "rt = (pbap_runtime_new 0 0 1)\<lparr>pr_phase := PrAwaitingSharedDlciOpen 0x40 2\<rparr>"
  define stream where "stream = concat (map packet_encode ([c, a, a] @ [p] @ [q, a]))"
  have sh: "pr_phase rt = PrAwaitingSharedDlciOpen 0x40 2" "shared_open 0x40 2 s"
    by (simp_all add: rt_def shared_open_def s_def ch_def r_def)
  have ok: "list_all contact_ok cs" unfolding cs_def by code_simp
  have sc: "list_all scalar_value ([] @ vcard_text cs)"
    by (simp add: cs_def vcard_text_def vcard_lines_def scalar_value_def crlf_def)
  have body: "concat (map packet_body ([p] @ [q])) = utf8_encode ([] @ [10] @ vcard_text cs)"
    unfolding w_def [symmetric] by (simp add: packet_body_def ans_def c_a_p_q_def)
  have len: "length w < 1000"
    unfolding w_def cs_def by code_simp
  have pieces: "concat (map (\<lambda>x. [x]) stream) = concat (map packet_encode ([c, a, a] @ [p] @ [q, a]))"
    by (simp add: stream_def)
  have fit: "answer_ok 4 c" "list_all (answer_ok 0) ([a, a] @ [p] @ [q, a])"
    using len by (simp_all add: answer_ok_def c_a_p_q_def ans_def packet_total_def header_kind_def) linarith+
  have "pbap_consume_events (DlciOpened 2 # map (DlciPayload 2) (map (\<lambda>x. [x]) stream)) rt s = (r, rt', s') \<Longrightarrow>
      pr_pending_events rt' = [ContactsFetched (parse_vcards [] @ cs)]" for r rt' s'
    using phonebook_fetched_in_any_pieces [OF sh, of c 7 a a "[p]" q a "[]" cs, OF _ _ _ _ _ _ _ fit body sc ok pieces]
    by (auto simp: c_a_p_q_def ans_def packet_ends_def answer_connection_id_def packet_header_def rt_def pbap_runtime_new_def)
  moreover have "cs \<noteq> []" by (simp add: cs_def)
  ultimately show ?thesis by (metis prod_cases3 fst_conv snd_conv)
qed

section \<open>A phone that says nothing\<close>

text \<open>On a channel of the setup or of the session, fifteen seconds without a payload end the fetch with one report.\<close>

lemma silent_session_fails:
  assumes "pbap_obex_phase (pr_phase rt)" "pr_last_progress_at rt + PBAP_INACTIVITY_TIMEOUT \<le> now"
  shows "pr_phase (fst (snd (pbap_watchdog now out rt s))) = PrFailed ProfileStalled"
    "pr_pending_events (fst (snd (pbap_watchdog now out rt s))) = pr_pending_events rt @ [PbapFetchFailed ProfileStalled]"
  using assms by (auto simp: pbap_watchdog_def pbap_fail_def profile_disconnect_def Let_def split_beta)

text \<open>The record search has no such limit: a phone that does not answer it keeps the fetch waiting for good, though
  the comment of the watchdog promises that a stalled fetch fails.\<close>

lemma silent_search_waits:
  assumes "pr_phase rt = PrAwaitingSdpResponse cid buffer" "sh_buffers sh (pr_buffer rt) = []"
  shows "pbap_tick now rt s sh = (Inr [], rt, s, sh)"
proof -
  have "(sh_buffers sh)(pr_buffer rt := []) = sh_buffers sh" using assms(2) by auto
  with assms show ?thesis
    by (simp add: pbap_tick_def pbap_drive_outbound_def pbap_watchdog_def)
qed

text \<open>A channel that the phone closes behind the last answer is drained in the same tick: the contacts are reported and
  then a failure.\<close>

lemma closed_behind_fetch_fails:
  "pr_phase rt = PrDone \<Longrightarrow>
     pr_pending_events (fst (snd (pbap_consume_shared_event (DlciFailedEvent d reason) rt s))) =
       pr_pending_events rt @ [PbapFetchFailed (ProfileDlci reason)]"
  by (simp add: pbap_consume_shared_event_def pbap_fail_def profile_disconnect_def Let_def)

end
