(* ===== verification/Text_Ledger.thy ===== *)
theory Text_Ledger
  imports Rust_Text
begin

text \<open>
  The ledger of texts of \<open>aokie_radio/runtime.rs\<close>: the texts handed to a run of the radio and not yet answered, and the
  answers of those that were.  The channel to the application is the list of answers told so far.
\<close>

section \<open>State\<close>

text \<open>The two events of \<open>RuntimeEvent\<close> that answer a text; the last field of a failure says that the outcome is unknown.\<close>

datatype text_answer = SmsSent rstr rstr | SmsSendFailed rstr rstr rstr bool

fun answer_id :: "text_answer \<Rightarrow> rstr" where
  "answer_id (SmsSent i _) = i"
| "answer_id (SmsSendFailed i _ _ _) = i"

record OpenText =
  ot_message_id :: rstr
  ot_recipient_phone :: rstr
  ot_put_out :: bool

record TextLedger =
  tl_open :: "OpenText list"
  tl_answered :: "(rstr \<times> text_answer) list"
  tl_told :: "text_answer list"

datatype TextIntake = New | AlreadyOpen | AnsweredAgain

abbreviation (input) TEXT_ANSWERS_KEPT :: nat where "TEXT_ANSWERS_KEPT \<equiv> 64"

definition ledger_new :: TextLedger where
  "ledger_new = \<lparr>tl_open = [], tl_answered = [], tl_told = []\<rparr>"

section \<open>Operations\<close>

fun remove_first :: "('a \<Rightarrow> bool) \<Rightarrow> 'a list \<Rightarrow> 'a list" where
  "remove_first P [] = []"
| "remove_first P (x # xs) = (if P x then xs else x # remove_first P xs)"

fun update_first :: "('a \<Rightarrow> bool) \<Rightarrow> ('a \<Rightarrow> 'a) \<Rightarrow> 'a list \<Rightarrow> 'a list" where
  "update_first P f [] = []"
| "update_first P f (x # xs) = (if P x then f x # xs else x # update_first P f xs)"

abbreviation has_id :: "rstr \<Rightarrow> OpenText \<Rightarrow> bool" where
  "has_id message_id t \<equiv> ot_message_id t = message_id"

definition ledger_is_open :: "rstr \<Rightarrow> TextLedger \<Rightarrow> bool" where
  "ledger_is_open message_id l = list_ex (has_id message_id) (tl_open l)"

definition ledger_open :: "rstr \<Rightarrow> rstr \<Rightarrow> TextLedger \<Rightarrow> TextLedger" where
  "ledger_open message_id recipient_phone l =
     (if \<not> ledger_is_open message_id l
      then l\<lparr>tl_open := tl_open l @
             [\<lparr>ot_message_id = message_id, ot_recipient_phone = recipient_phone, ot_put_out = False\<rparr>]\<rparr>
      else l)"

fun failed_for_certain :: "text_answer \<Rightarrow> bool" where
  "failed_for_certain (SmsSendFailed _ _ _ outcome_unknown) = (\<not> outcome_unknown)"
| "failed_for_certain (SmsSent _ _) = False"

definition take_in :: "rstr \<Rightarrow> rstr \<Rightarrow> TextLedger \<Rightarrow> TextIntake \<times> TextLedger" where
  "take_in message_id recipient_phone l =
     (if ledger_is_open message_id l then (AlreadyOpen, l)
      else
        (case find (\<lambda>(i, _). i = message_id) (tl_answered l) of
           Some (_, answer) \<Rightarrow>
             if \<not> failed_for_certain answer then (AnsweredAgain, l\<lparr>tl_told := tl_told l @ [answer]\<rparr>)
             else (New, ledger_open message_id recipient_phone
                     (l\<lparr>tl_answered := remove_first (\<lambda>(i, _). i = message_id) (tl_answered l)\<rparr>))
         | None \<Rightarrow> (New, ledger_open message_id recipient_phone l)))"

definition remember_answer :: "rstr \<Rightarrow> text_answer \<Rightarrow> TextLedger \<Rightarrow> TextLedger" where
  "remember_answer message_id answer l =
     (let kept = (if length (tl_answered l) \<ge> TEXT_ANSWERS_KEPT then tl (tl_answered l) else tl_answered l)
      in l\<lparr>tl_answered := kept @ [(message_id, answer)]\<rparr>)"

definition put_went_out :: "rstr \<Rightarrow> TextLedger \<Rightarrow> bool \<times> TextLedger" where
  "put_went_out message_id l =
     (case find (has_id message_id) (tl_open l) of
        Some t \<Rightarrow>
          if \<not> ot_put_out t
          then (True, l\<lparr>tl_open := update_first (has_id message_id) (\<lambda>t. t\<lparr>ot_put_out := True\<rparr>) (tl_open l)\<rparr>)
          else (False, l)
      | None \<Rightarrow> (False, l))"

definition put_not_taken :: "rstr \<Rightarrow> TextLedger \<Rightarrow> TextLedger" where
  "put_not_taken message_id l =
     l\<lparr>tl_open := update_first (has_id message_id) (\<lambda>t. t\<lparr>ot_put_out := False\<rparr>) (tl_open l)\<rparr>"

definition ledger_close :: "rstr \<Rightarrow> TextLedger \<Rightarrow> (OpenText \<times> TextLedger) option" where
  "ledger_close message_id l =
     (case find (has_id message_id) (tl_open l) of
        None \<Rightarrow> None
      | Some t \<Rightarrow> Some (t, l\<lparr>tl_open := remove_first (has_id message_id) (tl_open l)\<rparr>))"

definition ledger_answer :: "rstr \<Rightarrow> text_answer \<Rightarrow> TextLedger \<Rightarrow> TextLedger" where
  "ledger_answer message_id answer l = remember_answer message_id answer (l\<lparr>tl_told := tl_told l @ [answer]\<rparr>)"

definition ledger_sent :: "rstr \<Rightarrow> TextLedger \<Rightarrow> TextLedger" where
  "ledger_sent message_id l =
     (case ledger_close message_id l of
        Some (t, l') \<Rightarrow> ledger_answer message_id (SmsSent message_id (ot_recipient_phone t)) l'
      | None \<Rightarrow> l)"

definition ledger_fail :: "rstr \<Rightarrow> rstr \<Rightarrow> bool option \<Rightarrow> TextLedger \<Rightarrow> TextLedger" where
  "ledger_fail message_id reason outcome_unknown l =
     (case ledger_close message_id l of
        Some (t, l') \<Rightarrow>
          (let unknown = (case outcome_unknown of Some u \<Rightarrow> u | None \<Rightarrow> ot_put_out t);
               reason' = (if unknown \<and> \<not> contains_str (lit ''may or may not'') reason
                          then reason @ lit '' (it had gone to the phone, which may or may not have sent it)''
                          else reason)
           in ledger_answer message_id (SmsSendFailed message_id (ot_recipient_phone t) reason' unknown) l')
      | None \<Rightarrow> l)"

definition ledger_failed :: "rstr \<Rightarrow> rstr \<Rightarrow> TextLedger \<Rightarrow> TextLedger" where
  "ledger_failed message_id reason l = ledger_fail message_id reason None l"

definition ledger_refused :: "rstr \<Rightarrow> rstr \<Rightarrow> TextLedger \<Rightarrow> TextLedger" where
  "ledger_refused message_id reason l = ledger_fail message_id reason (Some False) l"

text \<open>\<open>sweep\<close> with the closure that says which texts an operation still carries.\<close>

definition ledger_sweep :: "(rstr \<Rightarrow> bool) \<Rightarrow> TextLedger \<Rightarrow> TextLedger" where
  "ledger_sweep carried l =
     foldl (\<lambda>l i. ledger_failed i (lit ''the radio dropped the text before its outcome was known'') l) l
       (map ot_message_id (filter (\<lambda>t. \<not> carried (ot_message_id t)) (tl_open l)))"

definition ledger_drop :: "TextLedger \<Rightarrow> TextLedger" where
  "ledger_drop l =
     l\<lparr>tl_open := [],
       tl_told := tl_told l @ map (\<lambda>t. SmsSendFailed (ot_message_id t) (ot_recipient_phone t)
         (if ot_put_out t then lit ''the Bluetooth radio stopped while the phone was taking the text: it may or may not have been sent''
          else lit ''the Bluetooth radio stopped before the phone took the text'') (ot_put_out t)) (tl_open l)\<rparr>"

section \<open>Answers\<close>

definition open_ids :: "TextLedger \<Rightarrow> rstr list" where
  "open_ids l = map ot_message_id (tl_open l)"

text \<open>No text is open twice, none is both open and answered, and no more answers are kept than the bound.\<close>

definition ledger_inv :: "TextLedger \<Rightarrow> bool" where
  "ledger_inv l =
     (distinct (open_ids l) \<and> distinct (map fst (tl_answered l)) \<and> set (open_ids l) \<inter> set (map fst (tl_answered l)) = {} \<and>
      length (tl_answered l) \<le> TEXT_ANSWERS_KEPT \<and> (\<forall>(i, a) \<in> set (tl_answered l). answer_id a = i))"

lemma is_open_iff: "ledger_is_open i l \<longleftrightarrow> i \<in> set (open_ids l)"
  by (auto simp: ledger_is_open_def open_ids_def list_ex_iff)

lemma remove_first_map: "map f (remove_first (\<lambda>x. f x = i) xs) = remove1 i (map f xs)"
  by (induction xs) auto

lemma remove_first_fst: "map fst (remove_first (\<lambda>(j, _). j = i) xs) = remove1 i (map fst xs)"
  by (induction xs) auto

lemma update_first_map: "(\<And>x. f (g x) = f x) \<Longrightarrow> map f (update_first P g xs) = map f xs"
  by (induction xs) auto

lemma set_remove_first: "set (remove_first P xs) \<subseteq> set xs"
  by (induction xs) auto

lemma length_remove_first: "length (remove_first P xs) \<le> length xs"
  by (induction xs) auto

lemma find_open: "find (has_id i) ts = None \<longleftrightarrow> i \<notin> set (map ot_message_id ts)"
  by (auto simp: find_None_iff)

lemma open_ids_put [simp]:
  "open_ids (snd (put_went_out i l)) = open_ids l" "open_ids (put_not_taken i l) = open_ids l"
  by (auto simp: put_went_out_def put_not_taken_def open_ids_def update_first_map split: option.split)

lemma put_keeps [simp]:
  "tl_answered (snd (put_went_out i l)) = tl_answered l" "tl_told (snd (put_went_out i l)) = tl_told l"
  "tl_answered (put_not_taken i l) = tl_answered l" "tl_told (put_not_taken i l) = tl_told l"
  by (auto simp: put_went_out_def put_not_taken_def split: option.split)

text \<open>Both ways to answer a text are one step: an open text is closed and told, a closed one is left alone.\<close>

definition answers_one :: "rstr \<Rightarrow> TextLedger \<Rightarrow> TextLedger \<Rightarrow> bool" where
  "answers_one i l l' =
     (if ledger_is_open i l
      then \<exists>a. answer_id a = i \<and> l' = ledger_answer i a (l\<lparr>tl_open := remove_first (has_id i) (tl_open l)\<rparr>)
      else l' = l)"

lemma closed_unless_open: "ledger_close i l = None \<longleftrightarrow> \<not> ledger_is_open i l"
  using find_open [of i "tl_open l"]
  by (auto simp: ledger_close_def is_open_iff open_ids_def split: option.split)

lemma close_open: "ledger_close i l = Some (t, l') \<Longrightarrow> l' = l\<lparr>tl_open := remove_first (has_id i) (tl_open l)\<rparr>"
  by (auto simp: ledger_close_def split: option.splits)

lemma answers_oneI:
  assumes "ledger_close i l = None \<Longrightarrow> l' = l"
    and "\<And>t l1. ledger_close i l = Some (t, l1) \<Longrightarrow> \<exists>a. answer_id a = i \<and> l' = ledger_answer i a l1"
  shows "answers_one i l l'"
proof (cases "ledger_close i l")
  case None
  then show ?thesis using assms(1) closed_unless_open [of i l] by (simp add: answers_one_def)
next
  case (Some p)
  obtain t l1 where p: "p = (t, l1)" by (cases p)
  have "ledger_is_open i l" using Some closed_unless_open [of i l] by simp
  with assms(2) [of t l1] Some p close_open [of i l t l1] show ?thesis by (simp add: answers_one_def)
qed

lemma sent_answers: "answers_one i l (ledger_sent i l)"
  by (rule answers_oneI) (auto simp: ledger_sent_def intro!: exI [of _ "SmsSent i _"])

lemma fail_answers: "answers_one i l (ledger_fail i r u l)"
  by (rule answers_oneI) (auto simp: ledger_fail_def Let_def intro: exI [of _ "SmsSendFailed i _ _ _"])

lemma answer_fields [simp]:
  "tl_open (ledger_answer i a l) = tl_open l" "tl_told (ledger_answer i a l) = tl_told l @ [a]"
  by (simp_all add: ledger_answer_def remember_answer_def Let_def)

text \<open>What is told of a text, and whether one more answer is owed.\<close>

definition told :: "rstr \<Rightarrow> TextLedger \<Rightarrow> nat" where
  "told i l = length (filter (\<lambda>a. answer_id a = i) (tl_told l))"

definition owed :: "rstr \<Rightarrow> TextLedger \<Rightarrow> nat" where
  "owed i l = (if ledger_is_open i l then 1 else 0)"

lemma answers_one_inv:
  assumes "answers_one i l l'" "ledger_inv l"
  shows "ledger_inv l'"
proof (cases "ledger_is_open i l")
  case True
  then obtain a where a: "answer_id a = i" "l' = ledger_answer i a (l\<lparr>tl_open := remove_first (has_id i) (tl_open l)\<rparr>)"
    using assms(1) by (auto simp: answers_one_def)
  define kept where "kept = (if length (tl_answered l) \<ge> TEXT_ANSWERS_KEPT then tl (tl_answered l) else tl_answered l)"
  have k: "set kept \<subseteq> set (tl_answered l)" "distinct (map fst kept)" "length kept < TEXT_ANSWERS_KEPT"
    using assms(2) by (cases "tl_answered l"; auto simp: kept_def ledger_inv_def)+
  have ids: "open_ids l' = remove1 i (open_ids l)"
    by (simp add: a open_ids_def remove_first_map)
  have ans: "tl_answered l' = kept @ [(i, a)]" by (simp add: a ledger_answer_def remember_answer_def Let_def kept_def)
  have "i \<in> set (open_ids l)" using True by (simp add: is_open_iff)
  with assms(2) k ids ans a(1) show ?thesis
    unfolding ledger_inv_def by (auto dest: set_mp)
next
  case False
  with assms show ?thesis by (simp add: answers_one_def)
qed

lemma answers_one_count:
  assumes "answers_one i l l'" "ledger_inv l"
  shows "told j l' + owed j l' = told j l + owed j l"
proof (cases "ledger_is_open i l")
  case True
  then obtain a where a: "answer_id a = i" "l' = ledger_answer i a (l\<lparr>tl_open := remove_first (has_id i) (tl_open l)\<rparr>)"
    using assms(1) by (auto simp: answers_one_def)
  have "open_ids l' = remove1 i (open_ids l)" by (simp add: a open_ids_def remove_first_map)
  with True a assms(2) show ?thesis by (auto simp: told_def owed_def is_open_iff ledger_inv_def)
next
  case False
  with assms show ?thesis by (simp add: answers_one_def)
qed

lemma answers_fold:
  assumes "\<And>l i. answers_one i l (f l i)" "ledger_inv l"
  shows "ledger_inv (foldl f l is) \<and> told j (foldl f l is) + owed j (foldl f l is) = told j l + owed j l"
  using assms(2)
proof (induction "is" arbitrary: l)
  case (Cons i "is")
  from Cons.IH [OF answers_one_inv [OF assms(1) Cons.prems]] answers_one_count [OF assms(1) Cons.prems] show ?case by simp
qed simp

lemma inv_opens:
  assumes "ledger_inv l" "set A \<subseteq> set (tl_answered l)" "distinct (map fst A)" "length A \<le> length (tl_answered l)"
    and "ot_message_id x \<notin> set (open_ids l)" "ot_message_id x \<notin> set (map fst A)"
  shows "ledger_inv (l\<lparr>tl_answered := A, tl_open := tl_open l @ [x]\<rparr>)"
proof -
  have "set (map fst A) \<subseteq> set (map fst (tl_answered l))" using assms(2) by auto
  then have "set (open_ids l) \<inter> set (map fst A) = {}" using assms(1) unfolding ledger_inv_def by blast
  moreover have "open_ids (l\<lparr>tl_answered := A, tl_open := tl_open l @ [x]\<rparr>) = open_ids l @ [ot_message_id x]"
    by (simp add: open_ids_def)
  ultimately show ?thesis using assms unfolding ledger_inv_def by (simp add: subset_iff) blast
qed

lemma take_in_inv:
  assumes inv: "ledger_inv l"
  shows "ledger_inv (snd (take_in i p l))"
proof (cases "ledger_is_open i l")
  case False
  then have no: "i \<notin> set (open_ids l)" by (simp add: is_open_iff)
  show ?thesis
  proof (cases "find (\<lambda>(j, _). j = i) (tl_answered l)")
    case None
    then have "i \<notin> set (map fst (tl_answered l))" by (auto simp: find_None_iff)
    with None False no inv inv_opens [of l "tl_answered l" "\<lparr>ot_message_id = i, ot_recipient_phone = p, ot_put_out = False\<rparr>"]
    show ?thesis by (simp add: take_in_def ledger_open_def) (simp add: ledger_inv_def)
  next
    case (Some ja)
    obtain j a where ja: "ja = (j, a)" by (cases ja)
    let ?ans = "remove_first (\<lambda>(j, _). j = i) (tl_answered l)"
    have d: "distinct (map fst ?ans)" "i \<notin> set (map fst ?ans)"
      unfolding remove_first_fst using inv by (auto simp: ledger_inv_def dest: notin_set_remove1)
    have "ledger_inv (l\<lparr>tl_answered := ?ans, tl_open := tl_open l @ [\<lparr>ot_message_id = i, ot_recipient_phone = p, ot_put_out = False\<rparr>]\<rparr>)"
      by (rule inv_opens) (use inv d no in \<open>simp_all add: set_remove_first length_remove_first\<close>)
    moreover have "ledger_inv (l\<lparr>tl_told := x\<rparr>)" for x using inv by (simp add: ledger_inv_def open_ids_def)
    ultimately show ?thesis using Some ja False by (simp add: take_in_def ledger_open_def is_open_iff open_ids_def)
  qed
qed (simp add: take_in_def inv)

lemma take_in_count:
  assumes "ledger_inv l"
  shows "told j (snd (take_in i p l)) + owed j (snd (take_in i p l)) =
    told j l + owed j l + (if i = j \<and> fst (take_in i p l) \<noteq> AlreadyOpen then 1 else 0)"
proof (cases "find (\<lambda>(j, _). j = i) (tl_answered l)")
  case None
  then show ?thesis by (auto simp: take_in_def ledger_open_def told_def owed_def is_open_iff open_ids_def)
next
  case (Some ja)
  obtain k a where ja: "ja = (k, a)" by (cases ja)
  with Some have "(k, a) \<in> set (tl_answered l)" "k = i" by (auto simp: find_Some_iff dest: nth_mem)
  then have "answer_id a = i" using assms by (auto simp: ledger_inv_def)
  with Some ja show ?thesis by (auto simp: take_in_def ledger_open_def told_def owed_def is_open_iff open_ids_def)
qed

section \<open>Every text has one answer\<close>

text \<open>The calls that the radio makes on a ledger, in any order; \<open>handed\<close> counts the times a text was handed over and not
  already on its way.\<close>

datatype ledger_call =
    CallTakeIn rstr rstr
  | CallPutWentOut rstr
  | CallPutNotTaken rstr
  | CallSent rstr
  | CallFailed rstr rstr
  | CallRefused rstr rstr
  | CallSweep "rstr list"

fun on_ledger :: "TextLedger \<Rightarrow> ledger_call \<Rightarrow> TextLedger" where
  "on_ledger l (CallTakeIn i p) = snd (take_in i p l)"
| "on_ledger l (CallPutWentOut i) = snd (put_went_out i l)"
| "on_ledger l (CallPutNotTaken i) = put_not_taken i l"
| "on_ledger l (CallSent i) = ledger_sent i l"
| "on_ledger l (CallFailed i r) = ledger_failed i r l"
| "on_ledger l (CallRefused i r) = ledger_refused i r l"
| "on_ledger l (CallSweep carried) = ledger_sweep (List.member carried) l"

fun handed :: "rstr \<Rightarrow> TextLedger \<Rightarrow> ledger_call list \<Rightarrow> nat" where
  "handed j l [] = 0"
| "handed j l (c # cs) =
     (case c of CallTakeIn i p \<Rightarrow> if i = j \<and> fst (take_in i p l) \<noteq> AlreadyOpen then 1 else 0 | _ \<Rightarrow> 0) + handed j (on_ledger l c) cs"

lemma put_inv: "ledger_inv l \<Longrightarrow> ledger_inv (snd (put_went_out i l))" "ledger_inv l \<Longrightarrow> ledger_inv (put_not_taken i l)"
  by (simp_all add: ledger_inv_def)

lemma put_count:
  "told j (snd (put_went_out i l)) + owed j (snd (put_went_out i l)) = told j l + owed j l"
  "told j (put_not_taken i l) + owed j (put_not_taken i l) = told j l + owed j l"
  by (simp_all add: told_def owed_def is_open_iff)

lemma call_inv: "ledger_inv l \<Longrightarrow> ledger_inv (on_ledger l c)"
  by (cases c) (auto simp: take_in_inv put_inv ledger_failed_def ledger_refused_def ledger_sweep_def
      intro: answers_one_inv [OF sent_answers] answers_one_inv [OF fail_answers] conjunct1 [OF answers_fold [OF fail_answers]])

lemma call_count:
  "ledger_inv l \<Longrightarrow> told j (on_ledger l c) + owed j (on_ledger l c) = told j l + owed j l + handed j l [c]"
  by (cases c) (auto simp: take_in_count put_count ledger_failed_def ledger_refused_def ledger_sweep_def
      answers_one_count [OF sent_answers] answers_one_count [OF fail_answers] answers_fold [OF fail_answers])

lemma calls_count:
  "ledger_inv l \<Longrightarrow> ledger_inv (foldl on_ledger l cs) \<and>
     told j (foldl on_ledger l cs) + owed j (foldl on_ledger l cs) = told j l + owed j l + handed j l cs"
proof (induction cs arbitrary: l)
  case (Cons c cs)
  from Cons.IH [OF call_inv [OF Cons.prems, of c]] call_count [OF Cons.prems, of j c] show ?case by simp
qed simp

lemma drop_tells: "ledger_inv l \<Longrightarrow> told j (ledger_drop l) = told j l + owed j l"
proof -
  assume "ledger_inv l"
  then have d: "distinct (map ot_message_id (tl_open l))" by (simp add: ledger_inv_def open_ids_def)
  have "length (filter (has_id j) ts) = (if j \<in> set (map ot_message_id ts) then 1 else 0)" if "distinct (map ot_message_id ts)" for ts
    using that by (induction ts) auto
  from this [OF d] show ?thesis
    by (simp add: told_def owed_def ledger_drop_def is_open_iff open_ids_def filter_map comp_def)
qed

lemma new_inv: "ledger_inv ledger_new" "told j ledger_new = 0" "owed j ledger_new = 0"
  by (simp_all add: ledger_inv_def ledger_new_def open_ids_def told_def owed_def ledger_is_open_def)

text \<open>C22 Whatever calls the radio makes on the ledger of a run, in whatever order, and wherever the run
  ends: a text has been answered exactly as often as it was handed over while not already on its way.\<close>

theorem every_text_answered_once:
  "told i (ledger_drop (foldl on_ledger ledger_new calls)) = handed i ledger_new calls"
  using calls_count [OF new_inv(1), of calls i] drop_tells new_inv(2,3) [of i] by simp

section \<open>An answered text is not sent again\<close>

text \<open>Where an answer stands among those kept: fewer than as many answers behind it as were told since.\<close>

definition keeps :: "rstr \<Rightarrow> text_answer \<Rightarrow> nat \<Rightarrow> TextLedger \<Rightarrow> bool" where
  "keeps i a n l = (\<exists>ys zs. tl_answered l = ys @ (i, a) # zs \<and> n + length zs \<le> length (tl_told l))"

lemma keeps_answer:
  assumes "keeps i a n l" "length (tl_told (ledger_answer j b l)) < n + TEXT_ANSWERS_KEPT"
  shows "keeps i a n (ledger_answer j b l)"
proof -
  obtain ys zs where l: "tl_answered l = ys @ (i, a) # zs" "n + length zs \<le> length (tl_told l)"
    using assms(1) by (auto simp: keeps_def)
  show ?thesis
  proof (cases "length (tl_answered l) \<ge> TEXT_ANSWERS_KEPT")
    case False
    with l have "tl_answered (ledger_answer j b l) = ys @ (i, a) # (zs @ [(j, b)])"
      by (simp add: ledger_answer_def remember_answer_def)
    with l show ?thesis unfolding keeps_def by (intro exI [of _ ys] exI [of _ "zs @ [(j, b)]"]) simp
  next
    case True
    then obtain y ys' where ys: "ys = y # ys'" using l assms(2) by (cases ys) auto
    with l True have "tl_answered (ledger_answer j b l) = ys' @ (i, a) # (zs @ [(j, b)])"
      by (simp add: ledger_answer_def remember_answer_def)
    with l show ?thesis unfolding keeps_def by (intro exI [of _ ys'] exI [of _ "zs @ [(j, b)]"]) simp
  qed
qed

lemma keeps_open [simp]: "keeps i a n (l\<lparr>tl_open := x\<rparr>) = keeps i a n l"
  by (simp add: keeps_def)

lemma keeps_put [simp]:
  "keeps i a n (snd (put_went_out j l)) = keeps i a n l" "keeps i a n (put_not_taken j l) = keeps i a n l"
  by (simp_all add: keeps_def)

lemma keeps_answers_one:
  assumes "answers_one j l l'" "keeps i a n l" "length (tl_told l') < n + TEXT_ANSWERS_KEPT"
  shows "keeps i a n l'"
  using assms keeps_answer [of i a n "l\<lparr>tl_open := remove_first (has_id j) (tl_open l)\<rparr>" j]
  by (auto simp: answers_one_def split: if_splits)

lemma answers_one_grows: "answers_one j l l' \<Longrightarrow> length (tl_told l) \<le> length (tl_told l')"
  by (auto simp: answers_one_def split: if_splits)

lemma keeps_fold:
  assumes "\<And>l j. answers_one j l (f l j)"
  shows "length (tl_told l) \<le> length (tl_told (foldl f l js)) \<and>
    (keeps i a n l \<longrightarrow> length (tl_told (foldl f l js)) < n + TEXT_ANSWERS_KEPT \<longrightarrow> keeps i a n (foldl f l js))"
proof (induction js arbitrary: l)
  case (Cons j js)
  from Cons [of "f l j"] answers_one_grows [OF assms, of l j] keeps_answers_one [OF assms, where i = i and a = a and n = n]
  show ?case by (force intro: order_trans)
qed simp

lemma remove_first_split:
  "j \<noteq> i \<Longrightarrow> \<exists>ys' zs'. remove_first (\<lambda>(k, _). k = j) (ys @ (i, a) # zs) = ys' @ (i, a) # zs' \<and> length zs' \<le> length zs"
proof (induction ys)
  case Nil
  then show ?case by (intro exI [of _ "[]"] exI [of _ "remove_first (\<lambda>(k, _). k = j) zs"]) (simp add: length_remove_first)
next
  case (Cons y ys)
  then obtain ys' zs' where r: "remove_first (\<lambda>(k, _). k = j) (ys @ (i, a) # zs) = ys' @ (i, a) # zs'" "length zs' \<le> length zs"
    by blast
  show ?case
  proof (cases "fst y = j")
    case True
    then show ?thesis by (intro exI [of _ ys] exI [of _ zs]) (simp add: split_beta)
  next
    case False
    with r have "remove_first (\<lambda>(k, _). k = j) ((y # ys) @ (i, a) # zs) = (y # ys') @ (i, a) # zs'" by (simp add: split_beta)
    with r(2) show ?thesis by blast
  qed
qed

lemma keeps_take_in:
  assumes "keeps i a n l" "ledger_inv l" "\<not> failed_for_certain a"
  shows "keeps i a n (snd (take_in j p l))"
proof (cases "find (\<lambda>(k, _). k = j) (tl_answered l)")
  case None
  with assms(1) show ?thesis by (auto simp: take_in_def ledger_open_def keeps_def)
next
  case (Some ka)
  obtain k b where ka: "ka = (k, b)" by (cases ka)
  obtain ys zs where l: "tl_answered l = ys @ (i, a) # zs" "n + length zs \<le> length (tl_told l)"
    using assms(1) by (auto simp: keeps_def)
  show ?thesis
  proof (cases "failed_for_certain b")
    case True
    have kb: "(k, b) \<in> set (tl_answered l)" "k = j" using Some ka by (auto simp: find_Some_iff dest: nth_mem)
    have "j \<noteq> i"
    proof
      assume "j = i"
      then have "(i, a) \<in> set (tl_answered l)" "(i, b) \<in> set (tl_answered l)" using kb l(1) by auto
      then have "a = b" using assms(2) eq_key_imp_eq_value [of "tl_answered l" i a b] by (simp add: ledger_inv_def)
      with True assms(3) show False by simp
    qed
    then obtain ys' zs' where "remove_first (\<lambda>(k, _). k = j) (ys @ (i, a) # zs) = ys' @ (i, a) # zs'" "length zs' \<le> length zs"
      using remove_first_split by metis
    then have k: "keeps i a n (l\<lparr>tl_answered := remove_first (\<lambda>(k, _). k = j) (tl_answered l)\<rparr>)"
      using l by (force simp: keeps_def)
    with assms(1) Some ka True show ?thesis by (simp add: take_in_def ledger_open_def)
  next
    case False
    from l have "keeps i a n (l\<lparr>tl_told := tl_told l @ [b]\<rparr>)"
      unfolding keeps_def by (intro exI [of _ ys] exI [of _ zs]) simp
    with False assms(1) Some ka show ?thesis by (simp add: take_in_def)
  qed
qed

lemma sweep_keeps:
  "length (tl_told l) \<le> length (tl_told (ledger_sweep carried l)) \<and>
    (keeps i a n l \<longrightarrow> length (tl_told (ledger_sweep carried l)) < n + TEXT_ANSWERS_KEPT \<longrightarrow> keeps i a n (ledger_sweep carried l))"
  unfolding ledger_sweep_def ledger_failed_def by (rule keeps_fold [OF fail_answers])

lemma call_grows: "length (tl_told l) \<le> length (tl_told (on_ledger l c))"
proof (cases c)
  case (CallTakeIn j p)
  then show ?thesis by (auto simp: take_in_def ledger_open_def split: option.split)
next
  case (CallSweep carried)
  then show ?thesis using sweep_keeps by simp
qed (auto simp: ledger_failed_def ledger_refused_def intro: answers_one_grows [OF sent_answers] answers_one_grows [OF fail_answers])

lemma call_keeps:
  assumes "keeps i a n l" "ledger_inv l" "\<not> failed_for_certain a" "length (tl_told (on_ledger l c)) < n + TEXT_ANSWERS_KEPT"
  shows "keeps i a n (on_ledger l c)"
proof (cases c)
  case (CallTakeIn j p)
  with assms show ?thesis by (simp add: keeps_take_in)
next
  case (CallSweep carried)
  with assms sweep_keeps [of l "List.member carried" i a n] show ?thesis by simp
qed (use assms in \<open>auto simp: ledger_failed_def ledger_refused_def intro: keeps_answers_one [OF sent_answers] keeps_answers_one [OF fail_answers]\<close>)

lemma calls_keep:
  assumes "keeps i a n l" "ledger_inv l" "\<not> failed_for_certain a" "length (tl_told (foldl on_ledger l cs)) < n + TEXT_ANSWERS_KEPT"
  shows "keeps i a n (foldl on_ledger l cs)"
  using assms
proof (induction cs arbitrary: l)
  case (Cons c cs)
  have "length (tl_told (on_ledger l c)) \<le> length (tl_told (foldl on_ledger (on_ledger l c) cs))"
    by (induction cs arbitrary: l c) (auto intro: order_trans [OF call_grows])
  with Cons show ?case by (simp add: call_keeps call_inv)
qed simp

lemma keeps_found:
  assumes "keeps i a n l" "ledger_inv l"
  shows "find (\<lambda>(k, _). k = i) (tl_answered l) = Some (i, a)" "\<not> ledger_is_open i l"
proof -
  obtain ys zs where l: "tl_answered l = ys @ (i, a) # zs" using assms(1) by (auto simp: keeps_def)
  with assms(2) have "i \<notin> set (map fst ys)" by (auto simp: ledger_inv_def)
  then have "find (\<lambda>(k, _). k = i) (ys @ (i, a) # zs) = Some (i, a)" by (induction ys) auto
  with l show "find (\<lambda>(k, _). k = i) (tl_answered l) = Some (i, a)" by simp
  show "\<not> ledger_is_open i l" using assms(2) l by (auto simp: ledger_inv_def is_open_iff)
qed

text \<open>C23 A text that was reported sent, or failed with its outcome unknown, and is handed over again
  before sixty-four more answers were told, is given the answer it had and is not opened: nothing more goes to the
  phone for it.\<close>

theorem answered_text_not_resent:
  assumes "ledger_inv l" "ledger_is_open i l" "l' = ledger_sent i l \<or> l' = ledger_failed i r l"
    and "\<not> failed_for_certain (last (tl_told l'))"
    and "length (tl_told (foldl on_ledger l' calls)) < length (tl_told l') + TEXT_ANSWERS_KEPT"
  shows "take_in i p (foldl on_ledger l' calls) =
    (AnsweredAgain, (foldl on_ledger l' calls)\<lparr>tl_told := tl_told (foldl on_ledger l' calls) @ [last (tl_told l')]\<rparr>)"
proof -
  have one: "answers_one i l l'"
    using assms(3) sent_answers [of i l] fail_answers [of i l r None] by (auto simp: ledger_failed_def)
  then obtain a where a: "l' = ledger_answer i a (l\<lparr>tl_open := remove_first (has_id i) (tl_open l)\<rparr>)"
    using assms(2) by (auto simp: answers_one_def)
  then have last: "last (tl_told l') = a" by simp
  have "keeps i a (length (tl_told l')) l'"
    unfolding keeps_def by (intro exI [of _ "butlast (tl_answered l')"] exI [of _ "[]"]) (simp add: a ledger_answer_def remember_answer_def Let_def)
  then have k: "keeps i a (length (tl_told l')) (foldl on_ledger l' calls)"
    using calls_keep answers_one_inv [OF one assms(1)] assms(4,5) last by blast
  have "ledger_inv (foldl on_ledger l' calls)" using calls_count answers_one_inv [OF one assms(1)] by blast
  from keeps_found [OF k this] assms(4) last show ?thesis by (simp add: take_in_def)
qed

theorem answered_text_not_resent_witness:
  "fst (take_in (lit ''7'') (lit ''+1'') (ledger_sent (lit ''7'') (snd (take_in (lit ''7'') (lit ''+1'') ledger_new)))) = AnsweredAgain"
proof -
  let ?l = "snd (take_in (lit ''7'') (lit ''+1'') ledger_new)"
  have "ledger_inv ?l" "ledger_is_open (lit ''7'') ?l" "\<not> failed_for_certain (last (tl_told (ledger_sent (lit ''7'') ?l)))"
    by (code_simp)+
  from answered_text_not_resent [OF this(1,2) _ this(3), where calls = "[]"] show ?thesis by simp
qed

end
