(* ===== verification/Map_Listing.thy ===== *)
theory Map_Listing
  imports Rust_Text
begin

text \<open>
  \<open>aokie_radio/map_listing.rs\<close>: the list of messages a phone sends as a small XML document.  The sources cut
  the text at octet positions; every cut is at an ASCII character, so the model cuts the list of characters.
\<close>

record MessageEntry =
  me_handle :: rstr
  me_datetime :: "rstr option"
  me_sender_name :: "rstr option"
  me_sender_addressing :: "rstr option"
  me_msg_type :: "rstr option"
  me_read :: "bool option"

section \<open>Elements\<close>

text \<open>The scan of \<open>element_end\<close>: inside which quote it is, and whether an equals sign came last.  It gives the text
  before the closing bracket and the text after it.\<close>

fun element_scan :: "nat option \<Rightarrow> bool \<Rightarrow> rstr \<Rightarrow> (rstr \<times> rstr) option" where
  "element_scan quote after_eq [] = None"
| "element_scan (Some q) after_eq (b # s) =
     map_option (apfst (Cons b)) (element_scan (if b = q then None else Some q) after_eq s)"
| "element_scan None after_eq (b # s) =
     (if b = 62 then Some ([], s)
      else map_option (apfst (Cons b))
        (if b = 61 then element_scan None True s
         else if (b = 34 \<or> b = 39) \<and> after_eq then element_scan (Some b) False s
         else if is_ascii_whitespace b then element_scan None after_eq s
         else element_scan None False s))"

definition element_end :: "rstr \<Rightarrow> (rstr \<times> rstr) option" where
  "element_end s = (case element_scan None False s of Some p \<Rightarrow> Some p | None \<Rightarrow> split_once 62 s)"

lemma element_scan_append: "element_scan q e s = Some (a, b) \<Longrightarrow> s = a @ 62 # b"
  by (induction q e s arbitrary: a rule: element_scan.induct) (auto split: if_splits)

lemma element_end_append: "element_end s = Some (a, b) \<Longrightarrow> s = a @ 62 # b"
  by (auto simp: element_end_def split: option.splits dest: element_scan_append split_once_Some)

section \<open>Entities\<close>

text \<open>\<open>u32::from_str_radix\<close> and \<open>u32::from_str\<close>: an optional plus sign, at least one digit, no overflow.\<close>

definition u32_body :: "rstr \<Rightarrow> rstr" where
  "u32_body s = (if s \<noteq> [] \<and> hd s = 43 then tl s else s)"

definition u32_from_hex :: "rstr \<Rightarrow> nat option" where
  "u32_from_hex s =
     (if u32_body s = [] then None
      else case hex_digits_value 0 (u32_body s) of Some n \<Rightarrow> if n < 4294967296 then Some n else None | None \<Rightarrow> None)"

definition u32_from_dec :: "rstr \<Rightarrow> nat option" where
  "u32_from_dec s =
     (if u32_body s = [] then None
      else case digits_value 0 (u32_body s) of Some n \<Rightarrow> if n < 4294967296 then Some n else None | None \<Rightarrow> None)"

definition char_from_u32 :: "nat \<Rightarrow> nat option" where
  "char_from_u32 n = (if scalar_value n then Some n else None)"

definition entity_char :: "rstr \<Rightarrow> nat option" where
  "entity_char name =
     (if name = lit ''amp'' then Some 38
      else if name = lit ''lt'' then Some 60
      else if name = lit ''gt'' then Some 62
      else if name = lit ''quot'' then Some 34
      else if name = lit ''apos'' then Some 39
      else
        Option.bind
          (case strip_prefix (lit ''#x'') name of
             Some hex \<Rightarrow> u32_from_hex hex
           | None \<Rightarrow>
               (case strip_prefix (lit ''#X'') name of
                  Some hex \<Rightarrow> u32_from_hex hex
                | None \<Rightarrow> Option.bind (strip_prefix (lit ''#'') name) u32_from_dec))
          char_from_u32)"

text \<open>What a reference at the front of the text, after its ampersand, stands for, and the text after it: the
  semicolon is looked for in the first twelve octets.\<close>

definition decode_entity :: "rstr \<Rightarrow> (nat \<times> rstr) option" where
  "decode_entity t =
     (case split_once 59 t of
        Some (name, rest) \<Rightarrow>
          if 1 + str_len name \<le> 12 then map_option (\<lambda>ch. (ch, rest)) (entity_char name) else None
      | None \<Rightarrow> None)"

lemma decode_entity_shorter: "decode_entity t = Some (ch, rest) \<Longrightarrow> length rest < length t"
  by (auto simp: decode_entity_def dest: split_once_shorter split: option.splits if_splits)

function unescape_xml :: "rstr \<Rightarrow> rstr" where
  "unescape_xml rest =
     (case split_once 38 rest of
        None \<Rightarrow> rest
      | Some (before, t) \<Rightarrow>
          before @ (case decode_entity t of
            Some (ch, rest') \<Rightarrow> ch # unescape_xml rest'
          | None \<Rightarrow> 38 # unescape_xml t))"
  by pat_completeness auto
termination
  by (relation "measure length") (auto dest!: split_once_shorter decode_entity_shorter)

declare unescape_xml.simps [simp del]

section \<open>Attributes\<close>

definition last_word :: "rstr \<Rightarrow> rstr" where
  "last_word s = rev (takeWhile (\<lambda>c. \<not> (is_whitespace c \<or> c = 47)) (rev s))"

definition attribute_value :: "rstr \<Rightarrow> rstr \<times> rstr" where
  "attribute_value after =
     (if after \<noteq> [] \<and> (hd after = 34 \<or> hd after = 39) then
        (case split_once (hd after) (tl after) of Some p \<Rightarrow> p | None \<Rightarrow> (tl after, []))
      else
        let value = takeWhile (\<lambda>c. \<not> is_whitespace c) after;
            tail = dropWhile (\<lambda>c. \<not> is_whitespace c) after
        in (if tail = [] \<and> value \<noteq> [] \<and> last value = 47 then butlast value else value, tail))"

lemma attribute_value_shorter: "attribute_value after = (v, tail) \<Longrightarrow> length tail \<le> length after"
  by (auto simp: attribute_value_def Let_def length_dropWhile_le dest!: split_once_shorter split: if_splits option.splits)

function attributes :: "rstr \<Rightarrow> (rstr \<times> rstr) list" where
  "attributes rest =
     (case split_once 61 rest of
        None \<Rightarrow> []
      | Some (before, t) \<Rightarrow>
          let name = last_word (trim_end before);
              (value, tail) = attribute_value (trim_start t)
          in (if name \<noteq> [] then [(name, unescape_xml value)] else []) @ attributes tail)"
  by pat_completeness auto
termination
proof (relation "measure length")
  fix rest p before t name q v tail
  assume p: "split_once 61 rest = Some p" "(before, t) = p"
    and q: "name = last_word (trim_end before)" "q = attribute_value (trim_start t)" "(v, tail) = q"
  have "length tail \<le> length (trim_start t)"
    using q attribute_value_shorter [of "trim_start t" v tail] by simp
  moreover have "length (trim_start t) \<le> length t"
    by (simp add: trim_start_def trim_start_matches_def length_dropWhile_le)
  moreover have "length t < length rest" using p by (auto dest: split_once_shorter)
  ultimately show "(tail, rest) \<in> measure length" by simp
qed simp

declare attributes.simps [simp del]

section \<open>Messages\<close>

definition take_attribute :: "rstr option \<times> MessageEntry \<Rightarrow> rstr \<times> rstr \<Rightarrow> rstr option \<times> MessageEntry" where
  "take_attribute s a =
     (case s of (handle, e) \<Rightarrow> case a of (name, value) \<Rightarrow>
        if name = lit ''handle'' then (Some value, e)
        else if name = lit ''datetime'' then (handle, e\<lparr>me_datetime := Some value\<rparr>)
        else if name = lit ''sender_name'' then (handle, e\<lparr>me_sender_name := Some value\<rparr>)
        else if name = lit ''sender_addressing'' then (handle, e\<lparr>me_sender_addressing := Some value\<rparr>)
        else if name = lit ''type'' then (handle, e\<lparr>me_msg_type := Some value\<rparr>)
        else if name = lit ''read'' then (handle, e\<lparr>me_read := Some (eq_ignore_ascii_case value (lit ''yes''))\<rparr>)
        else s)"

definition entry_new :: MessageEntry where
  "entry_new = \<lparr>me_handle = [], me_datetime = None, me_sender_name = None, me_sender_addressing = None,
     me_msg_type = None, me_read = None\<rparr>"

definition parse_msg_attributes :: "rstr \<Rightarrow> MessageEntry option" where
  "parse_msg_attributes section =
     (case foldl take_attribute (None, entry_new) (attributes section) of
        (Some handle, e) \<Rightarrow> Some (e\<lparr>me_handle := handle\<rparr>)
      | (None, e) \<Rightarrow> None)"

definition tag_ends :: "nat \<Rightarrow> bool" where
  "tag_ends c = (is_ascii_whitespace c \<or> c = 47 \<or> c = 62)"

function listing_entries :: "rstr \<Rightarrow> MessageEntry list" where
  "listing_entries t =
     (case split_once_str (lit ''<msg'') t of
        None \<Rightarrow> []
      | Some (_, after) \<Rightarrow>
          if after = [] then []
          else if \<not> tag_ends (hd after) then listing_entries after
          else
            (case element_end after of
               None \<Rightarrow> []
             | Some (section, rest) \<Rightarrow>
                 (case parse_msg_attributes section of Some e \<Rightarrow> [e] | None \<Rightarrow> []) @ listing_entries rest))"
  by pat_completeness auto
termination
  by (relation "measure length") (auto dest!: split_once_str_Some element_end_append)

declare listing_entries.simps [simp del]

definition parse_listing :: "bytes \<Rightarrow> MessageEntry list" where
  "parse_listing input = listing_entries (utf8_lossy input)"

function split_str :: "rstr \<Rightarrow> rstr \<Rightarrow> rstr list" where
  "split_str sep s =
     (if sep = [] then [s]
      else case split_once_str sep s of None \<Rightarrow> [s] | Some (a, b) \<Rightarrow> a # split_str sep b)"
  by pat_completeness auto
termination
  by (relation "measure (\<lambda>(sep, s). length s)") (auto dest!: split_once_str_Some)

declare split_str.simps [simp del]

definition msg_attribute_pairs :: "bytes \<Rightarrow> (rstr \<times> rstr) list list" where
  "msg_attribute_pairs input =
     map (\<lambda>piece. attributes (case element_end piece of Some (section, _) \<Rightarrow> section | None \<Rightarrow> piece))
       (filter (\<lambda>piece. piece \<noteq> [] \<and> tag_ends (hd piece)) (tl (split_str (lit ''<msg'') (utf8_lossy input))))"

section \<open>A document is read as it was written\<close>

text \<open>The reference writer escapes what XML asks for in a quoted value, and no more.\<close>

definition escape_char :: "nat \<Rightarrow> rstr" where
  "escape_char c =
     (if c = 38 then lit ''&amp;'' else if c = 60 then lit ''&lt;'' else if c = 34 then lit ''&quot;'' else [c])"

definition escape_value :: "rstr \<Rightarrow> rstr" where
  "escape_value v = concat (map escape_char v)"

definition attr_text :: "rstr \<times> rstr \<Rightarrow> rstr" where
  "attr_text a = 32 # fst a @ [61, 34] @ escape_value (snd a) @ [34]"

fun opt_attr :: "string \<Rightarrow> rstr option \<Rightarrow> (rstr \<times> rstr) list" where
  "opt_attr name None = []"
| "opt_attr name (Some v) = [(lit name, v)]"

definition entry_attrs :: "MessageEntry \<Rightarrow> (rstr \<times> rstr) list" where
  "entry_attrs e =
     [(lit ''handle'', me_handle e)] @ opt_attr ''datetime'' (me_datetime e) @ opt_attr ''sender_name'' (me_sender_name e) @
     opt_attr ''sender_addressing'' (me_sender_addressing e) @ opt_attr ''type'' (me_msg_type e) @
     opt_attr ''read'' (map_option (\<lambda>r. lit (if r then ''yes'' else ''no'')) (me_read e))"

definition attrs_text :: "(rstr \<times> rstr) list \<Rightarrow> rstr" where
  "attrs_text as = concat (map attr_text as) @ [47]"

definition msg_text :: "MessageEntry \<Rightarrow> rstr" where
  "msg_text e = lit ''<msg'' @ attrs_text (entry_attrs e) @ [62]"

definition listing_text :: "MessageEntry list \<Rightarrow> rstr" where
  "listing_text es =
     lit ''<MAP-msg-listing version='' @ [34] @ lit ''1.0'' @ [34, 62] @ concat (map msg_text es) @ lit ''</MAP-msg-listing>''"

lemma unescape_plain: "c \<noteq> 38 \<Longrightarrow> unescape_xml (c # s) = c # unescape_xml s"
  by (subst (1 2) unescape_xml.simps) (simp split: option.split)

lemma unescape_reference:
  "unescape_xml (38 # t) = (case decode_entity t of Some (ch, r) \<Rightarrow> ch # unescape_xml r | None \<Rightarrow> 38 # unescape_xml t)"
  by (subst unescape_xml.simps) simp

lemma decode_named:
  "decode_entity (lit ''amp;'' @ r) = Some (38, r)" "decode_entity (lit ''lt;'' @ r) = Some (60, r)"
  "decode_entity (lit ''quot;'' @ r) = Some (34, r)"
  by (simp_all add: decode_entity_def entity_char_def str_len_def utf8_len_def)

lemma unescape_escaped: "unescape_xml (escape_char c @ s) = c # unescape_xml s"
  using decode_named [of s] by (simp add: escape_char_def unescape_plain unescape_reference)

lemma unescape_escape: "unescape_xml (escape_value v) = v"
proof (induction v)
  case Nil
  show ?case by (subst unescape_xml.simps) (simp add: escape_value_def)
qed (simp add: escape_value_def unescape_escaped)

lemma escape_no_quote: "34 \<notin> set (escape_value v)"
  by (auto simp: escape_value_def escape_char_def)

definition name_ok :: "rstr \<Rightarrow> bool" where
  "name_ok k = (k \<noteq> [] \<and> list_all (\<lambda>c. \<not> is_whitespace c \<and> c \<notin> {34, 39, 47, 61, 62}) k)"

lemma not_ascii_whitespace: "\<not> is_whitespace c \<Longrightarrow> \<not> is_ascii_whitespace c"
  by (auto simp: is_whitespace_def is_ascii_whitespace_def)

lemma scan_name:
  "list_all (\<lambda>c. \<not> is_whitespace c \<and> c \<notin> {34, 39, 47, 61, 62}) k \<Longrightarrow>
   element_scan None e (k @ 61 # s) = map_option (apfst (append (k @ [61]))) (element_scan None True s)"
proof (induction k arbitrary: e)
  case (Cons c k)
  then show ?case by (simp add: not_ascii_whitespace option.map_comp comp_def apfst_def map_prod_def split_beta)
qed (simp add: apfst_def map_prod_def split_beta)

lemma scan_quoted:
  "34 \<notin> set v \<Longrightarrow>
   element_scan (Some 34) e (v @ 34 # s) = map_option (apfst (append (v @ [34]))) (element_scan None e s)"
proof (induction v)
  case Nil
  then show ?case by (cases "element_scan None e s") (auto simp: apfst_def map_prod_def)
next
  case (Cons c v)
  then show ?case by (cases "element_scan None e s") (auto simp: apfst_def map_prod_def)
qed

lemma scan_attr:
  assumes "name_ok (fst a)"
  shows "element_scan None False (attr_text a @ s) = map_option (apfst (append (attr_text a))) (element_scan None False s)"
proof -
  have "element_scan None False (fst a @ 61 # 34 # escape_value (snd a) @ 34 # s) =
      map_option (apfst (append (fst a @ [61]))) (element_scan None True (34 # escape_value (snd a) @ 34 # s))"
    using assms by (intro scan_name) (simp add: name_ok_def)
  moreover note scan_quoted [OF escape_no_quote [of "snd a"], of False s]
  ultimately show ?thesis
    by (cases "element_scan None False s") (auto simp: attr_text_def is_ascii_whitespace_def apfst_def map_prod_def)
qed

lemma scan_attrs:
  "list_all (\<lambda>a. name_ok (fst a)) as \<Longrightarrow> element_scan None False (attrs_text as @ 62 # r) = Some (attrs_text as, r)"
  by (induction as) (simp_all add: attrs_text_def scan_attr is_ascii_whitespace_def)

lemma split_once_first: "sep \<notin> set a \<Longrightarrow> split_once sep (a @ sep # b) = Some (a, b)"
  by (induction a) auto

lemma attributes_attr:
  assumes "name_ok (fst a)"
  shows "attributes (attr_text a @ s) = a # attributes s"
proof -
  obtain k v where a: "a = (k, v)" by (cases a)
  have k: "k \<noteq> []" "\<forall>c \<in> set k. \<not> is_whitespace c \<and> c \<noteq> 47 \<and> c \<noteq> 61"
    using assms by (auto simp: a name_ok_def list_all_iff)
  have sp: "split_once 61 (attr_text a @ s) = Some (32 # k, 34 # escape_value v @ 34 # s)"
    using split_once_first [of 61 "32 # k" "34 # escape_value v @ 34 # s"] k by (auto simp: a attr_text_def)
  have te: "trim_end (32 # k) = 32 # k"
    using k by (cases k rule: rev_cases) (simp_all add: trim_end_def trim_end_matches_def)
  have lw: "last_word (32 # k) = k"
  proof -
    have "takeWhile (\<lambda>c. \<not> (is_whitespace c \<or> c = 47)) (rev k @ [32]) = rev k"
      by (subst takeWhile_append2) (use k(2) in \<open>auto simp: is_whitespace_def\<close>)
    then show ?thesis by (simp add: last_word_def)
  qed
  have ts: "trim_start (34 # t) = 34 # t" for t by (simp add: trim_start_def trim_start_matches_def is_whitespace_def)
  have av: "attribute_value (34 # escape_value v @ 34 # s) = (escape_value v, s)"
    using split_once_first [OF escape_no_quote [of v]] by (simp add: attribute_value_def)
  show ?thesis
    by (subst attributes.simps) (use k(1) in \<open>simp add: sp te lw ts av unescape_escape, simp add: a\<close>)
qed

lemma attributes_attrs: "list_all (\<lambda>a. name_ok (fst a)) as \<Longrightarrow> attributes (attrs_text as) = as"
proof (induction as)
  case Nil
  show ?case by (subst attributes.simps) (simp add: attrs_text_def)
qed (simp add: attrs_text_def attributes_attr)

lemma entry_names: "list_all (\<lambda>a. name_ok (fst a)) (entry_attrs e)"
  by (cases "me_datetime e"; cases "me_sender_name e"; cases "me_sender_addressing e"; cases "me_msg_type e"; cases "me_read e")
    (simp_all add: entry_attrs_def name_ok_def is_whitespace_def)

lemma read_entry: "parse_msg_attributes (attrs_text (entry_attrs e)) = Some e"
  unfolding parse_msg_attributes_def attributes_attrs [OF entry_names]
  by (cases e; cases "me_datetime e"; cases "me_sender_name e"; cases "me_sender_addressing e"; cases "me_msg_type e"; cases "me_read e")
    (simp_all add: entry_attrs_def take_attribute_def entry_new_def eq_ignore_ascii_case_def to_ascii_lowercase_def)

text \<open>The search goes past every character that does not begin \<open><msg\<close>.\<close>

lemma entries_skip: "strip_prefix (lit ''<msg'') (c # s) = None \<Longrightarrow> listing_entries (c # s) = listing_entries s"
  by (subst (1 2) listing_entries.simps, subst split_once_str.simps) (auto split: option.split)

lemma entries_nil: "listing_entries [] = []"
  by (subst listing_entries.simps, subst split_once_str.simps) simp

lemma entries_msg: "listing_entries (msg_text e @ s) = e # listing_entries s"
proof -
  have at: "attrs_text (entry_attrs e) = 32 # tl (attrs_text (entry_attrs e))"
    by (simp add: attrs_text_def entry_attrs_def attr_text_def)
  have "split_once_str (lit ''<msg'') (msg_text e @ s) = Some ([], attrs_text (entry_attrs e) @ 62 # s)"
    by (subst split_once_str.simps) (simp add: msg_text_def del: lit_simps)
  moreover have "element_end (attrs_text (entry_attrs e) @ 62 # s) = Some (attrs_text (entry_attrs e), s)"
    by (simp add: element_end_def scan_attrs entry_names)
  moreover have "tag_ends (hd (attrs_text (entry_attrs e) @ 62 # s))"
    by (subst at) (simp add: tag_ends_def is_ascii_whitespace_def)
  ultimately show ?thesis
    by (subst listing_entries.simps) (simp add: read_entry del: lit_simps)
qed

lemma entries_read: "listing_entries (listing_text es) = es"
proof -
  have "listing_entries (lit ''</MAP-msg-listing>'') = []" by (simp add: entries_skip entries_nil)
  then have "listing_entries (concat (map msg_text es) @ lit ''</MAP-msg-listing>'') = es"
    by (induction es) (simp_all add: entries_msg del: lit_simps)
  then show ?thesis by (simp add: listing_text_def entries_skip)
qed

definition entry_chars :: "MessageEntry \<Rightarrow> nat list" where
  "entry_chars e =
     me_handle e @ concat (map (\<lambda>f. case f e of Some v \<Rightarrow> v | None \<Rightarrow> [])
       [me_datetime, me_sender_name, me_sender_addressing, me_msg_type])"

lemma escape_scalar: "list_all scalar_value (escape_value v) = list_all scalar_value v"
  by (induction v) (auto simp: escape_value_def escape_char_def scalar_value_def)

lemma msg_scalar: "list_all scalar_value (entry_chars e) \<Longrightarrow> list_all scalar_value (msg_text e)"
  by (cases "me_datetime e"; cases "me_sender_name e"; cases "me_sender_addressing e"; cases "me_msg_type e"; cases "me_read e")
    (simp_all add: entry_chars_def msg_text_def attrs_text_def entry_attrs_def attr_text_def escape_scalar scalar_value_def)

text \<open>A listing document, written with the escapes XML asks for in a quoted value, is read as the
  messages it lists: each with its handle, and with exactly the fields it was given, whatever characters they hold
  (quotation marks, brackets, ampersands, equals signs and text that looks like another element included).\<close>

lemma listing_read:
  assumes "\<forall>e \<in> set es. list_all scalar_value (entry_chars e)"
  shows "parse_listing (utf8_encode (listing_text es)) = es"
proof -
  have "list_all scalar_value (concat (map msg_text es))"
    using assms by (induction es) (simp_all add: msg_scalar)
  then have "list_all scalar_value (listing_text es)"
    by (simp add: listing_text_def scalar_value_def)
  then show ?thesis by (simp add: parse_listing_def entries_read utf8_lossy_decode [OF utf8_roundtrip])
qed

end
