(* ===== verification/Map_Mas.thy ===== *)
theory Map_Mas
  imports Obex_Get Map_Listing
begin

text \<open>
  \<open>aokie_radio/map_mas.rs\<close>: the session with the phone's message server.  It connects, walks to the folder an
  operation needs, sends the operation's request and takes its answers; a pooled session then rests and may be given
  another operation, from whatever folder the last one left it in.  As in the sources a step gives the request to
  send, if any, and the session after it; the reason of a failure is its text.
\<close>

section \<open>Constants\<close>

definition MAS_TARGET_UUID :: bytes where
  "MAS_TARGET_UUID =
     [0xbb, 0x58, 0x2b, 0x40, 0x42, 0x0c, 0x11, 0xdb, 0xb0, 0xde, 0x08, 0x00, 0x20, 0x0c, 0x9a, 0x66]"

definition MAS_MAX_PACKET_LENGTH :: u16 where
  "MAS_MAX_PACKET_LENGTH = 0x4000"

definition TYPE_MSG_LISTING :: bytes where
  "TYPE_MSG_LISTING = utf8_encode (lit ''x-bt/MAP-msg-listing'')"

definition TYPE_MESSAGE :: bytes where
  "TYPE_MESSAGE = utf8_encode (lit ''x-bt/message'')"

definition TYPE_NOTIFICATION_REGISTRATION :: bytes where
  "TYPE_NOTIFICATION_REGISTRATION = utf8_encode (lit ''x-bt/MAP-NotificationRegistration'')"

abbreviation (input) APP_PARAM_MAX_LIST_COUNT :: u8 where "APP_PARAM_MAX_LIST_COUNT \<equiv> 0x01"
abbreviation (input) APP_PARAM_FILTER_MESSAGE_TYPE :: u8 where "APP_PARAM_FILTER_MESSAGE_TYPE \<equiv> 0x03"
abbreviation (input) APP_PARAM_ATTACHMENT :: u8 where "APP_PARAM_ATTACHMENT \<equiv> 0x0a"
abbreviation (input) APP_PARAM_TRANSPARENT :: u8 where "APP_PARAM_TRANSPARENT \<equiv> 0x0b"
abbreviation (input) APP_PARAM_RETRY :: u8 where "APP_PARAM_RETRY \<equiv> 0x0c"
abbreviation (input) APP_PARAM_CHARSET :: u8 where "APP_PARAM_CHARSET \<equiv> 0x14"
abbreviation (input) APP_PARAM_NOTIFICATION_STATUS :: u8 where "APP_PARAM_NOTIFICATION_STATUS \<equiv> 0x0e"
abbreviation (input) CHARSET_UTF8 :: u8 where "CHARSET_UTF8 \<equiv> 0x01"

section \<open>State\<close>

datatype Folder = Inbox | Outbox | SentFolder

fun folder_as_str :: "Folder \<Rightarrow> rstr" where
  "folder_as_str Inbox = lit ''inbox''"
| "folder_as_str Outbox = lit ''outbox''"
| "folder_as_str SentFolder = lit ''sent''"

datatype Operation =
    ListMessages Folder u16 u8
  | GetMessage Folder rstr u8
  | PushMessage Folder bytes u8
  | SetNotificationRegistration bool

datatype SetPathStep = PathUp | PathDown rstr

datatype MasState =
    MasIdle
  | MasAwaitingConnect
  | MasAwaitingSetPath SetPathStep "SetPathStep list"
  | MasAwaitingFirstGet
  | MasAwaitingContinuation
  | MasAwaitingPut
  | MasResting
  | MasAwaitingDisconnect
  | MasDone
  | MasFailed rstr

datatype OperationOutput = Listing bytes | Message bytes | PushAcknowledged | OutputPending

record MasMceSession =
  ms_state :: MasState
  ms_operation :: Operation
  ms_instance_id :: u8
  ms_connection_id :: "u32 option"
  ms_body :: BodyAssembler
  ms_output :: OperationOutput
  ms_keep_alive :: bool
  ms_current_folder :: "rstr list"
  ms_srm_active :: bool

definition mas_new :: "Operation \<Rightarrow> u8 \<Rightarrow> MasMceSession" where
  "mas_new operation instance_id =
     \<lparr>ms_state = MasIdle, ms_operation = operation, ms_instance_id = instance_id, ms_connection_id = None,
      ms_body = assembler_with_limit MESSAGE_BODY_LIMIT, ms_output = OutputPending, ms_keep_alive = False,
      ms_current_folder = [], ms_srm_active = False\<rparr>"

definition mas_set_keep_alive :: "bool \<Rightarrow> MasMceSession \<Rightarrow> MasMceSession" where
  "mas_set_keep_alive k s = s\<lparr>ms_keep_alive := k\<rparr>"

section \<open>Requests\<close>

definition push_app_param_u8 :: "bytes \<Rightarrow> u8 \<Rightarrow> u8 \<Rightarrow> bytes" where
  "push_app_param_u8 out tag v = out @ [tag, 1, v]"

definition push_app_param_u16 :: "bytes \<Rightarrow> u8 \<Rightarrow> u16 \<Rightarrow> bytes" where
  "push_app_param_u16 out tag v = out @ [tag, 2] @ u16_be v"

fun op_folder :: "Operation \<Rightarrow> Folder option" where
  "op_folder (ListMessages f _ _) = Some f"
| "op_folder (GetMessage f _ _) = Some f"
| "op_folder (PushMessage f _ _) = Some f"
| "op_folder (SetNotificationRegistration _) = None"

definition target_folder :: "Operation \<Rightarrow> rstr list" where
  "target_folder op = (case op_folder op of Some f \<Rightarrow> [lit ''telecom'', lit ''msg'', folder_as_str f] | None \<Rightarrow> [])"

fun build_setpath_step :: "u32 \<Rightarrow> SetPathStep \<Rightarrow> bytes" where
  "build_setpath_step conn PathUp = build_setpath conn None (SETPATH_FLAG_BACKUP OR SETPATH_FLAG_NOCREATE)"
| "build_setpath_step conn (PathDown name) = build_setpath conn (Some name) 0"

text \<open>The connect request is built, parsed, extended and encoded again; \<open>None\<close> would be the panic of its \<open>expect\<close>.\<close>

definition build_connect_request_with_mas_instance :: "u8 \<Rightarrow> bytes option" where
  "build_connect_request_with_mas_instance instance_id =
     (case packet_parse (build_connect_request (Some MAS_TARGET_UUID) MAS_MAX_PACKET_LENGTH) FixedConnect of
        Inl _ \<Rightarrow> None
      | Inr packet \<Rightarrow>
          Some (packet_encode
            (packet\<lparr>pk_headers := pk_headers packet @ [header_app_parameters (push_app_param_u8 [] 0x0F instance_id)]\<rparr>)))"

definition push_message_headers :: "u8 \<Rightarrow> Header list" where
  "push_message_headers charset =
     [header_name [], header_obex_type TYPE_MESSAGE,
      header_app_parameters
        (push_app_param_u8 (push_app_param_u8 (push_app_param_u8 [] APP_PARAM_CHARSET charset) APP_PARAM_TRANSPARENT 0)
          APP_PARAM_RETRY 1)]"

definition push_message_packet_len :: "nat \<Rightarrow> nat" where
  "push_message_packet_len bmessage_len =
     length (build_put_request 0 (push_message_headers CHARSET_UTF8) (replicate bmessage_len 0))"

definition mas_require :: "Packet \<Rightarrow> bytes \<Rightarrow> rstr \<Rightarrow> rstr + unit" where
  "mas_require p expected context =
     (if pk_opcode p \<in> set expected then Inr ()
      else Inl (refusal_text (lit ''MAS '' @ context) (pk_opcode p) expected))"

definition mas_put_prefix :: rstr where
  "mas_put_prefix = lit ''MAS PUT: server returned 0x''"

definition push_refusal_code :: "rstr \<Rightarrow> u8 option" where
  "push_refusal_code reason =
     (case split_once_str mas_put_prefix reason of
        Some (_, a # b # _) \<Rightarrow>
          (case u8_from_hex [a, b] of
             Some code \<Rightarrow> if 0xc0 \<le> code \<and> code \<le> 0xcf \<and> code \<noteq> 0xc8 then Some code else None
           | None \<Rightarrow> None)
      | _ \<Rightarrow> None)"

section \<open>Operations\<close>

definition mas_next_request :: "MasMceSession \<Rightarrow> bytes option \<times> MasMceSession" where
  "mas_next_request s =
     (case ms_state s of
        MasIdle \<Rightarrow> (build_connect_request_with_mas_instance (ms_instance_id s), s\<lparr>ms_state := MasAwaitingConnect\<rparr>)
      | _ \<Rightarrow> (None, s))"

definition mas_connection :: "MasMceSession \<Rightarrow> rstr + u32" where
  "mas_connection s =
     (case ms_connection_id s of Some c \<Rightarrow> Inr c | None \<Rightarrow> Inl (lit ''MAS session has no Connection-Id''))"

definition mas_observe_srm :: "MasMceSession \<Rightarrow> Packet \<Rightarrow> MasMceSession" where
  "mas_observe_srm s p = (if \<not> ms_srm_active s \<and> answer_srm p then s\<lparr>ms_srm_active := True\<rparr> else s)"

definition start_operation :: "u32 \<Rightarrow> MasMceSession \<Rightarrow> bytes \<times> MasMceSession" where
  "start_operation conn s =
     (case ms_operation s of
        ListMessages _ max_list_count filter_message_type \<Rightarrow>
          (build_get_request conn
             [header_obex_type TYPE_MSG_LISTING,
              header_app_parameters (push_app_param_u8 (push_app_param_u16 [] APP_PARAM_MAX_LIST_COUNT max_list_count)
                APP_PARAM_FILTER_MESSAGE_TYPE filter_message_type),
              HByte HDR_SRM 1],
           s\<lparr>ms_state := MasAwaitingFirstGet\<rparr>)
      | GetMessage _ handle charset \<Rightarrow>
          (build_get_request conn
             [header_name handle, header_obex_type TYPE_MESSAGE,
              header_app_parameters (push_app_param_u8 (push_app_param_u8 [] APP_PARAM_ATTACHMENT 0) APP_PARAM_CHARSET charset),
              HByte HDR_SRM 1],
           s\<lparr>ms_state := MasAwaitingFirstGet\<rparr>)
      | PushMessage _ bmessage charset \<Rightarrow>
          (build_put_request conn (push_message_headers charset) bmessage, s\<lparr>ms_state := MasAwaitingPut\<rparr>)
      | SetNotificationRegistration enabled \<Rightarrow>
          (build_put_request conn
             [header_name [], header_obex_type TYPE_NOTIFICATION_REGISTRATION,
              header_app_parameters (push_app_param_u8 [] APP_PARAM_NOTIFICATION_STATUS (if enabled then 1 else 0))]
             (if enabled then [0x31] else [0x30]),
           s\<lparr>ms_state := MasAwaitingPut\<rparr>))"

fun common_prefix_len :: "rstr list \<Rightarrow> rstr list \<Rightarrow> nat" where
  "common_prefix_len (a # as) (b # bs) = (if a = b then Suc (common_prefix_len as bs) else 0)"
| "common_prefix_len _ _ = 0"

definition path_steps :: "rstr list \<Rightarrow> rstr list \<Rightarrow> SetPathStep list" where
  "path_steps current target =
     (let common = common_prefix_len current target
      in replicate (length current - common) PathUp @ map PathDown (drop common target))"

definition navigate_to :: "u32 \<Rightarrow> rstr list \<Rightarrow> MasMceSession \<Rightarrow> bytes \<times> MasMceSession" where
  "navigate_to conn target s =
     (case path_steps (ms_current_folder s) target of
        [] \<Rightarrow> start_operation conn s
      | first # remaining \<Rightarrow> (build_setpath_step conn first, s\<lparr>ms_state := MasAwaitingSetPath first remaining\<rparr>))"

definition finalize_op_or_disconnect :: "MasMceSession \<Rightarrow> (rstr + bytes option) \<times> MasMceSession" where
  "finalize_op_or_disconnect s =
     (if ms_keep_alive s then (Inr None, s\<lparr>ms_state := MasResting\<rparr>)
      else case mas_connection s of
        Inl e \<Rightarrow> (Inl e, s)
      | Inr conn \<Rightarrow> (Inr (Some (build_disconnect (Some conn))), s\<lparr>ms_state := MasAwaitingDisconnect\<rparr>))"

fun apply_step :: "SetPathStep \<Rightarrow> rstr list \<Rightarrow> rstr list" where
  "apply_step PathUp folder = butlast folder"
| "apply_step (PathDown name) folder = folder @ [name]"

definition mas_take_answer :: "MasMceSession \<Rightarrow> Packet \<Rightarrow> (rstr + bytes option) \<times> MasMceSession" where
  "mas_take_answer s0 p =
     (let s = mas_observe_srm s0 p in
      if pk_opcode p = RSP_CONTINUE then
        (case assembler_push (ms_body s) p of
           (Inl e, a) \<Rightarrow> (Inl (push_error_text e), s\<lparr>ms_body := a\<rparr>)
         | (Inr _, a) \<Rightarrow>
             (let s1 = s\<lparr>ms_body := a\<rparr> in
              case mas_connection s1 of
                Inl e \<Rightarrow> (Inl e, s1)
              | Inr conn \<Rightarrow>
                  (Inr (if ms_srm_active s1 then None else Some (build_get_continuation conn)),
                   s1\<lparr>ms_state := MasAwaitingContinuation\<rparr>)))
      else if pk_opcode p = RSP_OK then
        (case assembler_push (ms_body s) p of
           (Inl e, a) \<Rightarrow> (Inl (push_error_text e), s\<lparr>ms_body := a\<rparr>)
         | (Inr _, a) \<Rightarrow>
             if \<not> ba_complete a then (Inl (lit ''MAS server sent OK without EndOfBody''), s\<lparr>ms_body := a\<rparr>)
             else
               (case ms_operation s of
                  ListMessages _ _ _ \<Rightarrow> finalize_op_or_disconnect (s\<lparr>ms_body := a, ms_output := Listing (ba_bytes a)\<rparr>)
                | GetMessage _ _ _ \<Rightarrow> finalize_op_or_disconnect (s\<lparr>ms_body := a, ms_output := Message (ba_bytes a)\<rparr>)
                | _ \<Rightarrow> (Inl (lit ''MAS GET response arrived for a PUT-shaped operation''), s\<lparr>ms_body := a\<rparr>)))
      else (Inl (lit ''MAS GET: unexpected response 0x'' @ hex2 False (pk_opcode p)), s))"

definition mas_advance :: "MasMceSession \<Rightarrow> Packet \<Rightarrow> (rstr + bytes option) \<times> MasMceSession" where
  "mas_advance s p =
     (case ms_state s of
        MasAwaitingConnect \<Rightarrow>
          (case mas_require p [RSP_OK] (lit ''CONNECT'') of
             Inl e \<Rightarrow> (Inl e, s)
           | Inr _ \<Rightarrow>
               (case answer_connection_id p of
                  None \<Rightarrow> (Inl (lit ''MAS accepted CONNECT but omitted Connection-Id''), s)
                | Some conn \<Rightarrow>
                    apfst (Inr \<circ> Some) (navigate_to conn (target_folder (ms_operation s))
                      (s\<lparr>ms_connection_id := Some conn, ms_current_folder := []\<rparr>))))
      | MasAwaitingSetPath step remaining \<Rightarrow>
          (case and_then (mas_require p [RSP_OK] (lit ''SETPATH'')) (\<lambda>_. mas_connection s) of
             Inl e \<Rightarrow> (Inl e, s)
           | Inr conn \<Rightarrow>
               (let s1 = s\<lparr>ms_current_folder := apply_step step (ms_current_folder s)\<rparr> in
                apfst (Inr \<circ> Some)
                  (case remaining of
                     [] \<Rightarrow> start_operation conn s1
                   | next # remaining' \<Rightarrow>
                       (build_setpath_step conn next, s1\<lparr>ms_state := MasAwaitingSetPath next remaining'\<rparr>))))
      | MasAwaitingFirstGet \<Rightarrow> mas_take_answer s p
      | MasAwaitingContinuation \<Rightarrow> mas_take_answer s p
      | MasAwaitingPut \<Rightarrow>
          (case mas_require p [RSP_OK] (lit ''PUT'') of
             Inl e \<Rightarrow> (Inl e, s)
           | Inr _ \<Rightarrow> finalize_op_or_disconnect (s\<lparr>ms_output := PushAcknowledged\<rparr>))
      | MasAwaitingDisconnect \<Rightarrow> (Inr None, s\<lparr>ms_state := MasDone\<rparr>)
      | MasResting \<Rightarrow> (Inl (lit ''MAS response received while Resting (no op in flight)''), s)
      | MasIdle \<Rightarrow> (Inl (lit ''MAS response received while Idle''), s)
      | MasDone \<Rightarrow> (Inl (lit ''MAS response received after session terminated''), s)
      | MasFailed _ \<Rightarrow> (Inl (lit ''MAS response received after session terminated''), s))"

definition mas_handle_response :: "MasMceSession \<Rightarrow> Packet \<Rightarrow> bytes option \<times> MasMceSession" where
  "mas_handle_response s p =
     (case mas_advance s p of
        (Inr next, s') \<Rightarrow> (next, s')
      | (Inl reason, s') \<Rightarrow> (None, s'\<lparr>ms_state := MasFailed reason\<rparr>))"

text \<open>What a caller may be told instead of a request: that the session is not resting, or a reason.\<close>

datatype mas_call_error = MasNotResting | MasReason rstr

definition start_next_op :: "Operation \<Rightarrow> MasMceSession \<Rightarrow> (mas_call_error + bytes) \<times> MasMceSession" where
  "start_next_op operation s =
     (if ms_state s \<noteq> MasResting then (Inl MasNotResting, s)
      else case mas_connection s of
        Inl e \<Rightarrow> (Inl (MasReason e), s)
      | Inr conn \<Rightarrow>
          apfst Inr (navigate_to conn (target_folder operation)
            (s\<lparr>ms_body := assembler_with_limit MESSAGE_BODY_LIMIT, ms_output := OutputPending,
               ms_operation := operation, ms_srm_active := False\<rparr>)))"

definition request_disconnect :: "MasMceSession \<Rightarrow> (mas_call_error + bytes) \<times> MasMceSession" where
  "request_disconnect s =
     (if ms_state s \<noteq> MasResting then (Inl MasNotResting, s)
      else case mas_connection s of
        Inl e \<Rightarrow> (Inl (MasReason e), s)
      | Inr conn \<Rightarrow> (Inr (build_disconnect (Some conn)), s\<lparr>ms_state := MasAwaitingDisconnect\<rparr>))"

section \<open>The way to a folder\<close>

definition walk :: "rstr list \<Rightarrow> SetPathStep list \<Rightarrow> rstr list" where
  "walk folder steps = foldl (\<lambda>f st. apply_step st f) folder steps"

lemma walk_simps [simp]: "walk f [] = f" "walk f (st # steps) = walk (apply_step st f) steps"
  by (simp_all add: walk_def)

lemma walk_append: "walk f (as @ bs) = walk (walk f as) bs"
  by (simp add: walk_def)

lemma walk_ups: "walk f (replicate n PathUp) = take (length f - n) f"
  by (induction n arbitrary: f) (auto simp: butlast_conv_take min_def)

lemma walk_downs: "walk f (map PathDown ns) = f @ ns"
  by (induction ns arbitrary: f) simp_all

lemma common_prefix: "take (common_prefix_len a b) a = take (common_prefix_len a b) b \<and>
    common_prefix_len a b \<le> length a \<and> common_prefix_len a b \<le> length b"
  by (induction a b rule: common_prefix_len.induct) auto

lemma path_steps_walk: "walk current (path_steps current target) = target"
  using common_prefix [of current target]
  by (simp add: path_steps_def Let_def walk_append walk_ups walk_downs)

lemma path_steps_names: "PathDown n \<in> set (path_steps current target) \<Longrightarrow> n \<in> set target"
  by (auto simp: path_steps_def Let_def dest: in_set_dropD)

definition folder_names :: "rstr list" where
  "folder_names = [lit ''telecom'', lit ''msg'', lit ''inbox'', lit ''outbox'', lit ''sent'']"

lemma target_names: "set (target_folder op) \<subseteq> set folder_names"
proof -
  have "folder_as_str f \<in> set folder_names" for f by (cases f) (simp_all add: folder_names_def)
  then show ?thesis by (auto simp: target_folder_def folder_names_def split: option.splits)
qed

section \<open>The phone's side of a folder change\<close>

text \<open>What a SETPATH request asks of the phone: up a level when the flag is set, then down by the name if there is one.
  An accepted CONNECT starts at the root.\<close>

definition phone_setpath :: "bytes \<Rightarrow> rstr list \<Rightarrow> rstr list" where
  "phone_setpath req cwd =
     (case packet_parse req FixedSetPath of
        Inl _ \<Rightarrow> cwd
      | Inr p \<Rightarrow>
          (let up = (if hd (pk_fixed_payload p) AND SETPATH_FLAG_BACKUP \<noteq> 0 then butlast cwd else cwd)
           in case packet_header p HDR_NAME of Some (HUnicode _ n) \<Rightarrow> up @ [n] | _ \<Rightarrow> up))"

definition phone_cwd :: "bytes \<Rightarrow> Packet \<Rightarrow> rstr list \<Rightarrow> rstr list" where
  "phone_cwd req answer cwd =
     (if pk_opcode answer \<noteq> RSP_OK then cwd
      else if hd req = OP_CONNECT then []
      else if hd req = OP_SETPATH then phone_setpath req cwd
      else cwd)"

lemma hd_packet_encode [simp]: "hd (packet_encode p) = pk_opcode p"
  by (simp add: packet_encode_def Let_def)

lemma name_sent: "n \<in> set folder_names \<Longrightarrow> list_all scalar_value n \<and> length (utf16_encode n) \<le> 7"
  by (auto simp: folder_names_def scalar_value_def utf16_encode_def utf16_units_def)

lemma phone_takes_step:
  assumes "\<And>n. step = PathDown n \<Longrightarrow> n \<in> set folder_names"
  shows "hd (build_setpath_step conn step) = OP_SETPATH"
    and "phone_setpath (build_setpath_step conn step) cwd = apply_step step cwd"
proof -
  show "hd (build_setpath_step conn step) = OP_SETPATH"
    by (cases step) (simp_all add: build_setpath_def)
  show "phone_setpath (build_setpath_step conn step) cwd = apply_step step cwd"
  proof (cases step)
    case PathUp
    then show ?thesis
      using packet_roundtrip [of "\<lparr>pk_opcode = 0x85, pk_fixed_payload = [1 OR 2, 0], pk_headers = [HQuad 0xCB conn]\<rparr>" FixedSetPath "[]"]
      by (simp add: phone_setpath_def build_setpath_def header_connection_id_def packet_total_def header_kind_def packet_header_def)
  next
    case (PathDown n)
    with assms name_sent [of n] show ?thesis
      using packet_roundtrip [of "\<lparr>pk_opcode = 0x85, pk_fixed_payload = [0, 0], pk_headers = [HQuad 0xCB conn, HUnicode 0x01 n]\<rparr>" FixedSetPath "[]"]
      by (simp add: phone_setpath_def build_setpath_def header_connection_id_def header_name_def packet_total_def
          header_kind_def packet_header_def)
  qed
qed

section \<open>The session and the phone together\<close>

text \<open>
  A session, the folder the phone is in for it, and the request the phone has not answered yet.  The phone answers a
  request as it likes, may go on sending when nothing is asked of it, and is in the folder its own answers put it in;
  the caller may start an operation or close the session whenever the session allows it.
\<close>

inductive mas_world :: "MasMceSession \<Rightarrow> rstr list \<Rightarrow> bytes option \<Rightarrow> bool" where
  mw_new: "mas_world (mas_new op i) [] None"
| mw_keep: "mas_world s cwd req \<Longrightarrow> mas_world (mas_set_keep_alive k s) cwd req"
| mw_connect: "mas_world s cwd None \<Longrightarrow> mas_next_request s = (req, s') \<Longrightarrow> mas_world s' cwd req"
| mw_answer: "mas_world s cwd (Some req) \<Longrightarrow> mas_handle_response s p = (out, s') \<Longrightarrow> mas_world s' (phone_cwd req p cwd) out"
| mw_stream: "mas_world s cwd None \<Longrightarrow> mas_handle_response s p = (out, s') \<Longrightarrow> mas_world s' cwd out"
| mw_next: "mas_world s cwd None \<Longrightarrow> start_next_op op s = (Inr req, s') \<Longrightarrow> mas_world s' cwd (Some req)"
| mw_close: "mas_world s cwd None \<Longrightarrow> request_disconnect s = (Inr req, s') \<Longrightarrow> mas_world s' cwd (Some req)"

fun get_shaped :: "Operation \<Rightarrow> bool" where
  "get_shaped (ListMessages _ _ _) = True"
| "get_shaped (GetMessage _ _ _) = True"
| "get_shaped _ = False"

definition in_place :: "MasMceSession \<Rightarrow> rstr list \<Rightarrow> bool" where
  "in_place s cwd = (ms_current_folder s = cwd \<and> cwd = target_folder (ms_operation s) \<and> ms_connection_id s \<noteq> None)"

definition mas_inv :: "MasMceSession \<Rightarrow> rstr list \<Rightarrow> bytes option \<Rightarrow> bool" where
  "mas_inv s cwd req =
     (case ms_state s of
        MasIdle \<Rightarrow> req = None \<and> cwd = []
      | MasAwaitingConnect \<Rightarrow> (\<exists>r. req = Some r \<and> hd r = OP_CONNECT) \<and> cwd = []
      | MasAwaitingSetPath step remaining \<Rightarrow>
          (\<exists>conn. ms_connection_id s = Some conn \<and> req = Some (build_setpath_step conn step)) \<and> ms_current_folder s = cwd \<and>
          walk cwd (step # remaining) = target_folder (ms_operation s) \<and>
          (\<forall>n. PathDown n \<in> set (step # remaining) \<longrightarrow> n \<in> set folder_names)
      | MasAwaitingFirstGet \<Rightarrow> in_place s cwd \<and> get_shaped (ms_operation s) \<and> (\<exists>r. req = Some r \<and> hd r = OP_GET_FINAL)
      | MasAwaitingContinuation \<Rightarrow> in_place s cwd \<and> get_shaped (ms_operation s) \<and> (\<forall>r. req = Some r \<longrightarrow> hd r = OP_GET_FINAL)
      | MasAwaitingPut \<Rightarrow> in_place s cwd \<and> \<not> get_shaped (ms_operation s) \<and> (\<exists>r. req = Some r \<and> hd r = OP_PUT_FINAL)
      | MasResting \<Rightarrow> req = None \<and> ms_current_folder s = cwd \<and> ms_connection_id s \<noteq> None
      | MasAwaitingDisconnect \<Rightarrow> (\<exists>r. req = Some r \<and> hd r = OP_DISCONNECT)
      | MasDone \<Rightarrow> req = None
      | MasFailed _ \<Rightarrow> req = None)"

lemma connect_request: "\<exists>r. build_connect_request_with_mas_instance i = Some r \<and> hd r = OP_CONNECT"
proof -
  have "packet_parse (build_connect_request (Some MAS_TARGET_UUID) MAS_MAX_PACKET_LENGTH @ []) FixedConnect =
      Inr \<lparr>pk_opcode = OP_CONNECT, pk_fixed_payload = build_connect_fixed 0x10 0x00 MAS_MAX_PACKET_LENGTH,
           pk_headers = [header_target MAS_TARGET_UUID]\<rparr>"
    unfolding build_connect_request_def option.case
    by (rule packet_roundtrip) (simp_all add: build_connect_fixed_def header_target_def header_kind_def packet_total_def MAS_TARGET_UUID_def u16_be_def)
  then show ?thesis by (simp add: build_connect_request_with_mas_instance_def)
qed

lemma inv_start:
  assumes "start_operation conn s = (req, s')" "ms_current_folder s = cwd" "cwd = target_folder (ms_operation s)"
    "ms_connection_id s = Some conn"
  shows "mas_inv s' cwd (Some req)"
  using assms by (cases "ms_operation s")
    (auto simp: start_operation_def mas_inv_def in_place_def build_get_request_def build_put_request_def)

lemma inv_navigate:
  assumes "navigate_to conn (target_folder (ms_operation s)) s = (req, s')" "ms_current_folder s = cwd"
    "ms_connection_id s = Some conn"
  shows "mas_inv s' cwd (Some req)"
proof (cases "path_steps cwd (target_folder (ms_operation s))")
  case Nil
  then have "cwd = target_folder (ms_operation s)" using path_steps_walk [of cwd "target_folder (ms_operation s)"] by simp
  with Nil assms show ?thesis by (intro inv_start [of conn s]) (simp_all add: navigate_to_def)
next
  case (Cons step remaining)
  have "n \<in> set folder_names" if "PathDown n \<in> set (step # remaining)" for n
    using that path_steps_names [of n cwd] target_names unfolding Cons [symmetric] by blast
  with Cons assms path_steps_walk [of cwd "target_folder (ms_operation s)"] show ?thesis
    by (auto simp: navigate_to_def mas_inv_def)
qed

lemma observe_keeps [simp]:
  "ms_state (mas_observe_srm s p) = ms_state s" "ms_body (mas_observe_srm s p) = ms_body s"
  "ms_connection_id (mas_observe_srm s p) = ms_connection_id s" "ms_operation (mas_observe_srm s p) = ms_operation s"
  "ms_keep_alive (mas_observe_srm s p) = ms_keep_alive s" "ms_current_folder (mas_observe_srm s p) = ms_current_folder s"
  "ms_srm_active (mas_observe_srm s p) = (ms_srm_active s \<or> answer_srm p)"
  by (auto simp: mas_observe_srm_def)

text \<open>Every way out of \<open>advance\<close> is a failure, which asks nothing of the phone, or keeps the invariant.\<close>

lemma inv_failed: "mas_inv (s\<lparr>ms_state := MasFailed e\<rparr>) cwd None"
  by (simp add: mas_inv_def)

definition inv_result :: "(rstr + bytes option) \<times> MasMceSession \<Rightarrow> rstr list \<Rightarrow> bool" where
  "inv_result r cwd = (case r of (Inl _, _) \<Rightarrow> True | (Inr out, s') \<Rightarrow> mas_inv s' cwd out)"

lemma inv_handle: "inv_result (mas_advance s p) cwd \<Longrightarrow> mas_handle_response s p = (out, s') \<Longrightarrow> mas_inv s' cwd out"
  by (auto simp: mas_handle_response_def inv_result_def inv_failed split: prod.splits sum.splits)

lemma inv_finalize:
  "ms_current_folder s = cwd \<Longrightarrow> ms_connection_id s \<noteq> None \<Longrightarrow> inv_result (finalize_op_or_disconnect s) cwd"
  by (auto simp: finalize_op_or_disconnect_def mas_connection_def inv_result_def mas_inv_def build_disconnect_def)

lemma inv_take_answer:
  assumes "in_place s cwd" "get_shaped (ms_operation s)"
  shows "inv_result (mas_take_answer s p) cwd"
proof -
  obtain r a where push: "assembler_push (ms_body s) p = (r, a)" by fastforce
  obtain conn where c: "ms_connection_id s = Some conn" "ms_current_folder s = cwd" using assms(1) by (auto simp: in_place_def)
  have fin: "inv_result (finalize_op_or_disconnect (mas_observe_srm s p\<lparr>ms_body := a, ms_output := x\<rparr>)) cwd" for x
    by (rule inv_finalize) (simp_all add: c)
  consider "pk_opcode p = RSP_CONTINUE" | "pk_opcode p = RSP_OK" | "pk_opcode p \<noteq> RSP_CONTINUE" "pk_opcode p \<noteq> RSP_OK" by blast
  then show ?thesis
  proof cases
    case 1
    with assms c push show ?thesis
      by (cases r) (auto simp: mas_take_answer_def Let_def mas_connection_def inv_result_def mas_inv_def in_place_def
          build_get_continuation_def)
  next
    case 2
    with push assms fin show ?thesis
      by (cases r; cases "ms_operation s") (auto simp: mas_take_answer_def Let_def, auto simp: inv_result_def)
  next
    case 3
    then show ?thesis by (simp add: mas_take_answer_def Let_def inv_result_def)
  qed
qed

lemma inv_apfst: "(\<And>req s'. x = (req, s') \<Longrightarrow> mas_inv s' cwd (Some req)) \<Longrightarrow> inv_result (apfst (Inr \<circ> Some) x) cwd"
  by (cases x) (simp add: inv_result_def)

lemma inv_refused: "pk_opcode p \<noteq> RSP_OK \<Longrightarrow> ms_state s \<notin> {MasAwaitingFirstGet, MasAwaitingContinuation, MasAwaitingDisconnect} \<Longrightarrow>
    inv_result (mas_advance s p) cwd"
  by (simp add: mas_advance_def mas_require_def inv_result_def split: MasState.split)

lemma inv_setpath:
  assumes "mas_inv s cwd (Some req)" "ms_state s = MasAwaitingSetPath step remaining" "pk_opcode p = RSP_OK"
  shows "inv_result (mas_advance s p) (phone_cwd req p cwd)"
proof -
  obtain conn where c: "ms_connection_id s = Some conn" "req = build_setpath_step conn step" "ms_current_folder s = cwd"
      "walk (apply_step step cwd) remaining = target_folder (ms_operation s)"
      "\<forall>n. PathDown n \<in> set (step # remaining) \<longrightarrow> n \<in> set folder_names"
    using assms(1,2) by (auto simp: mas_inv_def)
  have "phone_cwd req p cwd = apply_step step cwd"
    using phone_takes_step(1) [of step conn] phone_takes_step(2) [of step conn cwd] c(5) assms(3) by (simp add: phone_cwd_def c(2))
  moreover have "mas_inv s' (apply_step step cwd) (Some req')"
    if "start_operation conn (s\<lparr>ms_current_folder := apply_step step cwd\<rparr>) = (req', s')" "remaining = []" for req' s'
    by (rule inv_start [OF that(1)]) (use c that in auto)
  ultimately show ?thesis
    using assms(2,3) c
    by (auto simp: mas_advance_def mas_require_def mas_connection_def Let_def intro!: inv_apfst split: list.splits)
      (auto simp: mas_inv_def inv_result_def)
qed

lemma inv_answer:
  assumes "mas_inv s cwd (Some req)" "mas_handle_response s p = (out, s')"
  shows "mas_inv s' (phone_cwd req p cwd) out"
proof (rule inv_handle [OF _ assms(2)])
  have same: "phone_cwd req p cwd = cwd" if "hd req \<noteq> OP_CONNECT" "hd req \<noteq> OP_SETPATH" using that by (simp add: phone_cwd_def)
  show "inv_result (mas_advance s p) (phone_cwd req p cwd)"
  proof (cases "ms_state s")
    case MasAwaitingConnect
    show ?thesis
    proof (cases "pk_opcode p = RSP_OK")
      case True
      then have "phone_cwd req p cwd = []" using MasAwaitingConnect assms(1) by (auto simp: mas_inv_def phone_cwd_def)
      moreover have "mas_inv s' [] (Some req')"
        if "navigate_to conn (target_folder (ms_operation s)) (s\<lparr>ms_connection_id := Some conn, ms_current_folder := []\<rparr>) = (req', s')" for conn req' s'
        by (rule inv_navigate [of conn "s\<lparr>ms_connection_id := Some conn, ms_current_folder := []\<rparr>"]) (use that in auto)
      ultimately show ?thesis using MasAwaitingConnect True
        by (auto simp: mas_advance_def mas_require_def intro!: inv_apfst split: option.splits) (simp add: inv_result_def)
    qed (rule inv_refused, use MasAwaitingConnect in auto)
  next
    case (MasAwaitingSetPath step remaining)
    with assms(1) show ?thesis by (cases "pk_opcode p = RSP_OK") (auto intro: inv_setpath inv_refused)
  next
    case MasAwaitingFirstGet
    with assms(1) same show ?thesis by (auto simp: mas_inv_def mas_advance_def intro!: inv_take_answer)
  next
    case MasAwaitingContinuation
    with assms(1) same show ?thesis by (auto simp: mas_inv_def mas_advance_def intro!: inv_take_answer)
  next
    case MasAwaitingPut
    with assms(1) same have "ms_current_folder s = cwd" "ms_connection_id s \<noteq> None" "phone_cwd req p cwd = cwd"
      by (auto simp: mas_inv_def in_place_def)
    with MasAwaitingPut show ?thesis
      by (cases "pk_opcode p = RSP_OK")
        (auto simp: mas_advance_def mas_require_def intro!: inv_finalize, auto simp: inv_result_def)
  next
    case MasAwaitingDisconnect
    then show ?thesis by (simp add: mas_advance_def inv_result_def mas_inv_def)
  qed (use assms(1) in \<open>auto simp: mas_inv_def\<close>)
qed

lemma inv_stream:
  assumes "mas_inv s cwd None" "mas_handle_response s p = (out, s')"
  shows "mas_inv s' cwd out"
proof (rule inv_handle [OF _ assms(2)])
  show "inv_result (mas_advance s p) cwd"
    using assms(1)
    by (cases "ms_state s") (auto simp: mas_inv_def mas_advance_def intro!: inv_take_answer, auto simp: inv_result_def)
qed

lemma mas_world_inv: "mas_world s cwd req \<Longrightarrow> mas_inv s cwd req"
proof (induction rule: mas_world.induct)
  case (mw_new op i)
  show ?case by (simp add: mas_inv_def mas_new_def)
next
  case (mw_keep s cwd req k)
  then show ?case
    by (auto simp: mas_inv_def mas_set_keep_alive_def in_place_def split: MasState.splits)
next
  case (mw_connect s cwd req s')
  obtain r where r: "build_connect_request_with_mas_instance (ms_instance_id s) = Some r" "hd r = OP_CONNECT"
    using connect_request by blast
  from mw_connect show ?case by (cases "ms_state s") (auto simp: mas_next_request_def mas_inv_def r)
next
  case (mw_next s cwd op req s')
  from mw_next(2) obtain conn where conn: "ms_state s = MasResting" "ms_connection_id s = Some conn"
    by (auto simp: start_next_op_def mas_connection_def split: if_splits option.splits)
  let ?s = "s\<lparr>ms_body := assembler_with_limit MESSAGE_BODY_LIMIT, ms_output := OutputPending, ms_operation := op, ms_srm_active := False\<rparr>"
  have "navigate_to conn (target_folder (ms_operation ?s)) ?s = (req, s')"
    using mw_next(2) conn by (simp add: start_next_op_def mas_connection_def apfst_def map_prod_def split: prod.splits)
  then show ?case by (rule inv_navigate) (use mw_next(3) conn in \<open>auto simp: mas_inv_def\<close>)
next
  case (mw_close s cwd req s')
  then show ?case
    by (auto simp: request_disconnect_def mas_connection_def mas_inv_def build_disconnect_def split: if_splits option.splits)
qed (auto intro: inv_answer inv_stream)

text \<open>C12 Whatever the phone answers and whatever operations a pooled session is given one
  after the other, a request to fetch or to push a message is only sent when the phone is in the folder of that very
  operation, and so is every continuation of it.\<close>

theorem operation_sent_in_its_folder:
  assumes "mas_world s cwd (Some req)" "hd req = OP_GET_FINAL \<or> hd req = OP_PUT_FINAL"
  shows "cwd = target_folder (ms_operation s)"
  using mas_world_inv [OF assms(1)] assms(2) phone_takes_step(1)
  by (cases "ms_state s") (auto simp: mas_inv_def in_place_def)

theorem operation_sent_in_its_folder_witness:
  "\<exists>s cwd req. mas_world s cwd (Some req) \<and> hd req = OP_PUT_FINAL \<and> ms_operation s = SetNotificationRegistration True \<and>
     cwd = target_folder (ms_operation s)"
proof -
  let ?p = "\<lparr>pk_opcode = RSP_OK, pk_fixed_payload = [], pk_headers = [HQuad 0xCB 7]\<rparr>"
  let ?s = "(mas_new (SetNotificationRegistration True) 0)\<lparr>ms_state := MasAwaitingConnect\<rparr>"
  obtain r where r: "build_connect_request_with_mas_instance 0 = Some r" "hd r = OP_CONNECT"
    using connect_request by blast
  have "mas_world ?s [] (Some r)"
    by (rule mw_connect [OF mw_new [of "SetNotificationRegistration True" 0]]) (simp add: mas_next_request_def mas_new_def r)
  moreover obtain out s' where step: "mas_handle_response ?s ?p = (out, s')" by fastforce
  ultimately have w: "mas_world s' (phone_cwd r ?p []) out" by (rule mw_answer)
  from step obtain req where "out = Some req" "hd req = OP_PUT_FINAL" "ms_operation s' = SetNotificationRegistration True"
    by (auto simp: mas_handle_response_def mas_advance_def mas_new_def mas_require_def answer_connection_id_def packet_header_def
        navigate_to_def path_steps_def target_folder_def Let_def start_operation_def build_put_request_def)
  with operation_sent_in_its_folder [of s' _ req] w show ?thesis by blast
qed

section \<open>An operation from end to end\<close>

definition mas_getting :: "MasMceSession \<Rightarrow> bool" where
  "mas_getting s =
     ((ms_state s = MasAwaitingFirstGet \<or> ms_state s = MasAwaitingContinuation) \<and> ms_connection_id s \<noteq> None \<and>
      get_shaped (ms_operation s))"

fun op_output :: "Operation \<Rightarrow> bytes \<Rightarrow> OperationOutput" where
  "op_output (ListMessages _ _ _) b = Listing b"
| "op_output _ b = Message b"

lemma mas_continues:
  assumes "mas_getting s" "pk_opcode p = RSP_CONTINUE" "assembler_push (ms_body s) p = (Inr c, a)"
  shows "mas_handle_response s p =
    (if ms_srm_active s \<or> answer_srm p then None else Some (build_get_continuation (the (ms_connection_id s))),
     (mas_observe_srm s p)\<lparr>ms_body := a, ms_state := MasAwaitingContinuation\<rparr>)"
  using assms
  by (auto simp: mas_getting_def mas_handle_response_def mas_advance_def mas_take_answer_def mas_connection_def Let_def)

lemma mas_completes:
  assumes "mas_getting s" "pk_opcode p = RSP_OK" "assembler_push (ms_body s) p = (Inr True, a)"
  shows "mas_handle_response s p =
    (if ms_keep_alive s then None else Some (build_disconnect (ms_connection_id s)),
     (mas_observe_srm s p)\<lparr>ms_body := a, ms_output := op_output (ms_operation s) (ba_bytes a),
        ms_state := (if ms_keep_alive s then MasResting else MasAwaitingDisconnect)\<rparr>)"
  using assms push_complete [OF assms(3)]
  by (cases "ms_operation s")
    (auto simp: mas_getting_def mas_handle_response_def mas_advance_def mas_take_answer_def mas_connection_def Let_def
      finalize_op_or_disconnect_def)

interpretation mas_get: get_session mas_handle_response mas_getting ms_body
  "\<lambda>s. (ms_connection_id s, ms_operation s, ms_keep_alive s, ms_current_folder s)"
  "\<lambda>s. (ms_state s, ms_output s, ms_current_folder s)"
  "\<lambda>(conn, op, keep, folder) b.
     (if keep then None else Some (build_disconnect conn),
      if keep then MasResting else MasAwaitingDisconnect, op_output op b, folder)"
proof (unfold_locales, goal_cases)
  case (1 s p c a)
  then show ?case by (simp add: mas_continues) (simp add: mas_getting_def)
next
  case (2 s p a)
  then show ?case by (simp add: mas_completes)
qed

text \<open>Answers to the folder changes: one OK each.\<close>

lemma walk_accepted:
  assumes "ms_state s = MasAwaitingSetPath step remaining" "ms_connection_id s = Some conn"
    "length oks = Suc (length remaining)" "\<forall>p \<in> set oks. pk_opcode p = RSP_OK"
  shows "foldl (\<lambda>s p. snd (mas_handle_response s p)) s oks =
    snd (start_operation conn (s\<lparr>ms_current_folder := walk (ms_current_folder s) (step # remaining)\<rparr>))"
  using assms
proof (induction remaining arbitrary: s step oks)
  case Nil
  then obtain p where "oks = [p]" "pk_opcode p = RSP_OK" by (cases oks) auto
  with Nil show ?case
    by (simp add: mas_handle_response_def mas_advance_def mas_require_def mas_connection_def Let_def split_beta)
next
  case (Cons st remaining)
  then obtain p ps where oks: "oks = p # ps" "pk_opcode p = RSP_OK" by (cases oks) auto
  let ?s = "s\<lparr>ms_current_folder := apply_step step (ms_current_folder s), ms_state := MasAwaitingSetPath st remaining\<rparr>"
  have "snd (mas_handle_response s p) = ?s"
    using Cons.prems oks
    by (simp add: mas_handle_response_def mas_advance_def mas_require_def mas_connection_def Let_def)
  moreover have "foldl (\<lambda>s p. snd (mas_handle_response s p)) ?s ps =
      snd (start_operation conn (?s\<lparr>ms_current_folder := walk (ms_current_folder ?s) (st # remaining)\<rparr>))"
    using Cons.prems oks by (intro Cons.IH) auto
  moreover have "snd (start_operation conn (r\<lparr>ms_state := x, ms_current_folder := f\<rparr>)) =
      snd (start_operation conn (r\<lparr>ms_current_folder := f\<rparr>))" for r x f
    by (simp add: start_operation_def split: Operation.split)
  ultimately show ?case using oks by simp
qed

lemma next_op_started:
  assumes "ms_state s = MasResting" "ms_connection_id s = Some conn" "get_shaped op"
    and "length oks = length (path_steps (ms_current_folder s) (target_folder op))" "\<forall>p \<in> set oks. pk_opcode p = RSP_OK"
  shows "foldl (\<lambda>s p. snd (mas_handle_response s p)) (snd (start_next_op op s)) oks =
    s\<lparr>ms_body := assembler_with_limit MESSAGE_BODY_LIMIT, ms_output := OutputPending, ms_operation := op,
      ms_srm_active := False, ms_current_folder := target_folder op, ms_state := MasAwaitingFirstGet\<rparr>"
proof -
  let ?s = "s\<lparr>ms_body := assembler_with_limit MESSAGE_BODY_LIMIT, ms_output := OutputPending, ms_operation := op, ms_srm_active := False\<rparr>"
  have snd: "snd (start_next_op op s) = snd (navigate_to conn (target_folder op) ?s)"
    using assms(1,2) by (simp add: start_next_op_def mas_connection_def)
  show ?thesis
  proof (cases "path_steps (ms_current_folder s) (target_folder op)")
    case Nil
    then have "ms_current_folder s = target_folder op" using path_steps_walk [of "ms_current_folder s" "target_folder op"] by simp
    with Nil assms(3,4) show ?thesis
      unfolding snd by (cases op; cases s) (simp_all add: navigate_to_def start_operation_def)
  next
    case (Cons step remaining)
    let ?t = "?s\<lparr>ms_state := MasAwaitingSetPath step remaining\<rparr>"
    have "foldl (\<lambda>s p. snd (mas_handle_response s p)) ?t oks =
        snd (start_operation conn (?t\<lparr>ms_current_folder := walk (ms_current_folder ?t) (step # remaining)\<rparr>))"
      using assms Cons by (intro walk_accepted) auto
    also have "walk (ms_current_folder ?t) (step # remaining) = target_folder op"
      using path_steps_walk [of "ms_current_folder s" "target_folder op"] Cons by simp
    finally show ?thesis
      unfolding snd using Cons assms(3) by (cases op) (simp_all add: navigate_to_def start_operation_def)
  qed
qed

text \<open>A pooled session that is asked for a folder's listing, from whatever folder it rests in,
  needs one accepted folder change for each step of the way; the listing, sent in any number of answers, is then read
  as the messages it lists, and the session rests again, in that folder, ready for the next operation.\<close>

theorem pooled_listing_read:
  assumes "ms_state s = MasResting" "ms_connection_id s = Some conn" "ms_keep_alive s"
    and "length oks = length (path_steps (ms_current_folder s) (target_folder (ListMessages f n m)))"
      "\<forall>p \<in> set oks. pk_opcode p = RSP_OK"
    and "\<forall>p \<in> set ps. pk_opcode p = RSP_CONTINUE \<and> \<not> packet_ends p" "pk_opcode q = RSP_OK" "packet_ends q"
    and "concat (map packet_body (ps @ [q])) = utf8_encode (listing_text es)"
      "length (utf8_encode (listing_text es)) \<le> MESSAGE_BODY_LIMIT" "\<forall>e \<in> set es. list_all scalar_value (entry_chars e)"
  shows "let s' = foldl (\<lambda>s p. snd (mas_handle_response s p)) (snd (start_next_op (ListMessages f n m) s)) (oks @ ps @ [q]) in
    \<exists>b. ms_output s' = Listing b \<and> parse_listing b = es \<and> ms_state s' = MasResting \<and>
        ms_current_folder s' = [lit ''telecom'', lit ''msg'', folder_as_str f]"
proof -
  define t where "t = s\<lparr>ms_body := assembler_with_limit MESSAGE_BODY_LIMIT, ms_output := OutputPending, ms_operation := ListMessages f n m,
      ms_srm_active := False, ms_current_folder := target_folder (ListMessages f n m), ms_state := MasAwaitingFirstGet\<rparr>"
  have t: "foldl (\<lambda>s p. snd (mas_handle_response s p)) (snd (start_next_op (ListMessages f n m) s)) oks = t"
    unfolding t_def by (rule next_op_started) (use assms in auto)
  have t': "mas_getting t" "ms_body t = assembler_with_limit MESSAGE_BODY_LIMIT" "ms_keep_alive t"
      "ms_operation t = ListMessages f n m" "ms_current_folder t = target_folder (ListMessages f n m)"
    using assms(2,3) by (simp_all add: t_def mas_getting_def)
  have "fits_limit (ba_limit (ms_body t)) (length (ba_bytes (ms_body t)) + length (concat (map packet_body (ps @ [q]))))"
    unfolding assms(9) using assms(10) by (simp add: t' assembler_with_limit_def fits_limit_def)
  from mas_get.fetched [OF t'(1) _ assms(6-8) this] have
    "(let s' = foldl (\<lambda>s p. snd (mas_handle_response s p)) t ps in
      (fst (mas_handle_response s' q), ms_state (snd (mas_handle_response s' q)), ms_output (snd (mas_handle_response s' q)),
       ms_current_folder (snd (mas_handle_response s' q)))) =
     (None, MasResting, Listing (utf8_encode (listing_text es)), target_folder (ListMessages f n m))"
    unfolding assms(9) t'(2,4,5) using t'(3) by (simp add: assembler_with_limit_def Let_def)
  then show ?thesis
    using listing_read [OF assms(11)] t by (simp add: Let_def target_folder_def del: lit_simps)
qed

theorem pooled_listing_read_witness:
  "\<exists>s oks ps q es. es \<noteq> [] \<and> oks \<noteq> [] \<and>
     (let s' = foldl (\<lambda>s p. snd (mas_handle_response s p)) (snd (start_next_op (ListMessages Inbox 16 0xfc) s)) (oks @ ps @ [q]) in
      \<exists>b. ms_output s' = Listing b \<and> parse_listing b = es \<and> ms_state s' = MasResting \<and>
          ms_current_folder s' = [lit ''telecom'', lit ''msg'', folder_as_str Inbox])"
proof -
  define ans where "ans op hs = \<lparr>pk_opcode = op, pk_fixed_payload = [], pk_headers = hs\<rparr>" for op :: u8 and hs
  define s where "s = (mas_new (SetNotificationRegistration True) 0)\<lparr>ms_state := MasResting, ms_connection_id := Some 7,
      ms_keep_alive := True, ms_current_folder := [lit ''telecom'', lit ''msg'', lit ''outbox'']\<rparr>"
  define es where "es = [entry_new\<lparr>me_handle := lit ''20'', me_sender_name := Some (lit ''A>B'')\<rparr>]"
  define w where "w = utf8_encode (listing_text es)"
  have steps: "path_steps (ms_current_folder s) (target_folder (ListMessages Inbox 16 0xfc)) = [PathUp, PathDown (lit ''inbox'')]"
    by (simp add: s_def mas_new_def target_folder_def path_steps_def Let_def)
  have ascii: "length (utf8_encode v) = length v" if "list_all (\<lambda>c. c < 128) v" for v
    using that by (induction v) (simp_all add: utf8_char_def)
  have len: "length w \<le> 4194304"
    unfolding w_def by (subst ascii) (simp_all add: es_def listing_text_def msg_text_def attrs_text_def entry_attrs_def entry_new_def attr_text_def
      escape_value_def escape_char_def)
  have body: "concat (map packet_body ([ans 0x90 [HByteSeq 0x48 (take 9 w)]] @ [ans 0xA0 [HByteSeq 0x49 (drop 9 w)]])) = w"
    by (simp add: packet_body_def ans_def)
  have "let s' = foldl (\<lambda>s p. snd (mas_handle_response s p)) (snd (start_next_op (ListMessages Inbox 16 0xfc) s))
        ([ans 0xA0 [], ans 0xA0 []] @ [ans 0x90 [HByteSeq 0x48 (take 9 w)]] @ [ans 0xA0 [HByteSeq 0x49 (drop 9 w)]]) in
      \<exists>b. ms_output s' = Listing b \<and> parse_listing b = es \<and> ms_state s' = MasResting \<and>
          ms_current_folder s' = [lit ''telecom'', lit ''msg'', folder_as_str Inbox]"
    by (rule pooled_listing_read [where conn = 7])
      (use steps len in \<open>simp_all only: w_def [symmetric] body, simp_all add: s_def mas_new_def ans_def packet_ends_def es_def entry_chars_def entry_new_def scalar_value_def del: foldl_append\<close>)
  then show ?thesis
    by (intro exI [of _ s] exI [of _ "[ans 0xA0 [], ans 0xA0 []]"] exI [of _ "[ans 0x90 [HByteSeq 0x48 (take 9 w)]]"]
        exI [of _ "ans 0xA0 [HByteSeq 0x49 (drop 9 w)]"] exI [of _ es] conjI) (simp_all only: es_def list.distinct not_False_eq_True)
qed

section \<open>Why a push failed\<close>

text \<open>A needle whose first character comes up only at the front of the text is found there or nowhere.\<close>

lemma find_at_front:
  "c \<notin> set s \<Longrightarrow> split_once_str (c # needle) s = None"
  by (induction s) (subst split_once_str.simps, simp)+

lemma find_front_only:
  "c \<notin> set s \<Longrightarrow> strip_prefix (c # needle) (c # s) = None \<Longrightarrow> split_once_str (c # needle) (c # s) = None"
  by (subst split_once_str.simps) (simp add: find_at_front)

definition no_put :: "rstr \<Rightarrow> bool" where
  "no_put r = (split_once_str mas_put_prefix r = None)"

lemma hex2_lower: "77 \<notin> set (hex2 False b)"
  by (auto simp: hex2_def hex_char_def)

lemma digits_no_m: "77 \<notin> set (dec_digits n)"
  using dec_digits_digits [of n] by (auto simp: list_all_iff is_ascii_digit_def)

lemma comma_digits_no_m: "77 \<notin> set (comma_digits bs)"
  by (induction bs rule: comma_digits.induct) (simp_all add: digits_no_m)

lemma no_put_front: "77 \<notin> set s \<Longrightarrow> strip_prefix (lit ''AS PUT: server returned 0x'') s = None \<Longrightarrow> no_put (77 # s)"
  by (simp add: no_put_def mas_put_prefix_def find_front_only)

lemma no_put_texts:
  "no_put (lit ''MAS session has no Connection-Id'')"
  "no_put (lit ''MAS accepted CONNECT but omitted Connection-Id'')"
  "no_put (lit ''MAS server sent OK without EndOfBody'')"
  "no_put (lit ''MAS GET response arrived for a PUT-shaped operation'')"
  "no_put (lit ''MAS response received while Resting (no op in flight)'')"
  "no_put (lit ''MAS response received while Idle'')"
  "no_put (lit ''MAS response received after session terminated'')"
  "no_put (lit ''MAS GET: unexpected response 0x'' @ hex2 False b)"
  "no_put (refusal_text (lit ''MAS '' @ lit ''CONNECT'') b ex)"
  "no_put (refusal_text (lit ''MAS '' @ lit ''SETPATH'') b ex)"
  by (simp_all add: no_put_front hex2_lower refusal_text_def debug_bytes_def comma_digits_no_m)

lemma no_put_body: "no_put (push_error_text e)"
  by (cases e) (simp_all add: no_put_def mas_put_prefix_def push_error_text_def find_at_front digits_no_m)

lemma advance_reasons:
  assumes "mas_advance s p = (Inl r, s')"
  shows "ms_state s = MasAwaitingPut \<and> pk_opcode p \<noteq> RSP_OK \<and> r = refusal_text (lit ''MAS '' @ lit ''PUT'') (pk_opcode p) [RSP_OK] \<or>
    (ms_state s \<noteq> MasAwaitingPut \<or> pk_opcode p = RSP_OK) \<and> no_put r"
proof -
  have conn: "mas_connection t = Inl e \<Longrightarrow> no_put e" for t e
    using no_put_texts(1) by (auto simp: mas_connection_def simp del: lit_simps split: option.splits)
  have fin: "finalize_op_or_disconnect t = (Inl e, t') \<Longrightarrow> no_put e" for t t' e
    by (auto simp: finalize_op_or_disconnect_def dest: conn split: if_splits sum.splits)
  have ans: "mas_take_answer s p = (Inl r, s') \<Longrightarrow> no_put r"
    by (auto simp: mas_take_answer_def Let_def no_put_texts no_put_body simp del: lit_simps
        dest: conn fin split: if_splits sum.splits prod.splits Operation.splits)
  have nav: "apfst (Inr \<circ> Some) x \<noteq> (Inl e, t)" for x :: "bytes \<times> MasMceSession" and e :: rstr and t
    by (cases x) simp
  show ?thesis
    using assms ans
    by (cases "ms_state s") (auto simp: mas_advance_def mas_require_def Let_def nav no_put_texts simp del: lit_simps
        dest: conn fin split: if_splits option.splits sum.splits)
qed

lemma advance_not_failed: "mas_advance s p = (Inr out, t) \<Longrightarrow> ms_state t \<noteq> MasFailed e"
proof -
  have start: "start_operation c x = (b, y) \<Longrightarrow> ms_state y \<noteq> MasFailed e" for c x b y
    by (auto simp: start_operation_def split: Operation.splits)
  have nav: "navigate_to c g x = (b, y) \<Longrightarrow> ms_state y \<noteq> MasFailed e" for c g x b y
    by (auto simp: navigate_to_def dest: start split: list.splits)
  have fin: "finalize_op_or_disconnect x = (Inr b, y) \<Longrightarrow> ms_state y \<noteq> MasFailed e" for x b y
    by (auto simp: finalize_op_or_disconnect_def split: if_splits sum.splits)
  have ans: "mas_take_answer s p = (Inr out, t) \<Longrightarrow> ms_state t \<noteq> MasFailed e"
    by (auto simp: mas_take_answer_def Let_def dest: fin split: if_splits sum.splits prod.splits Operation.splits)
  have lift: "apfst (Inr \<circ> Some) x = (Inr b, y) \<Longrightarrow> (\<And>b y. x = (b, y) \<Longrightarrow> ms_state y \<noteq> MasFailed e) \<Longrightarrow> ms_state y \<noteq> MasFailed e"
    for x :: "bytes \<times> MasMceSession" and b y by (cases x) auto
  assume "mas_advance s p = (Inr out, t)"
  with ans show ?thesis
    by (cases "ms_state s") (auto simp: mas_advance_def Let_def dest: fin
        elim!: lift dest!: nav start split: sum.splits option.splits list.splits)
qed

lemma refusal_code_read:
  "push_refusal_code (refusal_text (lit ''MAS '' @ lit ''PUT'') b ex) =
     (if 0xc0 \<le> b \<and> b \<le> 0xcf \<and> b \<noteq> 0xc8 then Some b else None)"
proof -
  have "split_once_str mas_put_prefix (mas_put_prefix @ t) = Some ([], t)" for t
    by (subst split_once_str.simps) simp
  moreover have "refusal_text (lit ''MAS '' @ lit ''PUT'') b ex =
      mas_put_prefix @ hex2 False b @ lit '' (expected one of '' @ debug_bytes ex @ lit '')''"
    by (simp add: refusal_text_def mas_put_prefix_def)
  moreover have "u8_from_hex [hex_char False (unat b div 16), hex_char False (unat b mod 16)] = Some b"
    using u8_from_hex_hex2 [of False b] by (simp add: hex2_def)
  ultimately show ?thesis by (simp add: push_refusal_code_def hex2_def del: lit_simps)
qed

text \<open>The reason a session fails with says that the phone refused the text for good exactly
  when it did: when the answer to a push was one of the client errors other than a timeout.  The code that is read
  back is the code the phone sent, and no other failure of a session, at any step, is taken for such a refusal.\<close>

theorem push_refusal_recognised:
  assumes "mas_handle_response s p = (out, s')" "ms_state s' = MasFailed reason"
  shows "push_refusal_code reason =
    (if ms_state s = MasAwaitingPut \<and> 0xc0 \<le> pk_opcode p \<and> pk_opcode p \<le> 0xcf \<and> pk_opcode p \<noteq> 0xc8 then Some (pk_opcode p) else None)"
proof -
  have "\<exists>t. mas_advance s p = (Inl reason, t)"
    using assms advance_not_failed by (auto simp: mas_handle_response_def split: prod.splits sum.splits)
  then obtain t where "mas_advance s p = (Inl reason, t)" by blast
  from advance_reasons [OF this] show ?thesis
    by (auto simp: refusal_code_read simp del: lit_simps) (auto simp: push_refusal_code_def no_put_def)
qed

theorem push_refusal_recognised_witness:
  "\<exists>s out s' reason. mas_handle_response s \<lparr>pk_opcode = 0xc3, pk_fixed_payload = [], pk_headers = []\<rparr> = (out, s') \<and>
     ms_state s' = MasFailed reason \<and> push_refusal_code reason = Some 0xc3"
proof -
  let ?s = "(mas_new (PushMessage Outbox [1] 1) 0)\<lparr>ms_state := MasAwaitingPut\<rparr>"
  let ?p = "\<lparr>pk_opcode = 0xc3, pk_fixed_payload = [], pk_headers = []\<rparr> :: Packet"
  obtain out s' where r: "mas_handle_response ?s ?p = (out, s')" by fastforce
  then obtain reason where f: "ms_state s' = MasFailed reason"
    by (auto simp: mas_handle_response_def mas_advance_def mas_require_def mas_new_def)
  from push_refusal_recognised [OF r f] r f show ?thesis by auto
qed

end
