(* ===== verification/Bmessage.thy ===== *)
theory Bmessage
  imports Rust_Text
begin

text \<open>
  \<open>aokie_radio/bmessage.rs\<close>: the envelope of a text message, read and written.  The date of an outgoing
  multimedia message comes from a third-party clock: its header text and its seconds are arguments.
\<close>

record BMessage =
  bm_msg_type :: "rstr option"
  bm_folder :: "rstr option"
  bm_sender_addressing :: "rstr option"
  bm_sender_name :: "rstr option"
  bm_body :: rstr
  bm_read :: "bool option"

definition bmessage_new :: BMessage where
  "bmessage_new = \<lparr>bm_msg_type = None, bm_folder = None, bm_sender_addressing = None, bm_sender_name = None,
     bm_body = [], bm_read = None\<rparr>"

abbreviation (input) MAX_INCOMING_BODY_CHARS :: nat where "MAX_INCOMING_BODY_CHARS \<equiv> 4000"
abbreviation (input) MAX_INCOMING_NAME_CHARS :: nat where "MAX_INCOMING_NAME_CHARS \<equiv> 200"

section \<open>Text from the phone\<close>

definition cleaned_char :: "bool \<Rightarrow> nat \<Rightarrow> rstr \<Rightarrow> nat option" where
  "cleaned_char keep_newlines c rest =
     (if c = 13 \<and> rest \<noteq> [] \<and> hd rest = 10 then None
      else if (c = 13 \<or> c = 10) \<and> keep_newlines then Some 10
      else if c = 13 \<or> c = 10 \<or> c = 9 then Some 32
      else if is_control c then None
      else Some c)"

fun clean_from :: "nat \<Rightarrow> bool \<Rightarrow> nat \<Rightarrow> rstr \<Rightarrow> rstr" where
  "clean_from max_chars keep_newlines kept [] = []"
| "clean_from max_chars keep_newlines kept (c # rest) =
     (case cleaned_char keep_newlines c rest of
        None \<Rightarrow> clean_from max_chars keep_newlines kept rest
      | Some c' \<Rightarrow>
          if kept = max_chars then [0x2026] else c' # clean_from max_chars keep_newlines (kept + 1) rest)"

definition clean_incoming_text :: "rstr \<Rightarrow> nat \<Rightarrow> bool \<Rightarrow> rstr" where
  "clean_incoming_text t max_chars keep_newlines = clean_from max_chars keep_newlines 0 t"

section \<open>MIME bodies\<close>

function mime_split_from :: "rstr list \<Rightarrow> rstr \<Rightarrow> rstr list \<times> rstr" where
  "mime_split_from headers rest =
     (let (line0, next_text) = (case split_once 10 rest of Some p \<Rightarrow> p | None \<Rightarrow> (rest, []));
          line = strip_cr line0 in
      if trim line = [] then (headers, next_text)
      else if hd line = 32 \<or> hd line = 9 then
        (let headers' = (if headers = [] then [] else butlast headers @ [last headers @ [32] @ trim line])
         in if next_text = [] then (headers', []) else mime_split_from headers' next_text)
      else if 58 \<in> set line then
        (if next_text = [] then (headers @ [line], []) else mime_split_from (headers @ [line]) next_text)
      else (headers, rest))"
  by pat_completeness auto
termination
  by (relation "measure (\<lambda>(h, r). length r)") (auto dest: split_once_shorter split: option.splits)

definition mime_split :: "rstr \<Rightarrow> rstr list \<times> rstr" where
  "mime_split entity = mime_split_from [] entity"

fun mime_header :: "rstr list \<Rightarrow> rstr \<Rightarrow> rstr option" where
  "mime_header [] name = None"
| "mime_header (line # headers) name =
     (case split_once 58 line of
        Some (key, value) \<Rightarrow>
          if eq_ignore_ascii_case (trim key) name then Some (trim value) else mime_header headers name
      | None \<Rightarrow> mime_header headers name)"

definition trim_matches :: "nat \<Rightarrow> rstr \<Rightarrow> rstr" where
  "trim_matches q s = trim_end_matches (\<lambda>c. c = q) (trim_start_matches (\<lambda>c. c = q) s)"

fun param_in :: "rstr list \<Rightarrow> rstr \<Rightarrow> rstr option" where
  "param_in [] param = None"
| "param_in (part # parts) param =
     (case split_once 61 part of
        Some (key, v) \<Rightarrow>
          if eq_ignore_ascii_case (trim key) param then Some (trim_matches 34 (trim v)) else param_in parts param
      | None \<Rightarrow> param_in parts param)"

definition mime_param :: "rstr \<Rightarrow> rstr \<Rightarrow> rstr option" where
  "mime_param value param = param_in (tl (split_on 59 value)) param"

definition base64_value :: "u8 \<Rightarrow> u8 option" where
  "base64_value c =
     (if 65 \<le> c \<and> c \<le> 90 then Some (c - 65)
      else if 97 \<le> c \<and> c \<le> 122 then Some (c - 97 + 26)
      else if 48 \<le> c \<and> c \<le> 57 then Some (c - 48 + 52)
      else if c = 43 \<or> c = 45 then Some 62
      else if c = 47 \<or> c = 95 then Some 63
      else None)"

fun base64_bytes :: "u32 \<Rightarrow> nat \<Rightarrow> bytes \<Rightarrow> bytes" where
  "base64_bytes bits held [] = []"
| "base64_bytes bits held (c # cs) =
     (case base64_value c of
        None \<Rightarrow> base64_bytes bits held cs
      | Some v \<Rightarrow>
          let bits' = push_bit 6 bits OR ucast v in
          if held + 6 \<ge> 8
          then ucast (drop_bit (held + 6 - 8) bits') #
               base64_bytes (bits' AND (push_bit (held + 6 - 8) 1 - 1)) (held + 6 - 8) cs
          else base64_bytes bits' (held + 6) cs)"

definition base64_text :: "rstr \<Rightarrow> rstr" where
  "base64_text content = utf8_lossy (base64_bytes 0 0 (utf8_encode content))"

fun qp_line :: "bytes \<Rightarrow> bytes" where
  "qp_line [] = []"
| "qp_line (b # rest) =
     (if b = 0x3d \<and> length rest \<ge> 2 then
        (case Option.bind (utf8_decode (take 2 rest)) u8_from_hex of
           Some byte \<Rightarrow> byte # qp_line (drop 2 rest)
         | None \<Rightarrow> b # qp_line rest)
      else b # qp_line rest)"

fun qp_lines :: "rstr list \<Rightarrow> bytes" where
  "qp_lines [] = []"
| "qp_lines (line0 # lines) =
     (let line = strip_cr line0;
          soft_break = (line \<noteq> [] \<and> last line = 61);
          raw = utf8_encode (if soft_break then butlast line else line)
      in qp_line raw @ (if \<not> soft_break \<and> lines \<noteq> [] then [10] else []) @ qp_lines lines)"

definition quoted_printable_text :: "rstr \<Rightarrow> rstr" where
  "quoted_printable_text content = utf8_lossy (qp_lines (split_on 10 content))"

text \<open>The parts between the boundary lines: the state is the part being read, and whether one is open.\<close>

fun mime_parts :: "rstr \<Rightarrow> rstr list \<Rightarrow> bool \<Rightarrow> rstr \<Rightarrow> rstr list" where
  "mime_parts open_line [] inside part = []"
| "mime_parts open_line (line0 # lines) inside part =
     (let line = strip_cr line0 in
      if trim_end line = open_line \<or> trim_end line = open_line @ lit ''--'' then
        (if inside then [part] else []) @ mime_parts open_line lines (trim_end line = open_line) []
      else mime_parts open_line lines inside (if inside then part @ line @ [10] else part))"

function mime_collect :: "nat \<Rightarrow> rstr \<Rightarrow> rstr list \<Rightarrow> rstr \<Rightarrow> rstr list" where
  "mime_collect depth content_type headers content =
     (let kind = map to_ascii_lowercase (trim (hd (split_on 59 content_type))) in
      if starts_with (lit ''multipart/'') kind then
        (case mime_param content_type (lit ''boundary'') of
           None \<Rightarrow> []
         | Some boundary \<Rightarrow>
             if boundary = [] \<or> depth > 4 then []
             else concat (map (\<lambda>part.
               mime_collect (depth + 1)
                 (case mime_header (fst (mime_split part)) (lit ''content-type'') of Some t \<Rightarrow> t | None \<Rightarrow> lit ''text/plain'')
                 (fst (mime_split part)) (snd (mime_split part)))
               (mime_parts (lit ''--'' @ boundary) (split_on 10 content) False [])))
      else if kind \<noteq> lit ''text/plain'' \<and> kind \<noteq> [] then []
      else
        let encoding = map to_ascii_lowercase
              (case mime_header headers (lit ''content-transfer-encoding'') of Some e \<Rightarrow> e | None \<Rightarrow> []);
            txt = trim_end (if encoding = lit ''base64'' then base64_text content
              else if encoding = lit ''quoted-printable'' then quoted_printable_text content
              else content)
        in if txt \<noteq> [] then [txt] else [])"
  by pat_completeness auto
termination
  by (relation "measure (\<lambda>(d, _). 5 - d)") auto

declare mime_collect.simps [simp del]

fun join_lf :: "rstr list \<Rightarrow> rstr" where
  "join_lf [] = []"
| "join_lf [l] = l"
| "join_lf (l # ls) = l @ [10] @ join_lf ls"

definition mime_text :: "rstr \<Rightarrow> rstr option" where
  "mime_text message =
     (let (headers, content) = mime_split message in
      map_option (\<lambda>content_type. trim (join_lf (mime_collect 0 content_type headers content)))
        (mime_header headers (lit ''content-type'')))"

section \<open>Reading an envelope\<close>

record BmsgParser =
  bp_out :: BMessage
  bp_depth_envelope :: nat
  bp_in_msg :: bool
  bp_in_vcard_originator :: bool
  bp_vcard_seen_count :: nat
  bp_body :: rstr

definition bmsg_parser_new :: BmsgParser where
  "bmsg_parser_new = \<lparr>bp_out = bmessage_new, bp_depth_envelope = 0, bp_in_msg = False,
     bp_in_vcard_originator = False, bp_vcard_seen_count = 0, bp_body = []\<rparr>"

definition combined_name :: "rstr \<Rightarrow> rstr" where
  "combined_name value =
     (let parts = split_on 59 value;
          family = trim (hd parts);
          given = trim (if length parts > 1 then parts ! 1 else [])
      in if given \<noteq> [] \<and> family \<noteq> [] then given @ [32] @ family else if given = [] then family else given)"

definition bmsg_property :: "BmsgParser \<Rightarrow> rstr \<Rightarrow> rstr \<Rightarrow> BmsgParser" where
  "bmsg_property s prop value =
     (let out = bp_out s; top = (bp_depth_envelope s = 0); originator = bp_in_vcard_originator s in
      if prop = lit ''TYPE'' \<and> top \<and> bm_msg_type out = None then s\<lparr>bp_out := out\<lparr>bm_msg_type := Some value\<rparr>\<rparr>
      else if prop = lit ''FOLDER'' \<and> top \<and> bm_folder out = None then s\<lparr>bp_out := out\<lparr>bm_folder := Some value\<rparr>\<rparr>
      else if prop = lit ''STATUS'' \<and> top \<and> bm_read out = None then
        s\<lparr>bp_out := out\<lparr>bm_read := Some (eq_ignore_ascii_case value (lit ''READ''))\<rparr>\<rparr>
      else if prop = lit ''TEL'' \<and> originator \<and> bm_sender_addressing out = None then
        s\<lparr>bp_out := out\<lparr>bm_sender_addressing := Some value\<rparr>\<rparr>
      else if prop = lit ''FN'' \<and> originator \<and> bm_sender_name out = None then
        s\<lparr>bp_out := out\<lparr>bm_sender_name := Some value\<rparr>\<rparr>
      else if prop = lit ''N'' \<and> originator \<and> bm_sender_name out = None then
        (if combined_name value \<noteq> [] then s\<lparr>bp_out := out\<lparr>bm_sender_name := Some (combined_name value)\<rparr>\<rparr> else s)
      else s)"

definition bmsg_line :: "BmsgParser \<Rightarrow> rstr \<Rightarrow> BmsgParser" where
  "bmsg_line s raw_line =
     (let line = strip_cr raw_line in
      if bp_in_msg s then
        (if eq_ignore_ascii_case line (lit ''END:MSG'') then s\<lparr>bp_in_msg := False\<rparr>
         else s\<lparr>bp_body := (if bp_body s \<noteq> [] then bp_body s @ [10] else []) @ line\<rparr>)
      else
        let upper = map to_ascii_uppercase line in
        if starts_with (lit ''BEGIN:BENV'') upper then s\<lparr>bp_depth_envelope := bp_depth_envelope s + 1\<rparr>
        else if starts_with (lit ''END:BENV'') upper then s\<lparr>bp_depth_envelope := bp_depth_envelope s - 1\<rparr>
        else if starts_with (lit ''BEGIN:VCARD'') upper then
          s\<lparr>bp_in_vcard_originator := bp_depth_envelope s = 0 \<and> bp_vcard_seen_count s = 0,
            bp_vcard_seen_count := bp_vcard_seen_count s + 1\<rparr>
        else if starts_with (lit ''END:VCARD'') upper then s\<lparr>bp_in_vcard_originator := False\<rparr>
        else if starts_with (lit ''BEGIN:MSG'') upper then s\<lparr>bp_in_msg := True\<rparr>
        else if starts_with (lit ''BEGIN:'') upper \<or> starts_with (lit ''END:'') upper then s
        else
          (case split_once 58 line of
             None \<Rightarrow> s
           | Some (prop_with_params, value) \<Rightarrow>
               bmsg_property s (map to_ascii_uppercase (trim (hd (split_on 59 prop_with_params)))) (trim value)))"

definition bmsg_finish :: "BmsgParser \<Rightarrow> BMessage" where
  "bmsg_finish s =
     (let out = bp_out s;
          mms = (case bm_msg_type out of Some t \<Rightarrow> eq_ignore_ascii_case t (lit ''MMS'') | None \<Rightarrow> False);
          body = (if mms then (case mime_text (bp_body s) of Some t \<Rightarrow> t | None \<Rightarrow> bp_body s) else bp_body s)
      in out\<lparr>bm_body := clean_incoming_text body MAX_INCOMING_BODY_CHARS True,
             bm_sender_name := map_option (\<lambda>name. clean_incoming_text name MAX_INCOMING_NAME_CHARS False) (bm_sender_name out)\<rparr>)"

definition bmessage_parse :: "bytes \<Rightarrow> BMessage" where
  "bmessage_parse input = bmsg_finish (foldl bmsg_line bmsg_parser_new (split_on 10 (utf8_lossy input)))"

section \<open>Writing an envelope\<close>

text \<open>\<open>replace("\r\n", "\n")\<close>, then \<open>replace('\r', "\n")\<close>.\<close>

fun crlf_to_lf :: "rstr \<Rightarrow> rstr" where
  "crlf_to_lf (c # d # s) = (if c = 13 \<and> d = 10 then 10 # crlf_to_lf s else c # crlf_to_lf (d # s))"
| "crlf_to_lf s = s"

definition lf_breaks :: "rstr \<Rightarrow> rstr" where
  "lf_breaks body = map (\<lambda>c. if c = 13 then 10 else c) (crlf_to_lf body)"

definition guard_line :: "rstr \<Rightarrow> rstr" where
  "guard_line line =
     (if eq_ignore_ascii_case line (lit ''END:MSG'') \<or> eq_ignore_ascii_case line (lit ''BEGIN:MSG'')
      then 32 # line else line)"

definition ends_with_crlf :: "rstr \<Rightarrow> bool" where
  "ends_with_crlf s = (length s \<ge> 2 \<and> drop (length s - 2) s = crlf)"

definition escape_msg_body :: "rstr \<Rightarrow> rstr" where
  "escape_msg_body body =
     (let escaped = concat (map (\<lambda>line. guard_line line @ crlf) (split_on 10 (lf_breaks body)))
      in if ends_with_crlf escaped then take (length escaped - 2) escaped else escaped)"

definition msg_block :: "rstr \<Rightarrow> rstr" where
  "msg_block safe_body =
     lit ''BEGIN:MSG'' @ crlf @ safe_body @ (if ends_with_crlf safe_body then [] else crlf) @ lit ''END:MSG'' @ crlf"

definition push_msg_block :: "rstr \<Rightarrow> rstr" where
  "push_msg_block safe_body =
     lit ''LENGTH:'' @ dec_digits (str_len (msg_block safe_body)) @ crlf @ msg_block safe_body"

definition push_envelope :: "string \<Rightarrow> rstr \<Rightarrow> rstr \<Rightarrow> rstr" where
  "push_envelope msg_type recipient_phone safe_body =
     lit ''BEGIN:BMSG'' @ crlf @ lit ''VERSION:1.0'' @ crlf @ lit ''STATUS:UNREAD'' @ crlf @
     lit (''TYPE:'' @ msg_type) @ crlf @ lit ''FOLDER:telecom/msg/outbox'' @ crlf @
     lit ''BEGIN:BENV'' @ crlf @ lit ''BEGIN:VCARD'' @ crlf @ lit ''VERSION:2.1'' @ crlf @ lit ''N:;'' @ crlf @
     lit ''TEL:'' @ recipient_phone @ crlf @ lit ''END:VCARD'' @ crlf @
     lit ''BEGIN:BBODY'' @ crlf @ lit ''CHARSET:UTF-8'' @ crlf @ push_msg_block safe_body @
     lit ''END:BBODY'' @ crlf @ lit ''END:BENV'' @ crlf @ lit ''END:BMSG'' @ crlf"

definition build_sms_push :: "rstr \<Rightarrow> rstr \<Rightarrow> bytes" where
  "build_sms_push recipient_phone body =
     utf8_encode (push_envelope ''SMS_GSM'' recipient_phone (escape_msg_body body))"

definition build_mms_mime_body :: "rstr \<Rightarrow> rstr \<Rightarrow> rstr \<Rightarrow> rstr \<Rightarrow> rstr" where
  "build_mms_mime_body recipient body date_header boundary =
     lit ''Date: '' @ date_header @ crlf @ lit ''Subject:'' @ crlf @ lit ''To: '' @ recipient @ crlf @
     lit ''MIME-Version: 1.0'' @ crlf @
     lit ''Content-Type: multipart/mixed; boundary='' @ [34] @ boundary @ [34] @ crlf @ crlf @
     lit ''--'' @ boundary @ crlf @
     lit ''Content-Type: text/plain; charset='' @ [34] @ lit ''utf-8'' @ [34] @ crlf @
     lit ''Content-Transfer-Encoding: 8BIT'' @ crlf @ crlf @
     body @ (if body \<noteq> [] \<and> last body = 10 then [] else crlf) @
     lit ''--'' @ boundary @ lit ''--'' @ crlf"

definition dec_int :: "int \<Rightarrow> rstr" where
  "dec_int n = (if n < 0 then 45 # dec_digits (nat (- n)) else dec_digits (nat n))"

definition build_mms_push_at :: "rstr \<Rightarrow> rstr \<Rightarrow> rstr \<Rightarrow> int \<Rightarrow> bytes" where
  "build_mms_push_at recipient_phone body date_header timestamp =
     (let boundary = lit ''aokie-mms-'' @ dec_int timestamp
      in utf8_encode (push_envelope ''MMS'' recipient_phone
           (escape_msg_body (build_mms_mime_body recipient_phone body date_header boundary))))"

section \<open>What goes between the MSG lines\<close>

definition msg_lines :: "rstr \<Rightarrow> rstr list" where
  "msg_lines body =
     (let ls = map guard_line (split_on 10 (lf_breaks body))
      in if length ls > 1 \<and> last ls = [] then butlast ls else ls)"

lemma lf_breaks_no_cr: "13 \<notin> set (lf_breaks body)"
  by (auto simp: lf_breaks_def)

lemma split_on_pieces: "p \<in> set (split_on sep s) \<Longrightarrow> sep \<notin> set p \<and> set p \<subseteq> set s"
proof (induction s arbitrary: p)
  case (Cons c s)
  then show ?case by (cases "split_on sep s") (fastforce split: if_splits)+
qed simp

lemma body_pieces_one_line: "list_all one_line (map guard_line (split_on 10 (lf_breaks body)))"
  using split_on_pieces [of _ 10 "lf_breaks body"] lf_breaks_no_cr [of body]
  by (fastforce simp: list_all_iff one_line_def guard_line_def)

lemma ends_with_crlf_lines:
  assumes "list_all one_line ls" "one_line l"
  shows "ends_with_crlf (concat (map (\<lambda>l. l @ crlf) ls) @ l) \<longleftrightarrow> l = [] \<and> ls \<noteq> []"
proof (cases l rule: rev_cases)
  case Nil
  then show ?thesis by (cases ls rule: rev_cases) (auto simp: ends_with_crlf_def crlf_def)
next
  case (snoc l' c)
  with assms(2) have "c \<noteq> 10" by simp
  moreover have "last s = 10" if "ends_with_crlf s" for s
  proof -
    have "s = take (length s - 2) s @ [13, 10]"
      using that by (metis append_take_drop_id crlf_def ends_with_crlf_def)
    then show ?thesis by (metis last_ConsL last_ConsR last_appendR list.distinct(1))
  qed
  ultimately show ?thesis using snoc by fastforce
qed

lemma safe_body_lines:
  "escape_msg_body body @ (if ends_with_crlf (escape_msg_body body) then [] else crlf) =
     concat (map (\<lambda>l. l @ crlf) (msg_lines body))"
proof -
  let ?ls = "map guard_line (split_on 10 (lf_breaks body))"
  obtain ls l where ls: "?ls = ls @ [l]" by (metis Nil_is_map_conv rev_exhaust split_on_not_Nil)
  have ol: "list_all one_line ls" "one_line l" using body_pieces_one_line [of body] unfolding ls by simp_all
  have "escape_msg_body body = concat (map (\<lambda>l. l @ crlf) ls) @ l"
  proof -
    have "concat (map (\<lambda>line. guard_line line @ crlf) (split_on 10 (lf_breaks body))) = concat (map (\<lambda>l. l @ crlf) ?ls)"
      by (simp add: comp_def)
    then show ?thesis unfolding escape_msg_body_def ls by (simp add: ends_with_crlf_def crlf_def)
  qed
  moreover have "msg_lines body = (if l = [] \<and> ls \<noteq> [] then ls else ls @ [l])"
    unfolding msg_lines_def ls by auto
  ultimately show ?thesis using ends_with_crlf_lines [OF ol] by simp
qed

lemma msg_lines_in: "l \<in> set (msg_lines body) \<Longrightarrow> l \<in> set (map guard_line (split_on 10 (lf_breaks body)))"
  by (auto simp: msg_lines_def Let_def split: if_splits dest: in_set_butlastD)

lemma msg_lines_one_line: "list_all one_line (msg_lines body)"
  using body_pieces_one_line [of body] msg_lines_in [of _ body] by (auto simp: list_all_iff)

lemma guard_line_not_end: "\<not> eq_ignore_ascii_case (guard_line l) (lit ''END:MSG'')"
proof (cases "eq_ignore_ascii_case l (lit ''END:MSG'') \<or> eq_ignore_ascii_case l (lit ''BEGIN:MSG'')")
  case True
  then have "guard_line l = 32 # l" by (simp add: guard_line_def)
  then show ?thesis by (simp add: eq_ignore_ascii_case_def to_ascii_lowercase_def)
qed (simp add: guard_line_def)

section \<open>The reader\<close>

definition body_of :: "rstr list \<Rightarrow> rstr" where
  "body_of ls = foldl (\<lambda>acc l. (if acc \<noteq> [] then acc @ [10] else []) @ l) [] ls"

lemma strip_cr_twice [simp]: "strip_cr (strip_cr s) = strip_cr s"
  by (simp add: trim_end_matches_def dropWhile_idem)

lemma bmsg_lines_stripped: "foldl bmsg_line s ls = foldl bmsg_line s (map strip_cr ls)"
  by (induction ls arbitrary: s) (simp_all add: bmsg_line_def)

lemma bmsg_body_lines:
  assumes "list_all (\<lambda>l. one_line l \<and> \<not> eq_ignore_ascii_case l (lit ''END:MSG'')) ls" "bp_in_msg s"
  shows "foldl bmsg_line s ls =
    s\<lparr>bp_body := foldl (\<lambda>acc l. (if acc \<noteq> [] then acc @ [10] else []) @ l) (bp_body s) ls\<rparr>"
  using assms
proof (induction ls arbitrary: s)
  case (Cons l ls)
  let ?s = "s\<lparr>bp_body := (if bp_body s \<noteq> [] then bp_body s @ [10] else []) @ l\<rparr>"
  have "bmsg_line s l = ?s" using Cons.prems by (simp add: bmsg_line_def Let_def)
  with Cons.IH [of ?s] Cons.prems show ?case by simp
qed simp

lemma starts_with_simps [simp]:
  "starts_with [] s" "\<not> starts_with (p # ps) []" "starts_with (p # ps) (c # s) \<longleftrightarrow> p = c \<and> starts_with ps s"
  by (simp_all add: starts_with_def)

lemmas bmsg_simps = bmsg_line_def Let_def to_ascii_uppercase_def bmsg_property_def
  trim_def [of "_ # _"] trim_start_matches_def trim_end_matches_def [of _ "_ # _"] is_whitespace_def

text \<open>The lines in front of the message text, of the envelope of type \<open>t\<close>.\<close>

definition head_lines :: "string \<Rightarrow> rstr \<Rightarrow> rstr \<Rightarrow> rstr list" where
  "head_lines t phone safe_body =
     [lit ''BEGIN:BMSG'', lit ''VERSION:1.0'', lit ''STATUS:UNREAD'', lit (''TYPE:'' @ t),
      lit ''FOLDER:telecom/msg/outbox'', lit ''BEGIN:BENV'', lit ''BEGIN:VCARD'', lit ''VERSION:2.1'', lit ''N:;'',
      lit ''TEL:'' @ phone, lit ''END:VCARD'', lit ''BEGIN:BBODY'', lit ''CHARSET:UTF-8'',
      lit ''LENGTH:'' @ dec_digits (str_len (msg_block safe_body)), lit ''BEGIN:MSG'']"

definition tail_lines :: "rstr list" where
  "tail_lines = [lit ''END:MSG'', lit ''END:BBODY'', lit ''END:BENV'', lit ''END:BMSG'']"

lemma envelope_lines:
  "push_envelope t phone (escape_msg_body body) =
     concat (map (\<lambda>l. l @ crlf) (head_lines t phone (escape_msg_body body) @ msg_lines body @ tail_lines))"
  using safe_body_lines [of body]
  by (simp add: push_envelope_def push_msg_block_def msg_block_def head_lines_def tail_lines_def del: lit_simps)

lemma scalar_lit: "list_all scalar_value (lit s)"
proof -
  have "of_char c < (55296 :: nat)" for c by (rule less_trans [OF nat_of_char_less_256]) simp
  then show ?thesis by (simp add: lit_def list_all_iff scalar_value_def)
qed

lemma scalar_crlf: "list_all scalar_value crlf"
  by (simp add: crlf_def scalar_value_def)

lemma scalar_digits: "list_all scalar_value (dec_digits n)"
  using dec_digits_digits [of n] by (auto simp: list_all_iff is_ascii_digit_def scalar_value_def)

lemma set_crlf_to_lf: "set (crlf_to_lf s) \<subseteq> set s"
  by (induction s rule: crlf_to_lf.induct) auto

lemma set_lf_breaks: "set (lf_breaks s) \<subseteq> set s \<union> {10}"
  using set_crlf_to_lf [of s] by (auto simp: lf_breaks_def)

lemma scalar_msg_lines: "list_all scalar_value body \<Longrightarrow> l \<in> set (msg_lines body) \<Longrightarrow> list_all scalar_value l"
proof -
  assume b: "list_all scalar_value body" and "l \<in> set (msg_lines body)"
  then obtain p where p: "p \<in> set (split_on 10 (lf_breaks body))" "l = guard_line p"
    using msg_lines_in by fastforce
  have "set p \<subseteq> set body \<union> {10}" using split_on_pieces [OF p(1)] set_lf_breaks [of body] by blast
  with b have "list_all scalar_value p" by (auto simp: list_all_iff scalar_value_def)
  then show ?thesis by (auto simp: p(2) guard_line_def scalar_value_def)
qed

lemma scalar_envelope:
  assumes "list_all scalar_value phone" "list_all scalar_value body"
  shows "list_all scalar_value (push_envelope t phone (escape_msg_body body))"
proof -
  have "list_all scalar_value l" if "l \<in> set (head_lines t phone (escape_msg_body body) @ msg_lines body @ tail_lines)" for l
    using that assms scalar_msg_lines [OF assms(2)] scalar_lit scalar_digits
    unfolding head_lines_def tail_lines_def by (auto simp del: lit_simps)
  then show ?thesis unfolding envelope_lines using scalar_crlf by (auto simp: list_all_iff)
qed

lemmas line_eval = bmsg_line_def Let_def to_ascii_uppercase_def bmsg_property_def trim_def trim_start_matches_def
  trim_end_matches_def is_whitespace_def

lemma plain_lines:
  assumes "\<not> bp_in_msg s"
  shows "bmsg_line s (lit ''BEGIN:BMSG'') = s" "bmsg_line s (lit ''VERSION:1.0'') = s" "bmsg_line s (lit ''VERSION:2.1'') = s"
    "bmsg_line s (lit ''BEGIN:BBODY'') = s" "bmsg_line s (lit ''CHARSET:UTF-8'') = s"
    "bmsg_line s (lit ''END:BBODY'') = s" "bmsg_line s (lit ''END:BMSG'') = s" "bmsg_line s [] = s"
    "bmsg_line s (lit ''BEGIN:BENV'') = s\<lparr>bp_depth_envelope := bp_depth_envelope s + 1\<rparr>"
    "bmsg_line s (lit ''END:BENV'') = s\<lparr>bp_depth_envelope := bp_depth_envelope s - 1\<rparr>"
    "bmsg_line s (lit ''END:VCARD'') = s\<lparr>bp_in_vcard_originator := False\<rparr>"
    "bmsg_line s (lit ''BEGIN:MSG'') = s\<lparr>bp_in_msg := True\<rparr>"
  using assms by (simp_all add: line_eval)

lemma property_lines:
  assumes "\<not> bp_in_msg s"
  shows "bp_depth_envelope s = 0 \<Longrightarrow> bm_read (bp_out s) = None \<Longrightarrow>
      bmsg_line s (lit ''STATUS:UNREAD'') = s\<lparr>bp_out := (bp_out s)\<lparr>bm_read := Some False\<rparr>\<rparr>"
    and "bp_depth_envelope s = 0 \<Longrightarrow> bm_msg_type (bp_out s) = None \<Longrightarrow>
      bmsg_line s (lit ''TYPE:SMS_GSM'') = s\<lparr>bp_out := (bp_out s)\<lparr>bm_msg_type := Some (lit ''SMS_GSM'')\<rparr>\<rparr>"
    and "bp_depth_envelope s = 0 \<Longrightarrow> bm_folder (bp_out s) = None \<Longrightarrow>
      bmsg_line s (lit ''FOLDER:telecom/msg/outbox'') =
        s\<lparr>bp_out := (bp_out s)\<lparr>bm_folder := Some (lit ''telecom/msg/outbox'')\<rparr>\<rparr>"
    and "bp_depth_envelope s \<noteq> 0 \<Longrightarrow> bmsg_line s (lit ''BEGIN:VCARD'') =
      s\<lparr>bp_in_vcard_originator := False, bp_vcard_seen_count := bp_vcard_seen_count s + 1\<rparr>"
    and "\<not> bp_in_vcard_originator s \<Longrightarrow> bmsg_line s (lit ''N:;'') = s"
  using assms by (simp_all add: line_eval eq_ignore_ascii_case_def to_ascii_lowercase_def)

lemma open_lines:
  assumes "\<not> bp_in_msg s"
  shows "\<not> bp_in_vcard_originator s \<Longrightarrow> one_line phone \<Longrightarrow> bmsg_line s (lit ''TEL:'' @ phone) = s"
    and "one_line n \<Longrightarrow> bmsg_line s (lit ''LENGTH:'' @ n) = s"
proof -
  have t: "trim (lit ''TEL'') = lit ''TEL''" "trim (lit ''LENGTH'') = lit ''LENGTH''"
    by (rule trim_tight; simp add: is_whitespace_def)+
  show "\<not> bp_in_vcard_originator s \<Longrightarrow> one_line phone \<Longrightarrow> bmsg_line s (lit ''TEL:'' @ phone) = s"
    and "one_line n \<Longrightarrow> bmsg_line s (lit ''LENGTH:'' @ n) = s"
    using assms t by (simp_all add: bmsg_line_def Let_def to_ascii_uppercase_def bmsg_property_def)
qed

lemma one_line_digits [simp]: "one_line (dec_digits n)"
  using dec_digits_digits [of n] by (auto simp: one_line_def list_all_iff is_ascii_digit_def)

lemma read_head:
  assumes "one_line phone"
  shows "foldl bmsg_line bmsg_parser_new (head_lines ''SMS_GSM'' phone safe_body) =
    bmsg_parser_new\<lparr>bp_out := bmessage_new\<lparr>bm_msg_type := Some (lit ''SMS_GSM''),
       bm_folder := Some (lit ''telecom/msg/outbox''), bm_read := Some False\<rparr>,
     bp_depth_envelope := 1, bp_in_msg := True, bp_vcard_seen_count := 1\<rparr>"
  using assms
  by (simp add: head_lines_def plain_lines property_lines open_lines bmsg_parser_new_def bmessage_new_def del: lit_simps)

lemma read_tail:
  "bp_in_msg s \<Longrightarrow> foldl bmsg_line s (tail_lines @ [[]]) =
    s\<lparr>bp_in_msg := False, bp_depth_envelope := bp_depth_envelope s - 1\<rparr>"
proof -
  assume "bp_in_msg s"
  then have "bmsg_line s (lit ''END:MSG'') = s\<lparr>bp_in_msg := False\<rparr>" by (simp add: bmsg_line_def trim_end_matches_def)
  then show ?thesis by (simp add: tail_lines_def plain_lines del: lit_simps)
qed

lemma sms_envelope_read:
  assumes "one_line phone" "list_all scalar_value phone" "list_all scalar_value body"
  shows "bmessage_parse (build_sms_push phone body) =
    \<lparr>bm_msg_type = Some (lit ''SMS_GSM''), bm_folder = Some (lit ''telecom/msg/outbox''), bm_sender_addressing = None,
     bm_sender_name = None, bm_body = clean_incoming_text (body_of (msg_lines body)) 4000 True, bm_read = Some False\<rparr>"
proof -
  let ?t = "push_envelope ''SMS_GSM'' phone (escape_msg_body body)"
  let ?h = "head_lines ''SMS_GSM'' phone (escape_msg_body body)"
  have t: "utf8_lossy (utf8_encode ?t) = ?t"
    by (intro utf8_lossy_decode utf8_roundtrip scalar_envelope assms)
  have "list_all one_line (?h @ msg_lines body @ tail_lines)"
    using assms(1) msg_lines_one_line [of body] by (simp add: head_lines_def tail_lines_def)
  from split_lines [OF this, of "[]"]
  have ls: "map strip_cr (split_on 10 ?t) = ?h @ msg_lines body @ tail_lines @ [[]]"
    unfolding envelope_lines by (simp add: trim_end_matches_def)
  have m: "list_all (\<lambda>l. one_line l \<and> \<not> eq_ignore_ascii_case l (lit ''END:MSG'')) (msg_lines body)"
    using msg_lines_one_line [of body] msg_lines_in [of _ body] guard_line_not_end
    by (fastforce simp: list_all_iff simp del: lit_simps)
  let ?s = "bmsg_parser_new\<lparr>bp_out := bmessage_new\<lparr>bm_msg_type := Some (lit ''SMS_GSM''),
       bm_folder := Some (lit ''telecom/msg/outbox''), bm_read := Some False\<rparr>,
     bp_depth_envelope := 1, bp_in_msg := True, bp_vcard_seen_count := 1\<rparr>"
  have "foldl bmsg_line bmsg_parser_new (split_on 10 ?t) =
      ?s\<lparr>bp_body := body_of (msg_lines body), bp_in_msg := False, bp_depth_envelope := 0\<rparr>"
    unfolding bmsg_lines_stripped [of _ "split_on 10 _"] ls foldl_append read_head [OF assms(1)]
    using bmsg_body_lines [OF m, of ?s] read_tail [of "?s\<lparr>bp_body := body_of (msg_lines body)\<rparr>"]
    by (simp add: body_of_def bmsg_parser_new_def del: lit_simps)
  then show ?thesis
    by (simp add: bmessage_parse_def build_sms_push_def t bmsg_finish_def bmsg_parser_new_def bmessage_new_def
        eq_ignore_ascii_case_def)
qed

text \<open>C27 Whatever the text of an outgoing message, the envelope a reader sees is the one Aokie wrote:
  type, folder, status and the absence of a sender do not depend on the text, and the body is the text line by line,
  with a space in front of a line that would close the message.\<close>

theorem sms_body_contained:
  assumes "one_line phone" "list_all scalar_value phone" "list_all scalar_value body"
  shows "bmessage_parse (build_sms_push phone body) =
    \<lparr>bm_msg_type = Some (lit ''SMS_GSM''), bm_folder = Some (lit ''telecom/msg/outbox''), bm_sender_addressing = None,
     bm_sender_name = None, bm_body = clean_incoming_text (body_of (msg_lines body)) 4000 True, bm_read = Some False\<rparr>"
  using assms by (rule sms_envelope_read)

theorem sms_body_contained_witness:
  "bmessage_parse (build_sms_push (lit ''+61400'') (lit ''Hi'' @ [10] @ lit ''end:msg'' @ [13] @ lit ''TYPE:MMS'')) =
    \<lparr>bm_msg_type = Some (lit ''SMS_GSM''), bm_folder = Some (lit ''telecom/msg/outbox''), bm_sender_addressing = None,
     bm_sender_name = None, bm_body = lit ''Hi'' @ [10] @ lit '' end:msg'' @ [10] @ lit ''TYPE:MMS'', bm_read = Some False\<rparr>"
proof -
  let ?b = "lit ''Hi'' @ [10] @ lit ''end:msg'' @ [13] @ lit ''TYPE:MMS''"
  have "msg_lines ?b = [lit ''Hi'', lit '' end:msg'', lit ''TYPE:MMS'']"
    by (simp add: msg_lines_def lf_breaks_def guard_line_def eq_ignore_ascii_case_def to_ascii_lowercase_def)
  moreover have "one_line (lit ''+61400'')" "list_all scalar_value (lit ''+61400'')" "list_all scalar_value ?b"
    by (simp_all add: scalar_value_def)
  ultimately show ?thesis
    using sms_body_contained [of "lit ''+61400''" ?b]
    by (simp add: body_of_def clean_incoming_text_def cleaned_char_def is_control_def)
qed

section \<open>Round trip of ordinary texts\<close>

lemma clean_plain:
  "list_all (\<lambda>c. c = 10 \<or> \<not> is_control c) s \<Longrightarrow> kept + length s \<le> max_chars \<Longrightarrow> clean_from max_chars True kept s = s"
proof (induction s arbitrary: kept)
  case (Cons c s)
  then have "cleaned_char True c s = Some c" by (auto simp: cleaned_char_def is_control_def)
  with Cons show ?case by simp
qed simp

text \<open>Received text never grows past its limit and the ellipsis, and keeps no control characters but line breaks.\<close>

lemma clean_length: "kept \<le> max_chars \<Longrightarrow> kept + length (clean_from max_chars k kept s) \<le> max_chars + 1"
proof (induction s arbitrary: kept)
  case (Cons c s)
  from Cons.IH [of "kept + 1"] Cons.IH [of kept] Cons.prems show ?case
    by (cases "cleaned_char k c s"; cases "kept = max_chars") simp_all
qed simp

lemma clean_no_controls: "c \<in> set (clean_from max_chars k kept s) \<Longrightarrow> is_control c \<Longrightarrow> c = 10 \<and> k"
proof (induction s arbitrary: kept)
  case (Cons d s)
  then show ?case
    by (cases "cleaned_char k d s")
      (auto simp: cleaned_char_def is_control_def split: if_splits)
qed simp

lemma crlf_to_lf_id: "13 \<notin> set s \<Longrightarrow> crlf_to_lf s = s"
  by (induction s rule: crlf_to_lf.induct) auto

lemma body_from_nonempty: "acc \<noteq> [] \<Longrightarrow>
   foldl (\<lambda>acc l. (if acc \<noteq> [] then acc @ [10] else []) @ l) acc ls = acc @ concat (map (\<lambda>l. 10 # l) ls)"
  by (induction ls arbitrary: acc) simp_all

lemma split_on_join: "s = hd (split_on sep s) @ concat (map (\<lambda>l. sep # l) (tl (split_on sep s)))"
  by (induction s) (auto split: list.splits)

lemma body_of_split: "hd (split_on 10 s) \<noteq> [] \<Longrightarrow> body_of (split_on 10 s) = s"
  using split_on_join [of s 10] body_from_nonempty [of "hd (split_on 10 s)" "tl (split_on 10 s)"]
  by (cases "split_on 10 s") (simp_all add: body_of_def)

lemma sms_read_back:
  assumes "one_line phone" "list_all scalar_value phone" "list_all scalar_value body"
    and "list_all (\<lambda>c. c = 10 \<or> \<not> is_control c) body" "length body \<le> 4000"
    and "list_all (\<lambda>l. guard_line l = l) (split_on 10 body)" "body \<noteq> []" "hd body \<noteq> 10" "last (split_on 10 body) \<noteq> []"
  shows "bm_body (bmessage_parse (build_sms_push phone body)) = body"
proof -
  have cr: "13 \<notin> set body" using assms(4) by (auto simp: list_all_iff is_control_def)
  have "lf_breaks body = body" unfolding lf_breaks_def crlf_to_lf_id [OF cr] using cr by (induction body) auto
  moreover have "map guard_line (split_on 10 body) = split_on 10 body" using assms(6) by (induction "split_on 10 body") (auto simp: list_all_iff map_idI)
  ultimately have "msg_lines body = split_on 10 body" using assms(9) by (simp add: msg_lines_def)
  moreover have "hd (split_on 10 body) \<noteq> []" using assms(7,8) by (cases body) (auto split: list.splits)
  ultimately have "body_of (msg_lines body) = body" by (simp add: body_of_split)
  then show ?thesis
    using sms_envelope_read [OF assms(1-3)] clean_plain [OF assms(4), of 0 4000] assms(5)
    by (simp add: clean_incoming_text_def)
qed

text \<open>Blank lines at the beginning of a message are lost to the reader.\<close>

lemma leading_blank_lines_lost: "body_of ([] # ls) = body_of ls"
  by (simp add: body_of_def)

section \<open>Base64\<close>

definition base64_char :: "u8 \<Rightarrow> u8" where
  "base64_char v =
     (if v < 26 then 65 + v else if v < 52 then 71 + v else if v < 62 then v - 4 else if v = 62 then 43 else 47)"

definition base64_group :: "u8 \<Rightarrow> u8 \<Rightarrow> u8 \<Rightarrow> bytes" where
  "base64_group a b c =
     [base64_char (drop_bit 2 a), base64_char (push_bit 4 (take_bit 2 a) OR drop_bit 4 b),
      base64_char (push_bit 2 (take_bit 4 b) OR drop_bit 6 c), base64_char (take_bit 6 c)]"

lemma base64_value_char: "v < 64 \<Longrightarrow> base64_value (base64_char v) = Some v"
  by (auto simp: base64_value_def base64_char_def word_le_nat_alt word_less_nat_alt word_unat_eq_iff
      unat_word_ariths unat_sub_if_size word_size)

lemma base64_fields:
  "drop_bit 2 (a :: u8) < 64" "push_bit 4 (take_bit 2 a) OR drop_bit 4 (b :: u8) < 64"
  "push_bit 2 (take_bit 4 b) OR drop_bit 6 (c :: u8) < 64" "take_bit 6 c < 64"
proof -
  have top: "v < 64" if "\<And>n. 6 \<le> n \<Longrightarrow> \<not> bit v n" for v :: u8
  proof -
    have "take_bit 6 v = v" by (rule bit_word_eqI) (simp add: bit_simps, meson that not_less)
    then have "take_bit 6 (unat v) = unat v" by (metis unsigned_take_bit_eq)
    then have "unat v < 2 ^ 6" by (metis take_bit_nat_less_exp)
    then show ?thesis by (simp add: word_less_nat_alt)
  qed
  show "drop_bit 2 a < 64" "push_bit 4 (take_bit 2 a) OR drop_bit 4 b < 64"
    "push_bit 2 (take_bit 4 b) OR drop_bit 6 c < 64" "take_bit 6 c < 64"
    by (rule top; auto simp: bit_simps dest: bit_imp_le_length)+
qed

lemma base64_mask: "x AND (push_bit n 1 - 1) = take_bit n (x :: u32)"
  by (simp add: take_bit_eq_mask mask_eq_exp_minus_1 push_bit_eq_mult)

lemma bit_u8_high [simp]: "8 \<le> n \<Longrightarrow> \<not> bit (w :: u8) n"
  using bit_imp_le_length [of w n] by auto

lemma base64_step:
  assumes "v < 64" "push_bit 6 bits OR ucast v = bits'"
  shows "held < 2 \<Longrightarrow> base64_bytes bits held (base64_char v # cs) = base64_bytes bits' (held + 6) cs"
    and "2 \<le> held \<Longrightarrow> base64_bytes bits held (base64_char v # cs) =
      ucast (drop_bit (held - 2) bits') # base64_bytes (take_bit (held - 2) bits') (held - 2) cs"
  using assms by (simp_all only: base64_bytes.simps base64_value_char option.case Let_def base64_mask) auto

lemma base64_group_read:
  "base64_bytes 0 0 (base64_group a b c @ r) = a # b # c # base64_bytes 0 0 r"
proof -
  let ?v1 = "ucast (drop_bit 2 a) :: u32"
  let ?v2 = "ucast (push_bit 4 (take_bit 2 a) OR drop_bit 4 b) :: u32"
  let ?v3 = "ucast (push_bit 2 (take_bit 4 b) OR drop_bit 6 c) :: u32"
  let ?v4 = "ucast (take_bit 6 c) :: u32"
  have bytes: "ucast (drop_bit (6 - 2) (push_bit 6 ?v1 OR ?v2)) = a"
    "ucast (drop_bit (4 - 2) (push_bit 6 (ucast (drop_bit 4 b)) OR ?v3)) = b"
    "ucast (drop_bit (2 - 2) (push_bit 6 (ucast (drop_bit 6 c)) OR ?v4)) = c"
    unfolding u8_eq_iff_bits by (simp_all add: bit_simps)
  have rests: "take_bit (6 - 2) (push_bit 6 ?v1 OR ?v2) = ucast (drop_bit 4 b)"
    "take_bit (4 - 2) (push_bit 6 (ucast (drop_bit 4 b)) OR ?v3) = ucast (drop_bit 6 c)"
    "take_bit (2 - 2) (push_bit 6 (ucast (drop_bit 6 c)) OR ?v4) = 0"
    by (rule bit_word_eqI; auto simp: bit_simps dest: bit_imp_le_length)+
  have "base64_bytes 0 0 (base64_group a b c @ r) =
      base64_bytes ?v1 6 (tl (base64_group a b c) @ r)"
    using base64_step(1) [OF base64_fields(1), of 0 a ?v1 0] by (simp add: base64_group_def)
  also have "\<dots> = a # base64_bytes (ucast (drop_bit 4 b)) 4 (tl (tl (base64_group a b c)) @ r)"
    using base64_step(2) [OF base64_fields(2) refl, of 6 ?v1 a b] bytes(1) rests(1) by (simp add: base64_group_def)
  also have "\<dots> = a # b # base64_bytes (ucast (drop_bit 6 c)) 2 (tl (tl (tl (base64_group a b c))) @ r)"
    using base64_step(2) [OF base64_fields(3) refl, of 4 "ucast (drop_bit 4 b)" b c] bytes(2) rests(2)
    by (simp add: base64_group_def)
  also have "\<dots> = a # b # c # base64_bytes 0 0 r"
    using base64_step(2) [OF base64_fields(4) refl, of 2 "ucast (drop_bit 6 c)" c r] bytes(3) rests(3)
    by (simp add: base64_group_def)
  finally show ?thesis .
qed

lemma base64_read:
  "base64_bytes 0 0 (concat (map (\<lambda>(a, b, c). base64_group a b c) gs)) = concat (map (\<lambda>(a, b, c). [a, b, c]) gs)"
  by (induction gs) (simp_all add: split_beta base64_group_read)

end
