(* ===== verification/Text_Match.thy ===== *)
theory Text_Match
  imports Map_Listing Map_Mas Bmessage
begin

text \<open>
  How \<open>aokie_radio/runtime.rs\<close> knows a text again: in the listings of the phone's folders, by recipient, words, time and
  handle, and in the inbox, by handle, time and a fingerprint.  The calendar crate is an argument: what it reads from
  fifteen characters, as seconds of a clock without a zone, and what that is in this computer's zone.
\<close>

section \<open>Words and numbers\<close>

fun split_ws :: "rstr \<Rightarrow> rstr \<Rightarrow> rstr list" where
  "split_ws [] [] = []"
| "split_ws word [] = [word]"
| "split_ws word (c # s) =
     (if is_whitespace c then (if word = [] then split_ws [] s else word # split_ws [] s)
      else split_ws (word @ [c]) s)"

definition split_whitespace :: "rstr \<Rightarrow> rstr list" where
  "split_whitespace s = split_ws [] s"

fun join_with :: "rstr \<Rightarrow> rstr list \<Rightarrow> rstr" where
  "join_with sep [] = []"
| "join_with sep [w] = w"
| "join_with sep (w # ws) = w @ sep @ join_with sep ws"

definition text_head :: "rstr \<Rightarrow> rstr" where
  "text_head body = take 256 (join_with [32] (split_whitespace body))"

definition number_suffix :: "rstr \<Rightarrow> rstr" where
  "number_suffix number = (let digits = filter is_ascii_digit number in drop (length digits - 9) digits)"

function trim_end_str :: "rstr \<Rightarrow> rstr \<Rightarrow> rstr" where
  "trim_end_str suffix s =
     (if suffix \<noteq> [] \<and> length suffix \<le> length s \<and> drop (length s - length suffix) s = suffix
      then trim_end_str suffix (take (length s - length suffix) s) else s)"
  by pat_completeness auto
termination by (relation "measure (\<lambda>(suffix, s). length s)") (simp_all, metis diff_less le_zero_eq length_0_conv neq0_conv)

declare trim_end_str.simps [simp del]

section \<open>Times\<close>

record Zones =
  zn_parse_naive :: "rstr \<Rightarrow> int option"
  zn_local_latest :: "int \<Rightarrow> int option"

text \<open>\<open>str::get\<close> at a byte offset: the text before and after it, when it is a character boundary.\<close>

fun byte_split :: "nat \<Rightarrow> rstr \<Rightarrow> (rstr \<times> rstr) option" where
  "byte_split n s =
     (if n = 0 then Some ([], s)
      else
        (case s of
           [] \<Rightarrow> None
         | c # rest \<Rightarrow>
             if utf8_len c \<le> n \<and> utf8_len c \<noteq> 0 then map_option (apfst (Cons c)) (byte_split (n - utf8_len c) rest) else None))"

declare byte_split.simps [simp del]

definition two_digits :: "rstr \<Rightarrow> int" where
  "two_digits s = (case s of [a, b] \<Rightarrow> int ((a - 48) * 10 + (b - 48)) | _ \<Rightarrow> 0)"

text \<open>In seconds; a fixed offset is within a day of the meridian.\<close>

definition map_datetime :: "Zones \<Rightarrow> rstr \<Rightarrow> int option" where
  "map_datetime z value0 =
     (case byte_split 15 (trim value0) of
        None \<Rightarrow> None
      | Some (front, rest0) \<Rightarrow>
          (case zn_parse_naive z front of
             None \<Rightarrow> None
           | Some naive \<Rightarrow>
               (case trim rest0 of
                  [] \<Rightarrow> zn_local_latest z naive
                | c # digits0 \<Rightarrow>
                    if eq_ignore_ascii_case (c # digits0) (lit ''z'') then Some naive
                    else if c \<noteq> 43 \<and> c \<noteq> 45 then None
                    else
                      (let digits = filter (\<lambda>d. d \<noteq> 58) digits0 in
                       if length digits \<noteq> 4 \<or> \<not> list_all is_ascii_digit digits then None
                       else
                         (let offset = (if c = 43 then 1 else - 1) *
                                (two_digits (take 2 digits) * 3600 + two_digits (drop 2 digits) * 60) in
                          if - 86400 < offset \<and> offset < 86400 then Some (naive - offset) else None)))))"

section \<open>Entries of a listing\<close>

type_synonym listing_entry = "(rstr \<times> rstr) list"

definition entry_get :: "listing_entry \<Rightarrow> rstr \<Rightarrow> rstr option" where
  "entry_get entry name = map_option snd (find (\<lambda>(k, _). k = name) entry)"

text \<open>\<open>since\<close> in milliseconds of the wall clock.\<close>

definition subject_matches :: "rstr \<Rightarrow> rstr \<Rightarrow> bool" where
  "subject_matches subject0 head =
     (let subject = trim_end (trim_end_matches (\<lambda>c. c = 8230) (trim_end_str (lit ''...'') subject0));
          n = min (length subject) (length head)
      in n \<noteq> 0 \<and> take n subject = take n head)"

definition listing_holds_text :: "Zones \<Rightarrow> listing_entry \<Rightarrow> rstr \<Rightarrow> rstr \<Rightarrow> int option \<Rightarrow> bool" where
  "listing_holds_text z entry recipient head since =
     (let want = number_suffix recipient in
      if length want < 6 \<or> map_option number_suffix (entry_get entry (lit ''recipient_addressing'')) \<noteq> Some want then False
      else if (case map_option text_head (entry_get entry (lit ''subject'')) of
                 Some s \<Rightarrow> s \<noteq> [] \<and> \<not> subject_matches s head | None \<Rightarrow> False) then False
      else
        (case (since, Option.bind (entry_get entry (lit ''datetime'')) (map_datetime z)) of
           (Some from, Some at) \<Rightarrow> at * 1000 \<ge> from
         | _ \<Rightarrow> True))"

datatype SentSnapshot = NotTaken | SnapshotTaken "rstr list" | SnapshotUnavailable

definition entry_is_new_since :: "listing_entry \<Rightarrow> SentSnapshot \<Rightarrow> Folder \<Rightarrow> bool" where
  "entry_is_new_since entry before folder =
     (case before of
        SnapshotTaken handles \<Rightarrow>
          folder \<noteq> SentFolder \<or>
          (case entry_get entry (lit ''handle'') of
             None \<Rightarrow> True | Some handle \<Rightarrow> \<not> list_ex (\<lambda>h. eq_ignore_ascii_case h handle) handles)
      | _ \<Rightarrow> True)"

definition is_inbox_folder :: "rstr option \<Rightarrow> bool" where
  "is_inbox_folder folder =
     (case map_option trim folder of
        None \<Rightarrow> True
      | Some f \<Rightarrow>
          f = [] \<or> eq_ignore_ascii_case (last (split_on 47 (trim_end_matches (\<lambda>c. c = 47) f))) (lit ''inbox''))"

section \<open>Messages seen\<close>

text \<open>The maps from handles are functions; times are in milliseconds.\<close>

abbreviation (input) MNS_REPEAT_WINDOW :: duration where "MNS_REPEAT_WINDOW \<equiv> 60000"

record SeenMessage =
  sm_datetime :: "rstr option"
  sm_fingerprint :: "64 word option"
  sm_fetched_at :: "instant option"

record SeenMessages =
  se_by_handle :: "rstr \<rightharpoonup> SeenMessage"
  se_listed :: "rstr \<rightharpoonup> rstr"

definition seen_new :: SeenMessages where
  "seen_new = \<lparr>se_by_handle = Map.empty, se_listed = Map.empty\<rparr>"

definition seen_clear :: "SeenMessages \<Rightarrow> SeenMessages" where
  "seen_clear s = s\<lparr>se_by_handle := Map.empty, se_listed := Map.empty\<rparr>"

definition seen_contains :: "SeenMessages \<Rightarrow> rstr \<Rightarrow> bool" where
  "seen_contains s handle = (se_by_handle s handle \<noteq> None)"

definition seen_entry :: "SeenMessages \<Rightarrow> rstr \<Rightarrow> SeenMessage" where
  "seen_entry s handle =
     (case se_by_handle s handle of Some m \<Rightarrow> m | None \<Rightarrow> \<lparr>sm_datetime = None, sm_fingerprint = None, sm_fetched_at = None\<rparr>)"

definition seen_seed :: "rstr \<Rightarrow> rstr option \<Rightarrow> SeenMessages \<Rightarrow> SeenMessages" where
  "seen_seed handle datetime s =
     (let m = seen_entry s handle;
          m' = (case datetime of Some at \<Rightarrow> m\<lparr>sm_datetime := Some at\<rparr> | None \<Rightarrow> m)
      in s\<lparr>se_by_handle := (se_by_handle s)(handle \<mapsto> m')\<rparr>)"

definition seen_insert :: "rstr \<Rightarrow> SeenMessages \<Rightarrow> SeenMessages" where
  "seen_insert handle s =
     (let m = seen_entry s handle;
          m' = (if se_listed s handle \<noteq> None then m\<lparr>sm_datetime := se_listed s handle\<rparr> else m)
      in s\<lparr>se_by_handle := (se_by_handle s)(handle \<mapsto> m'), se_listed := (se_listed s)(handle := None)\<rparr>)"

definition listed_is_new :: "rstr \<Rightarrow> rstr option \<Rightarrow> SeenMessages \<Rightarrow> bool \<times> SeenMessages" where
  "listed_is_new handle datetime s =
     (let (is_new, s1) =
        (case se_by_handle s handle of
           None \<Rightarrow> (True, s)
         | Some m \<Rightarrow>
             (case (sm_datetime m, datetime) of
                (Some was, Some now) \<Rightarrow> (was \<noteq> now, s)
              | (None, Some now) \<Rightarrow> (False, s\<lparr>se_by_handle := (se_by_handle s)(handle \<mapsto> m\<lparr>sm_datetime := Some now\<rparr>)\<rparr>)
              | _ \<Rightarrow> (False, s)))
      in (is_new, case datetime of Some at \<Rightarrow> if is_new then s1\<lparr>se_listed := (se_listed s1)(handle \<mapsto> at)\<rparr> else s1 | None \<Rightarrow> s1))"

definition fnv_step :: "64 word \<Rightarrow> u8 \<Rightarrow> 64 word" where
  "fnv_step hash byte = (hash XOR ucast byte) * 0x100000001b3"

definition text_fingerprint :: "rstr \<Rightarrow> rstr \<Rightarrow> 64 word" where
  "text_fingerprint sender body =
     foldl fnv_step 0xcbf29ce484222325 (utf8_encode sender @ [0] @ utf8_encode body)"

definition seen_fetched :: "instant \<Rightarrow> rstr \<Rightarrow> rstr \<Rightarrow> rstr \<Rightarrow> SeenMessages \<Rightarrow> bool \<times> SeenMessages" where
  "seen_fetched now handle sender body s =
     (let fingerprint = text_fingerprint sender body;
          listed = se_listed s handle;
          m = seen_entry s handle;
          relisted = (case (sm_datetime m, listed) of (Some was, Some at) \<Rightarrow> was \<noteq> at | _ \<Rightarrow> False);
          is_new = (relisted \<or> sm_fingerprint m \<noteq> Some fingerprint);
          m' = m\<lparr>sm_fingerprint := Some fingerprint, sm_fetched_at := Some now,
                 sm_datetime := (if listed \<noteq> None then listed else sm_datetime m)\<rparr>
      in (is_new, s\<lparr>se_by_handle := (se_by_handle s)(handle \<mapsto> m'), se_listed := (se_listed s)(handle := None)\<rparr>))"

datatype Renotified = RenotifiedSame | RenotifiedList | RenotifiedFetch

definition renotified :: "instant \<Rightarrow> SeenMessages \<Rightarrow> rstr \<Rightarrow> Renotified" where
  "renotified now s handle =
     (case se_by_handle s handle of
        None \<Rightarrow> RenotifiedFetch
      | Some m \<Rightarrow>
          if (case sm_fetched_at m of Some at \<Rightarrow> now - at < MNS_REPEAT_WINDOW | None \<Rightarrow> False) then RenotifiedSame
          else if sm_datetime m \<noteq> None then RenotifiedList
          else if sm_fingerprint m \<noteq> None then RenotifiedFetch
          else RenotifiedSame)"

end
