(* ===== verification/Map_Runtime.thy ===== *)
theory Map_Runtime
  imports Obex_Drive Map_Mas
begin

text \<open>
  \<open>aokie_radio/map_runtime.rs\<close>: the tick-driven runtime of the message server, over SDP, L2CAP, RFCOMM and the session
  of \<open>map_mas.rs\<close>.  It is built like the runtime of the phone book, with two additions: the phone may split its
  records over several answers, and a pooled session rests between operations.  The conventions are those of
  the phone-book runtime: a step gives the packets to send or the error the caller sees, next to the runtime and the
  L2CAP state after it.
\<close>

section \<open>State\<close>

abbreviation (input) MAX_SDP_CONTINUATIONS :: nat where "MAX_SDP_CONTINUATIONS \<equiv> 16"
abbreviation (input) MAX_SDP_ATTRIBUTE_BYTES :: nat where "MAX_SDP_ATTRIBUTE_BYTES \<equiv> 65536"
abbreviation (input) UUID_MAP_MAS :: u16 where "UUID_MAP_MAS \<equiv> 0x1132"

datatype MapRuntimeEvent = OperationCompleted OperationOutput | MapOperationFailed profile_reason

datatype MapRuntimePhase =
    MrIdle
  | MrAwaitingSdpOpen u16
  | MrAwaitingSdpResponse u16 bytes bytes nat
  | MrAwaitingRfcommOpen u8 u16
  | MrDrivingRfcomm u16 RfcommClientState
  | MrDrivingMas u16 RfcommClientState MasMceSession bytes
  | MrAwaitingSharedDlciOpen u16 u8
  | MrDrivingMasShared u16 u8 MasMceSession bytes
  | MrResting u16 RfcommClientState MasMceSession bytes
  | MrRestingShared u16 u8 MasMceSession bytes
  | MrDone
  | MrFailed profile_reason

record MapRuntime =
  mr_connection_handle :: u16
  mr_operation :: Operation
  mr_mas_instance_id :: u8
  mr_phase :: MapRuntimePhase
  mr_pending_events :: "MapRuntimeEvent list"
  mr_buffer :: nat
  mr_sdp_transaction_id :: u16
  mr_pooled :: bool

definition map_runtime_new :: "nat \<Rightarrow> u16 \<Rightarrow> Operation \<Rightarrow> u8 \<Rightarrow> MapRuntime" where
  "map_runtime_new buffer connection_handle operation mas_instance_id =
     \<lparr>mr_connection_handle = connection_handle, mr_operation = operation, mr_mas_instance_id = mas_instance_id,
      mr_phase = MrIdle, mr_pending_events = [], mr_buffer = buffer, mr_sdp_transaction_id = 1, mr_pooled = False\<rparr>"

definition enable_pooling :: "MapRuntime \<Rightarrow> MapRuntime" where
  "enable_pooling rt = rt\<lparr>mr_pooled := True\<rparr>"

definition map_is_done :: "MapRuntime \<Rightarrow> bool" where
  "map_is_done rt = (mr_phase rt = MrDone)"

definition map_is_failed :: "MapRuntime \<Rightarrow> bool" where
  "map_is_failed rt = (case mr_phase rt of MrFailed _ \<Rightarrow> True | _ \<Rightarrow> False)"

definition map_is_resting :: "MapRuntime \<Rightarrow> bool" where
  "map_is_resting rt = (case mr_phase rt of MrResting _ _ _ _ \<Rightarrow> True | MrRestingShared _ _ _ _ \<Rightarrow> True | _ \<Rightarrow> False)"

definition put_awaiting_answer :: "MapRuntime \<Rightarrow> bool" where
  "put_awaiting_answer rt =
     (case mr_phase rt of
        MrDrivingMas _ _ session _ \<Rightarrow> ms_state session = MasAwaitingPut
      | MrDrivingMasShared _ _ session _ \<Rightarrow> ms_state session = MasAwaitingPut
      | _ \<Rightarrow> False)"

definition map_take_events :: "MapRuntime \<Rightarrow> MapRuntimeEvent list \<times> MapRuntime" where
  "map_take_events rt = (mr_pending_events rt, rt\<lparr>mr_pending_events := []\<rparr>)"

section \<open>Calls on a resting runtime\<close>

datatype map_call_error = NotResting MapRuntimePhase | CallRefused mas_call_error | CallFailed profile_error

definition map_start_next_op ::
    "Operation \<Rightarrow> MapRuntime \<Rightarrow> 'w L2capState \<Rightarrow> (map_call_error + bytes list) \<times> MapRuntime \<times> 'w L2capState" where
  "map_start_next_op operation rt s =
     (case mr_phase rt of
        MrResting cid client session buffer \<Rightarrow>
          (case start_next_op operation session of
             (Inl e, session') \<Rightarrow> (Inl (CallRefused e), rt\<lparr>mr_phase := MrResting cid client session' buffer\<rparr>, s)
           | (Inr next_req, session') \<Rightarrow>
               (case send_own cid next_req (client, s) of
                  Inl e \<Rightarrow> (Inl (CallFailed e), rt\<lparr>mr_phase := MrDone\<rparr>, s)
                | Inr (acl, client', s') \<Rightarrow> (Inr [acl], rt\<lparr>mr_phase := MrDrivingMas cid client' session' buffer\<rparr>, s')))
      | MrRestingShared cid dlci session buffer \<Rightarrow>
          (case start_next_op operation session of
             (Inl e, session') \<Rightarrow> (Inl (CallRefused e), rt\<lparr>mr_phase := MrRestingShared cid dlci session' buffer\<rparr>, s)
           | (Inr next_req, session') \<Rightarrow>
               (case send_shared cid dlci next_req s of
                  Inl e \<Rightarrow> (Inl (CallFailed e), rt\<lparr>mr_phase := MrDone\<rparr>, s)
                | Inr (acl, s') \<Rightarrow> (Inr [acl], rt\<lparr>mr_phase := MrDrivingMasShared cid dlci session' buffer\<rparr>, s')))
      | other \<Rightarrow> (Inl (NotResting other), rt, s))"

definition map_request_disconnect ::
    "MapRuntime \<Rightarrow> 'w L2capState \<Rightarrow> (map_call_error + bytes list) \<times> MapRuntime \<times> 'w L2capState" where
  "map_request_disconnect rt s =
     (case mr_phase rt of
        MrResting cid client session buffer \<Rightarrow>
          (case request_disconnect session of
             (Inl e, _) \<Rightarrow> (Inl (CallRefused e), rt\<lparr>mr_phase := MrDone\<rparr>, s)
           | (Inr disc, session') \<Rightarrow>
               (case send_own cid disc (client, s) of
                  Inl e \<Rightarrow> (Inl (CallFailed e), rt\<lparr>mr_phase := MrDone\<rparr>, s)
                | Inr (acl, client', s') \<Rightarrow> (Inr [acl], rt\<lparr>mr_phase := MrDrivingMas cid client' session' buffer\<rparr>, s')))
      | MrRestingShared cid dlci session buffer \<Rightarrow>
          (case request_disconnect session of
             (Inl e, _) \<Rightarrow> (Inl (CallRefused e), rt\<lparr>mr_phase := MrDone\<rparr>, s)
           | (Inr disc, session') \<Rightarrow>
               (case send_shared cid dlci disc s of
                  Inl e \<Rightarrow> (Inl (CallFailed e), rt\<lparr>mr_phase := MrDone\<rparr>, s)
                | Inr (acl, s') \<Rightarrow> (Inr [acl], rt\<lparr>mr_phase := MrDrivingMasShared cid dlci session' buffer\<rparr>, s')))
      | other \<Rightarrow> (Inl (NotResting other), rt, s))"

section \<open>Steps\<close>

definition map_start ::
    "instant \<Rightarrow> MapRuntime \<Rightarrow> 'w L2capState \<Rightarrow> (MapRuntimePhase + bytes list) \<times> MapRuntime \<times> 'w L2capState" where
  "map_start now rt s =
     (if mr_phase rt \<noteq> MrIdle then (Inl (mr_phase rt), rt, s) else
      let ((local_cid, packet), s') = open_outbound_channel_with_handler now (mr_connection_handle rt) PSM_SDP
             (Some (BufferHandler (mr_buffer rt))) s
      in (Inr [packet], rt\<lparr>mr_phase := MrAwaitingSdpOpen local_cid\<rparr>, s'))"

type_synonym 'w map_step = "(profile_error + bytes list) \<times> MapRuntime \<times> 'w L2capState"

definition map_fail :: "profile_reason \<Rightarrow> u16 option \<Rightarrow> bytes list \<Rightarrow> MapRuntime \<Rightarrow> 'w L2capState \<Rightarrow> 'w map_step" where
  "map_fail reason active_cid out rt s =
     (let (disc, s') = profile_disconnect active_cid s
      in (Inr (out @ disc),
          rt\<lparr>mr_pending_events := mr_pending_events rt @ [MapOperationFailed reason], mr_phase := MrFailed reason\<rparr>, s'))"

definition extract_mas_channel_from_attribute_lists :: "bytes \<Rightarrow> MapRuntime \<Rightarrow> sdp_error + u8 \<times> MapRuntime" where
  "extract_mas_channel_from_attribute_lists attribute_lists rt =
     (case mas_for_sms attribute_lists of
        Inl e \<Rightarrow> Inl e
      | Inr (channel, None) \<Rightarrow> Inr (channel, rt)
      | Inr (channel, Some i) \<Rightarrow>
          Inr (channel, if i \<noteq> mr_mas_instance_id rt then rt\<lparr>mr_mas_instance_id := i\<rparr> else rt))"

definition map_sdp_done :: "instant \<Rightarrow> u16 \<Rightarrow> u8 \<Rightarrow> MapRuntime \<Rightarrow> 'w L2capState \<Rightarrow> 'w map_step" where
  "map_sdp_done now local_cid server_channel rt s =
     (let (disc, s1) = profile_disconnect (Some local_cid) s in
      case find_open_rfcomm_channel (mr_connection_handle rt) s1 of
        Some shared_cid \<Rightarrow>
          (case rfcomm_attach_client_dlci shared_cid server_channel s1 of
             Inr ((target_dlci, pn_acl), s2) \<Rightarrow>
               (Inr (disc @ [pn_acl]), rt\<lparr>mr_phase := MrAwaitingSharedDlciOpen shared_cid target_dlci\<rparr>, s2)
           | Inl e \<Rightarrow> map_fail (ProfileAttach e) None disc rt s1)
      | None \<Rightarrow>
          (let ((rfcomm_cid, conn_req), s2) = open_outbound_channel_with_handler now (mr_connection_handle rt) PSM_RFCOMM
                 (Some (BufferHandler (mr_buffer rt))) s1
           in (Inr (disc @ [conn_req]), rt\<lparr>mr_phase := MrAwaitingRfcommOpen server_channel rfcomm_cid\<rparr>, s2)))"

definition map_sdp_inbound :: "instant \<Rightarrow> u16 \<Rightarrow> bytes \<Rightarrow> bytes \<Rightarrow> nat \<Rightarrow> MapRuntime \<Rightarrow> 'w L2capState \<Rightarrow> 'w map_step" where
  "map_sdp_inbound now local_cid buffer attribute_lists continuations rt s =
     (case read_sdp_reply buffer of
        Reply resp \<Rightarrow>
          (let gathered = attribute_lists @ rs_attribute_lists resp in
           if rs_continuation_state resp = [] then
             (case extract_mas_channel_from_attribute_lists gathered rt of
                Inl e \<Rightarrow> map_fail (ProfileSdp e) (Some local_cid) [] rt s
              | Inr (server_channel, rt') \<Rightarrow> map_sdp_done now local_cid server_channel rt' s)
           else if continuations \<ge> MAX_SDP_CONTINUATIONS \<or> length gathered > MAX_SDP_ATTRIBUTE_BYTES then
             map_fail ProfileRecordsTooLong (Some local_cid) [] rt s
           else
             (let rt' = rt\<lparr>mr_sdp_transaction_id := mr_sdp_transaction_id rt + 1\<rparr> in
              case send_on_channel local_cid
                (build_service_search_attribute_request_continued (mr_sdp_transaction_id rt') UUID_MAP_MAS 0xffff
                  (rs_continuation_state resp)) s of
                Inl e \<Rightarrow> (Inl (ProfileL2 e), rt', s)
              | Inr acl \<Rightarrow>
                  (Inr [acl], rt'\<lparr>mr_phase := MrAwaitingSdpResponse local_cid [] gathered (Suc continuations)\<rparr>, s)))
      | ReplyPartial \<Rightarrow> (Inr [], rt\<lparr>mr_phase := MrAwaitingSdpResponse local_cid buffer attribute_lists continuations\<rparr>, s)
      | ReplyFailed reason \<Rightarrow> map_fail (ProfileReply reason) (Some local_cid) [] rt s)"

definition map_session :: "MapRuntime \<Rightarrow> MasMceSession" where
  "map_session rt = mas_set_keep_alive (mr_pooled rt) (mas_new (mr_operation rt) (mr_mas_instance_id rt))"

fun map_rfcomm_events ::
    "u16 \<Rightarrow> RfcommClientEvent list \<Rightarrow> RfcommClientState \<Rightarrow> bytes list \<Rightarrow> MapRuntime \<Rightarrow> 'w L2capState \<Rightarrow> 'w map_step" where
  "map_rfcomm_events cid [] client out rt s = (Inr out, rt\<lparr>mr_phase := MrDrivingRfcomm cid client\<rparr>, s)"
| "map_rfcomm_events cid (ev # evs) client out rt s =
     (case ev of
        COpenedEvent \<Rightarrow>
          (case mas_next_request (map_session rt) of
             (Some connect_req, session) \<Rightarrow>
               (case send_own cid connect_req (client, s) of
                  Inl e \<Rightarrow> (Inl e, rt, s)
                | Inr (acl, client', s') \<Rightarrow>
                    (Inr (out @ [acl]), rt\<lparr>mr_phase := MrDrivingMas cid client' session []\<rparr>, s'))
           | (None, _) \<Rightarrow> map_fail ProfileNoRequest (Some cid) out rt s)
      | CClosedEvent \<Rightarrow> map_fail ProfileClosedEarly (Some cid) out rt s
      | CFailedEvent reason \<Rightarrow> map_fail (ProfileClient reason) (Some cid) out rt s
      | CPayloadEvent _ \<Rightarrow> map_rfcomm_events cid evs client out rt s)"

definition expected_fixed_payload :: "MasMceSession \<Rightarrow> FixedPayload" where
  "expected_fixed_payload session = (case ms_state session of MasAwaitingConnect \<Rightarrow> FixedConnect | _ \<Rightarrow> FixedNone)"

definition mas_stops :: "MasMceSession \<Rightarrow> bool" where
  "mas_stops session = (case ms_state session of MasDone \<Rightarrow> True | MasResting \<Rightarrow> True | MasFailed _ \<Rightarrow> True | _ \<Rightarrow> False)"

text \<open>What follows the loop over the packets, with the phases to go on in and to rest in.\<close>

definition map_after ::
    "u16 option \<Rightarrow> ('w L2capState \<Rightarrow> bytes list \<times> 'w L2capState) \<Rightarrow> (MasMceSession \<Rightarrow> bytes \<Rightarrow> MapRuntimePhase) \<Rightarrow>
     (MasMceSession \<Rightarrow> bytes \<Rightarrow> MapRuntimePhase) \<Rightarrow>
     bytes list \<Rightarrow> (MasMceSession, profile_error) driven \<Rightarrow> MapRuntime \<Rightarrow> 'w L2capState \<Rightarrow> 'w map_step" where
  "map_after fail_cid close phase resting out d rt s =
     (case d of
        DriveHeader len \<Rightarrow> map_fail (ProfileHeader len) fail_cid out rt s
      | DriveParse e \<Rightarrow> map_fail (ProfileParse e) fail_cid out rt s
      | DriveError e \<Rightarrow> (Inl e, rt, s)
      | DriveOn session buffer \<Rightarrow> (Inr out, rt\<lparr>mr_phase := phase session buffer\<rparr>, s)
      | DriveStop session buffer \<Rightarrow>
          (case ms_state session of
             MasFailed reason \<Rightarrow> map_fail (ProfileSession reason) fail_cid out rt s
           | MasResting \<Rightarrow>
               (Inr out, rt\<lparr>mr_pending_events := mr_pending_events rt @ [OperationCompleted (ms_output session)],
                  mr_phase := resting session buffer\<rparr>, s)
           | _ \<Rightarrow>
               (let (closing, s') = close s
                in (Inr (out @ closing),
                    rt\<lparr>mr_pending_events := mr_pending_events rt @ [OperationCompleted (ms_output session)],
                       mr_phase := MrDone\<rparr>, s'))))"

fun map_session_events ::
    "u16 \<Rightarrow> RfcommClientEvent list \<Rightarrow> RfcommClientState \<Rightarrow> MasMceSession \<Rightarrow> bytes \<Rightarrow> bytes list \<Rightarrow> MapRuntime \<Rightarrow>
     'w L2capState \<Rightarrow> 'w map_step" where
  "map_session_events cid [] client session buffer out rt s =
     (Inr out, rt\<lparr>mr_phase := MrDrivingMas cid client session buffer\<rparr>, s)"
| "map_session_events cid (ev # evs) client session buffer out rt s =
     (case ev of
        CPayloadEvent bytes \<Rightarrow>
          (case obex_drive expected_fixed_payload mas_handle_response mas_stops (send_own cid) session (buffer @ bytes) (client, s) of
             (out', (client', s'), DriveOn session' buffer') \<Rightarrow>
               map_session_events cid evs client' session' buffer' (out @ out') rt s'
           | (out', (client', s'), d) \<Rightarrow>
               map_after (Some cid) (close_own cid client') (MrDrivingMas cid client') (MrResting cid client') (out @ out') d rt s')
      | CClosedEvent \<Rightarrow> map_fail ProfileClosed (Some cid) out rt s
      | CFailedEvent reason \<Rightarrow> map_fail (ProfileClient reason) (Some cid) out rt s
      | COpenedEvent \<Rightarrow> map_session_events cid evs client session buffer out rt s)"

definition map_consume_inbound :: "instant \<Rightarrow> u16 \<Rightarrow> bytes \<Rightarrow> MapRuntime \<Rightarrow> 'w L2capState \<Rightarrow> 'w map_step" where
  "map_consume_inbound now cid bytes rt0 s =
     (let rt = rt0\<lparr>mr_phase := MrDone\<rparr> in
      case mr_phase rt0 of
        MrAwaitingSdpResponse local_cid buffer attribute_lists continuations \<Rightarrow>
          if local_cid = cid then map_sdp_inbound now local_cid (buffer @ bytes) attribute_lists continuations rt s
          else (Inr [], rt0, s)
      | MrDrivingRfcomm local_cid client \<Rightarrow>
          if local_cid = cid then
            (case client_handle_packet client bytes of
               Inl e \<Rightarrow> (Inl (ProfileFrame e), rt, s)
             | Inr (responses, client1) \<Rightarrow>
                 (case send_frames local_cid responses s of
                    Inl e \<Rightarrow> (Inl (ProfileL2 e), rt, s)
                  | Inr acls \<Rightarrow>
                      map_rfcomm_events local_cid (fst (client_take_events client1)) (snd (client_take_events client1)) acls rt s))
          else (Inr [], rt0, s)
      | MrDrivingMas local_cid client session buffer \<Rightarrow>
          if local_cid = cid then
            (case client_handle_packet client bytes of
               Inl e \<Rightarrow> (Inl (ProfileFrame e), rt, s)
             | Inr (responses, client1) \<Rightarrow>
                 (case send_frames local_cid responses s of
                    Inl e \<Rightarrow> (Inl (ProfileL2 e), rt, s)
                  | Inr acls \<Rightarrow>
                      map_session_events local_cid (fst (client_take_events client1)) (snd (client_take_events client1))
                        session buffer acls rt s))
          else (Inr [], rt0, s)
      | _ \<Rightarrow> (Inr [], rt0, s))"

definition map_consume_shared_event :: "ClientDlciEvent \<Rightarrow> MapRuntime \<Rightarrow> 'w L2capState \<Rightarrow> 'w map_step" where
  "map_consume_shared_event ev rt0 s =
     (let rt = rt0\<lparr>mr_phase := MrDone\<rparr> in
      case ev of
        DlciOpened dlci \<Rightarrow>
          (case mr_phase rt0 of
             MrAwaitingSharedDlciOpen local_cid target_dlci \<Rightarrow>
               if dlci \<noteq> target_dlci then (Inr [], rt0, s)
               else
                 (case mas_next_request (map_session rt0) of
                    (None, _) \<Rightarrow> map_fail ProfileNoRequest None [] rt s
                  | (Some connect_req, session) \<Rightarrow>
                      (case send_shared local_cid target_dlci connect_req s of
                         Inl e \<Rightarrow> (Inl e, rt, s)
                       | Inr (acl, s') \<Rightarrow>
                           (Inr [acl], rt\<lparr>mr_phase := MrDrivingMasShared local_cid target_dlci session []\<rparr>, s')))
           | _ \<Rightarrow> (Inr [], rt0, s))
      | DlciFailedEvent _ reason \<Rightarrow> map_fail (ProfileDlci reason) None [] rt0 s
      | DlciPayload dlci payload \<Rightarrow>
          (case mr_phase rt0 of
             MrDrivingMasShared local_cid target_dlci session buffer \<Rightarrow>
               if dlci \<noteq> target_dlci then (Inr [], rt0, s)
               else
                 (case obex_drive expected_fixed_payload mas_handle_response mas_stops (send_shared local_cid target_dlci)
                    session (buffer @ payload) s of
                    (out, s', d) \<Rightarrow>
                      map_after None (close_shared local_cid target_dlci) (MrDrivingMasShared local_cid target_dlci)
                        (MrRestingShared local_cid target_dlci) out d rt s')
           | _ \<Rightarrow> (Inr [], rt0, s)))"

section \<open>Ticks\<close>

definition map_consume_all :: "instant \<Rightarrow> (u16 \<times> bytes) list \<Rightarrow> MapRuntime \<times> 'w L2capState \<Rightarrow> 'w map_step" where
  "map_consume_all now = take_pieces (\<lambda>(cid, data) (rt, s). map_consume_inbound now cid data rt s)"

definition map_consume_events :: "ClientDlciEvent list \<Rightarrow> MapRuntime \<times> 'w L2capState \<Rightarrow> 'w map_step" where
  "map_consume_events = take_pieces (\<lambda>ev (rt, s). map_consume_shared_event ev rt s)"

fun map_shared :: "MapRuntimePhase \<Rightarrow> (u16 \<times> u8) option" where
  "map_shared (MrAwaitingSharedDlciOpen cid dlci) = Some (cid, dlci)"
| "map_shared (MrDrivingMasShared cid dlci _ _) = Some (cid, dlci)"
| "map_shared (MrRestingShared cid dlci _ _) = Some (cid, dlci)"
| "map_shared _ = None"

definition map_drive_outbound :: "MapRuntime \<times> 'w L2capState \<Rightarrow> 'w map_step" where
  "map_drive_outbound x =
     (case x of (rt, s) \<Rightarrow>
      case mr_phase rt of
        MrAwaitingSdpOpen cid \<Rightarrow>
          (case l2_channel s cid of
             None \<Rightarrow> (Inr [], rt, s)
           | Some ch \<Rightarrow>
               if ch_state ch = Open then
                 (case send_on_channel cid
                    (build_service_search_attribute_request (mr_sdp_transaction_id rt) UUID_MAP_MAS 0xffff) s of
                    Inl e \<Rightarrow> (Inl (ProfileL2 e), rt, s)
                  | Inr acl \<Rightarrow> (Inr [acl], rt\<lparr>mr_phase := MrAwaitingSdpResponse cid [] [] 0\<rparr>, s))
               else (Inr [], rt, s))
      | MrAwaitingRfcommOpen channel_num cid \<Rightarrow>
          (case l2_channel s cid of
             None \<Rightarrow> (Inr [], rt, s)
           | Some ch \<Rightarrow>
               if ch_state ch = Open then
                 (case kickoff (client_new channel_num) of
                    Inl e \<Rightarrow> (Inl (ProfileUih e), rt, s)
                  | Inr (sabm, client) \<Rightarrow>
                      (case send_on_channel cid sabm s of
                         Inl e \<Rightarrow> (Inl (ProfileL2 e), rt, s)
                       | Inr acl \<Rightarrow> (Inr [acl], rt\<lparr>mr_phase := MrDrivingRfcomm cid client\<rparr>, s)))
               else (Inr [], rt, s))
      | _ \<Rightarrow> (Inr [], rt, s))"

definition map_drain_shared :: "MapRuntime \<times> 'w L2capState \<Rightarrow> 'w map_step" where
  "map_drain_shared x =
     (case x of (rt, s) \<Rightarrow>
      case map_shared (mr_phase rt) of
        None \<Rightarrow> (Inr [], rt, s)
      | Some (cid, dlci) \<Rightarrow>
          (let (evs, s') = take_rfcomm_client_events_for_dlci cid dlci s in map_consume_events evs (rt, s')))"

definition map_tick ::
    "instant \<Rightarrow> MapRuntime \<Rightarrow> 'w L2capState \<Rightarrow> 'w Shared \<Rightarrow>
     (profile_error + bytes list) \<times> (MapRuntime \<times> 'w L2capState) \<times> 'w Shared" where
  "map_tick now rt s sh =
     (let inbound = sh_buffers sh (mr_buffer rt);
          sh' = sh\<lparr>sh_buffers := (sh_buffers sh)(mr_buffer rt := [])\<rparr>;
          (r, x) = chain map_drive_outbound (chain map_drain_shared (map_consume_all now inbound (rt, s)))
      in (r, x, sh'))"

section \<open>Answers on the shared multiplexer\<close>

abbreviation mas_drive :: "u16 \<Rightarrow> u8 \<Rightarrow> MasMceSession \<Rightarrow> bytes \<Rightarrow> 'w L2capState \<Rightarrow>
    bytes list \<times> 'w L2capState \<times> (MasMceSession, profile_error) driven" where
  "mas_drive cid d \<equiv> obex_drive expected_fixed_payload mas_handle_response mas_stops (send_shared cid d)"

abbreviation map_shared_after :: "u16 \<Rightarrow> u8 \<Rightarrow> bytes list \<Rightarrow> (MasMceSession, profile_error) driven \<Rightarrow> MapRuntime \<Rightarrow>
    'w L2capState \<Rightarrow> 'w map_step" where
  "map_shared_after cid d \<equiv> map_after None (close_shared cid d) (MrDrivingMasShared cid d) (MrRestingShared cid d)"

lemma map_payload:
  "mr_phase rt = MrDrivingMasShared cid d session b \<Longrightarrow> map_consume_shared_event (DlciPayload d c) rt s =
     (let (out, s', v) = mas_drive cid d session (b @ c) s in map_shared_after cid d out v (rt\<lparr>mr_phase := MrDone\<rparr>) s')"
  by (simp add: map_consume_shared_event_def Let_def split_beta)

lemma map_payloads_ignored:
  assumes "\<not> (\<exists>cid session b. mr_phase rt = MrDrivingMasShared cid d session b)"
  shows "map_consume_events (map (DlciPayload d) cs) (rt, s) = (Inr [], rt, s)"
proof -
  have "map_consume_shared_event (DlciPayload d c) rt s = (Inr [], rt, s)" for c
    using assms by (auto simp: map_consume_shared_event_def Let_def split: MapRuntimePhase.splits)
  then show ?thesis by (induction cs) (simp_all add: map_consume_events_def)
qed

lemma map_after_on: "map_shared_after cid d out (DriveOn t b) rt s = (Inr out, rt\<lparr>mr_phase := MrDrivingMasShared cid d t b\<rparr>, s)"
  by (simp add: map_after_def)

lemma map_after_over:
  assumes "\<And>t b. v \<noteq> DriveOn t b" "mr_phase rt = MrDone"
  shows "\<not> (\<exists>cid' session b. mr_phase (fst (snd (map_shared_after cid d out v rt s))) = MrDrivingMasShared cid' d session b)"
  using assms by (auto simp: map_after_def map_fail_def Let_def split_beta split: driven.splits MasState.splits)

lemma map_after_out:
  "map_shared_after cid d (out @ out') v rt s = chain (\<lambda>(rt, s). map_shared_after cid d out' v rt s) (Inr out, rt, s)"
  by (auto simp: map_after_def map_fail_def Let_def split_beta split: driven.splits MasState.splits)

text \<open>The payloads of the channel, taken one after the other, are the loop run over them.\<close>

lemma map_payload_events:
  assumes "mr_phase rt = MrDrivingMasShared cid d session b"
  shows "map_consume_events (map (DlciPayload d) cs) (rt, s) =
    (let (out, s', v) = drive_pieces (mas_drive cid d) session b cs s in map_shared_after cid d out v (rt\<lparr>mr_phase := MrDone\<rparr>) s')"
  using assms
proof (induction cs arbitrary: rt session b s)
  case Nil
  then show ?case by (simp add: map_consume_events_def map_after_on)
next
  case (Cons c cs)
  obtain out s' v where v: "mas_drive cid d session (b @ c) s = (out, s', v)" by (metis prod_cases3)
  let ?rt = "rt\<lparr>mr_phase := MrDone\<rparr>"
  have head: "map_consume_events (map (DlciPayload d) (c # cs)) (rt, s) =
      chain (map_consume_events (map (DlciPayload d) cs)) (map_shared_after cid d out v ?rt s')"
    using v by (simp add: map_consume_events_def map_payload [OF Cons.prems])
  show ?case
  proof (cases "\<exists>t l. v = DriveOn t l")
    case True
    then obtain t l where on: "v = DriveOn t l" by blast
    obtain o2 s2 v2 where p: "drive_pieces (mas_drive cid d) t l cs s' = (o2, s2, v2)" by (metis prod_cases3)
    let ?rt' = "rt\<lparr>mr_phase := MrDrivingMasShared cid d t l\<rparr>"
    have "map_consume_events (map (DlciPayload d) cs) (?rt', s') = map_shared_after cid d o2 v2 (?rt'\<lparr>mr_phase := MrDone\<rparr>) s2"
      using Cons.IH [of ?rt' t l s'] p by simp
    then show ?thesis unfolding head using v on p by (simp add: map_after_on map_after_out)
  next
    case False
    obtain r rt' s2 where a: "map_shared_after cid d out v ?rt s' = (r, rt', s2)" by (metis prod_cases3)
    have "map_consume_events (map (DlciPayload d) cs) (rt', s2) = (Inr [], rt', s2)"
      using map_after_over [of v ?rt cid d out s'] False a by (intro map_payloads_ignored) auto
    moreover have "drive_pieces (mas_drive cid d) session b (c # cs) s = (out, s', v)" using v False by (cases v) auto
    ultimately show ?thesis unfolding head using a by (cases r) simp_all
  qed
qed

section \<open>A listing on a pooled session\<close>

lemma mas_fixed_by_state: "ms_state s \<noteq> MasAwaitingConnect \<Longrightarrow> expected_fixed_payload s = FixedNone"
  by (auto simp: expected_fixed_payload_def split: MasState.splits)

lemma mas_stops_by_state:
  "ms_state s \<noteq> MasDone \<Longrightarrow> ms_state s \<noteq> MasResting \<Longrightarrow> (\<And>e. ms_state s \<noteq> MasFailed e) \<Longrightarrow> \<not> mas_stops s"
  "ms_state s = MasResting \<Longrightarrow> mas_stops s"
  by (auto simp: mas_stops_def split: MasState.splits)

lemma mas_getting_waits: "mas_getting s \<Longrightarrow> expected_fixed_payload s = FixedNone \<and> \<not> mas_stops s"
  by (auto simp: mas_getting_def mas_fixed_by_state mas_stops_by_state)

abbreviation mas_fits :: "MasMceSession \<Rightarrow> Packet list \<Rightarrow> bool" where
  "mas_fits \<equiv> answers_fit expected_fixed_payload mas_handle_response mas_stops"

lemma operation_waits: "ms_state (snd (start_operation conn s)) \<in> {MasAwaitingFirstGet, MasAwaitingPut}"
  by (simp add: start_operation_def split: Operation.split)

lemma walk_fits:
  assumes "ms_state s = MasAwaitingSetPath step remaining" "ms_connection_id s = Some conn"
    "length oks = Suc (length remaining)" "\<forall>p \<in> set oks. pk_opcode p = RSP_OK" "list_all (answer_ok 0) oks"
  shows "mas_fits s oks"
  using assms
proof (induction remaining arbitrary: s step oks)
  case Nil
  then obtain p where "oks = [p]" by (cases oks) auto
  with Nil show ?case by (simp add: mas_fixed_by_state answer_ok_def)
next
  case (Cons st remaining)
  then obtain p ps where oks: "oks = p # ps" "pk_opcode p = RSP_OK" by (cases oks) auto
  let ?s = "s\<lparr>ms_current_folder := apply_step step (ms_current_folder s), ms_state := MasAwaitingSetPath st remaining\<rparr>"
  have step: "snd (mas_handle_response s p) = ?s"
    using Cons.prems oks
    by (simp add: mas_handle_response_def mas_advance_def mas_require_def mas_connection_def Let_def)
  have "mas_fits ?s ps" by (rule Cons.IH) (use Cons.prems oks in auto)
  with step Cons.prems oks show ?case by (simp add: mas_fixed_by_state mas_stops_by_state answer_ok_def)
qed

lemma next_op_fits:
  assumes "ms_state s = MasResting" "ms_connection_id s = Some conn"
    and "length oks = length (path_steps (ms_current_folder s) (target_folder op))" "\<forall>p \<in> set oks. pk_opcode p = RSP_OK"
    and "list_all (answer_ok 0) oks"
  shows "mas_fits (snd (start_next_op op s)) oks"
proof -
  let ?s = "s\<lparr>ms_body := assembler_with_limit MESSAGE_BODY_LIMIT, ms_output := OutputPending, ms_operation := op, ms_srm_active := False\<rparr>"
  have "snd (start_next_op op s) = snd (navigate_to conn (target_folder op) ?s)"
    using assms(1,2) by (simp add: start_next_op_def mas_connection_def)
  with assms show ?thesis
    by (cases "path_steps (ms_current_folder s) (target_folder op)")
      (auto simp: navigate_to_def intro!: walk_fits)
qed

lemma next_op_request:
  assumes "ms_state s = MasResting" "ms_connection_id s = Some conn"
  obtains req where "start_next_op op s = (Inr req, snd (start_next_op op s))"
  using assms by (cases "start_next_op op s") (auto simp: start_next_op_def mas_connection_def apfst_def map_prod_def split: prod.splits)

lemma listing_fits:
  assumes "ms_state s = MasResting" "ms_connection_id s = Some conn"
    and "length oks = length (path_steps (ms_current_folder s) (target_folder op))" "\<forall>p \<in> set oks. pk_opcode p = RSP_OK" "get_shaped op"
    and "\<forall>p \<in> set ps. pk_opcode p = RSP_CONTINUE \<and> \<not> packet_ends p" "length (concat (map packet_body (ps @ [q]))) \<le> MESSAGE_BODY_LIMIT"
    and "list_all (answer_ok 0) (oks @ ps @ [q])"
  shows "mas_fits (snd (start_next_op op s)) (oks @ ps @ [q])"
proof -
  define t where "t = foldl (\<lambda>s p. snd (mas_handle_response s p)) (snd (start_next_op op s)) oks"
  have t: "mas_getting t" "ms_body t = assembler_with_limit MESSAGE_BODY_LIMIT"
    using assms(2,5) by (simp_all add: t_def next_op_started [OF assms(1,2,5,3,4)] mas_getting_def)
  have fits: "fits_limit (ba_limit (ms_body t)) (length (ba_bytes (ms_body t)) + length (concat (map packet_body ps)))"
    using assms(7) by (simp add: t assembler_with_limit_def fits_limit_def)
  let ?u = "foldl (\<lambda>s p. snd (mas_handle_response s p)) t ps"
  have u: "mas_getting ?u" using mas_get.fetch_more [OF t(1) _ assms(6) fits] t(2) by (simp add: assembler_with_limit_def)
  have "mas_fits t (ps @ [q])"
    using assms(8) mas_getting_waits [OF u] t(2)
    by (intro fits_append mas_get.fetch_fits [OF mas_getting_waits t(1) _ assms(6) fits]) (simp_all add: answer_ok_def assembler_with_limit_def)
  then show ?thesis
    using assms(8) mas_getting_waits [OF t(1)] next_op_fits [OF assms(1-4)]
    by (simp add: fits_append t_def [symmetric])
qed

text \<open>C13 A runtime that rests on the shared multiplexer, in whatever folder its last operation left
  it, is asked for the listing of a folder.  The phone's answers, an OK for each folder change and the listing over any
  number of them, may be cut anywhere into payloads.  The application is told once, with the messages that the phone
  listed, and the runtime rests again with nothing left over.\<close>

theorem pooled_listing_delivered:
  assumes "mr_phase rt = MrRestingShared cid d session []" "shared_open cid d s"
    and "ms_state session = MasResting" "ms_connection_id session = Some conn" "ms_keep_alive session"
    and "length oks = length (path_steps (ms_current_folder session) (target_folder (ListMessages f n m)))"
      "\<forall>p \<in> set oks. pk_opcode p = RSP_OK"
    and "\<forall>p \<in> set ps. pk_opcode p = RSP_CONTINUE \<and> \<not> packet_ends p" "pk_opcode q = RSP_OK" "packet_ends q"
    and "concat (map packet_body (ps @ [q])) = utf8_encode (listing_text es)"
      "length (utf8_encode (listing_text es)) \<le> MESSAGE_BODY_LIMIT" "\<forall>e \<in> set es. list_all scalar_value (entry_chars e)"
    and "list_all (answer_ok 0) (oks @ ps @ [q])" "concat pieces = concat (map packet_encode (oks @ ps @ [q]))"
  shows "\<exists>req out rt1 rt2 session' b.
    map_start_next_op (ListMessages f n m) rt s = (Inr [req], rt1, s) \<and>
    map_consume_events (map (DlciPayload d) pieces) (rt1, s) = (Inr out, rt2, s) \<and>
    mr_pending_events rt2 = mr_pending_events rt @ [OperationCompleted (Listing b)] \<and> parse_listing b = es \<and>
    mr_phase rt2 = MrRestingShared cid d session' [] \<and> ms_state session' = MasResting"
proof -
  let ?op = "ListMessages f n m"
  let ?ans = "oks @ ps @ [q]"
  obtain req start where req: "start_next_op ?op session = (Inr req, start)" using next_op_request [OF assms(3,4)] by blast
  define t where "t = foldl (\<lambda>s p. snd (mas_handle_response s p)) start ?ans"
  define rt1 where "rt1 = rt\<lparr>mr_phase := MrDrivingMasShared cid d start []\<rparr>"
  let ?frame = "\<lambda>q. shared_frame cid (build_uih d False None q) s"
  have start: "map_start_next_op ?op rt s = (Inr [?frame req], rt1, s)"
    using req by (simp add: map_start_next_op_def assms(1) shared_send [OF assms(2)] rt1_def)
  obtain b where t: "ms_output t = Listing b" "parse_listing b = es" "ms_state t = MasResting"
    using pooled_listing_read [OF assms(3-13)] by (auto simp: t_def req Let_def)
  have fits: "mas_fits start ?ans"
    using listing_fits [OF assms(3,4,6,7) _ assms(8) _ assms(14), unfolded assms(11)] assms(12) by (simp add: req)
  have "mas_drive cid d start (concat pieces) s =
      (map ?frame (requests_made mas_handle_response start ?ans), s, if mas_stops t then DriveStop t [] else DriveOn t [])"
    unfolding assms(15) t_def by (rule drive_answers [OF fits]) (simp_all add: shared_send [OF assms(2)])
  then have "drive_pieces (mas_drive cid d) start [] pieces s =
      (map ?frame (requests_made mas_handle_response start ?ans), s, DriveStop t [])"
    using t(3) by (intro drive_pieces_stream) (simp_all add: mas_stops_by_state obex_try_take_def)
  then have "map_consume_events (map (DlciPayload d) pieces) (rt1, s) =
      (Inr (map ?frame (requests_made mas_handle_response start ?ans)),
       rt\<lparr>mr_pending_events := mr_pending_events rt @ [OperationCompleted (Listing b)], mr_phase := MrRestingShared cid d t []\<rparr>, s)"
    by (subst map_payload_events [of _ cid d start "[]"]) (simp_all add: rt1_def map_after_def t)
  with start t show ?thesis by auto
qed

theorem pooled_listing_delivered_witness:
  "\<exists>rt (s :: unit L2capState) pieces es rt1 r rt2 b.
     map_start_next_op (ListMessages Inbox 16 0xfc) rt s = (r, rt1, s) \<and>
     mr_pending_events (fst (snd (map_consume_events (map (DlciPayload 2) pieces) (rt1, s)))) = [OperationCompleted (Listing b)] \<and>
     parse_listing b = es \<and> es \<noteq> []"
proof -
  define ans where "ans op hs = \<lparr>pk_opcode = op, pk_fixed_payload = [], pk_headers = hs\<rparr>" for op :: u8 and hs
  define session where "session = (mas_new (SetNotificationRegistration True) 0)\<lparr>ms_state := MasResting, ms_connection_id := Some 7,
      ms_keep_alive := True, ms_current_folder := [lit ''telecom'', lit ''msg'', lit ''outbox'']\<rparr>"
  define es where "es = [entry_new\<lparr>me_handle := lit ''20''\<rparr>]"
  define w where "w = utf8_encode (listing_text es)"
  define p q where "p = ans 0x90 [HByteSeq 0x48 (take 9 w)]" "q = ans 0xA0 [HByteSeq 0x49 (drop 9 w)]"
  define r where "r = (server_new :: unit RfcommState)\<lparr>sv_client_dlcis :=
    [2 \<mapsto> \<lparr>cd_phase = DlciOpen, cd_msc_local_pending = False, cd_msc_remote_received = True\<rparr>]\<rparr>"
  define ch where "ch = \<lparr>ch_connection_handle = 1, ch_psm = PSM_RFCOMM, ch_local_cid = 0x40, ch_remote_cid = 0x41, ch_state = Open,
    ch_local_configured = True, ch_remote_configured = True, ch_local_config_identifier = None, ch_local_config_sent_at = None,
    ch_outbound_connect_identifier = None, ch_rfcomm_state = Some r, ch_hfp_client = None, ch_upper_handler = None\<rparr>"
  define s where "s = (l2cap_new :: unit L2capState)\<lparr>l2_channels := [(0x40, ch)]\<rparr>"
  define rt where "rt = (map_runtime_new 0 1 (SetNotificationRegistration True) 0)\<lparr>mr_phase := MrRestingShared 0x40 2 session []\<rparr>"
  define pieces where "pieces = map (\<lambda>x. [x]) (concat (map packet_encode ([ans 0xA0 [], ans 0xA0 []] @ [p] @ [q])))"
  have rt: "mr_phase rt = MrRestingShared 0x40 2 session []" "shared_open 0x40 2 s" "mr_pending_events rt = []"
    by (simp_all add: rt_def map_runtime_new_def shared_open_def s_def ch_def r_def)
  have ses: "ms_state session = MasResting" "ms_connection_id session = Some 7" "ms_keep_alive session"
    by (simp_all add: session_def)
  have steps: "length [ans 0xA0 [], ans 0xA0 []] = length (path_steps (ms_current_folder session) (target_folder (ListMessages Inbox 16 0xfc)))"
    by (simp add: session_def mas_new_def target_folder_def path_steps_def Let_def)
  have len: "length w < 1000" unfolding w_def es_def by code_simp
  have body: "concat (map packet_body ([p] @ [q])) = utf8_encode (listing_text es)" "length (utf8_encode (listing_text es)) \<le> MESSAGE_BODY_LIMIT"
    using len unfolding w_def [symmetric] by (simp_all add: packet_body_def ans_def p_q_def)
  have sc: "\<forall>e \<in> set es. list_all scalar_value (entry_chars e)"
    by (simp add: es_def entry_chars_def entry_new_def scalar_value_def)
  have fit: "list_all (answer_ok 0) ([ans 0xA0 [], ans 0xA0 []] @ [p] @ [q])"
    using len by (simp add: answer_ok_def p_q_def ans_def packet_total_def header_kind_def) linarith
  have cut: "concat pieces = concat (map packet_encode ([ans 0xA0 [], ans 0xA0 []] @ [p] @ [q]))" by (simp add: pieces_def)
  obtain req out rt1 rt2 b where "map_start_next_op (ListMessages Inbox 16 0xfc) rt s = (Inr [req], rt1, s)"
    "map_consume_events (map (DlciPayload 2) pieces) (rt1, s) = (Inr out, rt2, s)"
    "mr_pending_events rt2 = mr_pending_events rt @ [OperationCompleted (Listing b)]" "parse_listing b = es"
    using pooled_listing_delivered [OF rt(1,2) ses steps _ _ _ _ body sc fit cut]
    by (auto simp: p_q_def ans_def packet_ends_def)
  moreover have "es \<noteq> []" by (simp add: es_def)
  ultimately show ?thesis using rt(3) by (metis append_Nil fst_conv snd_conv)
qed

section \<open>Records split over several answers\<close>

text \<open>An answer with a part of the records and the state to ask for the next part with.\<close>

definition sdp_part :: "u16 \<Rightarrow> bytes \<Rightarrow> bytes \<Rightarrow> bytes" where
  "sdp_part tid al state =
     (let params = u16_be (word_of_nat (length al)) @ al @ [word_of_nat (length state)] @ state
      in 0x07 # u16_be tid @ u16_be (word_of_nat (length params)) @ params)"

lemma read_part:
  assumes "length al + length state \<le> 65000" "length state \<le> 16"
  shows "read_sdp_reply (sdp_part tid al state) =
    Reply \<lparr>rs_transaction_id = tid, rs_attribute_lists = al, rs_continuation_state = state\<rparr>"
proof -
  have n: "unat (word_of_nat (length al + length state + 3) :: u16) = length al + length state + 3"
    "unat (word_of_nat (length al) :: u16) = length al" "unat (word_of_nat (length state) :: u8) = length state"
    using assms by (simp_all add: unat_of_nat del: of_nat_add)
  have e: "sdp_part tid al state = 0x07 # u16_hi tid # u16_lo tid # u16_hi (word_of_nat (length al + length state + 3)) #
      u16_lo (word_of_nat (length al + length state + 3)) # u16_hi (word_of_nat (length al)) # u16_lo (word_of_nat (length al)) #
      al @ word_of_nat (length state) # state"
    by (simp add: sdp_part_def u16_be_def Let_def) (simp add: ac_simps)
  show ?thesis
    using n by (simp add: e read_sdp_reply_def parse_service_search_attribute_response_def
        sdp_require_len_def take_drop Let_def del: of_nat_add)
qed

text \<open>The requests for the parts after the first, and what is done with all of them.\<close>

fun part_requests :: "u16 \<Rightarrow> (bytes \<times> bytes) list \<Rightarrow> bytes list" where
  "part_requests tid [] = []"
| "part_requests tid ((al, state) # parts) =
     build_service_search_attribute_request_continued (tid + 1) UUID_MAP_MAS 0xffff state # part_requests (tid + 1) parts"

definition map_records :: "instant \<Rightarrow> u16 \<Rightarrow> bytes \<Rightarrow> MapRuntime \<times> 'w L2capState \<Rightarrow> 'w map_step" where
  "map_records now cid al x =
     (case x of (rt, s) \<Rightarrow>
      case extract_mas_channel_from_attribute_lists al rt of
        Inl e \<Rightarrow> map_fail (ProfileSdp e) (Some cid) [] rt s
      | Inr (server_channel, rt') \<Rightarrow> map_sdp_done now cid server_channel rt' s)"

lemma part_taken:
  assumes "mr_phase rt = MrAwaitingSdpResponse cid [] gathered k" "map_of (l2_channels s) cid = Some ch" "ch_state ch = Open"
    and "k < MAX_SDP_CONTINUATIONS" "length (gathered @ al) \<le> MAX_SDP_ATTRIBUTE_BYTES" "state \<noteq> []"
    and "length al + length state \<le> 65000" "length state \<le> 16"
  shows "map_consume_inbound now cid (sdp_part tid al state) rt s =
    (Inr [on_channel ch (build_service_search_attribute_request_continued (mr_sdp_transaction_id rt + 1) UUID_MAP_MAS 0xffff state)],
     rt\<lparr>mr_sdp_transaction_id := mr_sdp_transaction_id rt + 1, mr_phase := MrAwaitingSdpResponse cid [] (gathered @ al) (Suc k)\<rparr>, s)"
  using assms by (simp add: map_consume_inbound_def map_sdp_inbound_def read_part send_on_channel_def Let_def)

lemma parts_taken:
  assumes "mr_phase rt = MrAwaitingSdpResponse cid [] gathered k" "map_of (l2_channels s) cid = Some ch" "ch_state ch = Open"
    and "k + length parts \<le> MAX_SDP_CONTINUATIONS" "length (gathered @ concat (map fst parts)) \<le> MAX_SDP_ATTRIBUTE_BYTES"
    and "list_all (\<lambda>(al, state). state \<noteq> [] \<and> length state \<le> 16 \<and> length al + length state \<le> 65000) parts"
    and "length last_part \<le> 65000"
  shows "map_consume_all now (map (\<lambda>(al, state). (cid, sdp_part tid al state)) parts @ [(cid, sdp_part tid last_part [])]) (rt, s) =
    chain (map_records now cid (gathered @ concat (map fst parts) @ last_part))
      (Inr (map (on_channel ch) (part_requests (mr_sdp_transaction_id rt) parts)),
       rt\<lparr>mr_sdp_transaction_id := mr_sdp_transaction_id rt + word_of_nat (length parts), mr_phase := MrDone\<rparr>, s)"
  using assms(1,4-6)
proof (induction parts arbitrary: rt gathered k)
  case Nil
  then show ?case
    using assms(7) by (simp add: map_consume_all_def map_consume_inbound_def map_sdp_inbound_def read_part map_records_def Let_def
        split: sum.splits prod.splits)
next
  case (Cons part parts)
  obtain al state where part: "part = (al, state)" by (cases part)
  let ?rt = "rt\<lparr>mr_sdp_transaction_id := mr_sdp_transaction_id rt + 1, mr_phase := MrAwaitingSdpResponse cid [] (gathered @ al) (Suc k)\<rparr>"
  have step: "map_consume_inbound now cid (sdp_part tid al state) rt s =
      (Inr [on_channel ch (build_service_search_attribute_request_continued (mr_sdp_transaction_id rt + 1) UUID_MAP_MAS 0xffff state)], ?rt, s)"
    using Cons.prems part by (intro part_taken [OF Cons.prems(1) assms(2,3)]) auto
  have "map_consume_all now (map (\<lambda>(al, state). (cid, sdp_part tid al state)) parts @ [(cid, sdp_part tid last_part [])]) (?rt, s) =
      chain (map_records now cid ((gathered @ al) @ concat (map fst parts) @ last_part))
        (Inr (map (on_channel ch) (part_requests (mr_sdp_transaction_id ?rt) parts)),
         ?rt\<lparr>mr_sdp_transaction_id := mr_sdp_transaction_id ?rt + word_of_nat (length parts), mr_phase := MrDone\<rparr>, s)"
    by (rule Cons.IH) (use Cons.prems part in auto)
  moreover obtain r x where "map_records now cid (gathered @ al @ concat (map fst parts) @ last_part)
      (rt\<lparr>mr_sdp_transaction_id := mr_sdp_transaction_id rt + 1 + word_of_nat (length parts), mr_phase := MrDone\<rparr>, s) = (r, x)"
    by (metis surj_pair)
  ultimately show ?case using step part by (cases r) (simp_all add: map_consume_all_def add.assoc [symmetric])
qed

text \<open>C14 A phone may answer the record search in parts, up to sixteen continuations and sixty-four
  kilobytes of records.  The runtime asks for each part with the state the phone gave, under a transaction of its own,
  and then goes on exactly as it would from the parts put together: to the channel that carries text messages, with its
  instance, or to the failure that the whole list gives.\<close>

theorem split_records_gathered:
  assumes "mr_phase rt = MrAwaitingSdpResponse cid [] [] 0" "map_of (l2_channels s) cid = Some ch" "ch_state ch = Open"
    and "length parts \<le> MAX_SDP_CONTINUATIONS" "length (concat (map fst parts)) \<le> MAX_SDP_ATTRIBUTE_BYTES"
    and "list_all (\<lambda>(al, state). state \<noteq> [] \<and> length state \<le> 16 \<and> length al + length state \<le> 65000) parts"
    and "length last_part \<le> 65000"
  shows "map_consume_all now (map (\<lambda>(al, state). (cid, sdp_part tid al state)) parts @ [(cid, sdp_part tid last_part [])]) (rt, s) =
    chain (map_records now cid (concat (map fst parts) @ last_part))
      (Inr (map (on_channel ch) (part_requests (mr_sdp_transaction_id rt) parts)),
       rt\<lparr>mr_sdp_transaction_id := mr_sdp_transaction_id rt + word_of_nat (length parts), mr_phase := MrDone\<rparr>, s)"
  using parts_taken [OF assms(1-3) _ _ assms(6,7)] assms(4,5) by simp

theorem split_records_gathered_witness:
  "\<exists>rt (s :: unit L2capState) (ch :: unit L2capChannel). map_consume_all 0 [(0x40, sdp_part 1 [1] [7]), (0x40, sdp_part 1 [2] [])] (rt, s) =
    chain (map_records 0 0x40 [1, 2])
      (Inr [on_channel ch (build_service_search_attribute_request_continued 2 UUID_MAP_MAS 0xffff [7])],
       rt\<lparr>mr_sdp_transaction_id := 2, mr_phase := MrDone\<rparr>, s)"
proof -
  define ch where "ch = \<lparr>ch_connection_handle = 1, ch_psm = PSM_SDP, ch_local_cid = 0x40, ch_remote_cid = 0x41, ch_state = Open,
    ch_local_configured = True, ch_remote_configured = True, ch_local_config_identifier = None, ch_local_config_sent_at = None,
    ch_outbound_connect_identifier = None, ch_rfcomm_state = None :: unit RfcommState option, ch_hfp_client = None, ch_upper_handler = None\<rparr>"
  define s where "s = (l2cap_new :: unit L2capState)\<lparr>l2_channels := [(0x40, ch)]\<rparr>"
  define rt where "rt = (map_runtime_new 0 1 (SetNotificationRegistration True) 0)\<lparr>mr_phase := MrAwaitingSdpResponse 0x40 [] [] 0\<rparr>"
  have "mr_phase rt = MrAwaitingSdpResponse 0x40 [] [] 0" "map_of (l2_channels s) 0x40 = Some ch" "ch_state ch = Open"
      "mr_sdp_transaction_id rt = 1"
    by (simp_all add: rt_def s_def ch_def map_runtime_new_def)
  with split_records_gathered [of rt "0x40" s ch "[([1], [7])]" "[2]" 0 1] show ?thesis
    by (intro exI [of _ rt] exI [of _ s] exI [of _ ch]) simp
qed

text \<open>Whatever the phone sends, the gathering stays within its bounds.\<close>

fun gathering_bounded :: "MapRuntimePhase \<Rightarrow> bool" where
  "gathering_bounded (MrAwaitingSdpResponse _ _ gathered n) =
     (length gathered \<le> MAX_SDP_ATTRIBUTE_BYTES \<and> n \<le> MAX_SDP_CONTINUATIONS)"
| "gathering_bounded _ = True"

lemma gathering_stays_bounded:
  assumes "gathering_bounded (mr_phase rt)"
  shows "gathering_bounded (mr_phase (fst (snd (map_consume_inbound now cid bytes rt s))))"
proof -
  have fail: "gathering_bounded (mr_phase (fst (snd (map_fail e c out rt' s'))))" for e c out rt' and s' :: "'a L2capState"
    by (simp add: map_fail_def Let_def split_beta)
  have "gathering_bounded (mr_phase (fst (snd (map_sdp_done now c ch rt' s'))))" for c ch rt' and s' :: "'a L2capState"
    using fail by (auto simp: map_sdp_done_def Let_def split_beta split: option.splits sum.splits)
  moreover have "gathering_bounded (mr_phase (fst (snd (map_rfcomm_events c evs cl out rt' s'))))"
    if "mr_phase rt' = MrDone" for c evs cl out rt' and s' :: "'a L2capState"
    using that fail
    by (induction evs arbitrary: cl out) (auto split: RfcommClientEvent.splits sum.splits prod.splits option.splits)
  moreover have "gathering_bounded (mr_phase (fst (snd (map_after c close (MrDrivingMas d e) (MrResting d e) out v rt' s'))))"
    if "mr_phase rt' = MrDone" for c close d e out v rt' and s' :: "'a L2capState"
    using that fail by (auto simp: map_after_def Let_def split_beta split: driven.splits MasState.splits)
  moreover from this have "gathering_bounded (mr_phase (fst (snd (map_session_events c evs cl ses b out rt' s'))))"
    if "mr_phase rt' = MrDone" for c evs cl ses b out rt' and s' :: "'a L2capState"
    using that fail
    by (induction evs arbitrary: cl ses b out s') (auto split: RfcommClientEvent.splits sum.splits prod.splits driven.splits)
  ultimately show ?thesis
    using assms fail
    by (auto simp: map_consume_inbound_def map_sdp_inbound_def Let_def
        split: MapRuntimePhase.splits SdpReply.splits sum.splits prod.splits)
qed

text \<open>A runtime that rests on a channel of its own does not look at what arrives there: a phone that closes the channel
  gets no answer and the runtime goes on resting.\<close>

lemma resting_ignores_channel:
  "mr_phase rt = MrResting cid client session buffer \<Longrightarrow> map_consume_inbound now cid bytes rt s = (Inr [], rt, s)"
  by (simp add: map_consume_inbound_def)

end
