(* ===== verification/Map_Mns.thy ===== *)
theory Map_Mns
  imports Obex_Get Map_Listing
begin

text \<open>
  \<open>aokie_radio/map_mns.rs\<close>: the server the phone reports its events to.  The octets of its channel are cut into
  packets, a report may span several PUT packets, and one that is left unfinished for thirty seconds is let go.  The
  clock is an argument (milliseconds); of the reason of a failure the model keeps the cause, not the text.
\<close>

section \<open>State\<close>

datatype mns_failure =
    MnsHeaderMalformed nat
  | MnsParseFailed obex_error
  | MnsWrongTarget
  | MnsWrongConnection "u32 option" "u32 option"
  | MnsBodyRefused obex_error

datatype MnsState = MnsAwaitingConnect | MnsConnected | MnsAssemblingPut | MnsDisconnected | MnsFailed mns_failure

datatype MnsEvent =
    NewMessage rstr "rstr option" "rstr option"
  | OtherEvent rstr "rstr option"
  | Unparseable rstr

record MnsServer =
  mn_state :: MnsState
  mn_connection_id :: "u32 option"
  mn_body :: BodyAssembler
  mn_pending_events :: "MnsEvent list"
  mn_obex_buffer :: bytes
  mn_put_chunk_at :: "nat option"

definition MNS_TARGET_UUID :: bytes where
  "MNS_TARGET_UUID =
     [0xbb, 0x58, 0x2b, 0x41, 0x42, 0x0c, 0x11, 0xdb, 0xb0, 0xde, 0x08, 0x00, 0x20, 0x0c, 0x9a, 0x66]"

definition MNS_MAX_PACKET_LENGTH :: u16 where
  "MNS_MAX_PACKET_LENGTH = 0x4000"

definition TYPE_EVENT_REPORT :: bytes where
  "TYPE_EVENT_REPORT = utf8_encode (lit ''x-bt/MAP-event-report'')"

definition ASSIGNED_CONNECTION_ID :: u32 where
  "ASSIGNED_CONNECTION_ID = 0xa04c1e01"

abbreviation (input) PUT_CHAIN_DEADLINE :: nat where "PUT_CHAIN_DEADLINE \<equiv> 30000"

definition mns_body_new :: BodyAssembler where
  "mns_body_new = assembler_with_limit NOTIFICATION_BODY_LIMIT"

definition mns_new :: MnsServer where
  "mns_new = \<lparr>mn_state = MnsAwaitingConnect, mn_connection_id = None, mn_body = mns_body_new,
     mn_pending_events = [], mn_obex_buffer = [], mn_put_chunk_at = None\<rparr>"

definition mns_reset :: "MnsServer \<Rightarrow> MnsServer" where
  "mns_reset s = s\<lparr>mn_state := MnsAwaitingConnect, mn_connection_id := None, mn_body := mns_body_new,
     mn_put_chunk_at := None, mn_obex_buffer := []\<rparr>"

definition mns_take_events :: "MnsServer \<Rightarrow> MnsEvent list \<times> MnsServer" where
  "mns_take_events s = (mn_pending_events s, s\<lparr>mn_pending_events := []\<rparr>)"

definition expire_stale_put :: "nat \<Rightarrow> MnsServer \<Rightarrow> bool \<times> MnsServer" where
  "expire_stale_put now s =
     (if mn_state s = MnsAssemblingPut \<and>
         (case mn_put_chunk_at s of Some at \<Rightarrow> now - at \<ge> PUT_CHAIN_DEADLINE | None \<Rightarrow> False)
      then (True, s\<lparr>mn_body := mns_body_new, mn_put_chunk_at := None, mn_state := MnsConnected\<rparr>)
      else (False, s))"

section \<open>Event reports\<close>

function find_event_open_tag :: "rstr \<Rightarrow> rstr option" where
  "find_event_open_tag t =
     (case split_once_str (lit ''<event'') t of
        None \<Rightarrow> None
      | Some (_, after) \<Rightarrow>
          if after = [] then None
          else if tag_ends (hd after) then Some after
          else find_event_open_tag after)"
  by pat_completeness auto
termination
  by (relation "measure length") (auto dest!: split_once_str_Some)

declare find_event_open_tag.simps [simp del]

record EventFields =
  ef_type :: "rstr option"
  ef_handle :: "rstr option"
  ef_folder :: "rstr option"
  ef_msg_type :: "rstr option"

definition event_field :: "EventFields \<Rightarrow> rstr \<times> rstr \<Rightarrow> EventFields" where
  "event_field f a =
     (case a of (name, v) \<Rightarrow>
        if name = lit ''type'' then f\<lparr>ef_type := Some v\<rparr>
        else if name = lit ''handle'' then f\<lparr>ef_handle := Some v\<rparr>
        else if name = lit ''folder'' then f\<lparr>ef_folder := Some v\<rparr>
        else if name = lit ''msg_type'' then f\<lparr>ef_msg_type := Some v\<rparr>
        else f)"

definition parse_event_report :: "bytes \<Rightarrow> MnsEvent" where
  "parse_event_report input =
     (case find_event_open_tag (utf8_lossy input) of
        None \<Rightarrow> Unparseable (lit ''no <event> element'')
      | Some after \<Rightarrow>
          (case element_end after of
             None \<Rightarrow> Unparseable (lit ''<event> tag was never closed'')
           | Some (section, _) \<Rightarrow>
               (let f = foldl event_field \<lparr>ef_type = None, ef_handle = None, ef_folder = None, ef_msg_type = None\<rparr>
                  (attributes section)
                in case ef_type f of
                     None \<Rightarrow> Unparseable (lit ''<event> missing type attribute'')
                   | Some ty \<Rightarrow>
                       (case ef_handle f of
                          Some handle \<Rightarrow>
                            if ty = lit ''NewMessage'' then NewMessage handle (ef_folder f) (ef_msg_type f)
                            else OtherEvent ty (Some handle)
                        | None \<Rightarrow> OtherEvent ty None))))"

section \<open>Requests\<close>

definition build_simple_response :: "u8 \<Rightarrow> bytes" where
  "build_simple_response opcode = packet_encode \<lparr>pk_opcode = opcode, pk_fixed_payload = [], pk_headers = []\<rparr>"

definition mns_handle_connect :: "MnsServer \<Rightarrow> Packet \<Rightarrow> bytes \<times> MnsServer" where
  "mns_handle_connect s p =
     (let target_ok = (case packet_header p HDR_TARGET of Some (HByteSeq _ v) \<Rightarrow> v = MNS_TARGET_UUID | _ \<Rightarrow> False)
      in if \<not> target_ok then
           (build_connect_response RSP_BAD_REQUEST MNS_MAX_PACKET_LENGTH None None, s\<lparr>mn_state := MnsFailed MnsWrongTarget\<rparr>)
         else
           (build_connect_response RSP_OK MNS_MAX_PACKET_LENGTH (Some ASSIGNED_CONNECTION_ID) (Some MNS_TARGET_UUID),
            s\<lparr>mn_connection_id := Some ASSIGNED_CONNECTION_ID, mn_state := MnsConnected\<rparr>))"

definition mns_handle_disconnect :: "MnsServer \<Rightarrow> bytes \<times> MnsServer" where
  "mns_handle_disconnect s = (build_simple_response RSP_OK, s\<lparr>mn_state := MnsDisconnected\<rparr>)"

definition report_type :: "Packet \<Rightarrow> bool" where
  "report_type p =
     (case packet_header p HDR_TYPE of
        Some (HByteSeq _ v) \<Rightarrow> takeWhile (\<lambda>b. b \<noteq> 0) v = TYPE_EVENT_REPORT
      | _ \<Rightarrow> False)"

definition mns_handle_put :: "nat \<Rightarrow> MnsServer \<Rightarrow> Packet \<Rightarrow> bool \<Rightarrow> bytes \<times> MnsServer" where
  "mns_handle_put now s0 p is_final =
     (if mn_state s0 \<noteq> MnsConnected \<and> mn_state s0 \<noteq> MnsAssemblingPut then (build_simple_response RSP_SERVICE_UNAVAILABLE, s0)
      else
        let s = snd (expire_stale_put now s0); conn_id = answer_connection_id p in
        if conn_id \<noteq> mn_connection_id s then
          (build_simple_response RSP_BAD_REQUEST, s\<lparr>mn_state := MnsFailed (MnsWrongConnection conn_id (mn_connection_id s))\<rparr>)
        else if mn_state s = MnsConnected \<and> \<not> report_type p then (build_simple_response RSP_NOT_FOUND, s)
        else
          (case assembler_push (mn_body s) p of
             (Inl reason, _) \<Rightarrow>
               (build_simple_response RSP_BAD_REQUEST,
                s\<lparr>mn_body := mns_body_new, mn_put_chunk_at := None, mn_state := MnsFailed (MnsBodyRefused reason)\<rparr>)
           | (Inr _, body) \<Rightarrow>
               if \<not> is_final then
                 (build_simple_response RSP_CONTINUE,
                  s\<lparr>mn_body := body, mn_put_chunk_at := Some now, mn_state := MnsAssemblingPut\<rparr>)
               else
                 (build_simple_response RSP_OK,
                  s\<lparr>mn_put_chunk_at := None, mn_body := mns_body_new,
                    mn_pending_events := mn_pending_events s @ [parse_event_report (ba_bytes body)],
                    mn_state := MnsConnected\<rparr>)))"

definition mns_handle_request :: "nat \<Rightarrow> MnsServer \<Rightarrow> Packet \<Rightarrow> bytes \<times> MnsServer" where
  "mns_handle_request now s p =
     (let base = pk_opcode p AND 0x7f in
      if base = OP_CONNECT AND 0x7f then mns_handle_connect s p
      else if base = OP_DISCONNECT AND 0x7f then mns_handle_disconnect s
      else if base = OP_PUT then mns_handle_put now s p (pk_opcode p AND 0x80 \<noteq> 0)
      else (build_simple_response RSP_NOT_IMPLEMENTED, s))"

section \<open>The stream\<close>

definition mns_try_take :: "bytes \<Rightarrow> nat + nat option" where
  "mns_try_take buffer =
     (if length buffer < 3 then Inr None
      else
        let len = unat (u16_from_be_bytes (buffer ! 1) (buffer ! 2)) in
        if len < 3 then Inl len
        else if len > unat MNS_MAX_PACKET_LENGTH then Inl len
        else if length buffer < len then Inr None
        else Inr (Some len))"

lemma request_keeps_buffer [simp]: "mn_obex_buffer (snd (mns_handle_request now s p)) = mn_obex_buffer s"
  by (auto simp: mns_handle_request_def mns_handle_connect_def mns_handle_disconnect_def mns_handle_put_def
      expire_stale_put_def Let_def split: prod.split sum.split)

lemma try_take_bounds: "mns_try_take b = Inr (Some n) \<Longrightarrow> 3 \<le> n \<and> n \<le> length b"
  by (auto simp: mns_try_take_def Let_def split: if_splits)

function mns_drain :: "nat \<Rightarrow> MnsServer \<Rightarrow> bytes list \<times> MnsServer" where
  "mns_drain now s =
     (case mns_try_take (mn_obex_buffer s) of
        Inr None \<Rightarrow> ([], s)
      | Inl len \<Rightarrow>
          ([build_simple_response RSP_BAD_REQUEST],
           s\<lparr>mn_obex_buffer := [], mn_body := mns_body_new, mn_put_chunk_at := None,
             mn_state := MnsFailed (MnsHeaderMalformed len)\<rparr>)
      | Inr (Some n) \<Rightarrow>
          (let packet_bytes = take n (mn_obex_buffer s);
               s1 = s\<lparr>mn_obex_buffer := drop n (mn_obex_buffer s)\<rparr>;
               fixed = (if hd packet_bytes AND 0x7f = OP_CONNECT AND 0x7f then FixedConnect else FixedNone)
           in case packet_parse packet_bytes fixed of
                Inl reason \<Rightarrow> ([build_simple_response RSP_BAD_REQUEST], s1\<lparr>mn_state := MnsFailed (MnsParseFailed reason)\<rparr>)
              | Inr p \<Rightarrow>
                  (case mns_handle_request now s1 p of
                     (reply, s2) \<Rightarrow> (case mns_drain now s2 of (replies, s3) \<Rightarrow> (reply # replies, s3)))))"
  by pat_completeness auto
termination
proof (relation "measure (\<lambda>(now, s). length (mn_obex_buffer s))", goal_cases)
  case (2 now s c n pb s1 fixed p r s2)
  have "mn_obex_buffer s2 = mn_obex_buffer s1" using request_keeps_buffer [of now s1 p] 2 by (metis snd_conv)
  moreover have "3 \<le> n \<and> n \<le> length (mn_obex_buffer s)" using 2 try_take_bounds by metis
  ultimately show ?case using 2 by (simp, linarith)
qed simp

declare mns_drain.simps [simp del]

definition mns_feed_bytes :: "nat \<Rightarrow> bytes \<Rightarrow> MnsServer \<Rightarrow> bytes list \<times> MnsServer" where
  "mns_feed_bytes now bytes s = mns_drain now (s\<lparr>mn_obex_buffer := mn_obex_buffer s @ bytes\<rparr>)"

section \<open>However the stream is cut\<close>

text \<open>A packet the server takes off its buffer as it was sent.\<close>

definition takes_packet :: "Packet \<Rightarrow> bool" where
  "takes_packet p =
     (length (pk_fixed_payload p) = fixed_len (if pk_opcode p AND 0x7f = 0 then FixedConnect else FixedNone) \<and>
      list_all header_ok (pk_headers p) \<and> packet_total p \<le> 0x4000)"

lemma encode_front: "packet_total p < 65536 \<Longrightarrow>
    \<exists>hi lo r. packet_encode p = pk_opcode p # hi # lo # r \<and> unat (u16_from_be_bytes hi lo) = packet_total p \<and>
      length (packet_encode p) = packet_total p"
proof -
  assume a: "packet_total p < 65536"
  have "packet_encode p = pk_opcode p # u16_hi (word_of_nat (packet_total p)) # u16_lo (word_of_nat (packet_total p)) #
      pk_fixed_payload p @ concat (map header_encode (pk_headers p))"
    by (simp add: packet_encode_def packet_total_def length_headers u16_be_def Let_def)
  then show ?thesis using be_field [OF a] by (auto simp: packet_total_def length_headers)
qed

lemma try_take_packet:
  assumes "takes_packet p"
  shows "mns_try_take (packet_encode p @ rest) = Inr (Some (packet_total p))"
    and "k < packet_total p \<Longrightarrow> mns_try_take (take k (packet_encode p)) = Inr None"
    and "length (packet_encode p) = packet_total p" and "hd (packet_encode p) = pk_opcode p"
proof -
  obtain hi lo r where e: "packet_encode p = pk_opcode p # hi # lo # r" "unat (u16_from_be_bytes hi lo) = packet_total p"
      "length (packet_encode p) = packet_total p"
    using encode_front [of p] assms by (auto simp: takes_packet_def)
  have t: "3 \<le> packet_total p" "packet_total p \<le> 0x4000" using assms by (simp_all add: takes_packet_def packet_total_def)
  show "mns_try_take (packet_encode p @ rest) = Inr (Some (packet_total p))"
    using t e by (simp add: mns_try_take_def MNS_MAX_PACKET_LENGTH_def)
  show "mns_try_take (take k (packet_encode p)) = Inr None" if "k < packet_total p"
  proof (cases "k < 3")
    case False
    then have "k = Suc (Suc (Suc (k - 3)))" by simp
    then obtain m where "k = Suc (Suc (Suc m))" by blast
    with t e that show ?thesis by (auto simp: mns_try_take_def MNS_MAX_PACKET_LENGTH_def min_def)
  qed (auto simp: mns_try_take_def min_def)
  show "length (packet_encode p) = packet_total p" by (fact e(3))
  show "hd (packet_encode p) = pk_opcode p" using e by simp
qed

fun mns_serve :: "nat \<Rightarrow> MnsServer \<Rightarrow> Packet list \<Rightarrow> bytes list \<times> MnsServer" where
  "mns_serve now s [] = ([], s)"
| "mns_serve now s (p # ps) =
     (case mns_handle_request now s p of (r, s') \<Rightarrow> case mns_serve now s' ps of (rs, s'') \<Rightarrow> (r # rs, s''))"

lemma mns_serve_append:
  "mns_serve now s (ps @ qs) =
     (fst (mns_serve now s ps) @ fst (mns_serve now (snd (mns_serve now s ps)) qs),
      snd (mns_serve now (snd (mns_serve now s ps)) qs))"
  by (induction ps arbitrary: s) (simp_all add: split_beta)

text \<open>The server apart from its buffer and from when the last packet came.\<close>

definition mns_core :: "MnsServer \<Rightarrow> MnsServer" where
  "mns_core s = s\<lparr>mn_obex_buffer := [], mn_put_chunk_at := None\<rparr>"

definition chain_since :: "nat \<Rightarrow> MnsServer \<Rightarrow> bool" where
  "chain_since t0 s = (case mn_put_chunk_at s of Some at \<Rightarrow> t0 \<le> at | None \<Rightarrow> True)"

lemma request_core:
  assumes "chain_since t0 s" "t0 \<le> now" "now < t0 + 30000"
  shows "fst (mns_handle_request now s p) = fst (mns_handle_request t0 (mns_core s) p)"
    and "mns_core (snd (mns_handle_request now s p)) = mns_core (snd (mns_handle_request t0 (mns_core s) p))"
    and "chain_since t0 (snd (mns_handle_request now s p))"
proof -
  have e: "snd (expire_stale_put now s) = s" "snd (expire_stale_put t0 (mns_core s)) = mns_core s"
    using assms by (auto simp: expire_stale_put_def chain_since_def mns_core_def split: option.splits)
  show "fst (mns_handle_request now s p) = fst (mns_handle_request t0 (mns_core s) p)"
    and "mns_core (snd (mns_handle_request now s p)) = mns_core (snd (mns_handle_request t0 (mns_core s) p))"
    and "chain_since t0 (snd (mns_handle_request now s p))"
    using assms unfolding mns_handle_request_def mns_handle_put_def e
    by (auto simp: mns_handle_connect_def mns_handle_disconnect_def Let_def mns_core_def chain_since_def split: prod.split sum.split)
qed

lemma drain_one:
  assumes "takes_packet p" "mn_obex_buffer s = packet_encode p @ rest"
  shows "mns_drain now s =
    (let h = mns_handle_request now (s\<lparr>mn_obex_buffer := rest\<rparr>) p; d = mns_drain now (snd h) in (fst h # fst d, snd d))"
proof -
  have "packet_parse (packet_encode p @ []) (if pk_opcode p AND 0x7f = 0 then FixedConnect else FixedNone) = Inr p"
    using assms(1) by (intro packet_roundtrip) (auto simp: takes_packet_def)
  with try_take_packet [OF assms(1)] show ?thesis
    by (subst mns_drain.simps) (simp add: assms(2) Let_def split_beta)
qed

lemma serve_core:
  "chain_since t0 s \<Longrightarrow>
     fst (mns_serve t0 s ps) = fst (mns_serve t0 (mns_core s) ps) \<and>
     mns_core (snd (mns_serve t0 s ps)) = mns_core (snd (mns_serve t0 (mns_core s) ps))"
proof (induction ps arbitrary: s)
  case (Cons p ps)
  let ?a = "snd (mns_handle_request t0 s p)" and ?b = "snd (mns_handle_request t0 (mns_core s) p)"
  have c: "chain_since t0 (mns_core s)" by (simp add: chain_since_def mns_core_def)
  have "chain_since t0 ?a" "chain_since t0 ?b"
    using request_core(3) [OF Cons.prems, of t0 p] request_core(3) [OF c, of t0 p] by simp_all
  with Cons.IH [of ?a] Cons.IH [of ?b] request_core(1,2) [OF Cons.prems, of t0 p] show ?case
    by (simp add: split_beta)
qed (simp add: mns_core_def)

text \<open>What one piece of the stream does: it serves the packets it completes, and keeps a part of the next one.\<close>

definition awaits :: "bytes \<Rightarrow> Packet list \<Rightarrow> bool" where
  "awaits buf ps = (case ps of [] \<Rightarrow> buf = [] | p # _ \<Rightarrow> length buf < packet_total p)"

lemma drain_stream:
  assumes "list_all takes_packet ps" "mn_obex_buffer s @ later = concat (map packet_encode ps)"
    and "chain_since t0 s" "t0 \<le> now" "now < t0 + 30000"
  shows "\<exists>done rest. ps = done @ rest \<and> mn_obex_buffer (snd (mns_drain now s)) @ later = concat (map packet_encode rest) \<and>
    awaits (mn_obex_buffer (snd (mns_drain now s))) rest \<and> chain_since t0 (snd (mns_drain now s)) \<and>
    fst (mns_drain now s) = fst (mns_serve t0 (mns_core s) done) \<and>
    mns_core (snd (mns_drain now s)) = mns_core (snd (mns_serve t0 (mns_core s) done))"
  using assms(1-3)
proof (induction ps arbitrary: s)
  case Nil
  then have "mns_drain now s = ([], s)" by (subst mns_drain.simps) (simp add: mns_try_take_def)
  with Nil show ?case by (simp add: awaits_def mns_core_def)
next
  case (Cons p ps)
  have p: "takes_packet p" using Cons.prems by simp
  note tp = try_take_packet [OF p]
  show ?case
  proof (cases "length (mn_obex_buffer s) < packet_total p")
    case True
    have "mn_obex_buffer s = take (length (mn_obex_buffer s)) (packet_encode p)"
      using Cons.prems(2) True tp(3) by (metis append_eq_append_conv_if append_eq_conv_conj concat.simps(2) less_imp_le list.simps(9) take_all_iff take_append)
    then have "mns_try_take (mn_obex_buffer s) = Inr None" using tp(2) [OF True] by simp
    then have "mns_drain now s = ([], s)" by (subst mns_drain.simps) simp
    with True Cons.prems show ?thesis by (intro exI [of _ "[]"] exI [of _ "p # ps"]) (simp add: awaits_def mns_core_def)
  next
    case False
    define rest where "rest = drop (packet_total p) (mn_obex_buffer s)"
    have "take (packet_total p) (mn_obex_buffer s) = packet_encode p"
      using arg_cong [OF Cons.prems(2), of "take (packet_total p)"] False tp(3) by simp
    then have buf: "mn_obex_buffer s = packet_encode p @ rest" by (metis append_take_drop_id rest_def)
    let ?h = "mns_handle_request now (s\<lparr>mn_obex_buffer := rest\<rparr>) p"
    have s: "chain_since t0 (s\<lparr>mn_obex_buffer := rest\<rparr>)" using Cons.prems(3) by (simp add: chain_since_def)
    have core: "mns_core (s\<lparr>mn_obex_buffer := rest\<rparr>) = mns_core s" by (simp add: mns_core_def)
    note h = request_core [OF s assms(4,5), of p, unfolded core]
    have "mn_obex_buffer (snd ?h) @ later = concat (map packet_encode ps)" using Cons.prems(2) buf by simp
    from Cons.IH [OF _ this h(3)] Cons.prems(1) obtain "done" rest' where d:
      "ps = done @ rest'" "mn_obex_buffer (snd (mns_drain now (snd ?h))) @ later = concat (map packet_encode rest')"
      "awaits (mn_obex_buffer (snd (mns_drain now (snd ?h)))) rest'" "chain_since t0 (snd (mns_drain now (snd ?h)))"
      "fst (mns_drain now (snd ?h)) = fst (mns_serve t0 (mns_core (snd ?h)) done)"
      "mns_core (snd (mns_drain now (snd ?h))) = mns_core (snd (mns_serve t0 (mns_core (snd ?h)) done))"
      by auto
    let ?c = "snd (mns_handle_request t0 (mns_core s) p)"
    have "chain_since t0 (mns_core s)" by (simp add: chain_since_def mns_core_def)
    then have "chain_since t0 ?c" using request_core(3) [of t0 "mns_core s" t0 p] by simp
    from serve_core [OF this, of "done"] d(5,6) h(1,2) drain_one [OF p buf, of now] d(1-4) show ?thesis
      by (intro exI [of _ "p # done"] exI [of _ rest']) (simp add: Let_def split_beta)
  qed
qed

fun mns_feeds :: "MnsServer \<Rightarrow> (nat \<times> bytes) list \<Rightarrow> bytes list \<times> MnsServer" where
  "mns_feeds s [] = ([], s)"
| "mns_feeds s ((now, c) # fs) =
     (case mns_feed_bytes now c s of (rs, s') \<Rightarrow> case mns_feeds s' fs of (rs', s'') \<Rightarrow> (rs @ rs', s''))"

lemma feeds_stream:
  assumes "list_all takes_packet ps" "mn_obex_buffer s @ concat (map snd fs) = concat (map packet_encode ps)"
    and "awaits (mn_obex_buffer s) ps" "chain_since t0 s" "\<forall>(now, c) \<in> set fs. t0 \<le> now \<and> now < t0 + 30000"
  shows "fst (mns_feeds s fs) = fst (mns_serve t0 (mns_core s) ps) \<and>
    mns_core (snd (mns_feeds s fs)) = mns_core (snd (mns_serve t0 (mns_core s) ps)) \<and>
    mn_obex_buffer (snd (mns_feeds s fs)) = []"
  using assms
proof (induction fs arbitrary: s ps)
  case Nil
  have "ps = []"
  proof (cases ps)
    case (Cons p qs)
    with Nil try_take_packet(3) [of p] show ?thesis by (simp add: awaits_def)
  qed simp
  with Nil show ?case by (simp add: mns_core_def)
next
  case (Cons f fs)
  obtain now c where f: "f = (now, c)" by (cases f)
  let ?s = "s\<lparr>mn_obex_buffer := mn_obex_buffer s @ c\<rparr>"
  let ?d = "mns_drain now ?s"
  have core: "mns_core ?s = mns_core s" by (simp add: mns_core_def)
  have "mn_obex_buffer ?s @ concat (map snd fs) = concat (map packet_encode ps)" "chain_since t0 ?s" "t0 \<le> now" "now < t0 + 30000"
    using Cons.prems by (auto simp: f chain_since_def)
  from drain_stream [OF Cons.prems(1) this, unfolded core] obtain "done" rest where d:
    "ps = done @ rest" "mn_obex_buffer (snd ?d) @ concat (map snd fs) = concat (map packet_encode rest)"
    "awaits (mn_obex_buffer (snd ?d)) rest" "chain_since t0 (snd ?d)"
    "fst ?d = fst (mns_serve t0 (mns_core s) done)" "mns_core (snd ?d) = mns_core (snd (mns_serve t0 (mns_core s) done))"
    by blast
  have IH: "fst (mns_feeds (snd ?d) fs) = fst (mns_serve t0 (mns_core (snd ?d)) rest) \<and>
      mns_core (snd (mns_feeds (snd ?d) fs)) = mns_core (snd (mns_serve t0 (mns_core (snd ?d)) rest)) \<and>
      mn_obex_buffer (snd (mns_feeds (snd ?d) fs)) = []"
    by (rule Cons.IH) (use Cons.prems d in auto)
  have "chain_since t0 (snd (mns_serve t0 r qs))" if "chain_since t0 r" for r qs
    using that
  proof (induction qs arbitrary: r)
    case (Cons q qs)
    then show ?case using request_core(3) [of t0 r t0 q] by (simp add: split_beta)
  qed simp
  then have "chain_since t0 (snd (mns_serve t0 (mns_core s) done))" by (simp add: chain_since_def mns_core_def)
  from serve_core [OF this, of rest] IH d(5,6) show ?case
    by (simp add: f mns_feed_bytes_def split_beta d(1) mns_serve_append)
qed

section \<open>Reports\<close>

text \<open>An event as the phone writes it, and its PUT packets: the type is on the first one only, the body is in pieces,
  the last under the final bit.\<close>

definition event_text :: "rstr \<Rightarrow> rstr option \<Rightarrow> rstr option \<Rightarrow> rstr" where
  "event_text handle folder msg_type =
     lit ''<MAP-event-report version='' @ [34] @ lit ''1.0'' @ [34, 62] @ lit ''<event'' @
     attrs_text ([(lit ''type'', lit ''NewMessage''), (lit ''handle'', handle)] @ opt_attr ''folder'' folder @
       opt_attr ''msg_type'' msg_type) @ [62] @ lit ''</MAP-event-report>''"

lemma event_skip: "strip_prefix (lit ''<event'') (c # s) = None \<Longrightarrow> find_event_open_tag (c # s) = find_event_open_tag s"
  by (subst (1 2) find_event_open_tag.simps, subst split_once_str.simps) (auto split: option.split)

lemma event_found: "find_event_open_tag (lit ''<event'' @ 32 # s) = Some (32 # s)"
  by (subst find_event_open_tag.simps, subst split_once_str.simps)
    (simp add: tag_ends_def is_ascii_whitespace_def del: lit_simps)

lemma event_read:
  assumes "list_all scalar_value (handle @ (case folder of Some v \<Rightarrow> v | None \<Rightarrow> []) @ (case msg_type of Some v \<Rightarrow> v | None \<Rightarrow> []))"
  shows "parse_event_report (utf8_encode (event_text handle folder msg_type)) = NewMessage handle folder msg_type"
proof -
  define as where "as = [(lit ''type'', lit ''NewMessage''), (lit ''handle'', handle)] @ opt_attr ''folder'' folder @ opt_attr ''msg_type'' msg_type"
  define tail where "tail = lit ''</MAP-event-report>''"
  have names: "list_all (\<lambda>a. name_ok (fst a)) as"
    by (cases folder; cases msg_type) (simp_all add: as_def name_ok_def is_whitespace_def)
  have "list_all scalar_value (event_text handle folder msg_type)"
    using assms by (cases folder; cases msg_type)
      (simp_all add: event_text_def attrs_text_def attr_text_def escape_scalar scalar_value_def)
  then have seen: "utf8_lossy (utf8_encode (event_text handle folder msg_type)) = event_text handle folder msg_type"
    by (intro utf8_lossy_decode utf8_roundtrip)
  have at: "attrs_text as = 32 # tl (attrs_text as)" by (simp add: attrs_text_def as_def attr_text_def)
  have "find_event_open_tag (event_text handle folder msg_type) = find_event_open_tag (lit ''<event'' @ attrs_text as @ 62 # tail)"
    unfolding event_text_def as_def [symmetric] tail_def [symmetric] by (simp add: event_skip)
  also have "\<dots> = Some (attrs_text as @ 62 # tail)" by (subst (1 2) at) (simp only: append_Cons event_found)
  finally have "find_event_open_tag (event_text handle folder msg_type) = Some (attrs_text as @ 62 # tail)" .
  moreover have "element_end (attrs_text as @ 62 # tail) = Some (attrs_text as, tail)"
    by (simp add: element_end_def scan_attrs names)
  moreover have "foldl event_field \<lparr>ef_type = None, ef_handle = None, ef_folder = None, ef_msg_type = None\<rparr> as =
      \<lparr>ef_type = Some (lit ''NewMessage''), ef_handle = Some handle, ef_folder = folder, ef_msg_type = msg_type\<rparr>"
    by (cases folder; cases msg_type) (simp_all add: as_def event_field_def)
  ultimately show ?thesis
    unfolding parse_event_report_def seen by (simp add: attributes_attrs names Let_def del: lit_simps)
qed

definition put_packet :: "bool \<Rightarrow> bool \<Rightarrow> bytes \<Rightarrow> Packet" where
  "put_packet first is_final b =
     \<lparr>pk_opcode = (if is_final then OP_PUT_FINAL else OP_PUT), pk_fixed_payload = [],
      pk_headers = header_connection_id ASSIGNED_CONNECTION_ID # (if first then [header_obex_type TYPE_EVENT_REPORT] else []) @
        [if is_final then header_end_of_body b else header_body b]\<rparr>"

fun report_packets :: "bytes list \<Rightarrow> bytes \<Rightarrow> Packet list" where
  "report_packets [] b = [put_packet True True b]"
| "report_packets (c # cs) b = put_packet True False c # map (put_packet False False) cs @ [put_packet False True b]"

lemma put_packet_facts:
  "answer_connection_id (put_packet first f b) = Some ASSIGNED_CONNECTION_ID" "first \<Longrightarrow> report_type (put_packet first f b)"
  "packet_body (put_packet first f b) = b" "packet_ends (put_packet first f b) = f"
  "pk_opcode (put_packet first f b) AND 0x7f = OP_PUT" "(pk_opcode (put_packet first f b) AND 0x80 \<noteq> 0) = f"
  by (auto simp: put_packet_def answer_connection_id_def packet_header_def header_connection_id_def header_obex_type_def
      header_end_of_body_def header_body_def report_type_def packet_body_def packet_ends_def TYPE_EVENT_REPORT_def utf8_char_def octet_def)

definition mns_ready :: "MnsServer \<Rightarrow> bool" where
  "mns_ready s = (mn_state s = MnsConnected \<and> mn_connection_id s = Some ASSIGNED_CONNECTION_ID \<and> mn_body s = mns_body_new)"

text \<open>One packet of a report: more of it, and the end of it.\<close>

lemma put_step:
  assumes "if first then mn_state s = MnsConnected else mn_state s = MnsAssemblingPut" "mn_connection_id s = Some ASSIGNED_CONNECTION_ID"
    and "mn_body s = mns_body_new\<lparr>ba_bytes := sofar\<rparr>" "length sofar + length b \<le> 65536" "chain_since t0 s"
  shows "mns_handle_request t0 s (put_packet first False b) =
      (build_simple_response RSP_CONTINUE,
       s\<lparr>mn_body := mns_body_new\<lparr>ba_bytes := sofar @ b\<rparr>, mn_put_chunk_at := Some t0, mn_state := MnsAssemblingPut\<rparr>)"
    and "mns_handle_request t0 s (put_packet first True b) =
      (build_simple_response RSP_OK,
       s\<lparr>mn_put_chunk_at := None, mn_body := mns_body_new, mn_pending_events := mn_pending_events s @ [parse_event_report (sofar @ b)],
         mn_state := MnsConnected\<rparr>)"
proof -
  have e: "snd (expire_stale_put t0 s) = s" using assms(5) by (auto simp: expire_stale_put_def chain_since_def split: option.splits)
  have push: "assembler_push (mn_body s) (put_packet first f b) = (Inr f, mns_body_new\<lparr>ba_bytes := sofar @ b, ba_complete := f\<rparr>)" for f
    using push_takes [of "mn_body s" "put_packet first f b"] assms(3,4)
    by (simp add: put_packet_facts mns_body_new_def assembler_with_limit_def fits_limit_def)
  have st: "mn_state s = MnsConnected \<or> mn_state s = MnsAssemblingPut" "mn_state s = MnsConnected \<longrightarrow> report_type (put_packet first f b)" for f
    using assms(1) put_packet_facts(2) by (auto split: if_splits)
  have nf: "mns_body_new\<lparr>ba_bytes := x, ba_complete := False\<rparr> = mns_body_new\<lparr>ba_bytes := x\<rparr>" for x
    by (simp add: mns_body_new_def assembler_with_limit_def)
  show "mns_handle_request t0 s (put_packet first False b) =
      (build_simple_response RSP_CONTINUE,
       s\<lparr>mn_body := mns_body_new\<lparr>ba_bytes := sofar @ b\<rparr>, mn_put_chunk_at := Some t0, mn_state := MnsAssemblingPut\<rparr>)"
    using push [of False] st(1) st(2) [of False] assms(2) put_packet_facts(5,6) [of first False b]
    by (auto simp: mns_handle_request_def mns_handle_put_def e Let_def put_packet_facts(1) nf)
  show "mns_handle_request t0 s (put_packet first True b) =
      (build_simple_response RSP_OK,
       s\<lparr>mn_put_chunk_at := None, mn_body := mns_body_new, mn_pending_events := mn_pending_events s @ [parse_event_report (sofar @ b)],
         mn_state := MnsConnected\<rparr>)"
    using push [of True] st(1) st(2) [of True] assms(2) put_packet_facts(5,6) [of first True b]
    by (auto simp: mns_handle_request_def mns_handle_put_def e Let_def put_packet_facts(1))
qed

lemma serve_more:
  assumes "mn_state s = MnsAssemblingPut" "mn_connection_id s = Some ASSIGNED_CONNECTION_ID"
    and "mn_body s = mns_body_new\<lparr>ba_bytes := sofar\<rparr>" "length sofar + length (concat bs @ b) \<le> 65536" "chain_since t0 s"
  shows "mns_serve t0 s (map (put_packet False False) bs @ [put_packet False True b]) =
    (replicate (length bs) (build_simple_response RSP_CONTINUE) @ [build_simple_response RSP_OK],
     s\<lparr>mn_put_chunk_at := None, mn_body := mns_body_new,
       mn_pending_events := mn_pending_events s @ [parse_event_report (sofar @ concat bs @ b)], mn_state := MnsConnected\<rparr>)"
  using assms
proof (induction bs arbitrary: s sofar)
  case Nil
  then show ?case using put_step(2) [of False s sofar b t0] by simp
next
  case (Cons c bs)
  let ?s = "s\<lparr>mn_body := mns_body_new\<lparr>ba_bytes := sofar @ c\<rparr>, mn_put_chunk_at := Some t0, mn_state := MnsAssemblingPut\<rparr>"
  have "mns_handle_request t0 s (put_packet False False c) = (build_simple_response RSP_CONTINUE, ?s)"
    by (rule put_step(1)) (use Cons.prems in auto)
  moreover have "mns_serve t0 ?s (map (put_packet False False) bs @ [put_packet False True b]) =
    (replicate (length bs) (build_simple_response RSP_CONTINUE) @ [build_simple_response RSP_OK],
     ?s\<lparr>mn_put_chunk_at := None, mn_body := mns_body_new,
       mn_pending_events := mn_pending_events ?s @ [parse_event_report ((sofar @ c) @ concat bs @ b)], mn_state := MnsConnected\<rparr>)"
    by (rule Cons.IH) (use Cons.prems in \<open>auto simp: chain_since_def\<close>)
  ultimately show ?case by simp
qed

lemma serve_report:
  assumes "mns_ready s" "chain_since t0 s" "length (concat bs @ b) \<le> 65536"
  shows "mns_serve t0 s (report_packets bs b) =
    (replicate (length bs) (build_simple_response RSP_CONTINUE) @ [build_simple_response RSP_OK],
     s\<lparr>mn_put_chunk_at := None, mn_pending_events := mn_pending_events s @ [parse_event_report (concat bs @ b)]\<rparr>)"
proof -
  have r: "mn_state s = MnsConnected" "mn_connection_id s = Some ASSIGNED_CONNECTION_ID" "mn_body s = mns_body_new"
    using assms(1) by (simp_all add: mns_ready_def)
  have empty: "mns_body_new\<lparr>ba_bytes := []\<rparr> = mns_body_new" by (simp add: mns_body_new_def assembler_with_limit_def)
  show ?thesis
  proof (cases bs)
    case Nil
    then show ?thesis
      using put_step(2) [of True s "[]" b t0] r assms by (cases s) (simp add: empty)
  next
    case (Cons c cs)
    let ?s = "s\<lparr>mn_body := mns_body_new\<lparr>ba_bytes := c\<rparr>, mn_put_chunk_at := Some t0, mn_state := MnsAssemblingPut\<rparr>"
    have "mns_handle_request t0 s (put_packet True False c) = (build_simple_response RSP_CONTINUE, ?s)"
      using put_step(1) [of True s "[]" c t0] r assms Cons by (simp add: empty)
    moreover have "mns_serve t0 ?s (map (put_packet False False) cs @ [put_packet False True b]) =
      (replicate (length cs) (build_simple_response RSP_CONTINUE) @ [build_simple_response RSP_OK],
       ?s\<lparr>mn_put_chunk_at := None, mn_body := mns_body_new,
         mn_pending_events := mn_pending_events ?s @ [parse_event_report (c @ concat cs @ b)], mn_state := MnsConnected\<rparr>)"
      by (rule serve_more) (use r assms Cons in \<open>auto simp: chain_since_def\<close>)
    ultimately show ?thesis using r by (cases s) (simp add: Cons)
  qed
qed

lemma serve_reports:
  assumes "mns_ready s" "chain_since t0 s" "\<forall>(bs, b) \<in> set rs. length (concat bs @ b) \<le> 65536"
  shows "mns_serve t0 s (concat (map (\<lambda>(bs, b). report_packets bs b) rs)) =
    (concat (map (\<lambda>(bs, b). replicate (length bs) (build_simple_response RSP_CONTINUE) @ [build_simple_response RSP_OK]) rs),
     (if rs = [] then s else s\<lparr>mn_put_chunk_at := None\<rparr>)
       \<lparr>mn_pending_events := mn_pending_events s @ map (\<lambda>(bs, b). parse_event_report (concat bs @ b)) rs\<rparr>)"
  using assms
proof (induction rs arbitrary: s)
  case (Cons r rs)
  obtain bs b where r: "r = (bs, b)" by (cases r)
  let ?s = "s\<lparr>mn_put_chunk_at := None, mn_pending_events := mn_pending_events s @ [parse_event_report (concat bs @ b)]\<rparr>"
  have "mns_ready ?s" "chain_since t0 ?s" using Cons.prems by (simp_all add: mns_ready_def chain_since_def)
  note IH = Cons.IH [OF this]
  have "mns_serve t0 s (report_packets bs b) =
      (replicate (length bs) (build_simple_response RSP_CONTINUE) @ [build_simple_response RSP_OK], ?s)"
    using Cons.prems by (intro serve_report) (auto simp: r)
  with IH Cons.prems show ?case by (cases s) (simp add: r mns_serve_append)
qed simp

lemma core_view:
  "mns_ready s = mns_ready (mns_core s)" "mn_pending_events s = mn_pending_events (mns_core s)"
  by (simp_all add: mns_ready_def mns_core_def)

text \<open>C26 The reports a phone sends, each of new message in any number of PUT packets, reach the
  server as exactly those events, in order, however its octets were cut on their way, when they come within thirty
  seconds: every packet but the last of a report is answered with CONTINUE and the last one with OK, and the server is
  ready for the next report with nothing left in its buffer.\<close>

theorem notifications_delivered:
  assumes "mns_ready s" "mn_obex_buffer s = []" "chain_since t0 s"
    and "\<forall>(h, f, m, bs, b) \<in> set rs. concat bs @ b = utf8_encode (event_text h f m) \<and> length (concat bs @ b) \<le> 65536 \<and>
        list_all takes_packet (report_packets bs b) \<and>
        list_all scalar_value (h @ (case f of Some v \<Rightarrow> v | None \<Rightarrow> []) @ (case m of Some v \<Rightarrow> v | None \<Rightarrow> []))"
    and "concat (map snd feeds) = concat (map packet_encode (concat (map (\<lambda>(h, f, m, bs, b). report_packets bs b) rs)))"
    and "\<forall>(now, c) \<in> set feeds. t0 \<le> now \<and> now < t0 + PUT_CHAIN_DEADLINE"
  shows "let (replies, s') = mns_feeds s feeds in
    replies = concat (map (\<lambda>(h, f, m, bs, b). replicate (length bs) (build_simple_response RSP_CONTINUE) @ [build_simple_response RSP_OK]) rs) \<and>
    fst (mns_take_events s') = mn_pending_events s @ map (\<lambda>(h, f, m, bs, b). NewMessage h f m) rs \<and>
    mns_ready s' \<and> mn_obex_buffer s' = []"
proof -
  define qs where "qs = map (\<lambda>(h, f, m, bs, b). (bs, b)) rs"
  let ?ps = "concat (map (\<lambda>(bs, b). report_packets bs b) qs)"
  have ps: "concat (map (\<lambda>(h, f, m, bs, b). report_packets bs b) rs) = ?ps"
    unfolding qs_def by (induction rs) auto
  have takes: "list_all takes_packet ?ps" using assms(4) by (auto simp: qs_def list_all_iff)
  have events: "map (\<lambda>(bs, b). parse_event_report (concat bs @ b)) qs = map (\<lambda>(h, f, m, bs, b). NewMessage h f m) rs"
    unfolding qs_def using assms(4) by (induction rs) (auto simp: event_read)
  have replies: "map (\<lambda>(bs, b). replicate (length bs) (build_simple_response RSP_CONTINUE) @ [build_simple_response RSP_OK]) qs =
      map (\<lambda>(h, f, m, bs, b). replicate (length bs) (build_simple_response RSP_CONTINUE) @ [build_simple_response RSP_OK]) rs"
    by (auto simp: qs_def)
  have core: "mns_ready (mns_core s)" "chain_since t0 (mns_core s)" "mn_pending_events (mns_core s) = mn_pending_events s"
    using assms(1) by (simp_all add: mns_ready_def mns_core_def chain_since_def)
  have served: "mns_serve t0 (mns_core s) ?ps =
      (concat (map (\<lambda>(bs, b). replicate (length bs) (build_simple_response RSP_CONTINUE) @ [build_simple_response RSP_OK]) qs),
       (if qs = [] then mns_core s else (mns_core s)\<lparr>mn_put_chunk_at := None\<rparr>)
         \<lparr>mn_pending_events := mn_pending_events (mns_core s) @ map (\<lambda>(bs, b). parse_event_report (concat bs @ b)) qs\<rparr>)"
    by (rule serve_reports [OF core(1,2)]) (use assms(4) in \<open>auto simp: qs_def\<close>)
  have "awaits (mn_obex_buffer s) ?ps"
    using assms(2) by (auto simp: awaits_def packet_total_def split: list.split)
  from feeds_stream [OF takes _ this assms(3,6)] assms(2,5) ps served
  have "fst (mns_feeds s feeds) = concat (map (\<lambda>(bs, b). replicate (length bs) (build_simple_response RSP_CONTINUE) @ [build_simple_response RSP_OK]) qs)"
    "mns_core (snd (mns_feeds s feeds)) = mns_core (snd (mns_serve t0 (mns_core s) ?ps))" "mn_obex_buffer (snd (mns_feeds s feeds)) = []"
    by auto
  moreover from this(2) have "mns_ready (snd (mns_feeds s feeds))"
      "mn_pending_events (snd (mns_feeds s feeds)) = mn_pending_events s @ map (\<lambda>(bs, b). parse_event_report (concat bs @ b)) qs"
    unfolding served using core core_view [of "snd (mns_feeds s feeds)"] core_view [of "mns_core s"]
    by (simp_all add: mns_ready_def mns_core_def split: if_splits)
  ultimately show ?thesis
    using events replies by (simp add: mns_take_events_def split_beta)
qed

lemma ascii_length: "list_all (\<lambda>c. c < 128) v \<Longrightarrow> length (utf8_encode v) = length v"
  by (induction v) (simp_all add: utf8_char_def)

theorem notifications_delivered_witness:
  "\<exists>s feeds. length feeds = 3 \<and> fst (mns_take_events (snd (mns_feeds s feeds))) = [NewMessage (lit ''20'') None (Some (lit ''SMS_GSM''))]"
proof -
  define s where "s = mns_new\<lparr>mn_state := MnsConnected, mn_connection_id := Some ASSIGNED_CONNECTION_ID\<rparr>"
  define w where "w = utf8_encode (event_text (lit ''20'') None (Some (lit ''SMS_GSM'')))"
  define v where "v = concat (map packet_encode (report_packets [take 9 w] (drop 9 w)))"
  have len: "length w \<le> 200"
    unfolding w_def by (subst ascii_length)
      (simp_all add: event_text_def attrs_text_def attr_text_def escape_value_def escape_char_def)
  have ty: "length TYPE_EVENT_REPORT = 21"
    unfolding TYPE_EVENT_REPORT_def by (subst ascii_length) simp_all
  have takes: "list_all takes_packet (report_packets [take 9 w] (drop 9 w))"
    using len by (simp add: takes_packet_def put_packet_def packet_total_def header_connection_id_def header_obex_type_def
        header_end_of_body_def header_body_def header_kind_def ty) linarith
  have r: "mns_ready s" "mn_obex_buffer s = []" "chain_since 7 s" "mn_pending_events s = []"
    by (simp_all add: s_def mns_ready_def mns_new_def chain_since_def)
  let ?feeds = "[(7, take 5 v), (8, []), (9, drop 5 v)]"
  have "let (replies, s') = mns_feeds s ?feeds in
    replies = concat (map (\<lambda>(h, f, m, bs, b). replicate (length bs) (build_simple_response RSP_CONTINUE) @ [build_simple_response RSP_OK])
      [(lit ''20'', None :: rstr option, Some (lit ''SMS_GSM''), [take 9 w], drop 9 w)]) \<and>
    fst (mns_take_events s') = mn_pending_events s @ map (\<lambda>(h, f, m, bs, b). NewMessage h f m)
      [(lit ''20'', None, Some (lit ''SMS_GSM''), [take 9 w], drop 9 w)] \<and>
    mns_ready s' \<and> mn_obex_buffer s' = []"
  proof (rule notifications_delivered [OF r(1-3)])
    show "concat (map snd ?feeds) = concat (map packet_encode (concat (map (\<lambda>(h, f, m, bs, b). report_packets bs b)
        [(lit ''20'', None :: rstr option, Some (lit ''SMS_GSM''), [take 9 w], drop 9 w)])))"
      by (simp add: v_def [symmetric] del: report_packets.simps)
    show "\<forall>(h, f, m, bs, b) \<in> set [(lit ''20'', None, Some (lit ''SMS_GSM''), [take 9 w], drop 9 w)].
        concat bs @ b = utf8_encode (event_text h f m) \<and> length (concat bs @ b) \<le> 65536 \<and>
        list_all takes_packet (report_packets bs b) \<and>
        list_all scalar_value (h @ (case f of Some v \<Rightarrow> v | None \<Rightarrow> []) @ (case m of Some v \<Rightarrow> v | None \<Rightarrow> []))"
      using takes len by (simp add: w_def [symmetric] del: lit_simps report_packets.simps) (simp add: scalar_value_def)
  qed simp
  then show ?thesis by (intro exI [of _ s] exI [of _ ?feeds]) (simp add: split_beta r)
qed

section \<open>Where reports go wrong\<close>

text \<open>A phone that connects anew in the middle of a report does not lose the part it sent: the part stays in front of the
  next report's body, whose event is then read from both.\<close>

lemma reconnect_keeps_partial_body:
  assumes "mn_body s = mns_body_new\<lparr>ba_bytes := sofar\<rparr>" "length sofar + length b \<le> 65536" "chain_since t s"
    and "packet_header c HDR_TARGET = Some (HByteSeq HDR_TARGET MNS_TARGET_UUID)" "pk_opcode c = OP_CONNECT"
  shows "mn_pending_events (snd (mns_serve t s [c, put_packet True True b])) =
    mn_pending_events s @ [parse_event_report (sofar @ b)]"
proof -
  let ?s = "s\<lparr>mn_connection_id := Some ASSIGNED_CONNECTION_ID, mn_state := MnsConnected\<rparr>"
  have "snd (mns_handle_request t s c) = ?s"
    using assms(4,5) by (simp add: mns_handle_request_def mns_handle_connect_def)
  moreover have "mn_pending_events (snd (mns_handle_request t ?s (put_packet True True b))) =
      mn_pending_events s @ [parse_event_report (sofar @ b)]"
    using put_step(2) [of True ?s sofar b t] assms by (simp add: chain_since_def)
  ultimately show ?thesis by (simp add: split_beta)
qed

lemma partial_report_replaces_next:
  assumes "list_all scalar_value (event_text h f m)"
  shows "parse_event_report (utf8_encode (lit ''<event type=MemoryFull />'') @ utf8_encode (event_text h f m)) =
    OtherEvent (lit ''MemoryFull'') None"
proof -
  have "list_all scalar_value (lit ''<event type=MemoryFull />'' @ event_text h f m)" using assms by (simp add: scalar_value_def)
  then have seen: "utf8_lossy (utf8_encode (lit ''<event type=MemoryFull />'' @ event_text h f m)) = lit ''<event type=MemoryFull />'' @ event_text h f m"
    by (intro utf8_lossy_decode utf8_roundtrip)
  have "find_event_open_tag (lit ''<event type=MemoryFull />'' @ r) = Some (lit '' type=MemoryFull />'' @ r)" for r
    using event_found [of "lit ''type=MemoryFull />'' @ r"] by simp
  moreover have "element_end (lit '' type=MemoryFull />'' @ r) = Some (lit '' type=MemoryFull /'', r)" for r
    by (simp add: element_end_def is_ascii_whitespace_def)
  moreover have "attributes (lit '' type=MemoryFull /'') = [(lit ''type'', lit ''MemoryFull'')]"
    by (subst attributes.simps, subst attributes.simps, subst unescape_xml.simps)
      (simp add: last_word_def attribute_value_def trim_start_def trim_start_matches_def trim_end_def trim_end_matches_def is_whitespace_def)
  ultimately show ?thesis
    using seen by (simp add: parse_event_report_def event_field_def Let_def)
qed

text \<open>The loop stops at a packet it cannot parse and leaves what follows in the buffer: frames of two such packets each
  leave one more packet behind every time.\<close>

lemma malformed_packets_pile_up:
  assumes "mn_obex_buffer s = concat (replicate k [0x82, 0, 4, 1])"
  shows "mn_obex_buffer (snd (mns_feed_bytes now ([0x82, 0, 4, 1] @ [0x82, 0, 4, 1]) s)) = concat (replicate (Suc k) [0x82, 0, 4, 1])"
proof -
  define R where "R = concat (replicate (Suc k) [0x82, 0, 4, 1 :: u8])"
  have "concat (replicate k [0x82, 0, 4, 1]) @ [0x82, 0, 4, 1] @ [0x82, 0, 4, 1] = [0x82, 0, 4, 1] @ R"
    unfolding R_def by (induction k) simp_all
  then have buf: "s\<lparr>mn_obex_buffer := mn_obex_buffer s @ [0x82, 0, 4, 1] @ [0x82, 0, 4, 1]\<rparr> = s\<lparr>mn_obex_buffer := [0x82, 0, 4, 1] @ R\<rparr>"
    by (simp only: assms)
  have "mns_try_take ([0x82, 0, 4, 1] @ r) = Inr (Some 4)" for r
    by (simp add: mns_try_take_def MNS_MAX_PACKET_LENGTH_def u16_from_le_bytes_def)
  moreover have "\<exists>e. packet_parse [0x82, 0, 4, 1] FixedNone = Inl e"
    by (simp add: packet_parse_def obex_require_len_def u16_from_le_bytes_def header_parse_def header_kind_def parse_headers.simps)
  ultimately show ?thesis
    unfolding mns_feed_bytes_def buf R_def [symmetric] by (subst mns_drain.simps) auto
qed

end
