(* ===== verification/Text_Queue.thy ===== *)
theory Text_Queue
  imports Text_Ledger Text_Match Map_Runtime Map_Mns
begin

text \<open>
  The queue of message operations of \<open>aokie_radio/runtime.rs\<close>: texts to send, the folder checks around them, bodies to
  fetch and listings to take, run one at a time over one session.  The state that the radio loop keeps in local
  variables is a record; clocks are arguments, in milliseconds; the events for the application other than the answers
  of the ledger are a list.
\<close>

section \<open>State\<close>

record Clock =
  ck_at :: instant
  ck_wall :: int

record Stamp =
  st_at :: instant
  st_wall :: int

definition stamp_now :: "Clock \<Rightarrow> Stamp" where
  "stamp_now ck = \<lparr>st_at = ck_at ck, st_wall = ck_wall ck\<rparr>"

definition stamp_elapsed :: "Clock \<Rightarrow> Stamp \<Rightarrow> duration" where
  "stamp_elapsed ck st = max (ck_at ck - st_at st) (nat (ck_wall ck - st_wall st))"

record SendText =
  sr_message_id :: rstr
  sr_bmessage :: bytes
  sr_recipient_phone :: rstr
  sr_queued_at :: Stamp
  sr_tried_at :: "Stamp option"
  sr_attempts :: nat
  sr_not_before :: "instant option"
  sr_body_head :: rstr
  sr_sent_before :: SentSnapshot

datatype PendingMapOp =
    Subscribe
  | FetchMessage rstr instant nat
  | SendReply SendText
  | SnapshotSent PendingMapOp
  | VerifySent PendingMapOp Folder "instant option"
  | PollInbox
  | CheckSent Folder

datatype map_notice =
    MapNotificationsSubscribed
  | SmsReceived rstr "rstr option" rstr rstr "rstr option"

record TextQueue =
  tq_pending :: "PendingMapOp list"
  tq_active :: "PendingMapOp option"
  tq_seen :: SeenMessages
  tq_seeded :: bool
  tq_seed_attempts :: nat
  tq_last_send_reply_at :: "instant option"
  tq_texts :: TextLedger
  tq_events :: "map_notice list"

definition queue_new :: TextQueue where
  "queue_new = \<lparr>tq_pending = [], tq_active = None, tq_seen = seen_new, tq_seeded = False, tq_seed_attempts = 0,
     tq_last_send_reply_at = None, tq_texts = ledger_new, tq_events = []\<rparr>"

abbreviation (input) SEND_REPLY_RETAIN_TTL :: duration where "SEND_REPLY_RETAIN_TTL \<equiv> 120000"
abbreviation (input) FETCH_ATTEMPTS :: nat where "FETCH_ATTEMPTS \<equiv> 3"
abbreviation (input) POLL_SKIP_AFTER_REPLY :: duration where "POLL_SKIP_AFTER_REPLY \<equiv> 20000"
abbreviation (input) VERIFY_SENT_PAUSE :: duration where "VERIFY_SENT_PAUSE \<equiv> 20000"
abbreviation (input) INBOX_POLL_MAX_LIST :: u16 where "INBOX_POLL_MAX_LIST \<equiv> 5"
abbreviation (input) MSG_TYPE_KEEP_BOTH_SMS_VARIANTS :: u8 where "MSG_TYPE_KEEP_BOTH_SMS_VARIANTS \<equiv> 0xfc"
abbreviation (input) MSG_TYPE_KEEP_SMS_AND_MMS :: u8 where "MSG_TYPE_KEEP_SMS_AND_MMS \<equiv> 0xf4"

section \<open>Operations of the queue\<close>

definition after_pause :: "instant \<Rightarrow> instant option \<Rightarrow> bool" where
  "after_pause now not_before = (case not_before of None \<Rightarrow> True | Some t \<Rightarrow> now \<ge> t)"

fun op_ready :: "instant \<Rightarrow> PendingMapOp \<Rightarrow> bool" where
  "op_ready now (SendReply t) = after_pause now (sr_not_before t)"
| "op_ready now (VerifySent _ _ not_before) = after_pause now not_before"
| "op_ready now _ = True"

fun text_id :: "PendingMapOp \<Rightarrow> rstr option" where
  "text_id (SendReply t) = Some (sr_message_id t)"
| "text_id (VerifySent send _ _) = text_id send"
| "text_id (SnapshotSent send) = text_id send"
| "text_id _ = None"

fun pending_op_to_mas_operation :: "PendingMapOp \<Rightarrow> Operation" where
  "pending_op_to_mas_operation Subscribe = SetNotificationRegistration True"
| "pending_op_to_mas_operation (FetchMessage handle _ _) = GetMessage Inbox handle CHARSET_UTF8"
| "pending_op_to_mas_operation (SendReply t) = PushMessage Outbox (sr_bmessage t) CHARSET_UTF8"
| "pending_op_to_mas_operation (CheckSent folder) = ListMessages folder INBOX_POLL_MAX_LIST MSG_TYPE_KEEP_BOTH_SMS_VARIANTS"
| "pending_op_to_mas_operation (SnapshotSent _) = ListMessages SentFolder INBOX_POLL_MAX_LIST MSG_TYPE_KEEP_SMS_AND_MMS"
| "pending_op_to_mas_operation (VerifySent _ folder _) = ListMessages folder INBOX_POLL_MAX_LIST MSG_TYPE_KEEP_SMS_AND_MMS"
| "pending_op_to_mas_operation PollInbox = ListMessages Inbox INBOX_POLL_MAX_LIST MSG_TYPE_KEEP_BOTH_SMS_VARIANTS"

fun take_first :: "('a \<Rightarrow> bool) \<Rightarrow> 'a list \<Rightarrow> ('a \<times> 'a list) option" where
  "take_first P [] = None"
| "take_first P (x # xs) = (if P x then Some (x, xs) else map_option (apsnd (Cons x)) (take_first P xs))"

definition take_ready_op :: "instant \<Rightarrow> TextQueue \<Rightarrow> (PendingMapOp \<times> TextQueue) option" where
  "take_ready_op now q =
     (case take_first (op_ready now) (tq_pending q) of
        None \<Rightarrow> None | Some (op, rest) \<Rightarrow> Some (op, q\<lparr>tq_pending := rest\<rparr>))"

definition mark_tried :: "Clock \<Rightarrow> instant option \<Rightarrow> PendingMapOp \<Rightarrow> PendingMapOp" where
  "mark_tried ck last_send_reply_at op =
     (case op of
        SendReply t \<Rightarrow>
          (let put_just_went = (case last_send_reply_at of Some at \<Rightarrow> ck_at ck - at < POLL_SKIP_AFTER_REPLY | None \<Rightarrow> False);
               tried = (\<lambda>t. t\<lparr>sr_tried_at := (case sr_tried_at t of Some at \<Rightarrow> Some at | None \<Rightarrow> Some (stamp_now ck))\<rparr>) in
           if sr_sent_before t = NotTaken then
             (if \<not> put_just_went then SnapshotSent op else SendReply (tried (t\<lparr>sr_sent_before := SnapshotUnavailable\<rparr>)))
           else SendReply (tried t))
      | _ \<Rightarrow> op)"

definition note_put_out :: "instant \<Rightarrow> bool \<Rightarrow> TextQueue \<Rightarrow> TextQueue" where
  "note_put_out now put_awaiting q =
     (case tq_active q of
        Some (SendReply t) \<Rightarrow>
          if put_awaiting then
            (case put_went_out (sr_message_id t) (tq_texts q) of
               (went, texts) \<Rightarrow>
                 q\<lparr>tq_texts := texts, tq_last_send_reply_at := (if went then Some now else tq_last_send_reply_at q)\<rparr>)
          else q
      | _ \<Rightarrow> q)"

definition send_retry_pause :: "nat \<Rightarrow> duration" where
  "send_retry_pause attempts = (if attempts \<le> 1 then 2000 else if attempts = 2 then 5000 else if attempts = 3 then 15000 else 30000)"

definition push_wire_len :: "nat \<Rightarrow> nat" where
  "push_wire_len bmessage_len = 4 + 5 + push_message_packet_len bmessage_len"

section \<open>An operation that did not finish\<close>

datatype MapStop = NotStarted | NotDelivered | InFlight

definition stop_tried :: "MapStop \<Rightarrow> bool" where
  "stop_tried stop = (stop \<noteq> NotStarted)"

definition phone_answered_error :: "rstr \<Rightarrow> bool" where
  "phone_answered_error reason = contains_str (lit '': server returned 0x'') reason"

text \<open>Seconds without decimals, as the formatter rounds them.\<close>

definition secs_text :: "duration \<Rightarrow> rstr" where
  "secs_text d =
     (let q = d div 1000; r = d mod 1000
      in dec_digits (if r < 500 \<or> r = 500 \<and> even q then q else q + 1))"

definition text_age :: "Clock \<Rightarrow> SendText \<Rightarrow> duration" where
  "text_age ck t = stamp_elapsed ck (case sr_tried_at t of Some at \<Rightarrow> at | None \<Rightarrow> sr_queued_at t)"

definition requeue_send :: "Clock \<Rightarrow> SendText \<Rightarrow> MapStop \<Rightarrow> rstr \<Rightarrow> TextQueue \<Rightarrow> TextQueue" where
  "requeue_send ck t stop reason q =
     (let i = sr_message_id t in
      if \<not> ledger_is_open i (tq_texts q) then q
      else
        (case push_refusal_code reason of
           Some code \<Rightarrow>
             q\<lparr>tq_texts := ledger_refused i (lit ''the phone refused the text (OBEX 0x'' @ hex2 False code @
                 lit ''), so it is not sent again: '' @ reason) (tq_texts q)\<rparr>
         | None \<Rightarrow>
             (let in_doubt = (stop = InFlight \<and> \<not> phone_answered_error reason);
                  texts = (if in_doubt then snd (put_went_out i (tq_texts q))
                           else if stop = InFlight then put_not_taken i (tq_texts q) else tq_texts q) in
              if text_age ck t \<ge> SEND_REPLY_RETAIN_TTL then
                q\<lparr>tq_texts := ledger_failed i
                   (if in_doubt then lit ''not confirmed after '' @ secs_text (text_age ck t) @ lit ''s '' @ [8212] @
                      lit '' the phone may or may not have sent it: '' @ reason
                    else lit ''abandoned after '' @ secs_text (text_age ck t) @ lit ''s: '' @ reason) texts\<rparr>
              else
                (let send = SendReply (t\<lparr>sr_attempts := (if stop_tried stop then sr_attempts t + 1 else sr_attempts t),
                       sr_not_before := (if stop_tried stop then Some (ck_at ck + send_retry_pause (sr_attempts t + 1))
                                         else sr_not_before t)\<rparr>)
                 in q\<lparr>tq_texts := texts,
                      tq_pending := tq_pending q @
                        [if in_doubt then VerifySent send SentFolder (Some (ck_at ck + VERIFY_SENT_PAUSE)) else send]\<rparr>))))"

fun requeue_or_report :: "Clock \<Rightarrow> PendingMapOp \<Rightarrow> MapStop \<Rightarrow> rstr \<Rightarrow> TextQueue \<Rightarrow> TextQueue" where
  "requeue_or_report ck (SendReply t) stop reason q = requeue_send ck t stop reason q"
| "requeue_or_report ck (VerifySent send folder not_before) stop reason q =
     (case send of
        SendReply t \<Rightarrow>
          if \<not> ledger_is_open (sr_message_id t) (tq_texts q) then q
          else if text_age ck t \<ge> SEND_REPLY_RETAIN_TTL then
            q\<lparr>tq_texts := ledger_failed (sr_message_id t)
               (lit ''the phone may or may not have sent it, and its folders could not be read to tell: '' @ reason) (tq_texts q)\<rparr>
          else
            q\<lparr>tq_pending := tq_pending q @
               [VerifySent send folder (if stop_tried stop then Some (ck_at ck + VERIFY_SENT_PAUSE) else not_before)]\<rparr>
      | _ \<Rightarrow> q)"
| "requeue_or_report ck (FetchMessage handle queued_at attempts) stop reason q =
     (let attempts' = (if stop_tried stop then attempts + 1 else attempts) in
      if attempts' \<ge> FETCH_ATTEMPTS then q\<lparr>tq_seen := seen_insert handle (tq_seen q)\<rparr>
      else if ck_at ck - queued_at \<ge> SEND_REPLY_RETAIN_TTL then q
      else q\<lparr>tq_pending := tq_pending q @ [FetchMessage handle queued_at attempts']\<rparr>)"
| "requeue_or_report ck (SnapshotSent send) stop reason q =
     (case send of
        SendReply t \<Rightarrow>
          requeue_send ck (if stop_tried stop then t\<lparr>sr_sent_before := SnapshotUnavailable\<rparr> else t) NotStarted reason q
      | _ \<Rightarrow> requeue_or_report ck send NotStarted reason q)"
| "requeue_or_report ck Subscribe stop reason q = q"
| "requeue_or_report ck PollInbox stop reason q = q"
| "requeue_or_report ck (CheckSent _) stop reason q = q"

section \<open>Another phone, no phone\<close>

fun is_fetch :: "PendingMapOp \<Rightarrow> bool" where
  "is_fetch (FetchMessage _ _ _) = True"
| "is_fetch _ = False"

fun switch_ops :: "PendingMapOp list \<Rightarrow> TextLedger \<Rightarrow> PendingMapOp list \<times> TextLedger" where
  "switch_ops [] texts = ([], texts)"
| "switch_ops (op # ops) texts =
     (case text_id op of
        Some i \<Rightarrow> switch_ops ops (ledger_failed i
            (lit ''a different phone connected before it was sent, and it is not sent from that phone's number'') texts)
      | None \<Rightarrow> (case switch_ops ops texts of (kept, texts') \<Rightarrow> (if is_fetch op then kept else op # kept, texts')))"

definition switch_map_phone :: "TextQueue \<Rightarrow> TextQueue" where
  "switch_map_phone q =
     (case switch_ops (tq_pending q) (tq_texts q) of
        (kept, texts) \<Rightarrow>
          q\<lparr>tq_seen := seen_clear (tq_seen q), tq_seeded := False, tq_seed_attempts := 0, tq_pending := kept, tq_texts := texts\<rparr>)"

fun op_expired :: "Clock \<Rightarrow> PendingMapOp \<Rightarrow> bool" where
  "op_expired ck (SendReply t) = (text_age ck t \<ge> SEND_REPLY_RETAIN_TTL)"
| "op_expired ck (VerifySent send _ _) = (case send of SendReply t \<Rightarrow> text_age ck t \<ge> SEND_REPLY_RETAIN_TTL | _ \<Rightarrow> True)"
| "op_expired ck _ = False"

fun is_verify :: "PendingMapOp \<Rightarrow> bool" where
  "is_verify (VerifySent _ _ _) = True"
| "is_verify _ = False"

fun expire_ops :: "Clock \<Rightarrow> PendingMapOp list \<Rightarrow> TextLedger \<Rightarrow> PendingMapOp list \<times> TextLedger" where
  "expire_ops ck [] texts = ([], texts)"
| "expire_ops ck (op # ops) texts =
     (if op_expired ck op then
        expire_ops ck ops
          (case text_id op of
             Some i \<Rightarrow> ledger_failed i
               (if is_verify op then lit ''no phone is connected, and the phone may or may not have sent it''
                else lit ''no phone is connected to send it'') texts
           | None \<Rightarrow> texts)
      else apfst (Cons op) (expire_ops ck ops texts))"

definition expire_waiting_texts :: "Clock \<Rightarrow> TextQueue \<Rightarrow> TextQueue" where
  "expire_waiting_texts ck q =
     (case expire_ops ck (tq_pending q) (tq_texts q) of (kept, texts) \<Rightarrow> q\<lparr>tq_pending := kept, tq_texts := texts\<rparr>)"

section \<open>Listings and notifications\<close>

definition fetch_queued :: "PendingMapOp list \<Rightarrow> PendingMapOp option \<Rightarrow> rstr \<Rightarrow> bool" where
  "fetch_queued pending active handle =
     list_ex (\<lambda>op. case op of FetchMessage h _ _ \<Rightarrow> h = handle | _ \<Rightarrow> False)
       (pending @ (case active of Some op \<Rightarrow> [op] | None \<Rightarrow> []))"

definition entry_is_recent :: "Zones \<Rightarrow> Clock \<Rightarrow> MessageEntry \<Rightarrow> bool" where
  "entry_is_recent z ck e =
     (case Option.bind (me_datetime e) (map_datetime z) of Some at \<Rightarrow> at * 1000 \<ge> ck_wall ck - 3600000 | None \<Rightarrow> True)"

definition queue_fetch :: "Clock \<Rightarrow> rstr \<Rightarrow> TextQueue \<Rightarrow> TextQueue" where
  "queue_fetch ck handle q = q\<lparr>tq_pending := tq_pending q @ [FetchMessage handle (ck_at ck) 0]\<rparr>"

definition take_entry :: "Clock \<Rightarrow> TextQueue \<Rightarrow> MessageEntry \<Rightarrow> TextQueue" where
  "take_entry ck q e =
     (case listed_is_new (me_handle e) (me_datetime e) (tq_seen q) of
        (is_new, seen) \<Rightarrow>
          (let q' = q\<lparr>tq_seen := seen\<rparr> in
           if is_new \<and> \<not> fetch_queued (tq_pending q) None (me_handle e) then queue_fetch ck (me_handle e) q' else q'))"

definition handle_inbox_listing :: "Zones \<Rightarrow> Clock \<Rightarrow> bytes \<Rightarrow> TextQueue \<Rightarrow> TextQueue" where
  "handle_inbox_listing z ck bytes q =
     (let entries = parse_listing bytes in
      if \<not> tq_seeded q then
        (let q' = q\<lparr>tq_seen := foldl (\<lambda>s e. seen_seed (me_handle e) (me_datetime e) s) (tq_seen q) entries, tq_seeded := True\<rparr> in
         case entries of
           [] \<Rightarrow> q'
         | e # _ \<Rightarrow>
             if tq_seed_attempts q \<ge> 2 \<or> me_read e = Some False \<and> entry_is_recent z ck e then queue_fetch ck (me_handle e) q' else q')
      else foldl (take_entry ck) q entries)"

fun is_poll :: "PendingMapOp \<Rightarrow> bool" where
  "is_poll PollInbox = True"
| "is_poll _ = False"

definition take_mns_event :: "Clock \<Rightarrow> TextQueue \<Rightarrow> MnsEvent \<Rightarrow> TextQueue" where
  "take_mns_event ck q ev =
     (case ev of
        NewMessage handle folder _ \<Rightarrow>
          if \<not> is_inbox_folder folder then q
          else
            (case (if fetch_queued (tq_pending q) (tq_active q) handle then RenotifiedSame else renotified (ck_at ck) (tq_seen q) handle) of
               RenotifiedSame \<Rightarrow> q
             | RenotifiedList \<Rightarrow>
                 if tq_active q \<noteq> Some PollInbox \<and> \<not> list_ex is_poll (tq_pending q)
                 then q\<lparr>tq_pending := tq_pending q @ [PollInbox]\<rparr> else q
             | RenotifiedFetch \<Rightarrow> queue_fetch ck handle q)
      | _ \<Rightarrow> q)"

definition drain_mns_events :: "Clock \<Rightarrow> MnsServer \<Rightarrow> TextQueue \<Rightarrow> MnsServer \<times> TextQueue" where
  "drain_mns_events ck server q =
     (case mns_take_events server of (events, server') \<Rightarrow> (server', foldl (take_mns_event ck) q events))"

section \<open>What an operation gave\<close>

definition snapshot_of :: "OperationOutput \<Rightarrow> SentSnapshot" where
  "snapshot_of out =
     (case out of
        Listing bytes \<Rightarrow> SnapshotTaken (List.map_filter (\<lambda>entry. entry_get entry (lit ''handle'')) (msg_attribute_pairs bytes))
      | _ \<Rightarrow> SnapshotUnavailable)"

definition snapshot_done :: "PendingMapOp \<Rightarrow> OperationOutput \<Rightarrow> TextQueue \<Rightarrow> TextQueue" where
  "snapshot_done send out q =
     (let send' = (case send of SendReply t \<Rightarrow> SendReply (t\<lparr>sr_sent_before := snapshot_of out\<rparr>) | _ \<Rightarrow> send) in
      if (case text_id send' of Some i \<Rightarrow> ledger_is_open i (tq_texts q) | None \<Rightarrow> False)
      then q\<lparr>tq_pending := send' # tq_pending q\<rparr> else q)"

definition fetch_done :: "Clock \<Rightarrow> rstr \<Rightarrow> bytes \<Rightarrow> TextQueue \<Rightarrow> TextQueue" where
  "fetch_done ck handle bytes q =
     (let parsed = bmessage_parse bytes;
          sender = (case bm_sender_addressing parsed of Some s \<Rightarrow> s | None \<Rightarrow> []);
          (is_new, seen) = seen_fetched (ck_at ck) handle sender (bm_body parsed) (tq_seen q);
          q' = q\<lparr>tq_seen := seen\<rparr> in
      if \<not> is_inbox_folder (bm_folder parsed) then q'
      else if \<not> is_new then q'
      else q'\<lparr>tq_events := tq_events q @ [SmsReceived sender (bm_sender_name parsed) (bm_body parsed) handle (bm_msg_type parsed)]\<rparr>)"

definition verify_found :: "Zones \<Rightarrow> SendText \<Rightarrow> Folder \<Rightarrow> bytes \<Rightarrow> bool" where
  "verify_found z t folder bytes =
     (let tried = (case sr_tried_at t of Some at \<Rightarrow> at | None \<Rightarrow> sr_queued_at t);
          snapshot_decides = (folder = SentFolder \<and> (case sr_sent_before t of SnapshotTaken _ \<Rightarrow> True | _ \<Rightarrow> False));
          since = (if snapshot_decides then None else Some (st_wall tried - 120000))
      in list_ex (\<lambda>entry. listing_holds_text z entry (sr_recipient_phone t) (sr_body_head t) since \<and>
                          entry_is_new_since entry (sr_sent_before t) folder) (msg_attribute_pairs bytes))"

definition verify_done :: "Zones \<Rightarrow> Clock \<Rightarrow> SendText \<Rightarrow> Folder \<Rightarrow> bytes \<Rightarrow> TextQueue \<Rightarrow> TextQueue" where
  "verify_done z ck t folder bytes q =
     (if verify_found z t folder bytes then
        q\<lparr>tq_last_send_reply_at := Some (ck_at ck), tq_texts := ledger_sent (sr_message_id t) (tq_texts q)\<rparr>
      else if folder = SentFolder then q\<lparr>tq_pending := VerifySent (SendReply t) Outbox None # tq_pending q\<rparr>
      else q\<lparr>tq_texts := put_not_taken (sr_message_id t) (tq_texts q),
             tq_pending := SendReply (t\<lparr>sr_not_before := None\<rparr>) # tq_pending q\<rparr>)"

definition operation_completed :: "Zones \<Rightarrow> Clock \<Rightarrow> OperationOutput \<Rightarrow> TextQueue \<Rightarrow> TextQueue" where
  "operation_completed z ck out q =
     (case tq_active q of
        Some (SnapshotSent send) \<Rightarrow> snapshot_done send out q
      | Some Subscribe \<Rightarrow> q\<lparr>tq_events := tq_events q @ [MapNotificationsSubscribed]\<rparr>
      | Some (FetchMessage handle _ _) \<Rightarrow> (case out of Message bytes \<Rightarrow> fetch_done ck handle bytes q | _ \<Rightarrow> q)
      | Some (SendReply t) \<Rightarrow>
          q\<lparr>tq_last_send_reply_at := Some (ck_at ck), tq_texts := ledger_sent (sr_message_id t) (tq_texts q)\<rparr>
      | Some (VerifySent send folder _) \<Rightarrow>
          (case out of
             Listing bytes \<Rightarrow> (case send of SendReply t \<Rightarrow> verify_done z ck t folder bytes q | _ \<Rightarrow> q)
           | _ \<Rightarrow> q)
      | Some PollInbox \<Rightarrow> (case out of Listing bytes \<Rightarrow> handle_inbox_listing z ck bytes q | _ \<Rightarrow> q)
      | _ \<Rightarrow> q)"

text \<open>The text of a failure: the reason a session gives is kept in it; \<open>show\<close> stands for the texts of the layers below.\<close>

definition map_reason_text :: "(profile_reason \<Rightarrow> rstr) \<Rightarrow> profile_reason \<Rightarrow> rstr" where
  "map_reason_text show reason = (case reason of ProfileSession r \<Rightarrow> lit ''MAS session failed: '' @ r | _ \<Rightarrow> show reason)"

definition handle_map_runtime_event ::
    "Zones \<Rightarrow> (profile_reason \<Rightarrow> rstr) \<Rightarrow> Clock \<Rightarrow> MapRuntimeEvent \<Rightarrow> TextQueue \<Rightarrow> TextQueue" where
  "handle_map_runtime_event z show ck ev q =
     (case ev of
        OperationCompleted out \<Rightarrow> operation_completed z ck out q
      | MapOperationFailed reason \<Rightarrow>
          (case tq_active q of
             Some op \<Rightarrow> requeue_or_report ck op InFlight (map_reason_text show reason) q | None \<Rightarrow> q))"

section \<open>The radio loop around the queue\<close>

text \<open>A text handed over by the application: \<open>budget\<close> is the size of the dongle's packets, and the two last arguments are
  what the envelope of a multimedia message takes from the clock.\<close>

definition hand_over :: "Clock \<Rightarrow> nat \<Rightarrow> rstr \<Rightarrow> rstr \<Rightarrow> rstr \<Rightarrow> rstr option \<Rightarrow> rstr \<Rightarrow> int \<Rightarrow> TextQueue \<Rightarrow> TextQueue" where
  "hand_over ck budget message_id recipient_phone body msg_type date stamp q =
     (let is_mms = (case msg_type of Some t \<Rightarrow> eq_ignore_ascii_case t (lit ''MMS'') | None \<Rightarrow> False);
          bmessage = (if is_mms then build_mms_push_at recipient_phone body date stamp else build_sms_push recipient_phone body) in
      case take_in message_id recipient_phone (tq_texts q) of
        (New, texts) \<Rightarrow>
          (let wire = push_wire_len (length bmessage); q' = q\<lparr>tq_texts := texts\<rparr> in
           if budget > 0 \<and> wire > budget then
             q'\<lparr>tq_texts := ledger_failed message_id
                (lit ''the text is too long for one message through this dongle ('' @ dec_digits wire @
                 lit '' bytes to send, the dongle takes '' @ dec_digits budget @ lit '') '' @ [8212] @ lit '' shorten it'') texts\<rparr>
           else
             q'\<lparr>tq_pending := tq_pending q @
                [SendReply \<lparr>sr_message_id = message_id, sr_bmessage = bmessage, sr_recipient_phone = recipient_phone,
                   sr_queued_at = stamp_now ck, sr_tried_at = None, sr_attempts = 0, sr_not_before = None,
                   sr_body_head = text_head body, sr_sent_before = NotTaken\<rparr>]\<rparr>)
      | (_, texts) \<Rightarrow> q\<lparr>tq_texts := texts\<rparr>)"

definition requeue_active :: "Clock \<Rightarrow> rstr \<Rightarrow> TextQueue \<Rightarrow> TextQueue" where
  "requeue_active ck reason q =
     (case tq_active q of
        Some op \<Rightarrow> requeue_or_report ck op InFlight reason (q\<lparr>tq_active := None\<rparr>) | None \<Rightarrow> q)"

definition link_dropped :: "Clock \<Rightarrow> TextQueue \<Rightarrow> TextQueue" where
  "link_dropped ck q =
     foldl (\<lambda>q op. requeue_or_report ck op NotStarted (lit ''the phone link dropped before it was sent'') q)
       (requeue_active ck (lit ''the phone link dropped mid-operation'') (q\<lparr>tq_pending := []\<rparr>)) (tq_pending q)"

definition session_stalled :: "Clock \<Rightarrow> TextQueue \<Rightarrow> TextQueue" where
  "session_stalled ck q =
     (let q' = requeue_active ck (lit ''the phone's MAS session stalled'') q in
      case tq_pending q' of
        Subscribe # _ \<Rightarrow> q'
      | _ \<Rightarrow> q'\<lparr>tq_pending := Subscribe # tq_pending q'\<rparr>)"

definition op_carries :: "PendingMapOp list \<Rightarrow> PendingMapOp option \<Rightarrow> rstr \<Rightarrow> bool" where
  "op_carries pending active i =
     ((case active of Some op \<Rightarrow> text_id op = Some i | None \<Rightarrow> False) \<or> list_ex (\<lambda>op. text_id op = Some i) pending)"

definition sweep_texts :: "TextQueue \<Rightarrow> TextQueue" where
  "sweep_texts q = q\<lparr>tq_texts := ledger_sweep (op_carries (tq_pending q) (tq_active q)) (tq_texts q)\<rparr>"

section \<open>Which operation carries a text\<close>

definition put_out :: "TextLedger \<Rightarrow> rstr \<Rightarrow> bool" where
  "put_out l i = (\<exists>t \<in> set (tl_open l). ot_message_id t = i \<and> ot_put_out t)"

text \<open>What an operation in the queue may be: a text waits to be sent, first or again, only when the phone does not have it
  as far as the ledger knows; one that the phone may have waits to be looked for.\<close>

fun op_ok :: "TextLedger \<Rightarrow> PendingMapOp \<Rightarrow> bool" where
  "op_ok l (SendReply t) = (\<not> put_out l (sr_message_id t))"
| "op_ok l (SnapshotSent send) = (case send of SendReply t \<Rightarrow> \<not> put_out l (sr_message_id t) | _ \<Rightarrow> False)"
| "op_ok l (VerifySent send _ _) = (case send of SendReply t \<Rightarrow> True | _ \<Rightarrow> False)"
| "op_ok l _ = True"

fun flight_ok :: "TextLedger \<Rightarrow> PendingMapOp \<Rightarrow> bool" where
  "flight_ok l (SendReply t) = True"
| "flight_ok l op = op_ok l op"

definition carried :: "PendingMapOp list \<Rightarrow> rstr list" where
  "carried ops = List.map_filter text_id ops"

definition ops_ok :: "PendingMapOp list \<Rightarrow> TextLedger \<Rightarrow> bool" where
  "ops_ok ops l = (ledger_inv l \<and> distinct (carried ops) \<and> set (carried ops) \<subseteq> set (open_ids l) \<and> list_all (op_ok l) ops)"

lemma carried_simps [simp]:
  "carried [] = []" "carried (op # ops) = (case text_id op of None \<Rightarrow> carried ops | Some i \<Rightarrow> i # carried ops)"
  "carried (ops @ ops') = carried ops @ carried ops'"
  by (auto simp: carried_def map_filter_simps map_filter_def split: option.split)

lemma op_text: "op_ok l op \<Longrightarrow> text_id op = Some i \<Longrightarrow> \<exists>t. sr_message_id t = i \<and>
    (op = SendReply t \<or> op = SnapshotSent (SendReply t) \<or> (\<exists>f n. op = VerifySent (SendReply t) f n))"
  by (cases op) (auto split: PendingMapOp.splits)

lemma op_ok_cong:
  assumes "\<And>i. text_id op = Some i \<Longrightarrow> put_out l' i = put_out l i"
  shows "op_ok l' op = op_ok l op"
  using assms by (cases op) (auto split: PendingMapOp.split)

text \<open>A change of the ledger that touches one text only keeps the operations that carry others.\<close>

definition touches :: "rstr \<Rightarrow> TextLedger \<Rightarrow> TextLedger \<Rightarrow> bool" where
  "touches i l l' =
     (ledger_inv l' \<and> (\<forall>j. j \<noteq> i \<longrightarrow> put_out l' j = put_out l j \<and> (j \<in> set (open_ids l') \<longleftrightarrow> j \<in> set (open_ids l))))"

lemma ops_ok_touched:
  assumes "ops_ok ops l" "touches i l l'" "i \<notin> set (carried ops)"
  shows "ops_ok ops l'"
proof -
  have "op_ok l' op = op_ok l op" if "op \<in> set ops" for op
  proof (rule op_ok_cong)
    fix j assume "text_id op = Some j"
    with that have "j \<in> set (carried ops)" by (force simp: carried_def map_filter_def)
    with assms(3) have "j \<noteq> i" by blast
    with assms(2) show "put_out l' j = put_out l j" by (simp add: touches_def)
  qed
  then have "list_all (op_ok l') ops" using assms(1) by (auto simp: ops_ok_def list_all_iff)
  moreover have "set (carried ops) \<subseteq> set (open_ids l')"
    using assms unfolding ops_ok_def touches_def by (metis subset_iff)
  ultimately show ?thesis using assms(1,2) by (simp add: ops_ok_def touches_def)
qed

lemma set_remove_first_other: "\<not> P x \<Longrightarrow> x \<in> set (remove_first P xs) \<longleftrightarrow> x \<in> set xs"
  by (induction xs) auto

lemma update_first_other: "\<not> P x \<Longrightarrow> (\<And>y. P (f y) = P y) \<Longrightarrow> x \<in> set (update_first P f xs) \<longleftrightarrow> x \<in> set xs"
  by (induction xs) auto

lemma answers_touches:
  assumes "answers_one i l l'" "ledger_inv l"
  shows "touches i l l'" "i \<notin> set (open_ids l')"
proof -
  have "touches i l l' \<and> i \<notin> set (open_ids l')"
  proof (cases "ledger_is_open i l")
    case True
    then obtain a where a: "l' = ledger_answer i a (l\<lparr>tl_open := remove_first (has_id i) (tl_open l)\<rparr>)"
      using assms(1) by (auto simp: answers_one_def)
    have ids: "open_ids l' = remove1 i (open_ids l)" by (simp add: a open_ids_def remove_first_map)
    have "put_out l' j = put_out l j" if "j \<noteq> i" for j
      using that set_remove_first_other [of "has_id i"] by (auto simp: put_out_def a)
    with ids answers_one_inv [OF assms] assms(2) show ?thesis by (auto simp: touches_def ledger_inv_def)
  next
    case False
    with assms show ?thesis by (auto simp: answers_one_def touches_def is_open_iff)
  qed
  then show "touches i l l'" "i \<notin> set (open_ids l')" by simp_all
qed

lemma put_touches:
  assumes "ledger_inv l"
  shows "touches i l (snd (put_went_out i l))" "touches i l (put_not_taken i l)"
proof -
  have upd: "put_out (l\<lparr>tl_open := update_first (has_id i) (\<lambda>t. t\<lparr>ot_put_out := b\<rparr>) (tl_open l)\<rparr>) j = put_out l j" if "j \<noteq> i" for b j
    using that update_first_other [of "has_id i" _ "\<lambda>t. t\<lparr>ot_put_out := b\<rparr>" "tl_open l"] by (auto simp: put_out_def)
  show "touches i l (snd (put_went_out i l))"
    using assms upd by (auto simp: touches_def put_inv) (auto simp: put_went_out_def split: option.splits if_splits)
  show "touches i l (put_not_taken i l)"
    using assms upd by (auto simp: touches_def put_inv) (auto simp: put_not_taken_def)
qed

lemma cleared_first:
  "distinct (map ot_message_id ts) \<Longrightarrow> t \<in> set (update_first (has_id i) (\<lambda>t. t\<lparr>ot_put_out := False\<rparr>) ts) \<Longrightarrow> has_id i t \<Longrightarrow> \<not> ot_put_out t"
proof (induction ts)
  case (Cons u ts)
  show ?case
  proof (cases "has_id i u")
    case True
    with Cons.prems have "t = u\<lparr>ot_put_out := False\<rparr> \<or> t \<in> set ts" by simp
    moreover have "t \<notin> set ts" using Cons.prems(1,3) True by (metis distinct.simps(2) image_eqI list.set_map list.simps(9))
    ultimately show ?thesis by auto
  next
    case False
    with Cons show ?thesis by (cases "t = u") simp_all
  qed
qed simp

lemma put_not_taken_clears: "ledger_inv l \<Longrightarrow> \<not> put_out (put_not_taken i l) i"
  using cleared_first [of "tl_open l" _ i] by (fastforce simp: put_out_def put_not_taken_def ledger_inv_def open_ids_def)

lemma put_open_ids: "i \<in> set (open_ids l) \<Longrightarrow> i \<in> set (open_ids (snd (put_went_out j l)))" "i \<in> set (open_ids l) \<Longrightarrow> i \<in> set (open_ids (put_not_taken j l))"
  by simp_all

section \<open>The queue keeps every text with one operation\<close>

text \<open>The operation in flight carries a text of its own; it may be one whose PUT is out.\<close>

definition queue_inv :: "TextQueue \<Rightarrow> bool" where
  "queue_inv q =
     (ops_ok (tq_pending q) (tq_texts q) \<and>
      (case tq_active q of
         None \<Rightarrow> True
       | Some op \<Rightarrow> flight_ok (tq_texts q) op \<and>
           (\<forall>i. text_id op = Some i \<longrightarrow> i \<in> set (open_ids (tq_texts q)) \<and> i \<notin> set (carried (tq_pending q)))))"

text \<open>An operation given back to the queue, with what must hold of it.\<close>

definition givable :: "PendingMapOp \<Rightarrow> MapStop \<Rightarrow> PendingMapOp list \<Rightarrow> TextLedger \<Rightarrow> bool" where
  "givable op stop ops l =
     ((if stop = InFlight then flight_ok l op else op_ok l op) \<and>
      (\<forall>i. text_id op = Some i \<longrightarrow> i \<in> set (open_ids l) \<and> i \<notin> set (carried ops)))"

definition kept_ops :: "rstr option \<Rightarrow> TextQueue \<Rightarrow> TextQueue \<Rightarrow> bool" where
  "kept_ops i q q' =
     (ops_ok (tq_pending q') (tq_texts q') \<and> tq_active q' = tq_active q \<and>
      set (carried (tq_pending q')) \<subseteq> set (carried (tq_pending q)) \<union> set_option i \<and>
      (\<forall>j. i \<noteq> Some j \<longrightarrow> put_out (tq_texts q') j = put_out (tq_texts q) j \<and>
         (j \<in> set (open_ids (tq_texts q')) \<longleftrightarrow> j \<in> set (open_ids (tq_texts q)))))"

lemma ops_ok_push:
  assumes "ops_ok ops l" "op_ok l op" "text_id op = Some i" "i \<in> set (open_ids l)" "i \<notin> set (carried ops)"
  shows "ops_ok (ops @ [op]) l" "ops_ok (op # ops) l"
  using assms by (auto simp: ops_ok_def)

lemma requeue_send_kept:
  assumes "ops_ok (tq_pending q) (tq_texts q)" "sr_message_id t = i" "i \<in> set (open_ids (tq_texts q))"
    and "i \<notin> set (carried (tq_pending q))" "stop = InFlight \<or> \<not> put_out (tq_texts q) i"
  shows "kept_ops (Some i) q (requeue_send ck t stop reason q)"
proof -
  let ?l = "tq_texts q"
  have inv: "ledger_inv ?l" using assms(1) by (simp add: ops_ok_def)
  have answered: "kept_ops (Some i) q (q\<lparr>tq_texts := l'\<rparr>)" if "touches i ?l l'" for l'
    using that ops_ok_touched [OF assms(1) that assms(4)] by (auto simp: kept_ops_def touches_def)
  have pushed: "kept_ops (Some i) q (q\<lparr>tq_texts := l', tq_pending := tq_pending q @ [op]\<rparr>)"
    if "touches i ?l l'" "i \<in> set (open_ids l')" "text_id op = Some i" "op_ok l' op" for l' op
    using that ops_ok_push(1) [OF ops_ok_touched [OF assms(1) that(1) assms(4)] that(4,3,2) assms(4)]
    by (auto simp: kept_ops_def touches_def)
  define doubt where "doubt = (stop = InFlight \<and> \<not> phone_answered_error reason)"
  define l1 where "l1 = (if doubt then snd (put_went_out i ?l) else if stop = InFlight then put_not_taken i ?l else ?l)"
  have l1: "touches i ?l l1" "i \<in> set (open_ids l1)" "ledger_inv l1" "doubt \<or> \<not> put_out l1 i"
    using put_touches [OF inv, of i] put_inv [OF inv] assms(3,5) inv put_not_taken_clears [OF inv]
    by (auto simp: l1_def) (auto simp: touches_def)
  have failed: "touches i ?l (ledger_failed i r l1)" for r
    using l1 answers_touches(1) [OF fail_answers l1(3)] by (auto simp: touches_def ledger_failed_def)
  have refused: "touches i ?l (ledger_refused i r ?l)" for r
    using answers_touches(1) [OF fail_answers inv] by (simp add: ledger_refused_def)
  have open_i: "ledger_is_open i ?l" using assms(3) by (simp add: is_open_iff)
  show ?thesis
  proof (cases "push_refusal_code reason")
    case (Some code)
    with open_i show ?thesis
      unfolding requeue_send_def Let_def assms(2) by (simp add: answered [OF refused] del: lit_simps)
  next
    case None
    with None open_i show ?thesis
      unfolding requeue_send_def Let_def assms(2) doubt_def [symmetric] l1_def [symmetric]
      using l1(4) by (auto simp: assms(2) intro!: answered [OF failed] pushed [OF l1(1,2)] simp del: lit_simps)
  qed
qed

lemma kept_same: "ops_ok (tq_pending q') (tq_texts q') \<Longrightarrow> tq_texts q' = tq_texts q \<Longrightarrow> tq_active q' = tq_active q \<Longrightarrow>
    carried (tq_pending q') = carried (tq_pending q) \<Longrightarrow> kept_ops i q q'"
  by (auto simp: kept_ops_def)

lemma kept_fail:
  assumes "ops_ok (tq_pending q) (tq_texts q)" "i \<notin> set (carried (tq_pending q))"
  shows "kept_ops (Some i) q (q\<lparr>tq_texts := ledger_failed i r (tq_texts q)\<rparr>)"
proof -
  have "touches i (tq_texts q) (ledger_failed i r (tq_texts q))"
    using answers_touches(1) [OF fail_answers] assms(1) by (simp add: ops_ok_def ledger_failed_def)
  with ops_ok_touched [OF assms(1) this assms(2)] show ?thesis by (auto simp: kept_ops_def touches_def)
qed

lemma kept_push:
  assumes "ops_ok (tq_pending q) (tq_texts q)" "op_ok (tq_texts q) op"
    and "\<forall>i. text_id op = Some i \<longrightarrow> i \<in> set (open_ids (tq_texts q)) \<and> i \<notin> set (carried (tq_pending q))"
  shows "kept_ops (text_id op) q (q\<lparr>tq_pending := tq_pending q @ [op]\<rparr>)"
    and "kept_ops (text_id op) q (q\<lparr>tq_pending := op # tq_pending q\<rparr>)"
  using assms by (cases "text_id op"; auto simp: kept_ops_def ops_ok_def)+

lemma requeue_kept:
  assumes "ops_ok (tq_pending q) (tq_texts q)" "givable op stop (tq_pending q) (tq_texts q)"
  shows "kept_ops (text_id op) q (requeue_or_report ck op stop reason q)"
proof (cases op)
  case (SendReply t)
  with assms show ?thesis by (auto simp: givable_def intro!: requeue_send_kept split: if_splits)
next
  case (VerifySent send f n)
  with assms(2) obtain t where t: "send = SendReply t" by (auto simp: givable_def split: if_splits PendingMapOp.splits)
  with VerifySent assms have i: "sr_message_id t \<in> set (open_ids (tq_texts q))" "sr_message_id t \<notin> set (carried (tq_pending q))"
    by (auto simp: givable_def)
  then have "ledger_is_open (sr_message_id t) (tq_texts q)" by (simp add: is_open_iff)
  with VerifySent t i show ?thesis
    using kept_fail [OF assms(1) i(2)] kept_push(1) [OF assms(1), of "VerifySent send f m" for m] by (auto simp del: lit_simps)
next
  case (SnapshotSent send)
  with assms(2) obtain t where t: "send = SendReply t" "\<not> put_out (tq_texts q) (sr_message_id t)"
    by (auto simp: givable_def split: if_splits PendingMapOp.splits)
  with SnapshotSent assms show ?thesis by (auto simp: givable_def intro!: requeue_send_kept)
next
  case (FetchMessage h at n)
  with assms show ?thesis by (auto simp: Let_def kept_ops_def ops_ok_def)
qed (use assms in \<open>auto intro: kept_same\<close>)

text \<open>What is kept of the queue when the operation in flight is let go.\<close>

lemma kept_inv: "kept_ops i q q' \<Longrightarrow> tq_active q = None \<Longrightarrow> queue_inv q'"
  by (auto simp: kept_ops_def queue_inv_def)

lemma inv_givable: "queue_inv q \<Longrightarrow> tq_active q = Some op \<Longrightarrow> givable op InFlight (tq_pending q) (tq_texts q)"
  by (simp add: queue_inv_def givable_def)

lemma queue_ops: "queue_inv q \<Longrightarrow> ops_ok (tq_pending q) (tq_texts q)"
  by (simp add: queue_inv_def)

lemma requeue_active_inv: "queue_inv q \<Longrightarrow> queue_inv (requeue_active ck reason q)"
proof (cases "tq_active q")
  case (Some op)
  assume "queue_inv q"
  then have "kept_ops (text_id op) (q\<lparr>tq_active := None\<rparr>) (requeue_or_report ck op InFlight reason (q\<lparr>tq_active := None\<rparr>))"
    using Some inv_givable [of q op] by (intro requeue_kept) (simp_all add: queue_inv_def)
  with Some show ?thesis by (auto simp: requeue_active_def dest: kept_inv)
qed (simp add: requeue_active_def)

lemma requeue_all_inv:
  assumes "ops_ok (tq_pending q @ ops) (tq_texts q)" "tq_active q = None"
  shows "queue_inv (foldl (\<lambda>q op. requeue_or_report ck op NotStarted reason q) q ops) \<and>
    tq_active (foldl (\<lambda>q op. requeue_or_report ck op NotStarted reason q) q ops) = None"
  using assms
proof (induction ops arbitrary: q)
  case Nil
  then show ?case by (simp add: queue_inv_def)
next
  case (Cons op ops)
  let ?q = "requeue_or_report ck op NotStarted reason q"
  have ok: "ops_ok (tq_pending q) (tq_texts q)" "givable op NotStarted (tq_pending q) (tq_texts q)"
    using Cons.prems(1) by (auto simp: ops_ok_def givable_def split: option.splits)
  note k = requeue_kept [OF ok, of ck reason]
  have ops: "ops_ok ops (tq_texts q)" "\<And>i. text_id op = Some i \<Longrightarrow> i \<notin> set (carried ops)"
    using Cons.prems(1) by (auto simp: ops_ok_def split: option.splits)
  have "op_ok (tq_texts ?q) o' = op_ok (tq_texts q) o'" if "o' \<in> set ops" for o'
  proof (rule op_ok_cong)
    fix j assume "text_id o' = Some j"
    with that have "j \<in> set (carried ops)" by (force simp: carried_def map_filter_def)
    with ops(2) have "text_id op \<noteq> Some j" by blast
    with k show "put_out (tq_texts ?q) j = put_out (tq_texts q) j" by (simp add: kept_ops_def)
  qed
  with ops(1) have "list_all (op_ok (tq_texts ?q)) ops" by (simp add: ops_ok_def list_all_iff)
  moreover have "j \<in> set (open_ids (tq_texts ?q))" if "j \<in> set (carried ops)" for j
    using that ops k unfolding kept_ops_def ops_ok_def by (metis subsetD)
  moreover have "set (carried (tq_pending ?q)) \<inter> set (carried ops) = {}"
    using k ops(2) Cons.prems(1) unfolding kept_ops_def ops_ok_def by (cases "text_id op") auto
  ultimately have "ops_ok (tq_pending ?q @ ops) (tq_texts ?q)"
    using k ops(1) by (auto simp: kept_ops_def ops_ok_def)
  with Cons.IH [of ?q] k Cons.prems(2) show ?case by (simp add: kept_ops_def)
qed


section \<open>The other steps\<close>

definition same_text :: "rstr \<Rightarrow> TextLedger \<Rightarrow> TextLedger \<Rightarrow> bool" where
  "same_text j l l' = (put_out l' j = put_out l j \<and> (j \<in> set (open_ids l') \<longleftrightarrow> j \<in> set (open_ids l)))"

lemma same_refl [simp]: "same_text j l l"
  by (simp add: same_text_def)

lemma same_trans: "same_text j l l' \<Longrightarrow> same_text j l' l'' \<Longrightarrow> same_text j l l''"
  by (simp add: same_text_def)

lemma touches_same: "touches i l l' \<Longrightarrow> j \<noteq> i \<Longrightarrow> same_text j l l'"
  by (simp add: touches_def same_text_def)

lemma flight_ok_cong:
  assumes "\<And>i. text_id op = Some i \<Longrightarrow> put_out l' i = put_out l i"
  shows "flight_ok l' op = flight_ok l op"
  using op_ok_cong [of op l' l] assms by (cases op) simp_all

lemma op_ok_flight: "op_ok l op \<Longrightarrow> flight_ok l op"
  by (cases op) simp_all

lemma queue_inv_same:
  assumes "queue_inv q" "ops_ok (tq_pending q') (tq_texts q')" "tq_active q' = tq_active q"
    and "\<And>op i. tq_active q = Some op \<Longrightarrow> text_id op = Some i \<Longrightarrow> same_text i (tq_texts q) (tq_texts q') \<and> i \<notin> set (carried (tq_pending q'))"
  shows "queue_inv q'"
proof (cases "tq_active q")
  case (Some op)
  have "flight_ok (tq_texts q') op = flight_ok (tq_texts q) op"
    by (rule flight_ok_cong) (use assms(4) Some in \<open>simp add: same_text_def\<close>)
  with assms Some show ?thesis by (simp add: queue_inv_def same_text_def)
qed (use assms in \<open>simp add: queue_inv_def\<close>)

lemma queue_inv_other:
  assumes "queue_inv q" "tq_texts q' = tq_texts q" "tq_active q' = tq_active q"
    and "carried (tq_pending q') = carried (tq_pending q)" "list_all (op_ok (tq_texts q)) (tq_pending q')"
  shows "queue_inv q'"
  using assms(1) by (rule queue_inv_same) (use assms in \<open>auto simp: queue_inv_def ops_ok_def\<close>)

lemma failed_touches: "ledger_inv l \<Longrightarrow> touches i l (ledger_failed i r l)"
  using answers_touches(1) [OF fail_answers] by (simp add: ledger_failed_def)

lemma drop_text:
  assumes "ops_ok (pre @ op # ops) l" "text_id op = Some i"
  shows "ops_ok (pre @ ops) (ledger_failed i r l)"
  by (rule ops_ok_touched [where i = i]) (use assms in \<open>auto simp: ops_ok_def failed_touches\<close>)

lemma drop_other: "ops_ok (pre @ op # ops) l \<Longrightarrow> ops_ok (pre @ ops) l"
  by (auto simp: ops_ok_def split: option.splits)

definition drops :: "PendingMapOp list \<Rightarrow> PendingMapOp list \<Rightarrow> TextLedger \<Rightarrow> PendingMapOp list \<times> TextLedger \<Rightarrow> bool" where
  "drops pre ops l x =
     (ops_ok (pre @ fst x) (snd x) \<and> set (carried (fst x)) \<subseteq> set (carried ops) \<and>
      (\<forall>j. j \<notin> set (carried ops) \<longrightarrow> same_text j l (snd x)))"

lemma drops_Cons:
  assumes "drops pre ops l' x" "text_id op = Some i \<and> l' = ledger_failed i r l \<or> l' = l" "ledger_inv l"
  shows "drops pre (op # ops) l x"
proof -
  have "same_text j l l'" if "j \<notin> set (carried (op # ops))" for j
    using assms(2) that touches_same [OF failed_touches [OF assms(3)]] by auto
  with assms(1) show ?thesis unfolding drops_def by (auto dest: same_trans [rotated] intro: same_trans [where l' = l'] split: option.splits)
qed

lemma drops_keep:
  assumes "drops (pre @ [op]) ops l (kept, l')"
  shows "drops pre (op # ops) l (op # kept, l')"
  using assms by (auto simp: drops_def split: option.splits)

lemma switch_drops: "ops_ok (pre @ ops) l \<Longrightarrow> drops pre ops l (switch_ops ops l)"
proof (induction ops l arbitrary: pre rule: switch_ops.induct)
  case (2 op ops texts)
  have inv: "ledger_inv texts" using 2(3) by (simp add: ops_ok_def)
  show ?case
  proof (cases "text_id op")
    case (Some i)
    from "2.IH"(2) [OF Some drop_text [OF 2(3) Some]] Some show ?thesis by (auto intro: drops_Cons inv)
  next
    case None
    obtain kept l' where s: "switch_ops ops texts = (kept, l')" by (cases "switch_ops ops texts")
    show ?thesis
    proof (cases "is_fetch op")
      case True
      from "2.IH"(1) [OF None drop_other [OF 2(3)]] None True s inv show ?thesis by (simp add: drops_Cons [where l' = texts])
    next
      case False
      from "2.IH"(1) [OF None, of "pre @ [op]"] 2(3) None False s show ?thesis by (simp add: drops_keep)
    qed
  qed
qed (simp add: drops_def)

lemma expire_drops: "ops_ok (pre @ ops) l \<Longrightarrow> drops pre ops l (expire_ops ck ops l)"
proof (induction ck ops l arbitrary: pre rule: expire_ops.induct)
  case (2 ck op ops texts)
  have inv: "ledger_inv texts" using 2(3) by (simp add: ops_ok_def)
  show ?case
  proof (cases "op_expired ck op")
    case True
    show ?thesis
    proof (cases "text_id op")
      case None
      with True "2.IH"(1) [OF True] drop_other [OF 2(3)] inv show ?thesis by (simp add: drops_Cons [where l' = texts])
    next
      case (Some i)
      define r where "r = (if is_verify op then lit ''no phone is connected, and the phone may or may not have sent it''
        else lit ''no phone is connected to send it'')"
      then have r: "expire_ops ck (op # ops) texts = expire_ops ck ops (ledger_failed i r texts)"
        using True Some by (simp del: lit_simps)
      have "drops pre ops (ledger_failed i r texts) (expire_ops ck ops (ledger_failed i r texts))"
        using "2.IH"(1) [OF True] drop_text [OF 2(3) Some, of r] Some by (simp add: r_def [symmetric] del: lit_simps)
      with Some show ?thesis unfolding r by (blast intro: drops_Cons [OF _ _ inv])
    qed
  next
    case False
    from "2.IH"(2) [OF False, of "pre @ [op]"] 2(3) False show ?thesis
      by (cases "expire_ops ck ops texts") (simp add: drops_keep)
  qed
qed (simp add: drops_def)

lemma dropped_inv:
  assumes "queue_inv q" "drops [] (tq_pending q) (tq_texts q) (tq_pending q', tq_texts q')" "tq_active q' = tq_active q"
  shows "queue_inv q'"
  using assms(1) by (rule queue_inv_same) (use assms in \<open>auto simp: drops_def queue_inv_def\<close>)

lemma switch_inv: "queue_inv q \<Longrightarrow> queue_inv (switch_map_phone q)"
  using switch_drops [of "[]" "tq_pending q" "tq_texts q"] queue_ops [of q]
  by (auto simp: switch_map_phone_def split_beta intro: dropped_inv [of q])

lemma expire_inv: "queue_inv q \<Longrightarrow> queue_inv (expire_waiting_texts ck q)"
  using expire_drops [of "[]" "tq_pending q" "tq_texts q"] queue_ops [of q]
  by (auto simp: expire_waiting_texts_def split_beta intro: dropped_inv [of q])

lemma fails_same:
  assumes "ledger_inv l" "j \<notin> set is"
  shows "same_text j l (foldl (\<lambda>l i. ledger_failed i r l) l is)"
  using assms
proof (induction "is" arbitrary: l)
  case (Cons i "is")
  have f: "touches i l (ledger_failed i r l)" by (rule failed_touches [OF Cons.prems(1)])
  then have "same_text j (ledger_failed i r l) (foldl (\<lambda>l i. ledger_failed i r l) (ledger_failed i r l) is)"
    using Cons by (simp add: touches_def)
  with f Cons.prems(2) show ?case by (auto intro: same_trans touches_same)
qed simp

lemma fails_ops:
  assumes "ops_ok ops l" "set (carried ops) \<inter> set is = {}"
  shows "ops_ok ops (foldl (\<lambda>l i. ledger_failed i r l) l is)"
  using assms
proof (induction "is" arbitrary: l)
  case (Cons i "is")
  have "ops_ok ops (ledger_failed i r l)"
    by (rule ops_ok_touched [where i = i]) (use Cons.prems in \<open>auto simp: ops_ok_def failed_touches\<close>)
  with Cons show ?case by simp
qed simp

lemma carries_iff:
  "op_carries ops active i \<longleftrightarrow> i \<in> set (carried ops) \<or> (\<exists>op. active = Some op \<and> text_id op = Some i)"
  by (force simp: op_carries_def carried_def map_filter_def list_ex_iff split: option.splits)

lemma sweep_inv: "queue_inv q \<Longrightarrow> queue_inv (sweep_texts q)"
proof -
  assume inv: "queue_inv q"
  let ?is = "map ot_message_id (filter (\<lambda>t. \<not> op_carries (tq_pending q) (tq_active q) (ot_message_id t)) (tl_open (tq_texts q)))"
  have l: "ledger_inv (tq_texts q)" using inv by (simp add: queue_inv_def ops_ok_def)
  have no: "set (carried (tq_pending q)) \<inter> set ?is = {}" by (auto simp: carries_iff)
  show ?thesis
    using inv unfolding sweep_texts_def ledger_sweep_def
    by (rule queue_inv_same) (use inv fails_ops [OF queue_ops [OF inv] no] in \<open>auto simp: queue_inv_def carries_iff intro!: fails_same [OF l]\<close>)
qed

lemma take_in_touches: "ledger_inv l \<Longrightarrow> touches i l (snd (take_in i p l))"
proof -
  assume inv: "ledger_inv l"
  have "put_out (snd (take_in i p l)) j = put_out l j" if "j \<noteq> i" for j
    using that by (auto simp: take_in_def ledger_open_def put_out_def split: option.split)
  moreover have "j \<in> set (open_ids (snd (take_in i p l))) \<longleftrightarrow> j \<in> set (open_ids l)" if "j \<noteq> i" for j
    using that by (auto simp: take_in_def ledger_open_def open_ids_def split: option.split)
  ultimately show ?thesis using take_in_inv [OF inv] by (simp add: touches_def)
qed

lemma take_in_new:
  assumes "fst (take_in i p l) = New"
  shows "i \<notin> set (open_ids l)" "i \<in> set (open_ids (snd (take_in i p l)))" "\<not> put_out (snd (take_in i p l)) i"
proof -
  have no: "\<not> ledger_is_open i l" using assms by (auto simp: take_in_def)
  then show a: "i \<notin> set (open_ids l)" by (simp add: is_open_iff)
  have "tl_open (snd (take_in i p l)) = tl_open l @ [\<lparr>ot_message_id = i, ot_recipient_phone = p, ot_put_out = False\<rparr>]"
    using assms no by (auto simp: take_in_def ledger_open_def is_open_iff open_ids_def split: option.splits if_splits)
  with a show "i \<in> set (open_ids (snd (take_in i p l)))" "\<not> put_out (snd (take_in i p l)) i"
    by (auto simp: put_out_def open_ids_def)
qed

lemma take_in_old: "fst (take_in i p l) \<noteq> New \<Longrightarrow> tl_open (snd (take_in i p l)) = tl_open l"
  by (auto simp: take_in_def split: option.splits)

lemma hand_over_inv:
  assumes "queue_inv q"
  shows "queue_inv (hand_over ck budget i p body ty d st q)"
proof -
  obtain r texts where t: "take_in i p (tq_texts q) = (r, texts)" by (cases "take_in i p (tq_texts q)")
  have inv: "ledger_inv (tq_texts q)" "ops_ok (tq_pending q) (tq_texts q)" using assms by (auto simp: queue_inv_def ops_ok_def)
  have touch: "touches i (tq_texts q) texts" using take_in_touches [OF inv(1), of i p] t by simp
  show ?thesis
  proof (cases "r = New")
    case True
    note new = take_in_new [of i p "tq_texts q", unfolded t fst_conv snd_conv, OF True]
    have free: "i \<notin> set (carried (tq_pending q))" using new(1) inv(2) by (auto simp: ops_ok_def)
    have act: "j \<noteq> i" if "tq_active q = Some op" "text_id op = Some j" for op j
      using assms that new(1) by (auto simp: queue_inv_def)
    have texts: "ops_ok (tq_pending q) texts" by (rule ops_ok_touched [OF inv(2) touch free])
    have li: "ledger_inv texts" using touch by (simp add: touches_def)
    have failed: "touches i (tq_texts q) (ledger_failed i r texts)" for r
      using touch failed_touches [OF li] by (simp add: touches_def)
    have "queue_inv (q\<lparr>tq_texts := ledger_failed i r texts\<rparr>)" for r
      using assms by (rule queue_inv_same)
        (use assms act failed free in \<open>auto simp: queue_inv_def intro: ops_ok_touched [OF inv(2) failed free] touches_same\<close>)
    moreover have "queue_inv (q\<lparr>tq_texts := texts, tq_pending := tq_pending q @ [SendReply t]\<rparr>)" if "sr_message_id t = i" for t
      using assms by (rule queue_inv_same)
        (use assms act touch that new free texts in \<open>auto simp: queue_inv_def intro: ops_ok_push(1) touches_same\<close>)
    ultimately show ?thesis using True t by (simp add: hand_over_def Let_def del: lit_simps)
  next
    case False
    then have same: "tl_open texts = tl_open (tq_texts q)" using take_in_old [of i p "tq_texts q"] t by simp
    have "queue_inv (q\<lparr>tq_texts := texts\<rparr>)"
      using assms
    proof (rule queue_inv_same)
      have "op_ok texts op = op_ok (tq_texts q) op" for op by (rule op_ok_cong) (simp add: put_out_def same)
      with inv(2) touch show "ops_ok (tq_pending (q\<lparr>tq_texts := texts\<rparr>)) (tq_texts (q\<lparr>tq_texts := texts\<rparr>))"
        by (simp add: ops_ok_def open_ids_def same touches_def list_all_iff)
    qed (use assms in \<open>auto simp: same_text_def put_out_def open_ids_def same queue_inv_def\<close>)
    with False t show ?thesis by (cases r) (simp_all add: hand_over_def Let_def)
  qed
qed

text \<open>Operations that carry no text may join the queue at either end.\<close>

fun plain :: "PendingMapOp \<Rightarrow> bool" where
  "plain (SendReply _) = False"
| "plain (SnapshotSent _) = False"
| "plain (VerifySent _ _ _) = False"
| "plain _ = True"

lemma plain_ok: "plain op \<Longrightarrow> text_id op = None \<and> op_ok l op"
  by (cases op) simp_all

lemma plain_inv:
  assumes "queue_inv q" "tq_texts q' = tq_texts q" "tq_active q' = tq_active q" "list_all plain (before @ behind)"
    and "tq_pending q' = before @ tq_pending q @ behind"
  shows "queue_inv q'"
proof (rule queue_inv_other [OF assms(1-3)])
  have none: "carried ops = []" if "list_all plain ops" for ops
    using that by (induction ops) (auto simp: plain_ok)
  show "carried (tq_pending q') = carried (tq_pending q)"
    using assms(4,5) none [of before] none [of behind] by simp
  show "list_all (op_ok (tq_texts q)) (tq_pending q')"
    using assms queue_ops [OF assms(1)] by (auto simp: ops_ok_def list_all_iff plain_ok)
qed

lemma view_inv:
  assumes "queue_inv q" "tq_texts q' = tq_texts q" "tq_active q' = tq_active q" "tq_pending q' = tq_pending q"
  shows "queue_inv q'"
  by (rule plain_inv [OF assms(1-3), of "[]" "[]"]) (use assms(4) in simp_all)

lemma seen_inv: "queue_inv q \<Longrightarrow> queue_inv (q\<lparr>tq_seen := s\<rparr>)" "queue_inv q \<Longrightarrow> queue_inv (q\<lparr>tq_seen := s, tq_seeded := b\<rparr>)" "queue_inv q \<Longrightarrow> queue_inv (q\<lparr>tq_seeded := b\<rparr>)"
  by (rule view_inv; simp)+

lemma queue_fetch_inv: "queue_inv q \<Longrightarrow> queue_inv (queue_fetch ck h q)"
  by (rule plain_inv [where before = "[]" and behind = "[FetchMessage h (ck_at ck) 0]"]) (simp_all add: queue_fetch_def)

lemma take_entry_inv: "queue_inv q \<Longrightarrow> queue_inv (take_entry ck q e)"
  by (auto simp: take_entry_def Let_def queue_fetch_inv seen_inv split: prod.split)

lemma fold_inv: "(\<And>q x. queue_inv q \<Longrightarrow> queue_inv (f q x)) \<Longrightarrow> queue_inv q \<Longrightarrow> queue_inv (foldl f q xs)"
  by (induction xs arbitrary: q) auto

lemma listing_inv: "queue_inv q \<Longrightarrow> queue_inv (handle_inbox_listing z ck bytes q)"
  by (auto simp: handle_inbox_listing_def Let_def seen_inv queue_fetch_inv fold_inv take_entry_inv split: list.split)

lemma mns_event_inv: "queue_inv q \<Longrightarrow> queue_inv (take_mns_event ck q ev)"
  using queue_fetch_inv [of q ck] plain_inv [of q "q\<lparr>tq_pending := tq_pending q @ [PollInbox]\<rparr>" "[]" "[PollInbox]"]
  by (auto simp: take_mns_event_def split: MnsEvent.split Renotified.split)

lemma mns_events_inv: "queue_inv q \<Longrightarrow> queue_inv (snd (drain_mns_events ck server q))"
  by (auto simp: drain_mns_events_def fold_inv mns_event_inv split: prod.split)

section \<open>The end of an operation\<close>

text \<open>What an event leaves, once the operation is no longer in flight.\<close>

lemma let_go:
  assumes "ops_ok (tq_pending q) (tq_texts q)"
  shows "queue_inv (q\<lparr>tq_active := None\<rparr>)"
  using assms by (simp add: queue_inv_def)

lemma sent_ops:
  assumes "ops_ok ops l" "i \<notin> set (carried ops)"
  shows "ops_ok ops (ledger_sent i l)"
  using ops_ok_touched [OF assms(1) answers_touches(1) [OF sent_answers] assms(2)] assms(1) by (simp add: ops_ok_def)

lemma verify_done_ops:
  assumes "ops_ok (tq_pending q) (tq_texts q)" "sr_message_id t \<in> set (open_ids (tq_texts q))"
    and "sr_message_id t \<notin> set (carried (tq_pending q))"
  shows "ops_ok (tq_pending (verify_done z ck t folder bytes q)) (tq_texts (verify_done z ck t folder bytes q))"
proof -
  let ?i = "sr_message_id t" let ?l = "put_not_taken ?i (tq_texts q)"
  have inv: "ledger_inv (tq_texts q)" using assms(1) by (simp add: ops_ok_def)
  have "ops_ok (tq_pending q) ?l" by (rule ops_ok_touched [OF assms(1) put_touches(2) [OF inv] assms(3)])
  then have "ops_ok (SendReply (t\<lparr>sr_not_before := None\<rparr>) # tq_pending q) ?l"
    by (rule ops_ok_push(2)) (use assms put_not_taken_clears [OF inv] in simp_all)
  moreover have "ops_ok (VerifySent (SendReply t) Outbox None # tq_pending q) (tq_texts q)"
    by (rule ops_ok_push(2) [OF assms(1)]) (use assms in simp_all)
  ultimately show ?thesis using sent_ops [OF assms(1,3)] by (simp add: verify_done_def)
qed

lemma completed_ops:
  assumes "queue_inv q"
  shows "ops_ok (tq_pending (operation_completed z ck out q)) (tq_texts (operation_completed z ck out q))"
proof (cases "tq_active q")
  case (Some op)
  have ok: "ops_ok (tq_pending q) (tq_texts q)" "flight_ok (tq_texts q) op"
    and own: "\<And>i. text_id op = Some i \<Longrightarrow> i \<in> set (open_ids (tq_texts q)) \<and> i \<notin> set (carried (tq_pending q))"
    using assms Some by (auto simp: queue_inv_def)
  show ?thesis
  proof (cases op)
    case (SendReply t)
    with Some ok own sent_ops show ?thesis by (simp add: operation_completed_def)
  next
    case (SnapshotSent send)
    with ok(2) obtain t where t: "send = SendReply t" "\<not> put_out (tq_texts q) (sr_message_id t)"
      by (auto split: PendingMapOp.splits)
    have "ops_ok (SendReply (t\<lparr>sr_sent_before := x\<rparr>) # tq_pending q) (tq_texts q)" for x
      by (rule ops_ok_push(2) [OF ok(1), where i = "sr_message_id t"]) (use SnapshotSent t own in auto)
    with Some SnapshotSent t ok show ?thesis by (simp add: operation_completed_def snapshot_done_def Let_def)
  next
    case (VerifySent send folder nb)
    with ok(2) obtain t where "send = SendReply t" by (auto split: PendingMapOp.splits)
    with Some VerifySent ok own verify_done_ops show ?thesis by (simp add: operation_completed_def split: OperationOutput.split)
  next
    case (FetchMessage h at n)
    with Some ok show ?thesis by (auto simp: operation_completed_def fetch_done_def Let_def split: OperationOutput.split prod.split)
  next
    case PollInbox
    with Some ok queue_ops [OF listing_inv [OF assms]] show ?thesis by (simp add: operation_completed_def split: OperationOutput.split)
  qed (use Some ok in \<open>simp_all add: operation_completed_def\<close>)
qed (use assms in \<open>simp add: operation_completed_def queue_ops\<close>)

lemma event_inv: "queue_inv q \<Longrightarrow> queue_inv ((handle_map_runtime_event z show ck ev q)\<lparr>tq_active := None\<rparr>)"
proof (rule let_go)
  assume inv: "queue_inv q"
  let ?r = "handle_map_runtime_event z show ck ev q"
  show "ops_ok (tq_pending ?r) (tq_texts ?r)"
  proof (cases ev)
    case (OperationCompleted out)
    with completed_ops [OF inv] show ?thesis by (simp add: handle_map_runtime_event_def)
  next
    case (MapOperationFailed reason)
    show ?thesis
    proof (cases "tq_active q")
      case (Some op)
      from requeue_kept [OF queue_ops [OF inv] inv_givable [OF inv Some]] MapOperationFailed Some show ?thesis
        by (simp add: handle_map_runtime_event_def kept_ops_def)
    qed (use inv MapOperationFailed in \<open>simp add: handle_map_runtime_event_def queue_ops\<close>)
  qed
qed

section \<open>The start of an operation\<close>

lemma take_first_split: "take_first P xs = Some (x, rest) \<Longrightarrow> \<exists>ys zs. xs = ys @ x # zs \<and> rest = ys @ zs \<and> P x"
proof (induction xs arbitrary: rest)
  case (Cons y xs)
  show ?case
  proof (cases "P y")
    case True
    with Cons.prems show ?thesis by (intro exI [of _ "[]"] exI [of _ xs]) simp
  next
    case False
    with Cons.prems obtain r where "take_first P xs = Some (x, r)" "rest = y # r" by (auto simp: map_option_case split: option.splits)
    with Cons.IH obtain ys zs where "xs = ys @ x # zs" "r = ys @ zs" "P x" by blast
    with \<open>rest = y # r\<close> show ?thesis by (intro exI [of _ "y # ys"] exI [of _ zs]) simp
  qed
qed simp

lemma mark_text [simp]: "text_id (mark_tried ck at op) = text_id op" "op_ok l (mark_tried ck at op) = op_ok l op"
  by (cases op; simp add: mark_tried_def Let_def)+

lemma ready_taken:
  assumes "queue_inv q" "tq_active q = None" "take_ready_op now q = Some (op, q')"
  shows "givable op NotDelivered (tq_pending q') (tq_texts q')" "queue_inv q'" "tq_active q' = None" "op_ok (tq_texts q') op"
    "tq_texts q' = tq_texts q" "tq_last_send_reply_at q' = tq_last_send_reply_at q"
proof -
  obtain ys zs where q: "tq_pending q = ys @ op # zs" "q' = q\<lparr>tq_pending := ys @ zs\<rparr>"
    using assms(3) take_first_split [of "op_ready now" "tq_pending q"] by (auto simp: take_ready_op_def split: option.splits)
  then show "givable op NotDelivered (tq_pending q') (tq_texts q')" "op_ok (tq_texts q') op"
    using queue_ops [OF assms(1)] by (auto simp: ops_ok_def givable_def)
  show "queue_inv q'" using queue_ops [OF assms(1)] drop_other [of ys op zs] q assms(2) by (simp add: queue_inv_def)
qed (use assms in \<open>auto simp: take_ready_op_def split: option.splits\<close>)

lemma givable_mark: "givable (mark_tried ck at op) NotDelivered ops l = givable op NotDelivered ops l"
  by (simp add: givable_def)

lemma started_inv:
  assumes "queue_inv q" "tq_active q = None" "givable op NotDelivered (tq_pending q) (tq_texts q)"
  shows "queue_inv (q\<lparr>tq_active := Some op\<rparr>)"
  using assms op_ok_flight [of "tq_texts q" op] by (auto simp: queue_inv_def givable_def)

lemma given_back_inv:
  assumes "queue_inv q" "tq_active q = None" "givable op NotDelivered (tq_pending q) (tq_texts q)"
  shows "queue_inv (q\<lparr>tq_pending := op # tq_pending q\<rparr>)" "queue_inv (requeue_or_report ck op NotDelivered reason q)"
proof -
  show "queue_inv (q\<lparr>tq_pending := op # tq_pending q\<rparr>)"
    using kept_inv [OF kept_push(2) [OF queue_ops [OF assms(1)]] assms(2)] assms(3) by (simp add: givable_def)
  show "queue_inv (requeue_or_report ck op NotDelivered reason q)"
    using kept_inv [OF requeue_kept [OF queue_ops [OF assms(1)] assms(3)] assms(2)] .
qed

lemma note_put_inv:
  assumes "queue_inv q"
  shows "queue_inv (note_put_out now b q)"
proof (cases "\<exists>t. tq_active q = Some (SendReply t) \<and> b")
  case True
  then obtain t where t: "tq_active q = Some (SendReply t)" b by blast
  have inv: "ops_ok (tq_pending q) (tq_texts q)" "ledger_inv (tq_texts q)" using assms by (simp_all add: queue_inv_def ops_ok_def)
  have own: "sr_message_id t \<in> set (open_ids (tq_texts q))" "sr_message_id t \<notin> set (carried (tq_pending q))"
    using assms t by (simp_all add: queue_inv_def)
  from ops_ok_touched [OF inv(1) put_touches(1) [OF inv(2)] own(2)] own t show ?thesis
    by (simp add: note_put_out_def queue_inv_def split_beta)
next
  case False
  then have "note_put_out now b q = q" by (auto simp: note_put_out_def split: option.split PendingMapOp.split)
  with assms show ?thesis by simp
qed

section \<open>Links that end\<close>

lemma link_dropped_kept: "queue_inv q \<Longrightarrow> queue_inv (link_dropped ck q) \<and> tq_active (link_dropped ck q) = None"
proof -
  assume inv: "queue_inv q"
  let ?q = "requeue_active ck (lit ''the phone link dropped mid-operation'') (q\<lparr>tq_pending := []\<rparr>)"
  have "ops_ok (tq_pending ?q @ tq_pending q) (tq_texts ?q) \<and> tq_active ?q = None"
  proof (cases "tq_active q")
    case None
    with inv show ?thesis by (simp add: requeue_active_def queue_inv_def)
  next
    case (Some op)
    let ?q1 = "q\<lparr>tq_pending := [], tq_active := None\<rparr>"
    have ok: "ops_ok (tq_pending q) (tq_texts q)" and own: "\<And>i. text_id op = Some i \<Longrightarrow> i \<notin> set (carried (tq_pending q))"
      using inv Some by (auto simp: queue_inv_def)
    have "kept_ops (text_id op) ?q1 (requeue_or_report ck op InFlight (lit ''the phone link dropped mid-operation'') ?q1)"
      by (rule requeue_kept) (use inv Some in \<open>auto simp: queue_inv_def givable_def ops_ok_def\<close>)
    then have k: "kept_ops (text_id op) ?q1 ?q" using Some by (simp add: requeue_active_def)
    have "ops_ok (tq_pending q) (tq_texts ?q)"
    proof (cases "text_id op")
      case None
      with k ok show ?thesis using op_ok_cong [of _ "tq_texts ?q" "tq_texts q"]
        by (auto simp: kept_ops_def ops_ok_def list_all_iff)
    next
      case (Some i)
      with k have "touches i (tq_texts q) (tq_texts ?q)" by (simp add: kept_ops_def touches_def ops_ok_def)
      from ops_ok_touched [OF ok this own [OF Some]] show ?thesis .
    qed
    with k own show ?thesis by (cases "text_id op") (auto simp: kept_ops_def ops_ok_def)
  qed
  then show ?thesis unfolding link_dropped_def by (intro requeue_all_inv) simp_all
qed

lemmas link_dropped_inv = link_dropped_kept [THEN conjunct1]
lemmas link_dropped_none = link_dropped_kept [THEN conjunct2]

lemma stalled_inv: "queue_inv q \<Longrightarrow> queue_inv (session_stalled ck q)"
proof -
  assume "queue_inv q"
  let ?q = "requeue_active ck (lit ''the phone's MAS session stalled'') q"
  have inv: "queue_inv ?q" by (rule requeue_active_inv) fact
  have "session_stalled ck q = ?q \<or> session_stalled ck q = ?q\<lparr>tq_pending := Subscribe # tq_pending ?q\<rparr>"
    by (simp add: session_stalled_def Let_def split: list.split PendingMapOp.split del: lit_simps)
  with inv plain_inv [OF inv, of "?q\<lparr>tq_pending := Subscribe # tq_pending ?q\<rparr>" "[Subscribe]" "[]"]
  show ?thesis by (auto simp del: lit_simps)
qed


end
