(* ===== verification/Map_Drive.thy ===== *)
theory Map_Drive
  imports Text_Queue
begin

text \<open>
  The driver of the message queue in \<open>aokie_radio/runtime.rs\<close>: the session that runs one operation after another, what the
  radio loop does with its events, how the next operation starts, and the schedule of inbox listings.  The write to
  the transport is an argument, a packet to the error it gives; so are the texts of the errors of the layers below.
\<close>

section \<open>State\<close>

record 'w MapLoop =
  ml_queue :: TextQueue
  ml_runtime :: "MapRuntime option"
  ml_idle_since :: "instant option"
  ml_last_poll :: "instant option"
  ml_checked_for :: "instant option"
  ml_l2cap :: "'w L2capState"
  ml_shared :: "'w Shared"
  ml_written :: "bytes list"
  ml_errors :: "rstr list"

definition loop_new :: "'w L2capState \<Rightarrow> 'w Shared \<Rightarrow> 'w MapLoop" where
  "loop_new l2 sh = \<lparr>ml_queue = queue_new, ml_runtime = None, ml_idle_since = None, ml_last_poll = None, ml_checked_for = None,
     ml_l2cap = l2, ml_shared = sh, ml_written = [], ml_errors = []\<rparr>"

text \<open>What the driver is given: the clock, the transport, and the texts of errors.\<close>

record MapEnv =
  me_clock :: Clock
  me_zones :: Zones
  me_write :: "bytes \<Rightarrow> rstr option"
  me_show_reason :: "profile_reason \<Rightarrow> rstr"
  me_show_error :: "profile_error \<Rightarrow> rstr"
  me_show_phase :: "MapRuntimePhase \<Rightarrow> rstr"

abbreviation (input) MAP_IDLE_TIMEOUT :: duration where "MAP_IDLE_TIMEOUT \<equiv> 5000"
abbreviation (input) MAS_INSTANCE_ID_FOR_SMS :: u8 where "MAS_INSTANCE_ID_FOR_SMS \<equiv> 0"
abbreviation (input) MNS_ABSENT_POLL_GRACE :: duration where "MNS_ABSENT_POLL_GRACE \<equiv> 20000"
abbreviation (input) INBOX_SAFETY_POLL_INTERVAL :: duration where "INBOX_SAFETY_POLL_INTERVAL \<equiv> 180000"
abbreviation (input) MAS_STALL_THRESHOLD :: duration where "MAS_STALL_THRESHOLD \<equiv> 15000"
abbreviation (input) MAS_STALL_ESCALATION :: duration where "MAS_STALL_ESCALATION \<equiv> 5000"
abbreviation (input) MAP_OP_DEADLINE :: duration where "MAP_OP_DEADLINE \<equiv> 30000"
abbreviation (input) INBOX_POLL_INTERVAL :: duration where "INBOX_POLL_INTERVAL \<equiv> 45000"

section \<open>Writes\<close>

text \<open>Packets written up to the first that fails.\<close>

fun write_until :: "(bytes \<Rightarrow> rstr option) \<Rightarrow> bytes list \<Rightarrow> bytes list \<times> rstr option" where
  "write_until write [] = ([], None)"
| "write_until write (p # ps) =
     (case write p of Some e \<Rightarrow> ([], Some e) | None \<Rightarrow> apfst (Cons p) (write_until write ps))"

definition write_packets :: "(bytes \<Rightarrow> rstr option) \<Rightarrow> rstr \<Rightarrow> bytes list \<Rightarrow> 'w MapLoop \<Rightarrow> rstr option \<times> 'w MapLoop" where
  "write_packets write label ps m =
     (case write_until write ps of
        (sent, err) \<Rightarrow>
          (err, m\<lparr>ml_written := ml_written m @ sent,
             ml_errors := ml_errors m @ (case err of Some e \<Rightarrow> [label @ e] | None \<Rightarrow> [])\<rparr>))"

definition set_queue :: "(TextQueue \<Rightarrow> TextQueue) \<Rightarrow> 'w MapLoop \<Rightarrow> 'w MapLoop" where
  "set_queue f m = m\<lparr>ml_queue := f (ml_queue m)\<rparr>"

section \<open>The session in hand\<close>

definition mns_active :: "MnsServer \<Rightarrow> bool" where
  "mns_active server = (case mn_state server of MnsConnected \<Rightarrow> True | MnsAssemblingPut \<Rightarrow> True | _ \<Rightarrow> False)"

definition session_lost :: "MapEnv \<Rightarrow> rstr \<Rightarrow> 'w MapLoop \<Rightarrow> 'w MapLoop" where
  "session_lost env reason m =
     (set_queue (requeue_active (me_clock env) reason) m)\<lparr>ml_runtime := None, ml_idle_since := None\<rparr>"

text \<open>The first part of \<open>drive_map_runtime\<close>: a tick of the session; the flag says that the driver goes on.\<close>

definition tick_session :: "MapEnv \<Rightarrow> 'w MapLoop \<Rightarrow> bool \<times> 'w MapLoop" where
  "tick_session env m =
     (case ml_runtime m of
        None \<Rightarrow> (True, m)
      | Some rt \<Rightarrow>
          (case map_tick (ck_at (me_clock env)) rt (ml_l2cap m) (ml_shared m) of
             (r, (rt', l2), sh) \<Rightarrow>
               (let m1 = m\<lparr>ml_runtime := Some rt', ml_l2cap := l2, ml_shared := sh\<rparr> in
                case r of
                  Inr packets \<Rightarrow>
                    (case write_packets (me_write env) (lit ''MAP tick ACL write: '') packets m1 of
                       (Some e, m2) \<Rightarrow> (False, session_lost env (lit ''MAP tick ACL write: '' @ e) m2)
                     | (None, m2) \<Rightarrow> (True, set_queue (note_put_out (ck_at (me_clock env)) (put_awaiting_answer rt')) m2))
                | Inl e \<Rightarrow> (True, session_lost env (lit ''MAP tick error: '' @ me_show_error env e) m1))))"

definition take_session_events :: "MapEnv \<Rightarrow> 'w MapLoop \<Rightarrow> 'w MapLoop" where
  "take_session_events env m =
     (case ml_runtime m of
        None \<Rightarrow> m
      | Some rt \<Rightarrow>
          (case map_take_events rt of
             (evs, rt') \<Rightarrow>
               (let m1 = set_queue (\<lambda>q. foldl (\<lambda>q ev. handle_map_runtime_event (me_zones env) (me_show_reason env) (me_clock env) ev q) q evs)
                      (m\<lparr>ml_runtime := Some rt'\<rparr>) in
                if map_is_done rt' \<or> map_is_failed rt' then
                  (set_queue (\<lambda>q. q\<lparr>tq_active := None\<rparr>) m1)\<lparr>ml_runtime := None, ml_idle_since := None\<rparr>
                else if map_is_resting rt' then set_queue (\<lambda>q. q\<lparr>tq_active := None\<rparr>) m1
                else m1)))"

definition feed_pooled_next_op :: "MapEnv \<Rightarrow> MapRuntime \<Rightarrow> PendingMapOp \<Rightarrow> 'w MapLoop \<Rightarrow> 'w MapLoop" where
  "feed_pooled_next_op env rt next_op m =
     (case map_start_next_op (pending_op_to_mas_operation next_op) rt (ml_l2cap m) of
        (Inr packets, rt', l2) \<Rightarrow>
          snd (write_packets (me_write env) (lit ''MAP pooled-op ACL write: '') packets
                 ((set_queue (\<lambda>q. q\<lparr>tq_active := Some next_op\<rparr>) m)\<lparr>ml_runtime := Some rt', ml_l2cap := l2, ml_idle_since := None\<rparr>))
      | (Inl e, rt', l2) \<Rightarrow>
          (case map_request_disconnect rt' l2 of
             (_, rt'', l2') \<Rightarrow>
               (set_queue (\<lambda>q. q\<lparr>tq_pending := next_op # tq_pending q\<rparr>) m)
                 \<lparr>ml_runtime := Some rt'', ml_l2cap := l2', ml_idle_since := None\<rparr>))"

text \<open>The next operation of the queue, as both ways to start one take it.\<close>

definition take_next_op :: "MapEnv \<Rightarrow> 'w MapLoop \<Rightarrow> (PendingMapOp \<times> 'w MapLoop) option" where
  "take_next_op env m =
     (case take_ready_op (ck_at (me_clock env)) (ml_queue m) of
        None \<Rightarrow> None
      | Some (op, q) \<Rightarrow> Some (mark_tried (me_clock env) (tq_last_send_reply_at q) op, m\<lparr>ml_queue := q\<rparr>))"

definition feed_resting :: "MapEnv \<Rightarrow> bool \<Rightarrow> bool \<Rightarrow> 'w MapLoop \<Rightarrow> 'w MapLoop" where
  "feed_resting env pbap_busy fresh_work_allowed m =
     (case ml_runtime m of
        None \<Rightarrow> m
      | Some rt \<Rightarrow>
          if map_is_resting rt then
            (if fresh_work_allowed \<and> \<not> pbap_busy \<and> tq_pending (ml_queue m) \<noteq> [] then
               (case take_next_op env m of None \<Rightarrow> m | Some (op, m') \<Rightarrow> feed_pooled_next_op env rt op m')
             else if tq_pending (ml_queue m) = [] \<and> ml_idle_since m = None then m\<lparr>ml_idle_since := Some (ck_at (me_clock env))\<rparr>
             else m)
          else m)"

definition idle_disconnect :: "MapEnv \<Rightarrow> bool \<Rightarrow> MnsServer \<Rightarrow> 'w MapLoop \<Rightarrow> 'w MapLoop" where
  "idle_disconnect env fresh_work_allowed server m =
     (case (ml_runtime m, ml_idle_since m) of
        (Some rt, Some since) \<Rightarrow>
          if fresh_work_allowed \<and> map_is_resting rt \<and> ck_at (me_clock env) - since \<ge> MAP_IDLE_TIMEOUT \<and> \<not> mns_active server then
            (case map_request_disconnect rt (ml_l2cap m) of
               (r, rt', l2) \<Rightarrow>
                 (let packets = (case r of Inr ps \<Rightarrow> ps | Inl _ \<Rightarrow> []) in
                  m\<lparr>ml_runtime := Some rt', ml_l2cap := l2, ml_idle_since := None,
                    ml_written := ml_written m @ filter (\<lambda>p. me_write env p = None) packets,
                    ml_errors := ml_errors m @
                      List.map_filter (\<lambda>p. map_option ((@) (lit ''MAP idle-disconnect ACL write: '')) (me_write env p)) packets\<rparr>))
          else m
      | _ \<Rightarrow> m)"

text \<open>\<open>buffer\<close> is the inbound buffer of the new session.  A packet that is not written takes the session with it, before it
  is in hand.\<close>

definition start_map_operation ::
    "MapEnv \<Rightarrow> nat \<Rightarrow> PendingMapOp \<Rightarrow> u16 option \<Rightarrow> 'w MapLoop \<Rightarrow> (PendingMapOp \<times> rstr + unit) \<times> 'w MapLoop" where
  "start_map_operation env buffer op active_acl_handle m =
     (case active_acl_handle of
        None \<Rightarrow> (Inl (op, lit ''no phone is connected''), m)
      | Some handle \<Rightarrow>
          (let rt = enable_pooling (map_runtime_new buffer handle (pending_op_to_mas_operation op) MAS_INSTANCE_ID_FOR_SMS) in
           case map_start (ck_at (me_clock env)) rt (ml_l2cap m) of
             (Inr packets, rt', l2) \<Rightarrow>
               (case write_packets (me_write env) (lit ''MAP start ACL write: '') packets (m\<lparr>ml_l2cap := l2\<rparr>) of
                  (Some e, m') \<Rightarrow> (Inl (op, lit ''MAP start ACL write: '' @ e), m')
                | (None, m') \<Rightarrow> (Inr (), (set_queue (\<lambda>q. q\<lparr>tq_active := Some op\<rparr>) m')\<lparr>ml_runtime := Some rt'\<rparr>))
           | (Inl phase, rt', l2) \<Rightarrow>
               (Inl (op, lit ''MAP start: '' @ me_show_phase env phase),
                m\<lparr>ml_l2cap := l2, ml_errors := ml_errors m @ [lit ''MAP start: '' @ me_show_phase env phase]\<rparr>)))"

definition start_fresh :: "MapEnv \<Rightarrow> nat \<Rightarrow> u16 option \<Rightarrow> bool \<Rightarrow> bool \<Rightarrow> 'w MapLoop \<Rightarrow> 'w MapLoop" where
  "start_fresh env buffer active_acl_handle pbap_busy fresh_work_allowed m =
     (if ml_runtime m = None \<and> active_acl_handle \<noteq> None \<and> tq_pending (ml_queue m) \<noteq> [] \<and> \<not> pbap_busy \<and> fresh_work_allowed then
        (case take_next_op env m of
           None \<Rightarrow> m
         | Some (op, m') \<Rightarrow>
             (case start_map_operation env buffer op active_acl_handle m' of
                (Inl (op', why), m'') \<Rightarrow> set_queue (requeue_or_report (me_clock env) op' NotDelivered why) m''
              | (Inr _, m'') \<Rightarrow> m''))
      else m)"

definition drive_map_runtime :: "MapEnv \<Rightarrow> nat \<Rightarrow> u16 option \<Rightarrow> MnsServer \<Rightarrow> bool \<Rightarrow> bool \<Rightarrow> 'w MapLoop \<Rightarrow> 'w MapLoop" where
  "drive_map_runtime env buffer active_acl_handle server pbap_busy fresh_work_allowed m0 =
     (let m1 = (if active_acl_handle = None then set_queue (expire_waiting_texts (me_clock env)) m0 else m0) in
      case tick_session env m1 of
        (False, m2) \<Rightarrow> m2
      | (True, m2) \<Rightarrow>
          (let m3 = start_fresh env buffer active_acl_handle pbap_busy fresh_work_allowed
                 (idle_disconnect env fresh_work_allowed server
                   (feed_resting env pbap_busy fresh_work_allowed (take_session_events env m2))) in
           case ml_runtime m3 of
             Some rt \<Rightarrow> set_queue (note_put_out (ck_at (me_clock env)) (put_awaiting_answer rt)) m3
           | None \<Rightarrow> m3))"

section \<open>Around the driver\<close>

text \<open>The link to the phone is gone: \<open>NewMessage\<close> handles and the seeding stay, everything of the session goes.\<close>

definition map_link_lost :: "MapEnv \<Rightarrow> 'w MapLoop \<Rightarrow> 'w MapLoop" where
  "map_link_lost env m =
     (set_queue (\<lambda>q. (link_dropped (me_clock env) q)\<lparr>tq_last_send_reply_at := None\<rparr>) m)
       \<lparr>ml_runtime := None, ml_idle_since := None, ml_last_poll := None\<rparr>"

definition inbox_poll_every :: "bool \<Rightarrow> duration" where
  "inbox_poll_every notifications_up = (if notifications_up then INBOX_SAFETY_POLL_INTERVAL else INBOX_POLL_INTERVAL)"

text \<open>The schedule of inbox listings at the end of a turn of the loop; \<open>quiet\<close> says that a phone is connected, that no call
  and no phone-book fetch is under way.\<close>

definition schedule_inbox_poll :: "instant \<Rightarrow> bool \<Rightarrow> MnsServer \<Rightarrow> instant option \<Rightarrow> 'w MapLoop \<Rightarrow> 'w MapLoop" where
  "schedule_inbox_poll now quiet server subscribe_attempted_at m =
     (let q = ml_queue m;
          up = mns_active server;
          never_arrived = (\<not> up \<and> (case subscribe_attempted_at of Some t \<Rightarrow> now - t \<ge> MNS_ABSENT_POLL_GRACE | None \<Rightarrow> False));
          send_quiet = (case tq_last_send_reply_at q of None \<Rightarrow> True | Some t \<Rightarrow> now - t \<ge> POLL_SKIP_AFTER_REPLY) in
      if quiet \<and> tq_active q = None \<and> tq_pending q = [] \<and> (up \<or> never_arrived) \<and> send_quiet then
        (let due = (case ml_last_poll m of None \<Rightarrow> True | Some t \<Rightarrow> now - t \<ge> inbox_poll_every up);
             check = (case tq_last_send_reply_at q of Some at \<Rightarrow> ml_checked_for m \<noteq> Some at | None \<Rightarrow> False);
             q1 = (if check then q\<lparr>tq_pending := tq_pending q @ [CheckSent Outbox, CheckSent SentFolder]\<rparr> else q);
             q2 = (if due then q1\<lparr>tq_pending := tq_pending q1 @ [PollInbox],
                         tq_seed_attempts := (if tq_seeded q then tq_seed_attempts q else tq_seed_attempts q + 1)\<rparr> else q1) in
         m\<lparr>ml_queue := q2, ml_last_poll := (if due then Some now else ml_last_poll m),
           ml_checked_for := (if check then tq_last_send_reply_at q else ml_checked_for m)\<rparr>)
      else m)"

definition subscribe_now :: "'w MapLoop \<Rightarrow> 'w MapLoop" where
  "subscribe_now m = set_queue (\<lambda>q. q\<lparr>tq_pending := Subscribe # tq_pending q\<rparr>) m"

section \<open>The watch over the session\<close>

record StallWatch =
  sw_last_acl_inbound_at :: instant
  sw_recovery_attempted_at :: "instant option"
  sw_active_since :: "instant option"
  sw_prev_work :: bool

datatype stall_action =
    StallNothing
  | StallRecover u16
  | StallDisconnect u16

definition work_pending :: "'w MapLoop \<Rightarrow> bool" where
  "work_pending m = (tq_active (ml_queue m) \<noteq> None \<or> tq_pending (ml_queue m) \<noteq> [])"

definition watch_look :: "instant \<Rightarrow> 'w MapLoop \<Rightarrow> StallWatch \<Rightarrow> StallWatch" where
  "watch_look now m w =
     (let pending = work_pending m;
          w1 = w\<lparr>sw_last_acl_inbound_at := (if pending \<and> \<not> sw_prev_work w then now else sw_last_acl_inbound_at w),
                 sw_prev_work := pending,
                 sw_active_since := (if tq_active (ml_queue m) = None then None
                                     else case sw_active_since w of None \<Rightarrow> Some now | Some t \<Rightarrow> Some t)\<rparr>
      in if now - sw_last_acl_inbound_at w1 < MAS_STALL_THRESHOLD then w1\<lparr>sw_recovery_attempted_at := None\<rparr> else w1)"

definition stall_watch :: "instant \<Rightarrow> u16 option \<Rightarrow> 'w MapLoop \<Rightarrow> StallWatch \<Rightarrow> stall_action \<times> StallWatch" where
  "stall_watch now active_acl_handle m w0 =
     (let w = watch_look now m w0;
          acl_silent = (now - sw_last_acl_inbound_at w \<ge> MAS_STALL_THRESHOLD);
          op_overdue = (case sw_active_since w of Some t \<Rightarrow> now - t \<ge> MAP_OP_DEADLINE | None \<Rightarrow> False) in
      case active_acl_handle of
        None \<Rightarrow> (StallNothing, w)
      | Some handle \<Rightarrow>
          if work_pending m \<and> (acl_silent \<or> op_overdue) then
            (case sw_recovery_attempted_at w of
               Some stage1_at \<Rightarrow>
                 if now - stage1_at \<ge> MAS_STALL_ESCALATION
                 then (StallDisconnect handle, w\<lparr>sw_recovery_attempted_at := None, sw_last_acl_inbound_at := now\<rparr>)
                 else (StallNothing, w)
             | None \<Rightarrow>
                 (case find_open_rfcomm_cid (ml_l2cap m) of
                    Some cid \<Rightarrow> (StallRecover cid, w\<lparr>sw_recovery_attempted_at := Some now\<rparr>)
                  | None \<Rightarrow> (StallNothing, w\<lparr>sw_last_acl_inbound_at := now, sw_recovery_attempted_at := None\<rparr>)))
          else (StallNothing, w))"

text \<open>A \<open>DISC\<close> for a channel of the shared multiplexer: an error to build it is only logged.\<close>

definition force_disc :: "MapEnv \<Rightarrow> rstr \<Rightarrow> u16 \<Rightarrow> u8 \<Rightarrow> 'w MapLoop \<Rightarrow> 'w MapLoop" where
  "force_disc env label cid dlci m =
     (case rfcomm_force_disc_dlci cid dlci (ml_l2cap m) of
        Inl e \<Rightarrow> m
      | Inr (packet, l2) \<Rightarrow> snd (write_packets (me_write env) label [packet] (m\<lparr>ml_l2cap := l2\<rparr>)))"

definition map_stall_recovery :: "MapEnv \<Rightarrow> u16 \<Rightarrow> MnsServer \<Rightarrow> 'w MapLoop \<Rightarrow> 'w MapLoop \<times> MnsServer" where
  "map_stall_recovery env cid server m =
     (let m1 = force_disc env (lit ''MAS stall recovery: dlci 11 DISC write: '') cid 11 m;
          m2 = (if mn_state server \<noteq> MnsAwaitingConnect
                then force_disc env (lit ''MAS stall recovery: dlci 4 DISC write: '') cid 4 m1 else m1)
      in ((set_queue (session_stalled (me_clock env)) m2)\<lparr>ml_runtime := None, ml_idle_since := None\<rparr>, mns_reset server))"

section \<open>A session that told its outcome is over\<close>

definition map_over :: "MapRuntime \<Rightarrow> bool" where
  "map_over rt = (map_is_done rt \<or> map_is_failed rt \<or> map_is_resting rt)"

definition told_over :: "MapRuntime \<Rightarrow> bool" where
  "told_over rt = (mr_pending_events rt = [] \<or> map_over rt)"

lemmas over_defs = told_over_def map_over_def map_is_done_def map_is_failed_def map_is_resting_def

lemma told_quiet [simp]: "mr_pending_events rt = [] \<Longrightarrow> told_over rt"
  by (simp add: told_over_def)

lemma told_at_end [simp]: "mr_phase rt = MrDone \<Longrightarrow> told_over rt" "mr_phase rt = MrFailed e \<Longrightarrow> told_over rt"
  by (simp_all add: over_defs)

lemma fail_over [simp]: "told_over (fst (snd (map_fail reason cid out rt s)))"
  by (simp add: map_fail_def over_defs Let_def split_beta)

lemma after_over:
  assumes "mr_pending_events rt = []" "\<And>session b. map_over (rt\<lparr>mr_phase := resting session b\<rparr>)"
  shows "told_over (fst (snd (map_after cid close phase resting out d rt s)))"
proof -
  have "told_over (rt\<lparr>mr_pending_events := evs, mr_phase := resting session b\<rparr>)" for evs session b
    using assms(2) [of session b] by (simp add: over_defs)
  then show ?thesis using assms(1)
    by (auto simp: map_after_def Let_def split_beta split: driven.split MasState.split)
qed

lemma sdp_over:
  assumes "mr_pending_events rt = []"
  shows "told_over (fst (snd (map_sdp_inbound now cid buffer ls n rt s)))"
proof -
  have "told_over (fst (snd (map_sdp_done now cid ch rt s)))" if "mr_pending_events rt = []" for ch and rt :: MapRuntime
    using that by (auto simp: map_sdp_done_def Let_def split_beta split: option.split sum.split)
  moreover have "mr_pending_events rt' = []" if "extract_mas_channel_from_attribute_lists ls rt = Inr (ch, rt')" for ls ch rt'
    using that assms by (auto simp: extract_mas_channel_from_attribute_lists_def split: sum.splits option.splits if_splits)
  ultimately show ?thesis using assms
    by (auto simp: map_sdp_inbound_def Let_def split: SdpReply.split sum.split prod.split)
qed

lemma rfcomm_over: "mr_pending_events rt = [] \<Longrightarrow> told_over (fst (snd (map_rfcomm_events cid evs client out rt s)))"
proof (induction evs)
  case (Cons ev evs)
  then show ?case
    by (cases ev) (auto split: prod.split option.split sum.split)
qed simp

lemma session_over: "mr_pending_events rt = [] \<Longrightarrow> told_over (fst (snd (map_session_events cid evs client session buffer out rt s)))"
proof (induction evs arbitrary: client session buffer out s)
  case (Cons ev evs)
  have rest: "told_over (fst (snd (map_after c close phase (MrResting cid client') out' d rt s')))" for c close phase client' out' d s'
    by (rule after_over [OF Cons.prems]) (simp_all add: over_defs)
  show ?case using Cons
    by (cases ev) (auto simp: rest split: prod.split driven.split)
qed simp

lemma inbound_over: "told_over rt \<Longrightarrow> told_over (fst (snd (map_consume_inbound now cid bytes rt s)))"
proof (cases "mr_pending_events rt = []")
  case True
  moreover have "told_over (rt\<lparr>mr_phase := MrDone\<rparr>)" by (simp add: over_defs)
  moreover assume "told_over rt"
  ultimately show ?thesis
    by (auto simp: map_consume_inbound_def Let_def sdp_over rfcomm_over session_over split: MapRuntimePhase.split sum.split prod.split)
next
  case False
  moreover assume "told_over rt"
  ultimately have "map_consume_inbound now cid bytes rt s = (Inr [], rt, s)"
    by (auto simp: map_consume_inbound_def over_defs split: MapRuntimePhase.splits)
  with \<open>told_over rt\<close> show ?thesis by simp
qed

lemma shared_over: "told_over rt \<Longrightarrow> told_over (fst (snd (map_consume_shared_event ev rt s)))"
proof (cases "mr_pending_events rt = []")
  case True
  have rest: "told_over (fst (snd (map_after c close phase (MrRestingShared cid d) out' v (rt\<lparr>mr_phase := MrDone\<rparr>) s')))"
    for c close phase cid d out' v s'
    by (rule after_over) (simp_all add: True over_defs)
  have none: "told_over (rt\<lparr>mr_phase := p\<rparr>)" for p using True by simp
  assume "told_over rt"
  with True none rest show ?thesis
    by (auto simp: map_consume_shared_event_def Let_def split: ClientDlciEvent.split MapRuntimePhase.split sum.split prod.split option.split)
next
  case False
  assume "told_over rt"
  with False have "map_consume_shared_event ev rt s = (Inr [], rt, s) \<or> (\<exists>reason. map_consume_shared_event ev rt s = map_fail reason None [] rt s)"
    by (cases ev) (auto simp: map_consume_shared_event_def over_defs split: MapRuntimePhase.splits)
  with \<open>told_over rt\<close> show ?thesis by auto
qed

lemma pieces_over:
  assumes "\<And>c rt s. told_over rt \<Longrightarrow> told_over (fst (snd (f c (rt, s))))" "told_over rt"
  shows "told_over (fst (snd (take_pieces f cs (rt, s))))"
  using assms(2)
proof (induction cs arbitrary: rt s)
  case (Cons c cs)
  obtain r rt' s' where f: "f c (rt, s) = (r, rt', s')" by (metis prod_cases3)
  with assms(1) [OF Cons.prems, of c s] have "told_over rt'" by simp
  with Cons.IH [of rt' s'] f show ?case by (cases r) (auto split: prod.split sum.split)
qed simp

lemma chain_over:
  assumes "told_over (fst (snd x))" "\<And>rt s. told_over rt \<Longrightarrow> told_over (fst (snd (f (rt, s))))"
  shows "told_over (fst (snd (chain f x)))"
proof -
  obtain r rt s where "x = (r, rt, s)" by (metis prod_cases3)
  with assms(1) assms(2) [of rt s] show ?thesis by (cases r) (auto split: prod.split sum.split)
qed

lemma outbound_over: "told_over rt \<Longrightarrow> told_over (fst (snd (map_drive_outbound (rt, s))))"
proof (cases "mr_pending_events rt = []")
  case True
  then show "told_over rt \<Longrightarrow> ?thesis"
    by (auto simp: map_drive_outbound_def split: MapRuntimePhase.splits option.split sum.split prod.split)
next
  case False
  assume "told_over rt"
  with False have "map_drive_outbound (rt, s) = (Inr [], rt, s)"
    by (auto simp: map_drive_outbound_def over_defs split: MapRuntimePhase.splits)
  with \<open>told_over rt\<close> show ?thesis by simp
qed

lemma drain_over: "told_over rt \<Longrightarrow> told_over (fst (snd (map_drain_shared (rt, s))))"
  by (auto simp: map_drain_shared_def map_consume_events_def Let_def shared_over intro!: pieces_over split: option.split prod.split)

lemma tick_over: "told_over rt \<Longrightarrow> told_over (fst (fst (snd (map_tick now rt s sh))))"
proof -
  assume "told_over rt"
  then have "told_over (fst (snd (map_consume_all now inbound (rt, s))))" for inbound
    unfolding map_consume_all_def by (rule pieces_over [rotated]) (auto simp: inbound_over)
  then have "told_over (fst (snd (chain map_drive_outbound (chain map_drain_shared (map_consume_all now inbound (rt, s))))))" for inbound
    by (intro chain_over outbound_over drain_over)
  then show ?thesis by (simp add: map_tick_def Let_def split_beta)
qed

section \<open>The driver keeps the queue\<close>

definition loop_inv :: "'w MapLoop \<Rightarrow> bool" where
  "loop_inv m =
     (queue_inv (ml_queue m) \<and>
      (case ml_runtime m of
         None \<Rightarrow> tq_active (ml_queue m) = None
       | Some rt \<Rightarrow> mr_pending_events rt = []))"

text \<open>No more than one event in the tick to come; see \<open>answer_then_failure\<close> below for two.\<close>

definition one_event :: "MapEnv \<Rightarrow> 'w MapLoop \<Rightarrow> bool" where
  "one_event env m =
     (case ml_runtime m of
        None \<Rightarrow> True
      | Some rt \<Rightarrow> length (mr_pending_events (fst (fst (snd (map_tick (ck_at (me_clock env)) rt (ml_l2cap m) (ml_shared m)))))) \<le> 1)"

lemma write_fields [simp]:
  "ml_queue (snd (write_packets w l ps m)) = ml_queue m" "ml_runtime (snd (write_packets w l ps m)) = ml_runtime m"
  "ml_idle_since (snd (write_packets w l ps m)) = ml_idle_since m" "ml_l2cap (snd (write_packets w l ps m)) = ml_l2cap m"
  by (simp_all add: write_packets_def split_beta)

lemma write_case:
  "(case write_packets w l ps m of (Some e, m') \<Rightarrow> f e m' | (None, m') \<Rightarrow> g m') =
   (case fst (write_packets w l ps m) of Some e \<Rightarrow> f e (snd (write_packets w l ps m)) | None \<Rightarrow> g (snd (write_packets w l ps m)))"
  by (simp split: prod.split option.split)

lemma set_queue_fields [simp]:
  "ml_queue (set_queue f m) = f (ml_queue m)" "ml_runtime (set_queue f m) = ml_runtime m"
  "ml_idle_since (set_queue f m) = ml_idle_since m" "ml_l2cap (set_queue f m) = ml_l2cap m"
  "ml_shared (set_queue f m) = ml_shared m"
  by (simp_all add: set_queue_def)

lemma note_put_active [simp]: "tq_active (note_put_out now b q) = tq_active q"
  by (auto simp: note_put_out_def split: option.split PendingMapOp.split prod.split)

lemma requeue_active_none: "queue_inv q \<Longrightarrow> tq_active (requeue_active ck r q) = None"
proof (cases "tq_active q")
  case (Some op)
  assume "queue_inv q"
  then have "kept_ops (text_id op) (q\<lparr>tq_active := None\<rparr>) (requeue_or_report ck op InFlight r (q\<lparr>tq_active := None\<rparr>))"
    using Some inv_givable [of q op] by (intro requeue_kept) (simp_all add: queue_inv_def)
  with Some show ?thesis by (simp add: requeue_active_def kept_ops_def)
qed (simp add: requeue_active_def)

lemma session_lost_inv: "queue_inv (ml_queue m) \<Longrightarrow> loop_inv (session_lost env r m)"
  by (simp add: session_lost_def loop_inv_def requeue_active_inv requeue_active_none)

text \<open>After the tick: the queue is kept, and a session in hand has its events with it.\<close>

definition ticked :: "'w MapLoop \<Rightarrow> bool" where
  "ticked m =
     (queue_inv (ml_queue m) \<and>
      (case ml_runtime m of
         None \<Rightarrow> tq_active (ml_queue m) = None
       | Some rt \<Rightarrow> told_over rt \<and> length (mr_pending_events rt) \<le> 1))"

lemma loop_ticked: "loop_inv m \<Longrightarrow> ticked m"
  by (auto simp: loop_inv_def ticked_def split: option.splits)

lemma tick_session_inv:
  assumes "loop_inv m" "one_event env m" "tick_session env m = (go, m')"
  shows "ticked m'" "\<not> go \<Longrightarrow> loop_inv m'"
proof -
  have inv: "queue_inv (ml_queue m)" using assms(1) by (simp add: loop_inv_def)
  have "ticked m' \<and> (\<not> go \<longrightarrow> loop_inv m')"
  proof (cases "ml_runtime m")
    case None
    with assms show ?thesis by (auto simp: tick_session_def loop_ticked)
  next
    case (Some rt)
    obtain r rt' l2 sh where t: "map_tick (ck_at (me_clock env)) rt (ml_l2cap m) (ml_shared m) = (r, (rt', l2), sh)"
      by (metis surj_pair)
    have over: "told_over rt'" using tick_over [of rt "ck_at (me_clock env)" "ml_l2cap m" "ml_shared m"] assms(1) Some t
      by (simp add: loop_inv_def)
    have one: "length (mr_pending_events rt') \<le> 1" using assms(2) Some t by (simp add: one_event_def)
    show ?thesis
    proof (cases r)
      case (Inl e)
      with assms(3) Some t inv show ?thesis
        by (auto simp: tick_session_def Let_def intro!: session_lost_inv loop_ticked)
    next
      case (Inr packets)
      define m2 where "m2 = snd (write_packets (me_write env) (lit ''MAP tick ACL write: '') packets
        (m\<lparr>ml_runtime := Some rt', ml_l2cap := l2, ml_shared := sh\<rparr>))"
      have q: "ml_queue m2 = ml_queue m" "ml_runtime m2 = Some rt'" by (simp_all add: m2_def)
      then have lost: "loop_inv (session_lost env why m2)" for why using inv by (intro session_lost_inv) simp
      have on: "ticked (set_queue (note_put_out (ck_at (me_clock env)) (put_awaiting_answer rt')) m2)"
        using q inv over one by (simp add: ticked_def note_put_inv)
      show ?thesis using assms(3) Some t Inr lost on loop_ticked [OF lost]
        by (auto simp: tick_session_def Let_def write_case m2_def [symmetric] simp del: lit_simps split: option.splits)
    qed
  qed
  then show "ticked m'" "\<not> go \<Longrightarrow> loop_inv m'" by auto
qed

lemma events_inv:
  assumes "ticked m"
  shows "loop_inv (take_session_events env m)"
    and "ml_runtime (take_session_events env m) = Some rt \<Longrightarrow> map_is_resting rt \<Longrightarrow> tq_active (ml_queue (take_session_events env m)) = None"
proof -
  have inv: "queue_inv (ml_queue m)" using assms by (simp add: ticked_def)
  have "loop_inv (take_session_events env m) \<and> (ml_runtime (take_session_events env m) = Some rt \<longrightarrow> map_is_resting rt \<longrightarrow>
      tq_active (ml_queue (take_session_events env m)) = None)"
  proof (cases "ml_runtime m")
    case None
    with assms show ?thesis by (simp add: take_session_events_def loop_inv_def ticked_def)
  next
    case (Some r0)
    have t: "told_over r0" "length (mr_pending_events r0) \<le> 1" using assms Some by (simp_all add: ticked_def)
    let ?r = "r0\<lparr>mr_pending_events := []\<rparr>"
    have over: "map_is_done ?r = map_is_done r0" "map_is_failed ?r = map_is_failed r0" "map_is_resting ?r = map_is_resting r0"
      by (simp_all add: over_defs)
    show ?thesis
    proof (cases "mr_pending_events r0")
      case Nil
      have "queue_inv ((ml_queue m)\<lparr>tq_active := None\<rparr>)" by (rule let_go [OF queue_ops [OF inv]])
      with Nil Some inv over show ?thesis
        by (auto simp: take_session_events_def map_take_events_def loop_inv_def Let_def)
    next
      case (Cons ev evs)
      then have evs: "evs = []" "map_over r0" using t by (auto simp: told_over_def)
      with Cons Some event_inv [OF inv] over show ?thesis
        by (auto simp: take_session_events_def map_take_events_def loop_inv_def Let_def map_over_def)
    qed
  qed
  then show "loop_inv (take_session_events env m)"
    and "ml_runtime (take_session_events env m) = Some rt \<Longrightarrow> map_is_resting rt \<Longrightarrow> tq_active (ml_queue (take_session_events env m)) = None"
    by blast+
qed

lemma taken_op:
  assumes "queue_inv (ml_queue m)" "tq_active (ml_queue m) = None" "take_next_op env m = Some (op, m')"
  shows "queue_inv (ml_queue m')" "tq_active (ml_queue m') = None" "givable op NotDelivered (tq_pending (ml_queue m')) (tq_texts (ml_queue m'))"
    "ml_runtime m' = ml_runtime m" "ml_l2cap m' = ml_l2cap m"
proof -
  obtain op0 q where t: "take_ready_op (ck_at (me_clock env)) (ml_queue m) = Some (op0, q)"
    "op = mark_tried (me_clock env) (tq_last_send_reply_at q) op0" "m' = m\<lparr>ml_queue := q\<rparr>"
    using assms(3) by (auto simp: take_next_op_def split: option.splits)
  with ready_taken [OF assms(1,2) t(1)] show "queue_inv (ml_queue m')" "tq_active (ml_queue m') = None"
    "givable op NotDelivered (tq_pending (ml_queue m')) (tq_texts (ml_queue m'))" "ml_runtime m' = ml_runtime m" "ml_l2cap m' = ml_l2cap m"
    by (simp_all add: givable_mark)
qed

lemma next_op_quiet: "mr_pending_events (fst (snd (map_start_next_op op rt s))) = mr_pending_events rt"
  "mr_pending_events (fst (snd (map_request_disconnect rt s))) = mr_pending_events rt"
  by (auto simp: map_start_next_op_def map_request_disconnect_def split: MapRuntimePhase.split prod.split sum.split)

lemma feed_inv:
  assumes "queue_inv (ml_queue m)" "tq_active (ml_queue m) = None" "mr_pending_events rt = []"
    and "givable op NotDelivered (tq_pending (ml_queue m)) (tq_texts (ml_queue m))"
  shows "loop_inv (feed_pooled_next_op env rt op m)"
proof -
  obtain r rt' l2 where s: "map_start_next_op (pending_op_to_mas_operation op) rt (ml_l2cap m) = (r, rt', l2)" by (metis prod_cases3)
  obtain d rt'' l2' where d: "map_request_disconnect rt' l2 = (d, rt'', l2')" by (metis prod_cases3)
  have "mr_pending_events rt' = []" "mr_pending_events rt'' = []"
    using next_op_quiet(1) [of "pending_op_to_mas_operation op" rt "ml_l2cap m"] next_op_quiet(2) [of rt' l2] s d assms(3) by simp_all
  with s d started_inv [OF assms(1,2,4)] given_back_inv(1) [OF assms(1,2,4)] show ?thesis
    by (cases r) (simp_all add: feed_pooled_next_op_def loop_inv_def del: lit_simps)
qed

lemma feed_resting_inv:
  assumes "loop_inv m" "\<And>rt. ml_runtime m = Some rt \<Longrightarrow> map_is_resting rt \<Longrightarrow> tq_active (ml_queue m) = None"
  shows "loop_inv (feed_resting env busy fresh m)"
proof (cases "ml_runtime m")
  case (Some rt)
  have inv: "queue_inv (ml_queue m)" "mr_pending_events rt = []" using assms(1) Some by (simp_all add: loop_inv_def)
  have "loop_inv (feed_pooled_next_op env rt op m')" if "map_is_resting rt" "take_next_op env m = Some (op, m')" for op m'
    using taken_op [OF inv(1) assms(2) [OF Some that(1)] that(2)] inv(2) by (intro feed_inv) simp_all
  with Some assms(1) show ?thesis by (auto simp: feed_resting_def loop_inv_def split: option.split)
qed (use assms in \<open>simp add: feed_resting_def\<close>)

lemma idle_inv: "loop_inv m \<Longrightarrow> loop_inv (idle_disconnect env fresh server m)"
  using next_op_quiet(2) [of _ "ml_l2cap m"]
  by (auto simp: idle_disconnect_def loop_inv_def Let_def split: option.splits prod.split) (metis fst_conv snd_conv)+

lemma map_start_quiet: "mr_pending_events (fst (snd (map_start now rt s))) = mr_pending_events rt"
  by (auto simp: map_start_def Let_def split: prod.split)

lemma start_inv:
  assumes "queue_inv (ml_queue m)" "tq_active (ml_queue m) = None" "ml_runtime m = None"
    and "givable op NotDelivered (tq_pending (ml_queue m)) (tq_texts (ml_queue m))"
  shows "case start_map_operation env buffer op handle m of
      (Inl (op', why), m') \<Rightarrow> op' = op \<and> ml_queue m' = ml_queue m \<and> ml_runtime m' = None
    | (Inr _, m') \<Rightarrow> loop_inv m'"
proof (cases handle)
  case (Some h)
  let ?rt = "enable_pooling (map_runtime_new buffer h (pending_op_to_mas_operation op) MAS_INSTANCE_ID_FOR_SMS)"
  obtain r rt' l2 where s: "map_start (ck_at (me_clock env)) ?rt (ml_l2cap m) = (r, rt', l2)" by (metis prod_cases3)
  have "mr_pending_events rt' = []"
    using map_start_quiet [of "ck_at (me_clock env)" ?rt "ml_l2cap m"] s by (simp add: enable_pooling_def map_runtime_new_def)
  then have on: "loop_inv ((set_queue (\<lambda>q. q\<lparr>tq_active := Some op\<rparr>) m')\<lparr>ml_runtime := Some rt'\<rparr>)" if "ml_queue m' = ml_queue m" for m' :: "'a MapLoop"
    using that started_inv [OF assms(1,2,4)] by (simp add: loop_inv_def)
  show ?thesis
  proof (cases r)
    case (Inr packets)
    let ?w = "write_packets (me_write env) (lit ''MAP start ACL write: '') packets (m\<lparr>ml_l2cap := l2\<rparr>)"
    have w: "ml_queue (snd ?w) = ml_queue m" "ml_runtime (snd ?w) = None" using assms(3) by simp_all
    show ?thesis
      using s Some Inr w on [OF w(1)]
      by (simp add: start_map_operation_def Let_def write_case split: option.split del: lit_simps write_fields)
  qed (use s Some assms(3) in \<open>simp add: start_map_operation_def Let_def del: lit_simps\<close>)
qed (use assms in \<open>simp add: start_map_operation_def\<close>)

lemma start_fresh_inv:
  assumes "loop_inv m"
  shows "loop_inv (start_fresh env buffer handle busy fresh m)"
proof (cases "ml_runtime m = None \<and> (\<exists>op m'. take_next_op env m = Some (op, m'))")
  case True
  then obtain op m' where t: "ml_runtime m = None" "take_next_op env m = Some (op, m')" by blast
  have inv: "queue_inv (ml_queue m)" "tq_active (ml_queue m) = None" using assms t(1) by (simp_all add: loop_inv_def)
  note taken = taken_op [OF inv t(2)]
  obtain r m'' where s: "start_map_operation env buffer op handle m' = (r, m'')" by (cases "start_map_operation env buffer op handle m'")
  note st = start_inv [OF taken(1,2) _ taken(3), of env buffer handle, unfolded s]
  have given: "queue_inv (requeue_or_report (me_clock env) op NotDelivered why (ml_queue m'))" for why
    by (rule given_back_inv(2) [OF taken(1-3)])
  have none: "tq_active (requeue_or_report (me_clock env) op NotDelivered why (ml_queue m')) = None" for why
    using requeue_kept [OF queue_ops [OF taken(1)] taken(3), of "me_clock env" why] taken(2) by (simp add: kept_ops_def)
  have "loop_inv (case (r, m'') of (Inl (op', why), m) \<Rightarrow> set_queue (requeue_or_report (me_clock env) op' NotDelivered why) m | (Inr u, m) \<Rightarrow> m)"
  proof (cases r)
    case (Inl x)
    obtain op' why where x: "x = (op', why)" by (cases x)
    with st Inl taken(4) t(1) have "op' = op" "ml_queue m'' = ml_queue m'" "ml_runtime m'' = None" by simp_all
    with Inl x given none show ?thesis by (simp add: loop_inv_def)
  qed (use st taken(4) t(1) in simp)
  with t s assms show ?thesis by (simp add: start_fresh_def)
next
  case False
  then have "start_fresh env buffer handle busy fresh m = m"
    by (auto simp: start_fresh_def split: option.split)
  with assms show ?thesis by simp
qed

lemma drive_inv:
  assumes "loop_inv m" "one_event env m"
  shows "loop_inv (drive_map_runtime env buffer handle server busy fresh m)"
proof -
  let ?m1 = "if handle = None then set_queue (expire_waiting_texts (me_clock env)) m else m"
  have ex: "tq_active (expire_waiting_texts ck q) = tq_active q" for ck q by (simp add: expire_waiting_texts_def split_beta)
  have m1: "loop_inv ?m1" "one_event env ?m1"
    using assms by (cases "ml_runtime m"; simp add: loop_inv_def one_event_def expire_inv ex)+
  obtain go m2 where t: "tick_session env ?m1 = (go, m2)" by (cases "tick_session env ?m1")
  note k = tick_session_inv [OF m1 t]
  let ?m3 = "start_fresh env buffer handle busy fresh (idle_disconnect env fresh server (feed_resting env busy fresh (take_session_events env m2)))"
  have "loop_inv ?m3"
    by (intro start_fresh_inv idle_inv feed_resting_inv events_inv(1) [OF k(1)] events_inv(2) [OF k(1)]) assumption+
  with t k(2) show ?thesis
    by (auto simp: drive_map_runtime_def Let_def loop_inv_def note_put_inv split: option.split bool.split)
qed

section \<open>Every text waits once\<close>

lemma queue_step:
  assumes "loop_inv m" "\<And>q. queue_inv q \<Longrightarrow> queue_inv (f q)" "\<And>q. tq_active (f q) = tq_active q"
  shows "loop_inv (set_queue f m)"
  using assms by (cases "ml_runtime m") (simp_all add: loop_inv_def)

lemma lost_inv: "loop_inv m \<Longrightarrow> loop_inv (map_link_lost env m)"
proof -
  assume "loop_inv m"
  then have q: "queue_inv (ml_queue m)" by (simp add: loop_inv_def)
  let ?q = "link_dropped (me_clock env) (ml_queue m)"
  have "queue_inv (?q\<lparr>tq_last_send_reply_at := None\<rparr>)" by (rule view_inv [OF link_dropped_inv [OF q]]) simp_all
  with link_dropped_none [OF q] show ?thesis by (simp add: map_link_lost_def loop_inv_def)
qed

lemma force_disc_queue [simp]:
  "ml_queue (force_disc env l cid d m) = ml_queue m" "ml_runtime (force_disc env l cid d m) = ml_runtime m"
  by (auto simp: force_disc_def split: sum.split prod.split)

lemma stalled_none: "queue_inv q \<Longrightarrow> tq_active (session_stalled ck q) = None"
proof -
  assume "queue_inv q"
  let ?q = "requeue_active ck (lit ''the phone's MAS session stalled'') q"
  have "session_stalled ck q = ?q \<or> session_stalled ck q = ?q\<lparr>tq_pending := Subscribe # tq_pending ?q\<rparr>"
    by (simp add: session_stalled_def Let_def split: list.split PendingMapOp.split del: lit_simps)
  with requeue_active_none [OF \<open>queue_inv q\<close>] show ?thesis by (auto simp del: lit_simps)
qed

lemma recovered_inv: "loop_inv m \<Longrightarrow> loop_inv (fst (map_stall_recovery env cid server m))"
  by (simp add: map_stall_recovery_def loop_inv_def Let_def stalled_inv stalled_none del: lit_simps)

lemma schedule_inv: "loop_inv m \<Longrightarrow> loop_inv (schedule_inbox_poll now quiet server at m)"
proof -
  assume inv: "loop_inv m"
  let ?m = "schedule_inbox_poll now quiet server at m"
  have "\<exists>ops. list_all plain ops \<and> tq_pending (ml_queue ?m) = tq_pending (ml_queue m) @ ops"
    by (auto simp: schedule_inbox_poll_def Let_def)
  then obtain ops where "list_all plain ops" "tq_pending (ml_queue ?m) = tq_pending (ml_queue m) @ ops" by blast
  moreover have same: "tq_texts (ml_queue ?m) = tq_texts (ml_queue m)" "tq_active (ml_queue ?m) = tq_active (ml_queue m)"
    "ml_runtime ?m = ml_runtime m"
    by (auto simp: schedule_inbox_poll_def Let_def)
  ultimately have "queue_inv (ml_queue ?m)"
    using inv by (intro plain_inv [of "ml_queue m" "ml_queue ?m" "[]" ops]) (simp_all add: loop_inv_def)
  with same inv show ?thesis by (cases "ml_runtime m") (simp_all add: loop_inv_def)
qed

text \<open>The turns of the radio loop, in any order, as far as they reach the queue; \<open>Elsewhere\<close> is what the rest of the radio
  does to the channels and buffers that the session shares with it.\<close>

inductive map_world :: "'w MapLoop \<Rightarrow> bool" where
  Start: "map_world (loop_new l2 sh)"
| HandOver: "map_world m \<Longrightarrow> map_world (set_queue (hand_over ck budget i p body ty d st) m)"
| Drive: "map_world m \<Longrightarrow> one_event env m \<Longrightarrow> map_world (drive_map_runtime env buffer handle server busy fresh m)"
| Sweep: "map_world m \<Longrightarrow> map_world (set_queue sweep_texts m)"
| Notified: "map_world m \<Longrightarrow> map_world (set_queue (\<lambda>q. snd (drain_mns_events ck server q)) m)"
| OtherPhone: "map_world m \<Longrightarrow> map_world (set_queue switch_map_phone m)"
| Poll: "map_world m \<Longrightarrow> map_world (schedule_inbox_poll now quiet server at m)"
| ServiceReady: "map_world m \<Longrightarrow> map_world (subscribe_now m)"
| LinkLost: "map_world m \<Longrightarrow> map_world (map_link_lost env m)"
| Stalled: "map_world m \<Longrightarrow> map_world (fst (map_stall_recovery env cid server m))"
| Elsewhere: "map_world m \<Longrightarrow> map_world (m\<lparr>ml_l2cap := l2, ml_shared := sh\<rparr>)"

lemma queue_new_inv: "queue_inv queue_new"
  by (simp add: queue_inv_def queue_new_def ops_ok_def new_inv)

lemma fold_active: "(\<And>q x. tq_active (f q x) = tq_active q) \<Longrightarrow> tq_active (foldl f q xs) = tq_active q"
  by (induction xs arbitrary: q) simp_all

lemma step_active [simp]:
  "tq_active (hand_over ck budget i p body ty d st q) = tq_active q" "tq_active (sweep_texts q) = tq_active q"
  "tq_active (switch_map_phone q) = tq_active q" "tq_active (snd (drain_mns_events ck server q)) = tq_active q"
proof -
  have "tq_active (take_mns_event ck q ev) = tq_active q" for q ev
    by (auto simp: take_mns_event_def queue_fetch_def split: MnsEvent.split Renotified.split)
  then show "tq_active (snd (drain_mns_events ck server q)) = tq_active q"
    by (simp add: drain_mns_events_def fold_active split: prod.split)
qed (simp_all add: hand_over_def sweep_texts_def switch_map_phone_def Let_def split: prod.split TextIntake.split del: lit_simps)

lemma world_inv: "map_world m \<Longrightarrow> loop_inv m"
proof (induction rule: map_world.induct)
  case (Start l2 sh)
  then show ?case by (simp add: loop_inv_def loop_new_def queue_new_inv) (simp add: queue_new_def)
next
  case (HandOver m ck budget i p body ty d st)
  show ?case by (rule queue_step) (simp_all add: HandOver.IH hand_over_inv)
next
  case (Drive m env buffer handle server busy fresh)
  then show ?case by (simp add: drive_inv)
next
  case (Sweep m)
  show ?case by (rule queue_step) (simp_all add: Sweep.IH sweep_inv)
next
  case (Notified m ck server)
  show ?case by (rule queue_step) (simp_all add: Notified.IH mns_events_inv)
next
  case (OtherPhone m)
  show ?case by (rule queue_step) (simp_all add: OtherPhone.IH switch_inv)
next
  case (ServiceReady m)
  show ?case unfolding subscribe_now_def
    by (rule queue_step [OF ServiceReady.IH]) (auto intro: plain_inv [where before = "[Subscribe]" and behind = "[]"])
next
  case (Elsewhere m l2 sh)
  then show ?case by (cases "ml_runtime m") (simp_all add: loop_inv_def)
qed (simp_all add: schedule_inv lost_inv recovered_inv)

definition in_hand :: "TextQueue \<Rightarrow> PendingMapOp list" where
  "in_hand q = (case tq_active q of None \<Rightarrow> [] | Some op \<Rightarrow> [op]) @ tq_pending q"

text \<open>C21 Whatever the order of texts handed over, session ticks, lost links, stalls, other phones, listings and
  notifications, as long as a tick gives no more than one outcome: every text is carried by at most one operation, by
  none once it is answered, and a text waits to be sent only while no send of it is out with its answer unknown.\<close>

theorem texts_wait_once:
  assumes "map_world m"
  shows "distinct (carried (in_hand (ml_queue m))) \<and>
    set (carried (in_hand (ml_queue m))) \<subseteq> set (open_ids (tq_texts (ml_queue m))) \<and>
    (\<forall>t. SendReply t \<in> set (tq_pending (ml_queue m)) \<longrightarrow> \<not> put_out (tq_texts (ml_queue m)) (sr_message_id t))"
proof -
  have inv: "queue_inv (ml_queue m)" using world_inv [OF assms] by (simp add: loop_inv_def)
  then have "list_all (op_ok (tq_texts (ml_queue m))) (tq_pending (ml_queue m))" by (simp add: queue_inv_def ops_ok_def)
  with inv show ?thesis
    by (auto simp: queue_inv_def ops_ok_def in_hand_def list_all_iff split: option.splits)
qed

theorem texts_wait_once_witness:
  "carried (in_hand (hand_over \<lparr>ck_at = 0, ck_wall = 0\<rparr> 0 (lit ''7'') (lit ''+1'') (lit ''hi'') None [] 0 queue_new)) = [lit ''7''] \<and>
   \<not> put_out (tq_texts (hand_over \<lparr>ck_at = 0, ck_wall = 0\<rparr> 0 (lit ''7'') (lit ''+1'') (lit ''hi'') None [] 0 queue_new)) (lit ''7'')"
proof -
  let ?q = "hand_over \<lparr>ck_at = 0, ck_wall = 0\<rparr> 0 (lit ''7'') (lit ''+1'') (lit ''hi'') None [] 0 queue_new"
  let ?m = "set_queue (hand_over \<lparr>ck_at = 0, ck_wall = 0\<rparr> 0 (lit ''7'') (lit ''+1'') (lit ''hi'') None [] 0)
    (loop_new l2cap_new \<lparr>sh_world = (), sh_buffers = (\<lambda>_. [])\<rparr>)"
  have q: "ml_queue ?m = ?q" by (simp add: loop_new_def)
  obtain t where p: "tq_pending ?q = [SendReply t]" "sr_message_id t = lit ''7''" "tq_active ?q = None"
    by (simp add: hand_over_def queue_new_def take_in_def ledger_new_def ledger_is_open_def ledger_open_def Let_def del: lit_simps)
  have "map_world ?m" by (intro map_world.intros)
  from texts_wait_once [OF this, unfolded q] p show ?thesis
    by (simp add: in_hand_def del: lit_simps step_active)
qed

section \<open>Two outcomes in one tick\<close>

text \<open>An answer that ends the operation and the end of the channel behind it, read in one tick, give two events.\<close>

lemma answer_then_failure:
  assumes "mr_phase rt = MrDrivingMasShared cid d session b" "mas_drive cid d session (b @ c) s = (out, s', DriveStop session' b')"
    and "ms_state session' = MasResting"
  shows "mr_pending_events (fst (snd (map_consume_events [DlciPayload d c, DlciFailedEvent d why] (rt, s)))) =
    mr_pending_events rt @ [OperationCompleted (ms_output session'), MapOperationFailed (ProfileDlci why)]"
  using assms by (simp add: map_consume_events_def map_payload map_after_def)
    (simp add: map_consume_shared_event_def map_fail_def Let_def split_beta)

lemma is_openI: "queue_inv q \<Longrightarrow> tq_active q = Some op \<Longrightarrow> text_id op = Some i \<Longrightarrow> ledger_is_open i (tq_texts q)"
  by (simp add: queue_inv_def is_open_iff)

text \<open>C24 When a look at the sent folder before a text is answered and the channel fails in the same
  tick, both events are taken for the operation in flight: the text is put at the front of the queue by the answer and
  at its end by the failure, so it waits to be sent twice.\<close>

theorem answer_then_failure_doubles_text:
  assumes "queue_inv q" "tq_active q = Some (SnapshotSent (SendReply t))"
    and "push_refusal_code (map_reason_text show reason) = None" "text_age ck t < SEND_REPLY_RETAIN_TTL"
  shows "tq_pending (foldl (\<lambda>q ev. handle_map_runtime_event z show ck ev q) q [OperationCompleted out, MapOperationFailed reason]) =
    SendReply (t\<lparr>sr_sent_before := snapshot_of out\<rparr>) # tq_pending q @ [SendReply (t\<lparr>sr_sent_before := SnapshotUnavailable\<rparr>)]"
proof -
  have "ledger_is_open (sr_message_id t) (tq_texts q)" using is_openI [OF assms(1,2)] by simp
  moreover have "text_age ck (t\<lparr>sr_sent_before := x\<rparr>) = text_age ck t" for x by (simp add: text_age_def split: option.split)
  ultimately show ?thesis using assms(2-4)
    by (simp add: handle_map_runtime_event_def operation_completed_def snapshot_done_def requeue_send_def stop_tried_def Let_def
        del: lit_simps)
qed

theorem answer_then_failure_doubles_text_witness:
  "carried (tq_pending (foldl (\<lambda>q ev. handle_map_runtime_event \<lparr>zn_parse_naive = (\<lambda>_. None), zn_local_latest = Some\<rparr> (\<lambda>_. []) \<lparr>ck_at = 0, ck_wall = 0\<rparr> ev q)
     (queue_new\<lparr>tq_active := Some (SnapshotSent (SendReply
         \<lparr>sr_message_id = [7], sr_bmessage = [], sr_recipient_phone = [], sr_queued_at = \<lparr>st_at = 0, st_wall = 0\<rparr>, sr_tried_at = None,
          sr_attempts = 0, sr_not_before = None, sr_body_head = [], sr_sent_before = NotTaken\<rparr>)),
       tq_texts := snd (take_in [7] [] ledger_new)\<rparr>)
     [OperationCompleted (Listing []), MapOperationFailed ProfileClosed])) = [[7], [7]]"
proof -
  define t where "t = \<lparr>sr_message_id = [7], sr_bmessage = [], sr_recipient_phone = [], sr_queued_at = \<lparr>st_at = 0, st_wall = 0\<rparr>, sr_tried_at = None,
          sr_attempts = 0, sr_not_before = None, sr_body_head = [], sr_sent_before = NotTaken\<rparr>"
  define q where "q = queue_new\<lparr>tq_active := Some (SnapshotSent (SendReply t)), tq_texts := snd (take_in [7] [] ledger_new)\<rparr>"
  have i: "sr_message_id t = [7]" by (simp add: t_def)
  have "take_in [7] [] ledger_new = (New, \<lparr>tl_open = [\<lparr>ot_message_id = [7], ot_recipient_phone = [], ot_put_out = False\<rparr>], tl_answered = [], tl_told = []\<rparr>)"
    by (simp add: take_in_def ledger_new_def ledger_is_open_def ledger_open_def)
  then have "queue_inv q" "tq_pending q = []"
    by (simp_all add: q_def queue_inv_def queue_new_def ops_ok_def ledger_inv_def open_ids_def put_out_def i)
  moreover have "push_refusal_code (map_reason_text (\<lambda>_. []) ProfileClosed) = None"
    by (simp add: map_reason_text_def) code_simp
  moreover have "text_age \<lparr>ck_at = 0, ck_wall = 0\<rparr> t < SEND_REPLY_RETAIN_TTL" by (simp add: text_age_def stamp_elapsed_def t_def)
  moreover have "tq_active q = Some (SnapshotSent (SendReply t))" by (simp add: q_def)
  ultimately show ?thesis
    unfolding t_def [symmetric] q_def [symmetric]
    using answer_then_failure_doubles_text [of q t "\<lambda>_. []" ProfileClosed "\<lparr>ck_at = 0, ck_wall = 0\<rparr>"] i by (simp del: foldl_Cons foldl_Nil)
qed

text \<open>Nothing looks at the ledger when an operation starts: the second of the two goes out after the first was answered.\<close>

lemma sent_text_starts_again:
  assumes "take_first (op_ready now) (tq_pending q) = Some (SendReply t, rest)"
  shows "take_ready_op now (q\<lparr>tq_texts := ledger_sent (sr_message_id t) (tq_texts q)\<rparr>) =
    Some (SendReply t, q\<lparr>tq_texts := ledger_sent (sr_message_id t) (tq_texts q), tq_pending := rest\<rparr>)"
  using assms by (simp add: take_ready_op_def)

section \<open>A session that is being closed\<close>



text \<open>Nor does the watch over the session: with no operation in flight only silence of the whole link counts, and the
  phone answers the radio's keep-alive.\<close>

lemma watch_blind_without_op:
  assumes "tq_active (ml_queue m) = None" "now - sw_last_acl_inbound_at w < MAS_STALL_THRESHOLD"
  shows "fst (stall_watch now handle m w) = StallNothing"
  using assms by (simp add: stall_watch_def watch_look_def Let_def split: option.split)

end
