(* ===== verification/Acl_Stream.thy ===== *)
theory Acl_Stream
  imports Chunked_Stream Transport_Recovery L2cap_Link
begin

text \<open>
  The stream of ACL octets off the dongle in \<open>aokie_radio/runtime.rs\<close>: \<open>pop_acl_frame\<close>, which takes packets off the front
  of the accumulator and finds the next one after a loss, the detector of corruption, and the loop that drains the
  accumulator and starts the recovery of the transport.  The clock is an argument, in milliseconds.
\<close>

section \<open>Packets off the accumulator\<close>

abbreviation (input) ACL_FRAME_SANITY_MAX :: nat where "ACL_FRAME_SANITY_MAX \<equiv> 8192"
abbreviation (input) ACL_RESYNC_LEN_MAX :: nat where "ACL_RESYNC_LEN_MAX \<equiv> 1024"
abbreviation (input) ACL_PARTIAL_TIMEOUT :: duration where "ACL_PARTIAL_TIMEOUT \<equiv> 3000"

datatype AclFlushReason = NoResyncTarget | PartialStall duration

datatype AclPopOutcome =
    NotReady
  | Partial nat nat
  | Resynced nat nat nat bytes
  | Flushed AclFlushReason nat nat bytes
  | Frame bytes

definition acl_flags :: "bytes \<Rightarrow> nat \<Rightarrow> u16" where
  "acl_flags b i = u16_from_le_bytes (b ! i) (b ! (i + 1))"

definition acl_handle :: "bytes \<Rightarrow> nat \<Rightarrow> u16" where
  "acl_handle b i = acl_flags b i AND 0x0fff"

definition acl_bc :: "bytes \<Rightarrow> nat \<Rightarrow> u16" where
  "acl_bc b i = drop_bit 14 (acl_flags b i) AND 0x03"

definition acl_len :: "bytes \<Rightarrow> nat \<Rightarrow> nat" where
  "acl_len b i = unat (u16_from_le_bytes (b ! (i + 2)) (b ! (i + 3)))"

definition header_corrupt :: "u16 option \<Rightarrow> bytes \<Rightarrow> bool" where
  "header_corrupt expected b =
     (4 + acl_len b 0 > ACL_FRAME_SANITY_MAX \<or> acl_bc b 0 \<noteq> 0 \<or>
      (case expected of Some h \<Rightarrow> acl_handle b 0 \<noteq> h | None \<Rightarrow> False))"

definition resync_strict :: "u16 \<Rightarrow> bytes \<Rightarrow> nat \<Rightarrow> bool" where
  "resync_strict active b i = (acl_handle b i = active \<and> acl_bc b i = 0 \<and> acl_len b i \<le> ACL_RESYNC_LEN_MAX)"

definition resync_loose :: "bytes \<Rightarrow> nat \<Rightarrow> bool" where
  "resync_loose b i = (acl_handle b i \<noteq> 0 \<and> acl_handle b i \<le> 0x0eff \<and> acl_bc b i = 0 \<and> acl_len b i \<le> ACL_RESYNC_LEN_MAX)"

definition find_resync :: "u16 option \<Rightarrow> bytes \<Rightarrow> nat option" where
  "find_resync expected b =
     find (case expected of Some h \<Rightarrow> resync_strict h b | None \<Rightarrow> resync_loose b) [1..<length b - 3]"

text \<open>What is left of a packet that has not arrived: wait, or give up after the time.\<close>

definition acl_wait :: "instant \<Rightarrow> bytes \<Rightarrow> instant option \<Rightarrow> AclPopOutcome \<times> bytes \<times> instant option" where
  "acl_wait now b since =
     (let declared = 4 + acl_len b 0 in
      case since of
        None \<Rightarrow> (Partial declared (length b), b, Some now)
      | Some t \<Rightarrow>
          if now - t \<ge> ACL_PARTIAL_TIMEOUT
          then (Flushed (PartialStall (now - t)) declared (length b) (take 32 b), [], None)
          else (Partial declared (length b), b, Some t))"

definition pop_acl_frame :: "instant \<Rightarrow> u16 option \<Rightarrow> bytes \<Rightarrow> instant option \<Rightarrow> AclPopOutcome \<times> bytes \<times> instant option" where
  "pop_acl_frame now expected b since =
     (if length b < 4 then (NotReady, b, None)
      else
        (let total = 4 + acl_len b 0 in
         if header_corrupt expected b then
           (case find_resync expected b of
              Some k \<Rightarrow> (Resynced k total (length b) (take 32 b), drop k b, None)
            | None \<Rightarrow>
                if expected \<noteq> None then acl_wait now b since
                else (Flushed NoResyncTarget total (length b) (take 32 b), [], None))
         else if length b < total then acl_wait now b since
         else (Frame (take total b), drop total b, None)))"

section \<open>Corruption\<close>

datatype CorruptionSignal = Quiet | Marginal | Dense

definition note_acl_corruption :: "instant \<Rightarrow> instant list \<Rightarrow> nat \<Rightarrow> CorruptionSignal \<times> instant list \<times> nat" where
  "note_acl_corruption now times0 reported0 =
     (let kept = dropWhile (\<lambda>t. now - t > 600000) times0;
          reported = (if kept = [] then 0 else reported0);
          times = kept @ [now];
          dense = (length times \<ge> 3 \<and> now - rev times ! 2 \<le> 120000) in
      if dense \<and> reported < 2 then (Dense, times, 2)
      else if length times \<ge> 3 \<and> reported = 0 then (Marginal, times, 1)
      else (Quiet, times, reported))"

section \<open>The drain loop\<close>

record AclState =
  as_buffer :: bytes
  as_partial_since :: "instant option"
  as_corruption_times :: "instant list"
  as_corruption_reported :: nat
  as_recovery :: TransportRecovery
  as_give_ups :: nat

text \<open>How the loop ends: nothing more can be taken, the pipe has to be flushed (and, the flag says, the dongle reopened
  after the call), or the dongle is reopened.\<close>

datatype acl_end = AclBreak | AclFlushPipe bool | AclReopen duration

definition acl_flush :: "AclState \<Rightarrow> AclState" where
  "acl_flush s = s\<lparr>as_buffer := [], as_partial_since := None, as_corruption_times := [], as_corruption_reported := 0\<rparr>"

definition acl_resynced :: "instant \<Rightarrow> bool \<Rightarrow> AclState \<Rightarrow> acl_end option \<times> AclState" where
  "acl_resynced now call_up s0 =
     (case note_acl_corruption now (as_corruption_times s0) (as_corruption_reported s0) of
        (signal, ts, reported) \<Rightarrow>
          (let s = s0\<lparr>as_corruption_times := ts, as_corruption_reported := reported\<rparr> in
           case signal of
             Quiet \<Rightarrow> (None, s)
           | Marginal \<Rightarrow> (None, s)
           | Dense \<Rightarrow>
               (case on_dense_corruption now call_up (as_recovery s) of
                  (r, FlushAclPipe) \<Rightarrow> (Some (AclFlushPipe False), acl_flush (s\<lparr>as_recovery := r\<rparr>))
                | (r, FlushAndReopenAfterCall) \<Rightarrow> (Some (AclFlushPipe True), acl_flush (s\<lparr>as_recovery := r\<rparr>))
                | (r, ReopenTransport delay) \<Rightarrow> (Some (AclReopen delay), s\<lparr>as_recovery := r\<rparr>)
                | (r, GiveUp) \<Rightarrow>
                    (case take_give_up_report r of
                       (r', report) \<Rightarrow> (None, s\<lparr>as_recovery := r', as_give_ups := as_give_ups s + (if report then 1 else 0)\<rparr>)))))"

text \<open>One look at the accumulator: a packet off it, how it ends, or another look.\<close>

definition acl_look :: "instant \<Rightarrow> u16 option \<Rightarrow> bool \<Rightarrow> AclState \<Rightarrow> bytes option \<times> acl_end option \<times> AclState" where
  "acl_look now expected call_up s =
     (case pop_acl_frame now expected (as_buffer s) (as_partial_since s) of
        (outcome, b, since) \<Rightarrow>
          (let s' = s\<lparr>as_buffer := b, as_partial_since := since\<rparr> in
           case outcome of
             NotReady \<Rightarrow> (None, Some AclBreak, s')
           | Partial _ _ \<Rightarrow> (None, Some AclBreak, s')
           | Resynced _ _ _ _ \<Rightarrow> (None, acl_resynced now call_up s')
           | Flushed _ _ _ _ \<Rightarrow> (None, Some AclBreak, s')
           | Frame pkt \<Rightarrow> (Some pkt, None, s')))"

lemma find_resync_range: "find_resync expected b = Some k \<Longrightarrow> 1 \<le> k \<and> k + 4 \<le> length b"
  by (auto simp: find_resync_def find_Some_iff)

lemma resynced_buffer: "length (as_buffer (snd (acl_resynced now call_up s))) \<le> length (as_buffer s)"
  by (auto simp: acl_resynced_def Let_def acl_flush_def split: prod.split CorruptionSignal.split RecoveryAction.split)

lemma look_shorter:
  assumes "acl_look now expected call_up s = (out, None, s')"
  shows "length (as_buffer s') < length (as_buffer s)"
proof -
  have r: "length (as_buffer s') \<le> length b" if "acl_resynced now call_up (s\<lparr>as_buffer := b, as_partial_since := x\<rparr>) = (None, s')" for b x
    using resynced_buffer [of now call_up "s\<lparr>as_buffer := b, as_partial_since := x\<rparr>"] that by simp
  show ?thesis using assms find_resync_range [of expected "as_buffer s"]
    by (auto simp: acl_look_def pop_acl_frame_def acl_wait_def Let_def dest!: r split: if_splits option.splits prod.splits)
qed

function acl_drain_loop :: "instant \<Rightarrow> u16 option \<Rightarrow> bool \<Rightarrow> AclState \<Rightarrow> bytes list \<times> acl_end \<times> AclState" where
  "acl_drain_loop now expected call_up s =
     (case acl_look now expected call_up s of
        (out, Some e, s') \<Rightarrow> (emit out [], e, s')
      | (out, None, s') \<Rightarrow>
          (case acl_drain_loop now expected call_up s' of (pkts, r) \<Rightarrow> (emit out pkts, r)))"
  by pat_completeness auto
termination
  by (relation "measure (\<lambda>(_, _, _, s). length (as_buffer s))") (auto dest!: look_shorter [OF sym])

declare acl_drain_loop.simps [simp del]

definition acl_read :: "instant \<Rightarrow> u16 option \<Rightarrow> bool \<Rightarrow> bytes \<Rightarrow> AclState \<Rightarrow> bytes list \<times> acl_end \<times> AclState" where
  "acl_read now expected call_up packet s = acl_drain_loop now expected call_up (s\<lparr>as_buffer := as_buffer s @ packet\<rparr>)"

section \<open>The stream of a known link\<close>

text \<open>The cut of a known link: a packet, or octets passed over, which are counted as an item without content.\<close>

definition acl_cut :: "u16 \<Rightarrow> bytes \<Rightarrow> (bytes option option \<times> bytes) option" where
  "acl_cut h b =
     (if length b < 4 then None
      else if header_corrupt (Some h) b then map_option (\<lambda>k. (Some None, drop k b)) (find_resync (Some h) b)
      else if length b < 4 + acl_len b 0 then None
      else Some (Some (Some (take (4 + acl_len b 0) b)), drop (4 + acl_len b 0) b))"

lemma acl_cut_shorter: "acl_cut h b = Some (out, r) \<Longrightarrow> length r < length b"
  using find_resync_range [of "Some h" b] by (auto simp: acl_cut_def split: if_splits)

function acl_drain :: "u16 \<Rightarrow> bytes \<Rightarrow> bytes option list \<times> bytes" where
  "acl_drain h b =
     (case acl_cut h b of
        None \<Rightarrow> ([], b)
      | Some (out, r) \<Rightarrow> (emit out (fst (acl_drain h r)), snd (acl_drain h r)))"
  by pat_completeness auto
termination
  by (relation "measure (\<lambda>(h, b). length b)") (auto dest: acl_cut_shorter)

declare acl_drain.simps [simp del]

lemma acl_drain_wait: "acl_cut h b = None \<Longrightarrow> acl_drain h b = ([], b)"
  by (subst acl_drain.simps) simp

lemma acl_drain_cut: "acl_cut h b = Some (out, r) \<Longrightarrow> acl_drain h b = (emit out (fst (acl_drain h r)), snd (acl_drain h r))"
  by (subst acl_drain.simps) simp

lemma header_append:
  "i + 4 \<le> length b \<Longrightarrow> acl_handle (b @ x) i = acl_handle b i" "i + 4 \<le> length b \<Longrightarrow> acl_bc (b @ x) i = acl_bc b i"
  "i + 4 \<le> length b \<Longrightarrow> acl_len (b @ x) i = acl_len b i"
  by (simp_all add: acl_handle_def acl_bc_def acl_flags_def acl_len_def nth_append)

lemma header_skip:
  "acl_handle (g @ b) (length g + i) = acl_handle b i" "acl_bc (g @ b) (length g + i) = acl_bc b i"
  "acl_len (g @ b) (length g + i) = acl_len b i"
  by (simp_all add: acl_handle_def acl_bc_def acl_flags_def acl_len_def nth_append)

lemma corrupt_append: "4 \<le> length b \<Longrightarrow> header_corrupt (Some h) (b @ x) = header_corrupt (Some h) b"
  by (simp add: header_corrupt_def header_append [of 0])

lemma strict_append: "i + 4 \<le> length b \<Longrightarrow> resync_strict h (b @ x) i = resync_strict h b i"
  by (simp add: resync_strict_def header_append)

lemma resync_append: "find_resync (Some h) b = Some k \<Longrightarrow> find_resync (Some h) (b @ x) = Some k"
  by (auto simp: find_resync_def find_upt_Some strict_append)

interpretation acl_stream: chunked_stream "acl_cut h" "acl_drain h" for h
proof
  fix b out r x
  assume c: "acl_cut h b = Some (out, r)"
  then show "length r < length b" by (rule acl_cut_shorter)
  show "acl_cut h (b @ x) = Some (out, r @ x)"
  proof (cases "header_corrupt (Some h) b")
    case True
    with c obtain k where k: "find_resync (Some h) b = Some k" "out = Some None" "r = drop k b" "4 \<le> length b"
      by (auto simp: acl_cut_def split: if_splits)
    with True find_resync_range [OF k(1)] show ?thesis by (simp add: acl_cut_def corrupt_append resync_append)
  next
    case False
    with c show ?thesis by (auto simp: acl_cut_def corrupt_append header_append [of 0] split: if_splits)
  qed
  from c show "acl_drain h b = (emit out (fst (acl_drain h r)), snd (acl_drain h r))" by (rule acl_drain_cut)
qed (rule acl_drain_wait)

section \<open>The loop is the cut repeated\<close>

definition pkts_of :: "bytes option list \<Rightarrow> bytes list" where
  "pkts_of its = List.map_filter id its"

definition skips_of :: "bytes option list \<Rightarrow> nat" where
  "skips_of its = length (filter (\<lambda>x. x = None) its)"

lemma item_simps [simp]:
  "pkts_of [] = []" "pkts_of (Some p # its) = p # pkts_of its" "pkts_of (None # its) = pkts_of its"
  "pkts_of (its @ its') = pkts_of its @ pkts_of its'" "pkts_of (map Some ps) = ps"
  "skips_of [] = 0" "skips_of (Some p # its) = skips_of its" "skips_of (None # its) = Suc (skips_of its)"
  "skips_of (its @ its') = skips_of its + skips_of its'" "skips_of (map Some ps) = 0"
  by (auto simp: pkts_of_def skips_of_def map_filter_def comp_def)

text \<open>A wait that began within the time allowed.\<close>

definition waits_since :: "instant \<Rightarrow> AclState \<Rightarrow> bool" where
  "waits_since t0 s = (case as_partial_since s of None \<Rightarrow> True | Some t \<Rightarrow> t0 \<le> t)"

lemma few_quiet: "length ts < 2 \<Longrightarrow> fst (note_acl_corruption now ts reported) = Quiet \<and>
    length (fst (snd (note_acl_corruption now ts reported))) \<le> Suc (length ts)"
  using length_dropWhile_le [of "\<lambda>t. now - t > 600000" ts] by (auto simp: note_acl_corruption_def Let_def)

lemma look_wait:
  assumes "acl_cut h (as_buffer s) = None" "waits_since t0 s" "t0 \<le> now" "now < t0 + ACL_PARTIAL_TIMEOUT"
  shows "\<exists>s'. acl_look now (Some h) call_up s = (None, Some AclBreak, s') \<and> as_buffer s' = as_buffer s \<and> waits_since t0 s' \<and>
    as_corruption_times s' = as_corruption_times s"
  using assms
  by (auto simp: acl_look_def pop_acl_frame_def acl_cut_def acl_wait_def waits_since_def Let_def split: if_splits option.splits)

lemma look_packet:
  assumes "acl_cut h (as_buffer s) = Some (Some (Some p), r)"
  shows "acl_look now (Some h) call_up s = (Some p, None, s\<lparr>as_buffer := r, as_partial_since := None\<rparr>)"
  using assms by (auto simp: acl_look_def pop_acl_frame_def acl_cut_def Let_def split: if_splits)

lemma look_skip:
  assumes "acl_cut h (as_buffer s) = Some (Some None, r)" "length (as_corruption_times s) < 2"
  shows "\<exists>s'. acl_look now (Some h) call_up s = (None, None, s') \<and> as_buffer s' = r \<and> as_partial_since s' = None \<and>
    length (as_corruption_times s') \<le> Suc (length (as_corruption_times s))"
proof -
  obtain sg ts rep where n: "note_acl_corruption now (as_corruption_times s) (as_corruption_reported s) = (sg, ts, rep)"
    by (metis prod_cases3)
  with few_quiet [OF assms(2), of now "as_corruption_reported s"] have "sg = Quiet" "length ts \<le> Suc (length (as_corruption_times s))"
    by simp_all
  with assms(1) n show ?thesis
    by (auto simp: acl_look_def pop_acl_frame_def acl_cut_def acl_resynced_def Let_def split: if_splits)
qed

lemma cut_items: "acl_cut h b = Some (out, r) \<Longrightarrow> out = Some None \<or> (\<exists>p. out = Some (Some p))"
  by (auto simp: acl_cut_def split: if_splits)

lemma loop_drains:
  assumes "waits_since t0 s" "t0 \<le> now" "now < t0 + ACL_PARTIAL_TIMEOUT"
    and "length (as_corruption_times s) + skips_of (fst (acl_drain h (as_buffer s))) < 3"
  shows "\<exists>s'. acl_drain_loop now (Some h) call_up s = (pkts_of (fst (acl_drain h (as_buffer s))), AclBreak, s') \<and>
    as_buffer s' = snd (acl_drain h (as_buffer s)) \<and> waits_since t0 s' \<and>
    length (as_corruption_times s') \<le> length (as_corruption_times s) + skips_of (fst (acl_drain h (as_buffer s)))"
  using assms(1,4)
proof (induction "length (as_buffer s)" arbitrary: s rule: less_induct)
  case less
  show ?case
  proof (cases "acl_cut h (as_buffer s)")
    case None
    from look_wait [OF None less.prems(1) assms(2,3), of call_up] None show ?thesis
      by (subst acl_drain_loop.simps) (auto simp: acl_drain_wait)
  next
    case (Some p)
    then obtain out r where c: "acl_cut h (as_buffer s) = Some (out, r)" by (cases p) auto
    note d = acl_drain_cut [OF c]
    show ?thesis
    proof (cases "out = Some None")
      case True
      with less.prems(2) d have "length (as_corruption_times s) < 2" by simp
      from look_skip [OF c [unfolded True] this, of now call_up] obtain s1 where s1:
        "acl_look now (Some h) call_up s = (None, None, s1)" "as_buffer s1 = r" "as_partial_since s1 = None"
        "length (as_corruption_times s1) \<le> Suc (length (as_corruption_times s))" by blast
      have "\<exists>s'. acl_drain_loop now (Some h) call_up s1 = (pkts_of (fst (acl_drain h (as_buffer s1))), AclBreak, s') \<and>
          as_buffer s' = snd (acl_drain h (as_buffer s1)) \<and> waits_since t0 s' \<and>
          length (as_corruption_times s') \<le> length (as_corruption_times s1) + skips_of (fst (acl_drain h (as_buffer s1)))"
        by (rule less.hyps) (use s1 d True less.prems(2) acl_cut_shorter [OF c] in \<open>auto simp: waits_since_def\<close>)
      with s1 d True show ?thesis by (subst acl_drain_loop.simps) (auto intro: order_trans)
    next
      case False
      then obtain pkt where pkt: "out = Some (Some pkt)" using cut_items [OF c] by blast
      let ?s = "s\<lparr>as_buffer := r, as_partial_since := None\<rparr>"
      have "\<exists>s'. acl_drain_loop now (Some h) call_up ?s = (pkts_of (fst (acl_drain h (as_buffer ?s))), AclBreak, s') \<and>
          as_buffer s' = snd (acl_drain h (as_buffer ?s)) \<and> waits_since t0 s' \<and>
          length (as_corruption_times s') \<le> length (as_corruption_times ?s) + skips_of (fst (acl_drain h (as_buffer ?s)))"
        by (rule less.hyps) (use d pkt less.prems(2) acl_cut_shorter [OF c] in \<open>auto simp: waits_since_def\<close>)
      with look_packet [OF c [unfolded pkt], of now call_up] d pkt show ?thesis by (subst acl_drain_loop.simps) auto
    qed
  qed
qed

text \<open>A burst of reads, each with the time at which it was made: the packets handed on and the state after.\<close>

fun acl_burst :: "u16 option \<Rightarrow> bool \<Rightarrow> (instant \<times> bytes) list \<Rightarrow> AclState \<Rightarrow> bytes list \<times> acl_end list \<times> AclState" where
  "acl_burst expected call_up [] s = ([], [], s)"
| "acl_burst expected call_up ((now, c) # cs) s =
     (case acl_read now expected call_up c s of
        (pkts, e, s') \<Rightarrow> (case acl_burst expected call_up cs s' of (pkts', es, s'') \<Rightarrow> (pkts @ pkts', e # es, s'')))"

lemma burst_drains:
  assumes "\<forall>(t, c) \<in> set cs. t0 \<le> t \<and> t < t0 + ACL_PARTIAL_TIMEOUT" "waits_since t0 s" "acl_cut h (as_buffer s) = None"
    and "length (as_corruption_times s) + skips_of (fst (acl_drain h (as_buffer s @ concat (map snd cs)))) < 3"
  shows "\<exists>s'. acl_burst (Some h) call_up cs s =
      (pkts_of (fst (acl_drain h (as_buffer s @ concat (map snd cs)))), replicate (length cs) AclBreak, s') \<and>
    as_buffer s' = snd (acl_drain h (as_buffer s @ concat (map snd cs)))"
  using assms
proof (induction cs arbitrary: s)
  case Nil
  then show ?case by (simp add: acl_drain_wait)
next
  case (Cons tc cs)
  obtain t c where tc: "tc = (t, c)" by (cases tc)
  let ?b = "as_buffer s @ c" let ?s = "s\<lparr>as_buffer := ?b\<rparr>"
  note app = acl_stream.pieces_append [of h ?b "concat (map snd cs)"]
  have few: "length (as_corruption_times s) + skips_of (fst (acl_drain h ?b)) +
      skips_of (fst (acl_drain h (snd (acl_drain h ?b) @ concat (map snd cs)))) < 3"
    using Cons.prems(4) tc app by simp
  have "\<exists>s'. acl_drain_loop t (Some h) call_up ?s = (pkts_of (fst (acl_drain h (as_buffer ?s))), AclBreak, s') \<and>
      as_buffer s' = snd (acl_drain h (as_buffer ?s)) \<and> waits_since t0 s' \<and>
      length (as_corruption_times s') \<le> length (as_corruption_times ?s) + skips_of (fst (acl_drain h (as_buffer ?s)))"
    by (rule loop_drains) (use Cons.prems tc few in \<open>auto simp: waits_since_def\<close>)
  then obtain s1 where s1: "acl_read t (Some h) call_up c s = (pkts_of (fst (acl_drain h ?b)), AclBreak, s1)"
    "as_buffer s1 = snd (acl_drain h ?b)" "waits_since t0 s1"
    "length (as_corruption_times s1) \<le> length (as_corruption_times s) + skips_of (fst (acl_drain h ?b))"
    by (auto simp: acl_read_def)
  have "\<exists>s'. acl_burst (Some h) call_up cs s1 =
      (pkts_of (fst (acl_drain h (as_buffer s1 @ concat (map snd cs)))), replicate (length cs) AclBreak, s') \<and>
    as_buffer s' = snd (acl_drain h (as_buffer s1 @ concat (map snd cs)))"
    by (rule Cons.IH) (use Cons.prems(1) s1 few acl_stream.drain_rest_waits in auto)
  with s1 tc app show ?case by auto
qed

section \<open>Packets after a loss\<close>

text \<open>A packet of the link as a controller sends it: the boundary flag is free, there is no broadcast.\<close>

definition acl_packet_of :: "u16 \<Rightarrow> bytes \<Rightarrow> bool" where
  "acl_packet_of h p = (\<exists>pb payload. p = build_acl_packet h pb 0 payload \<and> length payload \<le> ACL_RESYNC_LEN_MAX)"

text \<open>Octets in front of a stream that do not look like the header of the link.\<close>

definition acl_noise :: "u16 \<Rightarrow> bytes \<Rightarrow> bytes \<Rightarrow> bool" where
  "acl_noise h g b =
     (g = [] \<or> header_corrupt (Some h) (g @ b) \<and> (\<forall>i. 1 \<le> i \<and> i < length g \<longrightarrow> \<not> resync_strict h (g @ b) i))"

lemma no_broadcast: "drop_bit 14 ((h AND 0x0fff) OR push_bit 12 (ucast (pb :: u8) AND 0x03) OR push_bit 14 (ucast (0 :: u8) AND 0x03)) AND (0x03 :: u16) = 0"
proof -
  have 1: "(0x0fff :: u16) = mask 12" and 2: "(0x03 :: u16) = mask 2" by (simp_all add: mask_eq_exp_minus_1)
  show ?thesis unfolding 1 2 by (rule bit_word_eqI) (auto simp: bit_simps)
qed

lemma acl_packet_header:
  assumes "acl_packet_of h p" "h \<le> 0x0fff"
  shows "acl_handle (p @ r) 0 = h" "acl_bc (p @ r) 0 = 0" "length p = 4 + acl_len (p @ r) 0" "acl_len (p @ r) 0 \<le> ACL_RESYNC_LEN_MAX"
proof -
  obtain pb payload where p: "p = build_acl_packet h pb 0 payload" "length payload \<le> 1024"
    using assms(1) by (auto simp: acl_packet_of_def)
  have h: "h AND 0x0fff = h"
  proof -
    have "(0x0fff :: u16) = mask 12" by (simp add: mask_eq_exp_minus_1)
    moreover have "h < 2 ^ 12" using assms(2) by (simp add: word_le_nat_alt word_less_nat_alt)
    ultimately show ?thesis using less_mask_eq [of h 12] by simp
  qed
  have len: "unat (word_of_nat (length payload) :: u16) = length payload" using p(2) by (simp add: unat_of_nat take_bit_nat_eq_self)
  obtain w where w: "p = u16_le w @ u16_le (word_of_nat (length payload)) @ payload" "w AND 0x0fff = h" "drop_bit 14 w AND 3 = 0"
    using p(1) acl_fields(1) [of h pb 0] no_broadcast [of h pb] unfolding h build_acl_packet_def Let_def by blast
  show "acl_handle (p @ r) 0 = h" "acl_bc (p @ r) 0 = 0"
    using w by (simp_all add: acl_handle_def acl_bc_def acl_flags_def u16_le_def)
  show "length p = 4 + acl_len (p @ r) 0" "acl_len (p @ r) 0 \<le> 1024"
    using len p(2) by (simp_all add: w(1) acl_len_def u16_le_def)
qed

lemma cut_packet:
  assumes "acl_packet_of h p" "h \<le> 0x0fff"
  shows "acl_cut h (p @ r) = Some (Some (Some p), r)"
  using acl_packet_header [OF assms, of r] by (simp add: acl_cut_def header_corrupt_def)

lemma acl_drain_packets:
  assumes "h \<le> 0x0fff" "\<forall>p \<in> set ps. acl_packet_of h p"
  shows "acl_drain h (concat ps) = (map Some ps, [])"
  using assms(2)
proof (induction ps)
  case Nil
  have "acl_cut h [] = None" by (simp add: acl_cut_def)
  then show ?case by (simp add: acl_drain_wait)
next
  case (Cons p ps)
  from cut_packet [of h p "concat ps"] Cons assms(1) show ?case by (simp add: acl_drain_cut)
qed

lemma cut_noise:
  assumes "acl_noise h g (p @ r)" "g \<noteq> []" "acl_packet_of h p" "h \<le> 0x0fff"
  shows "acl_cut h (g @ p @ r) = Some (Some None, p @ r)"
proof -
  note hd = acl_packet_header [OF assms(3,4), of r]
  have "resync_strict h (g @ p @ r) (length g)"
    using hd header_skip [of g "p @ r" 0] by (simp add: resync_strict_def)
  then have "find_resync (Some h) (g @ p @ r) = Some (length g)"
    using assms(1,2) hd(3) unfolding find_resync_def option.case find_upt_Some by (simp add: acl_noise_def Suc_le_eq)
  with assms(1,2) hd(3) show ?thesis by (simp add: acl_cut_def acl_noise_def)
qed

lemma drain_noise:
  assumes "acl_noise h g (concat ps)" "h \<le> 0x0fff" "\<forall>p \<in> set ps. acl_packet_of h p" "ps \<noteq> []"
  shows "acl_drain h (g @ concat ps) = ((if g = [] then [] else [None]) @ map Some ps, [])"
proof (cases "g = []")
  case False
  obtain p qs where "ps = p # qs" using assms(4) by (cases ps) auto
  with assms False cut_noise [of h g p "concat qs"] have "acl_cut h (g @ concat ps) = Some (Some None, concat ps)" by simp
  with acl_drain_packets [OF assms(2,3)] False show ?thesis by (simp add: acl_drain_cut)
qed (use acl_drain_packets [OF assms(2,3)] in simp)

text \<open>C20 After a loss, octets in front of the packets of a known link that do not look like its header are
  passed over and every packet after them is handed on, in order and whole, with nothing left, however the stream was
  cut into reads, when the burst lasts less than three seconds and fewer than two losses are on record.\<close>

theorem acl_stream_recovers:
  assumes "h \<le> 0x0fff" "ps \<noteq> []" "\<forall>p \<in> set ps. acl_packet_of h p" "acl_noise h g (concat ps)"
    and "concat (map snd reads) = g @ concat ps" "\<forall>(t, c) \<in> set reads. t0 \<le> t \<and> t < t0 + ACL_PARTIAL_TIMEOUT"
    and "as_buffer s = []" "as_partial_since s = None" "length (as_corruption_times s) < 2"
  shows "\<exists>s'. acl_burst (Some h) call_up reads s = (ps, replicate (length reads) AclBreak, s') \<and> as_buffer s' = []"
proof -
  have "waits_since t0 s" "acl_cut h (as_buffer s) = None" using assms(7,8) by (simp_all add: waits_since_def acl_cut_def)
  from burst_drains [OF assms(6) this] drain_noise [OF assms(4,1,3,2)] assms(5,7,9) show ?thesis by (cases "g = []") auto
qed

theorem acl_stream_recovers_witness:
  "\<exists>s'. acl_burst (Some 0x2a) False [(5, [0x77, 0x2a]), (9, [0x20, 2, 0, 7]), (2000, [8, 0x2a]), (2001, [0x10, 1, 0, 9])]
      \<lparr>as_buffer = [], as_partial_since = None, as_corruption_times = [], as_corruption_reported = 0, as_recovery = recovery_new, as_give_ups = 0\<rparr> =
    ([[0x2a, 0x20, 2, 0, 7, 8], [0x2a, 0x10, 1, 0, 9]], [AclBreak, AclBreak, AclBreak, AclBreak], s') \<and> as_buffer s' = []"
proof -
  have a: "acl_packet_of 0x2a [0x2a, 0x20, 2, 0, 7, 8]"
    unfolding acl_packet_of_def by (intro exI [of _ 2] exI [of _ "[7, 8]"] conjI) (code_simp, simp)
  have b: "acl_packet_of 0x2a [0x2a, 0x10, 1, 0, 9]"
    unfolding acl_packet_of_def by (intro exI [of _ 1] exI [of _ "[9]"] conjI) (code_simp, simp)
  have "header_corrupt (Some 0x2a) ([0x77] @ concat [[0x2a, 0x20, 2, 0, 7, 8], [0x2a, 0x10, 1, 0, 9]])" by code_simp
  then have n: "acl_noise 0x2a [0x77] (concat [[0x2a, 0x20, 2, 0, 7, 8], [0x2a, 0x10, 1, 0, 9]])" by (simp add: acl_noise_def)
  show ?thesis
    using acl_stream_recovers [of "0x2a" "[[0x2a, 0x20, 2, 0, 7, 8], [0x2a, 0x10, 1, 0, 9]]" "[0x77]"
      "[(5, [0x77, 0x2a]), (9, [0x20, 2, 0, 7]), (2000, [8, 0x2a]), (2001, [0x10, 1, 0, 9])]" 0
      "\<lparr>as_buffer = [], as_partial_since = None, as_corruption_times = [], as_corruption_reported = 0, as_recovery = recovery_new, as_give_ups = 0\<rparr>" False] a b n
    by (simp del: acl_burst.simps)
qed

end
