(* ===== verification/Sealing.thy ===== *)
theory Sealing
  imports Rust_Text
begin

text \<open>
  Sealing of small secrets at rest: \<open>aokie-core/src/dpapi.rs\<close> (the base64 of the tokens and the choice of the
  system's own sealing) and \<open>aokie-core/src/keychain_seal.rs\<close> (the token of macOS and Linux, and the cell that asks
  the system's store for the data key).  The cipher (AES-256-GCM of \<open>ring\<close>), the random octets, the calls of
  Windows and the key store are parameters; times are milliseconds.
\<close>

section \<open>Base64\<close>

definition B64 :: rstr where
  "B64 = lit ''ABCDEFGHIJKLMNOPQRSTUVWXYZabcdefghijklmnopqrstuvwxyz0123456789+/''"

definition b64_word :: "u8 \<Rightarrow> u8 \<Rightarrow> u8 \<Rightarrow> u32" where
  "b64_word a b c = push_bit 16 (ucast a) OR push_bit 8 (ucast b) OR ucast c"

definition b64_char :: "u32 \<Rightarrow> nat \<Rightarrow> nat" where
  "b64_char n k = B64 ! unat (drop_bit k n AND 63)"

fun b64_encode :: "bytes \<Rightarrow> rstr" where
  "b64_encode [] = []"
| "b64_encode [a] = (let n = b64_word a 0 0 in [b64_char n 18, b64_char n 12, 61, 61])"
| "b64_encode [a, b] = (let n = b64_word a b 0 in [b64_char n 18, b64_char n 12, b64_char n 6, 61])"
| "b64_encode (a # b # c # rest) =
     (let n = b64_word a b c in
      [b64_char n 18, b64_char n 12, b64_char n 6, b64_char n 0] @ b64_encode rest)"

definition b64_val :: "u8 \<Rightarrow> u32 option" where
  "b64_val c = map_option word_of_nat (find (\<lambda>i. B64 ! i = unat c) [0..<64])"

definition b64_digit :: "nat \<Rightarrow> u8 \<Rightarrow> u32 option" where
  "b64_digit i c = (if c = 61 then if i < 2 then None else Some 0 else b64_val c)"

definition b64_fold :: "nat \<Rightarrow> u8 \<Rightarrow> u32 option \<Rightarrow> u32 option" where
  "b64_fold i c acc =
     (case acc of None \<Rightarrow> None
      | Some n \<Rightarrow> map_option (\<lambda>v. push_bit 6 n OR v) (b64_digit i c))"

definition b64_pad :: "bytes \<Rightarrow> nat" where
  "b64_pad chunk = length (takeWhile (\<lambda>c. c = 61) (rev chunk))"

definition b64_octets :: "nat \<Rightarrow> u32 \<Rightarrow> bytes" where
  "b64_octets pad n =
     [ucast (drop_bit 16 n)] @ (if pad < 2 then [ucast (drop_bit 8 n)] else []) @ (if pad < 1 then [ucast n] else [])"

fun b64_chunks :: "bytes \<Rightarrow> bytes option" where
  "b64_chunks (a # b # c # d # rest) =
     (let pad = b64_pad [a, b, c, d] in
      if pad > 2 then None
      else case b64_fold 3 d (b64_fold 2 c (b64_fold 1 b (b64_fold 0 a (Some 0)))) of
             None \<Rightarrow> None
           | Some n \<Rightarrow> map_option (\<lambda>out. b64_octets pad n @ out) (b64_chunks rest))"
| "b64_chunks _ = Some []"

definition b64_decode :: "rstr \<Rightarrow> bytes option" where
  "b64_decode text =
     (let bs = filter (\<lambda>c. \<not> is_ascii_whitespace (unat c)) (utf8_encode text) in
      if length bs mod 4 \<noteq> 0 then None else b64_chunks bs)"

lemma B64_length [simp]: "length B64 = 64"
  by (simp add: B64_def)

lemma B64_distinct: "distinct B64"
  by (simp add: B64_def)

lemma B64_chars: "\<forall>c\<in>set B64. c < 128 \<and> c \<noteq> 61 \<and> \<not> is_ascii_whitespace c"
  by (simp add: B64_def is_ascii_whitespace_def)

lemma b64_char_set: "b64_char n k \<in> set B64"
proof -
  have "unat (drop_bit k n AND 63) < 64" by (rule le_less_trans [OF word_and_le1 [THEN word_le_nat_alt [THEN iffD1]]]) simp
  then show ?thesis by (simp add: b64_char_def)
qed

lemma b64_char_facts [simp]:
  "b64_char n k < 128" "b64_char n k \<noteq> 61" "61 \<noteq> b64_char n k" "\<not> is_ascii_whitespace (b64_char n k)"
  using B64_chars b64_char_set [of n k] by auto

lemma b64_val_char [simp]: "b64_val (word_of_nat (b64_char n k)) = Some (drop_bit k n AND 63)"
proof -
  define i where "i = unat (drop_bit k n AND 63)"
  have i: "i < 64" unfolding i_def by (rule le_less_trans [OF word_and_le1 [THEN word_le_nat_alt [THEN iffD1]]]) simp
  have "find (\<lambda>j. B64 ! j = B64 ! i) [0..<64] = Some i"
    using i B64_distinct by (auto simp: find_upt_Some nth_eq_iff_index_eq)
  moreover have "unat (word_of_nat (B64 ! i) :: u8) = B64 ! i"
    using i B64_chars nth_mem [of i B64] by (fastforce simp: unat_of_nat)
  ultimately show ?thesis by (simp add: b64_val_def b64_char_def flip: i_def) (simp add: i_def)
qed

lemma b64_fold_char [simp]:
  "b64_fold i (word_of_nat (b64_char n k)) (Some acc) = Some (push_bit 6 acc OR (drop_bit k n AND 63))"
proof -
  have "word_of_nat (b64_char n k) \<noteq> (61 :: u8)"
    using b64_char_facts(1,2) [of n k] by (simp add: word_unat_eq_iff unat_of_nat del: b64_char_facts)
  then show ?thesis by (simp add: b64_fold_def b64_digit_def)
qed

lemma b64_word_bits:
  "push_bit 6 (push_bit 6 (push_bit 6 (drop_bit 18 n AND 63) OR (drop_bit 12 n AND 63)) OR (drop_bit 6 n AND 63)) OR (n AND 63)
   = n AND (mask 24 :: u32)"
proof (rule bit_word_eqI)
  fix i :: nat
  have m: "63 = (mask 6 :: u32)" by (simp add: mask_eq_exp_minus_1)
  consider "i < 6" | j where "i = 6 + j" "j < 6" | j where "i = 12 + j" "j < 6" | j where "i = 18 + j" "j < 6"
    | j where "i = 24 + j"
  proof -
    have "i < 6 \<or> i = 6 + (i - 6) \<and> i - 6 < 6 \<or> i = 12 + (i - 12) \<and> i - 12 < 6 \<or> i = 18 + (i - 18) \<and> i - 18 < 6 \<or> i = 24 + (i - 24)"
      by arith
    then show thesis using that by blast
  qed
  then show "bit (push_bit 6 (push_bit 6 (push_bit 6 (drop_bit 18 n AND 63) OR (drop_bit 12 n AND 63)) OR (drop_bit 6 n AND 63)) OR (n AND 63)) i
      = bit (n AND (mask 24 :: u32)) i"
    by cases (simp_all add: m bit_simps)
qed

lemma b64_low_zero: "b64_word a b 0 AND 63 = 0" "drop_bit 6 (b64_word a 0 0) AND 63 = 0"
proof -
  have m: "63 = (mask 6 :: u32)" by (simp add: mask_eq_exp_minus_1)
  show "b64_word a b 0 AND 63 = 0" "drop_bit 6 (b64_word a 0 0) AND 63 = 0"
    by (rule bit_word_eqI, auto simp: m b64_word_def bit_simps)+
qed

lemma b64_word_octets:
  "ucast (drop_bit 16 (b64_word a b c AND mask 24)) = a" "ucast (drop_bit 8 (b64_word a b c AND mask 24)) = b"
  "ucast (b64_word a b c AND mask 24) = c"
  by (rule bit_word_eqI, auto simp: b64_word_def bit_simps dest: bit_imp_le_length)+

lemma b64_fold_pad [simp]: "2 \<le> i \<Longrightarrow> b64_fold i 61 (Some acc) = Some (push_bit 6 acc)"
  by (simp add: b64_fold_def b64_digit_def)

lemma b64_pad_char [simp]:
  "b64_pad [x, y, z, word_of_nat (b64_char n k)] = 0" "b64_pad [x, y, word_of_nat (b64_char n k), 61] = 1"
  "b64_pad [x, word_of_nat (b64_char n k), 61, 61] = 2"
proof -
  have "word_of_nat (b64_char n k) \<noteq> (61 :: u8)"
    using b64_char_facts(1,2) [of n k] by (simp add: word_unat_eq_iff unat_of_nat del: b64_char_facts)
  then show "b64_pad [x, y, z, word_of_nat (b64_char n k)] = 0" "b64_pad [x, y, word_of_nat (b64_char n k), 61] = 1"
    "b64_pad [x, word_of_nat (b64_char n k), 61, 61] = 2" by (simp_all add: b64_pad_def)
qed

lemma b64_quantum:
  "b64_fold 3 (word_of_nat (b64_char n 0)) (b64_fold 2 (word_of_nat (b64_char n 6)) (b64_fold 1 (word_of_nat (b64_char n 12))
     (b64_fold 0 (word_of_nat (b64_char n 18)) (Some 0)))) = Some (n AND mask 24)"
  using b64_word_bits [of n] by simp

lemma b64_quantum_pad:
  "b64_fold 3 61 (b64_fold 2 (word_of_nat (b64_char (b64_word a b 0) 6)) (b64_fold 1 (word_of_nat (b64_char (b64_word a b 0) 12))
     (b64_fold 0 (word_of_nat (b64_char (b64_word a b 0) 18)) (Some 0)))) = Some (b64_word a b 0 AND mask 24)"
  "b64_fold 3 61 (b64_fold 2 61 (b64_fold 1 (word_of_nat (b64_char (b64_word a 0 0) 12))
     (b64_fold 0 (word_of_nat (b64_char (b64_word a 0 0) 18)) (Some 0)))) = Some (b64_word a 0 0 AND mask 24)"
  using b64_word_bits [of "b64_word a b 0"] b64_word_bits [of "b64_word a 0 0"] by (simp_all add: b64_low_zero)

lemma b64_octets_word:
  "b64_octets pad (b64_word a b c AND mask 24) = [a] @ (if pad < 2 then [b] else []) @ (if pad < 1 then [c] else [])"
  by (simp add: b64_octets_def b64_word_octets del: drop_bit_and)

lemma b64_chunks_encode: "b64_chunks (map word_of_nat (b64_encode bs)) = Some bs"
  by (induction bs rule: b64_encode.induct)
    (simp_all add: Let_def b64_quantum b64_quantum_pad b64_octets_word del: b64_fold_char b64_fold_pad One_nat_def)

lemma b64_encode_ascii: "c \<in> set (b64_encode bs) \<Longrightarrow> c < 128 \<and> \<not> is_ascii_whitespace c"
  by (induction bs rule: b64_encode.induct) (auto simp: Let_def is_ascii_whitespace_def [of 61])

lemma b64_encode_length: "length (b64_encode bs) mod 4 = 0"
  by (induction bs rule: b64_encode.induct) (auto simp: Let_def)

lemma utf8_encode_ascii: "(\<And>c. c \<in> set s \<Longrightarrow> c < 128) \<Longrightarrow> utf8_encode s = map word_of_nat s"
  by (induction s) (simp_all add: utf8_char_def octet_def)

lemma b64_decode_encode: "b64_decode (b64_encode bs) = Some bs"
proof -
  have u: "utf8_encode (b64_encode bs) = map word_of_nat (b64_encode bs)"
    by (rule utf8_encode_ascii) (simp add: b64_encode_ascii)
  have f: "filter (\<lambda>c. \<not> is_ascii_whitespace (unat c)) (map (word_of_nat :: nat \<Rightarrow> u8) (b64_encode bs)) = map word_of_nat (b64_encode bs)"
    by (rule filter_True) (auto dest!: b64_encode_ascii simp: unat_of_nat)
  show ?thesis by (simp add: b64_decode_def u f b64_chunks_encode b64_encode_length)
qed

section \<open>Tokens\<close>

datatype seal_error =
    KeyUnusable | NoRandom | SealingFailed | NotSealedHere | Base64Corrupt | SealedTooShort | DoesNotOpen
  | SealedByWindows | ProtectFailed | NoPlatformSeal | KeyNotYet | KeyRefused rstr nat

abbreviation DPAPI_PREFIX :: rstr where "DPAPI_PREFIX \<equiv> lit ''dpapi:''"
abbreviation KEYCHAIN_PREFIX :: rstr where "KEYCHAIN_PREFIX \<equiv> lit ''keychain1:''"
abbreviation (input) NONCE_LEN :: nat where "NONCE_LEN \<equiv> 12"
abbreviation (input) TAG_LEN :: nat where "TAG_LEN \<equiv> 16"
abbreviation (input) SEAL_KEY_LEN :: nat where "SEAL_KEY_LEN \<equiv> 32"

definition CONTEXT :: bytes where "CONTEXT = ascii ''aokie sealed value v1''"

definition is_sealed :: "rstr \<Rightarrow> bool" where
  "is_sealed stored = (starts_with DPAPI_PREFIX stored \<or> starts_with KEYCHAIN_PREFIX stored)"

text \<open>The cipher: key, nonce, associated data and text.\<close>

record Aead =
  aead_seal :: "bytes \<Rightarrow> bytes \<Rightarrow> bytes \<Rightarrow> bytes \<Rightarrow> bytes option"
  aead_open :: "bytes \<Rightarrow> bytes \<Rightarrow> bytes \<Rightarrow> bytes \<Rightarrow> bytes option"

definition seal_with_key :: "Aead \<Rightarrow> bytes option \<Rightarrow> bytes \<Rightarrow> bytes \<Rightarrow> seal_error + rstr" where
  "seal_with_key c random key plain =
     (if length key \<noteq> SEAL_KEY_LEN then Inl KeyUnusable
      else case random of
             None \<Rightarrow> Inl NoRandom
           | Some nonce \<Rightarrow>
               (case aead_seal c key nonce CONTEXT plain of
                  None \<Rightarrow> Inl SealingFailed
                | Some body \<Rightarrow> Inr (KEYCHAIN_PREFIX @ b64_encode (nonce @ body))))"

definition open_with_key :: "Aead \<Rightarrow> bytes \<Rightarrow> rstr \<Rightarrow> seal_error + bytes" where
  "open_with_key c key stored =
     (case strip_prefix KEYCHAIN_PREFIX stored of
        None \<Rightarrow> Inl NotSealedHere
      | Some b64 \<Rightarrow>
          (case b64_decode b64 of
             None \<Rightarrow> Inl Base64Corrupt
           | Some sealed \<Rightarrow>
               if length sealed < NONCE_LEN + TAG_LEN then Inl SealedTooShort
               else if length key \<noteq> SEAL_KEY_LEN then Inl KeyUnusable
               else (case aead_open c key (take NONCE_LEN sealed) CONTEXT (drop NONCE_LEN sealed) of
                       None \<Rightarrow> Inl DoesNotOpen
                     | Some plain \<Rightarrow> Inr plain)))"

text \<open>What \<open>ring\<close> documents of the cipher: what was sealed opens under the same key, nonce and context, and the sealed text
  is longer than the plain one by the tag.\<close>

definition aead_ok :: "Aead \<Rightarrow> bool" where
  "aead_ok c = (\<forall>key nonce aad plain body. aead_seal c key nonce aad plain = Some body \<longrightarrow>
     aead_open c key nonce aad body = Some plain \<and> length body = length plain + TAG_LEN)"

lemma seal_open:
  assumes "aead_ok c" "seal_with_key c (Some nonce) key plain = Inr token" "length nonce = NONCE_LEN"
  shows "open_with_key c key token = Inr plain"
proof -
  from assms(2) obtain body where body: "aead_seal c key nonce CONTEXT plain = Some body"
    and token: "token = KEYCHAIN_PREFIX @ b64_encode (nonce @ body)" and key: "length key = SEAL_KEY_LEN"
    by (auto simp: seal_with_key_def split: if_splits option.splits)
  from assms(1) body have "aead_open c key nonce CONTEXT body = Some plain" "length body = length plain + TAG_LEN"
    by (auto simp: aead_ok_def)
  with assms(3) key show ?thesis
    by (simp add: open_with_key_def token b64_decode_encode del: lit_simps)
qed

section \<open>The data key\<close>

text \<open>Where the asking for the key is: not asked, asked since a time after so many failures, here, or refused until a time.\<close>

datatype KeyState = Unasked | Asking instant nat | KeyReady bytes | KeyFailed rstr nat instant

abbreviation (input) KEY_WAIT :: duration where "KEY_WAIT \<equiv> 15000"
abbreviation (input) KEY_RETRY_FIRST :: duration where "KEY_RETRY_FIRST \<equiv> 30000"
abbreviation (input) KEY_RETRY_MAX :: duration where "KEY_RETRY_MAX \<equiv> 600000"

definition key_failed :: "instant \<Rightarrow> rstr \<Rightarrow> nat \<Rightarrow> KeyState" where
  "key_failed now error failures_before =
     (let failures = min (failures_before + 1) (2 ^ 32 - 1);
          backoff = min (KEY_RETRY_FIRST * 2 ^ min (failures - 1) 16) KEY_RETRY_MAX in
      KeyFailed error failures (now + backoff))"

text \<open>The start of the asking, with what the system said of the new thread; true when a thread was started.\<close>

definition key_begin :: "instant \<Rightarrow> rstr option \<Rightarrow> KeyState \<Rightarrow> bool \<times> KeyState" where
  "key_begin now spawn_error st =
     (let start = (\<lambda>failures. case spawn_error of
                     None \<Rightarrow> (True, Asking now failures)
                   | Some e \<Rightarrow> (False, key_failed now (lit ''the sealing key could not be asked for: '' @ e) failures)) in
      case st of
        Unasked \<Rightarrow> start 0
      | KeyFailed _ failures retry_at \<Rightarrow> if now \<ge> retry_at then start failures else (False, st)
      | _ \<Rightarrow> (False, st))"

definition key_answer :: "instant \<Rightarrow> rstr + bytes \<Rightarrow> KeyState \<Rightarrow> KeyState" where
  "key_answer now answer st =
     (let failures = (case st of Asking _ f \<Rightarrow> f | _ \<Rightarrow> 0) in
      case answer of Inr key \<Rightarrow> KeyReady key | Inl error \<Rightarrow> key_failed now error failures)"

text \<open>A turn of \<open>get\<close> up to its wait: the result, or none while it waits.\<close>

definition key_look :: "instant \<Rightarrow> KeyState \<Rightarrow> (seal_error + bytes) option" where
  "key_look now st =
     (case st of
        KeyReady key \<Rightarrow> Some (Inr key)
      | KeyFailed error _ retry_at \<Rightarrow>
          if now < retry_at then Some (Inl (KeyRefused error (max 1 ((retry_at - now) div 1000)))) else None
      | Unasked \<Rightarrow> None
      | Asking since _ \<Rightarrow> if now \<ge> since + KEY_WAIT then Some (Inl KeyNotYet) else None)"

definition key_get :: "instant \<Rightarrow> rstr option \<Rightarrow> KeyState \<Rightarrow> (seal_error + bytes) option \<times> bool \<times> KeyState" where
  "key_get now spawn_error st =
     (case key_look now st of
        Some r \<Rightarrow> (Some r, False, st)
      | None \<Rightarrow> (case key_begin now spawn_error st of (started, st') \<Rightarrow> (key_look now st', started, st')))"

text \<open>A process: the cell, the threads that are asking the store, and the keys given to callers.\<close>

record KeyRun =
  kr_state :: KeyState
  kr_asking :: nat
  kr_given :: "bytes list"

datatype key_event = KeyAsk instant "rstr option" | KeyAnswer instant "rstr + bytes" | KeyGet instant "rstr option"

fun key_step :: "key_event \<Rightarrow> KeyRun \<Rightarrow> KeyRun" where
  "key_step (KeyAsk now e) r =
     (case key_begin now e (kr_state r) of
        (started, st) \<Rightarrow> r\<lparr>kr_state := st, kr_asking := kr_asking r + (if started then 1 else 0)\<rparr>)"
| "key_step (KeyAnswer now a) r =
     (if kr_asking r = 0 then r
      else r\<lparr>kr_state := key_answer now a (kr_state r), kr_asking := kr_asking r - 1\<rparr>)"
| "key_step (KeyGet now e) r =
     (case key_get now e (kr_state r) of
        (res, started, st) \<Rightarrow>
          r\<lparr>kr_state := st, kr_asking := kr_asking r + (if started then 1 else 0),
            kr_given := kr_given r @ (case res of Some (Inr k) \<Rightarrow> [k] | _ \<Rightarrow> [])\<rparr>)"

definition key_start :: KeyRun where
  "key_start = \<lparr>kr_state = Unasked, kr_asking = 0, kr_given = []\<rparr>"

definition key_inv :: "KeyRun \<Rightarrow> bool" where
  "key_inv r = (kr_asking r = (case kr_state r of Asking _ _ \<Rightarrow> 1 | _ \<Rightarrow> 0) \<and> (\<forall>k \<in> set (kr_given r). kr_state r = KeyReady k))"

lemma key_begin_asking:
  "key_begin now e st = (started, st') \<Longrightarrow>
   (started \<longrightarrow> (\<exists>f. st' = Asking now f) \<and> (\<forall>s f. st \<noteq> Asking s f) \<and> (\<forall>k. st \<noteq> KeyReady k)) \<and>
   (\<not> started \<longrightarrow> st' = st \<or> (\<exists>e f t. st' = KeyFailed e f t) \<and> (\<forall>s f. st \<noteq> Asking s f) \<and> (\<forall>k. st \<noteq> KeyReady k))"
  by (auto simp: key_begin_def key_failed_def Let_def split: KeyState.splits option.splits if_splits)

lemma key_step_inv: "key_inv r \<Longrightarrow> key_inv (key_step ev r)"
proof (cases ev)
  case (KeyAsk now e)
  assume "key_inv r"
  with KeyAsk show ?thesis
    by (cases "key_begin now e (kr_state r)") (fastforce simp: key_inv_def dest: key_begin_asking split: KeyState.splits)
next
  case (KeyAnswer now a)
  assume "key_inv r"
  with KeyAnswer show ?thesis
    by (auto simp: key_inv_def key_answer_def key_failed_def Let_def split: KeyState.splits sum.splits)
next
  case (KeyGet now e)
  assume inv: "key_inv r"
  show ?thesis
  proof (cases "key_look now (kr_state r)")
    case None
    then show ?thesis using KeyGet inv
      by (cases "key_begin now e (kr_state r)")
        (fastforce simp: key_inv_def key_get_def key_look_def dest: key_begin_asking split: KeyState.splits if_splits)
  next
    case (Some res)
    then show ?thesis using KeyGet inv
      by (auto simp: key_inv_def key_get_def key_look_def split: KeyState.splits if_splits)
  qed
qed

lemma key_run_inv: "key_inv r \<Longrightarrow> key_inv (fold key_step evs r)"
  by (induction evs arbitrary: r) (simp_all add: key_step_inv)

lemma one_sealing_key:
  "kr_asking (fold key_step evs key_start) \<le> 1 \<and> (\<forall>k \<in> set (kr_given (fold key_step evs key_start)).
     \<forall>evs' k'. k' \<in> set (kr_given (fold key_step evs' (fold key_step evs key_start))) \<longrightarrow> k' = k)"
proof -
  have i: "key_inv (fold key_step evs key_start)" by (rule key_run_inv) (simp add: key_inv_def key_start_def)
  have mono: "set (kr_given r) \<subseteq> set (kr_given (fold key_step evs' r))" for evs' and r
  proof (induction evs' arbitrary: r)
    case (Cons ev evs')
    have "set (kr_given r) \<subseteq> set (kr_given (key_step ev r))"
      by (cases ev) (auto split: prod.splits)
    with Cons [of "key_step ev r"] show ?case by auto
  qed simp
  have "k' = k" if "k \<in> set (kr_given (fold key_step evs key_start))"
    and "k' \<in> set (kr_given (fold key_step evs' (fold key_step evs key_start)))" for k k' evs'
  proof -
    let ?r = "fold key_step evs' (fold key_step evs key_start)"
    have inv: "x \<in> set (kr_given ?r) \<Longrightarrow> kr_state ?r = KeyReady x" for x
      using key_run_inv [OF i, of evs'] by (simp add: key_inv_def)
    have "kr_state ?r = KeyReady k" using that(1) mono [of "fold key_step evs key_start" evs'] by (intro inv) auto
    with inv [OF that(2)] show ?thesis by simp
  qed
  with i show ?thesis by (fastforce simp: key_inv_def split: KeyState.splits)
qed

text \<open>A refusal of the store is not repeated to it for thirty seconds to ten minutes, whatever is asked meanwhile.\<close>

lemma key_backoff_bounds:
  "key_failed now e f = KeyFailed e' f' t \<Longrightarrow> now + KEY_RETRY_FIRST \<le> t \<and> t \<le> now + KEY_RETRY_MAX"
proof -
  have "(1 :: nat) \<le> 2 ^ n" for n by simp
  then have "KEY_RETRY_FIRST \<le> KEY_RETRY_FIRST * 2 ^ n" for n by (metis mult_le_mono2 mult.right_neutral)
  then show "key_failed now e f = KeyFailed e' f' t \<Longrightarrow> now + KEY_RETRY_FIRST \<le> t \<and> t \<le> now + KEY_RETRY_MAX"
    by (auto simp: key_failed_def Let_def)
qed

text \<open>A caller never waits longer than fifteen seconds after the store was asked.\<close>

lemma key_get_bounded: "key_look (since + KEY_WAIT) (Asking since f) = Some (Inl KeyNotYet)"
  by (simp add: key_look_def)

section \<open>The system's own sealing\<close>

datatype platform = Windows | Unix | OtherSystem

definition platform_supported :: "platform \<Rightarrow> bool" where
  "platform_supported p = (p \<noteq> OtherSystem)"

text \<open>What the system gives: the calls of Windows, the cipher, the random octets of a nonce and the data key.\<close>

record SealSystem =
  sys_platform :: platform
  sys_protect :: "bytes \<Rightarrow> bytes option"
  sys_unprotect :: "bytes \<Rightarrow> bytes option"
  sys_aead :: Aead
  sys_random :: "bytes option"
  sys_data_key :: "seal_error + bytes"

definition protect :: "SealSystem \<Rightarrow> bytes \<Rightarrow> seal_error + rstr" where
  "protect y plain =
     (case sys_platform y of
        Windows \<Rightarrow> (case sys_protect y plain of None \<Rightarrow> Inl ProtectFailed | Some blob \<Rightarrow> Inr (DPAPI_PREFIX @ b64_encode blob))
      | Unix \<Rightarrow> (case sys_data_key y of Inl e \<Rightarrow> Inl e | Inr key \<Rightarrow> seal_with_key (sys_aead y) (sys_random y) key plain)
      | OtherSystem \<Rightarrow> Inl NoPlatformSeal)"

definition unprotect :: "SealSystem \<Rightarrow> rstr \<Rightarrow> seal_error + bytes" where
  "unprotect y stored =
     (case sys_platform y of
        Windows \<Rightarrow>
          (case strip_prefix DPAPI_PREFIX stored of
             None \<Rightarrow> Inl NotSealedHere
           | Some b64 \<Rightarrow>
               (case b64_decode b64 of
                  None \<Rightarrow> Inl Base64Corrupt
                | Some bs \<Rightarrow> (case sys_unprotect y bs of None \<Rightarrow> Inl DoesNotOpen | Some plain \<Rightarrow> Inr plain)))
      | Unix \<Rightarrow>
          if starts_with DPAPI_PREFIX stored then Inl SealedByWindows
          else (case sys_data_key y of Inl e \<Rightarrow> Inl e | Inr key \<Rightarrow> open_with_key (sys_aead y) key stored)
      | OtherSystem \<Rightarrow> Inl NoPlatformSeal)"

text \<open>What the systems document: a blob opens to what was protected, and nonces have their length.\<close>

definition seal_system_ok :: "SealSystem \<Rightarrow> bool" where
  "seal_system_ok y =
     ((\<forall>plain blob. sys_protect y plain = Some blob \<longrightarrow> sys_unprotect y blob = Some plain) \<and> aead_ok (sys_aead y) \<and>
      (\<forall>nonce. sys_random y = Some nonce \<longrightarrow> length nonce = NONCE_LEN))"

lemma starts_with_other: "\<not> starts_with DPAPI_PREFIX (KEYCHAIN_PREFIX @ s)"
  by (simp add: starts_with_def)

lemma protect_unprotect:
  assumes "seal_system_ok y" "protect y plain = Inr token"
  shows "unprotect y token = Inr plain \<and> is_sealed token"
proof (cases "sys_platform y")
  case Windows
  with assms show ?thesis
    by (auto simp: protect_def unprotect_def seal_system_ok_def is_sealed_def starts_with_def b64_decode_encode
        simp del: lit_simps split: option.splits)
next
  case Unix
  with assms(2) obtain key nonce where key: "sys_data_key y = Inr key" and sealed: "seal_with_key (sys_aead y) (Some nonce) key plain = Inr token"
    and nonce: "sys_random y = Some nonce"
    by (cases "sys_random y") (auto simp: protect_def seal_with_key_def simp del: lit_simps split: sum.splits if_splits)
  from sealed obtain s where token: "token = KEYCHAIN_PREFIX @ s"
    by (auto simp: seal_with_key_def split: option.splits if_splits)
  have "open_with_key (sys_aead y) key token = Inr plain"
    using assms(1) nonce by (intro seal_open [OF _ sealed]) (auto simp: seal_system_ok_def)
  then show ?thesis
    using Unix key starts_with_other [of s] by (simp add: unprotect_def is_sealed_def token starts_with_def del: lit_simps)
next
  case OtherSystem
  with assms show ?thesis by (simp add: protect_def)
qed

end
