(* ===== verification/Pairing_Store.thy ===== *)
theory Pairing_Store
  imports Sealing Btree_Map "HOL-Library.List_Lexorder"
begin

text \<open>
  The bonded phones: \<open>aokie_radio/pairing_store.rs\<close>.  The store keeps its records in memory and a file beside it; the
  file is modelled as the \<open>StoreFile\<close> it holds (its JSON text is read and written by \<open>serde_json\<close>), and the outcome
  of the atomic write is an argument of every operation that saves.  Strings are compared by their characters, which is
  the order of a \<open>BTreeMap<String, _>\<close>.
\<close>

section \<open>Records\<close>

record LinkKeyRecord =
  lk_address :: rstr
  lk_link_key :: bytes
  lk_key_type :: u8

record StoredLinkKey =
  sk_key_hex :: "rstr option"
  sk_key_sealed :: "rstr option"
  sk_key_type :: u8
  sk_name :: "rstr option"

type_synonym link_keys = "(rstr, StoredLinkKey) btree_map"

record StoreFile =
  sf_version :: u8
  sf_link_keys :: link_keys

record PairedDeviceRecord =
  pd_address :: rstr
  pd_name :: "rstr option"

text \<open>What is at the path: nothing, something that cannot be read or parsed, or a store.\<close>

datatype store_disk = NoStore | BadStore rstr | StoreAt StoreFile

record AokiePairingStore =
  ps_records :: link_keys
  ps_disk :: store_disk

datatype store_error =
    StoreUnread rstr
  | UnsupportedVersion u8
  | NeitherKey rstr
  | HexLength nat
  | HexByte nat
  | HexPanic nat
  | WrongKeyLength rstr
  | SealFailed seal_error
  | StoreUnwritten rstr

abbreviation (input) STORE_VERSION_PLAINTEXT :: u8 where "STORE_VERSION_PLAINTEXT \<equiv> 1"
abbreviation (input) STORE_VERSION_SEALED :: u8 where "STORE_VERSION_SEALED \<equiv> 2"

definition normalize_address :: "rstr \<Rightarrow> rstr" where
  "normalize_address address = map to_ascii_uppercase address"

section \<open>Link keys as hexadecimal\<close>

definition encode_link_key_hex :: "bytes \<Rightarrow> rstr" where
  "encode_link_key_hex link_key = concat (map (hex2 False) link_key)"

text \<open>The slice of two octets at an offset panics inside a character.\<close>

definition hex_octet :: "bytes \<Rightarrow> nat \<Rightarrow> store_error + u8" where
  "hex_octet bs off =
     (if utf8_cont (bs ! off) \<or> (off + 2 < length bs \<and> utf8_cont (bs ! (off + 2))) then Inl (HexPanic off)
      else case utf8_decode (take 2 (drop off bs)) of
             None \<Rightarrow> Inl (HexPanic off)
           | Some s \<Rightarrow> (case u8_from_hex s of None \<Rightarrow> Inl (HexByte off) | Some b \<Rightarrow> Inr b))"

fun hex_octets :: "bytes \<Rightarrow> nat list \<Rightarrow> store_error + bytes" where
  "hex_octets bs [] = Inr []"
| "hex_octets bs (off # offs) =
     (case hex_octet bs off of
        Inl e \<Rightarrow> Inl e
      | Inr b \<Rightarrow> (case hex_octets bs offs of Inl e \<Rightarrow> Inl e | Inr out \<Rightarrow> Inr (b # out)))"

definition decode_link_key_hex :: "rstr \<Rightarrow> store_error + bytes" where
  "decode_link_key_hex v =
     (let bs = utf8_encode v in
      if length bs \<noteq> 32 then Inl (HexLength (length bs)) else hex_octets bs (map (\<lambda>i. i * 2) [0..<16]))"

section \<open>Operations\<close>

definition store_save :: "rstr option \<Rightarrow> AokiePairingStore \<Rightarrow> (store_error + unit) \<times> AokiePairingStore" where
  "store_save write_error s =
     (case write_error of
        Some e \<Rightarrow> (Inl (StoreUnwritten e), s)
      | None \<Rightarrow> (Inr (), s\<lparr>ps_disk := StoreAt \<lparr>sf_version = STORE_VERSION_SEALED, sf_link_keys = ps_records s\<rparr>\<rparr>))"

fun seal_plaintext_records :: "SealSystem \<Rightarrow> link_keys \<Rightarrow> store_error + bool \<times> link_keys" where
  "seal_plaintext_records y [] = Inr (False, [])"
| "seal_plaintext_records y ((address, r) # rest) =
     (if sk_key_sealed r \<noteq> None then
        (case seal_plaintext_records y rest of
           Inl e \<Rightarrow> Inl e
         | Inr (changed, rest') \<Rightarrow> Inr (changed, (address, r) # rest'))
      else
        (case sk_key_hex r of
           None \<Rightarrow> Inl (NeitherKey address)
         | Some hex \<Rightarrow>
             (case decode_link_key_hex hex of
                Inl e \<Rightarrow> Inl e
              | Inr key \<Rightarrow>
                  (case protect y key of
                     Inl e \<Rightarrow> Inl (SealFailed e)
                   | Inr token \<Rightarrow>
                       (case seal_plaintext_records y rest of
                          Inl e \<Rightarrow> Inl e
                        | Inr (_, rest') \<Rightarrow>
                            Inr (True, (address, r\<lparr>sk_key_hex := None, sk_key_sealed := Some token\<rparr>) # rest'))))))"

definition store_read :: "store_disk \<Rightarrow> store_error + link_keys" where
  "store_read d =
     (case d of
        NoStore \<Rightarrow> Inr []
      | BadStore e \<Rightarrow> Inl (StoreUnread e)
      | StoreAt f \<Rightarrow>
          if sf_version f \<noteq> STORE_VERSION_PLAINTEXT \<and> sf_version f \<noteq> STORE_VERSION_SEALED
          then Inl (UnsupportedVersion (sf_version f)) else Inr (sf_link_keys f))"

definition store_load :: "SealSystem \<Rightarrow> rstr option \<Rightarrow> store_disk \<Rightarrow> store_error + AokiePairingStore" where
  "store_load y write_error d =
     (case store_read d of
        Inl e \<Rightarrow> Inl e
      | Inr records \<Rightarrow>
          if \<not> platform_supported (sys_platform y) then Inr \<lparr>ps_records = records, ps_disk = d\<rparr>
          else (case seal_plaintext_records y records of
                  Inl e \<Rightarrow> Inl e
                | Inr (changed, records') \<Rightarrow>
                    (let s = \<lparr>ps_records = records', ps_disk = d\<rparr> in
                     if changed then (case store_save write_error s of (Inl e, _) \<Rightarrow> Inl e | (Inr _, s') \<Rightarrow> Inr s')
                     else Inr s)))"

definition store_len :: "AokiePairingStore \<Rightarrow> nat" where "store_len s = length (ps_records s)"

definition list_addresses :: "AokiePairingStore \<Rightarrow> rstr list" where "list_addresses s = map fst (ps_records s)"

definition list_devices :: "AokiePairingStore \<Rightarrow> PairedDeviceRecord list" where
  "list_devices s = map (\<lambda>(a, r). \<lparr>pd_address = a, pd_name = sk_name r\<rparr>) (ps_records s)"

definition store_contains :: "AokiePairingStore \<Rightarrow> rstr \<Rightarrow> bool" where
  "store_contains s address = (map_of (ps_records s) (normalize_address address) \<noteq> None)"

definition store_set_name ::
    "rstr option \<Rightarrow> rstr \<Rightarrow> rstr \<Rightarrow> AokiePairingStore \<Rightarrow> (store_error + bool) \<times> AokiePairingStore" where
  "store_set_name write_error address name0 s =
     (let name = trim name0 in
      case map_of (ps_records s) (normalize_address address) of
        None \<Rightarrow> (Inr False, s)
      | Some r \<Rightarrow>
          (let new = (if name = [] then None else Some name) in
           if sk_name r = new then (Inr False, s)
           else (case store_save write_error (s\<lparr>ps_records :=
                        bt_update (normalize_address address) (\<lambda>r. r\<lparr>sk_name := new\<rparr>) (ps_records s)\<rparr>) of
                   (Inl e, s') \<Rightarrow> (Inl e, s')
                 | (Inr _, s') \<Rightarrow> (Inr True, s'))))"

definition store_remove :: "rstr option \<Rightarrow> rstr \<Rightarrow> AokiePairingStore \<Rightarrow> (store_error + bool) \<times> AokiePairingStore" where
  "store_remove write_error address s =
     (if \<not> store_contains s address then (Inr False, s)
      else (case store_save write_error (s\<lparr>ps_records := bt_remove (normalize_address address) (ps_records s)\<rparr>) of
              (Inl e, s') \<Rightarrow> (Inl e, s')
            | (Inr _, s') \<Rightarrow> (Inr True, s')))"

definition open_record :: "SealSystem \<Rightarrow> rstr \<Rightarrow> StoredLinkKey \<Rightarrow> store_error + bytes" where
  "open_record y address r =
     (case (sk_key_sealed r, sk_key_hex r) of
        (Some sealed, _) \<Rightarrow>
          (case unprotect y sealed of
             Inl e \<Rightarrow> Inl (SealFailed e)
           | Inr bs \<Rightarrow> if length bs = 16 then Inr bs else Inl (WrongKeyLength address))
      | (None, Some hex) \<Rightarrow> decode_link_key_hex hex
      | (None, None) \<Rightarrow> Inl (NeitherKey address))"

definition store_get :: "SealSystem \<Rightarrow> AokiePairingStore \<Rightarrow> rstr \<Rightarrow> store_error + LinkKeyRecord option" where
  "store_get y s address =
     (case map_of (ps_records s) (normalize_address address) of
        None \<Rightarrow> Inr None
      | Some r \<Rightarrow>
          (case open_record y address r of
             Inl e \<Rightarrow> Inl e
           | Inr link_key \<Rightarrow>
               Inr (Some \<lparr>lk_address = normalize_address address, lk_link_key = link_key, lk_key_type = sk_key_type r\<rparr>)))"

definition store_put ::
    "SealSystem \<Rightarrow> rstr option \<Rightarrow> rstr \<Rightarrow> bytes \<Rightarrow> u8 \<Rightarrow> AokiePairingStore \<Rightarrow> (store_error + unit) \<times> AokiePairingStore" where
  "store_put y write_error address link_key key_type s =
     (let name = Option.bind (map_of (ps_records s) (normalize_address address)) sk_name;
          insert = (\<lambda>r. store_save write_error (s\<lparr>ps_records := bt_insert (normalize_address address) r (ps_records s)\<rparr>)) in
      if platform_supported (sys_platform y) then
        (case protect y link_key of
           Inl e \<Rightarrow> (Inl (SealFailed e), s)
         | Inr token \<Rightarrow> insert \<lparr>sk_key_hex = None, sk_key_sealed = Some token, sk_key_type = key_type, sk_name = name\<rparr>)
      else insert \<lparr>sk_key_hex = Some (encode_link_key_hex link_key), sk_key_sealed = None, sk_key_type = key_type, sk_name = name\<rparr>)"

section \<open>Keys as they were\<close>

lemma ascii_octets: "(\<And>c. c \<in> set s \<Longrightarrow> c < 128) \<Longrightarrow> utf8_decode (map word_of_nat s) = Some s"
  using utf8_roundtrip [of s] utf8_encode_ascii [of s] by (fastforce simp: list_all_iff scalar_value_def)

lemma key_hex_ascii: "n < 16 \<Longrightarrow> hex_char u n < 128"
  by (simp add: hex_char_def)

lemma hex2_ascii: "c \<in> set (hex2 u b) \<Longrightarrow> c < 128"
proof -
  have "unat b div 16 < 16" using u8_less_256 [of b] by (simp add: div_less_iff_less_mult del: u8_less_256)
  then show "c \<in> set (hex2 u b) \<Longrightarrow> c < 128" by (auto simp: hex2_def intro!: key_hex_ascii)
qed

lemma ascii_no_cont: "c < 128 \<Longrightarrow> \<not> utf8_cont (word_of_nat c)"
  by (auto simp: utf8_cont_def word_le_nat_alt unat_of_nat)

lemma encode_hex_ascii: "c \<in> set (encode_link_key_hex k) \<Longrightarrow> c < 128"
  by (auto simp: encode_link_key_hex_def dest: hex2_ascii)

lemma encode_hex_length: "length (encode_link_key_hex k) = 2 * length k"
  by (induction k) (simp_all add: encode_link_key_hex_def hex2_def)

lemma encode_hex_slice:
  "i < length k \<Longrightarrow> take 2 (drop (i * 2) (encode_link_key_hex k)) = hex2 False (k ! i)"
proof (induction k arbitrary: i)
  case (Cons b k)
  have "encode_link_key_hex (b # k) = hex2 False b @ encode_link_key_hex k" by (simp add: encode_link_key_hex_def)
  moreover have "length (hex2 False b) = 2" by (simp add: hex2_def)
  ultimately show ?case using Cons by (cases i) (simp_all add: hex2_def)
qed simp

lemma hex_octet_encoded:
  assumes "i < length k"
  shows "hex_octet (map word_of_nat (encode_link_key_hex k)) (i * 2) = Inr (k ! i)"
proof -
  let ?e = "encode_link_key_hex k"
  have nc: "j < length ?e \<Longrightarrow> \<not> utf8_cont (map word_of_nat ?e ! j)" for j
    using encode_hex_ascii [of "?e ! j" k] by (simp add: ascii_no_cont)
  have "utf8_decode (take 2 (drop (i * 2) (map word_of_nat ?e))) = Some (hex2 False (k ! i))"
    using ascii_octets [of "hex2 False (k ! i)"] hex2_ascii encode_hex_slice [OF assms] by (metis drop_map take_map)
  then show ?thesis using nc [of "i * 2"] nc [of "i * 2 + 2"] assms by (simp add: hex_octet_def encode_hex_length)
qed

lemma hex_octets_encoded:
  "(\<And>i. i \<in> set is \<Longrightarrow> i < length k) \<Longrightarrow>
   hex_octets (map word_of_nat (encode_link_key_hex k)) (map (\<lambda>i. i * 2) is) = Inr (map ((!) k) is)"
  by (induction "is") (simp_all add: hex_octet_encoded)

lemma link_key_hex_round_trip: "length k = 16 \<Longrightarrow> decode_link_key_hex (encode_link_key_hex k) = Inr k"
proof -
  assume k: "length k = 16"
  have "utf8_encode (encode_link_key_hex k) = map word_of_nat (encode_link_key_hex k)"
    by (rule utf8_encode_ascii) (rule encode_hex_ascii)
  moreover have "hex_octets (map word_of_nat (encode_link_key_hex k)) (map (\<lambda>i. i * 2) [0..<16]) = Inr (map ((!) k) [0..<length k])"
    using k by (subst hex_octets_encoded) simp_all
  ultimately show ?thesis using k map_nth [of k] by (simp add: decode_link_key_hex_def encode_hex_length del: upt_Suc)
qed

section \<open>Sealed at rest\<close>

definition sealed_record :: "StoredLinkKey \<Rightarrow> bool" where
  "sealed_record r = (sk_key_hex r = None \<and> sk_key_sealed r \<noteq> None)"

text \<open>On a system that seals, no record carries a key in clear, in memory or in the file.\<close>

definition sealed_keys :: "link_keys \<Rightarrow> bool" where
  "sealed_keys m = (\<forall>(a, r) \<in> set m. sealed_record r)"

definition sealed_disk :: "store_disk \<Rightarrow> bool" where
  "sealed_disk d = (case d of StoreAt f \<Rightarrow> sealed_keys (sf_link_keys f) | _ \<Rightarrow> True)"

definition sealed_store :: "AokiePairingStore \<Rightarrow> bool" where
  "sealed_store s = (sealed_keys (ps_records s) \<and> sealed_disk (ps_disk s) \<and> bt_wf (ps_records s))"

text \<open>The files the program writes: one of the two key fields is set in every record.\<close>

definition one_key :: "link_keys \<Rightarrow> bool" where
  "one_key m = (\<forall>(a, r) \<in> set m. sk_key_sealed r \<noteq> None \<longrightarrow> sk_key_hex r = None)"

lemma sealed_keys_simps [simp]:
  "sealed_keys []" "sealed_keys ((a, r) # m) = (sealed_record r \<and> sealed_keys m)"
  "one_key []" "one_key ((a, r) # m) = ((sk_key_sealed r \<noteq> None \<longrightarrow> sk_key_hex r = None) \<and> one_key m)"
  by (auto simp: sealed_keys_def one_key_def)

lemma seal_all:
  "seal_plaintext_records y m = Inr (changed, m') \<Longrightarrow> one_key m \<Longrightarrow>
   sealed_keys m' \<and> map fst m' = map fst m \<and> (\<not> changed \<longrightarrow> m' = m)"
proof (induction m arbitrary: changed m')
  case (Cons e m)
  obtain a r where e: "e = (a, r)" by (cases e)
  from Cons.prems(1) obtain c m1 where rest: "seal_plaintext_records y m = Inr (c, m1)"
    by (auto simp: e split: if_splits option.splits sum.splits prod.splits)
  note ih = Cons.IH [OF rest]
  show ?case using Cons.prems rest ih
    by (auto simp: e sealed_record_def split: if_splits option.splits sum.splits)
qed simp

lemma seal_sealed: "sealed_keys m \<Longrightarrow> seal_plaintext_records y m = Inr (False, m)"
  by (induction y m rule: seal_plaintext_records.induct) (auto simp: sealed_keys_def sealed_record_def)

lemma save_cases: "store_save w s = (r, s') \<Longrightarrow>
    ps_records s' = ps_records s \<and> (ps_disk s' = ps_disk s \<or> ps_disk s' = StoreAt \<lparr>sf_version = STORE_VERSION_SEALED, sf_link_keys = ps_records s\<rparr>)"
  by (auto simp: store_save_def split: option.splits)

lemma save_then [simp]:
  "snd (case store_save w s of (Inl e, s') \<Rightarrow> (Inl e, s') | (Inr _, s') \<Rightarrow> (Inr True, s')) = snd (store_save w s)"
  by (simp split: prod.splits sum.splits)

lemma save_sealed: "sealed_keys (ps_records s) \<Longrightarrow> bt_wf (ps_records s) \<Longrightarrow> sealed_disk (ps_disk s) \<Longrightarrow> sealed_store (snd (store_save w s))"
  by (auto simp: store_save_def sealed_store_def sealed_disk_def split: option.splits)

lemma sealed_keys_insert: "sealed_keys m \<Longrightarrow> sealed_record r \<Longrightarrow> sealed_keys (bt_insert a r m)"
  by (induction a r m rule: bt_insert.induct) (auto simp: sealed_keys_def)

lemma sealed_keys_remove: "sealed_keys m \<Longrightarrow> sealed_keys (bt_remove a m)"
  by (auto simp: sealed_keys_def bt_remove_def)

lemma sealed_keys_name: "sealed_keys m \<Longrightarrow> sealed_keys (bt_update a (\<lambda>r. r\<lparr>sk_name := n\<rparr>) m)"
  by (auto simp: sealed_keys_def bt_update_def sealed_record_def split: if_splits)

text \<open>What the operator and the radio do with a store.\<close>

datatype store_action = PutOp rstr bytes u8 | RemoveOp rstr | NameOp rstr rstr

fun store_op :: "SealSystem \<Rightarrow> rstr option \<Rightarrow> store_action \<Rightarrow> AokiePairingStore \<Rightarrow> AokiePairingStore" where
  "store_op y w (PutOp a k t) s = snd (store_put y w a k t s)"
| "store_op y w (RemoveOp a) s = snd (store_remove w a s)"
| "store_op y w (NameOp a n) s = snd (store_set_name w a n s)"

lemma op_sealed:
  assumes "platform_supported (sys_platform y)" "sealed_store s"
  shows "sealed_store (store_op y w op s)"
proof (cases op)
  case (PutOp a k t)
  show ?thesis
  proof (cases "protect y k")
    case (Inr token)
    let ?r = "\<lparr>sk_key_hex = None, sk_key_sealed = Some token, sk_key_type = t,
      sk_name = Option.bind (map_of (ps_records s) (normalize_address a)) sk_name\<rparr>"
    have "sealed_store (snd (store_save w (s\<lparr>ps_records := bt_insert (normalize_address a) ?r (ps_records s)\<rparr>)))"
      using assms(2) by (intro save_sealed) (simp_all add: sealed_store_def sealed_record_def bt.wf_ins sealed_keys_insert)
    then show ?thesis using assms(1) PutOp Inr by (simp add: store_put_def Let_def)
  qed (use assms PutOp in \<open>simp add: store_put_def\<close>)
next
  case (RemoveOp a)
  let ?s = "s\<lparr>ps_records := bt_remove (normalize_address a) (ps_records s)\<rparr>"
  have "sealed_store (snd (store_save w ?s))"
    using assms(2) by (intro save_sealed) (simp_all add: sealed_store_def sealed_keys_remove bt.wf_del)
  then show ?thesis using RemoveOp assms(2) by (simp add: store_remove_def)
next
  case (NameOp a n)
  let ?s = "\<lambda>new. s\<lparr>ps_records := bt_update (normalize_address a) (\<lambda>r. r\<lparr>sk_name := new\<rparr>) (ps_records s)\<rparr>"
  have "sealed_store (snd (store_save w (?s new)))" for new
    using assms(2) by (intro save_sealed) (simp_all add: sealed_store_def sealed_keys_name bt.wf_upd)
  then show ?thesis using NameOp assms(2)
    by (cases "map_of (ps_records s) (normalize_address a)") (simp_all add: store_set_name_def Let_def)
qed

lemma load_sealed:
  assumes "platform_supported (sys_platform y)" "store_load y w d = Inr s"
    and "\<And>f. d = StoreAt f \<Longrightarrow> one_key (sf_link_keys f) \<and> bt_wf (sf_link_keys f)"
  shows "sealed_store s"
proof (cases d)
  case NoStore
  then show ?thesis using assms by (auto simp: store_load_def store_read_def sealed_store_def sealed_keys_def sealed_disk_def bt_wf_def)
next
  case (BadStore e)
  then show ?thesis using assms by (simp add: store_load_def store_read_def)
next
  case (StoreAt f)
  then obtain changed m where m: "seal_plaintext_records y (sf_link_keys f) = Inr (changed, m)"
    using assms(1,2) by (auto simp: store_load_def store_read_def split: if_splits sum.splits prod.splits)
  note all = seal_all [OF m]
  have wf: "bt_wf m" using all assms(3) [OF StoreAt] by (simp add: bt_wf_def)
  show ?thesis
  proof (cases changed)
    case True
    then show ?thesis using m StoreAt assms all wf
      by (auto simp: store_load_def store_read_def store_save_def Let_def sealed_store_def sealed_disk_def split: if_splits option.splits)
  next
    case False
    with all assms(3) [OF StoreAt] have "m = sf_link_keys f" "sealed_keys m" by auto
    then show ?thesis using m StoreAt assms wf False
      by (auto simp: store_load_def store_read_def sealed_store_def sealed_disk_def split: if_splits)
  qed
qed

section \<open>Bonds\<close>

text \<open>The same phone, written in any case.\<close>

lemma same_case: "to_ascii_uppercase x = to_ascii_uppercase y \<longleftrightarrow> to_ascii_lowercase x = to_ascii_lowercase y"
  by (auto simp: to_ascii_uppercase_def to_ascii_lowercase_def)

lemma normalize_eq: "normalize_address a = normalize_address b \<longleftrightarrow> eq_ignore_ascii_case a b"
proof (induction a arbitrary: b)
  case (Cons x a)
  then show ?case by (cases b) (simp_all add: normalize_address_def eq_ignore_ascii_case_def same_case)
qed (auto simp: normalize_address_def eq_ignore_ascii_case_def)

text \<open>What a store promises: the key, its type and the name of each phone.\<close>

type_synonym bonds = "rstr \<Rightarrow> (store_error + LinkKeyRecord option) \<times> rstr option"

definition bonds_of :: "SealSystem \<Rightarrow> AokiePairingStore \<Rightarrow> bonds" where
  "bonds_of y s a = (store_get y s a, Option.bind (map_of (ps_records s) (normalize_address a)) sk_name)"

text \<open>Another time on the same computer as the same user: only the random octets differ.\<close>

definition later :: "SealSystem \<Rightarrow> SealSystem \<Rightarrow> bool" where
  "later y y' = (\<exists>rnd. y' = y\<lparr>sys_random := rnd\<rparr>)"

lemma later_same [simp]:
  "later y y' \<Longrightarrow> unprotect y' t = unprotect y t" "later y y' \<Longrightarrow> sys_platform y' = sys_platform y"
  by (auto simp: later_def unprotect_def split: platform.split option.split sum.split)

lemma later_open: "later y y' \<Longrightarrow> open_record y' a r = open_record y a r"
  by (simp add: open_record_def split: option.split)

lemma later_get: "later y y' \<Longrightarrow> store_get y' s a = store_get y s a"
  by (simp add: store_get_def later_open split: option.split)

lemma load_saved:
  assumes "ps_disk s = StoreAt \<lparr>sf_version = STORE_VERSION_SEALED, sf_link_keys = ps_records s\<rparr>"
    and "platform_supported (sys_platform y) \<longrightarrow> sealed_keys (ps_records s)"
  shows "store_load y w (ps_disk s) = Inr s"
  using assms by (simp add: store_load_def store_read_def seal_sealed Let_def)

lemma put_record:
  assumes "seal_system_ok y" "store_put y None address key kt s = (Inr (), s')" "length key = 16"
  shows "\<exists>r. ps_records s' = bt_insert (normalize_address address) r (ps_records s) \<and>
    ps_disk s' = StoreAt \<lparr>sf_version = STORE_VERSION_SEALED, sf_link_keys = ps_records s'\<rparr> \<and>
    (\<forall>a. open_record y a r = Inr key) \<and> sk_key_type r = kt \<and>
    sk_name r = Option.bind (map_of (ps_records s) (normalize_address address)) sk_name \<and>
    (platform_supported (sys_platform y) \<longrightarrow> sealed_record r)"
proof (cases "platform_supported (sys_platform y)")
  case True
  then obtain token where token: "protect y key = Inr token"
    using assms(2) by (cases "protect y key") (auto simp: store_put_def Let_def)
  then have "unprotect y token = Inr key" using protect_unprotect [OF assms(1)] by blast
  with True token assms(2,3) show ?thesis
    by (auto simp: store_put_def Let_def store_save_def open_record_def sealed_record_def)
next
  case False
  with assms show ?thesis
    by (auto simp: store_put_def Let_def store_save_def open_record_def link_key_hex_round_trip)
qed

text \<open>C18 A bond that was stored is read back after a restart, by the same user on the same computer,
  under the phone's address in any case, with its key and its type and the name the phone had; every other bond is as
  it was.\<close>

theorem bond_survives_restart:
  assumes "seal_system_ok y" "later y y'" "length key = 16"
    and "platform_supported (sys_platform y) \<longrightarrow> sealed_keys (ps_records s)"
    and "store_put y None address key kt s = (Inr (), s')"
  shows "\<exists>t. store_load y' w (ps_disk s') = Inr t \<and>
    (\<forall>a. bonds_of y' t a =
       (if eq_ignore_ascii_case a address
        then (Inr (Some \<lparr>lk_address = normalize_address address, lk_link_key = key, lk_key_type = kt\<rparr>), snd (bonds_of y s address))
        else bonds_of y s a))"
proof -
  obtain r where recs: "ps_records s' = bt_insert (normalize_address address) r (ps_records s)"
    and disk: "ps_disk s' = StoreAt \<lparr>sf_version = STORE_VERSION_SEALED, sf_link_keys = ps_records s'\<rparr>"
    and r: "\<And>a. open_record y a r = Inr key" "sk_key_type r = kt"
      "sk_name r = Option.bind (map_of (ps_records s) (normalize_address address)) sk_name"
    and sealed: "platform_supported (sys_platform y) \<longrightarrow> sealed_record r"
    using put_record [OF assms(1,5,3)] by blast
  have "platform_supported (sys_platform y') \<longrightarrow> sealed_keys (ps_records s')"
    using assms(2,4) sealed by (simp add: recs sealed_keys_insert)
  from load_saved [OF disk this] have load: "store_load y' w (ps_disk s') = Inr s'" .
  have "bonds_of y' s' a =
       (if eq_ignore_ascii_case a address
        then (Inr (Some \<lparr>lk_address = normalize_address address, lk_link_key = key, lk_key_type = kt\<rparr>), snd (bonds_of y s address))
        else bonds_of y s a)" for a
  proof (cases "eq_ignore_ascii_case a address")
    case True
    then have "normalize_address a = normalize_address address" by (simp add: normalize_eq)
    with True r show ?thesis
      by (simp add: bonds_of_def store_get_def recs map_of_bt_insert later_open [OF assms(2)])
  next
    case False
    then have "normalize_address a \<noteq> normalize_address address" by (simp add: normalize_eq)
    with False show ?thesis
      by (simp add: bonds_of_def store_get_def recs map_of_bt_insert later_open [OF assms(2)] split: option.split)
  qed
  with load show ?thesis by blast
qed

text \<open>A system whose cipher adds sixteen octets and otherwise leaves the text.\<close>

definition plain_system :: SealSystem where
  "plain_system =
     \<lparr>sys_platform = Unix, sys_protect = Some, sys_unprotect = Some,
      sys_aead = \<lparr>aead_seal = (\<lambda>_ _ _ p. Some (p @ replicate TAG_LEN 0)),
        aead_open = (\<lambda>_ _ _ b. Some (take (length b - TAG_LEN) b))\<rparr>,
      sys_random = Some (replicate NONCE_LEN 7), sys_data_key = Inr (replicate SEAL_KEY_LEN 9)\<rparr>"

definition empty_store :: AokiePairingStore where
  "empty_store = \<lparr>ps_records = [], ps_disk = NoStore\<rparr>"

lemma plain_system_ok: "seal_system_ok plain_system"
  by (simp add: seal_system_ok_def aead_ok_def plain_system_def)

lemma plain_put:
  "\<exists>s'. store_put plain_system None address key kt empty_store = (Inr (), s')"
  by (simp add: store_put_def Let_def platform_supported_def plain_system_def protect_def seal_with_key_def empty_store_def store_save_def)

theorem bond_survives_restart_witness:
  "\<exists>(s' :: AokiePairingStore) t. store_load plain_system None (ps_disk s') = Inr t \<and>
     bonds_of plain_system t (lit ''aa:bb:cc:dd:ee:ff'') =
       (Inr (Some \<lparr>lk_address = lit ''AA:BB:CC:DD:EE:FF'', lk_link_key = replicate 16 5, lk_key_type = 4\<rparr>), None)"
proof -
  let ?a = "lit ''AA:bb:CC:DD:EE:FF''"
  have l: "later plain_system plain_system" unfolding later_def by (rule exI [of _ "sys_random plain_system"]) simp
  obtain s' where put: "store_put plain_system None ?a (replicate 16 5) 4 empty_store = (Inr (), s')" using plain_put by blast
  have k: "length (replicate 16 5 :: bytes) = 16" by simp
  have e: "platform_supported (sys_platform plain_system) \<longrightarrow> sealed_keys (ps_records empty_store)" by (simp add: empty_store_def)
  obtain t where t: "store_load plain_system None (ps_disk s') = Inr t"
    and b: "\<And>a. bonds_of plain_system t a =
       (if eq_ignore_ascii_case a ?a
        then (Inr (Some \<lparr>lk_address = normalize_address ?a, lk_link_key = replicate 16 5, lk_key_type = 4\<rparr>), snd (bonds_of plain_system empty_store ?a))
        else bonds_of plain_system empty_store a)"
    using bond_survives_restart [OF plain_system_ok l k e put, of None] by blast
  have "eq_ignore_ascii_case (lit ''aa:bb:cc:dd:ee:ff'') ?a" by (simp add: eq_ignore_ascii_case_def to_ascii_lowercase_def)
  moreover have "normalize_address ?a = lit ''AA:BB:CC:DD:EE:FF''" by (simp add: normalize_address_def to_ascii_uppercase_def)
  moreover have "snd (bonds_of plain_system empty_store ?a) = None" by (simp add: bonds_of_def empty_store_def)
  ultimately have "bonds_of plain_system t (lit ''aa:bb:cc:dd:ee:ff'') =
      (Inr (Some \<lparr>lk_address = lit ''AA:BB:CC:DD:EE:FF'', lk_link_key = replicate 16 5, lk_key_type = 4\<rparr>), None)"
    using b [of "lit ''aa:bb:cc:dd:ee:ff''"] by (simp del: lit_simps)
  with t show ?thesis by blast
qed

text \<open>C19 A phone is forgotten while the file cannot be written: the operation fails, forgetting it
  again reports that there is nothing to forget and writes nothing, and after a restart the phone is bonded as before.\<close>

theorem failed_forget_revives_bond:
  assumes "store_load y w d = Inr s" "ps_disk s = d" "store_contains s address"
    and "store_remove (Some e) address s = (r1, s1)" "store_remove None address s1 = (r2, s2)"
  shows "r1 = Inl (StoreUnwritten e) \<and> \<not> store_contains s1 address \<and> r2 = Inr False \<and> store_load y w (ps_disk s2) = Inr s"
proof -
  have s1: "r1 = Inl (StoreUnwritten e)" "s1 = s\<lparr>ps_records := bt_remove (normalize_address address) (ps_records s)\<rparr>"
    using assms(3,4) by (auto simp: store_remove_def store_save_def)
  then have gone: "\<not> store_contains s1 address" by (simp add: store_contains_def map_of_bt_remove)
  with assms(5) have "r2 = Inr False" "s2 = s1" by (auto simp: store_remove_def)
  with s1 gone assms(1,2) show ?thesis by simp
qed

definition one_bond :: store_disk where
  "one_bond = StoreAt \<lparr>sf_version = 2, sf_link_keys =
     [(lit ''AA:BB'', \<lparr>sk_key_hex = None, sk_key_sealed = Some (lit ''keychain1:''), sk_key_type = 4, sk_name = None\<rparr>)]\<rparr>"

theorem failed_forget_revives_bond_witness:
  "\<exists>s s1 s2. store_load plain_system None one_bond = Inr s \<and> store_remove (Some []) (lit ''aa:bb'') s = (Inl (StoreUnwritten []), s1) \<and>
     store_remove None (lit ''aa:bb'') s1 = (Inr False, s2) \<and> store_load plain_system None (ps_disk s2) = Inr s"
proof -
  define s where "s = \<lparr>ps_records = [(lit ''AA:BB'', \<lparr>sk_key_hex = None, sk_key_sealed = Some (lit ''keychain1:''), sk_key_type = 4, sk_name = None\<rparr>)],
    ps_disk = one_bond\<rparr>"
  have load: "store_load plain_system None one_bond = Inr s"
    by (simp add: store_load_def store_read_def one_bond_def s_def Let_def)
  have "normalize_address (lit ''aa:bb'') = lit ''AA:BB''" by (simp add: normalize_address_def to_ascii_uppercase_def)
  then have has: "store_contains s (lit ''aa:bb'')" by (simp add: store_contains_def s_def del: lit_simps)
  obtain r1 s1 where r1: "store_remove (Some []) (lit ''aa:bb'') s = (r1, s1)" by (cases "store_remove (Some []) (lit ''aa:bb'') s")
  obtain r2 s2 where r2: "store_remove None (lit ''aa:bb'') s1 = (r2, s2)" by (cases "store_remove None (lit ''aa:bb'') s1")
  have "ps_disk s = one_bond" by (simp add: s_def)
  from failed_forget_revives_bond [OF load this has r1 r2] load r1 r2 show ?thesis by blast
qed

end
