(* ===== verification/Pairing.thy ===== *)
theory Pairing
  imports Pairing_Store Hci
begin

text \<open>
  Who may connect and who may bond: the pairing policy of \<open>aokie_radio/manager.rs\<close> and the pairing window and the held
  confirmation of \<open>aokie_radio/runtime.rs\<close>.  The controller is a parameter: what a command that is waited on returns, and
  whether a command that is only written was taken.  A handler gives the commands it handed to the transport, in order.
\<close>

section \<open>The transport\<close>

record HciIo =
  io_return :: "bytes \<Rightarrow> u16 \<Rightarrow> rstr + bytes"
  io_write :: "bytes \<Rightarrow> rstr option"

datatype pair_error = PeHci hci_error | PeStore store_error | PeTransport rstr

definition command_status :: "HciIo \<Rightarrow> bytes \<Rightarrow> u16 \<Rightarrow> string \<Rightarrow> pair_error + unit" where
  "command_status io command opcode operation =
     (case io_return io command opcode of
        Inl e \<Rightarrow> Inl (PeTransport e)
      | Inr params \<Rightarrow> (case expect_status_ok params operation of Inl e \<Rightarrow> Inl (PeHci e) | Inr u \<Rightarrow> Inr u))"

definition write_command :: "HciIo \<Rightarrow> bytes \<Rightarrow> pair_error + unit" where
  "write_command io command = (case io_write io command of Some e \<Rightarrow> Inl (PeTransport e) | None \<Rightarrow> Inr ())"

abbreviation (input) AOKIE_SCAN_ENABLE_CONNECTABLE_DISCOVERABLE :: u8 where "AOKIE_SCAN_ENABLE_CONNECTABLE_DISCOVERABLE \<equiv> 0x03"
abbreviation (input) AOKIE_SCAN_ENABLE_CONNECTABLE :: u8 where "AOKIE_SCAN_ENABLE_CONNECTABLE \<equiv> 0x02"
abbreviation (input) AOKIE_LEGACY_PIN :: rstr where "AOKIE_LEGACY_PIN \<equiv> lit ''0000''"
abbreviation (input) AOKIE_VOICE_SETTING :: u16 where "AOKIE_VOICE_SETTING \<equiv> 0x0060"
abbreviation (input) AOKIE_VOICE_SETTING_TRANSPARENT :: u16 where "AOKIE_VOICE_SETTING_TRANSPARENT \<equiv> 0x0043"
abbreviation (input) HFP_T2_MAX_LATENCY_MS :: u16 where "HFP_T2_MAX_LATENCY_MS \<equiv> 13"
abbreviation (input) HFP_T2_RETRANSMISSION_EFFORT :: u8 where "HFP_T2_RETRANSMISSION_EFFORT \<equiv> 0x02"

definition write_scan_enable :: "HciIo \<Rightarrow> u8 \<Rightarrow> pair_error + unit" where
  "write_scan_enable io scan_enable =
     command_status io (write_scan_enable_command scan_enable) OPCODE_WRITE_SCAN_ENABLE ''Write Scan Enable''"

datatype scan_error = ScanError pair_error | NoScanSetting

definition read_scan_enable :: "HciIo \<Rightarrow> scan_error + u8" where
  "read_scan_enable io =
     (case io_return io read_scan_enable_command OPCODE_READ_SCAN_ENABLE of
        Inl e \<Rightarrow> Inl (ScanError (PeTransport e))
      | Inr params \<Rightarrow>
          (case expect_status_ok params ''Read Scan Enable'' of
             Inl e \<Rightarrow> Inl (ScanError (PeHci e))
           | Inr _ \<Rightarrow> if length params > 1 then Inr (params ! 1) else Inl NoScanSetting))"

section \<open>The pairing policy\<close>

definition may_accept_acl_connection :: "bool \<Rightarrow> bool \<Rightarrow> bool" where
  "may_accept_acl_connection is_bonded pairing_open = (is_bonded \<or> pairing_open)"

definition may_complete_new_bond :: "bool \<Rightarrow> bool" where
  "may_complete_new_bond pairing_open = pairing_open"

record PairingPolicy =
  pp_pairing_open :: bool
  pp_legacy_pin_allowed :: bool
  pp_operator_confirm :: bool

definition policy_diagnostic :: PairingPolicy where
  "policy_diagnostic = \<lparr>pp_pairing_open = True, pp_legacy_pin_allowed = True, pp_operator_confirm = False\<rparr>"

definition policy_runtime :: "bool \<Rightarrow> bool \<Rightarrow> PairingPolicy" where
  "policy_runtime pairing_open legacy_pin_allowed =
     \<lparr>pp_pairing_open = pairing_open, pp_legacy_pin_allowed = legacy_pin_allowed, pp_operator_confirm = True\<rparr>"

text \<open>The lines of the log, one constructor each.\<close>

datatype pairing_log =
    SentStoredKey u8
  | SentNoKey
  | RefusedKeyStore
  | StoredKey u8
  | RefusedPinOff
  | RefusedPinClosed
  | SentLegacyPin
  | RefusedSimplePairing
  | SentNumericComparison
  | SentJustWorks
  | RefusedConfirmation
  | AutoConfirmed
  | RejectedUnknownAcl
  | AcceptedAcl
  | AcceptedSco string
  | IgnoredLinkType u8

datatype PairingOutcome =
    Logged pairing_log
  | ConfirmationPending rstr u32
  | LinkKeyUnavailable rstr store_error

type_synonym pairing_result = "bytes list \<times> (pair_error + PairingOutcome option) \<times> AokiePairingStore"

text \<open>A command that is built, sent and waited on, and the outcome when the controller takes it.\<close>

definition answer_with :: "HciIo \<Rightarrow> AokiePairingStore \<Rightarrow> hci_error + bytes \<Rightarrow> u16 \<Rightarrow> string \<Rightarrow> pairing_log \<Rightarrow> pairing_result" where
  "answer_with io store command opcode operation line =
     (case command of
        Inl e \<Rightarrow> ([], Inl (PeHci e), store)
      | Inr c \<Rightarrow>
          ([c], (case command_status io c opcode operation of Inl e \<Rightarrow> Inl e | Inr _ \<Rightarrow> Inr (Some (Logged line))), store))"

fun handle_pairing_event ::
    "SealSystem \<Rightarrow> rstr option \<Rightarrow> HciIo \<Rightarrow> PairingPolicy \<Rightarrow> HciEvent \<Rightarrow> AokiePairingStore \<Rightarrow> pairing_result" where
  "handle_pairing_event y w io policy (EvLinkKeyRequest address) store =
     (case store_get y store address of
        Inl reason \<Rightarrow> ([], Inr (Some (LinkKeyUnavailable address reason)), store)
      | Inr (Some rec) \<Rightarrow>
          answer_with io store (link_key_request_reply_command address (lk_link_key rec))
            OPCODE_LINK_KEY_REQUEST_REPLY ''Link Key Request Reply'' (SentStoredKey (lk_key_type rec))
      | Inr None \<Rightarrow>
          answer_with io store (link_key_request_negative_reply_command address)
            OPCODE_LINK_KEY_REQUEST_NEGATIVE_REPLY ''Link Key Request Negative Reply'' SentNoKey)"
| "handle_pairing_event y w io policy (EvLinkKeyNotification address link_key key_type) store =
     (if \<not> may_complete_new_bond (pp_pairing_open policy) then ([], Inr (Some (Logged RefusedKeyStore)), store)
      else (case store_put y w address link_key key_type store of
              (Inl e, store') \<Rightarrow> ([], Inl (PeStore e), store')
            | (Inr _, store') \<Rightarrow> ([], Inr (Some (Logged (StoredKey key_type))), store')))"
| "handle_pairing_event y w io policy (EvPinCodeRequest address) store =
     (if \<not> may_complete_new_bond (pp_pairing_open policy) \<or> \<not> pp_legacy_pin_allowed policy then
        answer_with io store (pin_code_request_negative_reply_command address)
          OPCODE_PIN_CODE_REQUEST_NEGATIVE_REPLY ''PIN Code Request Negative Reply''
          (if may_complete_new_bond (pp_pairing_open policy) then RefusedPinOff else RefusedPinClosed)
      else
        answer_with io store (pin_code_request_reply_command address AOKIE_LEGACY_PIN)
          OPCODE_PIN_CODE_REQUEST_REPLY ''PIN Code Request Reply'' SentLegacyPin)"
| "handle_pairing_event y w io policy (EvIoCapabilityRequest address) store =
     (if \<not> may_complete_new_bond (pp_pairing_open policy) then
        answer_with io store (io_capability_request_negative_reply_command address 0x18)
          OPCODE_IO_CAPABILITY_REQUEST_NEGATIVE_REPLY ''IO Capability Request Negative Reply'' RefusedSimplePairing
      else if pp_operator_confirm policy then
        answer_with io store
          (io_capability_request_reply_command address SSP_IO_CAPABILITY_DISPLAY_YES_NO SSP_OOB_DATA_NOT_PRESENT
             SSP_AUTHREQ_MITM_REQUIRED_GENERAL_BONDING)
          OPCODE_IO_CAPABILITY_REQUEST_REPLY ''IO Capability Request Reply'' SentNumericComparison
      else
        answer_with io store
          (io_capability_request_reply_command address SSP_IO_CAPABILITY_NO_INPUT_NO_OUTPUT SSP_OOB_DATA_NOT_PRESENT
             SSP_AUTHREQ_MITM_NOT_REQUIRED_GENERAL_BONDING)
          OPCODE_IO_CAPABILITY_REQUEST_REPLY ''IO Capability Request Reply'' SentJustWorks)"
| "handle_pairing_event y w io policy (EvUserConfirmationRequest address numeric_value) store =
     (if \<not> may_complete_new_bond (pp_pairing_open policy) then
        answer_with io store (user_confirmation_request_negative_reply_command address)
          OPCODE_USER_CONFIRMATION_REQUEST_NEGATIVE_REPLY ''User Confirmation Request Negative Reply'' RefusedConfirmation
      else if pp_operator_confirm policy then ([], Inr (Some (ConfirmationPending address numeric_value)), store)
      else
        answer_with io store (user_confirmation_request_reply_command address)
          OPCODE_USER_CONFIRMATION_REQUEST_REPLY ''User Confirmation Request Reply'' AutoConfirmed)"
| "handle_pairing_event y w io policy _ store = ([], Inr None, store)"

record ScoAcceptParameters =
  sa_transmit_bandwidth :: u32
  sa_receive_bandwidth :: u32
  sa_max_latency :: u16
  sa_voice_setting :: u16
  sa_retransmission_effort :: u8
  sa_packet_types :: u16
  sa_codec_label :: string

type_synonym codec = "rstr \<times> u16"

definition is_msbc :: "codec option \<Rightarrow> bool" where
  "is_msbc selected = (case selected of Some (codec, _) \<Rightarrow> eq_ignore_ascii_case codec (lit ''mSBC'') | None \<Rightarrow> False)"

definition sco_accept_parameters :: "u8 \<Rightarrow> codec option \<Rightarrow> ScoAcceptParameters" where
  "sco_accept_parameters link_type selected_codec =
     (if link_type = LINK_TYPE_ESCO \<and> is_msbc selected_codec then
        \<lparr>sa_transmit_bandwidth = 8000, sa_receive_bandwidth = 8000, sa_max_latency = HFP_T2_MAX_LATENCY_MS,
         sa_voice_setting = AOKIE_VOICE_SETTING_TRANSPARENT, sa_retransmission_effort = HFP_T2_RETRANSMISSION_EFFORT,
         sa_packet_types = SCO_PACKET_TYPES_HFP_CVSD_ESCO_COMMAND, sa_codec_label = ''mSBC/T2''\<rparr>
      else
        \<lparr>sa_transmit_bandwidth = 8000, sa_receive_bandwidth = 8000, sa_max_latency = 0xffff,
         sa_voice_setting = AOKIE_VOICE_SETTING, sa_retransmission_effort = SCO_RETRANSMISSION_EFFORT_DONT_CARE,
         sa_packet_types = (if link_type = LINK_TYPE_ESCO then SCO_PACKET_TYPES_HFP_CVSD_ESCO_COMMAND
                            else SCO_PACKET_TYPES_HFP_CVSD_SCO_COMMAND), sa_codec_label = ''CVSD''\<rparr>)"

text \<open>A command that is only written.\<close>

definition write_with :: "HciIo \<Rightarrow> AokiePairingStore \<Rightarrow> hci_error + bytes \<Rightarrow> pairing_log \<Rightarrow> pairing_result" where
  "write_with io store command line =
     (case command of
        Inl e \<Rightarrow> ([], Inl (PeHci e), store)
      | Inr c \<Rightarrow> ([c], (case write_command io c of Inl e \<Rightarrow> Inl e | Inr _ \<Rightarrow> Inr (Some (Logged line))), store))"

definition handle_connection_request ::
    "HciIo \<Rightarrow> codec option \<Rightarrow> PairingPolicy \<Rightarrow> rstr \<Rightarrow> u8 \<Rightarrow> AokiePairingStore \<Rightarrow> pairing_result" where
  "handle_connection_request io selected_codec policy address link_type store =
     (if link_type = LINK_TYPE_ACL then
        (if \<not> may_accept_acl_connection (store_contains store address) (pp_pairing_open policy)
         then write_with io store (reject_connection_request_command address) RejectedUnknownAcl
         else write_with io store (accept_connection_request_command address ACCEPT_ROLE_REMAIN_SLAVE) AcceptedAcl)
      else if link_type = LINK_TYPE_SCO \<or> link_type = LINK_TYPE_ESCO then
        (let p = sco_accept_parameters link_type selected_codec in
         write_with io store
           (accept_synchronous_connection_request_command address (sa_transmit_bandwidth p) (sa_receive_bandwidth p)
              (sa_max_latency p) (sa_voice_setting p) (sa_retransmission_effort p) (sa_packet_types p))
           (AcceptedSco (sa_codec_label p)))
      else ([], Inr (Some (Logged (IgnoredLinkType link_type))), store))"

definition handle_hci_event_with_policy ::
    "SealSystem \<Rightarrow> rstr option \<Rightarrow> HciIo \<Rightarrow> codec option \<Rightarrow> PairingPolicy \<Rightarrow> HciEvent \<Rightarrow> AokiePairingStore \<Rightarrow> pairing_result" where
  "handle_hci_event_with_policy y w io selected_codec policy event store =
     (case handle_pairing_event y w io policy event store of
        (cmds, Inl e, store') \<Rightarrow> (cmds, Inl e, store')
      | (cmds, Inr (Some outcome), store') \<Rightarrow> (cmds, Inr (Some outcome), store')
      | (cmds, Inr None, store') \<Rightarrow>
          (case event of
             EvConnectionRequest address _ link_type \<Rightarrow> handle_connection_request io selected_codec policy address link_type store'
           | _ \<Rightarrow> (cmds, Inr None, store')))"

section \<open>The pairing window and the held confirmation\<close>

text \<open>The end of the window, in seconds of the epoch; zero is closed.\<close>

abbreviation (input) PAIRING_CONFIRM_TIMEOUT_SECS :: nat where "PAIRING_CONFIRM_TIMEOUT_SECS \<equiv> 25"

definition sat_add64 :: "nat \<Rightarrow> nat \<Rightarrow> nat" where
  "sat_add64 a b = min (a + b) (2 ^ 64 - 1)"

definition window_open_for :: "nat \<Rightarrow> nat \<Rightarrow> nat" where
  "window_open_for epoch seconds = sat_add64 epoch (max seconds 1)"

definition window_close :: nat where "window_close = 0"

definition window_remaining :: "nat \<Rightarrow> nat \<Rightarrow> nat" where
  "window_remaining epoch deadline = deadline - epoch"

definition window_is_open :: "nat \<Rightarrow> nat \<Rightarrow> bool" where
  "window_is_open epoch deadline = (window_remaining epoch deadline > 0)"

record PendingPairingConfirm =
  pc_address :: rstr
  pc_numeric_value :: u32
  pc_expires_epoch_secs :: nat

definition confirm_slot_get :: "nat \<Rightarrow> PendingPairingConfirm option \<Rightarrow> PendingPairingConfirm option" where
  "confirm_slot_get epoch slot =
     (case slot of
        None \<Rightarrow> None
      | Some pending \<Rightarrow> if pc_expires_epoch_secs pending \<le> epoch then None else Some pending)"

lemma window_opens_and_ends:
  "epoch + max seconds 1 < 2 ^ 64 \<Longrightarrow> window_is_open t (window_open_for epoch seconds) \<longleftrightarrow> t < epoch + max seconds 1"
  by (auto simp: window_is_open_def window_remaining_def window_open_for_def sat_add64_def min_def)

section \<open>What the commands ask for\<close>

definition cmd_opcode :: "bytes \<Rightarrow> u16" where
  "cmd_opcode c = u16_from_le_bytes (c ! 0) (c ! 1)"

lemma hci_command_opcode [simp]: "cmd_opcode (hci_command op p) = op" "cmd_opcode (command_no_params op) = op"
  by (simp_all add: cmd_opcode_def hci_command_def command_no_params_def u16_le_def)

lemma address_command_opcode: "address_params a f = Inr c \<Longrightarrow> (\<And>b. cmd_opcode (f b) = op) \<Longrightarrow> cmd_opcode c = op"
  by (auto simp: address_params_def and_then_def split: sum.splits)

lemma built_opcodes:
  "link_key_request_reply_command a k = Inr c \<Longrightarrow> cmd_opcode c = OPCODE_LINK_KEY_REQUEST_REPLY"
  "link_key_request_negative_reply_command a = Inr c \<Longrightarrow> cmd_opcode c = OPCODE_LINK_KEY_REQUEST_NEGATIVE_REPLY"
  "pin_code_request_reply_command a p = Inr c \<Longrightarrow> cmd_opcode c = OPCODE_PIN_CODE_REQUEST_REPLY"
  "pin_code_request_negative_reply_command a = Inr c \<Longrightarrow> cmd_opcode c = OPCODE_PIN_CODE_REQUEST_NEGATIVE_REPLY"
  "io_capability_request_reply_command a i o' r = Inr c \<Longrightarrow> cmd_opcode c = OPCODE_IO_CAPABILITY_REQUEST_REPLY"
  "io_capability_request_negative_reply_command a n = Inr c \<Longrightarrow> cmd_opcode c = OPCODE_IO_CAPABILITY_REQUEST_NEGATIVE_REPLY"
  "user_confirmation_request_reply_command a = Inr c \<Longrightarrow> cmd_opcode c = OPCODE_USER_CONFIRMATION_REQUEST_REPLY"
  "user_confirmation_request_negative_reply_command a = Inr c \<Longrightarrow> cmd_opcode c = OPCODE_USER_CONFIRMATION_REQUEST_NEGATIVE_REPLY"
  "reject_connection_request_command_with_reason a n = Inr c \<Longrightarrow> cmd_opcode c = OPCODE_REJECT_CONNECTION_REQUEST"
  "reject_connection_request_command a = Inr c \<Longrightarrow> cmd_opcode c = OPCODE_REJECT_CONNECTION_REQUEST"
  "accept_connection_request_command a n = Inr c \<Longrightarrow> cmd_opcode c = OPCODE_ACCEPT_CONNECTION_REQUEST"
  "accept_synchronous_connection_request_command a tb rb ml vs re pt = Inr c \<Longrightarrow>
     cmd_opcode c = OPCODE_ACCEPT_SYNCHRONOUS_CONNECTION_REQUEST"
  "create_connection_command_for a sw = Inr c \<Longrightarrow> cmd_opcode c = OPCODE_CREATE_CONNECTION"
  "remote_name_request_command a = Inr c \<Longrightarrow> cmd_opcode c = OPCODE_REMOTE_NAME_REQUEST"
  "switch_role_command a n = Inr c \<Longrightarrow> cmd_opcode c = OPCODE_SWITCH_ROLE"
  by (auto simp: link_key_request_reply_command_def link_key_request_negative_reply_command_def
      pin_code_request_reply_command_def pin_code_request_negative_reply_command_def io_capability_request_reply_command_def
      io_capability_request_negative_reply_command_def user_confirmation_request_reply_command_def
      user_confirmation_request_negative_reply_command_def reject_connection_request_command_def
      reject_connection_request_command_with_reason_def accept_connection_request_command_def
      accept_synchronous_connection_request_command_def create_connection_command_for_def create_connection_command_def
      remote_name_request_command_def switch_role_command_def address_command_def Let_def
      split: if_splits elim!: address_command_opcode)

lemma direct_opcodes [simp]:
  "cmd_opcode (disconnect_command h r) = OPCODE_DISCONNECT"
  "cmd_opcode (authentication_requested_command h) = OPCODE_AUTHENTICATION_REQUESTED"
  "cmd_opcode (set_connection_encryption_command h b) = OPCODE_SET_CONNECTION_ENCRYPTION"
  "cmd_opcode (write_scan_enable_command n) = OPCODE_WRITE_SCAN_ENABLE"
  "cmd_opcode read_scan_enable_command = OPCODE_READ_SCAN_ENABLE"
  by (simp_all add: disconnect_command_def authentication_requested_command_def set_connection_encryption_command_def
      write_scan_enable_command_def read_scan_enable_command_def)

lemma answer_with_cmds: "c \<in> set (fst (answer_with io store command opcode op line)) \<longleftrightarrow> command = Inr c"
  by (auto simp: answer_with_def split: sum.splits)

lemma write_with_cmds: "c \<in> set (fst (write_with io store command line)) \<longleftrightarrow> command = Inr c"
  by (auto simp: write_with_def split: sum.splits)

lemma answer_store [simp]:
  "snd (snd (answer_with io store command opcode op line)) = store" "snd (snd (write_with io store command line)) = store"
  by (simp_all add: answer_with_def write_with_def split: sum.splits)

text \<open>The commands that complete a bond or let a phone in.\<close>

definition bonding_opcodes :: "u16 set" where
  "bonding_opcodes = {OPCODE_PIN_CODE_REQUEST_REPLY, OPCODE_IO_CAPABILITY_REQUEST_REPLY, OPCODE_USER_CONFIRMATION_REQUEST_REPLY}"

lemma handler_split:
  "handle_hci_event_with_policy y w io codec policy (EvConnectionRequest a cl lt) store =
     handle_connection_request io codec policy a lt store"
  "(\<And>a cl lt. event \<noteq> EvConnectionRequest a cl lt) \<Longrightarrow>
   handle_hci_event_with_policy y w io codec policy event store = handle_pairing_event y w io policy event store"
  by (simp_all add: handle_hci_event_with_policy_def split: prod.split sum.split option.split HciEvent.split)

lemma handler_cmds:
  assumes "c \<in> set (fst (handle_hci_event_with_policy y w io codec policy event store))"
  shows "(cmd_opcode c \<in> bonding_opcodes \<longrightarrow> pp_pairing_open policy) \<and>
    (cmd_opcode c = OPCODE_PIN_CODE_REQUEST_REPLY \<longrightarrow> pp_legacy_pin_allowed policy) \<and>
    (cmd_opcode c = OPCODE_USER_CONFIRMATION_REQUEST_REPLY \<longrightarrow> \<not> pp_operator_confirm policy) \<and>
    (cmd_opcode c = OPCODE_ACCEPT_CONNECTION_REQUEST \<longrightarrow>
       (\<exists>a cl. event = EvConnectionRequest a cl LINK_TYPE_ACL \<and> (store_contains store a \<or> pp_pairing_open policy)))"
proof (cases event)
  case (EvConnectionRequest a cl lt)
  with assms have "c \<in> set (fst (handle_connection_request io codec policy a lt store))"
    by (simp add: handler_split)
  then show ?thesis using EvConnectionRequest
    by (auto simp: handle_connection_request_def may_accept_acl_connection_def Let_def write_with_cmds bonding_opcodes_def
        dest: built_opcodes split: if_splits)
next
  case (EvLinkKeyRequest a)
  with assms have "c \<in> set (fst (handle_pairing_event y w io policy event store))" by (simp add: handler_split)
  then show ?thesis using EvLinkKeyRequest
    by (auto simp: answer_with_cmds bonding_opcodes_def dest: built_opcodes split: sum.splits option.splits)
next
  case (EvPinCodeRequest a)
  with assms have "c \<in> set (fst (handle_pairing_event y w io policy event store))" by (simp add: handler_split)
  then show ?thesis using EvPinCodeRequest
    by (auto simp: answer_with_cmds bonding_opcodes_def may_complete_new_bond_def dest: built_opcodes split: if_splits)
next
  case (EvIoCapabilityRequest a)
  with assms have "c \<in> set (fst (handle_pairing_event y w io policy event store))" by (simp add: handler_split)
  then show ?thesis using EvIoCapabilityRequest
    by (auto simp: answer_with_cmds bonding_opcodes_def may_complete_new_bond_def dest: built_opcodes split: if_splits)
next
  case (EvUserConfirmationRequest a n)
  with assms have "c \<in> set (fst (handle_pairing_event y w io policy event store))" by (simp add: handler_split)
  then show ?thesis using EvUserConfirmationRequest
    by (auto simp: answer_with_cmds bonding_opcodes_def may_complete_new_bond_def dest: built_opcodes split: if_splits)
next
  case (EvLinkKeyNotification a k t)
  with assms show ?thesis
    by (auto simp: handler_split split: prod.splits sum.splits if_splits)
qed (use assms in \<open>simp_all add: handler_split\<close>)

text \<open>The store changes only for a new key while the window is open.\<close>

lemma handler_store:
  "snd (snd (handle_hci_event_with_policy y w io codec policy event store)) = store \<or>
   (\<exists>a k t. event = EvLinkKeyNotification a k t \<and> pp_pairing_open policy \<and>
     snd (snd (handle_hci_event_with_policy y w io codec policy event store)) = snd (store_put y w a k t store))"
proof (cases event)
  case (EvConnectionRequest a cl lt)
  then show ?thesis by (simp add: handler_split handle_connection_request_def Let_def)
next
  case (EvLinkKeyRequest a)
  then show ?thesis by (auto simp: handler_split split: sum.split option.split)
next
  case (EvLinkKeyNotification a k t)
  then show ?thesis by (auto simp: handler_split may_complete_new_bond_def split: prod.split sum.split)
qed (simp_all add: handler_split)

end
