(* ===== verification/Phone_Link.thy ===== *)
theory Phone_Link
  imports Pairing
begin

text \<open>
  The link to the phone in the main loop of \<open>aokie_radio/runtime.rs\<close>: the commands of the operator about bonds and links,
  the held confirmation and its deadline, the scan setting, the pages Aokie sends and the security handshake on a link it
  paged, and the events of the controller.  What a step hands on is collected in \<open>ln_out\<close>: commands of the controller,
  events for the application, and the calls on the other components (the L2CAP state, the profiles, the audio path) in
  order.  The paging of \<open>AUTO_RECONNECT_OUTBOUND_PAGE\<close> is switched off by that constant and has no state here.
\<close>

section \<open>State\<close>

record ManualConnectAuth =
  ma_connection_handle :: u16
  ma_address :: rstr
  ma_awaiting_encryption :: bool
  ma_started_at :: instant

text \<open>The texts of \<open>RuntimeEvent::Error\<close>, one constructor each.\<close>

datatype radio_error =
    AnotherPhoneTried rstr rstr
  | KeyDidNotOpen rstr store_error
  | EventFailed pair_error
  | PageTimedOut rstr
  | SecuringTimedOut rstr
  | AuthenticationUnwritten pair_error
  | PageUnanswered rstr u8
  | EncryptionUnwritten pair_error
  | KeyRejected rstr u8
  | EncryptionRefused rstr u8
  | HandsFreeUnstarted rstr

datatype RadioEvent =
    DeviceConnected rstr
  | DeviceDisconnected rstr
  | PairingConfirmRequired rstr u32
  | AudioConnected rstr u16 bool
  | AudioDisconnected
  | AudioOnHandset
  | RadioCallTerminated
  | RadioError radio_error

datatype link_out =
    Cmd bytes
  | Tell RadioEvent
  | RemoveConnection u16
  | ProfilesDown u16
  | StartHandsFree u16
  | AudioUp u16 u16
  | AudioDown

record PhoneLink =
  ln_store :: AokiePairingStore
  ln_window :: nat
  ln_confirm :: "(rstr \<times> instant) option"
  ln_slot :: "PendingPairingConfirm option"
  ln_discoverable :: bool
  ln_acl :: "u16 option"
  ln_sco :: "u16 option"
  ln_remote :: rstr
  ln_remote_name :: "rstr option"
  ln_connected :: bool
  ln_manual :: "(rstr \<times> instant) option"
  ln_auth :: "ManualConnectAuth option"
  ln_recovery :: "(rstr \<times> instant \<times> nat) option"
  ln_refused :: "rstr set"
  ln_outbound :: bool
  ln_hfp_connect :: "u16 option"
  ln_snapshot :: "PairedDeviceRecord list"
  ln_codec :: "codec option"
  ln_link_codec :: "codec option"
  ln_call_active :: bool
  ln_sample_rate :: u16
  ln_out :: "link_out list"

text \<open>What a step is given: the two clocks, the sealing, the outcomes of the writes, the controller, and what the hands-free
  state says of a call.\<close>

record LinkEnv =
  le_now :: instant
  le_epoch :: nat
  le_seal :: SealSystem
  le_store_write :: "rstr option"
  le_name_write :: "rstr option"
  le_io :: HciIo
  le_error_text :: "pair_error \<Rightarrow> rstr"
  le_legacy_pin :: bool
  le_role_switch :: bool
  le_hfp_start :: "rstr option"
  le_alt_setting :: bool
  le_call_in_progress :: bool
  le_call_up :: bool

abbreviation (input) AUTO_RECONNECT_PAGE_BUDGET :: duration where "AUTO_RECONNECT_PAGE_BUDGET \<equiv> 18000"
abbreviation (input) MANUAL_CONNECT_AUTH_BUDGET :: duration where "MANUAL_CONNECT_AUTH_BUDGET \<equiv> 10000"
abbreviation (input) RECOVERY_RECONNECT_PAGES :: nat where "RECOVERY_RECONNECT_PAGES \<equiv> 3"

definition put_out :: "link_out \<Rightarrow> PhoneLink \<Rightarrow> PhoneLink" where
  "put_out o' s = s\<lparr>ln_out := ln_out s @ [o']\<rparr>"

definition send_cmd :: "LinkEnv \<Rightarrow> bytes \<Rightarrow> PhoneLink \<Rightarrow> (pair_error + unit) \<times> PhoneLink" where
  "send_cmd e c s = (write_command (le_io e) c, put_out (Cmd c) s)"

definition send_built :: "LinkEnv \<Rightarrow> hci_error + bytes \<Rightarrow> PhoneLink \<Rightarrow> (pair_error + unit) \<times> PhoneLink" where
  "send_built e command s = (case command of Inl err \<Rightarrow> (Inl (PeHci err), s) | Inr c \<Rightarrow> send_cmd e c s)"

definition is_timeout_error :: "rstr \<Rightarrow> bool" where
  "is_timeout_error error =
     (contains_str (lit ''WinUSB error 121'') error \<or> contains_str (lit ''Win32 error 121'') error \<or>
      contains_str (lit ''libusb timeout'') error)"

definition remote_is :: "rstr \<Rightarrow> PhoneLink \<Rightarrow> bool" where
  "remote_is address s = eq_ignore_ascii_case (ln_remote s) address"

definition window_open :: "LinkEnv \<Rightarrow> PhoneLink \<Rightarrow> bool" where
  "window_open e s = window_is_open (le_epoch e) (ln_window s)"

definition another_phone_holds_the_link :: "u16 option \<Rightarrow> rstr \<Rightarrow> rstr \<Rightarrow> bool" where
  "another_phone_holds_the_link active_acl_handle connected_remote address =
     (active_acl_handle \<noteq> None \<and> connected_remote \<noteq> [] \<and> \<not> eq_ignore_ascii_case connected_remote address)"

definition other_than :: "u16 \<Rightarrow> u16 option \<Rightarrow> u16 option" where
  "other_than h acl = (case acl of Some h' \<Rightarrow> if h' \<noteq> h then Some h' else None | None \<Rightarrow> None)"

definition refused_add :: "rstr \<Rightarrow> PhoneLink \<Rightarrow> PhoneLink" where
  "refused_add address s = s\<lparr>ln_refused := insert (normalize_address address) (ln_refused s)\<rparr>"

definition refused_clear :: "rstr \<Rightarrow> PhoneLink \<Rightarrow> PhoneLink" where
  "refused_clear address s = s\<lparr>ln_refused := ln_refused s - {normalize_address address}\<rparr>"

definition refused_contains :: "rstr \<Rightarrow> PhoneLink \<Rightarrow> bool" where
  "refused_contains address s = (normalize_address address \<in> ln_refused s)"

definition clear_confirm :: "PhoneLink \<Rightarrow> PhoneLink" where
  "clear_confirm s = s\<lparr>ln_confirm := None, ln_slot := None\<rparr>"

definition refresh_snapshot :: "PhoneLink \<Rightarrow> PhoneLink" where
  "refresh_snapshot s = s\<lparr>ln_snapshot := list_devices (ln_store s)\<rparr>"

section \<open>The operator\<close>

datatype control_error =
    NothingPending
  | PendingForOther rstr rstr
  | ControlFailed pair_error
  | NotPaired rstr
  | AnotherPhoneHolds
  | ConnectInProgress
  | PageRefused rstr

definition confirm_pairing :: "LinkEnv \<Rightarrow> rstr \<Rightarrow> bool \<Rightarrow> PhoneLink \<Rightarrow> (control_error + unit) \<times> PhoneLink" where
  "confirm_pairing e address accept s =
     (case ln_confirm s of
        None \<Rightarrow> (Inl NothingPending, s)
      | Some (pending_addr, _) \<Rightarrow>
          if \<not> eq_ignore_ascii_case pending_addr address then (Inl (PendingForOther pending_addr address), s)
          else
            (case send_built e (if accept then user_confirmation_request_reply_command pending_addr
                                else user_confirmation_request_negative_reply_command pending_addr) s of
               (Inl err, s') \<Rightarrow> (Inl (ControlFailed err), s')
             | (Inr _, s') \<Rightarrow> (Inr (), clear_confirm s')))"

definition remove_paired :: "LinkEnv \<Rightarrow> rstr \<Rightarrow> PhoneLink \<Rightarrow> (store_error + bool) \<times> PhoneLink" where
  "remove_paired e address s0 =
     (let s1 = (if remote_is address s0
                then (case ln_acl s0 of Some h \<Rightarrow> snd (send_cmd e (disconnect_command h 0x13) s0) | None \<Rightarrow> s0)
                else s0) in
      case store_remove (le_store_write e) address (ln_store s1) of
        (result, store) \<Rightarrow>
          (let s2 = refused_clear address (s1\<lparr>ln_store := store\<rparr>) in
           (result, if result = Inr True then refresh_snapshot s2 else s2)))"

definition disconnect_phone :: "LinkEnv \<Rightarrow> rstr \<Rightarrow> PhoneLink \<Rightarrow> (pair_error + bool) \<times> PhoneLink" where
  "disconnect_phone e address s =
     (if remote_is address s then
        (case ln_acl s of
           Some h \<Rightarrow>
             (case send_cmd e (disconnect_command h 0x13) s of
                (Inr _, s') \<Rightarrow> (Inr True, s')
              | (Inl err, s') \<Rightarrow> (Inl err, s'))
         | None \<Rightarrow> (Inr False, s))
      else (Inr False, s))"

definition connect_phone :: "LinkEnv \<Rightarrow> rstr \<Rightarrow> PhoneLink \<Rightarrow> (control_error + bool) \<times> PhoneLink" where
  "connect_phone e address s =
     (if \<not> store_contains (ln_store s) address then (Inl (NotPaired address), s)
      else if ln_acl s \<noteq> None then (if remote_is address s then (Inr False, s) else (Inl AnotherPhoneHolds, s))
      else if ln_manual s \<noteq> None then (Inl ConnectInProgress, s)
      else if refused_contains address s then (Inl (PageRefused address), s)
      else
        (case send_built e (create_connection_command_for address (le_role_switch e)) s of
           (Inl err, s') \<Rightarrow> (Inl (ControlFailed err), s')
         | (Inr _, s') \<Rightarrow> (Inr True, s'\<lparr>ln_manual := Some (address, le_now e)\<rparr>)))"

section \<open>The ticks\<close>

definition page_watchdog :: "LinkEnv \<Rightarrow> PhoneLink \<Rightarrow> PhoneLink" where
  "page_watchdog e s =
     (case ln_manual s of
        Some (addr, started) \<Rightarrow>
          if le_now e - started \<ge> AUTO_RECONNECT_PAGE_BUDGET
          then (put_out (Tell (RadioError (PageTimedOut addr))) s)\<lparr>ln_manual := None\<rparr> else s
      | None \<Rightarrow> s)"

definition auth_watchdog :: "LinkEnv \<Rightarrow> PhoneLink \<Rightarrow> PhoneLink" where
  "auth_watchdog e s =
     (case ln_auth s of
        Some a \<Rightarrow>
          if le_now e - ma_started_at a \<ge> MANUAL_CONNECT_AUTH_BUDGET
          then (snd (send_cmd e (disconnect_command (ma_connection_handle a) 0x13)
                  (put_out (Tell (RadioError (SecuringTimedOut (ma_address a)))) s)))\<lparr>ln_auth := None, ln_outbound := False\<rparr>
          else s
      | None \<Rightarrow> s)"

text \<open>After a reopen of the dongle the phone that was on the line is paged back.\<close>

definition recovery_page :: "LinkEnv \<Rightarrow> PhoneLink \<Rightarrow> PhoneLink" where
  "recovery_page e s =
     (case ln_recovery s of
        None \<Rightarrow> s
      | Some (addr, due, pages) \<Rightarrow>
          if ln_acl s \<noteq> None then s\<lparr>ln_recovery := None\<rparr>
          else if le_now e \<ge> due \<and> ln_manual s = None then
            (if pages \<ge> RECOVERY_RECONNECT_PAGES \<or> \<not> store_contains (ln_store s) addr \<or> refused_contains addr s
             then s\<lparr>ln_recovery := None\<rparr>
             else (case send_built e (create_connection_command_for addr (le_role_switch e))
                          (s\<lparr>ln_recovery := Some (addr, le_now e + 25000, pages + 1)\<rparr>) of
                     (Inr _, s') \<Rightarrow> s'\<lparr>ln_manual := Some (addr, le_now e)\<rparr>
                   | (Inl _, s') \<Rightarrow> s'))
          else s)"

definition ssp_deadline :: "LinkEnv \<Rightarrow> PhoneLink \<Rightarrow> PhoneLink" where
  "ssp_deadline e s =
     (case ln_confirm s of
        Some (pending_addr, deadline) \<Rightarrow>
          if le_now e \<ge> deadline
          then clear_confirm (snd (send_built e (user_confirmation_request_negative_reply_command pending_addr) s)) else s
      | None \<Rightarrow> s)"

definition reconcile_scan :: "LinkEnv \<Rightarrow> PhoneLink \<Rightarrow> PhoneLink" where
  "reconcile_scan e s =
     (let want = window_open e s in
      if want = ln_discoverable s then s
      else
        (let scan = (if want then AOKIE_SCAN_ENABLE_CONNECTABLE_DISCOVERABLE else AOKIE_SCAN_ENABLE_CONNECTABLE);
             s' = put_out (Cmd (write_scan_enable_command scan)) s in
         case write_scan_enable (le_io e) scan of
           Inr _ \<Rightarrow> s'\<lparr>ln_discoverable := want\<rparr>
         | Inl _ \<Rightarrow> s'))"

section \<open>Events of the controller\<close>

datatype link_flow = Proceed | NextTick | EndRun u8

definition hardware_error_code :: "HciEvent \<Rightarrow> u8 option" where
  "hardware_error_code event =
     (case event of
        EvUnknown code params \<Rightarrow>
          if code = EVENT_HARDWARE_ERROR then Some (case params of [] \<Rightarrow> 0 | c # _ \<Rightarrow> c) else None
      | _ \<Rightarrow> None)"

definition hardware_error :: "LinkEnv \<Rightarrow> u8 \<Rightarrow> PhoneLink \<Rightarrow> link_flow \<times> PhoneLink" where
  "hardware_error e code s =
     (let s' = put_out (Cmd read_scan_enable_command) s in
      case read_scan_enable (le_io e) of
        Inr scan \<Rightarrow> (if scan \<noteq> 0 then NextTick else EndRun code, s')
      | Inl _ \<Rightarrow> (EndRun code, s'))"

definition is_second_request :: "HciEvent \<Rightarrow> PhoneLink \<Rightarrow> rstr option" where
  "is_second_request event s =
     (case event of
        EvConnectionRequest address _ link_type \<Rightarrow>
          if link_type = LINK_TYPE_ACL \<and> another_phone_holds_the_link (ln_acl s) (ln_remote s) address then Some address else None
      | _ \<Rightarrow> None)"

definition refuse_second_phone :: "LinkEnv \<Rightarrow> rstr \<Rightarrow> PhoneLink \<Rightarrow> PhoneLink" where
  "refuse_second_phone e address s =
     (let s' = snd (send_built e (reject_connection_request_command_with_reason address REJECT_LIMITED_RESOURCES) s) in
      if window_open e s' then put_out (Tell (RadioError (AnotherPhoneTried address (ln_remote s')))) s' else s')"

text \<open>A name for a bonded phone, kept with the bond.\<close>

definition keep_name :: "LinkEnv \<Rightarrow> rstr \<Rightarrow> rstr \<Rightarrow> PhoneLink \<Rightarrow> PhoneLink" where
  "keep_name e address name s =
     (case store_set_name (le_name_write e) address name (ln_store s) of
        (r, store) \<Rightarrow> (let s' = s\<lparr>ln_store := store\<rparr> in if r = Inr True then refresh_snapshot s' else s'))"

definition bonded_now :: "LinkEnv \<Rightarrow> HciEvent \<Rightarrow> PhoneLink \<Rightarrow> PhoneLink" where
  "bonded_now e event s =
     (case event of
        EvLinkKeyNotification address _ _ \<Rightarrow>
          (case if remote_is address s then ln_remote_name s else None of
             Some name \<Rightarrow> keep_name e address name s
           | None \<Rightarrow> s)
      | _ \<Rightarrow> s)"

definition hold_confirmation :: "LinkEnv \<Rightarrow> rstr \<Rightarrow> u32 \<Rightarrow> PhoneLink \<Rightarrow> PhoneLink" where
  "hold_confirmation e address numeric_value s =
     put_out (Tell (PairingConfirmRequired address numeric_value))
       (s\<lparr>ln_confirm := Some (address, le_now e + PAIRING_CONFIRM_TIMEOUT_SECS * 1000),
          ln_slot := Some \<lparr>pc_address = address, pc_numeric_value = numeric_value,
            pc_expires_epoch_secs = sat_add64 (le_epoch e) PAIRING_CONFIRM_TIMEOUT_SECS\<rparr>\<rparr>)"

definition end_unopened :: "LinkEnv \<Rightarrow> rstr \<Rightarrow> store_error \<Rightarrow> PhoneLink \<Rightarrow> PhoneLink" where
  "end_unopened e address reason s =
     (let s' = (case if remote_is address s then ln_acl s else None of
                  Some h \<Rightarrow> snd (send_cmd e (disconnect_command h 0x13) s)
                | None \<Rightarrow> s) in
      put_out (Tell (RadioError (KeyDidNotOpen address reason))) s')"

text \<open>A new key: the phone is paired again, and paged again.\<close>

definition started_by :: "HciEvent \<Rightarrow> PhoneLink \<Rightarrow> PhoneLink" where
  "started_by event s = (case event of EvLinkKeyNotification address _ _ \<Rightarrow> refused_clear address s | _ \<Rightarrow> s)"

definition apply_policy :: "LinkEnv \<Rightarrow> HciEvent \<Rightarrow> PhoneLink \<Rightarrow> link_flow \<times> PhoneLink" where
  "apply_policy e event s0 =
     (let s1 = started_by event s0 in
      case handle_hci_event_with_policy (le_seal e) (le_store_write e) (le_io e) (ln_codec s1)
             (policy_runtime (window_open e s1) (le_legacy_pin e)) event (ln_store s1) of
        (cmds, result, store) \<Rightarrow>
          (let s = s1\<lparr>ln_store := store, ln_out := ln_out s1 @ map Cmd cmds\<rparr> in
           case result of
             Inr (Some (Logged _)) \<Rightarrow> (Proceed, bonded_now e event s)
           | Inr (Some (ConfirmationPending address numeric_value)) \<Rightarrow> (Proceed, hold_confirmation e address numeric_value s)
           | Inr (Some (LinkKeyUnavailable address reason)) \<Rightarrow> (Proceed, end_unopened e address reason s)
           | Inr None \<Rightarrow> (Proceed, s)
           | Inl err \<Rightarrow>
               (NextTick, if is_timeout_error (le_error_text e err) then s else put_out (Tell (RadioError (EventFailed err))) s)))"

definition peer_walked_away :: "HciEvent \<Rightarrow> PhoneLink \<Rightarrow> PhoneLink" where
  "peer_walked_away event s =
     (case event of
        EvSimplePairingComplete _ _ \<Rightarrow> if ln_confirm s \<noteq> None then clear_confirm s else s
      | EvDisconnectionComplete _ _ _ \<Rightarrow> if ln_confirm s \<noteq> None then clear_confirm s else s
      | _ \<Rightarrow> s)"

definition bond_landed :: "nat \<Rightarrow> PhoneLink \<Rightarrow> PhoneLink" where
  "bond_landed bonds_before s =
     (if store_len (ln_store s) \<noteq> bonds_before then
        (let s' = refresh_snapshot s in
         if store_len (ln_store s') > bonds_before then s'\<lparr>ln_window := window_close\<rparr> else s')
      else s)"

definition forward_hci_event :: "HciEvent \<Rightarrow> PhoneLink \<Rightarrow> PhoneLink" where
  "forward_hci_event event s =
     (case event of
        EvConnectionComplete cstatus h address link_type _ \<Rightarrow>
          if cstatus = 0 \<and> link_type = LINK_TYPE_ACL \<and> \<not> another_phone_holds_the_link (other_than h (ln_acl s)) (ln_remote s) address
          then put_out (Tell (DeviceConnected address)) (s\<lparr>ln_connected := True, ln_remote := address\<rparr>)
          else s
      | EvDisconnectionComplete dstatus h _ \<Rightarrow>
          if dstatus \<noteq> 0 \<or> Some h = ln_sco s \<or> (case ln_acl s of Some h' \<Rightarrow> h' \<noteq> h | None \<Rightarrow> False) then s
          else put_out (Tell (DeviceDisconnected (ln_remote s)))
                 (s\<lparr>ln_remote := [], ln_remote_name := None, ln_connected := False\<rparr>)
      | _ \<Rightarrow> s)"

definition link_codec_for_air_mode :: "u8 \<Rightarrow> codec option \<Rightarrow> codec" where
  "link_codec_for_air_mode air_mode selected =
     (if air_mode = 0x03 \<and> is_msbc selected then (lit ''mSBC'', 16000) else (lit ''CVSD'', 8000))"

definition audio_complete :: "LinkEnv \<Rightarrow> HciEvent \<Rightarrow> PhoneLink \<Rightarrow> PhoneLink" where
  "audio_complete e event s =
     (case event of
        EvSynchronousConnectionComplete scstatus h _ link_type _ _ _ _ air_mode \<Rightarrow>
          if scstatus = 0 then
            (let carried = link_codec_for_air_mode air_mode (ln_codec s);
                 voice = sa_voice_setting (sco_accept_parameters link_type (Some carried)) in
             put_out (Tell (AudioConnected (fst carried) (snd carried) (le_alt_setting e)))
               (put_out (AudioUp h voice)
                  (s\<lparr>ln_sco := Some h, ln_call_active := True, ln_link_codec := Some carried, ln_sample_rate := snd carried\<rparr>)))
          else s
      | _ \<Rightarrow> s)"

definition name_answered :: "LinkEnv \<Rightarrow> HciEvent \<Rightarrow> PhoneLink \<Rightarrow> PhoneLink" where
  "name_answered e event s =
     (case event of
        EvRemoteNameRequestComplete nstatus address name0 \<Rightarrow>
          (let name = trim name0 in
           if nstatus = 0 \<and> name \<noteq> [] then
             keep_name e address name (if remote_is address s then s\<lparr>ln_remote_name := Some name\<rparr> else s)
           else s)
      | _ \<Rightarrow> s)"

text \<open>A link that came up: a second phone's is ended, the phone's is kept and asked for the name.\<close>

definition link_up :: "LinkEnv \<Rightarrow> u8 \<Rightarrow> u16 \<Rightarrow> rstr \<Rightarrow> u8 \<Rightarrow> PhoneLink \<Rightarrow> PhoneLink" where
  "link_up e cstatus h address link_type s =
     (if cstatus = 0 \<and> link_type = LINK_TYPE_ACL then
        (if another_phone_holds_the_link (other_than h (ln_acl s)) (ln_remote s) address
         then snd (send_cmd e (disconnect_command h 0x13) s)
         else snd (send_built e (remote_name_request_command address) (s\<lparr>ln_acl := Some h, ln_remote_name := None\<rparr>)))
      else s)"

text \<open>The page Aokie sent is answered.\<close>

definition page_answered :: "LinkEnv \<Rightarrow> u8 \<Rightarrow> u16 \<Rightarrow> rstr \<Rightarrow> u8 \<Rightarrow> PhoneLink \<Rightarrow> PhoneLink" where
  "page_answered e cstatus h address link_type s =
     (case ln_manual s of
        Some (pending_addr, _) \<Rightarrow>
          if eq_ignore_ascii_case pending_addr address \<and> link_type = LINK_TYPE_ACL then
            (let s1 = (if cstatus = 0 then
                         (case send_cmd e (authentication_requested_command h) (s\<lparr>ln_outbound := True\<rparr>) of
                            (Inr _, s') \<Rightarrow>
                              s'\<lparr>ln_auth := Some \<lparr>ma_connection_handle = h, ma_address = address,
                                  ma_awaiting_encryption = False, ma_started_at = le_now e\<rparr>\<rparr>
                          | (Inl err, s') \<Rightarrow>
                              (snd (send_cmd e (disconnect_command h 0x13)
                                 (put_out (Tell (RadioError (AuthenticationUnwritten err))) s')))\<lparr>ln_outbound := False\<rparr>)
                       else put_out (Tell (RadioError (PageUnanswered address cstatus))) s) in
             s1\<lparr>ln_manual := None\<rparr>)
          else s
      | None \<Rightarrow> s)"

definition connection_complete :: "LinkEnv \<Rightarrow> HciEvent \<Rightarrow> PhoneLink \<Rightarrow> PhoneLink" where
  "connection_complete e event s =
     (case event of
        EvConnectionComplete cstatus h address link_type _ \<Rightarrow>
          page_answered e cstatus h address link_type (link_up e cstatus h address link_type s)
      | _ \<Rightarrow> s)"

definition authentication_complete :: "LinkEnv \<Rightarrow> HciEvent \<Rightarrow> PhoneLink \<Rightarrow> PhoneLink" where
  "authentication_complete e event s =
     (case (event, ln_auth s) of
        (EvAuthenticationComplete astatus h, Some auth) \<Rightarrow>
          if ma_connection_handle auth = h \<and> \<not> ma_awaiting_encryption auth then
            (if astatus = 0 then
               (case send_cmd e (set_connection_encryption_command h True) s of
                  (Inr _, s') \<Rightarrow> s'\<lparr>ln_auth := Some (auth\<lparr>ma_awaiting_encryption := True\<rparr>)\<rparr>
                | (Inl err, s') \<Rightarrow>
                    (snd (send_cmd e (disconnect_command h 0x13) (put_out (Tell (RadioError (EncryptionUnwritten err))) s')))
                      \<lparr>ln_auth := None, ln_outbound := False\<rparr>)
             else
               (snd (send_cmd e (disconnect_command h 0x05)
                  (put_out (Tell (RadioError (KeyRejected (ma_address auth) astatus)))
                     (refused_add (ma_address auth) (s\<lparr>ln_auth := None\<rparr>)))))\<lparr>ln_outbound := False\<rparr>)
          else s
      | _ \<Rightarrow> s)"

definition encryption_change :: "LinkEnv \<Rightarrow> HciEvent \<Rightarrow> PhoneLink \<Rightarrow> PhoneLink" where
  "encryption_change e event s =
     (case (event, ln_auth s) of
        (EvEncryptionChange estatus h encryption_enabled, Some auth) \<Rightarrow>
          if ma_connection_handle auth = h \<and> ma_awaiting_encryption auth then
            (let s1 = s\<lparr>ln_auth := None\<rparr> in
             if estatus = 0 \<and> encryption_enabled \<noteq> 0 then
               (case le_hfp_start e of
                  None \<Rightarrow> (put_out (StartHandsFree h) s1)\<lparr>ln_hfp_connect := Some h\<rparr>
                | Some err \<Rightarrow> put_out (Tell (RadioError (HandsFreeUnstarted err))) s1)
             else
               (snd (send_cmd e (disconnect_command h 0x13)
                  (put_out (Tell (RadioError (EncryptionRefused (ma_address auth) estatus))) s1)))\<lparr>ln_outbound := False\<rparr>)
          else s
      | _ \<Rightarrow> s)"

definition audio_moved_to_handset :: "u8 \<Rightarrow> bool \<Rightarrow> bool" where
  "audio_moved_to_handset reason call_up = (call_up \<and> reason = 0x13)"

definition phone_gone :: "u16 \<Rightarrow> PhoneLink \<Rightarrow> PhoneLink" where
  "phone_gone h s =
     (if ln_acl s = Some h \<and> ln_sco s \<noteq> Some h then
        put_out (ProfilesDown h)
          (s\<lparr>ln_acl := None, ln_hfp_connect := None, ln_auth := None, ln_outbound := False, ln_codec := None\<rparr>)
      else s)"

definition audio_gone :: "LinkEnv \<Rightarrow> u16 \<Rightarrow> u8 \<Rightarrow> PhoneLink \<Rightarrow> PhoneLink" where
  "audio_gone e h reason s0 =
     (if ln_sco s0 = Some h then
        (let s = put_out (Tell AudioDisconnected) (put_out AudioDown (s0\<lparr>ln_sco := None, ln_link_codec := None,
               ln_call_active := ln_call_active s0 \<and> le_call_in_progress e, ln_sample_rate := 0\<rparr>)) in
         if le_call_in_progress e then
           (if audio_moved_to_handset reason (le_call_up e) then put_out (Tell AudioOnHandset) s else s)
         else if reason \<noteq> 0x08 \<and> reason \<noteq> 0x15 then put_out (Tell RadioCallTerminated) s else s)
      else s0)"

definition disconnection_complete :: "LinkEnv \<Rightarrow> HciEvent \<Rightarrow> PhoneLink \<Rightarrow> PhoneLink" where
  "disconnection_complete e event s =
     (case event of
        EvDisconnectionComplete dstatus h reason \<Rightarrow>
          if dstatus = 0 then audio_gone e h reason (phone_gone h (put_out (RemoveConnection h) s)) else s
      | _ \<Rightarrow> s)"

definition after_policy :: "LinkEnv \<Rightarrow> nat \<Rightarrow> HciEvent \<Rightarrow> PhoneLink \<Rightarrow> PhoneLink" where
  "after_policy e bonds_before event s =
     disconnection_complete e event (encryption_change e event (authentication_complete e event
       (connection_complete e event (name_answered e event (audio_complete e event
         (forward_hci_event event (bond_landed bonds_before (peer_walked_away event s))))))))"

definition on_hci_event :: "LinkEnv \<Rightarrow> HciEvent \<Rightarrow> PhoneLink \<Rightarrow> link_flow \<times> PhoneLink" where
  "on_hci_event e event s =
     (case hardware_error_code event of
        Some code \<Rightarrow> hardware_error e code s
      | None \<Rightarrow>
          (case is_second_request event s of
             Some address \<Rightarrow> (NextTick, refuse_second_phone e address s)
           | None \<Rightarrow>
               (case apply_policy e event s of
                  (Proceed, s') \<Rightarrow> (Proceed, after_policy e (store_len (ln_store s)) event s')
                | (flow, s') \<Rightarrow> (flow, s'))))"

section \<open>The end of a run\<close>

text \<open>The transport is closed: the phone that was connected, to be paged back by the next run.\<close>

definition mark_transport_down :: "PhoneLink \<Rightarrow> rstr option \<times> PhoneLink" where
  "mark_transport_down s =
     (let remote = ln_remote s;
          s1 = s\<lparr>ln_call_active := False, ln_remote := [], ln_remote_name := None, ln_connected := False\<rparr> in
      if ln_connected s
      then (if remote = [] then None else Some remote, put_out (Tell (DeviceDisconnected remote)) s1)
      else (None, s1))"

text \<open>The next run: the store is loaded again, what the loop kept in its own variables starts afresh, and what is shared
  with the application (the window, the shown confirmation) stays.\<close>

definition next_run :: "instant \<Rightarrow> AokiePairingStore \<Rightarrow> rstr option \<Rightarrow> PhoneLink \<Rightarrow> PhoneLink" where
  "next_run now store reconnect_to s =
     s\<lparr>ln_store := store, ln_snapshot := list_devices store, ln_discoverable := False, ln_confirm := None, ln_acl := None,
       ln_sco := None, ln_manual := None, ln_auth := None,
       ln_recovery := map_option (\<lambda>addr. (addr, now + 3000, 0)) reconnect_to, ln_refused := {}, ln_outbound := False,
       ln_hfp_connect := None, ln_codec := None, ln_link_codec := None\<rparr>"

section \<open>Steps\<close>

datatype link_act =
    OpenWindow nat
  | CloseWindow
  | ConfirmPairing rstr bool
  | RemovePaired rstr
  | DisconnectPhone rstr
  | ConnectPhone rstr
  | Heartbeat
  | LoopTick
  | HciEventRead HciEvent

fun link_step :: "LinkEnv \<Rightarrow> link_act \<Rightarrow> PhoneLink \<Rightarrow> PhoneLink" where
  "link_step e (OpenWindow seconds) s = s\<lparr>ln_window := window_open_for (le_epoch e) seconds\<rparr>"
| "link_step e CloseWindow s = s\<lparr>ln_window := window_close\<rparr>"
| "link_step e (ConfirmPairing address accept) s = snd (confirm_pairing e address accept s)"
| "link_step e (RemovePaired address) s = snd (remove_paired e address s)"
| "link_step e (DisconnectPhone address) s = snd (disconnect_phone e address s)"
| "link_step e (ConnectPhone address) s = snd (connect_phone e address s)"
| "link_step e Heartbeat s = auth_watchdog e (page_watchdog e s)"
| "link_step e LoopTick s = reconcile_scan e (ssp_deadline e (recovery_page e s))"
| "link_step e (HciEventRead event) s = snd (on_hci_event e event s)"

fun link_run :: "(LinkEnv \<times> link_act) list \<Rightarrow> PhoneLink \<Rightarrow> PhoneLink" where
  "link_run [] s = s"
| "link_run ((e, a) # acts) s = link_run acts (link_step e a s)"

lemma link_run_append: "link_run (xs @ ys) s = link_run ys (link_run xs s)"
  by (induction xs s rule: link_run.induct) simp_all

section \<open>What a step leaves alone\<close>

definition key_of :: "AokiePairingStore \<Rightarrow> rstr \<Rightarrow> (rstr option \<times> rstr option \<times> u8) option" where
  "key_of st a = map_option (\<lambda>r. (sk_key_hex r, sk_key_sealed r, sk_key_type r)) (map_of (ps_records st) (normalize_address a))"

text \<open>Nothing confirmed, no new prompt without its notice, no key changed.\<close>

definition confirms :: "link_out \<Rightarrow> bool" where
  "confirms o' = (case o' of Cmd c \<Rightarrow> cmd_opcode c = OPCODE_USER_CONFIRMATION_REQUEST_REPLY | _ \<Rightarrow> False)"

definition quiet_out :: "PhoneLink \<Rightarrow> PhoneLink \<Rightarrow> bool" where
  "quiet_out s s' =
     (\<exists>new. ln_out s' = ln_out s @ new \<and> \<not> list_ex confirms new \<and>
        (ln_confirm s' = ln_confirm s \<or> ln_confirm s' = None \<or>
         (\<exists>a d n. ln_confirm s' = Some (a, d) \<and> Tell (PairingConfirmRequired a n) \<in> set new)))"

definition calm :: "PhoneLink \<Rightarrow> PhoneLink \<Rightarrow> bool" where
  "calm s s' = (quiet_out s s' \<and> key_of (ln_store s') = key_of (ln_store s))"

lemma calm_refl [simp]: "calm s s" "quiet_out s s"
  by (simp_all add: calm_def quiet_out_def)

lemma quiet_trans: "quiet_out s s' \<Longrightarrow> quiet_out s' s'' \<Longrightarrow> quiet_out s s''"
  unfolding quiet_out_def by (elim conjE exE) (rule exI, rule conjI, simp, auto)

lemma calm_trans: "calm s s' \<Longrightarrow> calm s' s'' \<Longrightarrow> calm s s''"
  unfolding calm_def by (auto intro: quiet_trans)

lemma name_keys [simp]: "key_of (snd (store_set_name w a n st)) = key_of st"
proof -
  have s: "ps_records (snd (store_save w x)) = ps_records x" for x by (simp add: store_save_def split: option.split)
  have u: "map_option (\<lambda>r. (sk_key_hex r, sk_key_sealed r, sk_key_type r)) (map_of (bt_update k (\<lambda>r. r\<lparr>sk_name := m\<rparr>) recs) j)
      = map_option (\<lambda>r. (sk_key_hex r, sk_key_sealed r, sk_key_type r)) (map_of recs j)" for k m recs j
    by (cases "map_of recs k") (auto simp: map_of_bt_update)
  show ?thesis by (simp add: fun_eq_iff key_of_def store_set_name_def Let_def s u split: option.split)
qed

lemma confirms_simps [simp]:
  "\<not> confirms (Tell t)" "\<not> confirms (RemoveConnection h)" "\<not> confirms (ProfilesDown h)" "\<not> confirms (StartHandsFree h)"
  "\<not> confirms (AudioUp h v)" "\<not> confirms AudioDown" "confirms (Cmd c) = (cmd_opcode c = OPCODE_USER_CONFIRMATION_REQUEST_REPLY)"
  by (simp_all add: confirms_def)

lemmas link_defs = put_out_def send_cmd_def clear_confirm_def refresh_snapshot_def refused_add_def refused_clear_def
lemmas calm_defs = link_defs calm_def quiet_out_def Let_def

lemma send_built_calm:
  "(\<And>c. command = Inr c \<Longrightarrow> cmd_opcode c \<noteq> OPCODE_USER_CONFIRMATION_REQUEST_REPLY) \<Longrightarrow> calm s (snd (send_built e command s))"
  by (auto simp: send_built_def calm_defs split: sum.split)

lemma page_watchdog_calm: "calm s (page_watchdog e s)"
  by (auto simp: page_watchdog_def calm_defs split: option.split)

lemma auth_watchdog_calm: "calm s (auth_watchdog e s)"
  by (auto simp: auth_watchdog_def calm_defs split: option.split)

lemma disconnect_phone_calm: "calm s (snd (disconnect_phone e address s))"
  by (auto simp: disconnect_phone_def calm_defs split: option.split sum.split)

lemma forward_calm: "calm s (forward_hci_event event s)"
  by (auto simp: forward_hci_event_def calm_defs split: HciEvent.split)

lemma walked_away_calm: "calm s (peer_walked_away event s)"
  by (auto simp: peer_walked_away_def calm_defs split: HciEvent.split)

lemma bond_landed_calm: "calm s (bond_landed n s)"
  by (auto simp: bond_landed_def calm_defs)

lemma audio_complete_calm: "calm s (audio_complete e event s)"
  by (auto simp: audio_complete_def calm_defs split: HciEvent.split)

lemma authentication_calm: "calm s (authentication_complete e event s)"
  by (auto simp: authentication_complete_def calm_defs split: HciEvent.split option.split sum.split)

lemma encryption_calm: "calm s (encryption_change e event s)"
  by (auto simp: encryption_change_def calm_defs split: HciEvent.split option.split sum.split)

lemma phone_gone_calm: "calm s (phone_gone h s)"
  by (auto simp: phone_gone_def calm_defs)

lemma audio_gone_calm: "calm s (audio_gone e h reason s)"
  by (auto simp: audio_gone_def calm_defs)

lemma hardware_calm: "calm s (snd (hardware_error e code s))"
  by (auto simp: hardware_error_def calm_defs split: sum.split)

lemma reconcile_calm: "calm s (reconcile_scan e s)"
  by (auto simp: reconcile_scan_def calm_defs split: sum.split)

lemma end_unopened_calm: "calm s (end_unopened e address err s)"
  by (auto simp: end_unopened_def calm_defs split: option.split)

lemma hold_calm: "calm s (hold_confirmation e address v s)"
  by (auto simp: hold_confirmation_def calm_defs)

lemma page_calm: "calm s (snd (send_built e (create_connection_command_for a sw) s))"
  by (rule send_built_calm) (auto dest: built_opcodes)

lemma send_built_snd: "send_built e command s = (r, s') \<Longrightarrow> snd (send_built e command s) = s'"
  by simp

lemma calm_manual [simp]: "calm s (s'\<lparr>ln_manual := m\<rparr>) = calm s s'" "calm (s\<lparr>ln_recovery := r\<rparr>) s' = calm s s'"
  "calm s (s'\<lparr>ln_outbound := b\<rparr>) = calm s s'" "calm s (s'\<lparr>ln_auth := au\<rparr>) = calm s s'"
  "calm (s\<lparr>ln_outbound := b\<rparr>) s' = calm s s'" "calm (s\<lparr>ln_acl := h, ln_remote_name := nm\<rparr>) s' = calm s s'"
  by (simp_all add: calm_def quiet_out_def)

lemma connect_calm: "calm s (snd (connect_phone e address s))"
  using page_calm [of s e address "le_role_switch e"]
  by (auto simp: connect_phone_def split: prod.split sum.split)

lemma recovery_calm: "calm s (recovery_page e s)"
proof -
  have page: "calm s (snd (send_built e (create_connection_command_for a (le_role_switch e)) (s\<lparr>ln_recovery := r\<rparr>)))" for a r
    using page_calm [of "s\<lparr>ln_recovery := r\<rparr>" e a "le_role_switch e"] by simp
  have drop: "calm s (s\<lparr>ln_recovery := r\<rparr>)" for r by (simp add: calm_defs)
  show ?thesis
  proof (cases "ln_recovery s")
    case (Some p)
    obtain addr due pages where p: "p = (addr, due, pages)" by (cases p)
    show ?thesis
    proof (cases "send_built e (create_connection_command_for addr (le_role_switch e)) (s\<lparr>ln_recovery := Some (addr, le_now e + 25000, pages + 1)\<rparr>)")
      case (Pair r s')
      with page [of addr "Some (addr, le_now e + 25000, pages + 1)"] have "calm s s'" by simp
      with Pair Some p drop show ?thesis by (simp add: recovery_page_def split: sum.split)
    qed
  qed (simp add: recovery_page_def)
qed

lemma deadline_calm: "calm s (ssp_deadline e s)"
proof -
  have "calm s (clear_confirm (snd (send_built e (user_confirmation_request_negative_reply_command a) s)))" for a
  proof (rule calm_trans)
    show "calm s (snd (send_built e (user_confirmation_request_negative_reply_command a) s))"
      by (rule send_built_calm) (auto dest: built_opcodes)
  qed (simp add: calm_defs)
  then show ?thesis by (auto simp: ssp_deadline_def split: option.split)
qed

lemma refuse_second_calm: "calm s (refuse_second_phone e address s)"
proof -
  let ?s = "snd (send_built e (reject_connection_request_command_with_reason address REJECT_LIMITED_RESOURCES) s)"
  have "calm s ?s" by (rule send_built_calm) (auto dest: built_opcodes)
  moreover have "calm ?s (put_out (Tell t) ?s)" for t by (simp add: calm_defs)
  ultimately show ?thesis by (auto simp: refuse_second_phone_def Let_def intro: calm_trans)
qed

lemma keep_name_calm: "calm s (keep_name e address name s)"
proof (cases "store_set_name (le_name_write e) address name (ln_store s)")
  case (Pair r st)
  with name_keys [of "le_name_write e" address name "ln_store s"] show ?thesis by (simp add: keep_name_def calm_defs)
qed

lemma bonded_now_calm: "calm s (bonded_now e event s)"
  by (simp add: bonded_now_def keep_name_calm split: HciEvent.split option.split)

lemma name_answered_calm: "calm s (name_answered e event s)"
proof -
  have "calm s (s\<lparr>ln_remote_name := n\<rparr>)" for n by (simp add: calm_defs)
  then show ?thesis
    by (auto simp: name_answered_def Let_def keep_name_calm split: HciEvent.split intro: calm_trans [OF _ keep_name_calm])
qed

lemma link_up_calm: "calm s (link_up e cstatus h address lt s)"
proof -
  have "calm (s\<lparr>ln_acl := Some h, ln_remote_name := None\<rparr>)
      (snd (send_built e (remote_name_request_command address) (s\<lparr>ln_acl := Some h, ln_remote_name := None\<rparr>)))"
    by (rule send_built_calm) (auto dest: built_opcodes)
  then show ?thesis by (simp add: link_up_def) (simp add: calm_defs)
qed

lemma page_answered_calm: "calm s (page_answered e cstatus h address lt s)"
  by (auto simp: page_answered_def calm_defs split: option.split sum.split)

lemma connection_calm: "calm s (connection_complete e event s)"
  by (auto simp: connection_complete_def split: HciEvent.split intro: calm_trans [OF link_up_calm page_answered_calm])

lemma disconnection_calm: "calm s (disconnection_complete e event s)"
proof -
  have "calm s (put_out (RemoveConnection h) s)" for h by (simp add: calm_defs)
  then show ?thesis
    by (auto simp: disconnection_complete_def split: HciEvent.split
        intro: calm_trans [OF _ calm_trans [OF phone_gone_calm audio_gone_calm]])
qed

lemma after_policy_calm: "calm s (after_policy e n event s)"
  unfolding after_policy_def
  by (rule calm_trans [OF _ disconnection_calm], rule calm_trans [OF _ encryption_calm], rule calm_trans [OF _ authentication_calm],
      rule calm_trans [OF _ connection_calm], rule calm_trans [OF _ name_answered_calm], rule calm_trans [OF _ audio_complete_calm],
      rule calm_trans [OF _ forward_calm], rule calm_trans [OF _ bond_landed_calm], rule walked_away_calm)

text \<open>The handler of the policy: keys change only for a new key in an open window.\<close>

lemma put_keys:
  assumes "normalize_address b \<noteq> normalize_address a"
  shows "key_of (snd (store_put y w a k t st)) b = key_of st b"
proof -
  have s: "ps_records (snd (store_save w x)) = ps_records x" for x by (simp add: store_save_def split: option.split)
  show ?thesis using assms by (simp add: key_of_def store_put_def Let_def s map_of_bt_insert split: sum.split)
qed

definition handled :: "LinkEnv \<Rightarrow> HciEvent \<Rightarrow> PhoneLink \<Rightarrow> bytes list \<times> (pair_error + PairingOutcome option) \<times> AokiePairingStore" where
  "handled e event s =
     handle_hci_event_with_policy (le_seal e) (le_store_write e) (le_io e) (ln_codec s)
       (policy_runtime (window_open e s) (le_legacy_pin e)) event (ln_store s)"

lemma handled_quiet: "handled e event s = (cmds, r, st) \<Longrightarrow> quiet_out s (s\<lparr>ln_store := st, ln_out := ln_out s @ map Cmd cmds\<rparr>)"
proof -
  assume h: "handled e event s = (cmds, r, st)"
  have "cmd_opcode c \<noteq> OPCODE_USER_CONFIRMATION_REQUEST_REPLY" if "c \<in> set cmds" for c
    using handler_cmds [of c "le_seal e" "le_store_write e" "le_io e" "ln_codec s" "policy_runtime (window_open e s) (le_legacy_pin e)" event "ln_store s"]
      that h by (auto simp: handled_def policy_runtime_def)
  then show ?thesis by (auto simp: quiet_out_def list_ex_iff)
qed

lemma started_same [simp]:
  "ln_store (started_by event s) = ln_store s" "ln_out (started_by event s) = ln_out s" "ln_confirm (started_by event s) = ln_confirm s"
  "window_open e (started_by event s) = window_open e s" "ln_window (started_by event s) = ln_window s"
  by (simp_all add: started_by_def refused_clear_def window_open_def split: HciEvent.split)

lemma policy_calm:
  obtains st where "st = snd (snd (handled e event (started_by event s)))"
    and "\<exists>cmds. calm ((started_by event s)\<lparr>ln_store := st, ln_out := ln_out s @ map Cmd cmds\<rparr>) (snd (apply_policy e event s)) \<and>
       quiet_out s ((started_by event s)\<lparr>ln_store := st, ln_out := ln_out s @ map Cmd cmds\<rparr>)"
proof -
  let ?s1 = "started_by event s"
  obtain cmds r st where h: "handled e event ?s1 = (cmds, r, st)" by (metis prod_cases3)
  let ?s2 = "?s1\<lparr>ln_store := st, ln_out := ln_out ?s1 @ map Cmd cmds\<rparr>"
  have "quiet_out ?s1 ?s2" by (rule handled_quiet [OF h])
  then have q: "quiet_out s ?s2" by (simp add: quiet_out_def)
  have ap: "apply_policy e event s =
      (case r of
         Inr (Some (Logged _)) \<Rightarrow> (Proceed, bonded_now e event ?s2)
       | Inr (Some (ConfirmationPending address numeric_value)) \<Rightarrow> (Proceed, hold_confirmation e address numeric_value ?s2)
       | Inr (Some (LinkKeyUnavailable address reason)) \<Rightarrow> (Proceed, end_unopened e address reason ?s2)
       | Inr None \<Rightarrow> (Proceed, ?s2)
       | Inl err \<Rightarrow> (NextTick, if is_timeout_error (le_error_text e err) then ?s2 else put_out (Tell (RadioError (EventFailed err))) ?s2))"
    using h by (simp add: apply_policy_def Let_def handled_def del: started_same)
  have "calm ?s2 (put_out (Tell t) ?s2)" for t by (simp add: calm_defs)
  then have "calm ?s2 (snd (apply_policy e event s))"
    by (simp add: ap bonded_now_calm hold_calm end_unopened_calm split: sum.split option.split PairingOutcome.split)
  with q h show ?thesis by (intro that [of st] exI [of _ cmds]) simp_all
qed

lemma event_policy: "quiet_out s (snd (on_hci_event e event s)) \<and>
    (key_of (ln_store (snd (on_hci_event e event s))) = key_of (ln_store s) \<or>
     (\<exists>a k t. event = EvLinkKeyNotification a k t \<and> window_open e s \<and>
       (\<forall>b. normalize_address b \<noteq> normalize_address a \<longrightarrow>
         key_of (ln_store (snd (on_hci_event e event s))) b = key_of (ln_store s) b)))"
proof -
  let ?s' = "snd (on_hci_event e event s)"
  obtain st cmds where st: "st = snd (snd (handled e event (started_by event s)))"
    and c: "calm ((started_by event s)\<lparr>ln_store := st, ln_out := ln_out s @ map Cmd cmds\<rparr>) (snd (apply_policy e event s))"
    and q: "quiet_out s ((started_by event s)\<lparr>ln_store := st, ln_out := ln_out s @ map Cmd cmds\<rparr>)"
    using policy_calm [of e event s] by metis
  have "?s' = snd (apply_policy e event s) \<or> calm (snd (apply_policy e event s)) ?s' \<or> calm s ?s'"
    by (cases "hardware_error_code event"; cases "is_second_request event s"; cases "apply_policy e event s")
      (auto simp: on_hci_event_def hardware_calm refuse_second_calm after_policy_calm split: link_flow.split)
  then consider "calm s ?s'" | "calm (snd (apply_policy e event s)) ?s'" by auto
  then show ?thesis
  proof cases
    case 1
    then show ?thesis by (simp add: calm_def)
  next
    case 2
    from quiet_trans [OF q] c 2 have "quiet_out s ?s'" by (meson calm_def quiet_trans)
    moreover have k: "key_of (ln_store ?s') = key_of st" using c 2 by (simp add: calm_def)
    moreover have "st = ln_store s \<or> (\<exists>a k t. event = EvLinkKeyNotification a k t \<and> window_open e s \<and>
        st = snd (store_put (le_seal e) (le_store_write e) a k t (ln_store s)))"
      using handler_store [of "le_seal e" "le_store_write e" "le_io e" "ln_codec (started_by event s)"
        "policy_runtime (window_open e s) (le_legacy_pin e)" event "ln_store s"] st
      by (simp add: handled_def policy_runtime_def)
    ultimately show ?thesis using put_keys by metis
  qed
qed

lemma remove_quiet: "quiet_out s (snd (remove_paired e address s)) \<and>
    (\<forall>b. normalize_address b \<noteq> normalize_address address \<longrightarrow> key_of (ln_store (snd (remove_paired e address s))) b = key_of (ln_store s) b)"
proof -
  have s: "ps_records (snd (store_save w x)) = ps_records x" for w x by (simp add: store_save_def split: option.split)
  have "key_of (snd (store_remove w address st)) b = key_of st b" if "normalize_address b \<noteq> normalize_address address" for w st b
    using that by (simp add: key_of_def store_remove_def s map_of_bt_remove)
  then show ?thesis
    by (auto simp: remove_paired_def link_defs quiet_out_def Let_def split: prod.split option.split) (metis snd_conv)+
qed

lemma confirm_cases:
  "quiet_out s (snd (confirm_pairing e address accept s)) \<or>
   (\<exists>p d c. accept \<and> ln_confirm s = Some (p, d) \<and> eq_ignore_ascii_case p address \<and> user_confirmation_request_reply_command p = Inr c \<and>
      ln_out (snd (confirm_pairing e address accept s)) = ln_out s @ [Cmd c] \<and>
      (ln_confirm (snd (confirm_pairing e address accept s)) = ln_confirm s \<or> ln_confirm (snd (confirm_pairing e address accept s)) = None))"
proof (cases "ln_confirm s")
  case (Some pd)
  obtain p d where pd: "pd = (p, d)" by (cases pd)
  show ?thesis
  proof (cases "accept \<and> eq_ignore_ascii_case p address")
    case True
    then show ?thesis using Some pd
      by (cases "user_confirmation_request_reply_command p")
        (auto simp: confirm_pairing_def send_built_def link_defs split: sum.split)
  next
    case False
    then show ?thesis using Some pd
      by (cases "user_confirmation_request_negative_reply_command p")
        (auto simp: confirm_pairing_def send_built_def link_defs quiet_out_def dest: built_opcodes split: sum.split)
  qed
qed (simp add: confirm_pairing_def)

lemma confirm_store [simp]: "ln_store (snd (confirm_pairing e address accept s)) = ln_store s"
  by (auto simp: confirm_pairing_def send_built_def link_defs split: option.split sum.split)

section \<open>Bonds\<close>

lemma contains_key: "store_contains st a \<longleftrightarrow> key_of st a \<noteq> None"
  by (auto simp: store_contains_def key_of_def)

lemma removed_key: "key_of (ln_store (snd (remove_paired e a s))) b \<in> {None, key_of (ln_store s) b}"
proof (cases "normalize_address b = normalize_address a")
  case True
  have s: "ps_records (snd (store_save w x)) = ps_records x" for w x by (simp add: store_save_def split: option.split)
  have "key_of (snd (store_remove w a st)) b \<in> {None, key_of st b}" for w st
    using True by (simp add: key_of_def store_remove_def s map_of_bt_remove)
  then show ?thesis
    by (simp add: remove_paired_def link_defs Let_def split: prod.split option.split) (metis insert_iff singletonD snd_conv)
next
  case False
  then show ?thesis using remove_quiet [of s e a] by simp
qed

lemma step_key:
  assumes "key_of (ln_store (link_step e a s)) b \<noteq> key_of (ln_store s) b" "key_of (ln_store (link_step e a s)) b \<noteq> None"
  shows "\<exists>ad k t. a = HciEventRead (EvLinkKeyNotification ad k t) \<and> eq_ignore_ascii_case ad b \<and> window_open e s"
proof (cases a)
  case (HciEventRead ev)
  then show ?thesis using event_policy [of s e ev] assms(1) normalize_eq by (metis link_step.simps(9))
next
  case (RemovePaired ad)
  then show ?thesis using removed_key [of e ad s b] assms by auto
next
  case LoopTick
  then show ?thesis using assms(1) recovery_calm [of s e] deadline_calm [of "recovery_page e s" e]
      reconcile_calm [of "ssp_deadline e (recovery_page e s)" e] by (simp add: calm_def)
next
  case Heartbeat
  then show ?thesis using assms(1) page_watchdog_calm [of s e] auth_watchdog_calm [of "page_watchdog e s" e] by (simp add: calm_def)
qed (use assms(1) disconnect_phone_calm [of s e] connect_calm [of s e] in \<open>auto simp: calm_def\<close>)

text \<open>C15 Whatever the operator asks, whatever the clocks say and whatever the controller reports, in
  any order: a phone that has a key in the store at the end that it did not have at the start was given it by a new
  key of the controller for that phone, read while the pairing window was open.\<close>

theorem bond_only_in_open_window:
  assumes "key_of (ln_store (link_run acts s)) b \<noteq> key_of (ln_store s) b" "store_contains (ln_store (link_run acts s)) b"
  shows "\<exists>before e ad k t after. acts = before @ (e, HciEventRead (EvLinkKeyNotification ad k t)) # after \<and>
    eq_ignore_ascii_case ad b \<and> window_is_open (le_epoch e) (ln_window (link_run before s))"
  using assms unfolding contains_key
proof (induction acts arbitrary: s)
  case (Cons x acts)
  obtain e a where x: "x = (e, a)" by (cases x)
  let ?s1 = "link_step e a s"
  show ?case
  proof (cases "key_of (ln_store ?s1) b \<noteq> key_of (ln_store s) b \<and> key_of (ln_store ?s1) b \<noteq> None")
    case True
    then obtain ad k t where "a = HciEventRead (EvLinkKeyNotification ad k t)" "eq_ignore_ascii_case ad b" "window_open e s"
      using step_key by blast
    then show ?thesis by (intro exI [of _ "[]"] exI [of _ e] exI [of _ ad] exI [of _ k] exI [of _ t] exI [of _ acts])
        (simp add: x window_open_def)
  next
    case False
    with Cons.prems have "key_of (ln_store (link_run acts ?s1)) b \<noteq> key_of (ln_store ?s1) b" by (auto simp: x)
    from Cons.IH [OF this] Cons.prems(2) obtain before e' ad k t after
      where "acts = before @ (e', HciEventRead (EvLinkKeyNotification ad k t)) # after" "eq_ignore_ascii_case ad b"
        "window_is_open (le_epoch e') (ln_window (link_run before ?s1))"
      by (auto simp: x)
    then show ?thesis
      by (intro exI [of _ "x # before"] exI [of _ e'] exI [of _ ad] exI [of _ k] exI [of _ t] exI [of _ after]) (simp add: x)
  qed
qed simp

lemma step_out: "quiet_out s (link_step e a s) \<or>
    (\<exists>ad p d c. a = ConfirmPairing ad True \<and> ln_confirm s = Some (p, d) \<and> eq_ignore_ascii_case p ad \<and>
      user_confirmation_request_reply_command p = Inr c \<and> ln_out (link_step e a s) = ln_out s @ [Cmd c] \<and>
      (ln_confirm (link_step e a s) = ln_confirm s \<or> ln_confirm (link_step e a s) = None))"
proof (cases a)
  case (HciEventRead ev)
  then show ?thesis using event_policy [of s e ev] by simp
next
  case (ConfirmPairing ad acc)
  then show ?thesis using confirm_cases [of s e ad acc] by auto
next
  case (RemovePaired ad)
  then show ?thesis using remove_quiet [of s e ad] by simp
next
  case LoopTick
  then show ?thesis using recovery_calm [of s e] deadline_calm [of "recovery_page e s" e]
      reconcile_calm [of "ssp_deadline e (recovery_page e s)" e] by (auto simp: calm_def intro: quiet_trans)
next
  case Heartbeat
  then show ?thesis using page_watchdog_calm [of s e] auth_watchdog_calm [of "page_watchdog e s" e]
    by (auto simp: calm_def intro: quiet_trans)
qed (use disconnect_phone_calm [of s e] connect_calm [of s e] in \<open>auto simp: calm_def quiet_out_def\<close>)

text \<open>A confirmation in the trace comes after its prompt, and the operator gave it.\<close>

definition confirmed_in :: "(LinkEnv \<times> link_act) list \<Rightarrow> link_out list \<Rightarrow> bool" where
  "confirmed_in acts out =
     (\<forall>pre c post. out = pre @ Cmd c # post \<longrightarrow> cmd_opcode c = OPCODE_USER_CONFIRMATION_REQUEST_REPLY \<longrightarrow>
        (\<exists>a n ad e. Tell (PairingConfirmRequired a n) \<in> set pre \<and> (e, ConfirmPairing ad True) \<in> set acts \<and>
           eq_ignore_ascii_case a ad \<and> user_confirmation_request_reply_command a = Inr c))"

definition prompted :: "PhoneLink \<Rightarrow> bool" where
  "prompted s = (\<forall>a d. ln_confirm s = Some (a, d) \<longrightarrow> (\<exists>n. Tell (PairingConfirmRequired a n) \<in> set (ln_out s)))"

lemma append_snoc_split: "xs @ ys = pre @ z # post \<Longrightarrow> (\<exists>p2. xs = pre @ z # p2) \<or> (\<exists>q. ys = q @ z # post \<and> pre = xs @ q)"
  by (auto simp: append_eq_append_conv2 append_eq_Cons_conv Cons_eq_append_conv)

lemma confirmed_step:
  assumes c: "confirmed_in acts (ln_out s)" and p: "prompted s"
  shows "confirmed_in (acts @ [(e, a)]) (ln_out (link_step e a s)) \<and> prompted (link_step e a s)"
  using step_out [of s e a]
proof
  assume "quiet_out s (link_step e a s)"
  then obtain new where new: "ln_out (link_step e a s) = ln_out s @ new" "\<not> list_ex confirms new"
    and cf: "ln_confirm (link_step e a s) = ln_confirm s \<or> ln_confirm (link_step e a s) = None \<or>
         (\<exists>a' d n. ln_confirm (link_step e a s) = Some (a', d) \<and> Tell (PairingConfirmRequired a' n) \<in> set new)"
    by (auto simp: quiet_out_def)
  have "confirmed_in (acts @ [(e, a)]) (ln_out s @ new)"
    unfolding confirmed_in_def
  proof (intro allI impI)
    fix pre c' post
    assume o: "ln_out s @ new = pre @ Cmd c' # post" and op: "cmd_opcode c' = OPCODE_USER_CONFIRMATION_REQUEST_REPLY"
    from append_snoc_split [OF o] new(2) op obtain p2 where "ln_out s = pre @ Cmd c' # p2"
      by (auto simp: list_ex_iff)
    with c op show "\<exists>a' n ad e'. Tell (PairingConfirmRequired a' n) \<in> set pre \<and> (e', ConfirmPairing ad True) \<in> set (acts @ [(e, a)]) \<and>
           eq_ignore_ascii_case a' ad \<and> user_confirmation_request_reply_command a' = Inr c'"
      by (fastforce simp: confirmed_in_def)
  qed
  with new(1) p cf show ?thesis by (auto simp: prompted_def)
next
  assume "\<exists>ad p d c. a = ConfirmPairing ad True \<and> ln_confirm s = Some (p, d) \<and> eq_ignore_ascii_case p ad \<and>
      user_confirmation_request_reply_command p = Inr c \<and> ln_out (link_step e a s) = ln_out s @ [Cmd c] \<and>
      (ln_confirm (link_step e a s) = ln_confirm s \<or> ln_confirm (link_step e a s) = None)"
  then obtain ad q d c' where a: "a = ConfirmPairing ad True" "ln_confirm s = Some (q, d)" "eq_ignore_ascii_case q ad"
    "user_confirmation_request_reply_command q = Inr c'" and out: "ln_out (link_step e a s) = ln_out s @ [Cmd c']"
    and cf: "ln_confirm (link_step e a s) = ln_confirm s \<or> ln_confirm (link_step e a s) = None" by blast
  from p a(2) obtain n where told: "Tell (PairingConfirmRequired q n) \<in> set (ln_out s)" by (auto simp: prompted_def)
  have "confirmed_in (acts @ [(e, a)]) (ln_out s @ [Cmd c'])"
    unfolding confirmed_in_def
  proof (intro allI impI)
    fix pre c'' post
    assume o: "ln_out s @ [Cmd c'] = pre @ Cmd c'' # post" and op: "cmd_opcode c'' = OPCODE_USER_CONFIRMATION_REQUEST_REPLY"
    show "\<exists>a' n ad' e'. Tell (PairingConfirmRequired a' n) \<in> set pre \<and> (e', ConfirmPairing ad' True) \<in> set (acts @ [(e, a)]) \<and>
           eq_ignore_ascii_case a' ad' \<and> user_confirmation_request_reply_command a' = Inr c''"
      using append_snoc_split [OF o]
    proof
      assume "\<exists>p2. ln_out s = pre @ Cmd c'' # p2"
      with c op show ?thesis by (fastforce simp: confirmed_in_def)
    next
      assume "\<exists>q'. [Cmd c'] = q' @ Cmd c'' # post \<and> pre = ln_out s @ q'"
      with told a show ?thesis by (auto simp: Cons_eq_append_conv)
    qed
  qed
  with out p cf show ?thesis by (auto simp: prompted_def)
qed

lemma confirmed_run:
  "confirmed_in past (ln_out s) \<Longrightarrow> prompted s \<Longrightarrow> confirmed_in (past @ acts) (ln_out (link_run acts s)) \<and> prompted (link_run acts s)"
proof (induction acts arbitrary: past s)
  case (Cons x acts)
  obtain e a where x: "x = (e, a)" by (cases x)
  from confirmed_step [OF Cons.prems, of e a] Cons.IH [of "past @ [(e, a)]" "link_step e a s"] show ?case by (simp add: x)
qed simp

text \<open>A new key in an open window is kept.\<close>

lemma new_key_kept:
  assumes "window_is_open (le_epoch e) (ln_window s)"
  shows "key_of (ln_store (link_step e (HciEventRead (EvLinkKeyNotification a k t)) s)) =
    key_of (snd (store_put (le_seal e) (le_store_write e) a k t (ln_store s)))"
proof -
  let ?ev = "EvLinkKeyNotification a k t"
  obtain st cmds where st: "st = snd (snd (handled e ?ev (started_by ?ev s)))"
    and c: "calm ((started_by ?ev s)\<lparr>ln_store := st, ln_out := ln_out s @ map Cmd cmds\<rparr>) (snd (apply_policy e ?ev s))"
    using policy_calm [of e ?ev s] by metis
  have "st = snd (store_put (le_seal e) (le_store_write e) a k t (ln_store s))"
    using assms by (simp add: st handled_def handler_split may_complete_new_bond_def policy_runtime_def window_open_def split: prod.split sum.split)
  moreover have "key_of (ln_store (snd (on_hci_event e ?ev s))) = key_of (ln_store (snd (apply_policy e ?ev s)))"
    using after_policy_calm [of "snd (apply_policy e ?ev s)" e "store_len (ln_store s)" ?ev]
    by (cases "apply_policy e ?ev s")
      (auto simp: on_hci_event_def hardware_error_code_def is_second_request_def calm_def split: link_flow.split)
  ultimately show ?thesis using c by (simp add: calm_def)
qed

text \<open>C16 In any run that starts without a held confirmation: a positive confirmation that was handed
  to the controller came after the operator was shown the code of that phone, the operator accepted for that phone, and
  it is the confirmation of that phone.\<close>

theorem bond_confirmed_by_operator:
  assumes "ln_out s = []" "ln_confirm s = None"
    and "ln_out (link_run acts s) = pre @ Cmd c # post" "cmd_opcode c = OPCODE_USER_CONFIRMATION_REQUEST_REPLY"
  shows "\<exists>a n ad e. Tell (PairingConfirmRequired a n) \<in> set pre \<and> (e, ConfirmPairing ad True) \<in> set acts \<and>
    eq_ignore_ascii_case a ad \<and> user_confirmation_request_reply_command a = Inr c"
proof -
  have "confirmed_in [] (ln_out s)" "prompted s" using assms(1,2) by (simp_all add: confirmed_in_def prompted_def)
  from confirmed_run [OF this, of acts] have "confirmed_in acts (ln_out (link_run acts s))" by simp
  with assms(3,4) show ?thesis unfolding confirmed_in_def by blast
qed

section \<open>Where the code differs from what it says\<close>

lemma held_confirmation:
  assumes "window_is_open (le_epoch e) (ln_window s)"
  shows "link_step e (HciEventRead (EvUserConfirmationRequest p v)) s =
    hold_confirmation e p v s"
proof -
  have "apply_policy e (EvUserConfirmationRequest p v) s = (Proceed, hold_confirmation e p v s)"
    using assms by (simp add: apply_policy_def started_by_def handler_split may_complete_new_bond_def policy_runtime_def window_open_def)
  then show ?thesis
    by (simp add: on_hci_event_def hardware_error_code_def is_second_request_def after_policy_def peer_walked_away_def bond_landed_def
        forward_hci_event_def audio_complete_def name_answered_def connection_complete_def authentication_complete_def
        encryption_change_def disconnection_complete_def hold_confirmation_def put_out_def)
qed

text \<open>C17 The code of a phone is shown while the window is open, the operator accepts it, and the
  window ends before the key of the new bond arrives: the acceptance is sent to the phone, and the key is not kept.\<close>

theorem accepted_after_window_lost:
  assumes "window_is_open (le_epoch e1) (ln_window s)" "\<not> window_is_open (le_epoch e3) (ln_window s)"
    and "parse_bd_addr p = Inr b" "\<not> store_contains (ln_store s) p"
    and "s2 = link_run [(e1, HciEventRead (EvUserConfirmationRequest p v)), (e2, ConfirmPairing p True)] s"
  shows "(\<exists>c. user_confirmation_request_reply_command p = Inr c \<and> Cmd c \<in> set (ln_out s2)) \<and>
    \<not> store_contains (ln_store (link_step e3 (HciEventRead (EvLinkKeyNotification p k t)) s2)) p"
proof
  let ?s1 = "hold_confirmation e1 p v s"
  have s2: "s2 = snd (confirm_pairing e2 p True ?s1)" using held_confirmation [OF assms(1), of p v] by (simp add: assms(5))
  obtain c where c: "user_confirmation_request_reply_command p = Inr c"
    using assms(3) by (auto simp: user_confirmation_request_reply_command_def address_command_def address_params_def and_then_def)
  then have out: "Cmd c \<in> set (ln_out s2)"
    by (auto simp: s2 confirm_pairing_def hold_confirmation_def send_built_def link_defs eq_ignore_ascii_case_def split: sum.split)
  with c show "\<exists>c. user_confirmation_request_reply_command p = Inr c \<and> Cmd c \<in> set (ln_out s2)" by blast
  have w: "ln_window s2 = ln_window s"
    by (auto simp: s2 confirm_pairing_def hold_confirmation_def send_built_def link_defs split: sum.split)
  have st: "ln_store s2 = ln_store s" by (simp add: s2) (simp add: hold_confirmation_def link_defs)
  show "\<not> store_contains (ln_store (link_step e3 (HciEventRead (EvLinkKeyNotification p k t)) s2)) p"
  proof
    assume "store_contains (ln_store (link_step e3 (HciEventRead (EvLinkKeyNotification p k t)) s2)) p"
    with step_key [of e3 "HciEventRead (EvLinkKeyNotification p k t)" s2 p] assms(4) st
    have "window_open e3 s2" unfolding contains_key by metis
    with assms(2) w show False by (simp add: window_open_def)
  qed
qed

text \<open>What the rest of the handler leaves of the prompt and of the window.\<close>

lemma sends_keep [simp]:
  "ln_confirm (snd (send_built e c s)) = ln_confirm s" "ln_window (snd (send_built e c s)) = ln_window s"
  by (simp_all add: send_built_def link_defs split: sum.split)

lemma keep_name_keeps [simp]:
  "ln_confirm (keep_name e a n s) = ln_confirm s" "ln_window (keep_name e a n s) = ln_window s"
  by (simp_all add: keep_name_def link_defs Let_def split: prod.split)

lemma forward_keeps [simp]:
  "ln_confirm (forward_hci_event ev s) = ln_confirm s" "ln_window (forward_hci_event ev s) = ln_window s"
  by (simp_all add: forward_hci_event_def link_defs split: HciEvent.split)

lemma audio_complete_keeps [simp]:
  "ln_confirm (audio_complete e ev s) = ln_confirm s" "ln_window (audio_complete e ev s) = ln_window s"
  by (simp_all add: audio_complete_def link_defs Let_def split: HciEvent.split)

lemma name_answered_keeps [simp]:
  "ln_confirm (name_answered e ev s) = ln_confirm s" "ln_window (name_answered e ev s) = ln_window s"
  by (simp_all add: name_answered_def Let_def split: HciEvent.split)

lemma connection_keeps [simp]:
  "ln_confirm (connection_complete e ev s) = ln_confirm s" "ln_window (connection_complete e ev s) = ln_window s"
proof -
  have "ln_confirm (link_up e st h a lt s) = ln_confirm s" "ln_window (link_up e st h a lt s) = ln_window s" for st h a lt s
    by (simp_all add: link_up_def) (simp_all add: link_defs)
  moreover have "ln_confirm (page_answered e st h a lt s) = ln_confirm s" "ln_window (page_answered e st h a lt s) = ln_window s" for st h a lt s
    by (simp_all add: page_answered_def link_defs Let_def split: option.split sum.split)
  ultimately show "ln_confirm (connection_complete e ev s) = ln_confirm s" "ln_window (connection_complete e ev s) = ln_window s"
    by (simp_all add: connection_complete_def split: HciEvent.split)
qed

lemma authentication_keeps [simp]:
  "ln_confirm (authentication_complete e ev s) = ln_confirm s" "ln_window (authentication_complete e ev s) = ln_window s"
  by (simp_all add: authentication_complete_def link_defs split: HciEvent.split option.split sum.split)

lemma encryption_keeps [simp]:
  "ln_confirm (encryption_change e ev s) = ln_confirm s" "ln_window (encryption_change e ev s) = ln_window s"
  by (simp_all add: encryption_change_def link_defs Let_def split: HciEvent.split option.split)

lemma disconnection_keeps [simp]:
  "ln_confirm (disconnection_complete e ev s) = ln_confirm s" "ln_window (disconnection_complete e ev s) = ln_window s"
proof -
  have "ln_confirm (phone_gone h s) = ln_confirm s" "ln_window (phone_gone h s) = ln_window s"
    "ln_confirm (audio_gone e h r s) = ln_confirm s" "ln_window (audio_gone e h r s) = ln_window s" for h r s
    by (simp_all add: phone_gone_def audio_gone_def link_defs Let_def)
  then show "ln_confirm (disconnection_complete e ev s) = ln_confirm s" "ln_window (disconnection_complete e ev s) = ln_window s"
    by (simp_all add: disconnection_complete_def put_out_def split: HciEvent.split)
qed

lemma bond_landed_keeps [simp]: "ln_confirm (bond_landed n s) = ln_confirm s"
  by (simp add: bond_landed_def link_defs Let_def)

lemma walked_away_keeps [simp]:
  "ln_window (peer_walked_away ev s) = ln_window s" "ln_store (peer_walked_away ev s) = ln_store s"
  by (simp_all add: peer_walked_away_def link_defs split: HciEvent.split)

text \<open>The end of any link, the phone's or not, takes the prompt away without an answer to the phone.\<close>

lemma any_disconnect_clears_prompt:
  "ln_confirm (link_step e (HciEventRead (EvDisconnectionComplete st h r)) s) = None"
proof -
  have "ln_confirm (peer_walked_away (EvDisconnectionComplete st h r) x) = None" for x
    by (cases "ln_confirm x") (simp_all add: peer_walked_away_def clear_confirm_def)
  moreover have "fst (apply_policy e (EvDisconnectionComplete st h r) s) = Proceed"
    by (simp add: apply_policy_def started_by_def handler_split)
  ultimately show ?thesis
    by (cases "apply_policy e (EvDisconnectionComplete st h r) s")
      (simp add: on_hci_event_def hardware_error_code_def is_second_request_def after_policy_def)
qed

text \<open>A phone that is paired again while it is bonded leaves the window open.\<close>

lemma insert_bonded: "map_of m k = Some v \<Longrightarrow> bt_wf m \<Longrightarrow> length (bt_insert k r m) = length m"
proof (induction k r m rule: bt_insert.induct)
  case (2 k r a b m)
  have "\<forall>x \<in> set m. a < fst x" "bt_wf m" using 2(3) by (simp_all add: bt_wf_def)
  moreover from this have "map_of m k = None" if "k < a" using that
    by (metis map_of_SomeD not_None_eq fst_conv less_asym)
  ultimately show ?case using 2 by (auto split: if_splits)
qed simp

lemma rebond_leaves_window_open:
  assumes "store_contains (ln_store s) p" "bt_wf (ps_records (ln_store s))"
  shows "ln_window (link_step e (HciEventRead (EvLinkKeyNotification p k t)) s) = ln_window s"
proof -
  let ?ev = "EvLinkKeyNotification p k t"
  have s: "ps_records (snd (store_save w x)) = ps_records x" for w x by (simp add: store_save_def split: option.split)
  have put: "store_len (snd (store_put y w p k t (ln_store s))) = store_len (ln_store s)" for y w
    using assms by (auto simp: store_put_def store_len_def Let_def s store_contains_def insert_bonded split: sum.split)
  have name: "store_len (snd (store_set_name w a n st)) = store_len st" for w a n st
    by (simp add: store_set_name_def Let_def store_len_def s bt_update_def split: option.split)
  have keep: "store_len (ln_store (keep_name e a n x)) = store_len (ln_store x)" for a n x
    using name [of "le_name_write e" a n "ln_store x"] by (auto simp: keep_name_def link_defs Let_def split: prod.split)
  have len: "store_len (snd (snd (handled e ?ev (started_by ?ev s)))) = store_len (ln_store s)"
    using put by (auto simp: handled_def handler_split split: prod.split sum.split) (metis snd_conv)+
  have ap: "ln_window (snd (apply_policy e ?ev s)) = ln_window s \<and> store_len (ln_store (snd (apply_policy e ?ev s))) = store_len (ln_store s)"
  proof -
    obtain cmds r st where h: "handled e ?ev (started_by ?ev s) = (cmds, r, st)" by (metis prod_cases3)
    with len have "store_len st = store_len (ln_store s)" by simp
    with h show ?thesis
      by (auto simp: apply_policy_def Let_def handled_def bonded_now_def hold_confirmation_def end_unopened_def link_defs keep
          split: sum.split option.split PairingOutcome.split)
  qed
  show ?thesis
  proof (cases "apply_policy e ?ev s")
    case (Pair flow s')
    with ap have "ln_window s' = ln_window s" "store_len (ln_store s') = store_len (ln_store s)" by simp_all
    with Pair show ?thesis
      by (simp add: on_hci_event_def hardware_error_code_def is_second_request_def after_policy_def bond_landed_def split: link_flow.split)
  qed
qed

text \<open>A page that is answered after another phone took the line: the link of the paged phone is ended, and yet the session
  of the connected phone is marked as one Aokie paged.\<close>

lemma crossed_page_marks_session:
  assumes "ln_acl s = Some h1" "ln_remote s \<noteq> []" "\<not> eq_ignore_ascii_case (ln_remote s) p" "ln_manual s = Some (p, t0)" "h \<noteq> h1"
    and "write_command (le_io e) (authentication_requested_command h) = Inr ()"
  shows "let s' = link_step e (HciEventRead (EvConnectionComplete 0 h p LINK_TYPE_ACL enc)) s in
    ln_acl s' = Some h1 \<and> ln_remote s' = ln_remote s \<and> ln_outbound s' \<and> map_option ma_connection_handle (ln_auth s') = Some h"
proof -
  have "apply_policy e (EvConnectionComplete 0 h p LINK_TYPE_ACL enc) s = (Proceed, s)"
    by (simp add: apply_policy_def started_by_def handler_split)
  with assms show ?thesis
    by (simp add: on_hci_event_def hardware_error_code_def is_second_request_def after_policy_def peer_walked_away_def bond_landed_def
        forward_hci_event_def another_phone_holds_the_link_def other_than_def audio_complete_def name_answered_def
        connection_complete_def link_up_def page_answered_def link_defs eq_ignore_ascii_case_def authentication_complete_def
        encryption_change_def disconnection_complete_def Let_def)
qed

text \<open>After a reopen of the dongle the application still shows the code of a pairing that is gone, and its answer is refused.\<close>

lemma stale_prompt_after_reopen:
  "ln_slot (next_run now store r (snd (mark_transport_down s))) = ln_slot s \<and>
   fst (confirm_pairing e address accept (next_run now store r (snd (mark_transport_down s)))) = Inl NothingPending"
  by (simp add: next_run_def mark_transport_down_def put_out_def Let_def confirm_pairing_def)

section \<open>Concrete runs\<close>

definition quiet_io :: HciIo where
  "quiet_io = \<lparr>io_return = (\<lambda>_ _. Inr [0]), io_write = (\<lambda>_. None)\<rparr>"

definition env_at :: "nat \<Rightarrow> LinkEnv" where
  "env_at seconds =
     \<lparr>le_now = seconds * 1000, le_epoch = seconds, le_seal = plain_system, le_store_write = None, le_name_write = None,
      le_io = quiet_io, le_error_text = (\<lambda>_. []), le_legacy_pin = False, le_role_switch = True, le_hfp_start = None,
      le_alt_setting = True, le_call_in_progress = False, le_call_up = False\<rparr>"

definition link_at_rest :: PhoneLink where
  "link_at_rest =
     \<lparr>ln_store = empty_store, ln_window = 0, ln_confirm = None, ln_slot = None, ln_discoverable = False, ln_acl = None,
      ln_sco = None, ln_remote = [], ln_remote_name = None, ln_connected = False, ln_manual = None, ln_auth = None,
      ln_recovery = None, ln_refused = {}, ln_outbound = False, ln_hfp_connect = None, ln_snapshot = [], ln_codec = None,
      ln_link_codec = None, ln_call_active = False, ln_sample_rate = 0, ln_out = []\<rparr>"

definition some_phone :: rstr where "some_phone = lit ''02:5A:1C:77:88:99''"

lemma some_phone_address: "parse_bd_addr some_phone = Inr [0x99, 0x88, 0x77, 0x1C, 0x5A, 0x02]"
  by (simp add: some_phone_def parse_bd_addr_def u8_from_hex_def hex_value_def str_len_def utf8_len_def)

lemma opened_at_rest: "ln_window (link_step (env_at 1000) (OpenWindow 60) link_at_rest) = 1060"
  by (simp add: env_at_def window_open_for_def sat_add64_def)

theorem accepted_after_window_lost_witness:
  "let s = link_step (env_at 1000) (OpenWindow 60) link_at_rest;
       s2 = link_run [(env_at 1050, HciEventRead (EvUserConfirmationRequest some_phone 123456)), (env_at 1061, ConfirmPairing some_phone True)] s in
   (\<exists>c. user_confirmation_request_reply_command some_phone = Inr c \<and> Cmd c \<in> set (ln_out s2)) \<and>
   \<not> store_contains (ln_store (link_step (env_at 1062) (HciEventRead (EvLinkKeyNotification some_phone (replicate 16 5) 4)) s2)) some_phone"
proof -
  let ?s = "link_step (env_at 1000) (OpenWindow 60) link_at_rest"
  have "window_is_open (le_epoch (env_at 1050)) (ln_window ?s)" "\<not> window_is_open (le_epoch (env_at 1062)) (ln_window ?s)"
    unfolding opened_at_rest by (simp_all add: window_is_open_def window_remaining_def env_at_def)
  moreover have "\<not> store_contains (ln_store ?s) some_phone" by (simp add: link_at_rest_def empty_store_def store_contains_def)
  ultimately show ?thesis unfolding Let_def
    by (intro accepted_after_window_lost [OF _ _ some_phone_address _ refl]) simp_all
qed

theorem bond_confirmed_by_operator_witness:
  "\<exists>a n ad e. Tell (PairingConfirmRequired a n) \<in> set [Tell (PairingConfirmRequired some_phone 123456)] \<and>
     (e, ConfirmPairing ad True) \<in> set [(env_at 1000, OpenWindow 60),
        (env_at 1050, HciEventRead (EvUserConfirmationRequest some_phone 123456)), (env_at 1055, ConfirmPairing some_phone True)] \<and>
     eq_ignore_ascii_case a ad \<and>
     user_confirmation_request_reply_command a = Inr (hci_command OPCODE_USER_CONFIRMATION_REQUEST_REPLY [0x99, 0x88, 0x77, 0x1C, 0x5A, 0x02])"
proof (rule bond_confirmed_by_operator [of link_at_rest])
  let ?s = "link_step (env_at 1000) (OpenWindow 60) link_at_rest"
  have "window_is_open (le_epoch (env_at 1050)) (ln_window ?s)"
    unfolding opened_at_rest by (simp add: window_is_open_def window_remaining_def env_at_def)
  from held_confirmation [OF this, of some_phone 123456] show
    "ln_out (link_run [(env_at 1000, OpenWindow 60),
        (env_at 1050, HciEventRead (EvUserConfirmationRequest some_phone 123456)), (env_at 1055, ConfirmPairing some_phone True)] link_at_rest) =
     [Tell (PairingConfirmRequired some_phone 123456)] @ Cmd (hci_command OPCODE_USER_CONFIRMATION_REQUEST_REPLY [0x99, 0x88, 0x77, 0x1C, 0x5A, 0x02]) # []"
    by (simp add: confirm_pairing_def hold_confirmation_def link_defs send_built_def user_confirmation_request_reply_command_def
        address_command_def address_params_def and_then_def some_phone_address write_command_def env_at_def quiet_io_def
        eq_ignore_ascii_case_def link_at_rest_def)
qed (simp_all add: link_at_rest_def)

theorem bond_only_in_open_window_witness:
  "\<exists>before e ad k t after.
     [(env_at 1000, OpenWindow 60), (env_at 1050, HciEventRead (EvLinkKeyNotification some_phone (replicate 16 5) 4))] =
       before @ (e, HciEventRead (EvLinkKeyNotification ad k t)) # after \<and>
     eq_ignore_ascii_case ad some_phone \<and> window_is_open (le_epoch e) (ln_window (link_run before link_at_rest))"
proof -
  let ?acts = "[(env_at 1000, OpenWindow 60), (env_at 1050, HciEventRead (EvLinkKeyNotification some_phone (replicate 16 5) 4))]"
  let ?s = "link_step (env_at 1000) (OpenWindow 60) link_at_rest"
  have "window_is_open (le_epoch (env_at 1050)) (ln_window ?s)"
    unfolding opened_at_rest by (simp add: window_is_open_def window_remaining_def env_at_def)
  from new_key_kept [OF this, of some_phone "replicate 16 5" 4]
  have "key_of (ln_store (link_run ?acts link_at_rest)) = key_of (snd (store_put plain_system None some_phone (replicate 16 5) 4 empty_store))"
    by (simp add: env_at_def link_at_rest_def)
  moreover have "key_of (snd (store_put plain_system None some_phone (replicate 16 5) 4 empty_store)) some_phone \<noteq> None"
    by (simp add: key_of_def store_put_def Let_def platform_supported_def plain_system_def protect_def seal_with_key_def empty_store_def store_save_def)
  moreover have "key_of (ln_store link_at_rest) some_phone = None" by (simp add: key_of_def link_at_rest_def empty_store_def)
  ultimately show ?thesis by (intro bond_only_in_open_window) (simp_all add: contains_key del: link_run.simps)
qed

end
