(* ===== verification/Spec2Isabelle.thy ===== *)
theory Spec2Isabelle
  imports Rfcomm_Client Rfcomm_Slc Hfp_Calls Hfp_At Hfp_Connect Obex Msbc_H2
    Usb_Hci Sco Transport_Recovery Pbap_Runtime Map_Drive Bmessage Acl_Stream Phone_Link
begin

text \<open>
  A verification development for the radio of Aokie, the user-space Bluetooth hands-free stack in
  \<open>src/crates/aokie-bluetooth\<close>.

  \<^bold>\<open>The program.\<close>  Aokie answers telephone calls for a person: a USB Bluetooth dongle is driven
  directly, without the operating system's stack, as a hands-free unit of a mobile phone.  On top of
  HCI and L2CAP the crate runs RFCOMM (\<open>aokie_radio/rfcomm.rs\<close>), over one RFCOMM channel the
  hands-free profile (\<open>aokie_radio/hfp.rs\<close>), over further channels OBEX (\<open>aokie_radio/obex.rs\<close>)
  for the phone book (\<open>pbap.rs\<close>, \<open>vcard.rs\<close>) and messages (\<open>map_mas.rs\<close>, \<open>map_mns.rs\<close>, \<open>map_listing.rs\<close>,
  \<open>bmessage.rs\<close>), and beside them wide-band speech over SCO (\<open>msbc/\<close>).  The other
  crates (plugin, companion protocol, real-time service, mobile application) consume its events.

  \<^bold>\<open>Interaction of the parts.\<close>  The L2CAP layer (\<open>aokie_radio/l2cap.rs\<close>) reassembles ACL packets, keeps the
  table of channels and hands the payload of an open channel to its handler: the SDP server
  (\<open>sdp.rs\<close>), one of two RFCOMM machines, or a capture buffer of a profile runtime.  The RFCOMM responder
  runs when the phone opened the multiplexer, the initiator when Aokie did.  Both parse a packet with the
  frame codec and return the frames to send.  The responder feeds the payload of the hands-free DLCI to the
  AT result parser, the results to the call state, and drives the queue of set-up commands; it also
  carries outbound DLCIs for OBEX clients on the same multiplexer.  The initiator does the same under the
  hands-free client (\<open>hfp_client.rs\<close>), which the reconnect runtime (\<open>hfp_connect.rs\<close>) starts after it
  looked up the phone's gateway with the SDP client (\<open>sdp_client.rs\<close>) over a channel of its own.  The
  consumer drains the events of both.  In the audio path the packager cuts the encoded stream into SCO payloads and the framer and
  the H2 decoder take the received ones apart.

  \<^bold>\<open>Theories.\<close>
  \<^item> \<open>Prelude\<close>: machine words and octets, results as sums (\<open>Inl\<close> is \<open>Err\<close>), big-endian integers, bit
    arithmetic of the wire formats and list facts behind the event queues.
  \<^item> \<open>Rust_Str\<close>: the parts of Rust's \<open>str\<close> and \<open>String\<close> that the sources use: UTF-8 and UTF-16
    decoding, trimming, splitting, prefix stripping and number parsing.
  \<^item> \<open>Rfcomm_Frame\<close>: frames, check sequence, lengths and multiplexer commands of \<open>rfcomm.rs\<close>.
    Lemmas: round trips of frames and commands, detection of damaged octets.
  \<^item> \<open>Rfcomm_Dlci\<close>: the interface of a multiplexer that carries outbound DLCIs, as a locale, and what a
    client of either machine may rely on.
  \<^item> \<open>Rfcomm_Client\<close>: \<open>RfcommClientState\<close> and all its operations.  Lemmas: the credit invariant, the
    isolation of DLCIs, the handshake, the refinement of an abstract life cycle, event draining.
  \<^item> \<open>Hfp\<close>: the data and operations of the call state in \<open>hfp.rs\<close>; \<open>Hfp_Calls\<close>: its invariant and the
    call-level properties; \<open>Hfp_At\<close>: commands and the result parser.
  \<^item> \<open>Hfp_Setup\<close>: what the two set-up machines share, the queue of commands and, as a locale, the law that a
    phone that answers brings the connection up.
  \<^item> \<open>Rfcomm_Server\<close>: \<open>RfcommState\<close> and all its operations; \<open>Rfcomm_Slc\<close>: the set-up of the
    service-level connection, its failures, and the outbound DLCIs of the shared multiplexer.
  \<^item> \<open>Hfp_Client\<close>: \<open>HfpClientState\<close> and all its operations; interpretations of the multiplexer and the
    set-up interfaces, completion of the set-up, and its two ways to stop unreported.
  \<^item> \<open>Wire_Codec\<close>: the interface of self-delimiting encodings, interpreted for OBEX headers, SDP elements,
    SDP records and L2CAP signalling commands.  \<open>Btree_Map\<close>: ordered maps and their interface.
  \<^item> \<open>Sdp\<close>: data elements, the records Aokie registers and the server; \<open>Sdp_Client\<close>: queries and the
    reading of answers.  Lemmas: round trips, the client finds exactly what the server registered.
  \<^item> \<open>L2cap_Wire\<close>: packets and signalling commands of \<open>l2cap.rs\<close>; \<open>L2cap\<close>: \<open>L2capState\<close> and all its
    operations; \<open>L2cap_Inv\<close>: the invariant of the table, identifier allocation and the watchdog;
    \<open>L2cap_Link\<close>: reassembly, error isolation, and two ends that open a channel.
  \<^item> \<open>Hfp_Connect\<close>: \<open>HfpConnectRuntime\<close> over the L2CAP layer: one outcome, discovery, start of the client.
  \<^item> \<open>Rust_Text\<close>: UTF-8 encoding, lossy decoding, hexadecimal and searches in text.  \<open>Chunked_Stream\<close>: the
    interface of byte streams that arrive in pieces, interpreted for events and voice packets.
  \<^item> \<open>Hci\<close>: commands, packets and events of \<open>hci.rs\<close>; \<open>Usb_Hci\<close>: events off the interrupt pipe, alternate
    settings and isochronous frames of \<open>usb_hci.rs\<close>.  Lemmas: addresses and events are read as they were
    sent however they were cut, the inquiry response is well-formed, frames carry a packet whole.
  \<^item> \<open>Sco\<close>: voice packets, their assembler and the outgoing queue of \<open>sco.rs\<close>.  Lemmas: the assembler never
    fails and finds the packets again after a loss, the queue accounts for every sample and falls silent.
  \<^item> \<open>Transport_Recovery\<close>: the recovery ladder and the errors ridden out, both bounded over an interface of
    sliding windows.
  \<^item> \<open>Obex\<close>: headers, packets, request builders and the body assembler.
  \<^item> \<open>Obex_Get\<close>: what the two client sessions share, and the interface of a session that fetches a body, with the
    body it ends with proved once.  \<open>Pbap\<close>: the phone-book session; \<open>Map_Mas\<close>: the message-access session with its
    folder walk and pooled operations; \<open>Map_Mns\<close>: the server for the phone's notifications.  Lemmas: downloads give
    what was written, an operation is only sent in its folder, refusals are recognised, reports are delivered however
    their octets were cut.
  \<^item> \<open>Obex_Drive\<close>: what the runtimes of the two client sessions share: the loop that cuts a stream into packets and drives
    a session, the ways to send, and the interface of a stream that may be cut anywhere.  \<open>Pbap_Runtime\<close>,
    \<open>Map_Runtime\<close>: the runtimes over SDP, L2CAP and RFCOMM.  Lemmas: a fetch and an operation are delivered once however
    their answers were cut, split records are gathered, the gathering is bounded, which waits have no limit.
  \<^item> \<open>Text_Ledger\<close>: the texts of a run and their answers (\<open>TextLedger\<close> of \<open>runtime.rs\<close>); \<open>Text_Match\<close>: how a text is known
    again in a listing, and which received messages are new; \<open>Text_Queue\<close>: the queue of message operations;
    \<open>Map_Drive\<close>: the driver of the session, the schedule of listings and the watch over a stalled session.  Lemmas: one
    answer per text, an answered text is not sent again, a text is carried by one operation in every order of the
    loop's turns, and the two ways in which that or its progress is lost.
  \<^item> \<open>Acl_Stream\<close>: the accumulator of ACL octets in \<open>runtime.rs\<close>, its resynchronisation, the corruption detector and the
    drain loop.  Lemmas: the loop ends, and after a loss every packet behind the noise is handed on.
  \<^item> \<open>Sealing\<close>: \<open>dpapi.rs\<close> and \<open>keychain_seal.rs\<close> of \<open>aokie-core\<close>: base64, the sealed tokens over a cipher given as a
    parameter, and the cell that asks for the data key.  \<open>Pairing_Store\<close>: \<open>pairing_store.rs\<close>.  Lemmas: what was sealed
    opens, one key per process, bounded waits; keys are sealed at rest, a bond survives a restart.
  \<^item> \<open>Pairing\<close>: the admission and bonding policy of \<open>manager.rs\<close> and the pairing window; \<open>Phone_Link\<close>: the part of the main
    loop of \<open>runtime.rs\<close> that keeps the link: the operator's commands, the held confirmation, pages, the security
    handshake and the controller's events.  Lemmas: a key is only taken in an open window, a pairing is only confirmed
    by the operator who saw its code, and the places where the loop does not do what its comments say.
  \<^item> \<open>Vcard\<close>, \<open>Bmessage\<close>, \<open>Map_Listing\<close>: the text formats of contacts, messages and listings, each with a reference
    writer or the code's own, and the theorem that what was written is read back.
  \<^item> \<open>Msbc_Frame\<close>: check octet, bit allocation and frame layout of the speech codec; \<open>Msbc_H2\<close>: H2
    packets, loss count, stream framer and stream packager.

  \<^bold>\<open>How the model corresponds to the code.\<close>  A struct is a record and an enum a datatype, both with the
  source's names; a method takes the record and returns it updated next to its result; \<open>Result\<close> is a
  sum; \<open>u8\<close>, \<open>u16\<close> and \<open>u32\<close> are words, so that sums wrap as a release build's do; a \<open>HashMap\<close> is a map, a
  \<open>BTreeMap\<close> whose order is visible an ordered list of entries; a \<open>String\<close> is a list of characters or
  scalar values.  Log output is left out.  A clock read is an argument.  The closures of registered server
  channels and the filter banks of the codec are arguments of the operations that call them; the payload
  handlers of L2CAP are the constructors of \<open>psm_handler\<close>, one for each closure the repository installs,
  and the buffers and server-channel state they share are the record \<open>Shared\<close>.

  \<^bold>\<open>Bounds and termination.\<close>  No definition has fuel: the loops over packets, headers, lines, queues
  and buffers are structural or come with a measure.  The bound of 540 octets on an SCO payload in the
  stream theorem is the buffer bound of the framer (600) less one incomplete packet; the fragment
  theorem for AT results asks for tails within the carry bound of the parser.

  \<^bold>\<open>Not modelled.\<close>  The float filter banks of the codec, the threads and sockets of the runtime, the USB
  transports and firmware download, the operating-system back ends, and the crates above the radio.

  \<^bold>\<open>Plan.\<close>  Next: the rest of \<open>runtime.rs\<close>, then the pure state machines of the plugin (transfer, outbox, leases) and of the companion
  protocol.
\<close>

end
